(* ===== verification/Prelude.thy ===== *)
theory Prelude
  imports Main "HOL-Library.Word" "HOL-Library.Monad_Syntax"
begin

text \<open>
  Shared vocabulary of the development: the machine integers of the protocol code, the
  error type of \<open>base/error.hpp\<close>, the byte-order conversions that every reader and writer
  rests on, and the collections of rewrite rules the component theories extend.

  Sizes and offsets (\<open>std::size_t\<close>) are \<open>nat\<close>: every one of them is bounded by the
  length of a buffer in memory, so no sum of them wraps around at 64 bits. Fields of fixed
  width are words.
\<close>

unbundle bit_operations_syntax

type_synonym byte = "8 word"
type_synonym u16 = "16 word"
type_synonym u32 = "32 word"
type_synonym u64 = "64 word"
type_synonym bytes = "byte list"

named_theorems rd_simps "how the reads of a decoder step over the bytes in front of them"
named_theorems wr_simps "what a write appends"
named_theorems safe_intros "parsers that stay inside their input"

section \<open>Errors\<close>

text \<open>\<open>farland::Errc\<close> and \<open>farland::Error\<close>; \<open>Result<T>\<close> is the sum \<open>error + 'a\<close>.\<close>

datatype errc = Truncated | InvalidValue | InvalidLength | Unsupported | LimitExceeded
  | TrailingData | Io

record error =
  err_code :: errc
  err_what :: string
  err_offset :: nat

type_synonym 'a result = "error + 'a"

definition fail :: "errc \<Rightarrow> string \<Rightarrow> nat \<Rightarrow> 'a result" where
  "fail c what off = Inl \<lparr>err_code = c, err_what = what, err_offset = off\<rparr>"

lemma fail_neq_Inr [simp]: "fail c s n \<noteq> Inr x" "Inr x \<noteq> fail c s n"
  by (simp_all add: fail_def)

lemma isl_fail [simp]: "isl (fail c s n)"
  by (simp add: fail_def)

lemma case_sum_fail [simp]: "case_sum f g (fail c s n) = f \<lparr>err_code = c, err_what = s, err_offset = n\<rparr>"
  by (simp add: fail_def)

section \<open>Byte order\<close>

text \<open>
  The loops of \<open>Reader::read_le\<close>, \<open>Reader::read_be\<close>, \<open>Writer::write_le\<close> and
  \<open>Writer::write_be\<close>, generic in the integer type as the templates are.
\<close>

definition le_value :: "bytes \<Rightarrow> 'a::len word" where
  "le_value raw = fold (\<lambda>i v. v OR push_bit (8 * i) (ucast (raw ! i))) [0..<length raw] 0"

definition be_value :: "bytes \<Rightarrow> 'a::len word" where
  "be_value raw = foldl (\<lambda>v b. push_bit 8 v OR ucast b) 0 raw"

definition le_bytes :: "nat \<Rightarrow> 'a::len word \<Rightarrow> bytes" where
  "le_bytes n v = map (\<lambda>i. ucast (drop_bit (8 * i) v)) [0..<n]"

definition be_bytes :: "nat \<Rightarrow> 'a::len word \<Rightarrow> bytes" where
  "be_bytes n v = map (\<lambda>i. ucast (drop_bit (8 * i) v)) (rev [0..<n])"

lemma length_le_bytes [simp]: "length (le_bytes n v) = n"
  by (simp add: le_bytes_def)

lemma length_be_bytes [simp]: "length (be_bytes n v) = n"
  by (simp add: be_bytes_def)

lemma bit_byteD: "bit (b :: byte) k \<Longrightarrow> k < 8"
  using bit_imp_le_length [of b k] by simp

lemma bit_le_fold:
  "bit (fold (\<lambda>i v. v OR push_bit (8 * i) (ucast (raw ! i))) [0..<n] (0 :: 'a::len word)) k \<longleftrightarrow>
   k < LENGTH('a) \<and> k div 8 < n \<and> bit ((raw :: bytes) ! (k div 8)) (k mod 8)"
proof (induction n)
  case 0
  then show ?case by simp
next
  case (Suc n)
  have "8 * n \<le> k \<and> bit (raw ! n) (k - 8 * n) \<longleftrightarrow> k div 8 = n \<and> bit (raw ! n) (k mod 8)"
  proof -
    have "k div 8 = n" if "8 * n \<le> k" "k - 8 * n < 8"
      using that by (intro div_nat_eqI) auto
    moreover have "k - 8 * (k div 8) = k mod 8"
      by (metis minus_mult_div_eq_mod)
    ultimately show ?thesis
      by (metis bit_byteD div_times_less_eq_dividend mult.commute)
  qed
  then show ?case
    using Suc.IH by (auto simp: bit_simps less_Suc_eq)
qed

lemma bit_le_value:
  "bit (le_value raw :: 'a::len word) k \<longleftrightarrow>
   k < LENGTH('a) \<and> k div 8 < length raw \<and> bit (raw ! (k div 8)) (k mod 8)"
  by (simp add: le_value_def bit_le_fold)

lemma be_value_snoc: "be_value (xs @ [b]) = push_bit 8 (be_value xs) OR ucast b"
  by (simp add: be_value_def)

lemma bit_be_value:
  "bit (be_value raw :: 'a::len word) k \<longleftrightarrow>
   k < LENGTH('a) \<and> k div 8 < length raw \<and> bit (rev raw ! (k div 8)) (k mod 8)"
proof (induction raw arbitrary: k rule: rev_induct)
  case Nil
  then show ?case by (simp add: be_value_def)
next
  case (snoc b xs)
  show ?case
  proof (cases "k < 8")
    case True
    then show ?thesis
      by (auto simp: be_value_snoc bit_simps)
  next
    case False
    then have "k div 8 = Suc ((k - 8) div 8)" "k mod 8 = (k - 8) mod 8"
      by (simp_all add: div_if mod_if)
    with False show ?thesis
      by (auto simp: be_value_snoc bit_simps snoc.IH dest: bit_imp_le_length)
  qed
qed

lemma be_value_rev: "be_value raw = le_value (rev raw)"
  by (rule bit_eqI) (simp add: bit_be_value bit_le_value)

lemma be_bytes_rev: "be_bytes n v = rev (le_bytes n v)"
  by (simp add: be_bytes_def le_bytes_def rev_map)

lemma le_value_le_bytes [simp]:
  fixes v :: "'a::len word"
  assumes "LENGTH('a) \<le> 8 * n"
  shows "le_value (le_bytes n v) = v"
proof (rule bit_eqI)
  fix k
  have "k div 8 < n" if "k < LENGTH('a)"
    using that assms by (simp add: div_less_iff_less_mult mult.commute)
  then show "bit (le_value (le_bytes n v) :: 'a word) k = bit v k"
    by (cases "k < LENGTH('a)") (auto simp: bit_le_value le_bytes_def bit_simps dest: bit_imp_le_length)
qed

lemma be_value_be_bytes [simp]:
  fixes v :: "'a::len word"
  assumes "LENGTH('a) \<le> 8 * n"
  shows "be_value (be_bytes n v) = v"
  using assms by (simp add: be_value_rev be_bytes_rev)

lemma le_bytes_le_value:
  assumes "LENGTH('a) = 8 * length raw"
  shows "le_bytes (length raw) (le_value raw :: 'a::len word) = raw"
proof (rule nth_equalityI)
  fix i assume "i < length (le_bytes (length raw) (le_value raw :: 'a word))"
  then have i: "i < length raw" by simp
  show "le_bytes (length raw) (le_value raw :: 'a word) ! i = raw ! i"
  proof (rule bit_eqI)
    fix k
    have "8 * i + k < LENGTH('a)" "(8 * i + k) div 8 = i" "(8 * i + k) mod 8 = k" if "k < 8"
      using that i assms by auto
    then show "bit (le_bytes (length raw) (le_value raw :: 'a word) ! i) k = bit (raw ! i) k"
      using i by (cases "k < 8") (auto simp: le_bytes_def bit_simps bit_le_value dest: bit_byteD)
  qed
qed simp

lemma be_bytes_be_value:
  assumes "LENGTH('a) = 8 * length raw"
  shows "be_bytes (length raw) (be_value raw :: 'a::len word) = raw"
  using le_bytes_le_value [where 'a = 'a and raw = "rev raw"] assms
  by (simp add: be_value_rev be_bytes_rev)

lemma le_bytes_1 [simp]: "le_bytes 1 (v :: byte) = [v]" "le_bytes (Suc 0) (v :: byte) = [v]"
  by (simp_all add: le_bytes_def)

lemma le_bytes_Nil_iff [simp]: "le_bytes n v = [] \<longleftrightarrow> n = 0" "be_bytes n v = [] \<longleftrightarrow> n = 0"
  by (simp_all add: le_bytes_def be_bytes_def)

section \<open>Words\<close>

lemma unat_ucast_le: "LENGTH('a) \<le> LENGTH('b) \<Longrightarrow> unat (ucast (x :: 'a::len word) :: 'b::len word) = unat x"
  by (simp add: unsigned_ucast_eq take_bit_nat_eq_self_iff)
    (meson order_less_le_trans power_increasing one_le_numeral unsigned_less)

lemma nat_bit_less: "bit (n :: nat) i \<Longrightarrow> n < 2 ^ k \<Longrightarrow> i < k"
  by (metis bit_take_bit_iff take_bit_nat_eq_self)

lemma nat_or_add: "n < 2 ^ k \<Longrightarrow> push_bit k m OR n = push_bit k m + (n :: nat)"
  by (rule disjunctive_add_eq_or [symmetric], rule bit_eqI) (auto simp: bit_simps dest: nat_bit_less)

lemma nat_or_256: "push_bit 8 a OR b = 256 * a + (b :: nat)" if "b < 256"
  using nat_or_add [of b 8 a] that by (simp add: push_bit_eq_mult)

lemma unat_push_bit:
  fixes c :: "'a::len word"
  assumes "unat c * 2 ^ k < 2 ^ LENGTH('a)"
  shows "unat (push_bit k c) = unat c * 2 ^ k"
proof -
  have "unat (push_bit k c) = take_bit LENGTH('a) (push_bit k (unat c))" by (rule unsigned_push_bit_eq)
  also have "\<dots> = unat c * 2 ^ k" using assms by (simp only: push_bit_eq_mult take_bit_nat_eq_self)
  finally show ?thesis .
qed

lemma unat_push_or:
  fixes x c :: "'a::len word"
  assumes "unat x < 2 ^ k" "unat c * 2 ^ k < 2 ^ LENGTH('a)"
  shows "unat (push_bit k c OR x) = unat c * 2 ^ k + unat x"
proof -
  have "unat (push_bit k c) = push_bit k (unat c)"
    using unat_push_bit [OF assms(2)] by (simp only: push_bit_eq_mult)
  then show ?thesis using nat_or_add [OF assms(1), of "unat c"] by (simp only: unsigned_or_eq push_bit_eq_mult)
qed

lemma push_drop_or: "push_bit n (drop_bit n y) OR take_bit n y = y" for y :: "'a::len word"
  by (rule bit_eqI) (auto simp: bit_simps dest: bit_imp_le_length)

lemma byte_less_256 [simp]: "unat (x :: byte) < 256"
  using unsigned_less [of x] by simp

lemma u16_less_65536 [simp]: "unat (x :: u16) < 65536"
  using unsigned_less [of x, where 'a = nat] by simp

lemma u32_less [simp]: "unat (x :: u32) < 4294967296"
  using unsigned_less [of x, where 'a = nat] by simp

lemma unat_and_mask: "unat (x AND mask n) = unat x mod 2 ^ n" for x :: "'a::len word"
  unfolding take_bit_eq_mask [symmetric] unsigned_take_bit_eq by (rule take_bit_eq_mod)

lemma byte_and_low:
  "unat ((x :: byte) AND 0x3F) = unat x mod 64" "unat (x AND 0x7F) = unat x mod 128"
  "unat (x AND 0x03) = unat x mod 4" "unat (x AND 0x0F) = unat x mod 16" "unat (x AND 0x1F) = unat x mod 32"
  using unat_and_mask [of x 6] unat_and_mask [of x 7] unat_and_mask [of x 2] unat_and_mask [of x 4]
    unat_and_mask [of x 5]
  by (simp_all add: mask_eq_exp_minus_1)

lemma word_take_bit_self: "unat x < 2 ^ n \<Longrightarrow> take_bit n x = x" for x :: "'a::len word"
  by (simp add: word_unat_eq_iff unsigned_take_bit_eq take_bit_nat_eq_self)

lemma unat_bit: "bit x n \<longleftrightarrow> odd (unat x div 2 ^ n)" for x :: "'a::len word"
  by (metis bit_iff_odd bit_unsigned_iff possible_bit_nat)

lemma byte_and_0x80: "(x :: byte) AND 0x80 = 0 \<longleftrightarrow> unat x < 128"
proof -
  have "x AND 0x80 = 0 \<longleftrightarrow> \<not> bit x 7" using and_exp_eq_0_iff_not_bit [of x 7] by simp
  moreover have "unat x div 128 = 1" if "128 \<le> unat x"
    using that byte_less_256 [of x] by (intro div_nat_eqI) auto
  ultimately show ?thesis unfolding unat_bit by (cases "unat x < 128") auto
qed

lemma and_high: "LENGTH('a) \<le> n + m \<Longrightarrow> x AND push_bit n (mask m) = push_bit n (drop_bit n x)"
  for x :: "'a::len word"
  by (intro bit_eqI) (auto simp: bit_simps dest: bit_imp_le_length)

lemma byte_and_0xC0: "(x :: byte) AND 0xC0 = 0xC0 \<longleftrightarrow> 192 \<le> unat x"
proof -
  have "x AND 0xC0 = push_bit 6 (drop_bit 6 x)"
    using and_high [where n = 6 and m = 2 and x = x] by (simp add: mask_eq_exp_minus_1 push_bit_eq_mult)
  moreover have "unat (push_bit 6 (drop_bit 6 x)) = unat x div 64 * 64"
    unfolding unsigned_push_bit_eq unat_drop_bit_eq
    by (simp add: take_bit_eq_mod drop_bit_eq_div push_bit_eq_mult)
      (metis byte_less_256 div_times_less_eq_dividend mod_less order_le_less_trans)
  ultimately have "x AND 0xC0 = 0xC0 \<longleftrightarrow> unat x div 64 * 64 = 192"
    by (simp add: word_unat_eq_iff)
  also have "\<dots> \<longleftrightarrow> unat x div 64 = 3" by auto
  also have "\<dots> \<longleftrightarrow> 192 \<le> unat x"
    using byte_less_256 [of x] by (auto simp: div_nat_eqI)
  finally show ?thesis .
qed

lemmas byte_masks = byte_and_0x80 byte_and_0xC0 byte_and_low

lemmas word_nat_simps = unsigned_ucast_eq unat_drop_bit_eq unsigned_of_nat take_bit_eq_mod
  drop_bit_eq_div push_bit_eq_mult unat_div_distrib unat_mod_distrib

lemma of_nat_unat_ucast: "(of_nat (unat (x :: 'a::len word)) :: 'b::len word) = ucast x"
  by simp

lemma ucast_ucast_small:
  fixes v :: "'a::len word"
  assumes "unat v < 2 ^ LENGTH('b::len)"
  shows "ucast (ucast v :: 'b word) = v"
  using assms by (intro word_unat_eq_iff [THEN iffD2])
    (simp add: unsigned_ucast_eq unsigned_take_bit_eq take_bit_nat_eq_self take_bit_nat_eq_self_iff)

section \<open>Lists\<close>

lemma drop_eq_append: "drop n xs = ys @ zs \<Longrightarrow> drop (n + length ys) xs = zs"
  by (metis add.commute append_eq_conv_conj drop_drop)

lemma length_concat_le: "(\<And>x. x \<in> set xs \<Longrightarrow> length (f x) \<le> n) \<Longrightarrow> length (concat (map f xs)) \<le> n * length xs"
  by (induction xs) (simp_all add: add_mono)

lemma takeWhile_zero [simp]: "0 \<notin> set xs \<Longrightarrow> takeWhile (\<lambda>c. c \<noteq> 0) (xs @ 0 # ys) = xs" for xs :: "'a::zero list"
  by (induction xs) auto

lemma take_append_length [simp]: "take (length xs) (xs @ ys) = xs"
  by simp

end
