(* ===== verification/Reader_Writer.thy ===== *)
theory Reader_Writer
  imports Prelude
begin

text \<open>
  \<open>base/reader.hpp\<close> and \<open>base/writer.hpp\<close>: the bounds-checked view over received bytes and
  the growing output buffer. A decoder is a function from a reader to a result and the reader
  it leaves behind; \<open>ptry\<close> is the macro \<open>FARLAND_TRY\<close>. An encoder is a function on
  the output buffer; where the code asserts, the encoder is partial and \<open>None\<close> is the abort.

  The locale \<open>codec\<close> is the contract between an encoder and its decoder. Each pair of the
  components interprets it, and the laws every client needs (nothing is lost, encodings can be
  told apart when they are concatenated) are proved once here.
\<close>

section \<open>Reader\<close>

record reader =
  rd_data :: bytes
  rd_pos :: nat
  rd_base :: nat

type_synonym 'a parser = "reader \<Rightarrow> 'a result \<times> reader"

definition mk_reader :: "bytes \<Rightarrow> nat \<Rightarrow> reader" where
  "mk_reader bs base_offset = \<lparr>rd_data = bs, rd_pos = 0, rd_base = base_offset\<rparr>"

definition rd_remaining :: "reader \<Rightarrow> nat" where
  "rd_remaining r = length (rd_data r) - rd_pos r"

definition rd_empty :: "reader \<Rightarrow> bool" where
  "rd_empty r \<longleftrightarrow> rd_pos r = length (rd_data r)"

definition rd_offset :: "reader \<Rightarrow> nat" where
  "rd_offset r = rd_base r + rd_pos r"

definition rd_rest :: "reader \<Rightarrow> bytes" where
  "rd_rest r = drop (rd_pos r) (rd_data r)"

definition rd_bytes :: "nat \<Rightarrow> bytes parser" where
  "rd_bytes count r =
     (if count > rd_remaining r then (fail Truncated ''unexpected end of input'' (rd_offset r), r)
      else (Inr (take count (drop (rd_pos r) (rd_data r))), r\<lparr>rd_pos := rd_pos r + count\<rparr>))"

text \<open>\<open>FARLAND_TRY\<close>: the error of the first computation is returned from the enclosing one.\<close>

definition ptry :: "'a parser \<Rightarrow> ('a \<Rightarrow> 'b parser) \<Rightarrow> 'b parser" where
  "ptry p f r = (case p r of (Inl e, r') \<Rightarrow> (Inl e, r') | (Inr x, r') \<Rightarrow> f x r')"

definition pret :: "'a \<Rightarrow> 'a parser" where
  "pret x r = (Inr x, r)"

definition pfail :: "errc \<Rightarrow> string \<Rightarrow> nat \<Rightarrow> 'a parser" where
  "pfail c what off r = (fail c what off, r)"

text \<open>An observation of the reader (\<open>r.offset()\<close>, \<open>r.remaining()\<close>, ...) bound to a name.\<close>

definition pget :: "(reader \<Rightarrow> 'b) \<Rightarrow> ('b \<Rightarrow> 'a parser) \<Rightarrow> 'a parser" where
  "pget sel f r = f (sel r) r"

text \<open>A computation on a copy of the reader, which itself stays where it is.\<close>

definition ppeek :: "'a parser \<Rightarrow> 'a parser" where
  "ppeek p r = (fst (p r), r)"

text \<open>A computation on a second reader, whose state is local to it.\<close>

definition pwith :: "reader \<Rightarrow> 'a parser \<Rightarrow> 'a parser" where
  "pwith s p r = (fst (p s), r)"

definition rd_sub :: "nat \<Rightarrow> reader parser" where
  "rd_sub count = pget rd_offset (\<lambda>start.
     ptry (rd_bytes count) (\<lambda>view. pret (mk_reader view start)))"

definition rd_skip :: "nat \<Rightarrow> unit parser" where
  "rd_skip count = ptry (rd_bytes count) (\<lambda>_. pret ())"

definition rd_peek_u8 :: "byte parser" where
  "rd_peek_u8 r =
     (if rd_empty r then (fail Truncated ''unexpected end of input'' (rd_offset r), r)
      else (Inr (rd_data r ! rd_pos r), r))"

definition rd_le :: "nat \<Rightarrow> 'a::len word parser" where
  "rd_le n = ptry (rd_bytes n) (\<lambda>raw. pret (le_value raw))"

definition rd_be :: "nat \<Rightarrow> 'a::len word parser" where
  "rd_be n = ptry (rd_bytes n) (\<lambda>raw. pret (be_value raw))"

definition rd_u8 :: "byte parser" where "rd_u8 = rd_le 1"
definition rd_u16le :: "u16 parser" where "rd_u16le = rd_le 2"
definition rd_u32le :: "u32 parser" where "rd_u32le = rd_le 4"
definition rd_u64le :: "u64 parser" where "rd_u64le = rd_le 8"
definition rd_u16be :: "u16 parser" where "rd_u16be = rd_be 2"
definition rd_u32be :: "u32 parser" where "rd_u32be = rd_be 4"

definition rd_expect_end :: "string \<Rightarrow> unit parser" where
  "rd_expect_end what r =
     (if \<not> rd_empty r then (fail TrailingData what (rd_offset r), r) else (Inr (), r))"

text \<open>
  \<open>while (!r.empty()) items.push_back(item(r))\<close>. The bound on the number of rounds is the
  number of unread bytes; \<open>pmany_unfold\<close> below shows that it is never the reason to stop for an
  item that consumes at least a byte.
\<close>

fun pmany_upto :: "nat \<Rightarrow> 'a parser \<Rightarrow> 'a list parser" where
  "pmany_upto 0 p r = (if rd_empty r then (Inr [], r) else (fail LimitExceeded ''loop bound'' (rd_offset r), r))"
| "pmany_upto (Suc n) p r =
     (if rd_empty r then (Inr [], r) else ptry p (\<lambda>x. ptry (pmany_upto n p) (\<lambda>xs. pret (x # xs))) r)"

definition pmany :: "'a parser \<Rightarrow> 'a list parser" where
  "pmany p r = pmany_upto (rd_remaining r) p r"

text \<open>\<open>for (i = 0; i < count; ++i) items.push_back(item(r))\<close>\<close>

fun pcount :: "nat \<Rightarrow> 'a parser \<Rightarrow> 'a list parser" where
  "pcount 0 p = pret []"
| "pcount (Suc n) p = ptry p (\<lambda>x. ptry (pcount n p) (\<lambda>xs. pret (x # xs)))"

text \<open>\<open>while (!r.empty()) state = body(state, r)\<close>, with the same bound.\<close>

fun pwhile_upto :: "nat \<Rightarrow> ('s \<Rightarrow> 's parser) \<Rightarrow> 's \<Rightarrow> 's parser" where
  "pwhile_upto 0 body st r = (if rd_empty r then (Inr st, r) else (fail LimitExceeded ''loop bound'' (rd_offset r), r))"
| "pwhile_upto (Suc n) body st r = (if rd_empty r then (Inr st, r) else ptry (body st) (pwhile_upto n body) r)"

definition pwhile :: "('s \<Rightarrow> 's parser) \<Rightarrow> 's \<Rightarrow> 's parser" where
  "pwhile body st r = pwhile_upto (rd_remaining r) body st r"

section \<open>Writer\<close>

type_synonym writer = bytes

definition w_le :: "nat \<Rightarrow> 'a::len word \<Rightarrow> writer \<Rightarrow> writer" where
  "w_le n v w = w @ le_bytes n v"

definition w_be :: "nat \<Rightarrow> 'a::len word \<Rightarrow> writer \<Rightarrow> writer" where
  "w_be n v w = w @ be_bytes n v"

definition w_u8 :: "byte \<Rightarrow> writer \<Rightarrow> writer" where "w_u8 v w = w @ [v]"
definition w_u16le :: "u16 \<Rightarrow> writer \<Rightarrow> writer" where "w_u16le = w_le 2"
definition w_u32le :: "u32 \<Rightarrow> writer \<Rightarrow> writer" where "w_u32le = w_le 4"
definition w_u64le :: "u64 \<Rightarrow> writer \<Rightarrow> writer" where "w_u64le = w_le 8"
definition w_u16be :: "u16 \<Rightarrow> writer \<Rightarrow> writer" where "w_u16be = w_be 2"
definition w_u32be :: "u32 \<Rightarrow> writer \<Rightarrow> writer" where "w_u32be = w_be 4"

definition w_bytes :: "bytes \<Rightarrow> writer \<Rightarrow> writer" where
  "w_bytes bs w = w @ bs"

definition w_zeros :: "nat \<Rightarrow> writer \<Rightarrow> writer" where
  "w_zeros count w = w @ replicate count 0"

text \<open>\<open>FARLAND_ASSERT\<close>: the process aborts when the condition is false.\<close>

definition wassert :: "bool \<Rightarrow> unit option" where
  "wassert b = (if b then Some () else None)"

definition w_patch_le :: "nat \<Rightarrow> nat \<Rightarrow> 'a::len word \<Rightarrow> writer \<Rightarrow> writer option" where
  "w_patch_le n at v w = do {
     wassert (at \<le> length w \<and> n \<le> length w - at);
     Some (fold (\<lambda>i buf. buf[at + i := ucast (drop_bit (8 * i) v)]) [0..<n] w)
   }"

definition w_patch_be :: "nat \<Rightarrow> nat \<Rightarrow> 'a::len word \<Rightarrow> writer \<Rightarrow> writer option" where
  "w_patch_be n at v w = do {
     wassert (at \<le> length w \<and> n \<le> length w - at);
     Some (fold (\<lambda>i buf. buf[at + i := ucast (drop_bit (8 * (n - 1 - i)) v)]) [0..<n] w)
   }"

definition w_patch_u16be :: "nat \<Rightarrow> u16 \<Rightarrow> writer \<Rightarrow> writer option" where
  "w_patch_u16be = w_patch_be 2"

definition w_patch_u16le :: "nat \<Rightarrow> u16 \<Rightarrow> writer \<Rightarrow> writer option" where
  "w_patch_u16le = w_patch_le 2"

definition w_patch_u32le :: "nat \<Rightarrow> u32 \<Rightarrow> writer \<Rightarrow> writer option" where
  "w_patch_u32le = w_patch_le 4"

section \<open>Stepping over the input\<close>

definition rd_advance :: "nat \<Rightarrow> reader \<Rightarrow> reader" where
  "rd_advance n r = r\<lparr>rd_pos := rd_pos r + n\<rparr>"

definition rd_wf :: "reader \<Rightarrow> bool" where
  "rd_wf r \<longleftrightarrow> rd_pos r \<le> length (rd_data r)"

lemma rd_wf_mk_reader [simp]: "rd_wf (mk_reader bs b)"
  by (simp add: rd_wf_def mk_reader_def)

lemma rd_offset_mk_reader [simp]: "rd_offset (mk_reader bs b) = b"
  by (simp add: rd_offset_def mk_reader_def)

lemma rd_rest_mk_reader [simp]: "rd_rest (mk_reader bs b) = bs"
  by (simp add: rd_rest_def mk_reader_def)

lemma rd_data_mk_reader [simp]: "rd_data (mk_reader bs b) = bs"
  by (simp add: mk_reader_def)

lemma mk_reader_inject [simp]: "mk_reader bs b = mk_reader cs c \<longleftrightarrow> bs = cs \<and> b = c"
  by (simp add: mk_reader_def)

lemma rd_data_advance [simp]: "rd_data (rd_advance n r) = rd_data r"
  by (simp add: rd_advance_def)

lemma rd_rest_advance [simp]: "rd_rest (rd_advance n r) = drop n (rd_rest r)"
  by (simp add: rd_rest_def rd_advance_def add.commute)

lemma rd_offset_advance [simp]: "rd_offset (rd_advance n r) = rd_offset r + n"
  by (simp add: rd_offset_def rd_advance_def)

lemma rd_advance_advance [simp]: "rd_advance n (rd_advance m r) = rd_advance (m + n) r"
  by (simp add: rd_advance_def add.assoc)

lemma rd_advance_0 [simp]: "rd_advance 0 r = r"
  by (simp add: rd_advance_def)

lemma rd_advance_inject [simp]: "rd_advance n r = rd_advance m r \<longleftrightarrow> n = m"
  by (metis add_left_cancel rd_advance_def rd_offset_advance)

lemma rd_remaining_rest: "rd_remaining r = length (rd_rest r)"
  by (simp add: rd_remaining_def rd_rest_def)

lemma rd_wf_advance [simp]: "rd_wf r \<Longrightarrow> n \<le> length (rd_rest r) \<Longrightarrow> rd_wf (rd_advance n r)"
  by (auto simp: rd_wf_def rd_advance_def rd_rest_def)

lemma rd_empty_rest: "rd_wf r \<Longrightarrow> rd_empty r \<longleftrightarrow> rd_rest r = []"
  by (auto simp: rd_wf_def rd_empty_def rd_rest_def)

lemma ptry_Inr: "p r = (Inr x, r') \<Longrightarrow> ptry p f r = f x r'"
  by (simp add: ptry_def)

lemma ptry_Inl: "p r = (Inl e, r') \<Longrightarrow> ptry p f r = (Inl e, r')"
  by (simp add: ptry_def)

lemma ptry_eq_Inr:
  "ptry p f r = (Inr y, r') \<longleftrightarrow> (\<exists>x s. p r = (Inr x, s) \<and> f x s = (Inr y, r'))"
  by (auto simp: ptry_def split: prod.splits sum.splits)

lemma pret_eq [simp]: "pret x r = (Inr y, r') \<longleftrightarrow> y = x \<and> r' = r"
  by (auto simp: pret_def)

lemma pfail_neq [simp]: "pfail c s n r \<noteq> (Inr y, r')"
  by (simp add: pfail_def)

lemma rd_bytes_ok:
  "n \<le> length (rd_rest r) \<Longrightarrow> rd_bytes n r = (Inr (take n (rd_rest r)), rd_advance n r)"
  by (simp add: rd_bytes_def rd_remaining_rest rd_advance_def rd_rest_def)

lemma rd_bytes_eq_Inr:
  "rd_bytes n r = (Inr x, r') \<longleftrightarrow>
   n \<le> length (rd_rest r) \<and> x = take n (rd_rest r) \<and> r' = rd_advance n r"
  by (auto simp: rd_bytes_def rd_remaining_rest rd_advance_def rd_rest_def)

lemma rd_bytes_app [rd_simps]:
  "rd_rest r = bs @ ys \<Longrightarrow> n = length bs \<Longrightarrow> rd_bytes n r = (Inr bs, rd_advance n r)"
  by (simp add: rd_bytes_ok)

lemma rd_bytes_all [rd_simps]: "rd_rest r = bs \<Longrightarrow> n = length bs \<Longrightarrow> rd_bytes n r = (Inr bs, rd_advance n r)"
  by (simp add: rd_bytes_ok)

lemma rd_skip_ok [rd_simps]: "n \<le> length (rd_rest r) \<Longrightarrow> rd_skip n r = (Inr (), rd_advance n r)"
  by (simp add: rd_skip_def ptry_def rd_bytes_ok pret_def)

lemma rd_sub_ok [rd_simps]:
  "n \<le> length (rd_rest r) \<Longrightarrow>
   rd_sub n r = (Inr (mk_reader (take n (rd_rest r)) (rd_offset r)), rd_advance n r)"
  by (simp add: rd_sub_def pget_def ptry_def rd_bytes_ok pret_def)

lemma rd_u8_Cons [rd_simps]: "rd_rest r = b # ys \<Longrightarrow> rd_u8 r = (Inr b, rd_advance 1 r)"
  using le_value_le_bytes [of 1 b]
  by (simp add: rd_u8_def rd_le_def ptry_def rd_bytes_ok pret_def)

lemma rd_peek_u8_Cons [rd_simps]: "rd_rest r = b # ys \<Longrightarrow> rd_peek_u8 r = (Inr b, r)"
  by (auto simp: rd_peek_u8_def rd_rest_def rd_empty_def nth_via_drop)

lemma rd_le_app:
  "rd_rest r = le_bytes n (v :: 'a::len word) @ ys \<Longrightarrow> LENGTH('a) \<le> 8 * n \<Longrightarrow>
   rd_le n r = (Inr v, rd_advance n r)"
  by (simp add: rd_le_def ptry_def rd_bytes_ok pret_def)

lemma rd_be_app:
  "rd_rest r = be_bytes n (v :: 'a::len word) @ ys \<Longrightarrow> LENGTH('a) \<le> 8 * n \<Longrightarrow>
   rd_be n r = (Inr v, rd_advance n r)"
  by (simp add: rd_be_def ptry_def rd_bytes_ok pret_def)

lemma rd_u16le_app [rd_simps]: "rd_rest r = le_bytes 2 v @ ys \<Longrightarrow> rd_u16le r = (Inr v, rd_advance 2 r)"
  by (simp add: rd_u16le_def rd_le_app)

lemma rd_u32le_app [rd_simps]: "rd_rest r = le_bytes 4 v @ ys \<Longrightarrow> rd_u32le r = (Inr v, rd_advance 4 r)"
  by (simp add: rd_u32le_def rd_le_app)

lemma rd_u64le_app [rd_simps]: "rd_rest r = le_bytes 8 v @ ys \<Longrightarrow> rd_u64le r = (Inr v, rd_advance 8 r)"
  by (simp add: rd_u64le_def rd_le_app)

lemma rd_u16be_app [rd_simps]: "rd_rest r = be_bytes 2 v @ ys \<Longrightarrow> rd_u16be r = (Inr v, rd_advance 2 r)"
  by (simp add: rd_u16be_def rd_be_app)

lemma rd_u32be_app [rd_simps]: "rd_rest r = be_bytes 4 v @ ys \<Longrightarrow> rd_u32be r = (Inr v, rd_advance 4 r)"
  by (simp add: rd_u32be_def rd_be_app)

lemma rd_ints_end [rd_simps]:
  "rd_rest r = [b] \<Longrightarrow> rd_u8 r = (Inr b, rd_advance 1 r)"
  "rd_rest r = le_bytes 2 v \<Longrightarrow> rd_u16le r = (Inr v, rd_advance 2 r)"
  "rd_rest r = le_bytes 4 x \<Longrightarrow> rd_u32le r = (Inr x, rd_advance 4 r)"
  "rd_rest r = le_bytes 8 y \<Longrightarrow> rd_u64le r = (Inr y, rd_advance 8 r)"
  "rd_rest r = be_bytes 2 v \<Longrightarrow> rd_u16be r = (Inr v, rd_advance 2 r)"
  "rd_rest r = be_bytes 4 x \<Longrightarrow> rd_u32be r = (Inr x, rd_advance 4 r)"
  by (simp_all add: rd_u8_Cons rd_u16le_app [where ys = "[]"] rd_u32le_app [where ys = "[]"]
      rd_u64le_app [where ys = "[]"] rd_u16be_app [where ys = "[]"] rd_u32be_app [where ys = "[]"])

lemma rd_expect_end_ok [rd_simps]: "rd_wf r \<Longrightarrow> rd_rest r = [] \<Longrightarrow> rd_expect_end s r = (Inr (), r)"
  by (simp add: rd_expect_end_def rd_empty_rest)

lemma rd_expect_end_eq_Inr:
  "rd_wf r \<Longrightarrow> rd_expect_end s r = (Inr u, r') \<longleftrightarrow> rd_rest r = [] \<and> r' = r"
  by (auto simp: rd_expect_end_def rd_empty_rest)

lemmas [rd_simps] = ptry_def pret_def pwith_def pget_def ppeek_def

lemma w_simps [wr_simps]:
  "w_u8 b w = w @ [b]" "w_u16le v w = w @ le_bytes 2 v" "w_u32le x w = w @ le_bytes 4 x"
  "w_u64le y w = w @ le_bytes 8 y" "w_u16be v w = w @ be_bytes 2 v" "w_u32be x w = w @ be_bytes 4 x"
  "w_bytes bs w = w @ bs" "w_zeros n w = w @ replicate n 0" "wassert True = Some ()"
  by (simp_all add: w_u8_def w_u16le_def w_u32le_def w_u64le_def w_u16be_def w_u32be_def w_le_def
      w_be_def w_bytes_def w_zeros_def wassert_def)

lemma wassert_True [simp]: "wassert b = Some () \<longleftrightarrow> b" "wassert b = None \<longleftrightarrow> \<not> b"
  by (simp_all add: wassert_def)

subsection \<open>Patching a placeholder\<close>

lemma fold_update_length [simp]: "length (fold (\<lambda>i buf. buf[f i := g i]) is w) = length w"
  by (induction "is" arbitrary: w) auto

lemma fold_update_splice:
  "at + n \<le> length w \<Longrightarrow>
   fold (\<lambda>i buf. buf[at + i := g i]) [0..<n] w = take at w @ map g [0..<n] @ drop (at + n) w"
proof (induction n)
  case 0
  then show ?case by simp
next
  case (Suc n)
  then have "drop (at + n) w = w ! (at + n) # drop (Suc (at + n)) w"
    by (intro Cons_nth_drop_Suc [symmetric]) simp
  with Suc show ?case
    by (simp add: list_update_append)
qed

lemma w_patch_le_eq:
  "at + n \<le> length w \<Longrightarrow> w_patch_le n at v w = Some (take at w @ le_bytes n v @ drop (at + n) w)"
  by (simp add: w_patch_le_def wassert_def fold_update_splice le_bytes_def)

lemma rev_upt_map: "map f (rev [0..<n]) = map (\<lambda>i. f (n - 1 - i)) [0..<n]"
  by (rule nth_equalityI) (auto simp: rev_nth)

lemma w_patch_be_eq:
  "at + n \<le> length w \<Longrightarrow> w_patch_be n at v w = Some (take at w @ be_bytes n v @ drop (at + n) w)"
  by (simp add: w_patch_be_def wassert_def fold_update_splice be_bytes_def rev_upt_map)

lemma w_patch_be_None: "\<not> at + n \<le> length w \<Longrightarrow> w_patch_be n at v w = None"
  by (auto simp: w_patch_be_def wassert_def)

section \<open>Staying inside the input\<close>

text \<open>
  A parser is safe when it keeps the bytes and the base of its reader and moves the position
  forward only, never past the end. Safety is closed under \<open>ptry\<close> and the branches of the
  decoders, so it holds of every decoder built from the primitives.
\<close>

definition rd_extends :: "reader \<Rightarrow> reader \<Rightarrow> bool" where
  "rd_extends r r' \<longleftrightarrow> rd_data r' = rd_data r \<and> rd_base r' = rd_base r \<and> rd_pos r \<le> rd_pos r' \<and> rd_wf r'"

definition rd_safe :: "'a parser \<Rightarrow> bool" where
  "rd_safe p \<longleftrightarrow> (\<forall>r. rd_wf r \<longrightarrow> rd_extends r (snd (p r)))"

lemma rd_extends_refl: "rd_wf r \<Longrightarrow> rd_extends r r"
  by (simp add: rd_extends_def)

lemma rd_extends_trans: "rd_extends r s \<Longrightarrow> rd_extends s t \<Longrightarrow> rd_extends r t"
  by (simp add: rd_extends_def)

lemma rd_extends_wf: "rd_extends r s \<Longrightarrow> rd_wf s"
  by (simp add: rd_extends_def)

lemma safe_pret [safe_intros]: "rd_safe (pret x)"
  by (simp add: rd_safe_def pret_def rd_extends_refl)

lemma safe_pfail [safe_intros]: "rd_safe (pfail c s n)"
  by (simp add: rd_safe_def pfail_def rd_extends_refl)

lemma safe_pwith [safe_intros]: "rd_safe (pwith s p)"
  by (simp add: rd_safe_def pwith_def rd_extends_refl)

lemma safe_ptry [safe_intros]: "rd_safe p \<Longrightarrow> (\<And>x. rd_safe (f x)) \<Longrightarrow> rd_safe (ptry p f)"
  unfolding rd_safe_def ptry_def
  by (auto split: prod.splits sum.splits) (metis rd_extends_trans rd_extends_wf snd_conv)+

lemma safe_pget [safe_intros]: "(\<And>s. rd_safe (f s)) \<Longrightarrow> rd_safe (pget sel f)"
  by (simp add: rd_safe_def pget_def)

lemma safe_ppeek [safe_intros]: "rd_safe (ppeek p)"
  by (simp add: rd_safe_def ppeek_def rd_extends_refl)

lemma safe_Let [safe_intros]: "(\<And>x. rd_safe (f x)) \<Longrightarrow> rd_safe (let x = v in f x)"
  by (simp add: Let_def)

lemma safe_case_option [safe_intros]:
  "rd_safe p \<Longrightarrow> (\<And>x. rd_safe (q x)) \<Longrightarrow> rd_safe (case y of None \<Rightarrow> p | Some x \<Rightarrow> q x)"
  by (simp split: option.split)

lemma safe_case_prod [safe_intros]: "(\<And>a b. rd_safe (f a b)) \<Longrightarrow> rd_safe (case p of (a, b) \<Rightarrow> f a b)"
  by (simp split: prod.split)

lemma safe_if [safe_intros]: "rd_safe p \<Longrightarrow> rd_safe q \<Longrightarrow> rd_safe (if b then p else q)"
  by simp

lemma safe_bytes [safe_intros]: "rd_safe (rd_bytes n)"
  by (auto simp: rd_safe_def rd_bytes_def rd_extends_def rd_wf_def rd_remaining_def)

lemma safe_peek [safe_intros]: "rd_safe rd_peek_u8"
  by (auto simp: rd_safe_def rd_peek_u8_def rd_extends_def)

lemma safe_expect_end [safe_intros]: "rd_safe (rd_expect_end s)"
  by (auto simp: rd_safe_def rd_expect_end_def rd_extends_def)

lemma safe_skip [safe_intros]: "rd_safe (rd_skip n)"
  unfolding rd_skip_def by (intro safe_intros)

lemma safe_sub [safe_intros]: "rd_safe (rd_sub n)"
  unfolding rd_sub_def by (intro safe_intros)

lemma safe_le [safe_intros]: "rd_safe (rd_le n)"
  unfolding rd_le_def by (intro safe_intros)

lemma safe_be [safe_intros]: "rd_safe (rd_be n)"
  unfolding rd_be_def by (intro safe_intros)

lemma safe_ints [safe_intros]:
  "rd_safe rd_u8" "rd_safe rd_u16le" "rd_safe rd_u32le" "rd_safe rd_u64le" "rd_safe rd_u16be" "rd_safe rd_u32be"
  by (simp_all add: rd_u8_def rd_u16le_def rd_u32le_def rd_u64le_def rd_u16be_def rd_u32be_def safe_intros)

lemma rd_safeD: "rd_safe p \<Longrightarrow> rd_wf r \<Longrightarrow> p r = (x, r') \<Longrightarrow> rd_extends r r'"
  by (metis rd_safe_def snd_conv)

section \<open>Loops over the input\<close>

definition rd_consumes :: "'a parser \<Rightarrow> bool" where
  "rd_consumes p \<longleftrightarrow> rd_safe p \<and> (\<forall>r x r'. rd_wf r \<longrightarrow> p r = (Inr x, r') \<longrightarrow> rd_pos r < rd_pos r')"

lemma rd_consumesD:
  assumes "rd_consumes p" "rd_wf r" "p r = (Inr x, r')"
  shows "rd_wf r' \<and> rd_remaining r' < rd_remaining r"
proof -
  have "rd_extends r r'" using assms rd_safeD by (auto simp: rd_consumes_def)
  moreover have "rd_pos r < rd_pos r'" using assms by (auto simp: rd_consumes_def)
  ultimately show ?thesis by (auto simp: rd_extends_def rd_remaining_def rd_wf_def)
qed

lemma consumes_ptry: "rd_consumes p \<Longrightarrow> (\<And>x. rd_safe (f x)) \<Longrightarrow> rd_consumes (ptry p f)"
proof -
  assume p: "rd_consumes p" and f: "\<And>x. rd_safe (f x)"
  have "rd_pos r < rd_pos r'" if "rd_wf r" "p r = (Inr x, s)" "f x s = (Inr y, r')" for r x s y r'
  proof -
    have "rd_pos r < rd_pos s" "rd_wf s"
      using p that rd_consumesD [OF p that(1,2)] by (auto simp: rd_consumes_def)
    moreover have "rd_extends s r'"
      using rd_safeD [OF f [of x] \<open>rd_wf s\<close> that(3)] .
    ultimately show ?thesis by (simp add: rd_extends_def)
  qed
  moreover have "rd_safe (ptry p f)"
    using p f by (intro safe_ptry) (auto simp: rd_consumes_def)
  ultimately show ?thesis
    unfolding rd_consumes_def ptry_eq_Inr by blast
qed

lemma consumes_pget: "(\<And>s. rd_consumes (f s)) \<Longrightarrow> rd_consumes (pget sel f)"
  by (auto simp: rd_consumes_def pget_def rd_safe_def)

lemma consumes_bytes: "0 < n \<Longrightarrow> rd_consumes (rd_bytes n)"
  by (auto simp: rd_consumes_def safe_bytes rd_bytes_eq_Inr rd_advance_def)

lemma consumes_ints:
  "rd_consumes rd_u8" "rd_consumes rd_u16le" "rd_consumes rd_u32le" "rd_consumes rd_u64le" "rd_consumes rd_u16be"
  "rd_consumes rd_u32be"
  by (auto simp: rd_u8_def rd_u16le_def rd_u32le_def rd_u64le_def rd_u16be_def rd_u32be_def rd_le_def rd_be_def
      intro!: consumes_ptry consumes_bytes safe_intros)

lemma pmany_upto_bound:
  assumes "rd_consumes p" "rd_wf r" "rd_remaining r \<le> n" "rd_remaining r \<le> m"
  shows "pmany_upto n p r = pmany_upto m p r"
  using assms(2-)
proof (induction n arbitrary: m r)
  case 0
  then have "rd_empty r" by (simp add: rd_wf_def rd_remaining_def rd_empty_def)
  then show ?case by (cases m) auto
next
  case (Suc n)
  show ?case
  proof (cases "rd_empty r")
    case False
    then obtain k where m: "m = Suc k"
      using Suc.prems by (cases m) (auto simp: rd_wf_def rd_remaining_def rd_empty_def)
    have "pmany_upto n p r' = pmany_upto k p r'" if "p r = (Inr x, r')" for x r'
      using rd_consumesD [OF assms(1) Suc.prems(1) that] Suc.prems m by (intro Suc.IH) auto
    with m show ?thesis
      by (auto simp: ptry_def split: prod.splits sum.splits)
  qed (cases m; simp)
qed

lemma pmany_unfold:
  assumes "rd_consumes p" "rd_wf r"
  shows "pmany p r =
    (if rd_empty r then (Inr [], r) else ptry p (\<lambda>x. ptry (pmany p) (\<lambda>xs. pret (x # xs))) r)"
proof (cases "rd_empty r")
  case False
  then obtain n where n: "rd_remaining r = Suc n"
    using assms(2) by (cases "rd_remaining r") (auto simp: rd_wf_def rd_remaining_def rd_empty_def)
  have "pmany_upto n p r' = pmany p r'" if "p r = (Inr x, r')" for x r'
    using rd_consumesD [OF assms that] n unfolding pmany_def
    by (intro pmany_upto_bound [OF assms(1)]) auto
  with False n show ?thesis
    unfolding pmany_def [of p r] by (auto simp: ptry_def split: prod.splits sum.splits)
qed (cases "rd_remaining r"; simp add: pmany_def)

lemma safe_pmany_upto: "rd_safe p \<Longrightarrow> rd_safe (pmany_upto n p)"
proof (induction n)
  case (Suc n)
  have "rd_safe (ptry p (\<lambda>x. ptry (pmany_upto n p) (\<lambda>xs. pret (x # xs))))"
    using Suc by (intro safe_intros)
  then show ?case
    by (auto simp: rd_safe_def rd_extends_refl)
qed (auto simp: rd_safe_def rd_extends_refl)

lemma safe_pmany [safe_intros]: "rd_safe p \<Longrightarrow> rd_safe (pmany p)"
  using safe_pmany_upto by (auto simp: rd_safe_def pmany_def)

lemma safe_pcount [safe_intros]: "rd_safe p \<Longrightarrow> rd_safe (pcount n p)"
  by (induction n) (auto intro!: safe_intros)

text \<open>The loops read back what was written item by item.\<close>

lemma pmany_concat:
  assumes "rd_consumes p" "rd_wf r" "rd_rest r = concat (map enc xs)"
    and "\<And>x s ys. x \<in> set xs \<Longrightarrow> rd_wf s \<Longrightarrow> rd_rest s = enc x @ ys \<Longrightarrow> p s = (Inr x, rd_advance (length (enc x)) s)"
  shows "pmany p r = (Inr xs, rd_advance (length (rd_rest r)) r)"
  using assms(2-)
proof (induction xs arbitrary: r)
  case Nil
  then show ?case by (simp add: pmany_unfold [OF assms(1)] rd_empty_rest)
next
  case (Cons x xs)
  then have p: "p r = (Inr x, rd_advance (length (enc x)) r)" by simp
  have "pmany p (rd_advance (length (enc x)) r) =
      (Inr xs, rd_advance (length (rd_rest (rd_advance (length (enc x)) r))) (rd_advance (length (enc x)) r))"
    using Cons.prems by (intro Cons.IH) auto
  moreover have "\<not> rd_empty r"
    using p rd_consumesD [OF assms(1) Cons.prems(1) p] by (auto simp: rd_remaining_def rd_empty_def)
  ultimately show ?case
    using Cons.prems(2) p pmany_unfold [OF assms(1) Cons.prems(1)] by (simp add: rd_simps)
qed

lemma pcount_concat:
  assumes "rd_wf r" "rd_rest r = concat (map enc xs) @ ys" "n = length xs"
    and "\<And>x s ys. x \<in> set xs \<Longrightarrow> rd_wf s \<Longrightarrow> rd_rest s = enc x @ ys \<Longrightarrow> p s = (Inr x, rd_advance (length (enc x)) s)"
  shows "pcount n p r = (Inr xs, rd_advance (length (concat (map enc xs))) r)"
  using assms
proof (induction xs arbitrary: r n)
  case Nil
  then show ?case by (simp add: rd_simps)
next
  case (Cons x xs)
  then have "p r = (Inr x, rd_advance (length (enc x)) r)" by simp
  moreover have "pcount (length xs) p (rd_advance (length (enc x)) r) =
      (Inr xs, rd_advance (length (concat (map enc xs))) (rd_advance (length (enc x)) r))"
    using Cons.prems by (intro Cons.IH) auto
  ultimately show ?case
    using Cons.prems(3) by (simp add: rd_simps)
qed

text \<open>The same for the loop that threads a state.\<close>

lemma pwhile_upto_bound:
  assumes "\<And>st. rd_consumes (body st)" "rd_wf r" "rd_remaining r \<le> n" "rd_remaining r \<le> m"
  shows "pwhile_upto n body st r = pwhile_upto m body st r"
  using assms(2-)
proof (induction n arbitrary: m r st)
  case 0
  then have "rd_empty r" by (simp add: rd_wf_def rd_remaining_def rd_empty_def)
  then show ?case by (cases m) auto
next
  case (Suc n)
  show ?case
  proof (cases "rd_empty r")
    case False
    then obtain k where m: "m = Suc k"
      using Suc.prems by (cases m) (auto simp: rd_wf_def rd_remaining_def rd_empty_def)
    have "pwhile_upto n body s r' = pwhile_upto k body s r'" if "body st r = (Inr s, r')" for s r'
      using rd_consumesD [OF assms(1) Suc.prems(1) that] Suc.prems m by (intro Suc.IH) auto
    with m show ?thesis
      by (auto simp: ptry_def split: prod.splits sum.splits)
  qed (cases m; simp)
qed

lemma pwhile_unfold:
  assumes "\<And>st. rd_consumes (body st)" "rd_wf r"
  shows "pwhile body st r = (if rd_empty r then (Inr st, r) else ptry (body st) (pwhile body) r)"
proof (cases "rd_empty r")
  case False
  then obtain n where n: "rd_remaining r = Suc n"
    using assms(2) by (cases "rd_remaining r") (auto simp: rd_wf_def rd_remaining_def rd_empty_def)
  have "pwhile_upto n body s r' = pwhile body s r'" if "body st r = (Inr s, r')" for s r'
    using rd_consumesD [OF assms(1) assms(2) that] n unfolding pwhile_def
    by (intro pwhile_upto_bound [OF assms(1)]) auto
  with False n show ?thesis
    unfolding pwhile_def [of body st r] by (auto simp: ptry_def split: prod.splits sum.splits)
qed (cases "rd_remaining r"; simp add: pwhile_def)

lemma safe_pwhile [safe_intros]:
  assumes "\<And>st. rd_safe (body st)"
  shows "rd_safe (pwhile body st)"
proof -
  have "rd_safe (pwhile_upto n body st)" for n
  proof (induction n arbitrary: st)
    case (Suc n)
    then have "rd_safe (ptry (body st) (pwhile_upto n body))" using assms by (intro safe_intros)
    then show ?case by (auto simp: rd_safe_def rd_extends_refl)
  qed (auto simp: rd_safe_def rd_extends_refl)
  then show ?thesis by (simp add: rd_safe_def pwhile_def)
qed

text \<open>What the bodies establish and keep holds of the results of the loops.\<close>

lemma pwhile_inv:
  assumes "\<And>st st' r r'. P st \<Longrightarrow> body st r = (Inr st', r') \<Longrightarrow> P st'" "P st" "pwhile body st r = (Inr st', r')"
  shows "P st'"
proof -
  have "pwhile_upto n body st r = (Inr st', r') \<Longrightarrow> P st \<Longrightarrow> P st'" for n
    by (induction n arbitrary: st r) (auto simp: ptry_eq_Inr fail_def split: if_splits dest: assms(1))
  then show ?thesis using assms(2,3) by (auto simp: pwhile_def)
qed

lemma pcount_all:
  "pcount n p r = (Inr xs, r') \<Longrightarrow> (\<And>x s s'. p s = (Inr x, s') \<Longrightarrow> P x) \<Longrightarrow> length xs = n \<and> list_all P xs"
  by (induction n arbitrary: r xs) (fastforce simp: ptry_eq_Inr)+

text \<open>A loop body that turns each of a list of byte strings into a change of its state.\<close>

inductive reads_all :: "('s \<Rightarrow> 's parser) \<Rightarrow> 's \<Rightarrow> bytes list \<Rightarrow> 's \<Rightarrow> bool" for body where
  reads_Nil: "reads_all body s [] s"
| reads_Cons: "bs \<noteq> [] \<Longrightarrow> (\<And>r ys. rd_wf r \<Longrightarrow> rd_rest r = bs @ ys \<Longrightarrow> body s r = (Inr t, rd_advance (length bs) r)) \<Longrightarrow>
    reads_all body t bss u \<Longrightarrow> reads_all body s (bs # bss) u"

lemma reads_all_append: "reads_all body s xs t \<Longrightarrow> reads_all body t ys u \<Longrightarrow> reads_all body s (xs @ ys) u"
  by (induction rule: reads_all.induct) (auto intro: reads_all.intros)

lemma pwhile_reads:
  assumes "reads_all body s bss t" "\<And>st. rd_consumes (body st)" "rd_wf r" "rd_rest r = concat bss"
  shows "pwhile body s r = (Inr t, rd_advance (length (rd_rest r)) r)"
  using assms(1,3,4)
proof (induction arbitrary: r rule: reads_all.induct)
  case (reads_Nil s)
  then show ?case by (simp add: pwhile_unfold [OF assms(2)] rd_empty_rest)
next
  case (reads_Cons bs s t bss u)
  have "pwhile body t (rd_advance (length bs) r) =
      (Inr u, rd_advance (length (rd_rest (rd_advance (length bs) r))) (rd_advance (length bs) r))"
    using reads_Cons.prems by (intro reads_Cons.IH) auto
  moreover have "body s r = (Inr t, rd_advance (length bs) r)" using reads_Cons.hyps(2) reads_Cons.prems by simp
  moreover have "\<not> rd_empty r" using reads_Cons.prems reads_Cons.hyps(1) by (simp add: rd_empty_rest)
  ultimately show ?case
    using reads_Cons.prems pwhile_unfold [where body = body and st = s, OF assms(2) reads_Cons.prems(1)] by (simp add: rd_simps)
qed

section \<open>The contract of an encoder and its decoder\<close>

locale codec =
  fixes wr :: "'a \<Rightarrow> writer \<Rightarrow> writer option"
    and rd :: "'a parser"
    and ok :: "'a \<Rightarrow> bool"
    and enc :: "'a \<Rightarrow> bytes"
  assumes wr_enc: "ok x \<Longrightarrow> wr x w = Some (w @ enc x)"
    and rd_enc: "ok x \<Longrightarrow> rd_wf r \<Longrightarrow> rd_rest r = enc x @ ys \<Longrightarrow>
      rd r = (Inr x, rd_advance (length (enc x)) r)"
begin

lemma round_trip:
  assumes "ok x"
  shows "\<exists>bs. wr x w = Some (w @ bs) \<and> rd (mk_reader (bs @ ys) b) = (Inr x, rd_advance (length bs) (mk_reader (bs @ ys) b))"
  using assms by (intro exI [of _ "enc x"]) (simp add: wr_enc rd_enc)

lemma prefix_free:
  assumes "ok x" "ok y" "enc x @ xs = enc y @ ys"
  shows "x = y \<and> xs = ys"
proof -
  let ?r = "mk_reader (enc x @ xs) 0"
  have "rd ?r = (Inr x, rd_advance (length (enc x)) ?r)"
    using assms(1) by (intro rd_enc) auto
  moreover have "rd ?r = (Inr y, rd_advance (length (enc y)) ?r)"
    using assms by (intro rd_enc) auto
  ultimately have "x = y" by simp
  with assms(3) show ?thesis by simp
qed

lemma enc_inj: "ok x \<Longrightarrow> ok y \<Longrightarrow> enc x = enc y \<Longrightarrow> x = y"
  using prefix_free [of x y "[]" "[]"] by simp

end

text \<open>
  The contract of a PDU that fills its container: the decoder may insist on the end of the input
  behind it. A codec gives one.
\<close>

locale pdu_codec =
  fixes wr :: "'a \<Rightarrow> writer \<Rightarrow> writer option"
    and rd :: "'a parser"
    and ok :: "'a \<Rightarrow> bool"
    and enc :: "'a \<Rightarrow> bytes"
  assumes wr_pdu: "ok x \<Longrightarrow> wr x w = Some (w @ enc x)"
    and rd_pdu: "ok x \<Longrightarrow> rd_wf r \<Longrightarrow> rd_rest r = enc x \<Longrightarrow> fst (rd r) = Inr x"
begin

lemma pdu_round_trip: "ok x \<Longrightarrow> \<exists>bs. wr x w = Some (w @ bs) \<and> fst (rd (mk_reader bs b)) = Inr x"
  by (intro exI [of _ "enc x"]) (simp add: wr_pdu rd_pdu)

lemma pdu_inj:
  assumes "ok x" "ok y" "enc x = enc y"
  shows "x = y"
proof -
  have "fst (rd (mk_reader (enc y) 0)) = Inr x" by (rule rd_pdu [OF assms(1)]) (simp_all add: assms(3))
  moreover have "fst (rd (mk_reader (enc y) 0)) = Inr y" by (rule rd_pdu [OF assms(2)]) simp_all
  ultimately show ?thesis by simp
qed

end

sublocale codec \<subseteq> pdu: pdu_codec wr rd ok enc
  by unfold_locales (simp_all add: wr_enc rd_enc)

end
