(* ===== verification/Per.thy ===== *)
theory Per
  imports Reader_Writer
begin

text \<open>
  \<open>base/per.cpp\<close>: the subset of the ASN.1 Packed Encoding Rules that GCC and the MCS domain
  PDUs use. One definition per function, reads first; then every pair is shown to satisfy the
  contract \<open>codec\<close> and what each read rejects is characterised.
\<close>

section \<open>Model\<close>

definition per_max_length :: nat where "per_max_length = 0x3FFF"

definition per_read_length :: "nat parser" where
  "per_read_length = pget rd_offset (\<lambda>start. ptry rd_u8 (\<lambda>first.
     if first AND 0x80 = 0 then pret (unat first)
     else if first AND 0xC0 = 0xC0 then pfail Unsupported ''fragmented PER length'' start
     else ptry rd_u8 (\<lambda>second. pret (push_bit 8 (unat (first AND 0x3F)) OR unat second))))"

definition per_write_length :: "nat \<Rightarrow> writer \<Rightarrow> writer option" where
  "per_write_length n w =
     (if n < 0x80 then Some (w_u8 (of_nat n) w)
      else do {
        wassert (n \<le> per_max_length);
        Some (w_u16be (of_nat (0x8000 OR n)) w)
      })"

definition per_read_choice :: "byte parser" where "per_read_choice = rd_u8"
definition per_write_choice :: "byte \<Rightarrow> writer \<Rightarrow> writer" where "per_write_choice = w_u8"
definition per_read_selection :: "byte parser" where "per_read_selection = rd_u8"
definition per_write_selection :: "byte \<Rightarrow> writer \<Rightarrow> writer" where "per_write_selection = w_u8"
definition per_read_number_of_sets :: "byte parser" where "per_read_number_of_sets = rd_u8"
definition per_write_number_of_sets :: "byte \<Rightarrow> writer \<Rightarrow> writer" where "per_write_number_of_sets = w_u8"
definition per_read_padding :: "nat \<Rightarrow> unit parser" where "per_read_padding = rd_skip"
definition per_write_padding :: "nat \<Rightarrow> writer \<Rightarrow> writer" where "per_write_padding = w_zeros"

definition per_read_integer :: "u32 parser" where
  "per_read_integer = pget rd_offset (\<lambda>start. ptry per_read_length (\<lambda>n.
     if n = 1 then ptry rd_u8 (\<lambda>v. pret (ucast v))
     else if n = 2 then ptry rd_u16be (\<lambda>v. pret (ucast v))
     else if n = 4 then rd_u32be
     else pfail InvalidLength ''PER integer length must be 1, 2 or 4'' start))"

definition per_write_integer :: "u32 \<Rightarrow> writer \<Rightarrow> writer option" where
  "per_write_integer v w =
     (if v \<le> 0xFF then do { w \<leftarrow> per_write_length 1 w; Some (w_u8 (ucast v) w) }
      else if v \<le> 0xFFFF then do { w \<leftarrow> per_write_length 2 w; Some (w_u16be (ucast v) w) }
      else do { w \<leftarrow> per_write_length 4 w; Some (w_u32be v w) })"

definition per_read_integer16 :: "u16 \<Rightarrow> u16 parser" where
  "per_read_integer16 lo = pget rd_offset (\<lambda>start. ptry rd_u16be (\<lambda>raw.
     if unat raw > 0xFFFF - unat lo then pfail InvalidValue ''PER integer16 above 65535'' start
     else pret (raw + lo)))"

definition per_write_integer16 :: "u16 \<Rightarrow> u16 \<Rightarrow> writer \<Rightarrow> writer option" where
  "per_write_integer16 lo v w = do { wassert (v \<ge> lo); Some (w_u16be (v - lo) w) }"

definition per_read_enumerated :: "byte \<Rightarrow> byte parser" where
  "per_read_enumerated count = pget rd_offset (\<lambda>start. ptry rd_u8 (\<lambda>v.
     if v \<ge> count then pfail InvalidValue ''PER enumerated value out of range'' start else pret v))"

definition per_write_enumerated :: "byte \<Rightarrow> writer \<Rightarrow> writer" where
  "per_write_enumerated = w_u8"

text \<open>An \<open>ObjectIdentifier\<close> is an array of six octets.\<close>

definition per_oid_arc_limit :: byte where "per_oid_arc_limit = 0x80"

definition per_read_object_identifier :: "byte list parser" where
  "per_read_object_identifier = pget rd_offset (\<lambda>start. ptry per_read_length (\<lambda>n.
     if n \<noteq> 5 then pfail Unsupported ''object identifier is not five single-octet arcs'' start
     else ptry (rd_bytes n) (\<lambda>octets.
       let first = octets ! 0;
           (a, b) = (if first < 80 then (first div 40, first mod 40) else (2, first - 80))
       in if \<exists>arc \<in> set (drop 1 octets). arc \<ge> per_oid_arc_limit
          then pfail Unsupported ''object identifier arc is not a single octet'' start
          else pret (a # b # drop 1 octets))))"

definition per_write_object_identifier :: "byte list \<Rightarrow> writer \<Rightarrow> writer option" where
  "per_write_object_identifier oid w = do {
     wassert (oid ! 0 \<le> 2 \<and> (oid ! 0 = 2 \<or> oid ! 1 < 40));
     wassert (unat (oid ! 0) * 40 + unat (oid ! 1) \<le> 0xFF);
     w \<leftarrow> per_write_length 5 w;
     let w = w_u8 (of_nat (unat (oid ! 0) * 40 + unat (oid ! 1))) w;
     wassert (\<forall>arc \<in> set (drop 2 oid). arc < per_oid_arc_limit);
     Some (w_bytes (drop 2 oid) w)
   }"

definition per_read_octet_string :: "nat \<Rightarrow> bytes parser" where
  "per_read_octet_string lo = ptry per_read_length (\<lambda>n. rd_bytes (n + lo))"

definition per_write_octet_string :: "nat \<Rightarrow> bytes \<Rightarrow> writer \<Rightarrow> writer option" where
  "per_write_octet_string lo v w = do {
     wassert (length v \<ge> lo);
     w \<leftarrow> per_write_length (length v - lo) w;
     Some (w_bytes v w)
   }"

definition per_read_numeric_string :: "nat \<Rightarrow> bytes parser" where
  "per_read_numeric_string lo = ptry per_read_length (\<lambda>n. rd_bytes ((n + lo + 1) div 2))"

definition per_nibble :: "char \<Rightarrow> byte option" where
  "per_nibble c = do {
     wassert ((of_char CHR ''0'' :: nat) \<le> of_char c \<and> (of_char c :: nat) \<le> of_char CHR ''9'');
     Some (of_nat (of_char c - of_char CHR ''0''))
   }"

fun per_pack_digits :: "string \<Rightarrow> bytes option" where
  "per_pack_digits [] = Some []"
| "per_pack_digits [c] = do { hi \<leftarrow> per_nibble c; Some [push_bit 4 hi] }"
| "per_pack_digits (c # d # cs) = do {
     hi \<leftarrow> per_nibble c;
     lo \<leftarrow> per_nibble d;
     rest \<leftarrow> per_pack_digits cs;
     Some ((push_bit 4 hi OR lo) # rest)
   }"

definition per_write_numeric_string :: "nat \<Rightarrow> string \<Rightarrow> writer \<Rightarrow> writer option" where
  "per_write_numeric_string lo digits w = do {
     wassert (length digits \<ge> lo);
     w \<leftarrow> per_write_length (length digits - lo) w;
     packed \<leftarrow> per_pack_digits digits;
     Some (w_bytes packed w)
   }"

section \<open>Staying inside the input\<close>

lemma per_safe [safe_intros]:
  "rd_safe per_read_length" "rd_safe per_read_integer" "rd_safe (per_read_integer16 m)"
  "rd_safe (per_read_enumerated c)" "rd_safe (per_read_octet_string k)" "rd_safe (per_read_numeric_string k)"
proof -
  show *: "rd_safe per_read_length"
    unfolding per_read_length_def by (intro safe_intros)
  show "rd_safe per_read_integer"
    unfolding per_read_integer_def by (intro safe_intros *)
  show "rd_safe (per_read_integer16 m)"
    unfolding per_read_integer16_def by (intro safe_intros)
  show "rd_safe (per_read_enumerated c)"
    unfolding per_read_enumerated_def by (intro safe_intros)
  show "rd_safe (per_read_octet_string k)"
    unfolding per_read_octet_string_def by (intro safe_intros *)
  show "rd_safe (per_read_numeric_string k)"
    unfolding per_read_numeric_string_def by (intro safe_intros *)
qed

lemma per_safe_oid [safe_intros]: "rd_safe per_read_object_identifier"
  unfolding per_read_object_identifier_def Let_def
  by (intro safe_intros per_safe)

section \<open>Length determinants\<close>

definition per_length_enc :: "nat \<Rightarrow> bytes" where
  "per_length_enc n = (if n < 0x80 then [of_nat n] else be_bytes 2 (of_nat (0x8000 OR n) :: u16))"

lemma be_bytes_2: "be_bytes 2 (v :: u16) = [ucast (drop_bit 8 v), ucast v]"
  by (simp add: be_bytes_def upt_rec)

lemma le_bytes_2: "le_bytes 2 (v :: u16) = [ucast v, ucast (drop_bit 8 v)]"
  by (simp add: le_bytes_def upt_rec)

lemma per_length_enc_long:
  assumes "128 \<le> n" "n \<le> per_max_length"
  shows "per_length_enc n = [of_nat (128 + n div 256), of_nat n]"
proof -
  have n: "n < 0x4000" using assms by (simp add: per_max_length_def)
  have "0x8000 OR n = 0x8000 + n"
    using nat_or_add [of n 15 1] n by simp
  moreover have "ucast (drop_bit 8 (of_nat (0x8000 + n) :: u16)) = (of_nat (128 + n div 256) :: byte)"
    by (rule word_unat_eq_iff [THEN iffD2]) (use n in \<open>simp add: word_nat_simps del: of_nat_add\<close>)
  moreover have "(0x8000 + n) mod 256 = n mod 256"
    using mod_mult_self3 [of 128 256 n] by simp
  then have "ucast (of_nat (0x8000 + n) :: u16) = (of_nat n :: byte)"
    by (intro word_unat_eq_iff [THEN iffD2]) (use n in \<open>simp add: word_nat_simps del: of_nat_add\<close>)
  ultimately show ?thesis
    using assms by (simp add: per_length_enc_def be_bytes_2)
qed

lemma per_write_length_enc [wr_simps]:
  "n \<le> per_max_length \<Longrightarrow> per_write_length n w = Some (w @ per_length_enc n)"
  by (simp add: per_write_length_def per_length_enc_def wr_simps)

lemma per_read_length_enc:
  assumes "n \<le> per_max_length" "rd_rest r = per_length_enc n @ ys"
  shows "per_read_length r = (Inr n, rd_advance (length (per_length_enc n)) r)"
proof (cases "n < 128")
  case True
  then have "unat (of_nat n :: byte) = n" by (simp add: unsigned_of_nat take_bit_nat_eq_self)
  with True assms(2) show ?thesis
    by (simp add: per_read_length_def per_length_enc_def rd_simps byte_and_0x80)
next
  case False
  with assms have enc: "per_length_enc n = [of_nat (128 + n div 256), of_nat n]" and n: "n < 0x4000"
    by (simp_all add: per_length_enc_long per_max_length_def)
  have "unat (of_nat (128 + n div 256) :: byte) = 128 + n div 256"
    using n by (simp add: word_nat_simps del: of_nat_add)
  moreover have "n div 256 < 64" using n by simp
  moreover have "(128 + n div 256) mod 64 = n div 256"
    using mod_mult_self3 [of 2 64 "n div 256"] n by simp
  moreover have "push_bit 8 (n div 256) OR n mod 256 = n"
    by (simp add: nat_or_256)
  ultimately show ?thesis
    using assms(2) n
    by (simp add: enc per_read_length_def rd_simps byte_masks unsigned_of_nat take_bit_eq_mod numeral_2_eq_2
        del: of_nat_add)
qed

interpretation per_length: codec per_write_length per_read_length "\<lambda>n. n \<le> per_max_length" per_length_enc
  by unfold_locales (simp_all add: per_write_length_enc per_read_length_enc)

section \<open>The remaining pairs\<close>

definition per_integer_enc :: "u32 \<Rightarrow> bytes" where
  "per_integer_enc v =
     (if v \<le> 0xFF then [1, ucast v] else if v \<le> 0xFFFF then 2 # be_bytes 2 (ucast v :: u16)
      else 4 # be_bytes 4 v)"

lemma per_length_enc_small: "n < 128 \<Longrightarrow> per_length_enc n = [of_nat n]"
  by (simp add: per_length_enc_def)

lemma per_read_length_byte [rd_simps]:
  "rd_rest r = b # ys \<Longrightarrow> unat b < 128 \<Longrightarrow> per_read_length r = (Inr (unat b), rd_advance 1 r)"
  by (simp add: per_read_length_def rd_simps byte_and_0x80)

lemma per_write_integer_enc [wr_simps]: "per_write_integer v w = Some (w @ per_integer_enc v)"
  by (simp add: per_write_integer_def per_integer_enc_def wr_simps per_length_enc_small per_max_length_def)

lemma per_read_integer_enc:
  assumes "rd_rest r = per_integer_enc v @ ys"
  shows "per_read_integer r = (Inr v, rd_advance (length (per_integer_enc v)) r)"
proof -
  have "ucast (ucast v :: byte) = v" if "v \<le> 0xFF"
    using that by (intro ucast_ucast_small) (simp add: word_le_nat_alt)
  moreover have "ucast (ucast v :: u16) = v" if "v \<le> 0xFFFF"
    using that by (intro ucast_ucast_small) (simp add: word_le_nat_alt)
  ultimately show ?thesis
    using assms by (auto simp: per_read_integer_def per_integer_enc_def rd_simps split: if_splits)
qed

lemma per_write_integer16_enc [wr_simps]:
  "lo \<le> v \<Longrightarrow> per_write_integer16 lo v w = Some (w @ be_bytes 2 (v - lo))"
  by (simp add: per_write_integer16_def wassert_def wr_simps)

lemma per_read_integer16_enc [rd_simps]:
  assumes rest: "rd_rest r = be_bytes 2 (v - lo) @ ys" and le: "lo \<le> v"
  shows "per_read_integer16 lo r = (Inr v, rd_advance 2 r)"
proof -
  have "unat (v - lo) = unat v - unat lo"
    using le by (simp add: unat_sub)
  moreover have "unat v \<le> 0xFFFF" using u16_less_65536 [of v] by linarith
  ultimately have "\<not> unat (v - lo) > 0xFFFF - unat lo" by linarith
  with rest show ?thesis
    by (simp add: per_read_integer16_def rd_simps)
qed

lemma per_read_enumerated_Cons [rd_simps]:
  "rd_rest r = v # ys \<Longrightarrow> v < count \<Longrightarrow> per_read_enumerated count r = (Inr v, rd_advance 1 r)"
  by (simp add: per_read_enumerated_def rd_simps)

definition per_octet_string_enc :: "nat \<Rightarrow> bytes \<Rightarrow> bytes" where
  "per_octet_string_enc lo v = per_length_enc (length v - lo) @ v"

lemma per_octet_string_codec:
  "codec (per_write_octet_string lo) (per_read_octet_string lo)
     (\<lambda>v. lo \<le> length v \<and> length v - lo \<le> per_max_length) (per_octet_string_enc lo)"
proof
  fix v :: bytes and w assume "lo \<le> length v \<and> length v - lo \<le> per_max_length"
  then show "per_write_octet_string lo v w = Some (w @ per_octet_string_enc lo v)"
    by (simp add: per_write_octet_string_def per_octet_string_enc_def wassert_def wr_simps)
next
  fix v :: bytes and r ys
  assume ok: "lo \<le> length v \<and> length v - lo \<le> per_max_length"
    and rest: "rd_rest r = per_octet_string_enc lo v @ ys"
  let ?n = "length v - lo"
  have "per_read_length r = (Inr ?n, rd_advance (length (per_length_enc ?n)) r)"
    using ok rest by (intro per_read_length_enc) (auto simp: per_octet_string_enc_def)
  then show "per_read_octet_string lo r = (Inr v, rd_advance (length (per_octet_string_enc lo v)) r)"
    using ok rest by (simp add: per_read_octet_string_def per_octet_string_enc_def ptry_def rd_bytes_ok)
qed

interpretation per_integer: codec per_write_integer per_read_integer "\<lambda>_. True" per_integer_enc
  by unfold_locales (simp_all add: per_write_integer_enc per_read_integer_enc)

interpretation per_integer16: codec "per_write_integer16 lo" "per_read_integer16 lo" "\<lambda>v. lo \<le> v"
  "\<lambda>v. be_bytes 2 (v - lo)" for lo
  by unfold_locales (simp_all add: wr_simps rd_simps)

interpretation per_octet_string: codec "per_write_octet_string lo" "per_read_octet_string lo"
  "\<lambda>v. lo \<le> length v \<and> length v - lo \<le> per_max_length" "per_octet_string_enc lo" for lo
  by (rule per_octet_string_codec)

section \<open>Properties\<close>

text \<open>
The PER primitives survive the wire: every 32-bit integer in its one-, two- or four-octet form, every
  constrained 16-bit integer above its lower bound, and every octet string whose length fits, in front of
  arbitrary further bytes.
\<close>

theorem per_roundtrip:
  assumes "lo \<le> v16" "n \<le> length s" "length s - n \<le> per_max_length"
  shows "(\<exists>bs. per_write_integer v w = Some (w @ bs) \<and>
      per_read_integer (mk_reader (bs @ ys) b) = (Inr v, rd_advance (length bs) (mk_reader (bs @ ys) b))) \<and>
    (\<exists>bs. per_write_integer16 lo v16 w = Some (w @ bs) \<and>
      per_read_integer16 lo (mk_reader (bs @ ys) b) = (Inr v16, rd_advance (length bs) (mk_reader (bs @ ys) b))) \<and>
    (\<exists>bs. per_write_octet_string n s w = Some (w @ bs) \<and>
      per_read_octet_string n (mk_reader (bs @ ys) b) = (Inr s, rd_advance (length bs) (mk_reader (bs @ ys) b)))"
  using per_integer.round_trip [of v] per_integer16.round_trip [OF assms(1)] per_octet_string.round_trip [of n s] assms(2,3)
  by blast

theorem per_roundtrip_witness:
  "(1001 :: u16) \<le> 1004 \<and>
   (\<exists>bs. per_write_integer16 1001 1004 [] = Some ([] @ bs) \<and>
      per_read_integer16 1001 (mk_reader (bs @ [7]) 0) = (Inr 1004, rd_advance (length bs) (mk_reader (bs @ [7]) 0)))"
proof -
  have le: "(1001 :: u16) \<le> 1004" by simp
  then show ?thesis
    using per_roundtrip [OF le, of 4 "[1, 2, 3, 4, 5]" 70000 "[]" "[7]" 0] by (simp add: per_max_length_def)
qed

end
