(* ===== verification/Ber.thy ===== *)
theory Ber
  imports Per
begin

text \<open>
  \<open>base/ber.cpp\<close> and \<open>base/ber.hpp\<close>: ASN.1 BER and DER with definite lengths. The model
  follows the file function by function; the lemmas show that what the encoder writes (DER) is
  read back under both rule sets, for tags up to three base-128 octets, lengths up to four
  octets and integers of 64 bits.
\<close>

section \<open>Model: decoding\<close>

datatype ber_rules = RulesBer | RulesDer

datatype tag_class = Universal | Application | Context | PrivateUse

record tag =
  tag_cls :: tag_class
  tag_constructed :: bool
  tag_number :: u32

record tlv =
  tlv_tag :: tag
  tlv_value :: bytes
  tlv_offset :: nat

fun tag_class_code :: "tag_class \<Rightarrow> byte" where
  "tag_class_code Universal = 0"
| "tag_class_code Application = 1"
| "tag_class_code Context = 2"
| "tag_class_code PrivateUse = 3"

text \<open>\<open>static_cast<TagClass>(first >> class_shift)\<close>.\<close>

definition tag_class_of :: "byte \<Rightarrow> tag_class" where
  "tag_class_of c = (if c = 0 then Universal else if c = 1 then Application else if c = 2 then Context
     else PrivateUse)"

definition ber_tag :: "tag_class \<Rightarrow> bool \<Rightarrow> u32 \<Rightarrow> tag" where
  "ber_tag c k n = \<lparr>tag_cls = c, tag_constructed = k, tag_number = n\<rparr>"

definition ber_boolean_tag :: tag where "ber_boolean_tag = ber_tag Universal False 1"
definition ber_integer_tag :: tag where "ber_integer_tag = ber_tag Universal False 2"
definition ber_octet_string_tag :: tag where "ber_octet_string_tag = ber_tag Universal False 4"
definition ber_enumerated_tag :: tag where "ber_enumerated_tag = ber_tag Universal False 10"
definition ber_sequence_tag :: tag where "ber_sequence_tag = ber_tag Universal True 16"
definition ber_application :: "u32 \<Rightarrow> tag" where "ber_application n = ber_tag Application True n"
definition ber_context :: "u32 \<Rightarrow> tag" where "ber_context n = ber_tag Context True n"

definition ber_max_tag_number :: u32 where "ber_max_tag_number = 2 ^ 21 - 1"
definition ber_max_length_octets :: nat where "ber_max_length_octets = 4"

definition tlv_reader :: "tlv \<Rightarrow> reader" where
  "tlv_reader t = mk_reader (tlv_value t) (tlv_offset t)"

definition ber_redundant_leading_octet :: "byte \<Rightarrow> byte \<Rightarrow> bool" where
  "ber_redundant_leading_octet lead second =
     (let next_negative = (second AND 0x80 \<noteq> 0)
      in (lead = 0x00 \<and> \<not> next_negative) \<or> (lead = 0xFF \<and> next_negative))"

fun ber_strip_redundant :: "bytes \<Rightarrow> bytes" where
  "ber_strip_redundant (a # b # ds) =
     (if ber_redundant_leading_octet a b then ber_strip_redundant (b # ds) else a # b # ds)"
| "ber_strip_redundant ds = ds"

definition ber_integer_digits :: "tlv \<Rightarrow> ber_rules \<Rightarrow> bytes result" where
  "ber_integer_digits t rules =
     (if tlv_value t = [] then fail InvalidLength ''INTEGER has no content octets'' (tlv_offset t)
      else let digits = ber_strip_redundant (tlv_value t)
           in if rules = RulesDer \<and> length digits \<noteq> length (tlv_value t)
              then fail InvalidValue ''DER INTEGER is not minimally encoded'' (tlv_offset t)
              else Inr digits)"

text \<open>The high-tag-number loop; \<open>left\<close> is \<open>3 - i\<close> of the source.\<close>

fun ber_tag_loop :: "nat \<Rightarrow> nat \<Rightarrow> u32 \<Rightarrow> u32 parser" where
  "ber_tag_loop 0 start number = pfail LimitExceeded ''tag number too large'' start"
| "ber_tag_loop (Suc left) start number = ptry rd_u8 (\<lambda>octet.
     if left = 2 \<and> octet = 0x80
     then pfail InvalidValue ''tag number has a leading zero octet'' start
     else let number = push_bit 7 number OR ucast (octet AND 0x7F)
          in if octet AND 0x80 = 0 then pret number else ber_tag_loop left start number)"

definition ber_read_tag :: "tag parser" where
  "ber_read_tag = pget rd_offset (\<lambda>start. ptry rd_u8 (\<lambda>first.
     let t = ber_tag (tag_class_of (drop_bit 6 first)) (first AND 0x20 \<noteq> 0) (ucast (first AND 0x1F))
     in if tag_number t \<noteq> 0x1F then pret t
        else ptry (ber_tag_loop 3 start 0) (\<lambda>number.
          if number < 0x1F
          then pfail InvalidValue ''tag number below 31 in high-tag-number form'' start
          else pret (t\<lparr>tag_number := number\<rparr>))))"

fun ber_length_loop :: "nat \<Rightarrow> nat \<Rightarrow> nat parser" where
  "ber_length_loop 0 len = pret len"
| "ber_length_loop (Suc k) len = ptry rd_u8 (\<lambda>octet. ber_length_loop k (push_bit 8 len OR unat octet))"

definition ber_read_length :: "ber_rules \<Rightarrow> nat parser" where
  "ber_read_length rules = pget rd_offset (\<lambda>start. ptry rd_u8 (\<lambda>first.
     if first AND 0x80 = 0 then pret (unat first)
     else let count = unat (first AND 0x7F)
       in if count = 0 then pfail Unsupported ''indefinite length'' start
       else if count > ber_max_length_octets then pfail LimitExceeded ''length uses too many octets'' start
       else ptry (ber_length_loop count 0) (\<lambda>n.
         if rules = RulesDer \<and> n < 0x80
         then pfail InvalidLength ''DER length below 128 not in short form'' start
         else if rules = RulesDer \<and> drop_bit (8 * (count - 1)) n = 0
         then pfail InvalidLength ''DER length has a leading zero octet'' start
         else pret n)))"

definition ber_read_tlv :: "ber_rules \<Rightarrow> tlv parser" where
  "ber_read_tlv rules = ptry ber_read_tag (\<lambda>t. ptry (ber_read_length rules) (\<lambda>n.
     pget rd_offset (\<lambda>value_offset. ptry (rd_bytes n) (\<lambda>v.
       pret \<lparr>tlv_tag = t, tlv_value = v, tlv_offset = value_offset\<rparr>))))"

definition ber_expect_tlv :: "tag \<Rightarrow> ber_rules \<Rightarrow> tlv parser" where
  "ber_expect_tlv expected rules = pget rd_offset (\<lambda>start. ptry (ber_read_tlv rules) (\<lambda>t.
     if tlv_tag t \<noteq> expected then pfail InvalidValue ''unexpected tag'' start else pret t))"

definition ber_peek_tag :: "tag parser" where
  "ber_peek_tag = ppeek ber_read_tag"

definition ber_decode_boolean :: "tlv \<Rightarrow> ber_rules \<Rightarrow> bool result" where
  "ber_decode_boolean t rules =
     (if length (tlv_value t) \<noteq> 1
      then fail InvalidLength ''BOOLEAN must have one content octet'' (tlv_offset t)
      else let v = tlv_value t ! 0
           in if rules = RulesDer \<and> v \<noteq> 0x00 \<and> v \<noteq> 0xFF
              then fail InvalidValue ''DER BOOLEAN must be 0x00 or 0xFF'' (tlv_offset t)
              else Inr (v \<noteq> 0))"

text \<open>The loop \<open>bits = (bits << 8) | octet\<close> from a given start value.\<close>

definition ber_shift_in :: "u64 \<Rightarrow> bytes \<Rightarrow> u64" where
  "ber_shift_in v0 digits = foldl (\<lambda>v b. push_bit 8 v OR ucast b) v0 digits"

definition ber_decode_integer :: "tlv \<Rightarrow> ber_rules \<Rightarrow> int result" where
  "ber_decode_integer t rules = (case ber_integer_digits t rules of
     Inl e \<Rightarrow> Inl e
   | Inr digits \<Rightarrow>
       if length digits > 8 then fail LimitExceeded ''INTEGER does not fit in 64 bits'' (tlv_offset t)
       else let negative = (digits ! 0 AND 0x80 \<noteq> 0)
            in Inr (sint (ber_shift_in (if negative then NOT 0 else 0) digits)))"

definition ber_decode_unsigned :: "tlv \<Rightarrow> ber_rules \<Rightarrow> u64 result" where
  "ber_decode_unsigned t rules = (case ber_integer_digits t rules of
     Inl e \<Rightarrow> Inl e
   | Inr digits \<Rightarrow>
       if digits ! 0 AND 0x80 \<noteq> 0
       then fail InvalidValue ''negative INTEGER where a non-negative one is required'' (tlv_offset t)
       else let digits = (if length digits > 1 \<and> digits ! 0 = 0 then drop 1 digits else digits)
            in if length digits > 8
               then fail LimitExceeded ''INTEGER does not fit in 64 bits'' (tlv_offset t)
               else Inr (ber_shift_in 0 digits))"

fun ber_strip_zeros :: "bytes \<Rightarrow> bytes" where
  "ber_strip_zeros (a # b # ds) = (if a = 0 then ber_strip_zeros (b # ds) else a # b # ds)"
| "ber_strip_zeros ds = ds"

definition ber_decode_raw_unsigned :: "tlv \<Rightarrow> u64 result" where
  "ber_decode_raw_unsigned t =
     (if tlv_value t = [] then fail InvalidLength ''INTEGER has no content octets'' (tlv_offset t)
      else let digits = ber_strip_zeros (tlv_value t)
           in if length digits > 8
              then fail LimitExceeded ''INTEGER does not fit in 64 bits'' (tlv_offset t)
              else Inr (ber_shift_in 0 digits))"

text \<open>A result computed from a decoded value, as the value of a parser.\<close>

definition plift :: "'a result \<Rightarrow> 'a parser" where
  "plift x r = (x, r)"

definition ber_read_boolean :: "ber_rules \<Rightarrow> tag \<Rightarrow> bool parser" where
  "ber_read_boolean rules t = ptry (ber_expect_tlv t rules) (\<lambda>v. plift (ber_decode_boolean v rules))"

definition ber_read_integer :: "ber_rules \<Rightarrow> tag \<Rightarrow> int parser" where
  "ber_read_integer rules t = ptry (ber_expect_tlv t rules) (\<lambda>v. plift (ber_decode_integer v rules))"

definition ber_read_unsigned :: "ber_rules \<Rightarrow> tag \<Rightarrow> u64 parser" where
  "ber_read_unsigned rules t = ptry (ber_expect_tlv t rules) (\<lambda>v. plift (ber_decode_unsigned v rules))"

definition ber_read_octet_string :: "ber_rules \<Rightarrow> tag \<Rightarrow> bytes parser" where
  "ber_read_octet_string rules t = ptry (ber_expect_tlv t rules) (\<lambda>v. pret (tlv_value v))"

definition ber_read_constructed :: "tag \<Rightarrow> ber_rules \<Rightarrow> reader parser" where
  "ber_read_constructed t rules = ptry (ber_expect_tlv t rules) (\<lambda>v. pret (tlv_reader v))"

section \<open>Model: encoding\<close>

fun ber_tag_groups :: "bool \<Rightarrow> nat list \<Rightarrow> u32 \<Rightarrow> bytes" where
  "ber_tag_groups started [] n = []"
| "ber_tag_groups started (shift # shifts) n =
     (let group = drop_bit shift n AND 0x7F
      in if \<not> started \<and> group = 0 \<and> shift \<noteq> 0 then ber_tag_groups started shifts n
         else ucast (group OR (if shift \<noteq> 0 then 0x80 else 0)) # ber_tag_groups True shifts n)"

definition ber_write_tag :: "tag \<Rightarrow> writer \<Rightarrow> writer option" where
  "ber_write_tag t w =
     (let leading = push_bit 6 (tag_class_code (tag_cls t)) OR (if tag_constructed t then 0x20 else 0)
      in if tag_number t < 0x1F then Some (w_u8 (leading OR ucast (tag_number t)) w)
         else do {
           wassert (tag_number t \<le> ber_max_tag_number);
           let w = w_u8 (leading OR 0x1F) w;
           Some (w_bytes (ber_tag_groups False [14, 7, 0] (tag_number t)) w)
         })"

function ber_octet_count :: "nat \<Rightarrow> nat" where
  "ber_octet_count rest = (if rest = 0 then 0 else Suc (ber_octet_count (drop_bit 8 rest)))"
  by pat_completeness auto
termination
  by (relation "measure id") (auto simp: drop_bit_eq_div)

declare ber_octet_count.simps [simp del]

definition ber_write_length :: "nat \<Rightarrow> writer \<Rightarrow> writer option" where
  "ber_write_length n w =
     (if n < 0x80 then Some (w_u8 (of_nat n) w)
      else let count = ber_octet_count n in do {
        wassert (count \<le> ber_max_length_octets);
        let w = w_u8 (0x80 OR of_nat count) w;
        Some (w_bytes (map (\<lambda>i. of_nat (drop_bit (8 * i) n)) (rev [0..<count])) w)
      })"

definition ber_write_tlv :: "tag \<Rightarrow> bytes \<Rightarrow> writer \<Rightarrow> writer option" where
  "ber_write_tlv t v w = do {
     w \<leftarrow> ber_write_tag t w;
     w \<leftarrow> ber_write_length (length v) w;
     Some (w_bytes v w)
   }"

definition ber_write_boolean :: "tag \<Rightarrow> bool \<Rightarrow> writer \<Rightarrow> writer option" where
  "ber_write_boolean t v = ber_write_tlv t [if v then 0xFF else 0x00]"

definition ber_write_integer :: "tag \<Rightarrow> int \<Rightarrow> writer \<Rightarrow> writer option" where
  "ber_write_integer t v = ber_write_tlv t (ber_strip_redundant (be_bytes 8 (word_of_int v :: u64)))"

definition ber_write_unsigned :: "tag \<Rightarrow> u64 \<Rightarrow> writer \<Rightarrow> writer option" where
  "ber_write_unsigned t v = ber_write_tlv t (ber_strip_redundant (0 # be_bytes 8 v))"

definition ber_write_octet_string :: "tag \<Rightarrow> bytes \<Rightarrow> writer \<Rightarrow> writer option" where
  "ber_write_octet_string t v = ber_write_tlv t v"

definition ber_write_constructed :: "tag \<Rightarrow> (writer \<Rightarrow> writer option) \<Rightarrow> writer \<Rightarrow> writer option" where
  "ber_write_constructed t body w = do {
     wassert (tag_constructed t);
     contents \<leftarrow> body [];
     ber_write_tlv t contents w
   }"

section \<open>Staying inside the input\<close>

lemma safe_plift [safe_intros]: "rd_safe (plift x)"
  by (simp add: rd_safe_def plift_def rd_extends_refl)

lemma ber_safe_tag_loop [safe_intros]: "rd_safe (ber_tag_loop k s n)"
  by (induction k arbitrary: n) (auto simp: Let_def intro!: safe_intros)

lemma ber_safe_length_loop [safe_intros]: "rd_safe (ber_length_loop k n)"
  by (induction k arbitrary: n) (auto intro!: safe_intros)

lemma ber_safe_tag [safe_intros]: "rd_safe ber_read_tag"
  unfolding ber_read_tag_def Let_def by (intro safe_intros)

lemma ber_safe_length [safe_intros]: "rd_safe (ber_read_length rules)"
  unfolding ber_read_length_def Let_def by (intro safe_intros)

lemma ber_safe_tlv [safe_intros]: "rd_safe (ber_read_tlv rules)"
  unfolding ber_read_tlv_def by (intro safe_intros)

lemma ber_safe_expect [safe_intros]: "rd_safe (ber_expect_tlv t rules)"
  unfolding ber_expect_tlv_def by (intro safe_intros)

lemma ber_safe [safe_intros]:
  "rd_safe (ber_read_boolean rules t)" "rd_safe (ber_read_integer rules t)"
  "rd_safe (ber_read_unsigned rules t)" "rd_safe (ber_read_octet_string rules t)"
  "rd_safe (ber_read_constructed t rules)"
  unfolding ber_read_boolean_def ber_read_integer_def ber_read_unsigned_def ber_read_octet_string_def
    ber_read_constructed_def
  by (intro safe_intros)+

section \<open>Lengths\<close>

lemma ber_octet_count_0 [simp]: "ber_octet_count 0 = 0"
  by (simp add: ber_octet_count.simps)

lemma ber_octet_count_rec: "n \<noteq> 0 \<Longrightarrow> ber_octet_count n = Suc (ber_octet_count (n div 256))"
  by (subst ber_octet_count.simps) (simp add: drop_bit_eq_div)

lemma ber_octet_count_bounds:
  "n < 256 ^ ber_octet_count n \<and> (n \<noteq> 0 \<longrightarrow> 256 ^ (ber_octet_count n - 1) \<le> n)"
proof (induction n rule: less_induct)
  case (less n)
  show ?case
  proof (cases "n = 0")
    case False
    let ?c = "ber_octet_count (n div 256)"
    have IH: "n div 256 < 256 ^ ?c" "n div 256 \<noteq> 0 \<Longrightarrow> 256 ^ (?c - 1) \<le> n div 256"
      using less [of "n div 256"] False by auto
    have "n < 256 ^ Suc ?c"
      using IH(1) by (simp add: div_less_iff_less_mult mult.commute)
    moreover have "256 ^ ?c \<le> n"
    proof (cases "n div 256 = 0")
      case True
      with False show ?thesis by simp
    next
      case nz: False
      then have "?c = Suc (?c - 1)"
        by (simp add: ber_octet_count_rec)
      then have "256 ^ ?c = 256 ^ (?c - 1) * (256 :: nat)"
        by (metis mult.commute power_Suc)
      also have "\<dots> \<le> n div 256 * 256" using IH(2) nz by simp
      also have "\<dots> \<le> n" by simp
      finally show ?thesis .
    qed
    ultimately show ?thesis
      using False by (simp add: ber_octet_count_rec)
  qed simp
qed

lemma ber_octet_count_le_4: "n < 2 ^ 32 \<Longrightarrow> ber_octet_count n \<le> 4"
proof (rule ccontr)
  assume n: "n < 2 ^ 32" and c: "\<not> ber_octet_count n \<le> 4"
  then have "n \<noteq> 0" by (metis ber_octet_count_0 zero_le)
  then have "256 ^ (ber_octet_count n - 1) \<le> n"
    using ber_octet_count_bounds by blast
  moreover have "(256 :: nat) ^ 4 \<le> 256 ^ (ber_octet_count n - 1)"
    using c by (intro power_increasing) auto
  ultimately show False using n by simp
qed

definition ber_length_octets :: "nat \<Rightarrow> nat \<Rightarrow> bytes" where
  "ber_length_octets k n = map (\<lambda>i. of_nat (drop_bit (8 * i) n)) (rev [0..<k])"

lemma ber_length_octets_Suc:
  "ber_length_octets (Suc k) n = of_nat (n div 256 ^ k) # ber_length_octets k n"
  by (simp add: ber_length_octets_def drop_bit_eq_div power_mult)

lemma length_ber_length_octets [simp]: "length (ber_length_octets k n) = k"
  by (simp add: ber_length_octets_def)

lemma ber_length_loop_octets:
  "rd_rest r = ber_length_octets k n @ ys \<Longrightarrow>
   ber_length_loop k len r = (Inr (len * 256 ^ k + n mod 256 ^ k), rd_advance k r)"
proof (induction k arbitrary: len r)
  case 0
  then show ?case by (simp add: pret_def)
next
  case (Suc k)
  let ?b = "of_nat (n div 256 ^ k) :: byte"
  have b: "unat ?b = n div 256 ^ k mod 256"
    by (simp add: word_nat_simps)
  from Suc.prems have rest: "rd_rest r = ?b # ber_length_octets k n @ ys"
    by (simp add: ber_length_octets_Suc)
  then have "ber_length_loop (Suc k) len r = ber_length_loop k (256 * len + unat ?b) (rd_advance 1 r)"
    by (simp add: rd_simps nat_or_256)
  also have "\<dots> = (Inr ((256 * len + unat ?b) * 256 ^ k + n mod 256 ^ k), rd_advance (Suc k) r)"
    using Suc.IH [of "rd_advance 1 r"] rest by simp
  also have "(256 * len + unat ?b) * 256 ^ k + n mod 256 ^ k = len * 256 ^ Suc k + n mod 256 ^ Suc k"
    using mod_mult2_eq [of n "256 ^ k" 256] by (simp add: b algebra_simps)
  finally show ?case .
qed

definition ber_length_enc :: "nat \<Rightarrow> bytes" where
  "ber_length_enc n = (if n < 0x80 then [of_nat n]
     else (0x80 OR of_nat (ber_octet_count n)) # ber_length_octets (ber_octet_count n) n)"

lemma ber_write_length_enc [wr_simps]:
  "n < 2 ^ 32 \<Longrightarrow> ber_write_length n w = Some (w @ ber_length_enc n)"
  using ber_octet_count_le_4 [of n]
  by (simp add: ber_write_length_def ber_length_enc_def ber_length_octets_def ber_max_length_octets_def
      Let_def wassert_def wr_simps)

lemma ber_count_octet:
  assumes "0 < c" "c \<le> 4"
  shows "unat (0x80 OR of_nat c :: byte) = 128 + c"
proof -
  have "c = 1 \<or> c = 2 \<or> c = 3 \<or> c = 4" using assms by linarith
  then show ?thesis by auto
qed

lemma ber_read_length_enc:
  assumes n: "n < 2 ^ 32" and rest: "rd_rest r = ber_length_enc n @ ys"
  shows "ber_read_length rules r = (Inr n, rd_advance (length (ber_length_enc n)) r)"
proof (cases "n < 128")
  case True
  then have "unat (of_nat n :: byte) = n" by (simp add: unsigned_of_nat take_bit_nat_eq_self)
  with True rest show ?thesis
    by (simp add: ber_read_length_def ber_length_enc_def rd_simps byte_and_0x80)
next
  case False
  let ?c = "ber_octet_count n"
  let ?b = "0x80 OR of_nat ?c :: byte"
  have bounds: "n < 256 ^ ?c" "256 ^ (?c - 1) \<le> n" and c: "0 < ?c" "?c \<le> 4"
    using False n ber_octet_count_bounds [of n] ber_octet_count_le_4 [of n]
    by (auto simp: ber_octet_count_rec)
  have b: "unat ?b = 128 + ?c" using c by (rule ber_count_octet)
  have count: "unat (?b AND 0x7F) = ?c" using c by (simp add: byte_masks b)
  have long: "?b AND 0x80 \<noteq> 0" by (simp add: byte_masks b)
  have rest': "rd_rest r = ?b # ber_length_octets ?c n @ ys"
    using rest False by (simp add: ber_length_enc_def)
  have loop: "ber_length_loop ?c 0 (rd_advance 1 r) = (Inr n, rd_advance (Suc ?c) r)"
    using ber_length_loop_octets [of "rd_advance 1 r" ?c n ys 0] rest' bounds by simp
  have top: "drop_bit (8 * (?c - 1)) n \<noteq> 0"
    using bounds(2) by (simp add: drop_bit_eq_div power_mult div_eq_0_iff)
  show ?thesis
    using False c loop top long
    by (simp add: ber_read_length_def ber_length_enc_def Let_def rd_simps rest' count
        ber_max_length_octets_def)
qed

interpretation ber_length: codec ber_write_length "ber_read_length rules" "\<lambda>n. n < 2 ^ 32" ber_length_enc for rules
  by unfold_locales (simp_all add: ber_write_length_enc ber_read_length_enc)

section \<open>Tags\<close>

definition ber_tag_enc :: "tag \<Rightarrow> bytes" where
  "ber_tag_enc t =
     (let leading = push_bit 6 (tag_class_code (tag_cls t)) OR (if tag_constructed t then 0x20 else 0)
      in if tag_number t < 0x1F then [leading OR ucast (tag_number t)]
         else (leading OR 0x1F) # ber_tag_groups False [14, 7, 0] (tag_number t))"

lemma ber_write_tag_enc [wr_simps]:
  "tag_number t \<le> ber_max_tag_number \<Longrightarrow> ber_write_tag t w = Some (w @ ber_tag_enc t)"
  by (simp add: ber_write_tag_def ber_tag_enc_def Let_def wassert_def wr_simps)

definition ber_lead :: "tag \<Rightarrow> byte \<Rightarrow> byte" where
  "ber_lead t low = push_bit 6 (tag_class_code (tag_cls t)) OR (if tag_constructed t then 0x20 else 0) OR low"

text \<open>The leading octet keeps class, form and the low five bits apart.\<close>

lemma byte_0x1F_mask: "(0x1F :: byte) = mask 5"
  by (simp add: mask_eq_exp_minus_1)

lemma bit_flag_octets: "bit (0x20 :: int) k \<longleftrightarrow> k = 5" "bit (0x80 :: int) k \<longleftrightarrow> k = 7"
  using bit_exp_iff [where 'a = int, of 5 k] bit_exp_iff [where 'a = int, of 7 k]
  by auto

lemma ber_lead_fields:
  assumes "low AND 0x1F = low"
  shows "tag_class_of (drop_bit 6 (ber_lead t low)) = tag_cls t"
    and "ber_lead t low AND 0x20 \<noteq> 0 \<longleftrightarrow> tag_constructed t"
    and "ber_lead t low AND 0x1F = low"
proof -
  have low: "bit low k \<Longrightarrow> k < 5" for k
    using assms by (metis bit_and_iff bit_mask_iff byte_0x1F_mask)
  have cls: "bit (tag_class_code c) k \<Longrightarrow> k < 2" for c k
    by (cases c; cases k; simp add: bit_numeral_rec bit_1_iff; cases "k - 1"; simp add: bit_1_iff)
  have c20: "bit (if b then 0x20 else 0 :: byte) k \<longleftrightarrow> b \<and> k = 5" for b k
    by (auto simp: bit_flag_octets)
  have "drop_bit 6 (ber_lead t low) = tag_class_code (tag_cls t)"
    by (rule bit_eqI) (auto simp: ber_lead_def bit_simps c20 dest: low cls bit_imp_le_length)
  then show "tag_class_of (drop_bit 6 (ber_lead t low)) = tag_cls t"
    by (cases "tag_cls t") (simp_all add: tag_class_of_def)
  have "ber_lead t low AND 0x20 = (if tag_constructed t then 0x20 else 0)"
    by (rule bit_eqI) (auto simp: ber_lead_def bit_simps c20 bit_flag_octets dest: low)
  then show "ber_lead t low AND 0x20 \<noteq> 0 \<longleftrightarrow> tag_constructed t"
    by simp
  show "ber_lead t low AND 0x1F = low"
    unfolding byte_0x1F_mask
    by (rule bit_eqI) (auto simp: ber_lead_def bit_simps c20 dest: low)
qed

lemma ber_group_octet:
  fixes g :: u32
  assumes "g AND 0x7F = g"
  shows "ucast ((ucast (g OR 0x80) :: byte) AND 0x7F) = g" "(ucast (g OR 0x80) :: byte) AND 0x80 \<noteq> 0"
    "ucast ((ucast g :: byte) AND 0x7F) = g" "(ucast g :: byte) AND 0x80 = 0"
proof -
  have m: "(0x7F :: u32) = mask 7" "(0x7F :: byte) = mask 7"
    by (simp_all add: mask_eq_exp_minus_1)
  have g: "bit g k \<Longrightarrow> k < 7" for k
    using assms by (metis bit_and_iff bit_mask_iff m(1))
  show "ucast ((ucast (g OR 0x80) :: byte) AND 0x7F) = g" "ucast ((ucast g :: byte) AND 0x7F) = g"
    unfolding m by (rule bit_eqI; auto simp: bit_simps bit_flag_octets dest: g)+
  have "bit (ucast (g OR 0x80) :: byte) 7" "\<not> bit (ucast g :: byte) 7"
    by (auto simp: bit_simps bit_flag_octets dest: g)
  then show "(ucast (g OR 0x80) :: byte) AND 0x80 \<noteq> 0" "(ucast g :: byte) AND 0x80 = 0"
    by (simp_all add: and_exp_eq_0_iff_not_bit [of _ 7, simplified])
qed

lemma ber_groups_value:
  fixes n :: u32
  shows "push_bit 7 (push_bit 7 (drop_bit 14 n AND 0x7F) OR (drop_bit 7 n AND 0x7F)) OR (n AND 0x7F) = take_bit 21 n"
proof -
  have m: "(0x7F :: u32) = mask 7" by (simp add: mask_eq_exp_minus_1)
  show ?thesis
  proof (rule bit_eqI)
    fix k :: nat
    have "14 + (k - 14) = k" if "\<not> k - 7 < 7" using that by linarith
    then show "bit (push_bit 7 (push_bit 7 (drop_bit 14 n AND 0x7F) OR (drop_bit 7 n AND 0x7F)) OR (n AND 0x7F)) k =
        bit (take_bit 21 n) k"
      unfolding m by (cases "k < 7"; cases "k - 7 < 7") (auto simp: bit_simps)
  qed
qed

lemma ber_tag_number_take_bit: "n \<le> ber_max_tag_number \<Longrightarrow> take_bit 21 n = n"
  by (intro word_unat_eq_iff [THEN iffD2])
    (simp add: unsigned_take_bit_eq take_bit_nat_eq_self_iff ber_max_tag_number_def word_le_nat_alt)

lemma ber_tag_loop_more:
  fixes g :: u32
  assumes "g AND 0x7F = g" "left = 2 \<longrightarrow> g \<noteq> 0" "rd_rest r = ucast (g OR 0x80) # ys"
  shows "ber_tag_loop (Suc left) start n r = ber_tag_loop left start (push_bit 7 n OR g) (rd_advance 1 r)"
proof -
  note octet = ber_group_octet [OF assms(1)]
  have "(ucast (g OR 0x80) :: byte) \<noteq> 0x80" if "g \<noteq> 0"
  proof
    assume "(ucast (g OR 0x80) :: byte) = 0x80"
    then have "ucast ((0x80 :: byte) AND 0x7F) = g" using octet(1) by simp
    with that show False by simp
  qed
  with assms have "\<not> (left = 2 \<and> (ucast (g OR 0x80) :: byte) = 0x80)" by blast
  with assms(3) show ?thesis
    by (auto simp: rd_simps Let_def octet)
qed

lemma ber_tag_loop_last:
  fixes g :: u32
  assumes "g AND 0x7F = g" "rd_rest r = ucast g # ys"
  shows "ber_tag_loop (Suc left) start n r = (Inr (push_bit 7 n OR g), rd_advance 1 r)"
proof -
  note octet = ber_group_octet [OF assms(1)]
  have "(ucast g :: byte) \<noteq> 0x80" using octet(4) by auto
  with assms(2) show ?thesis
    by (simp add: rd_simps Let_def octet)
qed

lemma ber_tag_loop_groups:
  assumes "n \<le> ber_max_tag_number" "rd_rest r = ber_tag_groups False [14, 7, 0] n @ ys"
  shows "ber_tag_loop 3 start 0 r = (Inr n, rd_advance (length (ber_tag_groups False [14, 7, 0] n)) r)"
proof -
  define g2 g1 g0 where g: "g2 = drop_bit 14 n AND 0x7F" "g1 = drop_bit 7 n AND 0x7F" "g0 = n AND 0x7F"
  have m: "g2 AND 0x7F = g2" "g1 AND 0x7F = g1" "g0 AND 0x7F = g0"
    by (simp_all add: g and.assoc)
  have n: "push_bit 7 (push_bit 7 g2 OR g1) OR g0 = n"
    using ber_groups_value [of n] ber_tag_number_take_bit [OF assms(1)] by (simp add: g)
  have three: "(3 :: nat) = Suc 2" "(2 :: nat) = Suc 1" "(1 :: nat) = Suc 0" by simp_all
  consider "g2 \<noteq> 0" | "g2 = 0" "g1 \<noteq> 0" | "g2 = 0" "g1 = 0" by blast
  then show ?thesis
  proof cases
    case 1
    then have enc: "ber_tag_groups False [14, 7, 0] n = [ucast (g2 OR 0x80), ucast (g1 OR 0x80), ucast g0]"
      by (simp add: g Let_def)
    show ?thesis
      unfolding enc three(1) using 1 assms(2) enc n
      by (simp add: m ber_tag_loop_more [where g = g2] ber_tag_loop_more [where g = g1]
          ber_tag_loop_last [where g = g0] three(2) del: ber_tag_loop.simps numeral_2_eq_2)
  next
    case 2
    then have enc: "ber_tag_groups False [14, 7, 0] n = [ucast (g1 OR 0x80), ucast g0]"
      by (simp add: g Let_def)
    show ?thesis
      unfolding enc three(1) using 2 assms(2) enc n
      by (simp add: m ber_tag_loop_more [where g = g1] ber_tag_loop_last [where g = g0] three(2)
          del: ber_tag_loop.simps)
  next
    case 3
    then have enc: "ber_tag_groups False [14, 7, 0] n = [ucast g0]"
      by (simp add: g Let_def)
    then have "ber_tag_loop (Suc 2) start 0 r = (Inr (push_bit 7 0 OR g0), rd_advance 1 r)"
      using assms(2) by (intro ber_tag_loop_last m) simp
    with enc 3 n show ?thesis
      by (simp del: ber_tag_loop.simps ber_tag_groups.simps)
  qed
qed

lemma ber_read_tag_enc:
  assumes "tag_number t \<le> ber_max_tag_number" "rd_rest r = ber_tag_enc t @ ys"
  shows "ber_read_tag r = (Inr t, rd_advance (length (ber_tag_enc t)) r)"
proof (cases "tag_number t < 0x1F")
  case True
  let ?low = "ucast (tag_number t) :: byte"
  have n: "unat (tag_number t) < 31" using True by (simp add: word_less_nat_alt)
  then have "ucast ?low = tag_number t"
    by (intro ucast_ucast_small) simp
  moreover have "unat ?low = unat (tag_number t)"
    using n by (simp add: unsigned_ucast_eq take_bit_nat_eq_self_iff)
  then have "?low AND 0x1F = ?low"
    using n by (intro word_unat_eq_iff [THEN iffD2]) (simp add: byte_and_low)
  note fields = ber_lead_fields [OF this, of t]
  have "rd_rest r = ber_lead t ?low # ys"
    using assms(2) True by (simp add: ber_tag_enc_def ber_lead_def Let_def or.assoc)
  moreover have "tag_number t \<noteq> 0x1F" using True by auto
  ultimately show ?thesis
    using True by (simp add: ber_read_tag_def ber_tag_enc_def rd_simps Let_def fields ber_tag_def)
next
  case False
  have "(0x1F :: byte) AND 0x1F = 0x1F" by simp
  note fields = ber_lead_fields [OF this, of t]
  have rest: "rd_rest r = ber_lead t 0x1F # ber_tag_groups False [14, 7, 0] (tag_number t) @ ys"
    using assms(2) False by (simp add: ber_tag_enc_def ber_lead_def Let_def or.assoc)
  have "ber_tag_loop 3 (rd_offset r) 0 (rd_advance 1 r) =
      (Inr (tag_number t), rd_advance (length (ber_tag_groups False [14, 7, 0] (tag_number t))) (rd_advance 1 r))"
    using rest by (intro ber_tag_loop_groups assms(1)) simp
  with False show ?thesis
    by (simp add: ber_read_tag_def ber_tag_enc_def rd_simps rest Let_def fields ber_tag_def
        del: ber_tag_loop.simps ber_tag_groups.simps)
qed

interpretation ber_tags: codec ber_write_tag ber_read_tag "\<lambda>t. tag_number t \<le> ber_max_tag_number" ber_tag_enc
  by unfold_locales (simp_all add: ber_write_tag_enc ber_read_tag_enc)

section \<open>Elements\<close>

definition ber_tlv_enc :: "tag \<Rightarrow> bytes \<Rightarrow> bytes" where
  "ber_tlv_enc t v = ber_tag_enc t @ ber_length_enc (length v) @ v"

definition ber_header_size :: "tag \<Rightarrow> bytes \<Rightarrow> nat" where
  "ber_header_size t v = length (ber_tag_enc t) + length (ber_length_enc (length v))"

definition ber_ok :: "tag \<Rightarrow> bytes \<Rightarrow> bool" where
  "ber_ok t v \<longleftrightarrow> tag_number t \<le> ber_max_tag_number \<and> length v < 2 ^ 32"

lemma ber_write_tlv_enc [wr_simps]: "ber_ok t v \<Longrightarrow> ber_write_tlv t v w = Some (w @ ber_tlv_enc t v)"
  by (simp add: ber_write_tlv_def ber_tlv_enc_def ber_ok_def wr_simps)

lemma ber_expect_tlv_enc [rd_simps]:
  assumes "rd_rest r = ber_tlv_enc t v @ ys" "ber_ok t v"
  shows "ber_expect_tlv t rules r =
    (Inr \<lparr>tlv_tag = t, tlv_value = v, tlv_offset = rd_offset r + ber_header_size t v\<rparr>,
     rd_advance (length (ber_tlv_enc t v)) r)"
proof -
  have "ber_read_tag r = (Inr t, rd_advance (length (ber_tag_enc t)) r)"
    using assms by (intro ber_read_tag_enc) (auto simp: ber_ok_def ber_tlv_enc_def)
  moreover have "ber_read_length rules (rd_advance (length (ber_tag_enc t)) r) =
      (Inr (length v), rd_advance (length (ber_length_enc (length v))) (rd_advance (length (ber_tag_enc t)) r))"
    using assms by (intro ber_read_length_enc) (auto simp: ber_ok_def ber_tlv_enc_def)
  ultimately show ?thesis
    using assms
    by (simp add: ber_expect_tlv_def ber_read_tlv_def ptry_def pget_def pret_def rd_bytes_ok ber_tlv_enc_def
        ber_header_size_def add.assoc)
qed

lemma ber_read_octet_string_enc [rd_simps]:
  "rd_rest r = ber_tlv_enc t v @ ys \<Longrightarrow> ber_ok t v \<Longrightarrow>
   ber_read_octet_string rules t r = (Inr v, rd_advance (length (ber_tlv_enc t v)) r)"
  by (simp add: ber_read_octet_string_def rd_simps)

lemma ber_read_constructed_enc [rd_simps]:
  "rd_rest r = ber_tlv_enc t v @ ys \<Longrightarrow> ber_ok t v \<Longrightarrow>
   ber_read_constructed t rules r =
     (Inr (mk_reader v (rd_offset r + ber_header_size t v)), rd_advance (length (ber_tlv_enc t v)) r)"
  by (simp add: ber_read_constructed_def rd_simps tlv_reader_def)

lemma ber_read_boolean_enc [rd_simps]:
  "rd_rest r = ber_tlv_enc t [if b then 0xFF else 0] @ ys \<Longrightarrow> tag_number t \<le> ber_max_tag_number \<Longrightarrow>
   ber_read_boolean rules t r = (Inr b, rd_advance (length (ber_tlv_enc t [if b then 0xFF else 0])) r)"
  by (cases b) (simp_all add: ber_read_boolean_def rd_simps ber_ok_def ber_decode_boolean_def plift_def Let_def)

subsection \<open>Integers\<close>

lemma ber_shift_in_Nil [simp]: "ber_shift_in v [] = v"
  by (simp add: ber_shift_in_def)

lemma ber_shift_in_Cons [simp]: "ber_shift_in v (b # ds) = ber_shift_in (push_bit 8 v OR ucast b) ds"
  by (simp add: ber_shift_in_def)

lemma ber_shift_in_snoc: "ber_shift_in v (ds @ [b]) = push_bit 8 (ber_shift_in v ds) OR ucast b"
  by (simp add: ber_shift_in_def)

lemma ber_shift_in_eq: "ber_shift_in v ds = push_bit (8 * length ds) v OR be_value ds"
proof (induction ds rule: rev_induct)
  case Nil
  then show ?case by (simp add: be_value_def)
next
  case (snoc b ds)
  then show ?case
    by (simp add: ber_shift_in_snoc be_value_snoc push_bit_or or.assoc add.commute)
qed

lemma ber_shift_in_be_bytes: "ber_shift_in v (be_bytes 8 x) = x"
proof -
  have "push_bit 64 v = 0" by (rule bit_eqI) (simp add: bit_simps)
  then show ?thesis by (simp add: ber_shift_in_eq)
qed

lemma ber_strip_redundant_idem [simp]:
  "ber_strip_redundant (ber_strip_redundant ds) = ber_strip_redundant ds"
  by (induction ds rule: ber_strip_redundant.induct) auto

lemma ber_strip_redundant_Nil [simp]: "ber_strip_redundant ds = [] \<longleftrightarrow> ds = []"
  by (induction ds rule: ber_strip_redundant.induct) auto

lemma ber_strip_redundant_length: "length (ber_strip_redundant ds) \<le> length ds"
  by (induction ds rule: ber_strip_redundant.induct) auto

lemma ber_strip_redundant_full:
  "length (ber_strip_redundant ds) = length ds \<Longrightarrow> ber_strip_redundant ds = ds"
  using ber_strip_redundant_length [of "tl ds"]
  by (cases ds rule: ber_strip_redundant.cases) (auto split: if_splits)

lemma ber_strip_redundant_sign:
  "ds \<noteq> [] \<Longrightarrow> (ber_strip_redundant ds ! 0 AND 0x80 = 0) = (ds ! 0 AND 0x80 = 0)"
  by (induction ds rule: ber_strip_redundant.induct)
    (auto simp: ber_redundant_leading_octet_def Let_def)

lemma ber_shift_in_sign [simp]:
  "ber_shift_in (- 1) (0xFF # ds) = ber_shift_in (- 1) ds" "ber_shift_in 0 (0 # ds) = ber_shift_in 0 ds"
proof -
  have "push_bit 8 (- 1) OR ucast (0xFF :: byte) = (- 1 :: u64)"
    by (simp add: mask_eq_exp_minus_1)
  then show "ber_shift_in (- 1) (0xFF # ds) = ber_shift_in (- 1) ds"
    by (simp only: ber_shift_in_Cons)
qed simp

lemma ber_strip_redundant_value:
  "ds \<noteq> [] \<Longrightarrow> v = (if ds ! 0 AND 0x80 \<noteq> 0 then - 1 else 0) \<Longrightarrow>
   ber_shift_in v (ber_strip_redundant ds) = ber_shift_in v ds"
  by (induction ds rule: ber_strip_redundant.induct)
    (auto simp: ber_redundant_leading_octet_def Let_def simp del: ber_shift_in_Cons)

lemma ber_strip_zeros_value: "ber_shift_in 0 (ber_strip_zeros ds) = ber_shift_in 0 ds"
  by (induction ds rule: ber_strip_zeros.induct) (auto simp del: ber_shift_in_Cons)

lemma ber_strip_zeros_length: "length (ber_strip_zeros ds) \<le> length ds"
  by (induction ds rule: ber_strip_zeros.induct) auto

definition ber_unsigned_digits :: "u64 \<Rightarrow> bytes" where
  "ber_unsigned_digits v = ber_strip_redundant (0 # be_bytes 8 v)"

lemma ber_unsigned_digits_facts:
  "ber_unsigned_digits v \<noteq> []" "length (ber_unsigned_digits v) \<le> 9"
  "ber_unsigned_digits v ! 0 AND 0x80 = 0" "ber_shift_in 0 (ber_unsigned_digits v) = v"
  "length (ber_unsigned_digits v) = 9 \<Longrightarrow> \<exists>ds. ber_unsigned_digits v = 0 # ds \<and> length ds = 8"
proof -
  let ?ds = "0 # be_bytes 8 v"
  show "ber_unsigned_digits v \<noteq> []" by (simp add: ber_unsigned_digits_def del: ber_strip_redundant.simps)
  show "length (ber_unsigned_digits v) \<le> 9"
    using ber_strip_redundant_length [of ?ds] by (simp add: ber_unsigned_digits_def)
  show "ber_unsigned_digits v ! 0 AND 0x80 = 0"
    unfolding ber_unsigned_digits_def by (subst ber_strip_redundant_sign) simp_all
  show "ber_shift_in 0 (ber_unsigned_digits v) = v"
    unfolding ber_unsigned_digits_def
    by (subst ber_strip_redundant_value) (simp_all add: ber_shift_in_be_bytes del: ber_shift_in_Cons)
  assume "length (ber_unsigned_digits v) = 9"
  then have "ber_unsigned_digits v = ?ds"
    unfolding ber_unsigned_digits_def by (intro ber_strip_redundant_full) simp
  then show "\<exists>ds. ber_unsigned_digits v = 0 # ds \<and> length ds = 8" by simp
qed

lemma ber_integer_digits_strip:
  "ds \<noteq> [] \<Longrightarrow> ber_integer_digits \<lparr>tlv_tag = t, tlv_value = ber_strip_redundant ds, tlv_offset = n\<rparr> rules =
     Inr (ber_strip_redundant ds)"
  by (simp add: ber_integer_digits_def Let_def)

lemma ber_decode_unsigned_digits:
  "ber_decode_unsigned \<lparr>tlv_tag = t, tlv_value = ber_unsigned_digits v, tlv_offset = n\<rparr> rules = Inr v"
proof -
  let ?ds = "ber_unsigned_digits v"
  let ?short = "if length ?ds > 1 \<and> ?ds ! 0 = 0 then drop 1 ?ds else ?ds"
  note facts = ber_unsigned_digits_facts [of v]
  have "ber_shift_in 0 ?short = v"
    using facts(4) by (cases ?ds) (auto simp: ber_shift_in_sign(2) simp del: ber_shift_in_Cons)
  moreover have "\<not> length ?short > 8"
    using facts(2) facts(5) by (cases "length ?ds = 9") auto
  moreover have "ber_integer_digits \<lparr>tlv_tag = t, tlv_value = ?ds, tlv_offset = n\<rparr> rules = Inr ?ds"
    unfolding ber_unsigned_digits_def by (rule ber_integer_digits_strip) simp
  ultimately show ?thesis
    using facts(3) by (simp add: ber_decode_unsigned_def Let_def)
qed

lemma ber_decode_raw_unsigned_digits:
  "ber_decode_raw_unsigned \<lparr>tlv_tag = t, tlv_value = ber_unsigned_digits v, tlv_offset = n\<rparr> = Inr v"
proof -
  note facts = ber_unsigned_digits_facts [of v]
  have "length (ber_strip_zeros (ber_unsigned_digits v)) \<le> 8"
  proof (cases "length (ber_unsigned_digits v) = 9")
    case True
    with facts(5) obtain ds' where ds': "ber_unsigned_digits v = 0 # ds'" "length ds' = 8" by blast
    then obtain d ds where "ber_unsigned_digits v = 0 # d # ds" "length ds = 7" by (cases ds') auto
    then show ?thesis
      using ber_strip_zeros_length [of "d # ds"] by simp
  next
    case False
    then show ?thesis
      using facts(2) ber_strip_zeros_length [of "ber_unsigned_digits v"] by linarith
  qed
  then show ?thesis
    using facts by (simp add: ber_decode_raw_unsigned_def Let_def ber_strip_zeros_value)
qed

lemma ber_write_unsigned_enc [wr_simps]:
  "tag_number t \<le> ber_max_tag_number \<Longrightarrow>
   ber_write_unsigned t v w = Some (w @ ber_tlv_enc t (ber_unsigned_digits v))"
  using ber_unsigned_digits_facts(2) [of v]
  by (simp add: ber_write_unsigned_def wr_simps ber_ok_def flip: ber_unsigned_digits_def)

lemma ber_read_unsigned_enc [rd_simps]:
  assumes "rd_rest r = ber_tlv_enc t (ber_unsigned_digits v) @ ys" "tag_number t \<le> ber_max_tag_number"
  shows "ber_read_unsigned rules t r = (Inr v, rd_advance (length (ber_tlv_enc t (ber_unsigned_digits v))) r)"
  using assms ber_unsigned_digits_facts(2) [of v]
  by (simp add: ber_read_unsigned_def rd_simps ber_ok_def plift_def ber_decode_unsigned_digits)

definition ber_integer_octets :: "int \<Rightarrow> bytes" where
  "ber_integer_octets v = ber_strip_redundant (be_bytes 8 (word_of_int v :: u64))"

lemma length_ber_integer_octets: "length (ber_integer_octets v) \<le> 8"
  using ber_strip_redundant_length [of "be_bytes 8 (word_of_int v :: u64)"]
  by (simp add: ber_integer_octets_def)

lemma ber_decode_integer_octets:
  assumes "- (2 ^ 63) \<le> v" "v < 2 ^ 63"
  shows "ber_decode_integer \<lparr>tlv_tag = t, tlv_value = ber_integer_octets v, tlv_offset = n\<rparr> rules = Inr v"
proof -
  let ?ds = "be_bytes 8 (word_of_int v :: u64)"
  let ?v0 = "if ?ds ! 0 AND 0x80 \<noteq> 0 then - 1 else 0 :: u64"
  have ne: "?ds \<noteq> []" by simp
  have "length (ber_strip_redundant ?ds) \<le> 8"
    using ber_strip_redundant_length [of ?ds] by simp
  moreover have "ber_shift_in ?v0 (ber_strip_redundant ?ds) = word_of_int v"
    using ber_strip_redundant_value [OF ne refl] by (simp only: ber_shift_in_be_bytes)
  moreover have "sint (word_of_int v :: u64) = v"
    using assms by (simp add: sint_sbintrunc' signed_take_bit_int_eq_self)
  ultimately show ?thesis
    using ber_strip_redundant_sign [OF ne]
    by (simp add: ber_decode_integer_def ber_integer_octets_def ber_integer_digits_strip ne Let_def
        split: if_splits)
qed

lemma ber_write_integer_enc [wr_simps]:
  "tag_number t \<le> ber_max_tag_number \<Longrightarrow>
   ber_write_integer t v w = Some (w @ ber_tlv_enc t (ber_integer_octets v))"
  using length_ber_integer_octets [of v]
  by (simp add: ber_write_integer_def wr_simps ber_ok_def flip: ber_integer_octets_def)

lemma ber_read_integer_enc [rd_simps]:
  assumes "rd_rest r = ber_tlv_enc t (ber_integer_octets v) @ ys" "tag_number t \<le> ber_max_tag_number"
    "- (2 ^ 63) \<le> v" "v < 2 ^ 63"
  shows "ber_read_integer rules t r = (Inr v, rd_advance (length (ber_tlv_enc t (ber_integer_octets v))) r)"
  using assms length_ber_integer_octets [of v]
  by (simp add: ber_read_integer_def rd_simps ber_ok_def plift_def ber_decode_integer_octets)

interpretation ber_unsigned: codec "ber_write_unsigned t" "ber_read_unsigned rules t"
  "\<lambda>v. tag_number t \<le> ber_max_tag_number" "\<lambda>v. ber_tlv_enc t (ber_unsigned_digits v)" for t rules
  by unfold_locales (simp_all add: wr_simps ber_read_unsigned_enc)

interpretation ber_integer: codec "ber_write_integer t" "ber_read_integer rules t"
  "\<lambda>v. tag_number t \<le> ber_max_tag_number \<and> - (2 ^ 63) \<le> v \<and> v < 2 ^ 63"
  "\<lambda>v. ber_tlv_enc t (ber_integer_octets v)" for t rules
  by unfold_locales (simp_all add: wr_simps ber_read_integer_enc)

interpretation ber_octet_string: codec "ber_write_octet_string t" "ber_read_octet_string rules t" "ber_ok t"
  "ber_tlv_enc t" for t rules
  by unfold_locales (simp_all add: wr_simps ber_write_octet_string_def ber_read_octet_string_enc)

section \<open>Properties\<close>

text \<open>
  BER and DER elements survive the wire, for every tag up to the largest number the code accepts and
  under both rule sets: unsigned 64-bit integers, signed 64-bit integers in their shortest two's complement
  form, and octet strings below 4 GiB, in front of arbitrary further bytes.
\<close>

theorem ber_roundtrip:
  assumes "tag_number t \<le> ber_max_tag_number" "- (2 ^ 63) \<le> i" "i < 2 ^ 63" "length s < 2 ^ 32"
  shows "(\<exists>bs. ber_write_unsigned t v w = Some (w @ bs) \<and>
      ber_read_unsigned rules t (mk_reader (bs @ ys) b) = (Inr v, rd_advance (length bs) (mk_reader (bs @ ys) b))) \<and>
    (\<exists>bs. ber_write_integer t i w = Some (w @ bs) \<and>
      ber_read_integer rules t (mk_reader (bs @ ys) b) = (Inr i, rd_advance (length bs) (mk_reader (bs @ ys) b))) \<and>
    (\<exists>bs. ber_write_octet_string t s w = Some (w @ bs) \<and>
      ber_read_octet_string rules t (mk_reader (bs @ ys) b) = (Inr s, rd_advance (length bs) (mk_reader (bs @ ys) b)))"
  using ber_unsigned.round_trip [OF assms(1), of v w rules] ber_integer.round_trip [of t i w rules]
    ber_octet_string.round_trip [of t s w rules] assms by (simp add: ber_ok_def)

theorem ber_roundtrip_witness:
  "tag_number ber_integer_tag \<le> ber_max_tag_number \<and>
   (\<exists>bs. ber_write_integer ber_integer_tag (- 129) [] = Some ([] @ bs) \<and>
      ber_read_integer RulesDer ber_integer_tag (mk_reader (bs @ [1]) 0) =
        (Inr (- 129), rd_advance (length bs) (mk_reader (bs @ [1]) 0)))"
proof -
  have t: "tag_number ber_integer_tag \<le> ber_max_tag_number"
    by (simp add: ber_integer_tag_def ber_tag_def ber_max_tag_number_def)
  then show ?thesis using ber_roundtrip [OF t, of "- 129" "[]" 0 "[]" RulesDer "[1]" 0] by (simp del: append_Nil)
qed

end
