(* ===== verification/Mcs.thy ===== *)
theory Mcs
  imports Ber
begin

text \<open>
  \<open>proto/mcs.cpp\<close>: T.125 as RDP uses it. Connect-Initial and Connect-Response are BER, the
  domain PDUs that carry everything after them are PER with the choice in the top six bits of the
  first octet.
\<close>

section \<open>Model: connecting\<close>

definition mcs_connect_initial_tag :: tag where "mcs_connect_initial_tag = ber_application 101"
definition mcs_connect_response_tag :: tag where "mcs_connect_response_tag = ber_application 102"
definition mcs_user_id_base :: u16 where "mcs_user_id_base = 1001"
definition mcs_io_channel_id :: u16 where "mcs_io_channel_id = 1003"
definition mcs_server_channel_id :: u16 where "mcs_server_channel_id = 1002"
definition mcs_result_alternatives :: byte where "mcs_result_alternatives = 16"

record domain_parameters =
  dp_max_channel_ids :: u32
  dp_max_user_ids :: u32
  dp_max_token_ids :: u32
  dp_num_priorities :: u32
  dp_min_throughput :: u32
  dp_max_height :: u32
  dp_max_mcs_pdu_size :: u32
  dp_protocol_version :: u32

record connect_initial =
  ci_calling_domain_selector :: bytes
  ci_called_domain_selector :: bytes
  ci_upward_flag :: bool
  ci_target :: domain_parameters
  ci_minimum :: domain_parameters
  ci_maximum :: domain_parameters
  ci_user_data :: bytes

text \<open>\<open>ResultCode\<close> is cast from the wire without a check beyond its range, so it is an octet.\<close>

record connect_response =
  crs_result :: byte
  crs_called_connect_id :: u32
  crs_parameters :: domain_parameters
  crs_user_data :: bytes

definition read_u32_integer :: "u32 parser" where
  "read_u32_integer = pget rd_offset (\<lambda>start. ptry (ber_expect_tlv ber_integer_tag RulesBer) (\<lambda>t.
     ptry (plift (ber_decode_raw_unsigned t)) (\<lambda>v.
       if v > 0xFFFFFFFF then pfail LimitExceeded ''MCS domain parameter above 2^32'' start
       else pret (ucast v))))"

definition read_domain_parameters :: "domain_parameters parser" where
  "read_domain_parameters = ptry (ber_read_constructed ber_sequence_tag RulesBer) (\<lambda>seq. pwith seq (
     ptry read_u32_integer (\<lambda>p1. ptry read_u32_integer (\<lambda>p2. ptry read_u32_integer (\<lambda>p3.
     ptry read_u32_integer (\<lambda>p4. ptry read_u32_integer (\<lambda>p5. ptry read_u32_integer (\<lambda>p6.
     ptry read_u32_integer (\<lambda>p7. ptry read_u32_integer (\<lambda>p8.
     ptry (rd_expect_end ''MCS DomainParameters'') (\<lambda>_. pret
       \<lparr>dp_max_channel_ids = p1, dp_max_user_ids = p2, dp_max_token_ids = p3, dp_num_priorities = p4,
        dp_min_throughput = p5, dp_max_height = p6, dp_max_mcs_pdu_size = p7, dp_protocol_version = p8\<rparr>)))))))))))"

definition dp_values :: "domain_parameters \<Rightarrow> u32 list" where
  "dp_values p = [dp_max_channel_ids p, dp_max_user_ids p, dp_max_token_ids p, dp_num_priorities p,
     dp_min_throughput p, dp_max_height p, dp_max_mcs_pdu_size p, dp_protocol_version p]"

fun write_u32_integers :: "u32 list \<Rightarrow> writer \<Rightarrow> writer option" where
  "write_u32_integers [] w = Some w"
| "write_u32_integers (v # vs) w = do {
     w \<leftarrow> ber_write_unsigned ber_integer_tag (ucast v) w;
     write_u32_integers vs w
   }"

definition write_domain_parameters :: "domain_parameters \<Rightarrow> writer \<Rightarrow> writer option" where
  "write_domain_parameters p = ber_write_constructed ber_sequence_tag (write_u32_integers (dp_values p))"

definition read_mcs_result :: "byte parser" where
  "read_mcs_result = per_read_enumerated mcs_result_alternatives"

definition decode_connect_initial :: "connect_initial parser" where
  "decode_connect_initial = ptry (ber_read_constructed mcs_connect_initial_tag RulesBer) (\<lambda>body. pwith body (
     ptry (ber_read_octet_string RulesBer ber_octet_string_tag) (\<lambda>calling.
     ptry (ber_read_octet_string RulesBer ber_octet_string_tag) (\<lambda>called.
     ptry (ber_read_boolean RulesBer ber_boolean_tag) (\<lambda>upward.
     ptry read_domain_parameters (\<lambda>tgt.
     ptry read_domain_parameters (\<lambda>lo.
     ptry read_domain_parameters (\<lambda>hi.
     ptry (ber_read_octet_string RulesBer ber_octet_string_tag) (\<lambda>user_data.
     ptry (rd_expect_end ''MCS Connect-Initial'') (\<lambda>_. pret
       \<lparr>ci_calling_domain_selector = calling, ci_called_domain_selector = called, ci_upward_flag = upward,
        ci_target = tgt, ci_minimum = lo, ci_maximum = hi, ci_user_data = user_data\<rparr>))))))))))"

definition encode_connect_initial :: "connect_initial \<Rightarrow> writer \<Rightarrow> writer option" where
  "encode_connect_initial pdu = ber_write_constructed mcs_connect_initial_tag (\<lambda>body. do {
     body \<leftarrow> ber_write_octet_string ber_octet_string_tag (ci_calling_domain_selector pdu) body;
     body \<leftarrow> ber_write_octet_string ber_octet_string_tag (ci_called_domain_selector pdu) body;
     body \<leftarrow> ber_write_boolean ber_boolean_tag (ci_upward_flag pdu) body;
     body \<leftarrow> write_domain_parameters (ci_target pdu) body;
     body \<leftarrow> write_domain_parameters (ci_minimum pdu) body;
     body \<leftarrow> write_domain_parameters (ci_maximum pdu) body;
     ber_write_octet_string ber_octet_string_tag (ci_user_data pdu) body
   })"

definition decode_connect_response :: "connect_response parser" where
  "decode_connect_response = ptry (ber_read_constructed mcs_connect_response_tag RulesBer) (\<lambda>body. pwith body (
     pget rd_offset (\<lambda>result_offset.
     ptry (ber_read_unsigned RulesBer ber_enumerated_tag) (\<lambda>result.
     if result \<ge> ucast mcs_result_alternatives
     then pfail InvalidValue ''MCS Connect-Response result out of range'' result_offset
     else
     ptry read_u32_integer (\<lambda>ident.
     ptry read_domain_parameters (\<lambda>params.
     ptry (ber_read_octet_string RulesBer ber_octet_string_tag) (\<lambda>user_data.
     ptry (rd_expect_end ''MCS Connect-Response'') (\<lambda>_. pret
       \<lparr>crs_result = ucast result, crs_called_connect_id = ident, crs_parameters = params,
        crs_user_data = user_data\<rparr>)))))))) "

definition encode_connect_response :: "connect_response \<Rightarrow> writer \<Rightarrow> writer option" where
  "encode_connect_response pdu = ber_write_constructed mcs_connect_response_tag (\<lambda>body. do {
     body \<leftarrow> ber_write_unsigned ber_enumerated_tag (ucast (crs_result pdu)) body;
     body \<leftarrow> ber_write_unsigned ber_integer_tag (ucast (crs_called_connect_id pdu)) body;
     body \<leftarrow> write_domain_parameters (crs_parameters pdu) body;
     ber_write_octet_string ber_octet_string_tag (crs_user_data pdu) body
   })"

definition negotiate_domain_parameters :: "connect_initial \<Rightarrow> domain_parameters" where
  "negotiate_domain_parameters pdu =
     (let tgt = ci_target pdu;
          pdu_size = (if dp_max_mcs_pdu_size tgt \<ge> 1024 then dp_max_mcs_pdu_size tgt
                      else dp_max_mcs_pdu_size (ci_maximum pdu))
      in \<lparr>dp_max_channel_ids = max (dp_max_channel_ids tgt) 4,
          dp_max_user_ids = max (dp_max_user_ids tgt) 3,
          dp_max_token_ids = dp_max_token_ids tgt,
          dp_num_priorities = 1,
          dp_min_throughput = dp_min_throughput tgt,
          dp_max_height = 1,
          dp_max_mcs_pdu_size = (if pdu_size < 1024 then 1024 else if 65528 < pdu_size then 65528 else pdu_size),
          dp_protocol_version = 2\<rparr>)"

section \<open>Model: domain PDUs\<close>

datatype disconnect_reason = DomainDisconnected | ProviderInitiated | TokenPurged | UserRequested | ChannelPurged

fun disconnect_reason_code :: "disconnect_reason \<Rightarrow> byte" where
  "disconnect_reason_code DomainDisconnected = 0"
| "disconnect_reason_code ProviderInitiated = 1"
| "disconnect_reason_code TokenPurged = 2"
| "disconnect_reason_code UserRequested = 3"
| "disconnect_reason_code ChannelPurged = 4"

definition disconnect_reason_of :: "byte \<Rightarrow> disconnect_reason" where
  "disconnect_reason_of b =
     (if b = 0 then DomainDisconnected else if b = 1 then ProviderInitiated else if b = 2 then TokenPurged
      else if b = 3 then UserRequested else ChannelPurged)"

datatype domain_pdu =
    ErectDomainRequest u32 u32
  | DisconnectProviderUltimatum disconnect_reason
  | AttachUserRequest
  | AttachUserConfirm byte "u16 option"
  | ChannelJoinRequest u16 u16
  | ChannelJoinConfirm byte u16 u16 "u16 option"
  | SendDataRequest u16 u16 bytes
  | SendDataIndication u16 u16 bytes

datatype mcs_choice = ChErectDomainRequest | ChDisconnectProviderUltimatum | ChAttachUserRequest
  | ChAttachUserConfirm | ChChannelJoinRequest | ChChannelJoinConfirm | ChSendDataRequest | ChSendDataIndication

fun mcs_choice_code :: "mcs_choice \<Rightarrow> byte" where
  "mcs_choice_code ChErectDomainRequest = 1"
| "mcs_choice_code ChDisconnectProviderUltimatum = 8"
| "mcs_choice_code ChAttachUserRequest = 10"
| "mcs_choice_code ChAttachUserConfirm = 11"
| "mcs_choice_code ChChannelJoinRequest = 14"
| "mcs_choice_code ChChannelJoinConfirm = 15"
| "mcs_choice_code ChSendDataRequest = 25"
| "mcs_choice_code ChSendDataIndication = 26"

definition mcs_optional_field_present :: byte where "mcs_optional_field_present = 0x02"
definition mcs_priority_and_segmentation :: byte where "mcs_priority_and_segmentation = 0x70"

definition mcs_header :: "mcs_choice \<Rightarrow> byte \<Rightarrow> byte" where
  "mcs_header choice low_bits = push_bit 2 (mcs_choice_code choice) OR low_bits"

definition read_send_data :: "(u16 \<Rightarrow> u16 \<Rightarrow> bytes \<Rightarrow> domain_pdu) \<Rightarrow> domain_pdu parser" where
  "read_send_data mk = ptry (per_read_integer16 mcs_user_id_base) (\<lambda>initiator.
     ptry (per_read_integer16 0) (\<lambda>channel_id. ptry (rd_skip 1) (\<lambda>_.
     ptry per_read_length (\<lambda>n. ptry (rd_bytes n) (\<lambda>data. pret (mk initiator channel_id data))))))"

definition read_domain_pdu_body :: "nat \<Rightarrow> byte \<Rightarrow> byte \<Rightarrow> domain_pdu parser" where
  "read_domain_pdu_body start choice low_bits =
     (if choice = mcs_choice_code ChErectDomainRequest then
        ptry per_read_integer (\<lambda>sub_height. ptry per_read_integer (\<lambda>sub_interval.
          pret (ErectDomainRequest sub_height sub_interval)))
      else if choice = mcs_choice_code ChDisconnectProviderUltimatum then
        ptry rd_u8 (\<lambda>snd_octet. let reason = push_bit 1 low_bits OR drop_bit 7 snd_octet in
          if reason > disconnect_reason_code ChannelPurged
          then pfail InvalidValue ''unknown Disconnect Provider Ultimatum reason'' start
          else pret (DisconnectProviderUltimatum (disconnect_reason_of reason)))
      else if choice = mcs_choice_code ChAttachUserRequest then pret AttachUserRequest
      else if choice = mcs_choice_code ChAttachUserConfirm then
        ptry read_mcs_result (\<lambda>result.
          if low_bits AND mcs_optional_field_present \<noteq> 0
          then ptry (per_read_integer16 mcs_user_id_base) (\<lambda>v. pret (AttachUserConfirm result (Some v)))
          else pret (AttachUserConfirm result None))
      else if choice = mcs_choice_code ChChannelJoinRequest then
        ptry (per_read_integer16 mcs_user_id_base) (\<lambda>initiator. ptry (per_read_integer16 0) (\<lambda>channel_id.
          pret (ChannelJoinRequest initiator channel_id)))
      else if choice = mcs_choice_code ChChannelJoinConfirm then
        ptry read_mcs_result (\<lambda>result. ptry (per_read_integer16 mcs_user_id_base) (\<lambda>initiator.
          ptry (per_read_integer16 0) (\<lambda>requested.
            if low_bits AND mcs_optional_field_present \<noteq> 0
            then ptry (per_read_integer16 0) (\<lambda>v. pret (ChannelJoinConfirm result initiator requested (Some v)))
            else pret (ChannelJoinConfirm result initiator requested None))))
      else if choice = mcs_choice_code ChSendDataRequest then read_send_data SendDataRequest
      else if choice = mcs_choice_code ChSendDataIndication then read_send_data SendDataIndication
      else pfail Unsupported ''unsupported MCS domain PDU'' start)"

definition decode_domain_pdu :: "domain_pdu parser" where
  "decode_domain_pdu = pget rd_offset (\<lambda>start. ptry rd_u8 (\<lambda>fst_octet.
     ptry (read_domain_pdu_body start (drop_bit 2 fst_octet) (fst_octet AND 0x03)) (\<lambda>pdu.
     ptry (rd_expect_end ''MCS domain PDU'') (\<lambda>_. pret pdu))))"

definition encode_send_data :: "mcs_choice \<Rightarrow> u16 \<Rightarrow> u16 \<Rightarrow> bytes \<Rightarrow> writer \<Rightarrow> writer option" where
  "encode_send_data choice initiator channel_id data w = do {
     let w = w_u8 (mcs_header choice 0) w;
     w \<leftarrow> per_write_integer16 mcs_user_id_base initiator w;
     w \<leftarrow> per_write_integer16 0 channel_id w;
     let w = w_u8 mcs_priority_and_segmentation w;
     w \<leftarrow> per_write_length (length data) w;
     Some (w_bytes data w)
   }"

fun encode_domain_pdu :: "domain_pdu \<Rightarrow> writer \<Rightarrow> writer option" where
  "encode_domain_pdu (ErectDomainRequest sub_height sub_interval) w = do {
     let w = w_u8 (mcs_header ChErectDomainRequest 0) w;
     w \<leftarrow> per_write_integer sub_height w;
     per_write_integer sub_interval w
   }"
| "encode_domain_pdu (DisconnectProviderUltimatum reason) w = do {
     let reason = disconnect_reason_code reason;
     let w = w_u8 (mcs_header ChDisconnectProviderUltimatum (drop_bit 1 reason)) w;
     Some (w_u8 (push_bit 7 (reason AND 1)) w)
   }"
| "encode_domain_pdu AttachUserRequest w = Some (w_u8 (mcs_header ChAttachUserRequest 0) w)"
| "encode_domain_pdu (AttachUserConfirm result initiator) w = do {
     let w = w_u8 (mcs_header ChAttachUserConfirm (if initiator \<noteq> None then mcs_optional_field_present else 0)) w;
     let w = per_write_enumerated result w;
     (case initiator of None \<Rightarrow> Some w | Some v \<Rightarrow> per_write_integer16 mcs_user_id_base v w)
   }"
| "encode_domain_pdu (ChannelJoinRequest initiator channel_id) w = do {
     let w = w_u8 (mcs_header ChChannelJoinRequest 0) w;
     w \<leftarrow> per_write_integer16 mcs_user_id_base initiator w;
     per_write_integer16 0 channel_id w
   }"
| "encode_domain_pdu (ChannelJoinConfirm result initiator requested channel_id) w = do {
     let w = w_u8 (mcs_header ChChannelJoinConfirm (if channel_id \<noteq> None then mcs_optional_field_present else 0)) w;
     let w = per_write_enumerated result w;
     w \<leftarrow> per_write_integer16 mcs_user_id_base initiator w;
     w \<leftarrow> per_write_integer16 0 requested w;
     (case channel_id of None \<Rightarrow> Some w | Some v \<Rightarrow> per_write_integer16 0 v w)
   }"
| "encode_domain_pdu (SendDataRequest initiator channel_id data) w =
     encode_send_data ChSendDataRequest initiator channel_id data w"
| "encode_domain_pdu (SendDataIndication initiator channel_id data) w =
     encode_send_data ChSendDataIndication initiator channel_id data w"

section \<open>Staying inside the input\<close>

lemma mcs_safe_parts [safe_intros]:
  "rd_safe read_u32_integer" "rd_safe read_domain_parameters" "rd_safe read_mcs_result" "rd_safe (read_send_data mk)"
  unfolding read_u32_integer_def read_domain_parameters_def read_mcs_result_def read_send_data_def
  by (intro safe_intros)+

lemma mcs_safe [safe_intros]:
  "rd_safe decode_connect_initial" "rd_safe decode_connect_response" "rd_safe (read_domain_pdu_body s c l)"
  "rd_safe decode_domain_pdu"
proof -
  show b: "rd_safe (read_domain_pdu_body s c l)" for s c l
    unfolding read_domain_pdu_body_def by (intro safe_intros)
  show "rd_safe decode_connect_initial" "rd_safe decode_connect_response" "rd_safe decode_domain_pdu"
    unfolding decode_connect_initial_def decode_connect_response_def decode_domain_pdu_def
    by (intro safe_intros b)+
qed

section \<open>Domain PDUs survive the wire\<close>

definition domain_pdu_ok :: "domain_pdu \<Rightarrow> bool" where
  "domain_pdu_ok pdu = (case pdu of
     AttachUserConfirm result initiator \<Rightarrow>
       result < mcs_result_alternatives \<and> (case initiator of None \<Rightarrow> True | Some v \<Rightarrow> mcs_user_id_base \<le> v)
   | ChannelJoinRequest initiator _ \<Rightarrow> mcs_user_id_base \<le> initiator
   | ChannelJoinConfirm result initiator _ _ \<Rightarrow> result < mcs_result_alternatives \<and> mcs_user_id_base \<le> initiator
   | SendDataRequest initiator _ data \<Rightarrow> mcs_user_id_base \<le> initiator \<and> length data \<le> per_max_length
   | SendDataIndication initiator _ data \<Rightarrow> mcs_user_id_base \<le> initiator \<and> length data \<le> per_max_length
   | _ \<Rightarrow> True)"

definition send_data_enc :: "mcs_choice \<Rightarrow> u16 \<Rightarrow> u16 \<Rightarrow> bytes \<Rightarrow> bytes" where
  "send_data_enc choice initiator channel_id data =
     mcs_header choice 0 # be_bytes 2 (initiator - mcs_user_id_base) @ be_bytes 2 channel_id @
     mcs_priority_and_segmentation # per_length_enc (length data) @ data"

fun domain_pdu_enc :: "domain_pdu \<Rightarrow> bytes" where
  "domain_pdu_enc (ErectDomainRequest h i) = mcs_header ChErectDomainRequest 0 # per_integer_enc h @ per_integer_enc i"
| "domain_pdu_enc (DisconnectProviderUltimatum reason) =
     [mcs_header ChDisconnectProviderUltimatum (drop_bit 1 (disconnect_reason_code reason)),
      push_bit 7 (disconnect_reason_code reason AND 1)]"
| "domain_pdu_enc AttachUserRequest = [mcs_header ChAttachUserRequest 0]"
| "domain_pdu_enc (AttachUserConfirm result None) = [mcs_header ChAttachUserConfirm 0, result]"
| "domain_pdu_enc (AttachUserConfirm result (Some v)) =
     [mcs_header ChAttachUserConfirm mcs_optional_field_present, result] @ be_bytes 2 (v - mcs_user_id_base)"
| "domain_pdu_enc (ChannelJoinRequest initiator channel_id) =
     mcs_header ChChannelJoinRequest 0 # be_bytes 2 (initiator - mcs_user_id_base) @ be_bytes 2 channel_id"
| "domain_pdu_enc (ChannelJoinConfirm result initiator requested None) =
     [mcs_header ChChannelJoinConfirm 0, result] @ be_bytes 2 (initiator - mcs_user_id_base) @ be_bytes 2 requested"
| "domain_pdu_enc (ChannelJoinConfirm result initiator requested (Some v)) =
     [mcs_header ChChannelJoinConfirm mcs_optional_field_present, result] @ be_bytes 2 (initiator - mcs_user_id_base) @
     be_bytes 2 requested @ be_bytes 2 v"
| "domain_pdu_enc (SendDataRequest initiator channel_id data) = send_data_enc ChSendDataRequest initiator channel_id data"
| "domain_pdu_enc (SendDataIndication initiator channel_id data) =
     send_data_enc ChSendDataIndication initiator channel_id data"

lemma encode_send_data_enc:
  "mcs_user_id_base \<le> initiator \<Longrightarrow> length data \<le> per_max_length \<Longrightarrow>
   encode_send_data choice initiator channel_id data w = Some (w @ send_data_enc choice initiator channel_id data)"
  by (simp add: encode_send_data_def send_data_enc_def wr_simps Let_def)

lemma encode_domain_pdu_enc: "domain_pdu_ok pdu \<Longrightarrow> encode_domain_pdu pdu w = Some (w @ domain_pdu_enc pdu)"
  by (cases pdu rule: domain_pdu_enc.cases)
    (simp_all add: domain_pdu_ok_def wr_simps Let_def per_write_enumerated_def encode_send_data_enc)

text \<open>The first octet splits into the choice and the two low bits it was made of.\<close>

lemma mcs_header_bits:
  assumes "low \<in> {0, 1, 2}"
  shows "drop_bit 2 (mcs_header choice low) = mcs_choice_code choice" "mcs_header choice low AND 3 = low"
  using assms by (cases choice; auto simp: mcs_header_def)+

lemma mcs_choice_code_inject [simp]: "mcs_choice_code c = mcs_choice_code d \<longleftrightarrow> c = d"
  by (cases c; cases d) simp_all

lemma per_read_integer16_0 [rd_simps]:
  "rd_rest r = be_bytes 2 v @ ys \<Longrightarrow> per_read_integer16 0 r = (Inr v, rd_advance 2 r)"
  "rd_rest r = be_bytes 2 v \<Longrightarrow> per_read_integer16 0 r = (Inr v, rd_advance 2 r)"
  using per_read_integer16_enc [of r v 0 ys] per_read_integer16_enc [of r v 0 "[]"] by simp_all

lemma per_read_integer16_end [rd_simps]:
  "rd_rest r = be_bytes 2 (v - lo) \<Longrightarrow> lo \<le> v \<Longrightarrow> per_read_integer16 lo r = (Inr v, rd_advance 2 r)"
  using per_read_integer16_enc [of r v lo "[]"] by simp

lemma read_send_data_enc:
  assumes "rd_rest r = be_bytes 2 (initiator - mcs_user_id_base) @ be_bytes 2 channel_id @
      mcs_priority_and_segmentation # per_length_enc (length data) @ data"
    and "mcs_user_id_base \<le> initiator" "length data \<le> per_max_length"
  shows "read_send_data mk r = (Inr (mk initiator channel_id data), rd_advance (length (rd_rest r)) r)"
  using assms by (simp add: read_send_data_def rd_simps per_read_length_enc)

lemma read_body_finish:
  assumes "rd_wf r" "rd_rest r = mcs_header choice low # body" "low \<in> {0, 1, 2}"
    and "read_domain_pdu_body (rd_offset r) (mcs_choice_code choice) low (rd_advance 1 r) =
      (Inr pdu, rd_advance (length body) (rd_advance 1 r))"
  shows "fst (decode_domain_pdu r) = Inr pdu"
  using assms by (simp add: decode_domain_pdu_def rd_simps mcs_header_bits)

lemma per_read_integer_enc_end:
  "rd_rest r = per_integer_enc v \<Longrightarrow> per_read_integer r = (Inr v, rd_advance (length (per_integer_enc v)) r)"
  using per_read_integer_enc [of r v "[]"] by simp

lemma disconnect_reason_round_trip:
  "push_bit 1 (drop_bit 1 (disconnect_reason_code reason)) OR drop_bit 7 (push_bit 7 (disconnect_reason_code reason AND 1)) =
     disconnect_reason_code reason"
  "drop_bit 1 (disconnect_reason_code reason) \<in> {0, 1, 2}"
  "disconnect_reason_of (disconnect_reason_code reason) = reason"
  "\<not> disconnect_reason_code ChannelPurged < disconnect_reason_code reason"
  by (cases reason; simp add: disconnect_reason_of_def)+

lemmas read_body_simps = read_domain_pdu_body_def rd_simps domain_pdu_ok_def read_mcs_result_def
  per_read_integer_enc per_read_integer_enc_end mcs_optional_field_present_def

lemma decode_domain_pdu_enc:
  assumes "domain_pdu_ok pdu" "rd_wf r" "rd_rest r = domain_pdu_enc pdu"
  shows "fst (decode_domain_pdu r) = Inr pdu"
proof (cases pdu rule: domain_pdu_enc.cases)
  case (1 h i)
  with assms show ?thesis
    by (intro read_body_finish [where choice = ChErectDomainRequest and low = 0]) (auto simp: read_body_simps)
next
  case (2 reason)
  note rt = disconnect_reason_round_trip [of reason]
  from 2 rt assms show ?thesis
    by (intro read_body_finish [where choice = ChDisconnectProviderUltimatum
          and low = "drop_bit 1 (disconnect_reason_code reason)"
          and body = "[push_bit 7 (disconnect_reason_code reason AND 1)]"])
      (simp_all add: read_domain_pdu_body_def rd_simps del: disconnect_reason_code.simps mcs_choice_code.simps)
next
  case 3
  with assms show ?thesis
    by (intro read_body_finish [where choice = ChAttachUserRequest and low = 0]) (auto simp: read_body_simps)
next
  case (4 result)
  with assms show ?thesis
    by (intro read_body_finish [where choice = ChAttachUserConfirm and low = 0]) (auto simp: read_body_simps)
next
  case (5 result v)
  with assms show ?thesis
    by (intro read_body_finish [where choice = ChAttachUserConfirm and low = mcs_optional_field_present])
      (auto simp: read_body_simps)
next
  case (6 initiator channel_id)
  with assms show ?thesis
    by (intro read_body_finish [where choice = ChChannelJoinRequest and low = 0]) (auto simp: read_body_simps)
next
  case (7 result initiator requested)
  with assms show ?thesis
    by (intro read_body_finish [where choice = ChChannelJoinConfirm and low = 0]) (auto simp: read_body_simps)
next
  case (8 result initiator requested v)
  with assms show ?thesis
    by (intro read_body_finish [where choice = ChChannelJoinConfirm and low = mcs_optional_field_present])
      (auto simp: read_body_simps)
next
  case (9 initiator channel_id data)
  with assms show ?thesis
    by (intro read_body_finish [where choice = ChSendDataRequest and low = 0])
      (auto simp: read_domain_pdu_body_def domain_pdu_ok_def send_data_enc_def read_send_data_enc)
next
  case (10 initiator channel_id data)
  with assms show ?thesis
    by (intro read_body_finish [where choice = ChSendDataIndication and low = 0])
      (auto simp: read_domain_pdu_body_def domain_pdu_ok_def send_data_enc_def read_send_data_enc)
qed

interpretation mcs_domain: pdu_codec encode_domain_pdu decode_domain_pdu domain_pdu_ok domain_pdu_enc
  by unfold_locales (simp_all add: encode_domain_pdu_enc decode_domain_pdu_enc)

section \<open>Connect-Initial and Connect-Response survive the wire\<close>

definition u32_integer_enc :: "u32 \<Rightarrow> bytes" where
  "u32_integer_enc v = ber_tlv_enc ber_integer_tag (ber_unsigned_digits (ucast v))"

definition domain_parameters_enc :: "domain_parameters \<Rightarrow> bytes" where
  "domain_parameters_enc p = ber_tlv_enc ber_sequence_tag (concat (map u32_integer_enc (dp_values p)))"

definition connect_initial_body :: "connect_initial \<Rightarrow> bytes" where
  "connect_initial_body pdu =
     ber_tlv_enc ber_octet_string_tag (ci_calling_domain_selector pdu) @
     ber_tlv_enc ber_octet_string_tag (ci_called_domain_selector pdu) @
     ber_tlv_enc ber_boolean_tag [if ci_upward_flag pdu then 0xFF else 0] @
     domain_parameters_enc (ci_target pdu) @ domain_parameters_enc (ci_minimum pdu) @
     domain_parameters_enc (ci_maximum pdu) @ ber_tlv_enc ber_octet_string_tag (ci_user_data pdu)"

definition connect_response_body :: "connect_response \<Rightarrow> bytes" where
  "connect_response_body pdu =
     ber_tlv_enc ber_enumerated_tag (ber_unsigned_digits (ucast (crs_result pdu))) @
     u32_integer_enc (crs_called_connect_id pdu) @ domain_parameters_enc (crs_parameters pdu) @
     ber_tlv_enc ber_octet_string_tag (crs_user_data pdu)"

definition connect_initial_ok :: "connect_initial \<Rightarrow> bool" where
  "connect_initial_ok pdu \<longleftrightarrow>
     length (ci_calling_domain_selector pdu) + length (ci_called_domain_selector pdu) + length (ci_user_data pdu) + 1000
       < 2 ^ 32"

definition connect_response_ok :: "connect_response \<Rightarrow> bool" where
  "connect_response_ok pdu \<longleftrightarrow> crs_result pdu < mcs_result_alternatives \<and> length (crs_user_data pdu) + 1000 < 2 ^ 32"

lemmas ber_tag_defs = ber_integer_tag_def ber_sequence_tag_def ber_octet_string_tag_def ber_boolean_tag_def
  ber_enumerated_tag_def mcs_connect_initial_tag_def mcs_connect_response_tag_def ber_application_def ber_tag_def

lemma mcs_tag_numbers [simp]:
  "tag_number ber_integer_tag \<le> ber_max_tag_number" "tag_number ber_sequence_tag \<le> ber_max_tag_number"
  "tag_number ber_octet_string_tag \<le> ber_max_tag_number" "tag_number ber_boolean_tag \<le> ber_max_tag_number"
  "tag_number ber_enumerated_tag \<le> ber_max_tag_number" "tag_number mcs_connect_initial_tag \<le> ber_max_tag_number"
  "tag_number mcs_connect_response_tag \<le> ber_max_tag_number"
  "tag_constructed ber_sequence_tag" "tag_constructed mcs_connect_initial_tag" "tag_constructed mcs_connect_response_tag"
  by (simp_all add: ber_tag_defs ber_max_tag_number_def)

subsection \<open>Sizes\<close>

lemma length_ber_tag_groups: "length (ber_tag_groups s shifts n) \<le> length shifts"
  by (induction shifts arbitrary: s) (auto simp: Let_def le_SucI)

lemma length_ber_tlv_enc_le:
  assumes "length v < 2 ^ 32"
  shows "length (ber_tlv_enc t v) \<le> 9 + length v"
proof -
  have "length (ber_tag_enc t) \<le> 4"
    using length_ber_tag_groups [of False "[14, 7, 0]" "tag_number t"] by (simp add: ber_tag_enc_def Let_def)
  moreover have "length (ber_length_enc (length v)) \<le> 5"
    using ber_octet_count_le_4 [of "length v"] assms by (simp add: ber_length_enc_def ber_length_octets_def)
  ultimately show ?thesis by (simp add: ber_tlv_enc_def)
qed

lemma length_u32_integer_enc: "length (u32_integer_enc v) \<le> 18"
  using length_ber_tlv_enc_le [of "ber_unsigned_digits (ucast v)" ber_integer_tag]
    ber_unsigned_digits_facts(2) [of "ucast v"]
  unfolding u32_integer_enc_def by simp

lemma length_u32_integers_enc: "length (concat (map u32_integer_enc (dp_values p))) \<le> 144"
  using length_concat_le [of "dp_values p" u32_integer_enc 18] length_u32_integer_enc by (simp add: dp_values_def)

lemma length_domain_parameters_enc: "length (domain_parameters_enc p) \<le> 153"
  unfolding domain_parameters_enc_def
  using length_ber_tlv_enc_le [of "concat (map u32_integer_enc (dp_values p))" ber_sequence_tag]
    length_u32_integers_enc [of p] by simp

subsection \<open>Domain parameters\<close>

lemma read_u32_integer_enc [rd_simps]:
  assumes "rd_rest r = u32_integer_enc v @ ys"
  shows "read_u32_integer r = (Inr v, rd_advance (length (u32_integer_enc v)) r)"
proof -
  have "\<not> (0xFFFFFFFF :: u64) < ucast v"
    using u32_less [of v] by (simp add: word_less_nat_alt unat_ucast_le del: u32_less)
  moreover have "ucast (ucast v :: u64) = v"
    by (rule bit_eqI) (auto simp: bit_simps dest: bit_imp_le_length)
  ultimately show ?thesis
    using assms ber_unsigned_digits_facts(2) [of "ucast v"] unfolding u32_integer_enc_def
    by (simp add: read_u32_integer_def rd_simps ber_ok_def plift_def ber_decode_raw_unsigned_digits)
qed

lemma read_u32_integer_enc_end [rd_simps]:
  "rd_rest r = u32_integer_enc v \<Longrightarrow> read_u32_integer r = (Inr v, rd_advance (length (u32_integer_enc v)) r)"
  using read_u32_integer_enc [of r v "[]"] by simp

lemma write_u32_integers_enc [wr_simps]: "write_u32_integers vs w = Some (w @ concat (map u32_integer_enc vs))"
  by (induction vs arbitrary: w) (simp_all add: wr_simps u32_integer_enc_def)

lemma write_domain_parameters_enc [wr_simps]: "write_domain_parameters p w = Some (w @ domain_parameters_enc p)"
  using length_u32_integers_enc [of p]
  by (simp add: write_domain_parameters_def ber_write_constructed_def wr_simps domain_parameters_enc_def ber_ok_def
      wassert_def)

lemma read_domain_parameters_enc [rd_simps]:
  assumes "rd_rest r = domain_parameters_enc p @ ys"
  shows "read_domain_parameters r = (Inr p, rd_advance (length (domain_parameters_enc p)) r)"
proof -
  have "ber_ok ber_sequence_tag (concat (map u32_integer_enc (dp_values p)))"
    using length_u32_integers_enc [of p] by (simp add: ber_ok_def)
  from ber_read_constructed_enc [OF assms [unfolded domain_parameters_enc_def] this]
  show ?thesis
    by (simp add: read_domain_parameters_def domain_parameters_enc_def dp_values_def rd_simps)
qed

subsection \<open>The two connect PDUs\<close>

lemma ber_read_octet_string_end [rd_simps]:
  "rd_rest r = ber_tlv_enc t v \<Longrightarrow> ber_ok t v \<Longrightarrow>
   ber_read_octet_string rules t r = (Inr v, rd_advance (length (ber_tlv_enc t v)) r)"
  using ber_read_octet_string_enc [of r t v "[]"] by simp

lemma ber_write_boolean_enc [wr_simps]:
  "tag_number t \<le> ber_max_tag_number \<Longrightarrow> ber_write_boolean t b w = Some (w @ ber_tlv_enc t [if b then 0xFF else 0])"
  by (simp add: ber_write_boolean_def wr_simps ber_ok_def)

lemma length_connect_initial_body:
  assumes "connect_initial_ok pdu"
  shows "length (connect_initial_body pdu) < 2 ^ 32"
proof -
  note os = length_ber_tlv_enc_le [where t = ber_octet_string_tag]
  have "length (ber_tlv_enc ber_boolean_tag [if ci_upward_flag pdu then 0xFF else 0]) \<le> 10"
    using length_ber_tlv_enc_le [of "[if ci_upward_flag pdu then 0xFF else 0]" ber_boolean_tag] by simp
  then show ?thesis
    using os [of "ci_calling_domain_selector pdu"] os [of "ci_called_domain_selector pdu"] os [of "ci_user_data pdu"]
      length_domain_parameters_enc [of "ci_target pdu"] length_domain_parameters_enc [of "ci_minimum pdu"]
      length_domain_parameters_enc [of "ci_maximum pdu"] assms
    unfolding connect_initial_body_def connect_initial_ok_def length_append by linarith
qed

lemma length_connect_response_body:
  assumes "connect_response_ok pdu"
  shows "length (connect_response_body pdu) < 2 ^ 32"
proof -
  have "length (ber_tlv_enc ber_enumerated_tag (ber_unsigned_digits (ucast (crs_result pdu)))) \<le> 18"
    using length_ber_tlv_enc_le [of "ber_unsigned_digits (ucast (crs_result pdu))" ber_enumerated_tag]
      ber_unsigned_digits_facts(2) [of "ucast (crs_result pdu)"] by simp
  then show ?thesis
    using length_ber_tlv_enc_le [of "crs_user_data pdu" ber_octet_string_tag]
      length_u32_integer_enc [of "crs_called_connect_id pdu"]
      length_domain_parameters_enc [of "crs_parameters pdu"] assms
    unfolding connect_response_body_def connect_response_ok_def length_append by linarith
qed

definition connect_initial_enc :: "connect_initial \<Rightarrow> bytes" where
  "connect_initial_enc pdu = ber_tlv_enc mcs_connect_initial_tag (connect_initial_body pdu)"

definition connect_response_enc :: "connect_response \<Rightarrow> bytes" where
  "connect_response_enc pdu = ber_tlv_enc mcs_connect_response_tag (connect_response_body pdu)"

lemma encode_connect_initial_enc:
  assumes "connect_initial_ok pdu"
  shows "encode_connect_initial pdu w = Some (w @ connect_initial_enc pdu)"
proof -
  have "ber_ok ber_octet_string_tag (ci_calling_domain_selector pdu)"
    "ber_ok ber_octet_string_tag (ci_called_domain_selector pdu)" "ber_ok ber_octet_string_tag (ci_user_data pdu)"
    "ber_ok mcs_connect_initial_tag (connect_initial_body pdu)"
    using assms length_connect_initial_body [OF assms] by (auto simp: ber_ok_def connect_initial_ok_def)
  then show ?thesis
    by (simp add: encode_connect_initial_def ber_write_constructed_def ber_write_octet_string_def wr_simps wassert_def
        connect_initial_enc_def connect_initial_body_def)
qed

lemma decode_connect_initial_enc:
  assumes "connect_initial_ok pdu" "rd_rest r = connect_initial_enc pdu @ ys"
  shows "decode_connect_initial r = (Inr pdu, rd_advance (length (connect_initial_enc pdu)) r)"
proof -
  have ok: "ber_ok ber_octet_string_tag (ci_calling_domain_selector pdu)"
    "ber_ok ber_octet_string_tag (ci_called_domain_selector pdu)" "ber_ok ber_octet_string_tag (ci_user_data pdu)"
    "ber_ok mcs_connect_initial_tag (connect_initial_body pdu)"
    using assms length_connect_initial_body [OF assms(1)] by (auto simp: ber_ok_def connect_initial_ok_def)
  from ber_read_constructed_enc [OF assms(2) [unfolded connect_initial_enc_def] ok(4)] ok(1-3)
  show ?thesis
    by (simp add: decode_connect_initial_def connect_initial_body_def connect_initial_enc_def rd_simps)
qed

lemma encode_connect_response_enc:
  assumes "connect_response_ok pdu"
  shows "encode_connect_response pdu w = Some (w @ connect_response_enc pdu)"
proof -
  have "ber_ok ber_octet_string_tag (crs_user_data pdu)" "ber_ok mcs_connect_response_tag (connect_response_body pdu)"
    using assms length_connect_response_body [OF assms] by (auto simp: ber_ok_def connect_response_ok_def)
  then show ?thesis
    by (simp add: encode_connect_response_def ber_write_constructed_def ber_write_octet_string_def wr_simps wassert_def
        connect_response_enc_def connect_response_body_def u32_integer_enc_def)
qed

lemma mcs_result_wide:
  assumes "b < mcs_result_alternatives"
  shows "\<not> (ucast mcs_result_alternatives :: u64) \<le> ucast b" "ucast (ucast b :: u64) = b"
proof -
  show "\<not> (ucast mcs_result_alternatives :: u64) \<le> ucast b"
    using assms by (simp add: mcs_result_alternatives_def word_le_nat_alt word_less_nat_alt unat_ucast_le)
  show "ucast (ucast b :: u64) = b"
    by (rule bit_eqI) (auto simp: bit_simps dest: bit_imp_le_length)
qed

lemma decode_connect_response_enc:
  assumes "connect_response_ok pdu" "rd_rest r = connect_response_enc pdu @ ys"
  shows "decode_connect_response r = (Inr pdu, rd_advance (length (connect_response_enc pdu)) r)"
proof -
  have ok: "ber_ok ber_octet_string_tag (crs_user_data pdu)"
    "ber_ok mcs_connect_response_tag (connect_response_body pdu)"
    using assms length_connect_response_body [OF assms(1)] by (auto simp: ber_ok_def connect_response_ok_def)
  note res = mcs_result_wide [of "crs_result pdu"]
  from ber_read_constructed_enc [OF assms(2) [unfolded connect_response_enc_def] ok(2)] ok(1) res assms(1)
  show ?thesis
    by (simp add: decode_connect_response_def connect_response_body_def connect_response_enc_def rd_simps
        connect_response_ok_def)
qed

interpretation mcs_initial: codec encode_connect_initial decode_connect_initial connect_initial_ok connect_initial_enc
  by unfold_locales (simp_all add: encode_connect_initial_enc decode_connect_initial_enc)

interpretation mcs_response: codec encode_connect_response decode_connect_response connect_response_ok connect_response_enc
  by unfold_locales (simp_all add: encode_connect_response_enc decode_connect_response_enc)

section \<open>Properties\<close>

text \<open>
  Every MCS domain PDU survives the wire: attach, join, send-data and disconnect PDUs whose identifiers
  and results are in range are encoded without an assertion failing and decoded to themselves.
\<close>

theorem mcs_domain_roundtrip:
  assumes "domain_pdu_ok pdu"
  shows "\<exists>bs. encode_domain_pdu pdu w = Some (w @ bs) \<and> fst (decode_domain_pdu (mk_reader bs b)) = Inr pdu"
  using assms by (rule mcs_domain.pdu_round_trip)

theorem mcs_domain_roundtrip_witness:
  "domain_pdu_ok (SendDataRequest 1004 1003 [1, 2, 3]) \<and>
   (\<exists>bs. encode_domain_pdu (SendDataRequest 1004 1003 [1, 2, 3]) [] = Some ([] @ bs) \<and>
      fst (decode_domain_pdu (mk_reader bs 0)) = Inr (SendDataRequest 1004 1003 [1, 2, 3]))"
proof -
  have ok: "domain_pdu_ok (SendDataRequest 1004 1003 [1, 2, 3])" by code_simp
  then show ?thesis using mcs_domain_roundtrip [OF ok, of "[]" 0] by blast
qed

text \<open>
  Connect-Initial and Connect-Response survive the wire, domain parameters and user data of any length
  below 4 GiB included, in front of arbitrary further bytes.
\<close>

theorem mcs_connect_roundtrip:
  assumes "connect_initial_ok ci" "connect_response_ok cr"
  shows "(\<exists>bs. encode_connect_initial ci w = Some (w @ bs) \<and>
      decode_connect_initial (mk_reader (bs @ ys) b) = (Inr ci, rd_advance (length bs) (mk_reader (bs @ ys) b))) \<and>
    (\<exists>bs. encode_connect_response cr w = Some (w @ bs) \<and>
      decode_connect_response (mk_reader (bs @ ys) b) = (Inr cr, rd_advance (length bs) (mk_reader (bs @ ys) b)))"
  using mcs_initial.round_trip [OF assms(1)] mcs_response.round_trip [OF assms(2)] by blast

definition mcs_demo_parameters :: domain_parameters where
  "mcs_demo_parameters = \<lparr>dp_max_channel_ids = 34, dp_max_user_ids = 2, dp_max_token_ids = 0, dp_num_priorities = 1,
     dp_min_throughput = 0, dp_max_height = 1, dp_max_mcs_pdu_size = 65535, dp_protocol_version = 2\<rparr>"

definition mcs_demo_initial :: connect_initial where
  "mcs_demo_initial = \<lparr>ci_calling_domain_selector = [1], ci_called_domain_selector = [1], ci_upward_flag = True,
     ci_target = mcs_demo_parameters, ci_minimum = mcs_demo_parameters, ci_maximum = mcs_demo_parameters,
     ci_user_data = [1, 2, 3]\<rparr>"

definition mcs_demo_response :: connect_response where
  "mcs_demo_response = \<lparr>crs_result = 0, crs_called_connect_id = 0,
     crs_parameters = negotiate_domain_parameters mcs_demo_initial, crs_user_data = [4, 5]\<rparr>"

theorem mcs_connect_roundtrip_witness:
  "connect_initial_ok mcs_demo_initial \<and> connect_response_ok mcs_demo_response \<and>
   (\<exists>bs. encode_connect_initial mcs_demo_initial [] = Some ([] @ bs) \<and>
      decode_connect_initial (mk_reader (bs @ [9]) 0) =
        (Inr mcs_demo_initial, rd_advance (length bs) (mk_reader (bs @ [9]) 0)))"
proof -
  have ok: "connect_initial_ok mcs_demo_initial" "connect_response_ok mcs_demo_response"
    by (simp_all add: connect_initial_ok_def connect_response_ok_def mcs_demo_initial_def mcs_demo_response_def
        mcs_result_alternatives_def)
  then show ?thesis using mcs_connect_roundtrip [OF ok, of "[]" "[9]" 0] by blast
qed

text \<open>
  The negotiated domain parameters always allow what the server needs, whatever the client proposed:
  PDUs between 1024 and 65528 octets, at least four channels and three users, one priority, height one, protocol
  version 2; a target PDU size in that range is granted as it is.
\<close>

theorem mcs_negotiation_bounds:
  "(let p = negotiate_domain_parameters ci in
    1024 \<le> dp_max_mcs_pdu_size p \<and> dp_max_mcs_pdu_size p \<le> 65528 \<and> 4 \<le> dp_max_channel_ids p \<and> 3 \<le> dp_max_user_ids p \<and>
    dp_num_priorities p = 1 \<and> dp_max_height p = 1 \<and> dp_protocol_version p = 2 \<and>
    dp_max_channel_ids (ci_target ci) \<le> dp_max_channel_ids p \<and> dp_max_user_ids (ci_target ci) \<le> dp_max_user_ids p \<and>
    (dp_max_mcs_pdu_size (ci_target ci) \<in> {1024..65528} \<longrightarrow>
       dp_max_mcs_pdu_size p = dp_max_mcs_pdu_size (ci_target ci)))"
  by (auto simp: negotiate_domain_parameters_def Let_def max_def not_less not_le)

theorem mcs_negotiation_bounds_witness:
  "(let p = negotiate_domain_parameters mcs_demo_initial in
    1024 \<le> dp_max_mcs_pdu_size p \<and> dp_max_mcs_pdu_size p \<le> 65528 \<and> 4 \<le> dp_max_channel_ids p \<and> 34 \<le> dp_max_channel_ids p)"
  using mcs_negotiation_bounds [of mcs_demo_initial] by (simp add: Let_def mcs_demo_initial_def mcs_demo_parameters_def)

end
