(* ===== verification/Text.thy ===== *)
theory Text
  imports Prelude
begin

text \<open>
  \<open>base/text.cpp\<close>: conversion between UTF-8 and UTF-16LE that never fails: what is malformed
  becomes U+FFFD. Code points and code units are 32-bit words, text is a list of octets.
\<close>

section \<open>Model\<close>

definition replacement :: u32 where "replacement = 0xFFFD"

definition is_high_surrogate :: "u32 \<Rightarrow> bool" where
  "is_high_surrogate unit \<longleftrightarrow> unit \<ge> 0xD800 \<and> unit \<le> 0xDBFF"

definition is_low_surrogate :: "u32 \<Rightarrow> bool" where
  "is_low_surrogate unit \<longleftrightarrow> unit \<ge> 0xDC00 \<and> unit \<le> 0xDFFF"

definition append_utf8 :: "bytes \<Rightarrow> u32 \<Rightarrow> bytes" where
  "append_utf8 out v = out @
     (if v < 0x80 then [ucast v]
      else if v < 0x800 then [ucast (0xC0 OR drop_bit 6 v), ucast (0x80 OR (v AND 0x3F))]
      else if v < 0x10000 then
        [ucast (0xE0 OR drop_bit 12 v), ucast (0x80 OR (drop_bit 6 v AND 0x3F)), ucast (0x80 OR (v AND 0x3F))]
      else [ucast (0xF0 OR drop_bit 18 v), ucast (0x80 OR (drop_bit 12 v AND 0x3F)),
        ucast (0x80 OR (drop_bit 6 v AND 0x3F)), ucast (0x80 OR (v AND 0x3F))])"

definition append_utf16le :: "bytes \<Rightarrow> u32 \<Rightarrow> bytes" where
  "append_utf16le out unit = out @ [ucast unit, ucast (drop_bit 8 unit)]"

text \<open>The kind of a lead octet: how many octets follow, the bits it holds, the smallest value allowed.\<close>

definition utf8_lead :: "byte \<Rightarrow> (nat \<times> u32 \<times> u32) option" where
  "utf8_lead lead =
     (if lead AND 0xE0 = 0xC0 then Some (1, ucast (lead AND 0x1F), 0x80)
      else if lead AND 0xF0 = 0xE0 then Some (2, ucast (lead AND 0x0F), 0x800)
      else if lead AND 0xF8 = 0xF0 then Some (3, ucast (lead AND 0x07), 0x10000)
      else None)"

fun utf8_continue :: "nat \<Rightarrow> u32 \<Rightarrow> bytes \<Rightarrow> u32 option" where
  "utf8_continue 0 cp text = Some cp"
| "utf8_continue (Suc n) cp (cont # text) =
     (if cont AND 0xC0 \<noteq> 0x80 then None else utf8_continue n (push_bit 6 cp OR ucast (cont AND 0x3F)) text)"
| "utf8_continue (Suc n) cp [] = None"

text \<open>The lead octet and the text behind it give the code point and the text left to read.\<close>

definition next_utf8 :: "byte \<Rightarrow> bytes \<Rightarrow> u32 \<times> bytes" where
  "next_utf8 lead text =
     (if lead < 0x80 then (ucast lead, text)
      else (case utf8_lead lead of
          None \<Rightarrow> (replacement, text)
        | Some (extra, cp, smallest) \<Rightarrow>
            if extra > length text then (replacement, text)
            else (case utf8_continue extra cp text of
                None \<Rightarrow> (replacement, text)
              | Some cp \<Rightarrow>
                  if cp < smallest \<or> cp > 0x10FFFF \<or> is_high_surrogate cp \<or> is_low_surrogate cp
                  then (replacement, drop extra text)
                  else (cp, drop extra text))))"

definition unit_of :: "byte \<Rightarrow> byte \<Rightarrow> u32" where
  "unit_of a b = ucast a OR push_bit 8 (ucast b)"

function utf16le_loop :: "bytes \<Rightarrow> bytes \<Rightarrow> bytes" where
  "utf16le_loop out [] = out"
| "utf16le_loop out [odd_byte] = append_utf8 out replacement"
| "utf16le_loop out (a # b # rest) =
     (let unit = unit_of a b in
      if unit = 0 then out
      else if is_high_surrogate unit \<and> 2 \<le> length rest \<and> is_low_surrogate (unit_of (rest ! 0) (rest ! 1))
      then let low = unit_of (rest ! 0) (rest ! 1)
           in utf16le_loop (append_utf8 out (0x10000 + push_bit 10 (unit - 0xD800) + (low - 0xDC00))) (drop 2 rest)
      else if is_high_surrogate unit \<or> is_low_surrogate unit then utf16le_loop (append_utf8 out replacement) rest
      else utf16le_loop (append_utf8 out unit) rest)"
  by pat_completeness auto
termination
  by (relation "measure (\<lambda>(_, text). length text)") auto

definition utf16le_to_utf8 :: "bytes \<Rightarrow> bytes" where
  "utf16le_to_utf8 text = utf16le_loop [] text"

lemma next_utf8_shorter: "length (snd (next_utf8 lead text)) \<le> length text"
  by (auto simp: next_utf8_def split: option.split)

function utf8_loop :: "bytes \<Rightarrow> bytes \<Rightarrow> bytes" where
  "utf8_loop out [] = out"
| "utf8_loop out (lead # text) =
     (let (cp, rest) = next_utf8 lead text in
      if cp \<ge> 0x10000
      then let v = cp - 0x10000
           in utf8_loop (append_utf16le (append_utf16le out (0xD800 + drop_bit 10 v)) (0xDC00 + (v AND 0x3FF))) rest
      else utf8_loop (append_utf16le out cp) rest)"
  by pat_completeness auto
termination
proof (relation "measure (\<lambda>(_, input). length input)")
  fix out :: bytes and lead :: byte and input x cp rest and v :: u32
  assume "x = next_utf8 lead input" "(cp, rest) = x"
  then have "length rest \<le> length input" using next_utf8_shorter [of lead input] by (metis snd_conv)
  then show "((append_utf16le (append_utf16le out (0xD800 + drop_bit 10 v)) (0xDC00 + (v AND 0x3FF)), rest), out, lead # input)
      \<in> measure (\<lambda>(_, input). length input)"
    "((append_utf16le out cp, rest), out, lead # input) \<in> measure (\<lambda>(_, input). length input)" by simp_all
qed simp

definition utf8_to_utf16le :: "bytes \<Rightarrow> bytes" where
  "utf8_to_utf16le text = utf8_loop [] text"

section \<open>Specification\<close>

text \<open>Unicode scalar values and how the two encodings spell one.\<close>

definition scalar_value :: "u32 \<Rightarrow> bool" where
  "scalar_value v \<longleftrightarrow> v \<le> 0x10FFFF \<and> \<not> is_high_surrogate v \<and> \<not> is_low_surrogate v"

definition utf8_of :: "u32 \<Rightarrow> bytes" where
  "utf8_of v = append_utf8 [] v"

definition utf16_of :: "u32 \<Rightarrow> bytes" where
  "utf16_of cp =
     (if cp \<ge> 0x10000
      then append_utf16le (append_utf16le [] (0xD800 + drop_bit 10 (cp - 0x10000))) (0xDC00 + ((cp - 0x10000) AND 0x3FF))
      else append_utf16le [] cp)"

section \<open>Decoding what was encoded\<close>

lemma unat_or_tag:
  fixes x :: u32
  shows "unat x < 32 \<Longrightarrow> unat (0xC0 OR x) = 192 + unat x"
    "unat x < 16 \<Longrightarrow> unat (0xE0 OR x) = 224 + unat x"
    "unat x < 8 \<Longrightarrow> unat (0xF0 OR x) = 240 + unat x"
    "unat x < 64 \<Longrightarrow> unat (0x80 OR x) = 128 + unat x"
  using unat_push_or [of x 5 6] unat_push_or [of x 4 14] unat_push_or [of x 3 30] unat_push_or [of x 6 2]
  by (simp_all add: push_bit_eq_mult)

lemma unat_byte_of:
  fixes v :: "'a::len word"
  shows "unat v < 256 \<Longrightarrow> unat (ucast v :: byte) = unat v"
  by (simp add: unsigned_ucast_eq take_bit_nat_eq_self)

lemma and_high_iff:
  fixes x c :: byte
  assumes "n + m = 8" "unat c < 2 ^ m"
  shows "x AND push_bit n (mask m) = push_bit n c \<longleftrightarrow> unat x div 2 ^ n = unat c"
proof -
  have "unat (push_bit n c) = unat c * 2 ^ n"
  proof (rule unat_push_bit)
    have "unat c * 2 ^ n < 2 ^ m * 2 ^ n" using assms(2) by simp
    then show "unat c * 2 ^ n < 2 ^ LENGTH(8)" using assms(1) by (simp add: power_add [symmetric] add.commute)
  qed
  moreover have "unat (push_bit n (drop_bit n x)) = unat x div 2 ^ n * 2 ^ n"
    unfolding unsigned_push_bit_eq unat_drop_bit_eq
    by (simp add: take_bit_eq_mod drop_bit_eq_div push_bit_eq_mult)
      (metis byte_less_256 div_times_less_eq_dividend mod_less order_le_less_trans)
  ultimately show ?thesis
    using assms by (simp add: and_high word_unat_eq_iff)
qed

lemma utf8_tags:
  fixes x :: byte
  shows "x AND 0xC0 = 0x80 \<longleftrightarrow> unat x div 64 = 2" "x AND 0xE0 = 0xC0 \<longleftrightarrow> unat x div 32 = 6"
    "x AND 0xF0 = 0xE0 \<longleftrightarrow> unat x div 16 = 14" "x AND 0xF8 = 0xF0 \<longleftrightarrow> unat x div 8 = 30"
  using and_high_iff [of 6 2 2 x] and_high_iff [of 5 3 6 x] and_high_iff [of 4 4 14 x] and_high_iff [of 3 5 30 x]
  by (simp_all add: mask_eq_exp_minus_1 push_bit_eq_mult)

lemma unat_and_0x3F: "unat (x AND 0x3F) = unat x mod 64" for x :: "u32"
  using unat_and_mask [of x 6] by (simp add: mask_eq_exp_minus_1)

lemma cont_byte: "unat (ucast (0x80 OR (x AND 0x3F) :: u32) :: byte) = 128 + unat x mod 64"
proof -
  have "unat (x AND 0x3F) < 64" by (simp add: unat_and_0x3F)
  then have "unat (0x80 OR (x AND 0x3F)) = 128 + unat (x AND 0x3F)" by (rule unat_or_tag(4))
  then show ?thesis by (subst unat_byte_of) (simp_all add: unat_and_0x3F)
qed

lemma continue_value:
  "push_bit 6 (drop_bit 6 y) OR ucast ((ucast (0x80 OR (y AND 0x3F)) :: byte) AND 0x3F) = (y :: u32)"
proof -
  have "unat (ucast ((ucast (0x80 OR (y AND 0x3F)) :: byte) AND 0x3F) :: u32) = unat (take_bit 6 y)"
    by (simp only: unat_ucast_le byte_and_low cont_byte unsigned_take_bit_eq)
      (simp add: unat_ucast_le byte_and_low cont_byte take_bit_eq_mod mod_add_left_eq [symmetric, of 128])
  then have "ucast ((ucast (0x80 OR (y AND 0x3F)) :: byte) AND 0x3F) = take_bit 6 y"
    by (simp only: word_unat_eq_iff)
  then show ?thesis using push_drop_or [of 6 y] by (simp only:)
qed

lemma utf8_continue_step:
  "utf8_continue (Suc n) (drop_bit 6 y) (ucast (0x80 OR (y AND 0x3F)) # t) = utf8_continue n y t"
proof -
  have "(ucast (0x80 OR (y AND 0x3F)) :: byte) AND 0xC0 = 0x80"
    unfolding utf8_tags cont_byte by simp
  then show ?thesis by (simp only: utf8_continue.simps continue_value not_True_eq_False if_False simp_thms)
qed

lemma utf8_continue_seq:
  fixes v :: u32
  defines "b0 \<equiv> ucast (0x80 OR (v AND 0x3F))" and "b1 \<equiv> ucast (0x80 OR (drop_bit 6 v AND 0x3F))"
    and "b2 \<equiv> ucast (0x80 OR (drop_bit 12 v AND 0x3F))"
  shows "utf8_continue 1 (drop_bit 6 v) (b0 # rest) = Some v"
    "utf8_continue 2 (drop_bit 12 v) (b1 # b0 # rest) = Some v"
    "utf8_continue 3 (drop_bit 18 v) (b2 # b1 # b0 # rest) = Some v"
proof -
  have 1: "utf8_continue (Suc 0) (drop_bit 6 v) (b0 # rest) = Some v"
    unfolding b0_def utf8_continue_step by simp
  have 2: "utf8_continue (Suc (Suc 0)) (drop_bit 12 v) (b1 # b0 # rest) = Some v"
    using utf8_continue_step [of "Suc 0" "drop_bit 6 v" "b0 # rest"] 1 by (simp add: b1_def drop_bit_drop_bit del: utf8_continue.simps)
  have 3: "utf8_continue (Suc (Suc (Suc 0))) (drop_bit 18 v) (b2 # b1 # b0 # rest) = Some v"
    using utf8_continue_step [of "Suc (Suc 0)" "drop_bit 12 v" "b1 # b0 # rest"] 2 by (simp add: b2_def drop_bit_drop_bit del: utf8_continue.simps)
  show "utf8_continue 1 (drop_bit 6 v) (b0 # rest) = Some v" using 1 by (simp only: One_nat_def)
  show "utf8_continue 2 (drop_bit 12 v) (b1 # b0 # rest) = Some v" using 2 by (simp only: numeral_2_eq_2)
  show "utf8_continue 3 (drop_bit 18 v) (b2 # b1 # b0 # rest) = Some v" using 3 by (simp only: numeral_3_eq_3)
qed

lemma lead_bits:
  fixes x :: u32 and y :: byte
  shows "unat (y AND n) = unat y mod m \<Longrightarrow> unat y mod m = unat x \<Longrightarrow> ucast (y AND n) = x"
  by (simp only: word_unat_eq_iff unat_ucast_le) (simp add: unat_ucast_le)

lemma byte_and_7: "unat (y AND 7) = unat y mod 8" for y :: byte
  using unat_and_mask [of y 3] by (simp add: mask_eq_exp_minus_1)

lemma tagged: "y = c * m + x \<Longrightarrow> x < m \<Longrightarrow> y mod m = x" "y = c * m + x \<Longrightarrow> x < m \<Longrightarrow> y div m = c"
  for x :: nat
  by (simp_all add: div_nat_eqI)

lemma utf8_lead_enc:
  fixes x :: u32
  shows "unat x < 32 \<Longrightarrow> utf8_lead (ucast (0xC0 OR x)) = Some (1, x, 0x80)"
    "unat x < 16 \<Longrightarrow> utf8_lead (ucast (0xE0 OR x)) = Some (2, x, 0x800)"
    "unat x < 8 \<Longrightarrow> utf8_lead (ucast (0xF0 OR x)) = Some (3, x, 0x10000)"
proof -
  assume x: "unat x < 32"
  let ?y = "ucast (0xC0 OR x) :: byte"
  have y: "unat ?y = 6 * 32 + unat x" using x by (simp add: unat_byte_of unat_or_tag)
  have "ucast (?y AND 0x1F) = x" by (rule lead_bits [OF byte_and_low(5)]) (rule tagged(1) [OF y x])
  moreover have "unat ?y div 32 = 6" by (rule tagged(2) [OF y x])
  ultimately show "utf8_lead ?y = Some (1, x, 0x80)" by (simp add: utf8_lead_def utf8_tags)
next
  assume x: "unat x < 16"
  let ?y = "ucast (0xE0 OR x) :: byte"
  have y: "unat ?y = 14 * 16 + unat x" using x by (simp add: unat_byte_of unat_or_tag)
  have "ucast (?y AND 0x0F) = x" by (rule lead_bits [OF byte_and_low(4)]) (rule tagged(1) [OF y x])
  moreover have "unat ?y div 16 = 14" by (rule tagged(2) [OF y x])
  moreover from y have "unat ?y div 32 \<noteq> 6" by linarith
  ultimately show "utf8_lead ?y = Some (2, x, 0x800)" by (simp add: utf8_lead_def utf8_tags)
next
  assume x: "unat x < 8"
  let ?y = "ucast (0xF0 OR x) :: byte"
  have y: "unat ?y = 30 * 8 + unat x" using x by (simp add: unat_byte_of unat_or_tag)
  have "ucast (?y AND 0x07) = x" by (rule lead_bits [OF byte_and_7]) (rule tagged(1) [OF y x])
  moreover have "unat ?y div 8 = 30" by (rule tagged(2) [OF y x])
  moreover from y have "unat ?y div 32 \<noteq> 6" "unat ?y div 16 \<noteq> 14" by linarith+
  ultimately show "utf8_lead ?y = Some (3, x, 0x10000)" by (simp add: utf8_lead_def utf8_tags)
qed

lemma append_utf8_of: "append_utf8 out v = out @ utf8_of v"
  by (simp add: utf8_of_def append_utf8_def)

lemma unat_shr_less: "unat (drop_bit n v) < k" if "unat v < k * 2 ^ n" for v :: u32
proof -
  have "unat (drop_bit n v) = unat v div 2 ^ n" by (simp only: unat_drop_bit_eq) (rule drop_bit_eq_div)
  then show ?thesis using that by (simp only: less_mult_imp_div_less)
qed

lemma lead_not_ascii: "utf8_lead y = Some p \<Longrightarrow> \<not> y < 0x80"
proof -
  assume "utf8_lead y = Some p"
  then have "unat y div 32 = 6 \<or> unat y div 16 = 14 \<or> unat y div 8 = 30"
    by (auto simp: utf8_lead_def utf8_tags split: if_splits)
  then have "128 \<le> unat y" by linarith
  then show ?thesis by (simp add: word_less_nat_alt)
qed

lemma next_utf8_seq:
  assumes "utf8_lead lead = Some (length seq, cp, smallest)" "utf8_continue (length seq) cp (seq @ rest) = Some v"
    "smallest \<le> v" "scalar_value v"
  shows "next_utf8 lead (seq @ rest) = (v, rest)"
  using assms lead_not_ascii [OF assms(1)] by (auto simp: next_utf8_def scalar_value_def dest: leD)

lemma next_utf8_of:
  assumes "scalar_value v"
  shows "\<exists>lead seq. utf8_of v = lead # seq \<and> (\<forall>rest. next_utf8 lead (seq @ rest) = (v, rest))"
proof -
  consider "v < 0x80" | "0x80 \<le> v" "v < 0x800" | "0x800 \<le> v" "v < 0x10000" | "0x10000 \<le> v" by fastforce
  then show ?thesis
  proof cases
    case 1
    then have "unat v < 128" by (simp add: word_less_nat_alt)
    then have "ucast (ucast v :: byte) = v" "unat (ucast v :: byte) = unat v"
      by (auto intro: ucast_ucast_small unat_byte_of)
    with 1 show ?thesis
      by (auto simp: utf8_of_def append_utf8_def next_utf8_def word_less_nat_alt)
  next
    case 2
    then have "unat v < 32 * 2 ^ 6" by (simp add: word_less_nat_alt)
    then have l: "utf8_lead (ucast (0xC0 OR drop_bit 6 v)) = Some (1, drop_bit 6 v, 0x80)"
      by (intro utf8_lead_enc unat_shr_less)
    let ?seq = "[ucast (0x80 OR (v AND 0x3F))] :: bytes"
    have "next_utf8 (ucast (0xC0 OR drop_bit 6 v)) (?seq @ rest) = (v, rest)" for rest
      by (intro next_utf8_seq) (use l utf8_continue_seq(1) [of v] 2 assms in \<open>simp_all del: utf8_continue.simps\<close>)
    moreover from 2 have "utf8_of v = ucast (0xC0 OR drop_bit 6 v) # ?seq"
      by (simp add: utf8_of_def append_utf8_def not_less)
    ultimately show ?thesis by blast
  next
    case 3
    then have "unat v < 16 * 2 ^ 12" by (simp add: word_less_nat_alt)
    then have l: "utf8_lead (ucast (0xE0 OR drop_bit 12 v)) = Some (2, drop_bit 12 v, 0x800)"
      by (intro utf8_lead_enc unat_shr_less)
    let ?seq = "[ucast (0x80 OR (drop_bit 6 v AND 0x3F)), ucast (0x80 OR (v AND 0x3F))] :: bytes"
    have "next_utf8 (ucast (0xE0 OR drop_bit 12 v)) (?seq @ rest) = (v, rest)" for rest
      by (intro next_utf8_seq) (use l utf8_continue_seq(2) [of v] 3 assms in \<open>simp_all add: numeral_2_eq_2 del: utf8_continue.simps\<close>)
    moreover from 3 have "utf8_of v = ucast (0xE0 OR drop_bit 12 v) # ?seq"
      by (auto simp: utf8_of_def append_utf8_def word_less_nat_alt word_le_nat_alt)
    ultimately show ?thesis by blast
  next
    case 4
    have "unat v < 8 * 2 ^ 18" using assms by (simp add: scalar_value_def word_le_nat_alt)
    then have l: "utf8_lead (ucast (0xF0 OR drop_bit 18 v)) = Some (3, drop_bit 18 v, 0x10000)"
      by (intro utf8_lead_enc unat_shr_less)
    let ?seq = "[ucast (0x80 OR (drop_bit 12 v AND 0x3F)), ucast (0x80 OR (drop_bit 6 v AND 0x3F)),
      ucast (0x80 OR (v AND 0x3F))] :: bytes"
    have "next_utf8 (ucast (0xF0 OR drop_bit 18 v)) (?seq @ rest) = (v, rest)" for rest
      by (intro next_utf8_seq) (use l utf8_continue_seq(3) [of v] 4 assms in \<open>simp_all add: numeral_3_eq_3 del: utf8_continue.simps\<close>)
    moreover from 4 have "utf8_of v = ucast (0xF0 OR drop_bit 18 v) # ?seq"
      by (auto simp: utf8_of_def append_utf8_def word_less_nat_alt word_le_nat_alt)
    ultimately show ?thesis by blast
  qed
qed

lemma utf8_loop_step:
  assumes "scalar_value v"
  shows "utf8_loop out (utf8_of v @ rest) = utf8_loop (out @ utf16_of v) rest"
  using next_utf8_of [OF assms] by (auto simp: utf16_of_def append_utf16le_def Let_def)

lemma utf8_loop_scalars:
  "\<forall>v \<in> set cps. scalar_value v \<Longrightarrow>
   utf8_loop out (concat (map utf8_of cps)) = out @ concat (map utf16_of cps)"
  by (induction cps arbitrary: out) (simp_all add: utf8_loop_step)

lemma unit_of_enc: "unat u < 65536 \<Longrightarrow> unit_of (ucast u) (ucast (drop_bit 8 u)) = u"
proof -
  assume u: "unat u < 65536"
  then have "unat (drop_bit 8 u) < 256" using unat_shr_less [of u 256 8] by simp
  then have "ucast (ucast (drop_bit 8 u) :: byte) = drop_bit 8 u" by (intro ucast_ucast_small) simp
  moreover have "ucast (ucast u :: byte) = take_bit 8 u"
    by (rule bit_eqI) (auto simp: bit_simps dest: bit_imp_le_length)
  ultimately show ?thesis using push_drop_or [of 8 u] by (simp add: unit_of_def or.commute)
qed

lemma surrogates:
  fixes v :: u32
  assumes "0x10000 \<le> v" "v \<le> 0x10FFFF"
  defines "w \<equiv> v - 0x10000"
  shows "unat (drop_bit 10 w) < 1024" "unat (w AND 0x3FF) < 1024"
    "0x10000 + push_bit 10 (drop_bit 10 w) + (w AND 0x3FF) = v"
proof -
  have "unat w < 1024 * 2 ^ 10" using assms by (simp add: w_def word_le_nat_alt unat_sub_if')
  then show "unat (drop_bit 10 w) < 1024" by (rule unat_shr_less)
  have m: "w AND 0x3FF = take_bit 10 w" by (simp add: take_bit_eq_mask mask_eq_exp_minus_1)
  then show "unat (w AND 0x3FF) < 1024" using unat_and_mask [of w 10] by (simp add: mask_eq_exp_minus_1)
  show "0x10000 + push_bit 10 (drop_bit 10 w) + (w AND 0x3FF) = v"
    using bits_ident [of 10 w] unfolding m add.assoc by (simp add: w_def)
qed

lemma unat_0xD800_add: "unat x < 1024 \<Longrightarrow> unat (0xD800 + x) = 0xD800 + unat x" "unat x < 1024 \<Longrightarrow> unat (0xDC00 + x) = 0xDC00 + unat x"
  for x :: u32
  by (subst unat_plus_if', simp)+

lemma utf16le_step:
  assumes "scalar_value v" "v \<noteq> 0"
  shows "utf16le_loop out (utf16_of v @ rest) = utf16le_loop (out @ utf8_of v) rest"
proof (cases "v \<ge> 0x10000")
  case True
  define w where "w = v - 0x10000"
  let ?h = "0xD800 + drop_bit 10 w" and ?l = "0xDC00 + (w AND 0x3FF)"
  have s: "unat (drop_bit 10 w) < 1024" "unat (w AND 0x3FF) < 1024"
    "0x10000 + push_bit 10 (drop_bit 10 w) + (w AND 0x3FF) = v"
    using surrogates [OF True] assms by (simp_all add: w_def scalar_value_def)
  have h: "unat ?h = 0xD800 + unat (drop_bit 10 w)" and l: "unat ?l = 0xDC00 + unat (w AND 0x3FF)"
    using s by (simp_all add: unat_0xD800_add)
  have "is_high_surrogate ?h" "is_low_surrogate ?l" "?h \<noteq> 0"
    using h l s by (simp_all add: is_high_surrogate_def is_low_surrogate_def word_le_nat_alt word_unat_eq_iff)
  moreover have "unit_of (ucast ?h) (ucast (drop_bit 8 ?h)) = ?h" "unit_of (ucast ?l) (ucast (drop_bit 8 ?l)) = ?l"
    using h l s by (intro unit_of_enc; simp)+
  moreover have "utf16_of v = [ucast ?h, ucast (drop_bit 8 ?h), ucast ?l, ucast (drop_bit 8 ?l)]"
    using True by (simp add: utf16_of_def append_utf16le_def w_def)
  ultimately show ?thesis using s(3) by (simp add: Let_def append_utf8_of add.assoc)
next
  case False
  then have "unat v < 65536" by (simp add: word_le_nat_alt)
  with False assms show ?thesis
    by (auto simp: utf16_of_def append_utf16le_def Let_def unit_of_enc append_utf8_of scalar_value_def)
qed

lemma utf16le_loop_scalars:
  "\<forall>v \<in> set cps. scalar_value v \<and> v \<noteq> 0 \<Longrightarrow>
   utf16le_loop out (concat (map utf16_of cps)) = out @ concat (map utf8_of cps)"
  by (induction cps arbitrary: out) (simp_all add: utf16le_step)

text \<open>Text without U+0000, and what becomes of it in a field that is ended or padded with zeros.\<close>

definition plain_text :: "bytes \<Rightarrow> bool" where
  "plain_text t \<longleftrightarrow> (\<exists>cps. (\<forall>v \<in> set cps. scalar_value v \<and> v \<noteq> 0) \<and> t = concat (map utf8_of cps))"

lemma plain_text_Nil [simp]: "plain_text []"
  unfolding plain_text_def by (intro exI [of _ "[]"]) simp

lemma plain_text_of: "\<forall>v \<in> set cps. scalar_value v \<and> v \<noteq> 0 \<Longrightarrow> plain_text (concat (map utf8_of cps))"
  unfolding plain_text_def by blast

lemma utf16le_loop_stops:
  "\<forall>v \<in> set cps. scalar_value v \<and> v \<noteq> 0 \<Longrightarrow>
   utf16le_loop out (concat (map utf16_of cps) @ 0 # 0 # rest) = out @ concat (map utf8_of cps)"
  by (induction cps arbitrary: out) (simp_all add: utf16le_step unit_of_def)

lemma plain_text_padded: "plain_text t \<Longrightarrow> utf16le_to_utf8 (utf8_to_utf16le t @ 0 # 0 # rest) = t"
  by (auto simp: plain_text_def utf8_to_utf16le_def utf16le_to_utf8_def utf8_loop_scalars utf16le_loop_stops)

lemma plain_text_exact: "plain_text t \<Longrightarrow> utf16le_to_utf8 (utf8_to_utf16le t) = t"
  by (auto simp: plain_text_def utf8_to_utf16le_def utf16le_to_utf8_def utf8_loop_scalars utf16le_loop_scalars)

section \<open>Any input gives well-formed text\<close>

lemma scalar_replacement [simp]: "scalar_value replacement"
  by (simp add: scalar_value_def replacement_def is_high_surrogate_def is_low_surrogate_def)

lemma next_utf8_scalar: "scalar_value (fst (next_utf8 lead t))"
proof (cases "lead < 0x80")
  case True
  then have "unat (ucast lead :: u32) < 128" by (simp add: word_less_nat_alt unat_ucast_le)
  then show ?thesis using True
    by (simp add: next_utf8_def scalar_value_def is_high_surrogate_def is_low_surrogate_def word_le_nat_alt)
next
  case False
  then show ?thesis by (auto simp: next_utf8_def scalar_value_def [symmetric] not_less split: option.split)
qed

lemma loop_emits:
  assumes "\<And>out t. f out t = out \<or> (\<exists>v rest. P v \<and> length rest < length t \<and> f out t = f (out @ g v) rest)"
  shows "\<exists>vs. (\<forall>v \<in> set vs. P v) \<and> f out t = out @ concat (map g vs)"
proof (induction "length t" arbitrary: out t rule: less_induct)
  case less
  show ?case
  proof (cases "f out t = out")
    case True
    then have "(\<forall>v \<in> set []. P v) \<and> f out t = out @ concat (map g [])" by simp
    then show ?thesis by blast
  next
    case False
    then obtain v rest where v: "P v" "length rest < length t" "f out t = f (out @ g v) rest" using assms by blast
    with less obtain vs where "\<forall>v \<in> set vs. P v" "f (out @ g v) rest = (out @ g v) @ concat (map g vs)" by blast
    with v have "(\<forall>v \<in> set (v # vs). P v) \<and> f out t = out @ concat (map g (v # vs))" by simp
    then show ?thesis by blast
  qed
qed

lemma utf8_loop_well_formed:
  "\<exists>cps. (\<forall>v \<in> set cps. scalar_value v) \<and> utf8_loop out t = out @ concat (map utf16_of cps)"
proof (rule loop_emits [where f = utf8_loop and P = scalar_value and g = utf16_of])
  fix out t
  show "utf8_loop out t = out \<or>
    (\<exists>v rest. scalar_value v \<and> length rest < length t \<and> utf8_loop out t = utf8_loop (out @ utf16_of v) rest)"
  proof (cases t)
    case (Cons lead t')
    obtain cp rest where n: "next_utf8 lead t' = (cp, rest)" by force
    with Cons have "utf8_loop out t = utf8_loop (out @ utf16_of cp) rest"
      by (simp add: utf16_of_def append_utf16le_def Let_def)
    moreover have "scalar_value cp" "length rest < length t"
      using n next_utf8_scalar [of lead t'] next_utf8_shorter [of lead t'] Cons by simp_all
    ultimately show ?thesis by blast
  qed simp
qed

lemma unit_of_le: "unat (unit_of a b) < 65536"
proof -
  have b: "unat (ucast b :: u32) < 256" "unat (ucast a :: u32) < 256" by (simp_all add: unat_ucast_le)
  then have "unat (push_bit 8 (ucast b) OR (ucast a :: u32)) = unat (ucast b :: u32) * 2 ^ 8 + unat (ucast a :: u32)"
    by (intro unat_push_or) simp_all
  then show ?thesis using b unfolding unit_of_def or.commute [of "ucast a"] by simp
qed

lemma scalar_of_pair:
  assumes "is_high_surrogate h" "is_low_surrogate l"
  shows "scalar_value (0x10000 + push_bit 10 (h - 0xD800) + (l - 0xDC00))"
proof -
  have "unat (h - 0xD800) < 1024" "unat (l - 0xDC00) < 1024"
    using assms by (simp_all add: is_high_surrogate_def is_low_surrogate_def word_le_nat_alt unat_sub_if', linarith+)
  moreover from this have "unat (push_bit 10 (h - 0xD800)) = unat (h - 0xD800) * 1024"
    using unat_push_bit [of "h - 0xD800" 10] by simp
  ultimately have "unat (0x10000 + push_bit 10 (h - 0xD800) + (l - 0xDC00)) =
      65536 + unat (h - 0xD800) * 1024 + unat (l - 0xDC00)" (is "unat ?v = ?n")
    by (simp only: unat_plus_if') (simp add: unat_plus_if')
  then show ?thesis using \<open>unat (h - 0xD800) < 1024\<close> \<open>unat (l - 0xDC00) < 1024\<close>
    by (simp add: scalar_value_def is_high_surrogate_def is_low_surrogate_def word_le_nat_alt)
qed

lemma utf16le_loop_well_formed:
  "\<exists>cps. (\<forall>v \<in> set cps. scalar_value v) \<and> utf16le_loop out t = out @ concat (map utf8_of cps)"
proof (rule loop_emits [where f = utf16le_loop and P = scalar_value and g = utf8_of])
  fix out t
  show "utf16le_loop out t = out \<or>
    (\<exists>v rest. scalar_value v \<and> length rest < length t \<and> utf16le_loop out t = utf16le_loop (out @ utf8_of v) rest)"
  proof (cases "(out, t)" rule: utf16le_loop.cases)
    case (2 out' b)
    then have "utf16le_loop out t = utf16le_loop (out @ utf8_of replacement) []" by (simp add: append_utf8_of)
    moreover have "length [] < length t" using 2 by simp
    ultimately show ?thesis using scalar_replacement by blast
  next
    case (3 out' a b rest)
    then have t: "t = a # b # rest" by simp
    let ?u = "unit_of a b" and ?l = "unit_of (rest ! 0) (rest ! 1)"
    consider "?u = 0" | "?u \<noteq> 0" "is_high_surrogate ?u \<and> 2 \<le> length rest \<and> is_low_surrogate ?l"
      | "?u \<noteq> 0" "\<not> (is_high_surrogate ?u \<and> 2 \<le> length rest \<and> is_low_surrogate ?l)"
      "is_high_surrogate ?u \<or> is_low_surrogate ?u"
      | "?u \<noteq> 0" "\<not> is_high_surrogate ?u" "\<not> is_low_surrogate ?u" by blast
    then show ?thesis
    proof cases
      case 1
      with t show ?thesis by (simp add: Let_def)
    next
      case 2
      let ?v = "0x10000 + push_bit 10 (?u - 0xD800) + (?l - 0xDC00)"
      have "utf16le_loop out t = utf16le_loop (out @ utf8_of ?v) (drop 2 rest)"
        using 2 t by (simp add: Let_def append_utf8_of)
      moreover have "scalar_value ?v" using 2 by (intro scalar_of_pair) simp_all
      moreover have "length (drop 2 rest) < length t" using t by simp
      ultimately show ?thesis by blast
    next
      case 3
      then have "utf16le_loop out t = utf16le_loop (out @ utf8_of replacement) rest"
        using t by (auto simp: Let_def append_utf8_of)
      moreover have "length rest < length t" using t by simp
      ultimately show ?thesis using scalar_replacement by blast
    next
      case 4
      then have "utf16le_loop out t = utf16le_loop (out @ utf8_of ?u) rest"
        using t by (auto simp: Let_def append_utf8_of)
      moreover have "length rest < length t" using t by simp
      moreover have "scalar_value ?u"
        using 4 unit_of_le [of a b] by (simp add: scalar_value_def word_le_nat_alt)
      ultimately show ?thesis by blast
    qed
  qed simp
qed

lemma even_utf16: "even (length (utf8_to_utf16le t))"
proof -
  obtain cps where "utf8_to_utf16le t = concat (map utf16_of cps)"
    using utf8_loop_well_formed [of "[]" t] by (auto simp: utf8_to_utf16le_def)
  moreover have "even (length (concat (map utf16_of cps)))"
    by (induction cps) (auto simp: utf16_of_def append_utf16le_def)
  ultimately show ?thesis by simp
qed

section \<open>Properties\<close>

text \<open>
  C39: Text survives the conversion in both directions: the UTF-8 of any scalar values other than U+0000
  converted to UTF-16LE is their UTF-16LE, surrogate pairs included, and converted back it is the UTF-8 it was.
\<close>

theorem text_roundtrip:
  assumes "\<forall>v \<in> set cps. scalar_value v \<and> v \<noteq> 0"
  shows "utf8_to_utf16le (concat (map utf8_of cps)) = concat (map utf16_of cps) \<and>
    utf16le_to_utf8 (concat (map utf16_of cps)) = concat (map utf8_of cps)"
  using assms by (simp add: utf8_to_utf16le_def utf16le_to_utf8_def utf8_loop_scalars utf16le_loop_scalars)

theorem text_roundtrip_witness:
  "scalar_value 0x1F600 \<and>
   utf8_to_utf16le (concat (map utf8_of [0x1F600, 0x41])) = concat (map utf16_of [0x1F600, 0x41]) \<and>
   utf16le_to_utf8 (concat (map utf16_of [0x1F600, 0x41])) = concat (map utf8_of [0x1F600, 0x41])"
proof -
  have s: "scalar_value 0x1F600" "scalar_value 0x41"
    by (simp_all add: scalar_value_def is_high_surrogate_def is_low_surrogate_def word_le_nat_alt)
  with text_roundtrip [of "[0x1F600, 0x41]"] show ?thesis by simp
qed

text \<open>
  C40: Conversion never fails and never passes malformed text on: whatever octets come in, the result is the
  encoding of some sequence of Unicode scalar values (no lone surrogate, nothing overlong or out of range).
\<close>

theorem text_well_formed:
  "(\<exists>cps. list_all scalar_value cps \<and> utf8_to_utf16le t = concat (map utf16_of cps)) \<and>
   (\<exists>cps. list_all scalar_value cps \<and> utf16le_to_utf8 t = concat (map utf8_of cps))"
  using utf8_loop_well_formed [of "[]" t] utf16le_loop_well_formed [of "[]" t]
  by (simp add: utf8_to_utf16le_def utf16le_to_utf8_def list_all_iff)

end
