(* ===== verification/Gcc.thy ===== *)
theory Gcc
  imports Per Text
begin

text \<open>
  \<open>proto/gcc.cpp\<close>: the T.124 Conference Create wrappers and the client and server data blocks. The
  signed monitor coordinates are kept as the 32-bit words they are cast from and to.
\<close>

section \<open>Model: constants and data\<close>

definition cs_core :: u16 where "cs_core = 0xC001"
definition cs_security :: u16 where "cs_security = 0xC002"
definition cs_net :: u16 where "cs_net = 0xC003"
definition cs_cluster :: u16 where "cs_cluster = 0xC004"
definition cs_monitor :: u16 where "cs_monitor = 0xC005"
definition cs_mcs_msgchannel :: u16 where "cs_mcs_msgchannel = 0xC006"
definition cs_monitor_ex :: u16 where "cs_monitor_ex = 0xC008"
definition cs_multitransport :: u16 where "cs_multitransport = 0xC00A"
definition sc_core :: u16 where "sc_core = 0x0C01"
definition sc_security :: u16 where "sc_security = 0x0C02"
definition sc_net :: u16 where "sc_net = 0x0C03"
definition sc_mcs_msgchannel :: u16 where "sc_mcs_msgchannel = 0x0C04"
definition sc_multitransport :: u16 where "sc_multitransport = 0x0C08"

definition t124_02_98_oid :: "byte list" where "t124_02_98_oid = [0, 0, 20, 124, 0, 1]"
definition choice_object_key :: byte where "choice_object_key = 0x00"
definition choice_conference_create_request :: byte where "choice_conference_create_request = 0x00"
definition choice_conference_create_response :: byte where "choice_conference_create_response = 0x14"
definition selection_user_data_present :: byte where "selection_user_data_present = 0x08"
definition choice_h221_non_standard_value :: byte where "choice_h221_non_standard_value = 0xC0"
definition h221_client_key :: bytes where "h221_client_key = map of_char ''Duca''"
definition h221_server_key :: bytes where "h221_server_key = map of_char ''McDn''"
definition h221_key_size :: nat where "h221_key_size = 4"
definition response_node_id :: u16 where "response_node_id = 0x79F3"
definition node_id_min :: u16 where "node_id_min = 1001"
definition gcc_result_alternatives :: byte where "gcc_result_alternatives = 16"
definition block_header_size :: nat where "block_header_size = 4"
definition client_name_size :: nat where "client_name_size = 32"
definition core_ime_file_name_size :: nat where "core_ime_file_name_size = 64"
definition dig_product_id_size :: nat where "dig_product_id_size = 64"
definition channel_name_size :: nat where "channel_name_size = 8"
definition monitor_attribute_size :: u32 where "monitor_attribute_size = 20"
definition max_static_channels :: nat where "max_static_channels = 31"
definition max_monitors :: nat where "max_monitors = 16"

record client_core_data =
  core_version :: u32
  core_desktop_width :: u16
  core_desktop_height :: u16
  color_depth :: u16
  sas_sequence :: u16
  core_keyboard_layout :: u32
  client_build :: u32
  client_name :: bytes
  core_keyboard_type :: u32
  core_keyboard_subtype :: u32
  core_keyboard_function_keys :: u32
  core_ime_file_name :: bytes
  post_beta2_color_depth :: "u16 option"
  client_product_id :: "u16 option"
  serial_number :: "u32 option"
  high_color_depth :: "u16 option"
  supported_color_depths :: "u16 option"
  early_capability_flags :: "u16 option"
  client_dig_product_id :: "bytes option"
  connection_type :: "byte option"
  server_selected_protocol :: "u32 option"
  desktop_physical_width :: "u32 option"
  desktop_physical_height :: "u32 option"
  desktop_orientation :: "u16 option"
  desktop_scale_factor :: "u32 option"
  device_scale_factor :: "u32 option"

definition has_early_flag :: "client_core_data \<Rightarrow> u16 \<Rightarrow> bool" where
  "has_early_flag core flag = (case early_capability_flags core of None \<Rightarrow> False | Some flags \<Rightarrow> flags AND flag \<noteq> 0)"

record client_security_data =
  encryption_methods :: u32
  ext_encryption_methods :: u32

record channel_def =
  cd_name :: bytes
  cd_options :: u32

record client_network_data =
  net_channels :: "channel_def list"

record client_cluster_data =
  cluster_flags :: u32
  redirected_session_id :: u32

record monitor_def =
  mon_left :: u32
  mon_top :: u32
  mon_right :: u32
  mon_bottom :: u32
  mon_flags :: u32

record client_monitor_data =
  monitor_flags :: u32
  monitor_defs :: "monitor_def list"

record monitor_attributes =
  ma_physical_width :: u32
  ma_physical_height :: u32
  ma_orientation :: u32
  ma_desktop_scale_factor :: u32
  ma_device_scale_factor :: u32

record client_monitor_extended_data =
  monitor_ex_flags :: u32
  monitor_ex_attributes :: "monitor_attributes list"

record client_data =
  cl_core :: client_core_data
  cl_security :: "client_security_data option"
  cl_network :: "client_network_data option"
  cl_cluster :: "client_cluster_data option"
  cl_monitor :: "client_monitor_data option"
  cl_message_channel :: "u32 option"
  cl_monitor_ex :: "client_monitor_extended_data option"
  cl_multitransport :: "u32 option"

record server_core_data =
  sc_version :: u32
  client_requested_protocols :: "u32 option"
  sc_early_capability_flags :: "u32 option"

record server_security_data =
  encryption_method :: u32
  encryption_level :: u32

record server_network_data =
  io_channel_id :: u16
  channel_ids :: "u16 list"

record server_data =
  sv_core :: server_core_data
  sv_security :: server_security_data
  sv_network :: server_network_data
  sv_message_channel_id :: "u16 option"
  sv_multitransport_flags :: "u32 option"

section \<open>Model: Conference Create\<close>

definition expect_key :: "bytes \<Rightarrow> unit parser" where
  "expect_key key = pget rd_offset (\<lambda>start. ptry (per_read_octet_string h221_key_size) (\<lambda>v.
     if v \<noteq> key then pfail InvalidValue ''unexpected H.221 non-standard key'' start else pret ()))"

definition decode_conference_create_request :: "bytes parser" where
  "decode_conference_create_request = pget rd_offset (\<lambda>start. ptry per_read_choice (\<lambda>key_choice.
     ptry per_read_object_identifier (\<lambda>oid.
     if key_choice \<noteq> choice_object_key \<or> oid \<noteq> t124_02_98_oid
     then pfail InvalidValue ''GCC ConnectData key is not the T.124 object identifier'' start
     else ptry per_read_length (\<lambda>_. pget rd_offset (\<lambda>pdu_start. ptry per_read_choice (\<lambda>choice.
       ptry per_read_selection (\<lambda>selection.
       if choice \<noteq> choice_conference_create_request \<or> selection AND selection_user_data_present = 0
       then pfail InvalidValue ''not a Conference Create Request with user data'' pdu_start
       else ptry (per_read_numeric_string 1) (\<lambda>_. ptry (per_read_padding 1) (\<lambda>_. pget rd_offset (\<lambda>sets_offset.
         ptry per_read_number_of_sets (\<lambda>sets. ptry per_read_choice (\<lambda>value_choice.
         if sets < 1 \<or> value_choice \<noteq> choice_h221_non_standard_value
         then pfail InvalidValue ''Conference Create Request user data is not H.221 non-standard'' sets_offset
         else ptry (expect_key h221_client_key) (\<lambda>_. ptry per_read_length (\<lambda>data_length.
           rd_bytes data_length))))))))))))))"

definition encode_conference_create_request :: "bytes \<Rightarrow> writer \<Rightarrow> writer option" where
  "encode_conference_create_request client_data w = do {
     let pdu = per_write_selection selection_user_data_present (per_write_choice choice_conference_create_request []);
     pdu \<leftarrow> per_write_numeric_string 1 ''1'' pdu;
     let pdu = per_write_choice choice_h221_non_standard_value (per_write_number_of_sets 1 (per_write_padding 1 pdu));
     pdu \<leftarrow> per_write_octet_string h221_key_size h221_client_key pdu;
     pdu \<leftarrow> per_write_length (length client_data) pdu;
     let pdu = w_bytes client_data pdu;
     w \<leftarrow> per_write_object_identifier t124_02_98_oid (per_write_choice choice_object_key w);
     w \<leftarrow> per_write_length (length pdu) w;
     Some (w_bytes pdu w)
   }"

definition decode_conference_create_response :: "bytes parser" where
  "decode_conference_create_response = pget rd_offset (\<lambda>start. ptry per_read_choice (\<lambda>key_choice.
     ptry per_read_object_identifier (\<lambda>oid.
     if key_choice \<noteq> choice_object_key \<or> oid \<noteq> t124_02_98_oid
     then pfail InvalidValue ''GCC ConnectData key is not the T.124 object identifier'' start
     else ptry per_read_length (\<lambda>_. pget rd_offset (\<lambda>pdu_start. ptry per_read_choice (\<lambda>choice.
       if choice \<noteq> choice_conference_create_response
       then pfail InvalidValue ''not a Conference Create Response'' pdu_start
       else ptry (per_read_integer16 node_id_min) (\<lambda>_. ptry per_read_integer (\<lambda>_. pget rd_offset (\<lambda>result_offset.
         ptry (per_read_enumerated gcc_result_alternatives) (\<lambda>result.
         if result \<noteq> 0 then pfail InvalidValue ''Conference Create Response reports failure'' result_offset
         else ptry per_read_number_of_sets (\<lambda>sets. ptry per_read_choice (\<lambda>value_choice.
           if sets < 1 \<or> value_choice \<noteq> choice_h221_non_standard_value
           then pfail InvalidValue ''Conference Create Response user data is not H.221 non-standard'' result_offset
           else ptry (expect_key h221_server_key) (\<lambda>_. ptry per_read_length (\<lambda>data_length.
             rd_bytes data_length))))))))))))))"

definition encode_conference_create_response :: "bytes \<Rightarrow> writer \<Rightarrow> writer option" where
  "encode_conference_create_response server_data w = do {
     pdu \<leftarrow> per_write_integer16 node_id_min response_node_id (per_write_choice choice_conference_create_response []);
     pdu \<leftarrow> per_write_integer 1 pdu;
     let pdu = per_write_choice choice_h221_non_standard_value (per_write_number_of_sets 1 (per_write_enumerated 0 pdu));
     pdu \<leftarrow> per_write_octet_string h221_key_size h221_server_key pdu;
     pdu \<leftarrow> per_write_length (length server_data) pdu;
     let pdu = w_bytes server_data pdu;
     w \<leftarrow> per_write_object_identifier t124_02_98_oid (per_write_choice choice_object_key w);
     w \<leftarrow> per_write_length (length pdu) w;
     Some (w_bytes pdu w)
   }"

section \<open>Model: client core data\<close>

definition core_write_fixed_utf16 :: "bytes \<Rightarrow> nat \<Rightarrow> writer \<Rightarrow> writer" where
  "core_write_fixed_utf16 s sz w =
     (let encoded = utf8_to_utf16le s;
          encoded = (if length encoded > sz - 2 then take (sz - 2) encoded else encoded)
      in w_zeros (sz - length encoded) (w_bytes encoded w))"

definition ascii_name :: "bytes \<Rightarrow> bytes" where
  "ascii_name field = takeWhile (\<lambda>c. c \<noteq> 0) field"

text \<open>
  \<open>if (more) FARLAND_TRY(more, read_optional(r, field, read))\<close> on the pair of \<open>more\<close> and the block;
  the field is named by its update function.
\<close>

definition read_optional ::
    "(('a option \<Rightarrow> 'a option) \<Rightarrow> client_core_data \<Rightarrow> client_core_data) \<Rightarrow> 'a parser \<Rightarrow>
      bool \<times> client_core_data \<Rightarrow> (bool \<times> client_core_data) parser" where
  "read_optional field_update rd st = (case st of (go, c) \<Rightarrow>
     if \<not> go then pret (False, c)
     else pget rd_empty (\<lambda>e. if e then pret (False, c) else ptry rd (\<lambda>v. pret (True, field_update (\<lambda>_. Some v) c))))"

definition skip_pad1octet :: "bool \<times> client_core_data \<Rightarrow> (bool \<times> client_core_data) parser" where
  "skip_pad1octet st = pget rd_empty (\<lambda>e. if fst st \<and> \<not> e then ptry (rd_skip 1) (\<lambda>_. pret st) else pret st)"

definition read_dig_product_id :: "bytes parser" where
  "read_dig_product_id = ptry (rd_bytes dig_product_id_size) (\<lambda>v. pret (utf16le_to_utf8 v))"

definition decode_core_optional :: "bool \<times> client_core_data \<Rightarrow> client_core_data parser" where
  "decode_core_optional st =
     ptry (read_optional post_beta2_color_depth_update rd_u16le st) (\<lambda>st.
     ptry (read_optional client_product_id_update rd_u16le st) (\<lambda>st.
     ptry (read_optional serial_number_update rd_u32le st) (\<lambda>st.
     ptry (read_optional high_color_depth_update rd_u16le st) (\<lambda>st.
     ptry (read_optional supported_color_depths_update rd_u16le st) (\<lambda>st.
     ptry (read_optional early_capability_flags_update rd_u16le st) (\<lambda>st.
     ptry (read_optional client_dig_product_id_update read_dig_product_id st) (\<lambda>st.
     ptry (read_optional connection_type_update rd_u8 st) (\<lambda>st.
     ptry (skip_pad1octet st) (\<lambda>st.
     ptry (read_optional server_selected_protocol_update rd_u32le st) (\<lambda>st.
     ptry (read_optional desktop_physical_width_update rd_u32le st) (\<lambda>st.
     ptry (read_optional desktop_physical_height_update rd_u32le st) (\<lambda>st.
     ptry (read_optional desktop_orientation_update rd_u16le st) (\<lambda>st.
     ptry (read_optional desktop_scale_factor_update rd_u32le st) (\<lambda>st.
     ptry (read_optional device_scale_factor_update rd_u32le st) (\<lambda>st.
     pret (snd st))))))))))))))))"

definition decode_core :: "client_core_data parser" where
  "decode_core = ptry rd_u32le (\<lambda>version. ptry rd_u16le (\<lambda>width. ptry rd_u16le (\<lambda>height. ptry rd_u16le (\<lambda>depth.
     ptry rd_u16le (\<lambda>sas. ptry rd_u32le (\<lambda>layout. ptry rd_u32le (\<lambda>build. ptry (rd_bytes client_name_size) (\<lambda>name.
     ptry rd_u32le (\<lambda>ktype. ptry rd_u32le (\<lambda>subtype. ptry rd_u32le (\<lambda>keys. ptry (rd_bytes core_ime_file_name_size) (\<lambda>ime.
     decode_core_optional (True, \<lparr>core_version = version, core_desktop_width = width, core_desktop_height = height,
       color_depth = depth, sas_sequence = sas, core_keyboard_layout = layout, client_build = build,
       client_name = utf16le_to_utf8 name, core_keyboard_type = ktype, core_keyboard_subtype = subtype,
       core_keyboard_function_keys = keys, core_ime_file_name = utf16le_to_utf8 ime, post_beta2_color_depth = None,
       client_product_id = None, serial_number = None, high_color_depth = None, supported_color_depths = None,
       early_capability_flags = None, client_dig_product_id = None, connection_type = None,
       server_selected_protocol = None, desktop_physical_width = None, desktop_physical_height = None,
       desktop_orientation = None, desktop_scale_factor = None, device_scale_factor = None\<rparr>)))))))))))))"

text \<open>The lambdas \<open>opt16\<close> and \<open>opt32\<close>, on the pair of \<open>stop\<close> and the buffer.\<close>

definition write_optional :: "('a \<Rightarrow> writer \<Rightarrow> writer) \<Rightarrow> 'a option \<Rightarrow> bool \<times> writer \<Rightarrow> bool \<times> writer" where
  "write_optional wr v st = (case st of (stop, w) \<Rightarrow>
     (if stop then (True, w) else (case v of None \<Rightarrow> (True, w) | Some x \<Rightarrow> (False, wr x w))))"

definition encode_core :: "client_core_data \<Rightarrow> writer \<Rightarrow> writer" where
  "encode_core c w =
     (let w = w_u32le (core_version c) w; w = w_u16le (core_desktop_width c) w; w = w_u16le (core_desktop_height c) w;
          w = w_u16le (color_depth c) w; w = w_u16le (sas_sequence c) w; w = w_u32le (core_keyboard_layout c) w;
          w = w_u32le (client_build c) w; w = core_write_fixed_utf16 (client_name c) client_name_size w;
          w = w_u32le (core_keyboard_type c) w; w = w_u32le (core_keyboard_subtype c) w;
          w = w_u32le (core_keyboard_function_keys c) w;
          w = core_write_fixed_utf16 (core_ime_file_name c) core_ime_file_name_size w;
          st = write_optional w_u16le (post_beta2_color_depth c) (False, w);
          st = write_optional w_u16le (client_product_id c) st;
          st = write_optional w_u32le (serial_number c) st;
          st = write_optional w_u16le (high_color_depth c) st;
          st = write_optional w_u16le (supported_color_depths c) st;
          st = write_optional w_u16le (early_capability_flags c) st;
          st = write_optional (\<lambda>v. core_write_fixed_utf16 v dig_product_id_size) (client_dig_product_id c) st;
          st = write_optional (\<lambda>v w. w_u8 0 (w_u8 v w)) (connection_type c) st;
          st = write_optional w_u32le (server_selected_protocol c) st;
          st = write_optional w_u32le (desktop_physical_width c) st;
          st = write_optional w_u32le (desktop_physical_height c) st;
          st = write_optional w_u16le (desktop_orientation c) st;
          st = write_optional w_u32le (desktop_scale_factor c) st;
          st = write_optional w_u32le (device_scale_factor c) st
      in snd st)"

section \<open>Model: the other blocks\<close>

definition read_channel_def :: "channel_def parser" where
  "read_channel_def = ptry (rd_bytes channel_name_size) (\<lambda>name. ptry rd_u32le (\<lambda>options.
     pret \<lparr>cd_name = ascii_name name, cd_options = options\<rparr>))"

definition decode_network :: "client_network_data parser" where
  "decode_network = pget rd_offset (\<lambda>start. ptry rd_u32le (\<lambda>count.
     if unat count > max_static_channels then pfail LimitExceeded ''more than 31 static virtual channels'' start
     else ptry (pcount (unat count) read_channel_def) (\<lambda>channels. pret \<lparr>net_channels = channels\<rparr>)))"

definition read_monitor_def :: "monitor_def parser" where
  "read_monitor_def = ptry rd_u32le (\<lambda>left. ptry rd_u32le (\<lambda>top. ptry rd_u32le (\<lambda>right. ptry rd_u32le (\<lambda>bottom.
     ptry rd_u32le (\<lambda>flags.
     pret \<lparr>mon_left = left, mon_top = top, mon_right = right, mon_bottom = bottom, mon_flags = flags\<rparr>)))))"

definition decode_monitor :: "client_monitor_data parser" where
  "decode_monitor = ptry rd_u32le (\<lambda>flags. pget rd_offset (\<lambda>count_offset. ptry rd_u32le (\<lambda>count.
     if unat count > max_monitors then pfail LimitExceeded ''more than 16 monitors'' count_offset
     else ptry (pcount (unat count) read_monitor_def) (\<lambda>monitors.
       pret \<lparr>monitor_flags = flags, monitor_defs = monitors\<rparr>))))"

definition read_monitor_attributes :: "monitor_attributes parser" where
  "read_monitor_attributes = ptry rd_u32le (\<lambda>width. ptry rd_u32le (\<lambda>height. ptry rd_u32le (\<lambda>orientation.
     ptry rd_u32le (\<lambda>desktop. ptry rd_u32le (\<lambda>device.
     pret \<lparr>ma_physical_width = width, ma_physical_height = height, ma_orientation = orientation,
       ma_desktop_scale_factor = desktop, ma_device_scale_factor = device\<rparr>)))))"

definition decode_monitor_ex :: "client_monitor_extended_data parser" where
  "decode_monitor_ex = ptry rd_u32le (\<lambda>flags. pget rd_offset (\<lambda>size_offset. ptry rd_u32le (\<lambda>attribute_size.
     if attribute_size \<noteq> monitor_attribute_size then pfail InvalidValue ''monitorAttributeSize is not 20'' size_offset
     else pget rd_offset (\<lambda>count_offset. ptry rd_u32le (\<lambda>count.
       if unat count > max_monitors then pfail LimitExceeded ''more than 16 monitors'' count_offset
       else ptry (pcount (unat count) read_monitor_attributes) (\<lambda>monitors.
         pret \<lparr>monitor_ex_flags = flags, monitor_ex_attributes = monitors\<rparr>))))))"

definition decode_client_security :: "client_security_data parser" where
  "decode_client_security = ptry rd_u32le (\<lambda>methods. ptry rd_u32le (\<lambda>ext.
     pret \<lparr>encryption_methods = methods, ext_encryption_methods = ext\<rparr>))"

definition decode_cluster :: "client_cluster_data parser" where
  "decode_cluster = ptry rd_u32le (\<lambda>flags. ptry rd_u32le (\<lambda>session.
     pret \<lparr>cluster_flags = flags, redirected_session_id = session\<rparr>))"

text \<open>The value is parsed first, then refused if the slot is taken.\<close>

definition store_once ::
    "(client_data \<Rightarrow> 'a option) \<Rightarrow> (('a option \<Rightarrow> 'a option) \<Rightarrow> client_data \<Rightarrow> client_data) \<Rightarrow> 'a parser \<Rightarrow> reader \<Rightarrow> nat \<Rightarrow>
      client_data \<Rightarrow> client_data parser" where
  "store_once slot slot_update parse block off data = ptry (pwith block parse) (\<lambda>v.
     if slot data \<noteq> None then pfail InvalidValue ''duplicate GCC data block'' off
     else pret (slot_update (\<lambda>_. Some v) data))"

definition begin_block :: "u16 \<Rightarrow> writer \<Rightarrow> nat \<times> writer" where
  "begin_block type w = (length w, w_u16le 0 (w_u16le type w))"

definition end_block :: "nat \<Rightarrow> writer \<Rightarrow> writer option" where
  "end_block start w = do {
     let n = length w - start;
     wassert (n \<le> 0xFFFF);
     w_patch_u16le (start + 2) (of_nat n) w
   }"

section \<open>Model: all blocks\<close>

definition default_core :: client_core_data where
  "default_core = \<lparr>core_version = 0x00080004, core_desktop_width = 0, core_desktop_height = 0, color_depth = 0xCA01,
     sas_sequence = 0xAA03, core_keyboard_layout = 0, client_build = 0, client_name = [], core_keyboard_type = 4,
     core_keyboard_subtype = 0, core_keyboard_function_keys = 12, core_ime_file_name = [], post_beta2_color_depth = None,
     client_product_id = None, serial_number = None, high_color_depth = None, supported_color_depths = None,
     early_capability_flags = None, client_dig_product_id = None, connection_type = None,
     server_selected_protocol = None, desktop_physical_width = None, desktop_physical_height = None,
     desktop_orientation = None, desktop_scale_factor = None, device_scale_factor = None\<rparr>"

definition no_client_data :: client_data where
  "no_client_data = \<lparr>cl_core = default_core, cl_security = None, cl_network = None, cl_cluster = None, cl_monitor = None,
     cl_message_channel = None, cl_monitor_ex = None, cl_multitransport = None\<rparr>"

text \<open>The header of a block and the reader over its body.\<close>

definition read_block :: "(nat \<Rightarrow> u16 \<Rightarrow> reader \<Rightarrow> 'a parser) \<Rightarrow> 'a parser" where
  "read_block k = pget rd_offset (\<lambda>start. ptry rd_u16le (\<lambda>type. ptry rd_u16le (\<lambda>n.
     if unat n < block_header_size then pfail InvalidLength ''GCC data block shorter than its header'' start
     else ptry (rd_sub (unat n - block_header_size)) (\<lambda>block. k start type block))))"

text \<open>The \<open>switch\<close> of \<open>decode_client_data\<close>, on the data and the flag \<open>have_core\<close>.\<close>

definition client_block :: "client_data \<times> bool \<Rightarrow> nat \<Rightarrow> u16 \<Rightarrow> reader \<Rightarrow> (client_data \<times> bool) parser" where
  "client_block st start type block = (case st of (data, have_core) \<Rightarrow>
     let keep = (\<lambda>p. ptry p (\<lambda>d. pret (d, have_core))) in
     if type = cs_core
     then if have_core then pfail InvalidValue ''duplicate GCC data block'' start
       else ptry (pwith block decode_core) (\<lambda>core. pret (data\<lparr>cl_core := core\<rparr>, True))
     else if type = cs_security then keep (store_once cl_security cl_security_update decode_client_security block start data)
     else if type = cs_net then keep (store_once cl_network cl_network_update decode_network block start data)
     else if type = cs_cluster then keep (store_once cl_cluster cl_cluster_update decode_cluster block start data)
     else if type = cs_monitor then keep (store_once cl_monitor cl_monitor_update decode_monitor block start data)
     else if type = cs_mcs_msgchannel
     then keep (store_once cl_message_channel cl_message_channel_update rd_u32le block start data)
     else if type = cs_monitor_ex then keep (store_once cl_monitor_ex cl_monitor_ex_update decode_monitor_ex block start data)
     else if type = cs_multitransport
     then keep (store_once cl_multitransport cl_multitransport_update rd_u32le block start data)
     else pret st)"

definition decode_client_data :: "client_data parser" where
  "decode_client_data = ptry (pwhile (\<lambda>st. read_block (client_block st)) (no_client_data, False)) (\<lambda>(data, have_core).
     pget rd_offset (\<lambda>off.
     if \<not> have_core then pfail InvalidValue ''client data has no core block'' off else pret data))"

definition write_block :: "u16 \<Rightarrow> (writer \<Rightarrow> writer option) \<Rightarrow> writer \<Rightarrow> writer option" where
  "write_block type body w = do {
     let (start, w) = begin_block type w;
     w \<leftarrow> body w;
     end_block start w
   }"

definition write_block_slot :: "u16 \<Rightarrow> ('a \<Rightarrow> writer \<Rightarrow> writer option) \<Rightarrow> 'a option \<Rightarrow> writer \<Rightarrow> writer option" where
  "write_block_slot type body slot w = (case slot of None \<Rightarrow> Some w | Some x \<Rightarrow> write_block type (body x) w)"

definition encode_cluster :: "client_cluster_data \<Rightarrow> writer \<Rightarrow> writer option" where
  "encode_cluster c w = Some (w_u32le (redirected_session_id c) (w_u32le (cluster_flags c) w))"

definition encode_client_security :: "client_security_data \<Rightarrow> writer \<Rightarrow> writer option" where
  "encode_client_security s w = Some (w_u32le (ext_encryption_methods s) (w_u32le (encryption_methods s) w))"

fun encode_channels :: "channel_def list \<Rightarrow> writer \<Rightarrow> writer option" where
  "encode_channels [] w = Some w"
| "encode_channels (channel # rest) w = do {
     wassert (length (cd_name channel) < channel_name_size);
     let w = w_zeros (channel_name_size - length (cd_name channel)) (w_bytes (cd_name channel) w);
     encode_channels rest (w_u32le (cd_options channel) w)
   }"

definition encode_network :: "client_network_data \<Rightarrow> writer \<Rightarrow> writer option" where
  "encode_network n w = do {
     wassert (length (net_channels n) \<le> max_static_channels);
     encode_channels (net_channels n) (w_u32le (of_nat (length (net_channels n))) w)
   }"

definition write_monitor_def :: "monitor_def \<Rightarrow> writer \<Rightarrow> writer" where
  "write_monitor_def m w =
     w_u32le (mon_flags m) (w_u32le (mon_bottom m) (w_u32le (mon_right m) (w_u32le (mon_top m) (w_u32le (mon_left m) w))))"

definition encode_monitor :: "client_monitor_data \<Rightarrow> writer \<Rightarrow> writer option" where
  "encode_monitor m w = do {
     wassert (length (monitor_defs m) \<le> max_monitors);
     let w = w_u32le (of_nat (length (monitor_defs m))) (w_u32le (monitor_flags m) w);
     Some (fold write_monitor_def (monitor_defs m) w)
   }"

definition write_monitor_attributes :: "monitor_attributes \<Rightarrow> writer \<Rightarrow> writer" where
  "write_monitor_attributes m w = w_u32le (ma_device_scale_factor m) (w_u32le (ma_desktop_scale_factor m)
     (w_u32le (ma_orientation m) (w_u32le (ma_physical_height m) (w_u32le (ma_physical_width m) w))))"

definition encode_monitor_ex :: "client_monitor_extended_data \<Rightarrow> writer \<Rightarrow> writer option" where
  "encode_monitor_ex m w = do {
     wassert (length (monitor_ex_attributes m) \<le> max_monitors);
     let w = w_u32le (of_nat (length (monitor_ex_attributes m))) (w_u32le monitor_attribute_size (w_u32le (monitor_ex_flags m) w));
     Some (fold write_monitor_attributes (monitor_ex_attributes m) w)
   }"

definition encode_flags :: "u32 \<Rightarrow> writer \<Rightarrow> writer option" where
  "encode_flags flags w = Some (w_u32le flags w)"

definition encode_client_data :: "client_data \<Rightarrow> writer \<Rightarrow> writer option" where
  "encode_client_data data w = do {
     w \<leftarrow> write_block cs_core (\<lambda>w. Some (encode_core (cl_core data) w)) w;
     w \<leftarrow> write_block_slot cs_cluster encode_cluster (cl_cluster data) w;
     w \<leftarrow> write_block_slot cs_security encode_client_security (cl_security data) w;
     w \<leftarrow> write_block_slot cs_net encode_network (cl_network data) w;
     w \<leftarrow> write_block_slot cs_monitor encode_monitor (cl_monitor data) w;
     w \<leftarrow> write_block_slot cs_mcs_msgchannel encode_flags (cl_message_channel data) w;
     w \<leftarrow> write_block_slot cs_monitor_ex encode_monitor_ex (cl_monitor_ex data) w;
     write_block_slot cs_multitransport encode_flags (cl_multitransport data) w
   }"

definition no_server_data :: server_data where
  "no_server_data = \<lparr>sv_core = \<lparr>sc_version = 0x00080004, client_requested_protocols = None, sc_early_capability_flags = None\<rparr>,
     sv_security = \<lparr>encryption_method = 0, encryption_level = 0\<rparr>, sv_network = \<lparr>io_channel_id = 0, channel_ids = []\<rparr>,
     sv_message_channel_id = None, sv_multitransport_flags = None\<rparr>"

text \<open>A field that is read unless the block is at its end, and kept as it was otherwise.\<close>

definition read_if_more :: "'a option \<Rightarrow> 'a parser \<Rightarrow> 'a option parser" where
  "read_if_more old rd = pget rd_empty (\<lambda>e. if \<not> e then ptry rd (\<lambda>v. pret (Some v)) else pret old)"

definition decode_server_core :: "server_core_data \<Rightarrow> server_core_data parser" where
  "decode_server_core core = ptry rd_u32le (\<lambda>version.
     ptry (read_if_more (client_requested_protocols core) rd_u32le) (\<lambda>protocols.
     ptry (read_if_more (sc_early_capability_flags core) rd_u32le) (\<lambda>flags.
     pret \<lparr>sc_version = version, client_requested_protocols = protocols, sc_early_capability_flags = flags\<rparr>)))"

definition decode_server_security :: "server_security_data parser" where
  "decode_server_security = ptry rd_u32le (\<lambda>method. ptry rd_u32le (\<lambda>level.
     pret \<lparr>encryption_method = method, encryption_level = level\<rparr>))"

definition decode_server_network :: "server_network_data \<Rightarrow> server_network_data parser" where
  "decode_server_network net = ptry rd_u16le (\<lambda>io. pget rd_offset (\<lambda>count_offset. ptry rd_u16le (\<lambda>count.
     if unat count > max_static_channels
     then pfail LimitExceeded ''more than 31 static virtual channels'' count_offset
     else ptry (pcount (unat count) rd_u16le) (\<lambda>ids.
       pret \<lparr>io_channel_id = io, channel_ids = channel_ids net @ ids\<rparr>))))"

text \<open>The \<open>switch\<close> of \<open>decode_server_data\<close>, on the data and the flags for the three mandatory blocks.\<close>

definition server_block ::
    "server_data \<times> bool \<times> bool \<times> bool \<Rightarrow> nat \<Rightarrow> u16 \<Rightarrow> reader \<Rightarrow> (server_data \<times> bool \<times> bool \<times> bool) parser" where
  "server_block st start type block = (case st of (data, have_core, have_security, have_network) \<Rightarrow>
     if type = sc_core
     then ptry (pwith block (decode_server_core (sv_core data))) (\<lambda>c.
       pret (data\<lparr>sv_core := c\<rparr>, True, have_security, have_network))
     else if type = sc_security
     then ptry (pwith block decode_server_security) (\<lambda>s. pret (data\<lparr>sv_security := s\<rparr>, have_core, True, have_network))
     else if type = sc_net
     then ptry (pwith block (decode_server_network (sv_network data))) (\<lambda>n.
       pret (data\<lparr>sv_network := n\<rparr>, have_core, have_security, True))
     else if type = sc_mcs_msgchannel
     then ptry (pwith block rd_u16le) (\<lambda>v. pret (data\<lparr>sv_message_channel_id := Some v\<rparr>, have_core, have_security, have_network))
     else if type = sc_multitransport
     then ptry (pwith block rd_u32le) (\<lambda>v. pret (data\<lparr>sv_multitransport_flags := Some v\<rparr>, have_core, have_security, have_network))
     else pret st)"

definition decode_server_data :: "server_data parser" where
  "decode_server_data = ptry (pwhile (\<lambda>st. read_block (server_block st)) (no_server_data, False, False, False))
     (\<lambda>(data, have_core, have_security, have_network). pget rd_offset (\<lambda>off.
     if \<not> have_core \<or> \<not> have_security \<or> \<not> have_network
     then pfail InvalidValue ''server data lacks a core, security or network block'' off
     else pret data))"

definition write_u32_opt :: "u32 option \<Rightarrow> writer \<Rightarrow> writer" where
  "write_u32_opt v w = (case v of None \<Rightarrow> w | Some x \<Rightarrow> w_u32le x w)"

definition encode_server_core :: "server_core_data \<Rightarrow> writer \<Rightarrow> writer option" where
  "encode_server_core c w = do {
     let w = w_u32le (sc_version c) w;
     wassert (client_requested_protocols c \<noteq> None \<or> sc_early_capability_flags c = None);
     Some (write_u32_opt (sc_early_capability_flags c) (write_u32_opt (client_requested_protocols c) w))
   }"

definition encode_server_security :: "server_security_data \<Rightarrow> writer \<Rightarrow> writer option" where
  "encode_server_security s w = Some (w_u32le (encryption_level s) (w_u32le (encryption_method s) w))"

definition encode_server_network :: "server_network_data \<Rightarrow> writer \<Rightarrow> writer option" where
  "encode_server_network n w = do {
     wassert (length (channel_ids n) \<le> max_static_channels);
     let w = w_u16le (of_nat (length (channel_ids n))) (w_u16le (io_channel_id n) w);
     let w = fold w_u16le (channel_ids n) w;
     Some (if length (channel_ids n) mod 2 \<noteq> 0 then w_u16le 0 w else w)
   }"

definition encode_server_data :: "server_data \<Rightarrow> writer \<Rightarrow> writer option" where
  "encode_server_data data w = do {
     w \<leftarrow> write_block sc_core (encode_server_core (sv_core data)) w;
     w \<leftarrow> write_block sc_security (encode_server_security (sv_security data)) w;
     w \<leftarrow> write_block sc_net (encode_server_network (sv_network data)) w;
     w \<leftarrow> write_block_slot sc_mcs_msgchannel (\<lambda>v w. Some (w_u16le v w)) (sv_message_channel_id data) w;
     write_block_slot sc_multitransport encode_flags (sv_multitransport_flags data) w
   }"

section \<open>Staying inside the input\<close>

lemma per_byte_safe [safe_intros]:
  "rd_safe per_read_choice" "rd_safe per_read_selection" "rd_safe per_read_number_of_sets" "rd_safe (per_read_padding n)"
  unfolding per_read_choice_def per_read_selection_def per_read_number_of_sets_def per_read_padding_def
  by (intro safe_intros)+

lemma gcc_safe_conference [safe_intros]:
  "rd_safe (expect_key key)" "rd_safe decode_conference_create_request" "rd_safe decode_conference_create_response"
  unfolding expect_key_def decode_conference_create_request_def decode_conference_create_response_def
  by (intro safe_intros)+

lemma safe_client_block [safe_intros]: "rd_safe (client_block st start type block)"
  unfolding client_block_def store_once_def Let_def by (intro safe_intros)

lemma safe_server_block [safe_intros]: "rd_safe (server_block st start type block)"
  unfolding server_block_def by (intro safe_intros)

lemma consumes_block:
  assumes "\<And>start type block. rd_safe (k start type block)"
  shows "rd_consumes (read_block k)"
  unfolding read_block_def by (intro consumes_pget consumes_ptry consumes_ints safe_intros assms)

lemma safe_block [safe_intros]: "(\<And>start type block. rd_safe (k start type block)) \<Longrightarrow> rd_safe (read_block k)"
  using consumes_block by (auto simp: rd_consumes_def)

lemma gcc_safe [safe_intros]: "rd_safe decode_client_data" "rd_safe decode_server_data"
  unfolding decode_client_data_def decode_server_data_def by (intro safe_intros)+

section \<open>Conference Create survives the wire\<close>

definition conference_enc :: "bytes \<Rightarrow> bytes" where
  "conference_enc pdu = [0, 5, 0, 20, 124, 0, 1] @ per_length_enc (length pdu) @ pdu"

definition request_head :: bytes where "request_head = [0, 8, 0, 16, 0, 1, 0xC0, 0, 68, 117, 99, 97]"
definition response_head :: bytes where "response_head = [20, 0x76, 0x0A, 1, 1, 0, 1, 0xC0, 0, 77, 99, 68, 110]"

definition user_data_enc :: "bytes \<Rightarrow> bytes \<Rightarrow> bytes" where
  "user_data_enc head data = conference_enc (head @ per_length_enc (length data) @ data)"

definition user_data_ok :: "bytes \<Rightarrow> bool" where
  "user_data_ok data \<longleftrightarrow> length data + 15 \<le> per_max_length"

lemma length_per_length_enc: "0 < length (per_length_enc n)" "length (per_length_enc n) \<le> 2"
  by (simp_all add: per_length_enc_def)

lemmas gcc_choices = choice_object_key_def choice_conference_create_request_def choice_conference_create_response_def
  selection_user_data_present_def choice_h221_non_standard_value_def

lemmas gcc_consts = gcc_choices h221_client_key_def h221_server_key_def h221_key_size_def response_node_id_def
  node_id_min_def gcc_result_alternatives_def

lemmas per_writes = per_write_choice_def per_write_selection_def per_write_number_of_sets_def per_write_padding_def
  per_write_enumerated_def

lemma write_oid: "per_write_object_identifier t124_02_98_oid w = Some (w @ [5, 0, 20, 124, 0, 1])"
  by (simp add: per_write_object_identifier_def t124_02_98_oid_def wassert_def per_oid_arc_limit_def wr_simps
      per_max_length_def per_length_enc_small)

lemma write_keys:
  "per_write_octet_string h221_key_size h221_client_key w = Some (w @ [0, 68, 117, 99, 97])"
  "per_write_octet_string h221_key_size h221_server_key w = Some (w @ [0, 77, 99, 68, 110])"
  by (simp_all add: per_write_octet_string_def gcc_consts wassert_def wr_simps per_max_length_def per_length_enc_small)

lemma write_conference_name: "per_write_numeric_string (Suc 0) ''1'' w = Some (w @ [0, 16])"
  by (simp add: per_write_numeric_string_def wassert_def wr_simps per_max_length_def per_length_enc_small per_nibble_def)

lemma encode_conference_enc:
  assumes "user_data_ok data"
  shows "encode_conference_create_request data w = Some (w @ user_data_enc request_head data)"
    "encode_conference_create_response data w = Some (w @ user_data_enc response_head data)"
proof -
  have n: "length data \<le> per_max_length" "length (h @ per_length_enc (length data) @ data) \<le> per_max_length"
    if "length h \<le> 13" for h :: bytes
    using assms that length_per_length_enc [of "length data"] by (simp_all add: user_data_ok_def)
  show "encode_conference_create_request data w = Some (w @ user_data_enc request_head data)"
    using n [of request_head]
    by (simp add: encode_conference_create_request_def per_writes write_conference_name write_keys write_oid wr_simps
        user_data_enc_def conference_enc_def request_head_def gcc_choices)
  have "per_write_integer16 node_id_min response_node_id v = Some (v @ [0x76, 0x0A])" for v
    by (simp add: per_write_integer16_enc gcc_consts be_bytes_2)
  then show "encode_conference_create_response data w = Some (w @ user_data_enc response_head data)"
    using n [of response_head]
    by (simp add: encode_conference_create_response_def per_writes write_keys write_oid wr_simps
        user_data_enc_def conference_enc_def response_head_def gcc_choices per_integer_enc_def)
qed

lemma read_oid:
  assumes "rd_rest r = [5, 0, 20, 124, 0, 1] @ ys"
  shows "per_read_object_identifier r = (Inr t124_02_98_oid, rd_advance 6 r)"
proof -
  have "per_read_length r = (Inr 5, rd_advance 1 r)" using assms by (simp add: per_read_length_byte [where b = 5])
  moreover have "rd_bytes 5 (rd_advance 1 r) = (Inr [0, 20, 124, 0, 1], rd_advance 6 r)"
    using assms by (subst rd_bytes_app [where bs = "[0, 20, 124, 0, 1]" and ys = ys]) simp_all
  ultimately show ?thesis
    by (simp add: per_read_object_identifier_def rd_simps t124_02_98_oid_def per_oid_arc_limit_def word_le_nat_alt)
qed

text \<open>Behind the length of the connect PDU, which is ignored.\<close>

lemma read_conference_head:
  assumes "length pdu \<le> per_max_length" "rd_wf r" "rd_rest r = conference_enc pdu @ ys"
  obtains s where "rd_wf s" "rd_rest s = pdu @ ys" "s = rd_advance (length (conference_enc pdu) - length pdu) r"
    "per_read_choice r = (Inr choice_object_key, rd_advance 1 r)"
    "per_read_object_identifier (rd_advance 1 r) = (Inr t124_02_98_oid, rd_advance 7 r)"
    "per_read_length (rd_advance 7 r) = (Inr (length pdu), s)"
proof
  let ?s = "rd_advance (length (conference_enc pdu) - length pdu) r"
  show "rd_wf ?s" "rd_rest ?s = pdu @ ys" using assms by (simp_all add: conference_enc_def eval_nat_numeral)
  show "per_read_choice r = (Inr choice_object_key, rd_advance 1 r)"
    using assms by (simp add: per_read_choice_def conference_enc_def rd_simps gcc_consts)
  show "per_read_object_identifier (rd_advance 1 r) = (Inr t124_02_98_oid, rd_advance 7 r)"
    using assms read_oid [of "rd_advance 1 r" "per_length_enc (length pdu) @ pdu @ ys"] by (simp add: conference_enc_def)
  show "per_read_length (rd_advance 7 r) = (Inr (length pdu), ?s)"
    using assms by (simp add: per_read_length_enc [where ys = "pdu @ ys"] conference_enc_def)
qed simp

lemma decode_user_data:
  assumes "length data \<le> per_max_length" "rd_rest r = per_length_enc (length data) @ data @ ys"
  shows "ptry per_read_length rd_bytes r = (Inr data, rd_advance (length (per_length_enc (length data)) + length data) r)"
  using assms by (simp add: ptry_def per_read_length_enc rd_bytes_app)

lemma expect_key_enc:
  assumes "rd_rest r = 0 # key @ ys" "length key = 4"
  shows "expect_key key r = (Inr (), rd_advance 5 r)"
proof -
  have "per_read_length r = (Inr 0, rd_advance 1 r)" using assms by (simp add: per_read_length_byte [where b = 0])
  moreover have "rd_bytes 4 (rd_advance 1 r) = (Inr key, rd_advance 5 r)"
    using assms by (subst rd_bytes_app [where bs = key and ys = ys]) simp_all
  ultimately show ?thesis by (simp add: expect_key_def per_read_octet_string_def rd_simps h221_key_size_def)
qed

lemma user_data_pdu:
  assumes "user_data_ok data" "length h \<le> 13"
  shows "length (h @ per_length_enc (length data) @ data) \<le> per_max_length" "length data \<le> per_max_length"
  using assms length_per_length_enc [of "length data"] by (simp_all add: user_data_ok_def)

lemma decode_conference_request_enc:
  assumes "user_data_ok data" "rd_wf r" "rd_rest r = user_data_enc request_head data @ ys"
  shows "decode_conference_create_request r = (Inr data, rd_advance (length (user_data_enc request_head data)) r)"
proof -
  let ?pdu = "request_head @ per_length_enc (length data) @ data"
  have n: "length ?pdu \<le> per_max_length" "length data \<le> per_max_length"
    using user_data_pdu [OF assms(1), of request_head] by (simp_all add: request_head_def)
  obtain s where s: "rd_wf s" "rd_rest s = ?pdu @ ys" "s = rd_advance (length (conference_enc ?pdu) - length ?pdu) r"
    "per_read_choice r = (Inr choice_object_key, rd_advance 1 r)"
    "per_read_object_identifier (rd_advance 1 r) = (Inr t124_02_98_oid, rd_advance 7 r)"
    "per_read_length (rd_advance 7 r) = (Inr (length ?pdu), s)"
    by (rule read_conference_head [OF n(1) assms(2)]) (use assms(3) in \<open>simp add: user_data_enc_def\<close>)
  have "rd_rest s = 0 # 8 # 0 # 16 # 0 # 1 # 0xC0 # 0 # 68 # 117 # 99 # 97 # per_length_enc (length data) @ data @ ys"
    using s(2) by (simp add: request_head_def)
  moreover from this have "expect_key h221_client_key (rd_advance 7 s) = (Inr (), rd_advance 12 s)"
    by (simp add: expect_key_enc [where ys = "per_length_enc (length data) @ data @ ys"] h221_client_key_def)
  moreover have "per_read_numeric_string 1 (rd_advance (Suc (Suc 0)) s) = (Inr [16], rd_advance 4 s)"
    using calculation by (simp add: per_read_numeric_string_def rd_simps rd_bytes_ok per_read_length_byte [where b = 0])
  moreover have "ptry per_read_length rd_bytes (rd_advance 12 s) =
      (Inr data, rd_advance (12 + (length (per_length_enc (length data)) + length data)) s)"
    using n(2) calculation by (subst decode_user_data [where ys = ys]) simp_all
  ultimately have "decode_conference_create_request r =
      (Inr data, rd_advance (12 + (length (per_length_enc (length data)) + length data)) s)"
    using s(4-) unfolding decode_conference_create_request_def
    by (simp add: rd_simps per_read_choice_def per_read_selection_def per_read_number_of_sets_def per_read_padding_def
        gcc_choices)
  then show ?thesis by (simp add: s(3) user_data_enc_def request_head_def conference_enc_def)
qed

lemma decode_conference_response_enc:
  assumes "user_data_ok data" "rd_wf r" "rd_rest r = user_data_enc response_head data @ ys"
  shows "decode_conference_create_response r = (Inr data, rd_advance (length (user_data_enc response_head data)) r)"
proof -
  let ?pdu = "response_head @ per_length_enc (length data) @ data"
  have n: "length ?pdu \<le> per_max_length" "length data \<le> per_max_length"
    using user_data_pdu [OF assms(1), of response_head] by (simp_all add: response_head_def)
  obtain s where s: "rd_wf s" "rd_rest s = ?pdu @ ys" "s = rd_advance (length (conference_enc ?pdu) - length ?pdu) r"
    "per_read_choice r = (Inr choice_object_key, rd_advance 1 r)"
    "per_read_object_identifier (rd_advance 1 r) = (Inr t124_02_98_oid, rd_advance 7 r)"
    "per_read_length (rd_advance 7 r) = (Inr (length ?pdu), s)"
    by (rule read_conference_head [OF n(1) assms(2)]) (use assms(3) in \<open>simp add: user_data_enc_def\<close>)
  have rest: "rd_rest s = 20 # 0x76 # 0x0A # 1 # 1 # 0 # 1 # 0xC0 # 0 # 77 # 99 # 68 # 110 # per_length_enc (length data) @ data @ ys"
    using s(2) by (simp add: response_head_def)
  then have "expect_key h221_server_key (rd_advance 8 s) = (Inr (), rd_advance 13 s)"
    by (simp add: expect_key_enc [where ys = "per_length_enc (length data) @ data @ ys"] h221_server_key_def)
  moreover have "per_read_integer16 node_id_min (rd_advance (Suc 0) s) = (Inr response_node_id, rd_advance 3 s)"
    using rest by (subst per_read_integer16_enc [where v = response_node_id and
        ys = "1 # 1 # 0 # 1 # 0xC0 # 0 # 77 # 99 # 68 # 110 # per_length_enc (length data) @ data @ ys"])
      (simp_all add: be_bytes_2 gcc_consts)
  moreover have "per_read_integer (rd_advance 3 s) = (Inr 1, rd_advance 5 s)"
    using rest by (subst per_read_integer_enc [where v = 1 and
        ys = "0 # 1 # 0xC0 # 0 # 77 # 99 # 68 # 110 # per_length_enc (length data) @ data @ ys"])
      (simp_all add: per_integer_enc_def)
  moreover have "per_read_enumerated gcc_result_alternatives (rd_advance 5 s) = (Inr 0, rd_advance 6 s)"
    using rest by (simp add: per_read_enumerated_Cons [where v = 0] gcc_consts)
  moreover have "ptry per_read_length rd_bytes (rd_advance 13 s) =
      (Inr data, rd_advance (13 + (length (per_length_enc (length data)) + length data)) s)"
    using n(2) rest by (subst decode_user_data [where ys = ys]) simp_all
  ultimately have "decode_conference_create_response r =
      (Inr data, rd_advance (13 + (length (per_length_enc (length data)) + length data)) s)"
    using s(4-) rest unfolding decode_conference_create_response_def
    by (simp add: rd_simps per_read_choice_def per_read_number_of_sets_def gcc_choices)
  then show ?thesis by (simp add: s(3) user_data_enc_def response_head_def conference_enc_def)
qed

interpretation conference_request: codec encode_conference_create_request decode_conference_create_request user_data_ok
  "user_data_enc request_head"
  by unfold_locales (simp_all add: encode_conference_enc decode_conference_request_enc)

interpretation conference_response: codec encode_conference_create_response decode_conference_create_response user_data_ok
  "user_data_enc response_head"
  by unfold_locales (simp_all add: encode_conference_enc decode_conference_response_enc)

section \<open>The core block survives the wire\<close>

definition text_ok :: "nat \<Rightarrow> bytes \<Rightarrow> bool" where
  "text_ok sz s \<longleftrightarrow> plain_text s \<and> length (utf8_to_utf16le s) + 2 \<le> sz"

definition text_enc :: "nat \<Rightarrow> bytes \<Rightarrow> bytes" where
  "text_enc sz s = utf8_to_utf16le s @ replicate (sz - length (utf8_to_utf16le s)) 0"

lemma text_enc_facts:
  assumes "text_ok sz s"
  shows "core_write_fixed_utf16 s sz w = w @ text_enc sz s" "length (text_enc sz s) = sz"
    "utf16le_to_utf8 (text_enc sz s) = s"
proof -
  let ?n = "length (utf8_to_utf16le s)"
  have n: "?n + 2 \<le> sz" and s: "plain_text s" using assms by (simp_all add: text_ok_def)
  then have "\<not> ?n > sz - 2" by arith
  then show "core_write_fixed_utf16 s sz w = w @ text_enc sz s"
    by (simp add: core_write_fixed_utf16_def text_enc_def wr_simps Let_def)
  show "length (text_enc sz s) = sz" using n by (simp add: text_enc_def)
  have "sz - ?n = Suc (Suc (sz - ?n - 2))" using n by arith
  then show "utf16le_to_utf8 (text_enc sz s) = s"
    using plain_text_padded [OF s] unfolding text_enc_def by (metis replicate_Suc)
qed

text \<open>
  A stage of the optional part: the stages before it have left the reader in front of \<open>bs\<close>, and the
  stages behind it will make \<open>fin\<close> of what this one leaves.
\<close>

definition finishes :: "(bool \<times> client_core_data \<Rightarrow> client_core_data parser) \<Rightarrow> bool \<Rightarrow> client_core_data \<Rightarrow> bytes \<Rightarrow>
    client_core_data \<Rightarrow> bool" where
  "finishes k go c bs fin \<longleftrightarrow> (\<forall>r. rd_wf r \<longrightarrow> rd_rest r = bs \<longrightarrow> fst (k (go, c) r) = Inr fin)"

definition opt_enc :: "('a \<Rightarrow> bytes) \<Rightarrow> 'a option \<Rightarrow> bytes" where
  "opt_enc enc v = (case v of None \<Rightarrow> [] | Some x \<Rightarrow> enc x)"

lemma finishes_optional:
  assumes enc: "\<And>x r ys. v = Some x \<Longrightarrow> rd_wf r \<Longrightarrow> rd_rest r = enc x @ ys \<Longrightarrow> rd r = (Inr x, rd_advance (length (enc x)) r)"
    "\<And>x. v = Some x \<Longrightarrow> enc x \<noteq> []"
    and chain: "\<not> go \<Longrightarrow> v = None" "v = None \<Longrightarrow> bs = []"
    and same: "upd (\<lambda>_. None) c = c"
    and rest: "finishes k (v \<noteq> None) (upd (\<lambda>_. v) c) bs fin"
  shows "finishes (\<lambda>st. ptry (read_optional upd rd st) k) go c (opt_enc enc v @ bs) fin"
  unfolding finishes_def
proof (intro allI impI)
  fix r assume r: "rd_wf r" "rd_rest r = opt_enc enc v @ bs"
  show "fst (ptry (read_optional upd rd (go, c)) k r) = Inr fin"
  proof (cases v)
    case None
    then have "rd_rest r = []" using chain(2) r by (simp add: opt_enc_def)
    moreover from this have "fst (k (False, c) r) = Inr fin" using None same rest r chain(2) by (simp add: finishes_def)
    ultimately show ?thesis using r by (simp add: read_optional_def rd_simps rd_empty_rest)
  next
    case (Some x)
    then have go: "go" using chain(1) by auto
    have r': "rd_rest r = enc x @ bs" "rd_wf (rd_advance (length (enc x)) r)" using Some r by (simp_all add: opt_enc_def)
    then have "fst (k (True, upd (\<lambda>_. Some x) c) (rd_advance (length (enc x)) r)) = Inr fin"
      using Some rest by (simp add: finishes_def)
    moreover have "rd r = (Inr x, rd_advance (length (enc x)) r)" using enc(1) Some r r' by blast
    moreover have "\<not> rd_empty r" using enc(2) [OF Some] r r' by (simp add: rd_empty_rest)
    ultimately show ?thesis using go by (simp add: read_optional_def rd_simps)
  qed
qed

definition pad_enc :: "bool \<Rightarrow> bytes" where
  "pad_enc go = (if go then [0] else [])"

lemma finishes_pad:
  assumes "\<not> go \<Longrightarrow> bs = []" "finishes k go c bs fin"
  shows "finishes (\<lambda>st. ptry (skip_pad1octet st) k) go c (pad_enc go @ bs) fin"
  using assms by (auto simp: pad_enc_def finishes_def skip_pad1octet_def rd_simps rd_empty_rest)

lemma finishes_end: "finishes (\<lambda>st. pret (snd st)) go c [] c"
  by (simp add: finishes_def rd_simps)

definition core_ok :: "client_core_data \<Rightarrow> bool" where
  "core_ok c \<longleftrightarrow> text_ok client_name_size (client_name c) \<and> text_ok core_ime_file_name_size (core_ime_file_name c) \<and>
     pred_option (text_ok dig_product_id_size) (client_dig_product_id c) \<and>
     (post_beta2_color_depth c = None \<longrightarrow> client_product_id c = None) \<and> (client_product_id c = None \<longrightarrow> serial_number c = None) \<and>
     (serial_number c = None \<longrightarrow> high_color_depth c = None) \<and> (high_color_depth c = None \<longrightarrow> supported_color_depths c = None) \<and>
     (supported_color_depths c = None \<longrightarrow> early_capability_flags c = None) \<and>
     (early_capability_flags c = None \<longrightarrow> client_dig_product_id c = None) \<and>
     (client_dig_product_id c = None \<longrightarrow> connection_type c = None) \<and>
     (connection_type c = None \<longrightarrow> server_selected_protocol c = None) \<and>
     (server_selected_protocol c = None \<longrightarrow> desktop_physical_width c = None) \<and>
     (desktop_physical_width c = None \<longrightarrow> desktop_physical_height c = None) \<and>
     (desktop_physical_height c = None \<longrightarrow> desktop_orientation c = None) \<and>
     (desktop_orientation c = None \<longrightarrow> desktop_scale_factor c = None) \<and>
     (desktop_scale_factor c = None \<longrightarrow> device_scale_factor c = None)"

definition core_opt_enc :: "client_core_data \<Rightarrow> bytes" where
  "core_opt_enc c = opt_enc (le_bytes 2) (post_beta2_color_depth c) @ opt_enc (le_bytes 2) (client_product_id c) @
     opt_enc (le_bytes 4) (serial_number c) @ opt_enc (le_bytes 2) (high_color_depth c) @
     opt_enc (le_bytes 2) (supported_color_depths c) @ opt_enc (le_bytes 2) (early_capability_flags c) @
     opt_enc (text_enc dig_product_id_size) (client_dig_product_id c) @ opt_enc (\<lambda>v. [v]) (connection_type c) @
     pad_enc (connection_type c \<noteq> None) @ opt_enc (le_bytes 4) (server_selected_protocol c) @
     opt_enc (le_bytes 4) (desktop_physical_width c) @ opt_enc (le_bytes 4) (desktop_physical_height c) @
     opt_enc (le_bytes 2) (desktop_orientation c) @ opt_enc (le_bytes 4) (desktop_scale_factor c) @
     opt_enc (le_bytes 4) (device_scale_factor c) @ []"

lemma finishes_end_eq: "c = fin \<Longrightarrow> finishes (\<lambda>st. pret (snd st)) go c [] fin"
  using finishes_end by simp

lemma read_dig_product_id_enc:
  "text_ok dig_product_id_size s \<Longrightarrow> rd_rest r = text_enc dig_product_id_size s @ ys \<Longrightarrow>
   read_dig_product_id r = (Inr s, rd_advance (length (text_enc dig_product_id_size s)) r)"
  by (simp add: read_dig_product_id_def rd_simps text_enc_facts)

lemma text_enc_neq_Nil: "text_ok dig_product_id_size s \<Longrightarrow> text_enc dig_product_id_size s \<noteq> []"
  using text_enc_facts(2) [of dig_product_id_size s] by (auto simp: dig_product_id_size_def)

definition core_base :: "client_core_data \<Rightarrow> client_core_data" where
  "core_base c = \<lparr>core_version = core_version c, core_desktop_width = core_desktop_width c,
     core_desktop_height = core_desktop_height c, color_depth = color_depth c, sas_sequence = sas_sequence c,
     core_keyboard_layout = core_keyboard_layout c, client_build = client_build c, client_name = client_name c,
     core_keyboard_type = core_keyboard_type c, core_keyboard_subtype = core_keyboard_subtype c,
     core_keyboard_function_keys = core_keyboard_function_keys c, core_ime_file_name = core_ime_file_name c,
     post_beta2_color_depth = None, client_product_id = None, serial_number = None, high_color_depth = None,
     supported_color_depths = None, early_capability_flags = None, client_dig_product_id = None, connection_type = None,
     server_selected_protocol = None, desktop_physical_width = None, desktop_physical_height = None,
     desktop_orientation = None, desktop_scale_factor = None, device_scale_factor = None\<rparr>"

lemma decode_core_optional_enc:
  assumes "core_ok c"
  shows "finishes decode_core_optional True (core_base c) (core_opt_enc c) c"
  unfolding core_opt_enc_def decode_core_optional_def [abs_def]
  by (intro finishes_optional finishes_pad finishes_end_eq)
    (use assms in \<open>auto simp: core_ok_def rd_simps read_dig_product_id_enc text_enc_neq_Nil opt_enc_def pad_enc_def core_base_def\<close>)

definition core_enc :: "client_core_data \<Rightarrow> bytes" where
  "core_enc c = le_bytes 4 (core_version c) @ le_bytes 2 (core_desktop_width c) @ le_bytes 2 (core_desktop_height c) @
     le_bytes 2 (color_depth c) @ le_bytes 2 (sas_sequence c) @ le_bytes 4 (core_keyboard_layout c) @
     le_bytes 4 (client_build c) @ text_enc client_name_size (client_name c) @ le_bytes 4 (core_keyboard_type c) @
     le_bytes 4 (core_keyboard_subtype c) @ le_bytes 4 (core_keyboard_function_keys c) @
     text_enc core_ime_file_name_size (core_ime_file_name c) @ core_opt_enc c"

lemma write_optional_enc:
  "(stop \<Longrightarrow> v16 = None) \<Longrightarrow> write_optional w_u16le v16 (stop, w) = (v16 = None, w @ opt_enc (le_bytes 2) v16)"
  "(stop \<Longrightarrow> v32 = None) \<Longrightarrow> write_optional w_u32le v32 (stop, w) = (v32 = None, w @ opt_enc (le_bytes 4) v32)"
  "(stop \<Longrightarrow> s = None) \<Longrightarrow> pred_option (text_ok n) s \<Longrightarrow>
   write_optional (\<lambda>v. core_write_fixed_utf16 v n) s (stop, w) = (s = None, w @ opt_enc (text_enc n) s)"
  "(stop \<Longrightarrow> b = None) \<Longrightarrow> write_optional (\<lambda>v w. w @ [v, 0]) b (stop, w) =
     (b = None, w @ opt_enc (\<lambda>v. [v]) b @ pad_enc (b \<noteq> None))"
  by (auto simp: pad_enc_def write_optional_def opt_enc_def wr_simps text_enc_facts split: option.splits)

lemma encode_core_enc: "core_ok c \<Longrightarrow> encode_core c w = w @ core_enc c"
  by (simp add: core_ok_def encode_core_def core_enc_def core_opt_enc_def wr_simps text_enc_facts write_optional_enc Let_def)

lemma decode_core_enc:
  assumes "core_ok c" "rd_wf r" "rd_rest r = core_enc c"
  shows "fst (decode_core r) = Inr c"
proof -
  have t: "length (text_enc client_name_size (client_name c)) = client_name_size"
    "length (text_enc core_ime_file_name_size (core_ime_file_name c)) = core_ime_file_name_size"
    "utf16le_to_utf8 (text_enc client_name_size (client_name c)) = client_name c"
    "utf16le_to_utf8 (text_enc core_ime_file_name_size (core_ime_file_name c)) = core_ime_file_name c"
    using assms(1) by (simp_all add: core_ok_def text_enc_facts)
  have "decode_core r = decode_core_optional (True, core_base c) (rd_advance 128 r)"
    using assms(3) t
    by (simp add: decode_core_def core_enc_def rd_simps client_name_size_def core_ime_file_name_size_def core_base_def)
  moreover have "rd_wf (rd_advance 128 r)" "rd_rest (rd_advance 128 r) = core_opt_enc c"
    using assms(2,3) t by (simp_all add: core_enc_def client_name_size_def core_ime_file_name_size_def)
  ultimately show ?thesis using decode_core_optional_enc [OF assms(1)] by (simp add: finishes_def)
qed

lemma length_core_enc:
  assumes "core_ok c"
  shows "length (core_enc c) \<le> 240"
proof -
  have "length (opt_enc (le_bytes n) v) \<le> n" for n and v :: "'a::len word option" by (simp add: opt_enc_def split: option.split)
  note l = this
  have "length (opt_enc (text_enc dig_product_id_size) (client_dig_product_id c)) \<le> 64"
    using assms by (auto simp: core_ok_def opt_enc_def text_enc_facts dig_product_id_size_def split: option.split)
  moreover have "length (opt_enc (\<lambda>v. [v]) (connection_type c)) \<le> 1" by (simp add: opt_enc_def split: option.split)
  moreover have "length (pad_enc (connection_type c \<noteq> None)) \<le> 1" by (simp add: pad_enc_def)
  moreover have "length (text_enc client_name_size (client_name c)) = 32"
    "length (text_enc core_ime_file_name_size (core_ime_file_name c)) = 64"
    using assms by (simp_all add: core_ok_def text_enc_facts) (simp_all add: client_name_size_def core_ime_file_name_size_def)
  ultimately have "length (core_opt_enc c) \<le> 112"
    using l [of 2 "post_beta2_color_depth c"] l [of 2 "client_product_id c"] l [of 4 "serial_number c"]
      l [of 2 "high_color_depth c"] l [of 2 "supported_color_depths c"] l [of 2 "early_capability_flags c"]
      l [of 4 "server_selected_protocol c"] l [of 4 "desktop_physical_width c"] l [of 4 "desktop_physical_height c"]
      l [of 2 "desktop_orientation c"] l [of 4 "desktop_scale_factor c"] l [of 4 "device_scale_factor c"]
    unfolding core_opt_enc_def length_append list.size by linarith
  then show ?thesis
    using assms by (simp add: core_enc_def core_ok_def text_enc_facts) (simp add: client_name_size_def core_ime_file_name_size_def)
qed

section \<open>Blocks\<close>

definition block_enc :: "u16 \<Rightarrow> bytes \<Rightarrow> bytes" where
  "block_enc type body = le_bytes 2 type @ le_bytes 2 (of_nat (length body + 4) :: u16) @ body"

lemma write_block_enc:
  assumes "\<And>w. body w = Some (w @ bs)" "length bs + 4 \<le> 0xFFFF"
  shows "write_block type body w = Some (w @ block_enc type bs)"
proof -
  have "end_block (length w) (w @ le_bytes 2 type @ le_bytes 2 (0 :: u16) @ bs) = Some (w @ block_enc type bs)"
    using assms(2)
    by (simp add: end_block_def wassert_def w_patch_u16le_def w_patch_le_eq block_enc_def del: of_nat_add)
      (simp add: ac_simps)
  then show ?thesis by (simp add: write_block_def begin_block_def wr_simps assms(1))
qed

lemma read_block_enc:
  assumes "rd_wf r" "rd_rest r = block_enc type bs @ ys" "length bs + 4 \<le> 0xFFFF"
  shows "read_block k r = k (rd_offset r) type (mk_reader bs (rd_offset r + 4)) (rd_advance (length (block_enc type bs)) r)"
proof -
  have "unat (of_nat (length bs + 4) :: u16) = length bs + 4"
    using assms(3) by (simp add: unsigned_of_nat take_bit_nat_eq_self del: of_nat_add)
  with assms(2) show ?thesis
    by (simp add: read_block_def block_enc_def rd_simps block_header_size_def eval_nat_numeral del: of_nat_add)
qed

lemma block_enc_neq_Nil [simp]: "block_enc type bs \<noteq> []"
  by (simp add: block_enc_def)

lemma reads_block:
  assumes "\<And>start b r. k s start type (mk_reader bs b) r = (Inr t, r)" "length bs + 4 \<le> 0xFFFF"
    "reads_all (\<lambda>st. read_block (k st)) t bss u"
  shows "reads_all (\<lambda>st. read_block (k st)) s (block_enc type bs # bss) u"
  using assms(1,2) by (intro reads_Cons [OF _ _ assms(3)]) (simp_all add: read_block_enc)

definition slot_blocks :: "u16 \<Rightarrow> ('a \<Rightarrow> bytes) \<Rightarrow> 'a option \<Rightarrow> bytes list" where
  "slot_blocks type enc slot = (case slot of None \<Rightarrow> [] | Some x \<Rightarrow> [block_enc type (enc x)])"

text \<open>A slot of the client data: a PDU in a block of its own, stored once.\<close>

locale client_slot = pdu_codec wr rd ok enc
  for wr :: "'a \<Rightarrow> writer \<Rightarrow> writer option" and rd ok enc +
  fixes type :: u16
    and sel :: "client_data \<Rightarrow> 'a option"
    and upd :: "('a option \<Rightarrow> 'a option) \<Rightarrow> client_data \<Rightarrow> client_data"
  assumes enc_size: "ok x \<Longrightarrow> length (enc x) \<le> 1000"
    and dispatch: "client_block (data, have) start type block =
      ptry (store_once sel upd rd block start data) (\<lambda>d. pret (d, have))"
    and upd_same: "upd (\<lambda>_. sel data) data = data"
begin

lemma write_slot:
  assumes "pred_option ok slot"
  shows "write_block_slot type wr slot w = Some (w @ concat (slot_blocks type enc slot))"
proof (cases slot)
  case (Some x)
  then have "write_block type (wr x) w = Some (w @ block_enc type (enc x))"
    using assms enc_size [of x] by (intro write_block_enc wr_pdu) simp_all
  with Some show ?thesis by (simp add: write_block_slot_def slot_blocks_def)
qed (simp add: write_block_slot_def slot_blocks_def)

lemma reads_then:
  assumes "pred_option ok slot" "sel data = None"
    "reads_all (\<lambda>st. read_block (client_block st)) (upd (\<lambda>_. slot) data, have) bss u"
  shows "reads_all (\<lambda>st. read_block (client_block st)) (data, have) (slot_blocks type enc slot @ bss) u"
proof (cases slot)
  case None
  then show ?thesis using upd_same [of data] assms(2,3) by (simp add: slot_blocks_def)
next
  case (Some x)
  then have "fst (rd (mk_reader (enc x) b)) = Inr x" for b using assms(1) by (simp add: rd_pdu)
  then have "client_block (data, have) start type (mk_reader (enc x) b) r = (Inr (upd (\<lambda>_. slot) data, have), r)" for start b r
    using Some assms(2) by (simp add: dispatch store_once_def rd_simps)
  with Some assms enc_size [of x] show ?thesis by (simp add: slot_blocks_def reads_block)
qed

end

lemma concat_map_write: "(\<And>x w. f x w = w @ enc x) \<Longrightarrow> fold f xs w = w @ concat (map enc xs)"
  by (induction xs arbitrary: w) simp_all

definition channel_def_enc :: "channel_def \<Rightarrow> bytes" where
  "channel_def_enc ch = cd_name ch @ replicate (8 - length (cd_name ch)) 0 @ le_bytes 4 (cd_options ch)"

definition channel_def_ok :: "channel_def \<Rightarrow> bool" where
  "channel_def_ok ch \<longleftrightarrow> length (cd_name ch) < 8 \<and> 0 \<notin> set (cd_name ch)"

definition network_enc :: "client_network_data \<Rightarrow> bytes" where
  "network_enc n = le_bytes 4 (of_nat (length (net_channels n)) :: u32) @ concat (map channel_def_enc (net_channels n))"

definition network_ok :: "client_network_data \<Rightarrow> bool" where
  "network_ok n \<longleftrightarrow> length (net_channels n) \<le> max_static_channels \<and> list_all channel_def_ok (net_channels n)"

lemma encode_channels_enc:
  "list_all channel_def_ok chs \<Longrightarrow> encode_channels chs w = Some (w @ concat (map channel_def_enc chs))"
  by (induction chs arbitrary: w) (simp_all add: channel_def_ok_def channel_def_enc_def channel_name_size_def wassert_def wr_simps)

lemma read_channel_def_enc:
  assumes "channel_def_ok ch" "rd_rest r = channel_def_enc ch @ ys"
  shows "read_channel_def r = (Inr ch, rd_advance (length (channel_def_enc ch)) r)"
proof -
  let ?f = "cd_name ch @ replicate (8 - length (cd_name ch)) 0"
  have "takeWhile (\<lambda>c. c \<noteq> 0) ?f = cd_name ch"
    using assms(1) by (cases "8 - length (cd_name ch)") (auto simp: channel_def_ok_def)
  moreover have "length ?f = 8" using assms(1) by (simp add: channel_def_ok_def)
  moreover have "rd_rest r = ?f @ le_bytes 4 (cd_options ch) @ ys" using assms(2) by (simp add: channel_def_enc_def)
  ultimately show ?thesis
    by (simp add: read_channel_def_def channel_name_size_def rd_simps ascii_name_def channel_def_enc_def del: append_assoc)
qed

lemma length_channel_def_enc: "channel_def_ok ch \<Longrightarrow> length (channel_def_enc ch) = 12"
  by (simp add: channel_def_enc_def channel_def_ok_def)

lemma unat_of_u32: "n < 4294967296 \<Longrightarrow> unat (of_nat n :: u32) = n"
  by (simp add: unsigned_of_nat take_bit_nat_eq_self)

lemma decode_network_enc:
  assumes "network_ok n" "rd_wf r" "rd_rest r = network_enc n"
  shows "fst (decode_network r) = Inr n"
proof -
  have "pcount (length (net_channels n)) read_channel_def (rd_advance 4 r) =
      (Inr (net_channels n), rd_advance (length (concat (map channel_def_enc (net_channels n)))) (rd_advance 4 r))"
    using assms by (intro pcount_concat [where ys = "[]"])
      (auto simp: network_enc_def network_ok_def list_all_iff read_channel_def_enc)
  moreover have "unat (of_nat (length (net_channels n)) :: u32) = length (net_channels n)"
    using assms(1) by (intro unat_of_u32) (simp add: network_ok_def max_static_channels_def)
  ultimately show ?thesis using assms by (simp add: decode_network_def network_enc_def network_ok_def rd_simps)
qed

definition monitor_def_enc :: "monitor_def \<Rightarrow> bytes" where
  "monitor_def_enc m = le_bytes 4 (mon_left m) @ le_bytes 4 (mon_top m) @ le_bytes 4 (mon_right m) @ le_bytes 4 (mon_bottom m) @
     le_bytes 4 (mon_flags m)"

definition monitor_enc :: "client_monitor_data \<Rightarrow> bytes" where
  "monitor_enc m = le_bytes 4 (monitor_flags m) @ le_bytes 4 (of_nat (length (monitor_defs m)) :: u32) @
     concat (map monitor_def_enc (monitor_defs m))"

definition monitor_attributes_enc :: "monitor_attributes \<Rightarrow> bytes" where
  "monitor_attributes_enc m = le_bytes 4 (ma_physical_width m) @ le_bytes 4 (ma_physical_height m) @
     le_bytes 4 (ma_orientation m) @ le_bytes 4 (ma_desktop_scale_factor m) @ le_bytes 4 (ma_device_scale_factor m)"

definition monitor_ex_enc :: "client_monitor_extended_data \<Rightarrow> bytes" where
  "monitor_ex_enc m = le_bytes 4 (monitor_ex_flags m) @ le_bytes 4 monitor_attribute_size @
     le_bytes 4 (of_nat (length (monitor_ex_attributes m)) :: u32) @ concat (map monitor_attributes_enc (monitor_ex_attributes m))"

lemma decode_monitor_enc:
  assumes "length (monitor_defs m) \<le> max_monitors" "rd_wf r" "rd_rest r = monitor_enc m"
  shows "fst (decode_monitor r) = Inr m"
proof -
  have "pcount (length (monitor_defs m)) read_monitor_def (rd_advance 8 r) =
      (Inr (monitor_defs m), rd_advance (length (concat (map monitor_def_enc (monitor_defs m)))) (rd_advance 8 r))"
    using assms by (intro pcount_concat [where ys = "[]"])
      (auto simp: monitor_enc_def monitor_def_enc_def read_monitor_def_def rd_simps)
  moreover have "unat (of_nat (length (monitor_defs m)) :: u32) = length (monitor_defs m)"
    using assms(1) by (intro unat_of_u32) (simp add: max_monitors_def)
  ultimately show ?thesis using assms by (simp add: decode_monitor_def monitor_enc_def rd_simps)
qed

lemma decode_monitor_ex_enc:
  assumes "length (monitor_ex_attributes m) \<le> max_monitors" "rd_wf r" "rd_rest r = monitor_ex_enc m"
  shows "fst (decode_monitor_ex r) = Inr m"
proof -
  have "pcount (length (monitor_ex_attributes m)) read_monitor_attributes (rd_advance 12 r) =
      (Inr (monitor_ex_attributes m),
        rd_advance (length (concat (map monitor_attributes_enc (monitor_ex_attributes m)))) (rd_advance 12 r))"
    using assms by (intro pcount_concat [where ys = "[]"])
      (auto simp: monitor_ex_enc_def monitor_attributes_enc_def read_monitor_attributes_def rd_simps)
  moreover have "unat (of_nat (length (monitor_ex_attributes m)) :: u32) = length (monitor_ex_attributes m)"
    using assms(1) by (intro unat_of_u32) (simp add: max_monitors_def)
  ultimately show ?thesis using assms by (simp add: decode_monitor_ex_def monitor_ex_enc_def rd_simps)
qed

lemmas block_types = cs_core_def cs_security_def cs_net_def cs_cluster_def cs_monitor_def cs_mcs_msgchannel_def
  cs_monitor_ex_def cs_multitransport_def sc_core_def sc_security_def sc_net_def sc_mcs_msgchannel_def sc_multitransport_def

interpretation cluster: client_slot encode_cluster decode_cluster "\<lambda>_. True"
  "\<lambda>c. le_bytes 4 (cluster_flags c) @ le_bytes 4 (redirected_session_id c)" cs_cluster cl_cluster cl_cluster_update
  by unfold_locales (simp_all add: encode_cluster_def decode_cluster_def wr_simps rd_simps client_block_def block_types Let_def)

interpretation security: client_slot encode_client_security decode_client_security "\<lambda>_. True"
  "\<lambda>s. le_bytes 4 (encryption_methods s) @ le_bytes 4 (ext_encryption_methods s)" cs_security cl_security cl_security_update
  by unfold_locales
    (simp_all add: encode_client_security_def decode_client_security_def wr_simps rd_simps client_block_def block_types Let_def)

interpretation network: client_slot encode_network decode_network network_ok network_enc cs_net cl_network cl_network_update
proof unfold_locales
  fix n w show "network_ok n \<Longrightarrow> encode_network n w = Some (w @ network_enc n)"
    by (simp add: encode_network_def network_ok_def network_enc_def wassert_def encode_channels_enc wr_simps)
  show "length (network_enc n) \<le> 1000" if "network_ok n"
    using that length_concat_le [of "net_channels n" channel_def_enc 12] length_channel_def_enc
    by (simp add: network_enc_def network_ok_def list_all_iff max_static_channels_def)
qed (simp_all add: decode_network_enc client_block_def block_types Let_def)

interpretation monitor: client_slot encode_monitor decode_monitor "\<lambda>m. length (monitor_defs m) \<le> max_monitors" monitor_enc
  cs_monitor cl_monitor cl_monitor_update
proof unfold_locales
  fix m w show "length (monitor_defs m) \<le> max_monitors \<Longrightarrow> encode_monitor m w = Some (w @ monitor_enc m)"
    by (simp add: encode_monitor_def monitor_enc_def wassert_def wr_simps
        concat_map_write [where f = write_monitor_def and enc = monitor_def_enc] write_monitor_def_def monitor_def_enc_def)
  show "length (monitor_enc m) \<le> 1000" if "length (monitor_defs m) \<le> max_monitors"
    using that length_concat_le [of "monitor_defs m" monitor_def_enc 20] by (simp add: monitor_enc_def monitor_def_enc_def max_monitors_def)
qed (simp_all add: decode_monitor_enc client_block_def block_types Let_def)

interpretation monitor_ex: client_slot encode_monitor_ex decode_monitor_ex
  "\<lambda>m. length (monitor_ex_attributes m) \<le> max_monitors" monitor_ex_enc cs_monitor_ex cl_monitor_ex cl_monitor_ex_update
proof unfold_locales
  fix m w show "length (monitor_ex_attributes m) \<le> max_monitors \<Longrightarrow> encode_monitor_ex m w = Some (w @ monitor_ex_enc m)"
    by (simp add: encode_monitor_ex_def monitor_ex_enc_def wassert_def wr_simps
        concat_map_write [where f = write_monitor_attributes and enc = monitor_attributes_enc]
        write_monitor_attributes_def monitor_attributes_enc_def)
  show "length (monitor_ex_enc m) \<le> 1000" if "length (monitor_ex_attributes m) \<le> max_monitors"
    using that length_concat_le [of "monitor_ex_attributes m" monitor_attributes_enc 20]
    by (simp add: monitor_ex_enc_def monitor_attributes_enc_def max_monitors_def)
qed (simp_all add: decode_monitor_ex_enc client_block_def block_types Let_def)

interpretation message_channel: client_slot encode_flags rd_u32le "\<lambda>_. True" "le_bytes 4" cs_mcs_msgchannel
  cl_message_channel cl_message_channel_update
  by unfold_locales (simp_all add: encode_flags_def wr_simps rd_simps client_block_def block_types Let_def)

interpretation multitransport: client_slot encode_flags rd_u32le "\<lambda>_. True" "le_bytes 4" cs_multitransport
  cl_multitransport cl_multitransport_update
  by unfold_locales (simp_all add: encode_flags_def wr_simps rd_simps client_block_def block_types Let_def)

section \<open>All the blocks survive the wire\<close>

definition client_data_ok :: "client_data \<Rightarrow> bool" where
  "client_data_ok data \<longleftrightarrow> core_ok (cl_core data) \<and> pred_option network_ok (cl_network data) \<and>
     pred_option (\<lambda>m. length (monitor_defs m) \<le> max_monitors) (cl_monitor data) \<and>
     pred_option (\<lambda>m. length (monitor_ex_attributes m) \<le> max_monitors) (cl_monitor_ex data)"

definition client_blocks :: "client_data \<Rightarrow> bytes list" where
  "client_blocks data = block_enc cs_core (core_enc (cl_core data)) #
     slot_blocks cs_cluster (\<lambda>c. le_bytes 4 (cluster_flags c) @ le_bytes 4 (redirected_session_id c)) (cl_cluster data) @
     slot_blocks cs_security (\<lambda>s. le_bytes 4 (encryption_methods s) @ le_bytes 4 (ext_encryption_methods s)) (cl_security data) @
     slot_blocks cs_net network_enc (cl_network data) @ slot_blocks cs_monitor monitor_enc (cl_monitor data) @
     slot_blocks cs_mcs_msgchannel (le_bytes 4) (cl_message_channel data) @
     slot_blocks cs_monitor_ex monitor_ex_enc (cl_monitor_ex data) @
     slot_blocks cs_multitransport (le_bytes 4) (cl_multitransport data) @ []"

lemma pred_option_TrueI [simp]: "pred_option (\<lambda>_. True) x"
  by (cases x) simp_all

lemma encode_client_data_enc:
  assumes "client_data_ok data"
  shows "encode_client_data data w = Some (w @ concat (client_blocks data))"
proof -
  have core: "write_block cs_core (\<lambda>w. Some (encode_core (cl_core data) w)) w = Some (w @ block_enc cs_core (core_enc (cl_core data)))"
    using assms length_core_enc [of "cl_core data"]
    by (intro write_block_enc) (simp_all add: client_data_ok_def encode_core_enc)
  show ?thesis
    using assms
    by (simp add: encode_client_data_def client_blocks_def core cluster.write_slot security.write_slot network.write_slot
        monitor.write_slot message_channel.write_slot monitor_ex.write_slot multitransport.write_slot client_data_ok_def)
qed

lemma client_blocks_read:
  assumes "client_data_ok data"
  shows "reads_all (\<lambda>st. read_block (client_block st)) (no_client_data, False) (client_blocks data) (data, True)"
proof -
  have core: "client_block (no_client_data, False) start cs_core (mk_reader (core_enc (cl_core data)) b) r =
      (Inr (no_client_data\<lparr>cl_core := cl_core data\<rparr>, True), r)" for start b r
    using assms decode_core_enc [of "cl_core data" "mk_reader (core_enc (cl_core data)) b"]
    by (simp add: client_block_def rd_simps client_data_ok_def)
  have size: "length (core_enc (cl_core data)) + 4 \<le> 0xFFFF"
    using assms length_core_enc [of "cl_core data"] by (simp add: client_data_ok_def)
  let ?d = "no_client_data\<lparr>cl_core := cl_core data, cl_cluster := cl_cluster data, cl_security := cl_security data,
      cl_network := cl_network data, cl_monitor := cl_monitor data, cl_message_channel := cl_message_channel data,
      cl_monitor_ex := cl_monitor_ex data, cl_multitransport := cl_multitransport data\<rparr>"
  have "?d = data" by (rule client_data.equality) (simp_all add: no_client_data_def)
  then have "reads_all (\<lambda>st. read_block (client_block st)) (?d, True) [] (data, True)" by (metis reads_Nil)
  then show ?thesis
    unfolding client_blocks_def
    by (intro reads_block [where k = client_block, OF core size] cluster.reads_then security.reads_then network.reads_then
        monitor.reads_then message_channel.reads_then monitor_ex.reads_then multitransport.reads_then)
      (use assms in \<open>simp_all add: client_data_ok_def no_client_data_def\<close>)
qed

interpretation client_data_blocks: pdu_codec encode_client_data decode_client_data client_data_ok
  "\<lambda>data. concat (client_blocks data)"
proof unfold_locales
  fix data r assume "client_data_ok data" "rd_wf r" "rd_rest r = concat (client_blocks data)"
  then have "pwhile (\<lambda>st. read_block (client_block st)) (no_client_data, False) r = (Inr (data, True), rd_advance (length (rd_rest r)) r)"
    by (intro pwhile_reads [OF client_blocks_read] consumes_block safe_client_block)
  then show "fst (decode_client_data r) = Inr data" by (simp add: decode_client_data_def rd_simps)
qed (rule encode_client_data_enc)

definition server_core_enc :: "server_core_data \<Rightarrow> bytes" where
  "server_core_enc c = le_bytes 4 (sc_version c) @ opt_enc (le_bytes 4) (client_requested_protocols c) @
     opt_enc (le_bytes 4) (sc_early_capability_flags c)"

definition server_network_enc :: "server_network_data \<Rightarrow> bytes" where
  "server_network_enc n = le_bytes 2 (io_channel_id n) @ le_bytes 2 (of_nat (length (channel_ids n)) :: u16) @
     concat (map (le_bytes 2) (channel_ids n)) @ (if length (channel_ids n) mod 2 \<noteq> 0 then le_bytes 2 (0 :: u16) else [])"

definition server_data_ok :: "server_data \<Rightarrow> bool" where
  "server_data_ok data \<longleftrightarrow> length (channel_ids (sv_network data)) \<le> max_static_channels \<and>
     (client_requested_protocols (sv_core data) = None \<longrightarrow> sc_early_capability_flags (sv_core data) = None)"

definition server_blocks :: "server_data \<Rightarrow> bytes list" where
  "server_blocks data = block_enc sc_core (server_core_enc (sv_core data)) #
     block_enc sc_security (le_bytes 4 (encryption_method (sv_security data)) @ le_bytes 4 (encryption_level (sv_security data))) #
     block_enc sc_net (server_network_enc (sv_network data)) #
     slot_blocks sc_mcs_msgchannel (le_bytes 2) (sv_message_channel_id data) @
     slot_blocks sc_multitransport (le_bytes 4) (sv_multitransport_flags data)"

lemma u32_opt_enc: "write_u32_opt v w = w @ opt_enc (le_bytes 4) v"
  by (simp add: write_u32_opt_def opt_enc_def wr_simps split: option.split)

lemma opt_enc_size: "length (opt_enc (le_bytes n) v) \<le> n"
  by (simp add: opt_enc_def split: option.split)

lemma server_enc_sizes:
  "length (server_core_enc c) \<le> 12" "length (channel_ids n) \<le> max_static_channels \<Longrightarrow> length (server_network_enc n) \<le> 100"
  using opt_enc_size [of 4 "client_requested_protocols c"] opt_enc_size [of 4 "sc_early_capability_flags c"]
    length_concat_le [of "channel_ids n" "le_bytes 2" 2]
  by (simp_all add: server_core_enc_def server_network_enc_def max_static_channels_def)

lemma encode_server_data_enc:
  assumes "server_data_ok data"
  shows "encode_server_data data w = Some (w @ concat (server_blocks data))"
proof -
  have "encode_server_core (sv_core data) v = Some (v @ server_core_enc (sv_core data))" for v
    using assms by (auto simp: encode_server_core_def server_core_enc_def server_data_ok_def wassert_def u32_opt_enc wr_simps)
  then have core: "write_block sc_core (encode_server_core (sv_core data)) v = Some (v @ block_enc sc_core (server_core_enc (sv_core data)))" for v
    using server_enc_sizes(1) [of "sv_core data"] by (intro write_block_enc) simp_all
  have "encode_server_network (sv_network data) v = Some (v @ server_network_enc (sv_network data))" for v
    using assms
    by (simp add: encode_server_network_def server_network_enc_def server_data_ok_def wassert_def wr_simps
        concat_map_write [where f = w_u16le and enc = "le_bytes 2"])
  then have net: "write_block sc_net (encode_server_network (sv_network data)) v = Some (v @ block_enc sc_net (server_network_enc (sv_network data)))" for v
    using server_enc_sizes(2) [of "sv_network data"] assms by (intro write_block_enc) (simp_all add: server_data_ok_def)
  have sec: "write_block sc_security (encode_server_security (sv_security data)) v = Some (v @ block_enc sc_security
      (le_bytes 4 (encryption_method (sv_security data)) @ le_bytes 4 (encryption_level (sv_security data))))" for v
    by (intro write_block_enc) (simp_all add: encode_server_security_def wr_simps)
  have flags: "write_block_slot sc_mcs_msgchannel (\<lambda>v w. Some (w_u16le v w)) (sv_message_channel_id data) v =
      Some (v @ concat (slot_blocks sc_mcs_msgchannel (le_bytes 2) (sv_message_channel_id data)))"
    "write_block_slot sc_multitransport encode_flags (sv_multitransport_flags data) v =
      Some (v @ concat (slot_blocks sc_multitransport (le_bytes 4) (sv_multitransport_flags data)))" for v
    by (auto simp: write_block_slot_def slot_blocks_def encode_flags_def wr_simps write_block_enc split: option.split)
  show ?thesis by (simp add: encode_server_data_def core sec net flags server_blocks_def)
qed

lemma decode_server_core_enc:
  assumes "client_requested_protocols c = None \<longrightarrow> sc_early_capability_flags c = None" "rd_wf r" "rd_rest r = server_core_enc c"
  shows "fst (decode_server_core (sv_core no_server_data) r) = Inr c"
  using assms
  by (cases "client_requested_protocols c"; cases "sc_early_capability_flags c")
    (auto simp: decode_server_core_def server_core_enc_def opt_enc_def read_if_more_def rd_simps rd_empty_rest no_server_data_def)

lemma decode_server_network_enc:
  assumes "length (channel_ids n) \<le> max_static_channels" "rd_wf r" "rd_rest r = server_network_enc n"
  shows "fst (decode_server_network (sv_network no_server_data) r) = Inr n"
proof -
  have "pcount (length (channel_ids n)) rd_u16le (rd_advance 4 r) =
      (Inr (channel_ids n), rd_advance (length (concat (map (le_bytes 2) (channel_ids n)))) (rd_advance 4 r))"
    using assms by (intro pcount_concat [where ys = "if length (channel_ids n) mod 2 \<noteq> 0 then le_bytes 2 (0 :: u16) else []"])
      (auto simp: server_network_enc_def rd_simps)
  moreover have "unat (of_nat (length (channel_ids n)) :: u16) = length (channel_ids n)"
    using assms(1) by (simp add: unsigned_of_nat take_bit_nat_eq_self max_static_channels_def)
  ultimately show ?thesis
    using assms by (simp add: decode_server_network_def server_network_enc_def rd_simps no_server_data_def)
qed

lemma server_blocks_read:
  assumes "server_data_ok data"
  shows "reads_all (\<lambda>st. read_block (server_block st)) (no_server_data, False, False, False) (server_blocks data) (data, True, True, True)"
proof -
  let ?d1 = "no_server_data\<lparr>sv_core := sv_core data\<rparr>"
  let ?d2 = "?d1\<lparr>sv_security := sv_security data\<rparr>" and ?d3 = "?d1\<lparr>sv_security := sv_security data, sv_network := sv_network data\<rparr>"
  have core: "server_block (no_server_data, False, False, False) start sc_core (mk_reader (server_core_enc (sv_core data)) b) r =
      (Inr (?d1, True, False, False), r)" for start b r
    using assms decode_server_core_enc [of "sv_core data" "mk_reader (server_core_enc (sv_core data)) b"]
    by (simp add: server_block_def rd_simps server_data_ok_def)
  have sec: "server_block (?d1, True, False, False) start sc_security (mk_reader (le_bytes 4 (encryption_method (sv_security data)) @
      le_bytes 4 (encryption_level (sv_security data))) b) r = (Inr (?d2, True, True, False), r)" for start b r
    by (simp add: server_block_def block_types rd_simps decode_server_security_def)
  have net: "server_block (?d2, True, True, False) start sc_net (mk_reader (server_network_enc (sv_network data)) b) r =
      (Inr (?d3, True, True, True), r)" for start b r
    using assms decode_server_network_enc [of "sv_network data" "mk_reader (server_network_enc (sv_network data)) b"]
    by (simp add: server_block_def block_types rd_simps server_data_ok_def)
  have msg: "reads_all (\<lambda>st. read_block (server_block st)) (d, True, True, True)
      (slot_blocks sc_mcs_msgchannel (le_bytes 2) v @ bss) u"
    if "sv_message_channel_id d = None" "reads_all (\<lambda>st. read_block (server_block st)) (d\<lparr>sv_message_channel_id := v\<rparr>, True, True, True) bss u"
    for d v bss u
  proof (cases v)
    case None
    have "d\<lparr>sv_message_channel_id := None\<rparr> = d" using that(1) by (intro server_data.equality) simp_all
    with None that show ?thesis by (simp add: slot_blocks_def)
  qed (use that in \<open>auto simp: slot_blocks_def server_block_def block_types rd_simps intro!: reads_block\<close>)
  have multi: "reads_all (\<lambda>st. read_block (server_block st)) (d, True, True, True)
      (slot_blocks sc_multitransport (le_bytes 4) v) (d\<lparr>sv_multitransport_flags := v\<rparr>, True, True, True)"
    if "sv_multitransport_flags d = None" for d v
  proof (cases v)
    case None
    have "d\<lparr>sv_multitransport_flags := None\<rparr> = d" using that by (intro server_data.equality) simp_all
    with None show ?thesis by (simp add: slot_blocks_def reads_Nil)
  qed (use that in \<open>auto simp: slot_blocks_def server_block_def block_types rd_simps intro!: reads_block reads_Nil\<close>)
  have fin: "?d3\<lparr>sv_message_channel_id := sv_message_channel_id data, sv_multitransport_flags := sv_multitransport_flags data\<rparr> = data"
    by (rule server_data.equality) (simp_all add: no_server_data_def)
  have none: "sv_multitransport_flags (?d3\<lparr>sv_message_channel_id := sv_message_channel_id data\<rparr>) = None"
    by (simp add: no_server_data_def)
  have "reads_all (\<lambda>st. read_block (server_block st)) (?d3\<lparr>sv_message_channel_id := sv_message_channel_id data\<rparr>, True, True, True)
      (slot_blocks sc_multitransport (le_bytes 4) (sv_multitransport_flags data)) (data, True, True, True)"
    using multi [of "?d3\<lparr>sv_message_channel_id := sv_message_channel_id data\<rparr>" "sv_multitransport_flags data", OF none]
    by (simp only: fin)
  then show ?thesis
    unfolding server_blocks_def
    using server_enc_sizes(1) [of "sv_core data"] server_enc_sizes(2) [of "sv_network data"] assms
    by (intro reads_block [where k = server_block, OF core] reads_block [where k = server_block, OF sec]
        reads_block [where k = server_block, OF net] msg)
      (simp_all add: server_data_ok_def no_server_data_def)
qed

interpretation server_data_blocks: pdu_codec encode_server_data decode_server_data server_data_ok
  "\<lambda>data. concat (server_blocks data)"
proof unfold_locales
  fix data r assume "server_data_ok data" "rd_wf r" "rd_rest r = concat (server_blocks data)"
  then have "pwhile (\<lambda>st. read_block (server_block st)) (no_server_data, False, False, False) r =
      (Inr (data, True, True, True), rd_advance (length (rd_rest r)) r)"
    by (intro pwhile_reads [OF server_blocks_read] consumes_block safe_server_block)
  then show "fst (decode_server_data r) = Inr data" by (simp add: decode_server_data_def rd_simps)
qed (rule encode_server_data_enc)

section \<open>What the client's data blocks can hold\<close>

definition channel_def_wf :: "channel_def \<Rightarrow> bool" where
  "channel_def_wf ch \<longleftrightarrow> length (cd_name ch) \<le> channel_name_size \<and> 0 \<notin> set (cd_name ch)"

definition client_data_wf :: "client_data \<Rightarrow> bool" where
  "client_data_wf d \<longleftrightarrow>
     pred_option (\<lambda>n. length (net_channels n) \<le> max_static_channels \<and> list_all channel_def_wf (net_channels n)) (cl_network d) \<and>
     pred_option (\<lambda>m. length (monitor_defs m) \<le> max_monitors) (cl_monitor d) \<and>
     pred_option (\<lambda>m. length (monitor_ex_attributes m) \<le> max_monitors) (cl_monitor_ex d)"

lemma ascii_name_wf: "length (ascii_name xs) \<le> length xs" "0 \<notin> set (ascii_name xs)"
  using length_takeWhile_le [of _ xs] by (auto simp: ascii_name_def dest: set_takeWhileD)

lemma read_channel_def_wf: "read_channel_def r = (Inr ch, r') \<Longrightarrow> channel_def_wf ch"
  using ascii_name_wf [of "take channel_name_size (rd_rest r)"]
  by (auto simp: read_channel_def_def ptry_eq_Inr rd_bytes_eq_Inr channel_def_wf_def)

lemma decode_network_wf:
  "fst (decode_network r) = Inr n \<Longrightarrow> length (net_channels n) \<le> max_static_channels \<and> list_all channel_def_wf (net_channels n)"
  by (cases "decode_network r")
    (auto simp: decode_network_def pget_def ptry_eq_Inr split: if_splits dest!: pcount_all [OF _ read_channel_def_wf])

lemma decode_monitor_wf: "fst (decode_monitor r) = Inr m \<Longrightarrow> length (monitor_defs m) \<le> max_monitors"
  by (cases "decode_monitor r")
    (auto simp: decode_monitor_def pget_def ptry_eq_Inr split: if_splits dest!: pcount_all [where P = "\<lambda>_. True"])

lemma decode_monitor_ex_wf: "fst (decode_monitor_ex r) = Inr m \<Longrightarrow> length (monitor_ex_attributes m) \<le> max_monitors"
  by (cases "decode_monitor_ex r")
    (auto simp: decode_monitor_ex_def pget_def ptry_eq_Inr split: if_splits dest!: pcount_all [where P = "\<lambda>_. True"])

lemma pwith_eq_Inr: "pwith s p r = (Inr x, r') \<longleftrightarrow> fst (p s) = Inr x \<and> r' = r"
  by (auto simp: pwith_def)

lemma store_once_eq_Inr:
  "store_once sel upd p block off d r = (Inr d', r') \<longleftrightarrow>
   sel d = None \<and> r' = r \<and> (\<exists>v. fst (p block) = Inr v \<and> d' = upd (\<lambda>_. Some v) d)"
  by (auto simp: store_once_def ptry_eq_Inr pwith_eq_Inr split: if_splits)

lemma client_block_wf:
  assumes "client_data_wf d" "client_block (d, have) start type block r = (Inr (d', have'), r')"
  shows "client_data_wf d'"
  using assms
  by (auto simp: client_block_def client_data_wf_def Let_def ptry_eq_Inr store_once_eq_Inr split: if_splits
      dest!: decode_network_wf decode_monitor_wf decode_monitor_ex_wf)

lemma decode_client_data_wf:
  assumes "decode_client_data r = (Inr d, r')"
  shows "client_data_wf d"
proof -
  obtain s where loop: "pwhile (\<lambda>st. read_block (client_block st)) (no_client_data, False) r = (Inr (d, True), s)"
    using assms by (auto simp: decode_client_data_def ptry_eq_Inr pget_def split: if_splits)
  have step: "client_data_wf (fst st')"
    if "client_data_wf (fst st)" "read_block (client_block st) r = (Inr st', r')" for st st' r r'
    using that client_block_wf by (cases st; cases st') (auto simp: read_block_def ptry_eq_Inr pget_def split: if_splits)
  have "client_data_wf (fst (no_client_data, False))" by (simp add: client_data_wf_def no_client_data_def)
  from pwhile_inv [where P = "\<lambda>st. client_data_wf (fst st)", OF step this loop] show ?thesis by simp
qed

section \<open>Properties\<close>

text \<open>
  The GCC conference survives the wire: client and server data blocks (the core block with its chain of optional
  fields, every optional block, padding) decode to what was encoded, and either kind of user data comes out of its
  Conference Create wrapper unchanged, whatever follows it.
\<close>

theorem gcc_roundtrip:
  assumes "client_data_ok c" "server_data_ok s" "user_data_ok u"
  shows "(\<exists>bs. encode_client_data c w = Some (w @ bs) \<and> fst (decode_client_data (mk_reader bs b)) = Inr c) \<and>
    (\<exists>bs. encode_server_data s w = Some (w @ bs) \<and> fst (decode_server_data (mk_reader bs b)) = Inr s) \<and>
    (\<exists>bs. encode_conference_create_request u w = Some (w @ bs) \<and>
      decode_conference_create_request (mk_reader (bs @ ys) b) = (Inr u, rd_advance (length bs) (mk_reader (bs @ ys) b))) \<and>
    (\<exists>bs. encode_conference_create_response u w = Some (w @ bs) \<and>
      decode_conference_create_response (mk_reader (bs @ ys) b) = (Inr u, rd_advance (length bs) (mk_reader (bs @ ys) b)))"
  using client_data_blocks.pdu_round_trip [OF assms(1)] server_data_blocks.pdu_round_trip [OF assms(2)]
    conference_request.round_trip [OF assms(3)] conference_response.round_trip [OF assms(3)]
  by blast

theorem gcc_roundtrip_witness:
  "let c = no_client_data\<lparr>cl_core := default_core\<lparr>post_beta2_color_depth := Some 0xCA01, client_product_id := Some 1\<rparr>,
       cl_network := Some \<lparr>net_channels = [\<lparr>cd_name = [0x64, 0x72], cd_options = 0\<rparr>]\<rparr>, cl_message_channel := Some 0\<rparr>
   in \<exists>bs. encode_client_data c [] = Some ([] @ bs) \<and> fst (decode_client_data (mk_reader bs 0)) = Inr c"
proof -
  let ?c = "no_client_data\<lparr>cl_core := default_core\<lparr>post_beta2_color_depth := Some 0xCA01, client_product_id := Some 1\<rparr>,
       cl_network := Some \<lparr>net_channels = [\<lparr>cd_name = [0x64, 0x72], cd_options = 0\<rparr>]\<rparr>, cl_message_channel := Some 0\<rparr>"
  have "text_ok n []" if "2 \<le> n" for n using that by (simp add: text_ok_def utf8_to_utf16le_def)
  then have "client_data_ok ?c"
    by (simp add: client_data_ok_def no_client_data_def default_core_def core_ok_def network_ok_def channel_def_ok_def
        max_static_channels_def client_name_size_def core_ime_file_name_size_def)
  moreover have "server_data_ok no_server_data" by (simp add: server_data_ok_def no_server_data_def)
  moreover have "user_data_ok []" by (simp add: user_data_ok_def per_max_length_def)
  ultimately show ?thesis using gcc_roundtrip [of ?c no_server_data "[]" "[]" 0 "[]"] unfolding Let_def by blast
qed

text \<open>
  Whatever the client sends, the data blocks the decoder lets through are bounded: at most 31 static channels,
  each with a name of at most eight octets without a NUL, at most 16 monitors and at most 16 attribute records.
\<close>

theorem client_data_bounded:
  assumes "decode_client_data r = (Inr d, r')"
  shows "client_data_wf d"
  using assms by (rule decode_client_data_wf)

theorem client_data_bounded_witness:
  "\<exists>bs. fst (decode_client_data (mk_reader bs 0)) = Inr no_client_data \<and> client_data_wf no_client_data"
proof -
  have "client_data_ok no_client_data"
    by (simp add: client_data_ok_def no_client_data_def default_core_def core_ok_def text_ok_def utf8_to_utf16le_def
        client_name_size_def core_ime_file_name_size_def)
  then obtain bs where "fst (decode_client_data (mk_reader bs 0)) = Inr no_client_data"
    using client_data_blocks.pdu_round_trip [of no_client_data "[]" 0] by auto
  moreover from this have "client_data_wf no_client_data"
    using client_data_bounded [of "mk_reader bs 0" no_client_data "snd (decode_client_data (mk_reader bs 0))"]
    by (simp add: prod_eq_iff)
  ultimately show ?thesis by blast
qed

end
