(* ===== verification/Capabilities.thy ===== *)
theory Capabilities
  imports Reader_Writer Text
begin

text \<open>
  \<open>proto/capabilities.cpp\<close>: the capability sets of Demand Active and Confirm Active. The sets the
  server acts on are records, the rest are kept as raw bodies. Strings are lists of octets.
\<close>

section \<open>Model\<close>

definition header_size :: nat where "header_size = 4"
definition ime_file_name_size :: nat where "ime_file_name_size = 64"

definition type_general :: u16 where "type_general = 1"
definition type_bitmap :: u16 where "type_bitmap = 2"
definition type_order :: u16 where "type_order = 3"
definition type_pointer :: u16 where "type_pointer = 8"
definition type_share :: u16 where "type_share = 9"
definition type_color_cache :: u16 where "type_color_cache = 10"
definition type_input :: u16 where "type_input = 13"
definition type_font :: u16 where "type_font = 14"
definition type_virtual_channel :: u16 where "type_virtual_channel = 20"
definition type_multifragment_update :: u16 where "type_multifragment_update = 26"
definition type_large_pointer :: u16 where "type_large_pointer = 27"
definition type_surface_commands :: u16 where "type_surface_commands = 28"
definition type_frame_acknowledge :: u16 where "type_frame_acknowledge = 30"

record caps_general =
  os_major_type :: u16
  os_minor_type :: u16
  protocol_version :: u16
  general_compression_types :: u16
  extra_flags :: u16
  update_capability_flag :: u16
  remote_unshare_flag :: u16
  general_compression_level :: u16
  refresh_rect_support :: byte
  suppress_output_support :: byte

record caps_bitmap =
  preferred_bits_per_pixel :: u16
  receive_1_bit_per_pixel :: u16
  receive_4_bits_per_pixel :: u16
  receive_8_bits_per_pixel :: u16
  bm_desktop_width :: u16
  bm_desktop_height :: u16
  desktop_resize_flag :: u16
  bitmap_compression_flag :: u16
  high_color_flags :: byte
  drawing_flags :: byte
  multiple_rectangle_support :: u16

record caps_order =
  terminal_descriptor :: bytes
  desktop_save_x_granularity :: u16
  desktop_save_y_granularity :: u16
  maximum_order_level :: u16
  number_fonts :: u16
  order_flags :: u16
  order_support :: bytes
  text_flags :: u16
  order_support_ex_flags :: u16
  desktop_save_size :: u32
  text_ansi_code_page :: u16

record caps_pointer =
  color_pointer_flag :: u16
  color_pointer_cache_size :: u16
  pointer_cache_size :: "u16 option"

record caps_input =
  input_flags :: u16
  keyboard_layout :: u32
  keyboard_type :: u32
  keyboard_subtype :: u32
  keyboard_function_keys :: u32
  ime_file_name :: bytes

record caps_virtual_channel =
  vc_flags :: u32
  vc_chunk_size :: "u32 option"

record caps_share =
  node_id :: u16

record caps_font =
  font_support_flags :: u16

record caps_color_cache =
  cache_size :: u16

record caps_multifragment_update =
  max_request_size :: u32

record caps_large_pointer =
  lp_support_flags :: u16

record caps_surface_commands =
  cmd_flags :: u32

record caps_frame_acknowledge =
  max_unacknowledged_frame_count :: u32

record raw_capability_set =
  raw_type :: u16
  raw_body :: bytes

record capability_sets =
  cs_general :: "caps_general option"
  cs_bitmap :: "caps_bitmap option"
  cs_order :: "caps_order option"
  cs_pointer :: "caps_pointer option"
  cs_input :: "caps_input option"
  cs_virtual_channel :: "caps_virtual_channel option"
  cs_share :: "caps_share option"
  cs_font :: "caps_font option"
  cs_color_cache :: "caps_color_cache option"
  cs_multifragment_update :: "caps_multifragment_update option"
  cs_large_pointer :: "caps_large_pointer option"
  cs_surface_commands :: "caps_surface_commands option"
  cs_frame_acknowledge :: "caps_frame_acknowledge option"
  cs_other :: "raw_capability_set list"

definition no_capability_sets :: capability_sets where
  "no_capability_sets = \<lparr>cs_general = None, cs_bitmap = None, cs_order = None, cs_pointer = None, cs_input = None,
     cs_virtual_channel = None, cs_share = None, cs_font = None, cs_color_cache = None, cs_multifragment_update = None,
     cs_large_pointer = None, cs_surface_commands = None, cs_frame_acknowledge = None, cs_other = []\<rparr>"

definition decode_general :: "caps_general parser" where
  "decode_general = ptry rd_u16le (\<lambda>major. ptry rd_u16le (\<lambda>minor. ptry rd_u16le (\<lambda>version. ptry (rd_skip 2) (\<lambda>_.
     ptry rd_u16le (\<lambda>types. ptry rd_u16le (\<lambda>extra. ptry rd_u16le (\<lambda>upd. ptry rd_u16le (\<lambda>unshare. ptry rd_u16le (\<lambda>level.
     pget rd_empty (\<lambda>e1. ptry (if \<not> e1 then rd_u8 else pret 0) (\<lambda>refresh.
     pget rd_empty (\<lambda>e2. ptry (if \<not> e2 then rd_u8 else pret 0) (\<lambda>suppress.
     pret \<lparr>os_major_type = major, os_minor_type = minor, protocol_version = version, general_compression_types = types,
       extra_flags = extra, update_capability_flag = upd, remote_unshare_flag = unshare, general_compression_level = level,
       refresh_rect_support = refresh, suppress_output_support = suppress\<rparr>)))))))))))))"

definition encode_general :: "caps_general \<Rightarrow> writer \<Rightarrow> writer" where
  "encode_general g w =
     (let w = w_u16le (os_major_type g) w; w = w_u16le (os_minor_type g) w; w = w_u16le (protocol_version g) w;
          w = w_u16le 0 w; w = w_u16le (general_compression_types g) w; w = w_u16le (extra_flags g) w;
          w = w_u16le (update_capability_flag g) w; w = w_u16le (remote_unshare_flag g) w;
          w = w_u16le (general_compression_level g) w; w = w_u8 (refresh_rect_support g) w
      in w_u8 (suppress_output_support g) w)"

definition decode_bitmap :: "caps_bitmap parser" where
  "decode_bitmap = ptry rd_u16le (\<lambda>preferred. ptry rd_u16le (\<lambda>r1. ptry rd_u16le (\<lambda>r4. ptry rd_u16le (\<lambda>r8.
     ptry rd_u16le (\<lambda>width. ptry rd_u16le (\<lambda>height. ptry (rd_skip 2) (\<lambda>_. ptry rd_u16le (\<lambda>resize.
     ptry rd_u16le (\<lambda>compression. ptry rd_u8 (\<lambda>high. ptry rd_u8 (\<lambda>drawing. ptry rd_u16le (\<lambda>multiple.
     pret \<lparr>preferred_bits_per_pixel = preferred, receive_1_bit_per_pixel = r1, receive_4_bits_per_pixel = r4,
       receive_8_bits_per_pixel = r8, bm_desktop_width = width, bm_desktop_height = height, desktop_resize_flag = resize,
       bitmap_compression_flag = compression, high_color_flags = high, drawing_flags = drawing,
       multiple_rectangle_support = multiple\<rparr>))))))))))))"

definition encode_bitmap :: "caps_bitmap \<Rightarrow> writer \<Rightarrow> writer" where
  "encode_bitmap b w =
     (let w = w_u16le (preferred_bits_per_pixel b) w; w = w_u16le (receive_1_bit_per_pixel b) w;
          w = w_u16le (receive_4_bits_per_pixel b) w; w = w_u16le (receive_8_bits_per_pixel b) w;
          w = w_u16le (bm_desktop_width b) w; w = w_u16le (bm_desktop_height b) w; w = w_u16le 0 w;
          w = w_u16le (desktop_resize_flag b) w; w = w_u16le (bitmap_compression_flag b) w;
          w = w_u8 (high_color_flags b) w; w = w_u8 (drawing_flags b) w; w = w_u16le (multiple_rectangle_support b) w
      in w_u16le 0 w)"

definition decode_order :: "caps_order parser" where
  "decode_order = ptry (rd_bytes 16) (\<lambda>descriptor. ptry (rd_skip 4) (\<lambda>_. ptry rd_u16le (\<lambda>gx. ptry rd_u16le (\<lambda>gy.
     ptry (rd_skip 2) (\<lambda>_. ptry rd_u16le (\<lambda>level. ptry rd_u16le (\<lambda>fonts. ptry rd_u16le (\<lambda>flags.
     ptry (rd_bytes 32) (\<lambda>support. ptry rd_u16le (\<lambda>tflags. ptry rd_u16le (\<lambda>ex. ptry (rd_skip 4) (\<lambda>_.
     ptry rd_u32le (\<lambda>save. ptry (rd_skip 4) (\<lambda>_. ptry rd_u16le (\<lambda>page.
     pret \<lparr>terminal_descriptor = descriptor, desktop_save_x_granularity = gx, desktop_save_y_granularity = gy,
       maximum_order_level = level, number_fonts = fonts, order_flags = flags, order_support = support, text_flags = tflags,
       order_support_ex_flags = ex, desktop_save_size = save, text_ansi_code_page = page\<rparr>)))))))))))))))"

definition encode_order :: "caps_order \<Rightarrow> writer \<Rightarrow> writer" where
  "encode_order d w =
     (let w = w_bytes (terminal_descriptor d) w; w = w_zeros 4 w; w = w_u16le (desktop_save_x_granularity d) w;
          w = w_u16le (desktop_save_y_granularity d) w; w = w_zeros 2 w; w = w_u16le (maximum_order_level d) w;
          w = w_u16le (number_fonts d) w; w = w_u16le (order_flags d) w; w = fold w_u8 (order_support d) w;
          w = w_u16le (text_flags d) w; w = w_u16le (order_support_ex_flags d) w; w = w_zeros 4 w;
          w = w_u32le (desktop_save_size d) w; w = w_zeros 4 w; w = w_u16le (text_ansi_code_page d) w
      in w_zeros 2 w)"

definition decode_pointer :: "caps_pointer parser" where
  "decode_pointer = ptry rd_u16le (\<lambda>flag. ptry rd_u16le (\<lambda>color_size. pget rd_empty (\<lambda>e.
     ptry (if \<not> e then ptry rd_u16le (\<lambda>v. pret (Some v)) else pret None) (\<lambda>cache.
     pret \<lparr>color_pointer_flag = flag, color_pointer_cache_size = color_size, pointer_cache_size = cache\<rparr>))))"

definition encode_pointer :: "caps_pointer \<Rightarrow> writer \<Rightarrow> writer" where
  "encode_pointer p w =
     (let w = w_u16le (color_pointer_flag p) w; w = w_u16le (color_pointer_cache_size p) w
      in case pointer_cache_size p of None \<Rightarrow> w | Some v \<Rightarrow> w_u16le v w)"

definition decode_input :: "caps_input parser" where
  "decode_input = ptry rd_u16le (\<lambda>flags. ptry (rd_skip 2) (\<lambda>_. ptry rd_u32le (\<lambda>layout. ptry rd_u32le (\<lambda>type.
     ptry rd_u32le (\<lambda>subtype. ptry rd_u32le (\<lambda>keys. ptry (rd_bytes ime_file_name_size) (\<lambda>ime.
     pret \<lparr>input_flags = flags, keyboard_layout = layout, keyboard_type = type, keyboard_subtype = subtype,
       keyboard_function_keys = keys, ime_file_name = utf16le_to_utf8 ime\<rparr>)))))))"

definition encode_input :: "caps_input \<Rightarrow> writer \<Rightarrow> writer" where
  "encode_input d w =
     (let w = w_u16le (input_flags d) w; w = w_u16le 0 w; w = w_u32le (keyboard_layout d) w;
          w = w_u32le (keyboard_type d) w; w = w_u32le (keyboard_subtype d) w;
          w = w_u32le (keyboard_function_keys d) w;
          ime = utf8_to_utf16le (ime_file_name d);
          ime = take (min (length ime) (ime_file_name_size - 2)) ime;
          w = w_bytes ime w
      in w_zeros (ime_file_name_size - length ime) w)"

definition decode_virtual_channel :: "caps_virtual_channel parser" where
  "decode_virtual_channel = ptry rd_u32le (\<lambda>flags. pget rd_empty (\<lambda>e.
     ptry (if \<not> e then ptry rd_u32le (\<lambda>v. pret (Some v)) else pret None) (\<lambda>chunk.
     pret \<lparr>vc_flags = flags, vc_chunk_size = chunk\<rparr>)))"

definition encode_virtual_channel :: "caps_virtual_channel \<Rightarrow> writer \<Rightarrow> writer" where
  "encode_virtual_channel v w =
     (let w = w_u32le (vc_flags v) w in case vc_chunk_size v of None \<Rightarrow> w | Some c \<Rightarrow> w_u32le c w)"

definition decode_share :: "caps_share parser" where
  "decode_share = ptry rd_u16le (\<lambda>v. pret \<lparr>node_id = v\<rparr>)"

definition decode_font :: "caps_font parser" where
  "decode_font = pget rd_empty (\<lambda>e. if e then pret \<lparr>font_support_flags = 1\<rparr>
     else ptry rd_u16le (\<lambda>v. pret \<lparr>font_support_flags = v\<rparr>))"

definition decode_color_cache :: "caps_color_cache parser" where
  "decode_color_cache = ptry rd_u16le (\<lambda>v. pret \<lparr>cache_size = v\<rparr>)"

definition decode_multifragment_update :: "caps_multifragment_update parser" where
  "decode_multifragment_update = ptry rd_u32le (\<lambda>v. pret \<lparr>max_request_size = v\<rparr>)"

definition decode_large_pointer :: "caps_large_pointer parser" where
  "decode_large_pointer = ptry rd_u16le (\<lambda>v. pret \<lparr>lp_support_flags = v\<rparr>)"

definition decode_surface_commands :: "caps_surface_commands parser" where
  "decode_surface_commands = ptry rd_u32le (\<lambda>v. pret \<lparr>cmd_flags = v\<rparr>)"

definition decode_frame_acknowledge :: "caps_frame_acknowledge parser" where
  "decode_frame_acknowledge = ptry rd_u32le (\<lambda>v. pret \<lparr>max_unacknowledged_frame_count = v\<rparr>)"

definition keep_first :: "'a \<Rightarrow> 'a option \<Rightarrow> 'a option" where
  "keep_first v slot = (case slot of None \<Rightarrow> Some v | Some x \<Rightarrow> Some x)"

text \<open>The slot is named by its update function.\<close>

definition decode_into ::
    "(('a option \<Rightarrow> 'a option) \<Rightarrow> capability_sets \<Rightarrow> capability_sets) \<Rightarrow> 'a parser \<Rightarrow> reader \<Rightarrow> capability_sets \<Rightarrow>
      capability_sets parser" where
  "decode_into slot_update decode body sets =
     ptry (pwith body decode) (\<lambda>v. pret (slot_update (keep_first v) sets))"

text \<open>The \<open>switch\<close> of \<open>decode_capability_sets\<close>.\<close>

definition decode_capability_body :: "u16 \<Rightarrow> reader \<Rightarrow> capability_sets \<Rightarrow> capability_sets parser" where
  "decode_capability_body set_type body sets =
     (if set_type = type_general then decode_into cs_general_update decode_general body sets
      else if set_type = type_bitmap then decode_into cs_bitmap_update decode_bitmap body sets
      else if set_type = type_order then decode_into cs_order_update decode_order body sets
      else if set_type = type_pointer then decode_into cs_pointer_update decode_pointer body sets
      else if set_type = type_input then decode_into cs_input_update decode_input body sets
      else if set_type = type_virtual_channel
      then decode_into cs_virtual_channel_update decode_virtual_channel body sets
      else if set_type = type_share then decode_into cs_share_update decode_share body sets
      else if set_type = type_font then decode_into cs_font_update decode_font body sets
      else if set_type = type_color_cache then decode_into cs_color_cache_update decode_color_cache body sets
      else if set_type = type_multifragment_update
      then decode_into cs_multifragment_update_update decode_multifragment_update body sets
      else if set_type = type_large_pointer then decode_into cs_large_pointer_update decode_large_pointer body sets
      else if set_type = type_surface_commands
      then decode_into cs_surface_commands_update decode_surface_commands body sets
      else if set_type = type_frame_acknowledge
      then decode_into cs_frame_acknowledge_update decode_frame_acknowledge body sets
      else pret (sets\<lparr>cs_other := cs_other sets @ [\<lparr>raw_type = set_type, raw_body = rd_rest body\<rparr>]\<rparr>))"

text \<open>The body of the loop.\<close>

definition decode_capability_set :: "capability_sets \<Rightarrow> capability_sets parser" where
  "decode_capability_set sets = pget rd_offset (\<lambda>start. ptry rd_u16le (\<lambda>set_type. ptry rd_u16le (\<lambda>n.
     if unat n < header_size then pfail InvalidLength ''capability set shorter than its header'' start
     else ptry (rd_sub (unat n - header_size)) (\<lambda>body. decode_capability_body set_type body sets))))"

fun decode_capability_loop :: "nat \<Rightarrow> capability_sets \<Rightarrow> capability_sets parser" where
  "decode_capability_loop 0 sets = pret sets"
| "decode_capability_loop (Suc n) sets = ptry (decode_capability_set sets) (decode_capability_loop n)"

definition decode_capability_sets :: "u16 \<Rightarrow> capability_sets parser" where
  "decode_capability_sets count = decode_capability_loop (unat count) no_capability_sets"

definition begin_set :: "u16 \<Rightarrow> writer \<Rightarrow> nat \<times> writer" where
  "begin_set set_type w = (length w, w_u16le 0 (w_u16le set_type w))"

definition end_set :: "nat \<Rightarrow> writer \<Rightarrow> writer option" where
  "end_set start w = do {
     let n = length w - start;
     wassert (n \<le> 0xFFFF);
     w_patch_u16le (start + 2) (of_nat n) w
   }"

text \<open>The lambda \<open>emit\<close> of \<open>encode_capability_sets\<close>, on the buffer and the counter.\<close>

definition emit :: "u16 \<Rightarrow> (writer \<Rightarrow> writer) \<Rightarrow> writer \<times> u16 \<Rightarrow> (writer \<times> u16) option" where
  "emit set_type body st = do {
     let (start, w) = begin_set set_type (fst st);
     w \<leftarrow> end_set start (body w);
     Some (w, snd st + 1)
   }"

definition emit_slot :: "u16 \<Rightarrow> ('a \<Rightarrow> writer \<Rightarrow> writer) \<Rightarrow> 'a option \<Rightarrow> writer \<times> u16 \<Rightarrow> (writer \<times> u16) option" where
  "emit_slot set_type body slot st = (case slot of None \<Rightarrow> Some st | Some x \<Rightarrow> emit set_type (body x) st)"

fun emit_others :: "raw_capability_set list \<Rightarrow> writer \<times> u16 \<Rightarrow> (writer \<times> u16) option" where
  "emit_others [] st = Some st"
| "emit_others (raw # rest) st = do {
     st \<leftarrow> emit (raw_type raw) (w_bytes (raw_body raw)) st;
     emit_others rest st
   }"

definition encode_capability_sets :: "capability_sets \<Rightarrow> writer \<Rightarrow> (writer \<times> u16) option" where
  "encode_capability_sets sets w = do {
     st \<leftarrow> emit_slot type_general encode_general (cs_general sets) (w, 0);
     st \<leftarrow> emit_slot type_bitmap encode_bitmap (cs_bitmap sets) st;
     st \<leftarrow> emit_slot type_order encode_order (cs_order sets) st;
     st \<leftarrow> emit_slot type_pointer encode_pointer (cs_pointer sets) st;
     st \<leftarrow> emit_slot type_input encode_input (cs_input sets) st;
     st \<leftarrow> emit_slot type_virtual_channel encode_virtual_channel (cs_virtual_channel sets) st;
     st \<leftarrow> emit_slot type_share (\<lambda>s w. w_u16le 0 (w_u16le (node_id s) w)) (cs_share sets) st;
     st \<leftarrow> emit_slot type_font (\<lambda>s w. w_u16le 0 (w_u16le (font_support_flags s) w)) (cs_font sets) st;
     st \<leftarrow> emit_slot type_color_cache (\<lambda>s w. w_u16le 0 (w_u16le (cache_size s) w)) (cs_color_cache sets) st;
     st \<leftarrow> emit_slot type_multifragment_update (\<lambda>s. w_u32le (max_request_size s)) (cs_multifragment_update sets) st;
     st \<leftarrow> emit_slot type_large_pointer (\<lambda>s. w_u16le (lp_support_flags s)) (cs_large_pointer sets) st;
     st \<leftarrow> emit_slot type_surface_commands (\<lambda>s w. w_u32le 0 (w_u32le (cmd_flags s) w)) (cs_surface_commands sets) st;
     st \<leftarrow> emit_slot type_frame_acknowledge (\<lambda>s. w_u32le (max_unacknowledged_frame_count s)) (cs_frame_acknowledge sets) st;
     emit_others (cs_other sets) st
   }"

section \<open>Staying inside the input\<close>

lemma caps_safe_parts [safe_intros]: "rd_safe (decode_into upd dec body sets)" "rd_safe (decode_capability_set sets)"
  unfolding decode_into_def decode_capability_set_def decode_capability_body_def by (intro safe_intros)+

lemma safe_capability_loop [safe_intros]: "rd_safe (decode_capability_loop n sets)"
  by (induction n arbitrary: sets) (auto intro!: safe_intros)

lemma capabilities_safe [safe_intros]: "rd_safe (decode_capability_sets count)"
  unfolding decode_capability_sets_def by (intro safe_intros)

section \<open>One capability set\<close>

definition set_enc :: "u16 \<times> bytes \<Rightarrow> bytes" where
  "set_enc item = le_bytes 2 (fst item) @ le_bytes 2 (of_nat (length (snd item) + 4) :: u16) @ snd item"

lemma emit_enc:
  assumes "\<And>w. body w = w @ bs" "length bs + 4 \<le> 0xFFFF"
  shows "emit ty body (w, c) = Some (w @ set_enc (ty, bs), c + 1)"
proof -
  have "end_set (length w) (w @ le_bytes 2 ty @ le_bytes 2 (0 :: u16) @ bs) = Some (w @ set_enc (ty, bs))"
    using assms(2)
    by (simp add: end_set_def wassert_def w_patch_u16le_def w_patch_le_eq set_enc_def del: of_nat_add)
      (simp add: ac_simps)
  then show ?thesis by (simp add: emit_def begin_set_def wr_simps assms(1))
qed

lemma decode_capability_set_enc:
  assumes "rd_wf r" "rd_rest r = set_enc (ty, bs) @ ys" "length bs + 4 \<le> 0xFFFF"
  shows "decode_capability_set sets r =
    decode_capability_body ty (mk_reader bs (rd_offset r + 4)) sets (rd_advance (length (set_enc (ty, bs))) r)"
proof -
  have "unat (of_nat (length bs + 4) :: u16) = length bs + 4"
    using assms(3) by (simp add: unsigned_of_nat take_bit_nat_eq_self del: of_nat_add)
  with assms(2) show ?thesis
    by (simp add: decode_capability_set_def set_enc_def rd_simps header_size_def eval_nat_numeral del: of_nat_add)
qed

text \<open>The loop over a list of sets takes one value of the slots to another.\<close>

definition cap_reads :: "capability_sets \<Rightarrow> (u16 \<times> bytes) list \<Rightarrow> capability_sets \<Rightarrow> bool" where
  "cap_reads s items s' \<longleftrightarrow> (\<forall>r ys. rd_wf r \<longrightarrow> rd_rest r = concat (map set_enc items) @ ys \<longrightarrow>
     decode_capability_loop (length items) s r = (Inr s', rd_advance (length (concat (map set_enc items))) r))"

lemma cap_reads_Nil: "cap_reads s [] s"
  by (simp add: cap_reads_def pret_def)

lemma capability_loop_add:
  "decode_capability_loop (n + m) s r = ptry (decode_capability_loop n s) (decode_capability_loop m) r"
proof (induction n arbitrary: s r)
  case (Suc n)
  then show ?case by (auto simp: ptry_def split: prod.splits sum.splits)
qed (simp add: ptry_def pret_def)

lemma cap_reads_append:
  assumes "cap_reads s xs t" "cap_reads t ys u"
  shows "cap_reads s (xs @ ys) u"
  unfolding cap_reads_def
proof (intro allI impI)
  fix r zs assume r: "rd_wf r" "rd_rest r = concat (map set_enc (xs @ ys)) @ zs"
  let ?n = "length (concat (map set_enc xs))"
  have "decode_capability_loop (length xs) s r = (Inr t, rd_advance ?n r)"
    using assms(1) r by (simp add: cap_reads_def)
  moreover have "decode_capability_loop (length ys) t (rd_advance ?n r) =
      (Inr u, rd_advance (length (concat (map set_enc ys))) (rd_advance ?n r))"
    using assms(2)[unfolded cap_reads_def, rule_format, of "rd_advance ?n r" zs] r by simp
  ultimately show "decode_capability_loop (length (xs @ ys)) s r = (Inr u, rd_advance (length (concat (map set_enc (xs @ ys)))) r)"
    by (simp add: capability_loop_add ptry_def)
qed

lemma cap_reads_single:
  assumes "\<And>b r. decode_capability_body ty (mk_reader bs b) s r = (Inr s', r)" "length bs + 4 \<le> 0xFFFF"
  shows "cap_reads s [(ty, bs)] s'"
  using assms by (simp add: cap_reads_def decode_capability_set_enc ptry_def pret_def)

section \<open>The contract of a slot\<close>

text \<open>
  A slot of \<open>CapabilitySets\<close>: its type on the wire, how its body is written and read, and the selector and
  update of the slot. What the encoder emits for the slot, the decoder puts back into it.
\<close>

definition slot_items :: "u16 \<Rightarrow> ('a \<Rightarrow> writer \<Rightarrow> writer) \<Rightarrow> 'a option \<Rightarrow> (u16 \<times> bytes) list" where
  "slot_items ty body slot = (case slot of None \<Rightarrow> [] | Some x \<Rightarrow> [(ty, body x [])])"

locale capability_slot =
  fixes ty :: u16
    and body :: "'a \<Rightarrow> writer \<Rightarrow> writer"
    and dec :: "'a parser"
    and ok :: "'a \<Rightarrow> bool"
    and sel :: "capability_sets \<Rightarrow> 'a option"
    and upd :: "('a option \<Rightarrow> 'a option) \<Rightarrow> capability_sets \<Rightarrow> capability_sets"
  assumes body_app: "body x w = w @ body x []"
    and body_size: "ok x \<Longrightarrow> length (body x []) \<le> 1000"
    and dec_body: "ok x \<Longrightarrow> fst (dec (mk_reader (body x []) b)) = Inr x"
    and dispatch: "decode_capability_body ty rest s = decode_into upd dec rest s"
    and upd_cong: "f (sel s) = v \<Longrightarrow> upd f s = upd (\<lambda>_. v) s"
    and upd_same: "upd (\<lambda>_. sel s) s = s"
begin

lemma emit_slot_enc:
  assumes "pred_option ok slot"
  shows "emit_slot ty body slot (w, c) =
    Some (w @ concat (map set_enc (slot_items ty body slot)), c + of_nat (length (slot_items ty body slot)))"
  using assms body_size emit_enc [OF body_app]
  by (cases slot) (fastforce simp: emit_slot_def slot_items_def)+

lemma reads_slot:
  assumes "pred_option ok slot" "sel s = None"
  shows "cap_reads s (slot_items ty body slot) (upd (\<lambda>_. slot) s)"
proof (cases slot)
  case None
  then show ?thesis using upd_same [of s] assms(2) by (simp add: slot_items_def cap_reads_Nil)
next
  case (Some x)
  have "upd (keep_first x) s = upd (\<lambda>_. Some x) s"
    by (rule upd_cong) (simp add: keep_first_def assms(2))
  then have "decode_capability_body ty (mk_reader (body x []) b) s r = (Inr (upd (\<lambda>_. Some x) s), r)" for b r
    using assms(1) Some by (simp add: dispatch decode_into_def rd_simps dec_body)
  with Some assms(1) body_size [of x] show ?thesis by (simp add: slot_items_def cap_reads_single)
qed

lemma reads_then:
  assumes "pred_option ok slot" "sel s = None" "cap_reads (upd (\<lambda>_. slot) s) items t"
  shows "cap_reads s (slot_items ty body slot @ items) t"
  using reads_slot [OF assms(1,2)] assms(3) by (rule cap_reads_append)

end

section \<open>The slots\<close>

lemmas caps_types = type_general_def type_bitmap_def type_order_def type_pointer_def type_share_def type_color_cache_def
  type_input_def type_font_def type_virtual_channel_def type_multifragment_update_def type_large_pointer_def
  type_surface_commands_def type_frame_acknowledge_def

lemma caps_dispatch:
  "decode_capability_body type_general b s = decode_into cs_general_update decode_general b s"
  "decode_capability_body type_bitmap b s = decode_into cs_bitmap_update decode_bitmap b s"
  "decode_capability_body type_order b s = decode_into cs_order_update decode_order b s"
  "decode_capability_body type_pointer b s = decode_into cs_pointer_update decode_pointer b s"
  "decode_capability_body type_input b s = decode_into cs_input_update decode_input b s"
  "decode_capability_body type_virtual_channel b s = decode_into cs_virtual_channel_update decode_virtual_channel b s"
  "decode_capability_body type_share b s = decode_into cs_share_update decode_share b s"
  "decode_capability_body type_font b s = decode_into cs_font_update decode_font b s"
  "decode_capability_body type_color_cache b s = decode_into cs_color_cache_update decode_color_cache b s"
  "decode_capability_body type_multifragment_update b s = decode_into cs_multifragment_update_update decode_multifragment_update b s"
  "decode_capability_body type_large_pointer b s = decode_into cs_large_pointer_update decode_large_pointer b s"
  "decode_capability_body type_surface_commands b s = decode_into cs_surface_commands_update decode_surface_commands b s"
  "decode_capability_body type_frame_acknowledge b s = decode_into cs_frame_acknowledge_update decode_frame_acknowledge b s"
  by (simp_all add: decode_capability_body_def caps_types)

lemma fold_w_u8 [simp]: "fold w_u8 xs w = w @ xs"
  by (induction xs arbitrary: w) (simp_all add: wr_simps)

definition order_ok :: "caps_order \<Rightarrow> bool" where
  "order_ok d \<longleftrightarrow> length (terminal_descriptor d) = 16 \<and> length (order_support d) = 32"

definition input_ok :: "caps_input \<Rightarrow> bool" where
  "input_ok d \<longleftrightarrow> plain_text (ime_file_name d) \<and> length (utf8_to_utf16le (ime_file_name d)) \<le> 62"

lemma ime_padded:
  assumes "input_ok d"
  shows "utf16le_to_utf8 (utf8_to_utf16le (ime_file_name d) @
    replicate (64 - length (utf8_to_utf16le (ime_file_name d))) 0) = ime_file_name d"
proof -
  have "64 - length (utf8_to_utf16le (ime_file_name d)) = Suc (Suc (62 - length (utf8_to_utf16le (ime_file_name d))))"
    using assms unfolding input_ok_def by arith
  with assms show ?thesis by (simp add: input_ok_def plain_text_padded)
qed

lemmas slot_decoders = decode_general_def decode_bitmap_def decode_order_def decode_pointer_def decode_input_def
  decode_virtual_channel_def decode_share_def decode_font_def decode_color_cache_def decode_multifragment_update_def
  decode_large_pointer_def decode_surface_commands_def decode_frame_acknowledge_def

lemmas slot_encoders = encode_general_def encode_bitmap_def encode_order_def encode_pointer_def encode_input_def
  encode_virtual_channel_def

interpretation general: capability_slot type_general encode_general decode_general "\<lambda>_. True" cs_general cs_general_update
  by unfold_locales (simp_all add: caps_dispatch slot_decoders slot_encoders wr_simps rd_simps rd_empty_rest)

interpretation bitmap: capability_slot type_bitmap encode_bitmap decode_bitmap "\<lambda>_. True" cs_bitmap cs_bitmap_update
  by unfold_locales (simp_all add: caps_dispatch slot_decoders slot_encoders wr_simps rd_simps rd_empty_rest)

interpretation order: capability_slot type_order encode_order decode_order order_ok cs_order cs_order_update
  by unfold_locales (simp_all add: caps_dispatch slot_decoders slot_encoders wr_simps rd_simps rd_empty_rest order_ok_def)

interpretation pointer: capability_slot type_pointer encode_pointer decode_pointer "\<lambda>_. True" cs_pointer cs_pointer_update
  by unfold_locales
    (simp_all add: caps_dispatch slot_decoders slot_encoders wr_simps rd_simps rd_empty_rest Let_def split: option.split)

interpretation input: capability_slot type_input encode_input decode_input input_ok cs_input cs_input_update
proof unfold_locales
  fix x b assume x: "input_ok x"
  then have "encode_input x [] = le_bytes 2 (input_flags x) @ le_bytes 2 (0 :: u16) @ le_bytes 4 (keyboard_layout x) @
      le_bytes 4 (keyboard_type x) @ le_bytes 4 (keyboard_subtype x) @ le_bytes 4 (keyboard_function_keys x) @
      (utf8_to_utf16le (ime_file_name x) @ replicate (64 - length (utf8_to_utf16le (ime_file_name x))) 0)"
    by (simp add: encode_input_def wr_simps Let_def ime_file_name_size_def input_ok_def min_absorb1)
  with x show "fst (decode_input (mk_reader (encode_input x []) b)) = Inr x"
    by (simp add: decode_input_def rd_simps ime_padded) (simp add: input_ok_def ime_file_name_size_def rd_simps ime_padded)
qed (simp_all add: caps_dispatch encode_input_def wr_simps Let_def ime_file_name_size_def)

interpretation virtual_channel: capability_slot type_virtual_channel encode_virtual_channel decode_virtual_channel
  "\<lambda>_. True" cs_virtual_channel cs_virtual_channel_update
  by unfold_locales
    (simp_all add: caps_dispatch slot_decoders slot_encoders wr_simps rd_simps rd_empty_rest Let_def split: option.split)

interpretation share: capability_slot type_share "\<lambda>s w. w_u16le 0 (w_u16le (node_id s) w)" decode_share
  "\<lambda>_. True" cs_share cs_share_update
  by unfold_locales (simp_all add: caps_dispatch slot_decoders wr_simps rd_simps)

interpretation font: capability_slot type_font "\<lambda>s w. w_u16le 0 (w_u16le (font_support_flags s) w)" decode_font
  "\<lambda>_. True" cs_font cs_font_update
  by unfold_locales (simp_all add: caps_dispatch slot_decoders wr_simps rd_simps rd_empty_rest)

interpretation color_cache: capability_slot type_color_cache "\<lambda>s w. w_u16le 0 (w_u16le (cache_size s) w)"
  decode_color_cache "\<lambda>_. True" cs_color_cache cs_color_cache_update
  by unfold_locales (simp_all add: caps_dispatch slot_decoders wr_simps rd_simps)

interpretation multifragment_update: capability_slot type_multifragment_update "\<lambda>s. w_u32le (max_request_size s)"
  decode_multifragment_update "\<lambda>_. True" cs_multifragment_update cs_multifragment_update_update
  by unfold_locales (simp_all add: caps_dispatch slot_decoders wr_simps rd_simps)

interpretation large_pointer: capability_slot type_large_pointer "\<lambda>s. w_u16le (lp_support_flags s)"
  decode_large_pointer "\<lambda>_. True" cs_large_pointer cs_large_pointer_update
  by unfold_locales (simp_all add: caps_dispatch slot_decoders wr_simps rd_simps)

interpretation surface_commands: capability_slot type_surface_commands "\<lambda>s w. w_u32le 0 (w_u32le (cmd_flags s) w)"
  decode_surface_commands "\<lambda>_. True" cs_surface_commands cs_surface_commands_update
  by unfold_locales (simp_all add: caps_dispatch slot_decoders wr_simps rd_simps)

interpretation frame_acknowledge: capability_slot type_frame_acknowledge "\<lambda>s. w_u32le (max_unacknowledged_frame_count s)"
  decode_frame_acknowledge "\<lambda>_. True" cs_frame_acknowledge cs_frame_acknowledge_update
  by unfold_locales (simp_all add: caps_dispatch slot_decoders wr_simps rd_simps)

section \<open>All the sets\<close>

definition known_types :: "u16 list" where
  "known_types = [type_general, type_bitmap, type_order, type_pointer, type_input, type_virtual_channel, type_share,
     type_font, type_color_cache, type_multifragment_update, type_large_pointer, type_surface_commands,
     type_frame_acknowledge]"

definition raw_ok :: "raw_capability_set \<Rightarrow> bool" where
  "raw_ok raw \<longleftrightarrow> raw_type raw \<notin> set known_types \<and> length (raw_body raw) + 4 \<le> 0xFFFF"

abbreviation raw_item :: "raw_capability_set \<Rightarrow> u16 \<times> bytes" where
  "raw_item raw \<equiv> (raw_type raw, raw_body raw)"

lemma emit_others_enc:
  "list_all raw_ok raws \<Longrightarrow>
   emit_others raws (w, c) = Some (w @ concat (map set_enc (map raw_item raws)), c + of_nat (length raws))"
proof (induction raws arbitrary: w c)
  case (Cons raw raws)
  then show ?case
    using emit_enc [of "w_bytes (raw_body raw)" "raw_body raw" "raw_type raw" w c] by (simp add: raw_ok_def wr_simps)
qed simp

lemma reads_others:
  "list_all raw_ok raws \<Longrightarrow> cap_reads s (map raw_item raws) (s\<lparr>cs_other := cs_other s @ raws\<rparr>)"
proof (induction raws arbitrary: s)
  case (Cons raw raws)
  have "cap_reads s [raw_item raw] (s\<lparr>cs_other := cs_other s @ [raw]\<rparr>)"
    using Cons.prems by (intro cap_reads_single) (auto simp: raw_ok_def known_types_def decode_capability_body_def pret_def)
  from cap_reads_append [OF this Cons.IH] Cons.prems show ?case by simp
qed (simp add: cap_reads_Nil)

definition caps_items :: "capability_sets \<Rightarrow> (u16 \<times> bytes) list" where
  "caps_items s =
     slot_items type_general encode_general (cs_general s) @ slot_items type_bitmap encode_bitmap (cs_bitmap s) @
     slot_items type_order encode_order (cs_order s) @ slot_items type_pointer encode_pointer (cs_pointer s) @
     slot_items type_input encode_input (cs_input s) @
     slot_items type_virtual_channel encode_virtual_channel (cs_virtual_channel s) @
     slot_items type_share (\<lambda>s w. w_u16le 0 (w_u16le (node_id s) w)) (cs_share s) @
     slot_items type_font (\<lambda>s w. w_u16le 0 (w_u16le (font_support_flags s) w)) (cs_font s) @
     slot_items type_color_cache (\<lambda>s w. w_u16le 0 (w_u16le (cache_size s) w)) (cs_color_cache s) @
     slot_items type_multifragment_update (\<lambda>s. w_u32le (max_request_size s)) (cs_multifragment_update s) @
     slot_items type_large_pointer (\<lambda>s. w_u16le (lp_support_flags s)) (cs_large_pointer s) @
     slot_items type_surface_commands (\<lambda>s w. w_u32le 0 (w_u32le (cmd_flags s) w)) (cs_surface_commands s) @
     slot_items type_frame_acknowledge (\<lambda>s. w_u32le (max_unacknowledged_frame_count s)) (cs_frame_acknowledge s) @
     map raw_item (cs_other s)"

definition caps_enc :: "capability_sets \<Rightarrow> bytes" where
  "caps_enc s = concat (map set_enc (caps_items s))"

definition caps_ok :: "capability_sets \<Rightarrow> bool" where
  "caps_ok s \<longleftrightarrow> pred_option order_ok (cs_order s) \<and> pred_option input_ok (cs_input s) \<and> list_all raw_ok (cs_other s)"

lemma pred_option_True [simp]: "pred_option (\<lambda>_. True) x"
  by (cases x) simp_all

lemma encode_capability_sets_enc:
  assumes "caps_ok s"
  shows "encode_capability_sets s w = Some (w @ caps_enc s, of_nat (length (caps_items s)))"
  using assms unfolding encode_capability_sets_def caps_ok_def caps_enc_def caps_items_def
  by (simp add: general.emit_slot_enc bitmap.emit_slot_enc order.emit_slot_enc pointer.emit_slot_enc input.emit_slot_enc
      virtual_channel.emit_slot_enc share.emit_slot_enc font.emit_slot_enc color_cache.emit_slot_enc
      multifragment_update.emit_slot_enc large_pointer.emit_slot_enc surface_commands.emit_slot_enc
      frame_acknowledge.emit_slot_enc emit_others_enc ac_simps)

lemma caps_items_read:
  assumes "caps_ok s"
  shows "cap_reads no_capability_sets (caps_items s) s"
proof -
  let ?t = "no_capability_sets\<lparr>cs_general := cs_general s, cs_bitmap := cs_bitmap s, cs_order := cs_order s,
    cs_pointer := cs_pointer s, cs_input := cs_input s, cs_virtual_channel := cs_virtual_channel s, cs_share := cs_share s,
    cs_font := cs_font s, cs_color_cache := cs_color_cache s, cs_multifragment_update := cs_multifragment_update s,
    cs_large_pointer := cs_large_pointer s, cs_surface_commands := cs_surface_commands s,
    cs_frame_acknowledge := cs_frame_acknowledge s\<rparr>"
  have "?t\<lparr>cs_other := cs_other ?t @ cs_other s\<rparr> = s" by (simp add: no_capability_sets_def)
  then have "cap_reads ?t (map raw_item (cs_other s)) s"
    using reads_others [of "cs_other s" ?t] assms by (simp only: caps_ok_def)
  then show ?thesis
    unfolding caps_items_def
    by (intro general.reads_then bitmap.reads_then order.reads_then pointer.reads_then input.reads_then
        virtual_channel.reads_then share.reads_then font.reads_then color_cache.reads_then multifragment_update.reads_then
        large_pointer.reads_then surface_commands.reads_then frame_acknowledge.reads_then)
      (use assms in \<open>simp_all add: caps_ok_def no_capability_sets_def\<close>)
qed

interpretation capabilities: codec "\<lambda>s w. map_option fst (encode_capability_sets s w)"
  "decode_capability_sets (of_nat n)"
  "\<lambda>s. caps_ok s \<and> length (caps_items s) = n \<and> n \<le> 0xFFFF" caps_enc
  for n :: nat
proof unfold_locales
  fix s r ys assume "caps_ok s \<and> length (caps_items s) = n \<and> n \<le> 0xFFFF" and r: "rd_wf r" "rd_rest r = caps_enc s @ ys"
  then have s: "caps_ok s" "length (caps_items s) = n" "unat (of_nat n :: u16) = n"
    by (simp_all add: unsigned_of_nat take_bit_nat_eq_self)
  then show "decode_capability_sets (of_nat n) r = (Inr s, rd_advance (length (caps_enc s)) r)"
    using caps_items_read [OF s(1)] r by (simp add: decode_capability_sets_def cap_reads_def caps_enc_def)
qed (simp add: encode_capability_sets_enc)

section \<open>Properties\<close>

text \<open>
Capability sets survive the wire: the encoder writes every present set, returns how many it wrote, and the
  decoder, given that count and whatever follows, gives every slot back, the sets it does not know included.
\<close>

theorem capabilities_roundtrip:
  assumes "caps_ok s" "length (caps_items s) \<le> 0xFFFF"
  shows "\<exists>bs count. encode_capability_sets s w = Some (w @ bs, count) \<and> unat count = length (caps_items s) \<and>
    decode_capability_sets count (mk_reader (bs @ ys) b) = (Inr s, rd_advance (length bs) (mk_reader (bs @ ys) b))"
proof -
  let ?n = "length (caps_items s)"
  have "decode_capability_sets (of_nat ?n) (mk_reader (caps_enc s @ ys) b) =
      (Inr s, rd_advance (length (caps_enc s)) (mk_reader (caps_enc s @ ys) b))"
    using assms capabilities.rd_enc [of s ?n "mk_reader (caps_enc s @ ys) b" ys] by simp
  moreover have "unat (of_nat ?n :: u16) = ?n" using assms(2) by (simp add: unsigned_of_nat take_bit_nat_eq_self)
  ultimately show ?thesis using encode_capability_sets_enc [OF assms(1), of w] by blast
qed

theorem capabilities_roundtrip_witness:
  "let s = no_capability_sets\<lparr>cs_share := Some \<lparr>node_id = 0x03EA\<rparr>,
       cs_input := Some \<lparr>input_flags = 1, keyboard_layout = 0x409, keyboard_type = 4, keyboard_subtype = 0,
         keyboard_function_keys = 12, ime_file_name = []\<rparr>,
       cs_other := [\<lparr>raw_type = 16, raw_body = [1, 2]\<rparr>]\<rparr>
   in \<exists>bs count. encode_capability_sets s [] = Some ([] @ bs, count) \<and> unat count = length (caps_items s) \<and>
     decode_capability_sets count (mk_reader (bs @ [7]) 0) = (Inr s, rd_advance (length bs) (mk_reader (bs @ [7]) 0))"
proof -
  let ?s = "no_capability_sets\<lparr>cs_share := Some \<lparr>node_id = 0x03EA\<rparr>,
       cs_input := Some \<lparr>input_flags = 1, keyboard_layout = 0x409, keyboard_type = 4, keyboard_subtype = 0,
         keyboard_function_keys = 12, ime_file_name = []\<rparr>,
       cs_other := [\<lparr>raw_type = 16, raw_body = [1, 2]\<rparr>]\<rparr>"
  have "caps_ok ?s"
    by (simp add: caps_ok_def no_capability_sets_def input_ok_def raw_ok_def known_types_def caps_types utf8_to_utf16le_def)
  moreover have "length (caps_items ?s) \<le> 0xFFFF" by (simp add: caps_items_def no_capability_sets_def slot_items_def)
  ultimately show ?thesis unfolding Let_def by (rule capabilities_roundtrip)
qed

end
