(* ===== verification/Framing.thy ===== *)
theory Framing
  imports Per
begin

text \<open>
  \<open>proto/framing.cpp\<close>: how the receive loop cuts the byte stream into TPKT and fast-path PDUs.
  The lemmas state what makes the loop sound: a frame once announced does not change as more
  bytes arrive, its length is at least its own header, and four buffered bytes always decide.
\<close>

section \<open>Model\<close>

datatype frame_kind = FrameTpkt | FrameFastpath

record frame_info =
  fi_kind :: frame_kind
  fi_length :: nat

definition tpkt_header_size :: nat where "tpkt_header_size = 4"
definition max_tpkt_size :: nat where "max_tpkt_size = 0xFFFF"

definition peek_frame :: "bytes \<Rightarrow> frame_info option result" where
  "peek_frame buffered =
     (if buffered = [] then Inr None
      else let first = buffered ! 0 in
        if first = 0x03 then
          if length buffered < tpkt_header_size then Inr None
          else let n = push_bit 8 (unat (buffered ! 2)) OR unat (buffered ! 3) in
            if n < tpkt_header_size + 3
            then fail InvalidLength ''TPKT shorter than the smallest X.224 TPDU'' 2
            else Inr (Some \<lparr>fi_kind = FrameTpkt, fi_length = n\<rparr>)
        else if first AND 0x03 = 0 then
          if length buffered < 2 then Inr None
          else let length1 = buffered ! 1 in
            if length1 AND 0x80 = 0 then
              if unat length1 < 2
              then fail InvalidLength ''fast-path PDU shorter than its header'' 1
              else Inr (Some \<lparr>fi_kind = FrameFastpath, fi_length = unat length1\<rparr>)
            else if length buffered < 3 then Inr None
            else let n = push_bit 8 (unat (length1 AND 0x7F)) OR unat (buffered ! 2) in
              if n < 3 then fail InvalidLength ''fast-path PDU shorter than its header'' 1
              else Inr (Some \<lparr>fi_kind = FrameFastpath, fi_length = n\<rparr>)
        else fail InvalidValue ''neither a TPKT nor a fast-path PDU'' 0)"

text \<open>The loop of \<open>Connection::receive\<close>: complete frames are cut off the front of the input.\<close>

function split_frames :: "bytes \<Rightarrow> error option \<times> (frame_kind \<times> bytes) list \<times> bytes" where
  "split_frames input = (case peek_frame input of
     Inl e \<Rightarrow> (Some e, [], input)
   | Inr None \<Rightarrow> (None, [], input)
   | Inr (Some f) \<Rightarrow>
       if length input < fi_length f \<or> fi_length f = 0 then (None, [], input)
       else let (e, fs, rest) = split_frames (drop (fi_length f) input)
            in (e, (fi_kind f, take (fi_length f) input) # fs, rest))"
  by pat_completeness auto
termination
  by (relation "measure length") auto

declare split_frames.simps [simp del]

section \<open>Frames are well formed\<close>

lemma be16_bound: "256 * unat (a :: byte) + unat (b :: byte) \<le> 65535" "256 * (unat a mod 128) + unat b \<le> 65535"
  using byte_less_256 [of a] byte_less_256 [of b] mod_less_eq_dividend [of "unat a" 128] by linarith+

lemma list4_cases:
  obtains "bs = []" | a where "bs = [a]" | a b where "bs = [a, b]" | a b c where "bs = [a, b, c]"
    | a b c d ds where "bs = a # b # c # d # ds"
  by (metis list.exhaust)

lemma peek_frame_length:
  assumes "peek_frame bs = Inr (Some f)"
  shows "(case fi_kind f of FrameTpkt \<Rightarrow> 7 | FrameFastpath \<Rightarrow> 2) \<le> fi_length f \<and> fi_length f \<le> max_tpkt_size"
  using assms
  by (auto simp: peek_frame_def Let_def nat_or_256 byte_masks tpkt_header_size_def max_tpkt_size_def be16_bound
      split: if_splits)

lemma peek_frame_append:
  assumes "peek_frame bs \<noteq> Inr None"
  shows "peek_frame (bs @ ys) = peek_frame bs"
  using assms
  by (cases bs rule: list4_cases)
    (auto simp: peek_frame_def Let_def tpkt_header_size_def nth_append split: if_splits)

lemma peek_frame_None_short: "peek_frame bs = Inr None \<Longrightarrow> length bs < 4"
  by (auto simp: peek_frame_def Let_def tpkt_header_size_def split: if_splits)

lemma peek_frame_positive: "peek_frame bs = Inr (Some f) \<Longrightarrow> 0 < fi_length f"
  using peek_frame_length [of bs f] by (cases "fi_kind f") auto

section \<open>Framing does not depend on how the stream is cut\<close>

text \<open>
  Framing what arrived first and then the rest gives the same PDUs, the same left-over bytes and
  the same error as framing everything at once.
\<close>

definition frames_then :: "error option \<times> (frame_kind \<times> bytes) list \<times> bytes \<Rightarrow> bytes \<Rightarrow>
    error option \<times> (frame_kind \<times> bytes) list \<times> bytes" where
  "frames_then st ys = (case st of
     (Some e, fs, rest) \<Rightarrow> (Some e, fs, rest @ ys)
   | (None, fs, rest) \<Rightarrow> let (e, gs, rest') = split_frames (rest @ ys) in (e, fs @ gs, rest'))"

lemma split_frames_append: "split_frames (xs @ ys) = frames_then (split_frames xs) ys"
proof (induction xs rule: split_frames.induct)
  case (1 xs)
  show ?case
  proof (cases "peek_frame xs")
    case (Inl e)
    then have "peek_frame (xs @ ys) = Inl e" by (simp add: peek_frame_append)
    with Inl show ?thesis by (simp add: split_frames.simps frames_then_def)
  next
    case (Inr found)
    show ?thesis
    proof (cases found)
      case None
      with Inr show ?thesis by (simp add: split_frames.simps [of xs] frames_then_def)
    next
      case (Some f)
      with Inr have peek: "peek_frame xs = Inr (Some f)" "peek_frame (xs @ ys) = Inr (Some f)"
        by (simp_all add: peek_frame_append)
      show ?thesis
      proof (cases "length xs < fi_length f")
        case True
        with peek show ?thesis by (simp add: split_frames.simps [of xs] frames_then_def)
      next
        case False
        let ?ys = "drop (fi_length f) xs"
        have "split_frames (?ys @ ys) = frames_then (split_frames ?ys) ys"
          using 1 peek False peek_frame_positive [OF peek(1)] by simp
        moreover have "drop (fi_length f) (xs @ ys) = ?ys @ ys" "take (fi_length f) (xs @ ys) = take (fi_length f) xs"
          using False by simp_all
        ultimately show ?thesis
          using peek False peek_frame_positive [OF peek(1)]
          by (simp add: split_frames.simps [of xs] split_frames.simps [of "xs @ ys"] frames_then_def
              split: prod.splits option.splits)
      qed
    qed
  qed
qed

lemma split_frames_lengths: "list_all (\<lambda>(k, f). 2 \<le> length f \<and> length f \<le> max_tpkt_size) (fst (snd (split_frames xs)))"
proof (induction xs rule: split_frames.induct)
  case (1 xs)
  have "2 \<le> fi_length f \<and> fi_length f \<le> max_tpkt_size" if "peek_frame xs = Inr (Some f)" for f
    using peek_frame_length [OF that] by (cases "fi_kind f") auto
  with 1 show ?case
    by (auto simp: split_frames.simps [of xs] split: sum.split option.split prod.split)
qed

section \<open>A sequence of PDUs is cut where it was put together\<close>

definition is_frame :: "frame_kind \<Rightarrow> bytes \<Rightarrow> bool" where
  "is_frame k f \<longleftrightarrow> 0 < length f \<and> (\<forall>ys. peek_frame (f @ ys) = Inr (Some \<lparr>fi_kind = k, fi_length = length f\<rparr>))"

lemma split_frames_Cons:
  "is_frame k f \<Longrightarrow> split_frames (f @ ys) = (let (e, fs, rest) = split_frames ys in (e, (k, f) # fs, rest))"
  by (simp add: split_frames.simps [of "f @ ys"] is_frame_def)

lemma split_frames_Nil [simp]: "split_frames [] = (None, [], [])"
  by (simp add: split_frames.simps peek_frame_def)

lemma split_frames_concat:
  "list_all (\<lambda>(k, f). is_frame k f) fs \<Longrightarrow> split_frames (concat (map snd fs)) = (None, fs, [])"
  by (induction fs) (auto simp: split_frames_Cons)

section \<open>Properties\<close>

text \<open>
  C29: Framing does not depend on how the transport cuts the stream: framing what has arrived, keeping what
  is left and framing it together with what arrives next gives the same PDUs, the same remaining bytes and
  the same error as framing everything at once; every PDU has between 2 and 65535 octets.
\<close>

theorem framing_chunk_independent:
  "split_frames (xs @ ys) = (case split_frames xs of
     (Some e, fs, rest) \<Rightarrow> (Some e, fs, rest @ ys)
   | (None, fs, rest) \<Rightarrow> let (e, gs, rest') = split_frames (rest @ ys) in (e, fs @ gs, rest')) \<and>
   list_all (\<lambda>(k, f). 2 \<le> length f \<and> length f \<le> max_tpkt_size) (fst (snd (split_frames xs)))"
  using split_frames_append [of xs ys] split_frames_lengths [of xs] by (simp add: frames_then_def)

end
