(* ===== verification/Machine.thy ===== *)
theory Machine
  imports Prelude
begin

text \<open>
  The two interfaces the stateful components share. A \<open>machine\<close> is an object whose operation
  takes an input and leaves a new state behind: what one call keeps, every sequence of calls
  keeps. A \<open>reassembler\<close> is the receiving half of a fragmentation: a message that was split
  comes out whole, so a stream of split messages comes out as it was sent.
\<close>

fun run :: "('st \<Rightarrow> 'i \<Rightarrow> 'o \<times> 'st) \<Rightarrow> 'st \<Rightarrow> 'i list \<Rightarrow> 'o list \<times> 'st" where
  "run step st [] = ([], st)"
| "run step st (i # is) =
     (let (out, st') = step st i; (outs, st'') = run step st' is in (out # outs, st''))"

lemma run_append:
  "run step st (xs @ ys) =
     (let (os, st') = run step st xs; (os', st'') = run step st' ys in (os @ os', st''))"
  by (induction xs arbitrary: st) (auto split: prod.splits)

lemma length_run [simp]: "length (fst (run step st is)) = length is"
  by (induction "is" arbitrary: st) (simp_all add: Let_def case_prod_beta)

locale machine =
  fixes step :: "'st \<Rightarrow> 'i \<Rightarrow> 'o \<times> 'st"
    and inv :: "'st \<Rightarrow> bool"
    and init :: 'st
  assumes inv_init: "inv init"
    and inv_step: "inv st \<Longrightarrow> inv (snd (step st i))"
begin

lemma inv_run_from: "inv st \<Longrightarrow> inv (snd (run step st is))"
proof (induction "is" arbitrary: st)
  case (Cons i "is")
  then show ?case
    using inv_step [of st i] by (simp add: Let_def case_prod_beta)
qed simp

lemma inv_run: "inv (snd (run step init is))"
  using inv_init by (rule inv_run_from)

text \<open>What holds of every output of a step from a good state holds of every output of a run.\<close>

lemma outputs_run_from:
  assumes "\<And>st i. inv st \<Longrightarrow> good (fst (step st i))" "inv st"
  shows "list_all good (fst (run step st is))"
  using assms(2)
proof (induction "is" arbitrary: st)
  case (Cons i "is")
  then show ?case
    using inv_step [of st i] assms(1) [of st i] by (simp add: Let_def case_prod_beta)
qed simp

end

text \<open>
  A machine that reports to its caller: what it has to report is queued in its state and handed out
  by some of its calls. The reports of a run, those still queued included, form a path of an
  abstract specification when those of every step do.
\<close>

locale reporter = machine step inv init
  for step :: "'st \<Rightarrow> 'i \<Rightarrow> 'o \<times> 'st" and inv :: "'st \<Rightarrow> bool" and init :: 'st +
  fixes handed :: "'o \<Rightarrow> 'e list"
    and queued :: "'st \<Rightarrow> 'e list"
    and abs :: "'st \<Rightarrow> 'a"
    and path :: "'a \<Rightarrow> 'e list \<Rightarrow> 'a \<Rightarrow> bool"
  assumes path_refl: "path a [] a"
    and path_trans: "path a es b \<Longrightarrow> path b es' c \<Longrightarrow> path a (es @ es') c"
    and simulates: "inv st \<Longrightarrow> \<exists>es. queued st @ es = handed (fst (step st i)) @ queued (snd (step st i)) \<and>
      path (abs st) es (abs (snd (step st i)))"
begin

lemma run_simulates:
  assumes "inv st"
  shows "\<exists>es. queued st @ es = concat (map handed (fst (run step st is))) @ queued (snd (run step st is)) \<and>
    path (abs st) es (abs (snd (run step st is)))"
  using assms
proof (induction "is" arbitrary: st)
  case Nil
  show ?case by (auto intro: path_refl)
next
  case (Cons i "is")
  obtain out st' where step: "step st i = (out, st')" by fastforce
  obtain es where es: "queued st @ es = handed out @ queued st'" "path (abs st) es (abs st')"
    using simulates [OF Cons.prems, of i] step by auto
  have "inv st'" using inv_step [OF Cons.prems, of i] step by simp
  then obtain es' where es': "queued st' @ es' = concat (map handed (fst (run step st' is))) @ queued (snd (run step st' is))"
    "path (abs st') es' (abs (snd (run step st' is)))"
    using Cons.IH by blast
  have "queued st @ (es @ es') = handed out @ concat (map handed (fst (run step st' is))) @ queued (snd (run step st' is))"
    using es(1) es'(1) by (metis append.assoc)
  moreover have "path (abs st) (es @ es') (abs (snd (run step st' is)))" using es(2) es'(2) by (rule path_trans)
  ultimately show ?case using step by (auto simp: Let_def case_prod_beta)
qed

end

text \<open>The messages a receiver hands out while it is fed fragments; it stops at the first error.\<close>

fun feed :: "('st \<Rightarrow> 'f \<Rightarrow> 'm option result \<times> 'st) \<Rightarrow> 'st \<Rightarrow> 'f list \<Rightarrow> error option \<times> 'm list \<times> 'st" where
  "feed add st [] = (None, [], st)"
| "feed add st (f # fs) = (case add st f of
     (Inl e, st') \<Rightarrow> (Some e, [], st')
   | (Inr out, st') \<Rightarrow> let (e, ms, st'') = feed add st' fs
       in (e, (case out of None \<Rightarrow> ms | Some m \<Rightarrow> m # ms), st''))"

lemma feed_append_ok:
  "feed add st xs = (None, ms, st') \<Longrightarrow>
   feed add st (xs @ ys) = (let (e, ms', st'') = feed add st' ys in (e, ms @ ms', st''))"
  by (induction xs arbitrary: st ms) (auto split: prod.splits sum.splits option.splits)

lemma feed_snoc_ok:
  "feed add st xs = (None, ms, st') \<Longrightarrow> add st' f = (Inr out, st'') \<Longrightarrow>
   feed add st (xs @ [f]) = (None, ms @ (case out of None \<Rightarrow> [] | Some m \<Rightarrow> [m]), st'')"
  by (simp add: feed_append_ok split: option.split)

text \<open>A message cut into pieces of at most \<open>n\<close> elements.\<close>

function chunks :: "nat \<Rightarrow> 'a list \<Rightarrow> 'a list list" where
  "chunks n xs = (if n = 0 \<or> xs = [] then [] else take n xs # chunks n (drop n xs))"
  by pat_completeness auto
termination
  by (relation "measure (\<lambda>(_, xs). length xs)") auto

declare chunks.simps [simp del]

lemma chunks_Nil [simp]: "chunks n [] = []"
  by (simp add: chunks.simps)

lemma chunks_Cons: "0 < n \<Longrightarrow> xs \<noteq> [] \<Longrightarrow> chunks n xs = take n xs # chunks n (drop n xs)"
  by (simp add: chunks.simps [of n xs])

lemma concat_chunks [simp]: "0 < n \<Longrightarrow> concat (chunks n xs) = xs"
  by (induction n xs rule: chunks.induct) (simp add: chunks.simps)

lemma chunks_eq_Nil [simp]: "0 < n \<Longrightarrow> chunks n xs = [] \<longleftrightarrow> xs = []"
  by (auto simp: chunks.simps)

lemma chunks_lengths: "c \<in> set (chunks n xs) \<Longrightarrow> 0 < length c \<and> length c \<le> n"
proof (induction n xs rule: chunks.induct)
  case (1 n xs)
  then show ?case by (cases "n = 0 \<or> xs = []") (auto simp: chunks.simps [of n xs])
qed

locale reassembler =
  fixes add :: "'st \<Rightarrow> 'f \<Rightarrow> 'm option result \<times> 'st"
    and split_msg :: "'m \<Rightarrow> 'f list"
    and idle :: "'st \<Rightarrow> bool"
    and ok :: "'st \<Rightarrow> 'm \<Rightarrow> bool"
  assumes delivers: "idle st \<Longrightarrow> ok st m \<Longrightarrow> feed add st (split_msg m) = (None, [m], st)"
begin

lemma stream:
  assumes "idle st" "list_all (ok st) ms"
  shows "feed add st (concat (map split_msg ms)) = (None, ms, st)"
  using assms
  by (induction ms) (simp_all add: feed_append_ok [OF delivers])

text \<open>No two messages look alike on the wire, whatever follows them.\<close>

lemma split_inj:
  assumes "idle st" "ok st m" "ok st m'" "split_msg m = split_msg m'"
  shows "m = m'"
proof -
  have "(None :: error option, [m], st) = (None, [m'], st)"
    using delivers [OF assms(1,2)] delivers [OF assms(1,3)] unfolding assms(4) by (rule subst)
  then show ?thesis by simp
qed

end

end
