(* ===== verification/Fastpath.thy ===== *)
theory Fastpath
  imports Framing Machine
begin

text \<open>
  \<open>proto/fastpath.cpp\<close>: fast-path output. An update is written as one PDU or as a sequence of
  fragments; the receiving side decodes the PDUs and puts the fragments together again.
\<close>

section \<open>Model\<close>

definition action_fastpath :: byte where "action_fastpath = 0"
definition pdu_overhead :: nat where "pdu_overhead = 3 + 3"
definition max_fragment_size :: nat where "max_fragment_size = 0x3FFF - 20"

datatype fragmentation = FragSingle | FragLast | FragFirst | FragNext

fun fragmentation_code :: "fragmentation \<Rightarrow> byte" where
  "fragmentation_code FragSingle = 0"
| "fragmentation_code FragLast = 1"
| "fragmentation_code FragFirst = 2"
| "fragmentation_code FragNext = 3"

definition fragmentation_of :: "byte \<Rightarrow> fragmentation" where
  "fragmentation_of b =
     (if b = 0 then FragSingle else if b = 1 then FragLast else if b = 2 then FragFirst else FragNext)"

record update_fragment =
  uf_code :: byte
  uf_fragmentation :: fragmentation
  uf_data :: bytes

definition write_pdu :: "byte \<Rightarrow> fragmentation \<Rightarrow> bytes \<Rightarrow> writer \<Rightarrow> writer option" where
  "write_pdu code frag chunk w = do {
     let n = pdu_overhead + length chunk;
     wassert (n \<le> 0x7FFF);
     let w = w_u8 action_fastpath w;
     let w = w_u16be (0x8000 OR of_nat n) w;
     let w = w_u8 (code OR push_bit 4 (fragmentation_code frag)) w;
     let w = w_u16le (of_nat (length chunk)) w;
     Some (w_bytes chunk w)
   }"

text \<open>
  The \<open>for\<close> loop of \<open>encode_update\<close>; that \<open>max_fragment\<close> is positive was asserted
  before it is entered.
\<close>

function encode_update_loop :: "byte \<Rightarrow> bytes \<Rightarrow> nat \<Rightarrow> nat \<Rightarrow> writer \<Rightarrow> writer option" where
  "encode_update_loop code data max_fragment offset w =
     (if 0 < max_fragment \<and> offset < length data then do {
        let n = min max_fragment (length data - offset);
        let frag = (if offset = 0 then FragFirst else if offset + n = length data then FragLast else FragNext);
        w \<leftarrow> write_pdu code frag (take n (drop offset data)) w;
        encode_update_loop code data max_fragment (offset + max_fragment) w
      } else Some w)"
  by pat_completeness auto
termination
  by (relation "measure (\<lambda>(_, data, _, offset, _). length data - offset)") auto

declare encode_update_loop.simps [simp del]

definition encode_update :: "byte \<Rightarrow> bytes \<Rightarrow> nat \<Rightarrow> writer \<Rightarrow> writer option" where
  "encode_update code data max_fragment w = do {
     wassert (code \<le> 0x0F \<and> max_fragment > 0 \<and> max_fragment \<le> 0x7FFF - pdu_overhead);
     if length data \<le> max_fragment then write_pdu code FragSingle data w
     else encode_update_loop code data max_fragment 0 w
   }"

text \<open>One TS_FP_UPDATE: the body of the decoder's \<open>while\<close> loop.\<close>

definition decode_update_fragment :: "update_fragment parser" where
  "decode_update_fragment = pget rd_offset (\<lambda>update_start. ptry rd_u8 (\<lambda>update_header.
     ptry (if drop_bit 6 update_header AND 2 \<noteq> 0
           then ptry rd_u8 (\<lambda>compression_flags.
             if compression_flags AND 0x20 \<noteq> 0
             then pfail Unsupported ''bulk-compressed fast-path update'' update_start else pret ())
           else pret ()) (\<lambda>_.
     ptry rd_u16le (\<lambda>n. ptry (rd_bytes (unat n)) (\<lambda>data.
       pret \<lparr>uf_code = update_header AND 0x0F,
             uf_fragmentation = fragmentation_of (drop_bit 4 update_header AND 3), uf_data = data\<rparr>)))))"

definition decode_output_pdu :: "update_fragment list parser" where
  "decode_output_pdu = pget rd_offset (\<lambda>start. ptry rd_u8 (\<lambda>header.
     if header AND 0x03 \<noteq> action_fastpath then pfail InvalidValue ''not a fast-path PDU'' start
     else if drop_bit 6 header AND 3 \<noteq> 0
     then pfail InvalidValue ''RDP-encrypted fast-path output under Enhanced RDP Security'' start
     else ptry rd_u8 (\<lambda>length1.
       ptry (if length1 AND 0x80 \<noteq> 0
             then ptry rd_u8 (\<lambda>length2. pret (push_bit 8 (unat (length1 AND 0x7F)) OR unat length2))
             else pret (unat length1)) (\<lambda>n.
       pget (\<lambda>pdu. length (rd_data pdu)) (\<lambda>total.
       if n \<noteq> total then pfail InvalidLength ''fast-path length does not match the PDU'' (start + 1)
       else pmany decode_update_fragment)))))"

record fp_reassembler =
  fr_max_size :: nat
  fr_code :: "byte option"
  fr_buffer :: bytes

definition fp_add :: "fp_reassembler \<Rightarrow> update_fragment \<Rightarrow> (byte \<times> bytes) option result \<times> fp_reassembler" where
  "fp_add st fragment = (case uf_fragmentation fragment of
     FragSingle \<Rightarrow>
       if fr_code st \<noteq> None \<or> length (uf_data fragment) > fr_max_size st
       then (fail InvalidValue ''unexpected single fast-path update'' 0, st)
       else (Inr (Some (uf_code fragment, uf_data fragment)), st)
   | FragFirst \<Rightarrow>
       if fr_code st \<noteq> None \<or> length (uf_data fragment) > fr_max_size st
       then (fail InvalidValue ''unexpected first fast-path fragment'' 0, st)
       else (Inr None, st\<lparr>fr_code := Some (uf_code fragment), fr_buffer := uf_data fragment\<rparr>)
   | last_or_next \<Rightarrow>
       if fr_code st \<noteq> Some (uf_code fragment)
       then (fail InvalidValue ''fast-path fragment without a first fragment'' 0, st)
       else if length (fr_buffer st) + length (uf_data fragment) > fr_max_size st
       then (fail LimitExceeded ''reassembled fast-path update too large'' 0, st)
       else let st = st\<lparr>fr_buffer := fr_buffer st @ uf_data fragment\<rparr> in
         if uf_fragmentation fragment = FragNext then (Inr None, st)
         else (Inr (Some (uf_code fragment, fr_buffer st)), st\<lparr>fr_code := None, fr_buffer := []\<rparr>))"

section \<open>One fragment\<close>

definition fp_pdu :: "update_fragment \<Rightarrow> bytes" where
  "fp_pdu f = 0 # be_bytes 2 (0x8000 OR of_nat (6 + length (uf_data f)) :: u16) @
     (uf_code f OR push_bit 4 (fragmentation_code (uf_fragmentation f))) #
     le_bytes 2 (of_nat (length (uf_data f)) :: u16) @ uf_data f"

definition fp_fragment_ok :: "update_fragment \<Rightarrow> bool" where
  "fp_fragment_ok f \<longleftrightarrow> uf_code f \<le> 0x0F \<and> length (uf_data f) \<le> 0x7FFF - pdu_overhead"

lemma length_fp_pdu [simp]: "length (fp_pdu f) = 6 + length (uf_data f)"
  by (simp add: fp_pdu_def)

lemma write_pdu_enc:
  "length chunk \<le> 0x7FFF - pdu_overhead \<Longrightarrow> write_pdu code frag chunk w =
     Some (w @ fp_pdu \<lparr>uf_code = code, uf_fragmentation = frag, uf_data = chunk\<rparr>)"
  by (simp add: write_pdu_def pdu_overhead_def wr_simps fp_pdu_def action_fastpath_def Let_def wassert_def)

lemma fp_header_bits:
  assumes "c \<le> (0x0F :: byte)"
  shows "(c OR push_bit 4 (fragmentation_code f)) AND 0x0F = c"
    "drop_bit 4 (c OR push_bit 4 (fragmentation_code f)) AND 3 = fragmentation_code f"
    "drop_bit 6 (c OR push_bit 4 (fragmentation_code f)) AND 2 = 0"
proof -
  have tc: "take_bit 4 c = c"
    using assms by (intro word_take_bit_self) (simp add: word_le_nat_alt)
  then have dc: "drop_bit 4 c = 0" "drop_bit 6 c = 0"
    using take_bit_eq_self_iff_drop_bit_eq_0 [of 4 c] drop_bit_drop_bit [of 2 4 c] by simp_all
  have "(c OR push_bit 4 (fragmentation_code f)) AND mask 4 = c"
    unfolding take_bit_eq_mask [symmetric] take_bit_or tc by (simp add: take_bit_push_bit)
  then show "(c OR push_bit 4 (fragmentation_code f)) AND 0x0F = c"
    by (simp add: mask_eq_exp_minus_1)
  show "drop_bit 4 (c OR push_bit 4 (fragmentation_code f)) AND 3 = fragmentation_code f"
    unfolding drop_bit_or dc by (cases f) simp_all
  show "drop_bit 6 (c OR push_bit 4 (fragmentation_code f)) AND 2 = 0"
    unfolding drop_bit_or dc by (cases f) simp_all
qed

lemma fragmentation_of_code [simp]: "fragmentation_of (fragmentation_code f) = f"
  by (cases f) (simp_all add: fragmentation_of_def)

lemma decode_update_fragment_enc:
  assumes "fp_fragment_ok f"
    and "rd_rest r = (uf_code f OR push_bit 4 (fragmentation_code (uf_fragmentation f))) #
      le_bytes 2 (of_nat (length (uf_data f)) :: u16) @ uf_data f"
  shows "decode_update_fragment r = (Inr f, rd_advance (3 + length (uf_data f)) r)"
proof -
  have "unat (of_nat (length (uf_data f)) :: u16) = length (uf_data f)"
    using assms(1) by (simp add: fp_fragment_ok_def pdu_overhead_def unsigned_of_nat take_bit_nat_eq_self)
  then show ?thesis
    using assms fp_header_bits [of "uf_code f" "uf_fragmentation f"]
    by (simp add: decode_update_fragment_def rd_simps fp_fragment_ok_def del: of_nat_add)
qed

lemma decode_update_fragment_consumes: "rd_consumes decode_update_fragment"
  unfolding decode_update_fragment_def by (intro consumes_pget consumes_ptry consumes_ints safe_intros)

lemma fastpath_safe [safe_intros]: "rd_safe decode_update_fragment" "rd_safe decode_output_pdu"
  unfolding decode_update_fragment_def decode_output_pdu_def by (intro safe_intros)+

text \<open>The two-octet length form: the top bit set, the other fifteen the length.\<close>

lemma fp_length_octets:
  assumes "n \<le> 0x7FFF"
  defines "v \<equiv> 0x8000 OR of_nat n :: u16"
  shows "128 \<le> unat (ucast (drop_bit 8 v) :: byte)"
    "256 * (unat (ucast (drop_bit 8 v) :: byte) mod 128) + unat (ucast v :: byte) = n"
proof -
  have n: "unat (of_nat n :: u16) = n"
    using assms(1) by (simp add: unsigned_of_nat take_bit_nat_eq_self)
  have "unat v = 32768 OR n"
    unfolding v_def unsigned_or_eq n by simp
  then have v: "unat v = 32768 + n"
    using nat_or_add [of n 15 1] assms(1) by (simp add: push_bit_eq_mult)
  have "unat (ucast (drop_bit 8 v) :: byte) = (32768 + n) div 256 mod 256"
    by (simp add: unsigned_ucast_eq unat_drop_bit_eq v take_bit_eq_mod drop_bit_eq_div unat_div_distrib)
  also have "\<dots> = 128 + n div 256"
    using assms(1) by auto
  finally have hi: "unat (ucast (drop_bit 8 v) :: byte) = 128 + n div 256" .
  have "n div 256 < 128" using assms(1) by (simp add: div_less_iff_less_mult)
  then have "(128 + n div 256) mod 128 = n div 256" by simp
  moreover have "unat (ucast v :: byte) = (32768 + n) mod 256"
    by (simp add: unsigned_ucast_eq v take_bit_eq_mod)
  then have "unat (ucast v :: byte) = n mod 256"
    using mod_mult_self3 [of 128 256 n] by simp
  ultimately show "128 \<le> unat (ucast (drop_bit 8 v) :: byte)"
    "256 * (unat (ucast (drop_bit 8 v) :: byte) mod 128) + unat (ucast v :: byte) = n"
    using hi by simp_all
qed

lemma fp_pdu_Cons:
  "\<exists>b1 b2. fp_pdu f = 0 # b1 # b2 # drop 3 (fp_pdu f) \<and>
     drop 3 (fp_pdu f) = (uf_code f OR push_bit 4 (fragmentation_code (uf_fragmentation f))) #
       le_bytes 2 (of_nat (length (uf_data f)) :: u16) @ uf_data f \<and>
     (fp_fragment_ok f \<longrightarrow> 128 \<le> unat b1 \<and> 256 * (unat b1 mod 128) + unat b2 = length (fp_pdu f))"
  unfolding fp_pdu_def be_bytes_2
  using fp_length_octets [of "6 + length (uf_data f)"]
  by (auto simp: fp_fragment_ok_def pdu_overhead_def numeral_3_eq_3 be_bytes_2)

lemma peek_frame_fp_pdu:
  assumes "fp_fragment_ok f"
  shows "peek_frame (fp_pdu f @ ys) = Inr (Some \<lparr>fi_kind = FrameFastpath, fi_length = length (fp_pdu f)\<rparr>)"
proof -
  obtain b1 b2 rest where f: "fp_pdu f = 0 # b1 # b2 # rest" "128 \<le> unat b1"
    "256 * (unat b1 mod 128) + unat b2 = length (fp_pdu f)"
    using fp_pdu_Cons [of f] assms by blast
  then have "length (fp_pdu f) = 3 + length rest" by simp
  with f(2,3) show ?thesis
    unfolding f(1) by (simp add: peek_frame_def Let_def byte_masks nat_or_256)
qed

lemma decode_output_pdu_enc:
  assumes "fp_fragment_ok f"
  shows "fst (decode_output_pdu (mk_reader (fp_pdu f) b)) = Inr [f]"
proof -
  obtain b1 b2 where f: "fp_pdu f = 0 # b1 # b2 # drop 3 (fp_pdu f)" "128 \<le> unat b1"
    "256 * (unat b1 mod 128) + unat b2 = length (fp_pdu f)"
    "drop 3 (fp_pdu f) = (uf_code f OR push_bit 4 (fragmentation_code (uf_fragmentation f))) #
       le_bytes 2 (of_nat (length (uf_data f)) :: u16) @ uf_data f"
    using fp_pdu_Cons [of f] assms by blast
  define d where "d = drop 3 (fp_pdu f)"
  let ?r = "mk_reader (fp_pdu f) b"
  have rest: "rd_rest ?r = 0 # b1 # b2 # d" using f(1) by (simp add: d_def)
  have wf: "rd_wf (rd_advance 3 ?r)" by simp
  have dec: "decode_update_fragment (rd_advance 3 ?r) = (Inr f, rd_advance (3 + length (uf_data f)) (rd_advance 3 ?r))"
    using f(4) by (intro decode_update_fragment_enc [OF assms]) simp
  have "pmany decode_update_fragment (rd_advance 3 ?r) =
      (Inr [f], rd_advance (length (rd_rest (rd_advance 3 ?r))) (rd_advance 3 ?r))"
    using dec wf pmany_unfold [OF decode_update_fragment_consumes wf]
      pmany_unfold [OF decode_update_fragment_consumes, of "rd_advance (6 + length (uf_data f)) ?r"]
    by (simp add: rd_simps rd_empty_rest)
  moreover have "rd_u8 ?r = (Inr 0, rd_advance 1 ?r)" "rd_u8 (rd_advance 1 ?r) = (Inr b1, rd_advance 2 ?r)"
    "rd_u8 (rd_advance 2 ?r) = (Inr b2, rd_advance 3 ?r)"
    using rest by (auto simp: rd_simps)
  ultimately show ?thesis
    using f(2,3)
    by (simp add: decode_output_pdu_def rd_simps action_fastpath_def byte_masks nat_or_256)
qed

section \<open>Fragmentation and reassembly\<close>

fun fp_tail :: "byte \<Rightarrow> bytes list \<Rightarrow> update_fragment list" where
  "fp_tail code [] = []"
| "fp_tail code [c] = [\<lparr>uf_code = code, uf_fragmentation = FragLast, uf_data = c\<rparr>]"
| "fp_tail code (c # cs) = \<lparr>uf_code = code, uf_fragmentation = FragNext, uf_data = c\<rparr> # fp_tail code cs"

definition fp_fragments :: "nat \<Rightarrow> byte \<times> bytes \<Rightarrow> update_fragment list" where
  "fp_fragments n = (\<lambda>(code, data).
     if length data \<le> n then [\<lparr>uf_code = code, uf_fragmentation = FragSingle, uf_data = data\<rparr>]
     else \<lparr>uf_code = code, uf_fragmentation = FragFirst, uf_data = take n data\<rparr> #
       fp_tail code (chunks n (drop n data)))"

lemma fp_tail_Cons:
  "fp_tail code (c # cs) =
     \<lparr>uf_code = code, uf_fragmentation = (if cs = [] then FragLast else FragNext), uf_data = c\<rparr> # fp_tail code cs"
  by (cases cs) auto

lemma encode_update_loop_tail:
  assumes "0 < n" "n \<le> 0x7FFF - pdu_overhead" "0 < offset"
  shows "encode_update_loop code data n offset w =
    Some (w @ concat (map fp_pdu (fp_tail code (chunks n (drop offset data)))))"
  using assms
proof (induction code data n offset w rule: encode_update_loop.induct)
  case (1 code data n offset w)
  show ?case
  proof (cases "offset < length data")
    case False
    then show ?thesis by (simp add: encode_update_loop.simps [of code data n offset w])
  next
    case True
    then have "take (min n (length data - offset)) (drop offset data) = take n (drop offset data)"
      "offset + min n (length data - offset) = length data \<longleftrightarrow> drop (offset + n) data = []"
      by (auto simp: min_def)
    moreover have "write_pdu code frag (take n (drop offset data)) w =
        Some (w @ fp_pdu \<lparr>uf_code = code, uf_fragmentation = frag, uf_data = take n (drop offset data)\<rparr>)" for frag
      using 1(3) by (intro write_pdu_enc) simp
    ultimately show ?thesis
      using 1 True
      by (simp add: encode_update_loop.simps [of code data n offset w] Let_def chunks_Cons fp_tail_Cons add.commute)
  qed
qed

lemma encode_update_enc:
  assumes "code \<le> 0x0F" "0 < n" "n \<le> 0x7FFF - pdu_overhead"
  shows "encode_update code data n w = Some (w @ concat (map fp_pdu (fp_fragments n (code, data))))"
proof (cases "length data \<le> n")
  case True
  with assms show ?thesis
    by (simp add: encode_update_def fp_fragments_def wassert_def write_pdu_enc)
next
  case False
  then have "encode_update_loop code data n 0 w =
      write_pdu code FragFirst (take n data) w \<bind> encode_update_loop code data n n"
    using assms(2) by (cases data) (simp_all add: encode_update_loop.simps [of code _ n 0 w])
  with assms False show ?thesis
    by (simp add: encode_update_def fp_fragments_def wassert_def write_pdu_enc encode_update_loop_tail)
qed

lemma fp_tail_ok:
  "code \<le> 0x0F \<Longrightarrow> \<forall>c\<in>set cs. length c \<le> 0x7FFF - pdu_overhead \<Longrightarrow> list_all fp_fragment_ok (fp_tail code cs)"
  by (induction cs) (auto simp: fp_tail_Cons fp_fragment_ok_def)

lemma fp_fragments_ok:
  assumes "code \<le> 0x0F" "n \<le> 0x7FFF - pdu_overhead"
  shows "list_all fp_fragment_ok (fp_fragments n (code, data))"
proof -
  have "length c \<le> 0x7FFF - pdu_overhead" if "c \<in> set (chunks n xs)" for c xs
    using chunks_lengths [OF that] assms(2) by simp
  then have "list_all fp_fragment_ok (fp_tail code (chunks n (drop n data)))"
    using assms(1) by (intro fp_tail_ok) blast+
  then show ?thesis
    using assms by (simp add: fp_fragments_def fp_fragment_ok_def)
qed

lemma feed_fp_tail:
  assumes "cs \<noteq> []" "fr_code st = Some code" "length (fr_buffer st) + length (concat cs) \<le> fr_max_size st"
  shows "feed fp_add st (fp_tail code cs) =
    (None, [(code, fr_buffer st @ concat cs)], st\<lparr>fr_code := None, fr_buffer := []\<rparr>)"
  using assms
proof (induction cs arbitrary: st)
  case (Cons c cs)
  then show ?case
    by (cases cs) (simp_all add: fp_tail_Cons fp_add_def Let_def)
qed simp

definition fp_idle :: "fp_reassembler \<Rightarrow> bool" where
  "fp_idle st \<longleftrightarrow> fr_code st = None \<and> fr_buffer st = []"

interpretation fp: reassembler fp_add "fp_fragments n" fp_idle
  "\<lambda>st m. 0 < n \<and> length (snd m) \<le> fr_max_size st" for n
proof
  fix st and m :: "byte \<times> bytes"
  assume "fp_idle st" "0 < n \<and> length (snd m) \<le> fr_max_size st"
  then show "feed fp_add st (fp_fragments n m) = (None, [m], st)"
    by (auto simp: fp_fragments_def fp_add_def fp_idle_def feed_fp_tail split: prod.split)
qed

text \<open>The reassembly buffer never outgrows the limit it was created with, whatever arrives.\<close>

definition fp_inv :: "nat \<Rightarrow> fp_reassembler \<Rightarrow> bool" where
  "fp_inv limit st \<longleftrightarrow> fr_max_size st = limit \<and> length (fr_buffer st) \<le> limit \<and> (fr_code st = None \<longrightarrow> fr_buffer st = [])"

definition fp_new :: "nat \<Rightarrow> fp_reassembler" where
  "fp_new limit = \<lparr>fr_max_size = limit, fr_code = None, fr_buffer = []\<rparr>"

interpretation fp_machine: machine fp_add "fp_inv limit" "fp_new limit" for limit
  by unfold_locales
    (auto simp: fp_inv_def fp_new_def fp_add_def Let_def split: fragmentation.splits if_splits)

section \<open>From the server's buffer to the client's update\<close>

fun decode_frames :: "(frame_kind \<times> bytes) list \<Rightarrow> update_fragment list result" where
  "decode_frames [] = Inr []"
| "decode_frames ((k, f) # fs) = (case fst (decode_output_pdu (mk_reader f 0)) of
     Inl e \<Rightarrow> Inl e
   | Inr us \<Rightarrow> (case decode_frames fs of Inl e \<Rightarrow> Inl e | Inr vs \<Rightarrow> Inr (us @ vs)))"

fun encode_updates :: "nat \<Rightarrow> (byte \<times> bytes) list \<Rightarrow> writer \<Rightarrow> writer option" where
  "encode_updates n [] w = Some w"
| "encode_updates n ((code, data) # us) w = do {
     w \<leftarrow> encode_update code data n w;
     encode_updates n us w
   }"

lemma encode_updates_enc:
  assumes "0 < n" "n \<le> 0x7FFF - pdu_overhead" "list_all (\<lambda>(code, data). code \<le> 0x0F) us"
  shows "encode_updates n us w = Some (w @ concat (map fp_pdu (concat (map (fp_fragments n) us))))"
  using assms(3)
proof (induction us arbitrary: w)
  case (Cons u us)
  then show ?case
    using assms(1,2) by (cases u) (simp add: encode_update_enc)
qed simp

lemma is_frame_fp_pdu: "fp_fragment_ok f \<Longrightarrow> is_frame FrameFastpath (fp_pdu f)"
  by (simp add: is_frame_def peek_frame_fp_pdu)

lemma split_frames_fp_pdus:
  "list_all fp_fragment_ok fs \<Longrightarrow>
   split_frames (concat (map fp_pdu fs)) = (None, map (\<lambda>f. (FrameFastpath, fp_pdu f)) fs, [])"
  using split_frames_concat [of "map (\<lambda>f. (FrameFastpath, fp_pdu f)) fs"]
  by (simp add: list_all_iff is_frame_fp_pdu o_def)

lemma decode_frames_fp_pdus:
  "list_all fp_fragment_ok fs \<Longrightarrow> decode_frames (map (\<lambda>f. (FrameFastpath, fp_pdu f)) fs) = Inr fs"
  by (induction fs) (simp_all add: decode_output_pdu_enc)

lemma fp_fragments_all_ok:
  "n \<le> 0x7FFF - pdu_overhead \<Longrightarrow> list_all (\<lambda>(code, data). code \<le> 0x0F) us \<Longrightarrow>
   list_all fp_fragment_ok (concat (map (fp_fragments n) us))"
  by (induction us) (auto simp: fp_fragments_ok)

section \<open>Properties\<close>

text \<open>
  C16: Fast-path output, end to end: a sequence of updates written into one buffer, with any legal fragment
  size, is cut back into its PDUs by the framing of the transport, decodes into fragments, and the
  reassembler gives back the updates, in order and unchanged.
\<close>

theorem fastpath_updates_roundtrip:
  assumes "0 < n" "n \<le> 0x7FFF - pdu_overhead" "\<forall>(code, data) \<in> set us. code \<le> 0x0F \<and> length data \<le> limit"
  shows "\<exists>w frames fragments. encode_updates n us [] = Some w \<and> split_frames w = (None, frames, []) \<and>
    decode_frames frames = Inr fragments \<and> feed fp_add (fp_new limit) fragments = (None, us, fp_new limit)"
proof -
  have codes: "list_all (\<lambda>(code, data). code \<le> 0x0F) us" using assms(3) by (auto simp: list_all_iff)
  let ?fs = "concat (map (fp_fragments n) us)"
  have ok: "list_all fp_fragment_ok ?fs" by (rule fp_fragments_all_ok [OF assms(2) codes])
  have "feed fp_add (fp_new limit) ?fs = (None, us, fp_new limit)"
    using assms by (intro fp.stream) (auto simp: list_all_iff fp_idle_def fp_new_def)
  then show ?thesis
    using encode_updates_enc [OF assms(1,2) codes, of "[]"] split_frames_fp_pdus [OF ok] decode_frames_fp_pdus [OF ok]
    by auto
qed

theorem fastpath_updates_roundtrip_witness:
  "\<exists>w frames fragments. encode_updates 2 [(1, [1, 2, 3, 4, 5]), (9, [])] [] = Some w \<and> split_frames w = (None, frames, []) \<and>
     decode_frames frames = Inr fragments \<and>
     feed fp_add (fp_new 5) fragments = (None, [(1, [1, 2, 3, 4, 5]), (9, [])], fp_new 5)"
  using fastpath_updates_roundtrip [of 2 "[(1, [1, 2, 3, 4, 5]), (9, [])]" 5] by (simp add: pdu_overhead_def word_le_nat_alt)

text \<open>The fast-path reassembly buffer never outgrows the limit it was created with, whatever fragments arrive.\<close>

theorem fastpath_reassembly_bounded: "length (fr_buffer (snd (run fp_add (fp_new limit) fragments))) \<le> limit"
  using fp_machine.inv_run [of limit fragments] by (simp add: fp_inv_def)

end
