(* ===== verification/Input.thy ===== *)
theory Input
  imports Fastpath
begin

text \<open>
  \<open>proto/input.cpp\<close>: client input events in their slow-path and fast-path forms. The relative
  movements, \<open>int16_t\<close> in the code, are kept as the 16-bit words they are cast from and to.
\<close>

section \<open>Model\<close>

definition input_event_sync :: u16 where "input_event_sync = 0x0000"
definition input_event_scancode :: u16 where "input_event_scancode = 0x0004"
definition input_event_unicode :: u16 where "input_event_unicode = 0x0005"
definition input_event_mouse :: u16 where "input_event_mouse = 0x8001"
definition input_event_mousex :: u16 where "input_event_mousex = 0x8002"
definition input_event_mouserel :: u16 where "input_event_mouserel = 0x8004"

definition fp_scancode :: byte where "fp_scancode = 0"
definition fp_mouse :: byte where "fp_mouse = 1"
definition fp_mousex :: byte where "fp_mousex = 2"
definition fp_sync :: byte where "fp_sync = 3"
definition fp_unicode :: byte where "fp_unicode = 4"
definition fp_relmouse :: byte where "fp_relmouse = 5"
definition fp_qoe_timestamp :: byte where "fp_qoe_timestamp = 6"
definition fp_kbd_release :: byte where "fp_kbd_release = 0x01"
definition fp_kbd_extended :: byte where "fp_kbd_extended = 0x02"
definition fp_kbd_extended1 :: byte where "fp_kbd_extended1 = 0x04"
definition fp_action_fastpath :: byte where "fp_action_fastpath = 0"
definition fp_flag_secure_checksum :: byte where "fp_flag_secure_checksum = 0x1"
definition fp_flag_encrypted :: byte where "fp_flag_encrypted = 0x2"

definition kbd_extended :: u16 where "kbd_extended = 0x0100"
definition kbd_extended1 :: u16 where "kbd_extended1 = 0x0200"
definition kbd_release :: u16 where "kbd_release = 0x8000"
definition max_slow_path_input_events :: nat where "max_slow_path_input_events = 512"

datatype input_event =
    KeyboardEvent u16 u16
  | UnicodeKeyboardEvent u16 u16
  | MouseEvent u16 u16 u16
  | ExtendedMouseEvent u16 u16 u16
  | RelativeMouseEvent u16 u16 u16
  | SyncEvent u32
  | QoeTimestampEvent u32

definition keyboard_flags_from_fastpath :: "byte \<Rightarrow> u16" where
  "keyboard_flags_from_fastpath flags =
     (let out = 0;
          out = (if flags AND fp_kbd_release \<noteq> 0 then out OR kbd_release else out);
          out = (if flags AND fp_kbd_extended \<noteq> 0 then out OR kbd_extended else out)
      in if flags AND fp_kbd_extended1 \<noteq> 0 then out OR kbd_extended1 else out)"

definition keyboard_flags_to_fastpath :: "u16 \<Rightarrow> byte" where
  "keyboard_flags_to_fastpath flags =
     (let out = 0;
          out = (if flags AND kbd_release \<noteq> 0 then out OR fp_kbd_release else out);
          out = (if flags AND kbd_extended \<noteq> 0 then out OR fp_kbd_extended else out)
      in if flags AND kbd_extended1 \<noteq> 0 then out OR fp_kbd_extended1 else out)"

definition read_pointer_event :: "(u16 \<Rightarrow> u16 \<Rightarrow> u16 \<Rightarrow> input_event) \<Rightarrow> input_event parser" where
  "read_pointer_event mk = ptry rd_u16le (\<lambda>flags. ptry rd_u16le (\<lambda>x. ptry rd_u16le (\<lambda>y. pret (mk flags x y))))"

definition read_relative_event :: "input_event parser" where
  "read_relative_event =
     ptry rd_u16le (\<lambda>flags. ptry rd_u16le (\<lambda>dx. ptry rd_u16le (\<lambda>dy. pret (RelativeMouseEvent flags dx dy))))"

text \<open>The body of the loop of \<open>decode_slow_path_input\<close>.\<close>

definition read_slow_path_event :: "input_event parser" where
  "read_slow_path_event = ptry (rd_skip 4) (\<lambda>_. pget rd_offset (\<lambda>type_offset. ptry rd_u16le (\<lambda>type.
     if type = input_event_sync then ptry (rd_skip 2) (\<lambda>_. ptry rd_u32le (\<lambda>toggles. pret (SyncEvent toggles)))
     else if type = input_event_scancode
     then ptry rd_u16le (\<lambda>flags. ptry rd_u16le (\<lambda>code. ptry (rd_skip 2) (\<lambda>_. pret (KeyboardEvent flags code))))
     else if type = input_event_unicode
     then ptry rd_u16le (\<lambda>flags. ptry rd_u16le (\<lambda>code. ptry (rd_skip 2) (\<lambda>_. pret (UnicodeKeyboardEvent flags code))))
     else if type = input_event_mouse then read_pointer_event MouseEvent
     else if type = input_event_mousex then read_pointer_event ExtendedMouseEvent
     else if type = input_event_mouserel then read_relative_event
     else pfail Unsupported ''unknown slow-path input event'' type_offset)))"

definition decode_slow_path_input :: "input_event list parser" where
  "decode_slow_path_input = pget rd_offset (\<lambda>start. ptry rd_u16le (\<lambda>count.
     if unat count > max_slow_path_input_events
     then pfail LimitExceeded ''too many slow-path input events'' start
     else ptry (rd_skip 2) (\<lambda>_. pcount (unat count) read_slow_path_event)))"

fun write_slow_path_event :: "input_event \<Rightarrow> writer \<Rightarrow> writer" where
  "write_slow_path_event (SyncEvent toggles) w = w_u32le toggles (w_u16le 0 (w_u16le input_event_sync w))"
| "write_slow_path_event (KeyboardEvent flags code) w =
     w_u16le 0 (w_u16le code (w_u16le flags (w_u16le input_event_scancode w)))"
| "write_slow_path_event (UnicodeKeyboardEvent flags code) w =
     w_u16le 0 (w_u16le code (w_u16le flags (w_u16le input_event_unicode w)))"
| "write_slow_path_event (MouseEvent flags x y) w =
     w_u16le y (w_u16le x (w_u16le flags (w_u16le input_event_mouse w)))"
| "write_slow_path_event (ExtendedMouseEvent flags x y) w =
     w_u16le y (w_u16le x (w_u16le flags (w_u16le input_event_mousex w)))"
| "write_slow_path_event (RelativeMouseEvent flags dx dy) w =
     w_u16le dy (w_u16le dx (w_u16le flags (w_u16le input_event_mouserel w)))"
| "write_slow_path_event (QoeTimestampEvent _) w = w"

fun is_qoe :: "input_event \<Rightarrow> bool" where
  "is_qoe (QoeTimestampEvent _) = True"
| "is_qoe _ = False"

text \<open>The event counter is a \<open>uint16_t\<close>.\<close>

definition slow_path_step :: "input_event \<Rightarrow> writer \<times> u16 \<Rightarrow> writer \<times> u16" where
  "slow_path_step e st =
     (if is_qoe e then st else (write_slow_path_event e (w_u32le 0 (fst st)), snd st + 1))"

definition encode_slow_path_input :: "input_event list \<Rightarrow> writer \<Rightarrow> writer option" where
  "encode_slow_path_input events w =
     (let count_pos = length w;
          (w, count) = fold slow_path_step events (w_u16le 0 (w_u16le 0 w), 0)
      in w_patch_u16le count_pos count w)"

text \<open>The body of the loop of \<open>decode_fastpath_input\<close>.\<close>

definition read_fastpath_event :: "input_event parser" where
  "read_fastpath_event = pget rd_offset (\<lambda>event_offset. ptry rd_u8 (\<lambda>event_header.
     let code = drop_bit 5 event_header; event_flags = event_header AND 0x1F in
     if code = fp_scancode
     then ptry rd_u8 (\<lambda>key. pret (KeyboardEvent (keyboard_flags_from_fastpath event_flags) (ucast key)))
     else if code = fp_mouse then read_pointer_event MouseEvent
     else if code = fp_mousex then read_pointer_event ExtendedMouseEvent
     else if code = fp_sync then pret (SyncEvent (ucast event_flags))
     else if code = fp_unicode
     then ptry rd_u16le (\<lambda>unit. pret (UnicodeKeyboardEvent (if event_flags AND fp_kbd_release \<noteq> 0 then kbd_release else 0) unit))
     else if code = fp_relmouse then read_relative_event
     else if code = fp_qoe_timestamp then ptry rd_u32le (\<lambda>timestamp. pret (QoeTimestampEvent timestamp))
     else pfail Unsupported ''unknown fast-path input event'' event_offset))"

definition decode_fastpath_input :: "input_event list parser" where
  "decode_fastpath_input = pget rd_offset (\<lambda>start. ptry rd_u8 (\<lambda>header.
     if header AND 0x03 \<noteq> fp_action_fastpath then pfail InvalidValue ''not a fast-path PDU'' start
     else if drop_bit 6 header AND (fp_flag_encrypted OR fp_flag_secure_checksum) \<noteq> 0
     then pfail InvalidValue ''RDP-encrypted fast-path input under Enhanced RDP Security'' start
     else ptry rd_u8 (\<lambda>length1.
       ptry (if length1 AND 0x80 \<noteq> 0
             then ptry rd_u8 (\<lambda>length2. pret (push_bit 8 (unat (length1 AND 0x7F)) OR unat length2))
             else pret (unat length1)) (\<lambda>n.
       pget (\<lambda>pdu. length (rd_data pdu)) (\<lambda>total.
       if n \<noteq> total then pfail InvalidLength ''fast-path length does not match the PDU'' (start + 1)
       else ptry (if drop_bit 2 header AND 0x0F = 0 then rd_u8 else pret (drop_bit 2 header AND 0x0F)) (\<lambda>count.
         ptry (pcount (unat count) read_fastpath_event) (\<lambda>events.
         ptry (rd_expect_end ''fast-path input PDU'') (\<lambda>_. pret events))))))))"

definition fp_event_header :: "byte \<Rightarrow> byte \<Rightarrow> writer \<Rightarrow> writer" where
  "fp_event_header code flags w = w_u8 (push_bit 5 code OR (flags AND 0x1F)) w"

fun write_fastpath_event :: "input_event \<Rightarrow> writer \<Rightarrow> writer option" where
  "write_fastpath_event (KeyboardEvent flags code) w = do {
     wassert (code \<le> 0xFF);
     Some (w_u8 (ucast code) (fp_event_header fp_scancode (keyboard_flags_to_fastpath flags) w))
   }"
| "write_fastpath_event (UnicodeKeyboardEvent flags code) w =
     Some (w_u16le code (fp_event_header fp_unicode (if flags AND kbd_release \<noteq> 0 then fp_kbd_release else 0) w))"
| "write_fastpath_event (MouseEvent flags x y) w = Some (w_u16le y (w_u16le x (w_u16le flags (fp_event_header fp_mouse 0 w))))"
| "write_fastpath_event (ExtendedMouseEvent flags x y) w =
     Some (w_u16le y (w_u16le x (w_u16le flags (fp_event_header fp_mousex 0 w))))"
| "write_fastpath_event (RelativeMouseEvent flags dx dy) w =
     Some (w_u16le dy (w_u16le dx (w_u16le flags (fp_event_header fp_relmouse 0 w))))"
| "write_fastpath_event (SyncEvent toggles) w = Some (fp_event_header fp_sync (ucast toggles) w)"
| "write_fastpath_event (QoeTimestampEvent timestamp) w = Some (w_u32le timestamp (fp_event_header fp_qoe_timestamp 0 w))"

fun write_fastpath_events :: "input_event list \<Rightarrow> writer \<Rightarrow> writer option" where
  "write_fastpath_events [] w = Some w"
| "write_fastpath_events (e # es) w = do {
     w \<leftarrow> write_fastpath_event e w;
     write_fastpath_events es w
   }"

definition encode_fastpath_input :: "input_event list \<Rightarrow> writer \<Rightarrow> writer option" where
  "encode_fastpath_input events w = do {
     wassert (length events \<le> 0xFF);
     let count_in_header = (events \<noteq> [] \<and> length events < 16);
     let start = length w;
     let w = w_u8 (if count_in_header then of_nat (push_bit 2 (length events)) else 0) w;
     let w = w_u16be 0 w;
     let w = (if \<not> count_in_header then w_u8 (of_nat (length events)) w else w);
     w \<leftarrow> write_fastpath_events events w;
     let n = length w - start;
     wassert (n \<le> 0x7FFF);
     w_patch_u16be (start + 1) (0x8000 OR of_nat n) w
   }"

section \<open>Staying inside the input\<close>

lemma input_safe_parts [safe_intros]:
  "rd_safe (read_pointer_event mk)" "rd_safe read_relative_event" "rd_safe read_slow_path_event" "rd_safe read_fastpath_event"
  unfolding read_slow_path_event_def read_fastpath_event_def read_pointer_event_def read_relative_event_def
  by (intro safe_intros)+

lemma input_safe [safe_intros]: "rd_safe decode_slow_path_input" "rd_safe decode_fastpath_input"
  unfolding decode_slow_path_input_def decode_fastpath_input_def by (intro safe_intros)+

section \<open>Slow-path events survive the wire\<close>

definition slow_path_enc :: "input_event \<Rightarrow> bytes" where
  "slow_path_enc e = le_bytes 4 (0 :: u32) @ write_slow_path_event e []"

lemma write_slow_path_event_app: "write_slow_path_event e w = w @ write_slow_path_event e []"
  by (cases e) (simp_all add: wr_simps)

lemma length_slow_path_enc: "\<not> is_qoe e \<Longrightarrow> length (slow_path_enc e) = 12"
  by (cases e) (simp_all add: slow_path_enc_def wr_simps)

lemmas input_consts = input_event_sync_def input_event_scancode_def input_event_unicode_def input_event_mouse_def
  input_event_mousex_def input_event_mouserel_def

lemma read_slow_path_event_enc:
  assumes "\<not> is_qoe e" "rd_rest r = slow_path_enc e @ ys"
  shows "read_slow_path_event r = (Inr e, rd_advance (length (slow_path_enc e)) r)"
  using assms
  by (cases e) (simp_all add: slow_path_enc_def read_slow_path_event_def read_pointer_event_def read_relative_event_def
      rd_simps wr_simps input_consts)

lemma slow_path_steps:
  "fold slow_path_step es (w, c) = (w @ concat (map slow_path_enc (filter (\<lambda>e. \<not> is_qoe e) es)),
     c + of_nat (length (filter (\<lambda>e. \<not> is_qoe e) es)))"
proof (induction es arbitrary: w c)
  case (Cons e es)
  then show ?case
    by (auto simp: slow_path_step_def slow_path_enc_def wr_simps write_slow_path_event_app [of _ "w @ _"] add.assoc)
qed simp

definition slow_path_input_enc :: "input_event list \<Rightarrow> bytes" where
  "slow_path_input_enc es = le_bytes 2 (of_nat (length es) :: u16) @ le_bytes 2 (0 :: u16) @ concat (map slow_path_enc es)"

lemma encode_slow_path_input_enc:
  "encode_slow_path_input es w = Some (w @ slow_path_input_enc (filter (\<lambda>e. \<not> is_qoe e) es))"
  by (simp add: encode_slow_path_input_def slow_path_steps wr_simps slow_path_input_enc_def w_patch_u16le_def
      w_patch_le_eq)

lemma decode_slow_path_input_enc:
  assumes "\<forall>e \<in> set es. \<not> is_qoe e" "length es \<le> max_slow_path_input_events" "rd_wf r" "rd_rest r = slow_path_input_enc es @ ys"
  shows "decode_slow_path_input r = (Inr es, rd_advance (length (slow_path_input_enc es)) r)"
proof -
  have n: "unat (of_nat (length es) :: u16) = length es"
    using assms(2) by (simp add: max_slow_path_input_events_def unsigned_of_nat take_bit_nat_eq_self)
  have "pcount (length es) read_slow_path_event (rd_advance 4 r) =
      (Inr es, rd_advance (length (concat (map slow_path_enc es))) (rd_advance 4 r))"
    by (rule pcount_concat [where ys = ys])
      (use assms in \<open>simp_all add: slow_path_input_enc_def read_slow_path_event_enc\<close>)
  with assms n show ?thesis
    by (simp add: decode_slow_path_input_def slow_path_input_enc_def rd_simps)
qed

interpretation slow_path_input: codec encode_slow_path_input decode_slow_path_input
  "\<lambda>es. (\<forall>e \<in> set es. \<not> is_qoe e) \<and> length es \<le> max_slow_path_input_events" slow_path_input_enc
  by unfold_locales (auto simp: encode_slow_path_input_enc decode_slow_path_input_enc)

section \<open>Fast-path events survive the wire\<close>

definition fp_event_byte :: "byte \<Rightarrow> byte \<Rightarrow> byte" where
  "fp_event_byte code flags = push_bit 5 code OR (flags AND 0x1F)"

lemma fp_event_byte_bits:
  assumes "unat code < 8"
  shows "drop_bit 5 (fp_event_byte code flags) = code" "fp_event_byte code flags AND 0x1F = flags AND 0x1F"
proof -
  have m: "(0x1F :: byte) = mask 5" by (simp add: mask_eq_exp_minus_1)
  have c: "take_bit 3 code = code" using assms by (intro word_take_bit_self) simp
  have "drop_bit 5 (push_bit 5 code OR take_bit 5 flags) = take_bit 3 code"
    by (rule bit_eqI) (auto simp: bit_simps dest: bit_byteD)
  then show "drop_bit 5 (fp_event_byte code flags) = code"
    unfolding fp_event_byte_def m take_bit_eq_mask [symmetric] c .
  show "fp_event_byte code flags AND 0x1F = flags AND 0x1F"
    unfolding fp_event_byte_def m take_bit_eq_mask [symmetric]
    by (rule bit_eqI) (auto simp: bit_simps)
qed

lemma and_power: "(x :: 'a::len word) AND 2 ^ n = (if bit x n then 2 ^ n else 0)"
  by (rule bit_eqI) (auto simp: bit_simps)

lemma kbd_tests:
  "flags AND kbd_release = (if bit flags 15 then kbd_release else 0)"
  "flags AND kbd_extended = (if bit flags 8 then kbd_extended else 0)"
  "flags AND kbd_extended1 = (if bit flags 9 then kbd_extended1 else 0)"
  using and_power [of flags 15] and_power [of flags 8] and_power [of flags 9]
  by (simp_all add: kbd_release_def kbd_extended_def kbd_extended1_def)

definition kbd_known :: "u16 \<Rightarrow> bool" where
  "kbd_known flags \<longleftrightarrow> flags AND (kbd_release OR kbd_extended OR kbd_extended1) = flags"

lemma keyboard_flags_round_trip:
  assumes "kbd_known flags"
  shows "keyboard_flags_from_fastpath (keyboard_flags_to_fastpath flags AND 0x1F) = flags"
proof -
  have "keyboard_flags_from_fastpath (keyboard_flags_to_fastpath flags AND 0x1F) =
      (flags AND kbd_release) OR (flags AND kbd_extended) OR (flags AND kbd_extended1)"
    unfolding keyboard_flags_to_fastpath_def kbd_tests Let_def
    by (auto simp: keyboard_flags_from_fastpath_def kbd_release_def kbd_extended_def kbd_extended1_def
        fp_kbd_release_def fp_kbd_extended_def fp_kbd_extended1_def)
  then show ?thesis using assms by (simp only: kbd_known_def and.commute [of flags] bit.conj_disj_distrib2)
qed

definition fp_event_ok :: "input_event \<Rightarrow> bool" where
  "fp_event_ok e = (case e of
     KeyboardEvent flags code \<Rightarrow> kbd_known flags \<and> code \<le> 0xFF
   | UnicodeKeyboardEvent flags code \<Rightarrow> flags \<in> {0, kbd_release}
   | SyncEvent toggles \<Rightarrow> toggles < 32
   | _ \<Rightarrow> True)"

fun fp_event_enc :: "input_event \<Rightarrow> bytes" where
  "fp_event_enc (KeyboardEvent flags code) = [fp_event_byte fp_scancode (keyboard_flags_to_fastpath flags), ucast code]"
| "fp_event_enc (UnicodeKeyboardEvent flags code) =
     fp_event_byte fp_unicode (if flags AND kbd_release \<noteq> 0 then fp_kbd_release else 0) # le_bytes 2 code"
| "fp_event_enc (MouseEvent flags x y) = fp_event_byte fp_mouse 0 # le_bytes 2 flags @ le_bytes 2 x @ le_bytes 2 y"
| "fp_event_enc (ExtendedMouseEvent flags x y) = fp_event_byte fp_mousex 0 # le_bytes 2 flags @ le_bytes 2 x @ le_bytes 2 y"
| "fp_event_enc (RelativeMouseEvent flags x y) = fp_event_byte fp_relmouse 0 # le_bytes 2 flags @ le_bytes 2 x @ le_bytes 2 y"
| "fp_event_enc (SyncEvent toggles) = [fp_event_byte fp_sync (ucast toggles)]"
| "fp_event_enc (QoeTimestampEvent timestamp) = fp_event_byte fp_qoe_timestamp 0 # le_bytes 4 timestamp"

lemma write_fastpath_event_enc: "fp_event_ok e \<Longrightarrow> write_fastpath_event e w = Some (w @ fp_event_enc e)"
  by (cases e) (simp_all add: fp_event_ok_def fp_event_header_def fp_event_byte_def wr_simps)

lemma write_fastpath_events_enc:
  "list_all fp_event_ok es \<Longrightarrow> write_fastpath_events es w = Some (w @ concat (map fp_event_enc es))"
  by (induction es arbitrary: w) (simp_all add: write_fastpath_event_enc)

lemma length_fp_event_enc: "length (fp_event_enc e) \<le> 7"
  by (cases e) simp_all

lemmas fp_codes = fp_scancode_def fp_mouse_def fp_mousex_def fp_sync_def fp_unicode_def fp_relmouse_def fp_qoe_timestamp_def

lemma sync_flags_round_trip: "toggles < 32 \<Longrightarrow> ucast ((ucast (toggles :: u32) :: byte) AND 0x1F) = toggles"
proof -
  assume "toggles < 32"
  then have t: "unat toggles < 32" by (simp add: word_less_nat_alt)
  then have "unat (ucast toggles :: byte) = unat toggles" by (simp add: unsigned_ucast_eq take_bit_nat_eq_self)
  with t show ?thesis by (simp add: word_unat_eq_iff unat_ucast_le byte_and_low)
qed

lemma read_fastpath_event_enc:
  assumes "fp_event_ok e" "rd_rest r = fp_event_enc e @ ys"
  shows "read_fastpath_event r = (Inr e, rd_advance (length (fp_event_enc e)) r)"
proof -
  have b: "drop_bit 5 (fp_event_byte c f) = c" if "c \<in> {fp_scancode, fp_mouse, fp_mousex, fp_sync, fp_unicode, fp_relmouse, fp_qoe_timestamp}" for c f
    using that by (intro fp_event_byte_bits) (auto simp: fp_codes)
  have f: "fp_event_byte c f AND 0x1F = f AND 0x1F" if "c \<in> {fp_scancode, fp_sync, fp_unicode}" for c f
    using that by (intro fp_event_byte_bits) (auto simp: fp_codes)
  show ?thesis
  proof (cases e)
    case (KeyboardEvent flags code)
    then have "ucast (ucast code :: byte) = code"
      using assms(1) by (intro ucast_ucast_small) (simp add: fp_event_ok_def word_le_nat_alt)
    with assms KeyboardEvent show ?thesis
      by (simp add: read_fastpath_event_def rd_simps Let_def b f keyboard_flags_round_trip fp_event_ok_def)
  next
    case (SyncEvent toggles)
    with assms show ?thesis
      by (simp add: read_fastpath_event_def rd_simps Let_def b f fp_event_ok_def sync_flags_round_trip fp_codes)
  next
    case (UnicodeKeyboardEvent flags code)
    with assms show ?thesis
      by (auto simp: read_fastpath_event_def rd_simps Let_def b f fp_event_ok_def fp_codes fp_kbd_release_def kbd_release_def)
  qed (use assms in \<open>simp_all add: read_fastpath_event_def read_pointer_event_def read_relative_event_def rd_simps Let_def b,
      simp_all add: fp_codes\<close>)
qed

definition fp_count_in_header :: "input_event list \<Rightarrow> bool" where
  "fp_count_in_header es \<longleftrightarrow> es \<noteq> [] \<and> length es < 16"

definition fp_input_body :: "input_event list \<Rightarrow> bytes" where
  "fp_input_body es = (if fp_count_in_header es then [] else [of_nat (length es)]) @ concat (map fp_event_enc es)"

definition fp_input_header :: "input_event list \<Rightarrow> byte" where
  "fp_input_header es = (if fp_count_in_header es then of_nat (push_bit 2 (length es)) else 0)"

definition fp_input_enc :: "input_event list \<Rightarrow> bytes" where
  "fp_input_enc es = fp_input_header es # be_bytes 2 (0x8000 OR of_nat (3 + length (fp_input_body es)) :: u16) @ fp_input_body es"

definition fp_input_ok :: "input_event list \<Rightarrow> bool" where
  "fp_input_ok es \<longleftrightarrow> list_all fp_event_ok es \<and> length es \<le> 0xFF"

lemma length_fp_input_body: "length (fp_input_body es) \<le> 1 + 7 * length es"
  using length_concat_le [of es fp_event_enc 7] length_fp_event_enc by (simp add: fp_input_body_def)

lemma encode_fastpath_input_enc: "fp_input_ok es \<Longrightarrow> encode_fastpath_input es w = Some (w @ fp_input_enc es)"
  using length_fp_input_body [of es]
  by (auto simp: encode_fastpath_input_def fp_input_ok_def fp_input_enc_def fp_input_header_def fp_input_body_def
      fp_count_in_header_def wr_simps Let_def write_fastpath_events_enc w_patch_u16be_def w_patch_be_eq wassert_def)

lemma fp_input_header_bits:
  shows "fp_input_header es AND 0x03 = 0" "drop_bit 6 (fp_input_header es) = 0"
    "drop_bit 2 (fp_input_header es) AND 0x0F = (if fp_count_in_header es then of_nat (length es) else 0)"
proof -
  let ?n = "if fp_count_in_header es then length es else 0"
  have n: "?n < 16" by (auto simp: fp_count_in_header_def)
  then have u: "unat (fp_input_header es) = 4 * ?n"
    by (auto simp: fp_input_header_def push_bit_eq_mult unsigned_of_nat take_bit_nat_eq_self simp del: of_nat_mult)
  then show "fp_input_header es AND 0x03 = 0"
    by (simp only: word_unat_eq_iff byte_and_low) simp
  have "unat (drop_bit 6 (fp_input_header es)) = 4 * ?n div 64"
    unfolding unat_drop_bit_eq u by (simp add: drop_bit_eq_div)
  with n show "drop_bit 6 (fp_input_header es) = 0" by (simp add: word_unat_eq_iff)
  have "unat (drop_bit 2 (fp_input_header es)) = ?n"
    unfolding unat_drop_bit_eq u by (simp add: drop_bit_eq_div)
  then have "unat (drop_bit 2 (fp_input_header es) AND 0x0F) = ?n" using n by (simp only: byte_and_low) simp
  also have "\<dots> = unat (of_nat ?n :: byte)" using n by (simp add: unsigned_of_nat take_bit_nat_eq_self)
  finally show "drop_bit 2 (fp_input_header es) AND 0x0F = (if fp_count_in_header es then of_nat (length es) else 0)"
    by (simp add: word_unat_eq_iff split: if_splits)
qed

lemma decode_fastpath_input_enc:
  assumes "fp_input_ok es"
  shows "fst (decode_fastpath_input (mk_reader (fp_input_enc es) b)) = Inr es"
proof -
  let ?r = "mk_reader (fp_input_enc es) b" and ?n = "3 + length (fp_input_body es)"
  define v where "v = (0x8000 OR of_nat ?n :: u16)"
  define b1 where "b1 = (ucast (drop_bit 8 v) :: byte)"
  define b2 where "b2 = (ucast v :: byte)"
  have len: "length es \<le> 255" using assms by (simp add: fp_input_ok_def)
  then have l: "128 \<le> unat b1" "256 * (unat b1 mod 128) + unat b2 = ?n"
    using fp_length_octets [of ?n] length_fp_input_body [of es] by (simp_all add: v_def b1_def b2_def)
  have rest: "rd_rest ?r = fp_input_header es # b1 # b2 # fp_input_body es"
    by (simp add: fp_input_enc_def be_bytes_2 v_def [symmetric] b1_def b2_def del: of_nat_add)
  then have size: "length (rd_data ?r) = ?n" by (simp add: fp_input_enc_def)
  have steps: "rd_u8 ?r = (Inr (fp_input_header es), rd_advance 1 ?r)" "rd_u8 (rd_advance 1 ?r) = (Inr b1, rd_advance 2 ?r)"
    "rd_u8 (rd_advance 2 ?r) = (Inr b2, rd_advance 3 ?r)"
    using rest by (auto simp: rd_simps)
  have events: "pcount (length es) read_fastpath_event s =
      (Inr es, rd_advance (length (concat (map fp_event_enc es))) s)"
    if "rd_wf s" "rd_rest s = concat (map fp_event_enc es)" for s
    using that assms by (intro pcount_concat [where ys = "[]"])
      (auto simp: fp_input_ok_def list_all_iff read_fastpath_event_enc)
  have n: "unat (of_nat (length es) :: byte) = length es"
    using len by (simp add: unsigned_of_nat take_bit_nat_eq_self)
  have body: "rd_rest (rd_advance 3 ?r) = fp_input_body es" "rd_wf (rd_advance 3 ?r)"
    using rest by (simp_all add: fp_input_enc_def)
  show ?thesis
  proof (cases "fp_count_in_header es")
    case True
    then have "of_nat (length es) \<noteq> (0 :: byte)" using n by (auto simp: fp_count_in_header_def)
    with True steps l size body n events [of "rd_advance 3 ?r"] show ?thesis
      by (simp add: decode_fastpath_input_def rd_simps fp_input_header_bits fp_action_fastpath_def byte_masks nat_or_256
          fp_input_body_def)
  next
    case False
    then have "rd_rest (rd_advance 3 ?r) = of_nat (length es) # concat (map fp_event_enc es)"
      using body by (simp add: fp_input_body_def)
    moreover from this have "rd_rest (rd_advance 4 ?r) = concat (map fp_event_enc es)"
      using drop_eq_append [of 3 "fp_input_enc es" "[of_nat (length es)]"] by simp
    moreover have "rd_wf (rd_advance 4 ?r)" using False by (simp add: fp_input_enc_def fp_input_body_def)
    ultimately show ?thesis
      using False steps l size n events [of "rd_advance 4 ?r"]
      by (simp add: decode_fastpath_input_def rd_simps fp_input_header_bits fp_action_fastpath_def byte_masks nat_or_256
          fp_input_enc_def fp_input_body_def)
  qed
qed

interpretation fastpath_input: pdu_codec encode_fastpath_input "\<lambda>r. decode_fastpath_input (mk_reader (rd_rest r) (rd_offset r))"
  fp_input_ok fp_input_enc
  by unfold_locales (simp_all add: encode_fastpath_input_enc decode_fastpath_input_enc)

section \<open>Properties\<close>

text \<open>
  Input events survive both wire forms. A slow-path batch, which has no form for QoE timestamps, decodes to the
  events other than those (up to 512 of them); a fast-path batch of at most 255 events whose fields fit their
  fast-path form decodes to itself, with the keyboard flags translated to the fast-path bits and back.
\<close>

theorem input_roundtrip:
  assumes "length (filter (\<lambda>e. \<not> is_qoe e) es) \<le> max_slow_path_input_events" "fp_input_ok fs"
  shows "(\<exists>bs. encode_slow_path_input es w = Some (w @ bs) \<and>
      decode_slow_path_input (mk_reader (bs @ ys) b) =
        (Inr (filter (\<lambda>e. \<not> is_qoe e) es), rd_advance (length bs) (mk_reader (bs @ ys) b))) \<and>
    (\<exists>bs. encode_fastpath_input fs w = Some (w @ bs) \<and> fst (decode_fastpath_input (mk_reader bs b)) = Inr fs)"
proof
  show "\<exists>bs. encode_slow_path_input es w = Some (w @ bs) \<and>
      decode_slow_path_input (mk_reader (bs @ ys) b) =
        (Inr (filter (\<lambda>e. \<not> is_qoe e) es), rd_advance (length bs) (mk_reader (bs @ ys) b))"
    using assms(1) slow_path_input.round_trip [of "filter (\<lambda>e. \<not> is_qoe e) es" w ys b]
    by (auto simp: encode_slow_path_input_enc)
  show "\<exists>bs. encode_fastpath_input fs w = Some (w @ bs) \<and> fst (decode_fastpath_input (mk_reader bs b)) = Inr fs"
    using fastpath_input.pdu_round_trip [OF assms(2), of w b] by simp
qed

end
