(* ===== verification/Share.thy ===== *)
theory Share
  imports Capabilities Input
begin

text \<open>
  \<open>proto/share.cpp\<close>: Share Control and Share Data PDUs, the capability exchange and the slow-path
  data PDUs. A header is returned with a reader over the rest of the PDU, as in the code.
\<close>

section \<open>Model: headers\<close>

definition pdu_type_demand_active :: u16 where "pdu_type_demand_active = 0x1"
definition pdu_type_confirm_active :: u16 where "pdu_type_confirm_active = 0x3"
definition pdu_type_deactivate_all :: u16 where "pdu_type_deactivate_all = 0x6"
definition pdu_type_data :: u16 where "pdu_type_data = 0x7"
definition pdu_type_flow :: u16 where "pdu_type_flow = 0x0"

definition type2_control :: byte where "type2_control = 20"
definition type2_input :: byte where "type2_input = 28"
definition type2_synchronize :: byte where "type2_synchronize = 31"
definition type2_refresh_rect :: byte where "type2_refresh_rect = 33"
definition type2_suppress_output :: byte where "type2_suppress_output = 35"
definition type2_shutdown_request :: byte where "type2_shutdown_request = 36"
definition type2_shutdown_denied :: byte where "type2_shutdown_denied = 37"
definition type2_font_list :: byte where "type2_font_list = 39"
definition type2_font_map :: byte where "type2_font_map = 40"
definition type2_set_error_info :: byte where "type2_set_error_info = 47"
definition type2_frame_acknowledge :: byte where "type2_frame_acknowledge = 56"

definition ts_protocol_version :: u16 where "ts_protocol_version = 0x0010"
definition flow_marker :: u16 where "flow_marker = 0x8000"
definition share_control_header_size :: nat where "share_control_header_size = 6"
definition stream_low :: byte where "stream_low = 0x01"
definition packet_compressed :: byte where "packet_compressed = 0x20"
definition max_source_descriptor :: nat where "max_source_descriptor = 64"

record share_control =
  sc_type :: u16
  sc_source :: u16
  sc_body :: reader

record share_data =
  sd_share_id :: u32
  sd_stream_id :: byte
  sd_type2 :: byte
  sd_payload :: reader

definition read_share_control :: "share_control parser" where
  "read_share_control = pget rd_offset (\<lambda>start. ptry rd_u16le (\<lambda>total_length.
     if total_length = flow_marker
     then pget rd_remaining (\<lambda>n. ptry (rd_skip n) (\<lambda>_.
       pret \<lparr>sc_type = pdu_type_flow, sc_source = 0, sc_body = mk_reader [] 0\<rparr>))
     else pget rd_remaining (\<lambda>n.
       if unat total_length < share_control_header_size \<or> unat total_length \<noteq> n + 2
       then pfail InvalidLength ''share control totalLength does not match the PDU'' start
       else ptry rd_u16le (\<lambda>type. ptry rd_u16le (\<lambda>source. pget rd_remaining (\<lambda>rest. ptry (rd_sub rest) (\<lambda>body.
         pret \<lparr>sc_type = type AND 0x000F, sc_source = source, sc_body = body\<rparr>)))))))"

definition begin_share_control :: "u16 \<Rightarrow> u16 \<Rightarrow> writer \<Rightarrow> nat \<times> writer" where
  "begin_share_control type source w =
     (length w, w_u16le source (w_u16le (type OR ts_protocol_version) (w_u16le 0 w)))"

definition end_share_control :: "nat \<Rightarrow> writer \<Rightarrow> writer option" where
  "end_share_control start w = do {
     let n = length w - start;
     wassert (n \<le> 0x7FFF);
     w_patch_u16le start (of_nat n) w
   }"

definition read_share_data :: "share_data parser" where
  "read_share_data = ptry rd_u32le (\<lambda>share_id. ptry (rd_skip 1) (\<lambda>_. ptry rd_u8 (\<lambda>stream_id. ptry (rd_skip 2) (\<lambda>_.
     ptry rd_u8 (\<lambda>type2. pget rd_offset (\<lambda>compression_offset. ptry rd_u8 (\<lambda>compressed_type. ptry (rd_skip 2) (\<lambda>_.
     if compressed_type AND packet_compressed \<noteq> 0
     then pfail Unsupported ''compressed share data PDU'' compression_offset
     else pget rd_remaining (\<lambda>n. ptry (rd_sub n) (\<lambda>payload.
       pret \<lparr>sd_share_id = share_id, sd_stream_id = stream_id, sd_type2 = type2, sd_payload = payload\<rparr>))))))))))"

definition write_data_pdu :: "u32 \<Rightarrow> u16 \<Rightarrow> byte \<Rightarrow> bytes \<Rightarrow> writer \<Rightarrow> writer option" where
  "write_data_pdu share_id source type2 payload w = do {
     let (start, w) = begin_share_control pdu_type_data source w;
     let w = w_u8 stream_low (w_u8 0 (w_u32le share_id w));
     wassert (length payload + 4 \<le> 0xFFFF);
     let w = w_u16le (of_nat (length payload + 4)) w;
     let w = w_u16le 0 (w_u8 0 (w_u8 type2 w));
     end_share_control start (w_bytes payload w)
   }"

section \<open>Model: capability exchange\<close>

definition read_source_descriptor :: "u16 \<Rightarrow> bytes parser" where
  "read_source_descriptor n = pget rd_offset (\<lambda>off.
     if unat n > max_source_descriptor then pfail LimitExceeded ''source descriptor longer than 64 bytes'' off
     else ptry (rd_bytes (unat n)) (\<lambda>bs. pret (takeWhile (\<lambda>c. c \<noteq> 0) bs)))"

definition read_capabilities :: "(bytes \<times> capability_sets) parser" where
  "read_capabilities = ptry rd_u16le (\<lambda>descriptor_length. pget rd_offset (\<lambda>combined_offset.
     ptry rd_u16le (\<lambda>combined_length. ptry (read_source_descriptor descriptor_length) (\<lambda>descriptor.
     if unat combined_length < 4 then pfail InvalidLength ''lengthCombinedCapabilities below 4'' combined_offset
     else ptry (rd_sub (unat combined_length)) (\<lambda>combined.
       pwith combined (ptry rd_u16le (\<lambda>count. ptry (rd_skip 2) (\<lambda>_. ptry (decode_capability_sets count) (\<lambda>sets.
         ptry (rd_expect_end ''capability sets'') (\<lambda>_. pret (descriptor, sets)))))))))))"

definition write_capabilities :: "bytes \<Rightarrow> capability_sets \<Rightarrow> writer \<Rightarrow> writer option" where
  "write_capabilities descriptor sets w = do {
     let w = w_u16le (of_nat (length descriptor + 1)) w;
     let combined_pos = length w;
     let w = w_u8 0 (w_bytes descriptor (w_u16le 0 w));
     let combined_start = length w;
     (w, count) \<leftarrow> encode_capability_sets sets (w_u16le 0 (w_u16le 0 w));
     let combined = length w - combined_start;
     wassert (combined \<le> 0xFFFF);
     w \<leftarrow> w_patch_u16le combined_pos (of_nat combined) w;
     w_patch_u16le combined_start count w
   }"

record demand_active =
  da_share_id :: u32
  da_source_descriptor :: bytes
  da_capabilities :: capability_sets
  da_session_id :: u32

record confirm_active =
  ca_share_id :: u32
  ca_originator_id :: u16
  ca_source_descriptor :: bytes
  ca_capabilities :: capability_sets

record deactivate_all =
  de_share_id :: u32

definition decode_demand_active :: "demand_active parser" where
  "decode_demand_active = ptry rd_u32le (\<lambda>share_id. ptry read_capabilities (\<lambda>(descriptor, sets).
     pget rd_empty (\<lambda>e. ptry (if \<not> e then rd_u32le else pret 0) (\<lambda>session_id.
     pret \<lparr>da_share_id = share_id, da_source_descriptor = descriptor, da_capabilities = sets, da_session_id = session_id\<rparr>))))"

definition decode_confirm_active :: "confirm_active parser" where
  "decode_confirm_active = ptry rd_u32le (\<lambda>share_id. ptry rd_u16le (\<lambda>originator.
     ptry read_capabilities (\<lambda>(descriptor, sets).
     pret \<lparr>ca_share_id = share_id, ca_originator_id = originator, ca_source_descriptor = descriptor, ca_capabilities = sets\<rparr>)))"

definition decode_deactivate_all :: "deactivate_all parser" where
  "decode_deactivate_all = ptry rd_u32le (\<lambda>share_id. pget rd_empty (\<lambda>e.
     ptry (if \<not> e then ptry rd_u16le (\<lambda>n. rd_skip (unat n)) else pret ()) (\<lambda>_. pret \<lparr>de_share_id = share_id\<rparr>)))"

definition encode_demand_active :: "u16 \<Rightarrow> demand_active \<Rightarrow> writer \<Rightarrow> writer option" where
  "encode_demand_active source pdu w = do {
     let (start, w) = begin_share_control pdu_type_demand_active source w;
     w \<leftarrow> write_capabilities (da_source_descriptor pdu) (da_capabilities pdu) (w_u32le (da_share_id pdu) w);
     end_share_control start (w_u32le (da_session_id pdu) w)
   }"

definition encode_confirm_active :: "u16 \<Rightarrow> confirm_active \<Rightarrow> writer \<Rightarrow> writer option" where
  "encode_confirm_active source pdu w = do {
     let (start, w) = begin_share_control pdu_type_confirm_active source w;
     w \<leftarrow> write_capabilities (ca_source_descriptor pdu) (ca_capabilities pdu)
       (w_u16le (ca_originator_id pdu) (w_u32le (ca_share_id pdu) w));
     end_share_control start w
   }"

definition encode_deactivate_all :: "u16 \<Rightarrow> deactivate_all \<Rightarrow> writer \<Rightarrow> writer option" where
  "encode_deactivate_all source pdu w = (let (start, w) = begin_share_control pdu_type_deactivate_all source w
     in end_share_control start (w_u8 0 (w_u16le 1 (w_u32le (de_share_id pdu) w))))"

section \<open>Model: data PDUs\<close>

record rectangle16 =
  rect_left :: u16
  rect_top :: u16
  rect_right :: u16
  rect_bottom :: u16

datatype data_pdu =
    Synchronize u16 u16
  | Control u16 u16 u32
  | FontList u16 u16 u16 u16
  | FontMap u16 u16 u16 u16
  | SetErrorInfo u32
  | RefreshRect "rectangle16 list"
  | SuppressOutput bool "rectangle16 option"
  | ShutdownRequest
  | ShutdownDenied
  | FrameAcknowledgePdu u32
  | InputPdu "input_event list"
  | OtherDataPdu byte

definition read_rectangle :: "rectangle16 parser" where
  "read_rectangle = ptry rd_u16le (\<lambda>left. ptry rd_u16le (\<lambda>top. ptry rd_u16le (\<lambda>right. ptry rd_u16le (\<lambda>bottom.
     pret \<lparr>rect_left = left, rect_top = top, rect_right = right, rect_bottom = bottom\<rparr>))))"

definition write_rectangle :: "rectangle16 \<Rightarrow> writer \<Rightarrow> writer" where
  "write_rectangle rect w =
     w_u16le (rect_bottom rect) (w_u16le (rect_right rect) (w_u16le (rect_top rect) (w_u16le (rect_left rect) w)))"

definition decode_payload :: "byte \<Rightarrow> data_pdu parser" where
  "decode_payload type2 =
     (if type2 = type2_synchronize
      then ptry rd_u16le (\<lambda>message_type. ptry rd_u16le (\<lambda>target. pget rd_offset (\<lambda>off.
        if message_type \<noteq> 1
        then pfail InvalidValue ''Synchronize messageType is not SYNCMSGTYPE_SYNC'' (off - 4)
        else pret (Synchronize message_type target))))
      else if type2 = type2_control
      then ptry rd_u16le (\<lambda>action. ptry rd_u16le (\<lambda>grant. ptry rd_u32le (\<lambda>control. pret (Control action grant control))))
      else if type2 = type2_font_list
      then ptry rd_u16le (\<lambda>n. ptry rd_u16le (\<lambda>t. ptry rd_u16le (\<lambda>flags. ptry rd_u16le (\<lambda>sz. pret (FontList n t flags sz)))))
      else if type2 = type2_font_map
      then ptry rd_u16le (\<lambda>n. ptry rd_u16le (\<lambda>t. ptry rd_u16le (\<lambda>flags. ptry rd_u16le (\<lambda>sz. pret (FontMap n t flags sz)))))
      else if type2 = type2_set_error_info then ptry rd_u32le (\<lambda>code. pret (SetErrorInfo code))
      else if type2 = type2_refresh_rect
      then ptry rd_u8 (\<lambda>count. ptry (rd_skip 3) (\<lambda>_. ptry (pcount (unat count) read_rectangle) (\<lambda>areas. pret (RefreshRect areas))))
      else if type2 = type2_suppress_output
      then pget rd_offset (\<lambda>start. ptry rd_u8 (\<lambda>allow.
        if allow > 1 then pfail InvalidValue ''allowDisplayUpdates is neither 0 nor 1'' start
        else ptry (rd_skip 3) (\<lambda>_.
          ptry (if allow = 1 then ptry read_rectangle (\<lambda>rect. pret (Some rect)) else pret None) (\<lambda>rect.
          pret (SuppressOutput (allow = 1) rect)))))
      else if type2 = type2_shutdown_request then pret ShutdownRequest
      else if type2 = type2_shutdown_denied then pret ShutdownDenied
      else if type2 = type2_frame_acknowledge then ptry rd_u32le (\<lambda>frame. pret (FrameAcknowledgePdu frame))
      else if type2 = type2_input then ptry decode_slow_path_input (\<lambda>events. pret (InputPdu events))
      else pret (OtherDataPdu type2))"

text \<open>The reader that is advanced is the payload of the header.\<close>

definition decode_data_pdu :: "share_data \<Rightarrow> data_pdu result \<times> share_data" where
  "decode_data_pdu data = (let (res, payload) = decode_payload (sd_type2 data) (sd_payload data)
     in (res, data\<lparr>sd_payload := payload\<rparr>))"

text \<open>The overloads of \<open>encode\<close>; there is none for \<open>OtherDataPdu\<close>, so it has no encoding.\<close>

fun encode_payload :: "data_pdu \<Rightarrow> writer \<Rightarrow> writer option" where
  "encode_payload (Synchronize message_type target) w = Some (w_u16le target (w_u16le message_type w))"
| "encode_payload (Control action grant control) w = Some (w_u32le control (w_u16le grant (w_u16le action w)))"
| "encode_payload (FontList n t flags sz) w = Some (w_u16le sz (w_u16le flags (w_u16le t (w_u16le n w))))"
| "encode_payload (FontMap n t flags sz) w = Some (w_u16le sz (w_u16le flags (w_u16le t (w_u16le n w))))"
| "encode_payload (SetErrorInfo code) w = Some (w_u32le code w)"
| "encode_payload (RefreshRect areas) w = do {
     wassert (length areas \<le> 0xFF);
     Some (fold write_rectangle areas (w_zeros 3 (w_u8 (of_nat (length areas)) w)))
   }"
| "encode_payload (SuppressOutput allow rect) w =
     (let w = w_zeros 3 (w_u8 (if allow then 1 else 0) w)
      in Some (if allow
           then write_rectangle (case rect of Some v \<Rightarrow> v
             | None \<Rightarrow> \<lparr>rect_left = 0, rect_top = 0, rect_right = 0, rect_bottom = 0\<rparr>) w
           else w))"
| "encode_payload (FrameAcknowledgePdu frame) w = Some (w_u32le frame w)"
| "encode_payload (InputPdu events) w = encode_slow_path_input events w"
| "encode_payload ShutdownRequest w = Some w"
| "encode_payload ShutdownDenied w = Some w"
| "encode_payload (OtherDataPdu _) w = None"

fun type2_of :: "data_pdu \<Rightarrow> byte" where
  "type2_of (Synchronize _ _) = type2_synchronize"
| "type2_of (Control _ _ _) = type2_control"
| "type2_of (FontList _ _ _ _) = type2_font_list"
| "type2_of (FontMap _ _ _ _) = type2_font_map"
| "type2_of (SetErrorInfo _) = type2_set_error_info"
| "type2_of (RefreshRect _) = type2_refresh_rect"
| "type2_of (SuppressOutput _ _) = type2_suppress_output"
| "type2_of ShutdownRequest = type2_shutdown_request"
| "type2_of ShutdownDenied = type2_shutdown_denied"
| "type2_of (FrameAcknowledgePdu _) = type2_frame_acknowledge"
| "type2_of (InputPdu _) = type2_input"
| "type2_of (OtherDataPdu type2) = type2"

section \<open>Staying inside the input\<close>

lemma share_safe_parts [safe_intros]: "rd_safe (read_source_descriptor n)" "rd_safe read_capabilities" "rd_safe read_rectangle"
  unfolding read_source_descriptor_def read_capabilities_def read_rectangle_def by (intro safe_intros)+

lemma share_safe [safe_intros]:
  "rd_safe read_share_control" "rd_safe read_share_data" "rd_safe decode_demand_active" "rd_safe decode_confirm_active"
  "rd_safe decode_deactivate_all" "rd_safe (decode_payload type2)"
  unfolding read_share_control_def read_share_data_def decode_demand_active_def decode_confirm_active_def
    decode_deactivate_all_def decode_payload_def by (intro safe_intros)+

section \<open>Share control\<close>

definition share_control_enc :: "u16 \<Rightarrow> u16 \<Rightarrow> bytes \<Rightarrow> bytes" where
  "share_control_enc type source body =
     le_bytes 2 (of_nat (length body + 6) :: u16) @ le_bytes 2 (type OR ts_protocol_version) @ le_bytes 2 source @ body"

lemma end_share_control_enc:
  assumes "length body + 6 \<le> 0x7FFF"
  shows "end_share_control (length w) (w @ le_bytes 2 (0 :: u16) @ le_bytes 2 (type OR ts_protocol_version) @ le_bytes 2 source @ body) =
    Some (w @ share_control_enc type source body)"
  using assms by (simp add: end_share_control_def wassert_def w_patch_u16le_def w_patch_le_eq share_control_enc_def
      add.commute [of 6] del: of_nat_add of_nat_Suc)

lemma share_type_bits: "unat type < 16 \<Longrightarrow> (type OR ts_protocol_version) AND 0x000F = type"
proof -
  assume "unat type < 16"
  then have t: "type AND mask 4 = type" using word_take_bit_self [of type 4] by (simp add: take_bit_eq_mask)
  have "ts_protocol_version AND mask 4 = 0" by (simp add: ts_protocol_version_def mask_eq_exp_minus_1)
  then have "(type OR ts_protocol_version) AND mask 4 = type" by (simp add: bit.conj_disj_distrib2 t)
  then show ?thesis by (simp add: mask_eq_exp_minus_1)
qed

lemma read_share_control_enc:
  assumes "rd_wf r" "rd_rest r = share_control_enc type source body" "unat type < 16" "length body + 6 \<le> 0x7FFF"
  shows "read_share_control r = (Inr \<lparr>sc_type = type, sc_source = source, sc_body = mk_reader body (rd_offset r + 6)\<rparr>,
    rd_advance (length body + 6) r)"
proof -
  have n: "unat (of_nat (length body + 6) :: u16) = length body + 6"
    using assms(4) by (simp add: unsigned_of_nat take_bit_nat_eq_self del: of_nat_add)
  then have "(of_nat (length body + 6) :: u16) \<noteq> flow_marker"
    using assms(4) by (auto simp: flow_marker_def dest!: arg_cong [where f = unat] simp del: of_nat_add)
  with assms n show ?thesis
    by (simp add: read_share_control_def share_control_enc_def rd_simps rd_remaining_rest share_control_header_size_def
        share_type_bits add.commute [of 6] del: of_nat_add of_nat_Suc)
qed

section \<open>Data PDUs survive the wire\<close>

definition share_data_enc :: "u32 \<Rightarrow> byte \<Rightarrow> bytes \<Rightarrow> bytes" where
  "share_data_enc share_id type2 payload = le_bytes 4 share_id @ [0, stream_low] @
     le_bytes 2 (of_nat (length payload + 4) :: u16) @ [type2, 0] @ le_bytes 2 (0 :: u16) @ payload"

lemma write_data_pdu_enc:
  assumes "length payload + 18 \<le> 0x7FFF"
  shows "write_data_pdu share_id source type2 payload w =
    Some (w @ share_control_enc pdu_type_data source (share_data_enc share_id type2 payload))"
  using end_share_control_enc [of "share_data_enc share_id type2 payload" w pdu_type_data source] assms
  by (simp add: write_data_pdu_def begin_share_control_def wr_simps share_data_enc_def wassert_def del: of_nat_add)

lemma read_share_data_enc:
  assumes "rd_wf r" "rd_rest r = share_data_enc share_id type2 payload"
  shows "read_share_data r = (Inr \<lparr>sd_share_id = share_id, sd_stream_id = stream_low, sd_type2 = type2,
    sd_payload = mk_reader payload (rd_offset r + 12)\<rparr>, rd_advance (length payload + 12) r)"
  using assms
  by (simp add: read_share_data_def share_data_enc_def rd_simps rd_remaining_rest
      del: of_nat_add of_nat_Suc)

definition rectangle_enc :: "rectangle16 \<Rightarrow> bytes" where
  "rectangle_enc rect = le_bytes 2 (rect_left rect) @ le_bytes 2 (rect_top rect) @ le_bytes 2 (rect_right rect) @
     le_bytes 2 (rect_bottom rect)"

lemma write_rectangles: "fold write_rectangle rects w = w @ concat (map rectangle_enc rects)"
  by (induction rects arbitrary: w) (simp_all add: write_rectangle_def rectangle_enc_def wr_simps)

lemma read_rectangle_enc:
  "rd_rest r = rectangle_enc rect @ ys \<Longrightarrow> read_rectangle r = (Inr rect, rd_advance (length (rectangle_enc rect)) r)"
  by (simp add: read_rectangle_def rectangle_enc_def rd_simps)

definition payload_ok :: "data_pdu \<Rightarrow> bool" where
  "payload_ok pdu = (case pdu of
     Synchronize message_type _ \<Rightarrow> message_type = 1
   | RefreshRect areas \<Rightarrow> length areas \<le> 0xFF
   | SuppressOutput allow rect \<Rightarrow> allow \<longleftrightarrow> rect \<noteq> None
   | InputPdu events \<Rightarrow> (\<forall>e \<in> set events. \<not> is_qoe e) \<and> length events \<le> max_slow_path_input_events
   | OtherDataPdu _ \<Rightarrow> False
   | _ \<Rightarrow> True)"

fun payload_enc :: "data_pdu \<Rightarrow> bytes" where
  "payload_enc (Synchronize message_type target) = le_bytes 2 message_type @ le_bytes 2 target"
| "payload_enc (Control action grant control) = le_bytes 2 action @ le_bytes 2 grant @ le_bytes 4 control"
| "payload_enc (FontList n t flags sz) = le_bytes 2 n @ le_bytes 2 t @ le_bytes 2 flags @ le_bytes 2 sz"
| "payload_enc (FontMap n t flags sz) = le_bytes 2 n @ le_bytes 2 t @ le_bytes 2 flags @ le_bytes 2 sz"
| "payload_enc (SetErrorInfo code) = le_bytes 4 code"
| "payload_enc (RefreshRect areas) = [of_nat (length areas), 0, 0, 0] @ concat (map rectangle_enc areas)"
| "payload_enc (SuppressOutput allow rect) = [if allow then 1 else 0, 0, 0, 0] @ (case rect of None \<Rightarrow> [] | Some v \<Rightarrow> rectangle_enc v)"
| "payload_enc (FrameAcknowledgePdu frame) = le_bytes 4 frame"
| "payload_enc (InputPdu events) = slow_path_input_enc events"
| "payload_enc ShutdownRequest = []"
| "payload_enc ShutdownDenied = []"
| "payload_enc (OtherDataPdu _) = []"

lemma write_rectangle_enc: "write_rectangle rect w = w @ rectangle_enc rect"
  by (simp add: write_rectangle_def rectangle_enc_def wr_simps)

lemma replicate_3: "replicate 3 x = [x, x, x]" by (simp add: eval_nat_numeral)

lemma encode_payload_enc: "payload_ok pdu \<Longrightarrow> encode_payload pdu w = Some (w @ payload_enc pdu)"
  by (cases pdu) (auto simp: payload_ok_def wr_simps write_rectangles write_rectangle_enc replicate_3 Let_def
      encode_slow_path_input_enc wassert_def)

lemmas type2_consts = type2_control_def type2_input_def type2_synchronize_def type2_refresh_rect_def
  type2_suppress_output_def type2_shutdown_request_def type2_shutdown_denied_def type2_font_list_def type2_font_map_def
  type2_set_error_info_def type2_frame_acknowledge_def

lemma decode_refresh_rect:
  assumes "length areas \<le> 0xFF" "rd_wf r" "rd_rest r = payload_enc (RefreshRect areas)"
  shows "fst (decode_payload type2_refresh_rect r) = Inr (RefreshRect areas)"
proof -
  have "unat (of_nat (length areas) :: byte) = length areas"
    using assms(1) by (simp add: unsigned_of_nat take_bit_nat_eq_self)
  moreover have "pcount (length areas) read_rectangle (rd_advance 4 r) =
      (Inr areas, rd_advance (length (concat (map rectangle_enc areas))) (rd_advance 4 r))"
    using assms by (intro pcount_concat [where ys = "[]"]) (simp_all add: read_rectangle_enc)
  ultimately show ?thesis
    using assms by (simp add: decode_payload_def type2_consts rd_simps)
qed

lemma decode_payload_enc:
  assumes "payload_ok pdu" "rd_wf r" "rd_rest r = payload_enc pdu"
  shows "fst (decode_payload (type2_of pdu) r) = Inr pdu"
proof (cases pdu)
  case (RefreshRect areas)
  then show ?thesis using assms decode_refresh_rect [of areas r] by (simp add: payload_ok_def)
next
  case (SuppressOutput allow rect)
  then show ?thesis
    using assms by (cases rect)
      (auto simp: payload_ok_def decode_payload_def type2_consts rd_simps read_rectangle_enc [where ys = "[]"])
next
  case (InputPdu events)
  then have "decode_slow_path_input r = (Inr events, rd_advance (length (slow_path_input_enc events)) r)"
    using assms by (intro decode_slow_path_input_enc [where ys = "[]"]) (auto simp: payload_ok_def)
  with InputPdu show ?thesis by (simp add: decode_payload_def type2_consts rd_simps)
qed (use assms in \<open>simp_all add: payload_ok_def decode_payload_def type2_consts rd_simps\<close>)

interpretation data_payload: pdu_codec encode_payload "\<lambda>r. decode_payload type2 r"
  "\<lambda>pdu. payload_ok pdu \<and> type2_of pdu = type2" payload_enc
  for type2
  by unfold_locales (auto simp: encode_payload_enc decode_payload_enc)

section \<open>The capability exchange survives the wire\<close>

definition caps_block :: "bytes \<Rightarrow> capability_sets \<Rightarrow> bytes" where
  "caps_block descriptor sets =
     le_bytes 2 (of_nat (length descriptor + 1) :: u16) @ le_bytes 2 (of_nat (length (caps_enc sets) + 4) :: u16) @
     (descriptor @ [0]) @ le_bytes 2 (of_nat (length (caps_items sets)) :: u16) @ le_bytes 2 (0 :: u16) @ caps_enc sets"

definition exchange_ok :: "bytes \<Rightarrow> capability_sets \<Rightarrow> bool" where
  "exchange_ok descriptor sets \<longleftrightarrow> caps_ok sets \<and> 0 \<notin> set descriptor \<and> length descriptor < max_source_descriptor \<and>
     length (caps_enc sets) \<le> 0x7000"

lemma caps_items_bound: "4 * length (caps_items s) \<le> length (caps_enc s)"
proof -
  have "4 * length items \<le> length (concat (map set_enc items))" for items
    by (induction items) (auto simp: set_enc_def)
  then show ?thesis by (simp add: caps_enc_def)
qed

lemma length_caps_block: "exchange_ok descriptor sets \<Longrightarrow> length (caps_block descriptor sets) \<le> 0x7000 + 72"
  by (simp add: caps_block_def exchange_ok_def max_source_descriptor_def)

lemma patch_twice:
  fixes u v :: u16
  assumes "length xs = 2" "length ys = 2"
  shows "do { w \<leftarrow> w_patch_u16le (length pre) u (pre @ xs @ mid @ ys @ post);
      w_patch_u16le (length pre + 2 + length mid) v w } =
    Some (pre @ le_bytes 2 u @ mid @ le_bytes 2 v @ post)"
  using assms by (simp add: w_patch_u16le_def w_patch_le_eq)

lemma write_capabilities_enc:
  assumes "exchange_ok descriptor sets"
  shows "write_capabilities descriptor sets w = Some (w @ caps_block descriptor sets)"
proof -
  let ?pre = "w @ le_bytes 2 (of_nat (length descriptor + 1) :: u16)" and ?mid = "descriptor @ [0]"
  have "encode_capability_sets sets (?pre @ le_bytes 2 (0 :: u16) @ ?mid @ le_bytes 2 (0 :: u16) @ le_bytes 2 (0 :: u16)) =
      Some (?pre @ le_bytes 2 (0 :: u16) @ ?mid @ le_bytes 2 (0 :: u16) @ le_bytes 2 (0 :: u16) @ caps_enc sets,
        of_nat (length (caps_items sets)))"
    using assms encode_capability_sets_enc [of sets] by (simp add: exchange_ok_def)
  moreover note patch_twice [of "le_bytes 2 (0 :: u16)" "le_bytes 2 (0 :: u16)" ?pre "of_nat (length (caps_enc sets) + 4)"
      ?mid "le_bytes 2 (0 :: u16) @ caps_enc sets" "of_nat (length (caps_items sets))"]
  ultimately show ?thesis
    using assms
    by (simp add: write_capabilities_def wr_simps caps_block_def exchange_ok_def wassert_def add.commute [of 4]
        del: of_nat_add of_nat_Suc)
qed

lemma read_source_descriptor_enc:
  assumes "0 \<notin> set descriptor" "length descriptor < max_source_descriptor" "rd_rest r = (descriptor @ [0]) @ ys"
  shows "read_source_descriptor (of_nat (length descriptor + 1)) r = (Inr descriptor, rd_advance (length descriptor + 1) r)"
proof -
  have "unat (of_nat (length descriptor + 1) :: u16) = length descriptor + 1"
    using assms(2) by (simp add: max_source_descriptor_def unsigned_of_nat take_bit_nat_eq_self del: of_nat_add of_nat_Suc)
  moreover have "takeWhile (\<lambda>c. c \<noteq> 0) (descriptor @ [0]) = descriptor"
    using assms(1) by simp
  moreover have "rd_bytes (length descriptor + 1) r = (Inr (descriptor @ [0]), rd_advance (length descriptor + 1) r)"
    using assms(3) by (intro rd_bytes_app) simp_all
  ultimately show ?thesis
    using assms(2) by (simp add: read_source_descriptor_def rd_simps del: of_nat_add of_nat_Suc)
qed

lemma read_capabilities_enc:
  assumes "exchange_ok descriptor sets" "rd_wf r" "rd_rest r = caps_block descriptor sets @ ys"
  shows "read_capabilities r = (Inr (descriptor, sets), rd_advance (length (caps_block descriptor sets)) r)"
proof -
  define body where "body = le_bytes 2 (of_nat (length (caps_items sets)) :: u16) @ le_bytes 2 (0 :: u16) @ caps_enc sets"
  let ?n = "length (caps_enc sets) + 4" and ?d = "length descriptor + 1"
  have n: "unat (of_nat ?n :: u16) = ?n" and items: "length (caps_items sets) \<le> 0xFFFF"
    using assms(1) caps_items_bound [of sets]
    by (simp_all add: exchange_ok_def unsigned_of_nat take_bit_nat_eq_self del: of_nat_add)
  have body: "length body = ?n" by (simp add: body_def)
  have "rd_rest (rd_advance 4 r) = (descriptor @ [0]) @ body @ ys"
    using assms(3) by (simp add: caps_block_def body_def)
  then have desc: "read_source_descriptor (of_nat ?d) (rd_advance 4 r) = (Inr descriptor, rd_advance (4 + ?d) r)"
    using assms(1) read_source_descriptor_enc [of descriptor "rd_advance 4 r"] by (simp add: exchange_ok_def)
  have sets: "decode_capability_sets (of_nat (length (caps_items sets))) (rd_advance 4 (mk_reader body off)) =
      (Inr sets, rd_advance ?n (mk_reader body off))" for off
    using capabilities.rd_enc [of sets "length (caps_items sets)" "rd_advance 4 (mk_reader body off)" "[]"] assms(1) items
    by (simp add: exchange_ok_def body_def add.commute)
  have "rd_rest r = le_bytes 2 (of_nat ?d :: u16) @ le_bytes 2 (of_nat ?n :: u16) @ (descriptor @ [0]) @ body @ ys"
    using assms(3) by (simp add: caps_block_def body_def)
  moreover have "rd_u16le (mk_reader body off) = (Inr (of_nat (length (caps_items sets))), rd_advance 2 (mk_reader body off))" for off
    by (rule rd_u16le_app) (simp add: body_def)
  moreover have "rd_wf (rd_advance ?n (mk_reader body off))" for off by (simp add: body)
  ultimately show ?thesis
    using n body desc sets
    by (simp add: read_capabilities_def rd_simps caps_block_def add.commute [of 4] del: of_nat_add of_nat_Suc)
qed

text \<open>A body inside a Share Control PDU of the given type and source, decoded through the header.\<close>

definition in_share_control :: "u16 \<Rightarrow> u16 \<Rightarrow> 'a parser \<Rightarrow> 'a parser" where
  "in_share_control type source body = ptry read_share_control (\<lambda>c.
     if sc_type c = type \<and> sc_source c = source then pwith (sc_body c) body
     else pfail InvalidValue ''another share control PDU'' 0)"

lemma in_share_control_enc:
  assumes "rd_wf r" "rd_rest r = share_control_enc type source bs" "unat type < 16" "length bs + 6 \<le> 0x7FFF"
    "fst (body (mk_reader bs (rd_offset r + 6))) = Inr x"
  shows "fst (in_share_control type source body r) = Inr x"
  using read_share_control_enc [OF assms(1-4)] assms(5) by (simp add: in_share_control_def rd_simps)

lemmas pdu_types = pdu_type_demand_active_def pdu_type_confirm_active_def pdu_type_deactivate_all_def pdu_type_data_def

definition demand_active_enc :: "demand_active \<Rightarrow> bytes" where
  "demand_active_enc pdu = le_bytes 4 (da_share_id pdu) @ caps_block (da_source_descriptor pdu) (da_capabilities pdu) @
     le_bytes 4 (da_session_id pdu)"

definition confirm_active_enc :: "confirm_active \<Rightarrow> bytes" where
  "confirm_active_enc pdu = le_bytes 4 (ca_share_id pdu) @ le_bytes 2 (ca_originator_id pdu) @
     caps_block (ca_source_descriptor pdu) (ca_capabilities pdu)"

definition deactivate_all_enc :: "deactivate_all \<Rightarrow> bytes" where
  "deactivate_all_enc pdu = le_bytes 4 (de_share_id pdu) @ le_bytes 2 (1 :: u16) @ [0]"

interpretation demand_active: pdu_codec "encode_demand_active source"
  "in_share_control pdu_type_demand_active source decode_demand_active"
  "\<lambda>pdu. exchange_ok (da_source_descriptor pdu) (da_capabilities pdu)"
  "\<lambda>pdu. share_control_enc pdu_type_demand_active source (demand_active_enc pdu)"
  for source
proof unfold_locales
  fix pdu :: demand_active and w assume ok: "exchange_ok (da_source_descriptor pdu) (da_capabilities pdu)"
  then have n: "length (demand_active_enc pdu) + 6 \<le> 0x7FFF"
    using length_caps_block [of "da_source_descriptor pdu" "da_capabilities pdu"] by (simp add: demand_active_enc_def)
  then show "encode_demand_active source pdu w = Some (w @ share_control_enc pdu_type_demand_active source (demand_active_enc pdu))"
    using end_share_control_enc [OF n, of w pdu_type_demand_active source] ok
    by (simp add: encode_demand_active_def begin_share_control_def wr_simps write_capabilities_enc demand_active_enc_def)
  fix r assume r: "rd_wf r" "rd_rest r = share_control_enc pdu_type_demand_active source (demand_active_enc pdu)"
  have "fst (decode_demand_active (mk_reader (demand_active_enc pdu) off)) = Inr pdu" for off
    using ok by (simp add: decode_demand_active_def demand_active_enc_def rd_simps read_capabilities_enc rd_empty_rest)
  with r n show "fst (in_share_control pdu_type_demand_active source decode_demand_active r) = Inr pdu"
    by (intro in_share_control_enc) (simp_all add: pdu_types)
qed

interpretation confirm_active: pdu_codec "encode_confirm_active source"
  "in_share_control pdu_type_confirm_active source decode_confirm_active"
  "\<lambda>pdu. exchange_ok (ca_source_descriptor pdu) (ca_capabilities pdu)"
  "\<lambda>pdu. share_control_enc pdu_type_confirm_active source (confirm_active_enc pdu)"
  for source
proof unfold_locales
  fix pdu :: confirm_active and w assume ok: "exchange_ok (ca_source_descriptor pdu) (ca_capabilities pdu)"
  then have n: "length (confirm_active_enc pdu) + 6 \<le> 0x7FFF"
    using length_caps_block [of "ca_source_descriptor pdu" "ca_capabilities pdu"] by (simp add: confirm_active_enc_def)
  then show "encode_confirm_active source pdu w = Some (w @ share_control_enc pdu_type_confirm_active source (confirm_active_enc pdu))"
    using end_share_control_enc [OF n, of w pdu_type_confirm_active source] ok
    by (simp add: encode_confirm_active_def begin_share_control_def wr_simps write_capabilities_enc confirm_active_enc_def)
  fix r assume r: "rd_wf r" "rd_rest r = share_control_enc pdu_type_confirm_active source (confirm_active_enc pdu)"
  have "fst (decode_confirm_active (mk_reader (confirm_active_enc pdu) off)) = Inr pdu" for off
    using ok
    by (simp add: decode_confirm_active_def confirm_active_enc_def rd_simps read_capabilities_enc [where ys = "[]"])
  with r n show "fst (in_share_control pdu_type_confirm_active source decode_confirm_active r) = Inr pdu"
    by (intro in_share_control_enc) (simp_all add: pdu_types)
qed

interpretation deactivate_all: pdu_codec "encode_deactivate_all source"
  "in_share_control pdu_type_deactivate_all source decode_deactivate_all" "\<lambda>_. True"
  "\<lambda>pdu. share_control_enc pdu_type_deactivate_all source (deactivate_all_enc pdu)"
  for source
proof unfold_locales
  fix pdu w
  have n: "length (deactivate_all_enc pdu) + 6 \<le> 0x7FFF" by (simp add: deactivate_all_enc_def)
  show "encode_deactivate_all source pdu w = Some (w @ share_control_enc pdu_type_deactivate_all source (deactivate_all_enc pdu))"
    using end_share_control_enc [OF n, of w pdu_type_deactivate_all source]
    by (simp add: encode_deactivate_all_def begin_share_control_def wr_simps deactivate_all_enc_def)
  fix r assume r: "rd_wf r" "rd_rest r = share_control_enc pdu_type_deactivate_all source (deactivate_all_enc pdu)"
  have "fst (decode_deactivate_all (mk_reader (deactivate_all_enc pdu) off)) = Inr pdu" for off
    by (simp add: decode_deactivate_all_def deactivate_all_enc_def rd_simps rd_empty_rest)
  with r n show "fst (in_share_control pdu_type_deactivate_all source decode_deactivate_all r) = Inr pdu"
    by (intro in_share_control_enc) (simp_all add: pdu_types)
qed

section \<open>Properties\<close>

text \<open>
  A data PDU survives its whole journey: the payload its encoder writes, put into a Share Data and a Share
  Control header, is taken out again with the same share, source and kind, and decodes to the PDU it was.
\<close>

theorem data_pdu_roundtrip:
  assumes "payload_ok pdu" "length (payload_enc pdu) + 18 \<le> 0x7FFF"
  shows "\<exists>payload bs c d. encode_payload pdu [] = Some payload \<and>
    write_data_pdu share source (type2_of pdu) payload w = Some (w @ bs) \<and>
    fst (read_share_control (mk_reader bs b)) = Inr c \<and> sc_type c = pdu_type_data \<and> sc_source c = source \<and>
    fst (read_share_data (sc_body c)) = Inr d \<and> sd_share_id d = share \<and> fst (decode_data_pdu d) = Inr pdu"
proof -
  let ?p = "payload_enc pdu"
  let ?bs = "share_control_enc pdu_type_data source (share_data_enc share (type2_of pdu) ?p)"
  let ?c = "\<lparr>sc_type = pdu_type_data, sc_source = source, sc_body = mk_reader (share_data_enc share (type2_of pdu) ?p) (b + 6)\<rparr>"
  let ?d = "\<lparr>sd_share_id = share, sd_stream_id = stream_low, sd_type2 = type2_of pdu, sd_payload = mk_reader ?p (b + 18)\<rparr>"
  have "length (share_data_enc share (type2_of pdu) ?p) + 6 \<le> 0x7FFF" using assms(2) by (simp add: share_data_enc_def)
  then have "fst (read_share_control (mk_reader ?bs b)) = Inr ?c"
    by (subst read_share_control_enc) (simp_all add: pdu_types)
  moreover have "fst (read_share_data (sc_body ?c)) = Inr ?d"
    by (subst read_share_data_enc) simp_all
  moreover have "fst (decode_data_pdu ?d) = Inr pdu"
    using decode_payload_enc [OF assms(1), of "mk_reader ?p (b + 18)"] by (simp add: decode_data_pdu_def case_prod_beta Let_def)
  moreover have "encode_payload pdu [] = Some ?p" using encode_payload_enc [OF assms(1), of "[]"] by simp
  moreover have "write_data_pdu share source (type2_of pdu) ?p w = Some (w @ ?bs)"
    by (rule write_data_pdu_enc [OF assms(2)])
  ultimately show ?thesis by fastforce
qed

text \<open>
  The capability exchange survives the wire: Demand Active, Confirm Active and Deactivate All are read back
  as they were written, with their Share Control type and source, descriptor and every capability set.
\<close>

theorem capability_exchange_roundtrip:
  assumes "exchange_ok (da_source_descriptor d) (da_capabilities d)" "exchange_ok (ca_source_descriptor c) (ca_capabilities c)"
  shows "(\<exists>bs. encode_demand_active source d w = Some (w @ bs) \<and>
      fst (in_share_control pdu_type_demand_active source decode_demand_active (mk_reader bs b)) = Inr d) \<and>
    (\<exists>bs. encode_confirm_active source c w = Some (w @ bs) \<and>
      fst (in_share_control pdu_type_confirm_active source decode_confirm_active (mk_reader bs b)) = Inr c) \<and>
    (\<exists>bs. encode_deactivate_all source e w = Some (w @ bs) \<and>
      fst (in_share_control pdu_type_deactivate_all source decode_deactivate_all (mk_reader bs b)) = Inr e)"
  using demand_active.pdu_round_trip [OF assms(1)] confirm_active.pdu_round_trip [OF assms(2)] deactivate_all.pdu_round_trip
  by blast

end
