(* ===== verification/Client_Info.thy ===== *)
theory Client_Info
  imports Reader_Writer Text
begin

text \<open>
  \<open>proto/client_info.cpp\<close>: the Client Info PDU. Strings are octet lists; the signed biases of the time
  zone are kept as the 32-bit words they are cast from and to. The extended info is a chain of
  optional fields, each present only if all before it are; the early returns of its reader are the
  stages below.
\<close>

section \<open>Model\<close>

definition info_unicode :: u32 where "info_unicode = 0x00000010"
definition max_info_string_size :: nat where "max_info_string_size = 512"
definition time_zone_name_size :: nat where "time_zone_name_size = 64"
definition system_time_size :: nat where "system_time_size = 16"
definition max_client_address_size :: nat where "max_client_address_size = 80"
definition max_client_dir_size :: nat where "max_client_dir_size = 512"
definition max_dst_key_name_size :: nat where "max_dst_key_name_size = 254"
definition auto_reconnect_cookie_size :: nat where "auto_reconnect_cookie_size = 28"

record time_zone_information =
  tz_bias :: u32
  tz_standard_name :: bytes
  tz_standard_date :: bytes
  tz_standard_bias :: u32
  tz_daylight_name :: bytes
  tz_daylight_date :: bytes
  tz_daylight_bias :: u32

record auto_reconnect_cookie =
  arc_version :: u32
  arc_logon_id :: u32
  arc_security_verifier :: bytes

record extended_info =
  client_address_family :: u16
  client_address :: bytes
  client_dir :: bytes
  ext_time_zone :: "time_zone_information option"
  ext_session_id :: "u32 option"
  performance_flags :: "u32 option"
  ext_auto_reconnect_cookie :: "auto_reconnect_cookie option"
  dynamic_dst_time_zone_key_name :: "bytes option"
  dynamic_daylight_time_disabled :: "bool option"

record client_info =
  ci_code_page :: u32
  ci_flags :: u32
  ci_domain :: bytes
  ci_user_name :: bytes
  ci_password :: bytes
  ci_alternate_shell :: bytes
  ci_working_dir :: bytes
  ci_extended :: "extended_info option"

fun decode_ansi :: "bytes \<Rightarrow> bytes" where
  "decode_ansi [] = []"
| "decode_ansi (c # rest) =
     (if c = 0 then []
      else if c < 0x80 then c # decode_ansi rest
      else (0xC0 OR drop_bit 6 c) # (0x80 OR (c AND 0x3F)) # decode_ansi rest)"

definition read_info_string :: "u16 \<Rightarrow> bool \<Rightarrow> bytes parser" where
  "read_info_string sz unicode = pget rd_offset (\<lambda>off.
     if unat sz > max_info_string_size then pfail LimitExceeded ''Client Info string longer than 512 bytes'' off
     else if unicode \<and> unat sz mod 2 \<noteq> 0 then pfail InvalidLength ''odd length for a Unicode Client Info string'' off
     else ptry (rd_bytes (unat sz)) (\<lambda>bs. ptry (rd_skip (if unicode then 2 else 1)) (\<lambda>_.
       pret (if unicode then utf16le_to_utf8 bs else decode_ansi bs))))"

definition read_counted_unicode :: "nat \<Rightarrow> bytes parser" where
  "read_counted_unicode max_size = pget rd_offset (\<lambda>start. ptry rd_u16le (\<lambda>sz.
     if unat sz > max_size then pfail LimitExceeded ''Client Info extended string too long'' start
     else ptry (rd_bytes (unat sz)) (\<lambda>bs. pret (utf16le_to_utf8 bs))))"

definition read_time_zone :: "time_zone_information parser" where
  "read_time_zone = ptry rd_u32le (\<lambda>bias. ptry (rd_bytes time_zone_name_size) (\<lambda>standard_name.
     ptry (rd_bytes system_time_size) (\<lambda>standard_date. ptry rd_u32le (\<lambda>standard_bias.
     ptry (rd_bytes time_zone_name_size) (\<lambda>daylight_name. ptry (rd_bytes system_time_size) (\<lambda>daylight_date.
     ptry rd_u32le (\<lambda>daylight_bias.
     pret \<lparr>tz_bias = bias, tz_standard_name = utf16le_to_utf8 standard_name, tz_standard_date = standard_date,
       tz_standard_bias = standard_bias, tz_daylight_name = utf16le_to_utf8 daylight_name,
       tz_daylight_date = daylight_date, tz_daylight_bias = daylight_bias\<rparr>)))))))"

text \<open>\<open>if (r.empty()) return ext;\<close>\<close>

definition unless_end :: "'a \<Rightarrow> 'a parser \<Rightarrow> 'a parser" where
  "unless_end ext p = pget rd_empty (\<lambda>e. if e then pret ext else p)"

definition read_cookie :: "auto_reconnect_cookie option parser" where
  "read_cookie = pget rd_offset (\<lambda>cookie_offset. ptry rd_u16le (\<lambda>cookie_size.
     if cookie_size \<noteq> 0 \<and> unat cookie_size \<noteq> auto_reconnect_cookie_size
     then pfail InvalidLength ''auto-reconnect cookie is not 28 bytes'' cookie_offset
     else if unat cookie_size = auto_reconnect_cookie_size
     then ptry (rd_sub (unat cookie_size)) (\<lambda>cookie.
       pwith cookie (ptry rd_u32le (\<lambda>n.
         if unat n \<noteq> auto_reconnect_cookie_size
         then pfail InvalidLength ''ARC_CS_PRIVATE_PACKET length is not 28'' (cookie_offset + 2)
         else ptry rd_u32le (\<lambda>version. ptry rd_u32le (\<lambda>logon_id. ptry (rd_bytes 16) (\<lambda>verifier.
           pret (Some \<lparr>arc_version = version, arc_logon_id = logon_id, arc_security_verifier = verifier\<rparr>)))))))
     else pret None))"

definition read_dst_key :: "extended_info \<Rightarrow> extended_info parser" where
  "read_dst_key ext = ptry (rd_skip 4) (\<lambda>_. unless_end ext (
     pget rd_offset (\<lambda>key_offset. ptry rd_u16le (\<lambda>key_size.
     if unat key_size > max_dst_key_name_size
     then pfail LimitExceeded ''dynamic DST time zone key name too long'' key_offset
     else ptry (rd_bytes (unat key_size)) (\<lambda>key.
       let ext = ext\<lparr>dynamic_dst_time_zone_key_name := Some (utf16le_to_utf8 key)\<rparr>
       in unless_end ext (ptry rd_u16le (\<lambda>disabled. pret (ext\<lparr>dynamic_daylight_time_disabled := Some (disabled \<noteq> 0)\<rparr>))))))))"

definition read_ext_cookie :: "extended_info \<Rightarrow> extended_info parser" where
  "read_ext_cookie ext = ptry read_cookie (\<lambda>cookie.
     let ext = ext\<lparr>ext_auto_reconnect_cookie := cookie\<rparr> in unless_end ext (read_dst_key ext))"

definition read_ext_performance :: "extended_info \<Rightarrow> extended_info parser" where
  "read_ext_performance ext = ptry rd_u32le (\<lambda>flags.
     let ext = ext\<lparr>performance_flags := Some flags\<rparr> in unless_end ext (read_ext_cookie ext))"

definition read_ext_session :: "extended_info \<Rightarrow> extended_info parser" where
  "read_ext_session ext = ptry rd_u32le (\<lambda>session_id.
     let ext = ext\<lparr>ext_session_id := Some session_id\<rparr> in unless_end ext (read_ext_performance ext))"

definition read_ext_time_zone :: "extended_info \<Rightarrow> extended_info parser" where
  "read_ext_time_zone ext = ptry read_time_zone (\<lambda>tz.
     let ext = ext\<lparr>ext_time_zone := Some tz\<rparr> in unless_end ext (read_ext_session ext))"

definition read_extended_info :: "extended_info parser" where
  "read_extended_info = ptry rd_u16le (\<lambda>family. ptry (read_counted_unicode max_client_address_size) (\<lambda>addr.
     ptry (read_counted_unicode max_client_dir_size) (\<lambda>dir.
     let ext = \<lparr>client_address_family = family, client_address = addr, client_dir = dir, ext_time_zone = None,
       ext_session_id = None, performance_flags = None, ext_auto_reconnect_cookie = None,
       dynamic_dst_time_zone_key_name = None, dynamic_daylight_time_disabled = None\<rparr>
     in unless_end ext (read_ext_time_zone ext))))"

definition write_fixed_utf16 :: "bytes \<Rightarrow> nat \<Rightarrow> writer \<Rightarrow> writer" where
  "write_fixed_utf16 s sz w =
     (let encoded = utf8_to_utf16le s;
          encoded = (if length encoded > sz - 2 then take (sz - 2) encoded else encoded)
      in w_zeros (sz - length encoded) (w_bytes encoded w))"

definition write_counted_unicode :: "bytes \<Rightarrow> writer \<Rightarrow> writer" where
  "write_counted_unicode s w =
     (let encoded = utf8_to_utf16le s in w_u16le 0 (w_bytes encoded (w_u16le (of_nat (length encoded + 2)) w)))"

definition decode_client_info :: "client_info parser" where
  "decode_client_info = ptry rd_u32le (\<lambda>code_page. ptry rd_u32le (\<lambda>flags. ptry rd_u16le (\<lambda>cb_domain.
     ptry rd_u16le (\<lambda>cb_user_name. ptry rd_u16le (\<lambda>cb_password. ptry rd_u16le (\<lambda>cb_alternate_shell.
     ptry rd_u16le (\<lambda>cb_working_dir.
     let unicode = (flags AND info_unicode \<noteq> 0) in
     ptry (read_info_string cb_domain unicode) (\<lambda>domain. ptry (read_info_string cb_user_name unicode) (\<lambda>user_name.
     ptry (read_info_string cb_password unicode) (\<lambda>password. ptry (read_info_string cb_alternate_shell unicode) (\<lambda>shell.
     ptry (read_info_string cb_working_dir unicode) (\<lambda>dir.
     pget rd_empty (\<lambda>e. ptry (if \<not> e then ptry read_extended_info (\<lambda>x. pret (Some x)) else pret None) (\<lambda>ext.
     pret \<lparr>ci_code_page = code_page, ci_flags = flags, ci_domain = domain, ci_user_name = user_name,
       ci_password = password, ci_alternate_shell = shell, ci_working_dir = dir, ci_extended = ext\<rparr>))))))))))))))"

definition write_time_zone :: "time_zone_information \<Rightarrow> writer \<Rightarrow> writer" where
  "write_time_zone tz w =
     (let w = w_u32le (tz_bias tz) w; w = write_fixed_utf16 (tz_standard_name tz) time_zone_name_size w;
          w = w_bytes (tz_standard_date tz) w; w = w_u32le (tz_standard_bias tz) w;
          w = write_fixed_utf16 (tz_daylight_name tz) time_zone_name_size w; w = w_bytes (tz_daylight_date tz) w
      in w_u32le (tz_daylight_bias tz) w)"

definition write_cookie :: "auto_reconnect_cookie option \<Rightarrow> writer \<Rightarrow> writer" where
  "write_cookie cookie w = (case cookie of
     Some arc \<Rightarrow> w_bytes (arc_security_verifier arc) (w_u32le (arc_logon_id arc) (w_u32le (arc_version arc)
       (w_u32le (of_nat auto_reconnect_cookie_size) (w_u16le (of_nat auto_reconnect_cookie_size) w))))
   | None \<Rightarrow> w_u16le 0 w)"

definition write_dst_key :: "bytes \<Rightarrow> bool option \<Rightarrow> writer \<Rightarrow> writer option" where
  "write_dst_key key_name disabled w = do {
     let w = w_u16le 0 (w_u16le 0 w);
     let key = utf8_to_utf16le key_name;
     wassert (length key \<le> max_dst_key_name_size);
     let w = w_bytes key (w_u16le (of_nat (length key)) w);
     Some (case disabled of None \<Rightarrow> w | Some d \<Rightarrow> w_u16le (if d then 1 else 0) w)
   }"

definition write_extended_info :: "extended_info \<Rightarrow> writer \<Rightarrow> writer option" where
  "write_extended_info ext w =
     (let w = w_u16le (client_address_family ext) w; w = write_counted_unicode (client_address ext) w;
          w = write_counted_unicode (client_dir ext) w
      in case ext_time_zone ext of None \<Rightarrow> Some w
       | Some tz \<Rightarrow> let w = write_time_zone tz w in
      (case ext_session_id ext of None \<Rightarrow> Some w
       | Some session_id \<Rightarrow> let w = w_u32le session_id w in
      (case performance_flags ext of None \<Rightarrow> Some w
       | Some flags \<Rightarrow> let w = write_cookie (ext_auto_reconnect_cookie ext) (w_u32le flags w) in
      (case dynamic_dst_time_zone_key_name ext of None \<Rightarrow> Some w
       | Some key \<Rightarrow> write_dst_key key (dynamic_daylight_time_disabled ext) w))))"

definition encode_client_info :: "client_info \<Rightarrow> writer \<Rightarrow> writer option" where
  "encode_client_info info w = do {
     let strings = map utf8_to_utf16le
       [ci_domain info, ci_user_name info, ci_password info, ci_alternate_shell info, ci_working_dir info];
     wassert (list_all (\<lambda>s. length s \<le> max_info_string_size) strings);
     let w = w_u32le (ci_flags info OR info_unicode) (w_u32le (ci_code_page info) w);
     let w = fold (\<lambda>s. w_u16le (of_nat (length s))) strings w;
     let w = fold (\<lambda>s w. w_u16le 0 (w_bytes s w)) strings w;
     case ci_extended info of None \<Rightarrow> Some w | Some ext \<Rightarrow> write_extended_info ext w
   }"

section \<open>Staying inside the input\<close>

lemma client_info_safe_parts [safe_intros]:
  "rd_safe p \<Longrightarrow> rd_safe (unless_end ext p)" "rd_safe (read_info_string sz unicode)" "rd_safe (read_counted_unicode k)"
  "rd_safe read_time_zone" "rd_safe read_cookie"
  unfolding unless_end_def read_info_string_def read_counted_unicode_def read_time_zone_def read_cookie_def
  by (intro safe_intros; assumption?)+

lemma client_info_safe_ext [safe_intros]: "rd_safe (read_dst_key e)" "rd_safe read_extended_info"
  unfolding read_dst_key_def read_extended_info_def read_ext_time_zone_def read_ext_session_def read_ext_performance_def
    read_ext_cookie_def
  by (intro safe_intros)+

lemma client_info_safe [safe_intros]: "rd_safe decode_client_info"
  unfolding decode_client_info_def by (intro safe_intros)

section \<open>Strings survive the wire\<close>

lemma le_bytes_2_0: "le_bytes 2 (0 :: u16) = [0, 0]"
  by (simp add: le_bytes_def numeral_2_eq_2)

lemma unat_of_small: "n \<le> 0xFFFF \<Longrightarrow> unat (of_nat n :: u16) = n"
  by (simp add: unsigned_of_nat take_bit_nat_eq_self)

definition string_ok :: "nat \<Rightarrow> bytes \<Rightarrow> bool" where
  "string_ok n s \<longleftrightarrow> plain_text s \<and> length (utf8_to_utf16le s) \<le> n"

lemma read_info_string_enc:
  assumes "string_ok max_info_string_size s" "rd_rest r = utf8_to_utf16le s @ le_bytes 2 (0 :: u16) @ ys"
  shows "read_info_string (of_nat (length (utf8_to_utf16le s))) True r =
    (Inr s, rd_advance (length (utf8_to_utf16le s) + 2) r)"
proof -
  have n: "unat (of_nat (length (utf8_to_utf16le s)) :: u16) = length (utf8_to_utf16le s)"
    using assms(1) by (intro unat_of_small) (simp add: string_ok_def max_info_string_size_def)
  moreover have "even (length (utf8_to_utf16le s))" by (rule even_utf16)
  moreover have "utf16le_to_utf8 (utf8_to_utf16le s) = s"
    using assms(1) by (intro plain_text_exact) (simp add: string_ok_def)
  ultimately show ?thesis
    using assms by (simp add: read_info_string_def rd_simps string_ok_def even_iff_mod_2_eq_zero)
qed

definition counted_enc :: "bytes \<Rightarrow> bytes" where
  "counted_enc s = le_bytes 2 (of_nat (length (utf8_to_utf16le s) + 2) :: u16) @ utf8_to_utf16le s @ [0, 0]"

lemma write_counted_enc: "write_counted_unicode s w = w @ counted_enc s"
  by (simp add: write_counted_unicode_def counted_enc_def wr_simps le_bytes_2_0 Let_def)

lemma read_counted_enc:
  assumes "string_ok (n - 2) s" "2 \<le> n" "n \<le> 0xFFFF" "rd_rest r = counted_enc s @ ys"
  shows "read_counted_unicode n r = (Inr s, rd_advance (length (counted_enc s)) r)"
proof -
  let ?u = "utf8_to_utf16le s"
  have l: "length ?u + 2 \<le> n" using assms(1,2) unfolding string_ok_def by arith
  then have u: "unat (of_nat (length ?u + 2) :: u16) = length ?u + 2"
    using assms(3) by (intro unat_of_small) simp
  have "utf16le_to_utf8 (?u @ [0, 0]) = s"
    using assms(1) plain_text_padded [of s "[]"] by (simp add: string_ok_def)
  moreover have "rd_bytes (length ?u + 2) (rd_advance 2 r) = (Inr (?u @ [0, 0]), rd_advance (length ?u + 4) r)"
    using assms(4) by (subst rd_bytes_app [where bs = "?u @ [0, 0]" and ys = ys]) (simp_all add: counted_enc_def)
  moreover have "rd_u16le r = (Inr (of_nat (length ?u + 2)), rd_advance 2 r)"
    using assms(4) by (intro rd_u16le_app) (simp add: counted_enc_def)
  ultimately show ?thesis
    using l u by (simp add: read_counted_unicode_def rd_simps counted_enc_def del: of_nat_add)
qed

definition fixed_enc :: "bytes \<Rightarrow> bytes" where
  "fixed_enc s = utf8_to_utf16le s @ replicate (64 - length (utf8_to_utf16le s)) 0"

lemma fixed_enc_facts:
  assumes "string_ok 62 s"
  shows "write_fixed_utf16 s 64 w = w @ fixed_enc s" "length (fixed_enc s) = 64" "utf16le_to_utf8 (fixed_enc s) = s"
proof -
  let ?n = "length (utf8_to_utf16le s)"
  have n: "?n \<le> 62" and s: "plain_text s" using assms by (simp_all add: string_ok_def)
  show "write_fixed_utf16 s 64 w = w @ fixed_enc s" using n by (simp add: write_fixed_utf16_def fixed_enc_def wr_simps Let_def)
  show "length (fixed_enc s) = 64" using n by (simp add: fixed_enc_def)
  have "64 - ?n = Suc (Suc (62 - ?n))" using n by arith
  then show "utf16le_to_utf8 (fixed_enc s) = s" using s by (simp add: fixed_enc_def plain_text_padded)
qed

section \<open>The extended info survives the wire\<close>

definition tz_ok :: "time_zone_information \<Rightarrow> bool" where
  "tz_ok tz \<longleftrightarrow> string_ok 62 (tz_standard_name tz) \<and> string_ok 62 (tz_daylight_name tz) \<and>
     length (tz_standard_date tz) = 16 \<and> length (tz_daylight_date tz) = 16"

definition tz_enc :: "time_zone_information \<Rightarrow> bytes" where
  "tz_enc tz = le_bytes 4 (tz_bias tz) @ fixed_enc (tz_standard_name tz) @ tz_standard_date tz @
     le_bytes 4 (tz_standard_bias tz) @ fixed_enc (tz_daylight_name tz) @ tz_daylight_date tz @ le_bytes 4 (tz_daylight_bias tz)"

lemma write_time_zone_enc: "tz_ok tz \<Longrightarrow> write_time_zone tz w = w @ tz_enc tz"
  by (simp add: write_time_zone_def tz_ok_def tz_enc_def wr_simps time_zone_name_size_def fixed_enc_facts)

lemma length_tz_enc: "tz_ok tz \<Longrightarrow> length (tz_enc tz) = 172"
  by (simp add: tz_ok_def tz_enc_def fixed_enc_facts)

lemma read_time_zone_enc:
  assumes "tz_ok tz" "rd_rest r = tz_enc tz @ ys"
  shows "read_time_zone r = (Inr tz, rd_advance 172 r)"
  using assms
  by (simp add: read_time_zone_def tz_ok_def tz_enc_def rd_simps time_zone_name_size_def system_time_size_def fixed_enc_facts)

definition cookie_ok :: "auto_reconnect_cookie option \<Rightarrow> bool" where
  "cookie_ok cookie = pred_option (\<lambda>arc. length (arc_security_verifier arc) = 16) cookie"

definition cookie_enc :: "auto_reconnect_cookie option \<Rightarrow> bytes" where
  "cookie_enc cookie = (case cookie of
     Some arc \<Rightarrow> le_bytes 2 (28 :: u16) @ le_bytes 4 (28 :: u32) @ le_bytes 4 (arc_version arc) @ le_bytes 4 (arc_logon_id arc) @
       arc_security_verifier arc
   | None \<Rightarrow> le_bytes 2 (0 :: u16))"

lemma write_cookie_enc: "write_cookie cookie w = w @ cookie_enc cookie"
  by (simp add: write_cookie_def cookie_enc_def wr_simps auto_reconnect_cookie_size_def split: option.split)

lemma read_cookie_enc:
  assumes "cookie_ok cookie" "rd_rest r = cookie_enc cookie @ ys"
  shows "read_cookie r = (Inr cookie, rd_advance (length (cookie_enc cookie)) r)"
  using assms
  by (cases cookie) (simp_all add: cookie_ok_def read_cookie_def cookie_enc_def rd_simps auto_reconnect_cookie_size_def)

definition key_enc :: "bytes \<Rightarrow> bool option \<Rightarrow> bytes" where
  "key_enc key disabled = le_bytes 2 (0 :: u16) @ le_bytes 2 (0 :: u16) @
     le_bytes 2 (of_nat (length (utf8_to_utf16le key)) :: u16) @ utf8_to_utf16le key @
     (case disabled of None \<Rightarrow> [] | Some d \<Rightarrow> le_bytes 2 (if d then 1 else 0 :: u16))"

lemma write_dst_key_enc: "string_ok max_dst_key_name_size key \<Longrightarrow> write_dst_key key disabled w = Some (w @ key_enc key disabled)"
  by (auto simp: write_dst_key_def key_enc_def wr_simps wassert_def string_ok_def Let_def split: option.split)

lemma read_dst_key_enc:
  assumes "string_ok max_dst_key_name_size key" "rd_wf r" "rd_rest r = key_enc key disabled"
    "dynamic_daylight_time_disabled ext = None"
  shows "fst (read_dst_key ext r) =
    Inr (ext\<lparr>dynamic_dst_time_zone_key_name := Some key, dynamic_daylight_time_disabled := disabled\<rparr>)"
proof -
  have "unat (of_nat (length (utf8_to_utf16le key)) :: u16) = length (utf8_to_utf16le key)"
    using assms(1) by (intro unat_of_small) (simp add: string_ok_def max_dst_key_name_size_def)
  moreover have "utf16le_to_utf8 (utf8_to_utf16le key) = key"
    using assms(1) by (intro plain_text_exact) (simp add: string_ok_def)
  ultimately show ?thesis
    using assms
    by (cases disabled) (auto simp: read_dst_key_def unless_end_def key_enc_def rd_simps rd_empty_rest string_ok_def Let_def)
qed

definition ext_ok :: "extended_info \<Rightarrow> bool" where
  "ext_ok ext \<longleftrightarrow> string_ok (max_client_address_size - 2) (client_address ext) \<and>
     string_ok (max_client_dir_size - 2) (client_dir ext) \<and> pred_option tz_ok (ext_time_zone ext) \<and>
     cookie_ok (ext_auto_reconnect_cookie ext) \<and>
     pred_option (string_ok max_dst_key_name_size) (dynamic_dst_time_zone_key_name ext) \<and>
     (ext_time_zone ext = None \<longrightarrow> ext_session_id ext = None) \<and>
     (ext_session_id ext = None \<longrightarrow> performance_flags ext = None) \<and>
     (performance_flags ext = None \<longrightarrow> ext_auto_reconnect_cookie ext = None \<and> dynamic_dst_time_zone_key_name ext = None) \<and>
     (dynamic_dst_time_zone_key_name ext = None \<longrightarrow> dynamic_daylight_time_disabled ext = None)"

text \<open>What follows the time zone.\<close>

definition session_enc :: "extended_info \<Rightarrow> bytes" where
  "session_enc ext = (case ext_session_id ext of None \<Rightarrow> []
     | Some session_id \<Rightarrow> le_bytes 4 session_id @ (case performance_flags ext of None \<Rightarrow> []
     | Some flags \<Rightarrow> le_bytes 4 flags @ cookie_enc (ext_auto_reconnect_cookie ext) @
         (case dynamic_dst_time_zone_key_name ext of None \<Rightarrow> []
          | Some key \<Rightarrow> key_enc key (dynamic_daylight_time_disabled ext))))"

definition ext_enc :: "extended_info \<Rightarrow> bytes" where
  "ext_enc ext = le_bytes 2 (client_address_family ext) @ counted_enc (client_address ext) @ counted_enc (client_dir ext) @
     (case ext_time_zone ext of None \<Rightarrow> [] | Some tz \<Rightarrow> tz_enc tz @ session_enc ext)"

lemma write_extended_info_enc: "ext_ok ext \<Longrightarrow> write_extended_info ext w = Some (w @ ext_enc ext)"
  by (auto simp: write_extended_info_def ext_enc_def session_enc_def ext_ok_def wr_simps write_counted_enc write_time_zone_enc
      write_cookie_enc write_dst_key_enc Let_def split: option.split)

lemma unless_end_more: "rd_wf r \<Longrightarrow> rd_rest r \<noteq> [] \<Longrightarrow> unless_end ext p r = p r"
  by (simp add: unless_end_def rd_simps rd_empty_rest)

lemma unless_end_end: "rd_wf r \<Longrightarrow> rd_rest r = [] \<Longrightarrow> unless_end ext p r = (Inr ext, r)"
  by (simp add: unless_end_def rd_simps rd_empty_rest)

lemma ext_parts_neq_Nil: "tz_ok tz \<Longrightarrow> tz_enc tz \<noteq> []" "cookie_enc c \<noteq> []" "key_enc k d \<noteq> []"
  by (auto simp: tz_enc_def cookie_enc_def key_enc_def split: option.split)

lemma read_ext_cookie_enc:
  assumes "ext_ok ext" "rd_wf r" "rd_rest r = cookie_enc (ext_auto_reconnect_cookie ext) @
      (case dynamic_dst_time_zone_key_name ext of None \<Rightarrow> [] | Some key \<Rightarrow> key_enc key (dynamic_daylight_time_disabled ext))"
  defines "e \<equiv> ext\<lparr>ext_auto_reconnect_cookie := None, dynamic_dst_time_zone_key_name := None, dynamic_daylight_time_disabled := None\<rparr>"
  shows "fst (read_ext_cookie e r) = Inr ext"
proof -
  let ?r = "rd_advance (length (cookie_enc (ext_auto_reconnect_cookie ext))) r"
  have "read_cookie r = (Inr (ext_auto_reconnect_cookie ext), ?r)" using assms by (intro read_cookie_enc) (auto simp: ext_ok_def)
  moreover have "rd_wf ?r" using assms by simp
  ultimately show ?thesis
    using assms
    by (cases "dynamic_dst_time_zone_key_name ext")
      (auto simp: read_ext_cookie_def ptry_Inr unless_end_end unless_end_more ext_parts_neq_Nil ext_ok_def read_dst_key_enc Let_def)
qed

lemma read_ext_session_enc:
  assumes "ext_ok ext" "rd_wf r" "rd_rest r = session_enc ext"
  defines "e \<equiv> ext\<lparr>ext_session_id := None, performance_flags := None, ext_auto_reconnect_cookie := None,
    dynamic_dst_time_zone_key_name := None, dynamic_daylight_time_disabled := None\<rparr>"
  shows "fst (unless_end e (read_ext_session e) r) = Inr ext"
proof (cases "ext_session_id ext")
  case None
  with assms show ?thesis by (simp add: unless_end_end session_enc_def ext_ok_def)
next
  case (Some session_id)
  note session = this
  then have r: "rd_wf (rd_advance 4 r)" "rd_wf r" "rd_rest r \<noteq> []" using assms by (auto simp: session_enc_def)
  show ?thesis
  proof (cases "performance_flags ext")
    case None
    with session assms r show ?thesis
      by (simp add: unless_end_more unless_end_end session_enc_def ext_ok_def read_ext_session_def rd_simps Let_def)
  next
    case (Some flags)
    then have "rd_wf (rd_advance 8 r)" using assms session by (auto simp: session_enc_def)
    moreover have "e\<lparr>ext_session_id := Some session_id, performance_flags := Some flags\<rparr> =
        ext\<lparr>ext_auto_reconnect_cookie := None, dynamic_dst_time_zone_key_name := None, dynamic_daylight_time_disabled := None\<rparr>"
      using session Some by (intro extended_info.equality) (simp_all add: e_def)
    ultimately show ?thesis using Some session assms(1-3) r
      using read_ext_cookie_enc [OF assms(1), of "rd_advance 8 r"] ext_parts_neq_Nil(2) [of "ext_auto_reconnect_cookie ext"]
      by (simp add: unless_end_more session_enc_def read_ext_session_def read_ext_performance_def rd_simps Let_def)
  qed
qed

lemma read_extended_info_enc:
  assumes ok: "ext_ok ext" and wf: "rd_wf r" and rest: "rd_rest r = ext_enc ext"
  shows "fst (read_extended_info r) = Inr ext"
proof -
  define a where "a = 2 + length (counted_enc (client_address ext))"
  define n where "n = a + length (counted_enc (client_dir ext))"
  have head: "rd_u16le r = (Inr (client_address_family ext), rd_advance 2 r)"
    "read_counted_unicode max_client_address_size (rd_advance 2 r) = (Inr (client_address ext), rd_advance a r)"
    "read_counted_unicode max_client_dir_size (rd_advance a r) = (Inr (client_dir ext), rd_advance n r)"
    using ok rest
    by (simp_all add: ext_enc_def ext_ok_def rd_simps n_def a_def)
      (subst read_counted_enc, auto simp: max_client_address_size_def max_client_dir_size_def)+
  have n: "rd_wf (rd_advance n r)" using wf rest by (simp add: n_def a_def ext_enc_def)
  have t: "rd_rest (rd_advance n r) = (case ext_time_zone ext of None \<Rightarrow> [] | Some tz \<Rightarrow> tz_enc tz @ session_enc ext)"
    using rest by (simp add: n_def a_def ext_enc_def)
  show ?thesis
  proof (cases "ext_time_zone ext")
    case None
    with t n ok show ?thesis by (simp add: read_extended_info_def ptry_Inr head unless_end_end Let_def ext_ok_def)
  next
    case (Some tz)
    then have tz: "tz_ok tz" using ok by (simp add: ext_ok_def)
    then have "rd_wf (rd_advance (n + 172) r)" "rd_rest (rd_advance (n + 172) r) = session_enc ext"
      using n t Some length_tz_enc [OF tz] rd_wf_advance [of "rd_advance n r" 172] drop_eq_append [of n "rd_rest r" "tz_enc tz"]
      by simp_all
    moreover have "read_time_zone (rd_advance n r) = (Inr tz, rd_advance (n + 172) r)"
      using t Some by (simp add: read_time_zone_enc [OF tz])
    moreover have "unless_end ex p (rd_advance n r) = p (rd_advance n r)" for ex :: extended_info and p
      using n t Some ext_parts_neq_Nil(1) [OF tz] by (intro unless_end_more) simp_all
    moreover have "ext\<lparr>ext_session_id := None, performance_flags := None, ext_auto_reconnect_cookie := None,
        dynamic_dst_time_zone_key_name := None, dynamic_daylight_time_disabled := None\<rparr> =
      \<lparr>client_address_family = client_address_family ext, client_address = client_address ext, client_dir = client_dir ext,
        ext_time_zone = Some tz, ext_session_id = None, performance_flags = None, ext_auto_reconnect_cookie = None,
        dynamic_dst_time_zone_key_name = None, dynamic_daylight_time_disabled = None\<rparr>"
      using Some by (intro extended_info.equality) simp_all
    ultimately show ?thesis
      using read_ext_session_enc [OF ok, of "rd_advance (n + 172) r"]
      by (simp add: read_extended_info_def read_ext_time_zone_def ptry_Inr head Let_def)
  qed
qed

section \<open>The whole PDU\<close>

abbreviation info_strings :: "client_info \<Rightarrow> bytes list" where
  "info_strings info \<equiv> [ci_domain info, ci_user_name info, ci_password info, ci_alternate_shell info, ci_working_dir info]"

definition client_info_ok :: "client_info \<Rightarrow> bool" where
  "client_info_ok info \<longleftrightarrow> ci_flags info OR info_unicode = ci_flags info \<and>
     list_all (string_ok max_info_string_size) (info_strings info) \<and> pred_option ext_ok (ci_extended info)"

definition client_info_enc :: "client_info \<Rightarrow> bytes" where
  "client_info_enc info = le_bytes 4 (ci_code_page info) @ le_bytes 4 (ci_flags info) @
     concat (map (\<lambda>s. le_bytes 2 (of_nat (length (utf8_to_utf16le s)) :: u16)) (info_strings info)) @
     concat (map (\<lambda>s. utf8_to_utf16le s @ le_bytes 2 (0 :: u16)) (info_strings info)) @
     (case ci_extended info of None \<Rightarrow> [] | Some ext \<Rightarrow> ext_enc ext)"

lemma encode_client_info_enc: "client_info_ok info \<Longrightarrow> encode_client_info info w = Some (w @ client_info_enc info)"
  by (auto simp: encode_client_info_def client_info_ok_def client_info_enc_def wr_simps wassert_def string_ok_def Let_def
      write_extended_info_enc split: option.split)

lemma unicode_flag:
  assumes "flags OR info_unicode = flags"
  shows "flags AND info_unicode \<noteq> 0"
proof -
  have "(flags OR info_unicode) AND info_unicode = info_unicode" by (rule bit_eqI) (auto simp: bit_simps)
  with assms show ?thesis by (simp add: info_unicode_def)
qed

lemma decode_client_info_enc:
  assumes ok: "client_info_ok info" and wf: "rd_wf r" and rest: "rd_rest r = client_info_enc info"
  shows "fst (decode_client_info r) = Inr info"
proof -
  define e where "e = (case ci_extended info of None \<Rightarrow> [] | Some ext \<Rightarrow> ext_enc ext)"
  have strings: "\<forall>t \<in> set (info_strings info). string_ok max_info_string_size t" and u: "ci_flags info AND info_unicode \<noteq> 0"
    using ok unicode_flag [of "ci_flags info"] by (simp_all add: client_info_ok_def)
  define z where "z = (\<lambda>t. utf8_to_utf16le t @ le_bytes 2 (0 :: u16))"
  define r0 where "r0 = rd_advance 18 r"
  have step: "\<exists>s. read_info_string (of_nat (length (utf8_to_utf16le t))) True r' = (Inr t, s) \<and> rd_wf s \<and> rd_rest s = ys"
    if "t \<in> set (info_strings info)" "rd_wf r'" "rd_rest r' = z t @ ys" for t r' ys
    using read_info_string_enc [of t r' ys] strings that
    by (intro exI [of _ "rd_advance (length (utf8_to_utf16le t) + 2) r'"]) (auto simp: z_def)
  have "rd_wf r0" "rd_rest r0 = z (ci_domain info) @ z (ci_user_name info) @ z (ci_password info) @
      z (ci_alternate_shell info) @ z (ci_working_dir info) @ e"
    using wf rest by (simp_all add: r0_def z_def client_info_enc_def e_def)
  then obtain r1 where r1: "read_info_string (of_nat (length (utf8_to_utf16le (ci_domain info)))) True r0 = (Inr (ci_domain info), r1)"
    "rd_wf r1" "rd_rest r1 = z (ci_user_name info) @ z (ci_password info) @ z (ci_alternate_shell info) @ z (ci_working_dir info) @ e"
    using step [of "ci_domain info" r0] by (simp only: list.set_intros insert_iff list.set) blast
  then obtain r2 where r2: "read_info_string (of_nat (length (utf8_to_utf16le (ci_user_name info)))) True r1 = (Inr (ci_user_name info), r2)"
    "rd_wf r2" "rd_rest r2 = z (ci_password info) @ z (ci_alternate_shell info) @ z (ci_working_dir info) @ e"
    using step [of "ci_user_name info" r1] by (simp only: list.set_intros insert_iff list.set) blast
  then obtain r3 where r3: "read_info_string (of_nat (length (utf8_to_utf16le (ci_password info)))) True r2 = (Inr (ci_password info), r3)"
    "rd_wf r3" "rd_rest r3 = z (ci_alternate_shell info) @ z (ci_working_dir info) @ e"
    using step [of "ci_password info" r2] by (simp only: list.set_intros insert_iff list.set) blast
  then obtain r4 where r4: "read_info_string (of_nat (length (utf8_to_utf16le (ci_alternate_shell info)))) True r3 = (Inr (ci_alternate_shell info), r4)"
    "rd_wf r4" "rd_rest r4 = z (ci_working_dir info) @ e"
    using step [of "ci_alternate_shell info" r3] by (simp only: list.set_intros insert_iff list.set) blast
  then obtain r5 where r5: "read_info_string (of_nat (length (utf8_to_utf16le (ci_working_dir info)))) True r4 = (Inr (ci_working_dir info), r5)"
    "rd_wf r5" "rd_rest r5 = e"
    using step [of "ci_working_dir info" r4] by (simp only: list.set_intros insert_iff list.set) blast
  have "decode_client_info r = pget rd_empty (\<lambda>e. ptry (if \<not> e then ptry read_extended_info (\<lambda>x. pret (Some x)) else pret None)
      (\<lambda>ext. pret \<lparr>ci_code_page = ci_code_page info, ci_flags = ci_flags info, ci_domain = ci_domain info,
        ci_user_name = ci_user_name info, ci_password = ci_password info, ci_alternate_shell = ci_alternate_shell info,
        ci_working_dir = ci_working_dir info, ci_extended = ext\<rparr>)) r5"
    using rest u r1(1) r2(1) r3(1) r4(1) r5(1)
    by (simp add: decode_client_info_def client_info_enc_def rd_simps r0_def Let_def)
  moreover have "fst (read_extended_info r5) = Inr ext" "e \<noteq> []" if "ci_extended info = Some ext" for ext
    using that ok r5 read_extended_info_enc [of ext r5] by (auto simp: client_info_ok_def e_def ext_enc_def)
  ultimately show ?thesis
    using r5(2,3)
    by (cases "ci_extended info") (auto simp: rd_simps rd_empty_rest e_def split: prod.splits sum.splits)
qed

interpretation client_info_pdu: pdu_codec encode_client_info decode_client_info client_info_ok client_info_enc
  by unfold_locales (simp_all add: encode_client_info_enc decode_client_info_enc)

section \<open>Properties\<close>

text \<open>
  The Client Info PDU survives the wire: the five strings, the flags and, of the extended info, every optional
  field that is present with all before it (time zone, session, performance flags, auto-reconnect cookie, time zone
  key) are read back as they were written.
\<close>

theorem client_info_roundtrip:
  assumes "client_info_ok info"
  shows "\<exists>bs. encode_client_info info w = Some (w @ bs) \<and> fst (decode_client_info (mk_reader bs b)) = Inr info"
  using assms by (rule client_info_pdu.pdu_round_trip)

theorem client_info_roundtrip_witness:
  "let info = \<lparr>ci_code_page = 0, ci_flags = info_unicode, ci_domain = [], ci_user_name = concat (map utf8_of [0x41, 0x1F600]),
       ci_password = [], ci_alternate_shell = [], ci_working_dir = [],
       ci_extended = Some \<lparr>client_address_family = 2, client_address = [], client_dir = [], ext_time_zone = None,
         ext_session_id = None, performance_flags = None, ext_auto_reconnect_cookie = None,
         dynamic_dst_time_zone_key_name = None, dynamic_daylight_time_disabled = None\<rparr>\<rparr>
   in \<exists>bs. encode_client_info info [] = Some ([] @ bs) \<and> fst (decode_client_info (mk_reader bs 0)) = Inr info"
proof -
  let ?cps = "[0x41, 0x1F600] :: u32 list"
  have cps: "\<forall>v \<in> set ?cps. scalar_value v \<and> v \<noteq> 0"
    by (simp add: scalar_value_def is_high_surrogate_def is_low_surrogate_def word_le_nat_alt)
  then have "utf8_to_utf16le (concat (map utf8_of ?cps)) = concat (map utf16_of ?cps)"
    unfolding utf8_to_utf16le_def by (subst utf8_loop_scalars) simp_all
  then have "string_ok 512 (concat (map utf8_of ?cps))"
    using plain_text_of [OF cps] by (simp add: string_ok_def utf16_of_def append_utf16le_def)
  moreover have "string_ok n []" for n by (simp add: string_ok_def utf8_to_utf16le_def)
  ultimately show ?thesis
    unfolding Let_def
    by (intro client_info_roundtrip)
      (simp_all add: client_info_ok_def ext_ok_def cookie_ok_def max_info_string_size_def)
qed

end
