(* ===== verification/License.thy ===== *)
theory License
  imports Reader_Writer
begin

text \<open>
  \<open>proto/security.cpp\<close> and \<open>proto/license.cpp\<close>: the basic security header of the few PDUs
  that carry one under Enhanced RDP Security, and the licensing phase, which the server ends at
  once with the valid-client error message.
\<close>

section \<open>Model\<close>

definition sec_encrypt :: u16 where "sec_encrypt = 0x0008"
definition sec_license_pkt :: u16 where "sec_license_pkt = 0x0080"

definition read_basic_security_header :: "u16 parser" where
  "read_basic_security_header = pget rd_offset (\<lambda>start. ptry rd_u16le (\<lambda>flags. ptry (rd_skip 2) (\<lambda>_.
     if flags AND sec_encrypt \<noteq> 0
     then pfail InvalidValue ''RDP-encrypted PDU under Enhanced RDP Security'' start
     else pret flags)))"

definition write_basic_security_header :: "u16 \<Rightarrow> writer \<Rightarrow> writer" where
  "write_basic_security_header flags w = w_u16le 0 (w_u16le flags w)"

definition lic_error_alert :: byte where "lic_error_alert = 0xFF"
definition lic_preamble_version_3_0 :: byte where "lic_preamble_version_3_0 = 0x03"
definition lic_preamble_version_mask :: byte where "lic_preamble_version_mask = 0x0F"
definition lic_valid_client_message_size :: u16 where "lic_valid_client_message_size = 16"
definition lic_status_valid_client :: u32 where "lic_status_valid_client = 0x00000007"
definition lic_st_no_transition :: u32 where "lic_st_no_transition = 0x00000002"
definition lic_bb_error_blob :: u16 where "lic_bb_error_blob = 0x0004"

definition encode_license_valid_client :: "writer \<Rightarrow> writer" where
  "encode_license_valid_client w =
     (let w = write_basic_security_header sec_license_pkt w;
          w = w_u8 lic_error_alert w;
          w = w_u8 lic_preamble_version_3_0 w;
          w = w_u16le lic_valid_client_message_size w;
          w = w_u32le lic_status_valid_client w;
          w = w_u32le lic_st_no_transition w;
          w = w_u16le lic_bb_error_blob w
      in w_u16le 0 w)"

definition decode_license_valid_client :: "unit parser" where
  "decode_license_valid_client = pget rd_offset (\<lambda>start. ptry read_basic_security_header (\<lambda>flags.
     if flags AND sec_license_pkt = 0 then pfail InvalidValue ''expected a licensing PDU'' start
     else pget rd_offset (\<lambda>preamble. ptry rd_u8 (\<lambda>type. ptry rd_u8 (\<lambda>version. ptry rd_u16le (\<lambda>n.
       if type \<noteq> lic_error_alert
       then pfail Unsupported ''server requires a licensing exchange'' preamble
       else if version AND lic_preamble_version_mask < lic_preamble_version_3_0 \<or> n < lic_valid_client_message_size
       then pfail InvalidValue ''malformed license preamble'' preamble
       else ptry rd_u32le (\<lambda>code. ptry rd_u32le (\<lambda>transition.
         if code \<noteq> lic_status_valid_client \<or> transition \<noteq> lic_st_no_transition
         then pfail Unsupported ''license error other than STATUS_VALID_CLIENT'' (preamble + 4)
         else pret ()))))))))"

section \<open>Lemmas\<close>

lemmas license_consts = sec_encrypt_def sec_license_pkt_def lic_error_alert_def lic_preamble_version_3_0_def
  lic_preamble_version_mask_def lic_valid_client_message_size_def lic_status_valid_client_def
  lic_st_no_transition_def lic_bb_error_blob_def

lemma license_safe [safe_intros]: "rd_safe read_basic_security_header" "rd_safe decode_license_valid_client"
  unfolding read_basic_security_header_def decode_license_valid_client_def by (intro safe_intros)+

definition security_header_enc :: "u16 \<Rightarrow> bytes" where
  "security_header_enc flags = le_bytes 2 flags @ le_bytes 2 (0 :: u16)"

interpretation security_header: codec "\<lambda>flags w. Some (write_basic_security_header flags w)" read_basic_security_header
  "\<lambda>flags. flags AND sec_encrypt = 0" security_header_enc
  by unfold_locales
    (simp_all add: write_basic_security_header_def read_basic_security_header_def security_header_enc_def wr_simps rd_simps)

definition license_enc :: bytes where
  "license_enc = security_header_enc sec_license_pkt @ [0xFF, 3] @ le_bytes 2 (16 :: u16) @ le_bytes 4 (7 :: u32) @
     le_bytes 4 (2 :: u32) @ le_bytes 2 (4 :: u16) @ le_bytes 2 (0 :: u16)"

interpretation license: pdu_codec "\<lambda>_ w. Some (encode_license_valid_client w)" decode_license_valid_client
  "\<lambda>_. True" "\<lambda>_. license_enc"
  by unfold_locales
    (simp_all add: encode_license_valid_client_def decode_license_valid_client_def license_enc_def
      security_header_enc_def write_basic_security_header_def read_basic_security_header_def wr_simps rd_simps
      license_consts Let_def)

section \<open>Properties\<close>

text \<open>
The server's licensing answer is always accepted by a decoder that checks every field of it (the
  \<open>STATUS_VALID_CLIENT\<close> error alert with an empty blob), and a basic security header is read back as it
  was written unless it announces encryption, which the reader refuses.
\<close>

theorem license_roundtrip:
  "(\<exists>bs. encode_license_valid_client w = w @ bs \<and> fst (decode_license_valid_client (mk_reader bs b)) = Inr ()) \<and>
   (flags AND sec_encrypt = 0 \<longrightarrow> (\<exists>bs. write_basic_security_header flags w = w @ bs \<and>
      read_basic_security_header (mk_reader (bs @ ys) b) = (Inr flags, rd_advance (length bs) (mk_reader (bs @ ys) b))))"
  using license.pdu_round_trip [where w = w and b = b and x = "()"] security_header.round_trip [of flags w ys b] by simp

theorem license_roundtrip_witness:
  "sec_license_pkt AND sec_encrypt = 0 \<and> (\<exists>bs. write_basic_security_header sec_license_pkt [] = [] @ bs \<and>
     read_basic_security_header (mk_reader (bs @ [1]) 0) =
       (Inr sec_license_pkt, rd_advance (length bs) (mk_reader (bs @ [1]) 0)))"
proof -
  have "sec_license_pkt AND sec_encrypt = 0" by code_simp
  then show ?thesis using license_roundtrip [of "[]" 0 sec_license_pkt "[1]"] by blast
qed

end
