(* ===== verification/Autodetect_Pdu.thy ===== *)
theory Autodetect_Pdu
  imports Reader_Writer
begin

text \<open>
  \<open>proto/autodetect.cpp\<close>: the messages of the network characteristics detection in both directions and
  the Heartbeat PDU, each after the basic security header.
\<close>

section \<open>Model\<close>

definition type_id_request :: byte where "type_id_request = 0x00"
definition type_id_response :: byte where "type_id_response = 0x01"

definition rtt_continuous :: u16 where "rtt_continuous = 0x0001"
definition rtt_connect_time :: u16 where "rtt_connect_time = 0x1001"
definition bw_start_continuous :: u16 where "bw_start_continuous = 0x0014"
definition bw_start_lossy_udp :: u16 where "bw_start_lossy_udp = 0x0114"
definition bw_start_connect_time :: u16 where "bw_start_connect_time = 0x1014"
definition bw_payload :: u16 where "bw_payload = 0x0002"
definition bw_stop_connect_time :: u16 where "bw_stop_connect_time = 0x002B"
definition bw_stop_continuous :: u16 where "bw_stop_continuous = 0x0429"
definition bw_stop_lossy_udp :: u16 where "bw_stop_lossy_udp = 0x0629"
definition netchar_base_rtt_average_rtt :: u16 where "netchar_base_rtt_average_rtt = 0x0840"
definition netchar_bandwidth_average_rtt :: u16 where "netchar_bandwidth_average_rtt = 0x0880"
definition netchar_all :: u16 where "netchar_all = 0x08C0"

definition response_rtt :: u16 where "response_rtt = 0x0000"
definition bw_results_connect_time :: u16 where "bw_results_connect_time = 0x0003"
definition bw_results_continuous :: u16 where "bw_results_continuous = 0x000B"
definition netchar_sync :: u16 where "netchar_sync = 0x0018"

definition max_payload_size :: nat where "max_payload_size = 15000"

definition short_header :: byte where "short_header = 0x06"
definition payload_header :: byte where "payload_header = 0x08"
definition result_header :: byte where "result_header = 0x0E"
definition netchar_all_header :: byte where "netchar_all_header = 0x12"

record netchar_result =
  nr_sequence :: u16
  nr_base_rtt_ms :: "u32 option"
  nr_bandwidth_kbps :: "u32 option"
  nr_average_rtt_ms :: u32

datatype ad_request =
    RttRequest u16 u16
  | BandwidthStart u16 u16
  | BandwidthPayload u16 bytes
  | BandwidthStop u16 u16 bytes
  | NetworkCharacteristicsResult netchar_result

datatype ad_response =
    RttResponse u16
  | BandwidthResults u16 u16 u32 u32
  | NetworkCharacteristicsSync u16 u32 u32

record ad_header =
  ah_length :: byte
  ah_type_id :: byte
  ah_sequence :: u16
  ah_type :: u16

definition read_header :: "byte \<Rightarrow> ad_header parser" where
  "read_header expected_type_id = pget rd_offset (\<lambda>start. ptry rd_u8 (\<lambda>n. ptry rd_u8 (\<lambda>type_id.
     ptry rd_u16le (\<lambda>seq. ptry rd_u16le (\<lambda>type.
     if type_id \<noteq> expected_type_id
     then pfail InvalidValue ''auto-detect headerTypeId does not match the direction'' start
     else pret \<lparr>ah_length = n, ah_type_id = type_id, ah_sequence = seq, ah_type = type\<rparr>)))))"

definition expect_length :: "ad_header \<Rightarrow> byte \<Rightarrow> nat \<Rightarrow> unit parser" where
  "expect_length h expected off =
     (if ah_length h \<noteq> expected
      then pfail InvalidLength ''auto-detect headerLength does not match the message type'' off
      else pret ())"

definition write_header :: "byte \<Rightarrow> byte \<Rightarrow> u16 \<Rightarrow> u16 \<Rightarrow> writer \<Rightarrow> writer" where
  "write_header n type_id seq type w = w_u16le type (w_u16le seq (w_u8 type_id (w_u8 n w)))"

definition read_payload :: "bytes parser" where
  "read_payload = ptry rd_u16le (\<lambda>n. rd_bytes (unat n))"

definition write_payload :: "bytes \<Rightarrow> writer \<Rightarrow> writer option" where
  "write_payload payload w = do {
     wassert (length payload \<le> 0xFFFF);
     Some (w_bytes payload (w_u16le (of_nat (length payload)) w))
   }"

definition request_type_of :: "netchar_result \<Rightarrow> u16" where
  "request_type_of result =
     (if nr_base_rtt_ms result \<noteq> None \<and> nr_bandwidth_kbps result \<noteq> None then netchar_all
      else if nr_bandwidth_kbps result \<noteq> None then netchar_bandwidth_average_rtt
      else netchar_base_rtt_average_rtt)"

definition decode_request :: "ad_request parser" where
  "decode_request = pget rd_offset (\<lambda>start. ptry (read_header type_id_request) (\<lambda>h.
     let type = ah_type h; seq = ah_sequence h in
     if type = rtt_continuous \<or> type = rtt_connect_time
     then ptry (expect_length h short_header start) (\<lambda>_. pret (RttRequest seq type))
     else if type = bw_start_continuous \<or> type = bw_start_lossy_udp \<or> type = bw_start_connect_time
     then ptry (expect_length h short_header start) (\<lambda>_. pret (BandwidthStart seq type))
     else if type = bw_payload
     then ptry (expect_length h payload_header start) (\<lambda>_. ptry read_payload (\<lambda>payload. pret (BandwidthPayload seq payload)))
     else if type = bw_stop_connect_time
     then ptry (expect_length h payload_header start) (\<lambda>_. pget rd_offset (\<lambda>length_offset. ptry read_payload (\<lambda>payload.
       if payload = [] then pfail InvalidLength ''connect-time Bandwidth Measure Stop without payload'' length_offset
       else pret (BandwidthStop seq type payload))))
     else if type = bw_stop_continuous \<or> type = bw_stop_lossy_udp
     then ptry (expect_length h short_header start) (\<lambda>_. pret (BandwidthStop seq type []))
     else if type = netchar_base_rtt_average_rtt \<or> type = netchar_bandwidth_average_rtt \<or> type = netchar_all
     then ptry (expect_length h (if type = netchar_all then netchar_all_header else result_header) start) (\<lambda>_.
       ptry (if type \<noteq> netchar_bandwidth_average_rtt then ptry rd_u32le (\<lambda>v. pret (Some v)) else pret None) (\<lambda>base.
       ptry (if type \<noteq> netchar_base_rtt_average_rtt then ptry rd_u32le (\<lambda>v. pret (Some v)) else pret None) (\<lambda>bw.
       ptry rd_u32le (\<lambda>avg. pret (NetworkCharacteristicsResult
         \<lparr>nr_sequence = seq, nr_base_rtt_ms = base, nr_bandwidth_kbps = bw, nr_average_rtt_ms = avg\<rparr>)))))
     else pfail Unsupported ''unknown auto-detect requestType'' (start + 4)))"

definition write_u32_option :: "u32 option \<Rightarrow> writer \<Rightarrow> writer" where
  "write_u32_option v w = (case v of None \<Rightarrow> w | Some x \<Rightarrow> w_u32le x w)"

fun encode_request :: "ad_request \<Rightarrow> writer \<Rightarrow> writer option" where
  "encode_request (RttRequest seq type) w = Some (write_header short_header type_id_request seq type w)"
| "encode_request (BandwidthStart seq type) w = Some (write_header short_header type_id_request seq type w)"
| "encode_request (BandwidthPayload seq payload) w =
     write_payload payload (write_header payload_header type_id_request seq bw_payload w)"
| "encode_request (BandwidthStop seq type payload) w =
     (if type = bw_stop_connect_time
      then do {
        wassert (payload \<noteq> []);
        write_payload payload (write_header payload_header type_id_request seq type w)
      }
      else do {
        wassert (payload = []);
        Some (write_header short_header type_id_request seq type w)
      })"
| "encode_request (NetworkCharacteristicsResult m) w = do {
     wassert (nr_base_rtt_ms m \<noteq> None \<or> nr_bandwidth_kbps m \<noteq> None);
     let type = request_type_of m;
     let w = write_header (if type = netchar_all then netchar_all_header else result_header) type_id_request (nr_sequence m) type w;
     Some (w_u32le (nr_average_rtt_ms m) (write_u32_option (nr_bandwidth_kbps m) (write_u32_option (nr_base_rtt_ms m) w)))
   }"

definition decode_response :: "ad_response parser" where
  "decode_response = pget rd_offset (\<lambda>start. ptry (read_header type_id_response) (\<lambda>h.
     let type = ah_type h; seq = ah_sequence h in
     if type = response_rtt then ptry (expect_length h short_header start) (\<lambda>_. pret (RttResponse seq))
     else if type = bw_results_connect_time \<or> type = bw_results_continuous
     then ptry (expect_length h result_header start) (\<lambda>_. ptry rd_u32le (\<lambda>delta. ptry rd_u32le (\<lambda>count.
       pret (BandwidthResults seq type delta count))))
     else if type = netchar_sync
     then ptry (expect_length h result_header start) (\<lambda>_. ptry rd_u32le (\<lambda>bw. ptry rd_u32le (\<lambda>rtt.
       pret (NetworkCharacteristicsSync seq bw rtt))))
     else pfail Unsupported ''unknown auto-detect responseType'' (start + 4)))"

fun encode_response :: "ad_response \<Rightarrow> writer \<Rightarrow> writer" where
  "encode_response (RttResponse seq) w = write_header short_header type_id_response seq response_rtt w"
| "encode_response (BandwidthResults seq type delta count) w =
     w_u32le count (w_u32le delta (write_header result_header type_id_response seq type w))"
| "encode_response (NetworkCharacteristicsSync seq bw rtt) w =
     w_u32le rtt (w_u32le bw (write_header result_header type_id_response seq netchar_sync w))"

record heartbeat =
  hb_period_seconds :: byte
  hb_warning_count :: byte
  hb_reconnect_count :: byte

definition decode_heartbeat :: "heartbeat parser" where
  "decode_heartbeat = ptry (rd_skip 1) (\<lambda>_. ptry rd_u8 (\<lambda>period. ptry rd_u8 (\<lambda>warning. ptry rd_u8 (\<lambda>reconnect.
     pret \<lparr>hb_period_seconds = period, hb_warning_count = warning, hb_reconnect_count = reconnect\<rparr>))))"

definition encode_heartbeat :: "heartbeat \<Rightarrow> writer \<Rightarrow> writer" where
  "encode_heartbeat h w = w_u8 (hb_reconnect_count h) (w_u8 (hb_warning_count h) (w_u8 (hb_period_seconds h) (w_u8 0 w)))"

section \<open>Staying inside the input\<close>

lemma autodetect_safe_parts [safe_intros]: "rd_safe (read_header t)" "rd_safe (expect_length h n k)" "rd_safe read_payload"
  unfolding read_header_def expect_length_def read_payload_def by (intro safe_intros)+

lemma autodetect_safe [safe_intros]: "rd_safe decode_request" "rd_safe decode_response" "rd_safe decode_heartbeat"
  unfolding decode_request_def decode_response_def decode_heartbeat_def by (intro safe_intros)+

section \<open>The messages survive the wire\<close>

definition ad_header_enc :: "byte \<Rightarrow> byte \<Rightarrow> u16 \<Rightarrow> u16 \<Rightarrow> bytes" where
  "ad_header_enc n type_id seq type = [n, type_id] @ le_bytes 2 seq @ le_bytes 2 type"

lemma read_header_enc:
  "rd_rest r = ad_header_enc n t seq type @ ys \<Longrightarrow>
   read_header t r = (Inr \<lparr>ah_length = n, ah_type_id = t, ah_sequence = seq, ah_type = type\<rparr>, rd_advance 6 r)"
  by (simp add: read_header_def ad_header_enc_def rd_simps)

lemma write_header_enc: "write_header n t seq type w = w @ ad_header_enc n t seq type"
  by (simp add: write_header_def ad_header_enc_def wr_simps)

lemma length_ad_header_enc [simp]: "length (ad_header_enc n t seq type) = 6"
  by (simp add: ad_header_enc_def)

lemma read_payload_enc:
  assumes "length payload \<le> 0xFFFF" "rd_rest r = le_bytes 2 (of_nat (length payload) :: u16) @ payload @ ys"
  shows "read_payload r = (Inr payload, rd_advance (2 + length payload) r)"
proof -
  have "unat (of_nat (length payload) :: u16) = length payload"
    using assms(1) by (simp add: unsigned_of_nat take_bit_nat_eq_self)
  with assms(2) show ?thesis by (simp add: read_payload_def rd_simps)
qed

definition request_ok :: "ad_request \<Rightarrow> bool" where
  "request_ok m = (case m of
     RttRequest _ type \<Rightarrow> type \<in> {rtt_continuous, rtt_connect_time}
   | BandwidthStart _ type \<Rightarrow> type \<in> {bw_start_continuous, bw_start_lossy_udp, bw_start_connect_time}
   | BandwidthPayload _ payload \<Rightarrow> length payload \<le> 0xFFFF
   | BandwidthStop _ type payload \<Rightarrow>
       if type = bw_stop_connect_time then payload \<noteq> [] \<and> length payload \<le> 0xFFFF
       else type \<in> {bw_stop_continuous, bw_stop_lossy_udp} \<and> payload = []
   | NetworkCharacteristicsResult n \<Rightarrow> nr_base_rtt_ms n \<noteq> None \<or> nr_bandwidth_kbps n \<noteq> None)"

definition u32_option_enc :: "u32 option \<Rightarrow> bytes" where
  "u32_option_enc v = (case v of None \<Rightarrow> [] | Some x \<Rightarrow> le_bytes 4 x)"

fun request_enc :: "ad_request \<Rightarrow> bytes" where
  "request_enc (RttRequest seq type) = ad_header_enc short_header type_id_request seq type"
| "request_enc (BandwidthStart seq type) = ad_header_enc short_header type_id_request seq type"
| "request_enc (BandwidthPayload seq payload) = ad_header_enc payload_header type_id_request seq bw_payload @
     le_bytes 2 (of_nat (length payload) :: u16) @ payload"
| "request_enc (BandwidthStop seq type payload) =
     (if type = bw_stop_connect_time
      then ad_header_enc payload_header type_id_request seq type @ le_bytes 2 (of_nat (length payload) :: u16) @ payload
      else ad_header_enc short_header type_id_request seq type)"
| "request_enc (NetworkCharacteristicsResult n) =
     ad_header_enc (if request_type_of n = netchar_all then netchar_all_header else result_header) type_id_request
       (nr_sequence n) (request_type_of n) @
     u32_option_enc (nr_base_rtt_ms n) @ u32_option_enc (nr_bandwidth_kbps n) @ le_bytes 4 (nr_average_rtt_ms n)"

lemmas ad_types = rtt_continuous_def rtt_connect_time_def bw_start_continuous_def bw_start_lossy_udp_def
  bw_start_connect_time_def bw_payload_def bw_stop_connect_time_def bw_stop_continuous_def bw_stop_lossy_udp_def
  netchar_base_rtt_average_rtt_def netchar_bandwidth_average_rtt_def netchar_all_def response_rtt_def
  bw_results_connect_time_def bw_results_continuous_def netchar_sync_def

lemma encode_request_enc: "request_ok m \<Longrightarrow> encode_request m w = Some (w @ request_enc m)"
  by (cases m) (auto simp: request_ok_def write_header_enc write_payload_def write_u32_option_def u32_option_enc_def wassert_def
      wr_simps split: if_splits option.split)

lemma decode_netchar_enc:
  assumes "request_ok (NetworkCharacteristicsResult n)" "rd_rest r = request_enc (NetworkCharacteristicsResult n) @ ys"
  shows "decode_request r = (Inr (NetworkCharacteristicsResult n),
    rd_advance (length (request_enc (NetworkCharacteristicsResult n))) r)"
proof -
  let ?h = "if request_type_of n = netchar_all then netchar_all_header else result_header"
  have "rd_rest r = ad_header_enc ?h type_id_request (nr_sequence n) (request_type_of n) @
      u32_option_enc (nr_base_rtt_ms n) @ u32_option_enc (nr_bandwidth_kbps n) @ le_bytes 4 (nr_average_rtt_ms n) @ ys"
    using assms(2) by simp
  then show ?thesis
    using assms(1)
    by (cases "nr_base_rtt_ms n"; cases "nr_bandwidth_kbps n")
      (simp_all add: request_ok_def decode_request_def rd_simps read_header_enc expect_length_def request_type_of_def
        ad_types u32_option_enc_def)
qed

lemma decode_request_enc:
  assumes "request_ok m" "rd_rest r = request_enc m @ ys"
  shows "decode_request r = (Inr m, rd_advance (length (request_enc m)) r)"
proof (cases m)
  case (NetworkCharacteristicsResult n)
  then show ?thesis using assms decode_netchar_enc [of n r ys] by simp
next
  case (BandwidthPayload seq payload)
  with assms show ?thesis
    by (simp add: request_ok_def decode_request_def rd_simps read_header_enc expect_length_def Let_def read_payload_enc)
      (simp add: ad_types)
next
  case (BandwidthStop seq type payload)
  show ?thesis
  proof (cases "type = bw_stop_connect_time")
    case True
    with assms BandwidthStop have "read_payload (rd_advance 6 r) = (Inr payload, rd_advance (8 + length payload) r)" "payload \<noteq> []"
      using read_payload_enc [of payload "rd_advance 6 r" ys] by (simp_all add: request_ok_def)
    with True assms BandwidthStop show ?thesis
      by (simp add: decode_request_def rd_simps read_header_enc expect_length_def ad_types)
  next
    case False
    with assms(1) BandwidthStop have "payload = []" "type = bw_stop_continuous \<or> type = bw_stop_lossy_udp"
      by (simp_all add: request_ok_def)
    with False assms(2) BandwidthStop show ?thesis
      by (elim disjE) (simp_all add: decode_request_def rd_simps read_header_enc expect_length_def ad_types)
  qed
qed (use assms in \<open>auto simp: request_ok_def decode_request_def rd_simps read_header_enc expect_length_def Let_def ad_types\<close>)

interpretation ad_request: codec encode_request decode_request request_ok request_enc
  by unfold_locales (simp_all add: encode_request_enc decode_request_enc)

definition response_ok :: "ad_response \<Rightarrow> bool" where
  "response_ok m = (case m of BandwidthResults _ type _ _ \<Rightarrow> type \<in> {bw_results_connect_time, bw_results_continuous} | _ \<Rightarrow> True)"

fun response_enc :: "ad_response \<Rightarrow> bytes" where
  "response_enc (RttResponse seq) = ad_header_enc short_header type_id_response seq response_rtt"
| "response_enc (BandwidthResults seq type delta count) =
     ad_header_enc result_header type_id_response seq type @ le_bytes 4 delta @ le_bytes 4 count"
| "response_enc (NetworkCharacteristicsSync seq bw rtt) =
     ad_header_enc result_header type_id_response seq netchar_sync @ le_bytes 4 bw @ le_bytes 4 rtt"

interpretation ad_response: codec "\<lambda>m w. Some (encode_response m w)" decode_response response_ok response_enc
proof unfold_locales
  fix m w show "response_ok m \<Longrightarrow> Some (encode_response m w) = Some (w @ response_enc m)"
    by (cases m) (simp_all add: write_header_enc wr_simps)
next
  fix m r ys assume "response_ok m" "rd_wf r" "rd_rest r = response_enc m @ ys"
  then show "decode_response r = (Inr m, rd_advance (length (response_enc m)) r)"
    by (cases m) (auto simp: response_ok_def decode_response_def rd_simps read_header_enc expect_length_def Let_def ad_types)
qed

definition heartbeat_enc :: "heartbeat \<Rightarrow> bytes" where
  "heartbeat_enc h = [0, hb_period_seconds h, hb_warning_count h, hb_reconnect_count h]"

interpretation heartbeat: codec "\<lambda>h w. Some (encode_heartbeat h w)" decode_heartbeat "\<lambda>_. True" heartbeat_enc
  by unfold_locales (simp_all add: encode_heartbeat_def decode_heartbeat_def heartbeat_enc_def wr_simps rd_simps)

section \<open>Properties\<close>

text \<open>
  Every auto-detect message survives the wire: requests of all types, responses and heartbeats are read back as
  they were written, whatever follows them.
\<close>

theorem autodetect_roundtrip:
  assumes "request_ok q" "response_ok p"
  shows "(\<exists>bs. encode_request q w = Some (w @ bs) \<and>
      decode_request (mk_reader (bs @ ys) b) = (Inr q, rd_advance (length bs) (mk_reader (bs @ ys) b))) \<and>
    (\<exists>bs. Some (encode_response p w) = Some (w @ bs) \<and>
      decode_response (mk_reader (bs @ ys) b) = (Inr p, rd_advance (length bs) (mk_reader (bs @ ys) b))) \<and>
    (\<exists>bs. Some (encode_heartbeat h w) = Some (w @ bs) \<and>
      decode_heartbeat (mk_reader (bs @ ys) b) = (Inr h, rd_advance (length bs) (mk_reader (bs @ ys) b)))"
  using ad_request.round_trip [OF assms(1)] ad_response.round_trip [OF assms(2)] heartbeat.round_trip by simp

theorem autodetect_roundtrip_witness:
  "\<exists>bs. encode_request (BandwidthStop 1 bw_stop_connect_time [7, 8]) [] = Some ([] @ bs) \<and>
     decode_request (mk_reader (bs @ [1]) 0) =
       (Inr (BandwidthStop 1 bw_stop_connect_time [7, 8]), rd_advance (length bs) (mk_reader (bs @ [1]) 0))"
proof -
  have "request_ok (BandwidthStop 1 bw_stop_connect_time [7, 8])" "response_ok (RttResponse 0)"
    by (simp_all add: request_ok_def response_ok_def)
  from autodetect_roundtrip [OF this, of "[]" "[1]" 0] show ?thesis by blast
qed

end
