(* ===== verification/Autodetect.thy ===== *)
theory Autodetect
  imports Autodetect_Pdu Machine "HOL-Library.Signed_Division"
begin

text \<open>
  \<open>server/autodetect.cpp\<close>: the server half of the network characteristics detection, which requests
  to send when and what the client's answers say about the link. Times and durations are counts of
  nanoseconds of the steady clock, as integers (64-bit counts do not overflow within the life of a
  machine); division truncates towards zero, as C++ durations do. \<open>Clock::time_point::min()\<close> is the
  least 64-bit count. Counters keep their width.
\<close>

section \<open>Model\<close>

definition time_point_min :: int where "time_point_min = - (2 ^ 63)"

record network_estimate =
  ne_rtt :: "int option"
  ne_jitter :: int
  ne_last_rtt :: "int option"
  ne_base_rtt :: "int option"
  ne_unanswered :: int
  ne_bandwidth_kbps :: "u32 option"
  ne_last_bandwidth_kbps :: "u32 option"
  ne_bandwidth_at :: "int option"
  ne_rtt_samples :: u64
  ne_bandwidth_samples :: u64

record autodetect_config =
  ac_rtt_interval :: int
  ac_rtt_timeout :: int
  ac_max_unanswered_probes :: u32
  ac_base_rtt_window :: nat
  ac_connect_time_bytes :: nat
  ac_connect_time_timeout :: int
  ac_bandwidth_interval :: int
  ac_min_burst_bytes :: nat

record probe =
  pr_sequence :: u16
  pr_sent :: int

record autodetect =
  ad_config :: autodetect_config
  ad_estimate :: network_estimate
  ad_sequence :: u16
  ad_probes :: "probe list"
  ad_recent_rtt :: "int list"
  ad_last_probe :: "int option"
  ad_probes_lost :: u32
  ad_probing :: bool
  ad_payload :: bytes
  ad_connect_time_started :: "int option"
  ad_connect_time_rtt :: bool
  ad_connect_time_bandwidth :: bool
  ad_bandwidth_sequence :: "u16 option"
  ad_bandwidth_response_type :: u16
  ad_last_bandwidth_measurement :: "int option"

definition no_estimate :: network_estimate where
  "no_estimate = \<lparr>ne_rtt = None, ne_jitter = 0, ne_last_rtt = None, ne_base_rtt = None, ne_unanswered = 0,
     ne_bandwidth_kbps = None, ne_last_bandwidth_kbps = None, ne_bandwidth_at = None, ne_rtt_samples = 0,
     ne_bandwidth_samples = 0\<rparr>"

definition ad_new :: "autodetect_config \<Rightarrow> autodetect" where
  "ad_new config =
     \<lparr>ad_config = config\<lparr>ac_base_rtt_window := max (ac_base_rtt_window config) 1,
        ac_max_unanswered_probes := max (ac_max_unanswered_probes config) 1\<rparr>,
      ad_estimate = no_estimate, ad_sequence = 1, ad_probes = [], ad_recent_rtt = [], ad_last_probe = None,
      ad_probes_lost = 0, ad_probing = True, ad_payload = [], ad_connect_time_started = None,
      ad_connect_time_rtt = False, ad_connect_time_bandwidth = False, ad_bandwidth_sequence = None,
      ad_bandwidth_response_type = 0, ad_last_bandwidth_measurement = None\<rparr>"

definition next_state :: "u32 \<Rightarrow> u32" where
  "next_state s = (let s = s XOR push_bit 13 s; s = s XOR drop_bit 17 s in s XOR push_bit 5 s)"

fun payload_bytes :: "nat \<Rightarrow> u32 \<Rightarrow> bytes" where
  "payload_bytes 0 s = []"
| "payload_bytes (Suc n) s = (let s = next_state s in ucast (s AND 0xFF) # payload_bytes n s)"

definition make_payload :: "nat \<Rightarrow> bytes" where
  "make_payload n = payload_bytes n 0x9E3779B9"

definition to_ms :: "int \<Rightarrow> u32" where
  "to_ms d = of_int (min (max (d sdiv 1000000) 0) 0xFFFFFFFF)"

definition next_sequence :: "autodetect \<Rightarrow> u16 \<times> autodetect" where
  "next_sequence st = (ad_sequence st, st\<lparr>ad_sequence := ad_sequence st + 1\<rparr>)"

function payload_requests :: "u16 \<Rightarrow> bytes \<Rightarrow> ad_request list" where
  "payload_requests bandwidth rest =
     (if length rest > max_payload_size
      then BandwidthPayload bandwidth (take max_payload_size rest) #
        payload_requests bandwidth (drop max_payload_size rest)
      else [BandwidthStop bandwidth bw_stop_connect_time rest])"
  by pat_completeness auto
termination
  by (relation "measure (\<lambda>(_, rest). length rest)") (auto simp: max_payload_size_def)

declare payload_requests.simps [simp del]

definition start_connect_time :: "int \<Rightarrow> autodetect \<Rightarrow> ad_request list \<times> autodetect" where
  "start_connect_time now st =
     (let st = st\<lparr>ad_connect_time_started := Some now\<rparr>;
          (rtt, st) = next_sequence st;
          st = st\<lparr>ad_probes := ad_probes st @ [\<lparr>pr_sequence = rtt, pr_sent = now\<rparr>]\<rparr>;
          (bandwidth, st) = next_sequence st;
          st = st\<lparr>ad_bandwidth_sequence := Some bandwidth, ad_bandwidth_response_type := bw_results_connect_time,
            ad_payload := make_payload (max (ac_connect_time_bytes (ad_config st)) 1)\<rparr>
      in (RttRequest rtt rtt_connect_time # BandwidthStart bandwidth bw_start_connect_time #
            payload_requests bandwidth (ad_payload st), st))"

definition connect_time_complete :: "int \<Rightarrow> autodetect \<Rightarrow> bool" where
  "connect_time_complete now st = (case ad_connect_time_started st of
     None \<Rightarrow> True
   | Some started \<Rightarrow> (ad_connect_time_rtt st \<and> ad_connect_time_bandwidth st) \<or>
       now - started \<ge> ac_connect_time_timeout (ad_config st))"

definition network_characteristics_result :: "autodetect \<Rightarrow> netchar_result option \<times> autodetect" where
  "network_characteristics_result st =
     (let e = ad_estimate st in
      if ne_rtt e = None \<and> ne_bandwidth_kbps e = None then (None, st)
      else
        let (seq, st) = next_sequence st;
            result = \<lparr>nr_sequence = seq, nr_base_rtt_ms = map_option to_ms (ne_base_rtt e),
              nr_bandwidth_kbps = ne_bandwidth_kbps e,
              nr_average_rtt_ms = (case ne_rtt e of Some rtt \<Rightarrow> to_ms rtt | None \<Rightarrow> 0)\<rparr>
        in if nr_base_rtt_ms result = None \<and> nr_bandwidth_kbps result = None then (None, st)
           else (Some result, st))"

fun drop_expired :: "int \<Rightarrow> int \<Rightarrow> probe list \<Rightarrow> u32 \<Rightarrow> probe list \<times> u32" where
  "drop_expired now timeout [] lost = ([], lost)"
| "drop_expired now timeout (p # ps) lost =
     (if now - pr_sent p \<ge> timeout then drop_expired now timeout ps (lost + 1) else (p # ps, lost))"

definition expire_probes :: "int \<Rightarrow> autodetect \<Rightarrow> autodetect" where
  "expire_probes now st =
     (let (probes, lost) = drop_expired now (ac_rtt_timeout (ad_config st)) (ad_probes st) (ad_probes_lost st);
          st = st\<lparr>ad_probes := probes, ad_probes_lost := lost\<rparr>;
          st = (if ad_probing st \<and> ne_rtt_samples (ad_estimate st) = 0 \<and>
                   ad_probes_lost st \<ge> ac_max_unanswered_probes (ad_config st)
                then st\<lparr>ad_probing := False, ad_probes := []\<rparr> else st)
      in st\<lparr>ad_estimate := (ad_estimate st)\<lparr>ne_unanswered := (case ad_probes st of
             p # _ \<Rightarrow> if ne_rtt_samples (ad_estimate st) > 0 then now - pr_sent p else 0
           | [] \<Rightarrow> 0)\<rparr>\<rparr>)"

definition next_rtt_request :: "autodetect \<Rightarrow> int option" where
  "next_rtt_request st =
     (if \<not> ad_probing st then None
      else case ad_last_probe st of
        None \<Rightarrow> Some time_point_min
      | Some prev \<Rightarrow> Some (prev + ac_rtt_interval (ad_config st)))"

definition poll_rtt_request :: "int \<Rightarrow> autodetect \<Rightarrow> ad_request option \<times> autodetect" where
  "poll_rtt_request now st =
     (let st = expire_probes now st in
      case next_rtt_request st of
        None \<Rightarrow> (None, st)
      | Some next \<Rightarrow>
          if now < next then (None, st)
          else
            let st = st\<lparr>ad_last_probe := Some now\<rparr>;
                (seq, st) = next_sequence st
            in (Some (RttRequest seq rtt_continuous),
                st\<lparr>ad_probes := ad_probes st @ [\<lparr>pr_sequence = seq, pr_sent = now\<rparr>]\<rparr>))"

definition bandwidth_measurement_due :: "int \<Rightarrow> nat \<Rightarrow> autodetect \<Rightarrow> bool" where
  "bandwidth_measurement_due now burst_bytes st =
     (if burst_bytes < ac_min_burst_bytes (ad_config st) then False
      else case ad_last_bandwidth_measurement st of
        None \<Rightarrow> True
      | Some prev \<Rightarrow>
          let since = now - prev
          in since \<ge> ac_bandwidth_interval (ad_config st) \<and>
             (ad_bandwidth_sequence st = None \<or> since \<ge> ac_rtt_timeout (ad_config st)))"

definition start_bandwidth_measurement :: "int \<Rightarrow> autodetect \<Rightarrow> ad_request \<times> autodetect" where
  "start_bandwidth_measurement now st =
     (let st = st\<lparr>ad_last_bandwidth_measurement := Some now\<rparr>;
          (seq, st) = next_sequence st;
          st = st\<lparr>ad_bandwidth_sequence := Some seq, ad_bandwidth_response_type := bw_results_continuous\<rparr>
      in (BandwidthStart seq bw_start_continuous, st))"

definition stop_bandwidth_measurement :: "autodetect \<Rightarrow> ad_request" where
  "stop_bandwidth_measurement st =
     BandwidthStop (case ad_bandwidth_sequence st of Some seq \<Rightarrow> seq | None \<Rightarrow> 0) bw_stop_continuous []"

definition add_rtt_sample :: "int \<Rightarrow> autodetect \<Rightarrow> autodetect" where
  "add_rtt_sample sample st =
     (let sample = max sample 0;
          e = ad_estimate st;
          e = (case ne_rtt e of
                 None \<Rightarrow> e\<lparr>ne_rtt := Some sample, ne_jitter := sample sdiv 2\<rparr>
               | Some rtt \<Rightarrow>
                   let deviation = (if sample > rtt then sample - rtt else rtt - sample)
                   in e\<lparr>ne_jitter := (ne_jitter e * 3 + deviation) sdiv 4, ne_rtt := Some ((rtt * 7 + sample) sdiv 8)\<rparr>);
          e = e\<lparr>ne_last_rtt := Some sample\<rparr>;
          recent = ad_recent_rtt st @ [sample];
          recent = (if length recent > ac_base_rtt_window (ad_config st) then tl recent else recent);
          e = e\<lparr>ne_base_rtt := Some (Min (set recent)), ne_rtt_samples := ne_rtt_samples e + 1\<rparr>
      in st\<lparr>ad_estimate := e, ad_recent_rtt := recent\<rparr>)"

definition add_bandwidth_sample :: "u32 \<Rightarrow> int \<Rightarrow> autodetect \<Rightarrow> autodetect" where
  "add_bandwidth_sample kbps now st =
     (let e = (ad_estimate st)\<lparr>ne_last_bandwidth_kbps := Some kbps, ne_bandwidth_at := Some now\<rparr>;
          e = e\<lparr>ne_bandwidth_kbps := Some (case ne_bandwidth_kbps e of
                 None \<Rightarrow> kbps
               | Some old \<Rightarrow> if kbps < old then ucast ((ucast old + ucast kbps :: u64) div 2)
                   else ucast ((ucast old * 3 + ucast kbps :: u64) div 4))\<rparr>;
          e = e\<lparr>ne_bandwidth_samples := ne_bandwidth_samples e + 1\<rparr>
      in st\<lparr>ad_estimate := e\<rparr>)"

definition on_rtt_response :: "u16 \<Rightarrow> int \<Rightarrow> autodetect \<Rightarrow> autodetect" where
  "on_rtt_response seq now st =
     (case dropWhile (\<lambda>p. pr_sequence p \<noteq> seq) (ad_probes st) of
       [] \<Rightarrow> st
     | found # newer \<Rightarrow>
         let connect_time = (ad_connect_time_started st \<noteq> None \<and> \<not> ad_connect_time_rtt st);
             st = add_rtt_sample (now - pr_sent found) st;
             st = st\<lparr>ad_probes := newer, ad_connect_time_rtt := ad_connect_time_rtt st \<or> connect_time\<rparr>
         in expire_probes now st)"

definition on_bandwidth_results :: "u16 \<Rightarrow> u16 \<Rightarrow> u32 \<Rightarrow> u32 \<Rightarrow> int \<Rightarrow> autodetect \<Rightarrow> autodetect" where
  "on_bandwidth_results seq type delta count now st =
     (if ad_bandwidth_sequence st \<noteq> Some seq \<or> type \<noteq> ad_bandwidth_response_type st then st
      else
        let st = st\<lparr>ad_bandwidth_sequence := None\<rparr>;
            kbps = (ucast count * 8 :: u64) div ucast (max delta 1);
            sample = add_bandwidth_sample (ucast (min kbps 0xFFFFFFFF)) now
        in if type = bw_results_connect_time then sample (st\<lparr>ad_connect_time_bandwidth := True\<rparr>)
           else if unat count < ac_min_burst_bytes (ad_config st) div 2 then st
           else sample st)"

fun on_response :: "ad_response \<Rightarrow> int \<Rightarrow> autodetect \<Rightarrow> autodetect" where
  "on_response (RttResponse seq) now st = on_rtt_response seq now st"
| "on_response (BandwidthResults seq type delta count) now st = on_bandwidth_results seq type delta count now st"
| "on_response (NetworkCharacteristicsSync seq bandwidth rtt) now st =
     (let st = (if ad_connect_time_started st \<noteq> None \<and> \<not> (ad_connect_time_rtt st \<and> ad_connect_time_bandwidth st)
                then st\<lparr>ad_probes := [], ad_bandwidth_sequence := None, ad_connect_time_rtt := True,
                  ad_connect_time_bandwidth := True\<rparr>
                else st)
      in add_bandwidth_sample bandwidth now (add_rtt_sample (uint rtt * 1000000) st))"

section \<open>Durations and bursts\<close>

lemma sdiv_nonneg: "0 \<le> k \<Longrightarrow> 0 < l \<Longrightarrow> k sdiv l = k div (l :: int)"
  by (cases "k = 0") (simp_all add: signed_divide_int_def)

lemma length_payload_bytes [simp]: "length (payload_bytes n s) = n"
  by (induction n arbitrary: s) (simp_all add: Let_def)

lemma length_make_payload [simp]: "length (make_payload n) = n"
  by (simp add: make_payload_def)

text \<open>A burst is cut into payloads and a stop that fit their length fields and add up to the burst.\<close>

lemma payload_requests_ok:
  "rest \<noteq> [] \<Longrightarrow> q \<in> set (payload_requests bandwidth rest) \<Longrightarrow> request_ok q \<and> length (request_enc q) \<le> max_payload_size + 8"
proof (induction bandwidth rest rule: payload_requests.induct)
  case (1 bandwidth rest)
  show ?case
  proof (cases "length rest > max_payload_size")
    case True
    then have "drop max_payload_size rest \<noteq> []" by simp
    with 1 True have "q = BandwidthPayload bandwidth (take max_payload_size rest) \<or>
        request_ok q \<and> length (request_enc q) \<le> max_payload_size + 8"
      by (auto simp: payload_requests.simps [of bandwidth rest])
    then show ?thesis
      by (rule disjE) (simp add: request_ok_def ad_header_enc_def max_payload_size_def, simp)
  next
    case False
    with 1 show ?thesis
      by (simp add: payload_requests.simps [of bandwidth rest] request_ok_def ad_header_enc_def max_payload_size_def)
  qed
qed

fun request_payload :: "ad_request \<Rightarrow> bytes" where
  "request_payload (BandwidthPayload seq payload) = payload"
| "request_payload (BandwidthStop seq type payload) = payload"
| "request_payload _ = []"

lemma payload_requests_payload: "concat (map request_payload (payload_requests bandwidth rest)) = rest"
  by (induction bandwidth rest rule: payload_requests.induct) (simp add: payload_requests.simps)

section \<open>The invariant\<close>

definition ad_inv :: "autodetect \<Rightarrow> bool" where
  "ad_inv st \<longleftrightarrow>
     (let e = ad_estimate st; recent = ad_recent_rtt st in
      length recent \<le> ac_base_rtt_window (ad_config st) \<and> 0 < ac_base_rtt_window (ad_config st) \<and>
      list_all (\<lambda>rtt. 0 \<le> rtt) recent \<and>
      (ne_rtt e = None \<longleftrightarrow> recent = []) \<and> pred_option (\<lambda>rtt. 0 \<le> rtt) (ne_rtt e) \<and> 0 \<le> ne_jitter e \<and>
      ne_last_rtt e = (if recent = [] then None else Some (last recent)) \<and>
      ne_base_rtt e = (if recent = [] then None else Some (Min (set recent))) \<and>
      (ne_bandwidth_kbps e = None \<longleftrightarrow> ne_last_bandwidth_kbps e = None))"

lemma ad_inv_new: "ad_inv (ad_new config)"
  by (simp add: ad_inv_def ad_new_def no_estimate_def)

text \<open>Only a sample changes what the invariant reads.\<close>

lemma ad_inv_cong [simp]:
  "ad_inv (st\<lparr>ad_probes := ps\<rparr>) = ad_inv st" "ad_inv (st\<lparr>ad_sequence := s\<rparr>) = ad_inv st"
  "ad_inv (st\<lparr>ad_last_probe := t\<rparr>) = ad_inv st" "ad_inv (st\<lparr>ad_payload := bs\<rparr>) = ad_inv st"
  "ad_inv (st\<lparr>ad_connect_time_started := t\<rparr>) = ad_inv st" "ad_inv (st\<lparr>ad_connect_time_rtt := b\<rparr>) = ad_inv st"
  "ad_inv (st\<lparr>ad_connect_time_bandwidth := b\<rparr>) = ad_inv st" "ad_inv (st\<lparr>ad_bandwidth_sequence := q\<rparr>) = ad_inv st"
  "ad_inv (st\<lparr>ad_bandwidth_response_type := y\<rparr>) = ad_inv st" "ad_inv (st\<lparr>ad_last_bandwidth_measurement := t\<rparr>) = ad_inv st"
  "ad_inv (st\<lparr>ad_probes_lost := n\<rparr>) = ad_inv st" "ad_inv (st\<lparr>ad_probing := b\<rparr>) = ad_inv st"
  "ad_inv (st\<lparr>ad_estimate := (ad_estimate st)\<lparr>ne_unanswered := d\<rparr>\<rparr>) = ad_inv st"
  by (simp_all add: ad_inv_def Let_def)

lemma ad_inv_unanswered: "ad_inv st \<Longrightarrow> e = ad_estimate st \<Longrightarrow> ad_inv (st\<lparr>ad_estimate := e\<lparr>ne_unanswered := d\<rparr>\<rparr>)"
  by simp

lemma ad_inv_expire: "ad_inv st \<Longrightarrow> ad_inv (expire_probes now st)"
  unfolding expire_probes_def Let_def case_prod_beta by (rule ad_inv_unanswered) simp_all

lemma ad_inv_rtt_sample:
  assumes "ad_inv st"
  shows "ad_inv (add_rtt_sample sample st)"
proof -
  let ?s = "max sample 0" and ?recent = "ad_recent_rtt st @ [max sample 0]"
  let ?w = "ac_base_rtt_window (ad_config st)"
  define recent where "recent = (if length ?recent > ?w then tl ?recent else ?recent)"
  have recent: "length recent \<le> ?w" "recent \<noteq> []" "last recent = ?s" "list_all (\<lambda>rtt. 0 \<le> rtt) recent"
    using assms unfolding recent_def ad_inv_def Let_def
    by (cases "ad_recent_rtt st"; auto)+
  have "pred_option (\<lambda>rtt. 0 \<le> rtt) (ne_rtt (ad_estimate st))" "0 \<le> ne_jitter (ad_estimate st)" "0 < ?w"
    using assms by (simp_all add: ad_inv_def Let_def)
  with recent assms show ?thesis
    unfolding add_rtt_sample_def Let_def recent_def [symmetric] ad_inv_def
    by (auto simp: sdiv_nonneg split: option.split)
qed

lemma ad_inv_bandwidth_sample: "ad_inv st \<Longrightarrow> ad_inv (add_bandwidth_sample kbps now st)"
  by (simp add: ad_inv_def add_bandwidth_sample_def Let_def)

lemma ad_inv_response: "ad_inv st \<Longrightarrow> ad_inv (on_response response now st)"
  by (cases response)
    (auto simp: on_rtt_response_def on_bandwidth_results_def Let_def
      intro!: ad_inv_expire ad_inv_rtt_sample ad_inv_bandwidth_sample split: list.split)

lemmas ad_op_defs = next_sequence_def Let_def case_prod_beta

lemma ad_inv_ops:
  assumes "ad_inv st"
  shows "ad_inv (snd (start_connect_time now st))" "ad_inv (snd (network_characteristics_result st))"
    "ad_inv (snd (poll_rtt_request now st))" "ad_inv (snd (start_bandwidth_measurement now st))"
  using assms ad_inv_expire [OF assms, of now]
  by (auto simp: start_connect_time_def network_characteristics_result_def poll_rtt_request_def
      start_bandwidth_measurement_def ad_op_defs split: option.split)

text \<open>Everything the detection sends fits its message, so encoding it never fails an assertion.\<close>

lemma start_connect_time_requests_ok:
  "q \<in> set (fst (start_connect_time now st)) \<Longrightarrow> request_ok q \<and> length (request_enc q) \<le> max_payload_size + 8"
proof -
  let ?p = "make_payload (max (ac_connect_time_bytes (ad_config st)) 1)"
  have "?p \<noteq> []" by (metis length_make_payload list.size(3) max.cobounded2 not_one_le_zero)
  moreover have "request_ok (RttRequest s rtt_connect_time)" "request_ok (BandwidthStart s bw_start_connect_time)" for s
    by (simp_all add: request_ok_def)
  ultimately show "q \<in> set (fst (start_connect_time now st)) \<Longrightarrow> request_ok q \<and> length (request_enc q) \<le> max_payload_size + 8"
    using payload_requests_ok [of ?p q]
    by (auto simp: start_connect_time_def ad_op_defs ad_header_enc_def)
qed

lemma netchar_result_ok:
  "fst (network_characteristics_result st) = Some result \<Longrightarrow>
   request_ok (NetworkCharacteristicsResult result) \<and>
   length (request_enc (NetworkCharacteristicsResult result)) \<le> max_payload_size + 8"
  by (auto simp: network_characteristics_result_def ad_op_defs request_ok_def ad_header_enc_def u32_option_enc_def
      max_payload_size_def split: if_splits option.splits)

lemma continuous_requests_ok:
  "fst (poll_rtt_request now st) = Some q \<Longrightarrow> request_ok q \<and> length (request_enc q) \<le> max_payload_size + 8"
  "request_ok (fst (start_bandwidth_measurement now st)) \<and>
   length (request_enc (fst (start_bandwidth_measurement now st))) \<le> max_payload_size + 8"
  "request_ok (stop_bandwidth_measurement st) \<and>
   length (request_enc (stop_bandwidth_measurement st)) \<le> max_payload_size + 8"
  by (auto simp: poll_rtt_request_def start_bandwidth_measurement_def stop_bandwidth_measurement_def ad_op_defs
      request_ok_def ad_header_enc_def bw_stop_continuous_def bw_stop_connect_time_def split: option.splits if_splits)

section \<open>Any sequence of calls\<close>

datatype ad_op = AdStartConnectTime int | AdResult | AdPoll int | AdStartBandwidth int | AdStopBandwidth | AdResponse ad_response int

fun ad_step :: "autodetect \<Rightarrow> ad_op \<Rightarrow> ad_request list \<times> autodetect" where
  "ad_step st (AdStartConnectTime now) = start_connect_time now st"
| "ad_step st AdResult = (case network_characteristics_result st of (r, st) \<Rightarrow>
     (map NetworkCharacteristicsResult (case r of None \<Rightarrow> [] | Some result \<Rightarrow> [result]), st))"
| "ad_step st (AdPoll now) = (case poll_rtt_request now st of (r, st) \<Rightarrow> (case r of None \<Rightarrow> [] | Some q \<Rightarrow> [q], st))"
| "ad_step st (AdStartBandwidth now) = (case start_bandwidth_measurement now st of (q, st) \<Rightarrow> ([q], st))"
| "ad_step st AdStopBandwidth = ([stop_bandwidth_measurement st], st)"
| "ad_step st (AdResponse response now) = ([], on_response response now st)"

lemma ad_step_inv: "ad_inv st \<Longrightarrow> ad_inv (snd (ad_step st op))"
  by (cases op) (simp_all add: ad_inv_ops ad_inv_response case_prod_beta)

interpretation ad_machine: machine ad_step ad_inv "ad_new config" for config
  by unfold_locales (auto intro: ad_inv_new ad_step_inv)

lemma ad_step_requests_ok: "list_all request_ok (fst (ad_step st op))"
proof (cases op)
  case (AdStartConnectTime now)
  then show ?thesis using start_connect_time_requests_ok by (auto simp: list_all_iff)
next
  case AdResult
  then show ?thesis using netchar_result_ok [of st] by (auto simp: case_prod_beta split: option.split)
next
  case (AdPoll now)
  then show ?thesis using continuous_requests_ok(1) [of now st] by (auto simp: case_prod_beta split: option.split)
qed (simp_all add: case_prod_beta continuous_requests_ok)

text \<open>
  The clock a caller passes does not run backwards. Then no probe was sent after the last call, so the time a probe
  has gone unanswered is never negative.
\<close>

fun op_times :: "ad_op \<Rightarrow> int list" where
  "op_times (AdStartConnectTime now) = [now]"
| "op_times (AdPoll now) = [now]"
| "op_times (AdStartBandwidth now) = [now]"
| "op_times (AdResponse response now) = [now]"
| "op_times _ = []"

definition ad_timed :: "int \<Rightarrow> autodetect \<Rightarrow> bool" where
  "ad_timed now st \<longleftrightarrow> (\<forall>p \<in> set (ad_probes st). pr_sent p \<le> now) \<and> 0 \<le> ne_unanswered (ad_estimate st)"

lemma ad_timed_later: "ad_timed t st \<Longrightarrow> t \<le> t' \<Longrightarrow> ad_timed t' st"
  by (auto simp: ad_timed_def)

lemma ad_timed_fewer:
  "ad_timed now st \<Longrightarrow> set (ad_probes st') \<subseteq> set (ad_probes st) \<Longrightarrow>
   ne_unanswered (ad_estimate st') = ne_unanswered (ad_estimate st) \<Longrightarrow> ad_timed now st'"
  by (auto simp: ad_timed_def)

lemma drop_expired_subset: "set (fst (drop_expired now timeout ps lost)) \<subseteq> set ps"
  by (induction now timeout ps lost rule: drop_expired.induct) auto

lemma ad_timed_expire:
  assumes "\<forall>p \<in> set (ad_probes st). pr_sent p \<le> now"
  shows "ad_timed now (expire_probes now st)"
proof -
  let ?ps = "fst (drop_expired now (ac_rtt_timeout (ad_config st)) (ad_probes st) (ad_probes_lost st))"
  have "\<forall>p \<in> set ?ps. pr_sent p \<le> now" using assms drop_expired_subset by blast
  then show ?thesis
    by (auto simp: ad_timed_def expire_probes_def Let_def case_prod_beta split: list.split)
qed

lemma ad_timed_samples:
  "ad_probes (add_rtt_sample sample st) = ad_probes st" "ad_probes (add_bandwidth_sample kbps now st) = ad_probes st"
  "ne_unanswered (ad_estimate (add_rtt_sample sample st)) = ne_unanswered (ad_estimate st)"
  "ne_unanswered (ad_estimate (add_bandwidth_sample kbps now st)) = ne_unanswered (ad_estimate st)"
  by (simp_all add: add_rtt_sample_def add_bandwidth_sample_def Let_def split: option.split)

lemma ad_timed_response:
  assumes "ad_timed now st"
  shows "ad_timed now (on_response response now st)"
proof (cases response)
  case (RttResponse seq)
  show ?thesis
  proof (cases "dropWhile (\<lambda>p. pr_sequence p \<noteq> seq) (ad_probes st)")
    case (Cons found newer)
    then have "set newer \<subseteq> set (ad_probes st)" by (metis set_dropWhileD set_subset_Cons subset_eq)
    then have "\<forall>p \<in> set newer. pr_sent p \<le> now" using assms by (auto simp: ad_timed_def)
    then show ?thesis
      using RttResponse Cons by (auto simp: on_rtt_response_def Let_def intro: ad_timed_expire)
  next
    case Nil
    show ?thesis using RttResponse assms unfolding RttResponse on_response.simps on_rtt_response_def Nil by simp
  qed
next
  case (BandwidthResults seq type delta count)
  then show ?thesis using assms by (auto simp: on_bandwidth_results_def Let_def ad_timed_def ad_timed_samples)
next
  case (NetworkCharacteristicsSync seq bw rtt)
  then show ?thesis using assms by (auto simp: Let_def ad_timed_def ad_timed_samples)
qed

lemma ad_timed_step:
  assumes "ad_timed t st" "sorted (t # op_times op)"
  shows "ad_timed (last (t # op_times op)) (snd (ad_step st op))"
proof (cases op)
  case (AdStartConnectTime now)
  then have "ad_timed now st" using assms by (auto intro: ad_timed_later)
  with AdStartConnectTime show ?thesis by (auto simp: start_connect_time_def ad_op_defs ad_timed_def)
next
  case AdResult
  then show ?thesis
    using assms(1) by (auto simp: network_characteristics_result_def ad_op_defs elim!: ad_timed_fewer)
next
  case (AdPoll now)
  then have "ad_timed now st" using assms by (auto intro: ad_timed_later)
  then have "ad_timed now (expire_probes now st)" by (intro ad_timed_expire) (simp add: ad_timed_def)
  with AdPoll show ?thesis
    by (auto simp: poll_rtt_request_def ad_op_defs ad_timed_def split: option.split)
next
  case (AdStartBandwidth now)
  then have "ad_timed now st" using assms by (auto intro: ad_timed_later)
  with AdStartBandwidth show ?thesis by (auto simp: start_bandwidth_measurement_def ad_op_defs elim!: ad_timed_fewer)
next
  case (AdResponse response now)
  then have "ad_timed now st" using assms by (auto intro: ad_timed_later)
  with AdResponse show ?thesis by (simp add: ad_timed_response)
qed (use assms in simp)

lemma sorted_last_Cons: "sorted (t # xs @ ys) \<Longrightarrow> sorted (last (t # xs) # ys)"
  by (induction xs arbitrary: t) auto

lemma ad_timed_run:
  assumes "ad_timed t st" "sorted (t # concat (map op_times ops))"
  shows "\<exists>t'. ad_timed t' (snd (run ad_step st ops))"
  using assms
proof (induction ops arbitrary: t st)
  case (Cons op ops)
  let ?t = "last (t # op_times op)"
  have all: "sorted (t # op_times op @ concat (map op_times ops))" using Cons.prems(2) by simp
  then have "sorted (?t # concat (map op_times ops))" by (rule sorted_last_Cons)
  moreover have "sorted (t # op_times op)" using all by (simp add: sorted_append)
  ultimately show ?case
    using Cons.IH [OF ad_timed_step [OF Cons.prems(1)]] by (simp add: case_prod_beta Let_def)
qed auto

lemma unanswered_run:
  assumes "sorted (concat (map op_times ops))"
  shows "0 \<le> ne_unanswered (ad_estimate (snd (run ad_step (ad_new config) ops)))"
proof -
  have "\<exists>t. sorted (t # ts)" if "sorted ts" for ts :: "int list"
    using that by (cases ts) (auto intro: exI [of _ "hd ts"])
  then obtain t where "sorted (t # concat (map op_times ops))" using assms by blast
  moreover have "ad_timed t (ad_new config)" by (simp add: ad_timed_def ad_new_def no_estimate_def)
  ultimately show ?thesis using ad_timed_run unfolding ad_timed_def by blast
qed

section \<open>Properties\<close>

text \<open>
  C26: After any sequence of calls, in any order and at any times, everything the detection asked to send fits its
  message, and the estimate says what it should: the base round trip is the least of the recent samples, at most as many
  as the window, the last one is the newest of them, and no round trip (sampled, base, last or smoothed) and no jitter is
  negative; and if the times passed do not run backwards, neither is the time a probe has gone unanswered.
\<close>

theorem autodetect_estimates:
  "case run ad_step (ad_new config) ops of (qs, st) \<Rightarrow>
     let e = ad_estimate st; recent = ad_recent_rtt st in
     list_all (list_all request_ok) qs \<and>
     length recent \<le> ac_base_rtt_window (ad_config st) \<and>
     ne_base_rtt e = (if recent = [] then None else Some (Min (set recent))) \<and>
     ne_last_rtt e = (if recent = [] then None else Some (last recent)) \<and>
     list_all (\<lambda>rtt. 0 \<le> rtt) recent \<and> pred_option (\<lambda>rtt. 0 \<le> rtt) (ne_base_rtt e) \<and> pred_option (\<lambda>rtt. 0 \<le> rtt) (ne_last_rtt e) \<and>
     pred_option (\<lambda>rtt. 0 \<le> rtt) (ne_rtt e) \<and> 0 \<le> ne_jitter e \<and>
     (sorted (concat (map op_times ops)) \<longrightarrow> 0 \<le> ne_unanswered e)"
proof -
  let ?st = "snd (run ad_step (ad_new config) ops)"
  have inv: "ad_inv ?st" by (rule ad_machine.inv_run)
  moreover have "list_all (list_all request_ok) (fst (run ad_step (ad_new config) ops))"
    by (rule ad_machine.outputs_run_from) (simp_all add: ad_step_requests_ok ad_inv_new)
  moreover have "0 \<le> Min (set (ad_recent_rtt ?st))" "0 \<le> last (ad_recent_rtt ?st)" if "ad_recent_rtt ?st \<noteq> []"
    using inv that by (auto simp: ad_inv_def Let_def list_all_iff)
  ultimately show ?thesis using unanswered_run [of ops config] by (simp add: case_prod_beta Let_def ad_inv_def)
qed

theorem autodetect_estimates_witness:
  "0 \<le> ne_unanswered (ad_estimate (snd (run ad_step (ad_new \<lparr>ac_rtt_interval = 1000000000, ac_rtt_timeout = 5000000000,
     ac_max_unanswered_probes = 5, ac_base_rtt_window = 120, ac_connect_time_bytes = 65536, ac_connect_time_timeout = 2000000000,
     ac_bandwidth_interval = 2000000000, ac_min_burst_bytes = 32768\<rparr>)
     [AdPoll 0, AdResponse (RttResponse 1) 20000000, AdPoll 1000000000, AdPoll 1500000000])))"
proof -
  have "sorted (concat (map op_times [AdPoll 0, AdResponse (RttResponse 1) 20000000, AdPoll 1000000000, AdPoll 1500000000]))" by simp
  then show ?thesis
    using autodetect_estimates [where config = "\<lparr>ac_rtt_interval = 1000000000, ac_rtt_timeout = 5000000000,
     ac_max_unanswered_probes = 5, ac_base_rtt_window = 120, ac_connect_time_bytes = 65536, ac_connect_time_timeout = 2000000000,
     ac_bandwidth_interval = 2000000000, ac_min_burst_bytes = 32768\<rparr>"
     and ops = "[AdPoll 0, AdResponse (RttResponse 1) 20000000, AdPoll 1000000000, AdPoll 1500000000]"]
    unfolding Let_def case_prod_beta by blast
qed

text \<open>
  C27: A client that answers the connect-time requests is measured: the answers to the round trip probe and to the
  burst, with the sequence numbers the requests carried, complete the detection, and the estimate is the time the probe
  took and the burst's bits over its milliseconds (a burst of under a millisecond counts as one, the rate saturates).
\<close>

theorem connect_time_detects:
  "let (qs, st1) = start_connect_time t0 (ad_new config);
       st2 = on_response (RttResponse 1) t1 st1;
       st3 = on_response (BandwidthResults 2 bw_results_connect_time delta count) t2 st2
   in qs = RttRequest 1 rtt_connect_time # BandwidthStart 2 bw_start_connect_time #
        payload_requests 2 (make_payload (max (ac_connect_time_bytes config) 1)) \<and>
      connect_time_complete t st3 \<and>
      ne_rtt (ad_estimate st3) = Some (max (t1 - t0) 0) \<and>
      ne_bandwidth_kbps (ad_estimate st3) = Some (of_nat (min (unat count * 8 div max (unat delta) 1) 0xFFFFFFFF))"
proof -
  define kbps where "kbps = (ucast count * 8 :: u64) div ucast (max delta 1)"
  have "unat count < 4294967296" using unsigned_less [of count] by simp
  then have "unat count * 8 mod 18446744073709551616 = unat count * 8" by (intro mod_less) linarith
  then have "unat (ucast count * 8 :: u64) = unat count * 8"
    by (simp add: unat_word_ariths unat_ucast_le)
  moreover have "unat (max delta 1) = max (unat delta) 1"
    by (simp add: max_def word_le_nat_alt)
  ultimately have kbps: "unat kbps = unat count * 8 div max (unat delta) 1"
    by (simp add: kbps_def unat_div_distrib unat_ucast_le)
  have "ucast (min kbps 0xFFFFFFFF) = (of_nat (min (unat kbps) 0xFFFFFFFF) :: u32)"
    by (simp add: min_def word_le_nat_alt of_nat_unat_ucast)
  then show ?thesis
    by (simp add: start_connect_time_def ad_op_defs on_rtt_response_def on_bandwidth_results_def ad_new_def no_estimate_def
        add_rtt_sample_def add_bandwidth_sample_def expire_probes_def connect_time_complete_def kbps
        kbps_def [symmetric])
qed

end
