(* ===== verification/X224.thy ===== *)
theory X224
  imports Framing
begin

text \<open>
  \<open>proto/x224.cpp\<close>: TPKT framing and the X.224 TPDUs of the RDP connection: Connection Request
  (with the mstshash cookie or a routing token, RDP_NEG_REQ and the correlation block),
  Connection Confirm, and the Data TPDU header around everything else.
\<close>

section \<open>Model\<close>

definition tpkt_version :: byte where "tpkt_version = 3"
definition x224_class_0 :: byte where "x224_class_0 = 0"
definition data_eot :: byte where "data_eot = 0x80"
definition fixed_cr_cc_header :: nat where "fixed_cr_cc_header = 6"
definition server_src_ref :: u16 where "server_src_ref = 0x1234"
definition type_rdp_neg_req :: byte where "type_rdp_neg_req = 0x01"
definition type_rdp_neg_rsp :: byte where "type_rdp_neg_rsp = 0x02"
definition type_rdp_neg_failure :: byte where "type_rdp_neg_failure = 0x03"
definition type_rdp_correlation_info :: byte where "type_rdp_correlation_info = 0x06"
definition neg_structure_length :: u16 where "neg_structure_length = 8"
definition correlation_info_length :: u16 where "correlation_info_length = 36"
definition correlation_info_present :: byte where "correlation_info_present = 0x08"

definition bytes_of_string :: "string \<Rightarrow> bytes" where
  "bytes_of_string s = map of_char s"

definition cookie_prefix :: bytes where
  "cookie_prefix = bytes_of_string ''Cookie: mstshash=''"

datatype tpdu_code = TpduConnectionRequest | TpduConnectionConfirm | TpduDisconnectRequest | TpduData

fun tpdu_code_byte :: "tpdu_code \<Rightarrow> byte" where
  "tpdu_code_byte TpduConnectionRequest = 0xE0"
| "tpdu_code_byte TpduConnectionConfirm = 0xD0"
| "tpdu_code_byte TpduDisconnectRequest = 0x80"
| "tpdu_code_byte TpduData = 0xF0"

record negotiation_request =
  nr_flags :: byte
  nr_requested_protocols :: u32

record connection_request =
  cr_cookie :: bytes
  cr_routing_token :: bytes
  cr_negotiation :: "negotiation_request option"
  cr_correlation_id :: "bytes option"

text \<open>
  The variant of \<open>ConnectionConfirm\<close>: nothing, a response (flags, selected protocol) or a
  failure code. The code is cast from the wire without a check, so it is any 32-bit value.
\<close>

datatype confirm_result = ConfirmNone | ConfirmResponse byte u32 | ConfirmFailure u32

fun find_crlf :: "bytes \<Rightarrow> nat option" where
  "find_crlf (a # b # ds) = (if a = 0x0D \<and> b = 0x0A then Some 0 else map_option Suc (find_crlf (b # ds)))"
| "find_crlf _ = None"

definition bytes_start_with :: "bytes \<Rightarrow> bytes \<Rightarrow> bool" where
  "bytes_start_with bs p \<longleftrightarrow> length bs \<ge> length p \<and> take (length p) bs = p"

definition read_cr_cc_header :: "tpdu_code \<Rightarrow> reader parser" where
  "read_cr_cc_header expected = pget rd_offset (\<lambda>start. ptry rd_u8 (\<lambda>li. pget rd_remaining (\<lambda>remaining.
     if unat li < fixed_cr_cc_header \<or> unat li \<noteq> remaining
     then pfail InvalidLength ''X.224 length indicator does not match the TPDU'' start
     else ptry rd_u8 (\<lambda>code.
       if code \<noteq> tpdu_code_byte expected
       then pfail InvalidValue ''unexpected X.224 TPDU code'' (start + 1)
       else ptry (rd_skip 4) (\<lambda>_. ptry rd_u8 (\<lambda>cls.
         if cls \<noteq> x224_class_0 then pfail Unsupported ''X.224 class other than 0'' (start + 6)
         else pget rd_remaining rd_sub))))))"

definition write_cr_cc_header :: "tpdu_code \<Rightarrow> nat \<Rightarrow> u16 \<Rightarrow> writer \<Rightarrow> writer option" where
  "write_cr_cc_header code variable_length src_ref w = do {
     wassert (fixed_cr_cc_header + variable_length \<le> 0xFE);
     let w = w_u8 (of_nat (fixed_cr_cc_header + variable_length)) w;
     let w = w_u8 (tpdu_code_byte code) w;
     let w = w_u16be 0 w;
     let w = w_u16be src_ref w;
     Some (w_u8 x224_class_0 w)
   }"

definition begin_tpkt :: "writer \<Rightarrow> nat \<times> writer" where
  "begin_tpkt w = (length w, w_u16be 0 (w_u8 0 (w_u8 tpkt_version w)))"

definition end_tpkt :: "nat \<Rightarrow> writer \<Rightarrow> writer option" where
  "end_tpkt start w = do {
     let n = length w - start;
     wassert (tpkt_header_size \<le> n \<and> n \<le> max_tpkt_size);
     w_patch_u16be (start + 2) (of_nat n) w
   }"

definition read_tpkt :: "reader parser" where
  "read_tpkt = pget rd_offset (\<lambda>start. ptry rd_u8 (\<lambda>version.
     if version \<noteq> tpkt_version then pfail InvalidValue ''TPKT version is not 3'' start
     else ptry (rd_skip 1) (\<lambda>_. ptry rd_u16be (\<lambda>n.
       if unat n < tpkt_header_size + 3
       then pfail InvalidLength ''TPKT shorter than the smallest X.224 TPDU'' start
       else rd_sub (unat n - tpkt_header_size)))))"

definition peek_tpdu_code :: "reader \<Rightarrow> tpdu_code result" where
  "peek_tpdu_code tpdu = fst (ptry (rd_skip 1) (\<lambda>_. ptry rd_u8 (\<lambda>code.
     let c = code AND 0xF0 in
     if c = tpdu_code_byte TpduConnectionRequest then pret TpduConnectionRequest
     else if c = tpdu_code_byte TpduConnectionConfirm then pret TpduConnectionConfirm
     else if c = tpdu_code_byte TpduDisconnectRequest then pret TpduDisconnectRequest
     else if c = tpdu_code_byte TpduData then pret TpduData
     else pfail Unsupported ''unknown X.224 TPDU code'' (rd_offset tpdu + 1))) tpdu)"

text \<open>The optional cookie or routing token in front of RDP_NEG_REQ.\<close>

definition read_cr_token :: "(bytes \<times> bytes) parser" where
  "read_cr_token = pget rd_empty (\<lambda>empty.
     if empty then pret ([], [])
     else ptry rd_peek_u8 (\<lambda>b.
       if b = type_rdp_neg_req then pret ([], [])
       else pget rd_rest (\<lambda>rest. pget rd_offset (\<lambda>off. case find_crlf rest of
           None \<Rightarrow> pfail InvalidValue ''X.224 cookie is not terminated by CRLF'' off
         | Some n \<Rightarrow> let token = take n rest in
             ptry (rd_skip (n + 2)) (\<lambda>_. pret
               (if bytes_start_with token cookie_prefix
                then (drop (length cookie_prefix) token, []) else ([], token)))))))"

definition read_correlation_info :: "bytes parser" where
  "read_correlation_info = pget rd_offset (\<lambda>info_start. ptry rd_u8 (\<lambda>info_type.
     ptry (rd_skip 1) (\<lambda>_. ptry rd_u16le (\<lambda>info_length.
       if info_type \<noteq> type_rdp_correlation_info \<or> info_length \<noteq> correlation_info_length
       then pfail InvalidValue ''malformed RDP_NEG_CORRELATION_INFO'' info_start
       else ptry (rd_bytes 16) (\<lambda>ident. ptry (rd_skip 16) (\<lambda>_. pret ident))))))"

definition read_cr_negotiation :: "(negotiation_request option \<times> bytes option) parser" where
  "read_cr_negotiation = pget rd_empty (\<lambda>empty.
     if empty then pret (None, None)
     else pget rd_offset (\<lambda>start. ptry rd_u8 (\<lambda>type.
       if type \<noteq> type_rdp_neg_req then pfail InvalidValue ''expected RDP_NEG_REQ'' start
       else ptry rd_u8 (\<lambda>flags. ptry rd_u16le (\<lambda>n.
         if n \<noteq> neg_structure_length
         then pfail InvalidLength ''RDP_NEG_REQ length is not 8'' (start + 2)
         else ptry rd_u32le (\<lambda>requested.
           let neg = Some \<lparr>nr_flags = flags, nr_requested_protocols = requested\<rparr> in
           if flags AND correlation_info_present \<noteq> 0
           then ptry read_correlation_info (\<lambda>ident. pret (neg, Some ident))
           else pret (neg, None)))))))"

definition decode_connection_request :: "connection_request parser" where
  "decode_connection_request = ptry (read_cr_cc_header TpduConnectionRequest) (\<lambda>variable. pwith variable (
     ptry read_cr_token (\<lambda>(cookie, token).
     ptry read_cr_negotiation (\<lambda>(neg, corr).
     ptry (rd_expect_end ''X.224 Connection Request'') (\<lambda>_.
       pret \<lparr>cr_cookie = cookie, cr_routing_token = token, cr_negotiation = neg, cr_correlation_id = corr\<rparr>)))))"

definition cr_variable :: "connection_request \<Rightarrow> writer" where
  "cr_variable request =
     (let v = (if cr_cookie request \<noteq> [] then w_bytes [0x0D, 0x0A] (w_bytes (cr_cookie request) (w_bytes cookie_prefix []))
               else if cr_routing_token request \<noteq> [] then w_bytes [0x0D, 0x0A] (w_bytes (cr_routing_token request) [])
               else [])
      in case cr_negotiation request of
           None \<Rightarrow> v
         | Some neg \<Rightarrow>
             let correlation = (cr_correlation_id request \<noteq> None);
                 v = w_u8 type_rdp_neg_req v;
                 v = w_u8 (nr_flags neg OR (if correlation then correlation_info_present else 0)) v;
                 v = w_u16le neg_structure_length v;
                 v = w_u32le (nr_requested_protocols neg) v
             in case cr_correlation_id request of
                  None \<Rightarrow> v
                | Some ident \<Rightarrow>
                    w_zeros 16 (w_bytes ident (w_u16le correlation_info_length
                      (w_u8 0 (w_u8 type_rdp_correlation_info v)))))"

definition encode_connection_request :: "connection_request \<Rightarrow> writer \<Rightarrow> writer option" where
  "encode_connection_request request w = do {
     let variable = cr_variable request;
     let (start, w) = begin_tpkt w;
     w \<leftarrow> write_cr_cc_header TpduConnectionRequest (length variable) 0 w;
     end_tpkt start (w_bytes variable w)
   }"

definition decode_connection_confirm :: "confirm_result parser" where
  "decode_connection_confirm = ptry (read_cr_cc_header TpduConnectionConfirm) (\<lambda>variable. pwith variable (
     pget rd_empty (\<lambda>empty. if empty then pret ConfirmNone
     else pget rd_offset (\<lambda>start. ptry rd_u8 (\<lambda>type. ptry rd_u8 (\<lambda>flags. ptry rd_u16le (\<lambda>n.
       if n \<noteq> neg_structure_length
       then pfail InvalidLength ''RDP_NEG_RSP length is not 8'' (start + 2)
       else ptry rd_u32le (\<lambda>v. ptry
         (if type = type_rdp_neg_rsp then pret (ConfirmResponse flags v)
          else if type = type_rdp_neg_failure then pret (ConfirmFailure v)
          else pfail InvalidValue ''expected RDP_NEG_RSP or RDP_NEG_FAILURE'' start) (\<lambda>confirm.
         ptry (rd_expect_end ''X.224 Connection Confirm'') (\<lambda>_. pret confirm))))))))))"

definition encode_connection_confirm :: "confirm_result \<Rightarrow> writer \<Rightarrow> writer option" where
  "encode_connection_confirm confirm w = do {
     let (start, w) = begin_tpkt w;
     w \<leftarrow> write_cr_cc_header TpduConnectionConfirm (if confirm \<noteq> ConfirmNone then unat neg_structure_length else 0)
        server_src_ref w;
     let w = (case confirm of
         ConfirmNone \<Rightarrow> w
       | ConfirmResponse flags selected \<Rightarrow>
           w_u32le selected (w_u16le neg_structure_length (w_u8 flags (w_u8 type_rdp_neg_rsp w)))
       | ConfirmFailure code \<Rightarrow>
           w_u32le code (w_u16le neg_structure_length (w_u8 0 (w_u8 type_rdp_neg_failure w))));
     end_tpkt start w
   }"

definition decode_data_tpdu :: "reader parser" where
  "decode_data_tpdu = pget rd_offset (\<lambda>start. ptry rd_u8 (\<lambda>li. ptry rd_u8 (\<lambda>code. ptry rd_u8 (\<lambda>eot.
     if li \<noteq> 2 \<or> code \<noteq> tpdu_code_byte TpduData \<or> eot \<noteq> data_eot
     then pfail InvalidValue ''malformed X.224 Data TPDU header'' start
     else pget rd_remaining rd_sub))))"

definition begin_data_tpdu :: "writer \<Rightarrow> nat \<times> writer" where
  "begin_data_tpdu w =
     (let (start, w) = begin_tpkt w
      in (start, w_u8 data_eot (w_u8 (tpdu_code_byte TpduData) (w_u8 2 w))))"

section \<open>TPKT\<close>

lemmas x224_consts = tpkt_version_def x224_class_0_def data_eot_def fixed_cr_cc_header_def type_rdp_neg_req_def
  type_rdp_neg_rsp_def type_rdp_neg_failure_def type_rdp_correlation_info_def neg_structure_length_def
  correlation_info_length_def tpkt_header_size_def max_tpkt_size_def

definition tpkt_enc :: "bytes \<Rightarrow> bytes" where
  "tpkt_enc body = 3 # 0 # be_bytes 2 (of_nat (4 + length body) :: u16) @ body"

lemma length_tpkt_enc [simp]: "length (tpkt_enc body) = 4 + length body"
  by (simp add: tpkt_enc_def)

lemma tpkt_written:
  assumes "4 + length body \<le> max_tpkt_size"
  shows "end_tpkt (fst (begin_tpkt w)) (snd (begin_tpkt w) @ body) = Some (w @ tpkt_enc body)"
proof -
  have "w_patch_be 2 (length w + 2) (of_nat (4 + length body) :: u16) (w @ [3, 0] @ be_bytes 2 (0 :: u16) @ body) =
      Some (take (length w + 2) (w @ [3, 0] @ be_bytes 2 (0 :: u16) @ body) @ be_bytes 2 (of_nat (4 + length body) :: u16)
        @ drop (length w + 2 + 2) (w @ [3, 0] @ be_bytes 2 (0 :: u16) @ body))"
    by (rule w_patch_be_eq) simp
  with assms show ?thesis
    by (simp add: end_tpkt_def begin_tpkt_def w_patch_u16be_def x224_consts wr_simps tpkt_enc_def Let_def
        numeral_2_eq_2)
qed

lemma u16_of_nat: "n < 65536 \<Longrightarrow> unat (of_nat n :: u16) = n"
  by (simp add: unsigned_of_nat take_bit_nat_eq_self)

lemma byte_of_nat: "n < 256 \<Longrightarrow> unat (of_nat n :: byte) = n"
  by (simp add: unsigned_of_nat take_bit_nat_eq_self)

lemma read_tpkt_enc [rd_simps]:
  assumes "rd_rest r = tpkt_enc body @ ys" "3 \<le> length body" "4 + length body \<le> max_tpkt_size"
  shows "read_tpkt r = (Inr (mk_reader body (rd_offset r + 4)), rd_advance (4 + length body) r)"
proof -
  have "unat (of_nat (4 + length body) :: u16) = 4 + length body"
    using assms(3) by (intro u16_of_nat) (simp add: max_tpkt_size_def)
  with assms show ?thesis
    by (simp add: read_tpkt_def tpkt_enc_def rd_simps x224_consts del: of_nat_add)
qed

lemma nat_be16: "n < 65536 \<Longrightarrow> push_bit 8 (unat (ucast (drop_bit 8 (of_nat n :: u16)) :: byte)) OR
    unat (ucast (of_nat n :: u16) :: byte) = n"
  by (simp add: nat_or_256 unsigned_ucast_eq unat_drop_bit_eq unsigned_of_nat take_bit_eq_mod drop_bit_eq_div
      unat_div_distrib)

lemma peek_frame_tpkt [simp]:
  assumes "3 \<le> length body" "4 + length body \<le> max_tpkt_size"
  shows "peek_frame (tpkt_enc body @ ys) = Inr (Some \<lparr>fi_kind = FrameTpkt, fi_length = 4 + length body\<rparr>)"
  using assms nat_be16 [of "4 + length body"] unfolding tpkt_enc_def be_bytes_2
  by (simp add: peek_frame_def Let_def x224_consts numeral_2_eq_2 numeral_3_eq_3 del: of_nat_add)

section \<open>Connection Request and Confirm\<close>

definition cr_cc_enc :: "tpdu_code \<Rightarrow> u16 \<Rightarrow> bytes \<Rightarrow> bytes" where
  "cr_cc_enc code src variable =
     [of_nat (6 + length variable), tpdu_code_byte code] @ be_bytes 2 (0 :: u16) @ be_bytes 2 src @ 0 # variable"

lemma length_cr_cc_enc [simp]: "length (cr_cc_enc code src variable) = 7 + length variable"
  by (simp add: cr_cc_enc_def)

lemma write_cr_cc_header_enc:
  "length variable \<le> 248 \<Longrightarrow>
   map_option (\<lambda>w. w @ variable) (write_cr_cc_header code (length variable) src w) = Some (w @ cr_cc_enc code src variable)"
  by (simp add: write_cr_cc_header_def cr_cc_enc_def x224_consts wr_simps Let_def wassert_def)

lemma read_cr_cc_header_enc:
  assumes "rd_rest r = cr_cc_enc code src variable" "length variable \<le> 248"
  shows "read_cr_cc_header code r =
    (Inr (mk_reader variable (rd_offset r + 7)), rd_advance (7 + length variable) r)"
proof -
  have "unat (of_nat (6 + length variable) :: byte) = 6 + length variable"
    using assms(2) by (intro byte_of_nat) simp
  with assms show ?thesis
    by (simp add: read_cr_cc_header_def cr_cc_enc_def rd_simps x224_consts rd_remaining_rest del: of_nat_add)
qed

lemma peek_tpdu_code_enc [simp]:
  "rd_rest r = cr_cc_enc code src variable \<Longrightarrow> peek_tpdu_code r = Inr code"
  by (cases code) (simp_all add: peek_tpdu_code_def cr_cc_enc_def rd_simps)

lemma find_crlf_end: "find_crlf tok = None \<Longrightarrow> find_crlf (tok @ 0x0D # 0x0A # ys) = Some (length tok)"
  by (induction tok rule: find_crlf.induct) (auto split: if_splits)

text \<open>
  What a request must satisfy to survive the wire: cookie and token are not both present and hold
  no line end, a token cannot be mistaken for a cookie or for RDP_NEG_REQ, and the correlation
  block is announced by its flag exactly when it is there.
\<close>

definition cr_ok :: "connection_request \<Rightarrow> bool" where
  "cr_ok req \<longleftrightarrow>
     (cr_cookie req = [] \<or> cr_routing_token req = []) \<and>
     find_crlf (cookie_prefix @ cr_cookie req) = None \<and>
     find_crlf (cr_routing_token req) = None \<and>
     (cr_routing_token req \<noteq> [] \<longrightarrow> hd (cr_routing_token req) \<noteq> type_rdp_neg_req \<and>
        \<not> bytes_start_with (cr_routing_token req) cookie_prefix) \<and>
     (case cr_negotiation req of
        None \<Rightarrow> cr_correlation_id req = None
      | Some neg \<Rightarrow> (nr_flags neg AND correlation_info_present \<noteq> 0) = (cr_correlation_id req \<noteq> None)) \<and>
     (case cr_correlation_id req of None \<Rightarrow> True | Some ident \<Rightarrow> length ident = 16) \<and>
     length (cr_variable req) \<le> 248"

definition cr_token_enc :: "connection_request \<Rightarrow> bytes" where
  "cr_token_enc req =
     (if cr_cookie req \<noteq> [] then cookie_prefix @ cr_cookie req @ [0x0D, 0x0A]
      else if cr_routing_token req \<noteq> [] then cr_routing_token req @ [0x0D, 0x0A] else [])"

definition cr_negotiation_enc :: "connection_request \<Rightarrow> bytes" where
  "cr_negotiation_enc req = (case cr_negotiation req of None \<Rightarrow> []
     | Some neg \<Rightarrow> type_rdp_neg_req # nr_flags neg # le_bytes 2 neg_structure_length @
         le_bytes 4 (nr_requested_protocols neg) @
         (case cr_correlation_id req of None \<Rightarrow> []
          | Some ident \<Rightarrow> type_rdp_correlation_info # 0 # le_bytes 2 correlation_info_length @ ident @ replicate 16 0))"

lemma or_flag: "flags AND correlation_info_present \<noteq> 0 \<Longrightarrow> flags OR correlation_info_present = flags"
proof -
  assume "flags AND correlation_info_present \<noteq> 0"
  then have "bit flags 3"
    using and_exp_eq_0_iff_not_bit [of flags 3] by (simp add: correlation_info_present_def)
  then have "bit (flags OR 2 ^ 3) k = bit flags k" for k
    unfolding bit_or_iff bit_exp_iff by blast
  then show ?thesis
    unfolding correlation_info_present_def by (intro bit_eqI) simp
qed

lemma cr_variable_enc:
  assumes "cr_ok req"
  shows "cr_variable req = cr_token_enc req @ cr_negotiation_enc req"
proof (cases "cr_negotiation req")
  case None
  then show ?thesis
    by (simp add: cr_variable_def cr_token_enc_def cr_negotiation_enc_def wr_simps)
next
  case (Some neg)
  with assms have "(nr_flags neg AND correlation_info_present \<noteq> 0) = (cr_correlation_id req \<noteq> None)"
    unfolding cr_ok_def by (elim conjE) (simp only: option.case)
  then have "nr_flags neg OR (if cr_correlation_id req \<noteq> None then correlation_info_present else 0) = nr_flags neg"
    by (simp add: or_flag)
  with Some show ?thesis
    by (cases "cr_correlation_id req")
      (simp_all add: cr_variable_def cr_token_enc_def cr_negotiation_enc_def wr_simps Let_def)
qed

definition cr_enc :: "connection_request \<Rightarrow> bytes" where
  "cr_enc req = tpkt_enc (cr_cc_enc TpduConnectionRequest 0 (cr_variable req))"

lemma encode_connection_request_enc:
  assumes "cr_ok req"
  shows "encode_connection_request req w = Some (w @ cr_enc req)"
proof -
  have len: "length (cr_variable req) \<le> 248"
    using assms unfolding cr_ok_def by blast
  then show ?thesis
    using tpkt_written [of "cr_cc_enc TpduConnectionRequest 0 (cr_variable req)" w]
      write_cr_cc_header_enc [of "cr_variable req" TpduConnectionRequest 0 "snd (begin_tpkt w)"]
    by (auto simp: encode_connection_request_def cr_enc_def Let_def case_prod_beta wr_simps max_tpkt_size_def
        split: bind_splits)
qed

lemma read_cr_token_enc:
  assumes "cr_ok req" "rd_wf r" "rd_rest r = cr_token_enc req @ cr_negotiation_enc req"
  shows "read_cr_token r = (Inr (cr_cookie req, cr_routing_token req), rd_advance (length (cr_token_enc req)) r)"
proof -
  have ok: "cr_cookie req = [] \<or> cr_routing_token req = []" "find_crlf (cookie_prefix @ cr_cookie req) = None"
    "find_crlf (cr_routing_token req) = None"
    "cr_routing_token req \<noteq> [] \<Longrightarrow> hd (cr_routing_token req) \<noteq> type_rdp_neg_req"
    "cr_routing_token req \<noteq> [] \<Longrightarrow> \<not> bytes_start_with (cr_routing_token req) cookie_prefix"
    using assms(1) unfolding cr_ok_def by blast+
  consider (cookie) "cr_cookie req \<noteq> []" | (token) "cr_cookie req = []" "cr_routing_token req \<noteq> []"
    | (none) "cr_cookie req = []" "cr_routing_token req = []" by blast
  then show ?thesis
  proof cases
    case cookie
    obtain c cs where c: "cookie_prefix = c # cs" "c \<noteq> type_rdp_neg_req"
      by (simp add: cookie_prefix_def bytes_of_string_def type_rdp_neg_req_def)
    then have "rd_peek_u8 r = (Inr c, r)"
      using cookie assms(3) unfolding cr_token_enc_def c(1) by (simp add: rd_peek_u8_Cons)
    with cookie ok(1,2) assms(2,3) c(2) show ?thesis
      using find_crlf_end [of "cookie_prefix @ cr_cookie req" "cr_negotiation_enc req"]
      by (simp add: read_cr_token_def cr_token_enc_def rd_simps rd_empty_rest bytes_start_with_def)
  next
    case token
    then obtain c cs where c: "cr_routing_token req = c # cs" by (cases "cr_routing_token req") auto
    from token ok assms(2,3) c show ?thesis
      using find_crlf_end [of "cr_routing_token req" "cr_negotiation_enc req"]
      by (simp add: read_cr_token_def cr_token_enc_def rd_simps rd_empty_rest)
  next
    case none
    then show ?thesis using assms(2,3)
      by (cases "cr_negotiation req")
        (simp_all add: read_cr_token_def cr_token_enc_def cr_negotiation_enc_def rd_simps rd_empty_rest)
  qed
qed

lemma read_correlation_info_enc:
  "rd_rest r = type_rdp_correlation_info # 0 # le_bytes 2 correlation_info_length @ ident @ replicate 16 0 \<Longrightarrow>
   length ident = 16 \<Longrightarrow> read_correlation_info r = (Inr ident, rd_advance 36 r)"
  by (simp add: read_correlation_info_def rd_simps)

lemma read_cr_negotiation_enc:
  assumes "cr_ok req" "rd_wf r" "rd_rest r = cr_negotiation_enc req"
  shows "read_cr_negotiation r =
    (Inr (cr_negotiation req, cr_correlation_id req), rd_advance (length (cr_negotiation_enc req)) r)"
proof (cases "cr_negotiation req")
  case None
  with assms(1) have "cr_correlation_id req = None"
    unfolding cr_ok_def by (elim conjE) (simp only: option.case)
  with None assms(2,3) show ?thesis
    by (simp add: read_cr_negotiation_def cr_negotiation_enc_def rd_simps rd_empty_rest)
next
  case (Some neg)
  with assms(1) have f: "(nr_flags neg AND correlation_info_present \<noteq> 0) = (cr_correlation_id req \<noteq> None)"
    unfolding cr_ok_def by (elim conjE) (simp only: option.case)
  show ?thesis
  proof (cases "cr_correlation_id req")
    case None
    with Some f assms(2,3) show ?thesis
      by (simp add: read_cr_negotiation_def cr_negotiation_enc_def rd_simps rd_empty_rest)
  next
    case (Some ident)
    with assms(1) have "length ident = 16"
      unfolding cr_ok_def by (elim conjE) (simp only: option.case)
    with Some \<open>cr_negotiation req = Some neg\<close> f assms(2,3) show ?thesis
      by (simp add: read_cr_negotiation_def cr_negotiation_enc_def rd_simps rd_empty_rest read_correlation_info_enc)
  qed
qed

lemma decode_connection_request_enc:
  assumes "cr_ok req" "rd_rest r = cr_cc_enc TpduConnectionRequest 0 (cr_variable req)"
  shows "decode_connection_request r = (Inr req, rd_advance (7 + length (cr_variable req)) r)"
proof -
  have len: "length (cr_variable req) \<le> 248"
    using assms(1) unfolding cr_ok_def by blast
  let ?v = "mk_reader (cr_variable req) (rd_offset r + 7)"
  have v: "rd_rest ?v = cr_token_enc req @ cr_negotiation_enc req"
    using assms(1) by (simp add: cr_variable_enc)
  note tok = read_cr_token_enc [OF assms(1) _ v] 
  note neg = read_cr_negotiation_enc [OF assms(1), of "rd_advance (length (cr_token_enc req)) ?v"]
  show ?thesis
    using tok neg v
    by (simp add: decode_connection_request_def rd_simps read_cr_cc_header_enc [OF assms(2) len])
qed

section \<open>Connection Confirm and Data\<close>

definition confirm_body :: "confirm_result \<Rightarrow> bytes" where
  "confirm_body confirm = (case confirm of
       ConfirmNone \<Rightarrow> []
     | ConfirmResponse flags selected \<Rightarrow> type_rdp_neg_rsp # flags # le_bytes 2 neg_structure_length @ le_bytes 4 selected
     | ConfirmFailure code \<Rightarrow> type_rdp_neg_failure # 0 # le_bytes 2 neg_structure_length @ le_bytes 4 code)"

definition cc_enc :: "confirm_result \<Rightarrow> bytes" where
  "cc_enc confirm = tpkt_enc (cr_cc_enc TpduConnectionConfirm server_src_ref (confirm_body confirm))"

lemma length_confirm_body: "length (confirm_body confirm) = (if confirm \<noteq> ConfirmNone then 8 else 0)"
  by (cases confirm) (simp_all add: confirm_body_def)

lemma encode_connection_confirm_enc: "encode_connection_confirm confirm w = Some (w @ cc_enc confirm)"
proof -
  have len: "length (confirm_body confirm) \<le> 248" by (simp add: length_confirm_body)
  have w: "\<exists>v. write_cr_cc_header TpduConnectionConfirm (if confirm \<noteq> ConfirmNone then unat neg_structure_length else 0)
      server_src_ref (snd (begin_tpkt w)) = Some v \<and>
      v @ confirm_body confirm = snd (begin_tpkt w) @ cr_cc_enc TpduConnectionConfirm server_src_ref (confirm_body confirm)"
    using write_cr_cc_header_enc [OF len, of TpduConnectionConfirm server_src_ref "snd (begin_tpkt w)"]
    by (auto simp: length_confirm_body neg_structure_length_def split: if_splits)
  have b: "(case confirm of ConfirmNone \<Rightarrow> v
       | ConfirmResponse flags selected \<Rightarrow>
           w_u32le selected (w_u16le neg_structure_length (w_u8 flags (w_u8 type_rdp_neg_rsp v)))
       | ConfirmFailure code \<Rightarrow>
           w_u32le code (w_u16le neg_structure_length (w_u8 0 (w_u8 type_rdp_neg_failure v)))) = v @ confirm_body confirm" for v
    by (cases confirm) (simp_all add: confirm_body_def wr_simps)
  show ?thesis
    using w tpkt_written [of "cr_cc_enc TpduConnectionConfirm server_src_ref (confirm_body confirm)" w]
    by (auto simp: encode_connection_confirm_def b cc_enc_def Let_def case_prod_beta max_tpkt_size_def length_confirm_body)
qed

lemma decode_connection_confirm_enc:
  assumes "rd_rest r = cr_cc_enc TpduConnectionConfirm src (confirm_body confirm)"
  shows "decode_connection_confirm r = (Inr confirm, rd_advance (7 + length (confirm_body confirm)) r)"
proof -
  have "length (confirm_body confirm) \<le> 248" by (simp add: length_confirm_body)
  from read_cr_cc_header_enc [OF assms this] show ?thesis
    by (cases confirm) (simp_all add: decode_connection_confirm_def confirm_body_def rd_simps rd_empty_rest
        type_rdp_neg_rsp_def type_rdp_neg_failure_def)
qed

definition data_enc :: "bytes \<Rightarrow> bytes" where
  "data_enc payload = [2, 0xF0, 0x80] @ payload"

lemma data_tpdu_written:
  "7 + length payload \<le> max_tpkt_size \<Longrightarrow>
   end_tpkt (fst (begin_data_tpdu w)) (snd (begin_data_tpdu w) @ payload) = Some (w @ tpkt_enc (data_enc payload))"
  using tpkt_written [of "data_enc payload" w]
  by (simp add: begin_data_tpdu_def data_enc_def case_prod_beta wr_simps data_eot_def)

lemma length_data_enc [simp]: "length (data_enc payload) = 3 + length payload"
  by (simp add: data_enc_def)

lemma decode_data_tpdu_enc [rd_simps]:
  "rd_rest r = data_enc payload \<Longrightarrow>
   decode_data_tpdu r = (Inr (mk_reader payload (rd_offset r + 3)), rd_advance (3 + length payload) r)"
  by (simp add: decode_data_tpdu_def data_enc_def rd_simps rd_remaining_rest data_eot_def)

lemma peek_tpdu_code_data: "rd_rest r = data_enc payload \<Longrightarrow> peek_tpdu_code r = Inr TpduData"
  by (simp add: peek_tpdu_code_def data_enc_def rd_simps)

lemma x224_safe [safe_intros]:
  "rd_safe read_tpkt" "rd_safe (read_cr_cc_header code)" "rd_safe decode_data_tpdu"
  "rd_safe decode_connection_request" "rd_safe decode_connection_confirm"
  unfolding read_tpkt_def read_cr_cc_header_def decode_data_tpdu_def decode_connection_request_def
    decode_connection_confirm_def by (intro safe_intros)+

text \<open>
  The laws of the two decoders as codecs: a connection TPDU is written behind what is already in
  the buffer, cut out again by its own frame length, and understood as it was meant.
\<close>

definition read_connection_request :: "connection_request parser" where
  "read_connection_request = ptry read_tpkt (\<lambda>t. pwith t decode_connection_request)"

definition read_connection_confirm :: "confirm_result parser" where
  "read_connection_confirm = ptry read_tpkt (\<lambda>t. pwith t decode_connection_confirm)"

interpretation x224_request: codec encode_connection_request read_connection_request cr_ok cr_enc
proof
  fix req r ys assume "cr_ok req" "rd_rest r = cr_enc req @ ys"
  moreover have "length (cr_variable req) \<le> 248"
    using \<open>cr_ok req\<close> unfolding cr_ok_def by blast
  ultimately show "read_connection_request r = (Inr req, rd_advance (length (cr_enc req)) r)"
    by (simp add: read_connection_request_def rd_simps cr_enc_def max_tpkt_size_def decode_connection_request_enc)
qed (rule encode_connection_request_enc)

interpretation x224_confirm: codec encode_connection_confirm read_connection_confirm "\<lambda>_. True" cc_enc
proof
  fix confirm r ys assume "rd_rest r = cc_enc confirm @ ys"
  then show "read_connection_confirm r = (Inr confirm, rd_advance (length (cc_enc confirm)) r)"
    by (simp add: read_connection_confirm_def rd_simps cc_enc_def max_tpkt_size_def decode_connection_confirm_enc
        length_confirm_body)
qed (rule encode_connection_confirm_enc)

section \<open>Properties\<close>

text \<open>
  Connection Requests and Confirms survive the wire: the encoder appends a TPKT to whatever is in the
  buffer, and a reader that finds it in front of arbitrary further bytes reads the request (cookie or routing
  token, negotiation and correlation structures) or the confirm back and stops exactly at its end.
\<close>

theorem x224_connection_roundtrip:
  assumes "cr_ok req"
  shows "(\<exists>bs. encode_connection_request req w = Some (w @ bs) \<and>
      read_connection_request (mk_reader (bs @ ys) b) = (Inr req, rd_advance (length bs) (mk_reader (bs @ ys) b))) \<and>
    (\<exists>bs. encode_connection_confirm confirm w = Some (w @ bs) \<and>
      read_connection_confirm (mk_reader (bs @ ys) b) = (Inr confirm, rd_advance (length bs) (mk_reader (bs @ ys) b)))"
  using x224_request.round_trip [OF assms] x224_confirm.round_trip by blast

definition x224_demo :: connection_request where
  "x224_demo = \<lparr>cr_cookie = [], cr_routing_token = [], cr_negotiation = Some \<lparr>nr_flags = 0, nr_requested_protocols = 3\<rparr>,
     cr_correlation_id = None\<rparr>"

theorem x224_connection_roundtrip_witness:
  "cr_ok x224_demo \<and> (\<exists>bs. encode_connection_request x224_demo [] = Some ([] @ bs) \<and>
     read_connection_request (mk_reader (bs @ [1]) 0) = (Inr x224_demo, rd_advance (length bs) (mk_reader (bs @ [1]) 0)))"
proof -
  have ok: "cr_ok x224_demo" by code_simp
  then show ?thesis using x224_connection_roundtrip [OF ok, of "[]" "[1]" 0] by blast
qed

end
