(* ===== verification/PreAuth.thy ===== *)
theory PreAuth
  imports X224 Machine
begin

text \<open>
  \<open>server/preauth.cpp\<close>: what happens before anyone is authenticated: X.224 negotiation, the
  switch to TLS, and the CredSSP handshake for the NLA protocols.

  The NLA acceptor is an abstract interface of the code (\<open>auth::NlaAcceptor\<close>); here it is a
  record of its operations on a state of type \<open>'n\<close>, with the state the factory creates. The
  reason of a failure, which the code formats into a log line, is kept as a value. Dereferencing a
  null acceptor or calling an empty factory is \<open>None\<close>.
\<close>

section \<open>Model\<close>

definition protocol_ssl :: u32 where "protocol_ssl = 0x00000001"
definition protocol_hybrid :: u32 where "protocol_hybrid = 0x00000002"
definition protocol_hybrid_ex :: u32 where "protocol_hybrid_ex = 0x00000008"
definition nla_protocols :: u32 where "nla_protocols = protocol_hybrid OR protocol_hybrid_ex"
definition extended_client_data_supported :: byte where "extended_client_data_supported = 0x01"
definition dynvc_gfx_protocol_supported :: byte where "dynvc_gfx_protocol_supported = 0x02"
definition ssl_required_by_server :: u32 where "ssl_required_by_server = 1"
definition hybrid_required_by_server :: u32 where "hybrid_required_by_server = 5"
definition early_auth_success :: u32 where "early_auth_success = 0x00000000"
definition max_connection_request :: nat where "max_connection_request = 4 + 255"

record identity =
  id_user :: string
  id_domain :: string

record password_credentials =
  pc_domain :: string
  pc_user :: string
  pc_password :: string

datatype nla_status = NlaInProgress | NlaSucceeded | NlaFailed

record 'n nla_ops =
  nla_make :: 'n
  nla_receive :: "bytes \<Rightarrow> 'n \<Rightarrow> 'n"
  nla_take_output :: "'n \<Rightarrow> bytes \<times> 'n"
  nla_status_of :: "'n \<Rightarrow> nla_status"
  nla_take_remaining_input :: "'n \<Rightarrow> bytes \<times> 'n"
  nla_identity :: "'n \<Rightarrow> identity"
  nla_take_credentials :: "'n \<Rightarrow> password_credentials option \<times> 'n"
  nla_failure_reason :: "'n \<Rightarrow> string"

record negotiation =
  ng_cookie :: bytes
  ng_requested_protocols :: u32
  ng_selected_protocol :: u32
  ng_identity :: "identity option"

record preauth_config =
  pc_supported_protocols :: u32
  pc_require_nla :: bool
  pc_advertise_gfx :: bool

datatype fail_reason = Reason string | ReasonError error | ReasonProtocols u32 | ReasonNla string

datatype preauth_event = StartTls | Authenticated identity "password_credentials option" | Ready | Failed fail_reason

datatype preauth_state = WaitConnectionRequest | WaitTls | PaNla | PaReady | PaFailed

record 'n preauth =
  pa_config :: preauth_config
  pa_make_nla :: "'n nla_ops option"
  pa_state :: preauth_state
  pa_negotiation :: negotiation
  pa_nla :: "'n option"
  pa_input :: bytes
  pa_output :: writer
  pa_events :: "preauth_event list"

definition pa_new :: "preauth_config \<Rightarrow> 'n nla_ops option \<Rightarrow> 'n preauth" where
  "pa_new config make_nla =
     \<lparr>pa_config = (case make_nla of
          None \<Rightarrow> config\<lparr>pc_supported_protocols := pc_supported_protocols config AND NOT nla_protocols\<rparr>
        | Some _ \<Rightarrow> config),
      pa_make_nla = make_nla, pa_state = WaitConnectionRequest,
      pa_negotiation = \<lparr>ng_cookie = [], ng_requested_protocols = 0, ng_selected_protocol = 0, ng_identity = None\<rparr>,
      pa_nla = None, pa_input = [], pa_output = [], pa_events = []\<rparr>"

definition pa_fail :: "fail_reason \<Rightarrow> 'n preauth \<Rightarrow> 'n preauth" where
  "pa_fail reason st = st\<lparr>pa_state := PaFailed, pa_events := pa_events st @ [Failed reason]\<rparr>"

definition pa_finish :: "'n preauth \<Rightarrow> 'n preauth" where
  "pa_finish st = st\<lparr>pa_state := PaReady, pa_events := pa_events st @ [Ready]\<rparr>"

definition pa_select :: "preauth_config \<Rightarrow> u32 \<Rightarrow> u32 option" where
  "pa_select config requested =
     (let usable = requested AND pc_supported_protocols config in
      if usable AND protocol_hybrid_ex \<noteq> 0 then Some protocol_hybrid_ex
      else if usable AND protocol_hybrid \<noteq> 0 then Some protocol_hybrid
      else if \<not> pc_require_nla config \<and> usable AND protocol_ssl \<noteq> 0 then Some protocol_ssl
      else None)"

definition pa_confirm :: "preauth_config \<Rightarrow> u32 option \<Rightarrow> confirm_result" where
  "pa_confirm config selected = (case selected of
     Some protocol \<Rightarrow> ConfirmResponse
       (extended_client_data_supported OR (if pc_advertise_gfx config then dynvc_gfx_protocol_supported else 0)) protocol
   | None \<Rightarrow>
       let nla_offered = (pc_supported_protocols config AND nla_protocols \<noteq> 0) in
       ConfirmFailure (if nla_offered \<and> pc_require_nla config then hybrid_required_by_server
         else ssl_required_by_server))"

definition pa_on_connection_request :: "bytes \<Rightarrow> 'n preauth \<Rightarrow> (unit result \<times> 'n preauth) option" where
  "pa_on_connection_request packet st =
     (case fst (ptry read_tpkt (\<lambda>tpdu r. (case peek_tpdu_code tpdu of
          Inl e \<Rightarrow> (Inl e, r)
        | Inr code \<Rightarrow> if code \<noteq> TpduConnectionRequest
            then (fail InvalidValue ''expected an X.224 Connection Request'' (rd_offset tpdu), r)
            else pwith tpdu decode_connection_request r)) (mk_reader packet 0)) of
       Inl e \<Rightarrow> Some (Inl e, st)
     | Inr request \<Rightarrow>
       let st = st\<lparr>pa_negotiation := (pa_negotiation st)\<lparr>ng_cookie := cr_cookie request\<rparr>\<rparr> in
       (case cr_negotiation request of
         None \<Rightarrow> Some (Inr (), pa_fail (Reason
             ''client does not negotiate a security protocol (Standard RDP Security is not supported)'') st)
       | Some neg \<Rightarrow> do {
           let requested = nr_requested_protocols neg;
           let st = st\<lparr>pa_negotiation := (pa_negotiation st)\<lparr>ng_requested_protocols := requested\<rparr>\<rparr>;
           let selected = pa_select (pa_config st) requested;
           let st = (case selected of None \<Rightarrow> st
             | Some protocol \<Rightarrow> st\<lparr>pa_negotiation := (pa_negotiation st)\<lparr>ng_selected_protocol := protocol\<rparr>\<rparr>);
           w \<leftarrow> encode_connection_confirm (pa_confirm (pa_config st) selected) (pa_output st);
           let st = st\<lparr>pa_output := w\<rparr>;
           if selected = None then Some (Inr (), pa_fail (ReasonProtocols requested) st)
           else Some (Inr (), st\<lparr>pa_state := WaitTls, pa_events := pa_events st @ [StartTls]\<rparr>)
         }))"

definition pa_pump_nla :: "'n preauth \<Rightarrow> 'n preauth option" where
  "pa_pump_nla st = do {
     ops \<leftarrow> pa_make_nla st;
     n \<leftarrow> pa_nla st;
     let (bs, n) = nla_take_output ops n;
     let st = st\<lparr>pa_output := w_bytes bs (pa_output st), pa_nla := Some n\<rparr>;
     (case nla_status_of ops n of
        NlaInProgress \<Rightarrow> Some st
      | NlaFailed \<Rightarrow> Some ((pa_fail (ReasonNla (nla_failure_reason ops n)) st)\<lparr>pa_nla := None\<rparr>)
      | NlaSucceeded \<Rightarrow>
          let st = st\<lparr>pa_negotiation := (pa_negotiation st)\<lparr>ng_identity := Some (nla_identity ops n)\<rparr>\<rparr>;
              ident = nla_identity ops n;
              (creds, n) = nla_take_credentials ops n;
              st = st\<lparr>pa_events := pa_events st @ [Authenticated ident creds]\<rparr>;
              st = (if ng_selected_protocol (pa_negotiation st) = protocol_hybrid_ex
                    then st\<lparr>pa_output := w_u32le early_auth_success (pa_output st)\<rparr> else st);
              (rest, n) = nla_take_remaining_input ops n;
              st = st\<lparr>pa_input := rest, pa_nla := None\<rparr>
          in Some (pa_finish st))
   }"

definition pa_receive :: "bytes \<Rightarrow> 'n preauth \<Rightarrow> 'n preauth option" where
  "pa_receive bs st = (case pa_state st of
     WaitConnectionRequest \<Rightarrow>
       let st = st\<lparr>pa_input := pa_input st @ bs\<rparr> in
       (case peek_frame (pa_input st) of
         Inl e \<Rightarrow> Some (pa_fail (ReasonError e) st)
       | Inr None \<Rightarrow> Some st
       | Inr (Some header) \<Rightarrow>
           if fi_kind header \<noteq> FrameTpkt \<or> fi_length header > max_connection_request
           then Some (pa_fail (Reason ''expected an X.224 Connection Request'') st)
           else if length (pa_input st) < fi_length header then Some st
           else if length (pa_input st) > fi_length header
           then Some (pa_fail (Reason ''client data after the X.224 Connection Request'') st)
           else do {
             (handled, st) \<leftarrow> pa_on_connection_request (pa_input st) (st\<lparr>pa_input := []\<rparr>);
             (case handled of Inl e \<Rightarrow> Some (pa_fail (ReasonError e) st) | Inr _ \<Rightarrow> Some st)
           })
   | WaitTls \<Rightarrow> Some (pa_fail (Reason ''client data before the TLS handshake completed'') st)
   | PaNla \<Rightarrow> do {
       ops \<leftarrow> pa_make_nla st;
       n \<leftarrow> pa_nla st;
       pa_pump_nla (st\<lparr>pa_nla := Some (nla_receive ops bs n)\<rparr>)
     }
   | PaReady \<Rightarrow> Some (st\<lparr>pa_input := pa_input st @ bs\<rparr>)
   | PaFailed \<Rightarrow> Some st)"

definition pa_tls_established :: "'n preauth \<Rightarrow> 'n preauth option" where
  "pa_tls_established st =
     (if pa_state st \<noteq> WaitTls then Some (pa_fail (Reason ''TLS established in the wrong state'') st)
      else if ng_selected_protocol (pa_negotiation st) = protocol_ssl then Some (pa_finish st)
      else do {
        ops \<leftarrow> pa_make_nla st;
        pa_pump_nla (st\<lparr>pa_nla := Some (nla_make ops), pa_state := PaNla\<rparr>)
      })"

definition pa_take_output :: "'n preauth \<Rightarrow> bytes \<times> 'n preauth" where
  "pa_take_output st = (pa_output st, st\<lparr>pa_output := []\<rparr>)"

definition pa_poll_event :: "'n preauth \<Rightarrow> preauth_event option \<times> 'n preauth" where
  "pa_poll_event st = (case pa_events st of [] \<Rightarrow> (None, st) | e # es \<Rightarrow> (Some e, st\<lparr>pa_events := es\<rparr>))"

definition pa_take_remaining_input :: "'n preauth \<Rightarrow> bytes \<times> 'n preauth" where
  "pa_take_remaining_input st = (pa_input st, st\<lparr>pa_input := []\<rparr>)"

section \<open>Selecting a protocol\<close>

lemma and_both_nonzero:
  assumes "(r AND s) AND p \<noteq> (0 :: u32)"
  shows "r AND p \<noteq> 0" "s AND p \<noteq> 0"
proof -
  have "(r AND s) AND p = (r AND p) AND s" "(r AND s) AND p = r AND (s AND p)"
    by (simp_all add: and.assoc and.commute [of s p])
  with assms show "r AND p \<noteq> 0" "s AND p \<noteq> 0" by auto
qed

lemma pa_select_Some:
  assumes "pa_select config requested = Some p"
  shows "p \<in> {protocol_ssl, protocol_hybrid, protocol_hybrid_ex}" "requested AND p \<noteq> 0"
    "pc_supported_protocols config AND p \<noteq> 0" "pc_require_nla config \<Longrightarrow> p \<noteq> protocol_ssl"
proof -
  have p: "(requested AND pc_supported_protocols config) AND p \<noteq> 0"
    using assms unfolding pa_select_def Let_def by (simp only: option.inject split: if_splits) auto
  show "requested AND p \<noteq> 0" "pc_supported_protocols config AND p \<noteq> 0"
    using and_both_nonzero [OF p] .
  show "p \<in> {protocol_ssl, protocol_hybrid, protocol_hybrid_ex}"
    using assms unfolding pa_select_def Let_def by (auto split: if_splits)
  show "p \<noteq> protocol_ssl" if "pc_require_nla config"
    using assms that unfolding pa_select_def Let_def
    by (auto simp: protocol_ssl_def protocol_hybrid_def protocol_hybrid_ex_def split: if_splits)
qed

lemma nla_protocol_not_supported:
  assumes "supported AND nla_protocols = 0" "p \<in> {protocol_hybrid, protocol_hybrid_ex}"
  shows "supported AND p = 0"
proof -
  have "nla_protocols AND p = p"
    using assms(2) by (auto simp: nla_protocols_def protocol_hybrid_def protocol_hybrid_ex_def)
  then show ?thesis
    using assms(1) by (metis and.assoc and_zero_eq zero_and_eq)
qed

section \<open>The invariant\<close>

inductive nla_reach :: "'n nla_ops \<Rightarrow> 'n \<Rightarrow> bool" for ops where
  nla_made: "nla_reach ops (nla_make ops)"
| nla_received: "nla_reach ops n \<Longrightarrow> nla_reach ops (nla_receive ops bs n)"
| nla_flushed: "nla_reach ops n \<Longrightarrow> nla_reach ops (snd (nla_take_output ops n))"

definition nla_vouches :: "'n nla_ops option \<Rightarrow> identity option \<Rightarrow> bool" where
  "nla_vouches factory ident \<longleftrightarrow>
     (\<exists>ops n. factory = Some ops \<and> nla_reach ops n \<and> nla_status_of ops n = NlaSucceeded \<and> ident = Some (nla_identity ops n))"

definition pa_inv :: "'n preauth \<Rightarrow> bool" where
  "pa_inv st \<longleftrightarrow>
     (pa_make_nla st = None \<longrightarrow> pc_supported_protocols (pa_config st) AND nla_protocols = 0) \<and>
     (pa_state st \<in> {WaitTls, PaNla, PaReady} \<longrightarrow>
        pa_select (pa_config st) (ng_requested_protocols (pa_negotiation st)) =
          Some (ng_selected_protocol (pa_negotiation st))) \<and>
     (pa_state st = PaNla \<longrightarrow> ng_selected_protocol (pa_negotiation st) \<noteq> protocol_ssl \<and>
        (\<exists>ops n. pa_make_nla st = Some ops \<and> pa_nla st = Some n \<and> nla_reach ops n)) \<and>
     (pa_state st = PaReady \<longrightarrow> ng_selected_protocol (pa_negotiation st) = protocol_ssl \<or>
        nla_vouches (pa_make_nla st) (ng_identity (pa_negotiation st)))"

lemma pa_new_inv: "pa_inv (pa_new config make_nla)"
  by (simp add: pa_inv_def pa_new_def and.assoc split: option.split)

lemma pa_fail_inv: "pa_inv st \<Longrightarrow> pa_inv (pa_fail reason st)"
  by (simp add: pa_inv_def pa_fail_def)

lemma pa_inv_cong [simp]:
  "pa_inv (st\<lparr>pa_input := bs\<rparr>) = pa_inv st" "pa_inv (st\<lparr>pa_output := w\<rparr>) = pa_inv st"
  "pa_inv (st\<lparr>pa_events := es\<rparr>) = pa_inv st"
  by (simp_all add: pa_inv_def)

lemma pa_inv_failed:
  assumes "pa_inv st" "pa_make_nla st' = pa_make_nla st" "pa_config st' = pa_config st" "pa_state st' = PaFailed"
  shows "pa_inv st'"
  using assms by (simp add: pa_inv_def)

lemma pa_on_connection_request_ok:
  assumes "pa_inv st" "pa_state st = WaitConnectionRequest"
  shows "\<exists>r st'. pa_on_connection_request packet st = Some (r, st') \<and> pa_inv st'"
  using assms
  by (auto simp: pa_on_connection_request_def encode_connection_confirm_enc Let_def pa_inv_def pa_fail_def
      split: sum.split option.split)

lemma pa_pump_nla_ok:
  assumes "pa_inv st" "pa_state st = PaNla"
  shows "\<exists>st'. pa_pump_nla st = Some st' \<and> pa_inv st'"
proof -
  obtain ops n where n: "pa_make_nla st = Some ops" "pa_nla st = Some n" "nla_reach ops n"
    using assms by (auto simp: pa_inv_def)
  have sel: "pa_select (pa_config st) (ng_requested_protocols (pa_negotiation st)) =
      Some (ng_selected_protocol (pa_negotiation st))"
    using assms by (simp add: pa_inv_def)
  obtain bs n' where out: "nla_take_output ops n = (bs, n')" by (cases "nla_take_output ops n")
  have reach: "nla_reach ops n'" using nla_flushed [OF n(3)] out by simp
  show ?thesis
  proof (cases "nla_status_of ops n'")
    case NlaInProgress
    with assms n out reach show ?thesis
      by (auto simp: pa_pump_nla_def pa_inv_def)
  next
    case NlaFailed
    with assms n out show ?thesis
      by (auto simp: pa_pump_nla_def pa_fail_def intro!: pa_inv_failed [OF assms(1)])
  next
    case NlaSucceeded
    with reach n(1) have "nla_vouches (pa_make_nla st) (Some (nla_identity ops n'))"
      by (auto simp: nla_vouches_def)
    with NlaSucceeded n out sel assms show ?thesis
      by (auto simp: pa_pump_nla_def pa_finish_def pa_inv_def Let_def split: prod.split)
  qed
qed

lemma pa_receive_ok:
  assumes "pa_inv st"
  shows "\<exists>st'. pa_receive bs st = Some st' \<and> pa_inv st'"
proof (cases "pa_state st")
  case WaitConnectionRequest
  let ?in = "pa_input st @ bs"
  have "\<exists>r st'. pa_on_connection_request ?in (st\<lparr>pa_input := []\<rparr>) = Some (r, st') \<and> pa_inv st'"
    using assms WaitConnectionRequest by (intro pa_on_connection_request_ok) auto
  then obtain r st' where r: "pa_on_connection_request ?in (st\<lparr>pa_input := []\<rparr>) = Some (r, st')" "pa_inv st'" by blast
  with WaitConnectionRequest assms show ?thesis
    by (auto simp: pa_receive_def Let_def pa_fail_inv split: sum.split option.split)
next
  case WaitTls
  with assms show ?thesis by (simp add: pa_receive_def pa_fail_inv)
next
  case PaNla
  then obtain ops n where n: "pa_make_nla st = Some ops" "pa_nla st = Some n" "nla_reach ops n"
    using assms by (auto simp: pa_inv_def)
  have "pa_inv (st\<lparr>pa_nla := Some (nla_receive ops bs n)\<rparr>)"
    using assms PaNla n by (auto simp: pa_inv_def intro: nla_received)
  from pa_pump_nla_ok [OF this] PaNla n show ?thesis
    by (simp add: pa_receive_def)
qed (use assms in \<open>simp_all add: pa_receive_def\<close>)

lemma pa_tls_established_ok:
  assumes "pa_inv st"
  shows "\<exists>st'. pa_tls_established st = Some st' \<and> pa_inv st'"
proof (cases "pa_state st = WaitTls \<and> ng_selected_protocol (pa_negotiation st) \<noteq> protocol_ssl")
  case True
  then have sel: "pa_select (pa_config st) (ng_requested_protocols (pa_negotiation st)) =
      Some (ng_selected_protocol (pa_negotiation st))"
    using assms by (simp add: pa_inv_def)
  have "pa_make_nla st \<noteq> None"
    using pa_select_Some [OF sel] True assms
      nla_protocol_not_supported [of "pc_supported_protocols (pa_config st)" "ng_selected_protocol (pa_negotiation st)"]
    by (auto simp: pa_inv_def)
  then obtain ops where ops: "pa_make_nla st = Some ops" by auto
  have "pa_inv (st\<lparr>pa_nla := Some (nla_make ops), pa_state := PaNla\<rparr>)"
    using assms True ops by (auto simp: pa_inv_def intro: nla_made)
  from pa_pump_nla_ok [OF this] True ops show ?thesis
    by (simp add: pa_tls_established_def)
next
  case False
  with assms show ?thesis
    by (auto simp: pa_tls_established_def pa_fail_inv) (simp add: pa_inv_def pa_finish_def)
qed

section \<open>Any sequence of calls\<close>

datatype pa_op = PaReceive bytes | PaTlsEstablished | PaTakeOutput | PaPollEvent | PaTakeRemainingInput

fun pa_exec :: "pa_op \<Rightarrow> 'n preauth \<Rightarrow> 'n preauth option" where
  "pa_exec (PaReceive bs) st = pa_receive bs st"
| "pa_exec PaTlsEstablished st = pa_tls_established st"
| "pa_exec PaTakeOutput st = Some (snd (pa_take_output st))"
| "pa_exec PaPollEvent st = Some (snd (pa_poll_event st))"
| "pa_exec PaTakeRemainingInput st = Some (snd (pa_take_remaining_input st))"

definition pa_step :: "'n preauth \<Rightarrow> pa_op \<Rightarrow> bool \<times> 'n preauth" where
  "pa_step st op = (case pa_exec op st of None \<Rightarrow> (False, st) | Some st' \<Rightarrow> (True, st'))"

lemma pa_exec_ok: "pa_inv st \<Longrightarrow> \<exists>st'. pa_exec op st = Some st' \<and> pa_inv st'"
  using pa_receive_ok pa_tls_established_ok
  by (cases op) (auto simp: pa_take_output_def pa_poll_event_def pa_take_remaining_input_def split: list.split)

interpretation pa_machine: machine pa_step pa_inv "pa_new config make_nla" for config make_nla
proof
  show "pa_inv (pa_new config make_nla)" by (rule pa_new_inv)
  fix st :: "'a preauth" and op assume "pa_inv st"
  from pa_exec_ok [OF this, of op] show "pa_inv (snd (pa_step st op))" by (auto simp: pa_step_def)
qed

lemma pa_step_returns: "pa_inv st \<Longrightarrow> fst (pa_step st op)"
  using pa_exec_ok [of st op] by (auto simp: pa_step_def)

text \<open>The configuration never changes.\<close>

lemma pa_pump_nla_config: "pa_pump_nla st = Some st' \<Longrightarrow> pa_config st' = pa_config st \<and> pa_make_nla st' = pa_make_nla st"
  by (auto simp: pa_pump_nla_def pa_finish_def pa_fail_def Let_def split: bind_splits prod.splits nla_status.splits)

lemma pa_on_connection_request_config:
  "pa_on_connection_request packet st = Some (r, st') \<Longrightarrow>
   pa_config st' = pa_config st \<and> pa_make_nla st' = pa_make_nla st \<and>
   pa_state st' \<in> {pa_state st, WaitTls, PaFailed}"
  by (auto simp: pa_on_connection_request_def encode_connection_confirm_enc Let_def pa_fail_def
      split: sum.splits option.splits)

lemma pa_receive_config:
  assumes "pa_receive bs st = Some st'"
  shows "pa_config st' = pa_config st \<and> pa_make_nla st' = pa_make_nla st"
proof (cases "pa_state st")
  case WaitConnectionRequest
  with assms show ?thesis
    by (auto simp: pa_receive_def pa_fail_def Let_def split: sum.splits option.splits if_splits bind_splits
        dest!: pa_on_connection_request_config)
next
  case PaNla
  with assms show ?thesis
    by (auto simp: pa_receive_def split: bind_splits dest!: pa_pump_nla_config)
qed (use assms in \<open>auto simp: pa_receive_def pa_fail_def\<close>)

lemma pa_exec_config: "pa_exec op st = Some st' \<Longrightarrow> pa_config st' = pa_config st \<and> pa_make_nla st' = pa_make_nla st"
  by (cases op)
    (auto simp: pa_tls_established_def pa_fail_def pa_finish_def pa_take_output_def pa_poll_event_def
      pa_take_remaining_input_def dest!: pa_receive_config pa_pump_nla_config split: list.splits if_splits bind_splits)

lemma pa_run_config:
  "pa_config (snd (run pa_step st ops)) = pa_config st \<and> pa_make_nla (snd (run pa_step st ops)) = pa_make_nla st"
proof (induction ops arbitrary: st)
  case (Cons op ops)
  have "pa_config (snd (pa_step st op)) = pa_config st \<and> pa_make_nla (snd (pa_step st op)) = pa_make_nla st"
    by (auto simp: pa_step_def dest!: pa_exec_config split: option.split)
  with Cons.IH [of "snd (pa_step st op)"] show ?case by (simp add: Let_def case_prod_beta)
qed simp

section \<open>Nothing gets past TLS without TLS\<close>

definition before_tls :: "'n preauth \<Rightarrow> bool" where
  "before_tls st \<longleftrightarrow> pa_state st \<in> {WaitConnectionRequest, WaitTls, PaFailed} \<and>
     ng_identity (pa_negotiation st) = None \<and> (\<forall>e \<in> set (pa_events st). e = StartTls \<or> (\<exists>reason. e = Failed reason))"

lemma pa_fail_before_tls [simp]:
  "before_tls (pa_fail reason st) \<longleftrightarrow> ng_identity (pa_negotiation st) = None \<and>
     (\<forall>e \<in> set (pa_events st). e = StartTls \<or> (\<exists>reason. e = Failed reason))"
  by (auto simp: pa_fail_def before_tls_def)

lemma pa_on_connection_request_before_tls:
  "before_tls st \<Longrightarrow> pa_on_connection_request packet st = Some (r, st') \<Longrightarrow> before_tls st'"
  by (auto simp: pa_on_connection_request_def encode_connection_confirm_enc Let_def pa_fail_def before_tls_def
      split: sum.splits option.splits)

lemma pa_receive_before_tls:
  assumes "before_tls st" "pa_receive bs st = Some st'"
  shows "before_tls st'"
proof (cases "pa_state st")
  case WaitConnectionRequest
  have "before_tls (st\<lparr>pa_input := []\<rparr>)" using assms(1) by (simp add: before_tls_def)
  note step = pa_on_connection_request_before_tls [OF this]
  show ?thesis
    using assms WaitConnectionRequest
    by (auto simp: pa_receive_def Let_def split: sum.splits option.splits if_splits bind_splits dest!: step)
      (auto simp: before_tls_def)
qed (use assms in \<open>auto simp: pa_receive_def pa_fail_def before_tls_def\<close>)

lemma pa_exec_before_tls:
  assumes "before_tls st" "op \<noteq> PaTlsEstablished" "pa_exec op st = Some st'"
  shows "before_tls st'"
proof (cases op)
  case (PaReceive bs)
  then show ?thesis using assms pa_receive_before_tls by simp
qed (use assms in \<open>auto simp: before_tls_def pa_take_output_def pa_poll_event_def pa_take_remaining_input_def split: list.splits\<close>)

lemma pa_run_before_tls:
  assumes "before_tls st" "PaTlsEstablished \<notin> set ops"
  shows "before_tls (snd (run pa_step st ops))"
  using assms
proof (induction ops arbitrary: st)
  case (Cons op ops)
  then have "before_tls (snd (pa_step st op))"
    using pa_exec_before_tls [of st op] by (auto simp: pa_step_def split: option.split)
  with Cons show ?case by (simp add: Let_def case_prod_beta)
qed simp

section \<open>A request is answered, however it arrives\<close>

definition pa_answer :: "connection_request \<Rightarrow> negotiation_request \<Rightarrow> 'n preauth \<Rightarrow> 'n preauth" where
  "pa_answer req neg st =
     (let requested = nr_requested_protocols neg;
          selected = pa_select (pa_config st) requested;
          ng = (pa_negotiation st)\<lparr>ng_cookie := cr_cookie req, ng_requested_protocols := requested\<rparr>;
          out = pa_output st @ cc_enc (pa_confirm (pa_config st) selected)
      in case selected of
           None \<Rightarrow> pa_fail (ReasonProtocols requested) (st\<lparr>pa_negotiation := ng, pa_output := out\<rparr>)
         | Some p \<Rightarrow> st\<lparr>pa_negotiation := ng\<lparr>ng_selected_protocol := p\<rparr>, pa_output := out, pa_state := WaitTls,
             pa_events := pa_events st @ [StartTls]\<rparr>)"

lemma pa_on_connection_request_enc:
  assumes "cr_ok req" "cr_negotiation req = Some neg"
  shows "pa_on_connection_request (cr_enc req) st = Some (Inr (), pa_answer req neg st)"
proof -
  have len: "length (cr_variable req) \<le> 248"
    using assms(1) unfolding cr_ok_def by blast
  let ?r = "mk_reader (cr_enc req) 0" and ?t = "mk_reader (cr_cc_enc TpduConnectionRequest 0 (cr_variable req)) 4"
  have "read_tpkt ?r = (Inr ?t, rd_advance (length (cr_enc req)) ?r)"
    using read_tpkt_enc [of ?r "cr_cc_enc TpduConnectionRequest 0 (cr_variable req)" "[]"] len
    by (simp add: cr_enc_def max_tpkt_size_def)
  moreover have "peek_tpdu_code ?t = Inr TpduConnectionRequest"
    by (rule peek_tpdu_code_enc) simp
  moreover have "fst (decode_connection_request ?t) = Inr req"
    using decode_connection_request_enc [OF assms(1), of ?t] by simp
  ultimately show ?thesis
    using assms(2)
    by (simp add: pa_on_connection_request_def pa_answer_def ptry_def pwith_def Let_def encode_connection_confirm_enc
        split: option.split)
qed

lemma cr_enc_frame:
  assumes "cr_ok req"
  shows "peek_frame (cr_enc req) = Inr (Some \<lparr>fi_kind = FrameTpkt, fi_length = length (cr_enc req)\<rparr>)"
    "length (cr_enc req) \<le> max_connection_request" "0 < length (cr_enc req)"
proof -
  have len: "length (cr_variable req) \<le> 248"
    using assms unfolding cr_ok_def by blast
  then show "length (cr_enc req) \<le> max_connection_request" "0 < length (cr_enc req)"
    by (simp_all add: cr_enc_def max_connection_request_def)
  show "peek_frame (cr_enc req) = Inr (Some \<lparr>fi_kind = FrameTpkt, fi_length = length (cr_enc req)\<rparr>)"
    using peek_frame_tpkt [of "cr_cc_enc TpduConnectionRequest 0 (cr_variable req)" "[]"] len
    by (simp add: cr_enc_def max_tpkt_size_def)
qed

text \<open>An incomplete request is kept; the last piece completes it.\<close>

lemma pa_receive_piece:
  assumes "cr_ok req" "cr_negotiation req = Some neg" "pa_state st = WaitConnectionRequest"
    and "pa_input st @ bs @ ys = cr_enc req"
  shows "pa_receive bs st =
    Some (if ys = [] then pa_answer req neg (st\<lparr>pa_input := []\<rparr>) else st\<lparr>pa_input := pa_input st @ bs\<rparr>)"
proof -
  note f = cr_enc_frame [OF assms(1)]
  show ?thesis
  proof (cases "ys = []")
    case True
    with assms f show ?thesis
      by (simp add: pa_receive_def Let_def pa_on_connection_request_enc)
  next
    case False
    have "length (pa_input st @ bs) < length (cr_enc req)"
      using False assms(4) by (metis append.assoc length_append length_greater_0_conv less_add_same_cancel1)
    moreover have "peek_frame (pa_input st @ bs) = Inr None \<or> peek_frame (pa_input st @ bs) = peek_frame (cr_enc req)"
      using peek_frame_append [of "pa_input st @ bs" ys] assms(4) by (metis append.assoc)
    ultimately show ?thesis
      using False assms(3) f by (auto simp: pa_receive_def Let_def)
  qed
qed

lemma pa_run_pieces:
  assumes "cr_ok req" "cr_negotiation req = Some neg" "pa_state st = WaitConnectionRequest" "[] \<notin> set pieces"
    and "pa_input st @ concat pieces = cr_enc req" "pieces \<noteq> []"
  shows "run pa_step st (map PaReceive pieces) = (map (\<lambda>_. True) pieces, pa_answer req neg (st\<lparr>pa_input := []\<rparr>))"
  using assms(3-)
proof (induction pieces arbitrary: st)
  case (Cons b pieces)
  have step: "pa_receive b st = Some (if concat pieces = [] then pa_answer req neg (st\<lparr>pa_input := []\<rparr>)
      else st\<lparr>pa_input := pa_input st @ b\<rparr>)"
    using Cons.prems by (intro pa_receive_piece [OF assms(1,2)]) auto
  show ?case
  proof (cases "pieces = []")
    case False
    then have "concat pieces \<noteq> []" using Cons.prems(2) by (cases pieces) auto
    with step have "pa_step st (PaReceive b) = (True, st\<lparr>pa_input := pa_input st @ b\<rparr>)"
      by (simp only: pa_step_def pa_exec.simps if_False option.case)
    with Cons False show ?thesis by simp
  next
    case True
    with step show ?thesis by (simp add: pa_step_def)
  qed
qed simp

section \<open>Properties\<close>

text \<open>
  C2: When the configuration requires NLA, no sequence of calls - whatever bytes the client sends,
  in whatever pieces, and whenever TLS is reported - reaches \<open>Ready\<close> unless an acceptor made
  by the factory was driven to success by the bytes it was given, and the identity recorded is the one
  that acceptor reports.
\<close>

theorem preauth_nla_required:
  assumes "pc_require_nla config"
    and "pa_state (snd (run pa_step (pa_new config make_nla) ops)) = PaReady"
  shows "nla_vouches make_nla (ng_identity (pa_negotiation (snd (run pa_step (pa_new config make_nla) ops))))"
proof -
  let ?st = "snd (run pa_step (pa_new config make_nla) ops)"
  have inv: "pa_inv ?st" by (rule pa_machine.inv_run)
  have conf: "pc_require_nla (pa_config ?st)" "pa_make_nla ?st = make_nla"
    using assms(1) by (simp_all add: pa_run_config) (simp_all add: pa_new_def split: option.split)
  from inv assms(2) have sel: "pa_select (pa_config ?st) (ng_requested_protocols (pa_negotiation ?st)) =
      Some (ng_selected_protocol (pa_negotiation ?st))" by (simp add: pa_inv_def)
  have "ng_selected_protocol (pa_negotiation ?st) \<noteq> protocol_ssl"
    by (rule pa_select_Some(4) [OF sel conf(1)])
  with inv assms(2) conf(2) show ?thesis by (simp add: pa_inv_def)
qed

text \<open>An acceptor that succeeds once it has been given two octets, and a request for CredSSP.\<close>

definition demo_nla :: "bytes nla_ops" where
  "demo_nla = \<lparr>nla_make = [], nla_receive = (\<lambda>bs n. n @ bs), nla_take_output = (\<lambda>n. ([7], n)),
     nla_status_of = (\<lambda>n. if length n < 2 then NlaInProgress else NlaSucceeded),
     nla_take_remaining_input = (\<lambda>n. (drop 2 n, n)), nla_identity = (\<lambda>n. \<lparr>id_user = ''u'', id_domain = ''d''\<rparr>),
     nla_take_credentials = (\<lambda>n. (None, n)), nla_failure_reason = (\<lambda>n. '''')\<rparr>"

definition demo_cr :: connection_request where
  "demo_cr = \<lparr>cr_cookie = [], cr_routing_token = [], cr_negotiation = Some \<lparr>nr_flags = 0, nr_requested_protocols = 3\<rparr>,
     cr_correlation_id = None\<rparr>"

definition demo_request :: bytes where
  "demo_request = [3, 0, 0, 19, 14, 0xE0, 0, 0, 0, 0, 0, 1, 0, 8, 0, 3, 0, 0, 0]"

lemma demo_cr_ok: "cr_ok demo_cr" by code_simp

lemma demo_cr_enc: "cr_enc demo_cr = demo_request" by code_simp

definition demo_config :: preauth_config where
  "demo_config = \<lparr>pc_supported_protocols = 0xB, pc_require_nla = True, pc_advertise_gfx = True\<rparr>"

definition demo_calls :: "pa_op list" where
  "demo_calls = map PaReceive [take 5 demo_request, drop 5 demo_request] @
     [PaTlsEstablished, PaReceive [1], PaReceive [2, 9]]"

lemma demo_accepts:
  assumes "pieces \<in> {[demo_request], [take 5 demo_request, drop 5 demo_request]}"
  shows "run pa_step (pa_new demo_config (Some demo_nla)) (map PaReceive pieces) =
    (map (\<lambda>_. True) pieces, pa_answer demo_cr \<lparr>nr_flags = 0, nr_requested_protocols = 3\<rparr> (pa_new demo_config (Some demo_nla)))"
proof -
  have "run pa_step (pa_new demo_config (Some demo_nla)) (map PaReceive pieces) = (map (\<lambda>_. True) pieces,
      pa_answer demo_cr \<lparr>nr_flags = 0, nr_requested_protocols = 3\<rparr> ((pa_new demo_config (Some demo_nla))\<lparr>pa_input := []\<rparr>))"
    using assms by (intro pa_run_pieces demo_cr_ok)
      (auto simp: demo_cr_def pa_new_def demo_cr_enc [unfolded demo_cr_def], simp_all add: demo_request_def)
  then show ?thesis by (simp add: pa_new_def)
qed

lemma demo_answer:
  "pa_state (pa_answer demo_cr \<lparr>nr_flags = 0, nr_requested_protocols = 3\<rparr> (pa_new demo_config (Some demo_nla))) = WaitTls"
  "ng_selected_protocol (pa_negotiation (pa_answer demo_cr \<lparr>nr_flags = 0, nr_requested_protocols = 3\<rparr>
     (pa_new demo_config (Some demo_nla)))) = protocol_hybrid"
  "pa_make_nla (pa_answer demo_cr \<lparr>nr_flags = 0, nr_requested_protocols = 3\<rparr> (pa_new demo_config (Some demo_nla))) = Some demo_nla"
  by (simp_all add: pa_answer_def demo_config_def demo_cr_def pa_new_def pa_select_def protocol_hybrid_ex_def
      protocol_hybrid_def)

lemma demo_reaches_ready: "pa_state (snd (run pa_step (pa_new demo_config (Some demo_nla)) demo_calls)) = PaReady"
  using demo_accepts [of "[take 5 demo_request, drop 5 demo_request]"] demo_answer
  by (simp add: demo_calls_def run_append pa_step_def pa_tls_established_def pa_receive_def pa_pump_nla_def
      demo_nla_def protocol_hybrid_def protocol_ssl_def pa_finish_def Let_def del: list.map)

theorem preauth_nla_required_witness:
  "pc_require_nla demo_config \<and>
   pa_state (snd (run pa_step (pa_new demo_config (Some demo_nla)) demo_calls)) = PaReady \<and>
   nla_vouches (Some demo_nla)
     (ng_identity (pa_negotiation (snd (run pa_step (pa_new demo_config (Some demo_nla)) demo_calls))))"
  using preauth_nla_required [OF _ demo_reaches_ready] demo_reaches_ready by (simp add: demo_config_def)

text \<open>
  C20: Every call returns: no sequence of calls dereferences an acceptor that does not exist, calls an
  empty factory or fails an assertion of the encoder.
\<close>

theorem preauth_returns: "list_all (\<lambda>returned. returned) (fst (run pa_step (pa_new config make_nla) ops))"
  by (rule pa_machine.outputs_run_from [where good = "\<lambda>returned. returned"]) (rule pa_step_returns, assumption, rule pa_new_inv)

text \<open>
  Bytes from the client alone get no further than the TLS switch: as long as the transport has not
  reported TLS, the machine waits for the request or for TLS, or has failed, no identity is recorded, and
  the only events are the request to start TLS and failures.
\<close>

theorem preauth_needs_tls:
  assumes "PaTlsEstablished \<notin> set ops"
  shows "(let st = snd (run pa_step (pa_new config make_nla) ops) in
    pa_state st \<in> {WaitConnectionRequest, WaitTls, PaFailed} \<and> ng_identity (pa_negotiation st) = None \<and>
    (\<forall>e \<in> set (pa_events st). e = StartTls \<or> (\<exists>reason. e = Failed reason)))"
  using pa_run_before_tls [OF _ assms, of "pa_new config make_nla"] by (simp add: before_tls_def pa_new_def Let_def)

theorem preauth_needs_tls_witness:
  "PaTlsEstablished \<notin> set [PaReceive demo_request, PaReceive [0x16]] \<and>
   (let st = snd (run pa_step (pa_new demo_config (Some demo_nla)) [PaReceive demo_request, PaReceive [0x16]]) in
    pa_state st \<in> {WaitConnectionRequest, WaitTls, PaFailed} \<and> ng_identity (pa_negotiation st) = None \<and>
    (\<forall>e \<in> set (pa_events st). e = StartTls \<or> (\<exists>reason. e = Failed reason)))"
  using preauth_needs_tls [of "[PaReceive demo_request, PaReceive [0x16]]" demo_config "Some demo_nla"]
  by (simp del: run.simps)

text \<open>
  C18: Whatever the client asked for, the protocol in use once the request was accepted is one that the
  client requested and the configuration supports; never plain TLS when NLA is required, and always plain
  TLS when the server has no acceptor.
\<close>

theorem preauth_selection:
  assumes "pa_state (snd (run pa_step (pa_new config make_nla) ops)) \<in> {WaitTls, PaNla, PaReady}"
  shows "(let ng = pa_negotiation (snd (run pa_step (pa_new config make_nla) ops)); p = ng_selected_protocol ng in
    ng_requested_protocols ng AND p \<noteq> 0 \<and> pc_supported_protocols config AND p \<noteq> 0 \<and>
    p \<in> {protocol_ssl, protocol_hybrid, protocol_hybrid_ex} \<and>
    (pc_require_nla config \<longrightarrow> p \<noteq> protocol_ssl) \<and> (make_nla = None \<longrightarrow> p = protocol_ssl))"
proof -
  let ?st = "snd (run pa_step (pa_new config make_nla) ops)"
  let ?p = "ng_selected_protocol (pa_negotiation ?st)"
  have inv: "pa_inv ?st" by (rule pa_machine.inv_run)
  have conf: "pa_config ?st = pa_config (pa_new config make_nla)" "pa_make_nla ?st = make_nla"
    by (simp_all add: pa_run_config) (simp add: pa_new_def)
  from inv assms(1) have sel: "pa_select (pa_config ?st) (ng_requested_protocols (pa_negotiation ?st)) = Some ?p"
    by (auto simp: pa_inv_def)
  note s = pa_select_Some [OF sel]
  have "pc_supported_protocols config AND ?p \<noteq> 0"
    using s(3) unfolding conf by (cases make_nla) (auto simp: pa_new_def dest: and_both_nonzero)
  moreover have "pc_require_nla config \<longrightarrow> ?p \<noteq> protocol_ssl"
    using s(4) unfolding conf by (cases make_nla) (simp_all add: pa_new_def)
  moreover have "?p = protocol_ssl" if "make_nla = None"
    using inv that s(1,3) conf(2) nla_protocol_not_supported [of "pc_supported_protocols (pa_config ?st)" ?p]
    by (auto simp: pa_inv_def)
  ultimately show ?thesis unfolding Let_def using s(1,2) by blast
qed

lemma demo_accepted: "pa_state (snd (run pa_step (pa_new demo_config (Some demo_nla)) [PaReceive demo_request])) = WaitTls"
  using demo_accepts [of "[demo_request]"] demo_answer(1) by simp

theorem preauth_selection_witness:
  "pa_state (snd (run pa_step (pa_new demo_config (Some demo_nla)) [PaReceive demo_request])) = WaitTls \<and>
   (let ng = pa_negotiation (snd (run pa_step (pa_new demo_config (Some demo_nla)) [PaReceive demo_request]));
        p = ng_selected_protocol ng in
    ng_requested_protocols ng AND p \<noteq> 0 \<and> pc_supported_protocols demo_config AND p \<noteq> 0 \<and> p \<noteq> protocol_ssl)"
  using preauth_selection [of demo_config "Some demo_nla" "[PaReceive demo_request]"] demo_accepted
  by (simp add: demo_config_def Let_def del: run.simps)

text \<open>
  C17: A well-formed Connection Request that negotiates is answered, however the transport cuts it into
  pieces: nothing happens until its last octet, and then the confirm that carries the selection of
  \<open>pa_select\<close> is written, the selection is recorded and TLS is started - or, when nothing
  matches, the failure code is written and the connection fails.
\<close>

theorem preauth_answers_request:
  assumes "cr_ok req" "cr_negotiation req = Some neg" "[] \<notin> set pieces" "concat pieces = cr_enc req" "pieces \<noteq> []"
  shows "run pa_step (pa_new config make_nla) (map PaReceive pieces) =
    (map (\<lambda>_. True) pieces, pa_answer req neg (pa_new config make_nla))"
  using pa_run_pieces [OF assms(1,2), of "pa_new config make_nla" pieces] assms(3-) by (simp add: pa_new_def)

theorem preauth_answers_request_witness:
  "cr_ok demo_cr \<and> cr_enc demo_cr = demo_request \<and>
   run pa_step (pa_new demo_config (Some demo_nla)) (map PaReceive [take 5 demo_request, drop 5 demo_request]) =
     ([True, True], pa_answer demo_cr \<lparr>nr_flags = 0, nr_requested_protocols = 3\<rparr> (pa_new demo_config (Some demo_nla)))"
  using preauth_answers_request [OF demo_cr_ok, of "\<lparr>nr_flags = 0, nr_requested_protocols = 3\<rparr>"
      "[take 5 demo_request, drop 5 demo_request]" demo_config "Some demo_nla"]
  by (simp add: demo_cr_ok demo_cr_enc del: run.simps) (simp add: demo_cr_def demo_request_def del: run.simps)

text \<open>
  Once it has failed, the machine stays failed, whatever it is called with: nothing more is written to
  the client and nothing the client sends is kept.
\<close>

theorem preauth_failure_final:
  assumes "pa_state st = PaFailed"
  shows "pa_state (snd (run pa_step st ops)) = PaFailed \<and>
    pa_output (snd (run pa_step st ops)) \<in> {pa_output st, []} \<and> pa_input (snd (run pa_step st ops)) \<in> {pa_input st, []}"
  using assms
proof (induction ops arbitrary: st)
  case (Cons op ops)
  let ?st = "snd (pa_step st op)"
  have "pa_state ?st = PaFailed \<and> pa_output ?st \<in> {pa_output st, []} \<and> pa_input ?st \<in> {pa_input st, []}"
    using Cons.prems
    by (cases op) (auto simp: pa_step_def pa_receive_def pa_tls_established_def pa_fail_def pa_take_output_def
        pa_poll_event_def pa_take_remaining_input_def split: list.split)
  with Cons.IH [of ?st] show ?case by (auto simp: Let_def case_prod_beta)
qed simp


theorem preauth_failure_final_witness:
  "pa_state (pa_fail (Reason []) (pa_new demo_config (Some demo_nla))) = PaFailed \<and>
   pa_state (snd (run pa_step (pa_fail (Reason []) (pa_new demo_config (Some demo_nla)))
     [PaReceive demo_request, PaTlsEstablished])) = PaFailed"
  using preauth_failure_final [of "pa_fail (Reason []) (pa_new demo_config (Some demo_nla))"
      "[PaReceive demo_request, PaTlsEstablished]"]
  by (simp add: pa_fail_def del: run.simps)

end
