(* ===== verification/Pointer.thy ===== *)
theory Pointer
  imports Reader_Writer
begin

text \<open>
  \<open>proto/pointer.cpp\<close>: the messages that tell the client which mouse pointer to draw, in their
  fast-path and slow-path forms. Sizes are natural numbers; \<open>(bytes + 1) & ~1\<close> clears the lowest
  bit.
\<close>

section \<open>Model\<close>

definition message_system :: u16 where "message_system = 0x0001"
definition message_position :: u16 where "message_position = 0x0003"
definition message_color :: u16 where "message_color = 0x0006"
definition message_cached :: u16 where "message_cached = 0x0007"
definition message_pointer :: u16 where "message_pointer = 0x0008"

definition system_pointer_null :: u32 where "system_pointer_null = 0x00000000"
definition system_pointer_default :: u32 where "system_pointer_default = 0x00007F00"

definition pointer_max_size :: u16 where "pointer_max_size = 96"
definition pointer_max_large_size :: u16 where "pointer_max_large_size = 384"

definition code_pointer_hidden :: byte where "code_pointer_hidden = 0x5"
definition code_pointer_default :: byte where "code_pointer_default = 0x6"
definition code_pointer_position :: byte where "code_pointer_position = 0x8"
definition code_color_pointer :: byte where "code_color_pointer = 0x9"
definition code_cached_pointer :: byte where "code_cached_pointer = 0xA"
definition code_new_pointer :: byte where "code_new_pointer = 0xB"
definition code_large_pointer :: byte where "code_large_pointer = 0xC"

definition color_header_size :: nat where "color_header_size = 14"
definition large_header_size :: nat where "large_header_size = 20"
definition pointer_pad_size :: nat where "pointer_pad_size = 1"
definition valid_depths :: "u16 list" where "valid_depths = [1, 4, 8, 15, 16, 24, 32]"

record shape =
  sh_xor_bpp :: u16
  sh_cache_index :: u16
  sh_hotspot_x :: u16
  sh_hotspot_y :: u16
  sh_width :: u16
  sh_height :: u16
  sh_xor_mask :: bytes
  sh_and_mask :: bytes

datatype pointer_update =
    PointerHidden
  | PointerDefault
  | PointerPosition u16 u16
  | ColorPointer shape
  | NewPointer shape
  | LargePointer shape
  | CachedPointer u16

definition mask_bytes :: "shape \<Rightarrow> nat" where
  "mask_bytes s = length (sh_xor_mask s) + length (sh_and_mask s)"

definition xor_stride :: "u16 \<Rightarrow> u16 \<Rightarrow> nat" where
  "xor_stride width xor_bpp = (let n = (unat width * unat xor_bpp + 7) div 8 in 2 * ((n + 1) div 2))"

definition and_stride :: "u16 \<Rightarrow> nat" where
  "and_stride width = xor_stride width 1"

definition check_shape_header :: "shape \<Rightarrow> u16 \<Rightarrow> nat \<Rightarrow> unit result" where
  "check_shape_header s max_dimension start =
     (if sh_width s = 0 \<or> sh_height s = 0 then fail InvalidValue ''empty pointer shape'' start
      else if sh_width s > max_dimension \<or> sh_height s > max_dimension
      then fail LimitExceeded ''pointer shape too large'' start
      else if sh_xor_bpp s \<notin> set valid_depths then fail InvalidValue ''invalid pointer xorBpp'' start
      else Inr ())"

definition validate :: "shape \<Rightarrow> u16 \<Rightarrow> unit result" where
  "validate s max_dimension = (case check_shape_header s max_dimension 0 of
     Inl e \<Rightarrow> Inl e
   | Inr _ \<Rightarrow>
       if length (sh_xor_mask s) \<noteq> xor_stride (sh_width s) (sh_xor_bpp s) * unat (sh_height s)
       then fail InvalidLength ''pointer XOR mask length does not match its size'' 0
       else if length (sh_and_mask s) \<noteq> and_stride (sh_width s) * unat (sh_height s)
       then fail InvalidLength ''pointer AND mask length does not match its size'' 0
       else Inr ())"

definition write_shape_fields :: "shape \<Rightarrow> writer \<Rightarrow> writer" where
  "write_shape_fields s w =
     w_u16le (sh_height s) (w_u16le (sh_width s) (w_u16le (sh_hotspot_y s) (w_u16le (sh_hotspot_x s) w)))"

definition encode_color_attribute :: "shape \<Rightarrow> writer \<Rightarrow> writer option" where
  "encode_color_attribute s w = do {
     wassert (validate s pointer_max_size = Inr ());
     let w = write_shape_fields s (w_u16le (sh_cache_index s) w);
     let w = w_u16le (of_nat (length (sh_and_mask s))) w;
     let w = w_u16le (of_nat (length (sh_xor_mask s))) w;
     Some (w_u8 0 (w_bytes (sh_and_mask s) (w_bytes (sh_xor_mask s) w)))
   }"

definition encode_large_attribute :: "shape \<Rightarrow> writer \<Rightarrow> writer option" where
  "encode_large_attribute s w = do {
     wassert (validate s pointer_max_large_size = Inr ());
     let w = write_shape_fields s (w_u16le (sh_cache_index s) (w_u16le (sh_xor_bpp s) w));
     let w = w_u32le (of_nat (length (sh_and_mask s))) w;
     let w = w_u32le (of_nat (length (sh_xor_mask s))) w;
     Some (w_u8 0 (w_bytes (sh_and_mask s) (w_bytes (sh_xor_mask s) w)))
   }"

text \<open>A check that reads nothing, as a step of a parser.\<close>

definition pcheck :: "'a result \<Rightarrow> 'a parser" where
  "pcheck res r = (res, r)"

definition read_masks :: "shape \<Rightarrow> nat \<Rightarrow> nat \<Rightarrow> u16 \<Rightarrow> nat \<Rightarrow> shape parser" where
  "read_masks s and_length xor_length max_dimension start =
     (if xor_length \<noteq> xor_stride (sh_width s) (sh_xor_bpp s) * unat (sh_height s)
      then pfail InvalidLength ''pointer XOR mask length does not match its size'' start
      else if and_length \<noteq> and_stride (sh_width s) * unat (sh_height s)
      then pfail InvalidLength ''pointer AND mask length does not match its size'' start
      else ptry (rd_bytes xor_length) (\<lambda>xor_bytes. ptry (rd_bytes and_length) (\<lambda>and_bytes.
        let s = s\<lparr>sh_xor_mask := xor_bytes, sh_and_mask := and_bytes\<rparr> in
        pget rd_remaining (\<lambda>n.
        ptry (if n = pointer_pad_size then rd_skip pointer_pad_size else pret ()) (\<lambda>_.
        ptry (rd_expect_end ''pointer attribute'') (\<lambda>_.
        ptry (pcheck (case validate s max_dimension of Inl e \<Rightarrow> Inl (e\<lparr>err_offset := start\<rparr>) | Inr u \<Rightarrow> Inr u)) (\<lambda>_.
        pret s)))))))"

definition decode_color_attribute :: "u16 \<Rightarrow> shape parser" where
  "decode_color_attribute xor_bpp = pget rd_offset (\<lambda>start.
     ptry rd_u16le (\<lambda>cache_index. ptry rd_u16le (\<lambda>hotspot_x. ptry rd_u16le (\<lambda>hotspot_y.
     ptry rd_u16le (\<lambda>width. ptry rd_u16le (\<lambda>height. ptry rd_u16le (\<lambda>and_length. ptry rd_u16le (\<lambda>xor_length.
     let s = \<lparr>sh_xor_bpp = xor_bpp, sh_cache_index = cache_index, sh_hotspot_x = hotspot_x, sh_hotspot_y = hotspot_y,
       sh_width = width, sh_height = height, sh_xor_mask = [], sh_and_mask = []\<rparr> in
     ptry (pcheck (check_shape_header s pointer_max_size start)) (\<lambda>_.
     read_masks s (unat and_length) (unat xor_length) pointer_max_size start)))))))))"

definition decode_new_attribute :: "shape parser" where
  "decode_new_attribute = ptry rd_u16le decode_color_attribute"

definition decode_large_attribute :: "shape parser" where
  "decode_large_attribute = pget rd_offset (\<lambda>start.
     ptry rd_u16le (\<lambda>xor_bpp. ptry rd_u16le (\<lambda>cache_index. ptry rd_u16le (\<lambda>hotspot_x. ptry rd_u16le (\<lambda>hotspot_y.
     ptry rd_u16le (\<lambda>width. ptry rd_u16le (\<lambda>height. ptry rd_u32le (\<lambda>and_length. ptry rd_u32le (\<lambda>xor_length.
     let s = \<lparr>sh_xor_bpp = xor_bpp, sh_cache_index = cache_index, sh_hotspot_x = hotspot_x, sh_hotspot_y = hotspot_y,
       sh_width = width, sh_height = height, sh_xor_mask = [], sh_and_mask = []\<rparr> in
     ptry (pcheck (check_shape_header s pointer_max_large_size start)) (\<lambda>_.
     read_masks s (unat and_length) (unat xor_length) pointer_max_large_size start))))))))))"

definition decode_position :: "pointer_update parser" where
  "decode_position = ptry rd_u16le (\<lambda>x. ptry rd_u16le (\<lambda>y.
     ptry (rd_expect_end ''pointer position update'') (\<lambda>_. pret (PointerPosition x y))))"

definition decode_cached :: "pointer_update parser" where
  "decode_cached = ptry rd_u16le (\<lambda>i. ptry (rd_expect_end ''cached pointer update'') (\<lambda>_. pret (CachedPointer i)))"

fun fastpath_code :: "pointer_update \<Rightarrow> byte" where
  "fastpath_code PointerHidden = code_pointer_hidden"
| "fastpath_code PointerDefault = code_pointer_default"
| "fastpath_code (PointerPosition _ _) = code_pointer_position"
| "fastpath_code (ColorPointer _) = code_color_pointer"
| "fastpath_code (NewPointer _) = code_new_pointer"
| "fastpath_code (LargePointer _) = code_large_pointer"
| "fastpath_code (CachedPointer _) = code_cached_pointer"

fun fastpath_size :: "pointer_update \<Rightarrow> nat" where
  "fastpath_size PointerHidden = 0"
| "fastpath_size PointerDefault = 0"
| "fastpath_size (PointerPosition _ _) = 4"
| "fastpath_size (ColorPointer s) = color_header_size + mask_bytes s + pointer_pad_size"
| "fastpath_size (NewPointer s) = 2 + color_header_size + mask_bytes s + pointer_pad_size"
| "fastpath_size (LargePointer s) = large_header_size + mask_bytes s + pointer_pad_size"
| "fastpath_size (CachedPointer _) = 2"

fun encode_fastpath_data :: "pointer_update \<Rightarrow> writer \<Rightarrow> writer option" where
  "encode_fastpath_data PointerHidden w = Some w"
| "encode_fastpath_data PointerDefault w = Some w"
| "encode_fastpath_data (PointerPosition x y) w = Some (w_u16le y (w_u16le x w))"
| "encode_fastpath_data (ColorPointer s) w = do { wassert (sh_xor_bpp s = 24); encode_color_attribute s w }"
| "encode_fastpath_data (NewPointer s) w = encode_color_attribute s (w_u16le (sh_xor_bpp s) w)"
| "encode_fastpath_data (LargePointer s) w = encode_large_attribute s w"
| "encode_fastpath_data (CachedPointer i) w = Some (w_u16le i w)"

definition encode_fastpath :: "pointer_update \<Rightarrow> writer \<Rightarrow> (byte \<times> writer) option" where
  "encode_fastpath u w = do { w \<leftarrow> encode_fastpath_data u w; Some (fastpath_code u, w) }"

definition decode_fastpath :: "byte \<Rightarrow> pointer_update parser" where
  "decode_fastpath update_code =
     (if update_code = code_pointer_hidden
      then ptry (rd_expect_end ''fast-path pointer hidden update'') (\<lambda>_. pret PointerHidden)
      else if update_code = code_pointer_default
      then ptry (rd_expect_end ''fast-path pointer default update'') (\<lambda>_. pret PointerDefault)
      else if update_code = code_pointer_position then decode_position
      else if update_code = code_color_pointer then ptry (decode_color_attribute 24) (\<lambda>s. pret (ColorPointer s))
      else if update_code = code_new_pointer then ptry decode_new_attribute (\<lambda>s. pret (NewPointer s))
      else if update_code = code_large_pointer then ptry decode_large_attribute (\<lambda>s. pret (LargePointer s))
      else if update_code = code_cached_pointer then decode_cached
      else pget rd_offset (pfail InvalidValue ''not a fast-path pointer update''))"

definition slow_path_header :: "u16 \<Rightarrow> writer \<Rightarrow> writer" where
  "slow_path_header type w = w_u16le 0 (w_u16le type w)"

fun encode_slow_path :: "pointer_update \<Rightarrow> writer \<Rightarrow> writer option" where
  "encode_slow_path PointerHidden w = Some (w_u32le system_pointer_null (slow_path_header message_system w))"
| "encode_slow_path PointerDefault w = Some (w_u32le system_pointer_default (slow_path_header message_system w))"
| "encode_slow_path (PointerPosition x y) w = Some (w_u16le y (w_u16le x (slow_path_header message_position w)))"
| "encode_slow_path (ColorPointer s) w = do {
     wassert (sh_xor_bpp s = 24);
     encode_color_attribute s (slow_path_header message_color w)
   }"
| "encode_slow_path (NewPointer s) w =
     encode_color_attribute s (w_u16le (sh_xor_bpp s) (slow_path_header message_pointer w))"
| "encode_slow_path (LargePointer _) w = None"
| "encode_slow_path (CachedPointer i) w = Some (w_u16le i (slow_path_header message_cached w))"

definition decode_slow_path :: "pointer_update parser" where
  "decode_slow_path = pget rd_offset (\<lambda>start. ptry rd_u16le (\<lambda>type. ptry (rd_skip 2) (\<lambda>_.
     if type = message_system
     then ptry rd_u32le (\<lambda>system. ptry (rd_expect_end ''system pointer update'') (\<lambda>_.
       if system = system_pointer_null then pret PointerHidden
       else if system = system_pointer_default then pret PointerDefault
       else pfail InvalidValue ''unknown system pointer type'' (start + 4)))
     else if type = message_position then decode_position
     else if type = message_color then ptry (decode_color_attribute 24) (\<lambda>s. pret (ColorPointer s))
     else if type = message_pointer then ptry decode_new_attribute (\<lambda>s. pret (NewPointer s))
     else if type = message_cached then decode_cached
     else pfail InvalidValue ''unknown pointer messageType'' start)))"

section \<open>Staying inside the input\<close>

lemma safe_pcheck [safe_intros]: "rd_safe (pcheck res)"
  by (simp add: rd_safe_def pcheck_def rd_extends_refl)

lemma pointer_safe_parts [safe_intros]:
  "rd_safe (read_masks s m n d k)" "rd_safe decode_position" "rd_safe decode_cached"
  unfolding read_masks_def decode_position_def decode_cached_def Let_def by (intro safe_intros)+

lemma pointer_safe_attributes [safe_intros]: "rd_safe (decode_color_attribute bpp)" "rd_safe decode_large_attribute"
  unfolding decode_color_attribute_def decode_large_attribute_def Let_def by (intro safe_intros)+

lemma pointer_safe_new [safe_intros]: "rd_safe decode_new_attribute"
  unfolding decode_new_attribute_def by (intro safe_intros)

lemma pointer_safe [safe_intros]: "rd_safe (decode_fastpath code)" "rd_safe decode_slow_path"
  unfolding decode_fastpath_def decode_slow_path_def by (intro safe_intros)+

section \<open>Valid shapes\<close>

abbreviation shape_ok :: "u16 \<Rightarrow> shape \<Rightarrow> bool" where
  "shape_ok max_dimension s \<equiv> validate s max_dimension = Inr ()"

lemma shape_okD:
  assumes "shape_ok m s"
  shows "check_shape_header s' m k = Inr () \<longleftrightarrow> sh_width s' \<noteq> 0 \<and> sh_height s' \<noteq> 0 \<and> sh_width s' \<le> m \<and> sh_height s' \<le> m
      \<and> sh_xor_bpp s' \<in> set valid_depths"
    "sh_width s \<noteq> 0" "sh_height s \<noteq> 0" "sh_width s \<le> m" "sh_height s \<le> m" "sh_xor_bpp s \<in> set valid_depths"
    "length (sh_xor_mask s) = xor_stride (sh_width s) (sh_xor_bpp s) * unat (sh_height s)"
    "length (sh_and_mask s) = and_stride (sh_width s) * unat (sh_height s)"
  using assms by (auto simp: validate_def check_shape_header_def fail_def split: if_splits)

lemma depth_le_32: "bpp \<in> set valid_depths \<Longrightarrow> unat bpp \<le> 32"
  by (auto simp: valid_depths_def)

lemma stride_le:
  assumes "width \<le> m" "bpp \<in> set valid_depths"
  shows "xor_stride width bpp \<le> 4 * unat m + 2"
proof -
  have "unat width * unat bpp \<le> unat m * 32"
    using assms depth_le_32 by (intro mult_le_mono) (auto simp: word_le_nat_alt)
  then have "(unat width * unat bpp + 7) div 8 \<le> 4 * unat m" by linarith
  then show ?thesis unfolding xor_stride_def Let_def by linarith
qed

lemma mask_bound:
  assumes "shape_ok m s"
  shows "length (sh_xor_mask s) \<le> (4 * unat m + 2) * unat m" "length (sh_and_mask s) \<le> (4 * unat m + 2) * unat m"
proof -
  have h: "unat (sh_height s) \<le> unat m" using shape_okD(5) [OF assms] by (simp add: word_le_nat_alt)
  have "(1 :: u16) \<in> set valid_depths" by (simp add: valid_depths_def)
  then show "length (sh_xor_mask s) \<le> (4 * unat m + 2) * unat m" "length (sh_and_mask s) \<le> (4 * unat m + 2) * unat m"
    unfolding shape_okD(7,8) [OF assms] and_stride_def
    by (intro mult_le_mono stride_le h shape_okD(4,6) [OF assms]; assumption)+
qed

lemma color_mask_bound:
  assumes "shape_ok pointer_max_size s"
  shows "length (sh_xor_mask s) < 65536" "length (sh_and_mask s) < 65536"
  using mask_bound [OF assms] by (simp_all add: pointer_max_size_def)

lemma large_mask_bound:
  assumes "shape_ok pointer_max_large_size s"
  shows "length (sh_xor_mask s) < 4294967296" "length (sh_and_mask s) < 4294967296"
  using mask_bound [OF assms] by (simp_all add: pointer_max_large_size_def)

section \<open>Pointer updates survive the wire\<close>

definition shape_enc :: "bytes \<Rightarrow> shape \<Rightarrow> bytes" where
  "shape_enc lengths s = le_bytes 2 (sh_cache_index s) @ le_bytes 2 (sh_hotspot_x s) @ le_bytes 2 (sh_hotspot_y s) @
     le_bytes 2 (sh_width s) @ le_bytes 2 (sh_height s) @ lengths @ sh_xor_mask s @ sh_and_mask s @ [0]"

definition color_enc :: "shape \<Rightarrow> bytes" where
  "color_enc s = shape_enc (le_bytes 2 (of_nat (length (sh_and_mask s)) :: u16) @
     le_bytes 2 (of_nat (length (sh_xor_mask s)) :: u16)) s"

definition large_enc :: "shape \<Rightarrow> bytes" where
  "large_enc s = le_bytes 2 (sh_xor_bpp s) @ shape_enc (le_bytes 4 (of_nat (length (sh_and_mask s)) :: u32) @
     le_bytes 4 (of_nat (length (sh_xor_mask s)) :: u32)) s"

lemma encode_color_attribute_enc: "shape_ok pointer_max_size s \<Longrightarrow> encode_color_attribute s w = Some (w @ color_enc s)"
  by (simp add: encode_color_attribute_def wassert_def write_shape_fields_def wr_simps color_enc_def shape_enc_def)

lemma encode_large_attribute_enc: "shape_ok pointer_max_large_size s \<Longrightarrow> encode_large_attribute s w = Some (w @ large_enc s)"
  by (simp add: encode_large_attribute_def wassert_def write_shape_fields_def wr_simps large_enc_def shape_enc_def)

lemma read_masks_enc:
  assumes "shape_ok m s" "rd_wf r" "rd_rest r = sh_xor_mask s @ sh_and_mask s @ [0]"
  shows "fst (read_masks (s\<lparr>sh_xor_mask := [], sh_and_mask := []\<rparr>) (length (sh_and_mask s)) (length (sh_xor_mask s)) m k r) = Inr s"
proof -
  have stride: "xor_stride (sh_width s) (sh_xor_bpp s) * unat (sh_height s) = length (sh_xor_mask s)"
    "and_stride (sh_width s) * unat (sh_height s) = length (sh_and_mask s)"
    using shape_okD(7,8) [OF assms(1)] by simp_all
  have "rd_wf (rd_advance (length (sh_xor_mask s) + length (sh_and_mask s) + 1) r)"
    using assms by simp
  then show ?thesis
    using assms by (simp add: read_masks_def stride rd_simps rd_remaining_rest pointer_pad_size_def pcheck_def)
qed

lemma check_shape_header_ok:
  "shape_ok m s \<Longrightarrow> check_shape_header (s\<lparr>sh_xor_mask := [], sh_and_mask := []\<rparr>) m k = Inr ()"
  using shape_okD [of s m] by simp

lemma decode_color_attribute_enc:
  assumes "shape_ok pointer_max_size s" "rd_wf r" "rd_rest r = color_enc s"
  shows "fst (decode_color_attribute (sh_xor_bpp s) r) = Inr s"
proof -
  define q where "q = rd_advance 14 r"
  have q: "rd_wf q" "rd_rest q = sh_xor_mask s @ sh_and_mask s @ [0]"
    using assms by (simp_all add: q_def color_enc_def shape_enc_def)
  have len: "unat (of_nat (length (sh_and_mask s)) :: u16) = length (sh_and_mask s)"
    "unat (of_nat (length (sh_xor_mask s)) :: u16) = length (sh_xor_mask s)"
    using color_mask_bound [OF assms(1)] by (simp_all add: unsigned_of_nat take_bit_nat_eq_self)
  have empty: "\<lparr>sh_xor_bpp = sh_xor_bpp s, sh_cache_index = sh_cache_index s, sh_hotspot_x = sh_hotspot_x s,
      sh_hotspot_y = sh_hotspot_y s, sh_width = sh_width s, sh_height = sh_height s, sh_xor_mask = [], sh_and_mask = []\<rparr>
    = s\<lparr>sh_xor_mask := [], sh_and_mask := []\<rparr>" by simp
  show ?thesis
    using assms(2,3) check_shape_header_ok [OF assms(1)] read_masks_enc [OF assms(1) q]
    by (simp add: decode_color_attribute_def color_enc_def shape_enc_def rd_simps pcheck_def len empty q_def [symmetric]
        del: of_nat_add)
qed

lemma decode_large_attribute_enc:
  assumes "shape_ok pointer_max_large_size s" "rd_wf r" "rd_rest r = large_enc s"
  shows "fst (decode_large_attribute r) = Inr s"
proof -
  define q where "q = rd_advance 20 r"
  have q: "rd_wf q" "rd_rest q = sh_xor_mask s @ sh_and_mask s @ [0]"
    using assms by (simp_all add: q_def large_enc_def shape_enc_def)
  have len: "unat (of_nat (length (sh_and_mask s)) :: u32) = length (sh_and_mask s)"
    "unat (of_nat (length (sh_xor_mask s)) :: u32) = length (sh_xor_mask s)"
    using large_mask_bound [OF assms(1)] by (simp_all add: unsigned_of_nat take_bit_nat_eq_self)
  have empty: "\<lparr>sh_xor_bpp = sh_xor_bpp s, sh_cache_index = sh_cache_index s, sh_hotspot_x = sh_hotspot_x s,
      sh_hotspot_y = sh_hotspot_y s, sh_width = sh_width s, sh_height = sh_height s, sh_xor_mask = [], sh_and_mask = []\<rparr>
    = s\<lparr>sh_xor_mask := [], sh_and_mask := []\<rparr>" by simp
  show ?thesis
    using assms(2,3) check_shape_header_ok [OF assms(1)] read_masks_enc [OF assms(1) q]
    by (simp add: decode_large_attribute_def large_enc_def shape_enc_def rd_simps pcheck_def len empty q_def [symmetric]
        del: of_nat_add)
qed

lemma decode_new_attribute_enc:
  assumes "shape_ok pointer_max_size s" "rd_wf r" "rd_rest r = le_bytes 2 (sh_xor_bpp s) @ color_enc s"
  shows "fst (decode_new_attribute r) = Inr s"
  using assms decode_color_attribute_enc [OF assms(1), of "rd_advance 2 r"]
  by (simp add: decode_new_attribute_def rd_simps)

definition update_ok :: "pointer_update \<Rightarrow> bool" where
  "update_ok u = (case u of
     ColorPointer s \<Rightarrow> sh_xor_bpp s = 24 \<and> shape_ok pointer_max_size s
   | NewPointer s \<Rightarrow> shape_ok pointer_max_size s
   | LargePointer s \<Rightarrow> shape_ok pointer_max_large_size s
   | _ \<Rightarrow> True)"

fun update_enc :: "pointer_update \<Rightarrow> bytes" where
  "update_enc PointerHidden = []"
| "update_enc PointerDefault = []"
| "update_enc (PointerPosition x y) = le_bytes 2 x @ le_bytes 2 y"
| "update_enc (ColorPointer s) = color_enc s"
| "update_enc (NewPointer s) = le_bytes 2 (sh_xor_bpp s) @ color_enc s"
| "update_enc (LargePointer s) = large_enc s"
| "update_enc (CachedPointer i) = le_bytes 2 i"

fun slow_update_enc :: "pointer_update \<Rightarrow> bytes" where
  "slow_update_enc PointerHidden = le_bytes 2 message_system @ le_bytes 2 (0 :: u16) @ le_bytes 4 system_pointer_null"
| "slow_update_enc PointerDefault = le_bytes 2 message_system @ le_bytes 2 (0 :: u16) @ le_bytes 4 system_pointer_default"
| "slow_update_enc (PointerPosition x y) = le_bytes 2 message_position @ le_bytes 2 (0 :: u16) @ le_bytes 2 x @ le_bytes 2 y"
| "slow_update_enc (ColorPointer s) = le_bytes 2 message_color @ le_bytes 2 (0 :: u16) @ color_enc s"
| "slow_update_enc (NewPointer s) =
     le_bytes 2 message_pointer @ le_bytes 2 (0 :: u16) @ le_bytes 2 (sh_xor_bpp s) @ color_enc s"
| "slow_update_enc (LargePointer s) = []"
| "slow_update_enc (CachedPointer i) = le_bytes 2 message_cached @ le_bytes 2 (0 :: u16) @ le_bytes 2 i"

fun has_slow_path :: "pointer_update \<Rightarrow> bool" where
  "has_slow_path (LargePointer _) = False"
| "has_slow_path _ = True"

lemmas pointer_codes = code_pointer_hidden_def code_pointer_default_def code_pointer_position_def code_color_pointer_def
  code_cached_pointer_def code_new_pointer_def code_large_pointer_def
lemmas pointer_messages = message_system_def message_position_def message_color_def message_cached_def message_pointer_def
  system_pointer_null_def system_pointer_default_def

lemma encode_fastpath_enc: "update_ok u \<Longrightarrow> encode_fastpath u w = Some (fastpath_code u, w @ update_enc u)"
  by (cases u) (simp_all add: update_ok_def encode_fastpath_def wassert_def wr_simps encode_color_attribute_enc
      encode_large_attribute_enc)

lemma length_update_enc [simp]: "length (update_enc u) = fastpath_size u"
  by (cases u) (simp_all add: color_enc_def large_enc_def shape_enc_def color_header_size_def large_header_size_def
      pointer_pad_size_def mask_bytes_def)

lemma encode_slow_path_enc: "update_ok u \<Longrightarrow> has_slow_path u \<Longrightarrow> encode_slow_path u w = Some (w @ slow_update_enc u)"
  by (cases u) (simp_all add: update_ok_def wassert_def slow_path_header_def wr_simps encode_color_attribute_enc)

lemma length_slow_update_enc: "has_slow_path u \<Longrightarrow> length (slow_update_enc u) \<le> fastpath_size u + 8"
  by (cases u) (simp_all add: color_enc_def shape_enc_def color_header_size_def pointer_pad_size_def mask_bytes_def)

lemma ptry_fst: "fst (m r) = Inr s \<Longrightarrow> fst (ptry m (\<lambda>s. pret (f s)) r) = Inr (f s)"
  by (cases "m r") (simp add: ptry_def pret_def)

lemma decode_fastpath_enc:
  assumes "update_ok u" "rd_wf r" "rd_rest r = update_enc u"
  shows "fst (decode_fastpath (fastpath_code u) r) = Inr u"
proof (cases u)
  case (ColorPointer s)
  with assms decode_color_attribute_enc [of s r] show ?thesis
    by (auto simp: decode_fastpath_def pointer_codes update_ok_def intro!: ptry_fst)
next
  case (NewPointer s)
  with assms show ?thesis
    by (auto simp: decode_fastpath_def pointer_codes update_ok_def intro!: ptry_fst decode_new_attribute_enc)
next
  case (LargePointer s)
  with assms show ?thesis
    by (auto simp: decode_fastpath_def pointer_codes update_ok_def intro!: ptry_fst decode_large_attribute_enc)
qed (use assms in \<open>simp_all add: decode_fastpath_def pointer_codes decode_position_def decode_cached_def rd_simps\<close>)

lemma decode_slow_path_enc:
  assumes "update_ok u" "has_slow_path u" "rd_wf r" "rd_rest r = slow_update_enc u"
  shows "fst (decode_slow_path r) = Inr u"
proof -
  let ?q = "rd_advance 4 r"
  show ?thesis
  proof (cases u)
    case (ColorPointer s)
    with assms have "fst (decode_color_attribute 24 ?q) = Inr s"
      using decode_color_attribute_enc [of s ?q] by (simp add: update_ok_def)
    with ptry_fst [where m = "decode_color_attribute 24" and f = ColorPointer and r = ?q] ColorPointer assms show ?thesis
      by (simp add: decode_slow_path_def rd_simps pointer_messages)
  next
    case (NewPointer s)
    with assms have "fst (decode_new_attribute ?q) = Inr s"
      using decode_new_attribute_enc [of s ?q] by (simp add: update_ok_def)
    with ptry_fst [where m = decode_new_attribute and f = NewPointer and r = ?q] NewPointer assms show ?thesis
      by (simp add: decode_slow_path_def rd_simps pointer_messages)
  qed (use assms in \<open>simp_all add: decode_slow_path_def decode_position_def decode_cached_def rd_simps pointer_messages\<close>)
qed

interpretation fastpath_pointer: pdu_codec "\<lambda>u w. map_option snd (encode_fastpath u w)" "\<lambda>r. decode_fastpath code r"
  "\<lambda>u. update_ok u \<and> fastpath_code u = code" update_enc for code
  by unfold_locales (auto simp: encode_fastpath_enc intro: decode_fastpath_enc)

interpretation slow_path_pointer: pdu_codec encode_slow_path decode_slow_path
  "\<lambda>u. update_ok u \<and> has_slow_path u" slow_update_enc
  by unfold_locales (auto simp: encode_slow_path_enc intro: decode_slow_path_enc)

section \<open>Properties\<close>

text \<open>
  A pointer update survives the wire: its fast-path form has the announced size and decodes, under its update code,
  to the update it was; so does the slow-path form of every update that has one. Shapes are valid ones of up to 96
  (fast-path Large Pointers: 384) pixels a side at any depth.
\<close>

theorem pointer_roundtrip:
  assumes "update_ok u"
  shows "\<exists>bs. encode_fastpath u w = Some (fastpath_code u, w @ bs) \<and> length bs = fastpath_size u \<and>
    fst (decode_fastpath (fastpath_code u) (mk_reader bs b)) = Inr u \<and>
    (if has_slow_path u
     then \<exists>ps. encode_slow_path u w = Some (w @ ps) \<and> fst (decode_slow_path (mk_reader ps b)) = Inr u
     else encode_slow_path u w = None)"
proof -
  have "fst (decode_fastpath (fastpath_code u) (mk_reader (update_enc u) b)) = Inr u"
    using assms by (intro fastpath_pointer.rd_pdu) simp_all
  moreover have "has_slow_path u \<Longrightarrow>
      \<exists>ps. encode_slow_path u w = Some (w @ ps) \<and> fst (decode_slow_path (mk_reader ps b)) = Inr u"
    using assms by (intro slow_path_pointer.pdu_round_trip) simp
  moreover have "\<not> has_slow_path u \<Longrightarrow> encode_slow_path u w = None" by (cases u) simp_all
  ultimately show ?thesis using encode_fastpath_enc [OF assms, of w] by auto
qed

theorem pointer_roundtrip_witness:
  "\<exists>bs. encode_fastpath (NewPointer \<lparr>sh_xor_bpp = 32, sh_cache_index = 0, sh_hotspot_x = 0, sh_hotspot_y = 0, sh_width = 1,
      sh_height = 1, sh_xor_mask = [1, 2, 3, 4], sh_and_mask = [0, 0]\<rparr>) [] = Some (0xB, [] @ bs) \<and> length bs = 23"
  using pointer_roundtrip [of "NewPointer \<lparr>sh_xor_bpp = 32, sh_cache_index = 0, sh_hotspot_x = 0, sh_hotspot_y = 0,
      sh_width = 1, sh_height = 1, sh_xor_mask = [1, 2, 3, 4], sh_and_mask = [0, 0]\<rparr>" "[]" 0]
  by (auto simp: update_ok_def validate_def check_shape_header_def valid_depths_def xor_stride_def and_stride_def
      pointer_max_size_def code_new_pointer_def color_header_size_def mask_bytes_def pointer_pad_size_def)

end
