(* ===== verification/Save_Session.thy ===== *)
theory Save_Session
  imports Reader_Writer
begin

text \<open>
  \<open>proto/save_session_info.cpp\<close>: the Save Session Info PDU with the extended logon information, which
  hands the client its auto-reconnect cookie. The 16 random octets of the cookie are a list; that
  there are 16 of them is the type of the array in the code.
\<close>

section \<open>Model\<close>

definition info_type_logon_extended :: u32 where "info_type_logon_extended = 0x00000003"
definition logon_ex_cookie :: u32 where "logon_ex_cookie = 0x00000001"
definition logon_ex_errors :: u32 where "logon_ex_errors = 0x00000002"
definition arc_sc_size :: u32 where "arc_sc_size = 28"
definition logon_errors_size :: u32 where "logon_errors_size = 8"
definition field_header_size :: nat where "field_header_size = 4"
definition logon_pad_size :: nat where "logon_pad_size = 570"
definition logon_fixed_size :: nat where "logon_fixed_size = 2 + 4"
definition known_fields :: u32 where "known_fields = logon_ex_cookie OR logon_ex_errors"

record server_cookie =
  sa_version :: u32
  sa_logon_id :: u32
  sa_random_bits :: bytes

record logon_errors_info =
  le_notification_type :: u32
  le_notification_data :: u32

record logon_info_extended =
  li_cookie :: "server_cookie option"
  li_errors :: "logon_errors_info option"

definition write_server_cookie :: "server_cookie \<Rightarrow> writer \<Rightarrow> writer" where
  "write_server_cookie cookie w = w_bytes (sa_random_bits cookie) (w_u32le (sa_logon_id cookie)
     (w_u32le (sa_version cookie) (w_u32le arc_sc_size (w_u32le arc_sc_size w))))"

definition write_logon_errors :: "logon_errors_info \<Rightarrow> writer \<Rightarrow> writer" where
  "write_logon_errors errors w = w_u32le (le_notification_data errors) (w_u32le (le_notification_type errors)
     (w_u32le logon_errors_size w))"

definition encode_save_session_info :: "logon_info_extended \<Rightarrow> writer \<Rightarrow> writer" where
  "encode_save_session_info info w =
     (let fields = 0;
          n = logon_fixed_size + logon_pad_size;
          (fields, n) = (if li_cookie info \<noteq> None
            then (fields OR logon_ex_cookie, n + (field_header_size + unat arc_sc_size)) else (fields, n));
          (fields, n) = (if li_errors info \<noteq> None
            then (fields OR logon_ex_errors, n + (field_header_size + unat logon_errors_size)) else (fields, n));
          w = w_u32le info_type_logon_extended w;
          w = w_u16le (of_nat n) w;
          w = w_u32le fields w;
          w = (case li_cookie info of None \<Rightarrow> w | Some cookie \<Rightarrow> write_server_cookie cookie w);
          w = (case li_errors info of None \<Rightarrow> w | Some errors \<Rightarrow> write_logon_errors errors w)
      in w_zeros logon_pad_size w)"

definition read_server_cookie :: "server_cookie parser" where
  "read_server_cookie = pget rd_offset (\<lambda>off. ptry rd_u32le (\<lambda>field_size. ptry rd_u32le (\<lambda>cb_len.
     if field_size \<noteq> arc_sc_size \<or> cb_len \<noteq> arc_sc_size
     then pfail InvalidLength ''ARC_SC_PRIVATE_PACKET is not 28 bytes'' off
     else ptry rd_u32le (\<lambda>version. ptry rd_u32le (\<lambda>logon_id. ptry (rd_bytes 16) (\<lambda>random.
       pret \<lparr>sa_version = version, sa_logon_id = logon_id, sa_random_bits = random\<rparr>))))))"

definition read_logon_errors :: "logon_errors_info parser" where
  "read_logon_errors = pget rd_offset (\<lambda>off. ptry rd_u32le (\<lambda>field_size.
     if field_size \<noteq> logon_errors_size then pfail InvalidLength ''TS_LOGON_ERRORS_INFO is not 8 bytes'' off
     else ptry rd_u32le (\<lambda>type. ptry rd_u32le (\<lambda>data.
       pret \<lparr>le_notification_type = type, le_notification_data = data\<rparr>))))"

definition read_field :: "bool \<Rightarrow> 'a parser \<Rightarrow> 'a option parser" where
  "read_field present rd = (if present then ptry rd (\<lambda>v. pret (Some v)) else pret None)"

definition decode_save_session_info :: "logon_info_extended parser" where
  "decode_save_session_info = pget rd_offset (\<lambda>type_offset. ptry rd_u32le (\<lambda>type.
     if type \<noteq> info_type_logon_extended
     then pfail Unsupported ''Save Session Info type other than extended logon info'' type_offset
     else pget rd_offset (\<lambda>length_offset. ptry rd_u16le (\<lambda>n. ptry rd_u32le (\<lambda>fields. pget rd_remaining (\<lambda>remaining.
       if unat n < logon_fixed_size \<or> unat n - logon_fixed_size > remaining
       then pfail InvalidLength ''TS_LOGON_INFO_EXTENDED length out of range'' length_offset
       else if fields AND NOT known_fields \<noteq> 0
       then pfail Unsupported ''unknown TS_LOGON_INFO_EXTENDED field'' (length_offset + 2)
       else ptry (read_field (fields AND logon_ex_cookie \<noteq> 0) read_server_cookie) (\<lambda>cookie.
         ptry (read_field (fields AND logon_ex_errors \<noteq> 0) read_logon_errors) (\<lambda>errors.
         ptry (rd_skip logon_pad_size) (\<lambda>_. pret \<lparr>li_cookie = cookie, li_errors = errors\<rparr>)))))))))"

lemma save_session_safe [safe_intros]: "rd_safe decode_save_session_info"
  unfolding decode_save_session_info_def read_field_def read_server_cookie_def read_logon_errors_def by (intro safe_intros)

section \<open>The logon information survives the wire\<close>

definition server_cookie_enc :: "server_cookie \<Rightarrow> bytes" where
  "server_cookie_enc c = le_bytes 4 arc_sc_size @ le_bytes 4 arc_sc_size @ le_bytes 4 (sa_version c) @
     le_bytes 4 (sa_logon_id c) @ sa_random_bits c"

definition logon_errors_enc :: "logon_errors_info \<Rightarrow> bytes" where
  "logon_errors_enc e = le_bytes 4 logon_errors_size @ le_bytes 4 (le_notification_type e) @ le_bytes 4 (le_notification_data e)"

definition logon_ok :: "logon_info_extended \<Rightarrow> bool" where
  "logon_ok info \<longleftrightarrow> pred_option (\<lambda>c. length (sa_random_bits c) = 16) (li_cookie info)"

definition logon_fields :: "logon_info_extended \<Rightarrow> u32" where
  "logon_fields info = (if li_cookie info \<noteq> None then logon_ex_cookie else 0) OR (if li_errors info \<noteq> None then logon_ex_errors else 0)"

definition logon_body :: "logon_info_extended \<Rightarrow> bytes" where
  "logon_body info = (case li_cookie info of None \<Rightarrow> [] | Some c \<Rightarrow> server_cookie_enc c) @
     (case li_errors info of None \<Rightarrow> [] | Some e \<Rightarrow> logon_errors_enc e) @ replicate logon_pad_size 0"

definition logon_enc :: "logon_info_extended \<Rightarrow> bytes" where
  "logon_enc info = le_bytes 4 info_type_logon_extended @ le_bytes 2 (of_nat (length (logon_body info) + 6) :: u16) @
     le_bytes 4 (logon_fields info) @ logon_body info"

lemmas save_sizes = arc_sc_size_def logon_errors_size_def field_header_size_def logon_pad_size_def logon_fixed_size_def

lemma length_logon_body:
  "logon_ok info \<Longrightarrow> length (logon_body info) =
     570 + (if li_cookie info \<noteq> None then 32 else 0) + (if li_errors info \<noteq> None then 12 else 0)"
  by (auto simp: logon_ok_def logon_body_def server_cookie_enc_def logon_errors_enc_def save_sizes split: option.splits)

lemma encode_save_session_info_enc:
  "logon_ok info \<Longrightarrow> encode_save_session_info info w = w @ logon_enc info"
  by (cases "li_cookie info"; cases "li_errors info")
    (simp_all add: encode_save_session_info_def logon_enc_def logon_ok_def logon_fields_def wr_simps
      write_server_cookie_def write_logon_errors_def logon_body_def server_cookie_enc_def logon_errors_enc_def save_sizes)

lemma read_server_cookie_enc [rd_simps]:
  "rd_rest r = server_cookie_enc c @ ys \<Longrightarrow> length (sa_random_bits c) = 16 \<Longrightarrow>
   read_server_cookie r = (Inr c, rd_advance 32 r)"
  by (simp add: read_server_cookie_def server_cookie_enc_def rd_simps)

lemma read_logon_errors_enc [rd_simps]:
  "rd_rest r = logon_errors_enc e @ ys \<Longrightarrow> read_logon_errors r = (Inr e, rd_advance 12 r)"
  by (simp add: read_logon_errors_def logon_errors_enc_def rd_simps)

lemma length_fields_enc [simp]:
  "length (server_cookie_enc c) = 16 + length (sa_random_bits c)" "length (logon_errors_enc e) = 12"
  by (simp_all add: server_cookie_enc_def logon_errors_enc_def)

lemma decode_save_session_info_enc:
  assumes "logon_ok info" "rd_rest r = logon_enc info @ ys"
  shows "decode_save_session_info r = (Inr info, rd_advance (length (logon_enc info)) r)"
proof -
  let ?n = "length (logon_body info) + 6"
  have n: "unat (of_nat ?n :: u16) = ?n"
    by (simp add: unsigned_of_nat take_bit_nat_eq_self length_logon_body [OF assms(1)] del: of_nat_add)
  have flags: "logon_fields info AND NOT known_fields = 0"
    "logon_fields info AND logon_ex_cookie \<noteq> 0 \<longleftrightarrow> li_cookie info \<noteq> None"
    "logon_fields info AND logon_ex_errors \<noteq> 0 \<longleftrightarrow> li_errors info \<noteq> None"
    by (simp_all add: logon_fields_def known_fields_def logon_ex_cookie_def logon_ex_errors_def)
  show ?thesis
    using assms n flags
    by (cases "li_cookie info"; cases "li_errors info")
      (auto simp: decode_save_session_info_def logon_enc_def rd_simps rd_remaining_rest logon_fixed_size_def logon_body_def
        read_field_def logon_ok_def logon_pad_size_def simp del: of_nat_add)
qed

interpretation save_session: codec "\<lambda>info w. Some (encode_save_session_info info w)" decode_save_session_info logon_ok logon_enc
  by unfold_locales (simp_all add: encode_save_session_info_enc decode_save_session_info_enc)

end
