(* ===== verification/Connection.thy ===== *)
theory Connection
  imports Mcs Gcc Share Client_Info License Autodetect PreAuth Fastpath Pointer Save_Session
begin

text \<open>
  \<open>server/connection.cpp\<close>: the server side of a connection after pre-authentication, from the MCS
  Connect Initial on: bytes in, bytes and events out. An assertion that fails is \<open>None\<close>; an error a
  handler returns is a value next to the state it leaves. The reason of a close, which the code
  formats into a string, is kept as a value. Log lines are left out, the clock is a count of
  nanoseconds, and the caller's choice of a desktop size is a parameter of the configuration.
\<close>

section \<open>Model: data\<close>

definition max_buffered_input :: nat where "max_buffered_input = 2 ^ 20"
definition max_rdp_version :: u32 where "max_rdp_version = 0x00080011"
definition rdp_version_5_plus :: u32 where "rdp_version_5_plus = 0x00080004"
definition channel_chunk_length :: u32 where "channel_chunk_length = 1600"
definition slow_path_update_limit :: nat where "slow_path_update_limit = 0x3FFF - 64"
definition pointer_cache_slots :: u16 where "pointer_cache_slots = 25"
definition heartbeat_warning_count :: byte where "heartbeat_warning_count = 3"
definition heartbeat_reconnect_count :: byte where "heartbeat_reconnect_count = 5"

definition early_support_errinfo_pdu :: u16 where "early_support_errinfo_pdu = 0x0001"
definition early_support_netchar_autodetect :: u16 where "early_support_netchar_autodetect = 0x0080"
definition early_support_dynvc_gfx_protocol :: u16 where "early_support_dynvc_gfx_protocol = 0x0100"
definition early_support_heartbeat_pdu :: u16 where "early_support_heartbeat_pdu = 0x0400"
definition early_support_skip_channeljoin :: u16 where "early_support_skip_channeljoin = 0x0800"
definition sc_skip_channeljoin_supported :: u32 where "sc_skip_channeljoin_supported = 0x00000008"
definition depth_support_bpp24 :: u16 where "depth_support_bpp24 = 0x0001"
definition depth_support_bpp32 :: u16 where "depth_support_bpp32 = 0x0008"

definition extra_fastpath_output :: u16 where "extra_fastpath_output = 0x0001"
definition extra_long_credentials :: u16 where "extra_long_credentials = 0x0004"
definition extra_no_bitmap_compression_hdr :: u16 where "extra_no_bitmap_compression_hdr = 0x0400"
definition large_pointer_96x96 :: u16 where "large_pointer_96x96 = 0x0001"
definition large_pointer_384x384 :: u16 where "large_pointer_384x384 = 0x0002"

definition sec_info_pkt :: u16 where "sec_info_pkt = 0x0040"
definition sec_autodetect_req :: u16 where "sec_autodetect_req = 0x1000"
definition sec_autodetect_rsp :: u16 where "sec_autodetect_rsp = 0x2000"
definition sec_heartbeat :: u16 where "sec_heartbeat = 0x4000"

definition type2_update :: byte where "type2_update = 2"
definition type2_pointer :: byte where "type2_pointer = 27"
definition type2_save_session_info :: byte where "type2_save_session_info = 38"
definition control_request :: u16 where "control_request = 1"
definition control_granted :: u16 where "control_granted = 2"
definition control_cooperate :: u16 where "control_cooperate = 4"
definition errinfo_none :: u32 where "errinfo_none = 0"
definition errinfo_logoff_by_user :: u32 where "errinfo_logoff_by_user = 0x0000000C"
definition code_bitmap :: byte where "code_bitmap = 0x1"

definition mcs_result_successful :: byte where "mcs_result_successful = 0"
definition mcs_result_no_such_channel :: byte where "mcs_result_no_such_channel = 3"

datatype autodetect_mode = AutoDetectOff | AutoDetectContinuous | AutoDetectFull

record server_config =
  sv_min_desktop_size :: u16
  sv_max_desktop_size :: u16
  sv_max_bits_per_pixel :: u16
  sv_desktop_size :: "(u16 \<times> u16) option"
  sv_choose_desktop_size :: "(client_data \<Rightarrow> u16 \<times> u16) option"
  sv_autodetect :: autodetect_mode
  sv_autodetect_config :: autodetect_config
  sv_heartbeat_period :: int

datatype conn_state = WaitConnectInitial | WaitErectDomain | WaitAttachUser | WaitChannelJoins
  | ConnectTimeAutodetect | WaitConfirmActive | Finalizing | ConnActive | ConnClosed

record pointer_support =
  ps_color_cache_size :: u16
  ps_cache_size :: u16
  ps_large_flags :: u16

record session =
  se_negotiation :: negotiation
  se_client_data :: client_data
  se_user_channel_id :: u16
  se_message_channel_id :: "u16 option"
  se_static_channels :: "(bytes \<times> u16) list"
  se_user_name :: bytes
  se_domain :: bytes
  se_info_flags :: u32
  se_share_id :: u32
  se_desktop_width :: u16
  se_desktop_height :: u16
  se_bits_per_pixel :: u16
  se_client_capabilities :: capability_sets
  se_fastpath_output :: bool
  se_no_bitmap_compression_header :: bool
  se_max_request_size :: u32
  se_supports_error_info :: bool
  se_pointer :: pointer_support
  se_autodetect :: bool
  se_heartbeat :: bool

datatype close_reason = CloseReason string | CloseError error

datatype conn_event =
    EvClientInfo bytes bytes bytes u32 "auto_reconnect_cookie option"
  | EvActivated bool
  | EvInput "input_event list"
  | EvRefreshRequested "rectangle16 list"
  | EvOutputSuppressed bool "rectangle16 option"
  | EvChannelData u16 bytes
  | EvShutdownRequested
  | EvClosed close_reason bool

record connection =
  cn_config :: server_config
  cn_state :: conn_state
  cn_session :: session
  cn_input :: bytes
  cn_output :: writer
  cn_events :: "conn_event list"
  cn_reactivating :: bool
  cn_joined_channels :: "u16 list"
  cn_autodetect :: autodetect
  cn_now :: int
  cn_last_output :: int

type_synonym handled = "(unit result \<times> connection) option"

definition lower_case :: "byte \<Rightarrow> byte" where
  "lower_case c = (if 0x41 \<le> c \<and> c \<le> 0x5A then c - 0x41 + 0x61 else c)"

definition static_channel_id :: "bytes \<Rightarrow> session \<Rightarrow> u16 option" where
  "static_channel_id name se =
     map_option snd (find (\<lambda>channel. length (fst channel) = length name \<and>
       list_all2 (\<lambda>a b. lower_case a = lower_case b) (fst channel) name) (se_static_channels se))"

definition supports_gfx :: "session \<Rightarrow> bool" where
  "supports_gfx se \<longleftrightarrow> has_early_flag (cl_core (se_client_data se)) early_support_dynvc_gfx_protocol \<and>
     se_bits_per_pixel se = 32 \<and> static_channel_id (bytes_of_string ''drdynvc'') se \<noteq> None"

definition choose_bits_per_pixel :: "client_core_data \<Rightarrow> u16 \<Rightarrow> u16" where
  "choose_bits_per_pixel core max_bpp =
     (let supported = (case supported_color_depths core of Some v \<Rightarrow> v | None \<Rightarrow> 0) in
      if max_bpp \<ge> 32 \<and> supported AND depth_support_bpp32 \<noteq> 0 then 32
      else if max_bpp \<ge> 24 \<and> (supported AND depth_support_bpp24 \<noteq> 0 \<or> high_color_depth core = Some 24) then 24
      else 16)"

definition server_capabilities :: "session \<Rightarrow> capability_sets" where
  "server_capabilities se =
     (let tiles = ((ucast (se_desktop_width se) + 63 :: u32) div 64) * ((ucast (se_desktop_height se) + 63 :: u32) div 64) in
      no_capability_sets\<lparr>
        cs_general := Some \<lparr>os_major_type = 0x0004, os_minor_type = 0, protocol_version = 0x0200,
          general_compression_types = 0,
          extra_flags = extra_fastpath_output OR extra_long_credentials OR extra_no_bitmap_compression_hdr,
          update_capability_flag = 0, remote_unshare_flag = 0, general_compression_level = 0,
          refresh_rect_support = 1, suppress_output_support = 1\<rparr>,
        cs_bitmap := Some \<lparr>preferred_bits_per_pixel = se_bits_per_pixel se, receive_1_bit_per_pixel = 1,
          receive_4_bits_per_pixel = 1, receive_8_bits_per_pixel = 1, bm_desktop_width = se_desktop_width se,
          bm_desktop_height = se_desktop_height se, desktop_resize_flag = 1, bitmap_compression_flag = 1,
          high_color_flags = 0, drawing_flags = 0, multiple_rectangle_support = 1\<rparr>,
        cs_order := Some \<lparr>terminal_descriptor = replicate 16 0, desktop_save_x_granularity = 1,
          desktop_save_y_granularity = 20, maximum_order_level = 1, number_fonts = 0,
          order_flags = 0x0002 OR 0x0008 OR 0x0020, order_support = replicate 32 0, text_flags = 0,
          order_support_ex_flags = 0, desktop_save_size = 480 * 480, text_ansi_code_page = 0\<rparr>,
        cs_pointer := Some \<lparr>color_pointer_flag = 1, color_pointer_cache_size = pointer_cache_slots,
          pointer_cache_size = Some pointer_cache_slots\<rparr>,
        cs_large_pointer := Some \<lparr>lp_support_flags = large_pointer_96x96 OR large_pointer_384x384\<rparr>,
        cs_input := Some \<lparr>input_flags = 0x0001 OR 0x0004 OR 0x0010 OR 0x0008 OR 0x0020 OR 0x0100,
          keyboard_layout = 0, keyboard_type = 0, keyboard_subtype = 0, keyboard_function_keys = 0, ime_file_name = []\<rparr>,
        cs_virtual_channel := Some \<lparr>vc_flags = 0, vc_chunk_size = Some channel_chunk_length\<rparr>,
        cs_share := Some \<lparr>node_id = mcs_server_channel_id\<rparr>,
        cs_font := Some \<lparr>font_support_flags = 0x0001\<rparr>,
        cs_multifragment_update := Some \<lparr>max_request_size = (tiles + 1) * 16384\<rparr>\<rparr>)"

definition clamp :: "'a::linorder \<Rightarrow> 'a \<Rightarrow> 'a \<Rightarrow> 'a" where
  "clamp v lo hi = (if v < lo then lo else if hi < v then hi else v)"

definition no_session :: "negotiation \<Rightarrow> session" where
  "no_session neg = \<lparr>se_negotiation = neg, se_client_data = no_client_data, se_user_channel_id = 0,
     se_message_channel_id = None, se_static_channels = [], se_user_name = [], se_domain = [], se_info_flags = 0,
     se_share_id = 0, se_desktop_width = 0, se_desktop_height = 0, se_bits_per_pixel = 32,
     se_client_capabilities = no_capability_sets, se_fastpath_output = False, se_no_bitmap_compression_header = False,
     se_max_request_size = 0, se_supports_error_info = False,
     se_pointer = \<lparr>ps_color_cache_size = 0, ps_cache_size = 0, ps_large_flags = 0\<rparr>,
     se_autodetect = False, se_heartbeat = False\<rparr>"

definition cn_new :: "server_config \<Rightarrow> negotiation \<Rightarrow> connection" where
  "cn_new config neg = \<lparr>cn_config = config, cn_state = WaitConnectInitial, cn_session = no_session neg, cn_input = [],
     cn_output = [], cn_events = [], cn_reactivating = False, cn_joined_channels = [],
     cn_autodetect = ad_new (sv_autodetect_config config), cn_now = 0, cn_last_output = 0\<rparr>"

section \<open>Model: output\<close>

definition cn_event :: "conn_event \<Rightarrow> connection \<Rightarrow> connection" where
  "cn_event e st = st\<lparr>cn_events := cn_events st @ [e]\<rparr>"

definition cn_fail :: "close_reason \<Rightarrow> connection \<Rightarrow> connection" where
  "cn_fail reason st = cn_event (EvClosed reason True) (st\<lparr>cn_state := ConnClosed\<rparr>)"

definition cn_close :: "string \<Rightarrow> connection \<Rightarrow> connection" where
  "cn_close reason st = cn_event (EvClosed (CloseReason reason) False) (st\<lparr>cn_state := ConnClosed\<rparr>)"

definition write_domain_pdu :: "domain_pdu \<Rightarrow> writer \<Rightarrow> writer option" where
  "write_domain_pdu pdu w = do {
     let (tpkt, w) = begin_data_tpdu w;
     w \<leftarrow> encode_domain_pdu pdu w;
     end_tpkt tpkt w
   }"

definition send_domain_pdu :: "domain_pdu \<Rightarrow> connection \<Rightarrow> connection option" where
  "send_domain_pdu pdu st = do { w \<leftarrow> write_domain_pdu pdu (cn_output st); Some (st\<lparr>cn_output := w\<rparr>) }"

definition send_io :: "bytes \<Rightarrow> connection \<Rightarrow> connection option" where
  "send_io payload = send_domain_pdu (SendDataIndication mcs_server_channel_id mcs_io_channel_id payload)"

definition send_data_pdu :: "data_pdu \<Rightarrow> connection \<Rightarrow> connection option" where
  "send_data_pdu pdu st = do {
     payload \<leftarrow> encode_payload pdu [];
     data \<leftarrow> write_data_pdu (se_share_id (cn_session st)) mcs_server_channel_id (type2_of pdu) payload [];
     send_io data st
   }"

definition write_message_channel :: "u16 \<Rightarrow> bytes \<Rightarrow> connection \<Rightarrow> writer \<Rightarrow> writer option" where
  "write_message_channel flags payload st out = do {
     channel \<leftarrow> se_message_channel_id (cn_session st);
     let data = w_bytes payload (write_basic_security_header flags []);
     write_domain_pdu (SendDataIndication mcs_server_channel_id channel data) out
   }"

definition send_autodetect :: "ad_request \<Rightarrow> connection \<Rightarrow> writer \<Rightarrow> writer option" where
  "send_autodetect request st out = do {
     payload \<leftarrow> encode_request request [];
     write_message_channel sec_autodetect_req payload st out
   }"

fun send_autodetects :: "ad_request list \<Rightarrow> connection \<Rightarrow> connection option" where
  "send_autodetects [] st = Some st"
| "send_autodetects (q # qs) st = do {
     w \<leftarrow> send_autodetect q st (cn_output st);
     send_autodetects qs (st\<lparr>cn_output := w\<rparr>)
   }"

definition send_demand_active :: "connection \<Rightarrow> connection option" where
  "send_demand_active st = do {
     let demand = \<lparr>da_share_id = se_share_id (cn_session st), da_source_descriptor = bytes_of_string ''RDP'',
       da_capabilities = server_capabilities (cn_session st), da_session_id = 0\<rparr>;
     pdu \<leftarrow> encode_demand_active mcs_server_channel_id demand [];
     st \<leftarrow> send_io pdu st;
     Some (st\<lparr>cn_state := WaitConfirmActive\<rparr>)
   }"

definition start_licensing :: "connection \<Rightarrow> connection option" where
  "start_licensing st = do {
     st \<leftarrow> send_io (encode_license_valid_client []) st;
     let se = cn_session st;
     send_demand_active (st\<lparr>cn_session := se\<lparr>se_share_id := 0x00010000 OR ucast (se_user_channel_id se)\<rparr>\<rparr>)
   }"

definition finish_connect_time_autodetect :: "connection \<Rightarrow> connection option" where
  "finish_connect_time_autodetect st = do {
     let (r, ad) = network_characteristics_result (cn_autodetect st);
     let st = st\<lparr>cn_autodetect := ad\<rparr>;
     st \<leftarrow> (case r of None \<Rightarrow> Some st | Some result \<Rightarrow> send_autodetects [NetworkCharacteristicsResult result] st);
     start_licensing st
   }"

section \<open>Model: the connection sequence\<close>

text \<open>\<open>FARLAND_TRY\<close> in a handler: an error is returned next to the state reached.\<close>

definition cn_try :: "'a result \<Rightarrow> connection \<Rightarrow> ('a \<Rightarrow> handled) \<Rightarrow> handled" where
  "cn_try res st k = (case res of Inl e \<Rightarrow> Some (Inl e, st) | Inr v \<Rightarrow> k v)"

definition cn_ok :: "connection option \<Rightarrow> handled" where
  "cn_ok res = map_option (\<lambda>st. (Inr (), st)) res"

definition cn_error :: "string \<Rightarrow> nat \<Rightarrow> connection \<Rightarrow> handled" where
  "cn_error what off st = Some (fail InvalidValue what off, st)"

fun assign_channels :: "u16 \<Rightarrow> channel_def list \<Rightarrow> (bytes \<times> u16) list \<times> u16" where
  "assign_channels next_id [] = ([], next_id)"
| "assign_channels next_id (channel # channels) =
     (let (rest, n) = assign_channels (next_id + 1) channels in ((cd_name channel, next_id) # rest, n))"

definition client_channels :: "client_data \<Rightarrow> channel_def list" where
  "client_channels client = (case cl_network client of None \<Rightarrow> [] | Some net \<Rightarrow> net_channels net)"

definition desktop_size_for :: "server_config \<Rightarrow> client_data \<Rightarrow> u16 \<times> u16" where
  "desktop_size_for config client = (case sv_choose_desktop_size config of
     Some pick \<Rightarrow> pick client
   | None \<Rightarrow> (case sv_desktop_size config of
       Some sz \<Rightarrow> sz
     | None \<Rightarrow> (core_desktop_width (cl_core client), core_desktop_height (cl_core client))))"

text \<open>
  What \<open>on_connect_initial\<close> makes of the client's data blocks: the session, with the channel
  identifiers assigned behind the I/O channel (static channels, message channel, user channel), and
  the server's own data blocks.
\<close>

definition accept_client :: "server_config \<Rightarrow> client_data \<Rightarrow> session \<Rightarrow> session" where
  "accept_client config client se =
     (let core = cl_core client;
          (width, height) = desktop_size_for config client;
          (channels, next_id) = assign_channels (mcs_io_channel_id + 1) (client_channels client);
          se = se\<lparr>
            se_desktop_width := clamp width (sv_min_desktop_size config) (sv_max_desktop_size config),
            se_desktop_height := clamp height (sv_min_desktop_size config) (sv_max_desktop_size config),
            se_bits_per_pixel := choose_bits_per_pixel core (sv_max_bits_per_pixel config),
            se_supports_error_info := has_early_flag core early_support_errinfo_pdu,
            se_static_channels := se_static_channels se @ channels\<rparr>
      in if cl_message_channel client \<noteq> None
         then se\<lparr>se_message_channel_id := Some next_id, se_user_channel_id := next_id + 1\<rparr>
         else se\<lparr>se_user_channel_id := next_id\<rparr>)"

definition server_data_for :: "negotiation \<Rightarrow> client_data \<Rightarrow> server_data" where
  "server_data_for neg client =
     (let core = cl_core client;
          (channels, next_id) = assign_channels (mcs_io_channel_id + 1) (client_channels client)
      in no_server_data\<lparr>
           sv_core := \<lparr>sc_version = clamp (core_version core) rdp_version_5_plus max_rdp_version,
             client_requested_protocols = Some (ng_requested_protocols neg),
             sc_early_capability_flags = Some (if has_early_flag core early_support_skip_channeljoin
               then sc_skip_channeljoin_supported else 0)\<rparr>,
           sv_network := \<lparr>io_channel_id = mcs_io_channel_id, channel_ids = map snd channels\<rparr>,
           sv_message_channel_id := (if cl_message_channel client \<noteq> None then Some next_id else None)\<rparr>)"

definition on_connect_initial :: "reader \<Rightarrow> connection \<Rightarrow> handled" where
  "on_connect_initial data st =
     cn_try (fst (decode_connect_initial data)) st (\<lambda>initial.
     cn_try (fst (decode_conference_create_request (mk_reader (ci_user_data initial) 0))) st (\<lambda>blocks.
     cn_try (fst (decode_client_data (mk_reader blocks 0))) st (\<lambda>client.
     let st = st\<lparr>cn_session := (cn_session st)\<lparr>se_client_data := client\<rparr>\<rparr>;
         core = cl_core client;
         neg = se_negotiation (cn_session st) in
     if server_selected_protocol core \<noteq> None \<and> server_selected_protocol core \<noteq> Some (ng_selected_protocol neg)
     then cn_ok (Some (cn_close ''serverSelectedProtocol does not match the negotiated protocol'' st))
     else do {
       let se = accept_client (cn_config st) client (cn_session st);
       server_blocks \<leftarrow> encode_server_data (server_data_for neg client) [];
       conference \<leftarrow> encode_conference_create_response server_blocks [];
       let response = \<lparr>crs_result = 0, crs_called_connect_id = 0,
         crs_parameters = negotiate_domain_parameters initial, crs_user_data = conference\<rparr>;
       let (start, w) = begin_data_tpdu (cn_output st);
       w \<leftarrow> encode_connect_response response w;
       w \<leftarrow> end_tpkt start w;
       Some (Inr (), st\<lparr>cn_session := se, cn_output := w, cn_state := WaitErectDomain\<rparr>)
     })))"

definition channel_known :: "u16 \<Rightarrow> session \<Rightarrow> bool" where
  "channel_known channel_id se = list_ex (\<lambda>c. snd c = channel_id) (se_static_channels se)"

definition on_channel_join :: "u16 \<Rightarrow> u16 \<Rightarrow> connection \<Rightarrow> handled" where
  "on_channel_join initiator channel_id st =
     (let se = cn_session st in
      if initiator \<noteq> se_user_channel_id se
      then cn_error ''Channel Join Request from an unknown user'' 0 st
      else
        let allowed = (channel_id = se_user_channel_id se \<or> channel_id = mcs_io_channel_id \<or>
              se_message_channel_id se = Some channel_id \<or> channel_known channel_id se);
            res = (if allowed then mcs_result_successful else mcs_result_no_such_channel);
            st = (if allowed then st\<lparr>cn_joined_channels := cn_joined_channels st @ [channel_id]\<rparr> else st)
        in cn_ok (send_domain_pdu (ChannelJoinConfirm res (se_user_channel_id se) channel_id
             (if allowed then Some channel_id else None)) st))"

definition message_channel_joined :: "connection \<Rightarrow> bool" where
  "message_channel_joined st = (case se_message_channel_id (cn_session st) of
     None \<Rightarrow> False
   | Some channel \<Rightarrow> has_early_flag (cl_core (se_client_data (cn_session st))) early_support_skip_channeljoin \<or>
       channel \<in> set (cn_joined_channels st))"

definition record_client_info :: "client_info \<Rightarrow> connection \<Rightarrow> connection" where
  "record_client_info info st =
     (let st = st\<lparr>cn_session := (cn_session st)\<lparr>se_user_name := ci_user_name info, se_domain := ci_domain info,
            se_info_flags := ci_flags info\<rparr>\<rparr>;
          cookie = (case ci_extended info of None \<Rightarrow> None | Some ext \<Rightarrow> ext_auto_reconnect_cookie ext);
          st = cn_event (EvClientInfo (ci_domain info) (ci_user_name info) (ci_password info) (ci_flags info) cookie) st;
          core = cl_core (se_client_data (cn_session st));
          channel = message_channel_joined st
      in st\<lparr>cn_session := (cn_session st)\<lparr>
           se_autodetect := channel \<and> sv_autodetect (cn_config st) \<noteq> AutoDetectOff \<and>
             has_early_flag core early_support_netchar_autodetect,
           se_heartbeat := channel \<and> has_early_flag core early_support_heartbeat_pdu\<rparr>\<rparr>)"

definition on_client_info :: "reader \<Rightarrow> connection \<Rightarrow> handled" where
  "on_client_info data st =
     (case read_basic_security_header data of
       (Inl e, _) \<Rightarrow> Some (Inl e, st)
     | (Inr flags, data) \<Rightarrow>
       if flags AND sec_info_pkt = 0 then cn_error ''expected the Client Info PDU'' (rd_offset data) st
       else cn_try (fst (decode_client_info data)) st (\<lambda>info.
         let st = record_client_info info st in
         if se_autodetect (cn_session st) \<and> sv_autodetect (cn_config st) = AutoDetectFull
         then (let (requests, ad) = start_connect_time (cn_now st) (cn_autodetect st)
               in cn_ok (send_autodetects requests (st\<lparr>cn_state := ConnectTimeAutodetect, cn_autodetect := ad\<rparr>)))
         else cn_ok (start_licensing st)))"

definition on_message_channel :: "reader \<Rightarrow> connection \<Rightarrow> handled" where
  "on_message_channel data st =
     (case read_basic_security_header data of
       (Inl e, _) \<Rightarrow> Some (Inl e, st)
     | (Inr flags, data) \<Rightarrow>
       if flags AND sec_autodetect_rsp = 0 then cn_ok (Some st)
       else (case fst (decode_response data) of
         Inl e \<Rightarrow> cn_ok (Some st)
       | Inr response \<Rightarrow>
           let st = st\<lparr>cn_autodetect := on_response response (cn_now st) (cn_autodetect st)\<rparr> in
           if cn_state st = ConnectTimeAutodetect \<and> connect_time_complete (cn_now st) (cn_autodetect st)
           then cn_ok (finish_connect_time_autodetect st)
           else cn_ok (Some st)))"

definition agreed_pointer :: "capability_sets \<Rightarrow> pointer_support" where
  "agreed_pointer caps =
     \<lparr>ps_color_cache_size = (case cs_pointer caps of None \<Rightarrow> 0
        | Some p \<Rightarrow> min (color_pointer_cache_size p) pointer_cache_slots),
      ps_cache_size = (case cs_pointer caps of None \<Rightarrow> 0
        | Some p \<Rightarrow> min (case pointer_cache_size p of Some n \<Rightarrow> n | None \<Rightarrow> 0) pointer_cache_slots),
      ps_large_flags = (case cs_large_pointer caps of None \<Rightarrow> 0
        | Some l \<Rightarrow> lp_support_flags l AND (large_pointer_96x96 OR large_pointer_384x384))\<rparr>"

definition on_confirm_active :: "reader \<Rightarrow> connection \<Rightarrow> handled" where
  "on_confirm_active body st =
     (let start = rd_offset body in
      cn_try (fst (decode_confirm_active body)) st (\<lambda>confirm.
      if ca_share_id confirm \<noteq> se_share_id (cn_session st)
      then cn_error ''Confirm Active for another share'' start st
      else
        let caps = (ca_capabilities confirm)\<lparr>cs_other := []\<rparr> in
        (case (cs_general caps, cs_bitmap caps) of
          (Some general, Some bitmap) \<Rightarrow>
            let se = (cn_session st)\<lparr>
                  se_fastpath_output := (extra_flags general AND extra_fastpath_output \<noteq> 0),
                  se_no_bitmap_compression_header := (extra_flags general AND extra_no_bitmap_compression_hdr \<noteq> 0),
                  se_max_request_size := (case cs_multifragment_update caps of Some m \<Rightarrow> max_request_size m | None \<Rightarrow> 0),
                  se_pointer := agreed_pointer caps,
                  se_client_capabilities := caps\<rparr>;
                st = st\<lparr>cn_session := se, cn_state := Finalizing\<rparr>
            in cn_ok (do {
                 st \<leftarrow> send_data_pdu (Synchronize 1 (se_user_channel_id se)) st;
                 send_data_pdu (Control control_cooperate 0 0) st
               })
        | _ \<Rightarrow> cn_error ''Confirm Active without general or bitmap capabilities'' start st)))"

definition activate :: "connection \<Rightarrow> connection" where
  "activate st = (cn_event (EvActivated (cn_reactivating st)) (st\<lparr>cn_state := ConnActive\<rparr>))\<lparr>cn_reactivating := False\<rparr>"

definition on_data_pdu :: "reader \<Rightarrow> connection \<Rightarrow> handled" where
  "on_data_pdu body st =
     cn_try (fst (read_share_data body)) st (\<lambda>data.
     if sd_share_id data \<noteq> se_share_id (cn_session st) then cn_ok (Some st)
     else cn_try (fst (decode_data_pdu data)) st (\<lambda>pdu. cn_ok (case pdu of
       Control action grant control \<Rightarrow>
         if action = control_request
         then send_data_pdu (Control control_granted (se_user_channel_id (cn_session st)) (ucast mcs_server_channel_id)) st
         else Some st
     | FontList _ _ _ _ \<Rightarrow> do {
         st \<leftarrow> send_data_pdu (FontMap 0 0 0x0003 0x0004) st;
         Some (if cn_state st = Finalizing then activate st else st)
       }
     | InputPdu events \<Rightarrow> Some (if events \<noteq> [] then cn_event (EvInput events) st else st)
     | RefreshRect areas \<Rightarrow> Some (cn_event (EvRefreshRequested areas) st)
     | SuppressOutput allow rect \<Rightarrow> Some (cn_event (EvOutputSuppressed (\<not> allow) rect) st)
     | ShutdownRequest \<Rightarrow> Some (cn_event EvShutdownRequested st)
     | _ \<Rightarrow> Some st)))"

definition on_io_data :: "reader \<Rightarrow> connection \<Rightarrow> handled" where
  "on_io_data data st =
     cn_try (fst (read_share_control data)) st (\<lambda>control.
     if sc_type control = pdu_type_flow then cn_ok (Some st)
     else if sc_type control = pdu_type_confirm_active
     then (if cn_state st \<noteq> WaitConfirmActive then cn_ok (Some st) else on_confirm_active (sc_body control) st)
     else if sc_type control = pdu_type_data
     then (if cn_state st = WaitConfirmActive then cn_ok (Some st) else on_data_pdu (sc_body control) st)
     else cn_ok (Some st))"

definition on_fastpath_input :: "reader \<Rightarrow> connection \<Rightarrow> handled" where
  "on_fastpath_input pdu st =
     (if cn_state st \<noteq> Finalizing \<and> cn_state st \<noteq> ConnActive \<and> cn_state st \<noteq> WaitConfirmActive
      then cn_error ''fast-path input before the capability exchange'' 0 st
      else cn_try (fst (decode_fastpath_input pdu)) st (\<lambda>events.
        cn_ok (Some (if events \<noteq> [] \<and> cn_state st \<noteq> WaitConfirmActive then cn_event (EvInput events) st else st))))"

definition on_send_data :: "nat \<Rightarrow> u16 \<Rightarrow> u16 \<Rightarrow> bytes \<Rightarrow> connection \<Rightarrow> handled" where
  "on_send_data start initiator channel_id data st =
     (let se = cn_session st in
      if initiator \<noteq> se_user_channel_id se then cn_error ''MCS data from an unknown user'' start st
      else
        let payload = mk_reader data start in
        if channel_id = mcs_io_channel_id
        then (if cn_state st = WaitChannelJoins then on_client_info payload st else on_io_data payload st)
        else if se_message_channel_id se = Some channel_id then on_message_channel payload st
        else if \<not> channel_known channel_id se then cn_error ''MCS data on an unknown channel'' start st
        else cn_ok (Some (cn_event (EvChannelData channel_id data) st)))"

definition on_domain_pdu :: "reader \<Rightarrow> connection \<Rightarrow> handled" where
  "on_domain_pdu data st =
     (let start = rd_offset data in
      cn_try (fst (decode_domain_pdu data)) st (\<lambda>pdu. case pdu of
        DisconnectProviderUltimatum _ \<Rightarrow> cn_ok (Some (cn_close ''client disconnected'' st))
      | _ \<Rightarrow>
        if cn_state st = WaitErectDomain then
          (case pdu of
            ErectDomainRequest _ _ \<Rightarrow> cn_ok (Some (st\<lparr>cn_state := WaitAttachUser\<rparr>))
          | _ \<Rightarrow> cn_error ''expected MCS Erect Domain Request'' start st)
        else if cn_state st = WaitAttachUser then
          (case pdu of
            AttachUserRequest \<Rightarrow> cn_ok (do {
              st \<leftarrow> send_domain_pdu (AttachUserConfirm mcs_result_successful (Some (se_user_channel_id (cn_session st)))) st;
              Some (st\<lparr>cn_state := WaitChannelJoins\<rparr>)
            })
          | _ \<Rightarrow> cn_error ''expected MCS Attach User Request'' start st)
        else
          (case pdu of
            ChannelJoinRequest initiator channel_id \<Rightarrow>
              if cn_state st \<noteq> WaitChannelJoins
              then cn_error ''MCS Channel Join Request after the joins'' start st
              else on_channel_join initiator channel_id st
          | SendDataRequest initiator channel_id payload \<Rightarrow> on_send_data start initiator channel_id payload st
          | _ \<Rightarrow> cn_error ''unexpected MCS domain PDU'' start st)))"

definition handle_pdu :: "frame_kind \<Rightarrow> bytes \<Rightarrow> connection \<Rightarrow> handled" where
  "handle_pdu kind pdu st =
     (let r = mk_reader pdu 0 in
      if kind = FrameFastpath then on_fastpath_input r st
      else cn_try (fst (read_tpkt r)) st (\<lambda>tpdu.
        cn_try (peek_tpdu_code tpdu) st (\<lambda>code.
        if code = TpduDisconnectRequest
        then cn_ok (Some (cn_close ''client sent an X.224 Disconnect Request'' st))
        else if code \<noteq> TpduData then cn_error ''unexpected X.224 TPDU'' (rd_offset tpdu) st
        else cn_try (fst (decode_data_tpdu tpdu)) st (\<lambda>data.
          if cn_state st = WaitConnectInitial then on_connect_initial data st else on_domain_pdu data st))))"

text \<open>
  The loop of \<open>receive\<close> with the buffer as an argument of its own (no handler reads or writes
  it), and the check behind the loop.
\<close>

definition check_buffered :: "bytes \<Rightarrow> connection \<Rightarrow> connection" where
  "check_buffered input st = (let st = st\<lparr>cn_input := input\<rparr> in
     if length input > max_buffered_input then cn_fail (CloseReason ''too much unframed input'') st else st)"

function receive_loop :: "bytes \<Rightarrow> connection \<Rightarrow> connection option" where
  "receive_loop input st =
     (if cn_state st = ConnClosed then Some (check_buffered input st)
      else case peek_frame input of
        Inl e \<Rightarrow> Some (cn_fail (CloseError e) (st\<lparr>cn_input := input\<rparr>))
      | Inr None \<Rightarrow> Some (check_buffered input st)
      | Inr (Some frame) \<Rightarrow>
          let n = fi_length frame in
          if length input < n then Some (check_buffered input st)
          else (case handle_pdu (fi_kind frame) (take n input) st of
              None \<Rightarrow> None
            | Some (Inl e, st) \<Rightarrow> Some (cn_fail (CloseError e) (st\<lparr>cn_input := drop n input\<rparr>))
            | Some (Inr _, st) \<Rightarrow> receive_loop (drop n input) st))"
  by pat_completeness auto
termination
  by (relation "measure (\<lambda>(input, _). length input)") (auto dest: peek_frame_positive)

declare receive_loop.simps [simp del]

definition cn_receive :: "bytes \<Rightarrow> connection \<Rightarrow> connection option" where
  "cn_receive bs st = (if cn_state st = ConnClosed then Some st else receive_loop (cn_input st @ bs) st)"

definition cn_take_output :: "connection \<Rightarrow> (bytes \<times> connection) option" where
  "cn_take_output st =
     (let bs = cn_output st; st = st\<lparr>cn_output := []\<rparr> in
      if bs = [] then Some (bs, st)
      else
        let st = st\<lparr>cn_last_output := cn_now st\<rparr> in
        if cn_state st \<noteq> ConnActive \<or> \<not> se_autodetect (cn_session st) \<or> sv_autodetect (cn_config st) = AutoDetectOff \<or>
           \<not> bandwidth_measurement_due (cn_now st) (length bs) (cn_autodetect st)
        then Some (bs, st)
        else do {
          let (q, ad) = start_bandwidth_measurement (cn_now st) (cn_autodetect st);
          let st = st\<lparr>cn_autodetect := ad\<rparr>;
          framed \<leftarrow> send_autodetect q st [];
          framed \<leftarrow> send_autodetect (stop_bandwidth_measurement ad) st (w_bytes bs framed);
          Some (framed, st)
        })"

definition send_heartbeat :: "connection \<Rightarrow> connection option" where
  "send_heartbeat st = do {
     let heartbeat = \<lparr>hb_period_seconds = of_int (min (sv_heartbeat_period (cn_config st)) 0xFF),
       hb_warning_count = heartbeat_warning_count, hb_reconnect_count = heartbeat_reconnect_count\<rparr>;
     w \<leftarrow> write_message_channel sec_heartbeat (encode_heartbeat heartbeat []) st (cn_output st);
     Some (st\<lparr>cn_output := w, cn_last_output := cn_now st\<rparr>)
   }"

definition send_probe :: "int \<Rightarrow> connection \<Rightarrow> connection option" where
  "send_probe now st =
     (if se_autodetect (cn_session st)
      then (case poll_rtt_request now (cn_autodetect st) of
          (None, ad) \<Rightarrow> Some (st\<lparr>cn_autodetect := ad\<rparr>)
        | (Some q, ad) \<Rightarrow> do {
            st \<leftarrow> send_autodetects [q] (st\<lparr>cn_autodetect := ad\<rparr>);
            Some (st\<lparr>cn_last_output := now\<rparr>)
          })
      else Some st)"

definition cn_tick :: "int \<Rightarrow> connection \<Rightarrow> connection option" where
  "cn_tick now st =
     (let st = st\<lparr>cn_now := now\<rparr> in
      if cn_state st = ConnectTimeAutodetect \<and> connect_time_complete now (cn_autodetect st)
      then finish_connect_time_autodetect st
      else if cn_state st \<noteq> ConnActive then Some st
      else do {
        st \<leftarrow> send_probe now st;
        if se_heartbeat (cn_session st) \<and> sv_heartbeat_period (cn_config st) > 0 \<and>
           now - cn_last_output st \<ge> sv_heartbeat_period (cn_config st) * 1000000000
        then send_heartbeat st
        else Some st
      })"

definition cn_poll_event :: "connection \<Rightarrow> conn_event option \<times> connection" where
  "cn_poll_event st = (case cn_events st of [] \<Rightarrow> (None, st) | e # es \<Rightarrow> (Some e, st\<lparr>cn_events := es\<rparr>))"

section \<open>Model: commands\<close>

definition max_update_size :: "connection \<Rightarrow> nat" where
  "max_update_size st =
     (if \<not> se_fastpath_output (cn_session st) then slow_path_update_limit
      else if se_max_request_size (cn_session st) = 0 then max_fragment_size
      else min (unat (se_max_request_size (cn_session st))) (2 ^ 20))"

definition send_slow_path :: "byte \<Rightarrow> bytes \<Rightarrow> connection \<Rightarrow> connection option" where
  "send_slow_path type2 payload st = do {
     pdu \<leftarrow> write_data_pdu (se_share_id (cn_session st)) mcs_server_channel_id type2 payload [];
     send_io pdu st
   }"

definition send_bitmap_update :: "bytes \<Rightarrow> connection \<Rightarrow> connection option" where
  "send_bitmap_update update_data st =
     (if cn_state st \<noteq> ConnActive then Some st
      else if se_fastpath_output (cn_session st)
      then do { w \<leftarrow> encode_update code_bitmap update_data max_fragment_size (cn_output st); Some (st\<lparr>cn_output := w\<rparr>) }
      else send_slow_path type2_update update_data st)"

definition send_pointer :: "pointer_update \<Rightarrow> connection \<Rightarrow> connection option" where
  "send_pointer upd st =
     (if cn_state st \<noteq> ConnActive then Some st
      else if se_fastpath_output (cn_session st)
      then do {
        (code, data) \<leftarrow> encode_fastpath upd [];
        w \<leftarrow> encode_update code data max_fragment_size (cn_output st);
        Some (st\<lparr>cn_output := w\<rparr>)
      }
      else do {
        payload \<leftarrow> encode_slow_path upd [];
        send_slow_path type2_pointer payload st
      })"

definition send_save_session_info :: "logon_info_extended \<Rightarrow> connection \<Rightarrow> connection option" where
  "send_save_session_info info st =
     (if cn_state st \<noteq> ConnActive then Some st
      else send_slow_path type2_save_session_info (encode_save_session_info info []) st)"

definition reactivate :: "u16 \<Rightarrow> u16 \<Rightarrow> connection \<Rightarrow> connection option" where
  "reactivate width height st =
     (if cn_state st \<noteq> ConnActive then Some st
      else do {
        pdu \<leftarrow> encode_deactivate_all mcs_server_channel_id \<lparr>de_share_id = se_share_id (cn_session st)\<rparr> [];
        st \<leftarrow> send_io pdu st;
        let config = cn_config st;
        let se = cn_session st;
        send_demand_active (st\<lparr>cn_session := se\<lparr>
            se_desktop_width := clamp width (sv_min_desktop_size config) (sv_max_desktop_size config),
            se_desktop_height := clamp height (sv_min_desktop_size config) (sv_max_desktop_size config),
            se_share_id := se_share_id se + 0x00010000\<rparr>,
          cn_reactivating := True\<rparr>)
      })"

definition share_exists :: "conn_state \<Rightarrow> bool" where
  "share_exists s \<longleftrightarrow> s = WaitConfirmActive \<or> s = Finalizing \<or> s = ConnActive"

definition cn_disconnect :: "u32 \<Rightarrow> connection \<Rightarrow> connection option" where
  "cn_disconnect error_info st =
     (if cn_state st = ConnClosed then Some st
      else do {
        st \<leftarrow> (if share_exists (cn_state st) \<and> se_supports_error_info (cn_session st) \<and> error_info \<noteq> errinfo_none
          then send_data_pdu (SetErrorInfo error_info) st else Some st);
        st \<leftarrow> (if cn_state st \<noteq> WaitConnectInitial
          then send_domain_pdu (DisconnectProviderUltimatum
            (if error_info = errinfo_logoff_by_user then UserRequested else ProviderInitiated)) st
          else Some st);
        Some (cn_close ''server disconnected the session'' st)
      })"

definition send_channel_data :: "u16 \<Rightarrow> bytes \<Rightarrow> connection \<Rightarrow> connection option" where
  "send_channel_data channel_id chunk st =
     (if cn_state st = ConnClosed then Some st
      else do {
        wassert (share_exists (cn_state st));
        wassert (channel_known channel_id (cn_session st));
        send_domain_pdu (SendDataIndication mcs_server_channel_id channel_id chunk) st
      })"

end
