(* ===== verification/Connection_Safety.thy ===== *)
theory Connection_Safety
  imports Connection
begin

text \<open>
  What holds of every connection, whatever the client sends: nothing it sends and no command within
  its contract fails an assertion, the session stays well formed, the state follows the phases of
  the protocol, and a connection that is closed stays closed.
\<close>

section \<open>Sending never fails\<close>

text \<open>An operation that only appends to the output.\<close>

definition appends :: "(connection \<Rightarrow> connection option) \<Rightarrow> connection \<Rightarrow> bool" where
  "appends f st \<longleftrightarrow> (\<exists>bs. f st = Some (st\<lparr>cn_output := cn_output st @ bs\<rparr>))"

lemma appendsI: "f st = Some (st\<lparr>cn_output := cn_output st @ bs\<rparr>) \<Longrightarrow> appends f st"
  by (auto simp: appends_def)

lemma appendsE:
  assumes "appends f st"
  obtains bs where "f st = Some (st\<lparr>cn_output := cn_output st @ bs\<rparr>)"
  using assms by (auto simp: appends_def)

lemma length_domain_pdu_enc: "domain_pdu_ok pdu \<Longrightarrow> length (domain_pdu_enc pdu) \<le> per_max_length + 20"
  by (cases pdu rule: domain_pdu_enc.cases)
    (auto simp: domain_pdu_ok_def send_data_enc_def per_length_enc_def per_integer_enc_def per_max_length_def)

lemma write_domain_pdu_enc:
  assumes "domain_pdu_ok pdu"
  shows "write_domain_pdu pdu w = Some (w @ tpkt_enc (data_enc (domain_pdu_enc pdu)))"
proof -
  have "7 + length (domain_pdu_enc pdu) \<le> max_tpkt_size"
    using length_domain_pdu_enc [OF assms] by (simp add: per_max_length_def max_tpkt_size_def)
  with data_tpdu_written [OF this, of w] encode_domain_pdu_enc [OF assms] show ?thesis
    by (simp add: write_domain_pdu_def case_prod_beta)
qed

lemma send_domain_pdu_appends: "domain_pdu_ok pdu \<Longrightarrow> appends (send_domain_pdu pdu) st"
  by (rule appendsI) (simp add: send_domain_pdu_def write_domain_pdu_enc)

lemma mcs_ids [simp]: "mcs_user_id_base \<le> mcs_server_channel_id"
  by (simp add: mcs_user_id_base_def mcs_server_channel_id_def)

lemma send_io_appends: "length payload \<le> per_max_length \<Longrightarrow> appends (send_io payload) st"
  unfolding send_io_def by (rule send_domain_pdu_appends) (simp add: domain_pdu_ok_def)

lemma length_share_data_enc [simp]: "length (share_data_enc share type2 payload) = 12 + length payload"
  by (simp add: share_data_enc_def)

lemma length_share_control_enc [simp]: "length (share_control_enc type source body) = 6 + length body"
  by (simp add: share_control_enc_def)

lemma send_slow_path_appends:
  assumes "length payload + 18 \<le> per_max_length"
  shows "appends (send_slow_path type2 payload) st"
proof -
  let ?d = "share_control_enc pdu_type_data mcs_server_channel_id (share_data_enc (se_share_id (cn_session st)) type2 payload)"
  have "appends (send_io ?d) st" using assms by (intro send_io_appends) simp
  with assms write_data_pdu_enc [of payload "se_share_id (cn_session st)" mcs_server_channel_id type2 "[]"]
  show ?thesis by (simp add: appends_def send_slow_path_def per_max_length_def)
qed

lemma send_data_pdu_appends:
  assumes "payload_ok pdu" "length (payload_enc pdu) + 18 \<le> per_max_length"
  shows "appends (send_data_pdu pdu) st"
  using send_slow_path_appends [OF assms(2), of "type2_of pdu" st] encode_payload_enc [OF assms(1), of "[]"]
  by (simp add: appends_def send_slow_path_def send_data_pdu_def)

lemma length_w_u8_power [simp]: "length ((w_u8 b ^^ n) w) = n + length w"
  by (induction n) (simp_all add: w_u8_def)

lemma server_capabilities_size: "length (caps_enc (server_capabilities se)) \<le> 1000"
  by (simp add: caps_enc_def caps_items_def slot_items_def server_capabilities_def Let_def no_capability_sets_def set_enc_def
      encode_general_def encode_bitmap_def encode_order_def encode_pointer_def encode_input_def encode_virtual_channel_def
      wr_simps utf8_to_utf16le_def ime_file_name_size_def)

lemma server_capabilities_ok: "exchange_ok (bytes_of_string ''RDP'') (server_capabilities se)"
proof -
  have "caps_ok (server_capabilities se)"
    by (simp add: caps_ok_def server_capabilities_def Let_def no_capability_sets_def order_ok_def input_ok_def
        utf8_to_utf16le_def)
  then show ?thesis
    using server_capabilities_size [of se] by (simp add: exchange_ok_def bytes_of_string_def max_source_descriptor_def)
qed

lemma send_demand_active_ok:
  "\<exists>bs. send_demand_active st = Some (st\<lparr>cn_output := cn_output st @ bs, cn_state := WaitConfirmActive\<rparr>)"
proof -
  let ?d = "\<lparr>da_share_id = se_share_id (cn_session st), da_source_descriptor = bytes_of_string ''RDP'',
       da_capabilities = server_capabilities (cn_session st), da_session_id = 0\<rparr>"
  let ?bs = "share_control_enc pdu_type_demand_active mcs_server_channel_id (demand_active_enc ?d)"
  have "encode_demand_active mcs_server_channel_id ?d [] = Some ([] @ ?bs)"
    by (rule demand_active.wr_pdu) (simp add: server_capabilities_ok)
  moreover have "appends (send_io ?bs) st"
    using server_capabilities_size [of "cn_session st"]
    by (intro send_io_appends) (simp add: demand_active_enc_def caps_block_def bytes_of_string_def per_max_length_def)
  ultimately show ?thesis by (auto simp: send_demand_active_def elim!: appendsE)
qed

lemma length_license_enc: "length license_enc \<le> 100"
  by (simp add: license_enc_def security_header_enc_def)

text \<open>The share a connection gets when licensing is over.\<close>

definition with_share :: "session \<Rightarrow> session" where
  "with_share se = se\<lparr>se_share_id := 0x00010000 OR ucast (se_user_channel_id se)\<rparr>"

lemma start_licensing_ok:
  "\<exists>bs. start_licensing st = Some (st\<lparr>cn_session := with_share (cn_session st), cn_output := cn_output st @ bs,
     cn_state := WaitConfirmActive\<rparr>)"
proof -
  have "encode_license_valid_client [] = license_enc" using license.wr_pdu [of "[]"] by simp
  moreover have "appends (send_io license_enc) st"
    using length_license_enc by (intro send_io_appends) (simp add: per_max_length_def)
  then obtain bs where "send_io license_enc st = Some (st\<lparr>cn_output := cn_output st @ bs\<rparr>)" by (rule appendsE)
  moreover obtain bs' where "send_demand_active (st\<lparr>cn_output := cn_output st @ bs, cn_session := with_share (cn_session st)\<rparr>) =
      Some (st\<lparr>cn_session := with_share (cn_session st), cn_output := cn_output st @ bs @ bs', cn_state := WaitConfirmActive\<rparr>)"
    using send_demand_active_ok [of "st\<lparr>cn_output := cn_output st @ bs, cn_session := with_share (cn_session st)\<rparr>"] by auto
  ultimately show ?thesis by (intro exI [of _ "bs @ bs'"]) (simp add: start_licensing_def Let_def with_share_def)
qed

section \<open>The message channel\<close>

lemma write_message_channel_ok:
  assumes "se_message_channel_id (cn_session st) \<noteq> None" "length payload + 4 \<le> per_max_length"
  shows "\<exists>bs. write_message_channel flags payload st w = Some (w @ bs)"
proof -
  obtain channel where "se_message_channel_id (cn_session st) = Some channel" using assms(1) by auto
  moreover have "domain_pdu_ok (SendDataIndication mcs_server_channel_id channel
      (w_bytes payload (write_basic_security_header flags [])))"
    using assms(2) by (simp add: domain_pdu_ok_def write_basic_security_header_def wr_simps)
  ultimately show ?thesis by (simp add: write_message_channel_def write_domain_pdu_enc)
qed

abbreviation sendable :: "ad_request \<Rightarrow> bool" where
  "sendable q \<equiv> request_ok q \<and> length (request_enc q) \<le> max_payload_size + 8"

lemma send_autodetect_ok:
  assumes "se_message_channel_id (cn_session st) \<noteq> None" "sendable q"
  shows "\<exists>bs. send_autodetect q st w = Some (w @ bs)"
proof -
  have "encode_request q [] = Some (request_enc q)" using assms(2) encode_request_enc [of q "[]"] by simp
  then show ?thesis
    using assms write_message_channel_ok [of st "request_enc q" sec_autodetect_req w]
    by (simp add: send_autodetect_def per_max_length_def max_payload_size_def)
qed

lemma send_autodetects_appends:
  assumes "se_message_channel_id (cn_session st) \<noteq> None" "list_all sendable qs"
  shows "appends (send_autodetects qs) st"
  using assms
proof (induction qs arbitrary: st)
  case Nil
  show ?case by (rule appendsI [of _ _ "[]"]) simp
next
  case (Cons q qs)
  obtain bs where "send_autodetect q st (cn_output st) = Some (cn_output st @ bs)"
    using send_autodetect_ok [of st q "cn_output st"] Cons.prems by auto
  moreover have "appends (send_autodetects qs) (st\<lparr>cn_output := cn_output st @ bs\<rparr>)"
    using Cons.prems by (intro Cons.IH) simp_all
  ultimately show ?case by (auto simp: appends_def)
qed

lemma finish_connect_time_autodetect_ok:
  assumes "se_message_channel_id (cn_session st) \<noteq> None"
  shows "\<exists>bs ad. finish_connect_time_autodetect st = Some (st\<lparr>cn_autodetect := ad,
     cn_session := with_share (cn_session st), cn_output := cn_output st @ bs, cn_state := WaitConfirmActive\<rparr>)"
proof -
  obtain r ad where nc: "network_characteristics_result (cn_autodetect st) = (r, ad)" by fastforce
  let ?st = "st\<lparr>cn_autodetect := ad\<rparr>"
  have "\<exists>bs. (case r of None \<Rightarrow> Some ?st | Some result \<Rightarrow> send_autodetects [NetworkCharacteristicsResult result] ?st) =
      Some (?st\<lparr>cn_output := cn_output st @ bs\<rparr>)"
  proof (cases r)
    case None
    then show ?thesis by (intro exI [of _ "[]"]) simp
  next
    case (Some result)
    then have "sendable (NetworkCharacteristicsResult result)" using netchar_result_ok [of "cn_autodetect st" result] nc by simp
    then have "appends (send_autodetects [NetworkCharacteristicsResult result]) ?st"
      using assms by (intro send_autodetects_appends) simp_all
    with Some show ?thesis by (auto simp: appends_def)
  qed
  then obtain bs where "(case r of None \<Rightarrow> Some ?st | Some result \<Rightarrow> send_autodetects [NetworkCharacteristicsResult result] ?st) =
      Some (?st\<lparr>cn_output := cn_output st @ bs\<rparr>)" by blast
  moreover obtain bs' where "start_licensing (?st\<lparr>cn_output := cn_output st @ bs\<rparr>) =
      Some (?st\<lparr>cn_session := with_share (cn_session st), cn_output := cn_output st @ bs @ bs', cn_state := WaitConfirmActive\<rparr>)"
    using start_licensing_ok [of "?st\<lparr>cn_output := cn_output st @ bs\<rparr>"] by auto
  ultimately show ?thesis
    using nc by (intro exI [of _ "bs @ bs'"] exI [of _ ad]) (simp add: finish_connect_time_autodetect_def)
qed

section \<open>What a caller sees\<close>

text \<open>
  The contract of a connection towards its caller: the phases of the protocol and the events each of
  them may report. One step of it is silent or reports one event. That refresh, input and similar
  requests may already be reported during the connect-time detection, before a share exists, is how
  the code behaves; so is the second close of a connection that is handed more than a mebibyte
  behind the PDU that closed it.
\<close>

definition request_event :: "conn_event \<Rightarrow> bool" where
  "request_event e = (case e of
     EvInput events \<Rightarrow> events \<noteq> [] | EvRefreshRequested _ \<Rightarrow> True | EvOutputSuppressed _ _ \<Rightarrow> True | EvShutdownRequested \<Rightarrow> True
   | _ \<Rightarrow> False)"

definition too_much_input :: conn_event where
  "too_much_input = EvClosed (CloseReason ''too much unframed input'') True"

inductive spec_step :: "conn_state \<Rightarrow> conn_event option \<Rightarrow> conn_state \<Rightarrow> bool" where
  connect: "spec_step WaitConnectInitial None WaitErectDomain"
| erect: "spec_step WaitErectDomain None WaitAttachUser"
| attach: "spec_step WaitAttachUser None WaitChannelJoins"
| detect: "spec_step WaitChannelJoins (Some (EvClientInfo d u p f c)) ConnectTimeAutodetect"
| license: "spec_step WaitChannelJoins (Some (EvClientInfo d u p f c)) WaitConfirmActive"
| detected: "spec_step ConnectTimeAutodetect None WaitConfirmActive"
| confirm: "spec_step WaitConfirmActive None Finalizing"
| finalized: "spec_step Finalizing (Some (EvActivated b)) ConnActive"
| resize: "spec_step ConnActive None WaitConfirmActive"
| request: "request_event e \<Longrightarrow> s \<in> {ConnectTimeAutodetect, Finalizing, ConnActive} \<Longrightarrow> spec_step s (Some e) s"
| channel: "s \<in> {WaitChannelJoins, ConnectTimeAutodetect, WaitConfirmActive, Finalizing, ConnActive} \<Longrightarrow>
    spec_step s (Some (EvChannelData i bs)) s"
| close: "s \<noteq> ConnClosed \<Longrightarrow> spec_step s (Some (EvClosed why err)) ConnClosed"
| overflow: "spec_step ConnClosed (Some too_much_input) ConnClosed"

inductive spec_path :: "conn_state \<Rightarrow> conn_event list \<Rightarrow> conn_state \<Rightarrow> bool" for s where
  here: "spec_path s [] s"
| silent: "spec_path s es s' \<Longrightarrow> spec_step s' None s'' \<Longrightarrow> spec_path s es s''"
| visible: "spec_path s es s' \<Longrightarrow> spec_step s' (Some e) s'' \<Longrightarrow> spec_path s (es @ [e]) s''"

inductive_cases spec_stepE: "spec_step s l s'"
inductive_simps spec_step_closed: "spec_step ConnClosed l s"
inductive_simps spec_step_active: "spec_step s l ConnActive"

lemma spec_path_trans: "spec_path s' es' s'' \<Longrightarrow> spec_path s es s' \<Longrightarrow> spec_path s (es @ es') s''"
proof (induction rule: spec_path.induct)
  case (visible es' t e t')
  then show ?case by (metis append.assoc spec_path.visible)
qed (simp_all add: spec_path.silent)

definition emits :: "connection \<Rightarrow> connection \<Rightarrow> bool" where
  "emits st st' \<longleftrightarrow> (\<exists>es. cn_events st' = cn_events st @ es \<and> spec_path (cn_state st) es (cn_state st'))"

lemma emits_same: "cn_events st' = cn_events st \<Longrightarrow> cn_state st' = cn_state st \<Longrightarrow> emits st st'"
  by (simp add: emits_def spec_path.here)

lemma emits_silent: "spec_step (cn_state st) None (cn_state st') \<Longrightarrow> cn_events st' = cn_events st \<Longrightarrow> emits st st'"
  using spec_path.silent [OF spec_path.here] by (simp add: emits_def)

lemma emits_visible: "spec_step (cn_state st) (Some e) (cn_state st') \<Longrightarrow> cn_events st' = cn_events st @ [e] \<Longrightarrow> emits st st'"
  using spec_path.visible [OF spec_path.here] by (simp add: emits_def)

lemma emits_trans: "emits st st' \<Longrightarrow> emits st' st'' \<Longrightarrow> emits st st''"
  unfolding emits_def by (metis append.assoc spec_path_trans)

section \<open>The invariant\<close>

definition channels_ok :: "session \<Rightarrow> bool" where
  "channels_ok se \<longleftrightarrow>
     (let n = length (se_static_channels se) in
      n \<le> max_static_channels \<and>
      map snd (se_static_channels se) = map (\<lambda>i. mcs_io_channel_id + 1 + of_nat i) [0..<n] \<and>
      (case se_message_channel_id se of
         None \<Rightarrow> se_user_channel_id se = mcs_io_channel_id + 1 + of_nat n
       | Some channel \<Rightarrow> channel = mcs_io_channel_id + 1 + of_nat n \<and> se_user_channel_id se = channel + 1))"

definition desktop_ok :: "server_config \<Rightarrow> session \<Rightarrow> bool" where
  "desktop_ok config se \<longleftrightarrow> (sv_min_desktop_size config \<le> sv_max_desktop_size config \<longrightarrow>
     se_desktop_width se \<in> {sv_min_desktop_size config .. sv_max_desktop_size config} \<and>
     se_desktop_height se \<in> {sv_min_desktop_size config .. sv_max_desktop_size config})"

definition share_ok :: "session \<Rightarrow> bool" where
  "share_ok se \<longleftrightarrow> ucast (se_share_id se) = se_user_channel_id se"

definition caps_agreed :: "session \<Rightarrow> bool" where
  "caps_agreed se \<longleftrightarrow> cs_general (se_client_capabilities se) \<noteq> None \<and> cs_bitmap (se_client_capabilities se) \<noteq> None \<and>
     ps_color_cache_size (se_pointer se) \<le> pointer_cache_slots \<and> ps_cache_size (se_pointer se) \<le> pointer_cache_slots"

definition cn_inv :: "connection \<Rightarrow> bool" where
  "cn_inv st \<longleftrightarrow>
     (let se = cn_session st; s = cn_state st in
      (s = WaitConnectInitial \<longrightarrow> se_static_channels se = [] \<and> se_message_channel_id se = None) \<and>
      (s \<notin> {WaitConnectInitial, ConnClosed} \<longrightarrow> channels_ok se \<and> desktop_ok (cn_config st) se) \<and>
      (se_autodetect se \<or> se_heartbeat se \<or> s = ConnectTimeAutodetect \<longrightarrow> se_message_channel_id se \<noteq> None) \<and>
      (share_exists s \<longrightarrow> share_ok se) \<and>
      (s \<in> {Finalizing, ConnActive} \<longrightarrow> caps_agreed se) \<and>
      (cn_reactivating st \<longrightarrow> s \<in> {WaitConfirmActive, Finalizing, ConnClosed}) \<and>
      (s \<noteq> ConnClosed \<longrightarrow> length (cn_input st) \<le> max_buffered_input))"

lemma cn_inv_new: "cn_inv (cn_new config neg)"
  by (simp add: cn_inv_def cn_new_def no_session_def share_exists_def Let_def)

lemma cn_inv_cong [simp]:
  "cn_inv (st\<lparr>cn_output := w\<rparr>) = cn_inv st" "cn_inv (st\<lparr>cn_events := es\<rparr>) = cn_inv st"
  "cn_inv (st\<lparr>cn_joined_channels := cs\<rparr>) = cn_inv st" "cn_inv (st\<lparr>cn_autodetect := ad\<rparr>) = cn_inv st"
  "cn_inv (st\<lparr>cn_now := t\<rparr>) = cn_inv st" "cn_inv (st\<lparr>cn_last_output := t\<rparr>) = cn_inv st"
  "cn_inv (cn_event e st) = cn_inv st"
  by (simp_all add: cn_inv_def cn_event_def)

text \<open>Closing keeps the invariant, whatever happened to the session before.\<close>

lemma cn_inv_closed:
  assumes "se_autodetect (cn_session st) \<or> se_heartbeat (cn_session st) \<longrightarrow> se_message_channel_id (cn_session st) \<noteq> None"
    "cn_state st = ConnClosed"
  shows "cn_inv st"
  using assms by (auto simp: cn_inv_def Let_def share_exists_def)

lemma cn_inv_close [simp]: "cn_inv st \<Longrightarrow> cn_inv (cn_close reason st)" "cn_inv st \<Longrightarrow> cn_inv (cn_fail why st)"
  by (rule cn_inv_closed; simp add: cn_inv_def cn_close_def cn_fail_def cn_event_def Let_def)+

section \<open>Handlers\<close>

text \<open>A handler returns, keeps the invariant, and reports what the contract allows; with an error it changes nothing.\<close>

definition stays :: "connection \<Rightarrow> connection \<Rightarrow> bool" where
  "stays st st' \<longleftrightarrow> cn_inv st' \<and> emits st st' \<and> cn_config st' = cn_config st \<and> cn_input st' = cn_input st"

definition hok :: "connection \<Rightarrow> handled \<Rightarrow> bool" where
  "hok st h \<longleftrightarrow> (\<exists>r st'. h = Some (r, st') \<and> stays st st' \<and> (isl r \<longrightarrow> st' = st))"

lemma stays_refl [simp]: "stays st st = cn_inv st"
  by (simp add: stays_def emits_same)

lemma stays_cong [simp]:
  "stays st (st'\<lparr>cn_output := w\<rparr>) = stays st st'"
  "stays st (st'\<lparr>cn_joined_channels := cs\<rparr>) = stays st st'" "stays st (st'\<lparr>cn_autodetect := ad\<rparr>) = stays st st'"
  by (simp_all add: stays_def emits_def)

lemma stays_event: "cn_inv st \<Longrightarrow> spec_step (cn_state st) (Some e) (cn_state st) \<Longrightarrow> stays st (cn_event e st)"
  by (auto simp: stays_def cn_event_def intro: emits_visible)

lemma stays_visible:
  "cn_inv st' \<Longrightarrow> spec_step (cn_state st) (Some e) (cn_state st') \<Longrightarrow> cn_events st' = cn_events st @ [e] \<Longrightarrow>
   cn_config st' = cn_config st \<Longrightarrow> cn_input st' = cn_input st \<Longrightarrow> stays st st'"
  by (simp add: stays_def emits_visible)

lemma stays_silent:
  "cn_inv st' \<Longrightarrow> spec_step (cn_state st) None (cn_state st') \<Longrightarrow> cn_events st' = cn_events st \<Longrightarrow>
   cn_config st' = cn_config st \<Longrightarrow> cn_input st' = cn_input st \<Longrightarrow> stays st st'"
  by (simp add: stays_def emits_silent)

lemma stays_close [simp]: "cn_inv st \<Longrightarrow> cn_state st \<noteq> ConnClosed \<Longrightarrow> stays st (cn_close reason st)"
  using cn_inv_close(1) [of st reason]
  by (rule stays_visible [where e = "EvClosed (CloseReason reason) False"])
    (simp_all add: cn_close_def cn_event_def spec_step.close)

lemma hok_ok: "f = Some st' \<Longrightarrow> stays st st' \<Longrightarrow> hok st (cn_ok f)"
  by (simp add: hok_def cn_ok_def)

lemma hok_some [simp]: "hok st (cn_ok (Some st')) = stays st st'"
  by (simp add: hok_def cn_ok_def)

lemma hok_error [simp]: "hok st (cn_error what k st) = cn_inv st"
  by (simp add: hok_def cn_error_def fail_def)

lemma hok_inl [simp]: "hok st (Some (Inl e, st)) = cn_inv st"
  by (simp add: hok_def)

lemma hok_try: "cn_inv st \<Longrightarrow> (\<And>v. res = Inr v \<Longrightarrow> hok st (k v)) \<Longrightarrow> hok st (cn_try res st k)"
  by (cases res) (simp_all add: cn_try_def)

lemma hok_appends: "appends f st' \<Longrightarrow> stays st st' \<Longrightarrow> hok st (cn_ok (f st'))"
  by (auto elim!: appendsE)

lemma assign_channels_eq:
  "assign_channels n cs = (zip (map cd_name cs) (map (\<lambda>i. n + of_nat i) [0..<length cs]), n + of_nat (length cs))"
proof (induction cs arbitrary: n)
  case (Cons c cs)
  have "map (\<lambda>i. n + of_nat i) [0..<Suc (length cs)] = n # map (\<lambda>i. n + 1 + of_nat i) [0..<length cs]"
    by (simp add: map_upt_Suc ac_simps del: upt_Suc)
  with Cons show ?case by (simp add: ac_simps del: upt_Suc)
qed simp

lemma connect_response_ok_written:
  assumes "server_data_ok server" "crs_result resp < mcs_result_alternatives"
  shows "\<exists>blocks conference bs. encode_server_data server [] = Some blocks \<and>
    encode_conference_create_response blocks [] = Some conference \<and>
    (\<exists>w'. encode_connect_response (resp\<lparr>crs_user_data := conference\<rparr>) (snd (begin_data_tpdu w)) = Some w' \<and>
      end_tpkt (fst (begin_data_tpdu w)) w' = Some (w @ bs))"
proof -
  let ?b = "concat (server_blocks server)"
  let ?c = "user_data_enc response_head ?b"
  let ?r = "resp\<lparr>crs_user_data := ?c\<rparr>"
  have blocks: "length ?b \<le> 200"
    using assms(1) server_enc_sizes(1) [of "sv_core server"] server_enc_sizes(2) [of "sv_network server"]
    by (auto simp: server_blocks_def server_data_ok_def block_enc_def slot_blocks_def split: option.splits)
  have conf: "length ?c \<le> 300"
    using blocks by (simp add: user_data_enc_def conference_enc_def response_head_def per_length_enc_def)
  have "encode_server_data server [] = Some ?b" using encode_server_data_enc [OF assms(1), of "[]"] by simp
  moreover have "encode_conference_create_response ?b [] = Some ?c"
    using blocks conference_response.wr_enc [of ?b "[]"] by (simp add: user_data_ok_def per_max_length_def)
  moreover have ok: "connect_response_ok ?r" using conf assms(2) by (simp add: connect_response_ok_def)
  have "length (connect_response_enc ?r) \<le> 2000"
    using conf length_ber_tlv_enc_le [of "connect_response_body ?r" mcs_connect_response_tag]
      length_ber_tlv_enc_le [of "ber_unsigned_digits (ucast (crs_result resp))" ber_enumerated_tag]
      ber_unsigned_digits_facts(2) [of "ucast (crs_result resp)"]
      length_ber_tlv_enc_le [of ?c ber_octet_string_tag]
      length_u32_integer_enc [of "crs_called_connect_id resp"] length_domain_parameters_enc [of "crs_parameters resp"]
    by (simp add: connect_response_enc_def connect_response_body_def)
  then have "end_tpkt (fst (begin_data_tpdu w)) (snd (begin_data_tpdu w) @ connect_response_enc ?r) =
      Some (w @ tpkt_enc (data_enc (connect_response_enc ?r)))"
    by (intro data_tpdu_written) (simp add: max_tpkt_size_def)
  ultimately show ?thesis using encode_connect_response_enc [OF ok] by blast
qed

lemma clamp_in: "lo \<le> hi \<Longrightarrow> clamp v lo hi \<in> {lo..hi}"
  by (auto simp: clamp_def)

lemma desktop_ok_clamp:
  "desktop_ok config (se\<lparr>se_desktop_width := clamp w (sv_min_desktop_size config) (sv_max_desktop_size config),
     se_desktop_height := clamp h (sv_min_desktop_size config) (sv_max_desktop_size config)\<rparr>)"
  using clamp_in by (auto simp: desktop_ok_def)

lemma client_channels_bound: "client_data_wf client \<Longrightarrow> length (client_channels client) \<le> max_static_channels"
  by (auto simp: client_data_wf_def client_channels_def split: option.splits)

lemma accept_client_channels:
  assumes "client_data_wf client" "se_static_channels se = []" "se_message_channel_id se = None"
  shows "channels_ok (accept_client config client se)"
proof -
  let ?cs = "client_channels client"
  have "map snd (zip (map cd_name ?cs) (map (\<lambda>i. mcs_io_channel_id + 1 + of_nat i) [0..<length ?cs])) =
      map (\<lambda>i. mcs_io_channel_id + 1 + of_nat i) [0..<length ?cs]"
    by simp
  then show ?thesis
    using assms client_channels_bound [OF assms(1)]
    by (simp add: accept_client_def assign_channels_eq channels_ok_def Let_def case_prod_beta)
qed

lemma accept_client_desktop: "desktop_ok config (accept_client config client se)"
  using clamp_in by (auto simp: accept_client_def desktop_ok_def Let_def case_prod_beta)

lemma accept_client_frame:
  "se_autodetect (accept_client config client se) = se_autodetect se"
  "se_heartbeat (accept_client config client se) = se_heartbeat se"
  "se_client_data (accept_client config client se) = se_client_data se"
  "se_message_channel_id se \<noteq> None \<Longrightarrow> se_message_channel_id (accept_client config client se) \<noteq> None"
  by (simp_all add: accept_client_def Let_def case_prod_beta)

lemma server_data_for_ok: "client_data_wf client \<Longrightarrow> server_data_ok (server_data_for neg client)"
  by (simp add: server_data_for_def assign_channels_eq server_data_ok_def no_server_data_def
      client_channels_bound Let_def)

lemma on_connect_initial_ok:
  assumes "cn_inv st" "cn_state st = WaitConnectInitial"
  shows "hok st (on_connect_initial data st)"
  unfolding on_connect_initial_def
proof (intro hok_try assms(1), goal_cases)
  case (1 initial blocks client)
  let ?st = "st\<lparr>cn_session := (cn_session st)\<lparr>se_client_data := client\<rparr>\<rparr>"
  let ?se = "accept_client (cn_config st) client (cn_session ?st)"
  have wf: "client_data_wf client"
    using 1(3) by (intro decode_client_data_wf) (simp add: prod_eq_iff)
  have inv: "cn_inv ?st" using assms by (auto simp: cn_inv_def Let_def share_exists_def)
  have stop: "stays st (cn_close reason ?st)" for reason
    using cn_inv_close(1) [OF inv, of reason] assms(2)
    by (intro stays_visible [where e = "EvClosed (CloseReason reason) False"])
      (simp_all add: cn_close_def cn_event_def spec_step.close)
  obtain sb conference bs w' where out: "encode_server_data (server_data_for (se_negotiation (cn_session st)) client) [] = Some sb"
    "encode_conference_create_response sb [] = Some conference"
    "encode_connect_response \<lparr>crs_result = 0, crs_called_connect_id = 0,
         crs_parameters = negotiate_domain_parameters initial, crs_user_data = conference\<rparr> (snd (begin_data_tpdu (cn_output st))) = Some w'"
    "end_tpkt (fst (begin_data_tpdu (cn_output st))) w' = Some (cn_output st @ bs)"
    using connect_response_ok_written [OF server_data_for_ok [OF wf, of "se_negotiation (cn_session st)"],
        of "\<lparr>crs_result = 0, crs_called_connect_id = 0, crs_parameters = negotiate_domain_parameters initial,
          crs_user_data = []\<rparr>" "cn_output st"]
    by (auto simp: mcs_result_alternatives_def)
  have "stays st (?st\<lparr>cn_session := ?se, cn_output := cn_output st @ bs, cn_state := WaitErectDomain\<rparr>)"
    using assms accept_client_channels [OF wf, of "cn_session ?st"]
    by (intro stays_silent)
      (auto simp: cn_inv_def Let_def share_exists_def spec_step.connect accept_client_desktop accept_client_frame)
  then show ?case
    using stop out by (simp add: Let_def case_prod_beta hok_def cn_ok_def)
qed

text \<open>The identifiers in use are above the user base, so every confirm can be encoded.\<close>

lemma channel_ids_above:
  assumes "channels_ok se"
  shows "mcs_user_id_base \<le> se_user_channel_id se"
proof -
  let ?n = "length (se_static_channels se)"
  have "?n \<le> 31" using assms by (simp add: channels_ok_def max_static_channels_def Let_def)
  then have "unat (1004 + of_nat ?n :: u16) = 1004 + ?n" "unat (1004 + of_nat ?n + 1 :: u16) = 1005 + ?n"
    by (simp_all add: unat_word_ariths unsigned_of_nat take_bit_nat_eq_self)
  with assms show ?thesis
    by (auto simp: channels_ok_def Let_def mcs_user_id_base_def mcs_io_channel_id_def word_le_nat_alt split: option.splits)
qed

lemma on_channel_join_ok:
  assumes "cn_inv st" "cn_state st = WaitChannelJoins"
  shows "hok st (on_channel_join initiator channel_id st)"
proof -
  have "mcs_user_id_base \<le> se_user_channel_id (cn_session st)"
    using assms by (intro channel_ids_above) (simp add: cn_inv_def Let_def)
  then have ok: "domain_pdu_ok (ChannelJoinConfirm mcs_result_successful (se_user_channel_id (cn_session st)) i c)"
    "domain_pdu_ok (ChannelJoinConfirm mcs_result_no_such_channel (se_user_channel_id (cn_session st)) i c)" for i c
    by (simp_all add: domain_pdu_ok_def mcs_result_successful_def mcs_result_no_such_channel_def mcs_result_alternatives_def)
  show ?thesis
    using assms unfolding on_channel_join_def Let_def
    by (auto intro!: hok_appends [where f = "send_domain_pdu pdu" for pdu] send_domain_pdu_appends ok)
qed

lemma share_ok_with_share: "share_ok (with_share se)"
proof -
  have "ucast (ucast x :: u32) = x" for x :: u16
    by (rule bit_eqI) (auto simp: bit_simps dest: bit_imp_le_length)
  moreover have "(ucast (0x00010000 :: u32) :: u16) = 0" by simp
  ultimately have "ucast (0x00010000 OR ucast x :: u32) = x" for x :: u16
    by (simp only: unsigned_or_eq or.left_neutral)
  then show ?thesis by (simp add: share_ok_def with_share_def)
qed

lemma with_share_frame [simp]:
  "se_static_channels (with_share se) = se_static_channels se" "se_message_channel_id (with_share se) = se_message_channel_id se"
  "se_user_channel_id (with_share se) = se_user_channel_id se" "se_autodetect (with_share se) = se_autodetect se"
  "se_heartbeat (with_share se) = se_heartbeat se"
  "channels_ok (with_share se) = channels_ok se" "desktop_ok config (with_share se) = desktop_ok config se"
  by (simp_all add: with_share_def channels_ok_def desktop_ok_def Let_def split: option.split)

lemma licensed_inv:
  assumes "cn_inv st" "cn_state st \<in> {WaitChannelJoins, ConnectTimeAutodetect}"
    "cn_session st' = with_share (cn_session st)" "cn_state st' = WaitConfirmActive" "cn_config st' = cn_config st"
    "cn_input st' = cn_input st" "cn_reactivating st' = cn_reactivating st"
  shows "cn_inv st'"
  using assms share_ok_with_share [of "cn_session st"]
  unfolding cn_inv_def Let_def share_exists_def by (elim insertE emptyE) simp_all

lemma finish_stays:
  assumes "cn_inv st" "cn_state st = ConnectTimeAutodetect"
  shows "\<exists>st'. finish_connect_time_autodetect st = Some st' \<and> stays st st'"
proof -
  have "se_message_channel_id (cn_session st) \<noteq> None" using assms by (simp add: cn_inv_def Let_def)
  then obtain bs ad where fin: "finish_connect_time_autodetect st = Some (st\<lparr>cn_autodetect := ad,
     cn_session := with_share (cn_session st), cn_output := cn_output st @ bs, cn_state := WaitConfirmActive\<rparr>)"
    using finish_connect_time_autodetect_ok by blast
  let ?st = "st\<lparr>cn_autodetect := ad,
     cn_session := with_share (cn_session st), cn_output := cn_output st @ bs, cn_state := WaitConfirmActive\<rparr>"
  have "cn_inv ?st" by (rule licensed_inv [OF assms(1)]) (simp_all add: assms)
  then have "stays st ?st" by (rule stays_silent) (simp_all add: assms(2) spec_step.detected)
  with fin show ?thesis by blast
qed

lemma message_channel_joined_id: "message_channel_joined st \<Longrightarrow> se_message_channel_id (cn_session st) \<noteq> None"
  by (auto simp: message_channel_joined_def split: option.splits)

lemma record_client_info_frame [simp]:
  "cn_state (record_client_info info st) = cn_state st" "cn_config (record_client_info info st) = cn_config st"
  "cn_input (record_client_info info st) = cn_input st" "cn_reactivating (record_client_info info st) = cn_reactivating st"
  "se_message_channel_id (cn_session (record_client_info info st)) = se_message_channel_id (cn_session st)"
  by (simp_all add: record_client_info_def Let_def cn_event_def)

lemma record_client_info_inv:
  assumes "cn_inv st" "cn_state st = WaitChannelJoins"
  shows "cn_inv (record_client_info info st)"
    "se_autodetect (cn_session (record_client_info info st)) \<Longrightarrow> se_message_channel_id (cn_session st) \<noteq> None"
proof -
  let ?st = "record_client_info info st" and ?se = "cn_session (record_client_info info st)"
  have "channels_ok ?se = channels_ok (cn_session st)" "desktop_ok c ?se = desktop_ok c (cn_session st)" for c
    by (simp_all add: record_client_info_def channels_ok_def desktop_ok_def Let_def cn_event_def split: option.split)
  moreover have "se_autodetect ?se \<or> se_heartbeat ?se \<Longrightarrow> se_message_channel_id (cn_session st) \<noteq> None"
    by (auto simp: record_client_info_def Let_def cn_event_def message_channel_joined_def split: option.splits)
  ultimately show "cn_inv ?st" "se_autodetect ?se \<Longrightarrow> se_message_channel_id (cn_session st) \<noteq> None"
    using assms by (auto simp: cn_inv_def Let_def share_exists_def)
qed

lemma record_client_info_events:
  "\<exists>p c. cn_events (record_client_info info st) =
     cn_events st @ [EvClientInfo (ci_domain info) (ci_user_name info) p (ci_flags info) c]"
  by (simp add: record_client_info_def Let_def cn_event_def)

lemma connect_time_hok:
  assumes "cn_inv st" "cn_state st = WaitChannelJoins" "se_autodetect (cn_session (record_client_info info st))"
  defines "st0 \<equiv> record_client_info info st"
  shows "hok st (let (requests, ad) = start_connect_time (cn_now st0) (cn_autodetect st0)
    in cn_ok (send_autodetects requests (st0\<lparr>cn_state := ConnectTimeAutodetect, cn_autodetect := ad\<rparr>)))"
proof -
  have inv: "cn_inv st0" "se_message_channel_id (cn_session st0) \<noteq> None" "cn_state st0 = WaitChannelJoins"
    using record_client_info_inv [OF assms(1,2), of info] assms(2,3) by (simp_all add: st0_def)
  obtain requests ad where start: "start_connect_time (cn_now st0) (cn_autodetect st0) = (requests, ad)" by fastforce
  then have "list_all sendable requests"
    using start_connect_time_requests_ok [of _ "cn_now st0" "cn_autodetect st0"] by (simp add: list_all_iff)
  then have "appends (send_autodetects requests) (st0\<lparr>cn_state := ConnectTimeAutodetect, cn_autodetect := ad\<rparr>)"
    using inv(2) by (intro send_autodetects_appends) simp_all
  moreover obtain p c where "cn_events st0 = cn_events st @ [EvClientInfo (ci_domain info) (ci_user_name info) p (ci_flags info) c]"
    using record_client_info_events st0_def by blast
  then have "stays st (st0\<lparr>cn_state := ConnectTimeAutodetect, cn_autodetect := ad\<rparr>)"
    using inv assms(2)
    by (intro stays_visible [where e = "EvClientInfo (ci_domain info) (ci_user_name info) p (ci_flags info) c"])
      (auto simp: cn_inv_def Let_def share_exists_def spec_step.detect, simp_all add: st0_def)
  ultimately show ?thesis using start by (simp add: hok_appends)
qed

lemma info_licensed_hok:
  assumes "cn_inv st" "cn_state st = WaitChannelJoins"
  shows "hok st (cn_ok (start_licensing (record_client_info info st)))"
proof -
  define st0 where "st0 = record_client_info info st"
  have inv: "cn_inv st0" "cn_state st0 = WaitChannelJoins" "cn_config st0 = cn_config st" "cn_input st0 = cn_input st"
    using record_client_info_inv [OF assms, of info] assms(2) by (simp_all add: st0_def)
  obtain bs where lic: "start_licensing st0 = Some (st0\<lparr>cn_session := with_share (cn_session st0),
     cn_output := cn_output st0 @ bs, cn_state := WaitConfirmActive\<rparr>)" using start_licensing_ok by blast
  let ?st = "st0\<lparr>cn_session := with_share (cn_session st0), cn_output := cn_output st0 @ bs, cn_state := WaitConfirmActive\<rparr>"
  have "cn_inv ?st" by (rule licensed_inv [OF inv(1)]) (simp_all add: inv)
  moreover obtain p c where "cn_events st0 = cn_events st @ [EvClientInfo (ci_domain info) (ci_user_name info) p (ci_flags info) c]"
    using record_client_info_events st0_def by blast
  ultimately have "stays st ?st"
    using assms(2) inv
    by (intro stays_visible [where e = "EvClientInfo (ci_domain info) (ci_user_name info) p (ci_flags info) c"])
      (simp_all add: spec_step.license)
  with lic show ?thesis unfolding st0_def by (rule hok_ok)
qed

lemma on_client_info_ok:
  assumes "cn_inv st" "cn_state st = WaitChannelJoins"
  shows "hok st (on_client_info data st)"
  using assms info_licensed_hok [OF assms] connect_time_hok [OF assms] unfolding on_client_info_def Let_def
  by (auto split: prod.split sum.split intro!: hok_try)

lemma on_message_channel_ok:
  assumes "cn_inv st"
  shows "hok st (on_message_channel data st)"
proof -
  have "hok st (cn_ok (finish_connect_time_autodetect (st\<lparr>cn_autodetect := ad\<rparr>)))" if "cn_state st = ConnectTimeAutodetect" for ad
    using assms that finish_stays [of "st\<lparr>cn_autodetect := ad\<rparr>"] by (auto simp: stays_def emits_def)
  with assms show ?thesis
    unfolding on_message_channel_def Let_def by (auto split: prod.split sum.split)
qed

lemma agreed_pointer_bound:
  "ps_color_cache_size (agreed_pointer caps) \<le> pointer_cache_slots" "ps_cache_size (agreed_pointer caps) \<le> pointer_cache_slots"
  by (simp_all add: agreed_pointer_def split: option.split)

lemma small_pdus_ok [simp]:
  "payload_ok (Synchronize 1 x) \<and> length (payload_enc (Synchronize 1 x)) + 18 \<le> per_max_length"
  "payload_ok (Control a b c) \<and> length (payload_enc (Control a b c)) + 18 \<le> per_max_length"
  "payload_ok (FontMap a b d e) \<and> length (payload_enc (FontMap a b d e)) + 18 \<le> per_max_length"
  "payload_ok (SetErrorInfo f) \<and> length (payload_enc (SetErrorInfo f)) + 18 \<le> per_max_length"
  by (simp_all add: payload_ok_def per_max_length_def)

lemma send_small_appends:
  "payload_ok pdu \<and> length (payload_enc pdu) + 18 \<le> per_max_length \<Longrightarrow> appends (send_data_pdu pdu) st"
  by (simp add: send_data_pdu_appends)

lemma appends_bind:
  assumes "appends f st" "\<And>w. appends g (st\<lparr>cn_output := w\<rparr>)"
  shows "appends (\<lambda>st. Option.bind (f st) g) st"
proof -
  obtain bs where f: "f st = Some (st\<lparr>cn_output := cn_output st @ bs\<rparr>)" using assms(1) by (rule appendsE)
  obtain bs' where "g (st\<lparr>cn_output := cn_output st @ bs\<rparr>) = Some (st\<lparr>cn_output := (cn_output st @ bs) @ bs'\<rparr>)"
    using assms(2) [of "cn_output st @ bs"] by (auto simp: appends_def)
  with f show ?thesis by (intro appendsI [of _ _ "bs @ bs'"]) simp
qed

lemma confirmed_stays:
  assumes "cn_inv st" "cn_state st = WaitConfirmActive" "cs_general caps \<noteq> None" "cs_bitmap caps \<noteq> None"
  shows "stays st (st\<lparr>cn_session := (cn_session st)\<lparr>se_fastpath_output := a, se_no_bitmap_compression_header := b,
      se_max_request_size := m, se_pointer := agreed_pointer caps, se_client_capabilities := caps\<rparr>, cn_state := Finalizing\<rparr>)"
proof -
  let ?se = "(cn_session st)\<lparr>se_fastpath_output := a, se_no_bitmap_compression_header := b,
      se_max_request_size := m, se_pointer := agreed_pointer caps, se_client_capabilities := caps\<rparr>"
  have "channels_ok ?se = channels_ok (cn_session st)" "desktop_ok c ?se = desktop_ok c (cn_session st)"
    "share_ok ?se = share_ok (cn_session st)" for c
    by (simp_all add: channels_ok_def desktop_ok_def share_ok_def Let_def split: option.split)
  moreover have "caps_agreed ?se" using assms agreed_pointer_bound by (simp add: caps_agreed_def)
  ultimately show ?thesis
    using assms by (intro stays_silent) (auto simp: cn_inv_def Let_def share_exists_def spec_step.confirm)
qed

lemma on_confirm_active_ok:
  assumes "cn_inv st" "cn_state st = WaitConfirmActive"
  shows "hok st (on_confirm_active body st)"
  unfolding on_confirm_active_def Let_def
proof (intro hok_try assms(1), goal_cases)
  case (1 confirm)
  let ?caps = "(ca_capabilities confirm)\<lparr>cs_other := []\<rparr>"
  have send: "hok st (cn_ok (do { st \<leftarrow> send_data_pdu (Synchronize 1 u) st'; send_data_pdu (Control control_cooperate 0 0) st }))"
    if "stays st st'" for u st'
    by (rule hok_appends [where f = "\<lambda>st. do { st \<leftarrow> send_data_pdu (Synchronize 1 u) st; send_data_pdu (Control control_cooperate 0 0) st }"])
      (intro appends_bind send_small_appends small_pdus_ok that)+
  show ?case
    using assms confirmed_stays [OF assms, of ?caps] by (auto split: option.split intro!: send)
qed

lemma activate_stays:
  assumes "cn_inv st" "cn_state st = Finalizing"
  shows "stays st (activate st)"
  using assms
  by (intro stays_visible [where e = "EvActivated (cn_reactivating st)"])
    (auto simp: cn_inv_def Let_def share_exists_def activate_def cn_event_def spec_step.finalized)

lemma on_data_pdu_ok:
  assumes "cn_inv st" "cn_state st \<in> {ConnectTimeAutodetect, Finalizing, ConnActive}"
  shows "hok st (on_data_pdu body st)"
proof -
  have font: "hok st (cn_ok (do { st \<leftarrow> send_data_pdu (FontMap 0 0 3 4) st; Some (if cn_state st = Finalizing then activate st else st) }))"
  proof -
    obtain bs where "send_data_pdu (FontMap 0 0 3 4) st = Some (st\<lparr>cn_output := cn_output st @ bs\<rparr>)"
      using send_small_appends [OF small_pdus_ok(3)] by (rule appendsE)
    moreover have "stays st (activate (st\<lparr>cn_output := cn_output st @ bs\<rparr>))" if "cn_state st = Finalizing"
      using assms that activate_stays [of "st\<lparr>cn_output := cn_output st @ bs\<rparr>"] by (simp add: stays_def emits_def)
    ultimately show ?thesis using assms by simp
  qed
  have control: "hok st (cn_ok (send_data_pdu (Control a b c) st))" for a b c
    using assms by (intro hok_appends send_small_appends small_pdus_ok) simp_all
  have request: "stays st (cn_event e st)" if "request_event e" for e
    using assms that by (intro stays_event spec_step.request)
  have "hok st (cn_ok (case pdu of
       Control action grant control \<Rightarrow>
         if action = control_request
         then send_data_pdu (Control control_granted (se_user_channel_id (cn_session st)) (ucast mcs_server_channel_id)) st
         else Some st
     | FontList _ _ _ _ \<Rightarrow> do {
         st \<leftarrow> send_data_pdu (FontMap 0 0 0x0003 0x0004) st;
         Some (if cn_state st = Finalizing then activate st else st)
       }
     | InputPdu events \<Rightarrow> Some (if events \<noteq> [] then cn_event (EvInput events) st else st)
     | RefreshRect areas \<Rightarrow> Some (cn_event (EvRefreshRequested areas) st)
     | SuppressOutput allow rect \<Rightarrow> Some (cn_event (EvOutputSuppressed (\<not> allow) rect) st)
     | ShutdownRequest \<Rightarrow> Some (cn_event EvShutdownRequested st)
     | _ \<Rightarrow> Some st))" for pdu
    using assms(1) font control by (auto simp: request_event_def intro!: request split: data_pdu.split)
  with assms(1) show ?thesis unfolding on_data_pdu_def by (auto intro!: hok_try)
qed

lemma on_io_data_ok:
  "cn_inv st \<Longrightarrow> cn_state st \<in> {ConnectTimeAutodetect, WaitConfirmActive, Finalizing, ConnActive} \<Longrightarrow> hok st (on_io_data data st)"
  unfolding on_io_data_def
  by (intro hok_try) (auto intro: on_confirm_active_ok on_data_pdu_ok)

lemma on_fastpath_input_ok: "cn_inv st \<Longrightarrow> hok st (on_fastpath_input pdu st)"
  unfolding on_fastpath_input_def
  by (auto simp: request_event_def intro!: hok_try stays_event spec_step.request)

lemma on_send_data_ok:
  assumes "cn_inv st" "cn_state st \<in> {WaitChannelJoins, ConnectTimeAutodetect, WaitConfirmActive, Finalizing, ConnActive}"
  shows "hok st (on_send_data start initiator channel_id data st)"
  unfolding on_send_data_def Let_def using assms stays_event [OF assms(1) spec_step.channel [OF assms(2)]]
  by (auto intro: on_client_info_ok on_io_data_ok on_message_channel_ok)

lemma attach_hok:
  assumes "cn_inv st" "cn_state st = WaitAttachUser"
  shows "hok st (cn_ok (do {
    st \<leftarrow> send_domain_pdu (AttachUserConfirm mcs_result_successful (Some (se_user_channel_id (cn_session st)))) st;
    Some (st\<lparr>cn_state := WaitChannelJoins\<rparr>) }))"
proof -
  have "domain_pdu_ok (AttachUserConfirm mcs_result_successful (Some (se_user_channel_id (cn_session st))))"
    using assms channel_ids_above [of "cn_session st"]
    by (simp add: cn_inv_def Let_def domain_pdu_ok_def mcs_result_successful_def mcs_result_alternatives_def)
  from send_domain_pdu_appends [OF this, of st] obtain bs where
    "send_domain_pdu (AttachUserConfirm mcs_result_successful (Some (se_user_channel_id (cn_session st)))) st =
      Some (st\<lparr>cn_output := cn_output st @ bs\<rparr>)" by (rule appendsE)
  moreover have "stays st (st\<lparr>cn_output := cn_output st @ bs, cn_state := WaitChannelJoins\<rparr>)"
    using assms by (intro stays_silent) (auto simp: cn_inv_def Let_def share_exists_def spec_step.attach)
  ultimately show ?thesis by simp
qed

lemma erect_stays:
  "cn_inv st \<Longrightarrow> cn_state st = WaitErectDomain \<Longrightarrow> stays st (st\<lparr>cn_state := WaitAttachUser\<rparr>)"
  by (intro stays_silent) (auto simp: cn_inv_def Let_def share_exists_def spec_step.erect)

lemma on_domain_pdu_ok:
  assumes "cn_inv st" "cn_state st \<noteq> ConnClosed" "cn_state st \<noteq> WaitConnectInitial"
  shows "hok st (on_domain_pdu data st)"
  unfolding on_domain_pdu_def Let_def
proof (intro hok_try assms(1), goal_cases)
  case (1 pdu)
  have "cn_state st \<in> {WaitChannelJoins, ConnectTimeAutodetect, WaitConfirmActive, Finalizing, ConnActive}"
    if "cn_state st \<noteq> WaitErectDomain" "cn_state st \<noteq> WaitAttachUser"
    using assms that by (cases "cn_state st") auto
  with assms attach_hok [OF assms(1)] on_send_data_ok [OF assms(1)] show ?case
    by (cases pdu) (auto intro: erect_stays on_channel_join_ok)
qed

lemma handle_pdu_ok:
  assumes "cn_inv st" "cn_state st \<noteq> ConnClosed"
  shows "hok st (handle_pdu kind pdu st)"
  unfolding handle_pdu_def Let_def using assms
  by (auto intro!: hok_try on_fastpath_input_ok on_connect_initial_ok on_domain_pdu_ok)

section \<open>Receiving\<close>

text \<open>
  Between two calls an open connection holds less than one PDU: what is left of the input is shorter
  than the frame it starts.
\<close>

lemma check_buffered_small: "length input \<le> max_buffered_input \<Longrightarrow> check_buffered input st = st\<lparr>cn_input := input\<rparr>"
  by (simp add: check_buffered_def)

lemma max_tpkt_below: "n \<le> max_tpkt_size \<Longrightarrow> n \<le> max_buffered_input"
  by (simp add: max_tpkt_size_def max_buffered_input_def)

lemma cn_inv_input: "cn_inv st \<Longrightarrow> length input \<le> max_buffered_input \<Longrightarrow> cn_inv (st\<lparr>cn_input := input\<rparr>)"
  by (simp add: cn_inv_def Let_def)

lemma cn_inv_input_closed: "cn_inv st \<Longrightarrow> cn_state st = ConnClosed \<Longrightarrow> cn_inv (st\<lparr>cn_input := input\<rparr>)"
  by (simp add: cn_inv_def Let_def)

definition goes :: "connection \<Rightarrow> connection option \<Rightarrow> bool" where
  "goes st f \<longleftrightarrow> (\<exists>st'. f = Some st' \<and> cn_inv st' \<and> emits st st' \<and> cn_config st' = cn_config st)"

lemma goesI: "f = Some st' \<Longrightarrow> cn_inv st' \<Longrightarrow> emits st st' \<Longrightarrow> cn_config st' = cn_config st \<Longrightarrow> goes st f"
  by (simp add: goes_def)

lemma goes_same: "cn_inv st' \<Longrightarrow> cn_events st' = cn_events st \<Longrightarrow> cn_state st' = cn_state st \<Longrightarrow> cn_config st' = cn_config st \<Longrightarrow>
   goes st (Some st')"
  by (simp add: goes_def emits_same)

lemma goes_trans: "stays st st' \<Longrightarrow> goes st' f \<Longrightarrow> goes st f"
  by (auto simp: goes_def stays_def intro: emits_trans)

lemma goes_fail: "cn_inv st \<Longrightarrow> cn_state st \<noteq> ConnClosed \<Longrightarrow> goes st (Some (cn_fail why (st\<lparr>cn_input := input\<rparr>)))"
  using cn_inv_close(2) [of st why]
  by (intro goesI [OF refl] emits_visible [where e = "EvClosed why True"])
    (auto simp: cn_fail_def cn_event_def cn_inv_def Let_def share_exists_def spec_step.close)

lemma goes_check_closed:
  assumes "cn_inv st" "cn_state st = ConnClosed"
  shows "goes st (Some (check_buffered input st))"
proof (cases "length input \<le> max_buffered_input")
  case True
  with assms show ?thesis by (simp add: check_buffered_small cn_inv_input goes_same)
next
  case False
  then have "check_buffered input st = cn_event too_much_input (st\<lparr>cn_input := input\<rparr>)"
    using assms(2) by (cases st) (simp add: check_buffered_def cn_fail_def too_much_input_def Let_def)
  moreover have "emits st (cn_event too_much_input (st\<lparr>cn_input := input\<rparr>))"
    using assms(2) by (intro emits_visible [where e = too_much_input]) (simp_all add: cn_event_def spec_step.overflow)
  ultimately show ?thesis
    using assms by (intro goesI [OF refl]) (simp_all add: cn_inv_input_closed, simp add: cn_event_def)
qed

lemma receive_loop_ok:
  "cn_inv st \<Longrightarrow> goes st (receive_loop input st)"
proof (induction input st rule: receive_loop.induct)
  case (1 input st)
  show ?case
  proof (cases "cn_state st = ConnClosed")
    case True
    with 1(2) show ?thesis by (simp add: receive_loop.simps [of input st] goes_check_closed)
  next
    case open': False
    show ?thesis
    proof (cases "\<exists>frame. peek_frame input = Inr (Some frame) \<and> fi_length frame \<le> length input")
      case True
      then obtain frame where frame: "peek_frame input = Inr (Some frame)" "fi_length frame \<le> length input" by blast
      let ?h = "handle_pdu (fi_kind frame) (take (fi_length frame) input) st"
      have "hok st ?h" by (rule handle_pdu_ok [OF 1(2) open'])
      then obtain r st' where h: "?h = Some (r, st')" "stays st st'" "isl r \<longrightarrow> st' = st" unfolding hok_def by blast
      show ?thesis
      proof (cases r)
        case (Inl e)
        with h open' frame goes_fail [OF 1(2) open'] show ?thesis by (simp add: receive_loop.simps [of input st])
      next
        case (Inr u)
        have "goes st' (receive_loop (drop (fi_length frame) input) st')"
          using 1(1) [OF open' frame(1) refl refl _ h(1) refl [of "(r, st')"] Inr] frame(2) h(2) by (simp add: stays_def)
        with h Inr open' frame show ?thesis by (auto simp: receive_loop.simps [of input st] intro: goes_trans)
      qed
    next
      case False
      have small: "goes st (Some (check_buffered input st))" if "length input \<le> max_tpkt_size"
        using that 1(2) max_tpkt_below [OF that] by (simp add: check_buffered_small cn_inv_input goes_same)
      show ?thesis
      proof (cases "peek_frame input")
        case (Inl e)
        with open' goes_fail [OF 1(2) open'] show ?thesis by (simp add: receive_loop.simps [of input st])
      next
        case (Inr f)
        have "length input \<le> max_tpkt_size \<and> (\<forall>frame. f = Some frame \<longrightarrow> length input < fi_length frame)"
          using False Inr peek_frame_None_short [of input] peek_frame_length [of input]
          by (cases f) (force simp: max_tpkt_size_def)+
        with open' Inr small show ?thesis by (simp add: receive_loop.simps [of input st] split: option.split)
      qed
    qed
  qed
qed

lemma cn_receive_ok: "cn_inv st \<Longrightarrow> goes st (cn_receive bs st)"
  by (simp add: cn_receive_def receive_loop_ok goes_same)

section \<open>Time and commands\<close>

lemma appends_goes: "appends f st \<Longrightarrow> cn_inv st \<Longrightarrow> goes st (f st)"
  by (auto simp: goes_same elim!: appendsE)

lemma cn_take_output_ok:
  assumes "cn_inv st"
  shows "\<exists>bs st'. cn_take_output st = Some (bs, st') \<and> goes st (Some st')"
proof (cases "cn_output st = [] \<or> cn_state st \<noteq> ConnActive \<or> \<not> se_autodetect (cn_session st) \<or>
    sv_autodetect (cn_config st) = AutoDetectOff \<or>
    \<not> bandwidth_measurement_due (cn_now st) (length (cn_output st)) (cn_autodetect st)")
  case True
  with assms show ?thesis by (auto simp: cn_take_output_def Let_def goes_same)
next
  case False
  obtain q ad where start: "start_bandwidth_measurement (cn_now st) (cn_autodetect st) = (q, ad)" by fastforce
  let ?st = "st\<lparr>cn_output := [], cn_last_output := cn_now st, cn_autodetect := ad\<rparr>"
  have id: "se_message_channel_id (cn_session ?st) \<noteq> None" using assms False by (auto simp: cn_inv_def Let_def)
  have q: "sendable q" using continuous_requests_ok(2) [of "cn_now st" "cn_autodetect st"] start by simp
  obtain bs where 1: "send_autodetect q ?st [] = Some ([] @ bs)" using send_autodetect_ok [OF id q] by blast
  obtain bs' where 2: "send_autodetect (stop_bandwidth_measurement ad) ?st (w_bytes (cn_output st) bs) =
      Some (w_bytes (cn_output st) bs @ bs')" using send_autodetect_ok [OF id continuous_requests_ok(3)] by blast
  from False start 1 2 show ?thesis
    using assms by (simp add: cn_take_output_def Let_def goes_same)
qed

lemma send_heartbeat_ok:
  assumes "cn_inv st" "se_heartbeat (cn_session st)"
  shows "goes st (send_heartbeat st)"
proof -
  have "se_message_channel_id (cn_session st) \<noteq> None" using assms by (simp add: cn_inv_def Let_def)
  then have "\<exists>bs. write_message_channel sec_heartbeat (encode_heartbeat h []) st (cn_output st) = Some (cn_output st @ bs)" for h
    by (intro write_message_channel_ok) (simp_all add: encode_heartbeat_def wr_simps per_max_length_def)
  then obtain bs where "write_message_channel sec_heartbeat (encode_heartbeat \<lparr>hb_period_seconds =
      of_int (min (sv_heartbeat_period (cn_config st)) 0xFF), hb_warning_count = heartbeat_warning_count,
      hb_reconnect_count = heartbeat_reconnect_count\<rparr> []) st (cn_output st) = Some (cn_output st @ bs)"
    by blast
  with assms(1) show ?thesis by (simp add: send_heartbeat_def goes_same)
qed

lemma goes_bind:
  assumes "goes st f" "\<And>st'. f = Some st' \<Longrightarrow> cn_inv st' \<Longrightarrow> goes st' (g st')"
  shows "goes st (Option.bind f g)"
proof -
  obtain st' where 1: "f = Some st'" "cn_inv st'" "emits st st'" "cn_config st' = cn_config st"
    using assms(1) by (auto simp: goes_def)
  obtain st'' where "g st' = Some st''" "cn_inv st''" "emits st' st''" "cn_config st'' = cn_config st'"
    using assms(2) [OF 1(1,2)] by (auto simp: goes_def)
  with 1 show ?thesis by (auto simp: goes_def intro: emits_trans)
qed

lemma send_probe_ok:
  assumes "cn_inv st"
  shows "goes st (send_probe now st)"
proof (cases "se_autodetect (cn_session st)")
  case True
  obtain probe ad where poll: "poll_rtt_request now (cn_autodetect st) = (probe, ad)" by fastforce
  show ?thesis
  proof (cases probe)
    case None
    with True poll assms show ?thesis by (simp add: send_probe_def goes_same)
  next
    case (Some q)
    have "sendable q" using continuous_requests_ok(1) [of now "cn_autodetect st" q] poll Some by simp
    moreover have "se_message_channel_id (cn_session st) \<noteq> None" using assms True by (simp add: cn_inv_def Let_def)
    ultimately have "appends (send_autodetects [q]) (st\<lparr>cn_autodetect := ad\<rparr>)"
      by (intro send_autodetects_appends) simp_all
    then obtain bs where "send_autodetects [q] (st\<lparr>cn_autodetect := ad\<rparr>) = Some (st\<lparr>cn_autodetect := ad, cn_output := cn_output st @ bs\<rparr>)"
      by (auto simp: appends_def)
    with True poll Some assms show ?thesis by (simp add: send_probe_def goes_same del: send_autodetects.simps)
  qed
qed (use assms in \<open>simp add: send_probe_def goes_same\<close>)

lemma cn_tick_ok:
  assumes "cn_inv st"
  shows "goes st (cn_tick now st)"
proof -
  let ?st = "st\<lparr>cn_now := now\<rparr>"
  have "goes ?st (cn_tick now st)"
    unfolding cn_tick_def Let_def [of ?st]
    using assms finish_stays [of ?st]
    by (auto simp: stays_def goes_same intro!: goes_bind send_probe_ok send_heartbeat_ok) (simp add: goes_def)
  then show ?thesis by (auto simp: goes_def emits_def)
qed

lemma demand_active_inv:
  assumes "cn_inv st" "cn_state st = ConnActive" "cn_session st' = (cn_session st)\<lparr>se_desktop_width :=
      clamp w (sv_min_desktop_size (cn_config st)) (sv_max_desktop_size (cn_config st)),
      se_desktop_height := clamp h (sv_min_desktop_size (cn_config st)) (sv_max_desktop_size (cn_config st)),
      se_share_id := se_share_id (cn_session st) + 0x00010000\<rparr>"
    "cn_state st' = WaitConfirmActive" "cn_config st' = cn_config st" "cn_input st' = cn_input st"
  shows "cn_inv st'"
proof -
  have "ucast (s + 0x00010000 :: u32) = (ucast s :: u16)" for s
    by transfer (simp add: take_bit_eq_mod mod_mod_cancel)
  then have "share_ok (cn_session st')" "channels_ok (cn_session st')" "desktop_ok (cn_config st) (cn_session st')"
    using assms clamp_in by (auto simp: share_ok_def channels_ok_def desktop_ok_def cn_inv_def Let_def share_exists_def split: option.splits)
  with assms show ?thesis by (simp add: cn_inv_def Let_def share_exists_def)
qed

lemma reactivate_ok:
  assumes "cn_inv st"
  shows "goes st (reactivate width height st)"
proof (cases "cn_state st = ConnActive")
  case True
  let ?d = "share_control_enc pdu_type_deactivate_all mcs_server_channel_id (deactivate_all_enc \<lparr>de_share_id = se_share_id (cn_session st)\<rparr>)"
  have enc: "encode_deactivate_all mcs_server_channel_id \<lparr>de_share_id = se_share_id (cn_session st)\<rparr> [] = Some ?d"
    using deactivate_all.wr_pdu [of mcs_server_channel_id _ "[]"] by simp
  have "appends (send_io ?d) st"
    by (rule send_io_appends) (simp add: deactivate_all_enc_def per_max_length_def)
  then obtain bs where io: "send_io ?d st = Some (st\<lparr>cn_output := cn_output st @ bs\<rparr>)" by (rule appendsE)
  define se where "se = (cn_session st)\<lparr>se_desktop_width :=
      clamp width (sv_min_desktop_size (cn_config st)) (sv_max_desktop_size (cn_config st)),
      se_desktop_height := clamp height (sv_min_desktop_size (cn_config st)) (sv_max_desktop_size (cn_config st)),
      se_share_id := se_share_id (cn_session st) + 0x00010000\<rparr>"
  let ?st = "st\<lparr>cn_output := cn_output st @ bs, cn_session := se, cn_reactivating := True\<rparr>"
  obtain bs' where da: "send_demand_active ?st = Some (?st\<lparr>cn_output := cn_output ?st @ bs', cn_state := WaitConfirmActive\<rparr>)"
    using send_demand_active_ok by blast
  have "cn_inv (?st\<lparr>cn_output := cn_output ?st @ bs', cn_state := WaitConfirmActive\<rparr>)"
    by (rule demand_active_inv [OF assms True]) (simp_all add: se_def)
  then have "goes st (Some (?st\<lparr>cn_output := cn_output ?st @ bs', cn_state := WaitConfirmActive\<rparr>))"
    using True by (intro goesI [OF refl] emits_silent) (simp_all add: spec_step.resize)
  moreover have "reactivate width height st = Some (?st\<lparr>cn_output := cn_output ?st @ bs', cn_state := WaitConfirmActive\<rparr>)"
    using True enc io da by (simp add: reactivate_def se_def Let_def)
  ultimately show ?thesis by simp
qed (use assms in \<open>simp add: reactivate_def goes_same\<close>)

lemma appends_Some: "appends Some st"
  by (rule appendsI [of _ _ "[]"]) simp

lemma cn_disconnect_ok:
  assumes "cn_inv st"
  shows "goes st (cn_disconnect error_info st)"
proof (cases "cn_state st = ConnClosed")
  case False
  have "appends (\<lambda>st. if share_exists (cn_state st) \<and> se_supports_error_info (cn_session st) \<and> error_info \<noteq> errinfo_none
      then send_data_pdu (SetErrorInfo error_info) st else Some st) st"
    using send_small_appends [OF small_pdus_ok(4), of error_info st] appends_Some [of st] by (simp add: appends_def)
  then obtain bs where told: "(if share_exists (cn_state st) \<and> se_supports_error_info (cn_session st) \<and> error_info \<noteq> errinfo_none
      then send_data_pdu (SetErrorInfo error_info) st else Some st) = Some (st\<lparr>cn_output := cn_output st @ bs\<rparr>)" by (rule appendsE)
  let ?st = "st\<lparr>cn_output := cn_output st @ bs\<rparr>"
  have "appends (\<lambda>st. if cn_state st \<noteq> WaitConnectInitial then send_domain_pdu (DisconnectProviderUltimatum
      (if error_info = errinfo_logoff_by_user then UserRequested else ProviderInitiated)) st else Some st) ?st"
    using send_domain_pdu_appends [of "DisconnectProviderUltimatum
      (if error_info = errinfo_logoff_by_user then UserRequested else ProviderInitiated)" ?st] appends_Some [of ?st]
    by (simp add: appends_def domain_pdu_ok_def)
  then obtain bs' where "(if cn_state ?st \<noteq> WaitConnectInitial then send_domain_pdu (DisconnectProviderUltimatum
      (if error_info = errinfo_logoff_by_user then UserRequested else ProviderInitiated)) ?st else Some ?st) =
      Some (?st\<lparr>cn_output := cn_output ?st @ bs'\<rparr>)" by (rule appendsE)
  with False told have "cn_disconnect error_info st =
      Some (cn_close ''server disconnected the session'' (?st\<lparr>cn_output := cn_output ?st @ bs'\<rparr>))"
    by (simp add: cn_disconnect_def)
  moreover have "stays st (cn_close reason (?st\<lparr>cn_output := cn_output ?st @ bs'\<rparr>))" for reason
    using assms False stays_close [of "?st\<lparr>cn_output := cn_output ?st @ bs'\<rparr>" reason] by (simp add: stays_def emits_def)
  ultimately show ?thesis by (simp add: goes_def stays_def)
qed (use assms in \<open>simp add: cn_disconnect_def goes_same\<close>)

lemma send_update_appends: "code \<le> 0x0F \<Longrightarrow> \<exists>bs. encode_update code data max_fragment_size w = Some (w @ bs)"
  by (simp add: encode_update_enc max_fragment_size_def pdu_overhead_def)

text \<open>What the documentation of a command asks of its caller.\<close>

definition fits_update :: "connection \<Rightarrow> bytes \<Rightarrow> bool" where
  "fits_update st update_data \<longleftrightarrow> length update_data \<le> max_update_size st"

definition fits_pointer :: "connection \<Rightarrow> pointer_update \<Rightarrow> bool" where
  "fits_pointer st upd \<longleftrightarrow> update_ok upd \<and>
     (se_fastpath_output (cn_session st) \<or> has_slow_path upd \<and> fastpath_size upd + 8 \<le> max_update_size st)"

lemma send_bitmap_update_ok:
  assumes "cn_inv st" "fits_update st update_data"
  shows "goes st (send_bitmap_update update_data st)"
proof (cases "cn_state st = ConnActive \<and> \<not> se_fastpath_output (cn_session st)")
  case True
  then have "appends (send_slow_path type2_update update_data) st"
    using assms(2) by (intro send_slow_path_appends)
      (simp add: fits_update_def max_update_size_def slow_path_update_limit_def per_max_length_def)
  from appends_goes [OF this assms(1)] True show ?thesis by (simp add: send_bitmap_update_def)
next
  case False
  obtain bs where "encode_update code_bitmap update_data max_fragment_size (cn_output st) = Some (cn_output st @ bs)"
    using send_update_appends [of code_bitmap] by (auto simp: code_bitmap_def)
  with False assms(1) show ?thesis by (simp add: send_bitmap_update_def goes_same)
qed

lemma fastpath_code_le: "fastpath_code upd \<le> 0x0F"
  by (cases upd) (simp_all add: pointer_codes)

lemma send_pointer_ok:
  assumes "cn_inv st" "fits_pointer st upd"
  shows "goes st (send_pointer upd st)"
proof (cases "cn_state st = ConnActive \<and> \<not> se_fastpath_output (cn_session st)")
  case True
  then have ok: "update_ok upd" "has_slow_path upd" "fastpath_size upd + 8 \<le> slow_path_update_limit"
    using assms(2) by (auto simp: fits_pointer_def max_update_size_def)
  have "appends (send_slow_path type2_pointer (slow_update_enc upd)) st"
    using ok(3) length_slow_update_enc [OF ok(2)] by (intro send_slow_path_appends)
      (simp add: slow_path_update_limit_def per_max_length_def)
  from appends_goes [OF this assms(1)] True show ?thesis
    using encode_slow_path_enc [OF ok(1,2), of "[]"] by (simp add: send_pointer_def)
next
  case False
  have "update_ok upd" using assms(2) by (simp add: fits_pointer_def)
  moreover obtain bs where "encode_update (fastpath_code upd) (update_enc upd) max_fragment_size (cn_output st) = Some (cn_output st @ bs)"
    using send_update_appends [OF fastpath_code_le] by blast
  ultimately show ?thesis
    using False assms(1) by (simp add: send_pointer_def encode_fastpath_enc goes_same)
qed

lemma send_save_session_info_ok:
  assumes "cn_inv st" "logon_ok info"
  shows "goes st (send_save_session_info info st)"
proof -
  have "length (logon_enc info) \<le> 1000"
    using length_logon_body [OF assms(2)] by (simp add: logon_enc_def)
  then have "appends (send_slow_path type2_save_session_info (logon_enc info)) st"
    by (intro send_slow_path_appends) (simp add: per_max_length_def)
  from appends_goes [OF this assms(1)] show ?thesis
    using assms encode_save_session_info_enc [OF assms(2), of "[]"] by (simp add: send_save_session_info_def goes_same)
qed

lemma send_channel_data_ok:
  assumes "cn_inv st" "cn_state st = ConnClosed \<or>
    share_exists (cn_state st) \<and> channel_known channel_id (cn_session st) \<and> length chunk \<le> per_max_length"
  shows "goes st (send_channel_data channel_id chunk st)"
proof (cases "cn_state st = ConnClosed")
  case False
  then have "appends (send_domain_pdu (SendDataIndication mcs_server_channel_id channel_id chunk)) st"
    using assms by (intro send_domain_pdu_appends) (simp add: domain_pdu_ok_def)
  from appends_goes [OF this assms(1)] False assms(2) show ?thesis by (simp add: send_channel_data_def wassert_def)
qed (use assms in \<open>simp add: send_channel_data_def goes_same\<close>)

section \<open>Any sequence of calls\<close>

datatype cn_op = CnReceive bytes | CnTick int | CnTakeOutput | CnPollEvent | CnSendBitmapUpdate bytes
  | CnSendPointer pointer_update | CnSendSaveSessionInfo logon_info_extended | CnSendChannelData u16 bytes
  | CnReactivate u16 u16 | CnDisconnect u32

fun cn_allowed :: "cn_op \<Rightarrow> connection \<Rightarrow> bool" where
  "cn_allowed (CnSendBitmapUpdate data) st = fits_update st data"
| "cn_allowed (CnSendPointer upd) st = fits_pointer st upd"
| "cn_allowed (CnSendSaveSessionInfo info) st = logon_ok info"
| "cn_allowed (CnSendChannelData channel_id chunk) st = (cn_state st = ConnClosed \<or>
     share_exists (cn_state st) \<and> channel_known channel_id (cn_session st) \<and> length chunk \<le> per_max_length)"
| "cn_allowed _ st = True"

fun cn_exec :: "cn_op \<Rightarrow> connection \<Rightarrow> (conn_event option \<times> connection) option" where
  "cn_exec (CnReceive bs) st = map_option (Pair None) (cn_receive bs st)"
| "cn_exec (CnTick now) st = map_option (Pair None) (cn_tick now st)"
| "cn_exec CnTakeOutput st = map_option (\<lambda>(_, st). (None, st)) (cn_take_output st)"
| "cn_exec CnPollEvent st = Some (cn_poll_event st)"
| "cn_exec (CnSendBitmapUpdate data) st = map_option (Pair None) (send_bitmap_update data st)"
| "cn_exec (CnSendPointer upd) st = map_option (Pair None) (send_pointer upd st)"
| "cn_exec (CnSendSaveSessionInfo info) st = map_option (Pair None) (send_save_session_info info st)"
| "cn_exec (CnSendChannelData channel_id chunk) st = map_option (Pair None) (send_channel_data channel_id chunk st)"
| "cn_exec (CnReactivate width height) st = map_option (Pair None) (reactivate width height st)"
| "cn_exec (CnDisconnect error_info) st = map_option (Pair None) (cn_disconnect error_info st)"

text \<open>
  A call the contract allows, with whether it returned and the event it handed out; a call outside
  the contract is not made.
\<close>

definition cn_step :: "connection \<Rightarrow> cn_op \<Rightarrow> (bool \<times> conn_event option) \<times> connection" where
  "cn_step st op = (if \<not> cn_allowed op st then ((True, None), st)
     else case cn_exec op st of None \<Rightarrow> ((False, None), st) | Some (e, st') \<Rightarrow> ((True, e), st'))"

definition cn_handed :: "bool \<times> conn_event option \<Rightarrow> conn_event list" where
  "cn_handed out = (case snd out of None \<Rightarrow> [] | Some e \<Rightarrow> [e])"

lemma cn_exec_goes:
  assumes "cn_inv st" "cn_allowed op st" "op \<noteq> CnPollEvent"
  shows "\<exists>st'. cn_exec op st = Some (None, st') \<and> cn_inv st' \<and> emits st st'"
proof -
  have *: "\<exists>st'. f = Some st' \<and> cn_inv st' \<and> emits st st'" if "goes st f" for f :: "connection option"
    using that by (auto simp: goes_def)
  have "\<exists>bs st'. cn_take_output st = Some (bs, st') \<and> cn_inv st' \<and> emits st st'"
    using cn_take_output_ok [OF assms(1)] by (auto simp: goes_def)
  with assms show ?thesis
    by (cases op)
      (auto intro!: * cn_receive_ok cn_tick_ok send_bitmap_update_ok send_pointer_ok send_save_session_info_ok
        send_channel_data_ok reactivate_ok cn_disconnect_ok)
qed

lemma cn_step_ok:
  assumes "cn_inv st"
  shows "cn_inv (snd (cn_step st op))" "fst (fst (cn_step st op))"
    "\<exists>es. cn_events st @ es = cn_handed (fst (cn_step st op)) @ cn_events (snd (cn_step st op)) \<and>
      spec_path (cn_state st) es (cn_state (snd (cn_step st op)))"
proof -
  have "cn_inv (snd (cn_step st op)) \<and> fst (fst (cn_step st op)) \<and>
    (\<exists>es. cn_events st @ es = cn_handed (fst (cn_step st op)) @ cn_events (snd (cn_step st op)) \<and>
      spec_path (cn_state st) es (cn_state (snd (cn_step st op))))"
  proof (cases "op = CnPollEvent \<or> \<not> cn_allowed op st")
    case True
    with assms show ?thesis
      by (auto simp: cn_step_def cn_handed_def cn_poll_event_def spec_path.here split: list.split)
  next
    case False
    then show ?thesis
      using cn_exec_goes [OF assms, of op] by (auto simp: cn_step_def cn_handed_def emits_def)
  qed
  then show "cn_inv (snd (cn_step st op))" "fst (fst (cn_step st op))"
    "\<exists>es. cn_events st @ es = cn_handed (fst (cn_step st op)) @ cn_events (snd (cn_step st op)) \<and>
      spec_path (cn_state st) es (cn_state (snd (cn_step st op)))" by blast+
qed

interpretation cn_machine: reporter cn_step cn_inv "cn_new config neg" cn_handed cn_events cn_state spec_path for config neg
  by unfold_locales (auto intro: cn_inv_new cn_step_ok spec_path.here spec_path_trans)

section \<open>A closed connection\<close>

lemma closed_exec:
  assumes "cn_state st = ConnClosed" "cn_exec op st = Some (e, st')"
  shows "cn_state st' = ConnClosed \<and> (case e of None \<Rightarrow> [] | Some ev \<Rightarrow> [ev]) @ cn_events st' = cn_events st \<and>
    (\<exists>n. cn_output st' = drop n (cn_output st))"
  using assms
  by (cases op)
    (auto simp: cn_receive_def cn_tick_def cn_take_output_def cn_poll_event_def send_bitmap_update_def send_pointer_def
      send_save_session_info_def send_channel_data_def reactivate_def cn_disconnect_def Let_def
      intro: exI [of _ 0] exI [of _ "length (cn_output st)"] split: list.splits if_splits)

lemma closed_step:
  assumes "cn_state st = ConnClosed"
  shows "cn_state (snd (cn_step st op)) = ConnClosed \<and> cn_handed (fst (cn_step st op)) @ cn_events (snd (cn_step st op)) = cn_events st"
  using assms closed_exec [OF assms, of op]
  by (auto simp: cn_step_def cn_handed_def split: option.split)

lemma closed_run:
  assumes "cn_state st = ConnClosed"
  shows "cn_state (snd (run cn_step st ops)) = ConnClosed \<and>
    concat (map cn_handed (fst (run cn_step st ops))) @ cn_events (snd (run cn_step st ops)) = cn_events st"
  using assms
proof (induction ops arbitrary: st)
  case (Cons op ops)
  from closed_step [OF Cons.prems, of op] Cons.IH [of "snd (cn_step st op)"] show ?case
    by (simp add: Let_def case_prod_beta)
qed simp

section \<open>What the contract implies\<close>

fun is_client_info :: "conn_event \<Rightarrow> bool" where
  "is_client_info (EvClientInfo _ _ _ _ _) = True"
| "is_client_info _ = False"

fun is_activation :: "conn_event \<Rightarrow> bool" where
  "is_activation (EvActivated _) = True"
| "is_activation _ = False"

lemma spec_path_informed:
  "spec_path WaitConnectInitial es s \<Longrightarrow>
   s \<in> {ConnectTimeAutodetect, WaitConfirmActive, Finalizing, ConnActive} \<Longrightarrow> list_ex is_client_info es"
proof (induction rule: spec_path.induct)
  case (silent es s' s'')
  then show ?case by (auto elim!: spec_stepE)
next
  case (visible es s' e s'')
  then show ?case by (auto elim!: spec_stepE)
qed simp

lemma spec_path_activated: "spec_path WaitConnectInitial es s \<Longrightarrow> s = ConnActive \<Longrightarrow> list_ex is_activation es"
  by (induction rule: spec_path.induct) (auto simp: spec_step_active)

lemma spec_path_over: "spec_path s es s' \<Longrightarrow> s = ConnClosed \<Longrightarrow> s' = ConnClosed \<and> list_all (\<lambda>e. e = too_much_input) es"
  by (induction rule: spec_path.induct) (auto simp: spec_step_closed)

section \<open>Properties\<close>

text \<open>
  C5: Nothing a client sends can bring the server down: after any sequence of received bytes, clock ticks and commands
  within their documented contract, every call has returned without failing an assertion, and the session is well
  formed: channel identifiers follow each other from 1004 on, the desktop size is within the configured bounds, the
  share belongs to the user channel, capabilities and pointer caches are agreed before anything is drawn, the message
  channel exists where auto-detect or heartbeats use it, and at most a mebibyte of input waits.
\<close>

theorem connection_robust:
  "case run cn_step (cn_new config neg) ops of (outs, st) \<Rightarrow> list_all fst outs \<and> cn_inv st"
proof -
  have "list_all fst (fst (run cn_step (cn_new config neg) ops))"
    by (rule cn_machine.outputs_run_from) (simp_all add: cn_step_ok cn_inv_new)
  with cn_machine.inv_run [of config neg ops] show ?thesis by (simp add: case_prod_beta)
qed

text \<open>
  C1: The connection refines its contract: whatever is called in whatever order, the events handed out so far and those
  still queued, in order, form a path of the specification from the start to the connection's state. So the user
  information comes once before anything else, an activation only after it, and a close ends everything.
\<close>

theorem connection_refines:
  "case run cn_step (cn_new config neg) ops of (outs, st) \<Rightarrow>
     spec_path WaitConnectInitial (concat (map cn_handed outs) @ cn_events st) (cn_state st)"
proof -
  obtain es where "cn_events (cn_new config neg) @ es = concat (map cn_handed (fst (run cn_step (cn_new config neg) ops))) @
      cn_events (snd (run cn_step (cn_new config neg) ops))"
    "spec_path (cn_state (cn_new config neg)) es (cn_state (snd (run cn_step (cn_new config neg) ops)))"
    using cn_machine.run_simulates [OF cn_inv_new, of config neg ops] by blast
  then show ?thesis by (simp add: case_prod_beta cn_new_def)
qed

text \<open>
  C8: An error is final and quiet: when a handler rejects a PDU, the connection closes with one Closed event that carries
  the error, has sent nothing for that PDU and changed nothing of the session, and no later call opens it again or
  makes it report anything more.
\<close>

theorem connection_error_final:
  assumes "cn_inv st" "cn_state st \<noteq> ConnClosed" "peek_frame (cn_input st @ bs) = Inr (Some frame)"
    "fi_length frame \<le> length (cn_input st @ bs)"
    "handle_pdu (fi_kind frame) (take (fi_length frame) (cn_input st @ bs)) st = Some (Inl e, st0)"
  shows "\<exists>st'. cn_receive bs st = Some st' \<and> cn_state st' = ConnClosed \<and>
    cn_events st' = cn_events st @ [EvClosed (CloseError e) True] \<and> cn_output st' = cn_output st \<and>
    cn_session st' = cn_session st \<and> cn_state (snd (run cn_step st' ops)) = ConnClosed \<and>
    concat (map cn_handed (fst (run cn_step st' ops))) @ cn_events (snd (run cn_step st' ops)) = cn_events st'"
proof -
  have "hok st (handle_pdu (fi_kind frame) (take (fi_length frame) (cn_input st @ bs)) st)"
    using assms(1,2) by (rule handle_pdu_ok)
  with assms(5) have "st0 = st" by (simp add: hok_def)
  with assms have "cn_receive bs st = Some (cn_fail (CloseError e) (st\<lparr>cn_input := drop (fi_length frame) (cn_input st @ bs)\<rparr>))"
    by (simp add: cn_receive_def receive_loop.simps [of "cn_input st @ bs"] Let_def)
  moreover have "cn_state (cn_fail why st1) = ConnClosed" for why st1 by (simp add: cn_fail_def cn_event_def)
  ultimately show ?thesis
    using closed_run [of "cn_fail (CloseError e) (st\<lparr>cn_input := drop (fi_length frame) (cn_input st @ bs)\<rparr>)" ops]
    by (simp add: cn_fail_def cn_event_def)
qed

definition connection_demo_config :: server_config where
  "connection_demo_config = \<lparr>sv_min_desktop_size = 64, sv_max_desktop_size = 8192, sv_max_bits_per_pixel = 32,
     sv_desktop_size = None, sv_choose_desktop_size = None, sv_autodetect = AutoDetectFull,
     sv_autodetect_config = \<lparr>ac_rtt_interval = 1000000000, ac_rtt_timeout = 5000000000, ac_max_unanswered_probes = 5,
       ac_base_rtt_window = 120, ac_connect_time_bytes = 65536, ac_connect_time_timeout = 2000000000,
       ac_bandwidth_interval = 2000000000, ac_min_burst_bytes = 32768\<rparr>, sv_heartbeat_period = 5\<rparr>"

definition connection_demo :: connection where
  "connection_demo = cn_new connection_demo_config \<lparr>ng_cookie = [], ng_requested_protocols = 3, ng_selected_protocol = 2, ng_identity = None\<rparr>"

theorem connection_error_final_witness:
  "\<exists>st'. cn_receive [0, 4, 0, 0] connection_demo = Some st' \<and> cn_state st' = ConnClosed \<and>
    cn_events st' = [EvClosed (CloseError \<lparr>err_code = InvalidValue,
      err_what = ''fast-path input before the capability exchange'', err_offset = 0\<rparr>) True]"
proof -
  have "cn_inv connection_demo" "cn_state connection_demo = WaitConnectInitial" "cn_input connection_demo = []"
    "cn_events connection_demo = []"
    unfolding connection_demo_def by (simp_all add: cn_inv_new, simp_all add: cn_new_def)
  then show ?thesis
    using connection_error_final [of connection_demo "[0, 4, 0, 0]" "\<lparr>fi_kind = FrameFastpath, fi_length = 4\<rparr>"
        "\<lparr>err_code = InvalidValue, err_what = ''fast-path input before the capability exchange'', err_offset = 0\<rparr>"
        connection_demo "[]"]
    by (auto simp: peek_frame_def handle_pdu_def on_fastpath_input_def cn_error_def fail_def)
qed

section \<open>Two deviations\<close>

text \<open>
  During the connect-time detection there is no share yet and the session's share identifier is still
  zero. A data PDU that names share zero is therefore taken for one of the session, and its input is
  reported to the caller although fast-path input is an error at that point.
\<close>

theorem input_before_share:
  assumes "cn_state st = ConnectTimeAutodetect" "se_share_id (cn_session st) = 0"
    "fst (read_share_data body) = Inr data" "sd_share_id data = 0" "fst (decode_data_pdu data) = Inr (InputPdu (e # es))"
  shows "on_data_pdu body st = Some (Inr (), cn_event (EvInput (e # es)) st) \<and>
    on_fastpath_input pdu st = cn_error ''fast-path input before the capability exchange'' 0 st"
  using assms by (simp add: on_data_pdu_def cn_try_def cn_ok_def on_fastpath_input_def)

text \<open>
  An open connection never holds as much as a mebibyte (what is left is shorter than a PDU), so the
  check behind the loop fires only after a PDU has closed the connection: it is then closed a second
  time, as an error.
\<close>

theorem closed_twice:
  assumes "cn_state st \<noteq> ConnClosed" "peek_frame (cn_input st @ bs) = Inr (Some frame)"
    "fi_length frame \<le> length (cn_input st @ bs)"
    "handle_pdu (fi_kind frame) (take (fi_length frame) (cn_input st @ bs)) st = Some (Inr (), cn_close reason st)"
    "length (cn_input st @ bs) - fi_length frame > max_buffered_input"
  shows "\<exists>st'. cn_receive bs st = Some st' \<and>
    cn_events st' = cn_events st @ [EvClosed (CloseReason reason) False, too_much_input]"
proof -
  define rest where "rest = drop (fi_length frame) (cn_input st @ bs)"
  have "length rest > max_buffered_input" using assms(5) by (simp add: rest_def)
  then have "receive_loop rest (cn_close reason st) = Some (cn_event too_much_input ((cn_close reason st)\<lparr>cn_input := rest, cn_state := ConnClosed\<rparr>))"
    by (simp add: receive_loop.simps [of rest] cn_close_def cn_event_def check_buffered_def cn_fail_def too_much_input_def)
  moreover have "cn_receive bs st = receive_loop rest (cn_close reason st)"
    using assms(1-4) by (simp add: cn_receive_def receive_loop.simps [of "cn_input st @ bs"] rest_def Let_def)
  ultimately show ?thesis by (simp add: cn_event_def cn_close_def)
qed

end
