(* ===== verification/Connection_Handshake.thy ===== *)
theory Connection_Handshake
  imports Connection_Safety
begin

text \<open>
  That a connection gets anywhere: the PDUs of a well-behaved client, as the encoders of the
  protocol write them, take a new connection through the whole sequence to the active state, and it
  does not matter into which pieces the transport cuts them.
\<close>

section \<open>The client's side\<close>

text \<open>One X.224 Data TPDU of the client.\<close>

definition client_tpdu :: "(writer \<Rightarrow> writer option) \<Rightarrow> writer \<Rightarrow> writer option" where
  "client_tpdu body w = do {
     let (start, w) = begin_data_tpdu w;
     w \<leftarrow> body w;
     end_tpkt start w
   }"

definition client_connect :: "client_data \<Rightarrow> connect_initial \<Rightarrow> writer \<Rightarrow> writer option" where
  "client_connect client initial w = do {
     blocks \<leftarrow> encode_client_data client [];
     conference \<leftarrow> encode_conference_create_request blocks [];
     client_tpdu (encode_connect_initial (initial\<lparr>ci_user_data := conference\<rparr>)) w
   }"

fun client_joins :: "u16 \<Rightarrow> u16 list \<Rightarrow> writer \<Rightarrow> writer option" where
  "client_joins user [] w = Some w"
| "client_joins user (channel # channels) w = do {
     w \<leftarrow> write_domain_pdu (ChannelJoinRequest user channel) w;
     client_joins user channels w
   }"

text \<open>Send Data Requests of the client's user, each on its channel.\<close>

fun client_requests :: "u16 \<Rightarrow> (u16 \<times> (writer \<Rightarrow> writer option)) list \<Rightarrow> writer \<Rightarrow> writer option" where
  "client_requests user [] w = Some w"
| "client_requests user ((channel, payload) # requests) w = do {
     data \<leftarrow> payload [];
     w \<leftarrow> write_domain_pdu (SendDataRequest user channel data) w;
     client_requests user requests w
   }"

text \<open>What a client writes into them: auto-detect responses on the message channel, data PDUs on the I/O channel.\<close>

definition client_answer :: "ad_response \<Rightarrow> writer \<Rightarrow> writer option" where
  "client_answer response w = Some (encode_response response (write_basic_security_header sec_autodetect_rsp w))"

definition client_data_pdu :: "u32 \<Rightarrow> u16 \<Rightarrow> data_pdu \<Rightarrow> writer \<Rightarrow> writer option" where
  "client_data_pdu share user pdu w = do {
     payload \<leftarrow> encode_payload pdu [];
     write_data_pdu share user (type2_of pdu) payload w
   }"

definition client_finalization :: "data_pdu list" where
  "client_finalization = [Synchronize 1 mcs_server_channel_id, Control control_cooperate 0 0, Control control_request 0 0,
     FontList 0 0 0x0003 0x0032]"

text \<open>
  The channels the server assigns behind the I/O channel and the static channels: the message channel, if the client
  asks for one, and the user channel.
\<close>

definition message_channel_for :: "client_data \<Rightarrow> u16" where
  "message_channel_for client = snd (assign_channels (mcs_io_channel_id + 1) (client_channels client))"

definition user_channel_for :: "client_data \<Rightarrow> u16" where
  "user_channel_for client = message_channel_for client + (if cl_message_channel client \<noteq> None then 1 else 0)"

text \<open>The whole sequence up to the Font List.\<close>

definition client_stream :: "client_data \<Rightarrow> connect_initial \<Rightarrow> u16 list \<Rightarrow> client_info \<Rightarrow> ad_response list \<Rightarrow> confirm_active \<Rightarrow> writer option" where
  "client_stream client initial channels info answers cf = do {
     let user = user_channel_for client;
     w \<leftarrow> client_connect client initial [];
     w \<leftarrow> write_domain_pdu (ErectDomainRequest 0 0) w;
     w \<leftarrow> write_domain_pdu AttachUserRequest w;
     w \<leftarrow> client_joins user channels w;
     client_requests user
       ((mcs_io_channel_id, \<lambda>w. encode_client_info info (write_basic_security_header sec_info_pkt w)) #
        map (\<lambda>response. (message_channel_for client, client_answer response)) answers @
        (mcs_io_channel_id, encode_confirm_active user cf) #
        map (\<lambda>pdu. (mcs_io_channel_id, client_data_pdu (ca_share_id cf) user pdu)) client_finalization) w
   }"

text \<open>
  The server measures the network before it licenses a client if it is configured to, and the client has a message
  channel, joined or with the joins skipped, and says that it answers. Then the client has to answer both requests, in
  either order, or report what it knows of the network from an earlier connection.
\<close>

definition server_detects :: "server_config \<Rightarrow> client_data \<Rightarrow> u16 list \<Rightarrow> bool" where
  "server_detects config client channels \<longleftrightarrow> sv_autodetect config = AutoDetectFull \<and> cl_message_channel client \<noteq> None \<and>
     has_early_flag (cl_core client) early_support_netchar_autodetect \<and>
     (has_early_flag (cl_core client) early_support_skip_channeljoin \<or> message_channel_for client \<in> set channels)"

fun answers_complete :: "ad_response list \<Rightarrow> bool" where
  "answers_complete [RttResponse rtt, BandwidthResults bw type delta count] =
     (rtt = 1 \<and> bw = 2 \<and> type = bw_results_connect_time)"
| "answers_complete [BandwidthResults bw type delta count, RttResponse rtt] =
     (rtt = 1 \<and> bw = 2 \<and> type = bw_results_connect_time)"
| "answers_complete [NetworkCharacteristicsSync seq bandwidth rtt] = True"
| "answers_complete _ = False"

definition answers_fit :: "server_config \<Rightarrow> client_data \<Rightarrow> u16 list \<Rightarrow> ad_response list \<Rightarrow> bool" where
  "answers_fit config client channels answers \<longleftrightarrow>
     (if server_detects config client channels then answers_complete answers else answers = [])"

text \<open>A data PDU of the server, as it leaves.\<close>

definition server_pdu :: "u32 \<Rightarrow> data_pdu \<Rightarrow> bytes" where
  "server_pdu share pdu = tpkt_enc (data_enc (domain_pdu_enc (SendDataIndication mcs_server_channel_id mcs_io_channel_id
     (share_control_enc pdu_type_data mcs_server_channel_id (share_data_enc share (type2_of pdu) (payload_enc pdu))))))"

section \<open>One PDU at a time\<close>

abbreviation tpdu :: "bytes \<Rightarrow> bytes" where
  "tpdu payload \<equiv> tpkt_enc (data_enc payload)"

lemma handle_tpdu:
  assumes "7 + length payload \<le> max_tpkt_size"
  shows "handle_pdu FrameTpkt (tpdu payload) st =
    (if cn_state st = WaitConnectInitial then on_connect_initial (mk_reader payload 7) st
     else on_domain_pdu (mk_reader payload 7) st)"
proof -
  have "fst (read_tpkt (mk_reader (tpdu payload) 0)) = Inr (mk_reader (data_enc payload) 4)"
    using assms read_tpkt_enc [of "mk_reader (tpdu payload) 0" "data_enc payload" "[]"] by simp
  moreover have "peek_tpdu_code (mk_reader (data_enc payload) 4) = Inr TpduData" by (rule peek_tpdu_code_data) simp
  moreover have "fst (decode_data_tpdu (mk_reader (data_enc payload) 4)) = Inr (mk_reader payload 7)"
    using decode_data_tpdu_enc [of "mk_reader (data_enc payload) 4" payload] by simp
  ultimately show ?thesis by (simp add: handle_pdu_def cn_try_def)
qed

lemma receive_tpdu:
  assumes "7 + length payload \<le> max_tpkt_size" "cn_state st \<noteq> ConnClosed"
    "(if cn_state st = WaitConnectInitial then on_connect_initial (mk_reader payload 7) st
      else on_domain_pdu (mk_reader payload 7) st) = Some (Inr (), st')"
  shows "receive_loop (tpdu payload @ rest) st = receive_loop rest st'"
  using assms peek_frame_tpkt [of "data_enc payload" rest] handle_tpdu [OF assms(1), of st]
  by (simp add: receive_loop.simps [of "tpdu payload @ rest"] Let_def)

text \<open>What is known of a connection under way: its phase, user channel, share and events.\<close>

definition reached :: "server_config \<Rightarrow> u16 \<Rightarrow> conn_state \<Rightarrow> conn_event list \<Rightarrow> connection \<Rightarrow> bool" where
  "reached config user s es st \<longleftrightarrow> cn_config st = config \<and> cn_state st = s \<and> se_user_channel_id (cn_session st) = user \<and>
     (share_exists s \<longrightarrow> se_share_id (cn_session st) = 0x00010000 OR ucast user) \<and> cn_events st = es \<and>
     \<not> cn_reactivating st \<and> cn_inv st"

definition leads :: "connection \<Rightarrow> bytes \<Rightarrow> connection \<Rightarrow> bool" where
  "leads st bs st' \<longleftrightarrow> (\<forall>rest. receive_loop (bs @ rest) st = receive_loop rest st')"

text \<open>What the connect-time detection will depend on: the client's data, the message channel and which joins were made.\<close>

definition prepared :: "client_data \<Rightarrow> u16 list \<Rightarrow> connection \<Rightarrow> bool" where
  "prepared client channels st \<longleftrightarrow> se_client_data (cn_session st) = client \<and>
     se_message_channel_id (cn_session st) = (if cl_message_channel client \<noteq> None then Some (message_channel_for client) else None) \<and>
     (cl_message_channel client \<noteq> None \<longrightarrow>
       (message_channel_for client \<in> set (cn_joined_channels st) \<longleftrightarrow> message_channel_for client \<in> set channels)) \<and>
     cn_autodetect st = ad_new (sv_autodetect_config (cn_config st))"

lemma leads_trans: "leads st bs st' \<Longrightarrow> leads st' bs' st'' \<Longrightarrow> leads st (bs @ bs') st''"
  by (simp add: leads_def)

lemma decode_domain_pdu_fst: "domain_pdu_ok pdu \<Longrightarrow> fst (decode_domain_pdu (mk_reader (domain_pdu_enc pdu) b)) = Inr pdu"
  by (rule mcs_domain.rd_pdu) simp_all

lemma leads_domain_pdu:
  assumes "domain_pdu_ok pdu" "cn_state st \<noteq> ConnClosed" "cn_state st \<noteq> WaitConnectInitial"
    "on_domain_pdu (mk_reader (domain_pdu_enc pdu) 7) st = Some (Inr (), st')"
  shows "leads st (tpdu (domain_pdu_enc pdu)) st'"
  unfolding leads_def using assms length_domain_pdu_enc [OF assms(1)]
  by (intro allI receive_tpdu) (simp_all add: per_max_length_def max_tpkt_size_def)

lemma handled_inv: "hok st (Some (r, st')) \<Longrightarrow> cn_inv st'"
  by (simp add: hok_def stays_def)

lemma erect_leads:
  assumes "reached config user WaitErectDomain es st" "prepared client channels st"
  shows "\<exists>st'. leads st (tpdu (domain_pdu_enc (ErectDomainRequest h i))) st' \<and> reached config user WaitAttachUser es st' \<and>
    prepared client channels st'"
proof -
  have ok: "domain_pdu_ok (ErectDomainRequest h i)" by (simp add: domain_pdu_ok_def)
  have st: "cn_state st = WaitErectDomain" using assms by (simp add: reached_def)
  then have h: "on_domain_pdu (mk_reader (domain_pdu_enc (ErectDomainRequest h i)) 7) st = Some (Inr (), st\<lparr>cn_state := WaitAttachUser\<rparr>)"
    using decode_domain_pdu_fst [OF ok, of 7] by (simp add: on_domain_pdu_def cn_try_def cn_ok_def)
  have "reached config user WaitAttachUser es (st\<lparr>cn_state := WaitAttachUser\<rparr>)"
    using assms erect_stays [of st] by (simp add: reached_def share_exists_def stays_def)
  moreover have "prepared client channels (st\<lparr>cn_state := WaitAttachUser\<rparr>)" using assms(2) by (simp add: prepared_def)
  ultimately show ?thesis using leads_domain_pdu [OF ok _ _ h] st by auto
qed

lemma attach_leads:
  assumes "reached config user WaitAttachUser es st" "prepared client channels st"
  shows "\<exists>st'. leads st (tpdu (domain_pdu_enc AttachUserRequest)) st' \<and> reached config user WaitChannelJoins es st' \<and>
    prepared client channels st'"
proof -
  have ok: "domain_pdu_ok AttachUserRequest" by (simp add: domain_pdu_ok_def)
  have st: "cn_inv st" "cn_state st = WaitAttachUser" using assms by (simp_all add: reached_def)
  have "domain_pdu_ok (AttachUserConfirm mcs_result_successful (Some (se_user_channel_id (cn_session st))))"
    using st channel_ids_above [of "cn_session st"]
    by (simp add: cn_inv_def Let_def domain_pdu_ok_def mcs_result_successful_def mcs_result_alternatives_def)
  from send_domain_pdu_appends [OF this, of st] obtain bs where
    "send_domain_pdu (AttachUserConfirm mcs_result_successful (Some (se_user_channel_id (cn_session st)))) st =
      Some (st\<lparr>cn_output := cn_output st @ bs\<rparr>)" by (rule appendsE)
  then have h: "on_domain_pdu (mk_reader (domain_pdu_enc AttachUserRequest) 7) st =
      Some (Inr (), st\<lparr>cn_output := cn_output st @ bs, cn_state := WaitChannelJoins\<rparr>)"
    using st decode_domain_pdu_fst [OF ok, of 7] by (simp add: on_domain_pdu_def cn_try_def cn_ok_def)
  have "cn_inv (st\<lparr>cn_output := cn_output st @ bs, cn_state := WaitChannelJoins\<rparr>)"
    using on_domain_pdu_ok [of st "mk_reader (domain_pdu_enc AttachUserRequest) 7"] st unfolding h
    by (intro handled_inv) simp
  then have "reached config user WaitChannelJoins es (st\<lparr>cn_output := cn_output st @ bs, cn_state := WaitChannelJoins\<rparr>)"
    using assms by (simp add: reached_def share_exists_def)
  moreover have "prepared client channels (st\<lparr>cn_output := cn_output st @ bs, cn_state := WaitChannelJoins\<rparr>)"
    using assms(2) by (simp add: prepared_def)
  ultimately show ?thesis using leads_domain_pdu [OF ok _ _ h] st by auto
qed

lemma reached_user: "reached config user s es st \<Longrightarrow> s \<notin> {WaitConnectInitial, ConnClosed} \<Longrightarrow> mcs_user_id_base \<le> user"
  using channel_ids_above [of "cn_session st"] by (auto simp: reached_def cn_inv_def Let_def)

lemma join_leads:
  assumes "reached config user WaitChannelJoins es st" "prepared client channels st"
  shows "\<exists>st'. leads st (tpdu (domain_pdu_enc (ChannelJoinRequest user channel))) st' \<and>
    reached config user WaitChannelJoins es st' \<and> prepared client (channels @ [channel]) st'"
proof -
  have ok: "domain_pdu_ok (ChannelJoinRequest user channel)"
    "domain_pdu_ok (ChannelJoinConfirm mcs_result_successful user channel c)"
    "domain_pdu_ok (ChannelJoinConfirm mcs_result_no_such_channel user channel c)" for c
    using reached_user [OF assms(1)]
    by (simp_all add: domain_pdu_ok_def mcs_result_successful_def mcs_result_no_such_channel_def mcs_result_alternatives_def)
  have st: "cn_inv st" "cn_state st = WaitChannelJoins" "se_user_channel_id (cn_session st) = user"
    using assms(1) by (simp_all add: reached_def)
  have sent: "send_domain_pdu pdu st1 = Some (st1\<lparr>cn_output := cn_output st1 @ tpdu (domain_pdu_enc pdu)\<rparr>)"
    if "domain_pdu_ok pdu" for pdu st1
    using that by (simp add: send_domain_pdu_def write_domain_pdu_enc)
  define js where "js = cn_joined_channels st @ (if channel = user \<or> channel = mcs_io_channel_id \<or>
      se_message_channel_id (cn_session st) = Some channel \<or> channel_known channel (cn_session st) then [channel] else [])"
  have "\<exists>w. on_channel_join user channel st = Some (Inr (), st\<lparr>cn_joined_channels := js, cn_output := w\<rparr>)"
    using st(3) ok(2,3) sent by (auto simp: on_channel_join_def Let_def cn_ok_def js_def)
  then obtain w where h: "on_domain_pdu (mk_reader (domain_pdu_enc (ChannelJoinRequest user channel)) 7) st =
      Some (Inr (), st\<lparr>cn_joined_channels := js, cn_output := w\<rparr>)"
    using st decode_domain_pdu_fst [OF ok(1), of 7] by (auto simp: on_domain_pdu_def cn_try_def)
  have "reached config user WaitChannelJoins es (st\<lparr>cn_joined_channels := js, cn_output := w\<rparr>)"
    using assms(1) by (simp add: reached_def)
  moreover have "prepared client (channels @ [channel]) (st\<lparr>cn_joined_channels := js, cn_output := w\<rparr>)"
    using assms(2) by (auto simp: prepared_def js_def)
  ultimately show ?thesis using leads_domain_pdu [OF ok(1) _ _ h] st by auto
qed

section \<open>The MCS connection\<close>

text \<open>The client's part of the connect request fits its containers.\<close>

definition connect_fits :: "client_data \<Rightarrow> connect_initial \<Rightarrow> bool" where
  "connect_fits client initial \<longleftrightarrow> client_data_ok client \<and> user_data_ok (concat (client_blocks client)) \<and>
     length (ci_calling_domain_selector initial) + length (ci_called_domain_selector initial) \<le> 1000"

definition connect_payload :: "client_data \<Rightarrow> connect_initial \<Rightarrow> bytes" where
  "connect_payload client initial = connect_initial_enc (initial\<lparr>ci_user_data := user_data_enc request_head (concat (client_blocks client))\<rparr>)"

lemma connect_payload_fits:
  assumes "connect_fits client initial"
  shows "connect_initial_ok (initial\<lparr>ci_user_data := user_data_enc request_head (concat (client_blocks client))\<rparr>)"
    "7 + length (connect_payload client initial) \<le> max_tpkt_size"
proof -
  let ?c = "user_data_enc request_head (concat (client_blocks client))"
  let ?i = "initial\<lparr>ci_user_data := ?c\<rparr>"
  note tlv = length_ber_tlv_enc_le [where t = ber_octet_string_tag]
  have c: "length ?c \<le> per_max_length + 24"
    using assms by (simp add: connect_fits_def user_data_ok_def user_data_enc_def conference_enc_def request_head_def per_length_enc_def)
  then show ok: "connect_initial_ok ?i"
    using assms by (simp add: connect_initial_ok_def connect_fits_def per_max_length_def)
  have "length (connect_initial_body ?i) \<le> per_max_length + 2000"
    using c assms tlv [of "ci_calling_domain_selector initial"] tlv [of "ci_called_domain_selector initial"] tlv [of ?c]
      length_ber_tlv_enc_le [of "[if ci_upward_flag initial then 0xFF else 0]" ber_boolean_tag]
      length_domain_parameters_enc [of "ci_target initial"] length_domain_parameters_enc [of "ci_minimum initial"]
      length_domain_parameters_enc [of "ci_maximum initial"]
    by (simp add: connect_initial_body_def connect_fits_def per_max_length_def)
  then show "7 + length (connect_payload client initial) \<le> max_tpkt_size"
    using length_ber_tlv_enc_le [OF length_connect_initial_body [OF ok], of mcs_connect_initial_tag]
    by (simp add: connect_payload_def connect_initial_enc_def per_max_length_def max_tpkt_size_def)
qed

lemma client_connect_enc:
  assumes "connect_fits client initial"
  shows "client_connect client initial w = Some (w @ tpdu (connect_payload client initial))"
proof -
  have "encode_client_data client [] = Some (concat (client_blocks client))"
    using assms encode_client_data_enc [of client "[]"] by (simp add: connect_fits_def)
  moreover have "encode_conference_create_request (concat (client_blocks client)) [] =
      Some (user_data_enc request_head (concat (client_blocks client)))"
    using assms conference_request.wr_enc [of _ "[]"] by (simp add: connect_fits_def)
  moreover have "end_tpkt (fst (begin_data_tpdu w)) (snd (begin_data_tpdu w) @ connect_payload client initial) =
      Some (w @ tpdu (connect_payload client initial))"
    using connect_payload_fits(2) [OF assms] by (intro data_tpdu_written) 
  ultimately show ?thesis
    using mcs_initial.wr_enc [OF connect_payload_fits(1) [OF assms]]
    by (simp add: client_connect_def client_tpdu_def connect_payload_def case_prod_beta Let_def)
qed

lemma connect_leads:
  assumes "connect_fits client initial"
    "server_selected_protocol (cl_core client) \<in> {None, Some (ng_selected_protocol neg)}"
  shows "\<exists>st'. leads (cn_new config neg) (tpdu (connect_payload client initial)) st' \<and>
    reached config (user_channel_for client) WaitErectDomain [] st' \<and> prepared client [] st'"
proof -
  let ?st = "cn_new config neg" and ?blocks = "concat (client_blocks client)"
  let ?i = "initial\<lparr>ci_user_data := user_data_enc request_head ?blocks\<rparr>"
  have ok: "client_data_ok client" "user_data_ok ?blocks" "connect_initial_ok ?i"
    using assms(1) connect_payload_fits(1) by (simp_all add: connect_fits_def)
  have d: "fst (decode_connect_initial (mk_reader (connect_payload client initial) 7)) = Inr ?i"
    "fst (decode_conference_create_request (mk_reader (user_data_enc request_head ?blocks) 0)) = Inr ?blocks"
    "fst (decode_client_data (mk_reader ?blocks 0)) = Inr client"
    using mcs_initial.pdu.rd_pdu [OF ok(3)] conference_request.pdu.rd_pdu [OF ok(2)] client_data_blocks.rd_pdu [OF ok(1)]
    by (simp_all add: connect_payload_def)
  have wf: "client_data_wf client"
    using d(3) by (intro decode_client_data_wf) (simp add: prod_eq_iff)
  let ?se = "accept_client config client (no_session neg\<lparr>se_client_data := client\<rparr>)"
  obtain sb conference bs w' where out: "encode_server_data (server_data_for neg client) [] = Some sb"
    "encode_conference_create_response sb [] = Some conference"
    "encode_connect_response \<lparr>crs_result = 0, crs_called_connect_id = 0,
         crs_parameters = negotiate_domain_parameters ?i, crs_user_data = conference\<rparr> (snd (begin_data_tpdu [])) = Some w'"
    "end_tpkt (fst (begin_data_tpdu [])) w' = Some bs"
    using connect_response_ok_written [OF server_data_for_ok [OF wf, of neg],
        of "\<lparr>crs_result = 0, crs_called_connect_id = 0, crs_parameters = negotiate_domain_parameters ?i,
          crs_user_data = []\<rparr>" "[]"]
    by (auto simp: mcs_result_alternatives_def)
  have h: "on_connect_initial (mk_reader (connect_payload client initial) 7) ?st =
      Some (Inr (), ?st\<lparr>cn_session := ?se, cn_output := bs, cn_state := WaitErectDomain\<rparr>)"
    using d out assms(2) by (auto simp: on_connect_initial_def cn_try_def cn_new_def no_session_def Let_def case_prod_beta)
  then have "cn_inv (?st\<lparr>cn_session := ?se, cn_output := bs, cn_state := WaitErectDomain\<rparr>)"
    using on_connect_initial_ok [OF cn_inv_new, of config neg "mk_reader (connect_payload client initial) 7"]
    by (intro handled_inv [where st = ?st]) (simp add: cn_new_def)
  then have "reached config (user_channel_for client) WaitErectDomain [] (?st\<lparr>cn_session := ?se, cn_output := bs, cn_state := WaitErectDomain\<rparr>)"
    by (simp add: reached_def cn_new_def share_exists_def accept_client_def user_channel_for_def message_channel_for_def Let_def
        case_prod_beta)
  moreover have "prepared client [] (?st\<lparr>cn_session := ?se, cn_output := bs, cn_state := WaitErectDomain\<rparr>)"
    by (simp add: prepared_def cn_new_def accept_client_def no_session_def message_channel_for_def Let_def case_prod_beta)
  moreover have "leads ?st (tpdu (connect_payload client initial)) (?st\<lparr>cn_session := ?se, cn_output := bs, cn_state := WaitErectDomain\<rparr>)"
    unfolding leads_def using connect_payload_fits(2) [OF assms(1)] h by (intro allI receive_tpdu) (simp_all add: cn_new_def)
  ultimately show ?thesis by blast
qed

section \<open>The secured settings, capabilities and finalization\<close>

text \<open>A Send Data Request of the client's user.\<close>

abbreviation request :: "u16 \<Rightarrow> u16 \<Rightarrow> bytes \<Rightarrow> bytes" where
  "request user channel data \<equiv> tpdu (domain_pdu_enc (SendDataRequest user channel data))"

lemma client_requests_enc:
  assumes "mcs_user_id_base \<le> user" "list_all2 (\<lambda>(c, payload) (c', data). c = c' \<and> payload [] = Some data \<and> length data \<le> per_max_length)
    requests sent"
  shows "client_requests user requests w = Some (w @ concat (map (\<lambda>(c, data). request user c data) sent))"
  using assms(2)
proof (induction requests sent arbitrary: w rule: list_all2_induct)
  case (Cons r rs d ds)
  then show ?case
    using assms(1) by (cases r; cases d) (simp add: write_domain_pdu_enc domain_pdu_ok_def)
qed simp

lemma request_leads:
  assumes "reached config user s es st" "s \<notin> {WaitConnectInitial, WaitErectDomain, WaitAttachUser, ConnClosed}"
    "length data \<le> per_max_length" "on_send_data 7 user channel data st = Some (Inr (), st')"
  shows "leads st (request user channel data) st' \<and> cn_inv st'"
proof -
  have ok: "domain_pdu_ok (SendDataRequest user channel data)"
    using reached_user [OF assms(1)] assms(2,3) by (simp add: domain_pdu_ok_def)
  have st: "cn_inv st" "cn_state st = s" "se_user_channel_id (cn_session st) = user"
    using assms(1) by (simp_all add: reached_def)
  have h: "on_domain_pdu (mk_reader (domain_pdu_enc (SendDataRequest user channel data)) 7) st = Some (Inr (), st')"
    using st assms(2,4) decode_domain_pdu_fst [OF ok, of 7] by (simp add: on_domain_pdu_def cn_try_def Let_def)
  moreover have "cn_inv st'"
    using on_domain_pdu_ok [OF st(1), of "mk_reader (domain_pdu_enc (SendDataRequest user channel data)) 7"] st assms(2)
    unfolding h by (intro handled_inv) simp
  ultimately show ?thesis
    using leads_domain_pdu [OF ok, of st] st assms(2) by simp
qed

lemma io_leads:
  assumes "reached config user s es st" "s \<notin> {WaitConnectInitial, WaitErectDomain, WaitAttachUser, ConnClosed}"
    "length data \<le> per_max_length"
    "(if s = WaitChannelJoins then on_client_info (mk_reader data 7) st else on_io_data (mk_reader data 7) st) = Some (Inr (), st')"
  shows "leads st (request user mcs_io_channel_id data) st' \<and> cn_inv st'"
proof -
  have "cn_state st = s" "se_user_channel_id (cn_session st) = user" using assms(1) by (simp_all add: reached_def)
  with assms(4) show ?thesis
    by (intro request_leads [OF assms(1-3)]) (simp add: on_send_data_def)
qed

definition info_payload :: "client_info \<Rightarrow> bytes" where
  "info_payload info = security_header_enc sec_info_pkt @ client_info_enc info"

definition info_event :: "client_info \<Rightarrow> conn_event" where
  "info_event info = EvClientInfo (ci_domain info) (ci_user_name info) (ci_password info) (ci_flags info)
     (case ci_extended info of None \<Rightarrow> None | Some ext \<Rightarrow> ext_auto_reconnect_cookie ext)"

text \<open>After the Client Info PDU the server either measures the network or goes on to the capabilities.\<close>

lemma record_prepared:
  assumes "prepared client channels st" "cn_config st = config"
  shows "se_autodetect (cn_session (record_client_info info st)) \<and> sv_autodetect config = AutoDetectFull \<longleftrightarrow>
    server_detects config client channels"
  using assms
  by (auto simp: record_client_info_def prepared_def server_detects_def message_channel_joined_def cn_event_def Let_def)

lemma info_leads:
  assumes "reached config user WaitChannelJoins es st" "prepared client channels st"
    "client_info_ok info" "length (info_payload info) \<le> per_max_length"
  shows "\<exists>st'. leads st (request user mcs_io_channel_id (info_payload info)) st' \<and>
    reached config user (if server_detects config client channels then ConnectTimeAutodetect else WaitConfirmActive)
      (es @ [info_event info]) st' \<and>
    se_message_channel_id (cn_session st') = se_message_channel_id (cn_session st) \<and>
    (server_detects config client channels \<longrightarrow>
      (\<exists>now. cn_autodetect st' = snd (start_connect_time now (ad_new (sv_autodetect_config config)))))"
proof -
  let ?r = "mk_reader (info_payload info) 7" and ?i = "record_client_info info st" and ?ad = "ad_new (sv_autodetect_config config)"
  have r: "read_basic_security_header ?r = (Inr sec_info_pkt, rd_advance (length (security_header_enc sec_info_pkt)) ?r)"
    by (rule security_header.rd_enc) (simp_all add: info_payload_def sec_info_pkt_def sec_encrypt_def)
  have d: "fst (decode_client_info (rd_advance (length (security_header_enc sec_info_pkt)) ?r)) = Inr info"
    by (rule client_info_pdu.rd_pdu [OF assms(3)]) (simp_all add: info_payload_def)
  have st: "cn_config st = config" "cn_events st = es" "\<not> cn_reactivating st" "se_user_channel_id (cn_session st) = user"
    "cn_state st = WaitChannelJoins" "cn_inv st"
    using assms(1) by (simp_all add: reached_def)
  have i: "cn_events ?i = es @ [info_event info]" "se_user_channel_id (cn_session ?i) = user" "cn_autodetect ?i = ?ad"
    "cn_config ?i = config"
    using st assms(2) by (simp_all add: record_client_info_def Let_def cn_event_def info_event_def prepared_def)
  note detects = record_prepared [OF assms(2) st(1), of info]
  show ?thesis
  proof (cases "server_detects config client channels")
    case True
    let ?qs = "fst (start_connect_time (cn_now ?i) ?ad)" and ?s = "?i\<lparr>cn_state := ConnectTimeAutodetect,
      cn_autodetect := snd (start_connect_time (cn_now ?i) ?ad)\<rparr>"
    have "se_message_channel_id (cn_session ?i) \<noteq> None"
      using True detects record_client_info_inv(2) [OF st(6,5), of info] by simp
    then have "appends (send_autodetects ?qs) ?s"
      using start_connect_time_requests_ok by (intro send_autodetects_appends) (auto simp: list_all_iff)
    then obtain bs where "send_autodetects ?qs ?s = Some (?s\<lparr>cn_output := cn_output ?s @ bs\<rparr>)" by (rule appendsE)
    with r d i True detects have "on_client_info ?r st = Some (Inr (), ?s\<lparr>cn_output := cn_output ?s @ bs\<rparr>)"
      by (simp add: on_client_info_def cn_try_def cn_ok_def Let_def sec_info_pkt_def case_prod_beta)
    from io_leads [OF assms(1) _ assms(4)] this st i True show ?thesis
      by (intro exI [of _ "?s\<lparr>cn_output := cn_output ?s @ bs\<rparr>"]) (auto simp: reached_def share_exists_def)
  next
    case False
    obtain bs where lic: "start_licensing ?i = Some (?i\<lparr>cn_session := with_share (cn_session ?i),
       cn_output := cn_output ?i @ bs, cn_state := WaitConfirmActive\<rparr>)" using start_licensing_ok by blast
    let ?s = "?i\<lparr>cn_session := with_share (cn_session ?i), cn_output := cn_output ?i @ bs, cn_state := WaitConfirmActive\<rparr>"
    have "on_client_info ?r st = Some (Inr (), ?s)"
      using r d lic i False detects by (auto simp: on_client_info_def cn_try_def cn_ok_def Let_def sec_info_pkt_def)
    from io_leads [OF assms(1) _ assms(4)] this st i False show ?thesis
      by (intro exI [of _ ?s]) (simp add: reached_def share_exists_def, simp add: with_share_def)
  qed
qed

text \<open>The client's answers end the measurement; one that comes after the end changes nothing but the estimates.\<close>

definition answer_payload :: "ad_response \<Rightarrow> bytes" where
  "answer_payload response = security_header_enc sec_autodetect_rsp @ response_enc response"

lemma client_answer_enc: "response_ok response \<Longrightarrow> client_answer response [] = Some (answer_payload response)"
  using ad_response.wr_enc [of response "security_header_enc sec_autodetect_rsp"] security_header.wr_enc [of sec_autodetect_rsp "[]"]
  by (simp add: client_answer_def answer_payload_def sec_autodetect_rsp_def sec_encrypt_def)

lemma length_answer_payload: "length (answer_payload response) \<le> per_max_length"
  by (cases response) (simp_all add: answer_payload_def security_header_enc_def ad_header_enc_def per_max_length_def)

lemma on_answer:
  assumes "response_ok response"
  shows "on_message_channel (mk_reader (answer_payload response) 7) st =
    (let st = st\<lparr>cn_autodetect := on_response response (cn_now st) (cn_autodetect st)\<rparr> in
     if cn_state st = ConnectTimeAutodetect \<and> connect_time_complete (cn_now st) (cn_autodetect st)
     then cn_ok (finish_connect_time_autodetect st) else cn_ok (Some st))"
proof -
  let ?r = "mk_reader (answer_payload response) 7"
  have "read_basic_security_header ?r = (Inr sec_autodetect_rsp, rd_advance (length (security_header_enc sec_autodetect_rsp)) ?r)"
    by (rule security_header.rd_enc) (simp_all add: answer_payload_def sec_autodetect_rsp_def sec_encrypt_def)
  moreover have "fst (decode_response (rd_advance (length (security_header_enc sec_autodetect_rsp)) ?r)) = Inr response"
    using ad_response.rd_enc [OF assms, of "rd_advance (length (security_header_enc sec_autodetect_rsp)) ?r" "[]"]
    by (simp add: answer_payload_def)
  ultimately show ?thesis by (simp add: on_message_channel_def sec_autodetect_rsp_def Let_def)
qed

lemma message_channel_not_io: "channels_ok se \<Longrightarrow> se_message_channel_id se \<noteq> Some mcs_io_channel_id"
proof
  let ?n = "length (se_static_channels se)"
  assume "channels_ok se" "se_message_channel_id se = Some mcs_io_channel_id"
  then have "?n \<le> 31" "(1003 :: u16) = 1004 + of_nat ?n"
    by (simp_all add: channels_ok_def max_static_channels_def mcs_io_channel_id_def Let_def)
  moreover from \<open>?n \<le> 31\<close> have "unat (1004 + of_nat ?n :: u16) = 1004 + ?n"
    by (simp add: unat_word_ariths unsigned_of_nat take_bit_nat_eq_self)
  ultimately have "unat (1003 :: u16) = 1004 + ?n" by (metis (full_types))
  then show False by simp
qed

lemma answer_leads:
  assumes "reached config user s es st" "s \<in> {ConnectTimeAutodetect, WaitConfirmActive}"
    "se_message_channel_id (cn_session st) = Some channel" "response_ok response"
  shows "\<exists>st' s'. leads st (request user channel (answer_payload response)) st' \<and> reached config user s' es st' \<and>
    se_message_channel_id (cn_session st') = Some channel \<and>
    (s' = WaitConfirmActive \<or> s' = s \<and> \<not> connect_time_complete (cn_now st) (cn_autodetect st') \<and> cn_now st' = cn_now st \<and>
       cn_autodetect st' = on_response response (cn_now st) (cn_autodetect st))"
proof -
  let ?st = "st\<lparr>cn_autodetect := on_response response (cn_now st) (cn_autodetect st)\<rparr>"
  have st: "cn_inv st" "cn_state st = s" "se_user_channel_id (cn_session st) = user" "cn_config st = config" "cn_events st = es"
    "\<not> cn_reactivating st"
    using assms(1) by (simp_all add: reached_def)
  have "s \<notin> {WaitConnectInitial, ConnClosed}" using assms(2) by auto
  then have "channels_ok (cn_session st)" using st(1,2) by (simp add: cn_inv_def Let_def)
  then have "channel \<noteq> mcs_io_channel_id" using message_channel_not_io assms(3) by auto
  then have h: "on_send_data 7 user channel (answer_payload response) st = on_message_channel (mk_reader (answer_payload response) 7) st"
    using st assms(3) by (simp add: on_send_data_def)
  have leads: "leads st (request user channel (answer_payload response)) st' \<and> cn_inv st'"
    if "on_message_channel (mk_reader (answer_payload response) 7) st = Some (Inr (), st')" for st'
    using assms(2) that by (intro request_leads [OF assms(1) _ length_answer_payload]) (auto simp: h)
  show ?thesis
  proof (cases "s = ConnectTimeAutodetect \<and> connect_time_complete (cn_now st) (cn_autodetect ?st)")
    case True
    obtain bs ad where "finish_connect_time_autodetect ?st = Some (?st\<lparr>cn_autodetect := ad,
       cn_session := with_share (cn_session ?st), cn_output := cn_output ?st @ bs, cn_state := WaitConfirmActive\<rparr>)"
      using finish_connect_time_autodetect_ok [of ?st] assms(3) by auto
    then have "on_message_channel (mk_reader (answer_payload response) 7) st = Some (Inr (), ?st\<lparr>cn_autodetect := ad,
       cn_session := with_share (cn_session ?st), cn_output := cn_output ?st @ bs, cn_state := WaitConfirmActive\<rparr>)"
      using True st(2) by (simp add: on_answer [OF assms(4)] cn_ok_def)
    from leads [OF this] True st assms(3) show ?thesis
      by (intro exI [of _ "?st\<lparr>cn_autodetect := ad, cn_session := with_share (cn_session ?st),
         cn_output := cn_output ?st @ bs, cn_state := WaitConfirmActive\<rparr>"] exI [of _ WaitConfirmActive])
        (simp add: reached_def, simp add: with_share_def)
  next
    case False
    then have "on_message_channel (mk_reader (answer_payload response) 7) st = Some (Inr (), ?st)"
      using st(2) by (auto simp: on_answer [OF assms(4)] cn_ok_def Let_def)
    from leads [OF this] False assms show ?thesis
      by (intro exI [of _ ?st] exI [of _ s]) (auto simp: reached_def)
  qed
qed

lemma answers_lead:
  assumes "reached config user s es st" "s \<in> {ConnectTimeAutodetect, WaitConfirmActive}"
    "se_message_channel_id (cn_session st) = Some channel" "list_all response_ok answers"
  shows "\<exists>st' s'. leads st (concat (map (\<lambda>response. request user channel (answer_payload response)) answers)) st' \<and>
    reached config user s' es st' \<and>
    (s' = WaitConfirmActive \<or> s' = s \<and>
       (answers \<noteq> [] \<longrightarrow> \<not> connect_time_complete (cn_now st) (fold (\<lambda>r. on_response r (cn_now st)) answers (cn_autodetect st))))"
  using assms
proof (induction answers arbitrary: s st)
  case Nil
  then show ?case by (intro exI [of _ st] exI [of _ s]) (simp add: leads_def)
next
  case (Cons response answers)
  obtain st1 s1 where 1: "leads st (request user channel (answer_payload response)) st1" "reached config user s1 es st1"
    "se_message_channel_id (cn_session st1) = Some channel"
    and s1: "s1 = WaitConfirmActive \<or> s1 = s \<and> \<not> connect_time_complete (cn_now st) (cn_autodetect st1) \<and> cn_now st1 = cn_now st \<and>
       cn_autodetect st1 = on_response response (cn_now st) (cn_autodetect st)"
    using answer_leads [OF Cons.prems(1-3), of response] Cons.prems(4) by auto
  have "s1 \<in> {ConnectTimeAutodetect, WaitConfirmActive}" using s1 Cons.prems(2) by auto
  from Cons.IH [OF 1(2) this 1(3)] Cons.prems(4) obtain st2 s2 where
    2: "leads st1 (concat (map (\<lambda>response. request user channel (answer_payload response)) answers)) st2" "reached config user s2 es st2"
    and s2: "s2 = WaitConfirmActive \<or> s2 = s1 \<and>
       (answers \<noteq> [] \<longrightarrow> \<not> connect_time_complete (cn_now st1) (fold (\<lambda>r. on_response r (cn_now st1)) answers (cn_autodetect st1)))"
    by auto
  show ?case
    using leads_trans [OF 1(1) 2(1)] 2(2) s1 s2
    by (intro exI [of _ st2] exI [of _ s2]) (cases answers; auto)
qed

lemma answers_complete_time:
  assumes "answers_complete answers"
  shows "connect_time_complete t (fold (\<lambda>r. on_response r now) answers (snd (start_connect_time t0 (ad_new config))))"
    "list_all response_ok answers" "answers \<noteq> []"
proof -
  show "list_all response_ok answers" "answers \<noteq> []"
    using assms by (cases answers rule: answers_complete.cases; simp add: response_ok_def)+
  show "connect_time_complete t (fold (\<lambda>r. on_response r now) answers (snd (start_connect_time t0 (ad_new config))))"
    using assms
    by (cases answers rule: answers_complete.cases)
      (simp_all add: start_connect_time_def ad_op_defs on_rtt_response_def on_bandwidth_results_def ad_new_def no_estimate_def
        add_rtt_sample_def add_bandwidth_sample_def expire_probes_def connect_time_complete_def)
qed

lemma detection_leads:
  assumes "reached config user (if server_detects config client channels then ConnectTimeAutodetect else WaitConfirmActive) es st"
    "se_message_channel_id (cn_session st) = (if cl_message_channel client \<noteq> None then Some (message_channel_for client) else None)"
    "server_detects config client channels \<longrightarrow>
      (\<exists>now. cn_autodetect st = snd (start_connect_time now (ad_new (sv_autodetect_config config))))"
    "answers_fit config client channels answers"
  shows "\<exists>st'. leads st (concat (map (\<lambda>response. request user (message_channel_for client) (answer_payload response)) answers)) st' \<and>
    reached config user WaitConfirmActive es st'"
proof (cases "server_detects config client channels")
  case True
  obtain now where now: "cn_autodetect st = snd (start_connect_time now (ad_new (sv_autodetect_config config)))" using assms(3) True by blast
  have complete: "answers_complete answers" "se_message_channel_id (cn_session st) = Some (message_channel_for client)"
    "reached config user ConnectTimeAutodetect es st"
    using assms True by (simp_all add: answers_fit_def server_detects_def)
  then show ?thesis
    using answers_lead [OF complete(3) _ complete(2), of answers] answers_complete_time [OF complete(1)] by (auto simp: now)
next
  case False
  with assms(1,4) show ?thesis by (intro exI [of _ st]) (simp add: answers_fit_def leads_def)
qed

lemma decode_confirm_active_enc:
  assumes "exchange_ok (ca_source_descriptor cf) (ca_capabilities cf)"
  shows "fst (decode_confirm_active (mk_reader (confirm_active_enc cf) b)) = Inr cf"
  using assms
  by (simp add: decode_confirm_active_def confirm_active_enc_def rd_simps read_capabilities_enc [where ys = "[]"])

text \<open>What the server sends is the encoding of its PDUs.\<close>

lemma send_data_pdu_enc:
  assumes "payload_ok pdu \<and> length (payload_enc pdu) + 18 \<le> per_max_length"
  shows "send_data_pdu pdu st = Some (st\<lparr>cn_output := cn_output st @ server_pdu (se_share_id (cn_session st)) pdu\<rparr>)"
proof -
  let ?d = "share_control_enc pdu_type_data mcs_server_channel_id (share_data_enc (se_share_id (cn_session st)) (type2_of pdu) (payload_enc pdu))"
  have "domain_pdu_ok (SendDataIndication mcs_server_channel_id mcs_io_channel_id ?d)" using assms by (simp add: domain_pdu_ok_def)
  with assms write_data_pdu_enc [of "payload_enc pdu" "se_share_id (cn_session st)" mcs_server_channel_id "type2_of pdu" "[]"]
    encode_payload_enc [of pdu "[]"]
  show ?thesis
    by (simp add: send_data_pdu_def send_io_def send_domain_pdu_def write_domain_pdu_enc server_pdu_def per_max_length_def
        del: domain_pdu_enc.simps)
qed

lemmas send_small_enc = small_pdus_ok [THEN send_data_pdu_enc]

abbreviation confirm_payload :: "u16 \<Rightarrow> confirm_active \<Rightarrow> bytes" where
  "confirm_payload user cf \<equiv> share_control_enc pdu_type_confirm_active user (confirm_active_enc cf)"

lemma confirm_leads:
  assumes "reached config user WaitConfirmActive es st" "exchange_ok (ca_source_descriptor cf) (ca_capabilities cf)"
    "cs_general (ca_capabilities cf) \<noteq> None" "cs_bitmap (ca_capabilities cf) \<noteq> None"
    "ca_share_id cf = 0x00010000 OR ucast user" "length (confirm_active_enc cf) + 6 \<le> per_max_length"
  shows "\<exists>st'. leads st (request user mcs_io_channel_id (confirm_payload user cf)) st' \<and> reached config user Finalizing es st' \<and>
    cn_output st' = cn_output st @ concat (map (server_pdu (ca_share_id cf)) [Synchronize 1 user, Control control_cooperate 0 0])"
proof -
  let ?b = "confirm_active_enc cf" and ?caps = "(ca_capabilities cf)\<lparr>cs_other := []\<rparr>"
  let ?r = "mk_reader (confirm_payload user cf) 7"
  obtain general bitmap where caps: "cs_general (ca_capabilities cf) = Some general" "cs_bitmap (ca_capabilities cf) = Some bitmap"
    using assms(3,4) by blast
  have st: "cn_state st = WaitConfirmActive" "se_share_id (cn_session st) = ca_share_id cf" "se_user_channel_id (cn_session st) = user"
    using assms(1,5) by (simp_all add: reached_def share_exists_def)
  have r: "fst (read_share_control ?r) = Inr \<lparr>sc_type = pdu_type_confirm_active, sc_source = user, sc_body = mk_reader ?b 13\<rparr>"
    using assms(6) by (subst read_share_control_enc) (simp_all add: pdu_types per_max_length_def)
  have d: "fst (decode_confirm_active (mk_reader ?b 13)) = Inr cf" using assms(2) by (rule decode_confirm_active_enc)
  define se where "se = (cn_session st)\<lparr>
      se_fastpath_output := (extra_flags general AND extra_fastpath_output \<noteq> 0),
      se_no_bitmap_compression_header := (extra_flags general AND extra_no_bitmap_compression_hdr \<noteq> 0),
      se_max_request_size := (case cs_multifragment_update ?caps of Some m \<Rightarrow> max_request_size m | None \<Rightarrow> 0),
      se_pointer := agreed_pointer ?caps, se_client_capabilities := ?caps\<rparr>"
  let ?st = "st\<lparr>cn_session := se, cn_state := Finalizing,
    cn_output := cn_output st @ concat (map (server_pdu (ca_share_id cf)) [Synchronize 1 user, Control control_cooperate 0 0])\<rparr>"
  have "do { st \<leftarrow> send_data_pdu (Synchronize 1 (se_user_channel_id se)) (st\<lparr>cn_session := se, cn_state := Finalizing\<rparr>);
      send_data_pdu (Control control_cooperate 0 0) st } = Some ?st"
    using st(2,3) by (simp add: send_small_enc se_def)
  note send = this [symmetric]
  have "on_io_data ?r st = cn_ok (Some ?st)"
    unfolding send using st r d caps
    by (simp add: on_io_data_def on_confirm_active_def cn_try_def pdu_types pdu_type_flow_def Let_def se_def)
  then have "leads st (request user mcs_io_channel_id (confirm_payload user cf)) ?st \<and> cn_inv ?st"
    using assms(6) by (intro io_leads [OF assms(1)]) (simp_all add: cn_ok_def)
  moreover have "se_user_channel_id se = user" "se_share_id se = ca_share_id cf" "cn_config st = config" "cn_events st = es"
    "\<not> cn_reactivating st" "share_exists Finalizing"
    using assms(1) st by (simp_all add: se_def reached_def share_exists_def)
  ultimately show ?thesis
    using assms(5) by (intro exI [of _ ?st]) (simp add: reached_def)
qed

definition data_payload :: "u32 \<Rightarrow> u16 \<Rightarrow> data_pdu \<Rightarrow> bytes" where
  "data_payload share user pdu = share_control_enc pdu_type_data user (share_data_enc share (type2_of pdu) (payload_enc pdu))"

lemma on_data_payload:
  assumes "payload_ok pdu \<and> length (payload_enc pdu) + 18 \<le> per_max_length" "cn_state st = Finalizing" "se_share_id (cn_session st) = share"
  shows "on_io_data (mk_reader (data_payload share user pdu) 7) st = cn_ok (case pdu of
       Control action grant control \<Rightarrow>
         if action = control_request
         then send_data_pdu (Control control_granted (se_user_channel_id (cn_session st)) (ucast mcs_server_channel_id)) st
         else Some st
     | FontList _ _ _ _ \<Rightarrow> do { st \<leftarrow> send_data_pdu (FontMap 0 0 3 4) st; Some (if cn_state st = Finalizing then activate st else st) }
     | InputPdu events \<Rightarrow> Some (if events \<noteq> [] then cn_event (EvInput events) st else st)
     | RefreshRect areas \<Rightarrow> Some (cn_event (EvRefreshRequested areas) st)
     | SuppressOutput allow rect \<Rightarrow> Some (cn_event (EvOutputSuppressed (\<not> allow) rect) st)
     | ShutdownRequest \<Rightarrow> Some (cn_event EvShutdownRequested st)
     | _ \<Rightarrow> Some st)"
proof -
  let ?d = "share_data_enc share (type2_of pdu) (payload_enc pdu)"
  let ?data = "\<lparr>sd_share_id = share, sd_stream_id = stream_low, sd_type2 = type2_of pdu, sd_payload = mk_reader (payload_enc pdu) 25\<rparr>"
  have "fst (read_share_control (mk_reader (data_payload share user pdu) 7)) =
      Inr \<lparr>sc_type = pdu_type_data, sc_source = user, sc_body = mk_reader ?d 13\<rparr>"
    unfolding data_payload_def using assms(1) by (subst read_share_control_enc) (simp_all add: pdu_types per_max_length_def)
  moreover have "fst (read_share_data (mk_reader ?d 13)) = Inr ?data" by (subst read_share_data_enc) simp_all
  moreover have "fst (decode_data_pdu ?data) = Inr pdu"
    using assms(1) decode_payload_enc [of pdu "mk_reader (payload_enc pdu) 25"]
    by (simp add: decode_data_pdu_def case_prod_beta Let_def)
  ultimately show ?thesis
    using assms(2,3) by (simp add: on_io_data_def on_data_pdu_def cn_try_def pdu_types pdu_type_flow_def)
qed

lemma data_leads:
  assumes "reached config user Finalizing es st" "payload_ok pdu \<and> length (payload_enc pdu) + 18 \<le> per_max_length"
    "on_io_data (mk_reader (data_payload (0x00010000 OR ucast user) user pdu) 7) st = Some (Inr (), st')"
  shows "leads st (request user mcs_io_channel_id (data_payload (0x00010000 OR ucast user) user pdu)) st' \<and> cn_inv st'"
  using assms(2,3) by (intro io_leads [OF assms(1)]) (simp_all add: data_payload_def)

text \<open>Synchronize and Control Cooperate change nothing, Request Control is granted, the Font List activates.\<close>

lemma finalization_leads:
  assumes "reached config user Finalizing es st"
  shows "\<exists>st'. leads st (concat (map (\<lambda>pdu. request user mcs_io_channel_id (data_payload (0x00010000 OR ucast user) user pdu))
      client_finalization)) st' \<and> reached config user ConnActive (es @ [EvActivated False]) st' \<and>
    cn_output st' = cn_output st @ concat (map (server_pdu (0x00010000 OR ucast user))
      [Control control_granted user (ucast mcs_server_channel_id), FontMap 0 0 3 4])"
proof -
  let ?share = "0x00010000 OR ucast user :: u32" and ?granted = "Control control_granted user (ucast mcs_server_channel_id)"
  have st: "cn_state st = Finalizing" "se_share_id (cn_session st) = ?share" "\<not> cn_reactivating st" "cn_events st = es"
    "se_user_channel_id (cn_session st) = user"
    using assms by (simp_all add: reached_def share_exists_def)
  have font: "payload_ok (FontList 0 0 3 0x32) \<and> length (payload_enc (FontList 0 0 3 0x32)) + 18 \<le> per_max_length"
    by (simp add: payload_ok_def per_max_length_def)
  have "on_io_data (mk_reader (data_payload ?share user (Synchronize 1 mcs_server_channel_id)) 7) st = Some (Inr (), st)"
    "on_io_data (mk_reader (data_payload ?share user (Control control_cooperate 0 0)) 7) st = Some (Inr (), st)"
    using st by (simp_all add: small_pdus_ok [THEN on_data_payload] cn_ok_def control_cooperate_def control_request_def)
  then have 1: "leads st (request user mcs_io_channel_id (data_payload ?share user (Synchronize 1 mcs_server_channel_id))) st"
    "leads st (request user mcs_io_channel_id (data_payload ?share user (Control control_cooperate 0 0))) st"
    using data_leads [OF assms small_pdus_ok(1)] data_leads [OF assms small_pdus_ok(2)] by blast+
  define st1 where "st1 = st\<lparr>cn_output := cn_output st @ server_pdu ?share ?granted\<rparr>"
  have "on_io_data (mk_reader (data_payload ?share user (Control control_request 0 0)) 7) st = Some (Inr (), st1)"
    using st by (simp add: small_pdus_ok [THEN on_data_payload] cn_ok_def send_small_enc st1_def)
  then have 2: "leads st (request user mcs_io_channel_id (data_payload ?share user (Control control_request 0 0))) st1"
    using data_leads [OF assms small_pdus_ok(2)] by blast
  have r1: "reached config user Finalizing es st1" using assms by (simp add: reached_def st1_def)
  define st2 where "st2 = activate (st1\<lparr>cn_output := cn_output st1 @ server_pdu ?share (FontMap 0 0 3 4)\<rparr>)"
  have "on_io_data (mk_reader (data_payload ?share user (FontList 0 0 3 0x32)) 7) st1 = Some (Inr (), st2)"
    using st by (simp add: font [THEN on_data_payload] cn_ok_def send_small_enc st1_def st2_def)
  then have 3: "leads st1 (request user mcs_io_channel_id (data_payload ?share user (FontList 0 0 3 0x32))) st2" "cn_inv st2"
    using data_leads [OF r1 font] by blast+
  have "reached config user ConnActive (es @ [EvActivated False]) st2"
    using assms 3(2) st by (simp add: reached_def share_exists_def st1_def st2_def activate_def cn_event_def)
  moreover have "cn_output st2 = cn_output st @ concat (map (server_pdu ?share) [?granted, FontMap 0 0 3 4])"
    by (simp add: st1_def st2_def activate_def cn_event_def)
  ultimately show ?thesis
    using leads_trans [OF 1(1) leads_trans [OF 1(2) leads_trans [OF 2 3(1)]]]
    by (intro exI [of _ st2]) (simp add: client_finalization_def)
qed

lemma client_joins_leads:
  assumes "reached config user WaitChannelJoins es st" "prepared client joined st"
  shows "\<exists>bs st'. (\<forall>w. client_joins user channels w = Some (w @ bs)) \<and> leads st bs st' \<and> reached config user WaitChannelJoins es st' \<and>
    prepared client (joined @ channels) st'"
  using assms
proof (induction channels arbitrary: st joined)
  case Nil
  then show ?case by (intro exI [of _ "[]"] exI [of _ st]) (simp add: leads_def)
next
  case (Cons channel channels)
  have ok: "domain_pdu_ok (ChannelJoinRequest user channel)"
    using reached_user [OF Cons.prems(1)] by (simp add: domain_pdu_ok_def)
  obtain st1 where st1: "leads st (tpdu (domain_pdu_enc (ChannelJoinRequest user channel))) st1"
    "reached config user WaitChannelJoins es st1" "prepared client (joined @ [channel]) st1" using join_leads [OF Cons.prems] by blast
  from Cons.IH [OF st1(2,3)] obtain bs st2 where "\<forall>w. client_joins user channels w = Some (w @ bs)" "leads st1 bs st2"
    "reached config user WaitChannelJoins es st2" "prepared client (joined @ channel # channels) st2" by auto
  with leads_trans [OF st1(1)] write_domain_pdu_enc [OF ok] show ?case
    by (intro exI [of _ "tpdu (domain_pdu_enc (ChannelJoinRequest user channel)) @ bs"] exI [of _ st2]) simp
qed

text \<open>The client's capabilities are those a server accepts, for the share it announced.\<close>

definition confirm_fits :: "u16 \<Rightarrow> confirm_active \<Rightarrow> bool" where
  "confirm_fits user cf \<longleftrightarrow> exchange_ok (ca_source_descriptor cf) (ca_capabilities cf) \<and>
     cs_general (ca_capabilities cf) \<noteq> None \<and> cs_bitmap (ca_capabilities cf) \<noteq> None \<and>
     ca_share_id cf = 0x00010000 OR ucast user \<and> length (confirm_active_enc cf) + 6 \<le> per_max_length"

definition info_fits :: "client_info \<Rightarrow> bool" where
  "info_fits info \<longleftrightarrow> client_info_ok info \<and> length (info_payload info) \<le> per_max_length"

text \<open>The Send Data Requests of the client, as bytes.\<close>

definition tail_requests :: "client_data \<Rightarrow> client_info \<Rightarrow> ad_response list \<Rightarrow> confirm_active \<Rightarrow> (u16 \<times> bytes) list" where
  "tail_requests client info answers cf = (mcs_io_channel_id, info_payload info) #
     map (\<lambda>response. (message_channel_for client, answer_payload response)) answers @
     (mcs_io_channel_id, confirm_payload (user_channel_for client) cf) #
     map (\<lambda>pdu. (mcs_io_channel_id, data_payload (ca_share_id cf) (user_channel_for client) pdu)) client_finalization"

abbreviation tail_bytes :: "client_data \<Rightarrow> client_info \<Rightarrow> ad_response list \<Rightarrow> confirm_active \<Rightarrow> bytes" where
  "tail_bytes client info answers cf \<equiv>
     concat (map (\<lambda>(c, data). request (user_channel_for client) c data) (tail_requests client info answers cf))"

lemma client_data_pdu_enc:
  assumes "payload_ok pdu \<and> length (payload_enc pdu) + 18 \<le> per_max_length"
  shows "client_data_pdu share user pdu [] = Some (data_payload share user pdu)" "length (data_payload share user pdu) \<le> per_max_length"
  using assms encode_payload_enc [of pdu "[]"] write_data_pdu_enc [of "payload_enc pdu" share user "type2_of pdu" "[]"]
  by (simp_all add: client_data_pdu_def data_payload_def per_max_length_def)

lemma tail_written:
  assumes "mcs_user_id_base \<le> user_channel_for client" "info_fits info" "confirm_fits (user_channel_for client) cf"
    "answers_fit config client channels answers"
  shows "client_requests (user_channel_for client)
      ((mcs_io_channel_id, \<lambda>w. encode_client_info info (write_basic_security_header sec_info_pkt w)) #
       map (\<lambda>response. (message_channel_for client, client_answer response)) answers @
       (mcs_io_channel_id, encode_confirm_active (user_channel_for client) cf) #
       map (\<lambda>pdu. (mcs_io_channel_id, client_data_pdu (ca_share_id cf) (user_channel_for client) pdu)) client_finalization) w =
     Some (w @ tail_bytes client info answers cf)"
proof -
  have info: "encode_client_info info (write_basic_security_header sec_info_pkt []) = Some (info_payload info)"
    using assms(2) client_info_pdu.wr_pdu [of info] security_header.wr_enc [of sec_info_pkt "[]"]
    by (simp add: info_payload_def info_fits_def sec_info_pkt_def sec_encrypt_def)
  have confirm: "encode_confirm_active (user_channel_for client) cf [] = Some (confirm_payload (user_channel_for client) cf)"
    using assms(3) confirm_active.wr_pdu [of cf "user_channel_for client" "[]"] by (simp add: confirm_fits_def)
  have "list_all response_ok answers"
    using assms(4) answers_complete_time(2) by (auto simp: answers_fit_def split: if_splits)
  then have answers: "list_all2 (\<lambda>response response'. client_answer response [] = Some (answer_payload response') \<and>
      length (answer_payload response') \<le> per_max_length) answers answers"
    by (induction answers) (simp_all add: client_answer_enc length_answer_payload)
  have "payload_ok pdu \<and> length (payload_enc pdu) + 18 \<le> per_max_length" if "pdu \<in> set client_finalization" for pdu
    using that by (auto simp: client_finalization_def payload_ok_def per_max_length_def)
  note final = client_data_pdu_enc [OF this]
  have "list_all2 (\<lambda>pdu pdu'. client_data_pdu share user pdu [] = Some (data_payload share user pdu') \<and>
      length (data_payload share user pdu') \<le> per_max_length) client_finalization client_finalization" for share user
    by (rule list.rel_refl_strong) (simp add: final)
  with info confirm answers assms(2,3) show ?thesis
    unfolding tail_requests_def
    by (intro client_requests_enc [OF assms(1)])
      (simp add: list_all2_appendI list.rel_map info_fits_def confirm_fits_def)
qed

lemma tail_leads:
  assumes "reached config (user_channel_for client) WaitChannelJoins es st" "prepared client channels st" "info_fits info"
    "confirm_fits (user_channel_for client) cf" "answers_fit config client channels answers"
  shows "\<exists>st' out. leads st (tail_bytes client info answers cf) st' \<and>
    reached config (user_channel_for client) ConnActive (es @ [info_event info, EvActivated False]) st' \<and>
    cn_output st' = out @ concat (map (server_pdu (ca_share_id cf)) [Synchronize 1 (user_channel_for client), Control control_cooperate 0 0,
      Control control_granted (user_channel_for client) (ucast mcs_server_channel_id), FontMap 0 0 3 4])"
proof -
  let ?u = "user_channel_for client"
  have share: "ca_share_id cf = 0x00010000 OR ucast ?u" using assms(4) by (simp add: confirm_fits_def)
  from info_leads [OF assms(1,2)] assms(3) obtain st1 where 1: "leads st (request ?u mcs_io_channel_id (info_payload info)) st1"
    "reached config ?u (if server_detects config client channels then ConnectTimeAutodetect else WaitConfirmActive) (es @ [info_event info]) st1"
    "se_message_channel_id (cn_session st1) = se_message_channel_id (cn_session st)"
    "server_detects config client channels \<longrightarrow>
      (\<exists>now. cn_autodetect st1 = snd (start_connect_time now (ad_new (sv_autodetect_config config))))"
    unfolding info_fits_def by blast
  have "se_message_channel_id (cn_session st1) = (if cl_message_channel client \<noteq> None then Some (message_channel_for client) else None)"
    using 1(3) assms(2) by (simp add: prepared_def)
  from detection_leads [OF 1(2) this 1(4) assms(5)] obtain st2 where
    2: "leads st1 (concat (map (\<lambda>response. request ?u (message_channel_for client) (answer_payload response)) answers)) st2"
    "reached config ?u WaitConfirmActive (es @ [info_event info]) st2" by blast
  obtain st3 where 3: "leads st2 (request ?u mcs_io_channel_id (confirm_payload ?u cf)) st3"
    "reached config ?u Finalizing (es @ [info_event info]) st3"
    "cn_output st3 = cn_output st2 @ concat (map (server_pdu (ca_share_id cf)) [Synchronize 1 ?u, Control control_cooperate 0 0])"
    using confirm_leads [OF 2(2)] assms(4) unfolding confirm_fits_def by blast
  obtain st4 where 4: "leads st3 (concat (map (\<lambda>pdu. request ?u mcs_io_channel_id (data_payload (ca_share_id cf) ?u pdu))
      client_finalization)) st4"
    "reached config ?u ConnActive ((es @ [info_event info]) @ [EvActivated False]) st4"
    "cn_output st4 = cn_output st3 @ concat (map (server_pdu (ca_share_id cf))
      [Control control_granted ?u (ucast mcs_server_channel_id), FontMap 0 0 3 4])"
    using finalization_leads [OF 3(2)] unfolding share by blast
  have "leads st (tail_bytes client info answers cf) st4"
    using leads_trans [OF 1(1) leads_trans [OF 2(1) leads_trans [OF 3(1) 4(1)]]]
    by (simp add: tail_requests_def comp_def del: domain_pdu_enc.simps)
  with 3(3) 4(2,3) show ?thesis by (intro exI [of _ st4] exI [of _ "cn_output st2"]) simp
qed

lemma stream_leads:
  assumes "connect_fits client initial" "server_selected_protocol (cl_core client) \<in> {None, Some (ng_selected_protocol neg)}"
    "info_fits info" "confirm_fits (user_channel_for client) cf" "answers_fit config client channels answers"
  shows "\<exists>bs st out. client_stream client initial channels info answers cf = Some bs \<and> leads (cn_new config neg) bs st \<and>
    reached config (user_channel_for client) ConnActive [info_event info, EvActivated False] st \<and>
    cn_output st = out @ concat (map (server_pdu (ca_share_id cf)) [Synchronize 1 (user_channel_for client), Control control_cooperate 0 0,
      Control control_granted (user_channel_for client) (ucast mcs_server_channel_id), FontMap 0 0 3 4])"
proof -
  let ?u = "user_channel_for client"
  obtain st1 where 1: "leads (cn_new config neg) (tpdu (connect_payload client initial)) st1" "reached config ?u WaitErectDomain [] st1"
    "prepared client [] st1"
    using connect_leads [OF assms(1,2)] by blast
  obtain st2 where 2: "leads st1 (tpdu (domain_pdu_enc (ErectDomainRequest 0 0))) st2" "reached config ?u WaitAttachUser [] st2"
    "prepared client [] st2"
    using erect_leads [OF 1(2,3)] by blast
  obtain st3 where 3: "leads st2 (tpdu (domain_pdu_enc AttachUserRequest)) st3" "reached config ?u WaitChannelJoins [] st3"
    "prepared client [] st3"
    using attach_leads [OF 2(2,3)] by blast
  from client_joins_leads [OF 3(2,3), of channels] obtain js st4 where 4: "\<forall>w. client_joins ?u channels w = Some (w @ js)"
    "leads st3 js st4" "reached config ?u WaitChannelJoins [] st4" "prepared client channels st4" by auto
  from tail_leads [OF 4(3,4) assms(3-5)] obtain st5 out where 5: "leads st4 (tail_bytes client info answers cf) st5"
    "reached config ?u ConnActive [info_event info, EvActivated False] st5"
    "cn_output st5 = out @ concat (map (server_pdu (ca_share_id cf)) [Synchronize 1 ?u, Control control_cooperate 0 0,
      Control control_granted ?u (ucast mcs_server_channel_id), FontMap 0 0 3 4])"
    by auto
  note user = reached_user [OF 3(2)]
  note all = leads_trans [OF 1(1) leads_trans [OF 2(1) leads_trans [OF 3(1) leads_trans [OF 4(2) 5(1)]]]]
  have "domain_pdu_ok (ErectDomainRequest 0 0)" "domain_pdu_ok AttachUserRequest" by (simp_all add: domain_pdu_ok_def)
  then have "client_stream client initial channels info answers cf = Some (tpdu (connect_payload client initial) @
      tpdu (domain_pdu_enc (ErectDomainRequest 0 0)) @ tpdu (domain_pdu_enc AttachUserRequest) @ js @ tail_bytes client info answers cf)"
    using user 4(1) tail_written [OF _ assms(3-5)]
    by (simp add: client_stream_def Let_def client_connect_enc [OF assms(1)] write_domain_pdu_enc
        del: domain_pdu_enc.simps client_requests.simps)
  with all 5(2,3) show ?thesis by blast
qed

section \<open>The transport's pieces\<close>

text \<open>No handler looks at the buffer: each one commutes with a change of it.\<close>

definition buffered :: "bytes \<Rightarrow> connection \<Rightarrow> connection" where
  "buffered x st = st\<lparr>cn_input := x\<rparr>"

lemma buffered_simps [simp]:
  "cn_config (buffered x st) = cn_config st" "cn_state (buffered x st) = cn_state st" "cn_session (buffered x st) = cn_session st"
  "cn_input (buffered x st) = x" "cn_output (buffered x st) = cn_output st" "cn_events (buffered x st) = cn_events st"
  "cn_reactivating (buffered x st) = cn_reactivating st" "cn_joined_channels (buffered x st) = cn_joined_channels st"
  "cn_autodetect (buffered x st) = cn_autodetect st" "cn_now (buffered x st) = cn_now st"
  "cn_last_output (buffered x st) = cn_last_output st" "(buffered x st)\<lparr>cn_input := y\<rparr> = st\<lparr>cn_input := y\<rparr>"
  by (simp_all add: buffered_def)

named_theorems unbuffered

lemma buffered_upd [unbuffered]:
  "(buffered x st)\<lparr>cn_state := s\<rparr> = buffered x (st\<lparr>cn_state := s\<rparr>)"
  "(buffered x st)\<lparr>cn_session := se\<rparr> = buffered x (st\<lparr>cn_session := se\<rparr>)"
  "(buffered x st)\<lparr>cn_output := w\<rparr> = buffered x (st\<lparr>cn_output := w\<rparr>)"
  "(buffered x st)\<lparr>cn_events := es\<rparr> = buffered x (st\<lparr>cn_events := es\<rparr>)"
  "(buffered x st)\<lparr>cn_reactivating := b\<rparr> = buffered x (st\<lparr>cn_reactivating := b\<rparr>)"
  "(buffered x st)\<lparr>cn_joined_channels := cs\<rparr> = buffered x (st\<lparr>cn_joined_channels := cs\<rparr>)"
  "(buffered x st)\<lparr>cn_autodetect := ad\<rparr> = buffered x (st\<lparr>cn_autodetect := ad\<rparr>)"
  by (simp_all add: buffered_def)

abbreviation rebuffer :: "bytes \<Rightarrow> handled \<Rightarrow> handled" where
  "rebuffer x \<equiv> map_option (map_prod id (buffered x))"

lemma bind_unbuffered [unbuffered]:
  "(\<And>st. g (buffered x st) = map_option (buffered x) (g st)) \<Longrightarrow>
   Option.bind (map_option (buffered x) m) g = map_option (buffered x) (Option.bind m g)"
  by (cases m) simp_all

lemma event_unbuffered [unbuffered]:
  "cn_event e (buffered x st) = buffered x (cn_event e st)" "cn_close reason (buffered x st) = buffered x (cn_close reason st)"
  "activate (buffered x st) = buffered x (activate st)"
  by (simp_all add: cn_event_def cn_close_def activate_def unbuffered)

lemma send_unbuffered [unbuffered]: "send_domain_pdu pdu (buffered x st) = map_option (buffered x) (send_domain_pdu pdu st)"
  "send_io payload (buffered x st) = map_option (buffered x) (send_io payload st)"
  by (simp_all add: send_domain_pdu_def send_io_def unbuffered bind_eq_None_conv split: bind_split)

lemma send_data_pdu_unbuffered [unbuffered]: "send_data_pdu pdu (buffered x st) = map_option (buffered x) (send_data_pdu pdu st)"
  by (simp add: send_data_pdu_def unbuffered split: bind_split)

lemma send_autodetect_unbuffered [unbuffered]: "send_autodetect q (buffered x st) w = send_autodetect q st w"
  by (simp add: send_autodetect_def write_message_channel_def)

lemma send_autodetects_unbuffered [unbuffered]: "send_autodetects qs (buffered x st) = map_option (buffered x) (send_autodetects qs st)"
  by (induction qs arbitrary: st) (simp_all add: unbuffered split: bind_split)

lemma licensing_unbuffered [unbuffered]:
  "send_demand_active (buffered x st) = map_option (buffered x) (send_demand_active st)"
  "start_licensing (buffered x st) = map_option (buffered x) (start_licensing st)"
  "finish_connect_time_autodetect (buffered x st) = map_option (buffered x) (finish_connect_time_autodetect st)"
proof -
  show demand: "send_demand_active (buffered x st) = map_option (buffered x) (send_demand_active st)" for st
    by (simp add: send_demand_active_def unbuffered split: bind_split)
  show license: "start_licensing (buffered x st) = map_option (buffered x) (start_licensing st)" for st
    by (simp add: start_licensing_def unbuffered demand Let_def)
  show "finish_connect_time_autodetect (buffered x st) = map_option (buffered x) (finish_connect_time_autodetect st)"
    by (simp add: finish_connect_time_autodetect_def unbuffered license Let_def split: prod.split option.split)
qed

lemma handled_unbuffered [unbuffered]:
  "cn_ok (map_option (buffered x) m) = rebuffer x (cn_ok m)" "cn_error what k (buffered x st) = rebuffer x (cn_error what k st)"
  "cn_ok (Some (buffered x st)) = rebuffer x (cn_ok (Some st))"
  by (simp_all add: cn_ok_def cn_error_def option.map_comp comp_def)

lemma on_connect_initial_unbuffered [unbuffered]: "on_connect_initial data (buffered x st) = rebuffer x (on_connect_initial data st)"
  by (simp add: on_connect_initial_def cn_try_def unbuffered Let_def case_prod_beta split: sum.split bind_split)

lemma on_channel_join_unbuffered [unbuffered]: "on_channel_join user channel (buffered x st) = rebuffer x (on_channel_join user channel st)"
  by (simp add: on_channel_join_def unbuffered Let_def)

lemma record_client_info_unbuffered [unbuffered]: "record_client_info info (buffered x st) = buffered x (record_client_info info st)"
  by (simp add: record_client_info_def cn_event_def unbuffered Let_def message_channel_joined_def cong: option.case_cong)

lemma on_client_info_unbuffered [unbuffered]: "on_client_info data (buffered x st) = rebuffer x (on_client_info data st)"
  by (simp add: on_client_info_def cn_try_def unbuffered Let_def case_prod_beta split: prod.split sum.split)

lemma on_message_channel_unbuffered [unbuffered]: "on_message_channel data (buffered x st) = rebuffer x (on_message_channel data st)"
  by (simp add: on_message_channel_def unbuffered Let_def split: prod.split sum.split)

lemma on_confirm_active_unbuffered [unbuffered]: "on_confirm_active body (buffered x st) = rebuffer x (on_confirm_active body st)"
  by (simp add: on_confirm_active_def cn_try_def unbuffered Let_def split: sum.split option.split)

lemma on_data_pdu_unbuffered [unbuffered]: "on_data_pdu body (buffered x st) = rebuffer x (on_data_pdu body st)"
  by (simp add: on_data_pdu_def cn_try_def unbuffered Let_def split: sum.split data_pdu.split)

lemma on_io_data_unbuffered [unbuffered]:
  "on_io_data data (buffered x st) = rebuffer x (on_io_data data st)"
  "on_fastpath_input data (buffered x st) = rebuffer x (on_fastpath_input data st)"
  "on_send_data k user channel bs (buffered x st) = rebuffer x (on_send_data k user channel bs st)"
proof -
  show io: "on_io_data data (buffered x st) = rebuffer x (on_io_data data st)" for data
    by (simp add: on_io_data_def cn_try_def unbuffered split: sum.split)
  show "on_fastpath_input data (buffered x st) = rebuffer x (on_fastpath_input data st)"
    by (simp add: on_fastpath_input_def cn_try_def unbuffered split: sum.split)
  show "on_send_data k user channel bs (buffered x st) = rebuffer x (on_send_data k user channel bs st)"
    by (simp add: on_send_data_def unbuffered io Let_def)
qed

lemma on_domain_pdu_unbuffered [unbuffered]: "on_domain_pdu data (buffered x st) = rebuffer x (on_domain_pdu data st)"
proof (cases "fst (decode_domain_pdu data)")
  case (Inr pdu)
  then show ?thesis by (cases pdu) (simp_all add: on_domain_pdu_def cn_try_def unbuffered Let_def)
qed (simp add: on_domain_pdu_def cn_try_def)

lemma handle_pdu_unbuffered [unbuffered]: "handle_pdu kind pdu (buffered x st) = rebuffer x (handle_pdu kind pdu st)"
  by (simp add: handle_pdu_def cn_try_def unbuffered Let_def split: sum.split)

lemma check_buffered_unbuffered: "check_buffered input (buffered x st) = check_buffered input st"
  by (simp add: check_buffered_def buffered_def Let_def)

lemma receive_loop_unbuffered: "receive_loop input (buffered x st) = receive_loop input st"
proof (induction input st rule: receive_loop.induct)
  case (1 input st)
  show ?case
    using 1
    by (auto simp: receive_loop.simps [of input "buffered x st"] receive_loop.simps [of input st] unbuffered
        check_buffered_unbuffered Let_def split: sum.split option.split)
qed

text \<open>
  What has arrived may be handled before the rest arrives: as long as the connection stays open, the
  outcome is the same.
\<close>

lemma cn_fail_closed [simp]: "cn_state (cn_fail why st) = ConnClosed"
  by (simp add: cn_fail_def cn_event_def)

lemma receive_loop_split:
  assumes "receive_loop (xs @ ys) st = Some st'" "cn_state st' \<noteq> ConnClosed"
  shows "\<exists>st1. receive_loop xs st = Some st1 \<and> cn_state st1 \<noteq> ConnClosed \<and> receive_loop (cn_input st1 @ ys) st1 = Some st'"
  using assms(1)
proof (induction xs st rule: receive_loop.induct)
  case (1 xs st)
  note all = receive_loop.simps [of "xs @ ys" st] and part = receive_loop.simps [of xs st]
  have closed: "cn_state (check_buffered input st) = ConnClosed" if "cn_state st = ConnClosed" for input
    using that by (simp add: check_buffered_def Let_def)
  then have "cn_state st \<noteq> ConnClosed" using "1.prems" assms(2) all by fastforce
  note all = all [simplified this] and part = part [simplified this]
  have short: ?case if "length xs \<le> max_buffered_input" "receive_loop xs st = Some (check_buffered xs st)"
  proof -
    have "receive_loop xs st = Some (buffered xs st)" using that by (simp add: check_buffered_small buffered_def)
    with "1.prems" \<open>cn_state st \<noteq> ConnClosed\<close> show ?thesis by (simp add: receive_loop_unbuffered)
  qed
  show ?case
  proof (cases "peek_frame xs")
    case (Inl e)
    then have "peek_frame (xs @ ys) = Inl e" by (simp add: peek_frame_append)
    then show ?thesis using "1.prems" assms(2) all by auto
  next
    case (Inr found)
    show ?thesis
    proof (cases found)
      case None
      with Inr have "length xs < 4" by (simp add: peek_frame_None_short)
      then show ?thesis using Inr None by (intro short) (simp_all add: part max_buffered_input_def)
    next
      case (Some f)
      let ?n = "fi_length f"
      have peek: "peek_frame xs = Inr (Some f)" "peek_frame (xs @ ys) = Inr (Some f)"
        using Inr Some by (simp_all add: peek_frame_append)
      show ?thesis
      proof (cases "length xs < ?n")
        case True
        then show ?thesis
          using peek peek_frame_length [OF peek(1)] by (intro short) (simp_all add: part Let_def max_tpkt_below)
      next
        case False
        then have cut: "take ?n (xs @ ys) = take ?n xs" "drop ?n (xs @ ys) = drop ?n xs @ ys" "?n \<le> length xs" by simp_all
        then obtain st2 where st2: "handle_pdu (fi_kind f) (take ?n xs) st = Some (Inr (), st2)"
          "receive_loop (drop ?n xs @ ys) st2 = Some st'"
          using "1.prems" assms(2) peek all by (auto simp: Let_def split: option.splits sum.splits)
        have "receive_loop (drop ?n xs @ ys) st2 = Some st' \<Longrightarrow> \<exists>st1. receive_loop (drop ?n xs) st2 = Some st1 \<and>
            cn_state st1 \<noteq> ConnClosed \<and> receive_loop (cn_input st1 @ ys) st1 = Some st'"
          by (rule "1.IH") (use \<open>cn_state st \<noteq> ConnClosed\<close> peek cut(3) st2(1) in simp_all)
        then show ?thesis using peek cut st2 part by (simp add: Let_def)
      qed
    qed
  qed
qed

fun receive_all :: "bytes list \<Rightarrow> connection \<Rightarrow> connection option" where
  "receive_all [] st = Some st"
| "receive_all (piece # pieces) st = do { st \<leftarrow> cn_receive piece st; receive_all pieces st }"

lemma receive_all_loop:
  assumes "receive_loop (cn_input st @ concat (piece # pieces)) st = Some st'" "cn_state st' \<noteq> ConnClosed"
  shows "receive_all (piece # pieces) st = Some st'"
  using assms(1)
proof (induction pieces arbitrary: piece st)
  case Nil
  have "cn_state st \<noteq> ConnClosed"
    using Nil assms(2) receive_loop.simps [of "cn_input st @ piece" st] by (auto simp: check_buffered_def Let_def split: if_splits)
  with Nil show ?case by (simp add: cn_receive_def)
next
  case (Cons next_piece pieces)
  have "receive_loop ((cn_input st @ piece) @ concat (next_piece # pieces)) st = Some st'" using Cons.prems by simp
  from receive_loop_split [OF this assms(2)] obtain st1 where st1: "receive_loop (cn_input st @ piece) st = Some st1"
    "cn_state st1 \<noteq> ConnClosed" "receive_loop (cn_input st1 @ concat (next_piece # pieces)) st1 = Some st'" by blast
  moreover have "cn_state st \<noteq> ConnClosed"
    using st1(1,2) receive_loop.simps [of "cn_input st @ piece" st] by (auto simp: check_buffered_def Let_def split: if_splits)
  ultimately show ?case using Cons.IH [OF st1(3)] by (simp add: cn_receive_def)
qed

section \<open>Properties\<close>

text \<open>
  C3: A well-behaved client gets its session: the PDUs its encoders write (the MCS Connect Initial, Erect Domain, Attach
  User, any channel joins, Client Info, the answers to the connect-time measurement where the server makes one, Confirm
  Active, Synchronize, Control Cooperate and Request Control, Font List) take a new connection to the active state,
  however the transport cuts the stream; the caller sees the client's logon data and then the activation, nothing else;
  and the last the server has written are its Synchronize and Control Cooperate, the granted control and the Font Map,
  for the share and the user. (The client's blocks fit their containers, the protocol it names is the negotiated one, and
  it answers the measurement exactly if the server makes one, by both answers in either order or by a sync.)
\<close>

theorem handshake_completes:
  assumes "connect_fits client initial" "server_selected_protocol (cl_core client) \<in> {None, Some (ng_selected_protocol neg)}"
    "info_fits info" "confirm_fits (user_channel_for client) cf" "answers_fit config client channels answers"
  shows "\<exists>bs st out. client_stream client initial channels info answers cf = Some bs \<and>
    (\<forall>pieces. concat pieces = bs \<longrightarrow> receive_all pieces (cn_new config neg) = Some st) \<and>
    cn_state st = ConnActive \<and> cn_events st = [info_event info, EvActivated False] \<and>
    cn_output st = out @ concat (map (server_pdu (ca_share_id cf)) [Synchronize 1 (user_channel_for client), Control control_cooperate 0 0,
      Control control_granted (user_channel_for client) (ucast mcs_server_channel_id), FontMap 0 0 3 4])"
proof -
  from stream_leads [OF assms] obtain bs st out where bs: "client_stream client initial channels info answers cf = Some bs"
    and leads: "leads (cn_new config neg) bs st"
    and st: "cn_state st = ConnActive" "cn_events st = [info_event info, EvActivated False]"
    and out: "cn_output st = out @ concat (map (server_pdu (ca_share_id cf)) [Synchronize 1 (user_channel_for client),
      Control control_cooperate 0 0, Control control_granted (user_channel_for client) (ucast mcs_server_channel_id), FontMap 0 0 3 4])"
    unfolding reached_def by blast
  have "receive_loop bs (cn_new config neg) = receive_loop [] st" using leads by (auto simp: leads_def dest: spec [of _ "[]"])
  also have "\<dots> = Some (buffered [] st)"
    using st by (simp add: receive_loop.simps [of "[]"] peek_frame_def check_buffered_small buffered_def)
  finally have all: "receive_loop bs (cn_new config neg) = Some (buffered [] st)" .
  moreover have "bs \<noteq> []"
    using all st by (auto simp: receive_loop.simps [of "[]"] peek_frame_def check_buffered_small cn_new_def buffered_def
        dest!: arg_cong [where f = cn_state])
  ultimately have "receive_all pieces (cn_new config neg) = Some (buffered [] st)" if "concat pieces = bs" for pieces
    using that st receive_all_loop [of "cn_new config neg"] by (cases pieces) (auto simp: cn_new_def)
  with bs st out show ?thesis by (intro exI [of _ bs] exI [of _ "buffered [] st"] exI [of _ out]) simp
qed

definition handshake_client :: client_data where
  "handshake_client = no_client_data\<lparr>cl_core := default_core\<lparr>post_beta2_color_depth := Some 0xCA01, client_product_id := Some 1,
     serial_number := Some 0, high_color_depth := Some 24, supported_color_depths := Some 7,
     early_capability_flags := Some early_support_netchar_autodetect\<rparr>, cl_message_channel := Some 0\<rparr>"

definition handshake_info :: client_info where
  "handshake_info = \<lparr>ci_code_page = 0, ci_flags = info_unicode, ci_domain = [], ci_user_name = [], ci_password = [],
     ci_alternate_shell = [], ci_working_dir = [], ci_extended = None\<rparr>"

definition handshake_confirm :: confirm_active where
  "handshake_confirm = \<lparr>ca_share_id = 0x103ED, ca_originator_id = 0x03EA, ca_source_descriptor = [0x4D],
     ca_capabilities = server_capabilities (no_session \<lparr>ng_cookie = [], ng_requested_protocols = 3, ng_selected_protocol = 2, ng_identity = None\<rparr>)\<rparr>"

lemma handshake_capabilities:
  "exchange_ok [0x4D] (server_capabilities se)" "cs_general (server_capabilities se) \<noteq> None" "cs_bitmap (server_capabilities se) \<noteq> None"
  "ca_source_descriptor cf = [0x4D] \<Longrightarrow> ca_capabilities cf = server_capabilities se \<Longrightarrow> length (confirm_active_enc cf) + 6 \<le> per_max_length"
  using server_capabilities_ok [of se] server_capabilities_size [of se]
  by (simp_all add: exchange_ok_def max_source_descriptor_def confirm_active_enc_def caps_block_def per_max_length_def)
    (simp_all add: server_capabilities_def Let_def no_capability_sets_def)

lemma handshake_channels: "message_channel_for handshake_client = 1004" "user_channel_for handshake_client = 1005"
  by (simp_all add: user_channel_for_def message_channel_for_def client_channels_def handshake_client_def no_client_data_def
      mcs_io_channel_id_def)

lemma handshake_detects: "server_detects connection_demo_config handshake_client [1003, 1004, 1005]"
  by (simp add: server_detects_def connection_demo_config_def handshake_channels)
    (simp add: handshake_client_def has_early_flag_def early_support_netchar_autodetect_def)

theorem handshake_completes_witness:
  "\<exists>bs st out. client_stream handshake_client mcs_demo_initial [1003, 1004, 1005] handshake_info
      [RttResponse 1, BandwidthResults 2 bw_results_connect_time 4 65536] handshake_confirm = Some bs \<and>
    (\<forall>pieces. concat pieces = bs \<longrightarrow> receive_all pieces (cn_new connection_demo_config
      \<lparr>ng_cookie = [], ng_requested_protocols = 3, ng_selected_protocol = 2, ng_identity = None\<rparr>) = Some st) \<and>
    cn_state st = ConnActive \<and> cn_events st = [info_event handshake_info, EvActivated False] \<and>
    cn_output st = out @ concat (map (server_pdu 0x103ED) [Synchronize 1 1005, Control control_cooperate 0 0,
      Control control_granted 1005 (ucast mcs_server_channel_id), FontMap 0 0 3 4])"
proof -
  have core: "core_ok (cl_core handshake_client)"
    by (simp add: handshake_client_def no_client_data_def default_core_def core_ok_def text_ok_def utf8_to_utf16le_def
        client_name_size_def core_ime_file_name_size_def)
  then have "connect_fits handshake_client mcs_demo_initial"
    using length_core_enc [OF core]
    by (simp add: connect_fits_def client_data_ok_def user_data_ok_def client_blocks_def slot_blocks_def block_enc_def
        per_max_length_def mcs_demo_initial_def) (simp add: handshake_client_def no_client_data_def block_enc_def)
  moreover have "server_selected_protocol (cl_core handshake_client) = None" by (simp add: handshake_client_def default_core_def)
  moreover have "info_fits handshake_info"
    by (simp add: info_fits_def handshake_info_def info_payload_def client_info_ok_def string_ok_def utf8_to_utf16le_def
        security_header_enc_def client_info_enc_def max_info_string_size_def per_max_length_def)
  moreover have "confirm_fits 1005 handshake_confirm"
    using handshake_capabilities by (simp add: confirm_fits_def handshake_confirm_def)
  moreover have "answers_fit connection_demo_config handshake_client [1003, 1004, 1005]
      [RttResponse 1, BandwidthResults 2 bw_results_connect_time 4 65536]"
    using handshake_detects by (simp add: answers_fit_def)
  moreover have "ca_share_id handshake_confirm = 0x103ED" by (simp add: handshake_confirm_def)
  ultimately show ?thesis
    using handshake_completes [of handshake_client mcs_demo_initial
        "\<lparr>ng_cookie = [], ng_requested_protocols = 3, ng_selected_protocol = 2, ng_identity = None\<rparr>"
        handshake_info handshake_confirm connection_demo_config "[1003, 1004, 1005]"
        "[RttResponse 1, BandwidthResults 2 bw_results_connect_time 4 65536]"]
    unfolding handshake_channels by simp
qed

end
