(* ===== verification/Drdynvc.thy ===== *)
theory Drdynvc
  imports Reader_Writer Machine
begin

text \<open>
  \<open>channels/drdynvc.cpp\<close>: the PDUs of dynamic virtual channels, the splitting of a message into
  data PDUs and its reassembly. The variants \<open>ClientPdu\<close> and \<open>ServerPdu\<close> share most of their
  alternatives; both are subsets of one datatype here.
\<close>

section \<open>Model: fields\<close>

definition dvc_max_pdu_size :: nat where "dvc_max_pdu_size = 1600"
definition dvc_max_single_data_size :: nat where "dvc_max_single_data_size = 1590"
definition dvc_max_channel_name_size :: nat where "dvc_max_channel_name_size = 256"
definition dvc_version1 :: u16 where "dvc_version1 = 1"
definition dvc_version2 :: u16 where "dvc_version2 = 2"
definition dvc_version3 :: u16 where "dvc_version3 = 3"
definition dvc_default_priority_charges :: "u16 list" where "dvc_default_priority_charges = [936, 3276, 9362, 21845]"
definition soft_sync_channel_list_present :: u16 where "soft_sync_channel_list_present = 0x02"

datatype dvc_cmd = CmdCreate | CmdDataFirst | CmdData | CmdClose | CmdCapabilities | CmdDataFirstCompressed
  | CmdDataCompressed | CmdSoftSyncRequest | CmdSoftSyncResponse

fun dvc_cmd_code :: "dvc_cmd \<Rightarrow> byte" where
  "dvc_cmd_code CmdCreate = 0x01"
| "dvc_cmd_code CmdDataFirst = 0x02"
| "dvc_cmd_code CmdData = 0x03"
| "dvc_cmd_code CmdClose = 0x04"
| "dvc_cmd_code CmdCapabilities = 0x05"
| "dvc_cmd_code CmdDataFirstCompressed = 0x06"
| "dvc_cmd_code CmdDataCompressed = 0x07"
| "dvc_cmd_code CmdSoftSyncRequest = 0x08"
| "dvc_cmd_code CmdSoftSyncResponse = 0x09"

record dvc_header =
  dh_command :: byte
  dh_sp :: byte
  dh_cb_id :: byte

definition header_byte :: "byte \<Rightarrow> byte \<Rightarrow> byte \<Rightarrow> byte option" where
  "header_byte command sp cb_id = do {
     wassert (command \<le> 0x0F \<and> sp \<le> 3 \<and> cb_id \<le> 3);
     Some (push_bit 4 command OR push_bit 2 sp OR cb_id)
   }"

definition dvc_read_header :: "dvc_header parser" where
  "dvc_read_header = ptry rd_u8 (\<lambda>b.
     pret \<lparr>dh_command = drop_bit 4 b, dh_sp = drop_bit 2 b AND 0x03, dh_cb_id = b AND 0x03\<rparr>)"

definition size_code :: "u32 \<Rightarrow> byte" where
  "size_code v = (if v \<le> 0xFF then 0 else if v \<le> 0xFFFF then 1 else 2)"

definition field_size :: "byte \<Rightarrow> nat" where
  "field_size code = (if code = 0 then 1 else if code = 1 then 2 else 4)"

definition read_var :: "byte \<Rightarrow> u32 parser" where
  "read_var code =
     (if code = 0 then ptry rd_u8 (\<lambda>v. pret (ucast v))
      else if code = 1 then ptry rd_u16le (\<lambda>v. pret (ucast v))
      else if code = 2 then rd_u32le
      else pget rd_offset (\<lambda>off. pfail InvalidValue ''drdynvc field size code 3'' off))"

definition write_var :: "u32 \<Rightarrow> writer \<Rightarrow> writer" where
  "write_var v w =
     (if size_code v = 0 then w_u8 (ucast v) w
      else if size_code v = 1 then w_u16le (ucast v) w
      else w_u32le v w)"

text \<open>
  The name loop, for as many further characters as the limit allows: a terminator ends the name, a
  character beyond the limit is an error.
\<close>

fun dvc_name_loop :: "nat \<Rightarrow> bytes parser" where
  "dvc_name_loop 0 = ptry rd_u8 (\<lambda>c.
     if c = 0 then pret []
     else pget rd_offset (\<lambda>off. pfail LimitExceeded ''DVC channel name too long'' off))"
| "dvc_name_loop (Suc room) = ptry rd_u8 (\<lambda>c.
     if c = 0 then pret [] else ptry (dvc_name_loop room) (\<lambda>cs. pret (c # cs)))"

definition read_channel_name :: "bytes parser" where
  "read_channel_name = ptry (dvc_name_loop dvc_max_channel_name_size) (\<lambda>name.
     if name = [] then pget rd_offset (\<lambda>off. pfail InvalidValue ''empty DVC channel name'' off) else pret name)"

section \<open>Model: PDUs\<close>

text \<open>
  \<open>CreationStatus\<close> is kept as its bit pattern; it is a failure when it is negative as a signed
  number. The four priority charges are a list.
\<close>

datatype dvc_pdu =
    CapsRequest u16 "u16 list"
  | CapsResponse u16
  | CreateRequest u32 byte bytes
  | CreateResponse u32 u32
  | DataFirst u32 u32 bytes
  | Data u32 bytes
  | DataFirstCompressed u32 u32 bytes
  | DataCompressed u32 bytes
  | Close u32
  | SoftSyncRequest u16 u16 "(u32 \<times> u32 list) list"
  | SoftSyncResponse "u32 list"

definition read_soft_sync_list :: "(u32 \<times> u32 list) parser" where
  "read_soft_sync_list = ptry rd_u32le (\<lambda>tunnel_type. ptry rd_u16le (\<lambda>count.
     pget rd_remaining (\<lambda>remaining. pget rd_offset (\<lambda>off.
       if unat count * 4 > remaining then pfail Truncated ''Soft-Sync channel list exceeds the PDU'' off
       else ptry (pcount (unat count) rd_u32le) (\<lambda>ids. pret (tunnel_type, ids))))))"

definition read_soft_sync_request :: "dvc_pdu parser" where
  "read_soft_sync_request = ptry (rd_skip 1) (\<lambda>_. ptry rd_u32le (\<lambda>n.
     pget rd_remaining (\<lambda>remaining. pget rd_offset (\<lambda>off.
     if unat n < 8 \<or> unat n - 4 \<noteq> remaining
     then pfail InvalidLength ''Soft-Sync Request length disagrees with the PDU'' off
     else ptry rd_u16le (\<lambda>flags. ptry rd_u16le (\<lambda>tunnels.
       ptry (if flags AND soft_sync_channel_list_present \<noteq> 0 then pcount (unat tunnels) read_soft_sync_list
             else pret []) (\<lambda>chan_lists.
       ptry (rd_expect_end ''Soft-Sync Request'') (\<lambda>_. pret (SoftSyncRequest flags tunnels chan_lists)))))))))"

definition read_soft_sync_response :: "dvc_pdu parser" where
  "read_soft_sync_response = ptry (rd_skip 1) (\<lambda>_. ptry rd_u32le (\<lambda>count.
     pget rd_remaining (\<lambda>remaining. pget rd_offset (\<lambda>off.
     if unat count > remaining div 4 \<or> unat count * 4 \<noteq> remaining
     then pfail InvalidLength ''Soft-Sync Response tunnel count disagrees with the PDU'' off
     else ptry (pcount (unat count) rd_u32le) (\<lambda>tunnels. pret (SoftSyncResponse tunnels))))))"

definition decode_common :: "dvc_header \<Rightarrow> dvc_pdu parser" where
  "decode_common header =
     (if dh_command header = dvc_cmd_code CmdDataFirst \<or> dh_command header = dvc_cmd_code CmdDataFirstCompressed then
        ptry (read_var (dh_cb_id header)) (\<lambda>ident. ptry (read_var (dh_sp header)) (\<lambda>n.
          pget rd_rest (\<lambda>data. pget rd_offset (\<lambda>off.
            if dh_command header = dvc_cmd_code CmdDataFirstCompressed then pret (DataFirstCompressed ident n data)
            else if length data > unat n
            then pfail InvalidLength ''DVC Data First holds more than its Length'' off
            else pret (DataFirst ident n data)))))
      else if dh_command header = dvc_cmd_code CmdData \<or> dh_command header = dvc_cmd_code CmdDataCompressed then
        ptry (read_var (dh_cb_id header)) (\<lambda>ident. pget rd_rest (\<lambda>data.
          if dh_command header = dvc_cmd_code CmdDataCompressed then pret (DataCompressed ident data)
          else pret (Data ident data)))
      else if dh_command header = dvc_cmd_code CmdClose then
        ptry (read_var (dh_cb_id header)) (\<lambda>ident. ptry (rd_expect_end ''DVC Close'') (\<lambda>_. pret (Close ident)))
      else pfail InvalidValue ''unknown or misdirected drdynvc command'' 0)"

definition decode_client_pdu :: "bytes \<Rightarrow> dvc_pdu result" where
  "decode_client_pdu message = fst (ptry dvc_read_header (\<lambda>header.
     if dh_command header = dvc_cmd_code CmdCapabilities then
       ptry (rd_skip 1) (\<lambda>_. ptry rd_u16le (\<lambda>version.
         ptry (rd_expect_end ''DVC Capabilities Response'') (\<lambda>_. pret (CapsResponse version))))
     else if dh_command header = dvc_cmd_code CmdCreate then
       ptry (read_var (dh_cb_id header)) (\<lambda>ident. ptry rd_u32le (\<lambda>status.
         ptry (rd_expect_end ''DVC Create Response'') (\<lambda>_. pret (CreateResponse ident status))))
     else if dh_command header = dvc_cmd_code CmdSoftSyncResponse then read_soft_sync_response
     else decode_common header) (mk_reader message 0))"

definition decode_server_pdu :: "bytes \<Rightarrow> dvc_pdu result" where
  "decode_server_pdu message = fst (ptry dvc_read_header (\<lambda>header.
     if dh_command header = dvc_cmd_code CmdCapabilities then
       ptry (rd_skip 1) (\<lambda>_. ptry rd_u16le (\<lambda>version.
         ptry (if version = dvc_version2 \<or> version = dvc_version3 then pcount 4 rd_u16le
               else if version \<noteq> dvc_version1
               then pfail InvalidValue ''unknown DVC capabilities version'' 2
               else pret (replicate 4 0)) (\<lambda>charges.
         ptry (rd_expect_end ''DVC Capabilities Request'') (\<lambda>_. pret (CapsRequest version charges)))))
     else if dh_command header = dvc_cmd_code CmdCreate then
       ptry (read_var (dh_cb_id header)) (\<lambda>ident. ptry read_channel_name (\<lambda>name.
         ptry (rd_expect_end ''DVC Create Request'') (\<lambda>_. pret (CreateRequest ident (dh_sp header) name))))
     else if dh_command header = dvc_cmd_code CmdSoftSyncRequest then read_soft_sync_request
     else decode_common header) (mk_reader message 0))"

definition write_id_pdu :: "dvc_cmd \<Rightarrow> byte \<Rightarrow> u32 \<Rightarrow> writer \<Rightarrow> writer option" where
  "write_id_pdu command sp channel_id w = do {
     b \<leftarrow> header_byte (dvc_cmd_code command) sp (size_code channel_id);
     Some (write_var channel_id (w_u8 b w))
   }"

definition write_u32s :: "u32 list \<Rightarrow> writer \<Rightarrow> writer" where
  "write_u32s = fold w_u32le"

definition write_soft_sync_list :: "u32 \<times> u32 list \<Rightarrow> writer \<Rightarrow> writer" where
  "write_soft_sync_list l w = write_u32s (snd l) (w_u16le (of_nat (length (snd l))) (w_u32le (fst l) w))"

fun encode_dvc_pdu :: "dvc_pdu \<Rightarrow> writer \<Rightarrow> writer option" where
  "encode_dvc_pdu (CapsRequest version charges) w = do {
     wassert (version \<ge> dvc_version1 \<and> version \<le> dvc_version3);
     b \<leftarrow> header_byte (dvc_cmd_code CmdCapabilities) 0 0;
     let w = w_u16le version (w_u8 0 (w_u8 b w));
     Some (if version \<ge> dvc_version2 then fold w_u16le charges w else w)
   }"
| "encode_dvc_pdu (CapsResponse version) w = do {
     b \<leftarrow> header_byte (dvc_cmd_code CmdCapabilities) 0 0;
     Some (w_u16le version (w_u8 0 (w_u8 b w)))
   }"
| "encode_dvc_pdu (CreateRequest channel_id priority name) w = do {
     wassert (priority \<le> 3);
     wassert (name \<noteq> [] \<and> length name \<le> dvc_max_channel_name_size);
     wassert (0 \<notin> set name);
     w \<leftarrow> write_id_pdu CmdCreate priority channel_id w;
     Some (w_u8 0 (fold w_u8 name w))
   }"
| "encode_dvc_pdu (CreateResponse channel_id status) w = do {
     w \<leftarrow> write_id_pdu CmdCreate 0 channel_id w;
     Some (w_u32le status w)
   }"
| "encode_dvc_pdu (DataFirst channel_id n data) w = do {
     wassert (length data \<le> unat n);
     w \<leftarrow> write_id_pdu CmdDataFirst (size_code n) channel_id w;
     Some (w_bytes data (write_var n w))
   }"
| "encode_dvc_pdu (Data channel_id data) w = do {
     w \<leftarrow> write_id_pdu CmdData 0 channel_id w;
     Some (w_bytes data w)
   }"
| "encode_dvc_pdu (DataFirstCompressed channel_id n data) w = do {
     w \<leftarrow> write_id_pdu CmdDataFirstCompressed (size_code n) channel_id w;
     Some (w_bytes data (write_var n w))
   }"
| "encode_dvc_pdu (DataCompressed channel_id data) w = do {
     w \<leftarrow> write_id_pdu CmdDataCompressed 0 channel_id w;
     Some (w_bytes data w)
   }"
| "encode_dvc_pdu (Close channel_id) w = write_id_pdu CmdClose 0 channel_id w"
| "encode_dvc_pdu (SoftSyncRequest flags tunnels chan_lists) w = do {
     let present = (flags AND soft_sync_channel_list_present \<noteq> 0);
     wassert (if present then length chan_lists = unat tunnels else chan_lists = []);
     wassert (list_all (\<lambda>l. length (snd l) \<le> 0xFFFF) chan_lists);
     let n = 8 + sum_list (map (\<lambda>l. 6 + 4 * length (snd l)) chan_lists);
     wassert (n \<le> 0xFFFFFFFF);
     b \<leftarrow> header_byte (dvc_cmd_code CmdSoftSyncRequest) 0 0;
     let w = w_u16le tunnels (w_u16le flags (w_u32le (of_nat n) (w_u8 0 (w_u8 b w))));
     Some (fold write_soft_sync_list chan_lists w)
   }"
| "encode_dvc_pdu (SoftSyncResponse tunnels) w = do {
     wassert (length tunnels \<le> 0xFFFFFFFF);
     b \<leftarrow> header_byte (dvc_cmd_code CmdSoftSyncResponse) 0 0;
     Some (write_u32s tunnels (w_u32le (of_nat (length tunnels)) (w_u8 0 (w_u8 b w))))
   }"

section \<open>Model: messages\<close>

function encode_data_loop :: "u32 \<Rightarrow> bytes \<Rightarrow> nat \<Rightarrow> nat \<Rightarrow> bytes list option" where
  "encode_data_loop channel_id message block offset =
     (if 0 < block \<and> offset < length message then do {
        let n = min block (length message - offset);
        pdu \<leftarrow> encode_dvc_pdu (Data channel_id (take n (drop offset message))) [];
        pdus \<leftarrow> encode_data_loop channel_id message block (offset + n);
        Some (pdu # pdus)
      } else Some [])"
  by pat_completeness auto
termination
  by (relation "measure (\<lambda>(_, message, _, offset). length message - offset)") auto

declare encode_data_loop.simps [simp del]

definition encode_data :: "u32 \<Rightarrow> bytes \<Rightarrow> bytes list option" where
  "encode_data channel_id message = do {
     wassert (length message \<le> 0xFFFFFFFF);
     if length message \<le> dvc_max_single_data_size then do {
       pdu \<leftarrow> encode_dvc_pdu (Data channel_id message) [];
       Some [pdu]
     } else do {
       let tot = of_nat (length message);
       let id_size = field_size (size_code channel_id);
       let first_block = dvc_max_pdu_size - (1 + id_size + field_size (size_code tot));
       let block = dvc_max_pdu_size - (1 + id_size);
       let offset = min first_block (length message);
       pdu \<leftarrow> encode_dvc_pdu (DataFirst channel_id tot (take offset message)) [];
       pdus \<leftarrow> encode_data_loop channel_id message block offset;
       Some (pdu # pdus)
     }
   }"

record dvc_reassembler =
  mr_max_size :: nat
  mr_total :: "u32 option"
  mr_buffer :: bytes

definition mr_new :: "nat \<Rightarrow> dvc_reassembler" where
  "mr_new max_message_size = \<lparr>mr_max_size = max_message_size, mr_total = None, mr_buffer = []\<rparr>"

definition mr_reset :: "dvc_reassembler \<Rightarrow> dvc_reassembler" where
  "mr_reset st = st\<lparr>mr_total := None, mr_buffer := []\<rparr>"

definition mr_first :: "dvc_reassembler \<Rightarrow> u32 \<Rightarrow> bytes \<Rightarrow> bytes option result \<times> dvc_reassembler" where
  "mr_first st n block =
     (if mr_total st \<noteq> None
      then (fail InvalidValue ''DVC Data First inside a fragmented message'' 0, mr_reset st)
      else if unat n > mr_max_size st then (fail LimitExceeded ''DVC message too large'' 0, st)
      else if length block > unat n
      then (fail InvalidLength ''DVC Data First block exceeds the message length'' 0, st)
      else if length block = unat n then (Inr (Some block), st)
      else (Inr None, st\<lparr>mr_total := Some n, mr_buffer := block\<rparr>))"

text \<open>As in the static channels, the room left is computed without wrap-around (\<open>mr_inv\<close>).\<close>

definition mr_next :: "dvc_reassembler \<Rightarrow> bytes \<Rightarrow> bytes option result \<times> dvc_reassembler" where
  "mr_next st block = (case mr_total st of
     None \<Rightarrow>
       if length block > mr_max_size st then (fail LimitExceeded ''DVC message too large'' 0, st)
       else (Inr (Some block), st)
   | Some tot \<Rightarrow>
       if length block > unat tot - length (mr_buffer st)
       then (fail InvalidLength ''DVC data overruns the message length'' 0, mr_reset st)
       else let st = st\<lparr>mr_buffer := mr_buffer st @ block\<rparr> in
         if length (mr_buffer st) < unat tot then (Inr None, st)
         else (Inr (Some (mr_buffer st)), st\<lparr>mr_total := None, mr_buffer := []\<rparr>))"

section \<open>Staying inside the input\<close>

lemma safe_dvc_name_loop [safe_intros]: "rd_safe (dvc_name_loop k)"
  by (induction k) (simp_all, (intro safe_intros | assumption)+)

lemma safe_dvc_parts [safe_intros]:
  "rd_safe dvc_read_header" "rd_safe (read_var code)" "rd_safe read_channel_name" "rd_safe read_soft_sync_list"
  unfolding dvc_read_header_def read_var_def read_channel_name_def read_soft_sync_list_def
  by (intro safe_intros)+

lemma safe_dvc [safe_intros]:
  "rd_safe read_soft_sync_request" "rd_safe read_soft_sync_response" "rd_safe (decode_common header)"
  unfolding read_soft_sync_request_def read_soft_sync_response_def decode_common_def by (intro safe_intros)+

section \<open>Fields survive the wire\<close>

definition var_enc :: "u32 \<Rightarrow> bytes" where
  "var_enc v = (if v \<le> 0xFF then [ucast v] else if v \<le> 0xFFFF then le_bytes 2 (ucast v :: u16) else le_bytes 4 v)"

lemma write_var_enc [wr_simps]: "write_var v w = w @ var_enc v"
  by (simp add: write_var_def size_code_def var_enc_def wr_simps)

lemma length_var_enc: "length (var_enc v) = field_size (size_code v)"
  by (simp add: var_enc_def field_size_def size_code_def)

lemma size_code_cases: "size_code v = 0 \<or> size_code v = 1 \<or> size_code v = 2"
  by (simp add: size_code_def)

lemma read_var_enc [rd_simps]:
  assumes "rd_rest r = var_enc v @ ys"
  shows "read_var (size_code v) r = (Inr v, rd_advance (length (var_enc v)) r)"
  using assms
  by (simp add: read_var_def size_code_def var_enc_def rd_simps ucast_ucast_small word_le_nat_alt split: if_splits)

lemma read_var_enc_end [rd_simps]:
  "rd_rest r = var_enc v \<Longrightarrow> read_var (size_code v) r = (Inr v, rd_advance (length (var_enc v)) r)"
  using read_var_enc [of r v "[]"] by simp

definition header_enc :: "dvc_cmd \<Rightarrow> byte \<Rightarrow> byte \<Rightarrow> byte" where
  "header_enc command sp cb = push_bit 4 (dvc_cmd_code command) OR push_bit 2 sp OR cb"

lemma dvc_cmd_code_le: "dvc_cmd_code c \<le> 0x0F"
  by (cases c) simp_all

lemma dvc_cmd_code_inject [simp]: "dvc_cmd_code c = dvc_cmd_code d \<longleftrightarrow> c = d"
  by (cases c; cases d) simp_all

lemma header_byte_enc [wr_simps]:
  "sp \<le> 3 \<Longrightarrow> cb \<le> 3 \<Longrightarrow> header_byte (dvc_cmd_code c) sp cb = Some (header_enc c sp cb)"
  by (simp add: header_byte_def header_enc_def wassert_def dvc_cmd_code_le)

lemma byte_bit_bound: "(x :: byte) \<le> y \<Longrightarrow> unat y < 2 ^ n \<Longrightarrow> bit x k \<Longrightarrow> k < n"
  by (metis bit_take_bit_iff order_le_less_trans word_le_nat_alt word_take_bit_self)

lemma header_enc_bits:
  assumes "sp \<le> 3" "cb \<le> 3"
  shows "drop_bit 4 (header_enc c sp cb) = dvc_cmd_code c" "drop_bit 2 (header_enc c sp cb) AND 3 = sp"
    "header_enc c sp cb AND 3 = cb"
proof -
  note sp = byte_bit_bound [OF assms(1), of 2, simplified]
  note cb = byte_bit_bound [OF assms(2), of 2, simplified]
  note cc = byte_bit_bound [OF dvc_cmd_code_le, of 4, simplified]
  have m: "(3 :: byte) = mask 2" by (simp add: mask_eq_exp_minus_1)
  show "drop_bit 4 (header_enc c sp cb) = dvc_cmd_code c"
    by (rule bit_eqI) (auto simp: header_enc_def bit_simps dest: sp cb cc)
  show "drop_bit 2 (header_enc c sp cb) AND 3 = sp"
    unfolding m by (rule bit_eqI) (auto simp: header_enc_def bit_simps dest: sp cb cc)
  show "header_enc c sp cb AND 3 = cb"
    unfolding m by (rule bit_eqI) (auto simp: header_enc_def bit_simps dest: sp cb cc)
qed

lemma dvc_read_header_enc [rd_simps]:
  "rd_rest r = header_enc c sp cb # ys \<Longrightarrow> sp \<le> 3 \<Longrightarrow> cb \<le> 3 \<Longrightarrow>
   dvc_read_header r = (Inr \<lparr>dh_command = dvc_cmd_code c, dh_sp = sp, dh_cb_id = cb\<rparr>, rd_advance 1 r)"
  by (simp add: dvc_read_header_def rd_simps header_enc_bits)

lemma size_code_le [simp]: "size_code v \<le> 3"
  by (simp add: size_code_def)

definition id_pdu_enc :: "dvc_cmd \<Rightarrow> byte \<Rightarrow> u32 \<Rightarrow> bytes" where
  "id_pdu_enc c sp ident = header_enc c sp (size_code ident) # var_enc ident"

lemma write_id_pdu_enc [wr_simps]: "sp \<le> 3 \<Longrightarrow> write_id_pdu c sp ident w = Some (w @ id_pdu_enc c sp ident)"
  by (simp add: write_id_pdu_def wr_simps id_pdu_enc_def)

lemma dvc_name_loop_enc:
  "rd_rest r = name @ 0 # ys \<Longrightarrow> 0 \<notin> set name \<Longrightarrow> length name \<le> room \<Longrightarrow>
   dvc_name_loop room r = (Inr name, rd_advance (Suc (length name)) r)"
proof (induction name arbitrary: r room)
  case Nil
  then show ?case by (cases room) (simp_all add: rd_simps)
next
  case (Cons c name)
  then obtain k where "room = Suc k" by (cases room) auto
  with Cons show ?case by (simp add: rd_simps)
qed

lemma fold_w_le:
  "fold w_u32le vs w = w @ concat (map (le_bytes 4) vs)" "fold w_u16le us w = w @ concat (map (le_bytes 2) us)"
  "fold w_u8 bs w = w @ bs"
proof -
  show "fold w_u32le vs w = w @ concat (map (le_bytes 4) vs)" by (induction vs arbitrary: w) (simp_all add: wr_simps)
  show "fold w_u16le us w = w @ concat (map (le_bytes 2) us)" by (induction us arbitrary: w) (simp_all add: wr_simps)
  show "fold w_u8 bs w = w @ bs" by (induction bs arbitrary: w) (simp_all add: wr_simps)
qed

lemma length_concat_le_bytes [simp]: "length (concat (map (le_bytes n) vs)) = n * length vs"
  by (induction vs) simp_all

lemma pcount_u32:
  "rd_wf r \<Longrightarrow> rd_rest r = concat (map (le_bytes 4) vs) @ ys \<Longrightarrow> n = length vs \<Longrightarrow>
   pcount n rd_u32le r = (Inr vs, rd_advance (4 * length vs) r)"
  using pcount_concat [of r "le_bytes 4" vs ys n rd_u32le] by (simp add: rd_simps)

lemma pcount_u16:
  "rd_wf r \<Longrightarrow> rd_rest r = concat (map (le_bytes 2) vs) @ ys \<Longrightarrow> n = length vs \<Longrightarrow>
   pcount n rd_u16le r = (Inr vs, rd_advance (2 * length vs) r)"
  using pcount_concat [of r "le_bytes 2" vs ys n rd_u16le] by (simp add: rd_simps)

section \<open>PDUs survive the wire\<close>

definition soft_sync_list_enc :: "u32 \<times> u32 list \<Rightarrow> bytes" where
  "soft_sync_list_enc l = le_bytes 4 (fst l) @ le_bytes 2 (of_nat (length (snd l)) :: u16) @ concat (map (le_bytes 4) (snd l))"

definition soft_sync_size :: "(u32 \<times> u32 list) list \<Rightarrow> nat" where
  "soft_sync_size chan_lists = 8 + sum_list (map (\<lambda>l. 6 + 4 * length (snd l)) chan_lists)"

fun dvc_pdu_enc :: "dvc_pdu \<Rightarrow> bytes" where
  "dvc_pdu_enc (CapsRequest version charges) = header_enc CmdCapabilities 0 0 # 0 # le_bytes 2 version @
     (if version \<ge> dvc_version2 then concat (map (le_bytes 2) charges) else [])"
| "dvc_pdu_enc (CapsResponse version) = header_enc CmdCapabilities 0 0 # 0 # le_bytes 2 version"
| "dvc_pdu_enc (CreateRequest ident priority name) = id_pdu_enc CmdCreate priority ident @ name @ [0]"
| "dvc_pdu_enc (CreateResponse ident status) = id_pdu_enc CmdCreate 0 ident @ le_bytes 4 status"
| "dvc_pdu_enc (DataFirst ident n data) = id_pdu_enc CmdDataFirst (size_code n) ident @ var_enc n @ data"
| "dvc_pdu_enc (Data ident data) = id_pdu_enc CmdData 0 ident @ data"
| "dvc_pdu_enc (DataFirstCompressed ident n data) =
     id_pdu_enc CmdDataFirstCompressed (size_code n) ident @ var_enc n @ data"
| "dvc_pdu_enc (DataCompressed ident data) = id_pdu_enc CmdDataCompressed 0 ident @ data"
| "dvc_pdu_enc (Close ident) = id_pdu_enc CmdClose 0 ident"
| "dvc_pdu_enc (SoftSyncRequest flags tunnels chan_lists) = header_enc CmdSoftSyncRequest 0 0 # 0 #
     le_bytes 4 (of_nat (soft_sync_size chan_lists) :: u32) @ le_bytes 2 flags @ le_bytes 2 tunnels @
     concat (map soft_sync_list_enc chan_lists)"
| "dvc_pdu_enc (SoftSyncResponse tunnels) = header_enc CmdSoftSyncResponse 0 0 # 0 #
     le_bytes 4 (of_nat (length tunnels) :: u32) @ concat (map (le_bytes 4) tunnels)"

definition dvc_pdu_ok :: "dvc_pdu \<Rightarrow> bool" where
  "dvc_pdu_ok pdu = (case pdu of
     CapsRequest version charges \<Rightarrow> dvc_version1 \<le> version \<and> version \<le> dvc_version3 \<and> length charges = 4 \<and>
       (version = dvc_version1 \<longrightarrow> charges = replicate 4 0)
   | CreateRequest _ priority name \<Rightarrow>
       priority \<le> 3 \<and> name \<noteq> [] \<and> length name \<le> dvc_max_channel_name_size \<and> 0 \<notin> set name
   | DataFirst _ n data \<Rightarrow> length data \<le> unat n
   | SoftSyncRequest flags tunnels chan_lists \<Rightarrow>
       (if flags AND soft_sync_channel_list_present \<noteq> 0 then length chan_lists = unat tunnels else chan_lists = []) \<and>
       list_all (\<lambda>l. length (snd l) \<le> 0xFFFF) chan_lists \<and> soft_sync_size chan_lists \<le> 0xFFFFFFFF
   | SoftSyncResponse tunnels \<Rightarrow> length tunnels \<le> 0xFFFFFFFF
   | _ \<Rightarrow> True)"

definition from_server :: "dvc_pdu \<Rightarrow> bool" where
  "from_server pdu = (case pdu of CapsResponse _ \<Rightarrow> False | CreateResponse _ _ \<Rightarrow> False | SoftSyncResponse _ \<Rightarrow> False | _ \<Rightarrow> True)"

definition from_client :: "dvc_pdu \<Rightarrow> bool" where
  "from_client pdu = (case pdu of CapsRequest _ _ \<Rightarrow> False | CreateRequest _ _ _ \<Rightarrow> False
     | SoftSyncRequest _ _ _ \<Rightarrow> False | _ \<Rightarrow> True)"

lemma fold_write_soft_sync_list: "fold write_soft_sync_list ls w = w @ concat (map soft_sync_list_enc ls)"
  by (induction ls arbitrary: w)
    (simp_all add: write_soft_sync_list_def soft_sync_list_enc_def write_u32s_def fold_w_le wr_simps)

lemma encode_dvc_pdu_enc: "dvc_pdu_ok pdu \<Longrightarrow> encode_dvc_pdu pdu w = Some (w @ dvc_pdu_enc pdu)"
  by (cases pdu)
    (simp_all add: dvc_pdu_ok_def wr_simps wassert_def Let_def fold_w_le fold_write_soft_sync_list write_u32s_def
      soft_sync_size_def del: dvc_cmd_code.simps)

lemma length_soft_sync_list_enc: "length (soft_sync_list_enc l) = 6 + 4 * length (snd l)"
  by (simp add: soft_sync_list_enc_def)

lemma length_soft_sync_lists: "length (concat (map soft_sync_list_enc ls)) + 8 = soft_sync_size ls"
  by (induction ls) (simp_all add: soft_sync_size_def length_soft_sync_list_enc)

lemma read_soft_sync_list_enc:
  assumes "length (snd l) \<le> 0xFFFF" "rd_wf r" "rd_rest r = soft_sync_list_enc l @ ys"
  shows "read_soft_sync_list r = (Inr l, rd_advance (length (soft_sync_list_enc l)) r)"
proof -
  have n: "unat (of_nat (length (snd l)) :: u16) = length (snd l)"
    using assms(1) by (simp add: unsigned_of_nat take_bit_nat_eq_self)
  have "pcount (length (snd l)) rd_u32le (rd_advance 6 r) = (Inr (snd l), rd_advance (4 * length (snd l)) (rd_advance 6 r))"
    using assms(2,3) by (intro pcount_u32) (simp_all add: soft_sync_list_enc_def)
  with n assms show ?thesis
    by (simp add: read_soft_sync_list_def soft_sync_list_enc_def rd_simps rd_remaining_rest)
qed

lemma read_soft_sync_request_enc:
  assumes "dvc_pdu_ok (SoftSyncRequest flags tunnels ls)" "rd_wf r"
    and "rd_rest r = 0 # le_bytes 4 (of_nat (soft_sync_size ls) :: u32) @ le_bytes 2 flags @ le_bytes 2 tunnels @
      concat (map soft_sync_list_enc ls)"
  shows "fst (read_soft_sync_request r) = Inr (SoftSyncRequest flags tunnels ls)"
proof -
  have ok: "if flags AND soft_sync_channel_list_present \<noteq> 0 then length ls = unat tunnels else ls = []"
    "list_all (\<lambda>l. length (snd l) \<le> 0xFFFF) ls" "soft_sync_size ls \<le> 0xFFFFFFFF"
    using assms(1) by (auto simp: dvc_pdu_ok_def split: if_splits)
  have n: "unat (of_nat (soft_sync_size ls) :: u32) = soft_sync_size ls"
    using ok(3) by (simp add: unsigned_of_nat take_bit_nat_eq_self)
  have "pcount (length ls) read_soft_sync_list (rd_advance 9 r) =
      (Inr ls, rd_advance (length (concat (map soft_sync_list_enc ls))) (rd_advance 9 r))"
    using assms(2,3) ok(2)
    by (intro pcount_concat [where ys = "[]"]) (auto simp: list_all_iff read_soft_sync_list_enc)
  moreover have "soft_sync_size ls - 4 = 4 + length (concat (map soft_sync_list_enc ls))" "8 \<le> soft_sync_size ls"
    using length_soft_sync_lists [of ls] by simp_all
  ultimately show ?thesis
    using n ok(1) assms(2,3)
    by (auto simp: read_soft_sync_request_def rd_simps rd_remaining_rest split: if_splits)
qed

lemma read_soft_sync_response_enc:
  assumes "length tunnels \<le> 0xFFFFFFFF" "rd_wf r"
    and "rd_rest r = 0 # le_bytes 4 (of_nat (length tunnels) :: u32) @ concat (map (le_bytes 4) tunnels)"
  shows "fst (read_soft_sync_response r) = Inr (SoftSyncResponse tunnels)"
proof -
  have n: "unat (of_nat (length tunnels) :: u32) = length tunnels"
    using assms(1) by (simp add: unsigned_of_nat take_bit_nat_eq_self)
  have "pcount (length tunnels) rd_u32le (rd_advance 5 r) = (Inr tunnels, rd_advance (4 * length tunnels) (rd_advance 5 r))"
    using assms(2,3) by (intro pcount_u32 [where ys = "[]"]) simp_all
  with n assms(3) show ?thesis
    by (simp add: read_soft_sync_response_def rd_simps rd_remaining_rest)
qed

lemma caps_versions:
  "dvc_version1 \<le> v \<Longrightarrow> v \<le> dvc_version3 \<Longrightarrow> v = dvc_version1 \<or> v = dvc_version2 \<or> v = dvc_version3"
  "\<not> dvc_version2 \<le> dvc_version1" "dvc_version2 \<le> dvc_version3" "dvc_version1 \<noteq> dvc_version2" "dvc_version1 \<noteq> dvc_version3"
  unfolding dvc_version1_def dvc_version2_def dvc_version3_def
  by (simp_all add: word_le_nat_alt word_unat_eq_iff) linarith

lemma decode_caps_request_enc:
  assumes "dvc_pdu_ok (CapsRequest version charges)"
  shows "decode_server_pdu (dvc_pdu_enc (CapsRequest version charges)) = Inr (CapsRequest version charges)"
proof -
  have ok: "length charges = 4" "version = dvc_version1 \<Longrightarrow> charges = replicate 4 0"
    "version = dvc_version1 \<or> version = dvc_version2 \<or> version = dvc_version3"
    using assms caps_versions(1) by (auto simp: dvc_pdu_ok_def)
  have four: "pcount 4 rd_u16le r = (Inr charges, rd_advance 8 r)"
    if "rd_rest r = concat (map (le_bytes 2) charges)" "rd_wf r" for r
    using pcount_u16 [where ys = "[]", OF that(2) _ ok(1) [symmetric]] that(1) ok(1) by simp
  from ok(3) show ?thesis
  proof (elim disjE)
    assume "version = dvc_version1"
    with ok(2) show ?thesis
      by (simp add: decode_server_pdu_def rd_simps caps_versions del: dvc_cmd_code.simps)
  qed (simp_all add: decode_server_pdu_def rd_simps caps_versions four ok(1) del: dvc_cmd_code.simps)
qed

lemmas dvc_decode_simps = decode_common_def id_pdu_enc_def rd_simps dvc_pdu_ok_def

lemma decode_server_pdu_enc:
  assumes "dvc_pdu_ok pdu" "from_server pdu"
  shows "decode_server_pdu (dvc_pdu_enc pdu) = Inr pdu"
proof (cases pdu)
  case (CapsRequest version charges)
  with assms show ?thesis by (simp only: decode_caps_request_enc)
next
  case (CreateRequest ident priority name)
  have "dvc_name_loop dvc_max_channel_name_size r = (Inr name, rd_advance (Suc (length name)) r)"
    if "rd_rest r = name @ [0]" for r
    using that assms(1) CreateRequest by (intro dvc_name_loop_enc) (auto simp: dvc_pdu_ok_def)
  with assms CreateRequest show ?thesis
    by (simp add: decode_server_pdu_def read_channel_name_def dvc_decode_simps del: dvc_cmd_code.simps)
next
  case (SoftSyncRequest flags tunnels ls)
  let ?r = "mk_reader (dvc_pdu_enc pdu) 0"
  have "fst (read_soft_sync_request (rd_advance 1 ?r)) = Inr pdu"
    using assms(1) SoftSyncRequest by (simp add: read_soft_sync_request_enc)
  with SoftSyncRequest show ?thesis
    by (simp add: decode_server_pdu_def rd_simps del: dvc_cmd_code.simps)
qed (use assms in \<open>simp_all add: from_server_def decode_server_pdu_def dvc_decode_simps del: dvc_cmd_code.simps\<close>)

lemma decode_client_pdu_enc:
  assumes "dvc_pdu_ok pdu" "from_client pdu"
  shows "decode_client_pdu (dvc_pdu_enc pdu) = Inr pdu"
proof (cases pdu)
  case (SoftSyncResponse tunnels)
  let ?r = "mk_reader (dvc_pdu_enc pdu) 0"
  have "fst (read_soft_sync_response (rd_advance 1 ?r)) = Inr pdu"
    using assms(1) SoftSyncResponse by (simp add: read_soft_sync_response_enc dvc_pdu_ok_def)
  with SoftSyncResponse show ?thesis
    by (simp add: decode_client_pdu_def rd_simps del: dvc_cmd_code.simps)
qed (use assms in \<open>simp_all add: from_client_def decode_client_pdu_def dvc_decode_simps del: dvc_cmd_code.simps\<close>)

interpretation dvc_server_codec: pdu_codec encode_dvc_pdu "\<lambda>r. (decode_server_pdu (rd_rest r), r)"
  "\<lambda>pdu. dvc_pdu_ok pdu \<and> from_server pdu" dvc_pdu_enc
  by unfold_locales (simp_all add: encode_dvc_pdu_enc decode_server_pdu_enc)

interpretation dvc_client_codec: pdu_codec encode_dvc_pdu "\<lambda>r. (decode_client_pdu (rd_rest r), r)"
  "\<lambda>pdu. dvc_pdu_ok pdu \<and> from_client pdu" dvc_pdu_enc
  by unfold_locales (simp_all add: encode_dvc_pdu_enc decode_client_pdu_enc)

section \<open>Messages\<close>

text \<open>What a channel's receiver does with the data PDUs of its channel.\<close>

definition dvc_receive :: "dvc_reassembler \<Rightarrow> bytes \<Rightarrow> bytes option result \<times> dvc_reassembler" where
  "dvc_receive st message = (case decode_server_pdu message of
     Inl e \<Rightarrow> (Inl e, st)
   | Inr (DataFirst _ n data) \<Rightarrow> mr_first st n data
   | Inr (Data _ data) \<Rightarrow> mr_next st data
   | Inr _ \<Rightarrow> (Inr None, st))"

definition dvc_first_block :: "u32 \<Rightarrow> bytes \<Rightarrow> nat" where
  "dvc_first_block ident m =
     dvc_max_pdu_size - (1 + field_size (size_code ident) + field_size (size_code (of_nat (length m))))"

definition dvc_block :: "u32 \<Rightarrow> nat" where
  "dvc_block ident = dvc_max_pdu_size - (1 + field_size (size_code ident))"

definition dvc_data_pdus :: "u32 \<Rightarrow> bytes \<Rightarrow> dvc_pdu list" where
  "dvc_data_pdus ident m =
     (if length m \<le> dvc_max_single_data_size then [Data ident m]
      else DataFirst ident (of_nat (length m)) (take (dvc_first_block ident m) m) #
        map (Data ident) (chunks (dvc_block ident) (drop (dvc_first_block ident m) m)))"

lemma field_size_bounds: "1 \<le> field_size c" "field_size c \<le> 4"
  by (simp_all add: field_size_def)

lemma dvc_block_bounds: "0 < dvc_block ident" "dvc_block ident < dvc_max_pdu_size" "0 < dvc_first_block ident m"
  using field_size_bounds [of "size_code ident"] field_size_bounds [of "size_code (of_nat (length m))"]
  by (simp_all add: dvc_block_def dvc_first_block_def dvc_max_pdu_size_def)

lemma encode_data_loop_enc:
  assumes "0 < block" "offset \<le> length m"
  shows "encode_data_loop ident m block offset =
    Some (map dvc_pdu_enc (map (Data ident) (chunks block (drop offset m))))"
  using assms(2)
proof (induction "length m - offset" arbitrary: offset rule: less_induct)
  case less
  show ?case
  proof (cases "offset < length m")
    case True
    let ?n = "min block (length m - offset)"
    have "encode_data_loop ident m block (offset + ?n) =
        Some (map dvc_pdu_enc (map (Data ident) (chunks block (drop (offset + ?n) m))))"
      using True assms(1) by (intro less.hyps) auto
    moreover have "take ?n (drop offset m) = take block (drop offset m)" "drop (offset + ?n) m = drop block (drop offset m)"
      using True by (auto simp: min_def add.commute)
    ultimately show ?thesis
      using True assms(1) encode_dvc_pdu_enc [of "Data ident (take block (drop offset m))" "[]"]
      by (simp add: encode_data_loop.simps [of ident m block offset] Let_def chunks_Cons dvc_pdu_ok_def
          del: encode_dvc_pdu.simps dvc_pdu_enc.simps)
  next
    case False
    with less.prems have "offset = length m" by simp
    then show ?thesis by (simp add: encode_data_loop.simps [of ident m block "length m"])
  qed
qed

lemma dvc_data_pdu_ok:
  assumes "length m \<le> 0xFFFFFFFF" "pdu \<in> set (dvc_data_pdus ident m)"
  shows "dvc_pdu_ok pdu \<and> from_server pdu"
proof -
  have "unat (of_nat (length m) :: u32) = length m"
    using assms(1) by (simp add: unsigned_of_nat take_bit_nat_eq_self)
  with assms show ?thesis
    by (auto simp: dvc_data_pdus_def dvc_pdu_ok_def from_server_def split: if_splits)
qed

lemma encode_data_enc:
  assumes "length m \<le> 0xFFFFFFFF"
  shows "encode_data ident m = Some (map dvc_pdu_enc (dvc_data_pdus ident m))"
proof (cases "length m \<le> dvc_max_single_data_size")
  case True
  with assms show ?thesis
    using encode_dvc_pdu_enc [of "Data ident m" "[]"]
    by (simp add: encode_data_def wassert_def dvc_data_pdus_def dvc_pdu_ok_def
        del: encode_dvc_pdu.simps dvc_pdu_enc.simps)
next
  case False
  let ?fb = "dvc_first_block ident m" and ?df = "DataFirst ident (of_nat (length m)) (take (dvc_first_block ident m) m)"
  have "?df \<in> set (dvc_data_pdus ident m)" using False by (simp add: dvc_data_pdus_def)
  then have df: "encode_dvc_pdu ?df [] = Some (dvc_pdu_enc ?df)"
    using dvc_data_pdu_ok [OF assms] encode_dvc_pdu_enc [of ?df "[]"] by simp
  have loop: "encode_data_loop ident m (dvc_block ident) (min ?fb (length m)) =
      Some (map dvc_pdu_enc (map (Data ident) (chunks (dvc_block ident) (drop (min ?fb (length m)) m))))"
    by (rule encode_data_loop_enc) (simp_all add: dvc_block_bounds)
  have trim: "take (min ?fb (length m)) m = take ?fb m" "drop (min ?fb (length m)) m = drop ?fb m"
    by (auto simp: min_def)
  show ?thesis
    using False assms df loop
    unfolding encode_data_def Let_def dvc_first_block_def [symmetric] dvc_block_def [symmetric] trim
    by (simp add: dvc_data_pdus_def wassert_def del: encode_dvc_pdu.simps dvc_pdu_enc.simps)
qed

text \<open>Every data PDU respects the size limit of [MS-RDPEDYC] 2.2.3.\<close>

lemma dvc_data_pdu_size:
  assumes "length m \<le> 0xFFFFFFFF" "pdu \<in> set (dvc_data_pdus ident m)"
  shows "length (dvc_pdu_enc pdu) \<le> dvc_max_pdu_size"
proof -
  note fs = field_size_bounds [of "size_code ident"] field_size_bounds [of "size_code (of_nat (length m))"]
  consider (single) "pdu = Data ident m" "length m \<le> dvc_max_single_data_size"
    | (first) "pdu = DataFirst ident (of_nat (length m)) (take (dvc_first_block ident m) m)"
    | (tail) c xs where "pdu = Data ident c" "c \<in> set (chunks (dvc_block ident) xs)"
    using assms(2) by (auto simp: dvc_data_pdus_def split: if_splits)
  then show ?thesis
  proof cases
    case single
    with fs show ?thesis
      by (simp add: id_pdu_enc_def length_var_enc dvc_max_pdu_size_def dvc_max_single_data_size_def)
  next
    case first
    with fs show ?thesis
      by (simp add: id_pdu_enc_def length_var_enc dvc_max_pdu_size_def dvc_first_block_def)
  next
    case tail
    then have "length c \<le> dvc_block ident" using chunks_lengths by blast
    with tail(1) fs show ?thesis
      by (simp add: id_pdu_enc_def length_var_enc dvc_max_pdu_size_def dvc_block_def)
  qed
qed

lemma feed_dvc_tail:
  assumes "cs \<noteq> []" "mr_total st = Some tot" "length (mr_buffer st) + length (concat cs) = unat tot"
    "\<forall>c\<in>set cs. 0 < length c"
  shows "feed dvc_receive st (map dvc_pdu_enc (map (Data ident) cs)) =
    (None, [mr_buffer st @ concat cs], st\<lparr>mr_total := None, mr_buffer := []\<rparr>)"
  using assms
proof (induction cs arbitrary: st)
  case (Cons c cs)
  have "decode_server_pdu (dvc_pdu_enc (Data ident c)) = Inr (Data ident c)"
    by (rule decode_server_pdu_enc) (simp_all add: dvc_pdu_ok_def from_server_def)
  then have step: "dvc_receive st (dvc_pdu_enc (Data ident c)) = mr_next st c"
    by (simp add: dvc_receive_def)
  show ?case
  proof (cases "cs = []")
    case False
    then have "0 < length (concat cs)" using Cons.prems(4) by (cases cs) auto
    moreover have "length (concat (c # cs)) = length c + length (concat cs)" by simp
    ultimately have "length (mr_buffer st) + length c < unat tot" using Cons.prems(3) by linarith
    with Cons False step show ?thesis
      by (simp add: mr_next_def Let_def del: dvc_pdu_enc.simps)
  next
    case True
    with Cons.prems step show ?thesis
      by (simp add: mr_next_def Let_def del: dvc_pdu_enc.simps)
  qed
qed simp

definition mr_idle :: "dvc_reassembler \<Rightarrow> bool" where
  "mr_idle st \<longleftrightarrow> mr_total st = None \<and> mr_buffer st = []"

definition dvc_fits :: "dvc_reassembler \<Rightarrow> bytes \<Rightarrow> bool" where
  "dvc_fits st m \<longleftrightarrow> length m \<le> mr_max_size st \<and> length m \<le> 0xFFFFFFFF"

interpretation dvc: reassembler dvc_receive "\<lambda>m. map dvc_pdu_enc (dvc_data_pdus ident m)" mr_idle dvc_fits for ident
proof
  fix st m assume idle: "mr_idle st" and fits: "dvc_fits st m"
  have len: "unat (of_nat (length m) :: u32) = length m"
    using fits by (simp add: dvc_fits_def unsigned_of_nat take_bit_nat_eq_self)
  have d: "decode_server_pdu (dvc_pdu_enc pdu) = Inr pdu" if "pdu \<in> set (dvc_data_pdus ident m)" for pdu
    using dvc_data_pdu_ok [OF _ that] fits by (simp add: dvc_fits_def decode_server_pdu_enc)
  let ?fb = "dvc_first_block ident m"
  let ?tail = "chunks (dvc_block ident) (drop ?fb m)"
  show "feed dvc_receive st (map dvc_pdu_enc (dvc_data_pdus ident m)) = (None, [m], st)"
  proof (cases "length m \<le> dvc_max_single_data_size")
    case True
    with d idle fits show ?thesis
      by (simp add: dvc_data_pdus_def dvc_receive_def mr_next_def mr_idle_def dvc_fits_def del: dvc_pdu_enc.simps)
  next
    case False
    let ?df = "DataFirst ident (of_nat (length m)) (take ?fb m)"
    have pdus: "dvc_data_pdus ident m = ?df # map (Data ident) ?tail"
      using False by (simp add: dvc_data_pdus_def)
    have df: "decode_server_pdu (dvc_pdu_enc ?df) = Inr ?df"
      using d [of ?df] pdus by simp
    show ?thesis
    proof (cases "length m \<le> ?fb")
      case True
      with df idle fits len show ?thesis
        unfolding pdus by (simp add: dvc_receive_def mr_first_def mr_idle_def dvc_fits_def del: dvc_pdu_enc.simps)
    next
      case False
      have "\<forall>c\<in>set ?tail. 0 < length c" using chunks_lengths by blast
      with feed_dvc_tail [where cs = ?tail and ident = ident and tot = "of_nat (length m)"
          and st = "st\<lparr>mr_total := Some (of_nat (length m)), mr_buffer := take ?fb m\<rparr>"]
        df idle fits len False dvc_block_bounds(1) [of ident]
      show ?thesis
        unfolding pdus by (simp add: dvc_receive_def mr_first_def mr_idle_def dvc_fits_def del: dvc_pdu_enc.simps)
    qed
  qed
qed

text \<open>The buffer stays below the announced length, which stays below the limit.\<close>

definition mr_inv :: "nat \<Rightarrow> dvc_reassembler \<Rightarrow> bool" where
  "mr_inv limit st \<longleftrightarrow> mr_max_size st = limit \<and>
     (case mr_total st of None \<Rightarrow> mr_buffer st = []
      | Some tot \<Rightarrow> length (mr_buffer st) < unat tot \<and> unat tot \<le> limit)"

lemma mr_first_inv: "mr_inv limit st \<Longrightarrow> mr_inv limit (snd (mr_first st n block))"
  by (auto simp: mr_inv_def mr_first_def mr_reset_def split: option.splits)

lemma mr_next_inv: "mr_inv limit st \<Longrightarrow> mr_inv limit (snd (mr_next st block))"
  by (auto simp: mr_inv_def mr_next_def mr_reset_def Let_def split: option.splits)

lemma mr_first_bounded:
  "mr_inv limit st \<Longrightarrow> mr_first st n block = (Inr (Some m), st') \<Longrightarrow> length m \<le> limit"
  by (auto simp: mr_inv_def mr_first_def split: if_splits)

lemma mr_next_bounded:
  "mr_inv limit st \<Longrightarrow> mr_next st block = (Inr (Some m), st') \<Longrightarrow> length m \<le> limit"
  by (auto simp: mr_inv_def mr_next_def Let_def split: if_splits option.splits)

interpretation mr_machine: machine dvc_receive "mr_inv limit" "mr_new limit" for limit
proof
  show "mr_inv limit (mr_new limit)" by (simp add: mr_inv_def mr_new_def)
  fix st message assume "mr_inv limit st"
  then show "mr_inv limit (snd (dvc_receive st message))"
    by (auto simp: dvc_receive_def mr_first_inv mr_next_inv split: sum.split dvc_pdu.split)
qed

section \<open>Properties\<close>

text \<open>
  Every drdynvc PDU of either direction survives the wire: what the encoder writes for a PDU whose
  fields fit, the decoder of the receiving side reads back, variable-width identifiers, names and
  soft-sync lists included.
\<close>

theorem dvc_pdu_roundtrip:
  assumes "dvc_pdu_ok pdu"
  shows "\<exists>w. encode_dvc_pdu pdu [] = Some w \<and> (from_server pdu \<longrightarrow> decode_server_pdu w = Inr pdu) \<and>
    (from_client pdu \<longrightarrow> decode_client_pdu w = Inr pdu)"
  using assms by (auto simp: encode_dvc_pdu_enc decode_server_pdu_enc decode_client_pdu_enc
      simp del: encode_dvc_pdu.simps dvc_pdu_enc.simps intro!: exI [of _ "dvc_pdu_enc pdu"])

theorem dvc_pdu_roundtrip_witness:
  "dvc_pdu_ok (CreateRequest 0x1234 2 [65, 66]) \<and>
   (\<exists>w. encode_dvc_pdu (CreateRequest 0x1234 2 [65, 66]) [] = Some w \<and>
      decode_server_pdu w = Inr (CreateRequest 0x1234 2 [65, 66]))"
proof -
  have ok: "dvc_pdu_ok (CreateRequest 0x1234 2 [65, 66])"
    by (simp add: dvc_pdu_ok_def dvc_max_channel_name_size_def word_le_nat_alt)
  then show ?thesis
    using dvc_pdu_roundtrip [OF ok] by (auto simp: from_server_def simp del: encode_dvc_pdu.simps)
qed

text \<open>
  C31: A message of any length up to the 32-bit limit is cut into data PDUs none of which exceeds the 1600
  octets of [MS-RDPEDYC]; a sequence of messages cut that way comes out of the receiving channel whole, in
  order, and leaves the channel idle again.
\<close>

theorem dvc_messages_roundtrip:
  assumes "mr_idle st" "\<forall>m \<in> set ms. length m \<le> mr_max_size st \<and> length m \<le> 0xFFFFFFFF"
  shows "\<exists>pdus. map (encode_data ident) ms = map Some pdus \<and> (\<forall>p \<in> set (concat pdus). length p \<le> dvc_max_pdu_size) \<and>
    feed dvc_receive st (concat pdus) = (None, ms, st)"
proof -
  let ?split = "\<lambda>m. map dvc_pdu_enc (dvc_data_pdus ident m)"
  have "map (encode_data ident) ms = map Some (map ?split ms)"
    using assms(2) by (simp add: encode_data_enc)
  moreover have "\<forall>p \<in> set (concat (map ?split ms)). length p \<le> dvc_max_pdu_size"
    using assms(2) by (auto intro!: dvc_data_pdu_size simp del: dvc_pdu_enc.simps)
  moreover have "feed dvc_receive st (concat (map ?split ms)) = (None, ms, st)"
    using assms by (intro dvc.stream) (auto simp: list_all_iff dvc_fits_def)
  ultimately show ?thesis by blast
qed

theorem dvc_messages_roundtrip_witness:
  "mr_idle (mr_new 4000) \<and> (\<exists>pdus. map (encode_data 7) [replicate 3000 1, [2]] = map Some pdus \<and>
     (\<forall>p \<in> set (concat pdus). length p \<le> dvc_max_pdu_size) \<and>
     feed dvc_receive (mr_new 4000) (concat pdus) = (None, [replicate 3000 1, [2]], mr_new 4000))"
  using dvc_messages_roundtrip [of "mr_new 4000" "[replicate 3000 1, [2]]" 7]
  by (simp add: mr_idle_def mr_new_def)

text \<open>
  Whatever a client sends on a channel, the reassembler keeps less than the announced length, which is
  at most the configured limit, and hands out no message above that limit.
\<close>

theorem dvc_reassembly_bounded:
  "length (mr_buffer (snd (run dvc_receive (mr_new limit) messages))) \<le> limit \<and>
   list_all (\<lambda>r. case r of Inr (Some m) \<Rightarrow> length m \<le> limit | _ \<Rightarrow> True) (fst (run dvc_receive (mr_new limit) messages))"
proof
  have "mr_inv limit (snd (run dvc_receive (mr_new limit) messages))" by (rule mr_machine.inv_run)
  then show "length (mr_buffer (snd (run dvc_receive (mr_new limit) messages))) \<le> limit"
    by (auto simp: mr_inv_def split: option.splits)
  show "list_all (\<lambda>r. case r of Inr (Some m) \<Rightarrow> length m \<le> limit | _ \<Rightarrow> True)
      (fst (run dvc_receive (mr_new limit) messages))"
  proof (rule mr_machine.outputs_run_from)
    fix st message assume "mr_inv limit st"
    then show "case fst (dvc_receive st message) of Inr (Some m) \<Rightarrow> length m \<le> limit | _ \<Rightarrow> True"
      by (cases "dvc_receive st message")
        (auto simp: dvc_receive_def split: sum.splits option.splits dvc_pdu.splits dest: mr_first_bounded mr_next_bounded)
  qed (rule mr_machine.inv_init)
qed

end
