(* ===== verification/Dvc_Server.thy ===== *)
theory Dvc_Server
  imports Drdynvc "HOL-Library.AList"
begin

text \<open>
  \<open>channels/dvc_server.cpp\<close>: the server manager of dynamic virtual channels. It negotiates the
  version, opens and closes channels, and hands reassembled client messages out as events.

  The decompressor factory of the configuration is code outside this component: a parameter, given
  as the state a new decompressor starts in and the function that decompresses one block with it.
  \<open>channels_\<close> is an association list with distinct keys. Functions that assert are partial.
\<close>

section \<open>Model: state\<close>

datatype dvc_event = CapabilitiesReady u16 | ChannelOpened u32 bytes | ChannelOpenFailed u32 bytes u32
  | ChannelData u32 bytes | ChannelClosed u32

datatype dvc_state = DvcIdle | DvcWaitingCaps | DvcReady

datatype channel_state = ChannelPending | ChannelOpening | ChannelOpen

record 'd dvc_config =
  dc_max_version :: u16
  dc_priority_charges :: "u16 list"
  dc_max_message_size :: nat
  dc_make_decompressor :: "('d \<times> ('d \<Rightarrow> bytes \<Rightarrow> bytes result \<times> 'd)) option"

record 'd dvc_channel =
  dch_name :: bytes
  dch_priority :: byte
  dch_state :: channel_state
  dch_reassembler :: dvc_reassembler
  dch_decompressor :: "'d option"

record 'd dvc_server =
  ds_config :: "'d dvc_config"
  ds_state :: dvc_state
  ds_offered :: u16
  ds_version :: "u16 option"
  ds_next_id :: u32
  ds_channels :: "(u32 \<times> 'd dvc_channel) list"
  ds_pending :: "u32 list"
  ds_output :: "bytes list"
  ds_events :: "dvc_event list"
  ds_error :: "error option"

definition dvc_find :: "'d dvc_server \<Rightarrow> u32 \<Rightarrow> 'd dvc_channel option" where
  "dvc_find st ident = map_of (ds_channels st) ident"

definition dvc_put :: "u32 \<Rightarrow> 'd dvc_channel \<Rightarrow> 'd dvc_server \<Rightarrow> 'd dvc_server" where
  "dvc_put ident ch st = st\<lparr>ds_channels := AList.update ident ch (ds_channels st)\<rparr>"

definition dvc_erase :: "u32 \<Rightarrow> 'd dvc_server \<Rightarrow> 'd dvc_server" where
  "dvc_erase ident st = st\<lparr>ds_channels := AList.delete ident (ds_channels st)\<rparr>"

definition dvc_push_output :: "bytes \<Rightarrow> 'd dvc_server \<Rightarrow> 'd dvc_server" where
  "dvc_push_output m st = st\<lparr>ds_output := ds_output st @ [m]\<rparr>"

definition dvc_push_event :: "dvc_event \<Rightarrow> 'd dvc_server \<Rightarrow> 'd dvc_server" where
  "dvc_push_event e st = st\<lparr>ds_events := ds_events st @ [e]\<rparr>"

section \<open>Model: operations of the server side\<close>

definition dvc_new :: "'d dvc_config \<Rightarrow> 'd dvc_server option" where
  "dvc_new config = do {
     wassert (dc_max_version config \<ge> dvc_version1 \<and> dc_max_version config \<le> dvc_version3);
     Some \<lparr>ds_config = config, ds_state = DvcIdle, ds_offered = 0, ds_version = None, ds_next_id = 1,
       ds_channels = [], ds_pending = [], ds_output = [], ds_events = [], ds_error = None\<rparr>
   }"

definition dvc_start :: "'d dvc_server \<Rightarrow> 'd dvc_server option" where
  "dvc_start st = do {
     wassert (ds_state st = DvcIdle);
     let st = st\<lparr>ds_offered := (if dc_make_decompressor (ds_config st) \<noteq> None then dc_max_version (ds_config st)
                             else min (dc_max_version (ds_config st)) dvc_version2)\<rparr>;
     w \<leftarrow> encode_dvc_pdu (CapsRequest (ds_offered st) (dc_priority_charges (ds_config st))) [];
     Some ((dvc_push_output w st)\<lparr>ds_state := DvcWaitingCaps\<rparr>)
   }"

definition dvc_send_create :: "u32 \<Rightarrow> 'd dvc_channel \<Rightarrow> 'd dvc_server \<Rightarrow> 'd dvc_server option" where
  "dvc_send_create ident ch st = do {
     w \<leftarrow> encode_dvc_pdu (CreateRequest ident (dch_priority ch) (dch_name ch)) [];
     Some (dvc_put ident (ch\<lparr>dch_state := ChannelOpening\<rparr>) (dvc_push_output w st))
   }"

text \<open>
  The search loop of \<open>allocate_id\<close>, with a bound on its rounds. One more round than there are
  channels is enough (\<open>allocate_id_fresh\<close> below), so \<open>None\<close> is never the bound.
\<close>

definition dvc_succ_id :: "u32 \<Rightarrow> u32" where
  "dvc_succ_id n = (if n = 0xFFFFFFFF then 1 else n + 1)"

fun allocate_id_loop :: "nat \<Rightarrow> 'd dvc_server \<Rightarrow> (u32 \<times> 'd dvc_server) option" where
  "allocate_id_loop 0 st = None"
| "allocate_id_loop (Suc k) st =
     (let ident = ds_next_id st;
          st = st\<lparr>ds_next_id := dvc_succ_id (ds_next_id st)\<rparr>
      in if dvc_find st ident = None then Some (ident, st) else allocate_id_loop k st)"

definition allocate_id :: "'d dvc_server \<Rightarrow> (u32 \<times> 'd dvc_server) option" where
  "allocate_id st = do {
     wassert (length (ds_channels st) < 0xFFFFFFFF);
     allocate_id_loop (Suc (length (ds_channels st))) st
   }"

definition dvc_open :: "bytes \<Rightarrow> byte \<Rightarrow> nat option \<Rightarrow> 'd dvc_server \<Rightarrow> (u32 \<times> 'd dvc_server) option" where
  "dvc_open name priority max_message_size st = do {
     wassert (name \<noteq> [] \<and> length name \<le> dvc_max_channel_name_size);
     wassert (0 \<notin> set name);
     wassert (priority \<le> 3);
     (ident, st) \<leftarrow> allocate_id st;
     let limit = (case max_message_size of None \<Rightarrow> dc_max_message_size (ds_config st) | Some n \<Rightarrow> n);
     let ch = \<lparr>dch_name = name, dch_priority = priority, dch_state = ChannelPending,
               dch_reassembler = mr_new limit, dch_decompressor = None\<rparr>;
     wassert (dvc_find st ident = None);
     let st = dvc_put ident ch st;
     if ds_state st = DvcReady \<and> ds_error st = None then do {
       st \<leftarrow> dvc_send_create ident ch st;
       Some (ident, st)
     } else Some (ident, st\<lparr>ds_pending := ds_pending st @ [ident]\<rparr>)
   }"

definition dvc_is_open :: "'d dvc_server \<Rightarrow> u32 \<Rightarrow> bool" where
  "dvc_is_open st ident = (case dvc_find st ident of None \<Rightarrow> False | Some ch \<Rightarrow> dch_state ch = ChannelOpen)"

definition dvc_send :: "u32 \<Rightarrow> bytes \<Rightarrow> 'd dvc_server \<Rightarrow> (bool \<times> 'd dvc_server) option" where
  "dvc_send ident message st =
     (if ds_error st \<noteq> None \<or> \<not> dvc_is_open st ident then Some (False, st)
      else do {
        pdus \<leftarrow> encode_data ident message;
        Some (True, st\<lparr>ds_output := ds_output st @ pdus\<rparr>)
      })"

definition dvc_close :: "u32 \<Rightarrow> 'd dvc_server \<Rightarrow> 'd dvc_server option" where
  "dvc_close ident st = (case dvc_find st ident of
     None \<Rightarrow> Some st
   | Some ch \<Rightarrow>
       if dch_state ch = ChannelPending
       then Some (dvc_erase ident (st\<lparr>ds_pending := removeAll ident (ds_pending st)\<rparr>))
       else do {
         w \<leftarrow> encode_dvc_pdu (Close ident) [];
         Some (dvc_erase ident (dvc_push_output w st))
       })"

definition dvc_take_output :: "'d dvc_server \<Rightarrow> bytes list \<times> 'd dvc_server" where
  "dvc_take_output st = (ds_output st, st\<lparr>ds_output := []\<rparr>)"

definition dvc_poll_event :: "'d dvc_server \<Rightarrow> dvc_event option \<times> 'd dvc_server" where
  "dvc_poll_event st = (case ds_events st of [] \<Rightarrow> (None, st) | e # es \<Rightarrow> (Some e, st\<lparr>ds_events := es\<rparr>))"

section \<open>Model: what the client sends\<close>

fun dvc_send_creates :: "u32 list \<Rightarrow> 'd dvc_server \<Rightarrow> 'd dvc_server option" where
  "dvc_send_creates [] st = Some st"
| "dvc_send_creates (ident # idents) st = do {
     st \<leftarrow> (case dvc_find st ident of None \<Rightarrow> Some st | Some ch \<Rightarrow> dvc_send_create ident ch st);
     dvc_send_creates idents st
   }"

definition dvc_handle_caps :: "u16 \<Rightarrow> 'd dvc_server \<Rightarrow> (unit result \<times> 'd dvc_server) option" where
  "dvc_handle_caps pdu_version st =
     (if ds_state st = DvcIdle
      then Some (fail InvalidValue ''DVC Capabilities Response before the request'' 0, st)
      else if ds_state st = DvcReady then Some (fail InvalidValue ''second DVC Capabilities Response'' 0, st)
      else if pdu_version = 0 then Some (fail InvalidValue ''DVC Capabilities Response with version 0'' 2, st)
      else do {
        let version = min pdu_version (ds_offered st);
        let st = dvc_push_event (CapabilitiesReady version) (st\<lparr>ds_version := Some version, ds_state := DvcReady\<rparr>);
        st \<leftarrow> dvc_send_creates (ds_pending st) (st\<lparr>ds_pending := []\<rparr>);
        Some (Inr (), st)
      })"

definition dvc_require_ready :: "'d dvc_server \<Rightarrow> unit result" where
  "dvc_require_ready st =
     (if ds_state st \<noteq> DvcReady then fail InvalidValue ''drdynvc PDU before the capabilities exchange'' 0 else Inr ())"

definition dvc_handle_create :: "u32 \<Rightarrow> u32 \<Rightarrow> 'd dvc_server \<Rightarrow> unit result \<times> 'd dvc_server" where
  "dvc_handle_create ident status st = (case dvc_require_ready st of
     Inl e \<Rightarrow> (Inl e, st)
   | Inr _ \<Rightarrow> (case dvc_find st ident of
       None \<Rightarrow> (Inr (), st)
     | Some ch \<Rightarrow> (case dch_state ch of
         ChannelPending \<Rightarrow> (fail InvalidValue ''DVC Create Response for a channel not requested yet'' 1, st)
       | ChannelOpen \<Rightarrow> (fail InvalidValue ''second DVC Create Response'' 1, st)
       | ChannelOpening \<Rightarrow>
           if sint status < 0
           then (Inr (), dvc_erase ident (dvc_push_event (ChannelOpenFailed ident (dch_name ch) status) st))
           else (Inr (), dvc_push_event (ChannelOpened ident (dch_name ch))
                   (dvc_put ident (ch\<lparr>dch_state := ChannelOpen\<rparr>) st)))))"

definition dvc_data_channel :: "u32 \<Rightarrow> 'd dvc_server \<Rightarrow> 'd dvc_channel option result" where
  "dvc_data_channel ident st = (case dvc_require_ready st of
     Inl e \<Rightarrow> Inl e
   | Inr _ \<Rightarrow> (case dvc_find st ident of
       None \<Rightarrow> Inr None
     | Some ch \<Rightarrow> if dch_state ch \<noteq> ChannelOpen
         then fail InvalidValue ''DVC data on a channel that is not open'' 1 else Inr (Some ch)))"

definition dvc_decompress :: "'d dvc_channel \<Rightarrow> bytes \<Rightarrow> 'd dvc_server \<Rightarrow> bytes result \<times> 'd dvc_channel" where
  "dvc_decompress ch data st =
     (if (case ds_version st of None \<Rightarrow> 0 | Some v \<Rightarrow> v) < dvc_version3
      then (fail InvalidValue ''compressed DVC data without version 3'' 0, ch)
      else (case dc_make_decompressor (ds_config st) of
          None \<Rightarrow> (fail Unsupported ''compressed DVC data without a decompressor'' 0, ch)
        | Some (fresh, run_block) \<Rightarrow>
            let (out, d) = run_block (case dch_decompressor ch of None \<Rightarrow> fresh | Some d \<Rightarrow> d) data
            in (out, ch\<lparr>dch_decompressor := Some d\<rparr>)))"

definition dvc_deliver :: "u32 \<Rightarrow> bytes option \<Rightarrow> 'd dvc_server \<Rightarrow> 'd dvc_server" where
  "dvc_deliver ident message st = (case message of None \<Rightarrow> st | Some m \<Rightarrow> dvc_push_event (ChannelData ident m) st)"

text \<open>The end of the four data handlers: a block goes to the channel's reassembler.\<close>

definition dvc_reassemble :: "u32 \<Rightarrow> 'd dvc_channel \<Rightarrow> bytes option result \<times> dvc_reassembler \<Rightarrow> 'd dvc_server \<Rightarrow>
    unit result \<times> 'd dvc_server" where
  "dvc_reassemble ident ch res st =
     (let st = dvc_put ident (ch\<lparr>dch_reassembler := snd res\<rparr>) st
      in case fst res of Inl e \<Rightarrow> (Inl e, st) | Inr message \<Rightarrow> (Inr (), dvc_deliver ident message st))"

definition dvc_handle_data :: "u32 \<Rightarrow> u32 option \<Rightarrow> bytes \<Rightarrow> 'd dvc_server \<Rightarrow> unit result \<times> 'd dvc_server" where
  "dvc_handle_data ident first_length block st = (case dvc_data_channel ident st of
     Inl e \<Rightarrow> (Inl e, st)
   | Inr None \<Rightarrow> (Inr (), st)
   | Inr (Some ch) \<Rightarrow> dvc_reassemble ident ch
       (case first_length of None \<Rightarrow> mr_next (dch_reassembler ch) block
        | Some n \<Rightarrow> mr_first (dch_reassembler ch) n block) st)"

definition dvc_handle_compressed :: "u32 \<Rightarrow> u32 option \<Rightarrow> bytes \<Rightarrow> 'd dvc_server \<Rightarrow> unit result \<times> 'd dvc_server" where
  "dvc_handle_compressed ident first_length data st = (case dvc_data_channel ident st of
     Inl e \<Rightarrow> (Inl e, st)
   | Inr None \<Rightarrow> (Inr (), st)
   | Inr (Some ch) \<Rightarrow> (case dvc_decompress ch data st of
       (Inl e, ch) \<Rightarrow> (Inl e, dvc_put ident ch st)
     | (Inr block, ch) \<Rightarrow> dvc_reassemble ident ch
         (case first_length of None \<Rightarrow> mr_next (dch_reassembler ch) block
          | Some n \<Rightarrow> mr_first (dch_reassembler ch) n block) st))"

definition dvc_handle_close :: "u32 \<Rightarrow> 'd dvc_server \<Rightarrow> unit result \<times> 'd dvc_server" where
  "dvc_handle_close ident st = (case dvc_require_ready st of
     Inl e \<Rightarrow> (Inl e, st)
   | Inr _ \<Rightarrow> (case dvc_find st ident of
       None \<Rightarrow> (Inr (), st)
     | Some ch \<Rightarrow> if dch_state ch \<noteq> ChannelOpen
         then (fail InvalidValue ''DVC Close for a channel that is not open'' 1, st)
         else (Inr (), dvc_push_event (ChannelClosed ident) (dvc_erase ident st))))"

fun dvc_handle :: "dvc_pdu \<Rightarrow> 'd dvc_server \<Rightarrow> (unit result \<times> 'd dvc_server) option" where
  "dvc_handle (CapsResponse version) st = dvc_handle_caps version st"
| "dvc_handle (CreateResponse ident status) st = Some (dvc_handle_create ident status st)"
| "dvc_handle (DataFirst ident n data) st = Some (dvc_handle_data ident (Some n) data st)"
| "dvc_handle (Data ident data) st = Some (dvc_handle_data ident None data st)"
| "dvc_handle (DataFirstCompressed ident n data) st = Some (dvc_handle_compressed ident (Some n) data st)"
| "dvc_handle (DataCompressed ident data) st = Some (dvc_handle_compressed ident None data st)"
| "dvc_handle (Close ident) st = Some (dvc_handle_close ident st)"
| "dvc_handle (SoftSyncResponse _) st = Some (dvc_require_ready st, st)"
| "dvc_handle _ st = None"

definition dvc_receive_message :: "bytes \<Rightarrow> 'd dvc_server \<Rightarrow> (unit result \<times> 'd dvc_server) option" where
  "dvc_receive_message message st = (case ds_error st of
     Some e \<Rightarrow> Some (Inl e, st)
   | None \<Rightarrow> do {
       (result, st) \<leftarrow> (case decode_client_pdu message of
           Inl e \<Rightarrow> Some (Inl e, st)
         | Inr pdu \<Rightarrow> dvc_handle pdu st);
       Some (result, case result of Inl e \<Rightarrow> st\<lparr>ds_error := Some e\<rparr> | Inr _ \<Rightarrow> st)
     })"

section \<open>Fields under the state changes\<close>

lemma dvc_find_changes [simp]:
  "dvc_find (dvc_put i ch st) j = (if j = i then Some ch else dvc_find st j)"
  "dvc_find (dvc_erase i st) j = (if j = i then None else dvc_find st j)"
  "dvc_find (dvc_push_output m st) j = dvc_find st j" "dvc_find (dvc_push_event e st) j = dvc_find st j"
  "dvc_find (st\<lparr>ds_next_id := n\<rparr>) j = dvc_find st j" "dvc_find (st\<lparr>ds_pending := ps\<rparr>) j = dvc_find st j"
  "dvc_find (st\<lparr>ds_output := os\<rparr>) j = dvc_find st j" "dvc_find (st\<lparr>ds_events := es\<rparr>) j = dvc_find st j"
  "dvc_find (st\<lparr>ds_error := e'\<rparr>) j = dvc_find st j" "dvc_find (st\<lparr>ds_state := s\<rparr>) j = dvc_find st j"
  "dvc_find (st\<lparr>ds_version := v\<rparr>) j = dvc_find st j" "dvc_find (st\<lparr>ds_offered := v'\<rparr>) j = dvc_find st j"
  by (auto simp: dvc_find_def dvc_put_def dvc_erase_def dvc_push_output_def dvc_push_event_def update_conv' delete_conv')

lemma dvc_put_fields [simp]:
  "ds_config (dvc_put i ch st) = ds_config st" "ds_state (dvc_put i ch st) = ds_state st"
  "ds_offered (dvc_put i ch st) = ds_offered st" "ds_version (dvc_put i ch st) = ds_version st"
  "ds_next_id (dvc_put i ch st) = ds_next_id st" "ds_pending (dvc_put i ch st) = ds_pending st"
  "ds_output (dvc_put i ch st) = ds_output st" "ds_events (dvc_put i ch st) = ds_events st"
  "ds_error (dvc_put i ch st) = ds_error st"
  by (simp_all add: dvc_put_def)

lemma dvc_erase_fields [simp]:
  "ds_config (dvc_erase i st) = ds_config st" "ds_state (dvc_erase i st) = ds_state st"
  "ds_offered (dvc_erase i st) = ds_offered st" "ds_version (dvc_erase i st) = ds_version st"
  "ds_next_id (dvc_erase i st) = ds_next_id st" "ds_pending (dvc_erase i st) = ds_pending st"
  "ds_output (dvc_erase i st) = ds_output st" "ds_events (dvc_erase i st) = ds_events st"
  "ds_error (dvc_erase i st) = ds_error st"
  by (simp_all add: dvc_erase_def)

lemma dvc_push_fields [simp]:
  "ds_config (dvc_push_output m st) = ds_config st" "ds_state (dvc_push_output m st) = ds_state st"
  "ds_offered (dvc_push_output m st) = ds_offered st" "ds_version (dvc_push_output m st) = ds_version st"
  "ds_next_id (dvc_push_output m st) = ds_next_id st" "ds_pending (dvc_push_output m st) = ds_pending st"
  "ds_output (dvc_push_output m st) = ds_output st @ [m]" "ds_events (dvc_push_output m st) = ds_events st"
  "ds_error (dvc_push_output m st) = ds_error st" "ds_channels (dvc_push_output m st) = ds_channels st"
  "ds_config (dvc_push_event e st) = ds_config st" "ds_state (dvc_push_event e st) = ds_state st"
  "ds_offered (dvc_push_event e st) = ds_offered st" "ds_version (dvc_push_event e st) = ds_version st"
  "ds_next_id (dvc_push_event e st) = ds_next_id st" "ds_pending (dvc_push_event e st) = ds_pending st"
  "ds_output (dvc_push_event e st) = ds_output st" "ds_events (dvc_push_event e st) = ds_events st @ [e]"
  "ds_error (dvc_push_event e st) = ds_error st" "ds_channels (dvc_push_event e st) = ds_channels st"
  by (simp_all add: dvc_push_output_def dvc_push_event_def)

lemma dvc_keys_changes [simp]:
  "distinct (map fst (ds_channels st)) \<Longrightarrow> distinct (map fst (ds_channels (dvc_put i ch st)))"
  "distinct (map fst (ds_channels st)) \<Longrightarrow> distinct (map fst (ds_channels (dvc_erase i st)))"
  by (simp_all add: dvc_put_def dvc_erase_def distinct_update distinct_delete)

section \<open>The invariant\<close>

text \<open>
  Every channel could be announced to the client and its reassembly buffer is bounded; exactly the
  channels not announced yet are queued, and before the capabilities exchange that is all of them;
  the version agreed on was offered; nothing longer than one PDU is queued for output.
\<close>

definition channel_ok :: "'d dvc_channel \<Rightarrow> bool" where
  "channel_ok ch \<longleftrightarrow> dch_name ch \<noteq> [] \<and> length (dch_name ch) \<le> dvc_max_channel_name_size \<and> 0 \<notin> set (dch_name ch) \<and>
     dch_priority ch \<le> 3 \<and> mr_inv (mr_max_size (dch_reassembler ch)) (dch_reassembler ch)"

definition channels_ok :: "'d dvc_server \<Rightarrow> bool" where
  "channels_ok st \<longleftrightarrow> distinct (map fst (ds_channels st)) \<and> ds_next_id st \<noteq> 0 \<and>
     (\<forall>i ch. dvc_find st i = Some ch \<longrightarrow> channel_ok ch)"

definition pending_ok :: "'d dvc_server \<Rightarrow> bool" where
  "pending_ok st \<longleftrightarrow>
     (\<forall>i. i \<in> set (ds_pending st) \<longleftrightarrow> (\<exists>ch. dvc_find st i = Some ch \<and> dch_state ch = ChannelPending)) \<and>
     (ds_state st \<noteq> DvcReady \<longrightarrow> (\<forall>i ch. dvc_find st i = Some ch \<longrightarrow> dch_state ch = ChannelPending))"

definition version_ok :: "'d dvc_server \<Rightarrow> bool" where
  "version_ok st \<longleftrightarrow>
     dvc_version1 \<le> dc_max_version (ds_config st) \<and> dc_max_version (ds_config st) \<le> dvc_version3 \<and>
     length (dc_priority_charges (ds_config st)) = 4 \<and>
     (ds_state st \<noteq> DvcIdle \<longrightarrow> dvc_version1 \<le> ds_offered st \<and> ds_offered st \<le> dc_max_version (ds_config st) \<and>
        (dc_make_decompressor (ds_config st) = None \<longrightarrow> ds_offered st \<le> dvc_version2)) \<and>
     (case ds_version st of None \<Rightarrow> ds_state st \<noteq> DvcReady
      | Some v \<Rightarrow> ds_state st = DvcReady \<and> dvc_version1 \<le> v \<and> v \<le> ds_offered st)"

definition output_ok :: "'d dvc_server \<Rightarrow> bool" where
  "output_ok st \<longleftrightarrow> (\<forall>m\<in>set (ds_output st). length m \<le> dvc_max_pdu_size)"

definition dvc_inv :: "'d dvc_server \<Rightarrow> bool" where
  "dvc_inv st \<longleftrightarrow> channels_ok st \<and> pending_ok st \<and> version_ok st \<and> output_ok st"

lemma length_create_request:
  assumes "channel_ok ch"
  shows "\<exists>w. encode_dvc_pdu (CreateRequest i (dch_priority ch) (dch_name ch)) [] = Some w \<and> length w \<le> dvc_max_pdu_size"
proof -
  have "dvc_pdu_ok (CreateRequest i (dch_priority ch) (dch_name ch))"
    using assms by (simp add: channel_ok_def dvc_pdu_ok_def)
  from encode_dvc_pdu_enc [OF this, of "[]"] show ?thesis
    using assms field_size_bounds [of "size_code i"]
    by (intro exI) (auto simp: channel_ok_def id_pdu_enc_def length_var_enc dvc_max_pdu_size_def
        dvc_max_channel_name_size_def)
qed

lemma dvc_send_create_step:
  assumes "channel_ok ch"
  shows "\<exists>w. dvc_send_create i ch st = Some (dvc_put i (ch\<lparr>dch_state := ChannelOpening\<rparr>) (dvc_push_output w st)) \<and>
    length w \<le> dvc_max_pdu_size"
  using length_create_request [OF assms, of i] by (auto simp: dvc_send_create_def simp del: encode_dvc_pdu.simps)

lemma channel_ok_state [simp]: "channel_ok (ch\<lparr>dch_state := s\<rparr>) = channel_ok ch"
  "channel_ok (ch\<lparr>dch_decompressor := d\<rparr>) = channel_ok ch"
  by (simp_all add: channel_ok_def)

section \<open>Allocating an id\<close>

text \<open>The \<open>k\<close>-th id tried counts from the next one and skips 0.\<close>

lemma dvc_succ_id_unat:
  assumes "n \<noteq> 0"
  shows "unat (dvc_succ_id n) = unat n mod 0xFFFFFFFF + 1" "dvc_succ_id n \<noteq> 0"
proof -
  have "unat n \<le> 0xFFFFFFFF" "0 < unat n"
    using u32_less [of n] assms by (simp_all add: unat_gt_0 del: u32_less)
  moreover have "unat (n + 1) = unat n + 1" if "n \<noteq> 0xFFFFFFFF"
  proof -
    have "unat n \<noteq> unat (0xFFFFFFFF :: u32)" using that by (metis word_unat_eq_iff)
    with \<open>unat n \<le> 0xFFFFFFFF\<close> have "unat n + 1 < 2 ^ 32" by simp
    then show ?thesis by (simp add: unat_word_ariths)
  qed
  moreover have "unat n \<noteq> 0xFFFFFFFF" if "n \<noteq> 0xFFFFFFFF"
    using that word_unat_eq_iff [of n "0xFFFFFFFF"] by simp
  ultimately show "unat (dvc_succ_id n) = unat n mod 0xFFFFFFFF + 1"
    by (cases "n = 0xFFFFFFFF") (simp_all add: dvc_succ_id_def mod_less)
  then show "dvc_succ_id n \<noteq> 0" by auto
qed

lemma dvc_succ_id_iter:
  assumes "n \<noteq> 0"
  shows "(dvc_succ_id ^^ k) n \<noteq> 0 \<and> unat ((dvc_succ_id ^^ k) n) = (unat n - 1 + k) mod 0xFFFFFFFF + 1"
proof (induction k)
  case 0
  have "0 < unat n" "unat n - 1 < 0xFFFFFFFF"
    using assms u32_less [of n] by (simp_all add: unat_gt_0 del: u32_less)
  with assms show ?case by simp
next
  case (Suc k)
  then show ?case
    using dvc_succ_id_unat [of "(dvc_succ_id ^^ k) n"] by (simp add: mod_Suc_eq)
qed

lemma dvc_succ_id_inj:
  assumes "n \<noteq> 0" "m \<le> 0xFFFFFFFF"
  shows "inj_on (\<lambda>k. (dvc_succ_id ^^ k) n) {..<m}"
proof (rule linorder_inj_onI)
  fix i j :: nat assume ij: "i < j" "i \<in> {..<m}" "j \<in> {..<m}"
  show "(dvc_succ_id ^^ i) n \<noteq> (dvc_succ_id ^^ j) n"
  proof
    assume "(dvc_succ_id ^^ i) n = (dvc_succ_id ^^ j) n"
    then have "(unat n - 1 + j) mod 0xFFFFFFFF = (unat n - 1 + i) mod 0xFFFFFFFF"
      using dvc_succ_id_iter [OF assms(1)] by (metis add_right_cancel)
    then have "0xFFFFFFFF dvd j - i"
      using ij mod_eq_dvd_iff_nat [of "unat n - 1 + i" "unat n - 1 + j" "0xFFFFFFFF"] by simp
    moreover have "0 < j - i" "j - i < 0xFFFFFFFF" using ij assms(2) by auto
    ultimately show False by (auto dest: dvd_imp_le)
  qed
qed auto

lemma allocate_id_loop_None:
  "allocate_id_loop k st = None \<Longrightarrow> i < k \<Longrightarrow> dvc_find st ((dvc_succ_id ^^ i) (ds_next_id st)) \<noteq> None"
proof (induction k arbitrary: st i)
  case (Suc k)
  let ?st = "st\<lparr>ds_next_id := dvc_succ_id (ds_next_id st)\<rparr>"
  have rec: "allocate_id_loop k ?st = None" "dvc_find st (ds_next_id st) \<noteq> None"
    using Suc.prems(1) by (auto simp: Let_def split: if_splits)
  show ?case
  proof (cases i)
    case (Suc j)
    then show ?thesis
      using Suc.IH [OF rec(1), of j] Suc.prems(2) by (simp add: funpow_swap1)
  qed (use rec(2) in simp)
qed simp

lemma allocate_id_loop_Some:
  "allocate_id_loop k st = Some (ident, st') \<Longrightarrow> ds_next_id st \<noteq> 0 \<Longrightarrow>
   dvc_find st ident = None \<and> ident \<noteq> 0 \<and> (\<exists>n. n \<noteq> 0 \<and> st' = st\<lparr>ds_next_id := n\<rparr>)"
proof (induction k arbitrary: st)
  case (Suc k)
  let ?st = "st\<lparr>ds_next_id := dvc_succ_id (ds_next_id st)\<rparr>"
  show ?case
  proof (cases "dvc_find st (ds_next_id st) = None")
    case True
    with Suc.prems show ?thesis
      using dvc_succ_id_unat(2) by (auto simp: Let_def intro!: exI [of _ "dvc_succ_id (ds_next_id st)"])
  next
    case False
    with Suc.prems(1) have "allocate_id_loop k ?st = Some (ident, st')" by (auto simp: Let_def)
    from Suc.IH [OF this] dvc_succ_id_unat(2) [OF Suc.prems(2)] show ?thesis by auto
  qed
qed simp

lemma allocate_id_fresh:
  assumes "channels_ok st" "length (ds_channels st) < 0xFFFFFFFF"
  obtains ident n where "allocate_id st = Some (ident, st\<lparr>ds_next_id := n\<rparr>)" "dvc_find st ident = None"
    "ident \<noteq> 0" "n \<noteq> 0"
proof -
  let ?k = "Suc (length (ds_channels st))" and ?ids = "\<lambda>i. (dvc_succ_id ^^ i) (ds_next_id st)"
  have nz: "ds_next_id st \<noteq> 0" using assms(1) by (simp add: channels_ok_def)
  have "allocate_id_loop ?k st \<noteq> None"
  proof
    assume none: "allocate_id_loop ?k st = None"
    have "?ids ` {..<?k} \<subseteq> fst ` set (ds_channels st)"
    proof
      fix x assume "x \<in> ?ids ` {..<?k}"
      then obtain i where "i < ?k" "x = ?ids i" by auto
      with allocate_id_loop_None [OF none this(1)] have "map_of (ds_channels st) x \<noteq> None"
        by (simp add: dvc_find_def)
      then show "x \<in> fst ` set (ds_channels st)" by (meson map_of_eq_None_iff)
    qed
    then have "card (?ids ` {..<?k}) \<le> card (fst ` set (ds_channels st))" by (intro card_mono) auto
    moreover have "card (fst ` set (ds_channels st)) \<le> length (ds_channels st)"
      by (metis card_image_le card_length le_trans List.finite_set)
    moreover have "card (?ids ` {..<?k}) = ?k"
      using dvc_succ_id_inj [OF nz, of ?k] assms(2) by (subst card_image) auto
    ultimately show False by simp
  qed
  then obtain ident st' where "allocate_id_loop ?k st = Some (ident, st')" by auto
  with allocate_id_loop_Some [OF this nz] assms(2) that show ?thesis
    by (auto simp: allocate_id_def wassert_def)
qed

section \<open>Every operation keeps the invariant\<close>

lemma channels_ok_put: "channels_ok st \<Longrightarrow> channel_ok ch \<Longrightarrow> channels_ok (dvc_put i ch st)"
  by (auto simp: channels_ok_def)

lemma channels_ok_erase: "channels_ok st \<Longrightarrow> channels_ok (dvc_erase i st)"
  by (auto simp: channels_ok_def)

lemma channels_ok_cong [simp]:
  "channels_ok (dvc_push_output m st) = channels_ok st" "channels_ok (dvc_push_event e st) = channels_ok st"
  "channels_ok (st\<lparr>ds_pending := ps\<rparr>) = channels_ok st" "channels_ok (st\<lparr>ds_state := s\<rparr>) = channels_ok st"
  "channels_ok (st\<lparr>ds_offered := v\<rparr>) = channels_ok st" "channels_ok (st\<lparr>ds_version := v'\<rparr>) = channels_ok st"
  "channels_ok (st\<lparr>ds_output := os\<rparr>) = channels_ok st" "channels_ok (st\<lparr>ds_events := es\<rparr>) = channels_ok st"
  "channels_ok (st\<lparr>ds_error := e'\<rparr>) = channels_ok st"
  by (simp_all add: channels_ok_def)

lemma channels_ok_next: "channels_ok st \<Longrightarrow> n \<noteq> 0 \<Longrightarrow> channels_ok (st\<lparr>ds_next_id := n\<rparr>)"
  by (simp add: channels_ok_def)

lemma pending_ok_cong [simp]:
  "pending_ok (dvc_push_output m st) = pending_ok st" "pending_ok (dvc_push_event e st) = pending_ok st"
  "pending_ok (st\<lparr>ds_next_id := n\<rparr>) = pending_ok st" "pending_ok (st\<lparr>ds_output := os\<rparr>) = pending_ok st"
  "pending_ok (st\<lparr>ds_events := es\<rparr>) = pending_ok st" "pending_ok (st\<lparr>ds_error := e'\<rparr>) = pending_ok st"
  "pending_ok (st\<lparr>ds_offered := v\<rparr>) = pending_ok st"
  by (simp_all add: pending_ok_def)

lemma version_ok_cong [simp]:
  "version_ok (dvc_push_output m st) = version_ok st" "version_ok (dvc_push_event e st) = version_ok st"
  "version_ok (dvc_put i ch st) = version_ok st" "version_ok (dvc_erase i st) = version_ok st"
  "version_ok (st\<lparr>ds_next_id := n\<rparr>) = version_ok st" "version_ok (st\<lparr>ds_output := os\<rparr>) = version_ok st"
  "version_ok (st\<lparr>ds_events := es\<rparr>) = version_ok st" "version_ok (st\<lparr>ds_error := e'\<rparr>) = version_ok st"
  "version_ok (st\<lparr>ds_pending := ps\<rparr>) = version_ok st"
  by (simp_all add: version_ok_def split: option.split)

lemma output_ok_cong [simp]:
  "output_ok (dvc_push_output m st) \<longleftrightarrow> length m \<le> dvc_max_pdu_size \<and> output_ok st"
  "output_ok (dvc_push_event e st) = output_ok st" "output_ok (dvc_put i ch st) = output_ok st"
  "output_ok (dvc_erase i st) = output_ok st" "output_ok (st\<lparr>ds_next_id := n\<rparr>) = output_ok st"
  "output_ok (st\<lparr>ds_events := es\<rparr>) = output_ok st" "output_ok (st\<lparr>ds_error := e'\<rparr>) = output_ok st"
  "output_ok (st\<lparr>ds_pending := ps\<rparr>) = output_ok st" "output_ok (st\<lparr>ds_state := s\<rparr>) = output_ok st"
  "output_ok (st\<lparr>ds_offered := v\<rparr>) = output_ok st" "output_ok (st\<lparr>ds_version := v'\<rparr>) = output_ok st"
  by (auto simp: output_ok_def)

text \<open>A channel that was announced may change, or go, without touching the queue of the others.\<close>

lemma pending_ok_put:
  assumes "pending_ok st" "dvc_find st i = Some ch" "dch_state ch \<noteq> ChannelPending" "dch_state ch' \<noteq> ChannelPending"
  shows "pending_ok (dvc_put i ch' st)"
  using assms by (auto simp: pending_ok_def)

lemma pending_ok_erase:
  assumes "pending_ok st" "dvc_find st i = Some ch" "dch_state ch \<noteq> ChannelPending"
  shows "pending_ok (dvc_erase i st)"
  using assms by (auto simp: pending_ok_def)

lemma dvc_inv_put:
  assumes "dvc_inv st" "dvc_find st i = Some ch" "dch_state ch \<noteq> ChannelPending" "dch_state ch' \<noteq> ChannelPending"
    "channel_ok ch'"
  shows "dvc_inv (dvc_put i ch' st)"
  using assms by (auto simp: dvc_inv_def channels_ok_put pending_ok_put)

lemma dvc_inv_erase:
  assumes "dvc_inv st" "dvc_find st i = Some ch" "dch_state ch \<noteq> ChannelPending"
  shows "dvc_inv (dvc_erase i st)"
  using assms by (auto simp: dvc_inv_def channels_ok_erase pending_ok_erase)

lemma dvc_inv_cong [simp]:
  "dvc_inv (dvc_push_event e st) = dvc_inv st" "dvc_inv (st\<lparr>ds_error := e'\<rparr>) = dvc_inv st"
  "dvc_inv (st\<lparr>ds_events := es\<rparr>) = dvc_inv st"
  "dvc_inv (dvc_push_output m st) \<longleftrightarrow> length m \<le> dvc_max_pdu_size \<and> dvc_inv st"
  by (auto simp: dvc_inv_def)

definition creates_sent :: "u32 list \<Rightarrow> 'd dvc_server \<Rightarrow> 'd dvc_server \<Rightarrow> bool" where
  "creates_sent ids st st' \<longleftrightarrow> channels_ok st' \<and> output_ok st' \<and>
     (\<forall>j. dvc_find st' j = (if j \<in> set ids then map_option (\<lambda>ch. ch\<lparr>dch_state := ChannelOpening\<rparr>) (dvc_find st j)
        else dvc_find st j)) \<and>
     ds_config st' = ds_config st \<and> ds_state st' = ds_state st \<and> ds_offered st' = ds_offered st \<and>
     ds_version st' = ds_version st \<and> ds_pending st' = ds_pending st"

lemma dvc_send_creates_ok:
  "channels_ok st \<Longrightarrow> output_ok st \<Longrightarrow> \<exists>st'. dvc_send_creates ids st = Some st' \<and> creates_sent ids st st'"
proof (induction ids arbitrary: st)
  case Nil
  then show ?case by (simp add: creates_sent_def)
next
  case (Cons i ids)
  show ?case
  proof (cases "dvc_find st i")
    case None
    with Cons.IH [OF Cons.prems] show ?thesis
      by (auto simp: creates_sent_def)
  next
    case (Some ch)
    then have ok: "channel_ok ch" using Cons.prems(1) by (auto simp: channels_ok_def)
    then obtain w where w: "dvc_send_create i ch st =
        Some (dvc_put i (ch\<lparr>dch_state := ChannelOpening\<rparr>) (dvc_push_output w st))" "length w \<le> dvc_max_pdu_size"
      using dvc_send_create_step by blast
    let ?st = "dvc_put i (ch\<lparr>dch_state := ChannelOpening\<rparr>) (dvc_push_output w st)"
    have "channels_ok ?st" "output_ok ?st"
      using Cons.prems w(2) ok by (auto intro!: channels_ok_put)
    from Cons.IH [OF this] obtain st' where "dvc_send_creates ids ?st = Some st'" "creates_sent ids ?st st'" by blast
    with Some w(1) show ?thesis
      by (auto simp: creates_sent_def)
  qed
qed

lemma dvc_handle_caps_ok:
  assumes "dvc_inv st"
  shows "\<exists>r st'. dvc_handle_caps v st = Some (r, st') \<and> dvc_inv st'"
proof (cases "ds_state st = DvcWaitingCaps \<and> v \<noteq> 0")
  case False
  then show ?thesis
    using assms by (cases "ds_state st") (auto simp: dvc_handle_caps_def)
next
  case True
  let ?v = "min v (ds_offered st)"
  let ?st = "(dvc_push_event (CapabilitiesReady ?v) (st\<lparr>ds_version := Some ?v, ds_state := DvcReady\<rparr>))\<lparr>ds_pending := []\<rparr>"
  have "channels_ok ?st" "output_ok ?st" using assms by (auto simp: dvc_inv_def)
  then obtain st' where st': "dvc_send_creates (ds_pending st) ?st = Some st'" "creates_sent (ds_pending st) ?st st'"
    using dvc_send_creates_ok by blast
  have "pending_ok st'"
    using assms st'(2) by (auto simp: dvc_inv_def pending_ok_def creates_sent_def)
  moreover have "dvc_version1 \<le> ?v"
    using True assms by (auto simp: dvc_inv_def version_ok_def dvc_version1_def min_def word_le_nat_alt word_unat_eq_iff)
  then have "version_ok st'"
    using assms st'(2) True by (auto simp: dvc_inv_def version_ok_def creates_sent_def)
  ultimately show ?thesis
    using st' True by (auto simp: dvc_handle_caps_def dvc_inv_def Let_def creates_sent_def)
qed

lemma dvc_find_ok: "dvc_inv st \<Longrightarrow> dvc_find st i = Some ch \<Longrightarrow> channel_ok ch"
  by (auto simp: dvc_inv_def channels_ok_def)

lemma dvc_inv_put_state:
  "dvc_inv st \<Longrightarrow> dvc_find st i = Some ch \<Longrightarrow> dch_state ch \<noteq> ChannelPending \<Longrightarrow> s \<noteq> ChannelPending \<Longrightarrow>
   dvc_inv (dvc_put i (ch\<lparr>dch_state := s\<rparr>) st)"
  using dvc_inv_put [of st i ch "ch\<lparr>dch_state := s\<rparr>"] dvc_find_ok [of st i ch] by simp

lemma dvc_handle_create_inv: "dvc_inv st \<Longrightarrow> dvc_inv (snd (dvc_handle_create i status st))"
  unfolding dvc_handle_create_def dvc_require_ready_def
  by (auto split: option.split channel_state.split intro: dvc_inv_put_state dvc_inv_erase)

lemma mr_max_size_kept [simp]:
  "mr_max_size (snd (mr_next r b)) = mr_max_size r" "mr_max_size (snd (mr_first r n b)) = mr_max_size r"
  by (simp_all add: mr_next_def mr_first_def mr_reset_def Let_def split: option.split)

lemma dvc_inv_deliver [simp]: "dvc_inv (dvc_deliver i m st) = dvc_inv st"
  by (simp add: dvc_deliver_def split: option.split)

lemma dvc_reassemble_inv:
  assumes "dvc_inv st" "dvc_find st i = Some ch" "dch_state ch = ChannelOpen" "channel_ok ch'" "dch_state ch' = ChannelOpen"
  shows "dvc_inv (snd (dvc_reassemble i ch'
    (case first_length of None \<Rightarrow> mr_next (dch_reassembler ch') b | Some n \<Rightarrow> mr_first (dch_reassembler ch') n b) st))"
proof -
  let ?res = "case first_length of None \<Rightarrow> mr_next (dch_reassembler ch') b | Some n \<Rightarrow> mr_first (dch_reassembler ch') n b"
  have "channel_ok (ch'\<lparr>dch_reassembler := snd ?res\<rparr>)"
    using assms(4) by (auto simp: channel_ok_def mr_next_inv mr_first_inv split: option.split)
  then have "dvc_inv (dvc_put i (ch'\<lparr>dch_reassembler := snd ?res\<rparr>) st)"
    using assms by (intro dvc_inv_put [OF assms(1,2)]) auto
  then show ?thesis
    by (simp add: dvc_reassemble_def Let_def split: sum.split)
qed

lemma dvc_data_channel_Some: "dvc_data_channel i st = Inr (Some ch) \<Longrightarrow> dvc_find st i = Some ch \<and> dch_state ch = ChannelOpen"
  by (auto simp: dvc_data_channel_def dvc_require_ready_def split: option.splits if_splits)

lemma dvc_handle_data_inv:
  assumes "dvc_inv st"
  shows "dvc_inv (snd (dvc_handle_data i first_length b st))"
proof (cases "\<exists>ch. dvc_data_channel i st = Inr (Some ch)")
  case True
  then obtain ch where ch: "dvc_data_channel i st = Inr (Some ch)" by blast
  with assms dvc_find_ok [OF assms, of i ch] dvc_data_channel_Some [OF ch]
    dvc_reassemble_inv [where st = st and i = i and ch = ch and ch' = ch and first_length = first_length and b = b] show ?thesis
    by (simp add: dvc_handle_data_def)
qed (use assms in \<open>auto simp: dvc_handle_data_def split: sum.split option.split\<close>)

lemma dvc_decompress_channel:
  "dvc_decompress ch data st = (out, ch') \<Longrightarrow> channel_ok ch' = channel_ok ch \<and> dch_state ch' = dch_state ch"
  by (auto simp: dvc_decompress_def Let_def split: if_splits option.splits prod.splits)

lemma dvc_handle_compressed_inv:
  assumes "dvc_inv st"
  shows "dvc_inv (snd (dvc_handle_compressed i first_length b st))"
proof (cases "\<exists>ch. dvc_data_channel i st = Inr (Some ch)")
  case True
  then obtain ch where ch: "dvc_data_channel i st = Inr (Some ch)" by blast
  note found = dvc_data_channel_Some [OF ch]
  have ok: "channel_ok ch" using dvc_find_ok [OF assms] found by blast
  obtain out ch' where d: "dvc_decompress ch b st = (out, ch')" by (cases "dvc_decompress ch b st")
  note ch' = dvc_decompress_channel [OF d]
  have "dvc_inv (dvc_put i ch' st)"
    using found ok ch' by (intro dvc_inv_put [OF assms]) auto
  moreover have "dvc_inv (snd (dvc_reassemble i ch' (case first_length of None \<Rightarrow> mr_next (dch_reassembler ch') block
       | Some n \<Rightarrow> mr_first (dch_reassembler ch') n block) st))" for block
    using found ok ch' by (intro dvc_reassemble_inv [OF assms]) auto
  ultimately show ?thesis
    using ch d by (simp add: dvc_handle_compressed_def split: sum.split)
qed (use assms in \<open>auto simp: dvc_handle_compressed_def split: sum.split option.split\<close>)

lemma dvc_handle_close_inv: "dvc_inv st \<Longrightarrow> dvc_inv (snd (dvc_handle_close i st))"
  unfolding dvc_handle_close_def dvc_require_ready_def
  by (auto split: option.split intro: dvc_inv_erase)

lemma safe_decode_client: "decode_client_pdu m = Inr pdu \<Longrightarrow> from_client pdu"
  unfolding decode_client_pdu_def decode_common_def read_soft_sync_response_def
  by (auto simp: from_client_def ptry_def pret_def pget_def pfail_def fail_def split: prod.splits sum.splits if_splits)

lemma dvc_handle_total:
  assumes "dvc_inv st" "from_client pdu"
  shows "\<exists>r st'. dvc_handle pdu st = Some (r, st') \<and> dvc_inv st'"
  using assms(2) dvc_handle_caps_ok [OF assms(1)] dvc_handle_create_inv [OF assms(1)] dvc_handle_data_inv [OF assms(1)]
    dvc_handle_compressed_inv [OF assms(1)] dvc_handle_close_inv [OF assms(1)] assms(1)
  by (cases pdu) (auto simp: from_client_def, (metis prod.collapse)+)

lemma dvc_receive_total:
  assumes "dvc_inv st"
  shows "\<exists>r st'. dvc_receive_message m st = Some (r, st') \<and> dvc_inv st'"
proof (cases "ds_error st")
  case (Some e)
  with assms show ?thesis by (simp add: dvc_receive_message_def)
next
  case None
  have "\<exists>r st'. (case decode_client_pdu m of Inl e \<Rightarrow> Some (Inl e, st) | Inr pdu \<Rightarrow> dvc_handle pdu st) = Some (r, st') \<and>
      dvc_inv st'"
    using assms dvc_handle_total [OF assms] safe_decode_client [of m] by (cases "decode_client_pdu m") auto
  with None show ?thesis
    by (auto simp: dvc_receive_message_def split: sum.split)
qed

section \<open>The operations of the server side\<close>

lemma dvc_new_inv:
  "dvc_new config = Some st \<Longrightarrow> length (dc_priority_charges config) = 4 \<Longrightarrow> dvc_inv st"
  by (auto simp: dvc_new_def wassert_def dvc_inv_def channels_ok_def pending_ok_def version_ok_def output_ok_def
      dvc_find_def split: if_splits)

lemma dvc_start_inv:
  assumes "dvc_inv st" "ds_state st = DvcIdle"
  shows "\<exists>st'. dvc_start st = Some st' \<and> dvc_inv st'"
proof -
  let ?offered = "if dc_make_decompressor (ds_config st) \<noteq> None then dc_max_version (ds_config st)
     else min (dc_max_version (ds_config st)) dvc_version2"
  have v: "dvc_version1 \<le> ?offered" "?offered \<le> dc_max_version (ds_config st)" "?offered \<le> dvc_version3"
    "dc_make_decompressor (ds_config st) = None \<Longrightarrow> ?offered \<le> dvc_version2"
    using assms(1) caps_versions(3)
    by (auto simp: dvc_inv_def version_ok_def min_def dvc_version1_def dvc_version2_def dvc_version3_def word_le_nat_alt)
  have "\<exists>w. encode_dvc_pdu (CapsRequest ?offered (dc_priority_charges (ds_config st))) [] = Some w \<and>
      length w \<le> dvc_max_pdu_size"
    using v(1,3) assms(1)
    by (auto simp: wassert_def header_byte_def fold_w_le wr_simps Let_def dvc_inv_def version_ok_def dvc_max_pdu_size_def)
  then obtain w where w: "encode_dvc_pdu (CapsRequest ?offered (dc_priority_charges (ds_config st))) [] = Some w"
    "length w \<le> dvc_max_pdu_size" by blast
  let ?st = "(dvc_push_output w (st\<lparr>ds_offered := ?offered\<rparr>))\<lparr>ds_state := DvcWaitingCaps\<rparr>"
  have "version_ok ?st"
    using assms v by (auto simp: dvc_inv_def version_ok_def split: option.splits)
  moreover have "pending_ok ?st"
    using assms by (auto simp: dvc_inv_def pending_ok_def)
  ultimately have "dvc_inv ?st"
    using assms w(2) by (simp add: dvc_inv_def)
  with w assms(2) show ?thesis
    by (simp add: dvc_start_def wassert_def Let_def del: encode_dvc_pdu.simps)
qed

definition open_args_ok :: "bytes \<Rightarrow> byte \<Rightarrow> bool" where
  "open_args_ok name priority \<longleftrightarrow> name \<noteq> [] \<and> length name \<le> dvc_max_channel_name_size \<and> 0 \<notin> set name \<and> priority \<le> 3"

lemma dvc_open_inv:
  assumes "dvc_inv st" "open_args_ok name priority" "length (ds_channels st) < 0xFFFFFFFF"
  shows "\<exists>ident st'. dvc_open name priority limit st = Some (ident, st') \<and> dvc_inv st' \<and> ident \<noteq> 0 \<and>
    dvc_find st ident = None \<and> dvc_find st' ident \<noteq> None \<and> (\<forall>j. j \<noteq> ident \<longrightarrow> dvc_find st' j = dvc_find st j)"
proof -
  obtain ident n where a: "allocate_id st = Some (ident, st\<lparr>ds_next_id := n\<rparr>)" "dvc_find st ident = None"
    "ident \<noteq> 0" "n \<noteq> 0"
    using allocate_id_fresh [of st] assms(1,3) by (auto simp: dvc_inv_def)
  define ch :: "'a dvc_channel" where "ch = \<lparr>dch_name = name, dch_priority = priority, dch_state = ChannelPending,
     dch_reassembler = mr_new (case limit of None \<Rightarrow> dc_max_message_size (ds_config st) | Some k \<Rightarrow> k),
     dch_decompressor = None\<rparr>"
  have ch: "channel_ok ch" "dch_state ch = ChannelPending"
    using assms(2) by (auto simp: ch_def channel_ok_def open_args_ok_def mr_inv_def mr_new_def)
  let ?st = "dvc_put ident ch (st\<lparr>ds_next_id := n\<rparr>)"
  have base: "channels_ok ?st" "version_ok ?st" "output_ok ?st"
    using assms(1) a(4) ch(1) by (auto simp: dvc_inv_def channels_ok_put channels_ok_next)
  have opened: "dvc_open name priority limit st =
      (if ds_state st = DvcReady \<and> ds_error st = None then dvc_send_create ident ch ?st \<bind> (\<lambda>st. Some (ident, st))
       else Some (ident, ?st\<lparr>ds_pending := ds_pending ?st @ [ident]\<rparr>))"
    using a(1,2) assms(2)
    by (cases limit) (simp_all add: dvc_open_def open_args_ok_def wassert_def Let_def ch_def)
  show ?thesis
  proof (cases "ds_state st = DvcReady \<and> ds_error st = None")
    case True
    obtain w where w: "dvc_send_create ident ch ?st =
        Some (dvc_put ident (ch\<lparr>dch_state := ChannelOpening\<rparr>) (dvc_push_output w ?st))" "length w \<le> dvc_max_pdu_size"
      using dvc_send_create_step [OF ch(1)] by blast
    have "pending_ok (dvc_put ident (ch\<lparr>dch_state := ChannelOpening\<rparr>) (dvc_push_output w ?st))"
      using assms(1) a(2) True by (auto simp: dvc_inv_def pending_ok_def)
    then have "dvc_inv (dvc_put ident (ch\<lparr>dch_state := ChannelOpening\<rparr>) (dvc_push_output w ?st))"
      using base w(2) ch(1) by (simp add: dvc_inv_def channels_ok_put)
    with True a(2,3) w(1) show ?thesis
      unfolding opened by simp
  next
    case False
    have "pending_ok (?st\<lparr>ds_pending := ds_pending ?st @ [ident]\<rparr>)"
      using assms(1) a(2) ch(2) by (auto simp: dvc_inv_def pending_ok_def)
    with base have "dvc_inv (?st\<lparr>ds_pending := ds_pending ?st @ [ident]\<rparr>)"
      by (simp add: dvc_inv_def)
    with False a(2,3) show ?thesis
      unfolding opened by auto
  qed
qed

lemma dvc_close_inv:
  assumes "dvc_inv st"
  shows "\<exists>st'. dvc_close ident st = Some st' \<and> dvc_inv st' \<and> dvc_find st' ident = None"
proof (cases "dvc_find st ident")
  case None
  with assms show ?thesis by (simp add: dvc_close_def)
next
  case (Some ch)
  show ?thesis
  proof (cases "dch_state ch = ChannelPending")
    case True
    have "pending_ok (dvc_erase ident (st\<lparr>ds_pending := removeAll ident (ds_pending st)\<rparr>))"
      using assms by (auto simp: dvc_inv_def pending_ok_def)
    with True Some assms show ?thesis
      by (simp add: dvc_close_def dvc_inv_def channels_ok_erase)
  next
    case False
    have "encode_dvc_pdu (Close ident) [] = Some (dvc_pdu_enc (Close ident))"
      using encode_dvc_pdu_enc [of "Close ident" "[]"] by (simp add: dvc_pdu_ok_def)
    moreover have "length (dvc_pdu_enc (Close ident)) \<le> dvc_max_pdu_size"
      using field_size_bounds [of "size_code ident"] by (simp add: id_pdu_enc_def length_var_enc dvc_max_pdu_size_def)
    ultimately show ?thesis
      using False Some assms
      by (auto simp: dvc_close_def intro!: dvc_inv_erase simp del: encode_dvc_pdu.simps dvc_pdu_enc.simps)
  qed
qed

lemma dvc_send_inv:
  assumes "dvc_inv st" "length m \<le> 0xFFFFFFFF"
  shows "\<exists>sent st'. dvc_send ident m st = Some (sent, st') \<and> dvc_inv st' \<and> ds_channels st' = ds_channels st"
proof -
  have "output_ok (st\<lparr>ds_output := ds_output st @ map dvc_pdu_enc (dvc_data_pdus ident m)\<rparr>)"
    using assms dvc_data_pdu_size [OF assms(2)] by (auto simp: dvc_inv_def output_ok_def)
  with assms show ?thesis
    by (auto simp: dvc_send_def encode_data_enc dvc_inv_def)
qed

section \<open>Any sequence of calls\<close>

datatype dvc_op = OpStart | OpOpen bytes byte "nat option" | OpSend u32 bytes | OpClose u32 | OpReceive bytes
  | OpTakeOutput | OpPollEvent

fun dvc_exec :: "dvc_op \<Rightarrow> 'd dvc_server \<Rightarrow> 'd dvc_server option" where
  "dvc_exec OpStart st = dvc_start st"
| "dvc_exec (OpOpen name priority limit) st = map_option snd (dvc_open name priority limit st)"
| "dvc_exec (OpSend ident m) st = map_option snd (dvc_send ident m st)"
| "dvc_exec (OpClose ident) st = dvc_close ident st"
| "dvc_exec (OpReceive m) st = map_option snd (dvc_receive_message m st)"
| "dvc_exec OpTakeOutput st = Some (snd (dvc_take_output st))"
| "dvc_exec OpPollEvent st = Some (snd (dvc_poll_event st))"

text \<open>A step that aborts leaves the state as it was and reports so.\<close>

definition dvc_step :: "'d dvc_server \<Rightarrow> dvc_op \<Rightarrow> bool \<times> 'd dvc_server" where
  "dvc_step st op = (case dvc_exec op st of None \<Rightarrow> (False, st) | Some st' \<Rightarrow> (True, st'))"

definition dvc_default_config :: "'d dvc_config" where
  "dvc_default_config = \<lparr>dc_max_version = dvc_version3, dc_priority_charges = dvc_default_priority_charges,
     dc_max_message_size = 16 * 1024 * 1024, dc_make_decompressor = None\<rparr>"

lemma dvc_open_args:
  "dvc_open name priority limit st = Some res \<Longrightarrow> open_args_ok name priority \<and> length (ds_channels st) < 0xFFFFFFFF"
  by (auto simp: dvc_open_def open_args_ok_def allocate_id_def wassert_def split: bind_splits if_splits)

lemma dvc_send_args: "dvc_send ident m st = Some res \<Longrightarrow> length m \<le> 0xFFFFFFFF \<or> snd res = st"
  by (auto simp: dvc_send_def encode_data_def wassert_def split: bind_splits if_splits)

lemma dvc_take_poll_inv: "dvc_inv st \<Longrightarrow> dvc_inv (snd (dvc_take_output st)) \<and> dvc_inv (snd (dvc_poll_event st))"
  by (auto simp: dvc_take_output_def dvc_poll_event_def dvc_inv_def output_ok_def split: list.split)

lemma dvc_exec_inv:
  assumes "dvc_inv st" "dvc_exec op st = Some st'"
  shows "dvc_inv st'"
proof (cases op)
  case OpStart
  with assms dvc_start_inv [OF assms(1)] show ?thesis
    by (auto simp: dvc_start_def wassert_def split: if_splits)
next
  case (OpOpen name priority limit)
  with assms(2) obtain res where res: "dvc_open name priority limit st = Some res" "st' = snd res" by auto
  with dvc_open_inv [OF assms(1), of name priority limit] dvc_open_args [OF res(1)] show ?thesis by auto
next
  case (OpSend ident m)
  with assms(2) obtain res where res: "dvc_send ident m st = Some res" "st' = snd res" by auto
  with dvc_send_inv [OF assms(1), of m ident] dvc_send_args [OF res(1)] assms(1) show ?thesis by auto
next
  case (OpClose ident)
  with assms dvc_close_inv [OF assms(1), of ident] show ?thesis by auto
next
  case (OpReceive m)
  with assms dvc_receive_total [OF assms(1), of m] show ?thesis by auto
qed (use assms dvc_take_poll_inv in auto)

interpretation dvc_machine: machine dvc_step dvc_inv
  "\<lparr>ds_config = dvc_default_config, ds_state = DvcIdle, ds_offered = 0, ds_version = None, ds_next_id = 1,
     ds_channels = [], ds_pending = [], ds_output = [], ds_events = [], ds_error = None\<rparr>"
proof
  show "dvc_inv \<lparr>ds_config = dvc_default_config, ds_state = DvcIdle, ds_offered = 0, ds_version = None, ds_next_id = 1,
     ds_channels = [], ds_pending = [], ds_output = [], ds_events = [], ds_error = None\<rparr>"
    by (rule dvc_new_inv [of dvc_default_config])
      (simp_all add: dvc_new_def wassert_def dvc_default_config_def dvc_version1_def dvc_version3_def
        dvc_default_priority_charges_def word_le_nat_alt)
qed (auto simp: dvc_step_def dvc_exec_inv split: option.split)

section \<open>Messages arrive as they were sent\<close>

fun dvc_receive_all :: "bytes list \<Rightarrow> 'd dvc_server \<Rightarrow> (unit result \<times> 'd dvc_server) option" where
  "dvc_receive_all [] st = Some (Inr (), st)"
| "dvc_receive_all (m # ms) st = do {
     (r, st) \<leftarrow> dvc_receive_message m st;
     (case r of Inl e \<Rightarrow> Some (Inl e, st) | Inr _ \<Rightarrow> dvc_receive_all ms st)
   }"

text \<open>A data PDU of an open channel is a step of that channel's reassembler.\<close>

definition dvc_data_for :: "u32 \<Rightarrow> dvc_pdu \<Rightarrow> bool" where
  "dvc_data_for ident pdu = (case pdu of DataFirst i n d \<Rightarrow> i = ident \<and> length d \<le> unat n | Data i d \<Rightarrow> i = ident | _ \<Rightarrow> False)"

lemma dvc_data_for_ok: "dvc_data_for ident pdu \<Longrightarrow> dvc_pdu_ok pdu \<and> from_server pdu \<and> from_client pdu"
  by (cases pdu) (auto simp: dvc_data_for_def dvc_pdu_ok_def from_server_def from_client_def)

definition dvc_serves :: "u32 \<Rightarrow> 'd dvc_channel \<Rightarrow> 'd dvc_server \<Rightarrow> bool" where
  "dvc_serves ident ch st \<longleftrightarrow> ds_error st = None \<and> ds_state st = DvcReady \<and> dvc_find st ident = Some ch \<and>
     dch_state ch = ChannelOpen"

lemma dvc_receive_data:
  assumes "dvc_serves ident ch st" "dvc_data_for ident pdu"
    and "dvc_receive (dch_reassembler ch) (dvc_pdu_enc pdu) = (Inr out, r)"
  shows "dvc_receive_message (dvc_pdu_enc pdu) st =
    Some (Inr (), dvc_deliver ident out (dvc_put ident (ch\<lparr>dch_reassembler := r\<rparr>) st))"
proof -
  have dec: "decode_server_pdu (dvc_pdu_enc pdu) = Inr pdu" "decode_client_pdu (dvc_pdu_enc pdu) = Inr pdu"
    using dvc_data_for_ok [OF assms(2)] by (simp_all add: decode_server_pdu_enc decode_client_pdu_enc)
  have "dvc_data_channel ident st = Inr (Some ch)"
    using assms(1) by (simp add: dvc_serves_def dvc_data_channel_def dvc_require_ready_def)
  with assms dec show ?thesis
    by (cases pdu) (auto simp: dvc_receive_message_def dvc_serves_def dvc_data_for_def dvc_receive_def
        dvc_handle_data_def dvc_reassemble_def Let_def simp del: dvc_pdu_enc.simps)
qed

lemma dvc_receive_stream:
  assumes "dvc_serves ident ch st" "list_all (dvc_data_for ident) pdus"
    and "feed dvc_receive (dch_reassembler ch) (map dvc_pdu_enc pdus) = (None, ms, r)"
  shows "\<exists>st'. dvc_receive_all (map dvc_pdu_enc pdus) st = Some (Inr (), st') \<and>
    dvc_serves ident (ch\<lparr>dch_reassembler := r\<rparr>) st' \<and> ds_events st' = ds_events st @ map (ChannelData ident) ms \<and>
    (\<forall>j. j \<noteq> ident \<longrightarrow> dvc_find st' j = dvc_find st j)"
  using assms
proof (induction pdus arbitrary: st ch ms)
  case Nil
  then show ?case by (auto simp: dvc_serves_def)
next
  case (Cons pdu pdus)
  from Cons.prems(3) obtain out r1 ms' where out:
    "dvc_receive (dch_reassembler ch) (dvc_pdu_enc pdu) = (Inr out, r1)"
    "feed dvc_receive r1 (map dvc_pdu_enc pdus) = (None, ms', r)"
    "ms = (case out of None \<Rightarrow> ms' | Some m \<Rightarrow> m # ms')"
    by (auto simp del: dvc_pdu_enc.simps split: prod.splits sum.splits)
  let ?st = "dvc_deliver ident out (dvc_put ident (ch\<lparr>dch_reassembler := r1\<rparr>) st)"
  have step: "dvc_receive_message (dvc_pdu_enc pdu) st = Some (Inr (), ?st)"
    using Cons.prems(1,2) out(1) by (intro dvc_receive_data) auto
  have serves: "dvc_serves ident (ch\<lparr>dch_reassembler := r1\<rparr>) ?st"
    using Cons.prems(1) by (auto simp: dvc_serves_def dvc_deliver_def split: option.split)
  have "feed dvc_receive (dch_reassembler (ch\<lparr>dch_reassembler := r1\<rparr>)) (map dvc_pdu_enc pdus) = (None, ms', r)"
    using out(2) by simp
  from Cons.IH [OF serves _ this] Cons.prems(2) obtain st' where st':
    "dvc_receive_all (map dvc_pdu_enc pdus) ?st = Some (Inr (), st')" "dvc_serves ident (ch\<lparr>dch_reassembler := r\<rparr>) st'"
    "ds_events st' = ds_events ?st @ map (ChannelData ident) ms'" "\<forall>j. j \<noteq> ident \<longrightarrow> dvc_find st' j = dvc_find ?st j"
    by auto
  with step out(3) show ?case
    by (auto simp: dvc_deliver_def simp del: dvc_pdu_enc.simps split: option.splits)
qed

lemma dvc_data_pdus_for:
  assumes "length m \<le> 0xFFFFFFFF"
  shows "list_all (dvc_data_for ident) (dvc_data_pdus ident m)"
proof -
  have "unat (of_nat (length m) :: u32) = length m"
    using assms by (simp add: unsigned_of_nat take_bit_nat_eq_self)
  then show ?thesis by (auto simp: dvc_data_pdus_def dvc_data_for_def list_all_iff)
qed

section \<open>Properties\<close>

lemma dvc_run_inv:
  "dvc_new config = Some st \<Longrightarrow> length (dc_priority_charges config) = 4 \<Longrightarrow> dvc_inv (snd (run dvc_step st ops))"
  by (rule dvc_machine.inv_run_from [OF dvc_new_inv])

definition dvc_initial :: "unit dvc_server" where
  "dvc_initial = \<lparr>ds_config = dvc_default_config, ds_state = DvcIdle, ds_offered = 0, ds_version = None, ds_next_id = 1,
     ds_channels = [], ds_pending = [], ds_output = [], ds_events = [], ds_error = None\<rparr>"

lemma dvc_initial_new: "dvc_new dvc_default_config = Some dvc_initial" "length (dc_priority_charges dvc_default_config) = 4"
  by (simp_all add: dvc_new_def wassert_def dvc_default_config_def dvc_version1_def dvc_version3_def dvc_initial_def
      dvc_default_priority_charges_def word_le_nat_alt)

text \<open>
  C7: Whatever happened before - any sequence of opens, sends, closes and messages - a message of arbitrary
  bytes from the client is handled: the handler returns, with success or with an error, and no assertion
  fails, and what it leaves behind again satisfies the invariant.
\<close>

theorem dvc_receive_robust:
  assumes "dvc_new config = Some st" "length (dc_priority_charges config) = 4"
  shows "\<exists>r st'. dvc_receive_message m (snd (run dvc_step st ops)) = Some (r, st') \<and> dvc_inv st'"
  by (rule dvc_receive_total [OF dvc_run_inv [OF assms]])

theorem dvc_receive_robust_witness:
  "dvc_new dvc_default_config = Some dvc_initial \<and>
   (\<exists>r st'. dvc_receive_message [0x50, 0, 2, 0] (snd (run dvc_step dvc_initial [OpStart])) = Some (r, st') \<and> dvc_inv st')"
  using dvc_receive_robust [OF dvc_initial_new, of "[0x50, 0, 2, 0]" "[OpStart]"] dvc_initial_new(1) by (simp del: run.simps)

text \<open>
  C21: In every state a sequence of calls reaches, channel identifiers are distinct, every channel buffers
  at most its own limit, every queued PDU is within the 1600 octets a drdynvc PDU may have, channels that were
  not announced are exactly the queued ones, and a version was agreed on exactly when the exchange is over:
  at least 1, at most the one offered, which without a decompressor is at most 2.
\<close>

theorem dvc_server_invariant:
  assumes "dvc_new config = Some st0" "length (dc_priority_charges config) = 4"
  shows "(let st = snd (run dvc_step st0 ops) in
    distinct (map fst (ds_channels st)) \<and>
    (\<forall>i ch. dvc_find st i = Some ch \<longrightarrow> length (mr_buffer (dch_reassembler ch)) \<le> mr_max_size (dch_reassembler ch)) \<and>
    (\<forall>p \<in> set (ds_output st). length p \<le> dvc_max_pdu_size) \<and>
    (\<forall>i. i \<in> set (ds_pending st) \<longleftrightarrow> (\<exists>ch. dvc_find st i = Some ch \<and> dch_state ch = ChannelPending)) \<and>
    (case ds_version st of None \<Rightarrow> ds_state st \<noteq> DvcReady
     | Some v \<Rightarrow> ds_state st = DvcReady \<and> dvc_version1 \<le> v \<and> v \<le> ds_offered st \<and>
         (dc_make_decompressor (ds_config st) = None \<longrightarrow> ds_offered st \<le> dvc_version2)))"
proof -
  have inv: "dvc_inv (snd (run dvc_step st0 ops))" by (rule dvc_run_inv [OF assms])
  have "length (mr_buffer (dch_reassembler ch)) \<le> mr_max_size (dch_reassembler ch)"
    if "dvc_find (snd (run dvc_step st0 ops)) i = Some ch" for i ch
    using dvc_find_ok [OF inv that] by (auto simp: channel_ok_def mr_inv_def split: option.splits)
  with inv show ?thesis
    by (auto simp: dvc_inv_def channels_ok_def pending_ok_def version_ok_def output_ok_def Let_def split: option.splits)
qed

theorem dvc_server_invariant_witness:
  "dvc_new dvc_default_config = Some dvc_initial \<and>
   distinct (map fst (ds_channels (snd (run dvc_step dvc_initial [OpOpen [65] 0 None, OpOpen [66] 1 (Some 5)]))))"
  using dvc_server_invariant [OF dvc_initial_new, of "[OpOpen [65] 0 None, OpOpen [66] 1 (Some 5)]"] dvc_initial_new(1)
  by (simp add: Let_def del: run.simps)

text \<open>
  C22: Opening a channel with a valid name and priority always succeeds (while fewer than 2^32 - 1
  channels exist): the search loop for an identifier ends, with an identifier that is not zero and that no
  other channel has, also after the counter has wrapped around; no other channel is touched.
\<close>

theorem dvc_open_fresh:
  assumes "dvc_new config = Some st0" "length (dc_priority_charges config) = 4"
    and "open_args_ok name priority" "length (ds_channels (snd (run dvc_step st0 ops))) < 0xFFFFFFFF"
  shows "(let st = snd (run dvc_step st0 ops) in
    \<exists>ident st'. dvc_open name priority limit st = Some (ident, st') \<and> dvc_inv st' \<and> ident \<noteq> 0 \<and>
      dvc_find st ident = None \<and> dvc_find st' ident \<noteq> None \<and> (\<forall>j. j \<noteq> ident \<longrightarrow> dvc_find st' j = dvc_find st j))"
  unfolding Let_def by (rule dvc_open_inv [OF dvc_run_inv [OF assms(1,2)] assms(3,4)])

theorem dvc_open_fresh_witness:
  "open_args_ok [65] 3 \<and> (\<exists>ident st'. dvc_open [65] 3 None dvc_initial = Some (ident, st') \<and> dvc_inv st' \<and> ident \<noteq> 0 \<and>
     dvc_find st' ident \<noteq> None)"
proof -
  have "open_args_ok [65] 3" by (simp add: open_args_ok_def dvc_max_channel_name_size_def)
  moreover have "length (ds_channels (snd (run dvc_step dvc_initial []))) < 0xFFFFFFFF" by (simp add: dvc_initial_def)
  ultimately show ?thesis
    using dvc_open_fresh [OF dvc_initial_new, of "[65]" 3 "[]" None] by (auto simp: Let_def)
qed

text \<open>
  C6: End to end: messages a peer encodes for an open, idle channel are delivered by the server as one
  event each, in order and unchanged, whatever their lengths up to the channel's limit; the channel stays
  open and idle and no other channel notices.
\<close>

theorem dvc_server_delivers:
  assumes "dvc_serves ident ch st" "mr_idle (dch_reassembler ch)"
    and "\<forall>m \<in> set ms. length m \<le> mr_max_size (dch_reassembler ch) \<and> length m \<le> 0xFFFFFFFF"
  shows "\<exists>pdus st'. map (encode_data ident) ms = map Some pdus \<and>
    dvc_receive_all (concat pdus) st = Some (Inr (), st') \<and> dvc_serves ident ch st' \<and>
    ds_events st' = ds_events st @ map (ChannelData ident) ms \<and> (\<forall>j. j \<noteq> ident \<longrightarrow> dvc_find st' j = dvc_find st j)"
proof -
  let ?pdus = "concat (map (dvc_data_pdus ident) ms)"
  have conc: "concat (map (\<lambda>m. map dvc_pdu_enc (dvc_data_pdus ident m)) ms) = map dvc_pdu_enc ?pdus"
    by (induction ms) (simp_all del: dvc_pdu_enc.simps)
  have "feed dvc_receive (dch_reassembler ch) (map dvc_pdu_enc ?pdus) = (None, ms, dch_reassembler ch)"
    unfolding conc [symmetric] using assms(2,3) by (intro dvc.stream) (auto simp: list_all_iff dvc_fits_def)
  moreover have "list_all (dvc_data_for ident) ?pdus"
    using assms(3) dvc_data_pdus_for by (fastforce simp: list_all_iff)
  ultimately obtain st' where "dvc_receive_all (map dvc_pdu_enc ?pdus) st = Some (Inr (), st')"
    "dvc_serves ident (ch\<lparr>dch_reassembler := dch_reassembler ch\<rparr>) st'"
    "ds_events st' = ds_events st @ map (ChannelData ident) ms" "\<forall>j. j \<noteq> ident \<longrightarrow> dvc_find st' j = dvc_find st j"
    using dvc_receive_stream [OF assms(1)] by blast
  moreover have "map (encode_data ident) ms = map Some (map (\<lambda>m. map dvc_pdu_enc (dvc_data_pdus ident m)) ms)"
    using assms(3) by (simp add: encode_data_enc)
  ultimately show ?thesis unfolding conc [symmetric] by fastforce
qed

definition dvc_demo_channel :: "unit dvc_channel" where
  "dvc_demo_channel = \<lparr>dch_name = [65], dch_priority = 0, dch_state = ChannelOpen, dch_reassembler = mr_new 4000,
     dch_decompressor = None\<rparr>"

definition dvc_demo :: "unit dvc_server" where
  "dvc_demo = dvc_initial\<lparr>ds_state := DvcReady, ds_offered := 2, ds_version := Some 2, ds_next_id := 2,
     ds_channels := [(1, dvc_demo_channel)]\<rparr>"

theorem dvc_server_delivers_witness:
  "dvc_serves 1 dvc_demo_channel dvc_demo \<and>
   (\<exists>pdus st'. map (encode_data 1) [replicate 3000 1, [2]] = map Some pdus \<and>
      dvc_receive_all (concat pdus) dvc_demo = Some (Inr (), st') \<and>
      ds_events st' = [ChannelData 1 (replicate 3000 1), ChannelData 1 [2]])"
proof -
  have s: "dvc_serves 1 dvc_demo_channel dvc_demo"
    by (simp add: dvc_serves_def dvc_demo_def dvc_demo_channel_def dvc_initial_def dvc_find_def)
  have "mr_idle (dch_reassembler dvc_demo_channel)" "mr_max_size (dch_reassembler dvc_demo_channel) = 4000"
    by (simp_all add: dvc_demo_channel_def mr_idle_def mr_new_def)
  with dvc_server_delivers [OF s, of "[replicate 3000 1, [2]]"] obtain pdus st' where
    "map (encode_data 1) [replicate 3000 1, [2]] = map Some pdus" "dvc_receive_all (concat pdus) dvc_demo = Some (Inr (), st')"
    "ds_events st' = ds_events dvc_demo @ map (ChannelData 1) [replicate 3000 1, [2]]"
    by (auto simp del: list.map)
  moreover have "ds_events dvc_demo = []" by (simp add: dvc_demo_def dvc_initial_def)
  ultimately show ?thesis using s by (metis append_Nil list.map)
qed

end
