(* ===== verification/Svc.thy ===== *)
theory Svc
  imports Reader_Writer Machine
begin

text \<open>
  \<open>channels/svc.cpp\<close>: static virtual channels. A channel message is cut into chunks that carry
  the total length and FIRST/LAST flags; the reassembler rebuilds messages from the chunks and
  rejects every sequence that does not add up.
\<close>

section \<open>Model\<close>

definition svc_chunk_length :: nat where "svc_chunk_length = 1600"
definition svc_max_chunk_length :: nat where "svc_max_chunk_length = 16256"
definition svc_header_size :: nat where "svc_header_size = 8"
definition svc_flag_first :: u32 where "svc_flag_first = 0x00000001"
definition svc_flag_last :: u32 where "svc_flag_last = 0x00000002"
definition svc_flag_show_protocol :: u32 where "svc_flag_show_protocol = 0x00000010"
definition svc_flag_packet_compressed :: u32 where "svc_flag_packet_compressed = 0x00200000"

record chunk_header =
  ch_length :: u32
  ch_flags :: u32

definition svc_encode :: "chunk_header \<Rightarrow> writer \<Rightarrow> writer" where
  "svc_encode header w = w_u32le (ch_flags header) (w_u32le (ch_length header) w)"

definition svc_decode_header :: "chunk_header parser" where
  "svc_decode_header = ptry rd_u32le (\<lambda>n. ptry rd_u32le (\<lambda>flags. pret \<lparr>ch_length = n, ch_flags = flags\<rparr>))"

definition negotiated_chunk_length :: "u32 option \<Rightarrow> u32 option \<Rightarrow> nat" where
  "negotiated_chunk_length server_chunk_size client_chunk_size =
     (case (server_chunk_size, client_chunk_size) of
        (Some server, Some _) \<Rightarrow>
          (if unat server < svc_chunk_length then svc_chunk_length
           else if svc_max_chunk_length < unat server then svc_max_chunk_length else unat server)
      | _ \<Rightarrow> svc_chunk_length)"

text \<open>The \<open>do ... while\<close> loop; that \<open>max_chunk\<close> is positive was asserted before.\<close>

function encode_chunks_loop :: "bytes \<Rightarrow> nat \<Rightarrow> u32 \<Rightarrow> nat \<Rightarrow> bytes list" where
  "encode_chunks_loop message max_chunk common_flags offset =
     (let n = min max_chunk (length message - offset);
          flags = common_flags;
          flags = (if offset = 0 then flags OR svc_flag_first else flags);
          flags = (if offset + n = length message then flags OR svc_flag_last else flags);
          chunk = w_bytes (take n (drop offset message))
            (svc_encode \<lparr>ch_length = of_nat (length message), ch_flags = flags\<rparr> [])
      in chunk # (if 0 < max_chunk \<and> offset + n < length message
                  then encode_chunks_loop message max_chunk common_flags (offset + n) else []))"
  by pat_completeness auto
termination
  by (relation "measure (\<lambda>(message, _, _, offset). length message - offset)") auto

declare encode_chunks_loop.simps [simp del]

definition encode_chunks :: "bytes \<Rightarrow> nat \<Rightarrow> bytes list option" where
  "encode_chunks message max_chunk = do {
     wassert (max_chunk > 0);
     wassert (length message \<le> 0xFFFFFFFF);
     let common_flags = (if length message > max_chunk then svc_flag_show_protocol else 0);
     Some (encode_chunks_loop message max_chunk common_flags 0)
   }"

record svc_reassembler =
  sr_max_message_size :: nat
  sr_max_chunk :: nat
  sr_total :: "u32 option"
  sr_buffer :: bytes

definition svc_in_progress :: "svc_reassembler \<Rightarrow> bool" where
  "svc_in_progress st \<longleftrightarrow> sr_total st \<noteq> None"

text \<open>
  The remaining room \<open>*total_ - buffer_.size()\<close> is a difference of unsigned numbers; it does
  not wrap around because the buffer is never longer than the total (\<open>svc_inv\<close> below).
\<close>

definition svc_process :: "svc_reassembler \<Rightarrow> bytes \<Rightarrow> bytes option result \<times> svc_reassembler" where
  "svc_process st pdu = (case svc_decode_header (mk_reader pdu 0) of
     (Inl e, _) \<Rightarrow> (Inl e, st)
   | (Inr header, r) \<Rightarrow>
     let data = rd_rest r;
         is_first = (ch_flags header AND svc_flag_first \<noteq> 0);
         is_last = (ch_flags header AND svc_flag_last \<noteq> 0)
     in
     if ch_flags header AND svc_flag_packet_compressed \<noteq> 0
     then (fail Unsupported ''compressed static virtual channel data'' 4, st)
     else if length data > sr_max_chunk st
     then (fail LimitExceeded ''static virtual channel chunk above the chunk size'' svc_header_size, st)
     else if unat (ch_length header) > sr_max_message_size st
     then (fail LimitExceeded ''static virtual channel message too large'' 0, st)
     else if is_first then
       (if sr_total st \<noteq> None
        then (fail InvalidValue ''first static virtual channel chunk inside a message'' 4, st)
        else if is_last then
          (if length data \<noteq> unat (ch_length header)
           then (fail InvalidLength ''static virtual channel chunk disagrees with its length'' 0, st)
           else (Inr (Some data), st))
        else if length data \<ge> unat (ch_length header)
        then (fail InvalidLength ''first static virtual channel chunk holds the whole message'' 0, st)
        else (Inr None, st\<lparr>sr_total := Some (ch_length header), sr_buffer := data\<rparr>))
     else (case sr_total st of
         None \<Rightarrow> (fail InvalidValue ''static virtual channel chunk without a first chunk'' 4, st)
       | Some tot \<Rightarrow>
         if ch_length header \<noteq> tot
         then (fail InvalidLength ''static virtual channel length changed between chunks'' 0, st)
         else if length data > unat tot - length (sr_buffer st)
         then (fail InvalidLength ''static virtual channel chunks overrun the message'' svc_header_size, st)
         else let st = st\<lparr>sr_buffer := sr_buffer st @ data\<rparr> in
           if \<not> is_last then (Inr None, st)
           else if length (sr_buffer st) \<noteq> unat tot
           then (fail InvalidLength ''last static virtual channel chunk ends early'' svc_header_size, st)
           else (Inr (Some (sr_buffer st)), st\<lparr>sr_total := None, sr_buffer := []\<rparr>)))"

definition svc_add :: "svc_reassembler \<Rightarrow> bytes \<Rightarrow> bytes option result \<times> svc_reassembler" where
  "svc_add st pdu = (case svc_process st pdu of
     (Inl e, st) \<Rightarrow> (Inl e, st\<lparr>sr_total := None, sr_buffer := []\<rparr>)
   | (Inr out, st) \<Rightarrow> (Inr out, st))"

section \<open>The buffer stays within the announced length\<close>

definition svc_inv :: "nat \<Rightarrow> nat \<Rightarrow> svc_reassembler \<Rightarrow> bool" where
  "svc_inv max_message max_chunk st \<longleftrightarrow>
     sr_max_message_size st = max_message \<and> sr_max_chunk st = max_chunk \<and>
     (case sr_total st of
        None \<Rightarrow> sr_buffer st = []
      | Some tot \<Rightarrow> length (sr_buffer st) \<le> unat tot \<and> unat tot \<le> max_message)"

definition svc_new :: "nat \<Rightarrow> nat \<Rightarrow> svc_reassembler" where
  "svc_new max_message max_chunk =
     \<lparr>sr_max_message_size = max_message, sr_max_chunk = max_chunk, sr_total = None, sr_buffer = []\<rparr>"

lemma svc_process_step:
  assumes "svc_inv mm mc st" "svc_process st pdu = (Inr out, st')"
  shows "svc_inv mm mc st'"
  using assms unfolding svc_process_def svc_inv_def
  by (auto simp: Let_def split: prod.splits sum.splits option.splits if_splits)

lemma svc_process_config:
  "svc_process st pdu = (out, st') \<Longrightarrow> sr_max_message_size st' = sr_max_message_size st \<and> sr_max_chunk st' = sr_max_chunk st"
  unfolding svc_process_def
  by (auto simp: Let_def split: prod.splits sum.splits option.splits if_splits)

lemma svc_add_inv: "svc_inv mm mc st \<Longrightarrow> svc_inv mm mc (snd (svc_add st pdu))"
  unfolding svc_add_def using svc_process_config [of st pdu]
  by (auto simp: svc_process_step split: prod.splits sum.splits) (auto simp: svc_inv_def)

interpretation svc_machine: machine svc_add "svc_inv mm mc" "svc_new mm mc" for mm mc
  by unfold_locales (simp add: svc_inv_def svc_new_def, rule svc_add_inv)

section \<open>Chunking and reassembly\<close>

definition svc_chunk :: "u32 \<Rightarrow> u32 \<Rightarrow> bytes \<Rightarrow> bytes" where
  "svc_chunk tot flags data = le_bytes 4 tot @ le_bytes 4 flags @ data"

fun svc_tail :: "u32 \<Rightarrow> bytes list \<Rightarrow> bytes list" where
  "svc_tail tot [] = []"
| "svc_tail tot (c # cs) = svc_chunk tot (if cs = [] then 0x12 else 0x10) c # svc_tail tot cs"

definition svc_chunks :: "nat \<Rightarrow> bytes \<Rightarrow> bytes list" where
  "svc_chunks n m =
     (if length m \<le> n then [svc_chunk (of_nat (length m)) 3 m]
      else svc_chunk (of_nat (length m)) 0x11 (take n m) # svc_tail (of_nat (length m)) (chunks n (drop n m)))"

lemmas svc_flags = svc_flag_first_def svc_flag_last_def svc_flag_show_protocol_def svc_flag_packet_compressed_def

lemma encode_chunks_loop_tail:
  assumes "0 < n" "0 < offset" "offset < length m"
  shows "encode_chunks_loop m n svc_flag_show_protocol offset = svc_tail (of_nat (length m)) (chunks n (drop offset m))"
  using assms(2,3)
proof (induction "length m - offset" arbitrary: offset rule: less_induct)
  case less
  show ?case
  proof (cases "offset + n < length m")
    case True
    then have "encode_chunks_loop m n svc_flag_show_protocol (offset + n) =
        svc_tail (of_nat (length m)) (chunks n (drop (offset + n) m))"
      using less.prems assms(1) by (intro less.hyps) auto
    with True less.prems assms(1) show ?thesis
      by (simp add: encode_chunks_loop.simps [of m n _ offset] Let_def chunks_Cons svc_encode_def wr_simps
          svc_flags svc_chunk_def min_absorb1 add.commute)
  next
    case False
    then have "min n (length m - offset) = length m - offset" by simp
    with False less.prems assms(1) show ?thesis
      by (simp add: encode_chunks_loop.simps [of m n _ offset] Let_def chunks_Cons svc_encode_def wr_simps
          svc_flags svc_chunk_def)
  qed
qed

lemma encode_chunks_enc:
  assumes "0 < n" "length m \<le> 0xFFFFFFFF"
  shows "encode_chunks m n = Some (svc_chunks n m)"
proof (cases "length m \<le> n")
  case True
  with assms show ?thesis
    by (simp add: encode_chunks_def encode_chunks_loop.simps [of m n _ 0] Let_def svc_chunks_def svc_encode_def
        wr_simps svc_flags svc_chunk_def wassert_def min_def)
next
  case False
  then have "encode_chunks_loop m n svc_flag_show_protocol 0 =
      svc_chunk (of_nat (length m)) 0x11 (take n m) # encode_chunks_loop m n svc_flag_show_protocol n"
    using assms by (simp add: encode_chunks_loop.simps [of m n _ 0] Let_def svc_encode_def wr_simps svc_flags
        svc_chunk_def min_def)
  with False assms show ?thesis
    by (simp add: encode_chunks_def svc_chunks_def wassert_def encode_chunks_loop_tail)
qed

lemma svc_decode_chunk:
  "svc_decode_header (mk_reader (svc_chunk tot flags data) 0) =
     (Inr \<lparr>ch_length = tot, ch_flags = flags\<rparr>, rd_advance 8 (mk_reader (svc_chunk tot flags data) 0))"
  by (simp add: svc_decode_header_def svc_chunk_def rd_simps)

lemma svc_chunk_simps [simp]: "drop 8 (svc_chunk tot flags data) = data" "length (svc_chunk tot flags data) = 8 + length data"
  by (simp_all add: svc_chunk_def)

lemma svc_add_next:
  "sr_total st = Some tot \<Longrightarrow> length (sr_buffer st) + length c \<le> unat tot \<Longrightarrow> unat tot \<le> sr_max_message_size st \<Longrightarrow>
   length c \<le> sr_max_chunk st \<Longrightarrow> svc_add st (svc_chunk tot 0x10 c) = (Inr None, st\<lparr>sr_buffer := sr_buffer st @ c\<rparr>)"
  by (simp add: svc_add_def svc_process_def svc_decode_chunk svc_flags Let_def)

lemma svc_add_last:
  "sr_total st = Some tot \<Longrightarrow> length (sr_buffer st) + length c = unat tot \<Longrightarrow> unat tot \<le> sr_max_message_size st \<Longrightarrow>
   length c \<le> sr_max_chunk st \<Longrightarrow>
   svc_add st (svc_chunk tot 0x12 c) = (Inr (Some (sr_buffer st @ c)), st\<lparr>sr_total := None, sr_buffer := []\<rparr>)"
  by (simp add: svc_add_def svc_process_def svc_decode_chunk svc_flags Let_def)

lemma feed_svc_tail:
  assumes "cs \<noteq> []" "sr_total st = Some tot" "length (sr_buffer st) + length (concat cs) = unat tot"
    "unat tot \<le> sr_max_message_size st" "\<forall>c\<in>set cs. length c \<le> sr_max_chunk st"
  shows "feed svc_add st (svc_tail tot cs) =
    (None, [sr_buffer st @ concat cs], st\<lparr>sr_total := None, sr_buffer := []\<rparr>)"
  using assms
proof (induction cs arbitrary: st)
  case (Cons c cs)
  then show ?case
    by (cases "cs = []") (simp_all add: svc_add_next svc_add_last)
qed simp

definition svc_idle :: "svc_reassembler \<Rightarrow> bool" where
  "svc_idle st \<longleftrightarrow> sr_total st = None \<and> sr_buffer st = []"

definition svc_fits :: "nat \<Rightarrow> svc_reassembler \<Rightarrow> bytes \<Rightarrow> bool" where
  "svc_fits n st m \<longleftrightarrow> 0 < n \<and> n \<le> sr_max_chunk st \<and> length m \<le> sr_max_message_size st \<and> length m \<le> 0xFFFFFFFF"

interpretation svc: reassembler svc_add "svc_chunks n" svc_idle "svc_fits n" for n
proof
  fix st m assume idle: "svc_idle st" and ok: "svc_fits n st m"
  have len: "unat (of_nat (length m) :: u32) = length m"
    using ok by (simp add: svc_fits_def unsigned_of_nat take_bit_nat_eq_self)
  show "feed svc_add st (svc_chunks n m) = (None, [m], st)"
  proof (cases "length m \<le> n")
    case True
    with idle ok len show ?thesis
      by (simp add: svc_chunks_def svc_add_def svc_process_def svc_decode_chunk svc_flags Let_def svc_idle_def
          svc_fits_def)
  next
    case False
    have "\<forall>c\<in>set (chunks n (drop n m)). length c \<le> sr_max_chunk st"
      using ok chunks_lengths unfolding svc_fits_def by fastforce
    with idle ok False len feed_svc_tail [of "chunks n (drop n m)"
        "st\<lparr>sr_total := Some (of_nat (length m)), sr_buffer := take n m\<rparr>" "of_nat (length m)"]
    show ?thesis
      by (simp add: svc_chunks_def svc_add_def svc_process_def svc_decode_chunk svc_flags Let_def svc_idle_def
          svc_fits_def)
  qed
qed

lemma svc_chunk_size: "p \<in> set (svc_chunks n m) \<Longrightarrow> 0 < n \<Longrightarrow> length p \<le> svc_header_size + n"
proof -
  have "p \<in> set (svc_tail tot cs) \<Longrightarrow> \<forall>c\<in>set cs. length c \<le> n \<Longrightarrow> length p \<le> svc_header_size + n" for tot cs
    by (induction cs) (auto simp: svc_chunk_def svc_header_size_def)
  moreover have "\<forall>c\<in>set (chunks n xs). length c \<le> n" for xs :: bytes
    using chunks_lengths by blast
  ultimately show "p \<in> set (svc_chunks n m) \<Longrightarrow> 0 < n \<Longrightarrow> length p \<le> svc_header_size + n"
    by (auto simp: svc_chunks_def svc_header_size_def svc_chunk_def split: if_splits)
qed

lemma svc_error_resets: "svc_add st pdu = (Inl e, st') \<Longrightarrow> svc_idle st'"
  by (auto simp: svc_add_def svc_idle_def split: prod.splits sum.splits)

section \<open>Properties\<close>

text \<open>
  C30: A sequence of messages cut into channel PDUs of any chunk size comes out of the receiving side whole
  and in order, for every reassembler that accepts that chunk size and those message lengths; no channel
  PDU is longer than the header and one chunk.
\<close>

theorem svc_messages_roundtrip:
  assumes "svc_idle st" "0 < n" "n \<le> sr_max_chunk st"
    and "\<forall>m \<in> set ms. length m \<le> sr_max_message_size st \<and> length m \<le> 0xFFFFFFFF"
  shows "\<exists>pdus. map (\<lambda>m. encode_chunks m n) ms = map Some pdus \<and>
    (\<forall>p \<in> set (concat pdus). length p \<le> svc_header_size + n) \<and> feed svc_add st (concat pdus) = (None, ms, st)"
proof -
  have "map (\<lambda>m. encode_chunks m n) ms = map Some (map (svc_chunks n) ms)"
    using assms by (simp add: encode_chunks_enc)
  moreover have "\<forall>p \<in> set (concat (map (svc_chunks n) ms)). length p \<le> svc_header_size + n"
    using svc_chunk_size assms(2) by auto
  moreover have "feed svc_add st (concat (map (svc_chunks n) ms)) = (None, ms, st)"
    using assms by (intro svc.stream) (auto simp: list_all_iff svc_fits_def)
  ultimately show ?thesis by blast
qed

theorem svc_messages_roundtrip_witness:
  "svc_idle (svc_new 100 1600) \<and> (\<exists>pdus. map (\<lambda>m. encode_chunks m 2) [[1, 2, 3, 4, 5], [], [6]] = map Some pdus \<and>
     feed svc_add (svc_new 100 1600) (concat pdus) = (None, [[1, 2, 3, 4, 5], [], [6]], svc_new 100 1600))"
proof -
  have "svc_idle (svc_new 100 1600)" by (simp add: svc_idle_def svc_new_def)
  with svc_messages_roundtrip [of "svc_new 100 1600" 2 "[[1, 2, 3, 4, 5], [], [6]]"] show ?thesis
    by (auto simp: svc_new_def simp del: list.map)
qed

text \<open>
  Whatever a client sends, the reassembler of a static channel buffers at most the length it announced,
  which is within the configured limit; after an error it is empty again.
\<close>

theorem svc_reassembly_bounded:
  "length (sr_buffer (snd (run svc_add (svc_new mm mc) pdus))) \<le> mm \<and>
   (case svc_add (snd (run svc_add (svc_new mm mc) pdus)) pdu of (Inl e, st) \<Rightarrow> sr_total st = None \<and> sr_buffer st = []
    | (Inr out, st) \<Rightarrow> length (sr_buffer st) \<le> mm)"
proof -
  let ?st = "snd (run svc_add (svc_new mm mc) pdus)"
  have inv: "svc_inv mm mc ?st" by (rule svc_machine.inv_run)
  have bound: "length (sr_buffer st) \<le> mm" if "svc_inv mm mc st" for st
    using that by (auto simp: svc_inv_def split: option.splits)
  obtain r st' where r: "svc_add ?st pdu = (r, st')" by (cases "svc_add ?st pdu")
  then have "svc_inv mm mc st'" using svc_add_inv [OF inv, of pdu] by simp
  with inv bound svc_error_resets [of ?st pdu] r show ?thesis
    by (auto simp: svc_idle_def split: sum.split)
qed

end
