(* ===== verification/Frame_Scheduler.thy ===== *)
theory Frame_Scheduler
  imports Machine "HOL-Library.Signed_Division"
begin

text \<open>
  \<open>server/frame_scheduler.cpp\<close>: when the next frame may be sent. Times and durations are counts
  of nanoseconds of the steady clock, as integers: 64-bit counts do not overflow within the life of
  a machine. Division truncates towards zero, as C++ durations do.
\<close>

section \<open>Model\<close>

record scheduler_config =
  fc_max_fps :: nat
  fc_max_frames_in_flight :: nat
  fc_ack_timeout :: int
  fc_ack_timeout_rtt_factor :: nat
  fc_max_ack_timeout :: int
  fc_acknowledgements :: bool

record in_flight =
  if_frame_id :: u32
  if_sent :: int

record frame_scheduler =
  fs_config :: scheduler_config
  fs_interval :: int
  fs_pending :: bool
  fs_suspended :: bool
  fs_last_sent :: "int option"
  fs_in_flight :: "in_flight list"
  fs_round_trip :: "int option"

definition frame_interval :: "nat \<Rightarrow> int" where
  "frame_interval fps = 1000 * int (1000000 div max fps 1)"

definition fs_new :: "scheduler_config \<Rightarrow> frame_scheduler" where
  "fs_new config =
     \<lparr>fs_config = config\<lparr>fc_max_frames_in_flight := max (fc_max_frames_in_flight config) 1\<rparr>,
      fs_interval = frame_interval (fc_max_fps config), fs_pending = False, fs_suspended = False,
      fs_last_sent = None, fs_in_flight = [], fs_round_trip = None\<rparr>"

definition fs_damage :: "frame_scheduler \<Rightarrow> frame_scheduler" where
  "fs_damage st = st\<lparr>fs_pending := True\<rparr>"

definition fs_gated_by_acks :: "frame_scheduler \<Rightarrow> bool" where
  "fs_gated_by_acks st \<longleftrightarrow> fc_acknowledgements (fs_config st) \<and> \<not> fs_suspended st"

definition fs_set_max_fps :: "nat \<Rightarrow> frame_scheduler \<Rightarrow> frame_scheduler" where
  "fs_set_max_fps fps st =
     st\<lparr>fs_config := (fs_config st)\<lparr>fc_max_fps := fps\<rparr>, fs_interval := frame_interval fps\<rparr>"

definition fs_frame_sent :: "u32 \<Rightarrow> int \<Rightarrow> frame_scheduler \<Rightarrow> frame_scheduler" where
  "fs_frame_sent ident now st =
     (let st = st\<lparr>fs_pending := False, fs_last_sent := Some now\<rparr>
      in if fs_gated_by_acks st
         then st\<lparr>fs_in_flight := fs_in_flight st @ [\<lparr>if_frame_id = ident, if_sent = now\<rparr>]\<rparr> else st)"

definition fs_frame_acknowledged :: "u32 \<Rightarrow> int \<Rightarrow> frame_scheduler \<Rightarrow> frame_scheduler" where
  "fs_frame_acknowledged ident now st =
     (case dropWhile (\<lambda>f. if_frame_id f \<noteq> ident) (fs_in_flight st) of
        [] \<Rightarrow> st
      | found # later \<Rightarrow>
          let sample = now - if_sent found;
              rtt = (case fs_round_trip st of Some old \<Rightarrow> (old * 7 + sample) sdiv 8 | None \<Rightarrow> sample)
          in st\<lparr>fs_round_trip := Some rtt, fs_in_flight := later\<rparr>)"

definition fs_set_acknowledgements_suspended :: "bool \<Rightarrow> frame_scheduler \<Rightarrow> frame_scheduler" where
  "fs_set_acknowledgements_suspended suspended st =
     (let st = st\<lparr>fs_suspended := suspended\<rparr> in if suspended then st\<lparr>fs_in_flight := []\<rparr> else st)"

definition fs_ack_timeout :: "frame_scheduler \<Rightarrow> int" where
  "fs_ack_timeout st = (case fs_round_trip st of
     None \<Rightarrow> fc_ack_timeout (fs_config st)
   | Some rtt \<Rightarrow>
       let scaled = rtt * int (fc_ack_timeout_rtt_factor (fs_config st));
           lo = min (fc_ack_timeout (fs_config st)) (fc_max_ack_timeout (fs_config st))
       in if scaled < lo then lo
          else if fc_max_ack_timeout (fs_config st) < scaled then fc_max_ack_timeout (fs_config st) else scaled)"

definition fs_expire :: "int \<Rightarrow> frame_scheduler \<Rightarrow> frame_scheduler" where
  "fs_expire now st =
     (let timeout = fs_ack_timeout st
      in st\<lparr>fs_in_flight := dropWhile (\<lambda>f. now - if_sent f \<ge> timeout) (fs_in_flight st)\<rparr>)"

definition fs_due :: "int \<Rightarrow> frame_scheduler \<Rightarrow> bool \<times> frame_scheduler" where
  "fs_due now st =
     (if \<not> fs_pending st then (False, st)
      else let st = fs_expire now st in
        if fs_gated_by_acks st \<and> length (fs_in_flight st) \<ge> fc_max_frames_in_flight (fs_config st) then (False, st)
        else (case fs_last_sent st of None \<Rightarrow> True | Some t \<Rightarrow> now - t \<ge> fs_interval st, st))"

definition fs_wait :: "int \<Rightarrow> frame_scheduler \<Rightarrow> int option \<times> frame_scheduler" where
  "fs_wait now st =
     (if \<not> fs_pending st then (None, st)
      else let st = fs_expire now st;
               wait = (case fs_last_sent st of None \<Rightarrow> 0 | Some t \<Rightarrow> max 0 (t + fs_interval st - now));
               wait = (if fs_gated_by_acks st \<and> length (fs_in_flight st) \<ge> fc_max_frames_in_flight (fs_config st)
                       then max wait (if_sent (hd (fs_in_flight st)) + fs_ack_timeout st - now) else wait)
           in (Some wait, st))"

section \<open>The window\<close>

text \<open>
  A caller that sends a frame only when one is due never has more than the configured number of
  frames in flight, and the front of the queue is always there when the wait is computed from it.
\<close>

datatype fs_op = FsDamage | FsTrySend u32 int | FsAcknowledged u32 int | FsSuspend bool | FsSetMaxFps nat
  | FsDue int | FsWait int

fun fs_step :: "frame_scheduler \<Rightarrow> fs_op \<Rightarrow> bool \<times> frame_scheduler" where
  "fs_step st FsDamage = (False, fs_damage st)"
| "fs_step st (FsTrySend ident now) =
     (let (due, st) = fs_due now st in if due then (True, fs_frame_sent ident now st) else (False, st))"
| "fs_step st (FsAcknowledged ident now) = (False, fs_frame_acknowledged ident now st)"
| "fs_step st (FsSuspend b) = (False, fs_set_acknowledgements_suspended b st)"
| "fs_step st (FsSetMaxFps fps) = (False, fs_set_max_fps fps st)"
| "fs_step st (FsDue now) = fs_due now st"
| "fs_step st (FsWait now) = (False, snd (fs_wait now st))"

definition fs_inv :: "nat \<Rightarrow> frame_scheduler \<Rightarrow> bool" where
  "fs_inv window st \<longleftrightarrow> 1 \<le> window \<and> fc_max_frames_in_flight (fs_config st) = window \<and>
     length (fs_in_flight st) \<le> window"

lemma fs_expire_fields [simp]:
  "fs_config (fs_expire now st) = fs_config st" "fs_interval (fs_expire now st) = fs_interval st"
  "fs_pending (fs_expire now st) = fs_pending st" "fs_suspended (fs_expire now st) = fs_suspended st"
  "fs_last_sent (fs_expire now st) = fs_last_sent st" "fs_round_trip (fs_expire now st) = fs_round_trip st"
  by (simp_all add: fs_expire_def Let_def)

lemma fs_ack_timeout_expire [simp]: "fs_ack_timeout (fs_expire now st) = fs_ack_timeout st"
  by (simp only: fs_ack_timeout_def fs_expire_fields)

lemma fs_gated_expire [simp]: "fs_gated_by_acks (fs_expire now st) = fs_gated_by_acks st"
  by (simp add: fs_gated_by_acks_def)

lemma fs_in_flight_expire:
  "fs_in_flight (fs_expire now st) = dropWhile (\<lambda>f. now - if_sent f \<ge> fs_ack_timeout st) (fs_in_flight st)"
  by (simp add: fs_expire_def Let_def)

lemma fs_expire_inv: "fs_inv w st \<Longrightarrow> fs_inv w (fs_expire now st)"
  using length_dropWhile_le [of "\<lambda>f. now - if_sent f \<ge> fs_ack_timeout st" "fs_in_flight st"]
  by (simp add: fs_inv_def fs_in_flight_expire)

lemma fs_due_inv: "fs_inv w st \<Longrightarrow> fs_inv w (snd (fs_due now st))"
  by (simp add: fs_due_def Let_def fs_expire_inv)

lemma fs_due_room:
  "fs_due now st = (True, st') \<Longrightarrow> fs_gated_by_acks st' \<Longrightarrow> length (fs_in_flight st') < fc_max_frames_in_flight (fs_config st')"
  by (auto simp: fs_due_def Let_def split: if_splits)

lemma fs_wait_inv: "fs_inv w st \<Longrightarrow> fs_inv w (snd (fs_wait now st))"
  by (simp add: fs_wait_def Let_def fs_expire_inv)

lemma fs_acknowledged_inv: "fs_inv w st \<Longrightarrow> fs_inv w (fs_frame_acknowledged ident now st)"
  using length_dropWhile_le [of "\<lambda>f. if_frame_id f \<noteq> ident" "fs_in_flight st"]
  by (auto simp: fs_frame_acknowledged_def fs_inv_def Let_def split: list.splits)

lemma fs_step_inv: "fs_inv w st \<Longrightarrow> fs_inv w (snd (fs_step st op))"
proof (cases op)
  case (FsTrySend ident now)
  assume inv: "fs_inv w st"
  obtain due st' where d: "fs_due now st = (due, st')" by (cases "fs_due now st")
  have "fs_inv w st'" using fs_due_inv [OF inv, of now] d by simp
  moreover have "fs_gated_by_acks st' \<Longrightarrow> due \<Longrightarrow> length (fs_in_flight st') < fc_max_frames_in_flight (fs_config st')"
    using fs_due_room [of now st st'] d by simp
  ultimately show ?thesis
    using FsTrySend d by (auto simp: fs_frame_sent_def Let_def fs_inv_def fs_gated_by_acks_def)
qed (auto simp: fs_damage_def fs_inv_def fs_set_acknowledgements_suspended_def fs_set_max_fps_def Let_def
    fs_due_inv [unfolded fs_inv_def] fs_wait_inv [unfolded fs_inv_def] fs_acknowledged_inv [unfolded fs_inv_def])

interpretation fs_machine: machine fs_step "fs_inv (max (fc_max_frames_in_flight config) 1)" "fs_new config" for config
  by unfold_locales (simp add: fs_inv_def fs_new_def, rule fs_step_inv)

section \<open>Waiting and being due agree\<close>

lemma fs_ack_timeout_bounds:
  assumes "fs_round_trip st = Some rtt"
  shows "min (fc_ack_timeout (fs_config st)) (fc_max_ack_timeout (fs_config st)) \<le> fs_ack_timeout st"
    "fs_ack_timeout st \<le> fc_max_ack_timeout (fs_config st)"
  using assms by (auto simp: fs_ack_timeout_def Let_def)

text \<open>The window is open at a time when it holds fewer frames than its size by then.\<close>

lemma dropWhile_full:
  assumes "length xs \<le> w" "1 \<le> w"
  shows "w \<le> length (dropWhile P xs) \<longleftrightarrow> length xs = w \<and> \<not> P (hd xs)"
proof (cases xs)
  case Nil
  with assms(2) show ?thesis by simp
next
  case (Cons x ys)
  with assms show ?thesis
    using length_dropWhile_le [of P ys] by auto
qed

lemma fs_wait_exact:
  assumes "fs_inv w st" "fs_wait now st = (Some d, st')" "0 \<le> t"
  shows "fst (fs_due (now + t) st) \<longleftrightarrow> d \<le> t"
proof -
  let ?P = "\<lambda>u f. u - if_sent f \<ge> fs_ack_timeout st"
  have p: "fs_pending st" using assms(2) by (auto simp: fs_wait_def split: if_splits)
  have len: "length (fs_in_flight st) \<le> w" "1 \<le> w" "fc_max_frames_in_flight (fs_config st) = w"
    using assms(1) by (auto simp: fs_inv_def)
  have full: "w \<le> length (dropWhile (?P u) (fs_in_flight st)) \<longleftrightarrow>
      length (fs_in_flight st) = w \<and> \<not> ?P u (hd (fs_in_flight st))" for u
    using dropWhile_full [OF len(1,2)] .
  have kept: "dropWhile (?P now) (fs_in_flight st) = fs_in_flight st" if "\<not> ?P now (hd (fs_in_flight st))"
    using that by (cases "fs_in_flight st") auto
  show ?thesis
    using assms(2,3) p len(3)
    by (auto simp: fs_due_def fs_wait_def Let_def fs_in_flight_expire full kept split: option.splits if_splits)
qed

section \<open>Properties\<close>

text \<open>
  C37: A caller that sends a frame only when the scheduler says one is due never has more frames in flight
  than the window (at least one), whatever damage, acknowledgements, suspensions and rate changes come
  in between, in whatever order.
\<close>

theorem scheduler_window:
  "length (fs_in_flight (snd (run fs_step (fs_new config) ops))) \<le> max (fc_max_frames_in_flight config) 1"
  using fs_machine.inv_run [of config ops] by (simp add: fs_inv_def)

text \<open>
  C38: The wait the scheduler reports is exact: as long as nothing else happens, a frame is due at every
  time from that wait on and at none before it.
\<close>

theorem scheduler_wait_exact:
  assumes "fs_wait now (snd (run fs_step (fs_new config) ops)) = (Some d, st')" "0 \<le> t"
  shows "fst (fs_due (now + t) (snd (run fs_step (fs_new config) ops))) \<longleftrightarrow> d \<le> t"
  by (rule fs_wait_exact [OF fs_machine.inv_run assms])

definition fs_demo_config :: scheduler_config where
  "fs_demo_config = \<lparr>fc_max_fps = 10, fc_max_frames_in_flight = 1, fc_ack_timeout = 200000000, fc_ack_timeout_rtt_factor = 2,
     fc_max_ack_timeout = 500000000, fc_acknowledgements = True\<rparr>"

definition fs_demo_ops :: "fs_op list" where
  "fs_demo_ops = [FsDamage, FsTrySend 1 0, FsDamage]"

theorem scheduler_wait_exact_witness:
  "fst (fs_wait 3 (snd (run fs_step (fs_new fs_demo_config) fs_demo_ops))) = Some 199999997 \<and>
   \<not> fst (fs_due (3 + 199999996) (snd (run fs_step (fs_new fs_demo_config) fs_demo_ops))) \<and>
   fst (fs_due (3 + 199999997) (snd (run fs_step (fs_new fs_demo_config) fs_demo_ops)))"
proof -
  let ?st = "snd (run fs_step (fs_new fs_demo_config) fs_demo_ops)"
  have "fst (fs_wait 3 ?st) = Some 199999997"
    by (simp add: fs_demo_ops_def fs_demo_config_def fs_new_def frame_interval_def fs_damage_def fs_due_def fs_expire_def
        fs_gated_by_acks_def fs_frame_sent_def fs_wait_def fs_ack_timeout_def Let_def)
  then obtain st' where w: "fs_wait 3 ?st = (Some 199999997, st')" by (metis prod.collapse)
  then show ?thesis
    using scheduler_wait_exact [OF w, of 199999996] scheduler_wait_exact [OF w, of 199999997] by simp
qed

end
