(* ===== verification/Actions.thy ===== *)
theory Actions
  imports Reader_Writer
begin

text \<open>
  What the codecs share: actions on a state that may fail with an error or abort, and accesses to arrays and
  spans, which abort outside their bounds.
\<close>

text \<open>An operation that may fail with an error, or with an assertion, on some state.\<close>

type_synonym ('s, 'a) action = "'s \<Rightarrow> ('a result \<times> 's) option"

definition atry :: "('s, 'a) action \<Rightarrow> ('a \<Rightarrow> ('s, 'b) action) \<Rightarrow> ('s, 'b) action" where
  "atry p f s = (case p s of None \<Rightarrow> None | Some (Inl e, s) \<Rightarrow> Some (Inl e, s) | Some (Inr x, s) \<Rightarrow> f x s)"

definition aret :: "'a \<Rightarrow> ('s, 'a) action" where
  "aret x s = Some (Inr x, s)"

definition afail :: "errc \<Rightarrow> string \<Rightarrow> nat \<Rightarrow> ('s, 'a) action" where
  "afail c what off s = Some (fail c what off, s)"

lemma atry_simps:
  "p s = Some (Inr x, s') \<Longrightarrow> atry p f s = f x s'" "p s = Some (Inl e, s') \<Longrightarrow> atry p f s = Some (Inl e, s')"
  by (simp_all add: atry_def)

text \<open>An action after which some measure of the state is not above what it was; loops end on such measures.\<close>

definition shrinks :: "('s \<Rightarrow> nat) \<Rightarrow> ('s, 'a) action \<Rightarrow> bool" where
  "shrinks m p \<longleftrightarrow> (\<forall>s x s'. p s = Some (x, s') \<longrightarrow> m s' \<le> m s)"

lemma shrinks_try: "shrinks m p \<Longrightarrow> (\<And>x. shrinks m (f x)) \<Longrightarrow> shrinks m (atry p f)"
  unfolding shrinks_def atry_def by (fastforce split: option.splits sum.splits prod.splits intro: order_trans)

lemma shrinks_ret: "shrinks m (aret x)" and shrinks_fail: "shrinks m (afail c what off)"
  by (simp_all add: shrinks_def aret_def afail_def)

lemma shrinks_if: "shrinks m p \<Longrightarrow> shrinks m q \<Longrightarrow> shrinks m (\<lambda>s. (if c s then p else q) s)"
  by (simp add: shrinks_def)

section \<open>Arrays\<close>

definition at_index :: "'a list \<Rightarrow> nat \<Rightarrow> 'a option" where
  "at_index xs i = (if i < length xs then Some (xs ! i) else None)"

definition subspan :: "'a list \<Rightarrow> nat \<Rightarrow> nat \<Rightarrow> 'a list option" where
  "subspan xs k n = (if k + n \<le> length xs then Some (take n (drop k xs)) else None)"

definition put_index :: "'a list \<Rightarrow> nat \<Rightarrow> 'a \<Rightarrow> 'a list option" where
  "put_index xs i v = (if i < length xs then Some (xs[i := v]) else None)"

definition copy_into :: "'a list \<Rightarrow> nat \<Rightarrow> 'a list \<Rightarrow> 'a list option" where
  "copy_into xs k ys = (if k + length ys \<le> length xs then Some (take k xs @ ys @ drop (k + length ys) xs) else None)"

end
