(* ===== verification/Bit_Stream.thy ===== *)
theory Bit_Stream
  imports Actions
begin

text \<open>
  The bit streams of \<open>codec/zgfx.cpp\<close>, most significant bit first: the writer with its
  accumulator and the reader with its look-ahead. Both are related to plain lists of bits, in terms
  of which the coding is specified and proved.
\<close>

section \<open>Lists of bits\<close>

definition bits :: "nat \<Rightarrow> 'a::len word \<Rightarrow> bool list" where
  "bits n v = map (bit v) (rev [0..<n])"

definition stream_bits :: "bytes \<Rightarrow> bool list" where
  "stream_bits bs = concat (map (bits 8) bs)"

lemma length_bits [simp]: "length (bits n v) = n"
  by (simp add: bits_def)

lemma bits_0 [simp]: "bits 0 v = []"
  by (simp add: bits_def)

lemma bits_Suc: "bits (Suc n) v = bit v n # bits n v"
  by (simp add: bits_def)

lemma nth_bits [simp]: "i < n \<Longrightarrow> bits n v ! i = bit v (n - 1 - i)"
  by (simp add: bits_def rev_nth)

lemma stream_bits_simps [simp]:
  "stream_bits [] = []" "stream_bits (b # bs) = bits 8 b @ stream_bits bs"
  "stream_bits (xs @ ys) = stream_bits xs @ stream_bits ys"
  by (simp_all add: stream_bits_def)

lemma length_stream_bits [simp]: "length (stream_bits bs) = 8 * length bs"
  by (induction bs) simp_all

lemma drop_stream_bits: "drop (8 * n) (stream_bits bs) = stream_bits (drop n bs)"
proof (induction bs arbitrary: n)
  case (Cons b bs)
  then show ?case by (cases n) simp_all
qed simp

lemma take_stream_bits: "take (8 * n) (stream_bits bs) = stream_bits (take n bs)"
proof (induction bs arbitrary: n)
  case (Cons b bs)
  then show ?case by (cases n) simp_all
qed simp

lemma bits_eq_iff: "bits n v = bits n w \<longleftrightarrow> take_bit n v = take_bit n w" for v w :: "'a::len word"
proof
  assume eq: "bits n v = bits n w"
  have "bit v k = bit w k" if "k < n" for k
    using that arg_cong [OF eq, where f = "\<lambda>l. l ! (n - 1 - k)"] by simp
  then show "take_bit n v = take_bit n w" by (auto intro!: bit_eqI simp: bit_simps)
next
  assume eq: "take_bit n v = take_bit n w"
  have "bit v k = bit w k" if "k < n" for k
    using that arg_cong [OF eq, where f = "\<lambda>x. bit x k"] by (simp add: bit_take_bit_iff)
  then show "bits n v = bits n w" by (simp add: bits_def)
qed

lemma bits_ucast: "n \<le> LENGTH('b) \<Longrightarrow> bits n (ucast (v :: 'a::len word) :: 'b::len word) = bits n v"
  by (auto simp: bits_def bit_simps dest: bit_imp_le_length)

lemma bits_split: "bits (m + n) v = bits m (drop_bit n v) @ bits n v" for v :: "'a::len word"
proof (rule nth_equalityI)
  fix i assume "i < length (bits (m + n) v)"
  then show "bits (m + n) v ! i = (bits m (drop_bit n v) @ bits n v) ! i"
    by (auto simp: nth_append bit_simps intro!: arg_cong [where f = "bit v"])
qed simp

lemma bits_push_or:
  fixes a :: "'a::len word" and v :: "'b::len word"
  assumes "m + n \<le> LENGTH('a)" "take_bit n v = v"
  shows "bits (m + n) (push_bit n a OR ucast v) = bits m a @ bits n v"
proof -
  have high: "\<not> bit v k" if "n \<le> k" for k
    using that arg_cong [OF assms(2), where f = "\<lambda>x. bit x k"] by (auto simp: bit_take_bit_iff)
  have "bits m (drop_bit n (push_bit n a OR ucast v)) = bits m a"
    using assms(1) high by (auto simp: bits_def bit_simps)
  moreover have "bits n (push_bit n a OR ucast v) = bits n v"
    using assms(1) by (auto simp: bits_def bit_simps dest: bit_imp_le_length)
  ultimately show ?thesis by (simp add: bits_split)
qed

section \<open>Writing\<close>

record bit_writer =
  bw_out :: bytes
  bw_acc :: u64
  bw_pending :: nat

definition bw_new :: bit_writer where
  "bw_new = \<lparr>bw_out = [], bw_acc = 0, bw_pending = 0\<rparr>"

function bw_flush :: "bit_writer \<Rightarrow> bit_writer" where
  "bw_flush bw = (if 8 \<le> bw_pending bw
     then bw_flush (bw\<lparr>bw_pending := bw_pending bw - 8,
       bw_out := bw_out bw @ [ucast (drop_bit (bw_pending bw - 8) (bw_acc bw))]\<rparr>)
     else bw)"
  by pat_completeness auto
termination
  by (relation "measure bw_pending") auto

declare bw_flush.simps [simp del]

definition bw_put :: "u32 \<Rightarrow> nat \<Rightarrow> bit_writer \<Rightarrow> bit_writer" where
  "bw_put v n bw = bw_flush (bw\<lparr>bw_acc := push_bit n (bw_acc bw) OR ucast v, bw_pending := bw_pending bw + n\<rparr>)"

definition bw_align :: "bit_writer \<Rightarrow> bit_writer" where
  "bw_align bw = (if bw_pending bw \<noteq> 0 then bw_put 0 (8 - bw_pending bw) bw else bw)"

definition bw_bytes :: "bytes \<Rightarrow> bit_writer \<Rightarrow> bit_writer option" where
  "bw_bytes data bw = do {
     wassert (bw_pending bw = 0);
     Some (bw\<lparr>bw_out := bw_out bw @ data\<rparr>)
   }"

definition bw_finish :: "bit_writer \<Rightarrow> bytes" where
  "bw_finish bw = (let unused = (8 - bw_pending bw) mod 8; bw = bw_align bw in bw_out bw @ [of_nat unused])"

definition bw_bits :: "bit_writer \<Rightarrow> bool list" where
  "bw_bits bw = stream_bits (bw_out bw) @ bits (bw_pending bw) (bw_acc bw)"

definition bw_ok :: "bit_writer \<Rightarrow> bool" where
  "bw_ok bw \<longleftrightarrow> bw_pending bw < 8"

lemma bw_new_simps [simp]: "bw_bits bw_new = []" "bw_ok bw_new"
  by (simp_all add: bw_new_def bw_bits_def bw_ok_def)

lemma bw_flush_bits: "bw_bits (bw_flush bw) = bw_bits bw \<and> bw_ok (bw_flush bw)"
proof (induction bw rule: bw_flush.induct)
  case (1 bw)
  show ?case
  proof (cases "8 \<le> bw_pending bw")
    case True
    have "bits (bw_pending bw) (bw_acc bw) =
        bits 8 (drop_bit (bw_pending bw - 8) (bw_acc bw)) @ bits (bw_pending bw - 8) (bw_acc bw)"
      using bits_split [of 8 "bw_pending bw - 8" "bw_acc bw"] True by simp
    then show ?thesis
      using 1 [OF True] True by (simp add: bw_flush.simps [of bw] bw_bits_def bits_ucast)
  qed (simp add: bw_flush.simps [of bw] bw_ok_def)
qed

lemma bw_put_bits:
  assumes "bw_ok bw" "n \<le> 32" "take_bit n v = v"
  shows "bw_bits (bw_put v n bw) = bw_bits bw @ bits n v" "bw_ok (bw_put v n bw)"
proof -
  have "bw_pending bw + n \<le> LENGTH(64)" using assms(1,2) by (simp add: bw_ok_def)
  from bits_push_or [OF this assms(3), of "bw_acc bw"] show "bw_bits (bw_put v n bw) = bw_bits bw @ bits n v"
    unfolding bw_put_def using bw_flush_bits by (simp add: bw_bits_def)
  show "bw_ok (bw_put v n bw)" by (simp add: bw_put_def bw_flush_bits)
qed

lemma bw_pending_length: "bw_ok bw \<Longrightarrow> bw_pending bw = length (bw_bits bw) mod 8"
  by (simp add: bw_bits_def bw_ok_def)

text \<open>Bits up to the next multiple of eight.\<close>

definition pad_bits :: "nat \<Rightarrow> bool list" where
  "pad_bits k = replicate ((8 - k mod 8) mod 8) False"

lemma bits_zero: "bits n 0 = replicate n False"
  by (rule nth_equalityI) simp_all

lemma pad_mod: "0 < k mod 8 \<Longrightarrow> (8 - k mod 8) mod 8 = 8 - k mod (8 :: nat)"
  by simp

lemma bw_align_bits:
  assumes "bw_ok bw"
  shows "bw_bits (bw_align bw) = bw_bits bw @ pad_bits (length (bw_bits bw))" "bw_pending (bw_align bw) = 0"
proof -
  have p: "bw_pending bw = length (bw_bits bw) mod 8" by (rule bw_pending_length [OF assms])
  show b: "bw_bits (bw_align bw) = bw_bits bw @ pad_bits (length (bw_bits bw))"
  proof (cases "bw_pending bw = 0")
    case False
    then show ?thesis
      using assms p bw_put_bits(1) [OF assms, of "8 - bw_pending bw" 0]
      by (simp add: bw_align_def pad_bits_def bits_zero)
  qed (use p in \<open>simp add: bw_align_def pad_bits_def\<close>)
  have "bw_ok (bw_align bw)" using assms by (simp add: bw_align_def bw_put_bits(2))
  then have "bw_pending (bw_align bw) = length (bw_bits (bw_align bw)) mod 8" by (rule bw_pending_length)
  also have "\<dots> = 0" unfolding b pad_bits_def by (simp add: mod_simps) presburger
  finally show "bw_pending (bw_align bw) = 0" .
qed

lemma bw_bytes_bits:
  assumes "bw_pending bw = 0"
  shows "\<exists>bw'. bw_bytes data bw = Some bw' \<and> bw_bits bw' = bw_bits bw @ stream_bits data \<and> bw_ok bw'"
  using assms by (simp add: bw_bytes_def wassert_def bw_bits_def bw_ok_def)

lemma bw_finish_bits:
  assumes "bw_ok bw"
  shows "\<exists>bs. bw_finish bw = bs @ [of_nat ((8 - length (bw_bits bw) mod 8) mod 8)] \<and>
    stream_bits bs = bw_bits bw @ pad_bits (length (bw_bits bw))"
proof -
  have "stream_bits (bw_out (bw_align bw)) = bw_bits bw @ pad_bits (length (bw_bits bw))"
    using bw_align_bits [OF assms] by (simp add: bw_bits_def [of "bw_align bw"])
  then show ?thesis
    unfolding bw_finish_def Let_def bw_pending_length [OF assms, symmetric] by blast
qed

section \<open>Reading\<close>

record bit_reader =
  br_r :: reader
  br_acc :: u64
  br_buffered :: nat
  br_remaining :: nat

type_synonym 'a bit_parser = "(bit_reader, 'a) action"

definition br_new :: "reader \<Rightarrow> nat \<Rightarrow> bit_reader option" where
  "br_new r bit_count = do {
     wassert (bit_count \<le> length (rd_data r) * 8);
     Some \<lparr>br_r = r, br_acc = 0, br_buffered = 0, br_remaining = bit_count\<rparr>
   }"

function br_fill :: "nat \<Rightarrow> bit_reader \<Rightarrow> bit_reader" where
  "br_fill n br = (if br_buffered br < n \<and> \<not> rd_empty (br_r br)
     then (case rd_u8 (br_r br) of
         (Inl _, _) \<Rightarrow> br
       | (Inr b, r) \<Rightarrow> br_fill n (br\<lparr>br_r := r, br_acc := br_acc br OR push_bit (56 - br_buffered br) (ucast b),
           br_buffered := br_buffered br + 8\<rparr>))
     else br)"
  by pat_completeness auto
termination
  by (relation "measure (\<lambda>(n, br). n - br_buffered br)") auto

declare br_fill.simps [simp del]

definition br_peek :: "nat \<Rightarrow> bit_reader \<Rightarrow> u32 \<times> bit_reader" where
  "br_peek n br = (let br = br_fill n br in (ucast (drop_bit (64 - n) (br_acc br)), br))"

definition br_skip :: "nat \<Rightarrow> unit bit_parser" where
  "br_skip n br =
     (if n > br_remaining br
      then Some (fail Truncated ''ZGFX token runs past the end of the bit stream'' (rd_offset (br_r br)), br)
      else do {
        wassert (n \<le> br_buffered br);
        Some (Inr (), br\<lparr>br_acc := push_bit n (br_acc br), br_buffered := br_buffered br - n,
          br_remaining := br_remaining br - n\<rparr>)
      })"

definition br_read :: "nat \<Rightarrow> u32 bit_parser" where
  "br_read n br =
     (if n = 0 then Some (Inr 0, br)
      else let (v, br) = br_peek n br in atry (br_skip n) (\<lambda>_. aret v) br)"

text \<open>The buffered whole bytes of an unencoded run.\<close>

fun br_take_buffered :: "nat \<Rightarrow> bytes \<Rightarrow> bit_reader \<Rightarrow> nat \<times> bytes \<times> bit_reader" where
  "br_take_buffered 0 out br = (0, out, br)"
| "br_take_buffered (Suc n) out br =
     (if 8 \<le> br_buffered br
      then br_take_buffered n (out @ [ucast (drop_bit 56 (br_acc br))])
        (br\<lparr>br_acc := push_bit 8 (br_acc br), br_buffered := br_buffered br - 8\<rparr>)
      else (Suc n, out, br))"

definition br_read_aligned :: "nat \<Rightarrow> bytes \<Rightarrow> bytes bit_parser" where
  "br_read_aligned n out br =
     (let k = br_buffered br mod 8;
          br = br\<lparr>br_acc := push_bit k (br_acc br), br_buffered := br_buffered br - k,
            br_remaining := br_remaining br - min k (br_remaining br)\<rparr> in
      if n > br_remaining br div 8
      then Some (fail Truncated ''ZGFX unencoded run runs past the end of the bit stream'' (rd_offset (br_r br)), br)
      else
        let br = br\<lparr>br_remaining := br_remaining br - n * 8\<rparr>;
            (n, out, br) = br_take_buffered n out br in
        (case rd_bytes n (br_r br) of
          (Inl e, r) \<Rightarrow> Some (Inl e, br\<lparr>br_r := r\<rparr>)
        | (Inr run, r) \<Rightarrow> Some (Inr (out @ run), br\<lparr>br_r := r\<rparr>)))"

text \<open>
  The bits still to come: the upper end of the accumulator, whose lower bits are zero, and the
  bytes not yet read.
\<close>

definition br_bits :: "bit_reader \<Rightarrow> bool list" where
  "br_bits br = take (br_buffered br) (bits 64 (br_acc br)) @ stream_bits (rd_rest (br_r br))"

definition br_wf :: "bit_reader \<Rightarrow> bool" where
  "br_wf br \<longleftrightarrow> rd_wf (br_r br) \<and> br_buffered br \<le> 64 \<and> (\<forall>i < 64 - br_buffered br. \<not> bit (br_acc br) i)"

definition br_ok :: "bit_reader \<Rightarrow> bool" where
  "br_ok br \<longleftrightarrow> br_wf br \<and> br_remaining br \<le> length (br_bits br)"

lemma length_br_bits: "br_wf br \<Longrightarrow> length (br_bits br) = br_buffered br + 8 * length (rd_rest (br_r br))"
  by (simp add: br_bits_def br_wf_def)

lemma br_new_ok:
  assumes "rd_wf r" "rd_pos r = 0" "n \<le> 8 * length (rd_rest r)"
  shows "\<exists>br. br_new r n = Some br \<and> br_ok br \<and> br_bits br = stream_bits (rd_rest r) \<and> br_remaining br = n"
  using assms by (simp add: br_new_def br_ok_def br_wf_def br_bits_def wassert_def rd_rest_def mult.commute)

lemma take_bits_or:
  fixes acc :: u64
  assumes "k \<le> 56" "\<forall>i < 64 - k. \<not> bit acc i"
  shows "take (k + 8) (bits 64 (acc OR push_bit (56 - k) (ucast b))) = take k (bits 64 acc) @ bits 8 (b :: byte)"
proof (rule nth_equalityI)
  fix i assume "i < length (take (k + 8) (bits 64 (acc OR push_bit (56 - k) (ucast b))))"
  then have i: "i < k + 8" using assms(1) by simp
  show "take (k + 8) (bits 64 (acc OR push_bit (56 - k) (ucast b))) ! i = (take k (bits 64 acc) @ bits 8 b) ! i"
  proof (cases "i < k")
    case True
    then have "\<not> 63 - i - (56 - k) < 8" using assms(1) by auto
    then have "\<not> bit b (63 - i - (56 - k))" using bit_byteD by blast
    with True assms(1) show ?thesis by (auto simp: nth_append bit_simps)
  next
    case False
    then have "63 - i - (56 - k) = 7 - (i - k)" "63 - i < 64 - k" "56 - k \<le> 63 - i" using i assms(1) by auto
    with False i assms show ?thesis by (auto simp: nth_append bit_simps)
  qed
qed (use assms in simp)

lemma br_fill_ok:
  assumes "br_wf br" "n \<le> 32"
  shows "br_wf (br_fill n br) \<and> br_bits (br_fill n br) = br_bits br \<and> br_remaining (br_fill n br) = br_remaining br \<and>
    (n \<le> br_buffered (br_fill n br) \<or> rd_rest (br_r (br_fill n br)) = [])"
  using assms
proof (induction n br rule: br_fill.induct)
  case (1 n br)
  show ?case
  proof (cases "br_buffered br < n \<and> \<not> rd_empty (br_r br)")
    case True
    then obtain b bs where rest: "rd_rest (br_r br) = b # bs"
      using "1.prems" by (cases "rd_rest (br_r br)") (simp_all add: br_wf_def rd_empty_rest)
    let ?br = "br\<lparr>br_r := rd_advance 1 (br_r br), br_acc := br_acc br OR push_bit (56 - br_buffered br) (ucast b),
        br_buffered := br_buffered br + 8\<rparr>"
    have u8: "rd_u8 (br_r br) = (Inr b, rd_advance 1 (br_r br))" using rest by (rule rd_u8_Cons)
    have k: "br_buffered br \<le> 56" using True "1.prems"(2) by simp
    have "br_bits ?br = br_bits br"
      using rest k "1.prems"(1) take_bits_or [OF k, of "br_acc br" b] by (simp add: br_bits_def br_wf_def)
    moreover have "br_wf ?br"
      using rest k "1.prems"(1) by (auto simp: br_wf_def bit_simps)
    ultimately show ?thesis
      using "1.IH" [OF True u8 [symmetric] refl _ "1.prems"(2)] True u8 by (simp add: br_fill.simps [of n br])
  qed (use 1 in \<open>auto simp: br_fill.simps [of n br] br_wf_def rd_empty_rest\<close>)
qed

lemma br_peek_ok:
  assumes "br_ok br" "br_peek n br = (v, br')" "n \<le> 32"
  shows "br_ok br'" "br_bits br' = br_bits br" "br_remaining br' = br_remaining br" "br_r br' = br_r (br_fill n br)"
    "min n (length (br_bits br)) \<le> br_buffered br'" "bits n v = take n (br_bits br @ replicate n False)" "take_bit n v = v"
proof -
  have br': "br' = br_fill n br" and v: "v = ucast (drop_bit (64 - n) (br_acc br'))"
    using assms(2) by (auto simp: br_peek_def Let_def)
  have wf: "br_wf br" using assms(1) by (simp add: br_ok_def)
  note fill = br_fill_ok [OF wf assms(3), folded br']
  show "br_bits br' = br_bits br" "br_remaining br' = br_remaining br" "br_r br' = br_r (br_fill n br)" using fill br' by auto
  then show "br_ok br'" using assms(1) fill by (simp add: br_ok_def)
  have wf': "br_wf br'" using fill by blast
  show room: "min n (length (br_bits br)) \<le> br_buffered br'"
    using fill length_br_bits [OF wf'] by auto
  show "take_bit n v = v"
    using assms(3) by (intro bit_eqI) (auto simp: v bit_simps dest: bit_imp_le_length)
  show "bits n v = take n (br_bits br @ replicate n False)"
  proof (rule nth_equalityI)
    fix i assume "i < length (bits n v)"
    then have i: "i < n" by simp
    then have "64 - n + (n - 1 - i) = 63 - i" "n - 1 - i < 32" using assms(3) by auto
    then have l: "bits n v ! i = bit (br_acc br') (63 - i)"
      using i assms(3) by (simp add: v bit_simps)
    show "bits n v ! i = take n (br_bits br @ replicate n False) ! i"
    proof (cases "i < br_buffered br'")
      case True
      then have "(br_bits br' @ replicate n False) ! i = bits 64 (br_acc br') ! i"
        using i wf' by (simp add: br_bits_def nth_append br_wf_def)
      also have "\<dots> = bit (br_acc br') (63 - i)" using i assms(3) by simp
      finally show ?thesis using l i fill by (simp only: nth_take)
    next
      case False
      then have "rd_rest (br_r br') = []" "63 - i < 64 - br_buffered br'" using fill i assms(3) by auto
      then have "length (br_bits br) = br_buffered br'" "\<not> bit (br_acc br') (63 - i)"
        using length_br_bits [OF wf'] fill wf' by (auto simp: br_wf_def)
      then show ?thesis using l i False by (simp add: nth_append)
    qed
  qed simp
qed

lemma drop_take_bits:
  fixes acc :: u64
  assumes "n \<le> k" "k \<le> 64"
  shows "take (k - n) (bits 64 (push_bit n acc)) = drop n (take k (bits 64 acc))"
proof (rule nth_equalityI)
  fix i assume "i < length (take (k - n) (bits 64 (push_bit n acc)))"
  then have i: "i < k - n" using assms by simp
  then have "n \<le> 63 - i" "63 - i - n = 63 - (n + i)" "63 - i < 64" using assms by auto
  with i assms show "take (k - n) (bits 64 (push_bit n acc)) ! i = drop n (take k (bits 64 acc)) ! i"
    by (simp add: bit_simps)
qed (use assms in simp)

lemma br_shift:
  assumes "br_wf br" "n \<le> br_buffered br"
  shows "br_wf (br\<lparr>br_acc := push_bit n (br_acc br), br_buffered := br_buffered br - n, br_remaining := m\<rparr>)"
    "br_bits (br\<lparr>br_acc := push_bit n (br_acc br), br_buffered := br_buffered br - n, br_remaining := m\<rparr>) = drop n (br_bits br)"
proof -
  show "br_bits (br\<lparr>br_acc := push_bit n (br_acc br), br_buffered := br_buffered br - n, br_remaining := m\<rparr>) = drop n (br_bits br)"
    using assms drop_take_bits [OF assms(2), of "br_acc br"] by (simp add: br_bits_def br_wf_def)
  show "br_wf (br\<lparr>br_acc := push_bit n (br_acc br), br_buffered := br_buffered br - n, br_remaining := m\<rparr>)"
    using assms by (auto simp: br_wf_def bit_simps)
qed

lemma br_skip_ok:
  assumes "br_ok br" "n \<le> br_remaining br" "n \<le> br_buffered br"
  shows "\<exists>br'. br_skip n br = Some (Inr (), br') \<and> br_ok br' \<and> br_bits br' = drop n (br_bits br) \<and>
    br_remaining br' = br_remaining br - n \<and> br_r br' = br_r br"
  using assms br_shift [OF _ assms(3)] by (simp add: br_skip_def wassert_def br_ok_def diff_le_mono)

lemma br_read_ok:
  assumes "br_ok br" "n \<le> br_remaining br" "n \<le> 32"
  shows "\<exists>v br'. br_read n br = Some (Inr v, br') \<and> br_ok br' \<and> bits n v = take n (br_bits br) \<and> take_bit n v = v \<and>
    br_bits br' = drop n (br_bits br) \<and> br_remaining br' = br_remaining br - n"
proof (cases "n = 0")
  case False
  obtain v br1 where peek: "br_peek n br = (v, br1)" by fastforce
  note p = br_peek_ok [OF assms(1) peek assms(3)]
  have "n \<le> length (br_bits br)" using assms(1,2) by (simp add: br_ok_def)
  then have "n \<le> br_buffered br1" "bits n v = take n (br_bits br)" using p(5,6) by simp_all
  then show ?thesis
    using False peek p br_skip_ok [OF p(1), of n] assms(2) by (auto simp: br_read_def atry_def aret_def)
qed (use assms in \<open>simp add: br_read_def\<close>)

text \<open>Whatever the position, a read returns, and stays within what it may use.\<close>

definition br_safe :: "'a bit_parser \<Rightarrow> bool" where
  "br_safe p \<longleftrightarrow> (\<forall>br. br_ok br \<longrightarrow> (\<exists>x br'. p br = Some (x, br') \<and> br_ok br' \<and> br_remaining br' \<le> br_remaining br))"

lemma br_safeE:
  assumes "br_safe p" "br_ok br"
  obtains x br' where "p br = Some (x, br')" "br_ok br'" "br_remaining br' \<le> br_remaining br"
  using assms by (auto simp: br_safe_def)

lemma br_safe_read: "n \<le> 32 \<Longrightarrow> br_safe (br_read n)"
  unfolding br_safe_def
proof (intro allI impI)
  fix br assume n: "n \<le> 32" and ok: "br_ok br"
  show "\<exists>x br'. br_read n br = Some (x, br') \<and> br_ok br' \<and> br_remaining br' \<le> br_remaining br"
  proof (cases "n \<le> br_remaining br")
    case True
    then show ?thesis using br_read_ok [OF ok True n] by auto
  next
    case False
    then show ?thesis
      using br_peek_ok(1,3) [OF ok _ n] by (auto simp: br_read_def atry_def br_skip_def fail_def split: prod.split)
  qed
qed

lemma br_safe_ret: "br_safe (aret x)" and br_safe_fail: "br_safe (afail c what off)"
  by (simp_all add: br_safe_def aret_def afail_def)

lemma br_safe_try: "br_safe p \<Longrightarrow> (\<And>x. br_safe (f x)) \<Longrightarrow> br_safe (atry p f)"
  unfolding br_safe_def
proof (intro allI impI)
  fix br assume p: "\<forall>br. br_ok br \<longrightarrow> (\<exists>x br'. p br = Some (x, br') \<and> br_ok br' \<and> br_remaining br' \<le> br_remaining br)"
    and f: "\<And>x. \<forall>br. br_ok br \<longrightarrow> (\<exists>y br'. f x br = Some (y, br') \<and> br_ok br' \<and> br_remaining br' \<le> br_remaining br)"
    and ok: "br_ok br"
  from p ok obtain x br1 where 1: "p br = Some (x, br1)" "br_ok br1" "br_remaining br1 \<le> br_remaining br" by blast
  show "\<exists>y br'. atry p f br = Some (y, br') \<and> br_ok br' \<and> br_remaining br' \<le> br_remaining br"
  proof (cases x)
    case (Inr v)
    from f 1(2) obtain y br2 where "f v br1 = Some (y, br2)" "br_ok br2" "br_remaining br2 \<le> br_remaining br1" by blast
    with 1 Inr show ?thesis by (simp add: atry_def)
  qed (use 1 in \<open>simp add: atry_def\<close>)
qed

lemmas br_safe_intros = br_safe_read br_safe_ret br_safe_fail br_safe_try

subsection \<open>Unencoded runs\<close>

lemma br_take_buffered_ok:
  assumes "br_wf br" "br_buffered br mod 8 = 0" "br_take_buffered n out br = (m, out', br')"
  shows "br_wf br' \<and> br_remaining br' = br_remaining br \<and> m \<le> n \<and> (m = 0 \<or> br_buffered br' = 0) \<and>
    (\<exists>xs. out' = out @ xs \<and> length xs = n - m \<and> stream_bits xs @ br_bits br' = br_bits br)"
  using assms
proof (induction n out br rule: br_take_buffered.induct)
  case (2 n out br)
  show ?case
  proof (cases "8 \<le> br_buffered br")
    case True
    let ?br = "br\<lparr>br_acc := push_bit 8 (br_acc br), br_buffered := br_buffered br - 8\<rparr>"
    let ?b = "ucast (drop_bit 56 (br_acc br)) :: byte"
    have sh: "br_wf ?br" "br_bits ?br = drop 8 (br_bits br)"
      using br_shift [OF "2.prems"(1) True, of "br_remaining br"] by simp_all
    have "bits 8 ?b = take 8 (bits 64 (br_acc br))"
      by (rule nth_equalityI) (auto simp: bit_simps)
    then have "bits 8 ?b = take 8 (br_bits br)"
      using True "2.prems"(1) by (simp add: br_bits_def br_wf_def min_def)
    then have b: "bits 8 ?b @ br_bits ?br = br_bits br" using sh(2) by simp
    have "(br_buffered br - 8) mod 8 = 0" using "2.prems"(2) True by (simp add: mod_if)
    then have *: "br_wf br' \<and> br_remaining br' = br_remaining br \<and> m \<le> n \<and> (m = 0 \<or> br_buffered br' = 0) \<and>
        (\<exists>xs. out' = (out @ [?b]) @ xs \<and> length xs = n - m \<and> stream_bits xs @ br_bits br' = br_bits ?br)"
      using "2.IH" [OF True sh(1)] "2.prems"(3) True by simp
    then obtain xs where "out' = (out @ [?b]) @ xs" "length xs = n - m" "stream_bits xs @ br_bits br' = br_bits ?br" by blast
    then show ?thesis using * b by (intro conjI exI [of _ "?b # xs"]) auto
  next
    case False
    then have "br_buffered br = 0" using "2.prems"(2) by presburger
    with False 2 show ?thesis by auto
  qed
qed simp

lemma br_read_aligned_ok:
  assumes "br_ok br" "length (br_bits br) mod 8 + n * 8 \<le> br_remaining br"
  shows "\<exists>xs br'. br_read_aligned n out br = Some (Inr (out @ xs), br') \<and> br_ok br' \<and> length xs = n \<and>
    stream_bits xs @ br_bits br' = drop (length (br_bits br) mod 8) (br_bits br) \<and>
    br_remaining br' = br_remaining br - (length (br_bits br) mod 8 + n * 8)"
proof -
  have wf: "br_wf br" and rem: "br_remaining br \<le> length (br_bits br)" using assms(1) by (simp_all add: br_ok_def)
  have k: "length (br_bits br) mod 8 = br_buffered br mod 8" using length_br_bits [OF wf] by simp
  let ?k = "br_buffered br mod 8"
  let ?br = "br\<lparr>br_acc := push_bit ?k (br_acc br), br_buffered := br_buffered br - ?k, br_remaining := br_remaining br - ?k - n * 8\<rparr>"
  have sh: "br_wf ?br" "br_bits ?br = drop ?k (br_bits br)" using br_shift [OF wf] by simp_all
  obtain m out' br1 where t: "br_take_buffered n out ?br = (m, out', br1)" by (metis prod_cases3)
  have "br_buffered ?br mod 8 = 0" by (simp add: minus_mod_eq_mult_div)
  from br_take_buffered_ok [OF sh(1) this t] obtain xs where br1: "br_wf br1" "br_remaining br1 = br_remaining ?br" "m \<le> n"
    "m = 0 \<or> br_buffered br1 = 0" and xs: "out' = out @ xs" "length xs = n - m" "stream_bits xs @ br_bits br1 = br_bits ?br"
    by blast
  have "8 * length xs + length (br_bits br1) = length (br_bits br) - ?k"
    using arg_cong [OF xs(3), where f = length] sh(2) by simp
  moreover have "length (br_bits br1) = br_buffered br1 + 8 * length (rd_rest (br_r br1))" by (rule length_br_bits [OF br1(1)])
  ultimately have m: "m \<le> length (rd_rest (br_r br1))"
    using br1(3,4) xs(2) assms(2) rem k by auto
  let ?ys = "take m (rd_rest (br_r br1))" and ?br2 = "br1\<lparr>br_r := rd_advance m (br_r br1)\<rparr>"
  have rb: "rd_bytes m (br_r br1) = (Inr ?ys, rd_advance m (br_r br1))" using m by (rule rd_bytes_ok)
  have "stream_bits ?ys @ br_bits ?br2 = br_bits br1"
    using br1(4)
    by (auto simp: br_bits_def simp flip: take_stream_bits drop_stream_bits)
  then have bits: "stream_bits (xs @ ?ys) @ br_bits ?br2 = drop ?k (br_bits br)" using xs(3) sh(2) by simp
  have len: "length (xs @ ?ys) = n" using xs(2) br1(3) m by simp
  have "br_wf ?br2" using br1(1) m by (simp add: br_wf_def)
  moreover have "br_remaining ?br2 \<le> length (br_bits ?br2)"
    using arg_cong [OF bits, where f = length] len br1(2) rem by simp
  ultimately have "br_ok ?br2" by (simp add: br_ok_def)
  moreover have "br_read_aligned n out br = Some (Inr (out @ xs @ ?ys), ?br2)"
    using assms(2) k t rb xs(1) by (simp add: br_read_aligned_def Let_def min_def)
  ultimately show ?thesis
    using bits len br1(2) k by (intro exI [of _ "xs @ ?ys"] exI [of _ ?br2]) simp
qed

lemma br_read_aligned_safe:
  assumes "br_ok br"
  shows "\<exists>x br'. br_read_aligned n out br = Some (x, br') \<and> br_ok br' \<and> br_remaining br' \<le> br_remaining br \<and>
    (\<forall>out'. x = Inr out' \<longrightarrow> (\<exists>xs. out' = out @ xs \<and> length xs = n))"
proof (cases "length (br_bits br) mod 8 + n * 8 \<le> br_remaining br")
  case True
  then show ?thesis using br_read_aligned_ok [OF assms True, of out] by fastforce
next
  case False
  have wf: "br_wf br" and rem: "br_remaining br \<le> length (br_bits br)" using assms by (simp_all add: br_ok_def)
  let ?k = "br_buffered br mod 8"
  let ?br = "br\<lparr>br_acc := push_bit ?k (br_acc br), br_buffered := br_buffered br - ?k,
    br_remaining := br_remaining br - min ?k (br_remaining br)\<rparr>"
  have k: "length (br_bits br) mod 8 = ?k" using length_br_bits [OF wf] by simp
  have ok: "br_ok ?br" using br_shift [OF wf, of ?k] rem by (simp add: br_ok_def min_def diff_le_mono)
  show ?thesis
  proof (cases "n > br_remaining ?br div 8")
    case True
    then have "br_read_aligned n out br = Some (fail Truncated ''ZGFX unencoded run runs past the end of the bit stream'' (rd_offset (br_r br)), ?br)"
      by (simp add: br_read_aligned_def Let_def)
    with ok show ?thesis by simp
  next
    case n: False
    have "n = 0"
      using n False k by (cases "?k \<le> br_remaining br") (auto simp: min_def)
    then have "br_read_aligned n out br = Some (Inr out, ?br)"
      by (simp add: br_read_aligned_def Let_def rd_bytes_ok)
    with ok \<open>n = 0\<close> show ?thesis by simp
  qed
qed

end
