(* ===== verification/Zgfx_Code.thy ===== *)
theory Zgfx_Code
  imports Bit_Stream
begin

text \<open>
  The token code of \<open>codec/zgfx.cpp\<close>: the table of prefixes, the lookup the decoder uses, and the
  codes of literals, match lengths and match distances the encoder writes.
\<close>

section \<open>Model: the table\<close>

record token =
  tk_prefix_length :: nat
  tk_prefix :: u16
  tk_value_bits :: nat
  tk_match :: bool
  tk_base :: u32

definition mk_token :: "nat \<Rightarrow> u16 \<Rightarrow> nat \<Rightarrow> bool \<Rightarrow> u32 \<Rightarrow> token" where
  "mk_token n prefix value_bits m base =
     \<lparr>tk_prefix_length = n, tk_prefix = prefix, tk_value_bits = value_bits, tk_match = m, tk_base = base\<rparr>"

definition match_token_first :: nat where "match_token_first = 1"
definition match_token_count :: nat where "match_token_count = 11"

definition tokens :: "token list" where
  "tokens = [
     mk_token 1 0b0 8 False 0,
     mk_token 5 0b10001 5 True 0,
     mk_token 5 0b10010 7 True 32,
     mk_token 5 0b10011 9 True 160,
     mk_token 5 0b10100 10 True 672,
     mk_token 5 0b10101 12 True 1696,
     mk_token 6 0b101100 14 True 5792,
     mk_token 6 0b101101 15 True 22176,
     mk_token 7 0b1011100 18 True 54944,
     mk_token 7 0b1011101 20 True 317088,
     mk_token 8 0b10111100 20 True 1365664,
     mk_token 8 0b10111101 21 True 2414240,
     mk_token 5 0b11000 0 False 0x00,
     mk_token 5 0b11001 0 False 0x01,
     mk_token 6 0b110100 0 False 0x02,
     mk_token 6 0b110101 0 False 0x03,
     mk_token 6 0b110110 0 False 0xFF,
     mk_token 7 0b1101110 0 False 0x04,
     mk_token 7 0b1101111 0 False 0x05,
     mk_token 7 0b1110000 0 False 0x06,
     mk_token 7 0b1110001 0 False 0x07,
     mk_token 7 0b1110010 0 False 0x08,
     mk_token 7 0b1110011 0 False 0x09,
     mk_token 7 0b1110100 0 False 0x0A,
     mk_token 7 0b1110101 0 False 0x0B,
     mk_token 7 0b1110110 0 False 0x3A,
     mk_token 7 0b1110111 0 False 0x3B,
     mk_token 7 0b1111000 0 False 0x3C,
     mk_token 7 0b1111001 0 False 0x3D,
     mk_token 7 0b1111010 0 False 0x3E,
     mk_token 7 0b1111011 0 False 0x3F,
     mk_token 7 0b1111100 0 False 0x40,
     mk_token 7 0b1111101 0 False 0x80,
     mk_token 8 0b11111100 0 False 0x0C,
     mk_token 8 0b11111101 0 False 0x38,
     mk_token 8 0b11111110 0 False 0x39,
     mk_token 8 0b11111111 0 False 0x66]"

definition match_tokens :: "token list" where
  "match_tokens = take match_token_count (drop match_token_first tokens)"

definition lookup_bits :: nat where "lookup_bits = 9"
definition reserved_token :: nat where "reserved_token = 0xFF"

text \<open>\<open>std::fill_n\<close> over a part of an array.\<close>

definition fill_range :: "nat \<Rightarrow> nat \<Rightarrow> 'a \<Rightarrow> 'a list \<Rightarrow> 'a list" where
  "fill_range first n v xs = take first xs @ replicate n v @ drop (first + n) xs"

definition build_token_lookup :: "nat list" where
  "build_token_lookup = fold (\<lambda>t lookup.
     let free_bits = lookup_bits - tk_prefix_length (tokens ! t);
         first = unat (tk_prefix (tokens ! t)) * 2 ^ free_bits
     in fill_range first (2 ^ free_bits) t lookup) [0..<length tokens] (replicate (2 ^ lookup_bits) reserved_token)"

definition token_lookup :: "u32 \<Rightarrow> nat" where
  "token_lookup v = build_token_lookup ! unat v"

definition is_prefix_code :: bool where
  "is_prefix_code = list_all (\<lambda>i. list_all (\<lambda>j.
     let a = tokens ! i; b = tokens ! j in
     \<not> (i \<noteq> j \<and> tk_prefix_length a \<le> tk_prefix_length b \<and>
        drop_bit (tk_prefix_length b - tk_prefix_length a) (tk_prefix b) = tk_prefix a))
     [0..<length tokens]) [0..<length tokens]"

section \<open>Model: codes\<close>

record code =
  cd_bits :: u32
  cd_length :: nat

definition build_literal_codes :: "code list" where
  "build_literal_codes = fold (\<lambda>t codes.
     if \<not> tk_match t \<and> tk_value_bits t = 0
     then codes[unat (tk_base t) := \<lparr>cd_bits = ucast (tk_prefix t), cd_length = tk_prefix_length t\<rparr>] else codes)
     tokens (map (\<lambda>b. \<lparr>cd_bits = of_nat b, cd_length = 9\<rparr>) [0..<256])"

definition literal_code :: "byte \<Rightarrow> code" where
  "literal_code b = build_literal_codes ! unat b"

definition min_match :: nat where "min_match = 3"
definition max_match :: nat where "max_match = 65535"
definition max_length_ones :: nat where "max_length_ones = 14"

fun bit_width :: "nat \<Rightarrow> nat" where
  "bit_width n = (if n = 0 then 0 else Suc (bit_width (n div 2)))"

declare bit_width.simps [simp del]

definition length_code :: "nat \<Rightarrow> code" where
  "length_code n =
     (if n = min_match then \<lparr>cd_bits = 0, cd_length = 1\<rparr>
      else
        let k = bit_width n - 2;
            prefix = push_bit 1 (push_bit k 1 - 1);
            v = of_nat (n - 2 ^ (k + 1))
        in \<lparr>cd_bits = push_bit (k + 1) prefix OR v, cd_length = 2 * k + 2\<rparr>)"

fun distance_index :: "nat \<Rightarrow> u32 \<Rightarrow> nat" where
  "distance_index 0 distance = 0"
| "distance_index (Suc t) distance =
     (if tk_base (match_tokens ! Suc t) > distance then distance_index t distance else Suc t)"

definition distance_code :: "u32 \<Rightarrow> code \<times> code" where
  "distance_code distance =
     (let token = match_tokens ! distance_index (length match_tokens - 1) distance
      in (\<lparr>cd_bits = ucast (tk_prefix token), cd_length = tk_prefix_length token\<rparr>,
          \<lparr>cd_bits = distance - tk_base token, cd_length = tk_value_bits token\<rparr>))"

section \<open>The lookup finds the token whose prefix is next\<close>

lemma prefix_code: "is_prefix_code"
  unfolding is_prefix_code_def by code_simp

lemma token_facts:
  "list_all (\<lambda>t. 0 < tk_prefix_length t \<and> tk_prefix_length t \<le> 8 \<and> unat (tk_prefix t) < 2 ^ tk_prefix_length t \<and>
     tk_value_bits t \<le> 21 \<and> (\<not> tk_match t \<longrightarrow> tk_value_bits t = 0 \<or> t = tokens ! 0)) tokens"
  by code_simp

lemma tokenD:
  assumes "t < length tokens"
  shows "0 < tk_prefix_length (tokens ! t)" "tk_prefix_length (tokens ! t) \<le> 8"
    "unat (tk_prefix (tokens ! t)) < 2 ^ tk_prefix_length (tokens ! t)" "tk_value_bits (tokens ! t) \<le> 21"
  using assms token_facts by (simp_all add: list_all_length)

lemma length_fill_range [simp]: "first + n \<le> length xs \<Longrightarrow> length (fill_range first n v xs) = length xs"
  by (simp add: fill_range_def)

lemma nth_fill_range:
  "first + n \<le> length xs \<Longrightarrow> x < length xs \<Longrightarrow>
   fill_range first n v xs ! x = (if first \<le> x \<and> x < first + n then v else xs ! x)"
  by (auto simp: fill_range_def nth_append)

lemma fold_fill_range:
  assumes "\<And>t. t \<in> set ts \<Longrightarrow> f t + n t \<le> length xs" "x < length xs"
  shows "length (fold (\<lambda>t. fill_range (f t) (n t) t) ts xs) = length xs"
    "fold (\<lambda>t. fill_range (f t) (n t) t) ts xs ! x =
      (case find (\<lambda>t. f t \<le> x \<and> x < f t + n t) (rev ts) of Some t \<Rightarrow> t | None \<Rightarrow> xs ! x)"
  using assms
proof (induction ts rule: rev_induct)
  case (snoc t ts)
  { case 1 with snoc.IH show ?case by simp }
  { case 2 with snoc.IH show ?case by (simp add: nth_fill_range) }
qed simp_all

lemma find_SomeD: "find P xs = Some u \<Longrightarrow> u \<in> set xs \<and> P u"
  by (induction xs) (auto split: if_splits)

lemma div_eq_range: "0 < m \<Longrightarrow> x div m = q \<longleftrightarrow> q * m \<le> x \<and> x < q * m + (m :: nat)"
  using dividend_less_times_div [of m x] by (auto simp: div_nat_eqI mult.commute)

text \<open>Token \<open>t\<close> is the one for the nine bits \<open>x\<close>.\<close>

definition token_matches :: "nat \<Rightarrow> nat \<Rightarrow> bool" where
  "token_matches t x \<longleftrightarrow> t < length tokens \<and> x div 2 ^ (9 - tk_prefix_length (tokens ! t)) = unat (tk_prefix (tokens ! t))"

lemma token_matches_range:
  "t < length tokens \<Longrightarrow> token_matches t x \<longleftrightarrow> unat (tk_prefix (tokens ! t)) * 2 ^ (9 - tk_prefix_length (tokens ! t)) \<le> x \<and>
     x < unat (tk_prefix (tokens ! t)) * 2 ^ (9 - tk_prefix_length (tokens ! t)) + 2 ^ (9 - tk_prefix_length (tokens ! t))"
  unfolding token_matches_def by (simp add: div_eq_range)

lemma token_matches_less:
  assumes "token_matches i x" "token_matches j x" "i \<noteq> j"
  shows "tk_prefix_length (tokens ! j) < tk_prefix_length (tokens ! i)"
proof (rule ccontr)
  let ?p = "\<lambda>t. unat (tk_prefix (tokens ! t))" and ?n = "\<lambda>t. tk_prefix_length (tokens ! t)"
  assume "\<not> ?n j < ?n i"
  then have le: "?n i \<le> ?n j" by simp
  have ij: "i < length tokens" "j < length tokens" using assms by (simp_all add: token_matches_def)
  have "2 ^ (9 - ?n i) = 2 ^ (9 - ?n j) * (2 :: nat) ^ (?n j - ?n i)"
    using le tokenD(2) [OF ij(2)] by (simp flip: power_add)
  then have "?p j div 2 ^ (?n j - ?n i) = ?p i"
    using assms by (simp add: token_matches_def div_mult2_eq)
  then have "drop_bit (?n j - ?n i) (tk_prefix (tokens ! j)) = tk_prefix (tokens ! i)"
    by (simp only: word_unat_eq_iff unat_drop_bit_eq) (simp only: drop_bit_eq_div)
  moreover have "i \<in> set [0..<length tokens]" "j \<in> set [0..<length tokens]" using ij by simp_all
  ultimately show False
    using le assms(3) prefix_code unfolding is_prefix_code_def list_all_iff Let_def by blast
qed

lemma token_matches_unique: "token_matches i x \<Longrightarrow> token_matches j x \<Longrightarrow> i = j"
  using token_matches_less [of i x j] token_matches_less [of j x i] by linarith

lemma token_lookup_find:
  assumes "unat v < 512"
  shows "token_lookup v = (case find (\<lambda>t. token_matches t (unat v)) (rev [0..<length tokens]) of Some t \<Rightarrow> t | None \<Rightarrow> reserved_token)"
proof -
  let ?f = "\<lambda>t. unat (tk_prefix (tokens ! t)) * 2 ^ (lookup_bits - tk_prefix_length (tokens ! t))"
    and ?n = "\<lambda>t. 2 ^ (lookup_bits - tk_prefix_length (tokens ! t)) :: nat"
  let ?l = "replicate (2 ^ lookup_bits) reserved_token"
  have b: "?f t + ?n t \<le> length ?l" if "t < length tokens" for t
  proof -
    have "?f t + ?n t = (unat (tk_prefix (tokens ! t)) + 1) * ?n t" by simp
    also have "\<dots> \<le> 2 ^ tk_prefix_length (tokens ! t) * ?n t"
      using tokenD(3) [OF that] by (intro mult_le_mono1) simp
    also have "\<dots> = 2 ^ lookup_bits" using tokenD(2) [OF that] by (simp add: lookup_bits_def flip: power_add)
    finally show ?thesis by simp
  qed
  have x: "unat v < length ?l" using assms by (simp add: lookup_bits_def)
  have "find (\<lambda>t. token_matches t (unat v)) (rev [0..<length tokens]) =
      find (\<lambda>t. ?f t \<le> unat v \<and> unat v < ?f t + ?n t) (rev [0..<length tokens])"
    by (rule find_cong) (simp_all add: token_matches_range lookup_bits_def)
  then show ?thesis
    using fold_fill_range(2) [where f = ?f and n = ?n and ts = "[0..<length tokens]" and xs = ?l, OF _ x] b x
    by (simp add: token_lookup_def build_token_lookup_def Let_def cong: option.case_cong)
qed

lemma token_lookup_index: "unat v < 512 \<Longrightarrow> token_lookup v = reserved_token \<or> token_lookup v < length tokens"
  by (auto simp: token_lookup_find token_matches_def split: option.split dest!: find_SomeD)

lemma token_matches_less_512: "token_matches t x \<Longrightarrow> x < 512"
proof -
  assume "token_matches t x"
  then have t: "t < length tokens" and x: "x div 2 ^ (9 - tk_prefix_length (tokens ! t)) = unat (tk_prefix (tokens ! t))"
    by (simp_all add: token_matches_def)
  let ?n = "tk_prefix_length (tokens ! t)"
  have "x < (x div 2 ^ (9 - ?n) + 1) * 2 ^ (9 - ?n)"
    using dividend_less_div_times [of "2 ^ (9 - ?n)" x] by simp
  also have "\<dots> \<le> 2 ^ ?n * 2 ^ (9 - ?n)" using tokenD(3) [OF t] unfolding x by (intro mult_le_mono1) simp
  also have "\<dots> = 512" using tokenD(2) [OF t] by (simp flip: power_add)
  finally show ?thesis .
qed

lemma token_lookup:
  assumes "token_matches t (unat v)"
  shows "token_lookup v = t"
proof -
  have "find (\<lambda>t. token_matches t (unat v)) (rev [0..<length tokens]) = Some t"
  proof (cases "find (\<lambda>t. token_matches t (unat v)) (rev [0..<length tokens])")
    case None
    then show ?thesis using assms by (auto simp: find_None_iff token_matches_def)
  next
    case (Some u)
    then show ?thesis using token_matches_unique [OF assms] by (auto dest!: find_SomeD)
  qed
  then show ?thesis using token_lookup_find token_matches_less_512 [OF assms] by simp
qed

section \<open>Codes as lists of bits\<close>

definition code_bits :: "code \<Rightarrow> bool list" where
  "code_bits c = bits (cd_length c) (cd_bits c)"

definition code_ok :: "code \<Rightarrow> bool" where
  "code_ok c \<longleftrightarrow> cd_length c \<le> 32 \<and> take_bit (cd_length c) (cd_bits c) = cd_bits c"

definition token_bits :: "token \<Rightarrow> u32 \<Rightarrow> bool list" where
  "token_bits t v = bits (tk_prefix_length t) (tk_prefix t) @ bits (tk_value_bits t) v"

text \<open>The code of a literal is a literal token whose value is the byte.\<close>

lemma fold_literal_codes:
  assumes "\<And>b. b < length codes \<Longrightarrow> P b (codes ! b)" "\<And>t. t \<in> set ts \<Longrightarrow> \<not> tk_match t \<Longrightarrow> tk_value_bits t = 0 \<Longrightarrow>
    P (unat (tk_base t)) \<lparr>cd_bits = ucast (tk_prefix t), cd_length = tk_prefix_length t\<rparr>"
  shows "let codes' = fold (\<lambda>t codes. if \<not> tk_match t \<and> tk_value_bits t = 0
       then codes[unat (tk_base t) := \<lparr>cd_bits = ucast (tk_prefix t), cd_length = tk_prefix_length t\<rparr>] else codes) ts codes
    in length codes' = length codes \<and> (\<forall>b < length codes. P b (codes' ! b))"
  using assms
proof (induction ts rule: rev_induct)
  case (snoc t ts)
  let ?c = "\<lparr>cd_bits = ucast (tk_prefix t), cd_length = tk_prefix_length t\<rparr>"
  have upd: "P b (xs[unat (tk_base t) := ?c] ! b)"
    if "\<not> tk_match t" "tk_value_bits t = 0" "P b (xs ! b)" "b < length xs" for b and xs :: "code list"
    using that snoc.prems(2) [of t] by (cases "unat (tk_base t) = b") simp_all
  have "let codes' = fold (\<lambda>t codes. if \<not> tk_match t \<and> tk_value_bits t = 0
       then codes[unat (tk_base t) := \<lparr>cd_bits = ucast (tk_prefix t), cd_length = tk_prefix_length t\<rparr>] else codes) ts codes
    in length codes' = length codes \<and> (\<forall>b < length codes. P b (codes' ! b))"
    by (rule snoc.IH) (simp_all add: snoc.prems)
  with upd show ?case by (simp add: Let_def)
qed (simp add: Let_def)

definition is_literal :: "nat \<Rightarrow> code \<Rightarrow> bool" where
  "is_literal b c \<longleftrightarrow> code_ok c \<and> (\<exists>t v. t < length tokens \<and> \<not> tk_match (tokens ! t) \<and> take_bit (tk_value_bits (tokens ! t)) v = v \<and>
     code_bits c = token_bits (tokens ! t) v \<and> unat (tk_base (tokens ! t) + v) = b)"

lemma prefix_small: "t < length tokens \<Longrightarrow> take_bit (tk_prefix_length (tokens ! t)) (tk_prefix (tokens ! t)) = tk_prefix (tokens ! t)"
  using tokenD(3) by (intro word_take_bit_self) simp

lemma take_bit_ucast_eq: "take_bit n v = v \<Longrightarrow> take_bit n (ucast v :: 'b::len word) = ucast v" for v :: "'a::len word"
  by (intro bit_eqI) (metis bit_take_bit_iff bit_ucast_iff)

lemma token_0: "tokens ! 0 = mk_token 1 0 8 False 0" "0 < length tokens"
  by (simp_all add: tokens_def)

lemma literal_code_literal: "is_literal (unat b) (literal_code b)"
proof -
  let ?codes = "map (\<lambda>b. \<lparr>cd_bits = of_nat b, cd_length = 9\<rparr>) [0..<256]"
  have long: "is_literal b (?codes ! b)" if "b < length ?codes" for b
  proof -
    have b: "unat (of_nat b :: u32) = b" using that by (simp add: unsigned_of_nat take_bit_nat_eq_self)
    then have small: "take_bit 8 (of_nat b :: u32) = of_nat b" "take_bit 9 (of_nat b :: u32) = of_nat b"
      using that by (simp_all add: word_take_bit_self)
    then have "drop_bit 8 (of_nat b :: u32) = 0" by (metis drop_bit_take_bit diff_self_eq_0 take_bit_0)
    then have "bits 9 (of_nat b :: u32) = bits 1 (0 :: u16) @ bits 8 (of_nat b :: u32)"
      using bits_split [of 1 8 "of_nat b :: u32"] by (simp add: bits_def)
    then show ?thesis
      using that b small token_0 unfolding is_literal_def
      by (intro conjI exI [of _ "0 :: nat"] exI [of _ "of_nat b :: u32"])
        (simp_all add: code_ok_def code_bits_def token_bits_def mk_token_def)
  qed
  have short: "is_literal (unat (tk_base t)) \<lparr>cd_bits = ucast (tk_prefix t), cd_length = tk_prefix_length t\<rparr>"
    if t: "t \<in> set tokens" "\<not> tk_match t" "tk_value_bits t = 0" for t
  proof -
    obtain i where i: "i < length tokens" "t = tokens ! i" using t(1) unfolding in_set_conv_nth by blast
    then show ?thesis
      using t tokenD(2) [OF i(1)] take_bit_ucast_eq [OF prefix_small [OF i(1)]]
      unfolding is_literal_def
      by (intro conjI exI [of _ i] exI [of _ "0 :: u32"]) (simp_all add: code_ok_def code_bits_def token_bits_def bits_ucast)
  qed
  have "unat b < length ?codes" using unsigned_less [of b] by simp
  then show ?thesis
    using fold_literal_codes [of ?codes is_literal tokens, OF long short]
    unfolding literal_code_def build_literal_codes_def Let_def by blast
qed

text \<open>A match length: ones, a zero, and the bits below the leading one.\<close>

definition length_bits :: "nat \<Rightarrow> bool list" where
  "length_bits n = (if n = min_match then [False]
     else let k = bit_width n - 2 in replicate k True @ False # bits (k + 1) (of_nat (n - 2 ^ (k + 1)) :: u32))"

lemma bit_width_bounds: "0 < n \<Longrightarrow> 2 ^ (bit_width n - 1) \<le> n \<and> n < 2 ^ bit_width n \<and> 0 < bit_width n"
proof (induction n rule: bit_width.induct)
  case (1 n)
  show ?case
  proof (cases "n = 1")
    case False
    then have "0 < n div 2" using "1.prems" by auto
    with 1 have IH: "2 ^ (bit_width (n div 2) - 1) \<le> n div 2" "n div 2 < 2 ^ bit_width (n div 2)" "0 < bit_width (n div 2)" by auto
    have "bit_width n = Suc (bit_width (n div 2))" using "1.prems" by (subst bit_width.simps) simp
    moreover have "2 ^ bit_width (n div 2) = 2 * (2 ^ (bit_width (n div 2) - 1) :: nat)"
      using IH(3) by (metis Suc_pred' power_Suc)
    moreover have "n div 2 * 2 \<le> n" "n < n div 2 * 2 + 2" by simp_all
    ultimately show ?thesis using IH(1,2) by (simp del: div_times_less_eq_dividend)
  qed (simp add: bit_width.simps)
qed

lemma length_bit_width:
  assumes "min_match < n" "n \<le> max_match"
  shows "2 ^ (bit_width n - 2 + 1) \<le> n" "n < 2 ^ (bit_width n - 2 + 2)" "0 < bit_width n - 2" "bit_width n - 2 \<le> max_length_ones"
proof -
  have n: "2 ^ (bit_width n - 1) \<le> n" "n < 2 ^ bit_width n" using assms(1) bit_width_bounds [of n] by (simp_all add: min_match_def)
  have "3 \<le> bit_width n"
  proof (rule ccontr)
    assume "\<not> 3 \<le> bit_width n"
    then have "(2 :: nat) ^ bit_width n \<le> 2 ^ 2" by (intro power_increasing) simp_all
    with n(2) assms(1) show False by (simp add: min_match_def)
  qed
  moreover have "bit_width n \<le> 16"
  proof (rule ccontr)
    assume "\<not> bit_width n \<le> 16"
    then have "(2 :: nat) ^ 16 \<le> 2 ^ (bit_width n - 1)" by (intro power_increasing) simp_all
    with n(1) assms(2) show False by (simp add: max_match_def)
  qed
  ultimately have "bit_width n - 2 + 1 = bit_width n - 1" "bit_width n - 2 + 2 = bit_width n" "0 < bit_width n - 2"
    "bit_width n - 2 \<le> 14" by simp_all
  with n show "2 ^ (bit_width n - 2 + 1) \<le> n" "n < 2 ^ (bit_width n - 2 + 2)" "0 < bit_width n - 2" "bit_width n - 2 \<le> max_length_ones"
    by (simp_all add: max_length_ones_def)
qed

lemma bits_mask: "k \<le> LENGTH('a) \<Longrightarrow> bits k (push_bit k 1 - 1 :: 'a::len word) = replicate k True"
proof -
  assume "k \<le> LENGTH('a)"
  moreover have "push_bit k 1 - 1 = (mask k :: 'a word)" by (simp add: mask_eq_exp_minus_1)
  ultimately show ?thesis by (intro nth_equalityI) (simp_all add: bit_mask_iff)
qed

lemma take_bit_push_or:
  assumes "take_bit m a = a" "take_bit n v = v"
  shows "take_bit (n + m) (push_bit n a OR v) = push_bit n a OR (v :: 'a::len word)"
proof -
  have "take_bit (n + m) (take_bit n v) = take_bit n v" by (simp only: take_bit_take_bit) simp
  then have "take_bit (n + m) v = v" by (simp only: assms(2))
  then show ?thesis using assms(1) by (simp only: take_bit_or take_bit_push_bit) simp
qed

lemma length_code_bits:
  assumes "min_match \<le> n" "n \<le> max_match"
  shows "code_ok (length_code n)" "code_bits (length_code n) = length_bits n"
proof -
  let ?k = "bit_width n - 2"
  let ?p = "push_bit 1 (push_bit ?k 1 - 1) :: u32" and ?v = "of_nat (n - 2 ^ (?k + 1)) :: u32"
  have long: "take_bit (2 * ?k + 2) (push_bit (?k + 1) ?p OR ?v) = push_bit (?k + 1) ?p OR ?v \<and> 2 * ?k + 2 \<le> 32 \<and>
    bits (2 * ?k + 2) (push_bit (?k + 1) ?p OR ?v) = length_bits n" if "n \<noteq> min_match"
  proof -
    have n: "2 ^ (?k + 1) \<le> n" "n < 2 ^ (?k + 2)" "?k \<le> 14"
      using that assms length_bit_width [of n] by (simp_all add: max_length_ones_def)
    have "n - 2 ^ (?k + 1) < 2 ^ (?k + 1)" using n by simp
    moreover have "(2 :: nat) ^ (?k + 1) \<le> 2 ^ 15" using n(3) by (intro power_increasing) simp_all
    ultimately have "unat ?v < 2 ^ (?k + 1)" by (simp add: unsigned_of_nat take_bit_nat_eq_self)
    then have v: "take_bit (?k + 1) ?v = ?v" by (rule word_take_bit_self)
    have "bits (?k + 1) ?p = bits ?k (push_bit ?k 1 - 1 :: u32) @ [False]"
      using bits_push_or [of ?k 1 "0 :: u32" "push_bit ?k 1 - 1 :: u32"] n(3) by (simp add: bits_Suc)
    then have p: "bits (?k + 1) ?p = replicate ?k True @ [False]"
      using bits_mask [of ?k, where 'a = 32] n(3) by simp
    have "take_bit (?k + 1) (push_bit 1 (mask ?k)) = (push_bit 1 (mask ?k) :: u32)"
      by (simp only: take_bit_push_bit) simp
    then have "take_bit (?k + 1) ?p = ?p" unfolding mask_eq_exp_minus_1 by (simp only: push_bit_of_1)
    moreover have "2 * ?k + 2 = ?k + 1 + (?k + 1)" by simp
    ultimately have "take_bit (2 * ?k + 2) (push_bit (?k + 1) ?p OR ?v) = push_bit (?k + 1) ?p OR ?v"
      using v by (simp only: take_bit_push_or)
    moreover have "bits (2 * ?k + 2) (push_bit (?k + 1) ?p OR ?v) = length_bits n"
      using bits_push_or [of "?k + 1" "?k + 1" ?v ?p] v p n(3) that
      by (simp add: length_bits_def Let_def mult_2)
    ultimately show ?thesis using n(3) by simp
  qed
  show "code_ok (length_code n)"
    using long by (simp add: length_code_def code_ok_def Let_def)
  show "code_bits (length_code n) = length_bits n"
    using long by (cases "n = min_match") (simp_all add: length_code_def code_bits_def Let_def length_bits_def bits_Suc)
qed

text \<open>A match distance: the token with the largest base not above it.\<close>

lemma distance_index:
  "distance_index i d \<le> i \<and> (0 < distance_index i d \<longrightarrow> tk_base (match_tokens ! distance_index i d) \<le> d) \<and>
   (\<forall>k. distance_index i d < k \<longrightarrow> k \<le> i \<longrightarrow> d < tk_base (match_tokens ! k))"
  by (induction i) (auto simp: le_Suc_eq)

lemma match_token_facts:
  "length match_tokens = 11"
  "tk_base (match_tokens ! 0) = 0"
  "list_all (\<lambda>i. Suc i < length tokens \<and> match_tokens ! i = tokens ! Suc i \<and> tk_match (tokens ! Suc i) \<and>
     (if i < 10 then uint (tk_base (match_tokens ! Suc i)) else 4511392) =
       uint (tk_base (tokens ! Suc i)) + 2 ^ tk_value_bits (tokens ! Suc i)) [0..<11]"
  by code_simp+

definition max_distance :: nat where "max_distance = 4511392"

lemma distance_code_bits:
  assumes "unat d < max_distance"
  shows "\<exists>t < length tokens. tk_match (tokens ! t) \<and> tk_base (tokens ! t) + cd_bits (snd (distance_code d)) = d \<and>
    code_ok (fst (distance_code d)) \<and> code_ok (snd (distance_code d)) \<and>
    take_bit (tk_value_bits (tokens ! t)) (cd_bits (snd (distance_code d))) = cd_bits (snd (distance_code d)) \<and>
    code_bits (fst (distance_code d)) @ code_bits (snd (distance_code d)) =
      token_bits (tokens ! t) (cd_bits (snd (distance_code d)))"
proof -
  let ?i = "distance_index 10 d"
  let ?t = "tokens ! Suc ?i"
  have i: "?i \<le> 10" and lo: "0 < ?i \<longrightarrow> tk_base (match_tokens ! ?i) \<le> d"
    and hi: "?i < 10 \<longrightarrow> d < tk_base (match_tokens ! Suc ?i)"
    using distance_index [of 10 d] by auto
  then have t: "Suc ?i < length tokens" "match_tokens ! ?i = ?t" "tk_match ?t"
    and above: "(if ?i < 10 then uint (tk_base (match_tokens ! Suc ?i)) else 4511392) = uint (tk_base ?t) + 2 ^ tk_value_bits ?t"
    using match_token_facts(3) by (simp_all add: list_all_iff del: upt_rec_numeral)
  have lo: "tk_base ?t \<le> d" using lo t(2) match_token_facts(2) by (cases "?i = 0") (simp_all add: word_le_nat_alt)
  have "uint d < uint (tk_base ?t) + 2 ^ tk_value_bits ?t"
  proof (cases "?i < 10")
    case True
    then show ?thesis using hi above by (simp add: word_less_def)
  next
    case False
    moreover have "uint d < 4511392" using assms unfolding max_distance_def uint_nat by linarith
    ultimately show ?thesis using above by simp
  qed
  then have "uint (d - tk_base ?t) < 2 ^ tk_value_bits ?t" using lo by (simp add: uint_minus_simple_alt word_le_def)
  then have "unat (d - tk_base ?t) < 2 ^ tk_value_bits ?t" by (simp only: uint_nat of_nat_less_numeral_power_cancel_iff)
  then have v: "take_bit (tk_value_bits ?t) (d - tk_base ?t) = d - tk_base ?t" by (rule word_take_bit_self)
  have dc: "distance_code d = (\<lparr>cd_bits = ucast (tk_prefix ?t), cd_length = tk_prefix_length ?t\<rparr>,
      \<lparr>cd_bits = d - tk_base ?t, cd_length = tk_value_bits ?t\<rparr>)"
    using t(2) by (simp add: distance_code_def match_token_facts(1) Let_def)
  show ?thesis
    using t v tokenD [OF t(1)] take_bit_ucast_eq [OF prefix_small [OF t(1)]] unfolding dc
    by (intro exI [of _ "Suc ?i"]) (simp add: code_ok_def code_bits_def token_bits_def bits_ucast)
qed

end
