(* ===== verification/Zgfx_Decompress.thy ===== *)
theory Zgfx_Decompress
  imports Zgfx_Code
begin

text \<open>
  \<open>ZgfxDecompressor\<close> of \<open>codec/zgfx.cpp\<close>: the history ring, the token loop of a compressed segment and
  the framing of segments. Unsigned subtractions and divisions that the code leaves unguarded are
  assertions here, so that a result other than \<open>None\<close> says that none of them wraps.
\<close>

section \<open>Model: variants\<close>

datatype zgfx_variant = Rdp8 | Rdp8_Lite

definition descriptor_single :: byte where "descriptor_single = 0xE0"
definition descriptor_multipart :: byte where "descriptor_multipart = 0xE1"
definition compression_type_mask :: byte where "compression_type_mask = 0x0F"
definition zgfx_packet_compressed :: byte where "zgfx_packet_compressed = 0x20"
definition packet_compr_type_rdp8 :: byte where "packet_compr_type_rdp8 = 0x04"
definition packet_compr_type_rdp8_lite :: byte where "packet_compr_type_rdp8_lite = 0x06"
definition max_segment_size :: nat where "max_segment_size = 65535"
definition history_size :: nat where "history_size = 2500000"
definition max_segment_count :: nat where "max_segment_count = 65535"
definition lite_max_segment_size :: nat where "lite_max_segment_size = 8192"
definition lite_history_size :: nat where "lite_history_size = 8192"

record zgfx_params =
  pm_history :: nat
  pm_max_segment :: nat
  pm_type :: byte

fun params :: "zgfx_variant \<Rightarrow> zgfx_params" where
  "params Rdp8_Lite = \<lparr>pm_history = lite_history_size, pm_max_segment = lite_max_segment_size,
     pm_type = packet_compr_type_rdp8_lite\<rparr>"
| "params Rdp8 = \<lparr>pm_history = history_size, pm_max_segment = max_segment_size, pm_type = packet_compr_type_rdp8\<rparr>"

section \<open>Model: the history ring\<close>

record zgfx_dec =
  zd_variant :: zgfx_variant
  zd_p :: zgfx_params
  zd_max_output :: nat
  zd_ring :: bytes
  zd_ring_pos :: nat

definition zd_new :: "zgfx_variant \<Rightarrow> nat \<Rightarrow> zgfx_dec" where
  "zd_new v limit = \<lparr>zd_variant = v, zd_p = params v, zd_max_output = limit, zd_ring = [], zd_ring_pos = 0\<rparr>"

definition zd_reset :: "zgfx_dec \<Rightarrow> zgfx_dec" where
  "zd_reset d = d\<lparr>zd_ring := [], zd_ring_pos := 0\<rparr>"

definition copy_to :: "bytes \<Rightarrow> nat \<Rightarrow> bytes \<Rightarrow> bytes" where
  "copy_to r pos bs = take pos r @ bs @ drop (pos + length bs) r"

function ring_fill :: "bytes \<Rightarrow> nat \<Rightarrow> bytes \<Rightarrow> (bytes \<times> nat) option" where
  "ring_fill r pos bs =
     (if bs = [] then Some (r, pos)
      else if pos < length r
      then let n = min (length bs) (length r - pos)
           in ring_fill (copy_to r pos (take n bs)) ((pos + n) mod length r) (drop n bs)
      else None)"
  by pat_completeness auto
termination
  by (relation "measure (\<lambda>(r, pos, bs). length bs)") auto

declare ring_fill.simps [simp del]

definition zd_record :: "bytes \<Rightarrow> zgfx_dec \<Rightarrow> zgfx_dec option" where
  "zd_record bs d =
     (let history = pm_history (zd_p d);
          bs = (if length bs > history then drop (length bs - history) bs else bs);
          grow = take (min (length bs) (history - length (zd_ring d))) bs;
          (d, bs) = (if length (zd_ring d) < history
            then (d\<lparr>zd_ring := zd_ring d @ grow, zd_ring_pos := length (zd_ring d @ grow) mod history\<rparr>, drop (length grow) bs)
            else (d, bs))
      in do {
        (r, pos) \<leftarrow> ring_fill (zd_ring d) (zd_ring_pos d) bs;
        Some (d\<lparr>zd_ring := r, zd_ring_pos := pos\<rparr>)
      })"

function repeat_copy :: "nat \<Rightarrow> bytes \<Rightarrow> bytes option" where
  "repeat_copy n dst =
     (if length dst < n
      then if dst = [] then None else repeat_copy n (dst @ take (min (length dst) (n - length dst)) dst)
      else Some dst)"
  by pat_completeness auto
termination
  by (relation "measure (\<lambda>(n, dst). n - length dst)") (auto simp: min_def simp flip: length_greater_0_conv)

declare repeat_copy.simps [simp del]

definition copy_match :: "nat \<Rightarrow> nat \<Rightarrow> bytes \<Rightarrow> zgfx_dec \<Rightarrow> bytes option" where
  "copy_match distance n out d = do {
     let r = zd_ring d;
     let from_history = min n distance;
     wassert (r \<noteq> [] \<and> distance \<le> zd_ring_pos d + length r);
     let src = (zd_ring_pos d + length r - distance) mod length r;
     let before_wrap = min from_history (length r - src);
     wassert (from_history - before_wrap \<le> length r);
     dst \<leftarrow> repeat_copy n (take before_wrap (drop src r) @ take (from_history - before_wrap) r);
     Some (out @ dst)
   }"

section \<open>Model: segments\<close>

record bounds =
  bd_segment_start :: nat
  bd_limit :: nat
  bd_limit_error :: errc

definition check_room :: "zgfx_params \<Rightarrow> bounds \<Rightarrow> nat \<Rightarrow> nat \<Rightarrow> nat \<Rightarrow> unit result option" where
  "check_room p b used need off = do {
     wassert (bd_segment_start b \<le> used \<and> used - bd_segment_start b \<le> pm_max_segment p \<and> used \<le> bd_limit b);
     Some (if need > pm_max_segment p - (used - bd_segment_start b)
       then fail InvalidLength ''ZGFX segment decodes to more than the segment limit'' off
       else if need > bd_limit b - used then fail (bd_limit_error b) ''ZGFX output exceeds its limit'' off
       else Inr ())
   }"

text \<open>The locals of \<open>decode_segment\<close>, beside the decompressor itself.\<close>

record segment_state =
  ss_br :: bit_reader
  ss_out :: bytes
  ss_recorded :: nat
  ss_dec :: zgfx_dec

type_synonym 'a seg_action = "(segment_state, 'a) action"

definition seg_bits :: "'a bit_parser \<Rightarrow> 'a seg_action" where
  "seg_bits p s = (case p (ss_br s) of None \<Rightarrow> None | Some (x, br) \<Rightarrow> Some (x, s\<lparr>ss_br := br\<rparr>))"

definition seg_room :: "bounds \<Rightarrow> nat \<Rightarrow> nat \<Rightarrow> unit seg_action" where
  "seg_room b need off s =
     (case check_room (zd_p (ss_dec s)) b (length (ss_out s)) need off of None \<Rightarrow> None | Some x \<Rightarrow> Some (x, s))"

definition seg_push :: "byte \<Rightarrow> unit seg_action" where
  "seg_push v s = Some (Inr (), s\<lparr>ss_out := ss_out s @ [v]\<rparr>)"

definition seg_aligned :: "nat \<Rightarrow> unit seg_action" where
  "seg_aligned n s =
     (case br_read_aligned n (ss_out s) (ss_br s) of
       None \<Rightarrow> None
     | Some (Inl e, br) \<Rightarrow> Some (Inl e, s\<lparr>ss_br := br\<rparr>)
     | Some (Inr out, br) \<Rightarrow> Some (Inr (), s\<lparr>ss_br := br, ss_out := out\<rparr>))"

definition seg_sync :: "unit seg_action" where
  "seg_sync s = do {
     d \<leftarrow> zd_record (drop (ss_recorded s) (ss_out s)) (ss_dec s);
     Some (Inr (), s\<lparr>ss_dec := d, ss_recorded := length (ss_out s)\<rparr>)
   }"

definition seg_match :: "nat \<Rightarrow> nat \<Rightarrow> unit seg_action" where
  "seg_match distance n s = do {
     out \<leftarrow> copy_match distance n (ss_out s) (ss_dec s);
     Some (Inr (), s\<lparr>ss_out := out\<rparr>)
   }"

function decode_ones :: "nat \<Rightarrow> nat \<Rightarrow> nat bit_parser" where
  "decode_ones token_at ones = atry (br_read 1) (\<lambda>b.
     if b = 0 then aret ones
     else if Suc ones > max_length_ones then afail InvalidValue ''ZGFX match length prefix is too long'' token_at
     else decode_ones token_at (Suc ones))"
  by pat_completeness auto
termination
  by (relation "measure (\<lambda>(_, ones). Suc max_length_ones - ones)") auto

declare decode_ones.simps [simp del]

definition decode_length :: "nat \<Rightarrow> nat bit_parser" where
  "decode_length token_at = atry (br_read 1) (\<lambda>first.
     if first \<noteq> 0
     then atry (decode_ones token_at 1) (\<lambda>ones. atry (br_read (ones + 1)) (\<lambda>extra. aret (2 ^ (ones + 1) + unat extra)))
     else aret min_match)"

text \<open>One turn of the token loop: the token, then what its value asks for.\<close>

definition decode_value :: "bounds \<Rightarrow> nat \<Rightarrow> token \<Rightarrow> u32 \<Rightarrow> unit seg_action" where
  "decode_value b token_at token value =
     (let distance = tk_base token + value in
      if \<not> tk_match token
      then atry (seg_room b 1 token_at) (\<lambda>_. seg_push (ucast distance))
      else if distance = 0
      then
        atry (seg_bits (br_read 15)) (\<lambda>count.
        atry (seg_room b (unat count) token_at) (\<lambda>_.
        seg_aligned (unat count)))
      else
        atry (seg_bits (decode_length token_at)) (\<lambda>n.
        atry seg_sync (\<lambda>_ s.
        (if unat distance > length (zd_ring (ss_dec s))
         then afail InvalidValue ''ZGFX match distance reaches before the history'' token_at
         else atry (seg_room b n token_at) (\<lambda>_. seg_match (unat distance) n)) s)))"

definition decode_token :: "bounds \<Rightarrow> unit seg_action" where
  "decode_token b s =
     (let token_at = rd_offset (br_r (ss_br s));
          (v, br) = br_peek lookup_bits (ss_br s);
          index = token_lookup v;
          token = tokens ! index in
      (if index = reserved_token then afail InvalidValue ''reserved ZGFX token'' token_at
       else
         atry (seg_bits (br_skip (tk_prefix_length token))) (\<lambda>_.
         atry (seg_bits (br_read (tk_value_bits token))) (decode_value b token_at token)))
      (s\<lparr>ss_br := br\<rparr>))"

section \<open>The token loop ends\<close>

lemma peek_lookup_less: "unat (fst (br_peek lookup_bits br)) < 512"
proof -
  have "unat (drop_bit 55 (br_acc (br_fill 9 br))) < 512"
    unfolding unat_drop_bit_eq unfolding drop_bit_eq_div
    using unsigned_less [of "br_acc (br_fill 9 br)", where 'a = nat] by (simp add: less_mult_imp_div_less)
  then show ?thesis
    by (simp add: br_peek_def lookup_bits_def Let_def unsigned_ucast_eq take_bit_nat_eq_self)
qed


text \<open>No step gives bits back, and a token takes those of its prefix.\<close>

definition seg_rem :: "segment_state \<Rightarrow> nat" where
  "seg_rem s = br_remaining (ss_br s)"

lemma br_fill_remaining [simp]: "br_remaining (br_fill n br) = br_remaining br"
  by (induction n br rule: br_fill.induct) (simp add: br_fill.simps split: prod.split sum.split)

lemma br_take_buffered_remaining: "br_take_buffered n out br = (m, out', br') \<Longrightarrow> br_remaining br' = br_remaining br"
  by (induction n out br rule: br_take_buffered.induct) (auto split: if_splits)

lemma shrinks_skip: "br_skip n br = Some (x, br') \<Longrightarrow> br_remaining br' \<le> br_remaining br \<and> (x = Inr () \<longrightarrow> br_remaining br' + n = br_remaining br)"
  by (auto simp: br_skip_def wassert_def fail_def split: if_splits)

lemma shrinks_read: "shrinks br_remaining (br_read n)"
  by (auto simp: shrinks_def br_read_def br_peek_def Let_def atry_def aret_def split: if_splits option.splits sum.splits
    dest!: shrinks_skip)

lemma shrinks_aligned: "br_read_aligned n out br = Some (x, br') \<Longrightarrow> br_remaining br' \<le> br_remaining br"
  by (auto simp: br_read_aligned_def Let_def split: if_splits prod.splits sum.splits dest!: br_take_buffered_remaining)

lemma shrinks_ones: "shrinks br_remaining (decode_ones token_at ones)"
proof (induction token_at ones rule: decode_ones.induct)
  case (1 token_at ones)
  show ?case
    by (subst decode_ones.simps, intro shrinks_try shrinks_read) (use 1 in \<open>auto intro: shrinks_ret shrinks_fail\<close>)
qed

lemma shrinks_length: "shrinks br_remaining (decode_length token_at)"
  unfolding decode_length_def by (auto intro!: shrinks_try shrinks_read shrinks_ret shrinks_ones)

lemma shrinks_seg_bits: "shrinks br_remaining p \<Longrightarrow> shrinks seg_rem (seg_bits p)"
  by (auto simp: shrinks_def seg_bits_def seg_rem_def split: option.splits)

lemma shrinks_seg:
  "shrinks seg_rem (seg_room b n off)" "shrinks seg_rem (seg_push v)" "shrinks seg_rem (seg_aligned n)"
  "shrinks seg_rem seg_sync" "shrinks seg_rem (seg_match distance n)"
  by (auto simp: shrinks_def seg_rem_def seg_room_def seg_push_def seg_aligned_def seg_sync_def seg_match_def
    split: option.splits sum.splits bind_splits dest: shrinks_aligned)

lemmas shrinks_intros = shrinks_if shrinks_try shrinks_ret shrinks_fail shrinks_seg shrinks_seg_bits shrinks_read shrinks_length

lemma shrinks_value: "shrinks seg_rem (decode_value b token_at token value)"
  unfolding decode_value_def Let_def by (auto intro!: shrinks_intros)

lemma decode_token_progress:
  assumes "decode_token b s = Some (Inr (), s')"
  shows "seg_rem s' < seg_rem s"
proof -
  let ?br = "snd (br_peek lookup_bits (ss_br s))" and ?t = "token_lookup (fst (br_peek lookup_bits (ss_br s)))"
  let ?rest = "atry (seg_bits (br_read (tk_value_bits (tokens ! ?t)))) (decode_value b (rd_offset (br_r (ss_br s))) (tokens ! ?t))"
  have t: "?t \<noteq> reserved_token" using assms by (auto simp: decode_token_def Let_def case_prod_beta afail_def)
  then have "?t < length tokens" using token_lookup_index [OF peek_lookup_less] by blast
  then have pos: "0 < tk_prefix_length (tokens ! ?t)" by (rule tokenD)
  have rem: "br_remaining ?br = br_remaining (ss_br s)" by (simp add: br_peek_def Let_def)
  have le: "shrinks seg_rem ?rest" by (intro shrinks_intros shrinks_value)
  obtain br' where skip: "br_skip (tk_prefix_length (tokens ! ?t)) ?br = Some (Inr (), br')"
    "?rest (s\<lparr>ss_br := br'\<rparr>) = Some (Inr (), s')"
    using assms t by (auto simp: decode_token_def Let_def case_prod_beta atry_def [of "seg_bits (br_skip _)"] seg_bits_def [of "br_skip _"]
      split: option.splits sum.splits)
  then have "seg_rem s' \<le> br_remaining br'" using le unfolding shrinks_def seg_rem_def by fastforce
  with shrinks_skip [OF skip(1)] pos rem show ?thesis by (simp add: seg_rem_def)
qed

section \<open>Model: the loop and the framing\<close>

function decode_tokens :: "bounds \<Rightarrow> unit seg_action" where
  "decode_tokens b s =
     (if br_remaining (ss_br s) > 0
      then (case decode_token b s of
          None \<Rightarrow> None
        | Some (Inl e, s) \<Rightarrow> Some (Inl e, s)
        | Some (Inr _, s) \<Rightarrow> decode_tokens b s)
      else seg_sync s)"
  by pat_completeness auto
termination
  by (relation "measure (\<lambda>(b, s). seg_rem s)") (auto dest!: sym [of "Some _"] decode_token_progress)

declare decode_tokens.simps [simp del]

definition decode_segment :: "reader \<Rightarrow> bytes \<Rightarrow> nat \<Rightarrow> errc \<Rightarrow> zgfx_dec \<Rightarrow> (unit result \<times> bytes \<times> zgfx_dec) option" where
  "decode_segment seg out limit limit_error d =
     (let p = zd_p d;
          b = \<lparr>bd_segment_start = length out, bd_limit = limit, bd_limit_error = limit_error\<rparr>;
          header_at = rd_offset seg in
      case rd_u8 seg of
        (Inl e, _) \<Rightarrow> Some (Inl e, out, d)
      | (Inr header, seg) \<Rightarrow>
          if header AND compression_type_mask \<noteq> pm_type p
          then Some (fail Unsupported ''RDP8_BULK_ENCODED_DATA has an unexpected compression type'' header_at, out, d)
          else if header AND zgfx_packet_compressed = 0
          then do {
            let data = rd_rest seg;
            room \<leftarrow> check_room p b (length out) (length data) (rd_offset seg);
            case room of
              Inl e \<Rightarrow> Some (Inl e, out, d)
            | Inr _ \<Rightarrow> do {
                d \<leftarrow> zd_record data d;
                Some (Inr (), out @ data, d)
              }
          }
          else if rd_empty seg
          then Some (fail Truncated ''compressed ZGFX segment has no trailer byte'' (rd_offset seg), out, d)
          else (case rd_sub (rd_remaining seg - 1) seg of
            (Inl e, _) \<Rightarrow> Some (Inl e, out, d)
          | (Inr stream, seg) \<Rightarrow>
              let trailer_at = rd_offset seg in
              (case rd_u8 seg of
                (Inl e, _) \<Rightarrow> Some (Inl e, out, d)
              | (Inr unused, seg) \<Rightarrow>
                  if unused > 7
                  then Some (fail InvalidValue ''ZGFX segment trailer is above 7'' trailer_at, out, d)
                  else if unat unused > length (rd_data stream) * 8
                  then Some (fail InvalidLength ''ZGFX segment trailer exceeds the bit stream'' trailer_at, out, d)
                  else do {
                    br \<leftarrow> br_new stream (length (rd_data stream) * 8 - unat unused);
                    (x, s) \<leftarrow> decode_tokens b \<lparr>ss_br = br, ss_out = out, ss_recorded = length out, ss_dec = d\<rparr>;
                    Some (x, ss_out s, ss_dec s)
                  })))"

fun decode_segments :: "nat \<Rightarrow> nat \<Rightarrow> reader \<Rightarrow> bytes \<Rightarrow> zgfx_dec \<Rightarrow> (bytes result \<times> reader \<times> zgfx_dec) option" where
  "decode_segments 0 limit r out d = Some (Inr out, r, d)"
| "decode_segments (Suc n) limit r out d =
     (case ptry rd_u32le (\<lambda>segment_size. rd_sub (unat segment_size)) r of
       (Inl e, r) \<Rightarrow> Some (Inl e, r, d)
     | (Inr segment, r) \<Rightarrow>
         (case decode_segment segment out limit InvalidLength d of
           None \<Rightarrow> None
         | Some (Inl e, _, d) \<Rightarrow> Some (Inl e, r, d)
         | Some (Inr _, out, d) \<Rightarrow> decode_segments n limit r out d))"

definition zd_decompress :: "bytes \<Rightarrow> zgfx_dec \<Rightarrow> (bytes result \<times> zgfx_dec) option" where
  "zd_decompress data d =
     (let p = zd_p d in
      case rd_u8 (mk_reader data 0) of
        (Inl e, _) \<Rightarrow> Some (Inl e, d)
      | (Inr descriptor, r) \<Rightarrow>
          if descriptor = descriptor_single
          then (case rd_sub (rd_remaining r) r of
              (Inl e, _) \<Rightarrow> Some (Inl e, d)
            | (Inr segment, _) \<Rightarrow>
                (case decode_segment segment [] (zd_max_output d) LimitExceeded d of
                  None \<Rightarrow> None
                | Some (Inl e, _, d) \<Rightarrow> Some (Inl e, d)
                | Some (Inr _, out, d) \<Rightarrow> Some (Inr out, d)))
          else if descriptor \<noteq> descriptor_multipart
          then Some (fail InvalidValue ''unknown RDP_SEGMENTED_DATA descriptor'' 0, d)
          else
            let header_at = rd_offset r in
            (case ptry rd_u16le (\<lambda>count. ptry rd_u32le (\<lambda>uncompressed_size. pret (unat count, unat uncompressed_size))) r of
              (Inl e, _) \<Rightarrow> Some (Inl e, d)
            | (Inr (count, uncompressed_size), r) \<Rightarrow>
                if count = 0
                then Some (fail InvalidValue ''MULTIPART RDP_SEGMENTED_DATA without segments'' header_at, d)
                else if uncompressed_size > zd_max_output d
                then Some (fail LimitExceeded ''ZGFX uncompressedSize exceeds the output limit'' header_at, d)
                else if uncompressed_size > count * pm_max_segment p
                then Some (fail InvalidLength ''ZGFX uncompressedSize exceeds what its segments can hold'' header_at, d)
                else if count > rd_remaining r div 5
                then Some (fail Truncated ''ZGFX segmentCount exceeds the input'' header_at, d)
                else
                  (case decode_segments count uncompressed_size r [] d of
                    None \<Rightarrow> None
                  | Some (Inl e, _, d) \<Rightarrow> Some (Inl e, d)
                  | Some (Inr out, r, d) \<Rightarrow>
                      (case rd_expect_end ''trailing data after the last ZGFX segment'' r of
                        (Inl e, _) \<Rightarrow> Some (Inl e, d)
                      | (Inr _, _) \<Rightarrow>
                          if length out \<noteq> uncompressed_size
                          then Some (fail InvalidLength ''ZGFX segments do not add up to uncompressedSize'' header_at, d)
                          else Some (Inr out, d)))))"

section \<open>The history\<close>

text \<open>The last \<open>n\<close> elements of a list, and the history a ring holds, oldest byte first.\<close>

definition lastn :: "nat \<Rightarrow> 'a list \<Rightarrow> 'a list" where
  "lastn n xs = drop (length xs - n) xs"

definition rotated :: "nat \<Rightarrow> 'a list \<Rightarrow> 'a list" where
  "rotated pos r = drop pos r @ take pos r"

definition zd_hist :: "zgfx_dec \<Rightarrow> bytes" where
  "zd_hist d = (if length (zd_ring d) < pm_history (zd_p d) then zd_ring d else rotated (zd_ring_pos d) (zd_ring d))"

definition zd_ok :: "zgfx_dec \<Rightarrow> bool" where
  "zd_ok d \<longleftrightarrow> zd_p d = params (zd_variant d) \<and> length (zd_ring d) \<le> pm_history (zd_p d) \<and>
     (if length (zd_ring d) < pm_history (zd_p d) then zd_ring_pos d = length (zd_ring d)
      else zd_ring_pos d < pm_history (zd_p d))"

lemma length_lastn [simp]: "length (lastn n xs) = min n (length xs)"
  by (simp add: lastn_def)

lemma lastn_all [simp]: "length xs \<le> n \<Longrightarrow> lastn n xs = xs"
  by (simp add: lastn_def)

lemma lastn_append: "lastn n (xs @ ys) = lastn (n - length ys) xs @ lastn n ys"
  by (cases "length ys \<le> n") (simp_all add: lastn_def)

lemma lastn_lastn [simp]: "lastn n (lastn m xs) = lastn (min n m) xs"
  by (cases "m \<le> length xs") (auto simp: lastn_def min_def)

lemma lastn_absorb [simp]: "lastn n (lastn n xs @ ys) = lastn n (xs @ ys)" "lastn n (xs @ lastn n ys) = lastn n (xs @ ys)"
  by (auto simp: lastn_append min_def)

lemma length_rotated [simp]: "length (rotated pos r) = length r"
  by (simp add: rotated_def)

lemma length_copy_to [simp]: "pos + length bs \<le> length r \<Longrightarrow> length (copy_to r pos bs) = length r"
  by (simp add: copy_to_def)

lemma rotated_copy_to:
  assumes "pos < length r" "pos + length bs \<le> length r"
  shows "rotated ((pos + length bs) mod length r) (copy_to r pos bs) = lastn (length r) (rotated pos r @ bs)"
proof (cases "pos + length bs = length r")
  case True
  then show ?thesis using assms by (simp add: rotated_def copy_to_def lastn_append) (simp add: lastn_def)
next
  case False
  then show ?thesis using assms by (simp add: rotated_def copy_to_def lastn_append) (simp add: lastn_def add.commute)
qed

lemma ring_fill_ok:
  assumes "pos < length r"
  shows "\<exists>r' pos'. ring_fill r pos bs = Some (r', pos') \<and> length r' = length r \<and> pos' < length r \<and>
    rotated pos' r' = lastn (length r) (rotated pos r @ bs)"
  using assms
proof (induction r pos bs rule: ring_fill.induct)
  case (1 r pos bs)
  show ?case
  proof (cases "bs = []")
    case False
    let ?n = "min (length bs) (length r - pos)"
    let ?r = "copy_to r pos (take ?n bs)" and ?pos = "(pos + ?n) mod length r"
    have r: "length ?r = length r" using "1.prems" by simp
    have "?pos < length ?r" unfolding r using "1.prems" by (intro mod_less_divisor) auto
    then obtain r' pos' where IH: "ring_fill ?r ?pos (drop ?n bs) = Some (r', pos')" "length r' = length r" "pos' < length r"
      "rotated pos' r' = lastn (length r) (rotated ?pos ?r @ drop ?n bs)"
      using "1.IH" [OF False "1.prems" refl] r by auto
    have "rotated ?pos ?r = lastn (length r) (rotated pos r @ take ?n bs)"
      using rotated_copy_to [of pos r "take ?n bs"] "1.prems" by simp
    with IH have "rotated pos' r' = lastn (length r) (rotated pos r @ bs)" by simp
    with IH(1-3) False "1.prems" show ?thesis by (simp add: ring_fill.simps [of r pos bs] Let_def)
  qed (use 1 in \<open>simp add: ring_fill.simps [of r pos "[]"]\<close>)
qed

lemma history_pos: "0 < pm_history (params v)"
  by (cases v) (simp_all add: lite_history_size_def history_size_def)

lemma length_zd_hist [simp]: "length (zd_hist d) = length (zd_ring d)"
  by (simp add: zd_hist_def)

lemma zd_record_ok:
  assumes "zd_ok d"
  shows "\<exists>d'. zd_record bs d = Some d' \<and> zd_ok d' \<and> zd_hist d' = lastn (pm_history (zd_p d)) (zd_hist d @ bs) \<and>
    zd_p d' = zd_p d \<and> zd_variant d' = zd_variant d \<and> zd_max_output d' = zd_max_output d"
proof -
  let ?H = "pm_history (zd_p d)"
  let ?bs = "lastn ?H bs"
  have H: "0 < ?H" and p: "zd_p d = params (zd_variant d)" using assms history_pos by (simp_all add: zd_ok_def)
  have bs: "(if length bs > ?H then drop (length bs - ?H) bs else bs) = ?bs" by (simp add: lastn_def)
  have full: "\<exists>r' pos'. ring_fill r pos ys = Some (r', pos') \<and> zd_ok (d\<lparr>zd_ring := r', zd_ring_pos := pos'\<rparr>) \<and>
      zd_hist (d\<lparr>zd_ring := r', zd_ring_pos := pos'\<rparr>) = lastn ?H (rotated pos r @ ys)"
    if full: "length r = ?H" "pos < ?H" for r pos ys
  proof -
    obtain r' pos' where "ring_fill r pos ys = Some (r', pos')" "length r' = length r" "pos' < length r"
      "rotated pos' r' = lastn (length r) (rotated pos r @ ys)"
      using ring_fill_ok [of pos r ys] full by auto
    then show ?thesis using full p by (intro exI [of _ r'] exI [of _ pos']) (simp add: zd_ok_def zd_hist_def)
  qed
  show ?thesis
  proof (cases "length (zd_ring d) < ?H")
    case False
    then have "length (zd_ring d) = ?H" "zd_ring_pos d < ?H" using assms by (auto simp: zd_ok_def)
    with full [of "zd_ring d" "zd_ring_pos d" ?bs] False bs show ?thesis
      by (auto simp: zd_record_def Let_def zd_hist_def)
  next
    case True
    let ?grow = "take (min (length ?bs) (?H - length (zd_ring d))) ?bs"
    have grow: "?grow @ drop (length ?grow) ?bs = ?bs" by (simp add: min_def)
    show ?thesis
    proof (cases "length (zd_ring d) + length ?bs < ?H")
      case small: True
      then have "length bs \<le> ?H" "length (zd_ring d) + length bs < ?H" by (simp_all add: min_def split: if_splits)
      with True p show ?thesis
        by (simp add: zd_record_def Let_def ring_fill.simps zd_ok_def zd_hist_def)
    next
      case False
      then have "length (zd_ring d @ ?grow) = ?H" using True by simp
      then have "\<exists>r' pos'. ring_fill (zd_ring d @ ?grow) 0 (drop (length ?grow) ?bs) = Some (r', pos') \<and>
          zd_ok (d\<lparr>zd_ring := r', zd_ring_pos := pos'\<rparr>) \<and>
          zd_hist (d\<lparr>zd_ring := r', zd_ring_pos := pos'\<rparr>) = lastn ?H (zd_ring d @ ?grow @ drop (length ?grow) ?bs)"
        using full [of "zd_ring d @ ?grow" 0 "drop (length ?grow) ?bs"] H by (simp add: rotated_def)
      moreover have "length (zd_ring d @ ?grow) mod ?H = 0" using \<open>length (zd_ring d @ ?grow) = ?H\<close> by simp
      ultimately show ?thesis
        using True bs unfolding grow by (auto simp: zd_record_def Let_def zd_hist_def simp del: length_append)
    qed
  qed
qed


section \<open>Matches\<close>

text \<open>What a match stands for: the bytes from \<open>distance\<close> back, repeated as far as the length asks.\<close>

definition lz_copy :: "nat \<Rightarrow> nat \<Rightarrow> bytes \<Rightarrow> bytes" where
  "lz_copy distance n h = map (\<lambda>i. h ! (length h - distance + i mod distance)) [0..<n]"

lemma length_lz_copy [simp]: "length (lz_copy distance n h) = n"
  by (simp add: lz_copy_def)

lemma repeat_copy_ok:
  assumes "src \<noteq> []" "dst \<noteq> [] \<or> n = 0" "length dst \<le> n" "length dst < n \<Longrightarrow> length src dvd length dst"
    "\<And>i. i < length dst \<Longrightarrow> dst ! i = src ! (i mod length src)"
  shows "repeat_copy n dst = Some (map (\<lambda>i. src ! (i mod length src)) [0..<n])"
  using assms
proof (induction n dst rule: repeat_copy.induct)
  case (1 n dst)
  show ?case
  proof (cases "length dst < n")
    case True
    let ?k = "min (length dst) (n - length dst)"
    have ne: "dst \<noteq> []" using True "1.prems"(2) by auto
    have dvd: "length src dvd length dst" using "1.prems"(4) True by simp
    have "repeat_copy n (dst @ take ?k dst) = Some (map (\<lambda>i. src ! (i mod length src)) [0..<n])"
    proof (rule "1.IH" [OF True ne "1.prems"(1)])
      show "length src dvd length (dst @ take ?k dst)" if "length (dst @ take ?k dst) < n"
        using that dvd by (simp add: min_def split: if_splits)
      fix i assume i: "i < length (dst @ take ?k dst)"
      show "(dst @ take ?k dst) ! i = src ! (i mod length src)"
      proof (cases "i < length dst")
        case False
        then obtain j where j: "i = length dst + j" by (metis le_Suc_ex linorder_not_less)
        then have "(i - length dst) mod length src = i mod length src" using dvd by (auto elim!: dvdE)
        moreover have "i - length dst < ?k" using i j by simp
        ultimately show ?thesis using False "1.prems"(5) [of "i - length dst"] by (simp add: nth_append)
      qed (simp add: nth_append "1.prems"(5))
    qed (use ne True in auto)
    then show ?thesis using True ne by (simp add: repeat_copy.simps [of n dst])
  next
    case False
    then have "length dst = n" using "1.prems"(3) by simp
    with "1.prems"(5) False show ?thesis
      by (simp add: repeat_copy.simps [of n dst]) (auto intro: nth_equalityI)
  qed
qed

lemma ring_source:
  assumes "zd_ok d" "0 < distance" "distance \<le> length (zd_ring d)" "k \<le> distance"
  defines "src \<equiv> (zd_ring_pos d + length (zd_ring d) - distance) mod length (zd_ring d)"
  shows "take k (drop src (zd_ring d) @ zd_ring d) = take k (drop (length (zd_ring d) - distance) (zd_hist d))"
proof (cases "length (zd_ring d) < pm_history (zd_p d)")
  case True
  then have "zd_ring_pos d = length (zd_ring d)" using assms(1) by (simp add: zd_ok_def)
  then have "src = length (zd_ring d) - distance" using assms(2,3) by (simp add: src_def mod_if)
  then show ?thesis using True assms(3,4) by (simp add: zd_hist_def)
next
  case False
  then have pos: "zd_ring_pos d < length (zd_ring d)" and hist: "zd_hist d = rotated (zd_ring_pos d) (zd_ring d)"
    using assms(1) by (auto simp: zd_ok_def zd_hist_def)
  show ?thesis
  proof (cases "distance \<le> zd_ring_pos d")
    case True
    then have "src = zd_ring_pos d - distance" using pos assms(2,3) by (simp add: src_def mod_if)
    with True pos assms(3,4) hist show ?thesis by (simp add: rotated_def take_drop [symmetric] drop_take min_def)
  next
    case False
    then have src: "src = zd_ring_pos d + length (zd_ring d) - distance" using pos assms(2,3) by (simp add: src_def)
    then have "drop src (zd_ring d) = drop (length (zd_ring d) - distance) (drop (zd_ring_pos d) (zd_ring d))"
      using assms(3) False pos by (simp add: add.commute)
    with False pos assms(3,4) hist src show ?thesis by (simp add: rotated_def min_def) arith
  qed
qed

lemma copy_match_ok:
  assumes "zd_ok d" "0 < distance" "distance \<le> length (zd_ring d)"
  shows "copy_match distance n out d = Some (out @ lz_copy distance n (zd_hist d))"
proof -
  let ?r = "zd_ring d" and ?k = "min n distance"
  let ?src = "(zd_ring_pos d + length ?r - distance) mod length ?r"
  let ?b = "min ?k (length ?r - ?src)" and ?h = "drop (length ?r - distance) (zd_hist d)"
  have ne: "?r \<noteq> []" using assms by auto
  have h: "length ?h = distance" using assms(3) by simp
  have "take ?b (drop ?src ?r) @ take (?k - ?b) ?r = take ?k (drop ?src ?r @ ?r)" by (simp add: min_def)
  also have "\<dots> = take ?k ?h" using assms by (intro ring_source) simp_all
  finally have src: "take ?b (drop ?src ?r) @ take (?k - ?b) ?r = take ?k ?h" .
  have "repeat_copy n (take ?k ?h) = Some (map (\<lambda>i. ?h ! (i mod length ?h)) [0..<n])"
  proof (rule repeat_copy_ok)
    show "?h \<noteq> []" "take ?k ?h \<noteq> [] \<or> n = 0" using assms(2,3) by auto
    show "length ?h dvd length (take ?k ?h)" if "length (take ?k ?h) < n" using that unfolding length_take h by (simp add: min_def split: if_splits)
    show "take ?k ?h ! i = ?h ! (i mod length ?h)" if "i < length (take ?k ?h)" for i
      using that unfolding length_take h by simp
  qed simp
  then have "repeat_copy n (take ?k ?h) = Some (lz_copy distance n (zd_hist d))"
    using h assms(2,3) by (simp add: lz_copy_def)
  with src ne assms(3) show ?thesis by (simp add: copy_match_def Let_def wassert_def)
qed

section \<open>No input breaks the decompressor\<close>

definition seg_ok :: "zgfx_variant \<Rightarrow> nat \<Rightarrow> bounds \<Rightarrow> segment_state \<Rightarrow> bool" where
  "seg_ok v m b s \<longleftrightarrow> br_ok (ss_br s) \<and> zd_ok (ss_dec s) \<and> zd_variant (ss_dec s) = v \<and> zd_max_output (ss_dec s) = m \<and>
     ss_recorded s \<le> length (ss_out s) \<and> bd_segment_start b \<le> length (ss_out s) \<and>
     length (ss_out s) - bd_segment_start b \<le> pm_max_segment (params v) \<and> length (ss_out s) \<le> bd_limit b"

definition has_room :: "zgfx_variant \<Rightarrow> bounds \<Rightarrow> nat \<Rightarrow> segment_state \<Rightarrow> bool" where
  "has_room v b n s \<longleftrightarrow> length (ss_out s) + n - bd_segment_start b \<le> pm_max_segment (params v) \<and> length (ss_out s) + n \<le> bd_limit b"

definition seg_safe :: "zgfx_variant \<Rightarrow> nat \<Rightarrow> bounds \<Rightarrow> (segment_state \<Rightarrow> bool) \<Rightarrow> 'a seg_action \<Rightarrow> bool" where
  "seg_safe v m b Q p \<longleftrightarrow> (\<forall>s. seg_ok v m b s \<longrightarrow> Q s \<longrightarrow> (\<exists>x s'. p s = Some (x, s') \<and> seg_ok v m b s'))"

lemma seg_safe_try:
  assumes "seg_safe v m b Q p" "\<And>x. seg_safe v m b (\<lambda>_. True) (f x)"
  shows "seg_safe v m b Q (atry p f)"
  unfolding seg_safe_def
proof (intro allI impI)
  fix s assume "seg_ok v m b s" "Q s"
  then obtain x s' where p: "p s = Some (x, s')" "seg_ok v m b s'" using assms(1) by (auto simp: seg_safe_def)
  show "\<exists>x s'. atry p f s = Some (x, s') \<and> seg_ok v m b s'"
  proof (cases x)
    case (Inr y)
    with p assms(2) [of y] show ?thesis by (simp add: atry_def seg_safe_def)
  qed (use p in \<open>simp add: atry_def\<close>)
qed

lemma seg_safe_fail: "seg_safe v m b Q (afail c what off)"
  by (simp add: seg_safe_def afail_def)

lemma seg_safe_if:
  "seg_safe v m b (\<lambda>s. Q s \<and> c s) p \<Longrightarrow> seg_safe v m b (\<lambda>s. Q s \<and> \<not> c s) q \<Longrightarrow> seg_safe v m b Q (\<lambda>s. (if c s then p else q) s)"
  by (simp add: seg_safe_def)

lemma seg_safe_bits: "br_safe p \<Longrightarrow> seg_safe v m b Q (seg_bits p)"
  unfolding seg_safe_def
proof (intro allI impI)
  fix s assume p: "br_safe p" and s: "seg_ok v m b s"
  then obtain x br where "p (ss_br s) = Some (x, br)" "br_ok br" by (auto simp: seg_ok_def elim: br_safeE)
  with s show "\<exists>x s'. seg_bits p s = Some (x, s') \<and> seg_ok v m b s'" by (simp add: seg_bits_def seg_ok_def)
qed

lemma seg_safe_room:
  assumes "seg_safe v m b (\<lambda>s. Q s \<and> has_room v b n s) p"
  shows "seg_safe v m b Q (atry (seg_room b n off) (\<lambda>_. p))"
  unfolding seg_safe_def
proof (intro allI impI)
  fix s assume s: "seg_ok v m b s" "Q s"
  then have p: "zd_p (ss_dec s) = params v" by (auto simp: seg_ok_def zd_ok_def)
  show "\<exists>x s'. atry (seg_room b n off) (\<lambda>_. p) s = Some (x, s') \<and> seg_ok v m b s'"
  proof (cases "has_room v b n s")
    case True
    then have "seg_room b n off s = Some (Inr (), s)"
      using s p by (auto simp: seg_room_def check_room_def wassert_def seg_ok_def has_room_def)
    with True assms s show ?thesis by (simp add: atry_def seg_safe_def)
  next
    case False
    then have "\<exists>e. seg_room b n off s = Some (Inl e, s)"
      using s p by (auto simp: seg_room_def check_room_def wassert_def seg_ok_def has_room_def fail_def)
    with s show ?thesis by (auto simp: atry_def)
  qed
qed

lemma seg_safe_push: "seg_safe v m b (has_room v b 1) (seg_push x)"
  by (auto simp: seg_safe_def seg_push_def seg_ok_def has_room_def)

lemma seg_safe_aligned: "seg_safe v m b (has_room v b n) (seg_aligned n)"
  unfolding seg_safe_def
proof (intro allI impI)
  fix s assume s: "seg_ok v m b s" and room: "has_room v b n s"
  then obtain x br where "br_read_aligned n (ss_out s) (ss_br s) = Some (x, br)" "br_ok br"
    "\<forall>out. x = Inr out \<longrightarrow> (\<exists>xs. out = ss_out s @ xs \<and> length xs = n)"
    using br_read_aligned_safe [of "ss_br s"] unfolding seg_ok_def by blast
  with s room show "\<exists>x s'. seg_aligned n s = Some (x, s') \<and> seg_ok v m b s'"
    by (cases x) (auto simp: seg_aligned_def seg_ok_def has_room_def)
qed

lemma seg_safe_sync: "seg_safe v m b Q seg_sync"
  unfolding seg_safe_def
proof (intro allI impI)
  fix s assume s: "seg_ok v m b s"
  then obtain d where "zd_record (drop (ss_recorded s) (ss_out s)) (ss_dec s) = Some d" "zd_ok d"
    "zd_variant d = zd_variant (ss_dec s)" "zd_max_output d = zd_max_output (ss_dec s)"
    using zd_record_ok [of "ss_dec s"] unfolding seg_ok_def by blast
  with s show "\<exists>x s'. seg_sync s = Some (x, s') \<and> seg_ok v m b s'" by (auto simp: seg_sync_def seg_ok_def)
qed

lemma seg_safe_match:
  "0 < distance \<Longrightarrow> seg_safe v m b (\<lambda>s. distance \<le> length (zd_ring (ss_dec s)) \<and> has_room v b n s) (seg_match distance n)"
  by (auto simp: seg_safe_def seg_match_def seg_ok_def has_room_def copy_match_ok)

lemma br_safe_ones: "ones \<le> max_length_ones \<Longrightarrow> br_safe (decode_ones token_at ones)"
proof (induction token_at ones rule: decode_ones.induct)
  case (1 token_at ones)
  show ?case
    by (subst decode_ones.simps, intro br_safe_try br_safe_read) (use 1 in \<open>auto intro: br_safe_ret br_safe_fail\<close>)
qed

lemma decode_ones_result:
  "decode_ones token_at ones br = Some (Inr k, br') \<Longrightarrow> ones \<le> max_length_ones \<Longrightarrow> k \<le> max_length_ones"
proof (induction token_at ones arbitrary: br rule: decode_ones.induct)
  case (1 token_at ones)
  show ?case
    using "1.prems" "1.IH"
    by (auto simp: decode_ones.simps [of token_at ones] atry_def aret_def afail_def split: option.splits sum.splits if_splits)
qed

lemma br_safe_length: "br_safe (decode_length token_at)"
proof -
  have "br_safe (atry (decode_ones token_at 1) (\<lambda>ones. atry (br_read (ones + 1)) (\<lambda>extra. aret (2 ^ (ones + 1) + unat extra))))"
    unfolding br_safe_def
  proof (intro allI impI)
    fix br assume ok: "br_ok br"
    have one: "1 \<le> max_length_ones" by (simp add: max_length_ones_def)
    obtain x br1 where 1: "decode_ones token_at 1 br = Some (x, br1)" "br_ok br1" "br_remaining br1 \<le> br_remaining br"
      using br_safe_ones [OF one] ok by (rule br_safeE)
    show "\<exists>x br'. atry (decode_ones token_at 1) (\<lambda>ones. atry (br_read (ones + 1)) (\<lambda>extra. aret (2 ^ (ones + 1) + unat extra))) br =
        Some (x, br') \<and> br_ok br' \<and> br_remaining br' \<le> br_remaining br"
    proof (cases x)
      case (Inr k)
      then have "k \<le> 14" using 1(1) decode_ones_result [OF _ one] by (simp add: max_length_ones_def)
      then have "br_safe (atry (br_read (k + 1)) (\<lambda>extra. aret (2 ^ (k + 1) + unat extra)))" by (intro br_safe_intros) simp_all
      from br_safeE [OF this 1(2)] 1 Inr show ?thesis by (fastforce simp: atry_def [of "decode_ones _ _"])
    qed (use 1 in \<open>simp add: atry_def\<close>)
  qed
  then show ?thesis unfolding decode_length_def by (auto intro!: br_safe_try br_safe_read br_safe_ret)
qed

lemma seg_safe_weaken: "seg_safe v m b (\<lambda>_. True) p \<Longrightarrow> seg_safe v m b Q p"
  by (simp add: seg_safe_def)

lemma seg_safe_value: "seg_safe v m b (\<lambda>_. True) (decode_value b token_at token value)"
proof -
  let ?d = "tk_base token + value"
  have literal: "seg_safe v m b (\<lambda>_. True) (atry (seg_room b 1 token_at) (\<lambda>_. seg_push x))" for x
    using seg_safe_push [of v m b x] by (intro seg_safe_room) simp
  have "seg_safe v m b (\<lambda>_. True) (atry (seg_room b n token_at) (\<lambda>_. seg_aligned n))" for n
    using seg_safe_aligned [of v m b n] by (intro seg_safe_room) simp
  then have run: "seg_safe v m b (\<lambda>_. True)
      (atry (seg_bits (br_read 15)) (\<lambda>count. atry (seg_room b (unat count) token_at) (\<lambda>_. seg_aligned (unat count))))"
    by (intro seg_safe_try [OF seg_safe_bits] br_safe_read) simp_all
  have "seg_safe v m b (\<lambda>s. True \<and> \<not> length (zd_ring (ss_dec s)) < unat ?d) (atry (seg_room b n token_at) (\<lambda>_. seg_match (unat ?d) n))"
    if "?d \<noteq> 0" for n
    using that seg_safe_match [of "unat ?d" v m b n] by (intro seg_safe_room) (simp add: unat_gt_0 not_less)
  then have "seg_safe v m b (\<lambda>_. True) (atry (seg_bits (decode_length token_at)) (\<lambda>n. atry seg_sync (\<lambda>_ s.
        (if unat ?d > length (zd_ring (ss_dec s))
         then afail InvalidValue ''ZGFX match distance reaches before the history'' token_at
         else atry (seg_room b n token_at) (\<lambda>_. seg_match (unat ?d) n)) s)))" if "?d \<noteq> 0"
    using that by (intro seg_safe_try [OF seg_safe_bits [OF br_safe_length]] seg_safe_try [OF seg_safe_sync] seg_safe_if seg_safe_fail)
  with literal run show ?thesis by (simp add: decode_value_def Let_def)
qed

lemma seg_safe_token: "seg_safe v m b (\<lambda>_. True) (decode_token b)"
  unfolding seg_safe_def
proof (intro allI impI)
  fix s assume s: "seg_ok v m b s"
  obtain w br where peek: "br_peek lookup_bits (ss_br s) = (w, br)" by fastforce
  then have peek9: "br_peek 9 (ss_br s) = (w, br)" by (simp add: lookup_bits_def)
  let ?t = "token_lookup w" and ?at = "rd_offset (br_r (ss_br s))"
  have "br_ok (ss_br s)" using s by (simp add: seg_ok_def)
  note br = br_peek_ok [OF this peek9, simplified]
  have s1: "seg_ok v m b (s\<lparr>ss_br := br\<rparr>)" using s br by (simp add: seg_ok_def)
  show "\<exists>x s'. decode_token b s = Some (x, s') \<and> seg_ok v m b s'"
  proof (cases "?t = reserved_token")
    case True
    then show ?thesis using peek s1 by (simp add: decode_token_def Let_def afail_def)
  next
    case False
    then have t: "?t < length tokens" using token_lookup_index peek_lookup_less [of "ss_br s"] peek by (auto simp: lookup_bits_def)
    let ?n = "tk_prefix_length (tokens ! ?t)"
    have skip: "seg_safe v m b (\<lambda>s. ss_br s = br) (seg_bits (br_skip ?n))"
    proof -
      have "?n \<le> br_buffered br" if "?n \<le> br_remaining br"
        using that br tokenD(2) [OF t] by (auto simp: br_ok_def)
      then have "\<exists>x br'. br_skip ?n br = Some (x, br') \<and> br_ok br'"
        using br_skip_ok [OF br(1), of ?n] br(1) by (cases "?n \<le> br_remaining br") (auto simp: br_skip_def)
      then show ?thesis by (auto simp: seg_safe_def seg_bits_def seg_ok_def)
    qed
    have "tk_value_bits (tokens ! ?t) \<le> 32" using tokenD(4) [OF t] by simp
    with skip have "seg_safe v m b (\<lambda>s. ss_br s = br) (atry (seg_bits (br_skip ?n)) (\<lambda>_.
      atry (seg_bits (br_read (tk_value_bits (tokens ! ?t)))) (decode_value b ?at (tokens ! ?t))))"
      by (intro seg_safe_try [OF skip] seg_safe_try [OF seg_safe_bits] br_safe_read seg_safe_value)
    then show ?thesis
      using s1 False peek by (auto simp: seg_safe_def decode_token_def Let_def)
  qed
qed

lemma seg_safe_tokens: "seg_ok v m b s \<Longrightarrow> \<exists>x s'. decode_tokens b s = Some (x, s') \<and> seg_ok v m b s'"
proof (induction b s rule: decode_tokens.induct)
  case (1 b s)
  show ?case
  proof (cases "br_remaining (ss_br s) > 0")
    case True
    obtain x s1 where t: "decode_token b s = Some (x, s1)" "seg_ok v m b s1"
      using seg_safe_token [of v m b] "1.prems" by (auto simp: seg_safe_def)
    show ?thesis
    proof (cases x)
      case (Inr u)
      then show ?thesis using "1.IH" [OF True t(1) refl Inr t(2)] t True by (simp add: decode_tokens.simps [of b s])
    qed (use t True in \<open>simp add: decode_tokens.simps [of b s]\<close>)
  next
    case False
    then show ?thesis using seg_safe_sync [of v m b "\<lambda>_. True"] "1.prems" by (simp add: decode_tokens.simps [of b s] seg_safe_def)
  qed
qed

definition same_dec :: "zgfx_dec \<Rightarrow> zgfx_dec \<Rightarrow> bool" where
  "same_dec d d' \<longleftrightarrow> zd_variant d' = zd_variant d \<and> zd_max_output d' = zd_max_output d"

lemma rd_sub_eq_Inr:
  "rd_sub n r = (Inr x, r') \<longleftrightarrow> n \<le> length (rd_rest r) \<and> x = mk_reader (take n (rd_rest r)) (rd_offset r) \<and> r' = rd_advance n r"
  by (auto simp: rd_sub_def pget_def ptry_eq_Inr rd_bytes_eq_Inr pret_def)

lemma check_room_safe:
  assumes "length out \<le> limit"
  shows "\<exists>x. check_room p \<lparr>bd_segment_start = length out, bd_limit = limit, bd_limit_error = e\<rparr> (length out) n at = Some x \<and>
    (x = Inr () \<longrightarrow> n \<le> pm_max_segment p \<and> length out + n \<le> limit)"
  using assms by (auto simp: check_room_def wassert_def)

lemma decode_segment_safe:
  assumes "zd_ok d" "rd_wf seg" "length out \<le> limit"
  shows "\<exists>x out' d'. decode_segment seg out limit e d = Some (x, out', d') \<and> zd_ok d' \<and> same_dec d d' \<and>
    length out \<le> length out' \<and> length out' \<le> limit \<and> length out' \<le> length out + pm_max_segment (zd_p d)"
proof -
  let ?Q = "\<lambda>x out' d'. zd_ok d' \<and> same_dec d d' \<and>
    length out \<le> length out' \<and> length out' \<le> limit \<and> length out' \<le> length out + pm_max_segment (zd_p d)"
  let ?b = "\<lparr>bd_segment_start = length out, bd_limit = limit, bd_limit_error = e\<rparr>"
  have p: "zd_p d = params (zd_variant d)" using assms(1) by (simp add: zd_ok_def)
  have fails: "?Q x out d" for x using assms by (simp add: same_dec_def)
  obtain x1 seg1 where u8: "rd_u8 seg = (x1, seg1)" by fastforce
  have wf1: "rd_wf seg1" using rd_safeD [OF safe_ints(1) assms(2) u8] by (simp add: rd_extends_def)
  show ?thesis
  proof (cases x1)
    case (Inr header)
    have raw: "\<exists>x out' d'. (do {
            room \<leftarrow> check_room (zd_p d) ?b (length out) (length (rd_rest seg1)) (rd_offset seg1);
            case room of Inl e \<Rightarrow> Some (Inl e, out, d)
            | Inr _ \<Rightarrow> do { d \<leftarrow> zd_record (rd_rest seg1) d; Some (Inr (), out @ rd_rest seg1, d) } }) = Some (x, out', d') \<and> ?Q x out' d'"
    proof -
      obtain x where x: "check_room (zd_p d) ?b (length out) (length (rd_rest seg1)) (rd_offset seg1) = Some x"
        "x = Inr () \<longrightarrow> length (rd_rest seg1) \<le> pm_max_segment (zd_p d) \<and> length out + length (rd_rest seg1) \<le> limit"
        using check_room_safe [OF assms(3)] by blast
      show ?thesis
      proof (cases x)
        case (Inr u)
        then show ?thesis using x zd_record_ok [OF assms(1), of "rd_rest seg1"] by (auto simp: same_dec_def)
      qed (use x fails in auto)
    qed
    have stream: "\<exists>x out' d'. (do {
            br \<leftarrow> br_new (mk_reader bs off) (length (rd_data (mk_reader bs off)) * 8 - unat unused);
            (x, s) \<leftarrow> decode_tokens ?b \<lparr>ss_br = br, ss_out = out, ss_recorded = length out, ss_dec = d\<rparr>;
            Some (x, ss_out s, ss_dec s) }) = Some (x, out', d') \<and> ?Q x out' d'" for bs off and unused :: byte
    proof -
      have "length bs * 8 - unat unused \<le> 8 * length bs" by linarith
      then obtain br where br: "br_new (mk_reader bs off) (length bs * 8 - unat unused) = Some br" "br_ok br"
        using br_new_ok [of "mk_reader bs off" "length bs * 8 - unat unused"] by (auto simp: mk_reader_def rd_rest_def rd_wf_def)
      let ?s = "\<lparr>ss_br = br, ss_out = out, ss_recorded = length out, ss_dec = d\<rparr>"
      have "seg_ok (zd_variant d) (zd_max_output d) ?b ?s" using br(2) assms by (simp add: seg_ok_def)
      then obtain x s where s: "decode_tokens ?b ?s = Some (x, s)" "seg_ok (zd_variant d) (zd_max_output d) ?b s"
        using seg_safe_tokens by blast
      then show ?thesis using br(1) p by (auto simp: seg_ok_def same_dec_def)
    qed
    consider (type) "header AND compression_type_mask \<noteq> pm_type (zd_p d)"
      | (raw) "header AND compression_type_mask = pm_type (zd_p d)" "header AND zgfx_packet_compressed = 0"
      | (empty) "header AND compression_type_mask = pm_type (zd_p d)" "header AND zgfx_packet_compressed \<noteq> 0" "rd_rest seg1 = []"
      | (stream) "header AND compression_type_mask = pm_type (zd_p d)" "header AND zgfx_packet_compressed \<noteq> 0" "rd_rest seg1 \<noteq> []"
      by blast
    then show ?thesis
    proof cases
      case raw': raw
      then show ?thesis using u8 Inr raw by (simp add: decode_segment_def Let_def)
    next
      case stream': stream
      let ?bs = "take (length (rd_rest seg1) - 1) (rd_rest seg1)"
      let ?seg2 = "rd_advance (length (rd_rest seg1) - 1) seg1"
      have sub: "rd_sub (rd_remaining seg1 - 1) seg1 = (Inr (mk_reader ?bs (rd_offset seg1)), ?seg2)"
        by (simp add: rd_sub_ok rd_remaining_rest)
      obtain y seg3 where y: "rd_u8 ?seg2 = (y, seg3)" by fastforce
      show ?thesis
      proof (cases y)
        case (Inr unused)
        then show ?thesis
          using u8 \<open>x1 = Inr header\<close> stream' sub y fails wf1 stream [of ?bs "rd_offset seg1" unused]
          by (simp add: decode_segment_def Let_def rd_empty_rest del: rd_data_mk_reader length_take)
      qed (use u8 Inr stream' sub y fails wf1 in \<open>simp add: decode_segment_def Let_def rd_empty_rest\<close>)
    qed (use u8 Inr fails wf1 in \<open>simp_all add: decode_segment_def Let_def rd_empty_rest\<close>)
  qed (use u8 fails in \<open>simp add: decode_segment_def Let_def\<close>)
qed

lemma decode_segments_safe:
  assumes "zd_ok d" "rd_wf r" "length out \<le> limit"
  shows "\<exists>x r' d'. decode_segments n limit r out d = Some (x, r', d') \<and> zd_ok d' \<and> same_dec d d' \<and> rd_wf r' \<and>
    (\<forall>out'. x = Inr out' \<longrightarrow> length out' \<le> limit)"
  using assms
proof (induction n arbitrary: r out d)
  case 0
  then show ?case by (simp add: same_dec_def)
next
  case (Suc n)
  let ?p = "ptry rd_u32le (\<lambda>segment_size. rd_sub (unat segment_size))"
  obtain x1 r1 where p: "?p r = (x1, r1)" by fastforce
  have "rd_safe ?p" by (intro safe_intros)
  then have wf1: "rd_wf r1" using rd_safeD [of ?p, OF _ Suc.prems(2) p] by (simp add: rd_extends_def)
  show ?case
  proof (cases x1)
    case (Inr segment)
    then have "rd_wf segment" using p by (auto simp: ptry_eq_Inr rd_sub_eq_Inr)
    from decode_segment_safe [OF Suc.prems(1) this Suc.prems(3), of InvalidLength]
    obtain y out1 d1 where seg: "decode_segment segment out limit InvalidLength d = Some (y, out1, d1)" "zd_ok d1" "same_dec d d1"
      "length out1 \<le> limit" by blast
    show ?thesis
    proof (cases y)
      case (Inr u)
      from Suc.IH [OF seg(2) wf1 seg(4)] show ?thesis
        using p \<open>x1 = Inr segment\<close> seg(1,3) Inr by (auto simp: same_dec_def)
    qed (use p Inr seg wf1 in auto)
  qed (use p Suc.prems wf1 in \<open>simp add: same_dec_def\<close>)
qed

lemma zd_decompress_safe:
  assumes "zd_ok d"
  shows "\<exists>x d'. zd_decompress data d = Some (x, d') \<and> zd_ok d' \<and> same_dec d d' \<and> (\<forall>out. x = Inr out \<longrightarrow> length out \<le> zd_max_output d)"
proof -
  let ?Q = "\<lambda>(x :: bytes result) d'. zd_ok d' \<and> same_dec d d' \<and> (\<forall>out. x = Inr out \<longrightarrow> length out \<le> zd_max_output d)"
  have fails: "?Q (fail c what off) d" "?Q (Inl err) d" for c what off err using assms by (simp_all add: same_dec_def)
  obtain x1 r1 where u8: "rd_u8 (mk_reader data 0) = (x1, r1)" by fastforce
  have wf1: "rd_wf r1" using rd_safeD [OF safe_ints(1) rd_wf_mk_reader u8] by (simp add: rd_extends_def)
  have single: "\<exists>x d'. (case decode_segment seg [] (zd_max_output d) LimitExceeded d of None \<Rightarrow> None
        | Some (Inl e, _, d) \<Rightarrow> Some (Inl e, d) | Some (Inr _, out, d) \<Rightarrow> Some (Inr out, d)) = Some (x, d') \<and> ?Q x d'"
    if "rd_wf seg" for seg
    using decode_segment_safe [OF assms that, of "[]" "zd_max_output d" LimitExceeded] by (fastforce split: sum.split)
  have multi: "\<exists>x d'. (case decode_segments n size r [] d of None \<Rightarrow> None
       | Some (Inl e, _, d) \<Rightarrow> Some (Inl e, d)
       | Some (Inr out, r, d) \<Rightarrow>
           (case rd_expect_end ''trailing data after the last ZGFX segment'' r of
             (Inl e, _) \<Rightarrow> Some (Inl e, d)
           | (Inr _, _) \<Rightarrow> if length out \<noteq> size
               then Some (fail InvalidLength ''ZGFX segments do not add up to uncompressedSize'' off, d) else Some (Inr out, d))) = Some (x, d') \<and> ?Q x d'"
    if "rd_wf r" "size \<le> zd_max_output d" for r n size off
    using decode_segments_safe [OF assms that(1), of "[]" size n] that(2) by (fastforce split: sum.split prod.split simp: fail_def)
  show ?thesis
  proof (cases x1)
    case (Inr descriptor)
    consider (single) "descriptor = descriptor_single" | (multi) "descriptor \<noteq> descriptor_single" "descriptor = descriptor_multipart"
      | (other) "descriptor \<noteq> descriptor_single" "descriptor \<noteq> descriptor_multipart" by blast
    then show ?thesis
    proof cases
      case single': single
      have "rd_sub (rd_remaining r1) r1 = (Inr (mk_reader (rd_rest r1) (rd_offset r1)), rd_advance (rd_remaining r1) r1)"
        by (simp add: rd_sub_ok rd_remaining_rest)
      with single [OF rd_wf_mk_reader, of "rd_rest r1" "rd_offset r1"] single' u8 Inr show ?thesis by (simp add: zd_decompress_def)
    next
      case multi': multi
      let ?p = "ptry rd_u16le (\<lambda>count. ptry rd_u32le (\<lambda>size. pret (unat count, unat size)))"
      obtain y r2 where p: "?p r1 = (y, r2)" by fastforce
      have "rd_safe ?p" by (intro safe_intros)
      then have wf2: "rd_wf r2" using rd_safeD [of ?p, OF _ wf1 p] by (simp add: rd_extends_def)
      show ?thesis
      proof (cases y)
        case (Inr cs)
        with multi [OF wf2] multi' u8 \<open>x1 = Inr descriptor\<close> p fails show ?thesis
          by (cases cs) (simp add: zd_decompress_def Let_def)
      qed (use multi' u8 Inr p fails in \<open>simp add: zd_decompress_def Let_def\<close>)
    qed (use u8 Inr fails in \<open>simp add: zd_decompress_def\<close>)
  qed (use u8 fails in \<open>simp add: zd_decompress_def\<close>)
qed

end
