(* ===== verification/Zgfx_Tokens.thy ===== *)
theory Zgfx_Tokens
  imports Zgfx_Decompress
begin

text \<open>
  The tokens of a ZGFX bit stream as data: their bits, which the encoder writes, and the bytes they
  stand for, which the decoder puts out. The token loop inverts the coding.
\<close>

section \<open>Tokens\<close>

datatype ztoken = ZLiteral byte | ZRun bytes | ZMatch nat nat

definition run_header :: "bytes \<Rightarrow> bool list" where
  "run_header bs = token_bits (match_tokens ! 0) 0 @ bits 15 (of_nat (length bs) :: u32)"

text \<open>The bits of a token depend on where it starts, because the bytes of a run are aligned.\<close>

fun tok_bits :: "nat \<Rightarrow> ztoken \<Rightarrow> bool list" where
  "tok_bits k (ZLiteral b) = code_bits (literal_code b)"
| "tok_bits k (ZRun bs) = run_header bs @ pad_bits (k + length (run_header bs)) @ stream_bits bs"
| "tok_bits k (ZMatch distance n) =
     code_bits (fst (distance_code (of_nat distance))) @ code_bits (snd (distance_code (of_nat distance))) @ length_bits n"

fun toks_bits :: "nat \<Rightarrow> ztoken list \<Rightarrow> bool list" where
  "toks_bits k [] = []"
| "toks_bits k (t # ts) = tok_bits k t @ toks_bits (k + length (tok_bits k t)) ts"

text \<open>The bytes a token adds after the bytes \<open>g\<close>, and when it may stand there.\<close>

fun tok_out :: "bytes \<Rightarrow> ztoken \<Rightarrow> bytes" where
  "tok_out g (ZLiteral b) = [b]"
| "tok_out g (ZRun bs) = bs"
| "tok_out g (ZMatch distance n) = lz_copy distance n g"

fun toks_out :: "bytes \<Rightarrow> ztoken list \<Rightarrow> bytes" where
  "toks_out g [] = []"
| "toks_out g (t # ts) = tok_out g t @ toks_out (g @ tok_out g t) ts"

fun tok_valid :: "nat \<Rightarrow> bytes \<Rightarrow> ztoken \<Rightarrow> bool" where
  "tok_valid h g (ZLiteral b) \<longleftrightarrow> True"
| "tok_valid h g (ZRun bs) \<longleftrightarrow> length bs < 2 ^ 15"
| "tok_valid h g (ZMatch distance n) \<longleftrightarrow> 0 < distance \<and> distance \<le> h \<and> distance \<le> length g \<and> min_match \<le> n \<and> n \<le> max_match"

fun toks_valid :: "nat \<Rightarrow> bytes \<Rightarrow> ztoken list \<Rightarrow> bool" where
  "toks_valid h g [] \<longleftrightarrow> True"
| "toks_valid h g (t # ts) \<longleftrightarrow> tok_valid h g t \<and> toks_valid h (g @ tok_out g t) ts"

lemma toks_append:
  "toks_bits k (ts @ us) = toks_bits k ts @ toks_bits (k + length (toks_bits k ts)) us"
  "toks_out g (ts @ us) = toks_out g ts @ toks_out (g @ toks_out g ts) us"
  "toks_valid h g (ts @ us) \<longleftrightarrow> toks_valid h g ts \<and> toks_valid h (g @ toks_out g ts) us"
  by (induction ts arbitrary: k g) (simp_all add: add.assoc)

lemma lz_copy_lastn:
  assumes "distance \<le> h" "distance \<le> length g" "0 < distance"
  shows "lz_copy distance n (lastn h g) = lz_copy distance n g"
proof -
  have "lastn h g ! (length (lastn h g) - distance + j) = g ! (length g - distance + j)" if "j < distance" for j
    using assms that by (cases "h \<le> length g") (auto simp: lastn_def)
  then show ?thesis using assms(3) by (simp add: lz_copy_def)
qed

section \<open>Reading what was written\<close>

lemma br_read_value:
  assumes "br_ok br" "br_bits br = bits n v @ rest" "n \<le> br_remaining br" "n \<le> 32" "take_bit n v = v"
  shows "\<exists>br'. br_read n br = Some (Inr v, br') \<and> br_ok br' \<and> br_bits br' = rest \<and> br_remaining br' = br_remaining br - n"
proof -
  obtain v' br' where r: "br_read n br = Some (Inr v', br')" "br_ok br'" "bits n v' = take n (br_bits br)" "take_bit n v' = v'"
    "br_bits br' = drop n (br_bits br)" "br_remaining br' = br_remaining br - n"
    using br_read_ok [OF assms(1,3,4)] by blast
  then have "bits n v' = bits n v" using assms(2) by simp
  then have "v' = v" using r(4) assms(5) by (simp add: bits_eq_iff)
  with r assms(2) show ?thesis by simp
qed

lemma br_read_bit:
  assumes "br_ok br" "br_bits br = c # rest" "0 < br_remaining br"
  shows "\<exists>br'. br_read 1 br = Some (Inr (of_bool c), br') \<and> br_ok br' \<and> br_bits br' = rest \<and> br_remaining br' = br_remaining br - 1"
  using br_read_value [of br 1 "of_bool c" rest] assms by (cases c) (simp_all add: bits_Suc)

lemma decode_ones_ok:
  assumes "br_ok br" "br_bits br = replicate j True @ False # rest" "j < br_remaining br" "ones + j \<le> max_length_ones"
  shows "\<exists>br'. decode_ones token_at ones br = Some (Inr (ones + j), br') \<and> br_ok br' \<and> br_bits br' = rest \<and>
    br_remaining br' = br_remaining br - (j + 1)"
  using assms
proof (induction j arbitrary: ones br)
  case 0
  then show ?case using br_read_bit [of br False rest]
    by (auto simp: decode_ones.simps [of token_at ones] atry_def aret_def)
next
  case (Suc j)
  obtain br1 where 1: "br_read 1 br = Some (Inr 1, br1)" "br_ok br1" "br_bits br1 = replicate j True @ False # rest"
    "br_remaining br1 = br_remaining br - 1"
    using br_read_bit [of br True "replicate j True @ False # rest"] Suc.prems by auto
  have "\<exists>br'. decode_ones token_at (Suc ones) br1 = Some (Inr (Suc ones + j), br') \<and> br_ok br' \<and> br_bits br' = rest \<and>
      br_remaining br' = br_remaining br1 - (j + 1)"
    using Suc.prems 1 by (intro Suc.IH) simp_all
  then show ?case using 1 Suc.prems(4) by (auto simp: decode_ones.simps [of token_at ones] atry_def)
qed

lemma decode_length_ok:
  assumes "br_ok br" "br_bits br = length_bits n @ rest" "length (length_bits n) \<le> br_remaining br" "min_match \<le> n" "n \<le> max_match"
  shows "\<exists>br'. decode_length token_at br = Some (Inr n, br') \<and> br_ok br' \<and> br_bits br' = rest \<and>
    br_remaining br' = br_remaining br - length (length_bits n)"
proof (cases "n = min_match")
  case True
  then show ?thesis
    using br_read_bit [of br False rest] assms by (auto simp: decode_length_def length_bits_def atry_def aret_def)
next
  case False
  define k where "k = bit_width n - 2"
  define v :: u32 where "v = of_nat (n - 2 ^ (k + 1))"
  have n: "2 ^ (k + 1) \<le> n" "n < 2 ^ (k + 2)" "0 < k" "k \<le> 14"
    using False assms(4,5) length_bit_width [of n] by (simp_all add: max_length_ones_def k_def)
  have bits: "length_bits n = True # replicate (k - 1) True @ False # bits (k + 1) v"
    using False n(3) by (simp add: length_bits_def Let_def v_def flip: replicate_Suc k_def)
  have len: "length (length_bits n) = 2 * k + 2" using n(3) by (simp add: bits)
  have "n - 2 ^ (k + 1) < 2 ^ (k + 1)" using n by simp
  moreover have "(2 :: nat) ^ (k + 1) \<le> 2 ^ 15" using n(4) by (intro power_increasing) simp_all
  ultimately have u: "unat v = n - 2 ^ (k + 1)" and v: "take_bit (k + 1) v = v"
    by (simp_all add: v_def unsigned_of_nat take_bit_nat_eq_self word_take_bit_self)
  obtain br1 where 1: "br_read 1 br = Some (Inr 1, br1)" "br_ok br1" "br_bits br1 = replicate (k - 1) True @ False # bits (k + 1) v @ rest"
    "br_remaining br1 = br_remaining br - 1"
    using br_read_bit [OF assms(1), of True "replicate (k - 1) True @ False # bits (k + 1) v @ rest"] assms(2,3) bits by auto
  have "k - 1 < br_remaining br1" using 1(4) assms(3) len n(3) by linarith
  then obtain br2 where 2: "decode_ones token_at 1 br1 = Some (Inr k, br2)" "br_ok br2" "br_bits br2 = bits (k + 1) v @ rest"
    "br_remaining br2 = br_remaining br1 - k"
    using decode_ones_ok [OF 1(2,3), of 1 token_at] 1(4) n(3,4) by (auto simp: max_length_ones_def)
  have rem: "k + 1 \<le> br_remaining br2" using 2(4) 1(4) assms(3) len by linarith
  obtain br3 where 3: "br_read (k + 1) br2 = Some (Inr v, br3)" "br_ok br3" "br_bits br3 = rest"
    "br_remaining br3 = br_remaining br2 - (k + 1)"
    using br_read_value [OF 2(2,3) rem _ v] n(4) by auto
  show ?thesis
    using 1 2 3 u n(1) len by (simp add: decode_length_def atry_def aret_def)
qed

text \<open>The prefix in front leads to its token, and the value after it is read.\<close>

lemma lookup_prefix:
  assumes "t < length tokens" "bits 9 w = bits (tk_prefix_length (tokens ! t)) (tk_prefix (tokens ! t)) @ xs" "take_bit 9 w = w"
  shows "token_lookup (w :: u32) = t"
proof (rule token_lookup)
  let ?n = "tk_prefix_length (tokens ! t)" and ?p = "tk_prefix (tokens ! t)"
  have n: "?n \<le> 8" using tokenD(2) [OF assms(1)] .
  have "bits (?n + (9 - ?n)) w = bits ?n (drop_bit (9 - ?n) w) @ bits (9 - ?n) w" by (rule bits_split)
  then have "bits ?n (drop_bit (9 - ?n) w) = bits ?n ?p" using assms(2) n by simp
  also have "\<dots> = bits ?n (ucast ?p :: u32)" using n by (simp add: bits_ucast)
  finally have "take_bit ?n (drop_bit (9 - ?n) w) = take_bit ?n (ucast ?p)" by (simp only: bits_eq_iff)
  moreover have "take_bit ?n (drop_bit (9 - ?n) w) = drop_bit (9 - ?n) w"
    using assms(3) n drop_bit_take_bit [of "9 - ?n" 9 w] by simp
  ultimately have "drop_bit (9 - ?n) w = ucast ?p"
    using take_bit_ucast_eq [OF prefix_small [OF assms(1)]] by simp
  then have "unat (drop_bit (9 - ?n) w) = unat (ucast ?p :: u32)" by simp
  then have "drop_bit (9 - ?n) (unat w) = unat ?p" by (simp only: unat_drop_bit_eq) (simp add: unat_ucast_le)
  then show "token_matches t (unat w)" using assms(1) by (simp add: token_matches_def drop_bit_eq_div)
qed


lemma length_tokens [simp]: "length tokens = 37"
  by (simp add: tokens_def)

lemma decode_prefix_ok:
  assumes "br_ok (ss_br s)" "br_bits (ss_br s) = token_bits (tokens ! t) v @ rest" "t < length tokens"
    "take_bit (tk_value_bits (tokens ! t)) v = v" "length (token_bits (tokens ! t) v) \<le> br_remaining (ss_br s)"
  shows "\<exists>br'. decode_token b s = decode_value b (rd_offset (br_r (ss_br s))) (tokens ! t) v (s\<lparr>ss_br := br'\<rparr>) \<and> br_ok br' \<and>
    br_bits br' = rest \<and> br_remaining br' = br_remaining (ss_br s) - length (token_bits (tokens ! t) v)"
proof -
  let ?n = "tk_prefix_length (tokens ! t)" and ?p = "tk_prefix (tokens ! t)" and ?m = "tk_value_bits (tokens ! t)"
  obtain w br1 where peek: "br_peek 9 (ss_br s) = (w, br1)" by fastforce
  note p = br_peek_ok [OF assms(1) peek, simplified]
  have n: "?n \<le> 8" "?m \<le> 32" and len: "length (token_bits (tokens ! t) v) = ?n + ?m"
    using tokenD [OF assms(3)] by (simp_all add: token_bits_def)
  have "take 9 (br_bits (ss_br s) @ replicate 9 False) = bits ?n ?p @ take (9 - ?n) (bits ?m v @ rest @ replicate 9 False)"
    using n assms(2) by (simp add: token_bits_def)
  then have "\<exists>xs. bits 9 w = bits ?n ?p @ xs" using p(6) by simp
  then have t: "token_lookup w = t" using lookup_prefix [OF assms(3) _ p(7)] by blast
  have "?n \<le> br_buffered br1" using p n assms(1,5) len by (auto simp: br_ok_def)
  then obtain br2 where 2: "br_skip ?n br1 = Some (Inr (), br2)" "br_ok br2" "br_bits br2 = bits ?m v @ rest"
    "br_remaining br2 = br_remaining (ss_br s) - ?n"
    using br_skip_ok [OF p(1), of ?n] p(2,3) assms(2,5) len by (auto simp: token_bits_def)
  have rem: "?m \<le> br_remaining br2" using 2(4) assms(5) len by linarith
  obtain br3 where "br_read ?m br2 = Some (Inr v, br3)" "br_ok br3" "br_bits br3 = rest" "br_remaining br3 = br_remaining br2 - ?m"
    using br_read_value [OF 2(2,3) rem n(2) assms(4)] by auto
  with 2 peek t assms(3) len show ?thesis
    by (intro exI [of _ br3]) (simp add: decode_token_def Let_def lookup_bits_def reserved_token_def atry_def seg_bits_def)
qed

definition seg_hist :: "segment_state \<Rightarrow> bytes" where
  "seg_hist s = lastn (pm_history (zd_p (ss_dec s))) (zd_hist (ss_dec s) @ drop (ss_recorded s) (ss_out s))"

lemma seg_room_ok:
  assumes "seg_ok v m b s" "has_room v b n s"
  shows "seg_room b n off s = Some (Inr (), s)"
proof -
  have "zd_p (ss_dec s) = params v" using assms(1) by (auto simp: seg_ok_def zd_ok_def)
  then show ?thesis using assms by (auto simp: seg_room_def check_room_def wassert_def seg_ok_def has_room_def)
qed

lemma decode_token_literal:
  assumes "seg_ok v m b s" "br_bits (ss_br s) = tok_bits k (ZLiteral c) @ rest"
    "length (tok_bits k (ZLiteral c)) \<le> br_remaining (ss_br s)" "has_room v b 1 s"
  shows "\<exists>br'. decode_token b s = Some (Inr (), s\<lparr>ss_br := br', ss_out := ss_out s @ [c]\<rparr>) \<and> br_ok br' \<and> br_bits br' = rest \<and>
    br_remaining br' = br_remaining (ss_br s) - length (tok_bits k (ZLiteral c))"
proof -
  obtain t x where t: "t < length tokens" "\<not> tk_match (tokens ! t)" "take_bit (tk_value_bits (tokens ! t)) x = x"
    "code_bits (literal_code c) = token_bits (tokens ! t) x" "unat (tk_base (tokens ! t) + x) = unat c"
    using literal_code_literal [of c] by (auto simp: is_literal_def)
  have ok: "br_ok (ss_br s)" using assms(1) by (simp add: seg_ok_def)
  obtain br' where br': "decode_token b s = decode_value b (rd_offset (br_r (ss_br s))) (tokens ! t) x (s\<lparr>ss_br := br'\<rparr>)" "br_ok br'"
    "br_bits br' = rest" "br_remaining br' = br_remaining (ss_br s) - length (tok_bits k (ZLiteral c))"
    using decode_prefix_ok [OF ok _ t(1,3)] assms(2,3) t(4) by auto
  have c: "ucast (tk_base (tokens ! t) + x) = c"
    using t(5) of_nat_unat_ucast [where 'b = 8] by (metis ucast_id)
  have "seg_room b 1 off (s\<lparr>ss_br := br'\<rparr>) = Some (Inr (), s\<lparr>ss_br := br'\<rparr>)" for off
    using assms(1,4) br'(2) by (intro seg_room_ok) (auto simp: seg_ok_def has_room_def)
  with br' t(2) c show ?thesis
    by (intro exI [of _ br']) (simp add: decode_value_def atry_def seg_push_def Let_def)
qed

lemma stream_bits_inj: "stream_bits xs = stream_bits ys \<Longrightarrow> length xs = length ys \<Longrightarrow> xs = ys"
proof (induction xs ys rule: list_induct2')
  case (4 x xs y ys)
  then have "bits 8 x = bits 8 y" "stream_bits xs = stream_bits ys" by simp_all
  with 4 show ?case by (simp add: bits_eq_iff take_bit_word_eq_self)
qed simp_all

lemma pad_aligned: "(a + b) mod 8 = 0 \<Longrightarrow> length (pad_bits a) = b mod 8"
proof -
  assume "(a + b) mod 8 = 0"
  then have sum: "(a mod 8 + b mod 8) mod 8 = 0" by (simp only: mod_simps)
  have "c = 0 \<or> c = 8" if "c mod 8 = 0" "c < 16" for c :: nat using that by presburger
  from this [OF sum] have "a mod 8 + b mod 8 = 0 \<or> a mod 8 + b mod 8 = 8"
    using mod_less_divisor [of 8 a] mod_less_divisor [of 8 b] by linarith
  then show ?thesis by (auto simp: pad_bits_def)
qed

lemma zero_match_token: "match_tokens ! 0 = tokens ! Suc 0" "tokens ! Suc 0 = mk_token 5 0b10001 5 True 0"
  by code_simp (simp add: tokens_def)

lemma decode_token_run:
  assumes "seg_ok v m b s" "br_bits (ss_br s) = tok_bits k (ZRun bs) @ rest" "(k + length (br_bits (ss_br s))) mod 8 = 0"
    "length (tok_bits k (ZRun bs)) \<le> br_remaining (ss_br s)" "has_room v b (length bs) s" "length bs < 2 ^ 15"
  shows "\<exists>br'. decode_token b s = Some (Inr (), s\<lparr>ss_br := br', ss_out := ss_out s @ bs\<rparr>) \<and> br_ok br' \<and> br_bits br' = rest \<and>
    br_remaining br' = br_remaining (ss_br s) - length (tok_bits k (ZRun bs))"
proof -
  let ?n = "of_nat (length bs) :: u32" and ?pad = "pad_bits (k + length (run_header bs))"
  have ok: "br_ok (ss_br s)" using assms(1) by (simp add: seg_ok_def)
  have hdr: "length (run_header bs) = 25" and t0: "length (token_bits (tokens ! Suc 0) 0) = 10"
    by (simp_all add: run_header_def token_bits_def zero_match_token mk_token_def)
  have bits: "br_bits (ss_br s) = token_bits (tokens ! Suc 0) 0 @ bits 15 ?n @ ?pad @ stream_bits bs @ rest"
    using assms(2) by (simp add: run_header_def zero_match_token(1))
  have len: "length (tok_bits k (ZRun bs)) = 25 + length ?pad + 8 * length bs" by (simp add: hdr)
  obtain br1 where 1: "decode_token b s = decode_value b (rd_offset (br_r (ss_br s))) (tokens ! Suc 0) 0 (s\<lparr>ss_br := br1\<rparr>)" "br_ok br1"
    "br_bits br1 = bits 15 ?n @ ?pad @ stream_bits bs @ rest" "br_remaining br1 = br_remaining (ss_br s) - 10"
    using decode_prefix_ok [OF ok bits] assms(4) len t0 by auto
  have u: "unat ?n = length bs" using assms(6) by (simp add: unsigned_of_nat take_bit_nat_eq_self)
  have n: "take_bit 15 ?n = ?n" using u assms(6) by (intro word_take_bit_self) simp
  have rem: "15 \<le> br_remaining br1" using 1(4) assms(4) len by linarith
  obtain br2 where 2: "br_read 15 br1 = Some (Inr ?n, br2)" "br_ok br2" "br_bits br2 = ?pad @ stream_bits bs @ rest"
    "br_remaining br2 = br_remaining br1 - 15"
    using br_read_value [OF 1(2,3) rem _ n] by auto
  have "(k + length (run_header bs) + length (br_bits br2)) mod 8 = 0"
    using assms(3) bits 2(3) hdr t0 by (simp add: add.assoc)
  then have pad: "length (br_bits br2) mod 8 = length ?pad" using pad_aligned by metis
  have "length (br_bits br2) mod 8 + length bs * 8 \<le> br_remaining br2" using pad 1(4) 2(4) assms(4) len by linarith
  from br_read_aligned_ok [OF 2(2) this, of "ss_out s", unfolded pad] obtain xs br3 where 3: "br_read_aligned (length bs) (ss_out s) br2 = Some (Inr (ss_out s @ xs), br3)"
    "br_ok br3" "length xs = length bs" "stream_bits xs @ br_bits br3 = stream_bits bs @ rest"
    "br_remaining br3 = br_remaining br2 - (length ?pad + length bs * 8)"
    unfolding 2(3) by auto
  then have xs: "xs = bs" "br_bits br3 = rest" by (auto intro: stream_bits_inj)
  have "seg_room b (length bs) off (s\<lparr>ss_br := br2\<rparr>) = Some (Inr (), s\<lparr>ss_br := br2\<rparr>)" for off
    using assms(1,5) 2(2) by (intro seg_room_ok) (auto simp: seg_ok_def has_room_def)
  with 1 2 3 xs u len show ?thesis
    by (intro exI [of _ br3]) (simp add: decode_value_def zero_match_token mk_token_def atry_def seg_bits_def seg_aligned_def Let_def)
qed

lemma history_less: "pm_history (params v) < max_distance"
  by (cases v) (simp_all add: max_distance_def history_size_def lite_history_size_def)

lemma decode_token_match:
  assumes "seg_ok v m b s" "br_bits (ss_br s) = tok_bits k (ZMatch distance n) @ rest"
    "length (tok_bits k (ZMatch distance n)) \<le> br_remaining (ss_br s)" "has_room v b n s" "tok_valid (pm_history (params v)) g (ZMatch distance n)"
    "seg_hist s = lastn (pm_history (params v)) g"
  shows "\<exists>d' br'. decode_token b s = Some (Inr (), s\<lparr>ss_br := br', ss_dec := d', ss_recorded := length (ss_out s), ss_out := ss_out s @ lz_copy distance n g\<rparr>) \<and>
    zd_hist d' = seg_hist s \<and> zd_p d' = params v \<and> br_ok br' \<and> br_bits br' = rest \<and>
    br_remaining br' = br_remaining (ss_br s) - length (tok_bits k (ZMatch distance n))"
proof -
  let ?H = "pm_history (params v)" and ?d = "of_nat distance :: u32"
  have ok: "br_ok (ss_br s)" and dec: "zd_ok (ss_dec s)" "zd_variant (ss_dec s) = v" and p: "zd_p (ss_dec s) = params v"
    using assms(1) by (auto simp: seg_ok_def zd_ok_def)
  have dist: "0 < distance" "distance \<le> ?H" "distance \<le> length g" and n: "min_match \<le> n" "n \<le> max_match" using assms(5) by simp_all
  have less: "distance < max_distance" using dist(2) history_less [of v] by linarith
  then have u: "unat ?d = distance" by (simp add: max_distance_def unsigned_of_nat take_bit_nat_eq_self)
  have d0: "?d \<noteq> 0" using u dist(1) by (metis less_irrefl unat_0)
  obtain t where t: "t < length tokens" "tk_match (tokens ! t)" "tk_base (tokens ! t) + cd_bits (snd (distance_code ?d)) = ?d"
    "take_bit (tk_value_bits (tokens ! t)) (cd_bits (snd (distance_code ?d))) = cd_bits (snd (distance_code ?d))"
    "code_bits (fst (distance_code ?d)) @ code_bits (snd (distance_code ?d)) = token_bits (tokens ! t) (cd_bits (snd (distance_code ?d)))"
    using distance_code_bits [of ?d] less u by auto
  let ?v = "cd_bits (snd (distance_code ?d))"
  have bits: "tok_bits k (ZMatch distance n) = token_bits (tokens ! t) ?v @ length_bits n" using t(5) by simp
  obtain br1 where 1: "decode_token b s = decode_value b (rd_offset (br_r (ss_br s))) (tokens ! t) ?v (s\<lparr>ss_br := br1\<rparr>)" "br_ok br1"
    "br_bits br1 = length_bits n @ rest" "br_remaining br1 = br_remaining (ss_br s) - length (token_bits (tokens ! t) ?v)"
    using decode_prefix_ok [OF ok _ t(1,4)] assms(2,3) unfolding bits by auto
  have rem: "length (length_bits n) \<le> br_remaining br1" using 1(4) assms(3) unfolding bits length_append by linarith
  obtain br2 where 2: "decode_length (rd_offset (br_r (ss_br s))) br1 = Some (Inr n, br2)" "br_ok br2" "br_bits br2 = rest"
    "br_remaining br2 = br_remaining br1 - length (length_bits n)"
    using decode_length_ok [OF 1(2,3) rem n] by blast
  obtain d where d: "zd_record (drop (ss_recorded s) (ss_out s)) (ss_dec s) = Some d" "zd_ok d" "zd_hist d = seg_hist s"
    "zd_p d = params v" "zd_variant d = v" "zd_max_output d = zd_max_output (ss_dec s)"
    using zd_record_ok [OF dec(1), of "drop (ss_recorded s) (ss_out s)"] p dec(2) by (auto simp: seg_hist_def)
  let ?s = "s\<lparr>ss_br := br2, ss_dec := d, ss_recorded := length (ss_out s)\<rparr>"
  have ring: "distance \<le> length (zd_ring d)"
    using d(3) assms(6) dist(2,3) length_zd_hist [of d] by simp
  have "copy_match distance n (ss_out s) d = Some (ss_out s @ lz_copy distance n g)"
    using copy_match_ok [OF d(2) dist(1) ring] d(3) assms(6) lz_copy_lastn [OF dist(2,3,1)] by simp
  moreover have "seg_room b n off ?s = Some (Inr (), ?s)" for off
    using assms(1,4) 2(2) d by (intro seg_room_ok) (auto simp: seg_ok_def has_room_def)
  ultimately show ?thesis
    using 1 2 d t(2,3) u d0 ring unfolding bits
    by (intro exI [of _ d] exI [of _ br2])
      (simp add: decode_value_def atry_def seg_bits_def seg_sync_def seg_match_def Let_def not_less)
qed

section \<open>The token loop inverts the coding\<close>

lemma token_bits_ne: "t < length tokens \<Longrightarrow> 0 < length (token_bits (tokens ! t) v)"
  using tokenD(1) [of t] by (simp add: token_bits_def)

lemma tok_bits_ne:
  assumes "tok_valid (pm_history (params v)) g t"
  shows "0 < length (tok_bits k t)"
proof (cases t)
  case (ZLiteral c)
  obtain t' x where "t' < length tokens" "code_bits (literal_code c) = token_bits (tokens ! t') x"
    using literal_code_literal [of c] by (auto simp: is_literal_def)
  with ZLiteral token_bits_ne [of t' x] show ?thesis by simp
qed (simp_all add: run_header_def length_bits_def Let_def)

text \<open>One token of any kind.\<close>

lemma decode_token_ok:
  assumes "seg_ok v m b s" "br_bits (ss_br s) = tok_bits k t @ rest" "(k + length (br_bits (ss_br s))) mod 8 = 0"
    "length (tok_bits k t) \<le> br_remaining (ss_br s)" "tok_valid (pm_history (params v)) g t"
    "seg_hist s = lastn (pm_history (params v)) g" "has_room v b (length (tok_out g t)) s"
  shows "\<exists>s'. decode_token b s = Some (Inr (), s') \<and> seg_ok v m b s' \<and> br_bits (ss_br s') = rest \<and>
    br_remaining (ss_br s') = br_remaining (ss_br s) - length (tok_bits k t) \<and>
    ss_out s' = ss_out s @ tok_out g t \<and> seg_hist s' = lastn (pm_history (params v)) (g @ tok_out g t)"
proof -
  let ?H = "pm_history (params v)"
  have p: "zd_p (ss_dec s) = params v" and rec: "ss_recorded s \<le> length (ss_out s)"
    using assms(1) by (auto simp: seg_ok_def zd_ok_def)
  have hist: "seg_hist (s\<lparr>ss_br := br', ss_out := ss_out s @ xs\<rparr>) = lastn ?H (g @ xs)" for br' xs
    using arg_cong [OF assms(6), of "\<lambda>h. lastn ?H (h @ xs)"] p rec by (simp add: seg_hist_def)
  have ok: "seg_ok v m b s'" if "decode_token b s = Some (x, s')" for x s'
    using seg_safe_token [of v m b] assms(1) that by (auto simp: seg_safe_def)
  show ?thesis
  proof (cases t)
    case (ZLiteral c)
    then have "has_room v b 1 s" using assms(7) by simp
    with decode_token_literal [OF assms(1) _ _ this, of k c rest] assms(2,4) ZLiteral hist ok show ?thesis by fastforce
  next
    case (ZRun bs)
    then have "has_room v b (length bs) s" "length bs < 2 ^ 15" using assms(5,7) by simp_all
    with decode_token_run [OF assms(1) _ assms(3) _ this, of rest] assms(2,4) ZRun hist ok show ?thesis by fastforce
  next
    case (ZMatch distance n)
    then have "has_room v b n s" "tok_valid ?H g (ZMatch distance n)" using assms(5,7) by simp_all
    then obtain d' br' where m: "decode_token b s = Some (Inr (),
        s\<lparr>ss_br := br', ss_dec := d', ss_recorded := length (ss_out s), ss_out := ss_out s @ lz_copy distance n g\<rparr>)"
      "zd_hist d' = seg_hist s" "zd_p d' = params v" "br_bits br' = rest"
      "br_remaining br' = br_remaining (ss_br s) - length (tok_bits k (ZMatch distance n))"
      using decode_token_match [OF assms(1) _ _ _ _ assms(6), of k distance n rest] assms(2,4) ZMatch by auto
    then show ?thesis using ZMatch ok [OF m(1)] assms(6) by (simp add: seg_hist_def)
  qed
qed

lemma decode_tokens_ok:
  assumes "seg_ok v m b s" "br_bits (ss_br s) = toks_bits k ts @ rest" "(k + length (br_bits (ss_br s))) mod 8 = 0"
    "br_remaining (ss_br s) = length (toks_bits k ts)" "toks_valid (pm_history (params v)) g ts"
    "seg_hist s = lastn (pm_history (params v)) g" "has_room v b (length (toks_out g ts)) s"
  shows "\<exists>s'. decode_tokens b s = Some (Inr (), s') \<and> seg_ok v m b s' \<and>
    ss_out s' = ss_out s @ toks_out g ts \<and> zd_hist (ss_dec s') = lastn (pm_history (params v)) (g @ toks_out g ts)"
  using assms
proof (induction ts arbitrary: k g s)
  case Nil
  then have p: "zd_p (ss_dec s) = params v" and dec: "zd_ok (ss_dec s)" by (auto simp: seg_ok_def zd_ok_def)
  obtain d where d: "zd_record (drop (ss_recorded s) (ss_out s)) (ss_dec s) = Some d" "zd_hist d = seg_hist s"
    using zd_record_ok [OF dec] by (fastforce simp: seg_hist_def)
  have "decode_tokens b s = seg_sync s" using Nil.prems(4) by (simp add: decode_tokens.simps [of b s])
  then have "decode_tokens b s = Some (Inr (), s\<lparr>ss_dec := d, ss_recorded := length (ss_out s)\<rparr>)" using d by (simp add: seg_sync_def)
  with seg_safe_tokens [OF Nil.prems(1)] d Nil.prems(6) show ?case by auto
next
  case (Cons t ts)
  let ?n = "length (tok_bits k t)"
  have t: "tok_valid (pm_history (params v)) g t" and ts: "toks_valid (pm_history (params v)) (g @ tok_out g t) ts"
    using Cons.prems(5) by simp_all
  have room: "has_room v b (length (tok_out g t)) s" using Cons.prems(7) unfolding has_room_def by (simp del: diff_le_self) linarith
  obtain s1 where s1: "decode_token b s = Some (Inr (), s1)" "seg_ok v m b s1" "br_bits (ss_br s1) = toks_bits (k + ?n) ts @ rest"
    "br_remaining (ss_br s1) = length (toks_bits (k + ?n) ts)" "ss_out s1 = ss_out s @ tok_out g t"
    "seg_hist s1 = lastn (pm_history (params v)) (g @ tok_out g t)"
    using decode_token_ok [OF Cons.prems(1) _ Cons.prems(3) _ t Cons.prems(6) room, of "toks_bits (k + ?n) ts @ rest"] Cons.prems(2,4) by auto
  have "(k + ?n + length (br_bits (ss_br s1))) mod 8 = 0" using Cons.prems(2,3) s1(3) by (simp add: add.assoc)
  moreover have "has_room v b (length (toks_out (g @ tok_out g t) ts)) s1" using Cons.prems(7) s1(5) by (simp add: has_room_def add.assoc)
  ultimately have "\<exists>s'. decode_tokens b s1 = Some (Inr (), s') \<and> seg_ok v m b s' \<and>
    ss_out s' = ss_out s1 @ toks_out (g @ tok_out g t) ts \<and>
    zd_hist (ss_dec s') = lastn (pm_history (params v)) ((g @ tok_out g t) @ toks_out (g @ tok_out g t) ts)"
    using s1 ts by (intro Cons.IH [of s1 "k + ?n"]) simp_all
  moreover have "0 < br_remaining (ss_br s)" using Cons.prems(4) tok_bits_ne [OF t, of k] by simp
  ultimately show ?case using s1(1,5) by (auto simp: decode_tokens.simps [of b s])
qed

section \<open>Segments\<close>

lemma pad_remaining:
  assumes "stream_bits bs = xs @ pad_bits (length xs)"
  shows "8 * length bs - (8 - length xs mod 8) mod 8 = length xs" "(8 - length xs mod 8) mod 8 \<le> 8 * length bs"
  using arg_cong [OF assms, where f = length] by (simp_all add: pad_bits_def)

lemma compressed_header:
  "(pm_type (params v) OR zgfx_packet_compressed) AND compression_type_mask = pm_type (params v)"
  "(pm_type (params v) OR zgfx_packet_compressed) AND zgfx_packet_compressed \<noteq> 0"
  "pm_type (params v) AND compression_type_mask = pm_type (params v)" "pm_type (params v) AND zgfx_packet_compressed = 0"
  by (cases v; simp add: packet_compr_type_rdp8_def packet_compr_type_rdp8_lite_def compression_type_mask_def zgfx_packet_compressed_def)+

lemma decode_compressed_segment:
  assumes "zd_ok d" "zd_variant d = v" "zd_hist d = lastn (pm_history (params v)) g" "toks_valid (pm_history (params v)) g ts"
    "stream_bits bs = toks_bits 0 ts @ pad_bits (length (toks_bits 0 ts))"
    "length (toks_out g ts) \<le> pm_max_segment (params v)" "length out + length (toks_out g ts) \<le> limit"
    "rd_rest seg = (pm_type (params v) OR zgfx_packet_compressed) # bs @ [of_nat ((8 - length (toks_bits 0 ts) mod 8) mod 8)]" "rd_wf seg"
  shows "\<exists>d'. decode_segment seg out limit e d = Some (Inr (), out @ toks_out g ts, d') \<and> zd_ok d' \<and> same_dec d d' \<and>
    zd_hist d' = lastn (pm_history (params v)) (g @ toks_out g ts)"
proof -
  let ?u = "(8 - length (toks_bits 0 ts) mod 8) mod 8"
  let ?seg1 = "rd_advance 1 seg" and ?b = "\<lparr>bd_segment_start = length out, bd_limit = limit, bd_limit_error = e\<rparr>"
  let ?seg2 = "rd_advance (length bs) ?seg1"
  have u: "unat (of_nat ?u :: byte) = ?u" by (simp add: unsigned_of_nat take_bit_nat_eq_self)
  then have u7: "\<not> (7 :: byte) < of_nat ?u" by (simp add: word_less_nat_alt)
  obtain h where u8: "rd_u8 seg = (Inr h, ?seg1)" and h: "h AND compression_type_mask = pm_type (params v)" "h AND zgfx_packet_compressed \<noteq> 0"
    using rd_u8_Cons [OF assms(8)] compressed_header(1,2) by blast
  have rest1: "rd_rest ?seg1 = bs @ [of_nat ?u]" using assms(8) by simp
  have wf1: "rd_wf ?seg1" using assms(8,9) by simp
  have sub: "rd_sub (rd_remaining ?seg1 - 1) ?seg1 = (Inr (mk_reader bs (rd_offset ?seg1)), ?seg2)"
    using rest1 by (simp add: rd_sub_ok rd_remaining_rest)
  have u8': "rd_u8 ?seg2 = (Inr (of_nat ?u), rd_advance 1 ?seg2)" using assms(8) by (intro rd_u8_Cons [where ys = "[]"]) simp
  have rem: "length bs * 8 - ?u = length (toks_bits 0 ts)" "\<not> length bs * 8 < ?u"
    using pad_remaining [OF assms(5)] by (simp_all add: mult.commute)
  have "length (toks_bits 0 ts) \<le> 8 * length bs" using rem(1) by linarith
  then obtain br where br: "br_new (mk_reader bs (rd_offset ?seg1)) (length (toks_bits 0 ts)) = Some br" "br_ok br" "br_bits br = stream_bits bs"
    "br_remaining br = length (toks_bits 0 ts)"
    using br_new_ok [of "mk_reader bs (rd_offset ?seg1)" "length (toks_bits 0 ts)"] by (auto simp: mk_reader_def rd_rest_def rd_wf_def)
  let ?s = "\<lparr>ss_br = br, ss_out = out, ss_recorded = length out, ss_dec = d\<rparr>"
  have p: "zd_p d = params v" using assms(1,2) by (simp add: zd_ok_def)
  have "\<exists>s'. decode_tokens ?b ?s = Some (Inr (), s') \<and> seg_ok v (zd_max_output d) ?b s' \<and>
      ss_out s' = ss_out ?s @ toks_out g ts \<and> zd_hist (ss_dec s') = lastn (pm_history (params v)) (g @ toks_out g ts)"
  proof (rule decode_tokens_ok)
    show "seg_ok v (zd_max_output d) ?b ?s" using br(2) assms(1,2,7) by (simp add: seg_ok_def)
    show "br_bits (ss_br ?s) = toks_bits 0 ts @ pad_bits (length (toks_bits 0 ts))" using br(3) assms(5) by simp
    show "(0 + length (br_bits (ss_br ?s))) mod 8 = 0" using br(3) by simp
    show "seg_hist ?s = lastn (pm_history (params v)) g" using p assms(3) by (simp add: seg_hist_def)
    show "has_room v ?b (length (toks_out g ts)) ?s" using assms(6,7) by (simp add: has_room_def)
  qed (use br(4) assms(4) in simp_all)
  then obtain s' where "decode_tokens ?b ?s = Some (Inr (), s')" "seg_ok v (zd_max_output d) ?b s'"
    "ss_out s' = out @ toks_out g ts" "zd_hist (ss_dec s') = lastn (pm_history (params v)) (g @ toks_out g ts)" by auto
  moreover have "\<not> rd_empty ?seg1" using wf1 rest1 by (simp add: rd_empty_rest)
  ultimately show ?thesis
    using u8 h sub u8' u u7 rem br(1) p assms(2) by (auto simp: decode_segment_def Let_def same_dec_def seg_ok_def)
qed

lemma decode_raw_segment:
  assumes "zd_ok d" "zd_variant d = v" "zd_hist d = lastn (pm_history (params v)) g"
    "length data \<le> pm_max_segment (params v)" "length out + length data \<le> limit"
    "rd_rest seg = pm_type (params v) # data"
  shows "\<exists>d'. decode_segment seg out limit e d = Some (Inr (), out @ data, d') \<and> zd_ok d' \<and> same_dec d d' \<and>
    zd_hist d' = lastn (pm_history (params v)) (g @ data)"
proof -
  have p: "zd_p d = params v" using assms(1,2) by (simp add: zd_ok_def)
  have u8: "rd_u8 seg = (Inr (pm_type (params v)), rd_advance 1 seg)" using assms(6) by (rule rd_u8_Cons)
  obtain d' where "zd_record data d = Some d'" "zd_ok d'" "zd_hist d' = lastn (pm_history (params v)) (g @ data)" "same_dec d d'"
    using zd_record_ok [OF assms(1), of data] p assms(3) by (auto simp: same_dec_def)
  then show ?thesis
    using u8 p assms(4-6) by (simp add: decode_segment_def Let_def compressed_header check_room_def wassert_def)
qed

end
