(* ===== verification/Zgfx_Compress.thy ===== *)
theory Zgfx_Compress
  imports Zgfx_Tokens
begin

text \<open>
  \<open>ZgfxCompressor\<close> of \<open>codec/zgfx.cpp\<close>: the sliding window, the hash chains over three-byte prefixes,
  the greedy parse and the framing. Stream positions (\<open>std::uint64_t\<close>) are natural numbers; the entries
  of the chains are the 32-bit words the code keeps. An access outside an array is \<open>None\<close>.
\<close>

section \<open>Model: match finding\<close>

definition hash_bits_rdp8 :: nat where "hash_bits_rdp8 = 16"
definition hash_bits_lite :: nat where "hash_bits_lite = 12"
definition max_chain :: nat where "max_chain = 16"
definition nice_length :: nat where "nice_length = 128"
definition max_insert_length :: nat where "max_insert_length = 256"
definition tail_insert :: nat where "tail_insert = 16"
definition skip_trigger :: nat where "skip_trigger = 5"
definition max_run :: nat where "max_run = 32767"
definition run_header_bits :: nat where "run_header_bits = 5 + 5 + 15"

definition hash3 :: "bytes \<Rightarrow> nat \<Rightarrow> nat \<Rightarrow> nat option" where
  "hash3 w k shift = do {
     t \<leftarrow> subspan w k 3;
     let v = (ucast (t ! 0) OR push_bit 8 (ucast (t ! 1)) OR push_bit 16 (ucast (t ! 2)) :: u32);
     Some (unat (drop_bit shift (v * 2654435761)))
   }"

text \<open>The byte order of the machine, \<open>std::endian::native\<close>.\<close>

datatype endian = Little | Big

fun load64 :: "endian \<Rightarrow> bytes \<Rightarrow> nat \<Rightarrow> u64 option" where
  "load64 Little w k = map_option le_value (subspan w k 8)"
| "load64 Big w k = map_option be_value (subspan w k 8)"

definition countr_zero :: "u64 \<Rightarrow> nat" where
  "countr_zero x = length (takeWhile (\<lambda>i. \<not> bit x i) [0..<64])"

definition countl_zero :: "u64 \<Rightarrow> nat" where
  "countl_zero x = length (takeWhile (\<lambda>i. \<not> bit x (63 - i)) [0..<64])"

fun first_difference :: "endian \<Rightarrow> u64 \<Rightarrow> nat" where
  "first_difference Little x = countr_zero x div 8"
| "first_difference Big x = countl_zero x div 8"

function common_tail :: "bytes \<Rightarrow> nat \<Rightarrow> nat \<Rightarrow> nat \<Rightarrow> nat \<Rightarrow> nat option" where
  "common_tail w a b limit n =
     (if n < limit
      then do {
        x \<leftarrow> at_index w (a + n);
        y \<leftarrow> at_index w (b + n);
        if x = y then common_tail w a b limit (n + 1) else Some n
      }
      else Some n)"
  by pat_completeness auto
termination
  by (relation "measure (\<lambda>(w, a, b, limit, n). limit - n)") auto

declare common_tail.simps [simp del]

function common_words :: "endian \<Rightarrow> bytes \<Rightarrow> nat \<Rightarrow> nat \<Rightarrow> nat \<Rightarrow> nat \<Rightarrow> nat option" where
  "common_words en w a b limit n =
     (if n + 8 \<le> limit
      then do {
        u \<leftarrow> load64 en w (a + n);
        v \<leftarrow> load64 en w (b + n);
        let x = u XOR v;
        if x \<noteq> 0 then Some (n + first_difference en x) else common_words en w a b limit (n + 8)
      }
      else common_tail w a b limit n)"
  by pat_completeness auto
termination
  by (relation "measure (\<lambda>(en, w, a, b, limit, n). limit - n)") auto

declare common_words.simps [simp del]

definition common_length :: "endian \<Rightarrow> bytes \<Rightarrow> nat \<Rightarrow> nat \<Rightarrow> nat \<Rightarrow> nat option" where
  "common_length en w a b limit = common_words en w a b limit 0"

definition match_cost :: "u32 \<Rightarrow> nat \<Rightarrow> nat" where
  "match_cost distance n =
     (let d = distance_code distance in cd_length (fst d) + cd_length (snd d) + cd_length (length_code n))"

definition literal_cost :: "bytes \<Rightarrow> nat" where
  "literal_cost bs = sum_list (map (\<lambda>b. cd_length (literal_code b)) bs)"

section \<open>Model: the compressor\<close>

datatype zgfx_mode = Compress | Store

record zgfx_comp =
  zc_variant :: zgfx_variant
  zc_mode :: zgfx_mode
  zc_p :: zgfx_params
  zc_hash_shift :: nat
  zc_window :: bytes
  zc_max_window :: nat
  zc_window_start :: nat
  zc_reset_pos :: nat
  zc_head :: "u32 list"
  zc_chain :: "u32 list"
  zc_chain_mask :: nat
  zc_insert_pos :: nat

definition zc_new :: "zgfx_variant \<Rightarrow> zgfx_mode \<Rightarrow> zgfx_comp" where
  "zc_new v m =
     (let c = \<lparr>zc_variant = v, zc_mode = m, zc_p = params v, zc_hash_shift = 0, zc_window = [], zc_max_window = 0,
           zc_window_start = 0, zc_reset_pos = 0, zc_head = [], zc_chain = [], zc_chain_mask = 0, zc_insert_pos = 0\<rparr>;
          hash_bits = (if v = Rdp8 then hash_bits_rdp8 else hash_bits_lite) in
      if m = Store then c
      else c\<lparr>zc_hash_shift := 32 - hash_bits, zc_max_window := 2 * pm_history (params v) + pm_max_segment (params v),
        zc_head := replicate (2 ^ hash_bits) 0\<rparr>)"

definition window_end :: "zgfx_comp \<Rightarrow> nat" where
  "window_end c = zc_window_start c + length (zc_window c)"

definition chain_index :: "zgfx_comp \<Rightarrow> nat \<Rightarrow> nat" where
  "chain_index c pos = (pos - zc_reset_pos c) AND zc_chain_mask c"

definition zc_reset :: "zgfx_comp \<Rightarrow> zgfx_comp" where
  "zc_reset c =
     (let e = window_end c in
      c\<lparr>zc_head := replicate (length (zc_head c)) 0, zc_window := [], zc_window_start := e, zc_reset_pos := e, zc_insert_pos := e\<rparr>)"

text \<open>\<open>std::bit_ceil\<close>.\<close>

definition bit_ceil :: "nat \<Rightarrow> nat" where
  "bit_ceil n = (if n \<le> 1 then 1 else 2 ^ bit_width (n - 1))"

definition zc_slide :: "nat \<Rightarrow> zgfx_comp \<Rightarrow> zgfx_comp" where
  "zc_slide n c =
     (if length (zc_window c) + n > zc_max_window c
      then let keep = min (length (zc_window c)) (pm_history (zc_p c));
               shift = length (zc_window c) - keep
           in c\<lparr>zc_window := drop shift (zc_window c), zc_window_start := zc_window_start c + shift\<rparr>
      else c)"

definition zc_grow_chain :: "zgfx_comp \<Rightarrow> zgfx_comp" where
  "zc_grow_chain c =
     (let needed = bit_ceil (min (pm_history (zc_p c)) (window_end c - zc_reset_pos c)) in
      if length (zc_chain c) < needed
      then c\<lparr>zc_chain := zc_chain c @ replicate (needed - length (zc_chain c)) 0, zc_chain_mask := needed - 1\<rparr>
      else c)"

definition zc_append :: "bytes \<Rightarrow> zgfx_comp \<Rightarrow> zgfx_comp" where
  "zc_append data c =
     (let c = zc_slide (length data) c in zc_grow_chain (c\<lparr>zc_window := zc_window c @ data\<rparr>))"

definition zc_link :: "nat \<Rightarrow> zgfx_comp \<Rightarrow> (u32 \<times> zgfx_comp) option" where
  "zc_link pos c = do {
     wassert (zc_window_start c \<le> pos);
     h \<leftarrow> hash3 (zc_window c) (pos - zc_window_start c) (zc_hash_shift c);
     entry \<leftarrow> at_index (zc_head c) h;
     wassert (zc_reset_pos c \<le> pos \<and> chain_index c pos < length (zc_chain c));
     Some (entry, c\<lparr>zc_chain := (zc_chain c)[chain_index c pos := entry], zc_head := (zc_head c)[h := of_nat (pos + 1)]\<rparr>)
   }"

definition zc_insert :: "nat \<Rightarrow> zgfx_comp \<Rightarrow> zgfx_comp option" where
  "zc_insert pos c = map_option snd (zc_link pos c)"

definition hashable_end :: "zgfx_comp \<Rightarrow> nat" where
  "hashable_end c = (if length (zc_window c) \<ge> min_match - 1 then window_end c - (min_match - 1) else zc_window_start c)"

function insert_range :: "nat \<Rightarrow> nat \<Rightarrow> zgfx_comp \<Rightarrow> zgfx_comp option" where
  "insert_range pos to c =
     (if pos < min to (hashable_end c) then zc_insert pos c \<bind> insert_range (pos + 1) to else Some c)"
  by pat_completeness auto
termination
  by (relation "measure (\<lambda>(pos, to, c). to - pos)") auto

declare insert_range.simps [simp del]

record zmatch =
  zm_length :: nat
  zm_distance :: u32

text \<open>The walk along a chain, at most \<open>depth\<close> entries more.\<close>

fun walk_chain :: "endian \<Rightarrow> zgfx_comp \<Rightarrow> nat \<Rightarrow> nat \<Rightarrow> u32 \<Rightarrow> nat \<Rightarrow> u32 \<Rightarrow> u32 \<Rightarrow> zmatch \<Rightarrow> int \<Rightarrow> zmatch option" where
  "walk_chain en c pos limit max_dist 0 entry last_distance best best_score = Some best"
| "walk_chain en c pos limit max_dist (Suc depth) entry last_distance best best_score =
     (if entry = 0 then Some best
      else
        let distance = of_nat pos - (entry - 1);
            w = zc_window c;
            here = pos - zc_window_start c in
        if distance \<le> last_distance \<or> distance > max_dist then Some best
        else do {
          wassert (unat distance \<le> here);
          let cand = here - unat distance;
          entry \<leftarrow> at_index (zc_chain c) (chain_index c (pos - unat distance));
          x \<leftarrow> at_index w (cand + zm_length best);
          y \<leftarrow> at_index w (here + zm_length best);
          if x \<noteq> y then walk_chain en c pos limit max_dist depth entry distance best best_score
          else do {
            n \<leftarrow> common_length en w cand here limit;
            let score = 9 * int n - int (match_cost distance n);
            if n < min_match \<or> \<not> score > best_score
            then walk_chain en c pos limit max_dist depth entry distance best best_score
            else if n \<ge> min limit nice_length then Some \<lparr>zm_length = n, zm_distance = distance\<rparr>
            else walk_chain en c pos limit max_dist depth entry distance \<lparr>zm_length = n, zm_distance = distance\<rparr> score
          }
        })"

definition find_match :: "endian \<Rightarrow> nat \<Rightarrow> nat \<Rightarrow> zgfx_comp \<Rightarrow> (zmatch \<times> zgfx_comp) option" where
  "find_match en pos limit c = do {
     (entry, c) \<leftarrow> zc_link pos c;
     let max_dist = of_nat (min (pm_history (zc_p c)) (pos - zc_reset_pos c));
     best \<leftarrow> walk_chain en c pos limit max_dist max_chain entry 0 \<lparr>zm_length = 0, zm_distance = 0\<rparr> 0;
     Some (best, c)
   }"

definition put_code :: "code \<Rightarrow> bit_writer \<Rightarrow> bit_writer" where
  "put_code c = bw_put (cd_bits c) (cd_length c)"

function put_literals :: "bytes \<Rightarrow> bit_writer \<Rightarrow> bit_writer option" where
  "put_literals bs bw =
     (if bs = [] then Some bw
      else
        let chunk = take max_run bs;
            pad = (8 - (bw_pending bw + run_header_bits) mod 8) mod 8;
            run_bits = run_header_bits + pad + 8 * length chunk in
        (if run_bits < literal_cost chunk
         then
           let zero = match_tokens ! 0 in
           bw_bytes chunk (bw_align (bw_put (of_nat (length chunk)) 15 (bw_put 0 (tk_value_bits zero)
             (bw_put (ucast (tk_prefix zero)) (tk_prefix_length zero) bw))))
         else Some (fold (\<lambda>b. put_code (literal_code b)) chunk bw)) \<bind> put_literals (drop max_run bs))"
  by pat_completeness auto
termination
  by (relation "measure (\<lambda>(bs, bw). length bs)") (auto simp: max_run_def)

declare put_literals.simps [simp del]

definition window_bytes :: "zgfx_comp \<Rightarrow> nat \<Rightarrow> nat \<Rightarrow> bytes option" where
  "window_bytes c from to = do {
     wassert (zc_window_start c \<le> from \<and> from \<le> to);
     subspan (zc_window c) (from - zc_window_start c) (to - from)
   }"

definition take_match :: "zmatch \<Rightarrow> bytes \<Rightarrow> bool" where
  "take_match m bs \<longleftrightarrow> zm_length m \<ge> min_match \<and> (zm_length m \<ge> 8 \<or> match_cost (zm_distance m) (zm_length m) < literal_cost bs)"

text \<open>The parse loop; \<open>stop\<close> is the end of the segment.\<close>

function compress_loop :: "endian \<Rightarrow> nat \<Rightarrow> nat \<Rightarrow> nat \<Rightarrow> nat \<Rightarrow> bit_writer \<Rightarrow> zgfx_comp \<Rightarrow> (nat \<times> bit_writer \<times> zgfx_comp) option" where
  "compress_loop en stop pos literals misses bw c =
     (if pos + min_match \<le> stop
      then do {
        (m, c) \<leftarrow> find_match en pos (min (stop - pos) max_match) c;
        covered \<leftarrow> window_bytes c pos (pos + zm_length m);
        if \<not> take_match m covered
        then compress_loop en stop (pos + 1 + (misses + 1) div 2 ^ skip_trigger) literals (misses + 1) bw c
        else do {
          bs \<leftarrow> window_bytes c literals pos;
          bw \<leftarrow> put_literals bs bw;
          let d = distance_code (zm_distance m);
          let bw = put_code (length_code (zm_length m)) (put_code (snd d) (put_code (fst d) bw));
          let match_end = pos + zm_length m;
          let first = (if zm_length m \<le> max_insert_length then pos + 1 else max (pos + 1) (match_end - tail_insert));
          c \<leftarrow> insert_range first match_end c;
          compress_loop en stop match_end match_end 0 bw c
        }
      }
      else do {
        bs \<leftarrow> window_bytes c literals stop;
        bw \<leftarrow> put_literals bs bw;
        Some (pos, bw, c)
      })"
  by pat_completeness auto
termination
  by (relation "measure (\<lambda>(en, stop, pos, literals, misses, bw, c). stop - pos)") (auto simp: take_match_def min_match_def)

declare compress_loop.simps [simp del]

definition compress_segment :: "endian \<Rightarrow> nat \<Rightarrow> nat \<Rightarrow> bit_writer \<Rightarrow> zgfx_comp \<Rightarrow> (bit_writer \<times> zgfx_comp) option" where
  "compress_segment en start stop bw c = do {
     wassert (zc_insert_pos c \<le> start);
     c \<leftarrow> (if start - zc_insert_pos c < min_match
        then do {
          c \<leftarrow> insert_range (zc_insert_pos c) start c;
          Some (c\<lparr>zc_insert_pos := max (zc_insert_pos c) (min start (hashable_end c))\<rparr>)
        }
        else Some (c\<lparr>zc_insert_pos := start\<rparr>));
     (pos, bw, c) \<leftarrow> compress_loop en stop start start 0 bw c;
     Some (bw, c\<lparr>zc_insert_pos := max (zc_insert_pos c) (min pos (hashable_end c))\<rparr>)
   }"

definition encode_segment :: "endian \<Rightarrow> bytes \<Rightarrow> writer \<Rightarrow> zgfx_comp \<Rightarrow> (writer \<times> zgfx_comp) option" where
  "encode_segment en data out c = do {
     wassert (length data \<le> pm_max_segment (zc_p c));
     if zc_mode c = Store then Some (w_bytes data (w_u8 (pm_type (zc_p c)) out), c)
     else do {
       let c = zc_append data c;
       let e = window_end c;
       (bw, c) \<leftarrow> compress_segment en (e - length data) e bw_new c;
       let scratch = bw_finish bw;
       Some (if length scratch < length data
         then w_bytes scratch (w_u8 (pm_type (zc_p c) OR zgfx_packet_compressed) out)
         else w_bytes data (w_u8 (pm_type (zc_p c)) out), c)
     }
   }"

function encode_segments :: "endian \<Rightarrow> bytes \<Rightarrow> writer \<Rightarrow> zgfx_comp \<Rightarrow> (writer \<times> zgfx_comp) option" where
  "encode_segments en data out c =
     (if data = [] then Some (out, c)
      else do {
        wassert (0 < pm_max_segment (zc_p c));
        let segment = take (pm_max_segment (zc_p c)) data;
        let size_at = length out;
        (out, c') \<leftarrow> encode_segment en segment (w_u32le 0 out) c;
        out \<leftarrow> w_patch_u32le size_at (of_nat (length out - size_at - 4)) out;
        encode_segments en (drop (pm_max_segment (zc_p c)) data) out c'
      })"
  by pat_completeness auto
termination
  by (relation "measure (\<lambda>(en, data, out, c). length data)") (auto simp: wassert_def split: if_splits)

declare encode_segments.simps [simp del]

fun zgfx_max_input_size :: "zgfx_variant \<Rightarrow> nat" where
  "zgfx_max_input_size Rdp8 = max_segment_size * max_segment_count"
| "zgfx_max_input_size Rdp8_Lite = lite_max_segment_size"

definition zc_compress :: "endian \<Rightarrow> bytes \<Rightarrow> writer \<Rightarrow> zgfx_comp \<Rightarrow> (writer \<times> zgfx_comp) option" where
  "zc_compress en data out c = do {
     wassert (length data \<le> zgfx_max_input_size (zc_variant c));
     let p = zc_p c;
     if data = [] then Some (w_u8 0 (w_u8 (pm_type p OR zgfx_packet_compressed) (w_u8 descriptor_single out)), c)
     else if length data \<le> pm_max_segment p then encode_segment en data (w_u8 descriptor_single out) c
     else do {
       let count = (length data + pm_max_segment p - 1) div pm_max_segment p;
       encode_segments en data (w_u32le (of_nat (length data)) (w_u16le (of_nat count) (w_u8 descriptor_multipart out))) c
     }
   }"

section \<open>Eight bytes at a time is one byte at a time\<close>

definition common_prefix :: "bytes \<Rightarrow> nat \<Rightarrow> nat \<Rightarrow> nat \<Rightarrow> nat" where
  "common_prefix w a b limit = length (takeWhile (\<lambda>i. w ! (a + i) = w ! (b + i)) [0..<limit])"

lemma takeWhile_upt:
  assumes "n \<le> limit" "\<And>i. i < n \<Longrightarrow> P i" "n < limit \<Longrightarrow> \<not> P n"
  shows "length (takeWhile P [0..<limit]) = n"
proof (cases "n < limit")
  case True
  then have "[0..<limit] = [0..<n] @ n # [Suc n..<limit]" using upt_add_eq_append [of 0 n "limit - n"] upt_conv_Cons [of n limit] by simp
  with assms True show ?thesis by (simp add: takeWhile_append)
next
  case False
  then show ?thesis using assms by (simp add: takeWhile_eq_all_conv [THEN iffD2])
qed

lemma takeWhile_upt_less:
  assumes "k < limit" "\<not> P k"
  defines "n \<equiv> length (takeWhile P [0..<limit])"
  shows "n < limit" "\<not> P n" "\<And>i. i < n \<Longrightarrow> P i"
proof -
  have "k \<notin> set (takeWhile P [0..<limit])" using assms(2) by (auto dest: set_takeWhileD)
  then have "takeWhile P [0..<limit] \<noteq> [0..<limit]" using assms(1) by (metis atLeastLessThan_upt atLeastLessThan_iff zero_le)
  then show "n < limit" unfolding n_def using length_takeWhile_le [of P "[0..<limit]"]
    by (metis diff_zero le_neq_implies_less length_upt takeWhile_eq_take take_all order_refl)
  then show "\<not> P n" unfolding n_def using nth_length_takeWhile [of P "[0..<limit]"] by simp
  show "P i" if "i < n" for i
    using that takeWhile_nth [of i P "[0..<limit]"] nth_mem [of i "takeWhile P [0..<limit]"] \<open>n < limit\<close> by (auto simp: n_def dest: set_takeWhileD)
qed

lemma xor_eq_0: "x XOR y = 0 \<longleftrightarrow> x = (y :: 'a::len word)"
  by (metis xor.assoc xor_self_eq xor.right_neutral xor.left_neutral)

lemma byte_eqI: "(\<And>m. m < 8 \<Longrightarrow> bit x m = bit y m) \<Longrightarrow> x = (y :: byte)"
  by (rule bit_eqI) simp

primrec load :: "endian \<Rightarrow> bytes \<Rightarrow> u64" where
  "load Little = le_value"
| "load Big = be_value"

lemma load64_load: "load64 en w k = map_option (load en) (subspan w k 8)"
  by (cases en) simp_all

text \<open>In either byte order, the first zero bits counted are those of the first bytes.\<close>

lemma load_bits:
  fixes en xs ys z
  assumes "length xs = 8" "length ys = 8" "z < 64"
  defines "k \<equiv> (case en of Little \<Rightarrow> z | Big \<Rightarrow> 63 - z)"
  shows "bit (load en xs XOR load en ys) k \<longleftrightarrow> bit (xs ! (z div 8)) (k mod 8) \<noteq> bit (ys ! (z div 8)) (k mod 8)"
proof (cases en)
  case Little
  then show ?thesis using assms by (simp add: bit_xor_iff bit_le_value div_less_iff_less_mult)
next
  case Big
  have q: "z div 8 < 8" using assms(3) by (simp add: div_less_iff_less_mult)
  have "(63 - (8 * q + r)) div 8 = 7 - q" if "q < 8" "r < 8" for q r :: nat
    using that by (intro div_nat_eqI) auto
  from this [OF q, of "z mod 8"] have "(63 - z) div 8 = 7 - z div 8" by simp
  with q have "rev xs ! ((63 - z) div 8) = xs ! (z div 8)" "rev ys ! ((63 - z) div 8) = ys ! (z div 8)" "(63 - z) div 8 < 8" "63 - z < 64"
    using assms(1,2) by (simp_all add: rev_nth Suc_diff_Suc)
  then show ?thesis using Big assms(1,2) by (simp add: k_def bit_xor_iff bit_be_value)
qed

lemma bit_position:
  fixes en i m
  assumes "i < 8" "m < (8 :: nat)"
  defines "z \<equiv> (case en of Little \<Rightarrow> 8 * i + m | Big \<Rightarrow> 8 * i + (7 - m))"
  shows "z < 8 * i + 8" "z div 8 = i" "(case en of Little \<Rightarrow> z | Big \<Rightarrow> 63 - z) mod 8 = m"
proof -
  have "63 - (8 * i + (7 - m)) = 8 * (7 - i) + m" using assms(1,2) by arith
  then show "z < 8 * i + 8" "z div 8 = i" "(case en of Little \<Rightarrow> z | Big \<Rightarrow> 63 - z) mod 8 = m"
    using assms(2) by (cases en; simp add: z_def)+
qed

lemma load_inj:
  assumes "length xs = 8" "length ys = 8" "load en xs = load en ys" "i < 8"
  shows "xs ! i = ys ! i"
proof (rule byte_eqI)
  fix m :: nat assume m: "m < 8"
  note z = bit_position [OF assms(4) m, of en]
  let ?z = "case en of Little \<Rightarrow> 8 * i + m | Big \<Rightarrow> 8 * i + (7 - m)"
  have "?z < 64" using z(1) assms(4) by linarith
  from load_bits [OF assms(1,2) this, of en] show "bit (xs ! i) m = bit (ys ! i) m"
    unfolding assms(3) z(2,3) by simp
qed

lemma first_difference:
  fixes en xs ys
  assumes "length xs = 8" "length ys = 8" "load en xs XOR load en ys \<noteq> 0"
  defines "j \<equiv> first_difference en (load en xs XOR load en ys)"
  shows "j < 8" "xs ! j \<noteq> ys ! j" "\<And>i. i < j \<Longrightarrow> xs ! i = ys ! i"
proof -
  let ?x = "load en xs XOR load en ys" and ?at = "\<lambda>z. case en of Little \<Rightarrow> z | Big \<Rightarrow> 63 - z"
  define z where "z = length (takeWhile (\<lambda>i. \<not> bit ?x (?at i)) [0..<64])"
  have j: "j = z div 8" by (cases en) (simp_all add: j_def z_def countr_zero_def countl_zero_def del: upt_rec_numeral)
  obtain k where k: "bit ?x k" using assms(3) by (auto simp: bit_eq_iff)
  then have "k < 64" using bit_imp_le_length [of ?x k] by simp
  then have "?at k < 64" "bit ?x (?at (?at k))" using k by (cases en; simp)+
  then have z: "z < 64" "bit ?x (?at z)" "\<And>i. i < z \<Longrightarrow> \<not> bit ?x (?at i)"
    unfolding z_def using takeWhile_upt_less [of "?at k" 64 "\<lambda>i. \<not> bit ?x (?at i)"] by blast+
  show "j < 8" using z(1) j by (simp add: div_less_iff_less_mult)
  show "xs ! j \<noteq> ys ! j" using z(2) load_bits [OF assms(1,2) z(1), of en] j by auto
  show "xs ! i = ys ! i" if "i < j" for i
  proof (rule byte_eqI)
    fix m :: nat assume m: "m < 8"
    have i: "8 * i + 8 \<le> z" using that j by (simp add: less_eq_div_iff_mult_less_eq)
    then have "i < 8" using z(1) by linarith
    note k = bit_position [OF this m, of en]
    let ?k = "case en of Little \<Rightarrow> 8 * i + m | Big \<Rightarrow> 8 * i + (7 - m)"
    have "?k < z" "?k < 64" using k(1) i z(1) by linarith+
    with load_bits [OF assms(1,2), of ?k en] z(3) [of ?k] show "bit (xs ! i) m = bit (ys ! i) m"
      unfolding k(2,3) by blast
  qed
qed

lemma common_tail_ok:
  assumes "a + limit \<le> length w" "b + limit \<le> length w" "n \<le> limit" "\<And>i. i < n \<Longrightarrow> w ! (a + i) = w ! (b + i)"
  shows "common_tail w a b limit n = Some (common_prefix w a b limit)"
  using assms
proof (induction w a b limit n rule: common_tail.induct)
  case (1 w a b limit n)
  show ?case
  proof (cases "n < limit \<and> w ! (a + n) = w ! (b + n)")
    case True
    have "common_tail w a b limit (n + 1) = Some (common_prefix w a b limit)"
      using True "1.prems" by (intro "1.IH") (auto simp: at_index_def less_Suc_eq)
    then show ?thesis using True "1.prems" by (simp add: common_tail.simps [of w a b limit n] at_index_def)
  next
    case False
    then have "common_prefix w a b limit = n" unfolding common_prefix_def using "1.prems" by (intro takeWhile_upt) auto
    then show ?thesis using False "1.prems" by (auto simp: common_tail.simps [of w a b limit n] at_index_def)
  qed
qed

lemma common_words_ok:
  assumes "a + limit \<le> length w" "b + limit \<le> length w" "n \<le> limit" "\<And>i. i < n \<Longrightarrow> w ! (a + i) = w ! (b + i)"
  shows "common_words en w a b limit n = Some (common_prefix w a b limit)"
  using assms
proof (induction en w a b limit n rule: common_words.induct)
  case (1 en w a b limit n)
  show ?case
  proof (cases "n + 8 \<le> limit")
    case True
    let ?xs = "take 8 (drop (a + n) w)" and ?ys = "take 8 (drop (b + n) w)"
    have len: "length ?xs = 8" "length ?ys = 8" using True "1.prems" by simp_all
    have nth: "?xs ! i = w ! (a + (n + i))" "?ys ! i = w ! (b + (n + i))" if "i < 8" for i
      using that True "1.prems"(1,2) by (simp_all add: add.assoc)
    have l: "load64 en w (a + n) = Some (load en ?xs)" "load64 en w (b + n) = Some (load en ?ys)"
      using True "1.prems" by (simp_all add: load64_load subspan_def)
    show ?thesis
    proof (cases "load en ?xs XOR load en ?ys = 0")
      case eq: True
      then have "load en ?xs = load en ?ys" by (simp add: xor_eq_0)
      then have "?xs ! i = ?ys ! i" if "i < 8" for i using that by (rule load_inj [OF len])
      then have "w ! (a + i) = w ! (b + i)" if "i < n + 8" for i
        using that nth [of "i - n"] "1.prems"(4) [of i] by (cases "i < n") auto
      then have "common_words en w a b limit (n + 8) = Some (common_prefix w a b limit)"
        using True "1.prems" l eq by (intro "1.IH" [OF True l refl]) auto
      then show ?thesis using True l eq by (simp add: common_words.simps [of en w a b limit n] Let_def)
    next
      case False
      note d = first_difference [OF len False]
      let ?j = "first_difference en (load en ?xs XOR load en ?ys)"
      have "common_prefix w a b limit = n + ?j" unfolding common_prefix_def
      proof (rule takeWhile_upt)
        fix i assume i: "i < n + ?j"
        show "w ! (a + i) = w ! (b + i)"
          using "1.prems"(4) [of i] d(3) [of "i - n"] nth [of "i - n"] d(1) i by (cases "i < n") auto
      qed (use d(1,2) nth True in auto)
      then show ?thesis using True l False by (simp add: common_words.simps [of en w a b limit n] Let_def)
    qed
  next
    case False
    then show ?thesis using common_tail_ok "1.prems" by (simp add: common_words.simps [of en w a b limit n])
  qed
qed

end
