(* ===== verification/Stateful_Codec.thy ===== *)
theory Stateful_Codec
  imports Machine
begin

text \<open>
  The interface of a pair of coders that both keep a history: the decoder gives a message back only
  when its history is that of the encoder, so what matters is a relation between the two states that
  every message, and every reset of both, keeps. A session is a sequence of messages and resets.
\<close>

datatype 'm codec_op = Send 'm | Reset_Both

fun sent :: "'m codec_op list \<Rightarrow> 'm list" where
  "sent [] = []"
| "sent (Send m # ops) = m # sent ops"
| "sent (Reset_Both # ops) = sent ops"

fun codec_session :: "('c \<Rightarrow> 'm \<Rightarrow> ('w \<times> 'c) option) \<Rightarrow> ('d \<Rightarrow> 'w \<Rightarrow> ('m result \<times> 'd) option) \<Rightarrow>
    ('c \<Rightarrow> 'c) \<Rightarrow> ('d \<Rightarrow> 'd) \<Rightarrow> 'm codec_op list \<Rightarrow> 'c \<Rightarrow> 'd \<Rightarrow> 'm result list option" where
  "codec_session enc dec reset_c reset_d [] c d = Some []"
| "codec_session enc dec reset_c reset_d (Send m # ops) c d = do {
     (w, c) \<leftarrow> enc c m;
     (x, d) \<leftarrow> dec d w;
     xs \<leftarrow> codec_session enc dec reset_c reset_d ops c d;
     Some (x # xs)
   }"
| "codec_session enc dec reset_c reset_d (Reset_Both # ops) c d =
     codec_session enc dec reset_c reset_d ops (reset_c c) (reset_d d)"

locale stateful_codec =
  fixes enc :: "'c \<Rightarrow> 'm \<Rightarrow> ('w \<times> 'c) option"
    and dec :: "'d \<Rightarrow> 'w \<Rightarrow> ('m result \<times> 'd) option"
    and reset_c :: "'c \<Rightarrow> 'c"
    and reset_d :: "'d \<Rightarrow> 'd"
    and paired :: "'c \<Rightarrow> 'd \<Rightarrow> bool"
    and fits :: "'m \<Rightarrow> bool"
  assumes transfers: "paired c d \<Longrightarrow> fits m \<Longrightarrow>
      \<exists>w c' d'. enc c m = Some (w, c') \<and> dec d w = Some (Inr m, d') \<and> paired c' d'"
    and resets: "paired c d \<Longrightarrow> paired (reset_c c) (reset_d d)"
begin

lemma session:
  assumes "paired c d" "list_all fits (sent ops)"
  shows "codec_session enc dec reset_c reset_d ops c d = Some (map Inr (sent ops))"
  using assms
proof (induction ops arbitrary: c d rule: sent.induct)
  case (2 m ops)
  then obtain w c' d' where "enc c m = Some (w, c')" "dec d w = Some (Inr m, d')" "paired c' d'"
    using transfers by fastforce
  with 2 show ?case by simp
next
  case (3 ops)
  then show ?case using resets by simp
qed simp

end

end
