(* ===== verification/Zgfx_Roundtrip.thy ===== *)
theory Zgfx_Roundtrip
  imports Zgfx_Compress Stateful_Codec
begin

text \<open>
  The compressor never leaves its arrays, every match it takes repeats bytes of the history, and the
  decompressor gives back what was compressed, message after message, as long as both are reset together.
\<close>

section \<open>The state of the compressor\<close>

definition hash_bits :: "zgfx_variant \<Rightarrow> nat" where
  "hash_bits v = (if v = Rdp8 then hash_bits_rdp8 else hash_bits_lite)"

definition zc_core :: "zgfx_comp \<Rightarrow> bool" where
  "zc_core c \<longleftrightarrow> zc_hash_shift c = 32 - hash_bits (zc_variant c) \<and> length (zc_head c) = 2 ^ hash_bits (zc_variant c) \<and>
     zc_reset_pos c \<le> zc_window_start c \<and>
     (zc_window_start c = zc_reset_pos c \<or> pm_history (zc_p c) \<le> length (zc_window c)) \<and>
     (zc_chain c = [] \<or> zc_chain_mask c = length (zc_chain c) - 1)"

text \<open>Only the contents of the chains differ.\<close>

definition zc_same :: "zgfx_comp \<Rightarrow> zgfx_comp \<Rightarrow> bool" where
  "zc_same c c' \<longleftrightarrow> zc_variant c' = zc_variant c \<and> zc_mode c' = zc_mode c \<and> zc_p c' = zc_p c \<and>
     zc_hash_shift c' = zc_hash_shift c \<and> zc_window c' = zc_window c \<and> zc_max_window c' = zc_max_window c \<and>
     zc_window_start c' = zc_window_start c \<and> zc_reset_pos c' = zc_reset_pos c \<and> zc_insert_pos c' = zc_insert_pos c \<and>
     zc_chain_mask c' = zc_chain_mask c \<and> length (zc_head c') = length (zc_head c) \<and> length (zc_chain c') = length (zc_chain c)"

lemma zc_same_refl: "zc_same c c" and zc_same_trans: "zc_same c c' \<Longrightarrow> zc_same c' c'' \<Longrightarrow> zc_same c c''"
  by (simp_all add: zc_same_def)

lemma zc_sameD:
  assumes "zc_same c c'"
  shows "zc_core c' \<longleftrightarrow> zc_core c" "zc_chain c' = [] \<longleftrightarrow> zc_chain c = []" "hashable_end c' = hashable_end c" "window_end c' = window_end c"
    "zc_window_start c' = zc_window_start c" "zc_window c' = zc_window c" "zc_p c' = zc_p c" "zc_reset_pos c' = zc_reset_pos c"
  using assms by (auto simp: zc_same_def zc_core_def hashable_end_def window_end_def simp flip: length_0_conv)

lemma nat_and_le: "x AND m \<le> (m :: nat)"
proof -
  have "int (x AND m) \<le> int m" unfolding of_nat_and_eq by (intro AND_upper2) simp
  then show ?thesis by simp
qed

lemma hash_less:
  assumes "k + 3 \<le> length w" "n \<le> 32"
  shows "\<exists>h. hash3 w k (32 - n) = Some h \<and> h < 2 ^ n"
proof -
  have "unat (drop_bit (32 - n) v) < 2 ^ n" for v :: u32
  proof -
    have "unat v < 2 ^ (32 - n) * 2 ^ n" using unsigned_less [of v, where 'a = nat] assms(2) by (simp flip: power_add)
    then show ?thesis unfolding unat_drop_bit_eq unfolding drop_bit_eq_div by (simp add: less_mult_imp_div_less mult.commute)
  qed
  then show ?thesis using assms(1) by (simp add: hash3_def subspan_def Let_def)
qed

lemma zc_link_ok:
  assumes "zc_core c" "zc_chain c \<noteq> []" "zc_window_start c \<le> pos" "pos + min_match \<le> window_end c"
  shows "\<exists>entry c'. zc_link pos c = Some (entry, c') \<and> zc_same c c'"
proof -
  have len: "pos - zc_window_start c + 3 \<le> length (zc_window c)" using assms(3,4) by (simp add: window_end_def min_match_def)
  have hb: "hash_bits (zc_variant c) \<le> 32" by (simp add: hash_bits_def hash_bits_rdp8_def hash_bits_lite_def)
  obtain h where h: "hash3 (zc_window c) (pos - zc_window_start c) (zc_hash_shift c) = Some h" "h < length (zc_head c)"
    using hash_less [OF len hb] assms(1) by (auto simp: zc_core_def)
  have "chain_index c pos < length (zc_chain c)"
    using assms(1,2) nat_and_le [of "pos - zc_reset_pos c" "zc_chain_mask c"]
    by (simp add: zc_core_def chain_index_def) (metis Suc_pred le_imp_less_Suc length_greater_0_conv)
  with h assms show ?thesis by (simp add: zc_link_def wassert_def at_index_def zc_core_def zc_same_def)
qed

lemma insert_range_ok:
  assumes "zc_core c" "zc_chain c \<noteq> []" "zc_window_start c \<le> pos"
  shows "\<exists>c'. insert_range pos to c = Some c' \<and> zc_same c c'"
  using assms
proof (induction pos to c rule: insert_range.induct)
  case (1 pos to c)
  show ?case
  proof (cases "pos < min to (hashable_end c)")
    case True
    then have "pos + min_match \<le> window_end c"
      using "1.prems"(3) by (auto simp: hashable_end_def min_match_def split: if_splits)
    then obtain entry c1 where c1: "zc_link pos c = Some (entry, c1)" "zc_same c c1" using zc_link_ok "1.prems" by blast
    have "\<exists>c'. insert_range (pos + 1) to c1 = Some c' \<and> zc_same c1 c'"
      using c1 "1.prems" True by (intro "1.IH") (auto simp: zc_insert_def zc_sameD)
    then show ?thesis using c1 True by (auto simp: insert_range.simps [of pos to c] zc_insert_def intro: zc_same_trans)
  qed (auto simp: insert_range.simps [of pos to c] intro: zc_same_refl)
qed

section \<open>Matches repeat the history\<close>

definition match_ok :: "bytes \<Rightarrow> nat \<Rightarrow> nat \<Rightarrow> nat \<Rightarrow> zmatch \<Rightarrow> bool" where
  "match_ok w here limit md m \<longleftrightarrow> zm_length m = 0 \<or>
     min_match \<le> zm_length m \<and> zm_length m \<le> limit \<and> 0 < zm_distance m \<and> unat (zm_distance m) \<le> md \<and>
     (\<forall>i < zm_length m. w ! (here - unat (zm_distance m) + i) = w ! (here + i))"

lemma common_prefixD: "common_prefix w a b limit \<le> limit" "i < common_prefix w a b limit \<Longrightarrow> w ! (a + i) = w ! (b + i)"
proof -
  show "common_prefix w a b limit \<le> limit" unfolding common_prefix_def by (rule order_trans [OF length_takeWhile_le]) simp
  assume i: "i < common_prefix w a b limit"
  have "[0..<limit] ! i = i" using i \<open>common_prefix w a b limit \<le> limit\<close> by simp
  with i show "w ! (a + i) = w ! (b + i)"
    unfolding common_prefix_def by (metis (mono_tags, lifting) nth_mem set_takeWhileD takeWhile_nth)
qed

lemma chain_lookup:
  assumes "zc_core c" "zc_chain c \<noteq> []"
  shows "\<exists>entry. at_index (zc_chain c) (chain_index c pos) = Some entry"
  using assms nat_and_le [of "pos - zc_reset_pos c" "zc_chain_mask c"]
  by (simp add: zc_core_def chain_index_def at_index_def) (metis Suc_pred le_imp_less_Suc length_greater_0_conv)

lemma walk_chain_ok:
  assumes "zc_core c" "zc_chain c \<noteq> []" "unat md \<le> pos - zc_window_start c" "pos - zc_window_start c + limit \<le> length (zc_window c)"
    "zm_length best < limit" "match_ok (zc_window c) (pos - zc_window_start c) limit (unat md) best"
  shows "\<exists>m. walk_chain en c pos limit md depth entry last_distance best best_score = Some m \<and>
    match_ok (zc_window c) (pos - zc_window_start c) limit (unat md) m"
  using assms(5,6)
proof (induction depth arbitrary: entry last_distance best best_score)
  case (Suc depth)
  let ?d = "of_nat pos - (entry - 1) :: u32" and ?here = "pos - zc_window_start c" and ?w = "zc_window c"
  show ?case
  proof (cases "entry = 0 \<or> ?d \<le> last_distance \<or> ?d > md")
    case True
    then show ?thesis using Suc.prems by (auto simp: Let_def)
  next
    case False
    then have "last_distance < ?d" "?d \<le> md" by (simp_all add: not_le not_less)
    then have d: "0 < ?d" "unat ?d \<le> unat md"
      using le_less_trans [OF word_zero_le, of last_distance ?d] by (simp_all only: word_le_nat_alt)
    let ?cand = "?here - unat ?d"
    obtain entry' where e: "at_index (zc_chain c) (chain_index c (pos - unat ?d)) = Some entry'" using chain_lookup [OF assms(1,2)] by blast
    have x: "at_index ?w (?cand + zm_length best) = Some (?w ! (?cand + zm_length best))"
      "at_index ?w (?here + zm_length best) = Some (?w ! (?here + zm_length best))"
      using assms(4) Suc.prems(1) by (simp_all add: at_index_def)
    let ?n = "common_prefix ?w ?cand ?here limit"
    have n: "common_length en ?w ?cand ?here limit = Some ?n"
      unfolding common_length_def using assms(3,4) by (intro common_words_ok) auto
    have ok: "match_ok ?w ?here limit (unat md) \<lparr>zm_length = ?n, zm_distance = ?d\<rparr>" if "\<not> ?n < min_match"
      using that d common_prefixD [where w = ?w and a = ?cand and b = ?here and limit = limit] by (auto simp: match_ok_def)
    show ?thesis
    proof (cases "?w ! (?cand + zm_length best) \<noteq> ?w ! (?here + zm_length best) \<or> ?n < min_match \<or>
        \<not> 9 * int ?n - int (match_cost ?d ?n) > best_score")
      case True
      then show ?thesis
        using False d(2) e x n assms(3) Suc.IH [OF Suc.prems] by (auto simp: Let_def wassert_def)
    next
      case better: False
      have "min limit nice_length \<le> ?n \<or> ?n < limit" by linarith
      then show ?thesis
        using False better d(2) e x n assms(3) ok Suc.IH [OF _ ok] by (auto simp: Let_def wassert_def)
    qed
  qed
qed simp

lemma find_match_ok:
  assumes "zc_core c" "zc_chain c \<noteq> []" "zc_p c = params v" "zc_window_start c \<le> pos"
    "zc_window_start c = zc_reset_pos c \<or> zc_window_start c + pm_history (params v) \<le> pos"
    "min_match \<le> limit" "pos + limit \<le> window_end c"
  shows "\<exists>m c'. find_match en pos limit c = Some (m, c') \<and> zc_same c c' \<and>
    match_ok (zc_window c) (pos - zc_window_start c) limit (min (pm_history (params v)) (pos - zc_reset_pos c)) m"
proof -
  let ?H = "pm_history (params v)" and ?md = "min (pm_history (params v)) (pos - zc_reset_pos c)"
  have md: "unat (of_nat ?md :: u32) = ?md"
    using history_less [of v] by (simp add: unsigned_of_nat take_bit_nat_eq_self max_distance_def)
  have "pos + min_match \<le> window_end c" using assms(6,7) by simp
  then obtain entry c' where c': "zc_link pos c = Some (entry, c')" "zc_same c c'" using zc_link_ok [OF assms(1,2,4)] by blast
  note same = zc_sameD [OF c'(2)]
  have "\<exists>m. walk_chain en c' pos limit (of_nat ?md) max_chain entry 0 \<lparr>zm_length = 0, zm_distance = 0\<rparr> 0 = Some m \<and>
      match_ok (zc_window c') (pos - zc_window_start c') limit (unat (of_nat ?md :: u32)) m"
  proof (rule walk_chain_ok)
    show "unat (of_nat ?md :: u32) \<le> pos - zc_window_start c'" using assms(1,5) unfolding md same by (auto simp: zc_core_def)
    show "pos - zc_window_start c' + limit \<le> length (zc_window c')" using assms(4,7) unfolding same by (simp add: window_end_def)
  qed (use assms(1,2,6) same in \<open>auto simp: match_ok_def min_match_def\<close>)
  then show ?thesis using c' assms(3) same unfolding md by (auto simp: find_match_def Let_def)
qed

text \<open>A match that repeats what lies before it is the copy the decoder makes.\<close>

lemma lz_copy_match:
  assumes "0 < d" "d \<le> p" "p + n \<le> length full" "\<And>i. i < n \<Longrightarrow> full ! (p - d + i) = full ! (p + i)"
  shows "lz_copy d n (take p full) = take n (drop p full)"
proof -
  have *: "full ! (p + i) = full ! (p - d + i mod d)" if "i < n" for i
    using that
  proof (induction i rule: less_induct)
    case (less i)
    show ?case
    proof (cases "i < d")
      case True
      then show ?thesis using assms(4) [OF less.prems] by simp
    next
      case False
      then have "full ! (p - d + i) = full ! (p + (i - d))" using assms(2) by simp
      also have "\<dots> = full ! (p - d + (i - d) mod d)" using False assms(1) less.prems by (intro less.IH) auto
      finally show ?thesis using assms(4) [OF less.prems] False by (simp add: mod_if [of i d])
    qed
  qed
  show ?thesis
  proof (rule nth_equalityI)
    fix i assume "i < length (lz_copy d n (take p full))"
    then have i: "i < n" by simp
    have "p - d + i mod d < p" using assms(1,2) mod_less_divisor [of d i] by linarith
    then show "lz_copy d n (take p full) ! i = take n (drop p full) ! i"
      using i assms(2,3) * [OF i] by (simp add: lz_copy_def min_def)
  qed (use assms(3) in simp)
qed

section \<open>What is written are tokens\<close>

lemma put_code_bits:
  assumes "code_ok c" "bw_ok bw"
  shows "bw_bits (put_code c bw) = bw_bits bw @ code_bits c" "bw_ok (put_code c bw)"
  using assms bw_put_bits [of bw "cd_length c" "cd_bits c"] by (simp_all add: put_code_def code_ok_def code_bits_def)

lemma put_chars:
  assumes "bw_ok bw"
  shows "bw_ok (fold (\<lambda>b. put_code (literal_code b)) bs bw) \<and>
    bw_bits (fold (\<lambda>b. put_code (literal_code b)) bs bw) = bw_bits bw @ toks_bits (length (bw_bits bw)) (map ZLiteral bs)"
  using assms
proof (induction bs arbitrary: bw)
  case (Cons b bs)
  have "code_ok (literal_code b)" using literal_code_literal [of b] by (simp add: is_literal_def)
  note put = put_code_bits [OF this Cons.prems]
  show ?case using Cons.IH [OF put(2)] put(1) by simp
qed simp

lemma chars_tokens: "toks_valid h g (map ZLiteral bs)" "toks_out g (map ZLiteral bs) = bs"
  by (induction bs arbitrary: g) simp_all

lemma put_run:
  assumes "bw_ok bw" "length bs < 2 ^ 15"
  shows "\<exists>bw'. bw_bytes bs (bw_align (bw_put (of_nat (length bs)) 15 (bw_put 0 (tk_value_bits (match_tokens ! 0))
      (bw_put (ucast (tk_prefix (match_tokens ! 0))) (tk_prefix_length (match_tokens ! 0)) bw)))) = Some bw' \<and> bw_ok bw' \<and>
    bw_bits bw' = bw_bits bw @ tok_bits (length (bw_bits bw)) (ZRun bs)"
proof -
  let ?t = "tokens ! Suc 0"
  have t: "tk_prefix_length ?t \<le> 32" "tk_value_bits ?t \<le> 32" using tokenD [of "Suc 0"] by simp_all
  have p: "take_bit (tk_prefix_length ?t) (ucast (tk_prefix ?t) :: u32) = ucast (tk_prefix ?t)"
    using prefix_small [of "Suc 0"] by (simp add: take_bit_ucast_eq)
  define bw1 where "bw1 = bw_put (ucast (tk_prefix ?t)) (tk_prefix_length ?t) bw"
  define bw2 where "bw2 = bw_put 0 (tk_value_bits ?t) bw1"
  define bw3 where "bw3 = bw_put (of_nat (length bs)) 15 bw2"
  have 1: "bw_bits bw1 = bw_bits bw @ bits (tk_prefix_length ?t) (tk_prefix ?t)" "bw_ok bw1"
    unfolding bw1_def using bw_put_bits [OF assms(1) t(1) p] t(1) by (simp_all add: bits_ucast)
  have 2: "bw_bits bw2 = bw_bits bw1 @ bits (tk_value_bits ?t) (0 :: u32)" "bw_ok bw2"
    unfolding bw2_def using bw_put_bits [OF 1(2) t(2), of 0] by simp_all
  have "take_bit 15 (of_nat (length bs) :: u32) = of_nat (length bs)"
    using assms(2) by (intro word_take_bit_self) (simp add: unsigned_of_nat take_bit_nat_eq_self)
  then have 3: "bw_bits bw3 = bw_bits bw2 @ bits 15 (of_nat (length bs) :: u32)" "bw_ok bw3"
    unfolding bw3_def using bw_put_bits [OF 2(2), of 15] by simp_all
  have hdr: "bw_bits bw3 = bw_bits bw @ run_header bs" unfolding 1 2 3 by (simp add: run_header_def token_bits_def zero_match_token(1))
  obtain bw' where "bw_bytes bs (bw_align bw3) = Some bw'" "bw_bits bw' = bw_bits (bw_align bw3) @ stream_bits bs" "bw_ok bw'"
    using bw_bytes_bits [OF bw_align_bits(2) [OF 3(2)]] by blast
  then show ?thesis
    using bw_align_bits(1) [OF 3(2)] hdr by (simp add: zero_match_token(1) flip: bw1_def bw2_def bw3_def)
qed

lemma put_literals_ok:
  assumes "bw_ok bw"
  shows "\<exists>bw' ts. put_literals bs bw = Some bw' \<and> bw_ok bw' \<and> bw_bits bw' = bw_bits bw @ toks_bits (length (bw_bits bw)) ts \<and>
    (\<forall>h g. toks_valid h g ts \<and> toks_out g ts = bs)"
  using assms
proof (induction bs bw rule: put_literals.induct)
  case (1 bs bw)
  show ?case
  proof (cases "bs = []")
    case True
    then show ?thesis using "1.prems" by (auto simp: put_literals.simps intro!: exI [of _ "[]"])
  next
    case False
    let ?chunk = "take max_run bs"
    let ?first = "if run_header_bits + (8 - (bw_pending bw + run_header_bits) mod 8) mod 8 + 8 * length ?chunk < literal_cost ?chunk
      then bw_bytes ?chunk (bw_align (bw_put (of_nat (length ?chunk)) 15 (bw_put 0 (tk_value_bits (match_tokens ! 0))
        (bw_put (ucast (tk_prefix (match_tokens ! 0))) (tk_prefix_length (match_tokens ! 0)) bw))))
      else Some (fold (\<lambda>b. put_code (literal_code b)) ?chunk bw)"
    have "length ?chunk < 2 ^ 15" by (simp add: max_run_def)
    from put_run [OF "1.prems" this] put_chars [OF "1.prems", of ?chunk]
    obtain bw1 ts1 where 1: "?first = Some bw1" "bw_ok bw1" "bw_bits bw1 = bw_bits bw @ toks_bits (length (bw_bits bw)) ts1"
      "ts1 = [ZRun ?chunk] \<or> ts1 = map ZLiteral ?chunk"
      by (metis append_Nil2 toks_bits.simps)
    then have ts1: "toks_valid h g ts1 \<and> toks_out g ts1 = ?chunk" for h g
      by (auto simp: chars_tokens max_run_def)
    have "\<exists>bw' ts. put_literals (drop max_run bs) bw1 = Some bw' \<and> bw_ok bw' \<and>
        bw_bits bw' = bw_bits bw1 @ toks_bits (length (bw_bits bw1)) ts \<and> (\<forall>h g. toks_valid h g ts \<and> toks_out g ts = drop max_run bs)"
      using "1.IH" [OF False refl refl refl, unfolded Let_def, OF 1(1,2)] .
    then obtain bw2 ts2 where 2: "put_literals (drop max_run bs) bw1 = Some bw2" "bw_ok bw2"
        "bw_bits bw2 = bw_bits bw1 @ toks_bits (length (bw_bits bw1)) ts2" "\<And>h g. toks_valid h g ts2 \<and> toks_out g ts2 = drop max_run bs" by blast
    have "put_literals bs bw = Some bw2"
      unfolding put_literals.simps [of bs bw] Let_def by (simp only: False if_False 1(1) bind.bind_lunit 2(1))
    moreover have "bw_bits bw2 = bw_bits bw @ toks_bits (length (bw_bits bw)) (ts1 @ ts2)" using 1(3) 2(3) by (simp add: toks_append)
    moreover have "\<forall>h g. toks_valid h g (ts1 @ ts2) \<and> toks_out g (ts1 @ ts2) = bs" using ts1 2(4) by (simp add: toks_append)
    ultimately show ?thesis using 2(2) by blast
  qed
qed

section \<open>The parse covers the segment\<close>

lemma put_match_bits:
  assumes "bw_ok bw" "0 < d" "unat d < max_distance" "min_match \<le> n" "n \<le> max_match"
  defines "bw' \<equiv> put_code (length_code n) (put_code (snd (distance_code d)) (put_code (fst (distance_code d)) bw))"
  shows "bw_ok bw'" "bw_bits bw' = bw_bits bw @ tok_bits k (ZMatch (unat d) n)"
proof -
  have ok: "code_ok (fst (distance_code d))" "code_ok (snd (distance_code d))" using distance_code_bits [OF assms(3)] by auto
  note len = length_code_bits [OF assms(4,5)]
  note 1 = put_code_bits [OF ok(1) assms(1)]
  note 2 = put_code_bits [OF ok(2) 1(2)]
  note 3 = put_code_bits [OF len(1) 2(2)]
  show "bw_ok bw'" using 3(2) by (simp add: bw'_def)
  show "bw_bits bw' = bw_bits bw @ tok_bits k (ZMatch (unat d) n)" unfolding bw'_def using 1 2 3 len(2) by simp
qed

text \<open>
  The window holds the end of the stream \<open>full\<close> since the last reset, back to the history before the
  segment that starts at \<open>start\<close>.
\<close>

definition zc_holds :: "zgfx_variant \<Rightarrow> bytes \<Rightarrow> nat \<Rightarrow> zgfx_comp \<Rightarrow> bool" where
  "zc_holds v full start c \<longleftrightarrow> zc_core c \<and> zc_chain c \<noteq> [] \<and> zc_p c = params v \<and>
     zc_window c = drop (zc_window_start c - zc_reset_pos c) full \<and> window_end c = zc_reset_pos c + length full \<and>
     zc_window_start c \<le> start \<and> start \<le> window_end c \<and>
     (zc_window_start c = zc_reset_pos c \<or> zc_window_start c + pm_history (params v) \<le> start)"

lemma zc_holds_same: "zc_holds v full start c \<Longrightarrow> zc_same c c' \<Longrightarrow> zc_holds v full start c'"
  by (simp add: zc_holds_def zc_sameD)

lemma window_bytes_ok:
  assumes "zc_holds v full start c" "start \<le> from" "from \<le> to" "to \<le> window_end c"
  shows "window_bytes c from to = Some (take (to - from) (drop (from - zc_reset_pos c) full))"
proof -
  have "zc_reset_pos c \<le> zc_window_start c" using assms(1) by (simp add: zc_holds_def zc_core_def)
  then have "drop (from - zc_window_start c) (zc_window c) = drop (from - zc_reset_pos c) full"
    using assms(1,2) by (simp add: zc_holds_def)
  then show ?thesis
    using assms by (auto simp: window_bytes_def wassert_def subspan_def zc_holds_def window_end_def)
qed

lemma loop_match:
  assumes "zc_holds v full start c" "start \<le> pos" "match_ok (zc_window c) (pos - zc_window_start c) limit (min (pm_history (params v)) (pos - zc_reset_pos c)) m"
    "zm_length m \<noteq> 0" "pos + limit \<le> window_end c" "limit \<le> max_match"
  shows "tok_valid (pm_history (params v)) (take (pos - zc_reset_pos c) full) (ZMatch (unat (zm_distance m)) (zm_length m))"
    "tok_out (take (pos - zc_reset_pos c) full) (ZMatch (unat (zm_distance m)) (zm_length m)) =
       take (zm_length m) (drop (pos - zc_reset_pos c) full)"
proof -
  let ?d = "unat (zm_distance m)" and ?p = "pos - zc_reset_pos c" and ?s = "zc_window_start c - zc_reset_pos c"
  have h: "zc_reset_pos c \<le> zc_window_start c" "zc_window_start c \<le> pos" "zc_window c = drop ?s full" "window_end c = zc_reset_pos c + length full"
    "zc_window_start c = zc_reset_pos c \<or> pm_history (params v) \<le> pos - zc_window_start c"
    using assms(1,2) by (auto simp: zc_holds_def zc_core_def)
  have m: "min_match \<le> zm_length m" "zm_length m \<le> limit" "0 < ?d" "?d \<le> pm_history (params v)" "?d \<le> ?p"
    "\<And>i. i < zm_length m \<Longrightarrow> zc_window c ! (pos - zc_window_start c - ?d + i) = zc_window c ! (pos - zc_window_start c + i)"
    using assms(3,4) by (auto simp: match_ok_def unat_gt_0)
  have p: "?p + zm_length m \<le> length full" using h assms(5) m(2) by linarith
  show "tok_valid (pm_history (params v)) (take ?p full) (ZMatch ?d (zm_length m))" using m p assms(6) by simp
  have "full ! (?p - ?d + i) = full ! (?p + i)" if "i < zm_length m" for i
  proof -
    have "?d \<le> pos - zc_window_start c" using h(5) m(4,5) by auto
    then have "?s + (pos - zc_window_start c - ?d + i) = ?p - ?d + i" "?s + (pos - zc_window_start c + i) = ?p + i" using h(1,2) by auto
    moreover have "?s \<le> length full" using h p by linarith
    ultimately show ?thesis using m(6) [OF that] unfolding h(3) by (simp only: nth_drop)
  qed
  then show "tok_out (take ?p full) (ZMatch ?d (zm_length m)) = take (zm_length m) (drop ?p full)"
    using lz_copy_match [OF m(3,5) p] by simp
qed

lemma slice_append:
  assumes "a \<le> b" "b \<le> c"
  shows "take (b - a) (drop a xs) @ take (c - b) (drop b xs) = take (c - a) (drop a xs)"
proof -
  have "take (c - a) (drop a xs) = take (b - a) (drop a xs) @ take (c - b) (drop (b - a) (drop a xs))"
    using assms take_add [of "b - a" "c - b" "drop a xs"] by simp
  with assms show ?thesis by simp
qed

lemma compress_loop_ok:
  assumes "zc_holds v full start c" "stop = window_end c" "start \<le> literals" "literals \<le> pos" "literals \<le> stop" "bw_ok bw"
    "bw_bits bw = toks_bits 0 ts" "toks_valid (pm_history (params v)) (take (start - zc_reset_pos c) full) ts"
    "toks_out (take (start - zc_reset_pos c) full) ts = take (literals - start) (drop (start - zc_reset_pos c) full)"
  shows "\<exists>pos' bw' c' ts'. compress_loop en stop pos literals misses bw c = Some (pos', bw', c') \<and> zc_same c c' \<and> bw_ok bw' \<and>
    bw_bits bw' = toks_bits 0 ts' \<and> toks_valid (pm_history (params v)) (take (start - zc_reset_pos c) full) ts' \<and>
    toks_out (take (start - zc_reset_pos c) full) ts' = drop (start - zc_reset_pos c) full"
  using assms
proof (induction en stop pos literals misses bw c arbitrary: ts rule: compress_loop.induct)
  case (1 en stop pos literals misses bw c)
  let ?H = "pm_history (params v)" and ?r = "zc_reset_pos c"
  let ?g = "take (start - ?r) full" and ?limit = "min (stop - pos) max_match"
  have base: "?r \<le> start" "zc_window_start c \<le> start" using "1.prems"(1) by (simp_all add: zc_holds_def zc_core_def)
  have stop: "stop = ?r + length full" using "1.prems"(1,2) by (simp add: zc_holds_def)
  have lits: "\<exists>bw' ts'. put_literals (take (to - literals) (drop (literals - ?r) full)) bw = Some bw' \<and> bw_ok bw' \<and>
      bw_bits bw' = toks_bits 0 ts' \<and> toks_valid ?H ?g ts' \<and> toks_out ?g ts' = take (to - start) (drop (start - ?r) full)"
    if "literals \<le> to" for to
  proof -
    obtain bw' us where us: "put_literals (take (to - literals) (drop (literals - ?r) full)) bw = Some bw'" "bw_ok bw'"
      "bw_bits bw' = bw_bits bw @ toks_bits (length (bw_bits bw)) us"
      "\<And>h g. toks_valid h g us \<and> toks_out g us = take (to - literals) (drop (literals - ?r) full)"
      using put_literals_ok [OF "1.prems"(6)] by blast
    have "take (literals - start) (drop (start - ?r) full) @ take (to - literals) (drop (literals - ?r) full) = take (to - start) (drop (start - ?r) full)"
      using slice_append [of "start - ?r" "literals - ?r" "to - ?r" full] "1.prems"(3) that base(1) by simp
    then show ?thesis
      using us "1.prems"(7-9) by (intro exI [of _ bw'] exI [of _ "ts @ us"]) (simp add: toks_append)
  qed
  show ?case
  proof (cases "pos + min_match \<le> stop")
    case False
    have "window_bytes c literals stop = Some (take (stop - literals) (drop (literals - ?r) full))"
      using window_bytes_ok [OF "1.prems"(1,3,5)] "1.prems"(2) by simp
    then show ?thesis
      using False lits [OF "1.prems"(5)] stop base(1) zc_same_refl [of c]
      by (subst compress_loop.simps) (fastforce simp del: take_all_iff)
  next
    case True
    have pos: "start \<le> pos" "pos \<le> stop" using "1.prems"(3,4) True by auto
    have limit: "min_match \<le> ?limit" "pos + ?limit \<le> window_end c" "?limit \<le> max_match"
      using True "1.prems"(2) by (auto simp: min_match_def max_match_def)
    have "zc_window_start c = ?r \<or> zc_window_start c + ?H \<le> pos" using "1.prems"(1) pos(1) by (auto simp: zc_holds_def)
    with find_match_ok [of c v pos ?limit en] obtain m c1 where m: "find_match en pos ?limit c = Some (m, c1)" "zc_same c c1"
      "match_ok (zc_window c) (pos - zc_window_start c) ?limit (min ?H (pos - ?r)) m"
      using "1.prems"(1) base(2) pos(1) limit(1,2) by (auto simp: zc_holds_def)
    have h1: "zc_holds v full start c1" using "1.prems"(1) m(2) by (rule zc_holds_same)
    note same = zc_sameD [OF m(2)]
    have le: "pos + zm_length m \<le> window_end c1" using m(3) limit(2) same(4) by (auto simp: match_ok_def)
    let ?covered = "take (zm_length m) (drop (pos - ?r) full)"
    have cov: "window_bytes c1 pos (pos + zm_length m) = Some ?covered"
      using window_bytes_ok [OF h1 pos(1) _ le] same(8) by simp
    show ?thesis
    proof (cases "take_match m ?covered")
      case False
      have "\<exists>pos' bw' c' ts'. compress_loop en stop (pos + 1 + (misses + 1) div 2 ^ skip_trigger) literals (misses + 1) bw c1 = Some (pos', bw', c') \<and>
          zc_same c1 c' \<and> bw_ok bw' \<and> bw_bits bw' = toks_bits 0 ts' \<and> toks_valid ?H (take (start - zc_reset_pos c1) full) ts' \<and>
          toks_out (take (start - zc_reset_pos c1) full) ts' = drop (start - zc_reset_pos c1) full"
        using "1.prems" h1 same by (intro "1.IH"(1) [OF True m(1) refl cov False]) auto
      then show ?thesis
        using True m(1,2) cov False unfolding same compress_loop.simps [of en stop pos] by (fastforce intro: zc_same_trans)
    next
      case take: True
      then have len: "zm_length m \<noteq> 0" "min_match \<le> zm_length m" "zm_length m \<le> max_match"
        using m(3) limit(3) by (auto simp: take_match_def match_ok_def min_match_def)
      note tok = loop_match [OF "1.prems"(1) pos(1) m(3) len(1) limit(2,3)]
      have bs: "window_bytes c1 literals pos = Some (take (pos - literals) (drop (literals - ?r) full))"
        using window_bytes_ok [OF h1 "1.prems"(3,4)] pos(2) "1.prems"(2) same by simp
      obtain bw1 ts1 where 1: "put_literals (take (pos - literals) (drop (literals - ?r) full)) bw = Some bw1" "bw_ok bw1"
        "bw_bits bw1 = toks_bits 0 ts1" "toks_valid ?H ?g ts1" "toks_out ?g ts1 = take (pos - start) (drop (start - ?r) full)"
        using lits [OF "1.prems"(4)] by blast
      let ?d = "distance_code (zm_distance m)" and ?t = "ZMatch (unat (zm_distance m)) (zm_length m)"
      let ?bw = "put_code (length_code (zm_length m)) (put_code (snd ?d) (put_code (fst ?d) bw1))"
      have d: "0 < zm_distance m" "unat (zm_distance m) < max_distance"
        using m(3) len(1) history_less [of v] by (auto simp: match_ok_def)
      have bw: "bw_ok ?bw" "bw_bits ?bw = bw_bits bw1 @ tok_bits (length (bw_bits bw1)) ?t"
        by (rule put_match_bits [OF 1(2) d len(2,3)])+
      have g: "?g @ take (pos - start) (drop (start - ?r) full) = take (pos - ?r) full"
        using slice_append [of 0 "start - ?r" "pos - ?r" full] pos(1) base(1) by simp
      let ?first = "if zm_length m \<le> max_insert_length then pos + 1 else max (pos + 1) (pos + zm_length m - tail_insert)"
      have "zc_window_start c1 \<le> ?first" using base(2) pos(1) same(5) by (auto simp: max_def)
      then obtain c2 where c2: "insert_range ?first (pos + zm_length m) c1 = Some c2" "zc_same c1 c2"
        using insert_range_ok [of c1 ?first] h1 by (auto simp: zc_holds_def)
      note same2 = zc_sameD [OF c2(2)]
      have "\<exists>pos' bw' c' ts'. compress_loop en stop (pos + zm_length m) (pos + zm_length m) 0 ?bw c2 = Some (pos', bw', c') \<and>
          zc_same c2 c' \<and> bw_ok bw' \<and> bw_bits bw' = toks_bits 0 ts' \<and> toks_valid ?H (take (start - zc_reset_pos c2) full) ts' \<and>
          toks_out (take (start - zc_reset_pos c2) full) ts' = drop (start - zc_reset_pos c2) full"
      proof (rule "1.IH"(2) [OF True m(1) refl cov _ bs 1(1) refl refl refl refl c2(1), where ts = "ts1 @ [?t]"])
        show "zc_holds v full start c2" using h1 c2(2) by (rule zc_holds_same)
        show "bw_bits ?bw = toks_bits 0 (ts1 @ [?t])" using bw(2) 1(3) by (simp add: toks_append)
        show "toks_valid ?H (take (start - zc_reset_pos c2) full) (ts1 @ [?t])"
          using 1(4,5) tok(1) g same same2 by (simp add: toks_append del: tok_valid.simps)
        show "toks_out (take (start - zc_reset_pos c2) full) (ts1 @ [?t]) =
            take (pos + zm_length m - start) (drop (start - zc_reset_pos c2) full)"
          using 1(5) tok(2) g same same2 slice_append [of "start - ?r" "pos - ?r" "pos + zm_length m - ?r" full] pos(1) base(1)
          by (simp add: toks_append del: tok_out.simps)
      qed (use take bw(1) pos le same same2 "1.prems"(2) in auto)
      then show ?thesis
        using True m(1,2) cov take bs 1(1) c2 unfolding same same2 compress_loop.simps [of en stop pos]
        by (fastforce simp: Let_def intro: zc_same_trans)
    qed
  qed
qed

section \<open>Segments\<close>

definition zc_inv :: "zgfx_variant \<Rightarrow> bytes \<Rightarrow> zgfx_comp \<Rightarrow> bool" where
  "zc_inv v g c \<longleftrightarrow> zc_variant c = v \<and> zc_p c = params v \<and>
     (zc_mode c = Compress \<longrightarrow> zc_core c \<and> zc_window c = drop (zc_window_start c - zc_reset_pos c) g \<and>
       window_end c = zc_reset_pos c + length g \<and> zc_reset_pos c \<le> zc_insert_pos c \<and> zc_insert_pos c \<le> window_end c \<and>
       zc_max_window c = 2 * pm_history (params v) + pm_max_segment (params v) \<and> length (zc_window c) \<le> zc_max_window c \<and>
       length (zc_chain c) \<le> bit_ceil (pm_history (params v)))"

lemma bit_ceil_pos: "0 < bit_ceil n"
  by (simp add: bit_ceil_def)

lemma bit_width_mono: "m \<le> n \<Longrightarrow> bit_width m \<le> bit_width n"
proof (induction m arbitrary: n rule: bit_width.induct)
  case (1 m)
  show ?case
  proof (cases "m = 0")
    case False
    with 1(2) have "bit_width (m div 2) \<le> bit_width (n div 2)" by (intro "1.IH") (simp_all add: div_le_mono)
    with False 1(2) show ?thesis by (subst (1 2) bit_width.simps) simp
  qed (simp add: bit_width.simps [of 0])
qed

lemma bit_ceil_mono: "m \<le> n \<Longrightarrow> bit_ceil m \<le> bit_ceil n"
  using bit_width_mono [of "m - 1" "n - 1"] by (auto simp: bit_ceil_def intro: power_increasing)

lemma zc_invD:
  assumes "zc_inv v g c"
  shows "zc_variant c = v" "zc_p c = params v"
    "zc_mode c = Compress \<Longrightarrow> zc_core c" "zc_mode c = Compress \<Longrightarrow> zc_window c = drop (zc_window_start c - zc_reset_pos c) g"
    "zc_mode c = Compress \<Longrightarrow> window_end c = zc_reset_pos c + length g" "zc_mode c = Compress \<Longrightarrow> zc_reset_pos c \<le> zc_insert_pos c"
    "zc_mode c = Compress \<Longrightarrow> zc_insert_pos c \<le> window_end c"
    "zc_mode c = Compress \<Longrightarrow> zc_max_window c = 2 * pm_history (params v) + pm_max_segment (params v)"
    "zc_mode c = Compress \<Longrightarrow> length (zc_window c) \<le> zc_max_window c"
    "zc_mode c = Compress \<Longrightarrow> length (zc_chain c) \<le> bit_ceil (pm_history (params v))"
  using assms unfolding zc_inv_def by blast+

lemma zc_invI:
  assumes "zc_variant c = v" "zc_p c = params v" "zc_core c" "zc_window c = drop (zc_window_start c - zc_reset_pos c) g"
    "window_end c = zc_reset_pos c + length g" "zc_reset_pos c \<le> zc_insert_pos c" "zc_insert_pos c \<le> window_end c"
    "zc_max_window c = 2 * pm_history (params v) + pm_max_segment (params v)" "length (zc_window c) \<le> zc_max_window c"
    "length (zc_chain c) \<le> bit_ceil (pm_history (params v))"
  shows "zc_inv v g c"
  unfolding zc_inv_def using assms by blast

lemma zc_slide_ok:
  assumes "zc_inv v g c" "zc_mode c = Compress" "n \<le> pm_max_segment (params v)"
  shows "zc_inv v g (zc_slide n c)" "length (zc_window (zc_slide n c)) + n \<le> zc_max_window (zc_slide n c)"
    "zc_mode (zc_slide n c) = Compress" "zc_reset_pos (zc_slide n c) = zc_reset_pos c" "zc_insert_pos (zc_slide n c) = zc_insert_pos c"
proof -
  note c = zc_invD [OF assms(1)]
  show "zc_mode (zc_slide n c) = Compress" "zc_reset_pos (zc_slide n c) = zc_reset_pos c" "zc_insert_pos (zc_slide n c) = zc_insert_pos c"
    using assms(2) by (simp_all add: zc_slide_def Let_def)
  show "length (zc_window (zc_slide n c)) + n \<le> zc_max_window (zc_slide n c)"
    using c(2) c(8) [OF assms(2)] assms(3) by (simp add: zc_slide_def Let_def)
  show "zc_inv v g (zc_slide n c)"
  proof (cases "length (zc_window c) + n > zc_max_window c \<and> length (zc_window c) > pm_history (params v)")
    case True
    let ?shift = "length (zc_window c) - pm_history (params v)"
    have s: "zc_slide n c = c\<lparr>zc_window := drop ?shift (zc_window c), zc_window_start := zc_window_start c + ?shift\<rparr>"
      using True c(2) by (simp add: zc_slide_def Let_def)
    have r: "zc_reset_pos c \<le> zc_window_start c" using c(3) [OF assms(2)] by (simp add: zc_core_def)
    then have w: "drop ?shift (zc_window c) = drop (zc_window_start c + ?shift - zc_reset_pos c) g"
      using c(4) [OF assms(2)] by (simp add: add.commute)
    have "zc_core (zc_slide n c)" using c(2) c(3) [OF assms(2)] True unfolding s by (auto simp: zc_core_def)
    moreover have "window_end (zc_slide n c) = window_end c" using True unfolding s by (simp add: window_end_def)
    moreover have "length (zc_window (zc_slide n c)) \<le> zc_max_window c" using c(9) [OF assms(2)] unfolding s by simp
    moreover have "zc_window (zc_slide n c) = drop (zc_window_start (zc_slide n c) - zc_reset_pos (zc_slide n c)) g" unfolding s using w by simp
    moreover have "zc_variant (zc_slide n c) = v" "zc_p (zc_slide n c) = params v" "zc_insert_pos (zc_slide n c) = zc_insert_pos c"
      "zc_reset_pos (zc_slide n c) = zc_reset_pos c" "zc_max_window (zc_slide n c) = zc_max_window c" "zc_chain (zc_slide n c) = zc_chain c"
      using c(1,2) unfolding s by simp_all
    ultimately show ?thesis using c(5-10) [OF assms(2)] by (intro zc_invI) (simp_all only:)
  next
    case False
    then have "zc_slide n c = c" using c(2) by (auto simp: zc_slide_def Let_def)
    with assms(1) show ?thesis by simp
  qed
qed

lemma zc_append_ok:
  assumes "zc_inv v g c" "zc_mode c = Compress" "length data \<le> pm_max_segment (params v)"
  defines "c' \<equiv> zc_append data c"
  shows "zc_holds v (g @ data) (zc_reset_pos c + length g) c'" "zc_inv v (g @ data) c'" "zc_mode c' = Compress"
    "zc_reset_pos c' = zc_reset_pos c" "zc_insert_pos c' = zc_insert_pos c"
proof -
  let ?H = "pm_history (params v)" and ?s = "zc_slide (length data) c"
  let ?t = "?s\<lparr>zc_window := zc_window ?s @ data\<rparr>"
  note sl = zc_slide_ok [OF assms(1-3)]
  note s = zc_invD [OF sl(1)]
  have m: "zc_mode ?s = Compress" by (rule sl(3))
  have r: "zc_reset_pos ?s \<le> zc_window_start ?s" using s(3) [OF m] by (simp add: zc_core_def)
  have we: "window_end ?s = zc_reset_pos c + length g" using s(5) [OF m] sl(4) by simp
  then have le: "zc_window_start ?s - zc_reset_pos ?s \<le> length g" using r sl(4) by (simp add: window_end_def)
  have w: "zc_window ?t = drop (zc_window_start ?s - zc_reset_pos ?s) (g @ data)" using s(4) [OF m] le by simp
  have we': "window_end ?t = zc_reset_pos c + length (g @ data)" using we by (simp add: window_end_def)
  let ?n = "bit_ceil (min ?H (length (g @ data)))"
  have n: "?n \<le> bit_ceil ?H" "0 < ?n" by (intro bit_ceil_mono) (simp_all add: bit_ceil_pos)
  have c': "c' = (if length (zc_chain ?s) < ?n
      then ?t\<lparr>zc_chain := zc_chain ?s @ replicate (?n - length (zc_chain ?s)) 0, zc_chain_mask := ?n - 1\<rparr> else ?t)"
    unfolding c'_def zc_append_def Let_def zc_grow_chain_def we' using s(2) sl(4) by simp
  show "zc_reset_pos c' = zc_reset_pos c" "zc_insert_pos c' = zc_insert_pos c" "zc_mode c' = Compress"
    using sl m unfolding c' by simp_all
  have f: "zc_window c' = zc_window ?t" "zc_window_start c' = zc_window_start ?s" "zc_p c' = params v" "zc_variant c' = v"
    "zc_max_window c' = zc_max_window ?s" "length (zc_chain c') = max ?n (length (zc_chain ?s))" "window_end c' = window_end ?t"
    using s(1,2) unfolding c' by (simp_all add: window_end_def)
  have core: "zc_core c'" using s(2) s(3) [OF m] unfolding c' by (auto simp: zc_core_def)
  have "zc_chain c' \<noteq> []" using f(6) n(2) by (metis le_zero_eq length_0_conv max.cobounded1 not_less_zero)
  moreover have "zc_window_start ?s = zc_reset_pos c \<or> zc_window_start ?s + ?H \<le> zc_reset_pos c + length g"
    using s(2) s(3) [OF m] we sl(4) by (auto simp: zc_core_def window_end_def)
  moreover have "zc_window_start ?s \<le> zc_reset_pos c + length g" using we by (simp add: window_end_def)
  ultimately show "zc_holds v (g @ data) (zc_reset_pos c + length g) c'"
    using core f w we' sl(4) \<open>zc_reset_pos c' = zc_reset_pos c\<close> unfolding zc_holds_def by simp
  have "zc_insert_pos c \<le> zc_reset_pos c + length g" "zc_reset_pos c \<le> zc_insert_pos c" using s(6,7) [OF m] sl(4,5) we by simp_all
  then have "zc_reset_pos c' \<le> zc_insert_pos c'" "zc_insert_pos c' \<le> window_end c'"
    unfolding f(7) we' \<open>zc_reset_pos c' = zc_reset_pos c\<close> \<open>zc_insert_pos c' = zc_insert_pos c\<close> by simp_all
  moreover have "window_end c' = zc_reset_pos c' + length (g @ data)"
    unfolding f(7) we' \<open>zc_reset_pos c' = zc_reset_pos c\<close> ..
  moreover have "zc_window c' = drop (zc_window_start c' - zc_reset_pos c') (g @ data)"
    unfolding f(1,2) w sl(4) \<open>zc_reset_pos c' = zc_reset_pos c\<close> ..
  moreover have "length (zc_window c') \<le> zc_max_window c'" using f(1,5) sl(2) by simp
  moreover have "length (zc_chain c') \<le> bit_ceil ?H" using f(6) n(1) s(10) [OF m] by simp
  moreover have "zc_max_window c' = 2 * ?H + pm_max_segment (params v)" using f(5) s(8) [OF m] by simp
  ultimately show "zc_inv v (g @ data) c'" using core f(3,4) by (intro zc_invI)
qed

lemma history_min: "min_match \<le> pm_history (params v)"
  by (cases v) (simp_all add: min_match_def history_size_def lite_history_size_def)

lemma zc_insert_pos_simps [simp]:
  "zc_core (c\<lparr>zc_insert_pos := i\<rparr>) = zc_core c" "window_end (c\<lparr>zc_insert_pos := i\<rparr>) = window_end c"
  by (simp_all add: zc_core_def window_end_def)

lemma zc_same_inv:
  assumes "zc_inv v g c" "zc_same (c\<lparr>zc_insert_pos := i\<rparr>) c'" "zc_mode c = Compress"
    "zc_reset_pos c \<le> j" "j \<le> window_end c"
  shows "zc_inv v g (c'\<lparr>zc_insert_pos := j\<rparr>)"
proof -
  let ?c = "c'\<lparr>zc_insert_pos := j\<rparr>"
  note c = zc_invD [OF assms(1)]
  have f: "zc_variant ?c = zc_variant c" "zc_p ?c = zc_p c" "zc_window ?c = zc_window c" "zc_window_start ?c = zc_window_start c"
    "zc_reset_pos ?c = zc_reset_pos c" "zc_max_window ?c = zc_max_window c" "length (zc_chain ?c) = length (zc_chain c)"
    "window_end ?c = window_end c"
    using assms(2) by (simp_all add: zc_same_def window_end_def)
  have core: "zc_core ?c" using zc_sameD(1) [OF assms(2)] c(3) [OF assms(3)] by (simp add: zc_core_def)
  show ?thesis
    using c(4,5,8-10) [OF assms(3)] c(1,2) assms(4,5) f core by (intro zc_invI) (simp_all only:, simp_all)
qed

lemma hashable_end_le: "hashable_end c \<le> window_end c" "zc_window_start c \<le> hashable_end c"
  by (auto simp: hashable_end_def window_end_def)

lemma compress_segment_ok:
  assumes "zc_inv v full c" "zc_mode c = Compress" "zc_holds v full start c" "zc_insert_pos c \<le> start"
  shows "\<exists>bw' c' ts. compress_segment en start (window_end c) bw_new c = Some (bw', c') \<and> zc_inv v full c' \<and> zc_mode c' = Compress \<and>
    bw_ok bw' \<and> bw_bits bw' = toks_bits 0 ts \<and> toks_valid (pm_history (params v)) (take (start - zc_reset_pos c) full) ts \<and>
    toks_out (take (start - zc_reset_pos c) full) ts = drop (start - zc_reset_pos c) full"
proof -
  note c = zc_invD [OF assms(1)]
  let ?first = "if start - zc_insert_pos c < min_match
      then do {
        c \<leftarrow> insert_range (zc_insert_pos c) start c;
        Some (c\<lparr>zc_insert_pos := max (zc_insert_pos c) (min start (hashable_end c))\<rparr>)
      }
      else Some (c\<lparr>zc_insert_pos := start\<rparr>)"
  have h: "zc_core c" "zc_chain c \<noteq> []" "zc_reset_pos c \<le> zc_insert_pos c" "start \<le> window_end c" "zc_window_start c \<le> start"
    "zc_window_start c = zc_reset_pos c \<or> zc_window_start c + pm_history (params v) \<le> start"
    using assms(3) c(6) [OF assms(2)] by (auto simp: zc_holds_def)
  obtain c1 i where 1: "?first = Some c1" "zc_same (c\<lparr>zc_insert_pos := i\<rparr>) c1" "zc_reset_pos c \<le> i" "i \<le> window_end c"
  proof (cases "start - zc_insert_pos c < min_match")
    case True
    then have "zc_window_start c \<le> zc_insert_pos c" using h history_min [of v] assms(4) by linarith
    then obtain c2 where c2: "insert_range (zc_insert_pos c) start c = Some c2" "zc_same c c2" using insert_range_ok h by blast
    let ?i = "max (zc_insert_pos c2) (min start (hashable_end c2))"
    have "zc_same (c\<lparr>zc_insert_pos := ?i\<rparr>) (c2\<lparr>zc_insert_pos := ?i\<rparr>)" using c2(2) by (simp add: zc_same_def)
    moreover have "zc_reset_pos c \<le> ?i" "?i \<le> window_end c"
      using c2(2) h(3) c(7) [OF assms(2)] hashable_end_le(1) [of c2] zc_sameD [OF c2(2)] by (auto simp: zc_same_def)
    ultimately show ?thesis using that True c2(1) by simp
  next
    case False
    then show ?thesis using that [of "c\<lparr>zc_insert_pos := start\<rparr>" start] h assms(4) zc_same_refl by simp
  qed
  have h1: "zc_holds v full start c1"
  proof (rule zc_holds_same [OF _ 1(2)])
    show "zc_holds v full start (c\<lparr>zc_insert_pos := i\<rparr>)" using assms(3) by (simp add: zc_holds_def)
  qed
  have f: "window_end c1 = window_end c" "zc_reset_pos c1 = zc_reset_pos c" "zc_insert_pos c1 = i" "zc_mode c1 = Compress"
    using 1(2) assms(2) by (simp_all add: zc_same_def window_end_def)
  have "\<exists>pos' bw' c' ts'. compress_loop en (window_end c) start start 0 bw_new c1 = Some (pos', bw', c') \<and> zc_same c1 c' \<and> bw_ok bw' \<and>
    bw_bits bw' = toks_bits 0 ts' \<and> toks_valid (pm_history (params v)) (take (start - zc_reset_pos c1) full) ts' \<and>
    toks_out (take (start - zc_reset_pos c1) full) ts' = drop (start - zc_reset_pos c1) full"
    using h1 f h(4) by (intro compress_loop_ok [where ts = "[]"]) simp_all
  then obtain pos' bw' c2 ts where 2: "compress_loop en (window_end c) start start 0 bw_new c1 = Some (pos', bw', c2)" "zc_same c1 c2" "bw_ok bw'"
    "bw_bits bw' = toks_bits 0 ts" "toks_valid (pm_history (params v)) (take (start - zc_reset_pos c) full) ts"
    "toks_out (take (start - zc_reset_pos c) full) ts = drop (start - zc_reset_pos c) full"
    unfolding f by blast
  let ?j = "max (zc_insert_pos c2) (min pos' (hashable_end c2))"
  have f2: "zc_insert_pos c2 = i" "zc_mode c2 = Compress" "hashable_end c2 \<le> window_end c"
    using 2(2) f hashable_end_le(1) [of c2] zc_sameD [OF 2(2)] by (simp_all add: zc_same_def)
  have "zc_inv v full (c2\<lparr>zc_insert_pos := ?j\<rparr>)"
    using zc_same_inv [OF assms(1) zc_same_trans [OF 1(2) 2(2)] assms(2), of ?j] 1(3,4) f2 by (simp add: max_def min_def)
  then show ?thesis
    using 1(1) 2 f2(2) assms(4) unfolding compress_segment_def
    by (intro exI [of _ bw'] exI [of _ "c2\<lparr>zc_insert_pos := ?j\<rparr>"] exI [of _ ts]) (simp add: wassert_def)
qed

text \<open>The bytes of a segment, as the decompressor takes them.\<close>

definition seg_decodes :: "zgfx_variant \<Rightarrow> bytes \<Rightarrow> bytes \<Rightarrow> bytes \<Rightarrow> bool" where
  "seg_decodes v g data seg \<longleftrightarrow> (\<forall>r out limit e d. zd_ok d \<longrightarrow> zd_variant d = v \<longrightarrow> zd_hist d = lastn (pm_history (params v)) g \<longrightarrow>
     rd_wf r \<longrightarrow> rd_rest r = seg \<longrightarrow> length out + length data \<le> limit \<longrightarrow>
     (\<exists>d'. decode_segment r out limit e d = Some (Inr (), out @ data, d') \<and> zd_ok d' \<and> same_dec d d' \<and>
       zd_hist d' = lastn (pm_history (params v)) (g @ data)))"

lemma encode_segment_ok:
  assumes "zc_inv v g c" "length data \<le> pm_max_segment (params v)"
  shows "\<exists>seg c'. encode_segment en data out c = Some (out @ seg, c') \<and> zc_inv v (g @ data) c' \<and> zc_mode c' = zc_mode c \<and>
    seg_decodes v g data seg \<and> seg \<noteq> [] \<and> length seg \<le> length data + 1"
proof -
  note c = zc_invD [OF assms(1)]
  have raw: "seg_decodes v g data (pm_type (params v) # data)"
    unfolding seg_decodes_def using decode_raw_segment [OF _ _ _ assms(2)] by blast
  show ?thesis
  proof (cases "zc_mode c = Store")
    case True
    then show ?thesis
      using assms c raw
      by (intro exI [of _ "pm_type (params v) # data"] exI [of _ c]) (simp add: encode_segment_def wassert_def w_bytes_def w_u8_def zc_inv_def)
  next
    case False
    then have m: "zc_mode c = Compress" by (cases "zc_mode c") simp_all
    let ?c = "zc_append data c" and ?start = "zc_reset_pos c + length g"
    note a = zc_append_ok [OF assms(1) m assms(2)]
    have e: "window_end ?c = ?start + length data" using a(1,4) by (simp add: zc_holds_def)
    have ins: "zc_insert_pos ?c \<le> ?start" using a(5) c(5,7) [OF m] by simp
    obtain bw c' ts where 1: "compress_segment en ?start (window_end ?c) bw_new ?c = Some (bw, c')" "zc_inv v (g @ data) c'" "zc_mode c' = Compress"
      "bw_ok bw" "bw_bits bw = toks_bits 0 ts" "toks_valid (pm_history (params v)) g ts" "toks_out g ts = data"
      using compress_segment_ok [OF a(2,3,1) ins, of en] unfolding a(4) by auto
    obtain bs where bs: "bw_finish bw = bs @ [of_nat ((8 - length (toks_bits 0 ts) mod 8) mod 8)]"
      "stream_bits bs = toks_bits 0 ts @ pad_bits (length (toks_bits 0 ts))"
      using bw_finish_bits [OF 1(4)] unfolding 1(5) by blast
    have comp: "seg_decodes v g data ((pm_type (params v) OR zgfx_packet_compressed) # bw_finish bw)"
      unfolding seg_decodes_def bs(1)
      using decode_compressed_segment [OF _ _ _ 1(6) bs(2)] assms(2) unfolding 1(7) by blast
    let ?seg = "if length (bw_finish bw) < length data then (pm_type (params v) OR zgfx_packet_compressed) # bw_finish bw else pm_type (params v) # data"
    have "encode_segment en data out c = Some (out @ ?seg, c')"
      using c(2) zc_invD(2) [OF 1(2)] assms(2) m 1(1) e by (simp add: encode_segment_def wassert_def Let_def w_bytes_def w_u8_def)
    moreover have "seg_decodes v g data ?seg" using comp raw by simp
    moreover have "length ?seg \<le> length data + 1" by simp
    ultimately show ?thesis using 1(2,3) m by (intro exI [of _ ?seg] exI [of _ c']) simp
  qed
qed

section \<open>Messages\<close>

definition seg_frame :: "bytes \<Rightarrow> bytes" where
  "seg_frame seg = le_bytes 4 (of_nat (length seg) :: u32) @ seg"

definition segs_decode :: "zgfx_variant \<Rightarrow> bytes \<Rightarrow> bytes \<Rightarrow> bytes list \<Rightarrow> bool" where
  "segs_decode v g data segs \<longleftrightarrow> (\<forall>r rest out limit d. zd_ok d \<longrightarrow> zd_variant d = v \<longrightarrow> zd_hist d = lastn (pm_history (params v)) g \<longrightarrow>
     rd_wf r \<longrightarrow> rd_rest r = concat (map seg_frame segs) @ rest \<longrightarrow> length out + length data \<le> limit \<longrightarrow>
     (\<exists>r' d'. decode_segments (length segs) limit r out d = Some (Inr (out @ data), r', d') \<and> rd_wf r' \<and> rd_rest r' = rest \<and>
       zd_ok d' \<and> same_dec d d' \<and> zd_hist d' = lastn (pm_history (params v)) (g @ data)))"

lemma segs_decode_Cons:
  assumes "seg_decodes v g data seg" "segs_decode v (g @ data) data' segs" "length seg < 2 ^ 32"
  shows "segs_decode v g (data @ data') (seg # segs)"
  unfolding segs_decode_def
proof (intro allI impI)
  fix r rest limit d and out :: bytes
  assume d: "zd_ok d" "zd_variant d = v" "zd_hist d = lastn (pm_history (params v)) g" and r: "rd_wf r"
    "rd_rest r = concat (map seg_frame (seg # segs)) @ rest" and le: "length out + length (data @ data') \<le> limit"
  let ?r = "rd_advance (4 + length seg) r" and ?seg = "mk_reader seg (rd_offset r + 4)"
  have "unat (of_nat (length seg) :: u32) = length seg" using assms(3) by (simp add: unsigned_of_nat take_bit_nat_eq_self)
  then have sub: "ptry rd_u32le (\<lambda>segment_size. rd_sub (unat segment_size)) r = (Inr ?seg, ?r)"
    using r(2) by (simp add: ptry_def seg_frame_def rd_u32le_app rd_sub_ok)
  have wf: "rd_wf ?r" "rd_rest ?r = concat (map seg_frame segs) @ rest" using r by (simp_all add: seg_frame_def)
  have "\<exists>d'. decode_segment ?seg out limit InvalidLength d = Some (Inr (), out @ data, d') \<and> zd_ok d' \<and> same_dec d d' \<and>
      zd_hist d' = lastn (pm_history (params v)) (g @ data)"
    using assms(1) d le unfolding seg_decodes_def by simp
  then obtain d1 where 1: "decode_segment ?seg out limit InvalidLength d = Some (Inr (), out @ data, d1)" "zd_ok d1" "same_dec d d1"
    "zd_hist d1 = lastn (pm_history (params v)) (g @ data)" by blast
  have "zd_variant d1 = v" "length (out @ data) + length data' \<le> limit" using 1(3) d(2) le by (simp_all add: same_dec_def)
  then have "\<exists>r' d'. decode_segments (length segs) limit ?r (out @ data) d1 = Some (Inr ((out @ data) @ data'), r', d') \<and> rd_wf r' \<and>
      rd_rest r' = rest \<and> zd_ok d' \<and> same_dec d1 d' \<and> zd_hist d' = lastn (pm_history (params v)) ((g @ data) @ data')"
    using assms(2) 1 wf unfolding segs_decode_def by blast
  then show "\<exists>r' d'. decode_segments (length (seg # segs)) limit r out d = Some (Inr (out @ data @ data'), r', d') \<and> rd_wf r' \<and>
      rd_rest r' = rest \<and> zd_ok d' \<and> same_dec d d' \<and> zd_hist d' = lastn (pm_history (params v)) (g @ data @ data')"
    using sub 1 by (auto simp: same_dec_def)
qed

lemma segs_decode_Nil: "segs_decode v g [] []"
proof -
  have "zd_hist d = lastn (pm_history (params v)) g \<Longrightarrow> same_dec d d" for d by (simp add: same_dec_def)
  then show ?thesis by (auto simp: segs_decode_def)
qed

lemma max_segment_bounds: "0 < pm_max_segment (params v)" "pm_max_segment (params v) \<le> 65535"
  by (cases v; simp add: max_segment_size_def lite_max_segment_size_def)+

lemma encode_segments_ok:
  assumes "zc_inv v g c"
  shows "\<exists>segs c'. encode_segments en data out c = Some (out @ concat (map seg_frame segs), c') \<and> zc_inv v (g @ data) c' \<and>
    zc_mode c' = zc_mode c \<and> segs_decode v g data segs \<and>
    length segs = (length data + pm_max_segment (params v) - 1) div pm_max_segment (params v) \<and>
    length (concat (map seg_frame segs)) \<le> length data + 5 * length segs \<and> 5 * length segs \<le> length (concat (map seg_frame segs))"
  using assms
proof (induction en data out c arbitrary: g rule: encode_segments.induct)
  case (1 en data out c)
  let ?S = "pm_max_segment (params v)"
  have p: "zc_p c = params v" using zc_invD(2) [OF "1.prems"] .
  show ?case
  proof (cases "data = []")
    case True
    then show ?thesis using "1.prems" segs_decode_Nil max_segment_bounds(1) [of v]
      by (intro exI [of _ "[]"] exI [of _ c]) (simp add: encode_segments.simps [of en "[]"])
  next
    case False
    let ?a = "take ?S data" and ?b = "drop ?S data"
    obtain seg c1 where 1: "encode_segment en ?a (w_u32le 0 out) c = Some (w_u32le 0 out @ seg, c1)" "zc_inv v (g @ ?a) c1"
      "zc_mode c1 = zc_mode c" "seg_decodes v g ?a seg" "seg \<noteq> []" "length seg \<le> length ?a + 1"
      using encode_segment_ok [OF "1.prems", of ?a en "w_u32le 0 out"] by auto
    have n: "length (w_u32le 0 out @ seg) - length out - 4 = length seg" by (simp add: w_simps)
    have patch: "w_patch_u32le (length out) (of_nat (length seg)) (w_u32le 0 out @ seg) = Some (out @ seg_frame seg)"
      by (simp add: w_patch_u32le_def w_patch_le_eq w_simps seg_frame_def)
    obtain segs c2 where 2: "encode_segments en ?b (out @ seg_frame seg) c1 = Some ((out @ seg_frame seg) @ concat (map seg_frame segs), c2)"
      "zc_inv v ((g @ ?a) @ ?b) c2" "zc_mode c2 = zc_mode c1" "segs_decode v (g @ ?a) ?b segs"
      "length segs = (length ?b + ?S - 1) div ?S" "length (concat (map seg_frame segs)) \<le> length ?b + 5 * length segs"
      "5 * length segs \<le> length (concat (map seg_frame segs))"
    proof -
      have "wassert (0 < pm_max_segment (zc_p c)) = Some ()" using p max_segment_bounds(1) [of v] by (simp add: wassert_def)
      note IH = "1.IH" [OF False this refl refl _ refl _ 1(2), unfolded p, OF 1(1)]
      show ?thesis using that IH [of "out @ seg_frame seg"] patch n by auto
    qed
    have "length seg < 2 ^ 32" using 1(6) max_segment_bounds(2) [of v] by simp
    with 1(4) 2(4) have "segs_decode v g (?a @ ?b) (seg # segs)" by (rule segs_decode_Cons)
    moreover have "length (seg # segs) = (length data + ?S - 1) div ?S"
    proof (cases "length data \<le> ?S")
      case True
      then have "(length data + ?S - 1) div ?S = 1"
        using False max_segment_bounds(1) [of v] by (intro div_nat_eqI) (cases data; simp)+
      with True 2(5) max_segment_bounds(1) [of v] show ?thesis by simp
    next
      case gt: False
      then have "length data + ?S - 1 = (length ?b + ?S - 1) + ?S" using max_segment_bounds(1) [of v] by simp
      moreover have "((length ?b + ?S - 1) + ?S) div ?S = (length ?b + ?S - 1) div ?S + 1"
        using max_segment_bounds(1) [of v] by (intro div_add_self2) simp
      ultimately show ?thesis using 2(5) by (simp only: list.size)
    qed
    moreover have "encode_segments en data out c = Some (out @ concat (map seg_frame (seg # segs)), c2)"
      using False p max_segment_bounds(1) [of v] 1(1) n patch 2(1)
      by (simp add: encode_segments.simps [of en data] wassert_def Let_def)
    moreover have "length (concat (map seg_frame (seg # segs))) \<le> length data + 5 * length (seg # segs)"
      "5 * length (seg # segs) \<le> length (concat (map seg_frame (seg # segs)))"
    proof -
      have "length (concat (map seg_frame (seg # segs))) = 4 + length seg + length (concat (map seg_frame segs))"
        "length (seg # segs) = Suc (length segs)" "length ?a + length ?b = length data"
        by (simp_all add: seg_frame_def)
      moreover have "1 \<le> length seg" using 1(5) by (cases seg) simp_all
      ultimately show "length (concat (map seg_frame (seg # segs))) \<le> length data + 5 * length (seg # segs)"
        "5 * length (seg # segs) \<le> length (concat (map seg_frame (seg # segs)))"
        using 1(6) 2(6,7) by linarith+
    qed
    moreover have "zc_inv v (g @ data) c2" "zc_mode c2 = zc_mode c" using 1(3) 2(2,3) by simp_all
    ultimately show ?thesis unfolding append_take_drop_id by blast
  qed
qed

definition msg_decodes :: "zgfx_variant \<Rightarrow> bytes \<Rightarrow> bytes \<Rightarrow> bytes \<Rightarrow> bool" where
  "msg_decodes v g data msg \<longleftrightarrow> (\<forall>d. zd_ok d \<longrightarrow> zd_variant d = v \<longrightarrow> zd_hist d = lastn (pm_history (params v)) g \<longrightarrow>
     length data \<le> zd_max_output d \<longrightarrow>
     (\<exists>d'. zd_decompress msg d = Some (Inr data, d') \<and> zd_ok d' \<and> same_dec d d' \<and> zd_hist d' = lastn (pm_history (params v)) (g @ data)))"

lemma seg_decodesD:
  assumes "seg_decodes v g data seg" "zd_ok d" "zd_variant d = v" "zd_hist d = lastn (pm_history (params v)) g"
    "rd_wf r" "rd_rest r = seg" "length out + length data \<le> limit"
  shows "\<exists>d'. decode_segment r out limit e d = Some (Inr (), out @ data, d') \<and> zd_ok d' \<and> same_dec d d' \<and>
    zd_hist d' = lastn (pm_history (params v)) (g @ data)"
  using assms unfolding seg_decodes_def by blast

lemma segs_decodeD:
  assumes "segs_decode v g data segs" "zd_ok d" "zd_variant d = v" "zd_hist d = lastn (pm_history (params v)) g"
    "rd_wf r" "rd_rest r = concat (map seg_frame segs) @ rest" "length out + length data \<le> limit"
  shows "\<exists>r' d'. decode_segments (length segs) limit r out d = Some (Inr (out @ data), r', d') \<and> rd_wf r' \<and> rd_rest r' = rest \<and>
    zd_ok d' \<and> same_dec d d' \<and> zd_hist d' = lastn (pm_history (params v)) (g @ data)"
  using assms unfolding segs_decode_def by blast

lemma single_decodes:
  assumes "seg_decodes v g data seg"
  shows "msg_decodes v g data (descriptor_single # seg)"
  unfolding msg_decodes_def
proof (intro allI impI)
  fix d assume d: "zd_ok d" "zd_variant d = v" "zd_hist d = lastn (pm_history (params v)) g" "length data \<le> zd_max_output d"
  let ?r = "rd_advance 1 (mk_reader (descriptor_single # seg) 0)"
  have u8: "rd_u8 (mk_reader (descriptor_single # seg) 0) = (Inr descriptor_single, ?r)" by (rule rd_u8_Cons) simp
  have sub: "rd_sub (rd_remaining ?r) ?r = (Inr (mk_reader seg 1), rd_advance (length seg) ?r)"
    by (simp add: rd_sub_ok rd_remaining_rest)
  have "\<exists>d'. decode_segment (mk_reader seg 1) [] (zd_max_output d) LimitExceeded d = Some (Inr (), [] @ data, d') \<and> zd_ok d' \<and> same_dec d d' \<and>
      zd_hist d' = lastn (pm_history (params v)) (g @ data)"
    by (rule seg_decodesD [OF assms d(1-3)]) (use d(4) in simp_all)
  then show "\<exists>d'. zd_decompress (descriptor_single # seg) d = Some (Inr data, d') \<and> zd_ok d' \<and> same_dec d d' \<and>
      zd_hist d' = lastn (pm_history (params v)) (g @ data)"
    using u8 sub by (auto simp: zd_decompress_def)
qed

lemma multi_decodes:
  assumes "segs_decode v g data segs" "segs \<noteq> []" "length segs < 2 ^ 16" "length data < 2 ^ 32"
    "length data \<le> length segs * pm_max_segment (params v)" "5 * length segs \<le> length (concat (map seg_frame segs))"
  shows "msg_decodes v g data (descriptor_multipart # le_bytes 2 (of_nat (length segs) :: u16) @ le_bytes 4 (of_nat (length data) :: u32) @
    concat (map seg_frame segs))"
  unfolding msg_decodes_def
proof (intro allI impI)
  fix d assume d: "zd_ok d" "zd_variant d = v" "zd_hist d = lastn (pm_history (params v)) g" "length data \<le> zd_max_output d"
  let ?segs = "concat (map seg_frame segs)"
  let ?msg = "descriptor_multipart # le_bytes 2 (of_nat (length segs) :: u16) @ le_bytes 4 (of_nat (length data) :: u32) @ ?segs"
  let ?r1 = "rd_advance 1 (mk_reader ?msg 0)" and ?r2 = "rd_advance 7 (mk_reader ?msg 0)"
  have u8: "rd_u8 (mk_reader ?msg 0) = (Inr descriptor_multipart, ?r1)" by (rule rd_u8_Cons) simp
  have n: "unat (of_nat (length segs) :: u16) = length segs" "unat (of_nat (length data) :: u32) = length data"
    using assms(3,4) by (simp_all add: unsigned_of_nat take_bit_nat_eq_self)
  have hdr: "ptry rd_u16le (\<lambda>count. ptry rd_u32le (\<lambda>size. pret (unat count, unat size))) ?r1 = (Inr (length segs, length data), ?r2)"
    using n by (simp add: ptry_def rd_simps pret_def)
  have r2: "rd_rest ?r2 = ?segs @ []" "rd_wf ?r2" by (simp_all add: rd_wf_advance)
  obtain r' d' where s: "decode_segments (length segs) (length data) ?r2 [] d = Some (Inr ([] @ data), r', d')" "rd_wf r'" "rd_rest r' = []"
    "zd_ok d'" "same_dec d d'" "zd_hist d' = lastn (pm_history (params v)) (g @ data)"
    using segs_decodeD [OF assms(1) d(1-3) r2(2,1), of "[]" "length data"] by auto
  have "\<not> rd_remaining ?r2 div 5 < length segs" using assms(6) r2(1) by (simp add: rd_remaining_rest less_eq_div_iff_mult_less_eq not_less)
  moreover have "zd_p d = params v" using d(1,2) by (simp add: zd_ok_def)
  moreover have "descriptor_multipart \<noteq> descriptor_single" by (simp add: descriptor_multipart_def descriptor_single_def)
  ultimately show "\<exists>d'. zd_decompress ?msg d = Some (Inr data, d') \<and> zd_ok d' \<and> same_dec d d' \<and> zd_hist d' = lastn (pm_history (params v)) (g @ data)"
    using u8 hdr s rd_expect_end_ok [OF s(2,3)] assms(2,5) d(4) by (simp add: zd_decompress_def Let_def)
qed

lemma max_input: "zgfx_max_input_size v \<le> pm_max_segment (params v) * 65535" "zgfx_max_input_size v < 2 ^ 32"
  "v = Rdp8_Lite \<Longrightarrow> zgfx_max_input_size v = pm_max_segment (params v)"
  by (cases v; simp add: max_segment_size_def max_segment_count_def lite_max_segment_size_def)+

lemma ceil_div_bounds:
  assumes "0 < s"
  shows "n \<le> (n + s - 1) div s * s" "n \<le> s * k \<Longrightarrow> (n + s - 1) div s \<le> (k :: nat)" "0 < n \<Longrightarrow> 0 < (n + s - 1) div s"
proof -
  let ?q = "(n + s - 1) div s"
  have "?q * s + (n + s - 1) mod s = n + s - 1" "(n + s - 1) mod s < s" using assms by (simp_all add: div_mult_mod_eq)
  then show "n \<le> ?q * s" by linarith
  show "?q \<le> k" if "n \<le> s * k"
  proof -
    have "n + s - 1 < (k + 1) * s" using that assms by (simp add: algebra_simps)
    then have "?q < k + 1" by (rule less_mult_imp_div_less)
    then show ?thesis by simp
  qed
  show "0 < ?q" if "0 < n" using that assms by (simp add: div_greater_zero_iff)
qed

text \<open>The largest a message may get.\<close>

definition zgfx_overhead :: "zgfx_variant \<Rightarrow> nat \<Rightarrow> nat" where
  "zgfx_overhead v n =
     (if n = 0 then 3 else if n \<le> pm_max_segment (params v) then 2
      else 7 + 5 * ((n + pm_max_segment (params v) - 1) div pm_max_segment (params v)))"

lemma zc_compress_ok:
  assumes "zc_inv v g c" "length data \<le> zgfx_max_input_size v"
  shows "\<exists>msg c'. zc_compress en data out c = Some (out @ msg, c') \<and> zc_inv v (g @ data) c' \<and> zc_mode c' = zc_mode c \<and>
    msg_decodes v g data msg \<and> length msg \<le> length data + zgfx_overhead v (length data)"
proof -
  note c = zc_invD(1,2) [OF assms(1)]
  let ?S = "pm_max_segment (params v)"
  consider "data = []" | "data \<noteq> []" "length data \<le> ?S" | "\<not> length data \<le> ?S" by blast
  then show ?thesis
  proof cases
    case 1
    let ?seg = "[pm_type (params v) OR zgfx_packet_compressed, 0]"
    have "seg_decodes v g [] ?seg"
      unfolding seg_decodes_def using decode_compressed_segment [where ts = "[]" and bs = "[]"] by (simp add: pad_bits_def)
    from single_decodes [OF this] show ?thesis
      using 1 c assms by (intro exI [of _ "descriptor_single # ?seg"] exI [of _ c])
        (simp add: zc_compress_def wassert_def Let_def w_simps zgfx_overhead_def)
  next
    case 2
    obtain seg c' where s: "encode_segment en data (w_u8 descriptor_single out) c = Some (w_u8 descriptor_single out @ seg, c')" "zc_inv v (g @ data) c'"
      "zc_mode c' = zc_mode c" "seg_decodes v g data seg" "length seg \<le> length data + 1"
      using encode_segment_ok [OF assms(1) 2(2)] by blast
    then show ?thesis
      using 2 c assms single_decodes [OF s(4)] by (intro exI [of _ "descriptor_single # seg"] exI [of _ c'])
        (simp add: zc_compress_def wassert_def Let_def w_simps zgfx_overhead_def)
  next
    case 3
    let ?n = "(length data + ?S - 1) div ?S"
    let ?hdr = "descriptor_multipart # le_bytes 2 (of_nat ?n :: u16) @ le_bytes 4 (of_nat (length data) :: u32)"
    obtain segs c' where s: "encode_segments en data (out @ ?hdr) c = Some ((out @ ?hdr) @ concat (map seg_frame segs), c')" "zc_inv v (g @ data) c'"
      "zc_mode c' = zc_mode c" "segs_decode v g data segs" "length segs = ?n" "length (concat (map seg_frame segs)) \<le> length data + 5 * length segs"
      "5 * length segs \<le> length (concat (map seg_frame segs))"
      using encode_segments_ok [OF assms(1)] by blast
    have "0 < length data" using 3 by linarith
    then have n: "length data \<le> ?n * ?S" "?n \<le> 65535" "0 < ?n"
      using ceil_div_bounds [OF max_segment_bounds(1) [of v], of "length data"] assms(2) max_input(1) [of v] by auto
    have "segs \<noteq> []" "length segs < 2 ^ 16" "length data < 2 ^ 32" using n s(5) assms(2) max_input(2) [of v] by auto
    with multi_decodes [OF s(4) _ _ _ _ s(7)] n(1) s(5)
    have "msg_decodes v g data (?hdr @ concat (map seg_frame segs))" by simp
    moreover have "data \<noteq> []" using 3 by auto
    ultimately show ?thesis
      using 3 c assms(2) s by (intro exI [of _ "?hdr @ concat (map seg_frame segs)"] exI [of _ c'])
        (simp add: zc_compress_def wassert_def Let_def w_simps zgfx_overhead_def)
  qed
qed

section \<open>Sessions\<close>

lemma hash_bits_le: "hash_bits v \<le> 32"
  by (simp add: hash_bits_def hash_bits_rdp8_def hash_bits_lite_def)

lemma zc_new_inv: "zc_inv v [] (zc_new v m)" "zc_mode (zc_new v m) = m"
  by (cases m; simp add: zc_inv_def zc_new_def Let_def zc_core_def hash_bits_def window_end_def)+

lemma zc_reset_inv:
  assumes "zc_inv v g c"
  shows "zc_inv v [] (zc_reset c)" "zc_mode (zc_reset c) = zc_mode c"
proof -
  note c = zc_invD [OF assms]
  show "zc_mode (zc_reset c) = zc_mode c" by (simp add: zc_reset_def Let_def)
  show "zc_inv v [] (zc_reset c)"
  proof (cases "zc_mode c")
    case Compress
    then show ?thesis
      using c(1,2) c(3,8,10) [OF Compress]
      by (intro zc_invI) (auto simp: zc_reset_def Let_def zc_core_def window_end_def)
  next
    case Store
    then show ?thesis using c(1,2) by (simp add: zc_inv_def zc_reset_def Let_def)
  qed
qed

lemma zd_new_ok: "zd_ok (zd_new v limit)" "zd_hist (zd_new v limit) = []" "zd_variant (zd_new v limit) = v" "zd_max_output (zd_new v limit) = limit"
  using history_pos [of v] by (simp_all add: zd_new_def zd_ok_def zd_hist_def)

lemma zd_reset_ok:
  assumes "zd_ok d"
  shows "zd_ok (zd_reset d)" "zd_hist (zd_reset d) = []" "same_dec d (zd_reset d)"
  using assms history_pos [of "zd_variant d"] by (simp_all add: zd_reset_def zd_ok_def zd_hist_def same_dec_def)

text \<open>The two ends agree on the bytes since the last reset.\<close>

definition zgfx_paired :: "zgfx_variant \<Rightarrow> nat \<Rightarrow> zgfx_comp \<Rightarrow> zgfx_dec \<Rightarrow> bool" where
  "zgfx_paired v limit c d \<longleftrightarrow> (\<exists>g. zc_inv v g c \<and> zd_ok d \<and> zd_variant d = v \<and> zd_max_output d = limit \<and>
     zd_hist d = lastn (pm_history (params v)) g)"

interpretation zgfx: stateful_codec "\<lambda>c data. zc_compress en data [] c" "\<lambda>d msg. zd_decompress msg d" zc_reset zd_reset
  "zgfx_paired v limit" "\<lambda>data. length data \<le> zgfx_max_input_size v \<and> length data \<le> limit" for en v limit
proof
  fix c d and data :: bytes
  assume "zgfx_paired v limit c d" and fits: "length data \<le> zgfx_max_input_size v \<and> length data \<le> limit"
  then obtain g where g: "zc_inv v g c" "zd_ok d" "zd_variant d = v" "zd_max_output d = limit" "zd_hist d = lastn (pm_history (params v)) g"
    by (auto simp: zgfx_paired_def)
  obtain msg c' where c': "zc_compress en data [] c = Some (msg, c')" "zc_inv v (g @ data) c'" "msg_decodes v g data msg"
    using zc_compress_ok [OF g(1), of data en "[]"] fits by auto
  obtain d' where "zd_decompress msg d = Some (Inr data, d')" "zd_ok d'" "same_dec d d'" "zd_hist d' = lastn (pm_history (params v)) (g @ data)"
    using c'(3) g fits by (auto simp: msg_decodes_def)
  with c' g show "\<exists>w c' d'. zc_compress en data [] c = Some (w, c') \<and> zd_decompress w d = Some (Inr data, d') \<and> zgfx_paired v limit c' d'"
    by (auto simp: zgfx_paired_def same_dec_def)
next
  fix c d assume "zgfx_paired v limit c d"
  then obtain g where g: "zc_inv v g c" "zd_ok d" "zd_variant d = v" "zd_max_output d = limit" by (auto simp: zgfx_paired_def)
  then show "zgfx_paired v limit (zc_reset c) (zd_reset d)"
    unfolding zgfx_paired_def
    using zd_reset_ok [OF g(2)] zc_reset_inv(1) [OF g(1)] by (intro exI [of _ "[]"]) (simp add: same_dec_def)
qed

text \<open>A channel with its compressor at one end and its decompressor at the other.\<close>

definition zgfx_session :: "endian \<Rightarrow> zgfx_variant \<Rightarrow> zgfx_mode \<Rightarrow> nat \<Rightarrow> bytes codec_op list \<Rightarrow> bytes result list option" where
  "zgfx_session en v m limit ops =
     codec_session (\<lambda>c data. zc_compress en data [] c) (\<lambda>d msg. zd_decompress msg d) zc_reset zd_reset ops (zc_new v m) (zd_new v limit)"

lemma zgfx_paired_new: "zgfx_paired v limit (zc_new v m) (zd_new v limit)"
  using zc_new_inv [of v m] zd_new_ok [of v limit] by (auto simp: zgfx_paired_def lastn_def intro!: exI [of _ "[]"])

text \<open>
  C9: What the ZGFX compressor sends, the decompressor gives back, message after message over one history and
  across resets of both ends: for either variant, with compression or without, on a machine of either byte
  order, every message the variant accepts and the receiver's limit admits comes out as it went in.
\<close>

theorem zgfx_roundtrip:
  assumes "list_all (\<lambda>data. length data \<le> zgfx_max_input_size v \<and> length data \<le> limit) (sent ops)"
  shows "zgfx_session en v m limit ops = Some (map Inr (sent ops))"
  unfolding zgfx_session_def using zgfx_paired_new assms by (rule zgfx.session)

theorem zgfx_roundtrip_witness:
  "zgfx_session Little Rdp8_Lite Compress 8192 [Send [7, 7, 7, 7, 7], Send [], Reset_Both, Send (replicate 100 9)] =
     Some [Inr [7, 7, 7, 7, 7], Inr [], Inr (replicate 100 9)]"
  using zgfx_roundtrip [of Rdp8_Lite 8192 "[Send [7, 7, 7, 7, 7], Send [], Reset_Both, Send (replicate 100 9)]" Little Compress]
  by (simp add: lite_max_segment_size_def)

fun zc_op :: "endian \<Rightarrow> bytes codec_op \<Rightarrow> zgfx_comp \<Rightarrow> zgfx_comp option" where
  "zc_op en (Send data) c = map_option snd (zc_compress en data [] c)"
| "zc_op en Reset_Both c = Some (zc_reset c)"

fun zc_ops :: "endian \<Rightarrow> bytes codec_op list \<Rightarrow> zgfx_comp \<Rightarrow> zgfx_comp option" where
  "zc_ops en [] c = Some c"
| "zc_ops en (a # ops) c = zc_op en a c \<bind> zc_ops en ops"

lemma zc_ops_inv:
  assumes "zc_inv v g c" "list_all (\<lambda>data. length data \<le> zgfx_max_input_size v) (sent ops)"
  shows "\<exists>g' c'. zc_ops en ops c = Some c' \<and> zc_inv v g' c' \<and> zc_mode c' = zc_mode c"
  using assms
proof (induction ops arbitrary: g c rule: sent.induct)
  case (2 data ops)
  obtain msg c' where "zc_compress en data [] c = Some (msg, c')" "zc_inv v (g @ data) c'" "zc_mode c' = zc_mode c"
    using zc_compress_ok [OF "2.prems"(1), of data en "[]"] "2.prems"(2) by auto
  with "2.IH" [of "g @ data" c'] "2.prems"(2) show ?case by simp
next
  case (3 ops)
  then show ?case using zc_reset_inv [OF "3.prems"(1)] "3.IH" [of "[]" "zc_reset c"] by simp
qed auto

text \<open>
  C28: Compressing always succeeds and never grows a message beyond its framing: after any earlier messages and
  resets, a message becomes at most two bytes longer as one segment, seven bytes and five per segment longer as
  several, and three bytes when empty, appended to what the writer holds.
\<close>

theorem zgfx_compress_bounds:
  assumes "list_all (\<lambda>data. length data \<le> zgfx_max_input_size v) (sent ops)" "length data \<le> zgfx_max_input_size v"
  shows "\<exists>c msg c'. zc_ops en ops (zc_new v m) = Some c \<and> zc_compress en data out c = Some (out @ msg, c') \<and>
    length msg \<le> length data + zgfx_overhead v (length data)"
proof -
  obtain g c where "zc_ops en ops (zc_new v m) = Some c" "zc_inv v g c" using zc_ops_inv [OF zc_new_inv(1) assms(1)] by blast
  with zc_compress_ok [OF _ assms(2), of g c en out] show ?thesis by blast
qed

theorem zgfx_compress_bounds_witness:
  "\<exists>c msg c'. zc_ops Big [Send [1, 2, 3], Reset_Both] (zc_new Rdp8 Compress) = Some c \<and>
    zc_compress Big (replicate 65536 5) [9] c = Some ([9] @ msg, c') \<and> length msg \<le> 65536 + 17"
proof -
  have "zgfx_overhead Rdp8 65536 = 17" by (simp add: zgfx_overhead_def max_segment_size_def)
  with zgfx_compress_bounds [of Rdp8 "[Send [1, 2, 3], Reset_Both]" "replicate 65536 5" Big Compress "[9]"] show ?thesis
    by (simp add: max_segment_size_def max_segment_count_def)
qed

text \<open>
  The memory of the compressor is bounded: whatever was compressed, its window holds at most two
  histories and a segment, and its chains one slot per byte of the history, rounded up to a power of two.
\<close>

theorem zgfx_compress_memory:
  assumes "list_all (\<lambda>data. length data \<le> zgfx_max_input_size v) (sent ops)"
  shows "\<exists>c. zc_ops en ops (zc_new v Compress) = Some c \<and>
    length (zc_window c) \<le> 2 * pm_history (params v) + pm_max_segment (params v) \<and>
    length (zc_chain c) \<le> bit_ceil (pm_history (params v))"
proof -
  obtain g c where c: "zc_ops en ops (zc_new v Compress) = Some c" "zc_inv v g c" "zc_mode c = Compress"
    using zc_ops_inv [OF zc_new_inv(1) assms] zc_new_inv(2) by metis
  with zc_invD(8-10) [OF c(2,3)] show ?thesis by simp
qed

theorem zgfx_compress_memory_witness:
  "\<exists>c. zc_ops Little [Send [1, 2, 3], Reset_Both, Send [4]] (zc_new Rdp8_Lite Compress) = Some c \<and>
    length (zc_window c) \<le> 24576 \<and> length (zc_chain c) \<le> 8192"
proof -
  have "bit_width 8191 = 13" by (simp add: bit_width.simps)
  then have "bit_ceil 8192 = 8192" by (simp add: bit_ceil_def)
  with zgfx_compress_memory [of Rdp8_Lite "[Send [1, 2, 3], Reset_Both, Send [4]]" Little] show ?thesis
    by (simp add: lite_max_segment_size_def lite_history_size_def)
qed

text \<open>The calls a receiver makes, and what it gets.\<close>

datatype zd_op = Zd_Decompress bytes | Zd_Reset

fun zd_step :: "zgfx_dec \<Rightarrow> zd_op \<Rightarrow> bytes result option \<times> zgfx_dec" where
  "zd_step d (Zd_Decompress data) = (case zd_decompress data d of None \<Rightarrow> (None, d) | Some (x, d') \<Rightarrow> (Some x, d'))"
| "zd_step d Zd_Reset = (Some (Inr []), zd_reset d)"

definition zd_inv :: "zgfx_variant \<Rightarrow> nat \<Rightarrow> zgfx_dec \<Rightarrow> bool" where
  "zd_inv v limit d \<longleftrightarrow> zd_ok d \<and> zd_variant d = v \<and> zd_max_output d = limit"

lemma zd_step_safe:
  assumes "zd_inv v limit d"
  shows "zd_inv v limit (snd (zd_step d i)) \<and> (\<exists>x. fst (zd_step d i) = Some x \<and> (\<forall>out. x = Inr out \<longrightarrow> length out \<le> limit))"
proof (cases i)
  case (Zd_Decompress data)
  obtain x d' where "zd_decompress data d = Some (x, d')" "zd_ok d'" "same_dec d d'" "\<forall>out. x = Inr out \<longrightarrow> length out \<le> zd_max_output d"
    using zd_decompress_safe [of d data] assms by (auto simp: zd_inv_def)
  then show ?thesis using Zd_Decompress assms by (simp add: zd_inv_def same_dec_def)
next
  case Zd_Reset
  then show ?thesis using zd_reset_ok [of d] assms by (simp add: zd_inv_def same_dec_def)
qed

interpretation zd_machine: machine zd_step "zd_inv v limit" "zd_new v limit" for v limit
  using zd_new_ok zd_step_safe by unfold_locales (simp_all add: zd_inv_def)

text \<open>
  C10: No input breaks the decompressor: over any sequence of messages, well formed or not, and resets, every call
  returns bytes within the receiver's limit or an error, no assertion fails and no index leaves the ring, and
  the ring never holds more than the history.
\<close>

theorem zgfx_decompress_robust:
  "list_all (\<lambda>r. case r of Some (Inr out) \<Rightarrow> length out \<le> limit | Some (Inl e) \<Rightarrow> True | None \<Rightarrow> False)
     (fst (run zd_step (zd_new v limit) ops)) \<and>
   length (zd_ring (snd (run zd_step (zd_new v limit) ops))) \<le> pm_history (params v)"
proof
  show "list_all (\<lambda>r. case r of Some (Inr out) \<Rightarrow> length out \<le> limit | Some (Inl e) \<Rightarrow> True | None \<Rightarrow> False)
     (fst (run zd_step (zd_new v limit) ops))"
  proof (rule zd_machine.outputs_run_from [where v = v and limit = limit])
    fix d i assume "zd_inv v limit d"
    from zd_step_safe [OF this, of i]
    show "case fst (zd_step d i) of Some (Inr out) \<Rightarrow> length out \<le> limit | Some (Inl e) \<Rightarrow> True | None \<Rightarrow> False"
      by (auto split: option.split sum.split)
  qed (rule zd_machine.inv_init)
  have "zd_inv v limit (snd (run zd_step (zd_new v limit) ops))" by (rule zd_machine.inv_run)
  then show "length (zd_ring (snd (run zd_step (zd_new v limit) ops))) \<le> pm_history (params v)"
    by (auto simp: zd_inv_def zd_ok_def)
qed

text \<open>
  Comparing eight bytes at a time finds the same length as comparing byte by byte: for either byte order
  and any two places whose \<open>limit\<close> bytes lie in the window, \<open>common_length\<close> is the number of leading bytes
  that agree.
\<close>

theorem common_length_prefix:
  assumes "a + limit \<le> length w" "b + limit \<le> length w"
  shows "common_length en w a b limit = Some (length (takeWhile (\<lambda>i. w ! (a + i) = w ! (b + i)) [0..<limit]))"
  unfolding common_length_def using common_words_ok [OF assms, of 0 en] by (simp add: common_prefix_def)

theorem common_length_prefix_witness:
  "common_length Little [1, 2, 3, 4, 5, 6, 7, 8, 9, 1, 2, 3, 4, 5, 6, 7, 8, 0] 0 9 9 = Some 8"
proof -
  have "length (takeWhile (\<lambda>i. [1, 2, 3, 4, 5, 6, 7, 8, 9, 1, 2, 3, 4, 5, 6, 7, 8, 0 :: byte] ! (0 + i) =
      [1, 2, 3, 4, 5, 6, 7, 8, 9, 1, 2, 3, 4, 5, 6, 7, 8, 0] ! (9 + i)) [0..<9]) = 8"
    by code_simp
  with common_length_prefix [of 0 9 "[1, 2, 3, 4, 5, 6, 7, 8, 9, 1, 2, 3, 4, 5, 6, 7, 8, 0]" 9 Little] show ?thesis
    by (simp only: list.size)
qed

end
