(* ===== verification/Dynamic_Channels.thy ===== *)
theory Dynamic_Channels
  imports Dvc_Server Svc Zgfx_Roundtrip
begin

text \<open>
  \<open>server/dynamic_channels.cpp\<close>: dynamic virtual channels over the static channel drdynvc. The
  client's chunks are reassembled into messages for the channel server, and everything the channel server sends
  is cut into chunks. What the callback \<open>send_chunk_\<close> is given is a list here.
\<close>

section \<open>Model\<close>

definition dyn_max_svc_message :: nat where "dyn_max_svc_message = 64 * 1024"

record 'd dynamic_channels =
  dy_sent :: "bytes list"
  dy_chunk_length :: nat
  dy_reassembler :: svc_reassembler
  dy_dvc :: "'d dvc_server"

text \<open>
  The decompressor of the default configuration: an RDP 8.0 Lite decompressor limited to the message size. It
  always returns (\<open>zd_decompress_safe\<close>), so the branch for a call that does not is never taken.
\<close>

definition dyn_decompress :: "zgfx_dec \<Rightarrow> bytes \<Rightarrow> bytes result \<times> zgfx_dec" where
  "dyn_decompress d data = (case zd_decompress data d of Some r \<Rightarrow> r | None \<Rightarrow> (fail Io ''aborted'' 0, d))"

definition dyn_default_config :: "zgfx_dec dvc_config" where
  "dyn_default_config = (let config = dvc_default_config in
     config\<lparr>dc_make_decompressor := Some (zd_new Rdp8_Lite (dc_max_message_size config), dyn_decompress)\<rparr>)"

definition dyn_new :: "'d dvc_config \<Rightarrow> nat \<Rightarrow> 'd dynamic_channels option" where
  "dyn_new config chunk_length = do {
     dvc \<leftarrow> dvc_new config;
     Some \<lparr>dy_sent = [], dy_chunk_length = chunk_length, dy_reassembler = svc_new dyn_max_svc_message svc_max_chunk_length, dy_dvc = dvc\<rparr>
   }"

fun dyn_flush_loop :: "bytes list \<Rightarrow> 'd dynamic_channels \<Rightarrow> 'd dynamic_channels option" where
  "dyn_flush_loop [] st = Some st"
| "dyn_flush_loop (message # messages) st = do {
     chunks \<leftarrow> encode_chunks message (dy_chunk_length st);
     dyn_flush_loop messages (st\<lparr>dy_sent := dy_sent st @ chunks\<rparr>)
   }"

definition dyn_flush :: "'d dynamic_channels \<Rightarrow> 'd dynamic_channels option" where
  "dyn_flush st = (let (messages, dvc) = dvc_take_output (dy_dvc st) in dyn_flush_loop messages (st\<lparr>dy_dvc := dvc\<rparr>))"

definition dyn_start :: "'d dynamic_channels \<Rightarrow> 'd dynamic_channels option" where
  "dyn_start st = do {
     dvc \<leftarrow> dvc_start (dy_dvc st);
     dyn_flush (st\<lparr>dy_dvc := dvc\<rparr>)
   }"

definition dyn_receive :: "bytes \<Rightarrow> 'd dynamic_channels \<Rightarrow> (unit result \<times> 'd dynamic_channels) option" where
  "dyn_receive pdu st = (case svc_add (dy_reassembler st) pdu of
     (Inl e, r) \<Rightarrow> Some (Inl e, st\<lparr>dy_reassembler := r\<rparr>)
   | (Inr None, r) \<Rightarrow> Some (Inr (), st\<lparr>dy_reassembler := r\<rparr>)
   | (Inr (Some message), r) \<Rightarrow> do {
       (handled, dvc) \<leftarrow> dvc_receive_message message (dy_dvc st);
       st \<leftarrow> dyn_flush (st\<lparr>dy_reassembler := r, dy_dvc := dvc\<rparr>);
       Some (handled, st)
     })"

definition dyn_open :: "bytes \<Rightarrow> byte \<Rightarrow> nat option \<Rightarrow> 'd dynamic_channels \<Rightarrow> (u32 \<times> 'd dynamic_channels) option" where
  "dyn_open name priority limit st = do {
     (ident, dvc) \<leftarrow> dvc_open name priority limit (dy_dvc st);
     st \<leftarrow> dyn_flush (st\<lparr>dy_dvc := dvc\<rparr>);
     Some (ident, st)
   }"

definition dyn_send :: "u32 \<Rightarrow> bytes \<Rightarrow> 'd dynamic_channels \<Rightarrow> (bool \<times> 'd dynamic_channels) option" where
  "dyn_send ident message st = do {
     (sent, dvc) \<leftarrow> dvc_send ident message (dy_dvc st);
     st \<leftarrow> dyn_flush (st\<lparr>dy_dvc := dvc\<rparr>);
     Some (sent, st)
   }"

definition dyn_close :: "u32 \<Rightarrow> 'd dynamic_channels \<Rightarrow> 'd dynamic_channels option" where
  "dyn_close ident st = do {
     dvc \<leftarrow> dvc_close ident (dy_dvc st);
     dyn_flush (st\<lparr>dy_dvc := dvc\<rparr>)
   }"

definition dyn_poll_event :: "'d dynamic_channels \<Rightarrow> dvc_event option \<times> 'd dynamic_channels" where
  "dyn_poll_event st = (let (e, dvc) = dvc_poll_event (dy_dvc st) in (e, st\<lparr>dy_dvc := dvc\<rparr>))"

section \<open>The stream of chunks\<close>

text \<open>
  Between two calls nothing is queued in the channel server, and what went out is a sequence of whole messages,
  each within the size of a DVC PDU and each in chunks of its own.
\<close>

definition dyn_wire :: "bytes list \<Rightarrow> 'd dynamic_channels \<Rightarrow> bool" where
  "dyn_wire ms st \<longleftrightarrow> dy_sent st = concat (map (svc_chunks (dy_chunk_length st)) ms) \<and> (\<forall>m \<in> set ms. length m \<le> dvc_max_pdu_size)"

definition dyn_inv :: "'d dynamic_channels \<Rightarrow> bool" where
  "dyn_inv st \<longleftrightarrow> dvc_inv (dy_dvc st) \<and> ds_output (dy_dvc st) = [] \<and> 0 < dy_chunk_length st \<and> (\<exists>ms. dyn_wire ms st)"

lemma dyn_flush_loop_ok:
  assumes "0 < dy_chunk_length st" "\<forall>m \<in> set ms. length m \<le> dvc_max_pdu_size"
  shows "dyn_flush_loop ms st = Some (st\<lparr>dy_sent := dy_sent st @ concat (map (svc_chunks (dy_chunk_length st)) ms)\<rparr>)"
  using assms
proof (induction ms arbitrary: st)
  case (Cons m ms)
  have "encode_chunks m (dy_chunk_length st) = Some (svc_chunks (dy_chunk_length st) m)"
    using Cons.prems by (intro encode_chunks_enc) (auto simp: dvc_max_pdu_size_def)
  with Cons show ?case by simp
qed simp

lemma dyn_flush_ok:
  assumes "0 < dy_chunk_length st" "dvc_inv (dy_dvc st)"
  shows "dyn_flush st = Some (st\<lparr>dy_sent := dy_sent st @ concat (map (svc_chunks (dy_chunk_length st)) (ds_output (dy_dvc st))),
    dy_dvc := (dy_dvc st)\<lparr>ds_output := []\<rparr>\<rparr>)"
  using assms dyn_flush_loop_ok [of "st\<lparr>dy_dvc := (dy_dvc st)\<lparr>ds_output := []\<rparr>\<rparr>" "ds_output (dy_dvc st)"]
  by (simp add: dyn_flush_def dvc_take_output_def dvc_inv_def output_ok_def)

text \<open>After any operation of the channel server, flushing establishes the invariant again.\<close>

lemma dyn_flush_inv:
  assumes "0 < dy_chunk_length st" "dyn_wire ms st" "dvc_inv dvc"
  shows "\<exists>st'. dyn_flush (st\<lparr>dy_dvc := dvc\<rparr>) = Some st' \<and> dyn_inv st' \<and> dyn_wire (ms @ ds_output dvc) st' \<and>
    dy_dvc st' = dvc\<lparr>ds_output := []\<rparr> \<and> dy_chunk_length st' = dy_chunk_length st \<and> dy_reassembler st' = dy_reassembler st"
proof -
  let ?st' = "st\<lparr>dy_dvc := dvc\<lparr>ds_output := []\<rparr>, dy_sent := dy_sent st @ concat (map (svc_chunks (dy_chunk_length st)) (ds_output dvc))\<rparr>"
  have "dyn_flush (st\<lparr>dy_dvc := dvc\<rparr>) = Some ?st'"
    using dyn_flush_ok [of "st\<lparr>dy_dvc := dvc\<rparr>"] assms(1,3) by simp
  moreover have wire: "dyn_wire (ms @ ds_output dvc) ?st'"
    using assms(2,3) by (auto simp: dyn_wire_def dvc_inv_def output_ok_def)
  moreover have "dvc_inv (dvc\<lparr>ds_output := []\<rparr>)"
    using dvc_take_poll_inv [OF assms(3)] by (simp add: dvc_take_output_def)
  moreover have "dyn_inv ?st'" unfolding dyn_inv_def using calculation assms(1) by auto
  ultimately show ?thesis by simp
qed

lemma dyn_invE:
  assumes "dyn_inv st"
  obtains ms where "dvc_inv (dy_dvc st)" "ds_output (dy_dvc st) = []" "0 < dy_chunk_length st" "dyn_wire ms st"
  using assms by (auto simp: dyn_inv_def)

lemma dyn_new_inv:
  assumes "dyn_new config n = Some st" "length (dc_priority_charges config) = 4" "0 < n"
  shows "dyn_inv st"
proof -
  obtain dvc where dvc: "dvc_new config = Some dvc"
    "st = \<lparr>dy_sent = [], dy_chunk_length = n, dy_reassembler = svc_new dyn_max_svc_message svc_max_chunk_length, dy_dvc = dvc\<rparr>"
    using assms(1) by (auto simp: dyn_new_def split: bind_splits)
  have "ds_output dvc = []" using dvc(1) by (auto simp: dvc_new_def wassert_def split: if_splits)
  then have "dyn_wire [] st" "ds_output (dy_dvc st) = []" using dvc(2) by (simp_all add: dyn_wire_def)
  then show ?thesis using dvc_new_inv [OF dvc(1) assms(2)] assms(3) dvc(2) by (auto simp: dyn_inv_def)
qed

lemma dyn_receive_total:
  assumes "dyn_inv st"
  shows "\<exists>r st'. dyn_receive pdu st = Some (r, st') \<and> dyn_inv st'"
proof -
  obtain ms where inv: "dvc_inv (dy_dvc st)" "0 < dy_chunk_length st" "dyn_wire ms st" using assms by (rule dyn_invE)
  obtain out r where add: "svc_add (dy_reassembler st) pdu = (out, r)" by fastforce
  have keep: "dyn_inv (st\<lparr>dy_reassembler := r\<rparr>)" using assms by (simp add: dyn_inv_def dyn_wire_def)
  show ?thesis
  proof (cases "\<exists>m. out = Inr (Some m)")
    case True
    then obtain m where m: "out = Inr (Some m)" by blast
    obtain res dvc where dvc: "dvc_receive_message m (dy_dvc st) = Some (res, dvc)" "dvc_inv dvc"
      using dvc_receive_total [OF inv(1)] by blast
    have "dyn_wire ms (st\<lparr>dy_reassembler := r\<rparr>)" using inv(3) by (simp add: dyn_wire_def)
    from dyn_flush_inv [OF _ this dvc(2)] inv(2) add m dvc(1) show ?thesis
      by (auto simp: dyn_receive_def)
  next
    case False
    with add keep show ?thesis by (auto simp: dyn_receive_def split: sum.split option.split)
  qed
qed

section \<open>Any sequence of calls\<close>

datatype dyn_op = Dyn_Start | Dyn_Receive bytes | Dyn_Open bytes byte "nat option" | Dyn_Send u32 bytes | Dyn_Close u32 | Dyn_Poll

fun dyn_exec :: "dyn_op \<Rightarrow> 'd dynamic_channels \<Rightarrow> 'd dynamic_channels option" where
  "dyn_exec Dyn_Start st = dyn_start st"
| "dyn_exec (Dyn_Receive pdu) st = map_option snd (dyn_receive pdu st)"
| "dyn_exec (Dyn_Open name priority limit) st = map_option snd (dyn_open name priority limit st)"
| "dyn_exec (Dyn_Send ident message) st = map_option snd (dyn_send ident message st)"
| "dyn_exec (Dyn_Close ident) st = dyn_close ident st"
| "dyn_exec Dyn_Poll st = Some (snd (dyn_poll_event st))"

definition dyn_step :: "'d dynamic_channels \<Rightarrow> dyn_op \<Rightarrow> bool \<times> 'd dynamic_channels" where
  "dyn_step st op = (case dyn_exec op st of None \<Rightarrow> (False, st) | Some st' \<Rightarrow> (True, st'))"

text \<open>The operations but \<open>receive\<close> are an operation of the channel server and a flush.\<close>

fun dyn_dvc_op :: "dyn_op \<Rightarrow> dvc_op option" where
  "dyn_dvc_op Dyn_Start = Some OpStart"
| "dyn_dvc_op (Dyn_Receive pdu) = None"
| "dyn_dvc_op (Dyn_Open name priority limit) = Some (OpOpen name priority limit)"
| "dyn_dvc_op (Dyn_Send ident message) = Some (OpSend ident message)"
| "dyn_dvc_op (Dyn_Close ident) = Some (OpClose ident)"
| "dyn_dvc_op Dyn_Poll = None"

lemma dyn_exec_dvc:
  "dyn_dvc_op op = Some dop \<Longrightarrow> dyn_exec op st = Option.bind (dvc_exec dop (dy_dvc st)) (\<lambda>dvc. dyn_flush (st\<lparr>dy_dvc := dvc\<rparr>))"
proof (cases op)
  case (Dyn_Open name priority limit)
  assume "dyn_dvc_op op = Some dop"
  with Dyn_Open show ?thesis
    by (cases "dvc_open name priority limit (dy_dvc st)") (auto simp: dyn_open_def map_option_bind comp_def case_prod_beta)
next
  case (Dyn_Send ident message)
  assume "dyn_dvc_op op = Some dop"
  with Dyn_Send show ?thesis
    by (cases "dvc_send ident message (dy_dvc st)") (auto simp: dyn_send_def map_option_bind comp_def case_prod_beta)
qed (auto simp: dyn_start_def dyn_close_def)

lemma dyn_exec_inv:
  assumes "dyn_inv st" "dyn_exec op st = Some st'"
  shows "dyn_inv st'"
proof (cases "dyn_dvc_op op")
  case (Some dop)
  obtain ms where inv: "dvc_inv (dy_dvc st)" "0 < dy_chunk_length st" "dyn_wire ms st" using assms(1) by (rule dyn_invE)
  obtain dvc where dvc: "dvc_exec dop (dy_dvc st) = Some dvc" "dyn_flush (st\<lparr>dy_dvc := dvc\<rparr>) = Some st'"
    using assms(2) dyn_exec_dvc [OF Some, of st] by (cases "dvc_exec dop (dy_dvc st)") auto
  show ?thesis using dyn_flush_inv [OF inv(2,3) dvc_exec_inv [OF inv(1) dvc(1)]] dvc(2) by auto
next
  case None
  then consider pdu where "op = Dyn_Receive pdu" | "op = Dyn_Poll" by (cases op) auto
  then show ?thesis
  proof cases
    case 1
    with assms dyn_receive_total [OF assms(1)] show ?thesis by (metis dyn_exec.simps(2) option.map(2) option.sel snd_conv)
  next
    case 2
    with assms dvc_take_poll_inv [of "dy_dvc st"] show ?thesis
      by (auto simp: dyn_poll_event_def dyn_inv_def dyn_wire_def dvc_poll_event_def split: list.splits)
  qed
qed

definition dyn_initial :: "'d dvc_config \<Rightarrow> 'd dynamic_channels" where
  "dyn_initial config = the (dyn_new config svc_chunk_length)"

lemma dyn_initial_new:
  "dyn_new dvc_default_config svc_chunk_length = Some (dyn_initial dvc_default_config)"
  "dyn_new dyn_default_config svc_chunk_length = Some (dyn_initial dyn_default_config)"
  by (simp_all add: dyn_initial_def dyn_new_def dvc_new_def wassert_def dyn_default_config_def dvc_default_config_def
      dvc_version1_def dvc_version3_def word_le_nat_alt)

lemma dyn_default_charges [simp]:
  "length (dc_priority_charges dvc_default_config) = 4" "length (dc_priority_charges dyn_default_config) = 4"
  by (simp_all add: dyn_default_config_def dvc_default_config_def dvc_default_priority_charges_def)

interpretation dyn_machine: machine dyn_step dyn_inv "dyn_initial dvc_default_config"
proof
  show "dyn_inv (dyn_initial dvc_default_config)"
    by (rule dyn_new_inv [OF dyn_initial_new(1)]) (simp_all add: svc_chunk_length_def)
qed (auto simp: dyn_step_def dyn_exec_inv split: option.split)

lemma dyn_flush_chunk: "dyn_flush st = Some st' \<Longrightarrow> dy_chunk_length st' = dy_chunk_length st"
proof -
  have "dyn_flush_loop ms s = Some s' \<Longrightarrow> dy_chunk_length s' = dy_chunk_length s" for ms and s s' :: "'a dynamic_channels"
    by (induction ms arbitrary: s) (auto split: bind_splits)
  then show "dyn_flush st = Some st' \<Longrightarrow> dy_chunk_length st' = dy_chunk_length st"
    by (auto simp: dyn_flush_def dvc_take_output_def)
qed

lemma dyn_exec_chunk:
  assumes "dyn_exec op st = Some st'"
  shows "dy_chunk_length st' = dy_chunk_length st"
proof (cases "dyn_dvc_op op")
  case (Some dop)
  with assms show ?thesis
    using dyn_exec_dvc [OF Some, of st] by (auto split: bind_splits dest: dyn_flush_chunk)
next
  case None
  then consider pdu where "op = Dyn_Receive pdu" | "op = Dyn_Poll" by (cases op) auto
  then show ?thesis
    using assms
    by cases (auto simp: dyn_receive_def dyn_poll_event_def case_prod_beta Let_def
        split: prod.splits sum.splits option.splits bind_splits dest: dyn_flush_chunk)
qed

lemma dyn_step_chunk:
  "dyn_inv st \<Longrightarrow> dyn_inv (snd (dyn_step st op)) \<and> dy_chunk_length (snd (dyn_step st op)) = dy_chunk_length st"
  by (auto simp: dyn_step_def dyn_exec_inv dyn_exec_chunk split: option.split)

lemma dyn_run_chunk: "dyn_inv st \<Longrightarrow> dy_chunk_length (snd (run dyn_step st ops)) = dy_chunk_length st"
proof (induction ops arbitrary: st)
  case (Cons op ops)
  have "dyn_inv (snd (dyn_step st op)) \<and> dy_chunk_length (snd (dyn_step st op)) = dy_chunk_length st"
    using Cons.prems by (rule dyn_step_chunk)
  with Cons.IH show ?case by (simp add: Let_def case_prod_beta)
qed simp

text \<open>A client that reassembles the chunks receives the messages.\<close>

lemma svc_fits_dvc:
  assumes "0 < n" "n \<le> sr_max_chunk client" "dvc_max_pdu_size \<le> sr_max_message_size client" "\<forall>m \<in> set ms. length m \<le> dvc_max_pdu_size"
  shows "list_all (svc_fits n client) ms"
  using assms by (force simp: list_all_iff svc_fits_def dvc_max_pdu_size_def)

lemma dyn_wire_feed:
  assumes "dyn_wire ms st" "0 < dy_chunk_length st" "dy_chunk_length st \<le> sr_max_chunk client" "svc_idle client"
    and "dvc_max_pdu_size \<le> sr_max_message_size client"
  shows "feed svc_add client (dy_sent st) = (None, ms, client)"
  using assms svc_fits_dvc [OF assms(2,3,5)] by (auto simp: dyn_wire_def intro: svc.stream)

section \<open>An open channel\<close>

text \<open>The start of a session: capabilities, and the graphics channel opened and accepted by the client.\<close>

definition dyn_opening :: "dyn_op list" where
  "dyn_opening = [Dyn_Start, Dyn_Receive (svc_chunk 4 3 (dvc_pdu_enc (CapsResponse 2))), Dyn_Open [65] 0 None,
     Dyn_Receive (svc_chunk 6 3 (dvc_pdu_enc (CreateResponse 1 0)))]"

lemma dyn_step_dvc:
  assumes "dyn_inv st" "dyn_dvc_op op = Some dop" "dvc_exec dop (dy_dvc st) = Some dvc"
  shows "\<exists>st'. snd (dyn_step st op) = st' \<and> dyn_inv st' \<and> dy_dvc st' = dvc\<lparr>ds_output := []\<rparr> \<and> dy_reassembler st' = dy_reassembler st"
proof -
  obtain ms where inv: "dvc_inv (dy_dvc st)" "0 < dy_chunk_length st" "dyn_wire ms st" using assms(1) by (rule dyn_invE)
  from dyn_flush_inv [OF inv(2,3) dvc_exec_inv [OF inv(1) assms(3)]] dyn_exec_dvc [OF assms(2), of st] assms(3)
  show ?thesis by (auto simp: dyn_step_def)
qed

lemma dyn_step_receive:
  assumes "dyn_inv st" "svc_add (dy_reassembler st) pdu = (Inr (Some m), r)" "dvc_receive_message m (dy_dvc st) = Some (res, dvc)"
  shows "\<exists>st'. snd (dyn_step st (Dyn_Receive pdu)) = st' \<and> dyn_inv st' \<and> dy_dvc st' = dvc\<lparr>ds_output := []\<rparr> \<and> dy_reassembler st' = r"
proof -
  obtain ms where inv: "dvc_inv (dy_dvc st)" "0 < dy_chunk_length st" "dyn_wire ms st" using assms(1) by (rule dyn_invE)
  have "dyn_wire ms (st\<lparr>dy_reassembler := r\<rparr>)" using inv(3) by (simp add: dyn_wire_def)
  moreover have "dvc_inv dvc" using dvc_receive_total [OF inv(1), of m] assms(3) by auto
  ultimately show ?thesis
    using dyn_flush_inv [of "st\<lparr>dy_reassembler := r\<rparr>" ms dvc] inv(2) assms(2,3)
    by (auto simp: dyn_step_def dyn_receive_def)
qed

lemma svc_add_whole:
  "sr_total st = None \<Longrightarrow> length m = unat n \<Longrightarrow> length m \<le> sr_max_chunk st \<Longrightarrow> length m \<le> sr_max_message_size st \<Longrightarrow>
   svc_add st (svc_chunk n 3 m) = (Inr (Some m), st)"
  by (simp add: svc_add_def svc_process_def svc_decode_chunk svc_flags Let_def)

lemma dyn_opening_open:
  "\<exists>st. snd (run dyn_step (dyn_initial (dvc_default_config :: 'd dvc_config)) dyn_opening) = st \<and>
     ds_error (dy_dvc st) = None \<and> dvc_is_open (dy_dvc st) 1"
proof -
  let ?st0 = "dyn_initial dvc_default_config :: 'd dynamic_channels"
  have r0: "dy_reassembler ?st0 = svc_new dyn_max_svc_message svc_max_chunk_length" "dyn_inv ?st0" "ds_state (dy_dvc ?st0) = DvcIdle"
    "ds_next_id (dy_dvc ?st0) = 1" "ds_channels (dy_dvc ?st0) = []" "ds_error (dy_dvc ?st0) = None" "ds_pending (dy_dvc ?st0) = []"
    using dyn_machine.inv_init
    by (simp_all add: dyn_initial_def dyn_new_def dvc_new_def wassert_def dvc_default_config_def dvc_version1_def dvc_version3_def
      word_le_nat_alt)
  obtain d1 where d1: "dvc_exec OpStart (dy_dvc ?st0) = Some d1" "ds_state d1 = DvcWaitingCaps" "ds_next_id d1 = 1"
    "ds_channels d1 = []" "ds_error d1 = None" "ds_pending d1 = []"
    using dvc_start_inv [of "dy_dvc ?st0"] r0
    by (auto simp: dvc_start_def dvc_push_output_def dyn_inv_def Let_def simp del: encode_dvc_pdu.simps split: bind_splits)
  obtain s1 where s1: "snd (dyn_step ?st0 Dyn_Start) = s1" "dyn_inv s1" "dy_dvc s1 = d1\<lparr>ds_output := []\<rparr>" "dy_reassembler s1 = dy_reassembler ?st0"
    using dyn_step_dvc [OF r0(2) _ d1(1), of Dyn_Start] by auto
  have ok: "dvc_pdu_ok (CapsResponse 2)" "dvc_pdu_ok (CreateResponse 1 0)" "from_client (CapsResponse 2)" "from_client (CreateResponse 1 0)"
    by (simp_all add: dvc_pdu_ok_def from_client_def)
  note dec = decode_client_pdu_enc [OF ok(1,3)] decode_client_pdu_enc [OF ok(2,4)]
  have svc: "svc_add (svc_new dyn_max_svc_message svc_max_chunk_length) (svc_chunk 4 3 (dvc_pdu_enc (CapsResponse 2))) =
      (Inr (Some (dvc_pdu_enc (CapsResponse 2))), svc_new dyn_max_svc_message svc_max_chunk_length)"
    "svc_add (svc_new dyn_max_svc_message svc_max_chunk_length) (svc_chunk 6 3 (dvc_pdu_enc (CreateResponse 1 0))) =
      (Inr (Some (dvc_pdu_enc (CreateResponse 1 0))), svc_new dyn_max_svc_message svc_max_chunk_length)"
    by (simp_all add: svc_add_whole svc_new_def dyn_max_svc_message_def svc_max_chunk_length_def id_pdu_enc_def var_enc_def size_code_def)
  obtain res2 d2 where d2: "dvc_receive_message (dvc_pdu_enc (CapsResponse 2)) (dy_dvc s1) = Some (res2, d2)" "ds_state d2 = DvcReady" "ds_next_id d2 = 1"
    "ds_channels d2 = []" "ds_error d2 = None"
    using d1 by (simp add: dvc_receive_message_def s1(3) dec dvc_handle_caps_def dvc_push_event_def Let_def del: dvc_pdu_enc.simps)
  obtain s2 where s2: "snd (dyn_step s1 (Dyn_Receive (svc_chunk 4 3 (dvc_pdu_enc (CapsResponse 2))))) = s2" "dyn_inv s2"
    "dy_dvc s2 = d2\<lparr>ds_output := []\<rparr>" "dy_reassembler s2 = dy_reassembler ?st0"
    using dyn_step_receive [OF s1(2) _ d2(1)] svc(1) s1(4) r0(1) by auto
  obtain d3 where d3: "dvc_exec (OpOpen [65] 0 None) (dy_dvc s2) = Some d3" "ds_state d3 = DvcReady" "ds_error d3 = None"
    "map_option dch_state (dvc_find d3 1) = Some ChannelOpening"
    using d2 dvc_find_def [of d2 1]
    by (simp add: dvc_open_def s2(3) allocate_id_def wassert_def dvc_send_create_def dvc_max_channel_name_size_def Let_def
      encode_dvc_pdu_enc dvc_pdu_ok_def del: encode_dvc_pdu.simps)
  obtain s3 where s3: "snd (dyn_step s2 (Dyn_Open [65] 0 None)) = s3" "dyn_inv s3"
    "dy_dvc s3 = d3\<lparr>ds_output := []\<rparr>" "dy_reassembler s3 = dy_reassembler ?st0"
    using dyn_step_dvc [OF s2(2) _ d3(1), of "Dyn_Open [65] 0 None"] s2(4) by auto
  obtain res4 d4 where d4: "dvc_receive_message (dvc_pdu_enc (CreateResponse 1 0)) (dy_dvc s3) = Some (res4, d4)" "ds_error d4 = None" "dvc_is_open d4 1"
    using d3 by (auto simp: dvc_receive_message_def s3(3) dec dvc_handle_create_def dvc_require_ready_def dvc_is_open_def
      dvc_push_event_def simp del: dvc_pdu_enc.simps split: option.splits)
  obtain s4 where s4: "snd (dyn_step s3 (Dyn_Receive (svc_chunk 6 3 (dvc_pdu_enc (CreateResponse 1 0))))) = s4"
    "dy_dvc s4 = d4\<lparr>ds_output := []\<rparr>"
    using dyn_step_receive [OF s3(2) _ d4(1)] svc(2) s3(4) r0(1) by auto
  show ?thesis
    using s1(1) s2(1) s3(1) s4 d4 by (auto simp: dyn_opening_def Let_def case_prod_beta dvc_is_open_def)
qed

section \<open>Properties\<close>

text \<open>
  C23: Whatever the server opens, sends and closes and whatever chunks the client sends, in any order: what goes
  out on the static channel is a sequence of whole messages that never interleave, none above the 1600 octets of
  a DVC PDU, and a client that reassembles the chunks receives exactly these messages, in order. The next chunk
  from the client, whatever its bytes, is handled without an assertion failing.
\<close>

theorem dynamic_channels_stream:
  assumes "dyn_new config n = Some st0" "length (dc_priority_charges config) = 4" "0 < n" "n \<le> sr_max_chunk client"
    and "svc_idle client" "dvc_max_pdu_size \<le> sr_max_message_size client" "st = snd (run dyn_step st0 ops)"
  shows "(\<exists>ms. feed svc_add client (dy_sent st) = (None, ms, client) \<and> (\<forall>m \<in> set ms. length m \<le> dvc_max_pdu_size)) \<and>
    (\<exists>r st'. dyn_receive pdu st = Some (r, st'))"
proof -
  have inv0: "dyn_inv st0" using assms(1-3) by (rule dyn_new_inv)
  have inv: "dyn_inv st" unfolding assms(7) using inv0 by (rule dyn_machine.inv_run_from)
  obtain ms where ms: "dyn_wire ms st" using inv by (rule dyn_invE)
  have "dy_chunk_length st = n" using dyn_run_chunk [OF inv0] assms(1,7) by (auto simp: dyn_new_def split: bind_splits)
  then have "feed svc_add client (dy_sent st) = (None, ms, client)"
    using ms assms(3-6) by (intro dyn_wire_feed) simp_all
  with ms dyn_receive_total [OF inv, of pdu] show ?thesis by (auto simp: dyn_wire_def)
qed

theorem dynamic_channels_stream_witness:
  "\<exists>ms. feed svc_add (svc_new 65536 16256)
      (dy_sent (snd (run dyn_step (dyn_initial dyn_default_config) [Dyn_Start, Dyn_Receive [1, 2, 3]]))) =
     (None, ms, svc_new 65536 16256)"
proof -
  have "0 < svc_chunk_length" "svc_chunk_length \<le> sr_max_chunk (svc_new 65536 16256)"
    "svc_idle (svc_new 65536 16256)" "dvc_max_pdu_size \<le> sr_max_message_size (svc_new 65536 16256)"
    by (simp_all add: svc_chunk_length_def svc_new_def svc_idle_def dvc_max_pdu_size_def)
  from dynamic_channels_stream [OF dyn_initial_new(2) dyn_default_charges(2) this refl] show ?thesis by blast
qed

end
