(* ===== verification/Parser_Results.thy ===== *)
theory Parser_Results
  imports Reader_Writer
begin

text \<open>
  What a decoder has checked when it succeeds. \<open>rd_yields p Q\<close> says that every successful run of
  \<open>p\<close> moves the reader forward by some number of bytes that it still had, and that the value and this
  number satisfy \<open>Q\<close>. The rules follow the way decoders are composed, so the checks of a decoder
  become the facts about its value.
\<close>

definition rd_yields :: "'a parser \<Rightarrow> ('a \<Rightarrow> nat \<Rightarrow> bool) \<Rightarrow> bool" where
  "rd_yields p Q \<longleftrightarrow> (\<forall>r x r'. rd_wf r \<longrightarrow> p r = (Inr x, r') \<longrightarrow>
     (\<exists>n \<le> length (rd_rest r). r' = rd_advance n r \<and> Q x n))"

named_theorems yields_intros "what a successful decoder has established"

lemma yieldsD:
  assumes "rd_yields p Q" "rd_wf r" "p r = (Inr x, r')"
  obtains n where "n \<le> length (rd_rest r)" "r' = rd_advance n r" "Q x n"
  using assms unfolding rd_yields_def by blast

lemma yieldsI:
  "(\<And>r x r'. rd_wf r \<Longrightarrow> p r = (Inr x, r') \<Longrightarrow> \<exists>n \<le> length (rd_rest r). r' = rd_advance n r \<and> Q x n) \<Longrightarrow> rd_yields p Q"
  by (simp add: rd_yields_def)

lemma yields_mono: "rd_yields p P \<Longrightarrow> (\<And>x n. P x n \<Longrightarrow> Q x n) \<Longrightarrow> rd_yields p Q"
  by (auto simp: rd_yields_def) blast

lemma yields_pret [yields_intros]: "Q x 0 \<Longrightarrow> rd_yields (pret x) Q"
  by (auto simp: rd_yields_def intro: exI [of _ "0 :: nat"])

lemma yields_pfail [yields_intros]: "rd_yields (pfail c s n) Q"
  by (simp add: rd_yields_def)

lemma yields_ptry [yields_intros]:
  assumes "rd_yields p P" "\<And>x n. P x n \<Longrightarrow> rd_yields (f x) (\<lambda>y m. Q y (n + m))"
  shows "rd_yields (ptry p f) Q"
proof (rule yieldsI)
  fix r y r'
  assume wf: "rd_wf r" and "ptry p f r = (Inr y, r')"
  then obtain x s where x: "p r = (Inr x, s)" and y: "f x s = (Inr y, r')" by (auto simp: ptry_eq_Inr)
  obtain n where n: "n \<le> length (rd_rest r)" "s = rd_advance n r" "P x n"
    using assms(1) wf x by (rule yieldsD)
  have "rd_wf s" using wf n by simp
  with assms(2) [OF n(3)] obtain m where "m \<le> length (rd_rest s)" "r' = rd_advance m s" "Q y (n + m)"
    using y by (rule yieldsD)
  with n show "\<exists>n \<le> length (rd_rest r). r' = rd_advance n r \<and> Q y n"
    by (intro exI [of _ "n + m"]) auto
qed

lemma yields_pget [yields_intros]: "(\<And>s. rd_yields (f s) Q) \<Longrightarrow> rd_yields (pget sel f) Q"
  by (simp add: rd_yields_def pget_def)

lemma yields_if [yields_intros]:
  "(b \<Longrightarrow> rd_yields p Q) \<Longrightarrow> (\<not> b \<Longrightarrow> rd_yields q Q) \<Longrightarrow> rd_yields (if b then p else q) Q"
  by simp

lemma yields_Let [yields_intros]: "(\<And>x. x = v \<Longrightarrow> rd_yields (f x) Q) \<Longrightarrow> rd_yields (let x = v in f x) Q"
  by (simp add: Let_def)

lemma yields_case_option [yields_intros]:
  "(y = None \<Longrightarrow> rd_yields p Q) \<Longrightarrow> (\<And>x. y = Some x \<Longrightarrow> rd_yields (q x) Q) \<Longrightarrow>
   rd_yields (case y of None \<Rightarrow> p | Some x \<Rightarrow> q x) Q"
  by (simp split: option.split)

lemma yields_pwith [yields_intros]: "rd_yields (pwith s p) (\<lambda>x n. n = 0 \<and> fst (p s) = Inr x)"
  by (auto simp: rd_yields_def pwith_def intro: exI [of _ "0 :: nat"])

lemma yields_bytes [yields_intros]: "rd_yields (rd_bytes k) (\<lambda>x n. n = k \<and> length x = k)"
  by (auto simp: rd_yields_def rd_bytes_eq_Inr)

lemma yields_skip [yields_intros]: "rd_yields (rd_skip k) (\<lambda>x n. n = k)"
  unfolding rd_skip_def by (rule yields_intros)+ simp

lemma yields_sub [yields_intros]:
  "rd_yields (rd_sub k) (\<lambda>s n. n = k \<and> (\<exists>bs b. s = mk_reader bs b \<and> length bs = k))"
  unfolding rd_sub_def by (rule yields_intros)+ auto

lemma yields_ints [yields_intros]:
  "rd_yields rd_u8 (\<lambda>x n. n = 1)" "rd_yields rd_u16le (\<lambda>x n. n = 2)" "rd_yields rd_u32le (\<lambda>x n. n = 4)"
  "rd_yields rd_u64le (\<lambda>x n. n = 8)" "rd_yields rd_u16be (\<lambda>x n. n = 2)" "rd_yields rd_u32be (\<lambda>x n. n = 4)"
  unfolding rd_u8_def rd_u16le_def rd_u32le_def rd_u64le_def rd_u16be_def rd_u32be_def rd_le_def rd_be_def
  by ((rule yields_intros)+, simp)+

lemma yields_expect_end [yields_intros]: "rd_yields (rd_expect_end s) (\<lambda>x n. n = 0)"
  by (auto simp: rd_yields_def rd_expect_end_eq_Inr intro: exI [of _ "0 :: nat"])

lemma yields_pcount:
  assumes "rd_yields p (\<lambda>x n. P x \<and> n = len x)"
  shows "rd_yields (pcount k p) (\<lambda>xs n. length xs = k \<and> list_all P xs \<and> n = sum_list (map len xs))"
proof (induction k)
  case (Suc k)
  show ?case
    unfolding pcount.simps
    by (rule yields_ptry [OF assms], rule yields_ptry [OF Suc], rule yields_pret) auto
qed (simp, rule yields_pret, simp)

end
