(* ===== verification/Rdpgfx_Pdu.thy ===== *)
theory Rdpgfx_Pdu
  imports Parser_Results
begin

text \<open>
  \<open>channels/rdpgfx.cpp\<close>: the PDUs of the graphics pipeline channel, for both directions. Signed
  fields are kept as their bit patterns, which is what \<open>std::bit_cast\<close> makes of them.
\<close>

section \<open>Model: constants\<close>

definition gfx_header_size :: nat where "gfx_header_size = 8"
definition gfx_reset_graphics_pdu_size :: nat where "gfx_reset_graphics_pdu_size = 340"
definition gfx_max_monitors :: nat where "gfx_max_monitors = 16"
definition gfx_max_output_size :: u32 where "gfx_max_output_size = 32766"
definition gfx_max_cache_import_entries :: nat where "gfx_max_cache_import_entries = 5461"
definition gfx_max_cache_slots :: u16 where "gfx_max_cache_slots = 25600"
definition gfx_max_cache_slots_small :: u16 where "gfx_max_cache_slots_small = 4096"
definition gfx_cache_size :: u32 where "gfx_cache_size = 100 * 1024 * 1024"
definition gfx_cache_size_small :: u32 where "gfx_cache_size_small = 16 * 1024 * 1024"
definition suspend_frame_acknowledgement :: u32 where "suspend_frame_acknowledgement = 0xFFFFFFFF"
definition gfx_max_caps_sets :: nat where "gfx_max_caps_sets = 64"
definition gfx_max_unknown_caps_data_length :: nat where "gfx_max_unknown_caps_data_length = 256"
definition gfx_max_client_pdu_size :: nat where
  "gfx_max_client_pdu_size = gfx_header_size + 2 + gfx_max_cache_import_entries * 12"

definition gfx_rect16_size :: nat where "gfx_rect16_size = 8"
definition gfx_point16_size :: nat where "gfx_point16_size = 4"
definition gfx_monitor_def_size :: nat where "gfx_monitor_def_size = 20"
definition gfx_cache_entry_size :: nat where "gfx_cache_entry_size = 12"
definition gfx_cache_slot_size :: nat where "gfx_cache_slot_size = 2"
definition gfx_caps_set_header_size :: nat where "gfx_caps_set_header_size = 8"
definition gfx_reset_graphics_fixed_size :: nat where "gfx_reset_graphics_fixed_size = 12"

definition codec_uncompressed :: u16 where "codec_uncompressed = 0x0000"
definition codec_cavideo :: u16 where "codec_cavideo = 0x0003"
definition codec_clearcodec :: u16 where "codec_clearcodec = 0x0008"
definition codec_progressive :: u16 where "codec_progressive = 0x0009"
definition codec_planar :: u16 where "codec_planar = 0x000A"
definition codec_avc420 :: u16 where "codec_avc420 = 0x000B"
definition codec_alpha :: u16 where "codec_alpha = 0x000C"
definition codec_avc444 :: u16 where "codec_avc444 = 0x000E"
definition codec_avc444v2 :: u16 where "codec_avc444v2 = 0x000F"

definition pixel_xrgb_8888 :: byte where "pixel_xrgb_8888 = 0x20"
definition pixel_argb_8888 :: byte where "pixel_argb_8888 = 0x21"

definition valid_pixel_format :: "byte \<Rightarrow> bool" where
  "valid_pixel_format f \<longleftrightarrow> f = pixel_xrgb_8888 \<or> f = pixel_argb_8888"

definition gfx_v8 :: u32 where "gfx_v8 = 0x00080004"
definition gfx_v8_1 :: u32 where "gfx_v8_1 = 0x00080105"
definition gfx_v10 :: u32 where "gfx_v10 = 0x000A0002"
definition gfx_v10_1 :: u32 where "gfx_v10_1 = 0x000A0100"
definition gfx_v10_2 :: u32 where "gfx_v10_2 = 0x000A0200"
definition gfx_v10_3 :: u32 where "gfx_v10_3 = 0x000A0301"
definition gfx_v10_4 :: u32 where "gfx_v10_4 = 0x000A0400"
definition gfx_v10_5 :: u32 where "gfx_v10_5 = 0x000A0502"
definition gfx_v10_6 :: u32 where "gfx_v10_6 = 0x000A0600"
definition gfx_v10_6_err :: u32 where "gfx_v10_6_err = 0x000A0601"
definition gfx_v10_7 :: u32 where "gfx_v10_7 = 0x000A0701"

definition caps_thin_client :: u32 where "caps_thin_client = 0x00000001"
definition caps_small_cache :: u32 where "caps_small_cache = 0x00000002"
definition caps_avc420_enabled :: u32 where "caps_avc420_enabled = 0x00000010"
definition caps_avc_disabled :: u32 where "caps_avc_disabled = 0x00000020"
definition caps_avc_thin_client :: u32 where "caps_avc_thin_client = 0x00000040"
definition caps_scaledmap_disable :: u32 where "caps_scaledmap_disable = 0x00000080"

lemmas gfx_constants =
  gfx_header_size_def gfx_reset_graphics_pdu_size_def gfx_max_monitors_def gfx_max_output_size_def
  gfx_max_cache_import_entries_def gfx_max_caps_sets_def gfx_max_unknown_caps_data_length_def
  gfx_rect16_size_def gfx_point16_size_def gfx_monitor_def_size_def gfx_cache_entry_size_def
  gfx_cache_slot_size_def gfx_caps_set_header_size_def gfx_reset_graphics_fixed_size_def

lemmas gfx_versions =
  gfx_v8_def gfx_v8_1_def gfx_v10_def gfx_v10_1_def gfx_v10_2_def gfx_v10_3_def gfx_v10_4_def
  gfx_v10_5_def gfx_v10_6_def gfx_v10_6_err_def gfx_v10_7_def

lemmas gfx_caps_flags =
  caps_thin_client_def caps_small_cache_def caps_avc420_enabled_def caps_avc_disabled_def
  caps_avc_thin_client_def caps_scaledmap_disable_def

section \<open>Model: data types\<close>

record gfx_point =
  pt_x :: u16
  pt_y :: u16

record gfx_rect =
  rc_left :: u16
  rc_top :: u16
  rc_right :: u16
  rc_bottom :: u16

definition rect_empty :: "gfx_rect \<Rightarrow> bool" where
  "rect_empty r \<longleftrightarrow> rc_left r \<ge> rc_right r \<or> rc_top r \<ge> rc_bottom r"

definition rect_width :: "gfx_rect \<Rightarrow> u16" where
  "rect_width r = (if rect_empty r then 0 else rc_right r - rc_left r)"

definition rect_height :: "gfx_rect \<Rightarrow> u16" where
  "rect_height r = (if rect_empty r then 0 else rc_bottom r - rc_top r)"

record gfx_color =
  co_b :: byte
  co_g :: byte
  co_r :: byte
  co_xa :: byte

record gfx_monitor =
  mo_left :: u32
  mo_top :: u32
  mo_right :: u32
  mo_bottom :: u32
  mo_flags :: u32

record gfx_caps =
  gc_version :: u32
  gc_flags :: u32
  gc_unknown_data :: bytes

record gfx_cache_meta =
  ce_cache_key :: u64
  ce_bitmap_length :: u32

definition caps_data_length :: "u32 \<Rightarrow> nat option" where
  "caps_data_length version =
     (if version = gfx_v10_1 then Some 16
      else if version \<in> {gfx_v8, gfx_v8_1, gfx_v10, gfx_v10_2, gfx_v10_3, gfx_v10_4, gfx_v10_5, gfx_v10_6,
        gfx_v10_6_err, gfx_v10_7} then Some 4
      else None)"

definition defined_caps_flags :: "u32 \<Rightarrow> u32" where
  "defined_caps_flags version =
     (if version = gfx_v8 then caps_thin_client OR caps_small_cache
      else if version = gfx_v8_1 then caps_thin_client OR caps_small_cache OR caps_avc420_enabled
      else if version \<in> {gfx_v10, gfx_v10_2} then caps_small_cache OR caps_avc_disabled
      else if version = gfx_v10_3 then caps_avc_disabled OR caps_avc_thin_client
      else if version \<in> {gfx_v10_4, gfx_v10_5, gfx_v10_6, gfx_v10_6_err}
      then caps_small_cache OR caps_avc_disabled OR caps_avc_thin_client
      else if version = gfx_v10_7
      then caps_small_cache OR caps_avc_disabled OR caps_avc_thin_client OR caps_scaledmap_disable
      else 0)"

definition make_capability_set :: "u32 \<Rightarrow> u32 \<Rightarrow> gfx_caps" where
  "make_capability_set version flags =
     (let caps = \<lparr>gc_version = version, gc_flags = flags, gc_unknown_data = []\<rparr> in
      if version = gfx_v10_1 then caps\<lparr>gc_flags := 0\<rparr>
      else if caps_data_length version = None then caps\<lparr>gc_unknown_data := w_u32le flags []\<rparr>
      else caps)"

definition valid_timestamp :: "u32 \<Rightarrow> bool" where
  "valid_timestamp timestamp \<longleftrightarrow>
     timestamp AND 0x3FF \<le> 999 \<and> drop_bit 10 timestamp AND 0x3F \<le> 59 \<and> drop_bit 16 timestamp AND 0x3F \<le> 59 \<and>
     drop_bit 22 timestamp \<le> 23"

definition make_timestamp :: "u32 \<Rightarrow> u32 \<Rightarrow> u32 \<Rightarrow> u32 \<Rightarrow> u32 option" where
  "make_timestamp hours minutes seconds milliseconds = do {
     wassert (hours \<le> 23 \<and> minutes \<le> 59 \<and> seconds \<le> 59 \<and> milliseconds \<le> 999);
     Some (push_bit 22 hours OR push_bit 16 minutes OR push_bit 10 seconds OR milliseconds)
   }"

datatype gfx_pdu =
    WireToSurface1 u16 u16 byte gfx_rect bytes
  | WireToSurface2 u16 u16 u32 byte bytes
  | DeleteEncodingContext u16 u32
  | SolidFill u16 gfx_color "gfx_rect list"
  | SurfaceToSurface u16 u16 gfx_rect "gfx_point list"
  | SurfaceToCache u16 u64 u16 gfx_rect
  | CacheToSurface u16 u16 "gfx_point list"
  | EvictCacheEntry u16
  | CreateSurface u16 u16 u16 byte
  | DeleteSurface u16
  | StartFrame u32 u32
  | EndFrame u32
  | FrameAcknowledge u32 u32 u32
  | ResetGraphics u32 u32 "gfx_monitor list"
  | MapSurfaceToOutput u16 u32 u32
  | CacheImportOffer "gfx_cache_meta list"
  | CacheImportReply "u16 list"
  | CapsAdvertise "gfx_caps list"
  | CapsConfirm gfx_caps
  | MapSurfaceToWindow u16 u64 u32 u32
  | QoeFrameAcknowledge u32 u32 u16 u16
  | MapSurfaceToScaledOutput u16 u32 u32 u32 u32
  | MapSurfaceToScaledWindow u16 u64 u32 u32 u32 u32

fun gfx_cmd_id :: "gfx_pdu \<Rightarrow> u16" where
  "gfx_cmd_id (WireToSurface1 _ _ _ _ _) = 0x0001"
| "gfx_cmd_id (WireToSurface2 _ _ _ _ _) = 0x0002"
| "gfx_cmd_id (DeleteEncodingContext _ _) = 0x0003"
| "gfx_cmd_id (SolidFill _ _ _) = 0x0004"
| "gfx_cmd_id (SurfaceToSurface _ _ _ _) = 0x0005"
| "gfx_cmd_id (SurfaceToCache _ _ _ _) = 0x0006"
| "gfx_cmd_id (CacheToSurface _ _ _) = 0x0007"
| "gfx_cmd_id (EvictCacheEntry _) = 0x0008"
| "gfx_cmd_id (CreateSurface _ _ _ _) = 0x0009"
| "gfx_cmd_id (DeleteSurface _) = 0x000A"
| "gfx_cmd_id (StartFrame _ _) = 0x000B"
| "gfx_cmd_id (EndFrame _) = 0x000C"
| "gfx_cmd_id (FrameAcknowledge _ _ _) = 0x000D"
| "gfx_cmd_id (ResetGraphics _ _ _) = 0x000E"
| "gfx_cmd_id (MapSurfaceToOutput _ _ _) = 0x000F"
| "gfx_cmd_id (CacheImportOffer _) = 0x0010"
| "gfx_cmd_id (CacheImportReply _) = 0x0011"
| "gfx_cmd_id (CapsAdvertise _) = 0x0012"
| "gfx_cmd_id (CapsConfirm _) = 0x0013"
| "gfx_cmd_id (MapSurfaceToWindow _ _ _ _) = 0x0015"
| "gfx_cmd_id (QoeFrameAcknowledge _ _ _ _) = 0x0016"
| "gfx_cmd_id (MapSurfaceToScaledOutput _ _ _ _ _) = 0x0017"
| "gfx_cmd_id (MapSurfaceToScaledWindow _ _ _ _ _ _) = 0x0018"

section \<open>Model: reading\<close>

text \<open>\<open>read_array\<close>: the elements must fit in the rest of the PDU before any of them is read.\<close>

definition read_array :: "nat \<Rightarrow> nat \<Rightarrow> 'a parser \<Rightarrow> 'a list parser" where
  "read_array count element_size read_one = pget rd_remaining (\<lambda>remaining. pget rd_offset (\<lambda>off.
     if count > remaining div element_size
     then pfail Truncated ''array extends past the end of the PDU'' off
     else pcount count read_one))"

definition read_rect16 :: "gfx_rect parser" where
  "read_rect16 = pget rd_offset (\<lambda>at.
     ptry rd_u16le (\<lambda>l. ptry rd_u16le (\<lambda>t. ptry rd_u16le (\<lambda>r. ptry rd_u16le (\<lambda>b.
       let rect = \<lparr>rc_left = l, rc_top = t, rc_right = r, rc_bottom = b\<rparr> in
       if rect_empty rect then pfail InvalidValue ''empty or inverted RDPGFX_RECT16'' at
       else pret rect)))))"

definition read_point16 :: "gfx_point parser" where
  "read_point16 = ptry rd_u16le (\<lambda>x. ptry rd_u16le (\<lambda>y. pret \<lparr>pt_x = x, pt_y = y\<rparr>))"

definition read_color32 :: "gfx_color parser" where
  "read_color32 = ptry rd_u8 (\<lambda>b. ptry rd_u8 (\<lambda>g. ptry rd_u8 (\<lambda>r. ptry rd_u8 (\<lambda>xa.
     pret \<lparr>co_b = b, co_g = g, co_r = r, co_xa = xa\<rparr>))))"

definition read_pixel_format :: "byte parser" where
  "read_pixel_format = pget rd_offset (\<lambda>at. ptry rd_u8 (\<lambda>f.
     if \<not> valid_pixel_format f then pfail InvalidValue ''unknown RDPGFX_PIXELFORMAT'' at else pret f))"

definition read_cache_slot :: "u16 parser" where
  "read_cache_slot = pget rd_offset (\<lambda>at. ptry rd_u16le (\<lambda>slot.
     if slot = 0 \<or> slot > gfx_max_cache_slots then pfail InvalidValue ''cacheSlot outside 1 to 25600'' at
     else pret slot))"

definition read_bitmap_data :: "bytes parser" where
  "read_bitmap_data = ptry rd_u32le (\<lambda>n. rd_bytes (unat n))"

definition read_gfx_monitor :: "gfx_monitor parser" where
  "read_gfx_monitor = ptry rd_u32le (\<lambda>l. ptry rd_u32le (\<lambda>t. ptry rd_u32le (\<lambda>r. ptry rd_u32le (\<lambda>b.
     ptry rd_u32le (\<lambda>flags.
       pret \<lparr>mo_left = l, mo_top = t, mo_right = r, mo_bottom = b, mo_flags = flags\<rparr>)))))"

definition read_capability_set_gfx :: "gfx_caps parser" where
  "read_capability_set_gfx = ptry rd_u32le (\<lambda>version. pget rd_offset (\<lambda>at. ptry rd_u32le (\<lambda>n.
     case caps_data_length version of
       Some expected \<Rightarrow>
         if unat n \<noteq> expected
         then pfail InvalidLength ''capsDataLength does not match the capability set version'' at
         else ptry (rd_sub (unat n)) (\<lambda>data.
           ptry (if version \<noteq> gfx_v10_1 then pwith data rd_u32le else pret 0) (\<lambda>flags.
           pret \<lparr>gc_version = version, gc_flags = flags, gc_unknown_data = []\<rparr>))
     | None \<Rightarrow>
         if unat n > gfx_max_unknown_caps_data_length
         then pfail LimitExceeded ''capsDataLength of an unknown capability set version'' at
         else ptry (rd_bytes (unat n)) (\<lambda>data.
           ptry (if length data \<ge> 4 then pwith (mk_reader data 0) rd_u32le else pret 0) (\<lambda>flags.
           pret \<lparr>gc_version = version, gc_flags = flags, gc_unknown_data = data\<rparr>)))))"

definition decode_wire_to_surface_1 :: "gfx_pdu parser" where
  "decode_wire_to_surface_1 = ptry rd_u16le (\<lambda>surface. ptry rd_u16le (\<lambda>codec_id. ptry read_pixel_format (\<lambda>f.
     ptry read_rect16 (\<lambda>dest. ptry read_bitmap_data (\<lambda>data.
     ptry (rd_expect_end ''RDPGFX_WIRE_TO_SURFACE_PDU_1 longer than its bitmapData'') (\<lambda>_.
     pret (WireToSurface1 surface codec_id f dest data)))))))"

definition decode_wire_to_surface_2 :: "gfx_pdu parser" where
  "decode_wire_to_surface_2 = ptry rd_u16le (\<lambda>surface. ptry rd_u16le (\<lambda>codec_id. ptry rd_u32le (\<lambda>ctx.
     ptry read_pixel_format (\<lambda>f. ptry read_bitmap_data (\<lambda>data.
     ptry (rd_expect_end ''RDPGFX_WIRE_TO_SURFACE_PDU_2 longer than its bitmapData'') (\<lambda>_.
     pret (WireToSurface2 surface codec_id ctx f data)))))))"

definition decode_delete_encoding_context :: "gfx_pdu parser" where
  "decode_delete_encoding_context = ptry rd_u16le (\<lambda>surface. ptry rd_u32le (\<lambda>ctx.
     ptry (rd_expect_end ''RDPGFX_DELETE_ENCODING_CONTEXT_PDU'') (\<lambda>_. pret (DeleteEncodingContext surface ctx))))"

definition decode_solid_fill :: "gfx_pdu parser" where
  "decode_solid_fill = ptry rd_u16le (\<lambda>surface. ptry read_color32 (\<lambda>pixel. ptry rd_u16le (\<lambda>count.
     ptry (read_array (unat count) gfx_rect16_size read_rect16) (\<lambda>rects.
     ptry (rd_expect_end ''RDPGFX_SOLIDFILL_PDU'') (\<lambda>_. pret (SolidFill surface pixel rects))))))"

definition decode_surface_to_surface :: "gfx_pdu parser" where
  "decode_surface_to_surface = ptry rd_u16le (\<lambda>src. ptry rd_u16le (\<lambda>dest. ptry read_rect16 (\<lambda>rect.
     ptry rd_u16le (\<lambda>count. ptry (read_array (unat count) gfx_point16_size read_point16) (\<lambda>pts.
     ptry (rd_expect_end ''RDPGFX_SURFACE_TO_SURFACE_PDU'') (\<lambda>_. pret (SurfaceToSurface src dest rect pts)))))))"

definition decode_surface_to_cache :: "gfx_pdu parser" where
  "decode_surface_to_cache = ptry rd_u16le (\<lambda>surface. ptry rd_u64le (\<lambda>key. ptry read_cache_slot (\<lambda>slot.
     ptry read_rect16 (\<lambda>rect.
     ptry (rd_expect_end ''RDPGFX_SURFACE_TO_CACHE_PDU'') (\<lambda>_. pret (SurfaceToCache surface key slot rect))))))"

definition decode_cache_to_surface :: "gfx_pdu parser" where
  "decode_cache_to_surface = ptry read_cache_slot (\<lambda>slot. ptry rd_u16le (\<lambda>surface. ptry rd_u16le (\<lambda>count.
     ptry (read_array (unat count) gfx_point16_size read_point16) (\<lambda>pts.
     ptry (rd_expect_end ''RDPGFX_CACHE_TO_SURFACE_PDU'') (\<lambda>_. pret (CacheToSurface slot surface pts))))))"

definition decode_evict_cache_entry :: "gfx_pdu parser" where
  "decode_evict_cache_entry = ptry read_cache_slot (\<lambda>slot.
     ptry (rd_expect_end ''RDPGFX_EVICT_CACHE_ENTRY_PDU'') (\<lambda>_. pret (EvictCacheEntry slot)))"

definition decode_create_surface :: "gfx_pdu parser" where
  "decode_create_surface = ptry rd_u16le (\<lambda>surface. pget rd_offset (\<lambda>at.
     ptry rd_u16le (\<lambda>w. ptry rd_u16le (\<lambda>h.
     if w = 0 \<or> h = 0 then pfail InvalidValue ''RDPGFX_CREATE_SURFACE_PDU with an empty surface'' at
     else ptry read_pixel_format (\<lambda>f.
       ptry (rd_expect_end ''RDPGFX_CREATE_SURFACE_PDU'') (\<lambda>_. pret (CreateSurface surface w h f)))))))"

definition decode_delete_surface :: "gfx_pdu parser" where
  "decode_delete_surface = ptry rd_u16le (\<lambda>surface.
     ptry (rd_expect_end ''RDPGFX_DELETE_SURFACE_PDU'') (\<lambda>_. pret (DeleteSurface surface)))"

definition decode_start_frame :: "gfx_pdu parser" where
  "decode_start_frame = ptry rd_u32le (\<lambda>timestamp. ptry rd_u32le (\<lambda>frame.
     ptry (rd_expect_end ''RDPGFX_START_FRAME_PDU'') (\<lambda>_. pret (StartFrame timestamp frame))))"

definition decode_end_frame :: "gfx_pdu parser" where
  "decode_end_frame = ptry rd_u32le (\<lambda>frame.
     ptry (rd_expect_end ''RDPGFX_END_FRAME_PDU'') (\<lambda>_. pret (EndFrame frame)))"

definition decode_gfx_frame_acknowledge :: "gfx_pdu parser" where
  "decode_gfx_frame_acknowledge = ptry rd_u32le (\<lambda>depth. ptry rd_u32le (\<lambda>frame. ptry rd_u32le (\<lambda>decoded.
     ptry (rd_expect_end ''RDPGFX_FRAME_ACKNOWLEDGE_PDU'') (\<lambda>_. pret (FrameAcknowledge depth frame decoded)))))"

definition decode_reset_graphics :: "gfx_pdu parser" where
  "decode_reset_graphics = pget (\<lambda>r. length (rd_data r)) (\<lambda>size_r.
     if size_r \<noteq> gfx_reset_graphics_pdu_size
     then pfail InvalidLength ''RDPGFX_RESET_GRAPHICS_PDU is not 340 bytes'' 0
     else pget rd_offset (\<lambda>at. ptry rd_u32le (\<lambda>w. ptry rd_u32le (\<lambda>h.
       if w = 0 \<or> h = 0 \<or> w > gfx_max_output_size \<or> h > gfx_max_output_size
       then pfail InvalidValue ''RDPGFX_RESET_GRAPHICS_PDU size outside 1 to 32766'' at
       else pget rd_offset (\<lambda>count_at. ptry rd_u32le (\<lambda>count.
         if unat count > gfx_max_monitors
         then pfail InvalidValue ''RDPGFX_RESET_GRAPHICS_PDU with more than 16 monitors'' count_at
         else ptry (read_array (unat count) gfx_monitor_def_size read_gfx_monitor) (\<lambda>monitors.
           pget rd_remaining (\<lambda>remaining. ptry (rd_skip remaining) (\<lambda>_.
           pret (ResetGraphics w h monitors))))))))))"

definition decode_map_surface_to_output :: "gfx_pdu parser" where
  "decode_map_surface_to_output = ptry rd_u16le (\<lambda>surface. ptry (rd_skip 2) (\<lambda>_.
     ptry rd_u32le (\<lambda>x. ptry rd_u32le (\<lambda>y.
     ptry (rd_expect_end ''RDPGFX_MAP_SURFACE_TO_OUTPUT_PDU'') (\<lambda>_. pret (MapSurfaceToOutput surface x y))))))"

definition read_cache_entry :: "gfx_cache_meta parser" where
  "read_cache_entry = ptry rd_u64le (\<lambda>key. ptry rd_u32le (\<lambda>n.
     pret \<lparr>ce_cache_key = key, ce_bitmap_length = n\<rparr>))"

definition decode_cache_import_offer :: "gfx_pdu parser" where
  "decode_cache_import_offer = pget rd_offset (\<lambda>at. ptry rd_u16le (\<lambda>count.
     if unat count > gfx_max_cache_import_entries then pfail InvalidValue ''cacheEntriesCount not below 5462'' at
     else ptry (read_array (unat count) gfx_cache_entry_size read_cache_entry) (\<lambda>entries.
       ptry (rd_expect_end ''RDPGFX_CACHE_IMPORT_OFFER_PDU'') (\<lambda>_. pret (CacheImportOffer entries)))))"

definition decode_cache_import_reply :: "gfx_pdu parser" where
  "decode_cache_import_reply = pget rd_offset (\<lambda>at. ptry rd_u16le (\<lambda>count.
     if unat count > gfx_max_cache_import_entries then pfail InvalidValue ''importedEntriesCount not below 5462'' at
     else ptry (read_array (unat count) gfx_cache_slot_size read_cache_slot) (\<lambda>slots.
       ptry (rd_expect_end ''RDPGFX_CACHE_IMPORT_REPLY_PDU'') (\<lambda>_. pret (CacheImportReply slots)))))"

text \<open>The loop over the sets looks for an earlier one of the same version.\<close>

fun version_repeated :: "gfx_caps list \<Rightarrow> gfx_caps list \<Rightarrow> bool" where
  "version_repeated seen [] = False"
| "version_repeated seen (s # ss) =
     (if list_ex (\<lambda>t. gc_version t = gc_version s) seen then True else version_repeated (seen @ [s]) ss)"

definition decode_caps_advertise :: "gfx_pdu parser" where
  "decode_caps_advertise = pget rd_offset (\<lambda>at. ptry rd_u16le (\<lambda>count.
     if count = 0 then pfail InvalidValue ''RDPGFX_CAPS_ADVERTISE_PDU without capability sets'' at
     else if unat count > gfx_max_caps_sets then pfail LimitExceeded ''capsSetCount'' at
     else ptry (read_array (unat count) gfx_caps_set_header_size read_capability_set_gfx) (\<lambda>sets.
       if version_repeated [] sets then pfail InvalidValue ''capability set version advertised twice'' at
       else ptry (rd_expect_end ''RDPGFX_CAPS_ADVERTISE_PDU'') (\<lambda>_. pret (CapsAdvertise sets)))))"

definition decode_caps_confirm :: "gfx_pdu parser" where
  "decode_caps_confirm = ptry read_capability_set_gfx (\<lambda>s.
     ptry (rd_expect_end ''RDPGFX_CAPS_CONFIRM_PDU'') (\<lambda>_. pret (CapsConfirm s)))"

definition decode_map_surface_to_window :: "gfx_pdu parser" where
  "decode_map_surface_to_window = ptry rd_u16le (\<lambda>surface. ptry rd_u64le (\<lambda>win. ptry rd_u32le (\<lambda>w. ptry rd_u32le (\<lambda>h.
     ptry (rd_expect_end ''RDPGFX_MAP_SURFACE_TO_WINDOW_PDU'') (\<lambda>_. pret (MapSurfaceToWindow surface win w h))))))"

definition decode_qoe_frame_acknowledge :: "gfx_pdu parser" where
  "decode_qoe_frame_acknowledge = ptry rd_u32le (\<lambda>frame. ptry rd_u32le (\<lambda>timestamp.
     ptry rd_u16le (\<lambda>se. ptry rd_u16le (\<lambda>edr.
     ptry (rd_expect_end ''RDPGFX_QOE_FRAME_ACKNOWLEDGE_PDU'') (\<lambda>_. pret (QoeFrameAcknowledge frame timestamp se edr))))))"

definition decode_map_surface_to_scaled_output :: "gfx_pdu parser" where
  "decode_map_surface_to_scaled_output = ptry rd_u16le (\<lambda>surface. ptry (rd_skip 2) (\<lambda>_.
     ptry rd_u32le (\<lambda>x. ptry rd_u32le (\<lambda>y. ptry rd_u32le (\<lambda>w. ptry rd_u32le (\<lambda>h.
     ptry (rd_expect_end ''RDPGFX_MAP_SURFACE_TO_SCALED_OUTPUT_PDU'') (\<lambda>_.
     pret (MapSurfaceToScaledOutput surface x y w h))))))))"

definition decode_map_surface_to_scaled_window :: "gfx_pdu parser" where
  "decode_map_surface_to_scaled_window = ptry rd_u16le (\<lambda>surface. ptry rd_u64le (\<lambda>win.
     ptry rd_u32le (\<lambda>mw. ptry rd_u32le (\<lambda>mh. ptry rd_u32le (\<lambda>w. ptry rd_u32le (\<lambda>h.
     ptry (rd_expect_end ''RDPGFX_MAP_SURFACE_TO_SCALED_WINDOW_PDU'') (\<lambda>_.
     pret (MapSurfaceToScaledWindow surface win mw mh w h))))))))"

definition decode_gfx_body :: "u16 \<Rightarrow> gfx_pdu parser" where
  "decode_gfx_body command =
     (if command = 0x0001 then decode_wire_to_surface_1
      else if command = 0x0002 then decode_wire_to_surface_2
      else if command = 0x0003 then decode_delete_encoding_context
      else if command = 0x0004 then decode_solid_fill
      else if command = 0x0005 then decode_surface_to_surface
      else if command = 0x0006 then decode_surface_to_cache
      else if command = 0x0007 then decode_cache_to_surface
      else if command = 0x0008 then decode_evict_cache_entry
      else if command = 0x0009 then decode_create_surface
      else if command = 0x000A then decode_delete_surface
      else if command = 0x000B then decode_start_frame
      else if command = 0x000C then decode_end_frame
      else if command = 0x000D then decode_gfx_frame_acknowledge
      else if command = 0x000E then decode_reset_graphics
      else if command = 0x000F then decode_map_surface_to_output
      else if command = 0x0010 then decode_cache_import_offer
      else if command = 0x0011 then decode_cache_import_reply
      else if command = 0x0012 then decode_caps_advertise
      else if command = 0x0013 then decode_caps_confirm
      else if command = 0x0015 then decode_map_surface_to_window
      else if command = 0x0016 then decode_qoe_frame_acknowledge
      else if command = 0x0017 then decode_map_surface_to_scaled_output
      else if command = 0x0018 then decode_map_surface_to_scaled_window
      else pfail Unsupported ''unknown RDPGFX cmdId'' 0)"

definition decode_gfx_pdu :: "bytes \<Rightarrow> gfx_pdu result" where
  "decode_gfx_pdu bs = fst (ptry rd_u16le (\<lambda>command. ptry (rd_skip 2) (\<lambda>_. pget rd_offset (\<lambda>at. ptry rd_u32le (\<lambda>n.
     if unat n \<noteq> length bs then pfail InvalidLength ''pduLength does not match the PDU size'' at
     else decode_gfx_body command)))) (mk_reader bs 0))"

definition frame_pdu :: "bytes \<Rightarrow> nat \<Rightarrow> nat option result" where
  "frame_pdu stream max_size =
     (if length stream < gfx_header_size then Inr None
      else fst (ptry (rd_skip 4) (\<lambda>_. pget rd_offset (\<lambda>at. ptry rd_u32le (\<lambda>n.
        if unat n < gfx_header_size then pfail InvalidLength ''pduLength below the RDPGFX_HEADER size'' at
        else if unat n > max_size then pfail LimitExceeded ''RDPGFX PDU above the size limit'' at
        else if unat n > length stream then pret None
        else pret (Some (unat n))))) (mk_reader stream 0)))"

section \<open>Model: writing\<close>

definition write_rect16 :: "gfx_rect \<Rightarrow> writer \<Rightarrow> writer" where
  "write_rect16 r w = w_u16le (rc_bottom r) (w_u16le (rc_right r) (w_u16le (rc_top r) (w_u16le (rc_left r) w)))"

definition write_point16 :: "gfx_point \<Rightarrow> writer \<Rightarrow> writer" where
  "write_point16 p w = w_u16le (pt_y p) (w_u16le (pt_x p) w)"

definition write_color32 :: "gfx_color \<Rightarrow> writer \<Rightarrow> writer" where
  "write_color32 c w = w_u8 (co_xa c) (w_u8 (co_r c) (w_u8 (co_g c) (w_u8 (co_b c) w)))"

definition checked_count :: "nat \<Rightarrow> u16 option" where
  "checked_count count = do { wassert (count \<le> 0xFFFF); Some (of_nat count) }"

definition checked_length :: "nat \<Rightarrow> u32 option" where
  "checked_length n = do { wassert (n \<le> 0xFFFFFFFF); Some (of_nat n) }"

definition write_bitmap_data :: "bytes \<Rightarrow> writer \<Rightarrow> writer option" where
  "write_bitmap_data data w = do {
     n \<leftarrow> checked_length (length data);
     Some (w_bytes data (w_u32le n w))
   }"

definition write_gfx_monitor :: "gfx_monitor \<Rightarrow> writer \<Rightarrow> writer" where
  "write_gfx_monitor m w = w_u32le (mo_flags m) (w_u32le (mo_bottom m) (w_u32le (mo_right m)
     (w_u32le (mo_top m) (w_u32le (mo_left m) w))))"

definition write_capability_set_gfx :: "gfx_caps \<Rightarrow> writer \<Rightarrow> writer option" where
  "write_capability_set_gfx s w = (case caps_data_length (gc_version s) of
     Some n \<Rightarrow>
       let w = w_u32le (of_nat n) (w_u32le (gc_version s) w) in
       Some (if gc_version s = gfx_v10_1 then w_zeros 16 w else w_u32le (gc_flags s) w)
   | None \<Rightarrow> do {
       n \<leftarrow> checked_length (length (gc_unknown_data s));
       Some (w_bytes (gc_unknown_data s) (w_u32le n (w_u32le (gc_version s) w)))
     })"

fun write_capability_sets_gfx :: "gfx_caps list \<Rightarrow> writer \<Rightarrow> writer option" where
  "write_capability_sets_gfx [] w = Some w"
| "write_capability_sets_gfx (s # ss) w = do {
     w \<leftarrow> write_capability_set_gfx s w;
     write_capability_sets_gfx ss w
   }"

fun encode_gfx_body :: "gfx_pdu \<Rightarrow> writer \<Rightarrow> writer option" where
  "encode_gfx_body (WireToSurface1 surface codec_id f dest data) w =
     write_bitmap_data data (write_rect16 dest (w_u8 f (w_u16le codec_id (w_u16le surface w))))"
| "encode_gfx_body (WireToSurface2 surface codec_id ctx f data) w =
     write_bitmap_data data (w_u8 f (w_u32le ctx (w_u16le codec_id (w_u16le surface w))))"
| "encode_gfx_body (DeleteEncodingContext surface ctx) w = Some (w_u32le ctx (w_u16le surface w))"
| "encode_gfx_body (SolidFill surface pixel rects) w = do {
     n \<leftarrow> checked_count (length rects);
     Some (fold write_rect16 rects (w_u16le n (write_color32 pixel (w_u16le surface w))))
   }"
| "encode_gfx_body (SurfaceToSurface src dest rect pts) w = do {
     n \<leftarrow> checked_count (length pts);
     Some (fold write_point16 pts (w_u16le n (write_rect16 rect (w_u16le dest (w_u16le src w)))))
   }"
| "encode_gfx_body (SurfaceToCache surface key slot rect) w =
     Some (write_rect16 rect (w_u16le slot (w_u64le key (w_u16le surface w))))"
| "encode_gfx_body (CacheToSurface slot surface pts) w = do {
     n \<leftarrow> checked_count (length pts);
     Some (fold write_point16 pts (w_u16le n (w_u16le surface (w_u16le slot w))))
   }"
| "encode_gfx_body (EvictCacheEntry slot) w = Some (w_u16le slot w)"
| "encode_gfx_body (CreateSurface surface wd ht f) w = Some (w_u8 f (w_u16le ht (w_u16le wd (w_u16le surface w))))"
| "encode_gfx_body (DeleteSurface surface) w = Some (w_u16le surface w)"
| "encode_gfx_body (StartFrame timestamp frame) w = Some (w_u32le frame (w_u32le timestamp w))"
| "encode_gfx_body (EndFrame frame) w = Some (w_u32le frame w)"
| "encode_gfx_body (FrameAcknowledge depth frame decoded) w =
     Some (w_u32le decoded (w_u32le frame (w_u32le depth w)))"
| "encode_gfx_body (ResetGraphics wd ht monitors) w = do {
     wassert (length monitors \<le> gfx_max_monitors);
     let w = fold write_gfx_monitor monitors (w_u32le (of_nat (length monitors)) (w_u32le ht (w_u32le wd w)));
     Some (w_zeros (gfx_reset_graphics_pdu_size - gfx_header_size - gfx_reset_graphics_fixed_size
       - length monitors * gfx_monitor_def_size) w)
   }"
| "encode_gfx_body (MapSurfaceToOutput surface x y) w = Some (w_u32le y (w_u32le x (w_u16le 0 (w_u16le surface w))))"
| "encode_gfx_body (CacheImportOffer entries) w = do {
     wassert (length entries \<le> gfx_max_cache_import_entries);
     n \<leftarrow> checked_count (length entries);
     Some (fold (\<lambda>e w. w_u32le (ce_bitmap_length e) (w_u64le (ce_cache_key e) w)) entries (w_u16le n w))
   }"
| "encode_gfx_body (CacheImportReply slots) w = do {
     wassert (length slots \<le> gfx_max_cache_import_entries);
     n \<leftarrow> checked_count (length slots);
     Some (fold w_u16le slots (w_u16le n w))
   }"
| "encode_gfx_body (CapsAdvertise sets) w = do {
     n \<leftarrow> checked_count (length sets);
     write_capability_sets_gfx sets (w_u16le n w)
   }"
| "encode_gfx_body (CapsConfirm s) w = write_capability_set_gfx s w"
| "encode_gfx_body (MapSurfaceToWindow surface win wd ht) w =
     Some (w_u32le ht (w_u32le wd (w_u64le win (w_u16le surface w))))"
| "encode_gfx_body (QoeFrameAcknowledge frame timestamp se edr) w =
     Some (w_u16le edr (w_u16le se (w_u32le timestamp (w_u32le frame w))))"
| "encode_gfx_body (MapSurfaceToScaledOutput surface x y wd ht) w =
     Some (w_u32le ht (w_u32le wd (w_u32le y (w_u32le x (w_u16le 0 (w_u16le surface w))))))"
| "encode_gfx_body (MapSurfaceToScaledWindow surface win mw mh wd ht) w =
     Some (w_u32le ht (w_u32le wd (w_u32le mh (w_u32le mw (w_u64le win (w_u16le surface w))))))"

definition encode_gfx_pdu :: "gfx_pdu \<Rightarrow> writer \<Rightarrow> writer option" where
  "encode_gfx_pdu pdu w = do {
     let start = length w;
     w \<leftarrow> encode_gfx_body pdu (w_u32le 0 (w_u16le 0 (w_u16le (gfx_cmd_id pdu) w)));
     n \<leftarrow> checked_length (length w - start);
     w_patch_u32le (start + 4) n w
   }"

definition encode_gfx :: "gfx_pdu \<Rightarrow> bytes option" where
  "encode_gfx pdu = encode_gfx_pdu pdu []"

section \<open>Encodings\<close>

definition rect_enc :: "gfx_rect \<Rightarrow> bytes" where
  "rect_enc r = le_bytes 2 (rc_left r) @ le_bytes 2 (rc_top r) @ le_bytes 2 (rc_right r) @ le_bytes 2 (rc_bottom r)"

definition point_enc :: "gfx_point \<Rightarrow> bytes" where
  "point_enc p = le_bytes 2 (pt_x p) @ le_bytes 2 (pt_y p)"

definition gfx_color_enc :: "gfx_color \<Rightarrow> bytes" where
  "gfx_color_enc c = [co_b c, co_g c, co_r c, co_xa c]"

definition gfx_monitor_enc :: "gfx_monitor \<Rightarrow> bytes" where
  "gfx_monitor_enc m = le_bytes 4 (mo_left m) @ le_bytes 4 (mo_top m) @ le_bytes 4 (mo_right m) @
     le_bytes 4 (mo_bottom m) @ le_bytes 4 (mo_flags m)"

definition cache_meta_enc :: "gfx_cache_meta \<Rightarrow> bytes" where
  "cache_meta_enc e = le_bytes 8 (ce_cache_key e) @ le_bytes 4 (ce_bitmap_length e)"

definition caps_set_enc :: "gfx_caps \<Rightarrow> bytes" where
  "caps_set_enc s = le_bytes 4 (gc_version s) @
     (case caps_data_length (gc_version s) of
        Some n \<Rightarrow> le_bytes 4 (of_nat n :: u32) @
          (if gc_version s = gfx_v10_1 then replicate 16 0 else le_bytes 4 (gc_flags s))
      | None \<Rightarrow> le_bytes 4 (of_nat (length (gc_unknown_data s)) :: u32) @ gc_unknown_data s)"

definition bitmap_enc :: "bytes \<Rightarrow> bytes" where
  "bitmap_enc data = le_bytes 4 (of_nat (length data) :: u32) @ data"

definition gfx_count_enc :: "('a \<Rightarrow> bytes) \<Rightarrow> 'a list \<Rightarrow> bytes" where
  "gfx_count_enc enc xs = le_bytes 2 (of_nat (length xs) :: u16) @ concat (map enc xs)"

lemma gfx_enc_lengths [simp]:
  "length (rect_enc r) = 8" "length (point_enc p) = 4" "length (gfx_color_enc c) = 4" "length (gfx_monitor_enc m) = 20"
  "length (cache_meta_enc e) = 12" "length (bitmap_enc data) = 4 + length data"
  by (simp_all add: rect_enc_def point_enc_def gfx_color_enc_def gfx_monitor_enc_def cache_meta_enc_def bitmap_enc_def)

lemma gfx_writes [wr_simps]:
  "write_rect16 r w = w @ rect_enc r" "write_point16 p w = w @ point_enc p" "write_color32 c w = w @ gfx_color_enc c"
  "write_gfx_monitor m w = w @ gfx_monitor_enc m"
  by (simp_all add: write_rect16_def write_point16_def write_color32_def write_gfx_monitor_def wr_simps
      rect_enc_def point_enc_def gfx_color_enc_def gfx_monitor_enc_def)

lemma gfx_fold_write:
  "(\<And>x w. wr x w = w @ enc x) \<Longrightarrow> fold wr xs w = w @ concat (map enc xs)"
  by (induction xs arbitrary: w) auto

lemma gfx_folds [wr_simps]:
  "fold write_rect16 rs w = w @ concat (map rect_enc rs)" "fold write_point16 ps w = w @ concat (map point_enc ps)"
  "fold write_gfx_monitor ms w = w @ concat (map gfx_monitor_enc ms)"
  "fold w_u16le vs w = w @ concat (map (le_bytes 2) vs)"
  "fold (\<lambda>e w. w @ le_bytes 8 (ce_cache_key e) @ le_bytes 4 (ce_bitmap_length e)) es w = w @ concat (map cache_meta_enc es)"
  by (rule gfx_fold_write, simp add: wr_simps cache_meta_enc_def)+

lemma write_bitmap_data_enc: "length data \<le> 0xFFFFFFFF \<Longrightarrow> write_bitmap_data data w = Some (w @ bitmap_enc data)"
  by (simp add: write_bitmap_data_def checked_length_def wassert_def wr_simps bitmap_enc_def)

definition caps_set_ok :: "gfx_caps \<Rightarrow> bool" where
  "caps_set_ok s \<longleftrightarrow> (if caps_data_length (gc_version s) = None
     then length (gc_unknown_data s) \<le> gfx_max_unknown_caps_data_length \<and>
       gc_flags s = (if length (gc_unknown_data s) \<ge> 4 then le_value (take 4 (gc_unknown_data s)) else 0)
     else gc_unknown_data s = [] \<and> (gc_version s = gfx_v10_1 \<longrightarrow> gc_flags s = 0))"

lemma write_capability_set_gfx_enc:
  "caps_set_ok s \<Longrightarrow> write_capability_set_gfx s w = Some (w @ caps_set_enc s)"
  by (auto simp: write_capability_set_gfx_def caps_set_ok_def caps_set_enc_def checked_length_def wassert_def
      wr_simps gfx_constants Let_def split: option.splits if_splits)

lemma write_capability_sets_gfx_enc:
  "list_all caps_set_ok ss \<Longrightarrow> write_capability_sets_gfx ss w = Some (w @ concat (map caps_set_enc ss))"
  by (induction ss arbitrary: w) (simp_all add: write_capability_set_gfx_enc)

text \<open>What a PDU must satisfy for its decoder to accept it again.\<close>

definition cache_slot_ok :: "u16 \<Rightarrow> bool" where
  "cache_slot_ok slot \<longleftrightarrow> slot \<noteq> 0 \<and> slot \<le> gfx_max_cache_slots"

definition rect_ok :: "gfx_rect \<Rightarrow> bool" where
  "rect_ok r \<longleftrightarrow> \<not> rect_empty r"

fun gfx_fields_ok :: "gfx_pdu \<Rightarrow> bool" where
  "gfx_fields_ok (WireToSurface1 _ _ f dest data) \<longleftrightarrow> valid_pixel_format f \<and> rect_ok dest"
| "gfx_fields_ok (WireToSurface2 _ _ _ f data) \<longleftrightarrow> valid_pixel_format f"
| "gfx_fields_ok (SolidFill _ _ rects) \<longleftrightarrow> list_all rect_ok rects \<and> length rects \<le> 0xFFFF"
| "gfx_fields_ok (SurfaceToSurface _ _ rect pts) \<longleftrightarrow> rect_ok rect \<and> length pts \<le> 0xFFFF"
| "gfx_fields_ok (SurfaceToCache _ _ slot rect) \<longleftrightarrow> cache_slot_ok slot \<and> rect_ok rect"
| "gfx_fields_ok (CacheToSurface slot _ pts) \<longleftrightarrow> cache_slot_ok slot \<and> length pts \<le> 0xFFFF"
| "gfx_fields_ok (EvictCacheEntry slot) \<longleftrightarrow> cache_slot_ok slot"
| "gfx_fields_ok (CreateSurface _ w h f) \<longleftrightarrow> w \<noteq> 0 \<and> h \<noteq> 0 \<and> valid_pixel_format f"
| "gfx_fields_ok (ResetGraphics w h monitors) \<longleftrightarrow>
     w \<noteq> 0 \<and> h \<noteq> 0 \<and> w \<le> gfx_max_output_size \<and> h \<le> gfx_max_output_size \<and> length monitors \<le> gfx_max_monitors"
| "gfx_fields_ok (CacheImportOffer entries) \<longleftrightarrow> length entries \<le> gfx_max_cache_import_entries"
| "gfx_fields_ok (CacheImportReply slots) \<longleftrightarrow>
     length slots \<le> gfx_max_cache_import_entries \<and> list_all cache_slot_ok slots"
| "gfx_fields_ok (CapsAdvertise sets) \<longleftrightarrow>
     sets \<noteq> [] \<and> length sets \<le> gfx_max_caps_sets \<and> list_all caps_set_ok sets \<and> distinct (map gc_version sets)"
| "gfx_fields_ok (CapsConfirm s) \<longleftrightarrow> caps_set_ok s"
| "gfx_fields_ok _ \<longleftrightarrow> True"

fun gfx_body_enc :: "gfx_pdu \<Rightarrow> bytes" where
  "gfx_body_enc (WireToSurface1 surface codec_id f dest data) =
     le_bytes 2 surface @ le_bytes 2 codec_id @ [f] @ rect_enc dest @ bitmap_enc data"
| "gfx_body_enc (WireToSurface2 surface codec_id ctx f data) =
     le_bytes 2 surface @ le_bytes 2 codec_id @ le_bytes 4 ctx @ [f] @ bitmap_enc data"
| "gfx_body_enc (DeleteEncodingContext surface ctx) = le_bytes 2 surface @ le_bytes 4 ctx"
| "gfx_body_enc (SolidFill surface pixel rects) = le_bytes 2 surface @ gfx_color_enc pixel @ gfx_count_enc rect_enc rects"
| "gfx_body_enc (SurfaceToSurface src dest rect pts) =
     le_bytes 2 src @ le_bytes 2 dest @ rect_enc rect @ gfx_count_enc point_enc pts"
| "gfx_body_enc (SurfaceToCache surface key slot rect) =
     le_bytes 2 surface @ le_bytes 8 key @ le_bytes 2 slot @ rect_enc rect"
| "gfx_body_enc (CacheToSurface slot surface pts) =
     le_bytes 2 slot @ le_bytes 2 surface @ gfx_count_enc point_enc pts"
| "gfx_body_enc (EvictCacheEntry slot) = le_bytes 2 slot"
| "gfx_body_enc (CreateSurface surface w h f) = le_bytes 2 surface @ le_bytes 2 w @ le_bytes 2 h @ [f]"
| "gfx_body_enc (DeleteSurface surface) = le_bytes 2 surface"
| "gfx_body_enc (StartFrame timestamp frame) = le_bytes 4 timestamp @ le_bytes 4 frame"
| "gfx_body_enc (EndFrame frame) = le_bytes 4 frame"
| "gfx_body_enc (FrameAcknowledge depth frame decoded) = le_bytes 4 depth @ le_bytes 4 frame @ le_bytes 4 decoded"
| "gfx_body_enc (ResetGraphics w h monitors) =
     le_bytes 4 w @ le_bytes 4 h @ le_bytes 4 (of_nat (length monitors) :: u32) @ concat (map gfx_monitor_enc monitors) @
     replicate (320 - 20 * length monitors) 0"
| "gfx_body_enc (MapSurfaceToOutput surface x y) = le_bytes 2 surface @ le_bytes 2 (0 :: u16) @ le_bytes 4 x @ le_bytes 4 y"
| "gfx_body_enc (CacheImportOffer entries) = gfx_count_enc cache_meta_enc entries"
| "gfx_body_enc (CacheImportReply slots) = gfx_count_enc (le_bytes 2) slots"
| "gfx_body_enc (CapsAdvertise sets) = gfx_count_enc caps_set_enc sets"
| "gfx_body_enc (CapsConfirm s) = caps_set_enc s"
| "gfx_body_enc (MapSurfaceToWindow surface win w h) = le_bytes 2 surface @ le_bytes 8 win @ le_bytes 4 w @ le_bytes 4 h"
| "gfx_body_enc (QoeFrameAcknowledge frame timestamp se edr) =
     le_bytes 4 frame @ le_bytes 4 timestamp @ le_bytes 2 se @ le_bytes 2 edr"
| "gfx_body_enc (MapSurfaceToScaledOutput surface x y w h) =
     le_bytes 2 surface @ le_bytes 2 (0 :: u16) @ le_bytes 4 x @ le_bytes 4 y @ le_bytes 4 w @ le_bytes 4 h"
| "gfx_body_enc (MapSurfaceToScaledWindow surface win mw mh w h) =
     le_bytes 2 surface @ le_bytes 8 win @ le_bytes 4 mw @ le_bytes 4 mh @ le_bytes 4 w @ le_bytes 4 h"

definition gfx_pdu_enc :: "gfx_pdu \<Rightarrow> bytes" where
  "gfx_pdu_enc pdu = le_bytes 2 (gfx_cmd_id pdu) @ le_bytes 2 (0 :: u16) @
     le_bytes 4 (of_nat (8 + length (gfx_body_enc pdu)) :: u32) @ gfx_body_enc pdu"

text \<open>Well-formed: acceptable fields, and a length that fits the header.\<close>

definition gfx_ok :: "gfx_pdu \<Rightarrow> bool" where
  "gfx_ok pdu \<longleftrightarrow> gfx_fields_ok pdu \<and> length (gfx_pdu_enc pdu) \<le> 0xFFFFFFFF"

lemma length_gfx_pdu_enc [simp]: "length (gfx_pdu_enc pdu) = 8 + length (gfx_body_enc pdu)"
  by (simp add: gfx_pdu_enc_def)

lemma encode_gfx_body_enc:
  assumes "gfx_ok pdu"
  shows "encode_gfx_body pdu w = Some (w @ gfx_body_enc pdu)"
  using assms
  by (cases pdu) (simp_all add: gfx_ok_def wr_simps write_bitmap_data_enc checked_count_def wassert_def
      gfx_count_enc_def gfx_constants write_capability_sets_gfx_enc write_capability_set_gfx_enc Let_def mult.commute)

lemma encode_gfx_pdu_enc: "gfx_ok pdu \<Longrightarrow> encode_gfx_pdu pdu w = Some (w @ gfx_pdu_enc pdu)"
  using encode_gfx_body_enc [of pdu "w @ le_bytes 2 (gfx_cmd_id pdu) @ le_bytes 2 (0 :: u16) @ le_bytes 4 (0 :: u32)"]
  by (simp add: encode_gfx_pdu_def wr_simps w_patch_u32le_def w_patch_le_eq checked_length_def wassert_def
      gfx_ok_def gfx_pdu_enc_def)

section \<open>Reading back\<close>

lemma read_elements [rd_simps]:
  "rd_rest r = rect_enc x @ ys \<Longrightarrow> rect_ok x \<Longrightarrow> read_rect16 r = (Inr x, rd_advance 8 r)"
  "rd_rest r = point_enc p @ ys \<Longrightarrow> read_point16 r = (Inr p, rd_advance 4 r)"
  "rd_rest r = gfx_color_enc c @ ys \<Longrightarrow> read_color32 r = (Inr c, rd_advance 4 r)"
  "rd_rest r = gfx_monitor_enc m @ ys \<Longrightarrow> read_gfx_monitor r = (Inr m, rd_advance 20 r)"
  "rd_rest r = cache_meta_enc e @ ys \<Longrightarrow> read_cache_entry r = (Inr e, rd_advance 12 r)"
  by (simp_all add: read_rect16_def read_point16_def read_color32_def read_gfx_monitor_def read_cache_entry_def
      rect_enc_def point_enc_def gfx_color_enc_def gfx_monitor_enc_def cache_meta_enc_def rect_ok_def rect_empty_def rd_simps Let_def)

lemma read_checked_fields [rd_simps]:
  "rd_rest r = f # ys \<Longrightarrow> valid_pixel_format f \<Longrightarrow> read_pixel_format r = (Inr f, rd_advance 1 r)"
  "rd_rest r = le_bytes 2 slot @ ys \<Longrightarrow> cache_slot_ok slot \<Longrightarrow> read_cache_slot r = (Inr slot, rd_advance 2 r)"
  by (simp_all add: read_pixel_format_def read_cache_slot_def cache_slot_ok_def rd_simps not_less)

lemma read_bitmap_data_enc [rd_simps]:
  "rd_rest r = bitmap_enc data @ ys \<Longrightarrow> length data \<le> 0xFFFFFFFF \<Longrightarrow>
   read_bitmap_data r = (Inr data, rd_advance (4 + length data) r)"
  by (simp add: read_bitmap_data_def bitmap_enc_def rd_simps unsigned_of_nat take_bit_nat_eq_self)

lemma caps_data_length_cases: "caps_data_length v = Some n \<Longrightarrow> if v = gfx_v10_1 then n = 16 else n = 4"
  by (auto simp: caps_data_length_def split: if_splits)

lemma length_caps_set_enc:
  "length (caps_set_enc s) = 8 + (case caps_data_length (gc_version s) of None \<Rightarrow> length (gc_unknown_data s) | Some n \<Rightarrow> n)"
  by (auto simp: caps_set_enc_def split: option.split dest!: caps_data_length_cases)

lemma read_capability_set_gfx_enc:
  assumes "rd_rest r = caps_set_enc s @ ys" "caps_set_ok s"
  shows "read_capability_set_gfx r = (Inr s, rd_advance (length (caps_set_enc s)) r)"
proof (cases "caps_data_length (gc_version s)")
  case (Some n)
  then show ?thesis
    using assms caps_data_length_cases [OF Some]
    by (auto simp: read_capability_set_gfx_def length_caps_set_enc caps_set_enc_def caps_set_ok_def rd_simps)
next
  case None
  then show ?thesis
    using assms
    by (auto simp: read_capability_set_gfx_def length_caps_set_enc caps_set_enc_def caps_set_ok_def rd_simps
        rd_u32le_def rd_le_def rd_bytes_ok unsigned_of_nat take_bit_nat_eq_self gfx_constants)
qed

lemma read_array_enc:
  assumes "rd_wf r" "rd_rest r = concat (map enc xs) @ ys" "n = length xs" "0 < k"
    and "\<And>x. x \<in> set xs \<Longrightarrow> k \<le> length (enc x)"
    and "\<And>x s zs. x \<in> set xs \<Longrightarrow> rd_wf s \<Longrightarrow> rd_rest s = enc x @ zs \<Longrightarrow> p s = (Inr x, rd_advance (length (enc x)) s)"
  shows "read_array n k p r = (Inr xs, rd_advance (length (concat (map enc xs))) r)"
proof -
  have "length xs * k \<le> length (concat (map enc xs))"
    using assms(5) by (induction xs) (simp_all add: add_mono)
  then have "n \<le> rd_remaining r div k"
    using assms(2-4) by (simp add: rd_remaining_rest less_eq_div_iff_mult_less_eq)
  moreover have "pcount n p r = (Inr xs, rd_advance (length (concat (map enc xs))) r)"
    by (rule pcount_concat) (use assms in auto)
  ultimately show ?thesis by (simp add: read_array_def pget_def)
qed

lemma read_arrays [rd_simps]:
  "rd_wf r \<Longrightarrow> rd_rest r = concat (map rect_enc rs) @ ys \<Longrightarrow> n = length rs \<Longrightarrow> list_all rect_ok rs \<Longrightarrow>
   read_array n gfx_rect16_size read_rect16 r = (Inr rs, rd_advance (length (concat (map rect_enc rs))) r)"
  "rd_wf r \<Longrightarrow> rd_rest r = concat (map point_enc ps) @ ys \<Longrightarrow> n = length ps \<Longrightarrow>
   read_array n gfx_point16_size read_point16 r = (Inr ps, rd_advance (length (concat (map point_enc ps))) r)"
  "rd_wf r \<Longrightarrow> rd_rest r = concat (map gfx_monitor_enc ms) @ ys \<Longrightarrow> n = length ms \<Longrightarrow>
   read_array n gfx_monitor_def_size read_gfx_monitor r = (Inr ms, rd_advance (length (concat (map gfx_monitor_enc ms))) r)"
  "rd_wf r \<Longrightarrow> rd_rest r = concat (map cache_meta_enc es) @ ys \<Longrightarrow> n = length es \<Longrightarrow>
   read_array n gfx_cache_entry_size read_cache_entry r = (Inr es, rd_advance (length (concat (map cache_meta_enc es))) r)"
  "rd_wf r \<Longrightarrow> rd_rest r = concat (map (le_bytes 2) vs) @ ys \<Longrightarrow> n = length vs \<Longrightarrow> list_all cache_slot_ok vs \<Longrightarrow>
   read_array n gfx_cache_slot_size read_cache_slot r = (Inr vs, rd_advance (length (concat (map (le_bytes 2) vs))) r)"
  "rd_wf r \<Longrightarrow> rd_rest r = concat (map caps_set_enc ss) @ ys \<Longrightarrow> n = length ss \<Longrightarrow> list_all caps_set_ok ss \<Longrightarrow>
   read_array n gfx_caps_set_header_size read_capability_set_gfx r =
     (Inr ss, rd_advance (length (concat (map caps_set_enc ss))) r)"
  by (rule read_array_enc; auto simp: gfx_constants rd_simps list_all_iff length_caps_set_enc read_capability_set_gfx_enc)+

lemma version_repeated_iff:
  "version_repeated seen ss \<longleftrightarrow> \<not> distinct (map gc_version ss) \<or> gc_version ` set seen \<inter> gc_version ` set ss \<noteq> {}"
  by (induction ss arbitrary: seen) (auto simp: list_ex_iff rev_image_eqI)

lemma unat_of_count [simp]: "n \<le> 0xFFFF \<Longrightarrow> unat (of_nat n :: u16) = n"
  by (simp add: unsigned_of_nat take_bit_nat_eq_self)

lemma count_neq_0 [simp]: "n \<noteq> 0 \<Longrightarrow> n \<le> 0xFFFF \<Longrightarrow> (of_nat n :: u16) \<noteq> 0"
  using unat_of_count [of n] by (intro notI) simp

definition gfx_reads :: "gfx_pdu \<Rightarrow> gfx_pdu parser \<Rightarrow> bool" where
  "gfx_reads pdu p \<longleftrightarrow> (\<forall>r. rd_wf r \<longrightarrow> rd_rest r = gfx_body_enc pdu \<longrightarrow>
     length (rd_data r) = 8 + length (gfx_body_enc pdu) \<longrightarrow> fst (p r) = Inr pdu)"

lemmas gfx_decoders =
  decode_wire_to_surface_1_def decode_wire_to_surface_2_def decode_delete_encoding_context_def decode_solid_fill_def
  decode_surface_to_surface_def decode_surface_to_cache_def decode_cache_to_surface_def decode_evict_cache_entry_def
  decode_create_surface_def decode_delete_surface_def decode_start_frame_def decode_end_frame_def
  decode_gfx_frame_acknowledge_def decode_map_surface_to_output_def decode_cache_import_offer_def
  decode_cache_import_reply_def decode_caps_advertise_def decode_caps_confirm_def decode_map_surface_to_window_def
  decode_qoe_frame_acknowledge_def decode_map_surface_to_scaled_output_def decode_map_surface_to_scaled_window_def

lemmas read_elements_end =
  read_elements [where ys = "[]", simplified] read_checked_fields [where ys = "[]", simplified]
  read_bitmap_data_enc [where ys = "[]", simplified] read_capability_set_gfx_enc [where ys = "[]", simplified]
  read_arrays [where ys = "[]", simplified]

lemma decode_reset_graphics_enc:
  assumes "gfx_fields_ok (ResetGraphics w h ms)"
  shows "gfx_reads (ResetGraphics w h ms) decode_reset_graphics"
proof -
  have len: "length (concat (map gfx_monitor_enc ms)) = 20 * length ms" by (induction ms) auto
  have "unat (of_nat (length ms) :: u32) = length ms"
    using assms by (simp add: unsigned_of_nat take_bit_nat_eq_self gfx_constants)
  then show ?thesis
    using assms
    by (auto simp: gfx_reads_def decode_reset_graphics_def rd_simps gfx_reset_graphics_pdu_size_def
        gfx_max_monitors_def gfx_max_output_size_def len rd_remaining_rest not_less)
qed

lemma decode_gfx_body_enc:
  assumes "gfx_ok pdu"
  shows "gfx_reads pdu (decode_gfx_body (gfx_cmd_id pdu))"
proof (cases pdu)
  case (ResetGraphics w h ms)
  then show ?thesis
    using assms decode_reset_graphics_enc [of w h ms] by (simp add: decode_gfx_body_def gfx_ok_def)
qed (use assms in \<open>simp_all add: gfx_ok_def gfx_reads_def decode_gfx_body_def gfx_decoders rd_simps read_elements_end
    gfx_count_enc_def gfx_max_cache_import_entries_def gfx_max_caps_sets_def version_repeated_iff\<close>)

lemma unat_of_len: "n \<le> 0xFFFFFFFF \<Longrightarrow> unat (of_nat n :: u32) = n"
  by (simp add: unsigned_of_nat take_bit_nat_eq_self)

lemma word_le_max [simp]: "unat (x :: u32) \<le> 4294967295" "unat (y :: u16) \<le> 65535"
  using u32_less [of x] u16_less_65536 [of y] by linarith+

lemma decode_gfx_pdu_enc:
  assumes "gfx_ok pdu"
  shows "decode_gfx_pdu (gfx_pdu_enc pdu) = Inr pdu"
proof -
  let ?r = "mk_reader (gfx_pdu_enc pdu) 0"
  have "unat (of_nat (8 + length (gfx_body_enc pdu)) :: u32) = 8 + length (gfx_body_enc pdu)"
    by (rule unat_of_len) (use assms in \<open>simp add: gfx_ok_def\<close>)
  moreover have "fst (decode_gfx_body (gfx_cmd_id pdu) (rd_advance 8 ?r)) = Inr pdu"
    using decode_gfx_body_enc [OF assms] by (simp add: gfx_reads_def gfx_pdu_enc_def)
  moreover have "rd_rest ?r = le_bytes 2 (gfx_cmd_id pdu) @ le_bytes 2 (0 :: u16) @
      le_bytes 4 (of_nat (8 + length (gfx_body_enc pdu)) :: u32) @ gfx_body_enc pdu"
    by (simp add: gfx_pdu_enc_def)
  ultimately show ?thesis by (simp add: decode_gfx_pdu_def rd_simps)
qed

lemma frame_pdu_enc:
  assumes "gfx_ok pdu" "length (gfx_pdu_enc pdu) \<le> max_size"
  shows "frame_pdu (gfx_pdu_enc pdu @ ys) max_size = Inr (Some (length (gfx_pdu_enc pdu)))"
proof -
  let ?r = "mk_reader (gfx_pdu_enc pdu @ ys) 0"
  have "unat (of_nat (8 + length (gfx_body_enc pdu)) :: u32) = 8 + length (gfx_body_enc pdu)"
    by (rule unat_of_len) (use assms in \<open>simp add: gfx_ok_def\<close>)
  moreover have "rd_rest ?r = (le_bytes 2 (gfx_cmd_id pdu) @ le_bytes 2 (0 :: u16)) @
      le_bytes 4 (of_nat (8 + length (gfx_body_enc pdu)) :: u32) @ gfx_body_enc pdu @ ys"
    by (simp add: gfx_pdu_enc_def)
  ultimately show ?thesis using assms(2) by (simp add: frame_pdu_def rd_simps gfx_header_size_def)
qed

section \<open>What the decoders have checked\<close>

lemma yields_array:
  assumes "rd_yields p (\<lambda>x n. P x \<and> n = len x)"
  shows "rd_yields (read_array k m p) (\<lambda>xs n. length xs = k \<and> list_all P xs \<and> n = sum_list (map len xs))"
  unfolding read_array_def by (rule yields_intros yields_pcount [OF assms])+

lemma yields_elements [yields_intros]:
  "rd_yields read_rect16 (\<lambda>x n. rect_ok x \<and> n = length (rect_enc x))"
  "rd_yields read_point16 (\<lambda>x n. True \<and> n = length (point_enc x))"
  "rd_yields read_color32 (\<lambda>x n. n = 4)"
  "rd_yields read_gfx_monitor (\<lambda>x n. True \<and> n = length (gfx_monitor_enc x))"
  "rd_yields read_cache_entry (\<lambda>x n. True \<and> n = length (cache_meta_enc x))"
  "rd_yields read_pixel_format (\<lambda>x n. valid_pixel_format x \<and> n = 1)"
  "rd_yields read_cache_slot (\<lambda>x n. cache_slot_ok x \<and> n = length (le_bytes 2 x))"
  "rd_yields read_bitmap_data (\<lambda>x n. n = length (bitmap_enc x) \<and> length x \<le> 0xFFFFFFFF)"
  unfolding read_rect16_def read_point16_def read_color32_def read_gfx_monitor_def read_cache_entry_def
    read_pixel_format_def read_cache_slot_def read_bitmap_data_def
  by (rule yields_intros yields_mono [OF yields_bytes] | (auto simp: rect_ok_def cache_slot_ok_def)[1])+

lemma yields_caps_flags:
  "rd_yields (if length data \<ge> 4 then pwith (mk_reader data 0) rd_u32le else pret 0)
     (\<lambda>x n. n = 0 \<and> x = (if length data \<ge> 4 then le_value (take 4 data) else 0))"
  "rd_yields (if v \<noteq> gfx_v10_1 then pwith s rd_u32le else pret 0) (\<lambda>x n. n = 0 \<and> (v = gfx_v10_1 \<longrightarrow> x = 0))"
  by (auto simp: rd_yields_def pwith_def rd_u32le_def rd_le_def ptry_def rd_bytes_ok pret_def intro: exI [of _ "0 :: nat"])

lemma yields_caps [yields_intros]:
  "rd_yields read_capability_set_gfx (\<lambda>x n. caps_set_ok x \<and> n = length (caps_set_enc x))"
  unfolding read_capability_set_gfx_def
  by (rule yields_caps_flags yields_intros | (auto simp: caps_set_ok_def length_caps_set_enc)[1])+

lemmas yields_arrays =
  yields_array [OF yields_elements(1)] yields_array [OF yields_elements(2)] yields_array [OF yields_elements(4)]
  yields_array [OF yields_elements(5)] yields_array [OF yields_elements(7)] yields_array [OF yields_caps]

lemma yields_gfx_bodies:
  "rd_yields (decode_gfx_body command) (\<lambda>pdu n. gfx_fields_ok pdu \<and> (length (gfx_body_enc pdu) = n \<or> length (gfx_body_enc pdu) = 332))"
  unfolding decode_gfx_body_def gfx_decoders decode_reset_graphics_def
  by (rule yields_caps_flags yields_arrays yields_intros | (auto simp: gfx_count_enc_def length_concat comp_def sum_list_triv
      version_repeated_iff gfx_constants not_less unsigned_eq_0_iff)[1])+

definition gfx_decoder :: "nat \<Rightarrow> gfx_pdu parser" where
  "gfx_decoder size_bs = ptry rd_u16le (\<lambda>command. ptry (rd_skip 2) (\<lambda>_. pget rd_offset (\<lambda>at. ptry rd_u32le (\<lambda>n.
     if unat n \<noteq> size_bs then pfail InvalidLength ''pduLength does not match the PDU size'' at
     else decode_gfx_body command))))"

lemma yields_gfx_decoder:
  "rd_yields (gfx_decoder size_bs) (\<lambda>pdu n. gfx_fields_ok pdu \<and>
     (8 + length (gfx_body_enc pdu) = n \<or> length (gfx_body_enc pdu) = 332) \<and> size_bs \<le> 0xFFFFFFFF)"
  unfolding gfx_decoder_def
  by (rule yields_mono [OF yields_gfx_bodies] yields_intros | (simp, metis word_le_max(1))[1])+

lemma decode_gfx_pdu_ok:
  assumes "decode_gfx_pdu bs = Inr pdu"
  shows "gfx_ok pdu"
proof -
  obtain r' where "gfx_decoder (length bs) (mk_reader bs 0) = (Inr pdu, r')"
    using assms unfolding decode_gfx_pdu_def gfx_decoder_def [symmetric] by (metis prod.collapse)
  with yields_gfx_decoder rd_wf_mk_reader obtain n where
    "n \<le> length (rd_rest (mk_reader bs 0))" "r' = rd_advance n (mk_reader bs 0)"
    "gfx_fields_ok pdu \<and> (8 + length (gfx_body_enc pdu) = n \<or> length (gfx_body_enc pdu) = 332) \<and> length bs \<le> 0xFFFFFFFF"
    by (rule yieldsD)
  then show ?thesis by (auto simp: gfx_ok_def)
qed

text \<open>The pair is a codec of the library's kind, with the reader on exactly one PDU.\<close>

interpretation gfx: pdu_codec encode_gfx_pdu "\<lambda>r. (decode_gfx_pdu (rd_rest r), r)" gfx_ok gfx_pdu_enc
  by unfold_locales (simp_all add: encode_gfx_pdu_enc decode_gfx_pdu_enc)

section \<open>Staying inside the input\<close>

lemma safe_read_array [safe_intros]: "rd_safe p \<Longrightarrow> rd_safe (read_array n k p)"
  unfolding read_array_def by (intro safe_intros)

lemma gfx_safe_elements [safe_intros]:
  "rd_safe read_rect16" "rd_safe read_point16" "rd_safe read_color32" "rd_safe read_gfx_monitor"
  "rd_safe read_cache_entry" "rd_safe read_pixel_format" "rd_safe read_cache_slot" "rd_safe read_bitmap_data"
  "rd_safe read_capability_set_gfx"
  unfolding read_rect16_def read_point16_def read_color32_def read_gfx_monitor_def read_cache_entry_def
    read_pixel_format_def read_cache_slot_def read_bitmap_data_def read_capability_set_gfx_def
  by (intro safe_intros)+

lemma gfx_safe [safe_intros]: "rd_safe (decode_gfx_body command)"
  unfolding decode_gfx_body_def gfx_decoders decode_reset_graphics_def by (intro safe_intros)

section \<open>Properties\<close>

text \<open>
  C32: Every well-formed graphics PDU, of all twenty-three kinds, is encoded without an assertion failing,
  decodes to itself, and is found in front of whatever follows it by the framing of the receiving side.
\<close>

theorem rdpgfx_roundtrip:
  assumes "gfx_ok pdu" "length (gfx_pdu_enc pdu) \<le> max_size"
  shows "\<exists>bs. encode_gfx pdu = Some bs \<and> decode_gfx_pdu bs = Inr pdu \<and>
    frame_pdu (bs @ ys) max_size = Inr (Some (length bs))"
  using assms by (auto simp: encode_gfx_def encode_gfx_pdu_enc decode_gfx_pdu_enc frame_pdu_enc)

theorem rdpgfx_roundtrip_witness:
  "\<exists>bs. encode_gfx (SolidFill 1 \<lparr>co_b = 1, co_g = 2, co_r = 3, co_xa = 4\<rparr>
      [\<lparr>rc_left = 0, rc_top = 0, rc_right = 10, rc_bottom = 20\<rparr>]) = Some bs \<and>
    decode_gfx_pdu bs = Inr (SolidFill 1 \<lparr>co_b = 1, co_g = 2, co_r = 3, co_xa = 4\<rparr>
      [\<lparr>rc_left = 0, rc_top = 0, rc_right = 10, rc_bottom = 20\<rparr>]) \<and>
    frame_pdu (bs @ [0xFF]) 100 = Inr (Some (length bs))"
  by (rule rdpgfx_roundtrip) (simp_all add: gfx_ok_def rect_ok_def rect_empty_def gfx_count_enc_def)

text \<open>
  C33: Whatever bytes the peer sends, a PDU that is accepted is well formed: its rectangles are not empty, its
  pixel formats and cache slots are known, its capability sets name no version twice, its lists are within their
  limits. So it can be encoded again, and the result decodes to the same PDU.
\<close>

theorem rdpgfx_decode_checked:
  assumes "decode_gfx_pdu bs = Inr pdu"
  shows "gfx_ok pdu \<and> (\<exists>cs. encode_gfx pdu = Some cs \<and> decode_gfx_pdu cs = Inr pdu)"
  using decode_gfx_pdu_ok [OF assms] by (simp add: encode_gfx_def encode_gfx_pdu_enc decode_gfx_pdu_enc)

theorem rdpgfx_decode_checked_witness:
  "gfx_ok (EvictCacheEntry 3) \<and>
   (\<exists>cs. encode_gfx (EvictCacheEntry 3) = Some cs \<and> decode_gfx_pdu cs = Inr (EvictCacheEntry 3))"
  by (rule rdpgfx_decode_checked [where bs = "[8, 0, 9, 9, 10, 0, 0, 0, 3, 0]"]) code_simp

end
