(* ===== verification/Rdpgfx_Server.thy ===== *)
theory Rdpgfx_Server
  imports Rdpgfx_Pdu Machine
begin

text \<open>
  \<open>channels/rdpgfx_server.cpp\<close>: the server side of the graphics pipeline. It negotiates the
  capabilities, keeps the surfaces, the codec contexts and the bitmap cache in step with the client, and
  counts the frames that are in flight. A command that violates its precondition aborts (\<open>None\<close>).

  \<open>std::map\<close> is an association list in the order of its keys, \<open>std::unordered_map\<close> an
  association list whose order nothing depends on.
\<close>

section \<open>Model: capabilities\<close>

record gfx_config =
  gcf_max_version :: u32
  gcf_avc420 :: bool
  gcf_avc444 :: bool
  gcf_avc444v2 :: bool

record gfx_negotiated =
  ng_version :: u32
  ng_client_flags :: u32
  ng_flags :: u32
  ng_thin_client :: bool
  ng_small_cache :: bool
  ng_avc420 :: bool
  ng_avc444 :: bool
  ng_avc444v2 :: bool
  ng_avc_thin_client :: bool
  ng_scaled_output :: bool
  ng_qoe :: bool
  ng_max_cache_slots :: u16
  ng_max_cache_bytes :: u32

definition preferred_versions :: "u32 list" where
  "preferred_versions = [gfx_v10_7, gfx_v10_6, gfx_v10_6_err, gfx_v10_5, gfx_v10_4, gfx_v10_3, gfx_v10_2, gfx_v10_1,
     gfx_v10, gfx_v8_1, gfx_v8]"

definition derive :: "u32 \<Rightarrow> u32 \<Rightarrow> gfx_config \<Rightarrow> gfx_negotiated" where
  "derive version client_flags config =
     (let flags = client_flags AND defined_caps_flags version;
          v10 = (version \<ge> gfx_v10);
          small = (flags AND (caps_thin_client OR caps_small_cache) \<noteq> 0 \<or> version = gfx_v10_3);
          avc420_81 = (version = gfx_v8_1 \<and> gcf_avc420 config \<and> flags AND caps_avc420_enabled \<noteq> 0);
          confirmed = (if version = gfx_v8_1 \<and> \<not> avc420_81 then flags AND NOT caps_avc420_enabled else flags);
          client_avc = (confirmed AND caps_avc_disabled = 0)
      in \<lparr>ng_version = version, ng_client_flags = client_flags, ng_flags = confirmed,
          ng_thin_client = (\<not> v10 \<and> flags AND caps_thin_client \<noteq> 0), ng_small_cache = small,
          ng_avc420 = (if v10 then client_avc \<and> gcf_avc420 config \<and> version \<ge> gfx_v10_4 else avc420_81),
          ng_avc444 = (v10 \<and> client_avc \<and> gcf_avc444 config),
          ng_avc444v2 = (v10 \<and> client_avc \<and> gcf_avc444v2 config),
          ng_avc_thin_client = (v10 \<and> confirmed AND caps_avc_thin_client \<noteq> 0),
          ng_scaled_output = (version = gfx_v10_7 \<and> confirmed AND caps_scaledmap_disable = 0),
          ng_qoe = (v10 \<and> version \<noteq> gfx_v10_1),
          ng_max_cache_slots = (if small then gfx_max_cache_slots_small else gfx_max_cache_slots),
          ng_max_cache_bytes = (if small then gfx_cache_size_small else gfx_cache_size)\<rparr>)"

definition ng_allows :: "gfx_negotiated \<Rightarrow> u16 \<Rightarrow> bool" where
  "ng_allows n codec_id =
     (if codec_id \<in> {codec_uncompressed, codec_cavideo, codec_clearcodec, codec_planar, codec_alpha} then True
      else if codec_id = codec_progressive then \<not> ng_thin_client n
      else if codec_id = codec_avc420 then ng_avc420 n
      else if codec_id = codec_avc444 then ng_avc444 n
      else if codec_id = codec_avc444v2 then ng_avc444v2 n
      else False)"

fun negotiate_loop :: "gfx_caps list \<Rightarrow> gfx_config \<Rightarrow> u32 list \<Rightarrow> gfx_negotiated option" where
  "negotiate_loop sets config [] = None"
| "negotiate_loop sets config (version # versions) =
     (if version > gcf_max_version config then negotiate_loop sets config versions
      else case find (\<lambda>s. gc_version s = version) sets of
        Some s \<Rightarrow> Some (derive version (gc_flags s) config)
      | None \<Rightarrow> negotiate_loop sets config versions)"

definition negotiate :: "gfx_caps list \<Rightarrow> gfx_config \<Rightarrow> gfx_negotiated option" where
  "negotiate sets config = negotiate_loop sets config preferred_versions"

section \<open>Model: state\<close>

datatype gfx_state = Wait_Caps_Advertise | Gfx_Ready | Gfx_Failed

datatype gfx_event =
    Ev_Ready gfx_negotiated bool
  | Ev_Frame_Acked u32 u32 u32 bool
  | Ev_Qoe_Frame_Acked u32 u32 u16 u16
  | Ev_Cache_Import_Offered nat nat
  | Ev_Failed string

record gfx_surface =
  su_width :: u16
  su_height :: u16
  su_format :: byte

record gfx_entry =
  en_key :: u64
  en_bytes :: u32
  en_width :: u16
  en_height :: u16
  en_used :: bool

definition empty_entry :: gfx_entry where
  "empty_entry = \<lparr>en_key = 0, en_bytes = 0, en_width = 0, en_height = 0, en_used = False\<rparr>"

record gfx_server =
  gs_config :: gfx_config
  gs_state :: gfx_state
  gs_failure :: string
  gs_negotiated :: "gfx_negotiated option"
  gs_input :: bytes
  gs_output :: "bytes list"
  gs_events :: "gfx_event list"
  gs_graphics_reset :: bool
  gs_surfaces :: "(u16 \<times> gfx_surface) list"
  gs_codec_contexts :: "(u16 \<times> u32) set"
  gs_in_frame :: bool
  gs_current_frame :: u32
  gs_next_frame_id :: u32
  gs_unacked :: "u32 list"
  gs_acks_suspended :: bool
  gs_queue_depth :: u32
  gs_total_frames_decoded :: u32
  gs_cache :: "gfx_entry list"
  gs_cache_keys :: "(u64 \<times> u16) list"
  gs_cache_bytes :: u64
  gs_cache_hint :: nat

definition gfx_new :: "gfx_config \<Rightarrow> gfx_server" where
  "gfx_new config = \<lparr>gs_config = config, gs_state = Wait_Caps_Advertise, gs_failure = [], gs_negotiated = None,
     gs_input = [], gs_output = [], gs_events = [], gs_graphics_reset = False, gs_surfaces = [],
     gs_codec_contexts = {}, gs_in_frame = False, gs_current_frame = 0, gs_next_frame_id = 1, gs_unacked = [],
     gs_acks_suspended = False, gs_queue_depth = 0, gs_total_frames_decoded = 0, gs_cache = [], gs_cache_keys = [],
     gs_cache_bytes = 0, gs_cache_hint = 0\<rparr>"

text \<open>\<open>Error::message\<close>, and the way \<open>std::format\<close> prints a number.\<close>

fun errc_string :: "errc \<Rightarrow> string" where
  "errc_string Truncated = ''truncated''"
| "errc_string InvalidValue = ''invalid value''"
| "errc_string InvalidLength = ''invalid length''"
| "errc_string Unsupported = ''unsupported''"
| "errc_string LimitExceeded = ''limit exceeded''"
| "errc_string TrailingData = ''trailing data''"
| "errc_string Io = ''I/O error''"

fun decimal :: "nat \<Rightarrow> string" where
  "decimal n = (if n < 10 then [char_of (48 + n)] else decimal (n div 10) @ [char_of (48 + n mod 10)])"

declare decimal.simps [simp del]

definition err_message :: "error \<Rightarrow> string" where
  "err_message e = errc_string (err_code e) @ '' at offset '' @ decimal (err_offset e) @ '': '' @ err_what e"

definition gfx_fail :: "string \<Rightarrow> gfx_server \<Rightarrow> gfx_server" where
  "gfx_fail reason st = st\<lparr>gs_state := Gfx_Failed, gs_failure := reason, gs_events := gs_events st @ [Ev_Failed reason]\<rparr>"

definition gfx_push :: "gfx_event \<Rightarrow> gfx_server \<Rightarrow> gfx_server" where
  "gfx_push ev st = st\<lparr>gs_events := gs_events st @ [ev]\<rparr>"

definition gfx_send :: "gfx_pdu \<Rightarrow> gfx_server \<Rightarrow> gfx_server option" where
  "gfx_send pdu st = do {
     bs \<leftarrow> encode_gfx pdu;
     Some (st\<lparr>gs_output := gs_output st @ [bs]\<rparr>)
   }"

section \<open>Model: what the client sends\<close>

definition reset_protocol :: "gfx_server \<Rightarrow> gfx_server" where
  "reset_protocol st = st\<lparr>gs_graphics_reset := False, gs_surfaces := [], gs_codec_contexts := {}, gs_in_frame := False,
     gs_unacked := [], gs_acks_suspended := False, gs_queue_depth := 0, gs_total_frames_decoded := 0, gs_cache := [],
     gs_cache_keys := [], gs_cache_bytes := 0, gs_cache_hint := 0\<rparr>"

definition negotiated_before_10_3 :: "gfx_server \<Rightarrow> bool" where
  "negotiated_before_10_3 st = (case gs_negotiated st of None \<Rightarrow> True | Some n \<Rightarrow> ng_version n < gfx_v10_3)"

definition on_caps_advertise :: "gfx_caps list \<Rightarrow> gfx_server \<Rightarrow> gfx_server option" where
  "on_caps_advertise sets st =
     (let reset = (gs_state st = Gfx_Ready) in
      if reset \<and> negotiated_before_10_3 st
      then Some (gfx_fail ''Caps Advertise repeated after confirming a version before 10.3'' st)
      else let st = (if reset then reset_protocol st else st) in
        case negotiate sets (gs_config st) of
          None \<Rightarrow> Some (gfx_fail ''the client offered no RDPGFX capability set farland supports'' st)
        | Some n \<Rightarrow> do {
            st \<leftarrow> gfx_send (CapsConfirm (make_capability_set (ng_version n) (ng_flags n)))
              (st\<lparr>gs_negotiated := Some n, gs_state := Gfx_Ready\<rparr>);
            Some (gfx_push (Ev_Ready n reset) st)
          })"

definition on_frame_acknowledge :: "u32 \<Rightarrow> u32 \<Rightarrow> u32 \<Rightarrow> gfx_server \<Rightarrow> gfx_server" where
  "on_frame_acknowledge depth frame decoded st =
     (let known = (frame \<in> set (gs_unacked st));
          st = st\<lparr>gs_queue_depth := depth, gs_total_frames_decoded := decoded\<rparr>;
          st = (if depth = suspend_frame_acknowledgement then st\<lparr>gs_acks_suspended := True, gs_unacked := []\<rparr>
                else st\<lparr>gs_acks_suspended := False,
                  gs_unacked := (if known then tl (dropWhile (\<lambda>f. f \<noteq> frame) (gs_unacked st)) else gs_unacked st)\<rparr>)
      in gfx_push (Ev_Frame_Acked frame depth decoded known) st)"

definition on_qoe_frame_acknowledge :: "u32 \<Rightarrow> u32 \<Rightarrow> u16 \<Rightarrow> u16 \<Rightarrow> gfx_server \<Rightarrow> gfx_server" where
  "on_qoe_frame_acknowledge frame timestamp se edr st = gfx_push (Ev_Qoe_Frame_Acked frame timestamp se edr) st"

definition on_cache_import_offer :: "gfx_cache_meta list \<Rightarrow> gfx_server \<Rightarrow> gfx_server option" where
  "on_cache_import_offer entries st = do {
     st \<leftarrow> gfx_send (CacheImportReply []) st;
     Some (gfx_push (Ev_Cache_Import_Offered (length entries) 0) st)
   }"

definition gfx_handle_pdu :: "bytes \<Rightarrow> gfx_server \<Rightarrow> gfx_server option" where
  "gfx_handle_pdu bs st = (case decode_gfx_pdu bs of
     Inl e \<Rightarrow> Some (gfx_fail (''malformed RDPGFX PDU: '' @ err_message e) st)
   | Inr (CapsAdvertise sets) \<Rightarrow> on_caps_advertise sets st
   | Inr pdu \<Rightarrow>
       if gs_state st \<noteq> Gfx_Ready then Some (gfx_fail ''RDPGFX PDU before Caps Advertise'' st)
       else case pdu of
         FrameAcknowledge depth frame decoded \<Rightarrow> Some (on_frame_acknowledge depth frame decoded st)
       | QoeFrameAcknowledge frame timestamp se edr \<Rightarrow> Some (on_qoe_frame_acknowledge frame timestamp se edr st)
       | CacheImportOffer entries \<Rightarrow> on_cache_import_offer entries st
       | _ \<Rightarrow> Some (gfx_fail ''server-to-client RDPGFX PDU received from the client'' st))"

lemma frame_pdu_bounds: "frame_pdu bs m = Inr (Some n) \<Longrightarrow> gfx_header_size \<le> n \<and> n \<le> m \<and> n \<le> length bs"
  by (auto simp: frame_pdu_def ptry_def pget_def pret_def pfail_def fail_def split: if_splits prod.splits sum.splits)

text \<open>The loop of \<open>receive\<close>: what is left of the input, and the state.\<close>

function gfx_receive_loop :: "bytes \<Rightarrow> gfx_server \<Rightarrow> (bytes \<times> gfx_server) option" where
  "gfx_receive_loop rest st =
     (if gs_state st = Gfx_Failed then Some (rest, st)
      else case frame_pdu rest gfx_max_client_pdu_size of
        Inl e \<Rightarrow> Some (rest, gfx_fail (''malformed RDPGFX header: '' @ err_message e) st)
      | Inr None \<Rightarrow> Some (rest, st)
      | Inr (Some n) \<Rightarrow> do {
          st \<leftarrow> gfx_handle_pdu (take n rest) st;
          gfx_receive_loop (drop n rest) st
        })"
  by pat_completeness auto
termination
  by (relation "measure (length \<circ> fst)") (auto dest: frame_pdu_bounds simp: gfx_header_size_def)

declare gfx_receive_loop.simps [simp del]

definition gfx_receive :: "bytes \<Rightarrow> gfx_server \<Rightarrow> gfx_server option" where
  "gfx_receive bs st =
     (if gs_state st = Gfx_Failed then Some st
      else do {
        (rest, st) \<leftarrow> gfx_receive_loop (gs_input st @ bs) st;
        Some (if gs_state st = Gfx_Failed then st\<lparr>gs_input := []\<rparr> else st\<lparr>gs_input := rest\<rparr>)
      })"

definition gfx_take_output :: "gfx_server \<Rightarrow> bytes list \<times> gfx_server" where
  "gfx_take_output st = (gs_output st, st\<lparr>gs_output := []\<rparr>)"

definition gfx_poll_event :: "gfx_server \<Rightarrow> gfx_event option \<times> gfx_server" where
  "gfx_poll_event st = (case gs_events st of [] \<Rightarrow> (None, st) | e # es \<Rightarrow> (Some e, st\<lparr>gs_events := es\<rparr>))"

section \<open>Model: commands\<close>

definition gfx_usable :: "gfx_server \<Rightarrow> bool option" where
  "gfx_usable st = (if gs_state st = Gfx_Failed then Some False else do { wassert (gs_state st = Gfx_Ready); Some True })"

text \<open>The body of a command runs on a usable server; on a failed one the command does nothing.\<close>

definition gfx_command :: "'a \<Rightarrow> (gfx_server \<Rightarrow> ('a \<times> gfx_server) option) \<Rightarrow> gfx_server \<Rightarrow> ('a \<times> gfx_server) option" where
  "gfx_command none body st = do {
     usable \<leftarrow> gfx_usable st;
     if \<not> usable then Some (none, st) else body st
   }"

definition gfx_surface_of :: "u16 \<Rightarrow> gfx_server \<Rightarrow> gfx_surface option" where
  "gfx_surface_of surface_id st = map_of (gs_surfaces st) surface_id"

definition gfx_cache_entry :: "u16 \<Rightarrow> gfx_server \<Rightarrow> gfx_entry option" where
  "gfx_cache_entry slot st = do {
     wassert (slot \<ge> 1 \<and> unat slot \<le> length (gs_cache st));
     let entry = gs_cache st ! (unat slot - 1);
     wassert (en_used entry);
     Some entry
   }"

definition rect_inside :: "gfx_rect \<Rightarrow> u16 \<Rightarrow> u16 \<Rightarrow> bool" where
  "rect_inside rect width height \<longleftrightarrow> \<not> rect_empty rect \<and> rc_right rect \<le> width \<and> rc_bottom rect \<le> height"

definition point_fits :: "gfx_point \<Rightarrow> u16 \<Rightarrow> u16 \<Rightarrow> u16 \<Rightarrow> u16 \<Rightarrow> bool" where
  "point_fits p width height dest_width dest_height \<longleftrightarrow>
     0 \<le> sint (pt_x p) \<and> 0 \<le> sint (pt_y p) \<and> sint (pt_x p) + uint width \<le> uint dest_width \<and>
     sint (pt_y p) + uint height \<le> uint dest_height"

definition gfx_reset_graphics :: "u32 \<Rightarrow> u32 \<Rightarrow> gfx_monitor list \<Rightarrow> gfx_server \<Rightarrow> (unit \<times> gfx_server) option" where
  "gfx_reset_graphics width height monitors = gfx_command () (\<lambda>st. do {
     wassert (\<not> gs_in_frame st);
     wassert (width \<ge> 1 \<and> width \<le> gfx_max_output_size \<and> height \<ge> 1 \<and> height \<le> gfx_max_output_size);
     wassert (length monitors \<le> gfx_max_monitors);
     st \<leftarrow> gfx_send (ResetGraphics width height
       (if monitors = []
        then [\<lparr>mo_left = 0, mo_top = 0, mo_right = width - 1, mo_bottom = height - 1, mo_flags = 1\<rparr>]
        else monitors)) st;
     Some ((), st\<lparr>gs_graphics_reset := True, gs_codec_contexts := {}\<rparr>)
   })"

text \<open>The identifier loop of \<open>create_surface\<close>, and insertion into the ordered map.\<close>

fun free_surface_id :: "u16 \<Rightarrow> (u16 \<times> gfx_surface) list \<Rightarrow> u16" where
  "free_surface_id ident [] = ident"
| "free_surface_id ident ((used, _) # surfaces) = (if used \<noteq> ident then ident else free_surface_id (ident + 1) surfaces)"

fun surface_emplace :: "u16 \<Rightarrow> gfx_surface \<Rightarrow> (u16 \<times> gfx_surface) list \<Rightarrow> (u16 \<times> gfx_surface) list" where
  "surface_emplace k v [] = [(k, v)]"
| "surface_emplace k v ((k', v') # m) =
     (if k < k' then (k, v) # (k', v') # m else if k = k' then (k', v') # m else (k', v') # surface_emplace k v m)"

definition gfx_create_surface :: "u16 \<Rightarrow> u16 \<Rightarrow> byte \<Rightarrow> gfx_server \<Rightarrow> (u16 \<times> gfx_server) option" where
  "gfx_create_surface width height format = gfx_command 0 (\<lambda>st. do {
     wassert (gs_graphics_reset st);
     wassert (width > 0 \<and> height > 0 \<and> valid_pixel_format format);
     wassert (length (gs_surfaces st) \<le> 0xFFFF);
     let ident = free_surface_id 0 (gs_surfaces st);
     st \<leftarrow> gfx_send (CreateSurface ident width height format)
       (st\<lparr>gs_surfaces := surface_emplace ident \<lparr>su_width = width, su_height = height, su_format = format\<rparr> (gs_surfaces st)\<rparr>);
     Some (ident, st)
   })"

definition gfx_delete_surface :: "u16 \<Rightarrow> gfx_server \<Rightarrow> (unit \<times> gfx_server) option" where
  "gfx_delete_surface surface_id = gfx_command () (\<lambda>st. do {
     wassert (surface_id \<in> fst ` set (gs_surfaces st));
     st \<leftarrow> gfx_send (DeleteSurface surface_id)
       (st\<lparr>gs_surfaces := filter (\<lambda>s. fst s \<noteq> surface_id) (gs_surfaces st),
           gs_codec_contexts := {c \<in> gs_codec_contexts st. fst c \<noteq> surface_id}\<rparr>);
     Some ((), st)
   })"

definition gfx_map_surface_to_output :: "u16 \<Rightarrow> u32 \<Rightarrow> u32 \<Rightarrow> gfx_server \<Rightarrow> (unit \<times> gfx_server) option" where
  "gfx_map_surface_to_output surface_id x y = gfx_command () (\<lambda>st. do {
     _ \<leftarrow> gfx_surface_of surface_id st;
     st \<leftarrow> gfx_send (MapSurfaceToOutput surface_id x y) st;
     Some ((), st)
   })"

definition gfx_map_surface_to_scaled_output ::
    "u16 \<Rightarrow> u32 \<Rightarrow> u32 \<Rightarrow> u32 \<Rightarrow> u32 \<Rightarrow> gfx_server \<Rightarrow> (unit \<times> gfx_server) option" where
  "gfx_map_surface_to_scaled_output surface_id x y target_width target_height = gfx_command () (\<lambda>st. do {
     caps \<leftarrow> gs_negotiated st;
     wassert (ng_scaled_output caps);
     _ \<leftarrow> gfx_surface_of surface_id st;
     st \<leftarrow> gfx_send (MapSurfaceToScaledOutput surface_id x y target_width target_height) st;
     Some ((), st)
   })"

definition gfx_map_surface_to_window :: "u16 \<Rightarrow> u64 \<Rightarrow> u32 \<Rightarrow> u32 \<Rightarrow> gfx_server \<Rightarrow> (unit \<times> gfx_server) option" where
  "gfx_map_surface_to_window surface_id window_id mapped_width mapped_height = gfx_command () (\<lambda>st. do {
     _ \<leftarrow> gfx_surface_of surface_id st;
     st \<leftarrow> gfx_send (MapSurfaceToWindow surface_id window_id mapped_width mapped_height) st;
     Some ((), st)
   })"

definition gfx_map_surface_to_scaled_window ::
    "u16 \<Rightarrow> u64 \<Rightarrow> u32 \<Rightarrow> u32 \<Rightarrow> u32 \<Rightarrow> u32 \<Rightarrow> gfx_server \<Rightarrow> (unit \<times> gfx_server) option" where
  "gfx_map_surface_to_scaled_window surface_id window_id mapped_width mapped_height target_width target_height =
     gfx_command () (\<lambda>st. do {
     caps \<leftarrow> gs_negotiated st;
     wassert (ng_scaled_output caps);
     _ \<leftarrow> gfx_surface_of surface_id st;
     st \<leftarrow> gfx_send (MapSurfaceToScaledWindow surface_id window_id mapped_width mapped_height target_width target_height) st;
     Some ((), st)
   })"

definition gfx_start_frame :: "u32 \<Rightarrow> gfx_server \<Rightarrow> (u32 \<times> gfx_server) option" where
  "gfx_start_frame timestamp = gfx_command 0 (\<lambda>st. do {
     wassert (\<not> gs_in_frame st);
     wassert (valid_timestamp timestamp);
     let frame = gs_next_frame_id st;
     st \<leftarrow> gfx_send (StartFrame timestamp frame)
       (st\<lparr>gs_in_frame := True, gs_current_frame := frame, gs_next_frame_id := frame + 1\<rparr>);
     Some (frame, st)
   })"

definition gfx_end_frame :: "gfx_server \<Rightarrow> (unit \<times> gfx_server) option" where
  "gfx_end_frame = gfx_command () (\<lambda>st. do {
     wassert (gs_in_frame st);
     st \<leftarrow> gfx_send (EndFrame (gs_current_frame st)) (st\<lparr>gs_in_frame := False\<rparr>);
     Some ((), if \<not> gs_acks_suspended st then st\<lparr>gs_unacked := gs_unacked st @ [gs_current_frame st]\<rparr> else st)
   })"

definition gfx_wire_to_surface_1 ::
    "u16 \<Rightarrow> u16 \<Rightarrow> byte \<Rightarrow> gfx_rect \<Rightarrow> bytes \<Rightarrow> gfx_server \<Rightarrow> (unit \<times> gfx_server) option" where
  "gfx_wire_to_surface_1 surface_id codec_id format dest_rect bitmap_data = gfx_command () (\<lambda>st. do {
     target \<leftarrow> gfx_surface_of surface_id st;
     wassert (gs_in_frame st);
     caps \<leftarrow> gs_negotiated st;
     wassert (codec_id \<noteq> codec_progressive \<and> ng_allows caps codec_id);
     wassert (valid_pixel_format format);
     wassert (rect_inside dest_rect (su_width target) (su_height target));
     st \<leftarrow> gfx_send (WireToSurface1 surface_id codec_id format dest_rect bitmap_data) st;
     Some ((), st)
   })"

definition gfx_wire_to_surface_2 ::
    "u16 \<Rightarrow> u16 \<Rightarrow> u32 \<Rightarrow> byte \<Rightarrow> bytes \<Rightarrow> gfx_server \<Rightarrow> (unit \<times> gfx_server) option" where
  "gfx_wire_to_surface_2 surface_id codec_id codec_context_id format bitmap_data = gfx_command () (\<lambda>st. do {
     _ \<leftarrow> gfx_surface_of surface_id st;
     wassert (gs_in_frame st);
     caps \<leftarrow> gs_negotiated st;
     wassert (codec_id = codec_progressive \<and> ng_allows caps codec_id);
     wassert (valid_pixel_format format);
     st \<leftarrow> gfx_send (WireToSurface2 surface_id codec_id codec_context_id format bitmap_data)
       (st\<lparr>gs_codec_contexts := insert (surface_id, codec_context_id) (gs_codec_contexts st)\<rparr>);
     Some ((), st)
   })"

definition gfx_delete_encoding_context :: "u16 \<Rightarrow> u32 \<Rightarrow> gfx_server \<Rightarrow> (unit \<times> gfx_server) option" where
  "gfx_delete_encoding_context surface_id codec_context_id = gfx_command () (\<lambda>st. do {
     wassert ((surface_id, codec_context_id) \<in> gs_codec_contexts st);
     st \<leftarrow> gfx_send (DeleteEncodingContext surface_id codec_context_id)
       (st\<lparr>gs_codec_contexts := gs_codec_contexts st - {(surface_id, codec_context_id)}\<rparr>);
     Some ((), st)
   })"

definition gfx_solid_fill :: "u16 \<Rightarrow> gfx_color \<Rightarrow> gfx_rect list \<Rightarrow> gfx_server \<Rightarrow> (unit \<times> gfx_server) option" where
  "gfx_solid_fill surface_id color rects = gfx_command () (\<lambda>st. do {
     target \<leftarrow> gfx_surface_of surface_id st;
     wassert (gs_in_frame st);
     wassert (rects \<noteq> [] \<and> length rects \<le> 0xFFFF);
     wassert (list_all (\<lambda>rect. rect_inside rect (su_width target) (su_height target)) rects);
     st \<leftarrow> gfx_send (SolidFill surface_id color rects) st;
     Some ((), st)
   })"

definition gfx_surface_to_surface ::
    "u16 \<Rightarrow> u16 \<Rightarrow> gfx_rect \<Rightarrow> gfx_point list \<Rightarrow> gfx_server \<Rightarrow> (unit \<times> gfx_server) option" where
  "gfx_surface_to_surface src_surface_id dest_surface_id src_rect dest_points = gfx_command () (\<lambda>st. do {
     src \<leftarrow> gfx_surface_of src_surface_id st;
     dest \<leftarrow> gfx_surface_of dest_surface_id st;
     wassert (gs_in_frame st);
     wassert (rect_inside src_rect (su_width src) (su_height src));
     wassert (dest_points \<noteq> [] \<and> length dest_points \<le> 0xFFFF);
     wassert (list_all (\<lambda>p. point_fits p (rect_width src_rect) (rect_height src_rect) (su_width dest) (su_height dest)) dest_points);
     st \<leftarrow> gfx_send (SurfaceToSurface src_surface_id dest_surface_id src_rect dest_points) st;
     Some ((), st)
   })"

text \<open>
  The search for a free slot. It runs on as long as it finds used slots; \<open>None\<close> is a search that
  does not end, or an index behind the cache, at which \<open>at\<close> throws.
\<close>

partial_function (option) free_slot :: "gfx_entry list \<Rightarrow> nat \<Rightarrow> nat option" where
  "free_slot cache index =
     (if index \<ge> length cache then None
      else if en_used (cache ! index) then free_slot cache ((index + 1) mod length cache)
      else Some index)"

definition gfx_surface_to_cache :: "u16 \<Rightarrow> gfx_rect \<Rightarrow> u64 \<Rightarrow> gfx_server \<Rightarrow> (u16 option \<times> gfx_server) option" where
  "gfx_surface_to_cache surface_id src_rect cache_key = gfx_command None (\<lambda>st. do {
     src \<leftarrow> gfx_surface_of surface_id st;
     wassert (gs_in_frame st);
     wassert (rect_inside src_rect (su_width src) (su_height src));
     wassert (cache_key \<notin> fst ` set (gs_cache_keys st));
     let bytes = ucast (rect_width src_rect) * ucast (rect_height src_rect) * 4;
     negotiated \<leftarrow> gs_negotiated st;
     if gs_cache_bytes st + ucast bytes > ucast (ng_max_cache_bytes negotiated) \<or>
        length (gs_cache_keys st) \<ge> unat (ng_max_cache_slots negotiated)
     then Some (None, st)
     else do {
       let cache = (if gs_cache st = [] then replicate (unat (ng_max_cache_slots negotiated)) empty_entry else gs_cache st);
       index \<leftarrow> free_slot cache (gs_cache_hint st);
       let slot = of_nat (index + 1);
       st \<leftarrow> gfx_send (SurfaceToCache surface_id cache_key slot src_rect)
         (st\<lparr>gs_cache := cache[index := \<lparr>en_key = cache_key, en_bytes = bytes, en_width = rect_width src_rect,
               en_height = rect_height src_rect, en_used = True\<rparr>],
             gs_cache_hint := (index + 1) mod length cache,
             gs_cache_keys := (cache_key, slot) # gs_cache_keys st,
             gs_cache_bytes := gs_cache_bytes st + ucast bytes\<rparr>);
       Some (Some slot, st)
     }
   })"

definition gfx_cache_to_surface :: "u16 \<Rightarrow> u16 \<Rightarrow> gfx_point list \<Rightarrow> gfx_server \<Rightarrow> (unit \<times> gfx_server) option" where
  "gfx_cache_to_surface slot surface_id dest_points = gfx_command () (\<lambda>st. do {
     entry \<leftarrow> gfx_cache_entry slot st;
     dest \<leftarrow> gfx_surface_of surface_id st;
     wassert (gs_in_frame st);
     wassert (dest_points \<noteq> [] \<and> length dest_points \<le> 0xFFFF);
     wassert (list_all (\<lambda>p. point_fits p (en_width entry) (en_height entry) (su_width dest) (su_height dest)) dest_points);
     st \<leftarrow> gfx_send (CacheToSurface slot surface_id dest_points) st;
     Some ((), st)
   })"

definition gfx_evict_cache_entry :: "u16 \<Rightarrow> gfx_server \<Rightarrow> (unit \<times> gfx_server) option" where
  "gfx_evict_cache_entry slot = gfx_command () (\<lambda>st. do {
     entry \<leftarrow> gfx_cache_entry slot st;
     st \<leftarrow> gfx_send (EvictCacheEntry slot)
       (st\<lparr>gs_cache_keys := filter (\<lambda>k. fst k \<noteq> en_key entry) (gs_cache_keys st),
           gs_cache_bytes := gs_cache_bytes st - ucast (en_bytes entry),
           gs_cache := (gs_cache st)[unat slot - 1 := empty_entry],
           gs_cache_hint := min (gs_cache_hint st) (unat slot - 1)\<rparr>);
     Some ((), st)
   })"

definition gfx_cache_slot :: "u64 \<Rightarrow> gfx_server \<Rightarrow> u16 option" where
  "gfx_cache_slot key st = map_of (gs_cache_keys st) key"

definition gfx_frames_in_flight :: "gfx_server \<Rightarrow> nat" where
  "gfx_frames_in_flight st = length (gs_unacked st)"

section \<open>Sending\<close>

lemma encode_gfx_body_SomeD:
  assumes "encode_gfx_body pdu w = Some w'" "gfx_fields_ok pdu"
  shows "w' = w @ gfx_body_enc pdu"
  using assms
  by (cases pdu) (auto simp: wr_simps write_bitmap_data_def checked_length_def checked_count_def wassert_def bitmap_enc_def
      gfx_count_enc_def gfx_constants write_capability_sets_gfx_enc write_capability_set_gfx_enc Let_def mult.commute
      split: if_splits)

lemma encode_gfx_SomeD:
  assumes "encode_gfx pdu = Some bs" "gfx_fields_ok pdu"
  shows "gfx_ok pdu \<and> bs = gfx_pdu_enc pdu"
proof -
  from assms(1) obtain w where w: "encode_gfx_body pdu (w_u32le 0 (w_u16le 0 (w_u16le (gfx_cmd_id pdu) []))) = Some w"
    and "length w \<le> 0xFFFFFFFF"
    by (auto simp: encode_gfx_def encode_gfx_pdu_def Let_def checked_length_def wassert_def split: bind_splits if_splits)
  with encode_gfx_body_SomeD [OF w assms(2)] assms(2) have "gfx_ok pdu" by (simp add: gfx_ok_def wr_simps)
  with assms(1) show ?thesis by (simp add: encode_gfx_def encode_gfx_pdu_enc)
qed

lemma gfx_send_SomeD:
  assumes "gfx_send pdu st = Some st'" "gfx_fields_ok pdu"
  shows "gfx_ok pdu \<and> st' = st\<lparr>gs_output := gs_output st @ [gfx_pdu_enc pdu]\<rparr>"
proof -
  from assms(1) obtain bs where "encode_gfx pdu = Some bs" "st' = st\<lparr>gs_output := gs_output st @ [bs]\<rparr>"
    by (auto simp: gfx_send_def split: bind_splits)
  with encode_gfx_SomeD [OF _ assms(2)] show ?thesis by blast
qed

lemma gfx_send_ok: "gfx_ok pdu \<Longrightarrow> gfx_send pdu st = Some (st\<lparr>gs_output := gs_output st @ [gfx_pdu_enc pdu]\<rparr>)"
  by (simp add: gfx_send_def encode_gfx_def encode_gfx_pdu_enc)

section \<open>Negotiation\<close>

definition caps_confirmed :: "gfx_negotiated \<Rightarrow> bool" where
  "caps_confirmed n \<longleftrightarrow> ng_version n \<in> set preferred_versions \<and>
     ng_max_cache_slots n \<in> {gfx_max_cache_slots_small, gfx_max_cache_slots} \<and>
     ng_max_cache_bytes n \<in> {gfx_cache_size_small, gfx_cache_size}"

lemma negotiate_loop_Some:
  assumes "negotiate_loop sets config versions = Some n"
  shows "\<exists>before version after s. versions = before @ version # after \<and> s \<in> set sets \<and> gc_version s = version \<and>
    version \<le> gcf_max_version config \<and> n = derive version (gc_flags s) config \<and>
    (\<forall>v \<in> set before. v \<le> gcf_max_version config \<longrightarrow> v \<notin> gc_version ` set sets)"
  using assms
proof (induction versions)
  case (Cons v versions)
  show ?case
  proof (cases "v \<le> gcf_max_version config \<and> find (\<lambda>s. gc_version s = v) sets \<noteq> None")
    case True
    then obtain s where "find (\<lambda>s. gc_version s = v) sets = Some s" by auto
    moreover from this have "s \<in> set sets" "gc_version s = v" by (auto simp: find_Some_iff)
    ultimately have "n = derive v (gc_flags s) config" "s \<in> set sets" "gc_version s = v"
      using Cons.prems True by (auto split: if_splits)
    with True show ?thesis by (intro exI [where x = "[] :: u32 list"] exI) auto
  next
    case False
    then have "negotiate_loop sets config versions = Some n"
      using Cons.prems by (auto split: if_splits option.splits)
    then obtain before version after s where *: "versions = before @ version # after" "s \<in> set sets" "gc_version s = version"
      "version \<le> gcf_max_version config" "n = derive version (gc_flags s) config"
      "\<forall>v \<in> set before. v \<le> gcf_max_version config \<longrightarrow> v \<notin> gc_version ` set sets"
      using Cons.IH by blast
    moreover have "v \<le> gcf_max_version config \<longrightarrow> v \<notin> gc_version ` set sets"
      using False by (auto simp: find_None_iff)
    ultimately show ?thesis by (intro exI [where x = "v # before"] exI) auto
  qed
qed simp

lemma negotiate_loop_None:
  "negotiate_loop sets config versions = None \<longleftrightarrow>
   (\<forall>v \<in> set versions. v \<le> gcf_max_version config \<longrightarrow> v \<notin> gc_version ` set sets)"
  by (induction versions) (auto simp: find_None_iff not_less split: option.splits dest: find_Some_iff [THEN iffD1] leD)

lemma derive_fields:
  "ng_version (derive version flags config) = version" "ng_client_flags (derive version flags config) = flags"
  "ng_max_cache_slots (derive version flags config) =
     (if ng_small_cache (derive version flags config) then gfx_max_cache_slots_small else gfx_max_cache_slots)"
  "ng_max_cache_bytes (derive version flags config) =
     (if ng_small_cache (derive version flags config) then gfx_cache_size_small else gfx_cache_size)"
  by (simp_all add: derive_def Let_def)

lemma derive_flags: "ng_flags (derive version flags config) AND NOT (flags AND defined_caps_flags version) = 0"
  by (rule bit_word_eqI) (auto simp: derive_def Let_def bit_simps)

text \<open>The client has refused AVC: it has set the flag that disables it, in a version that defines the flag.\<close>

definition avc_refused :: "gfx_negotiated \<Rightarrow> bool" where
  "avc_refused n \<longleftrightarrow> ng_client_flags n AND defined_caps_flags (ng_version n) AND caps_avc_disabled \<noteq> 0"

lemma derive_avc:
  assumes "n = derive version flags config"
  shows "ng_avc420 n \<longleftrightarrow> gcf_avc420 config \<and>
      (if ng_version n = gfx_v8_1 then ng_client_flags n AND caps_avc420_enabled \<noteq> 0
       else gfx_v10_4 \<le> ng_version n \<and> \<not> avc_refused n)"
    "ng_avc444 n \<longleftrightarrow> gcf_avc444 config \<and> gfx_v10 \<le> ng_version n \<and> \<not> avc_refused n"
    "ng_avc444v2 n \<longleftrightarrow> gcf_avc444v2 config \<and> gfx_v10 \<le> ng_version n \<and> \<not> avc_refused n"
    "ng_avc420 n \<or> ng_avc444 n \<or> ng_avc444v2 n \<longrightarrow> ng_flags n AND caps_avc_disabled = 0"
proof -
  have defined: "defined_caps_flags gfx_v8_1 AND caps_avc420_enabled = caps_avc420_enabled"
    "defined_caps_flags gfx_v8_1 AND caps_avc_disabled = 0"
    by (simp_all add: defined_caps_flags_def gfx_versions gfx_caps_flags)
  have order: "gfx_v10_4 \<le> version \<Longrightarrow> gfx_v10 \<le> version" "gfx_v10 \<le> version \<Longrightarrow> version \<noteq> gfx_v8_1"
    by (auto simp: gfx_versions word_le_nat_alt)
  show "ng_avc420 n \<longleftrightarrow> gcf_avc420 config \<and>
      (if ng_version n = gfx_v8_1 then ng_client_flags n AND caps_avc420_enabled \<noteq> 0
       else gfx_v10_4 \<le> ng_version n \<and> \<not> avc_refused n)"
    using order defined by (auto simp: assms derive_def Let_def avc_refused_def and.assoc)
  show "ng_avc444 n \<longleftrightarrow> gcf_avc444 config \<and> gfx_v10 \<le> ng_version n \<and> \<not> avc_refused n"
    "ng_avc444v2 n \<longleftrightarrow> gcf_avc444v2 config \<and> gfx_v10 \<le> ng_version n \<and> \<not> avc_refused n"
    using order by (auto simp: assms derive_def Let_def avc_refused_def and.assoc)
  show "ng_avc420 n \<or> ng_avc444 n \<or> ng_avc444v2 n \<longrightarrow> ng_flags n AND caps_avc_disabled = 0"
    using order defined by (auto simp: assms derive_def Let_def and.assoc split: if_splits)
qed

lemma negotiate_confirmed: "negotiate sets config = Some n \<Longrightarrow> caps_confirmed n"
  using negotiate_loop_Some [of sets config preferred_versions n]
  by (auto simp: negotiate_def caps_confirmed_def derive_fields) (metis in_set_conv_decomp)

lemma confirm_ok: "gfx_ok (CapsConfirm (make_capability_set version flags))"
proof -
  have "le_value (le_bytes 4 flags) = flags" by simp
  then have "caps_set_ok (make_capability_set version flags)"
    by (auto simp: caps_set_ok_def make_capability_set_def Let_def caps_data_length_def w_simps gfx_constants)
  moreover have "length (caps_set_enc (make_capability_set version flags)) \<le> 24"
    by (auto simp: length_caps_set_enc make_capability_set_def Let_def w_simps caps_data_length_def)
  ultimately show ?thesis by (simp add: gfx_ok_def)
qed

section \<open>The bitmap cache\<close>

text \<open>
  The slots of the cache and the map from keys to slots describe the same entries; the bytes are counted, the
  limits kept, and every slot in front of the hint is in use.
\<close>

definition used_bytes :: "gfx_entry list \<Rightarrow> nat" where
  "used_bytes c = sum_list (map (\<lambda>e. if en_used e then unat (en_bytes e) else 0) c)"

definition cache_limits :: "gfx_negotiated option \<Rightarrow> gfx_entry list \<Rightarrow> nat \<Rightarrow> bool" where
  "cache_limits neg c bytes = (case neg of
     None \<Rightarrow> c = [] \<and> bytes = 0
   | Some n \<Rightarrow> (c = [] \<or> length c = unat (ng_max_cache_slots n)) \<and> bytes \<le> unat (ng_max_cache_bytes n))"

definition slot_key :: "gfx_entry list \<Rightarrow> u16 \<Rightarrow> u64 option" where
  "slot_key c slot =
     (if 0 < unat slot \<and> unat slot \<le> length c \<and> en_used (c ! (unat slot - 1)) then Some (en_key (c ! (unat slot - 1)))
      else None)"

definition cache_agrees :: "gfx_entry list \<Rightarrow> (u64 \<times> u16) list \<Rightarrow> bool" where
  "cache_agrees c keys \<longleftrightarrow> distinct (map fst keys) \<and> length keys = length (filter en_used c) \<and> length c \<le> 25600 \<and>
     (\<forall>key slot. (key, slot) \<in> set keys \<longleftrightarrow> slot_key c slot = Some key)"

definition cache_ok :: "gfx_negotiated option \<Rightarrow> gfx_entry list \<Rightarrow> (u64 \<times> u16) list \<Rightarrow> u64 \<Rightarrow> nat \<Rightarrow> bool" where
  "cache_ok neg c keys bytes hint \<longleftrightarrow> cache_agrees c keys \<and> unat bytes = used_bytes c \<and>
     cache_limits neg c (unat bytes) \<and> (if c = [] then hint = 0 else hint < length c) \<and> (\<forall>i < hint. en_used (c ! i))"

lemma cache_ok_empty [simp]: "cache_ok neg [] [] 0 0"
  by (auto simp: cache_ok_def cache_agrees_def used_bytes_def cache_limits_def slot_key_def split: option.split)

lemma free_slot_finds:
  assumes "h \<le> j" "j < length c" "\<not> en_used (c ! j)" "\<And>i. h \<le> i \<Longrightarrow> i < j \<Longrightarrow> en_used (c ! i)"
  shows "free_slot c h = Some j"
  using assms
proof (induction "j - h" arbitrary: h)
  case 0
  then show ?case by (simp add: free_slot.simps)
next
  case (Suc d)
  then have "free_slot c (Suc h) = Some j" by (intro Suc.hyps) auto
  with Suc show ?case by (subst free_slot.simps) (auto simp: not_less_eq_eq)
qed

text \<open>The slot that is found is the lowest free one.\<close>

lemma free_slot_lowest:
  assumes "\<forall>i < h. en_used (c ! i)" "length (filter en_used c) < length c"
  shows "\<exists>j. free_slot c h = Some j \<and> j < length c \<and> \<not> en_used (c ! j) \<and> (\<forall>i < j. en_used (c ! i))"
proof -
  have "\<exists>j < length c. \<not> en_used (c ! j)"
    using assms(2) by (metis filter_True in_set_conv_nth less_irrefl)
  then obtain j where j: "j < length c" "\<not> en_used (c ! j)" "\<forall>i < j. en_used (c ! i)"
    using exists_least_iff [of "\<lambda>j. j < length c \<and> \<not> en_used (c ! j)"] by (metis order.strict_trans)
  with assms(1) have "h \<le> j" by (metis not_le)
  with j have "free_slot c h = Some j" by (intro free_slot_finds) auto
  with j show ?thesis by blast
qed

lemma filter_update: "i < length c \<Longrightarrow>
    length (filter P (c[i := e])) + (if P (c ! i) then 1 else 0) = length (filter P c) + (if P e then 1 else 0)"
  by (subst (3) id_take_nth_drop [of i c]) (simp_all add: upd_conv_take_nth_drop)

lemma used_bytes_update: "i < length c \<Longrightarrow>
    used_bytes (c[i := e]) + (if en_used (c ! i) then unat (en_bytes (c ! i)) else 0) =
    used_bytes c + (if en_used e then unat (en_bytes e) else 0)"
  unfolding used_bytes_def by (subst (3) id_take_nth_drop [of i c]) (simp_all add: upd_conv_take_nth_drop)

lemma used_bytes_ge: "i < length c \<Longrightarrow> en_used (c ! i) \<Longrightarrow> unat (en_bytes (c ! i)) \<le> used_bytes c"
  using used_bytes_update [of i c empty_entry] by (simp add: empty_entry_def)

lemma slot_of_index: "m \<le> 25600 \<Longrightarrow> unat (of_nat m :: u16) = m"
  by (simp add: unsigned_of_nat take_bit_nat_eq_self)

lemma slot_key_update:
  "i < length c \<Longrightarrow> slot_key (c[i := e]) slot =
     (if unat slot = i + 1 then (if en_used e then Some (en_key e) else None) else slot_key c slot)"
  by (auto simp: slot_key_def nth_list_update)

lemma cache_agrees_insert:
  assumes "cache_agrees c keys" "key \<notin> fst ` set keys" "i < length c" "\<not> en_used (c ! i)" "en_used e" "en_key e = key"
  shows "cache_agrees (c[i := e]) ((key, of_nat (i + 1)) # keys)"
proof -
  have slot: "unat (of_nat (i + 1) :: u16) = i + 1"
    using assms(1,3) by (intro slot_of_index) (simp add: cache_agrees_def)
  have iff: "s = of_nat (i + 1) \<longleftrightarrow> unat s = i + 1" for s :: u16 using slot by (metis unsigned_word_eqI)
  have "(k, s) \<in> set ((key, of_nat (i + 1)) # keys) \<longleftrightarrow> slot_key (c[i := e]) s = Some k" for k s
  proof (cases "unat s = i + 1")
    case True
    then have "slot_key c s = None" using assms(4) by (simp add: slot_key_def)
    with True iff [of s] assms show ?thesis by (auto simp: slot_key_update cache_agrees_def)
  next
    case False
    with iff [of s] assms show ?thesis by (auto simp: slot_key_update cache_agrees_def)
  qed
  moreover have "length (filter en_used (c[i := e])) = Suc (length keys)"
    using assms filter_update [OF assms(3), of en_used e] by (simp add: cache_agrees_def)
  ultimately show ?thesis
    using assms(1,2) unfolding cache_agrees_def by simp
qed

lemma filter_key: "distinct (map fst xs) \<Longrightarrow> (k, v) \<in> set xs \<Longrightarrow> length (filter (\<lambda>x. fst x \<noteq> k) xs) + 1 = length xs"
proof (induction xs)
  case (Cons x xs)
  show ?case
  proof (cases "fst x = k")
    case True
    then have "filter (\<lambda>x. fst x \<noteq> k) xs = xs" using Cons.prems(1) by (auto simp: filter_id_conv) (metis fst_conv image_eqI)
    with True show ?thesis by simp
  next
    case False
    with Cons show ?thesis by auto
  qed
qed simp

lemma cache_agrees_evict:
  fixes slot :: u16
  assumes "cache_agrees c keys" "slot_key c slot = Some key"
  shows "cache_agrees (c[unat slot - 1 := empty_entry]) (filter (\<lambda>k. fst k \<noteq> key) keys)"
proof -
  let ?i = "unat slot - 1"
  have i: "?i < length c" "unat slot = ?i + 1" "en_used (c ! ?i)" using assms(2) by (auto simp: slot_key_def split: if_splits)
  have d: "distinct (map fst keys)" and mem: "(k, s) \<in> set keys \<longleftrightarrow> slot_key c s = Some k" for k s
    using assms(1) by (auto simp: cache_agrees_def)
  have own: "s = slot" if "slot_key c s = Some key" for s
    using that assms(2) d by (metis eq_key_imp_eq_value mem)
  have "(k, s) \<in> set (filter (\<lambda>k. fst k \<noteq> key) keys) \<longleftrightarrow> slot_key (c[?i := empty_entry]) s = Some k" for k s
  proof (cases "s = slot")
    case True
    with i assms(2) show ?thesis by (auto simp: slot_key_update mem empty_entry_def)
  next
    case False
    then have "unat s \<noteq> ?i + 1" using i(2) by (metis unsigned_word_eqI)
    with False own [of s] i(1) show ?thesis by (auto simp: slot_key_update mem)
  qed
  moreover have "length (filter en_used (c[?i := empty_entry])) + 1 = length (filter en_used c)"
    using filter_update [OF i(1), of en_used empty_entry] i(3) by (simp add: empty_entry_def)
  moreover have "length (filter (\<lambda>k. fst k \<noteq> key) keys) + 1 = length keys"
    using d mem assms(2) by (intro filter_key) auto
  ultimately show ?thesis
    using assms(1) unfolding cache_agrees_def by (simp add: distinct_map_filter)
qed

lemma cache_ok_insert:
  assumes "cache_ok (Some n) c keys bytes hint" "key \<notin> fst ` set keys" "i < length c" "\<not> en_used (c ! i)"
    "\<forall>j < i. en_used (c ! j)" "en_used e" "en_key e = key"
    "\<not> ucast (ng_max_cache_bytes n) < bytes + ucast (en_bytes e)"
  shows "cache_ok (Some n) (c[i := e]) ((key, of_nat (i + 1)) # keys) (bytes + ucast (en_bytes e)) ((i + 1) mod length c)"
proof -
  have small: "unat bytes \<le> unat (ng_max_cache_bytes n)" using assms(1) by (simp add: cache_ok_def cache_limits_def)
  have add: "unat (bytes + ucast (en_bytes e) :: u64) = unat bytes + unat (en_bytes e)"
  proof -
    have "unat bytes + unat (en_bytes e) < 18446744073709551616"
      using small u32_less [of "ng_max_cache_bytes n"] u32_less [of "en_bytes e"] by linarith
    then show ?thesis by (subst unat_add_lem [THEN iffD1]) (simp_all add: unat_ucast_le)
  qed
  have "unat bytes + unat (en_bytes e) \<le> unat (ng_max_cache_bytes n)"
    using assms(8) add by (simp add: not_less word_le_nat_alt unat_ucast_le)
  moreover have "used_bytes (c[i := e]) = unat bytes + unat (en_bytes e)"
    using assms used_bytes_update [OF assms(3), of e] by (simp add: cache_ok_def)
  moreover have "cache_agrees (c[i := e]) ((key, of_nat (i + 1)) # keys)"
    using assms by (intro cache_agrees_insert) (auto simp: cache_ok_def)
  moreover have "\<forall>j < (i + 1) mod length c. en_used (c[i := e] ! j)"
    using assms by (cases "i + 1 = length c") (auto simp: nth_list_update less_Suc_eq mod_if)
  moreover have "c \<noteq> []" using assms(3) by auto
  ultimately show ?thesis
    using assms(1) add by (auto simp: cache_ok_def cache_limits_def)
qed

lemma cache_ok_resize:
  assumes "cache_ok (Some n) c keys bytes hint" "0 < ng_max_cache_slots n" "ng_max_cache_slots n \<le> gfx_max_cache_slots"
  shows "cache_ok (Some n) (if c = [] then replicate (unat (ng_max_cache_slots n)) empty_entry else c) keys bytes hint"
proof (cases "c = []")
  case True
  have "unat (ng_max_cache_slots n) \<le> 25600" "0 < unat (ng_max_cache_slots n)"
    using assms(2,3) by (simp_all add: word_le_nat_alt word_less_nat_alt gfx_max_cache_slots_def)
  with True assms(1) show ?thesis
    by (auto simp: cache_ok_def cache_agrees_def cache_limits_def used_bytes_def empty_entry_def slot_key_def
        sum_list_replicate)
qed (use assms in simp)

lemma cache_ok_evict:
  assumes "cache_ok neg c keys bytes hint" "slot_key c slot = Some key"
  shows "cache_ok neg (c[unat slot - 1 := empty_entry]) (filter (\<lambda>k. fst k \<noteq> key) keys)
    (bytes - ucast (en_bytes (c ! (unat slot - 1)))) (min hint (unat slot - 1))"
proof -
  let ?i = "unat slot - 1"
  have i: "?i < length c" "en_used (c ! ?i)" using assms(2) by (auto simp: slot_key_def split: if_splits)
  have le: "unat (en_bytes (c ! ?i)) \<le> unat bytes" using used_bytes_ge [OF i] assms(1) by (simp add: cache_ok_def)
  then have sub: "unat (bytes - ucast (en_bytes (c ! ?i))) = unat bytes - unat (en_bytes (c ! ?i))"
    by (subst unat_sub) (simp_all add: word_le_nat_alt unat_ucast_le)
  have "used_bytes (c[?i := empty_entry]) = unat bytes - unat (en_bytes (c ! ?i))"
    using used_bytes_update [OF i(1), of empty_entry] i(2) assms(1) by (simp add: cache_ok_def empty_entry_def)
  moreover have "cache_agrees (c[?i := empty_entry]) (filter (\<lambda>k. fst k \<noteq> key) keys)"
    using assms by (intro cache_agrees_evict) (auto simp: cache_ok_def)
  moreover have "c \<noteq> []" using i(1) by auto
  ultimately show ?thesis
    using assms(1) sub i(1) by (auto simp: cache_ok_def cache_limits_def nth_list_update split: option.splits)
qed

section \<open>Surfaces\<close>

definition surfaces_ok :: "(u16 \<times> gfx_surface) list \<Rightarrow> bool" where
  "surfaces_ok m \<longleftrightarrow> sorted_wrt (<) (map fst m) \<and>
     list_all (\<lambda>(k, s). su_width s \<noteq> 0 \<and> su_height s \<noteq> 0 \<and> valid_pixel_format (su_format s)) m"

lemma surface_emplace_keys [simp]: "fst ` set (surface_emplace k v m) = insert k (fst ` set m)"
  by (induction k v m rule: surface_emplace.induct) auto

lemma surface_emplace_lookup:
  "map_of (surface_emplace k v m) j = (if j = k \<and> map_of m k = None then Some v else map_of m j)"
  if "sorted_wrt (<) (map fst m)"
  using that
proof (induction k v m rule: surface_emplace.induct)
  case (2 k v k' v' m)
  have "map_of m k = None" if "k < k'" using 2(2) that by (force simp: map_of_eq_None_iff)
  with 2 show ?case by auto
qed simp

lemma surfaces_ok_emplace:
  assumes "surfaces_ok m" "su_width v \<noteq> 0" "su_height v \<noteq> 0" "valid_pixel_format (su_format v)"
  shows "surfaces_ok (surface_emplace k v m)"
  using assms
  by (induction k v m rule: surface_emplace.induct) (auto simp: surfaces_ok_def)

lemma surfaces_ok_filter: "surfaces_ok m \<Longrightarrow> surfaces_ok (filter P m)"
  by (induction m) (auto simp: surfaces_ok_def)

text \<open>The identifier found is the lowest one that no surface has, as long as one is left.\<close>

lemma free_surface_id_lowest:
  assumes "sorted_wrt (<) (map fst m)" "\<forall>k \<in> fst ` set m. ident \<le> k" "length m + unat ident \<le> 0xFFFF"
  shows "free_surface_id ident m \<notin> fst ` set m \<and> (\<forall>k. ident \<le> k \<longrightarrow> k < free_surface_id ident m \<longrightarrow> k \<in> fst ` set m) \<and>
    ident \<le> free_surface_id ident m"
  using assms
proof (induction ident m rule: free_surface_id.induct)
  case (2 ident used v m)
  show ?case
  proof (cases "used = ident")
    case False
    then have "ident < used" using 2(3) by auto
    then show ?thesis using 2(2) by auto
  next
    case True
    have suc: "unat (ident + 1) = unat ident + 1" using 2(4) by (simp add: unat_word_ariths)
    have above: "\<forall>k \<in> fst ` set m. ident + 1 \<le> k"
      using 2(2) True suc by (auto simp: word_le_nat_alt word_less_nat_alt Suc_le_eq)
    have "length m + unat (ident + 1) \<le> 0xFFFF" "sorted_wrt (<) (map fst m)" using 2(2,4) suc by auto
    with "2.IH" True above have IH: "free_surface_id (ident + 1) m \<notin> fst ` set m"
      "\<forall>k. ident + 1 \<le> k \<longrightarrow> k < free_surface_id (ident + 1) m \<longrightarrow> k \<in> fst ` set m"
      "ident + 1 \<le> free_surface_id (ident + 1) m"
      by auto
    have "k = ident \<or> ident + 1 \<le> k" if "ident \<le> k" for k
      using that suc by (metis Suc_eq_plus1 Suc_leI le_neq_implies_less unsigned_word_eqI word_le_nat_alt)
    with IH True suc show ?thesis by (auto simp: word_le_nat_alt)
  qed
qed auto

section \<open>The invariant of the server\<close>

definition gs_core :: "gfx_server \<Rightarrow> bool" where
  "gs_core st \<longleftrightarrow>
     cache_ok (gs_negotiated st) (gs_cache st) (gs_cache_keys st) (gs_cache_bytes st) (gs_cache_hint st) \<and>
     surfaces_ok (gs_surfaces st) \<and> fst ` gs_codec_contexts st \<subseteq> fst ` set (gs_surfaces st) \<and>
     (gs_surfaces st \<noteq> [] \<longrightarrow> gs_graphics_reset st) \<and>
     (gs_acks_suspended st \<longrightarrow> gs_unacked st = []) \<and>
     (\<forall>bs \<in> set (gs_output st). \<exists>pdu. gfx_ok pdu \<and> bs = gfx_pdu_enc pdu) \<and>
     (\<forall>n. gs_negotiated st = Some n \<longrightarrow> caps_confirmed n) \<and>
     (gs_state st = Gfx_Ready \<longrightarrow> gs_negotiated st \<noteq> None) \<and> (gs_state st = Wait_Caps_Advertise \<longrightarrow> gs_negotiated st = None)"

text \<open>Between two calls, what is buffered of the input is an incomplete PDU.\<close>

definition gs_inv :: "gfx_server \<Rightarrow> bool" where
  "gs_inv st \<longleftrightarrow> gs_core st \<and> frame_pdu (gs_input st) gfx_max_client_pdu_size = Inr None"

lemma gs_core_new: "gs_core (gfx_new config)"
  by (simp add: gs_core_def gfx_new_def surfaces_ok_def)

lemma gs_core_simple: "gs_core (gfx_fail reason st)" if "gs_core st"
  using that by (simp add: gs_core_def gfx_fail_def)

lemma gfx_fail_state [simp]: "gs_state (gfx_fail reason st) = Gfx_Failed"
  by (simp add: gfx_fail_def)

lemma gs_core_push [simp]: "gs_core (gfx_push ev st) = gs_core st"
  by (simp add: gs_core_def gfx_push_def)

lemma gs_core_input [simp]: "gs_core (st\<lparr>gs_input := bs\<rparr>) = gs_core st"
  by (simp add: gs_core_def)

lemma gs_core_send:
  assumes "gfx_send pdu st = Some st'" "gfx_fields_ok pdu" "gs_core st"
  shows "gs_core st'"
  using gfx_send_SomeD [OF assms(1,2)] assms(3) by (auto simp: gs_core_def)

lemma gs_core_sent: "gfx_ok pdu \<Longrightarrow> gs_core (st\<lparr>gs_output := gs_output st @ [gfx_pdu_enc pdu]\<rparr>) = gs_core st"
  by (auto simp: gs_core_def)

lemma cache_ok_None: "cache_ok None c keys bytes hint \<Longrightarrow> c = [] \<and> keys = [] \<and> bytes = 0 \<and> hint = 0"
  by (auto simp: cache_ok_def cache_limits_def cache_agrees_def used_bytes_def unsigned_eq_0_iff)

lemma gs_core_confirm:
  assumes "gs_core st" "gs_state st = Gfx_Ready \<or> gs_state st = Wait_Caps_Advertise" "caps_confirmed n"
  shows "gs_core ((if gs_state st = Gfx_Ready then reset_protocol st else st)\<lparr>gs_negotiated := Some n, gs_state := Gfx_Ready\<rparr>)"
  using assms cache_ok_None [of "gs_cache st" "gs_cache_keys st" "gs_cache_bytes st" "gs_cache_hint st"]
  by (auto simp: gs_core_def reset_protocol_def surfaces_ok_def)

lemma gs_core_reset: "gs_core st \<Longrightarrow> gs_core (reset_protocol st)"
  by (auto simp: gs_core_def reset_protocol_def surfaces_ok_def)

subsection \<open>What the client sends\<close>

lemma on_caps_advertise_total:
  assumes "gs_core st" "gs_state st \<noteq> Gfx_Failed"
  shows "\<exists>st'. on_caps_advertise sets st = Some st' \<and> gs_core st'"
proof (cases "gs_state st = Gfx_Ready \<and> negotiated_before_10_3 st")
  case True
  with assms show ?thesis by (simp add: on_caps_advertise_def gs_core_simple)
next
  case False
  let ?st = "if gs_state st = Gfx_Ready then reset_protocol st else st"
  have conf: "gs_config ?st = gs_config st" by (simp add: reset_protocol_def)
  show ?thesis
  proof (cases "negotiate sets (gs_config st)")
    case None
    have "gs_core ?st" using assms(1) gs_core_reset by simp
    with False None conf show ?thesis by (auto simp: on_caps_advertise_def Let_def gs_core_simple)
  next
    case (Some n)
    have "gs_state st = Gfx_Ready \<or> gs_state st = Wait_Caps_Advertise" using assms(2) by (cases "gs_state st") auto
    then have core: "gs_core (?st\<lparr>gs_negotiated := Some n, gs_state := Gfx_Ready\<rparr>)"
      using assms(1) negotiate_confirmed [OF Some] by (intro gs_core_confirm)
    let ?pdu = "CapsConfirm (make_capability_set (ng_version n) (ng_flags n))"
    obtain st' where st': "gfx_send ?pdu (?st\<lparr>gs_negotiated := Some n, gs_state := Gfx_Ready\<rparr>) = Some st'"
      using gfx_send_ok [OF confirm_ok] by blast
    moreover have "gs_core st'" using gs_core_send [OF st' _ core] confirm_ok by (simp add: gfx_ok_def)
    ultimately show ?thesis
      using False Some conf unfolding on_caps_advertise_def Let_def by (simp split: if_splits)
  qed
qed

lemma on_frame_acknowledge_inv: "gs_core st \<Longrightarrow> gs_core (on_frame_acknowledge depth frame decoded st)"
  unfolding on_frame_acknowledge_def Let_def gs_core_push by (simp add: gs_core_def)

lemma on_cache_import_offer_total:
  assumes "gs_core st"
  shows "\<exists>st'. on_cache_import_offer entries st = Some st' \<and> gs_core st'"
proof -
  have ok: "gfx_ok (CacheImportReply [])" by (simp add: gfx_ok_def gfx_count_enc_def)
  show ?thesis using assms by (simp add: on_cache_import_offer_def gfx_send_ok [OF ok] gs_core_sent [OF ok])
qed

lemma gfx_handle_pdu_total:
  assumes "gs_core st" "gs_state st \<noteq> Gfx_Failed"
  shows "\<exists>st'. gfx_handle_pdu bs st = Some st' \<and> gs_core st'"
proof (cases "decode_gfx_pdu bs")
  case (Inl e)
  with assms show ?thesis by (simp add: gfx_handle_pdu_def gs_core_simple)
next
  case (Inr pdu)
  then show ?thesis
    using assms on_caps_advertise_total [OF assms] on_cache_import_offer_total [OF assms(1)]
    by (cases pdu) (simp_all add: gfx_handle_pdu_def gs_core_simple on_frame_acknowledge_inv on_qoe_frame_acknowledge_def)
qed

lemma gfx_receive_loop_total:
  assumes "gs_core st"
  shows "\<exists>rest' st'. gfx_receive_loop rest st = Some (rest', st') \<and> gs_core st' \<and>
    (gs_state st' \<noteq> Gfx_Failed \<longrightarrow> frame_pdu rest' gfx_max_client_pdu_size = Inr None)"
  using assms
proof (induction rest st rule: gfx_receive_loop.induct)
  case (1 rest st)
  show ?case
  proof (cases "gs_state st = Gfx_Failed")
    case False
    show ?thesis
    proof (cases "frame_pdu rest gfx_max_client_pdu_size")
      case (Inl e)
      with False 1(2) show ?thesis by (simp add: gfx_receive_loop.simps [of rest st] gs_core_simple)
    next
      case (Inr framed)
      show ?thesis
      proof (cases framed)
        case (Some n)
        obtain st' where st': "gfx_handle_pdu (take n rest) st = Some st'" "gs_core st'"
          using gfx_handle_pdu_total [OF 1(2) False] by blast
        from "1.IH" [OF False Inr Some st'] False Inr Some st'(1) show ?thesis
          by (simp add: gfx_receive_loop.simps [of rest st])
      qed (use False Inr 1(2) in \<open>simp add: gfx_receive_loop.simps [of rest st]\<close>)
    qed
  qed (use 1(2) in \<open>simp add: gfx_receive_loop.simps [of rest st]\<close>)
qed

lemma frame_pdu_Nil [simp]: "frame_pdu [] m = Inr None"
  by (simp add: frame_pdu_def gfx_header_size_def)

lemma gfx_receive_total:
  assumes "gs_inv st"
  shows "\<exists>st'. gfx_receive bs st = Some st' \<and> gs_inv st'"
proof (cases "gs_state st = Gfx_Failed")
  case False
  obtain rest' st' where "gfx_receive_loop (gs_input st @ bs) st = Some (rest', st')" "gs_core st'"
    "gs_state st' \<noteq> Gfx_Failed \<longrightarrow> frame_pdu rest' gfx_max_client_pdu_size = Inr None"
    using gfx_receive_loop_total [of st "gs_input st @ bs"] assms by (auto simp: gs_inv_def)
  with False show ?thesis by (auto simp: gfx_receive_def gs_inv_def)
qed (use assms in \<open>simp add: gfx_receive_def\<close>)

subsection \<open>Commands\<close>

lemma gfx_commandE:
  assumes "gfx_command none body st = Some (x, st')"
  obtains "gs_state st = Gfx_Failed" "x = none" "st' = st" | "gs_state st = Gfx_Ready" "body st = Some (x, st')"
  using assms by (cases "gs_state st") (simp_all add: gfx_command_def gfx_usable_def wassert_def)

lemma gs_inv_send:
  assumes "gfx_send pdu st = Some st'" "gfx_fields_ok pdu" "gs_inv st"
  shows "gs_inv st'"
  using gfx_send_SomeD [OF assms(1,2)] gs_core_send [OF assms(1,2)] assms(3) by (auto simp: gs_inv_def)

lemma rect_inside_ok: "rect_inside r w h \<Longrightarrow> rect_ok r"
  by (simp add: rect_inside_def rect_ok_def)

lemma gfx_cache_entryD:
  assumes "gfx_cache_entry slot st = Some e" "gs_inv st"
  shows "e = gs_cache st ! (unat slot - 1)" "slot_key (gs_cache st) slot = Some (en_key e)" "cache_slot_ok slot"
proof -
  from assms(1) have slot: "1 \<le> slot" "unat slot \<le> length (gs_cache st)" "en_used e" and e: "e = gs_cache st ! (unat slot - 1)"
    by (auto simp: gfx_cache_entry_def Let_def wassert_def split: bind_splits if_splits)
  then have pos: "0 < unat slot" by (simp add: word_le_nat_alt)
  have "unat slot \<le> 25600" using slot(2) assms(2) by (simp add: gs_inv_def gs_core_def cache_ok_def cache_agrees_def)
  with pos show "cache_slot_ok slot" by (auto simp: cache_slot_ok_def gfx_max_cache_slots_def word_le_nat_alt)
  from slot e pos show "slot_key (gs_cache st) slot = Some (en_key e)" by (simp add: slot_key_def)
  from e show "e = gs_cache st ! (unat slot - 1)" .
qed

text \<open>
  A command keeps the invariant when its body does. The rules follow the way the bodies are written, so that
  what remains of each command is that the invariant holds of the state it builds and that the PDU it sends is
  well formed.
\<close>

definition gs_keeps :: "('a \<times> gfx_server) option \<Rightarrow> bool" where
  "gs_keeps m \<longleftrightarrow> (\<forall>x st'. m = Some (x, st') \<longrightarrow> gs_inv st')"

named_theorems keeps_intros "commands that keep the invariant"

lemma keeps_command [keeps_intros]:
  "gs_inv st \<Longrightarrow> (gs_state st = Gfx_Ready \<Longrightarrow> gs_keeps (body st)) \<Longrightarrow> gs_keeps (gfx_command none body st)"
  unfolding gs_keeps_def by (auto elim!: gfx_commandE)

lemma keeps_assert [keeps_intros]: "(b \<Longrightarrow> gs_keeps m) \<Longrightarrow> gs_keeps (Option.bind (wassert b) (\<lambda>_. m))"
  by (simp add: wassert_def gs_keeps_def)

lemma keeps_send [keeps_intros]:
  assumes "gs_inv st" "gfx_fields_ok pdu"
    "\<And>st'. gs_inv st' \<Longrightarrow> st' = st\<lparr>gs_output := gs_output st @ [gfx_pdu_enc pdu]\<rparr> \<Longrightarrow> gs_keeps (f st')"
  shows "gs_keeps (Option.bind (gfx_send pdu st) f)"
  using assms gs_inv_send [OF _ assms(2,1)] gfx_send_SomeD [OF _ assms(2), of st]
  by (cases "gfx_send pdu st") (auto simp: gs_keeps_def)

lemma keeps_bind [keeps_intros]: "(\<And>x. y = Some x \<Longrightarrow> gs_keeps (f x)) \<Longrightarrow> gs_keeps (Option.bind y f)"
  by (cases y) (simp_all add: gs_keeps_def)

lemma keeps_if [keeps_intros]: "(b \<Longrightarrow> gs_keeps p) \<Longrightarrow> (\<not> b \<Longrightarrow> gs_keeps q) \<Longrightarrow> gs_keeps (if b then p else q)"
  by simp

lemma keeps_Let [keeps_intros]: "(\<And>x. x = v \<Longrightarrow> gs_keeps (f x)) \<Longrightarrow> gs_keeps (let x = v in f x)"
  by (simp add: Let_def)

lemma keeps_Some [keeps_intros]: "gs_inv st \<Longrightarrow> gs_keeps (Some (x, st))"
  by (simp add: gs_keeps_def)

lemmas gs_inv_defs = gs_inv_def gs_core_def

lemmas gfx_plain_commands =
  gfx_map_surface_to_output_def gfx_map_surface_to_scaled_output_def gfx_map_surface_to_window_def
  gfx_map_surface_to_scaled_window_def gfx_wire_to_surface_1_def gfx_solid_fill_def gfx_surface_to_surface_def

text \<open>The commands that only send.\<close>

lemma gfx_plain_keeps:
  assumes "gs_inv st"
  shows "gs_keeps (gfx_map_surface_to_output s x y st)" "gs_keeps (gfx_map_surface_to_scaled_output s x y w h st)"
    "gs_keeps (gfx_map_surface_to_window s win w h st)" "gs_keeps (gfx_map_surface_to_scaled_window s win mw mh w h st)"
    "gs_keeps (gfx_wire_to_surface_1 s codec_id f dest data st)" "gs_keeps (gfx_solid_fill s color rects st)"
    "gs_keeps (gfx_surface_to_surface s d rect pts st)" "gs_keeps (gfx_cache_to_surface slot s pts st)"
  unfolding gfx_plain_commands gfx_cache_to_surface_def
  by (rule assms keeps_intros | assumption | (auto simp: rect_inside_ok list_all_iff dest: gfx_cache_entryD(3) [OF _ assms])[1])+

lemma gfx_reset_graphics_keeps: "gs_inv st \<Longrightarrow> gs_keeps (gfx_reset_graphics w h monitors st)"
  unfolding gfx_reset_graphics_def
  by (rule keeps_intros | assumption | (auto simp: gs_inv_defs gfx_max_monitors_def)[1])+

lemma gfx_create_surface_keeps:
  assumes "gs_inv st"
  shows "gs_keeps (gfx_create_surface w h f st)"
  unfolding gfx_create_surface_def
  by (rule assms keeps_intros | assumption | (use assms in \<open>auto simp: gs_inv_defs surfaces_ok_emplace\<close>)[1])+

lemma gs_inv_surfaces:
  "gs_inv st \<Longrightarrow> surfaces_ok m \<Longrightarrow> fst ` C \<subseteq> fst ` set m \<Longrightarrow> m = [] \<or> gs_graphics_reset st \<Longrightarrow>
   gs_inv (st\<lparr>gs_surfaces := m, gs_codec_contexts := C\<rparr>)"
  "gs_inv st \<Longrightarrow> fst ` C \<subseteq> fst ` set (gs_surfaces st) \<Longrightarrow> gs_inv (st\<lparr>gs_codec_contexts := C\<rparr>)"
  by (simp add: gs_inv_defs, blast) (simp add: gs_inv_defs)

lemma gs_invD:
  assumes "gs_inv st"
  shows "surfaces_ok (gs_surfaces st)" "fst ` gs_codec_contexts st \<subseteq> fst ` set (gs_surfaces st)"
    "gs_surfaces st = [] \<or> gs_graphics_reset st"
    "cache_ok (gs_negotiated st) (gs_cache st) (gs_cache_keys st) (gs_cache_bytes st) (gs_cache_hint st)"
  using assms by (auto simp: gs_inv_defs)

lemma contexts_filter:
  "fst ` C \<subseteq> fst ` set m \<Longrightarrow> fst ` {c \<in> C. fst c \<noteq> s} \<subseteq> fst ` set (filter (\<lambda>x. fst x \<noteq> s) m)"
  by force

lemma gfx_delete_surface_keeps:
  assumes "gs_inv st"
  shows "gs_keeps (gfx_delete_surface s st)"
  unfolding gfx_delete_surface_def
  by (rule assms keeps_intros gs_inv_surfaces contexts_filter surfaces_ok_filter gs_invD [OF assms] | assumption |
      (use gs_invD(3) [OF assms] in auto)[1])+

lemma gfx_frame_keeps:
  assumes "gs_inv st"
  shows "gs_keeps (gfx_start_frame timestamp st)" "gs_keeps (gfx_end_frame st)"
  unfolding gfx_start_frame_def gfx_end_frame_def
  by (rule assms keeps_intros | assumption | (use assms in \<open>simp add: gs_inv_defs\<close>)[1])+

lemma gfx_context_keeps:
  assumes "gs_inv st"
  shows "gs_keeps (gfx_wire_to_surface_2 s codec_id ctx f data st)" "gs_keeps (gfx_delete_encoding_context s ctx st)"
  unfolding gfx_wire_to_surface_2_def gfx_delete_encoding_context_def
  by (rule assms keeps_intros gs_inv_surfaces | assumption |
      (use gs_invD(2) [OF assms] in \<open>force simp: gfx_surface_of_def dest: map_of_SomeD\<close>)[1])+

lemma gfx_evict_keeps:
  assumes "gs_inv st"
  shows "gs_keeps (gfx_evict_cache_entry slot st)"
  unfolding gfx_evict_cache_entry_def
proof (rule keeps_command [OF assms], rule keeps_bind, rule keeps_send)
  fix entry
  assume "gfx_cache_entry slot st = Some entry"
  note entry = gfx_cache_entryD [OF this assms]
  show "gfx_fields_ok (EvictCacheEntry slot)" using entry(3) by simp
  show "gs_inv (st\<lparr>gs_cache_keys := filter (\<lambda>k. fst k \<noteq> en_key entry) (gs_cache_keys st),
           gs_cache_bytes := gs_cache_bytes st - ucast (en_bytes entry),
           gs_cache := (gs_cache st)[unat slot - 1 := empty_entry],
           gs_cache_hint := min (gs_cache_hint st) (unat slot - 1)\<rparr>)"
    using assms cache_ok_evict [OF _ entry(2)] unfolding entry(1) by (simp add: gs_inv_defs)
qed (rule keeps_intros)

lemma gs_negotiatedD:
  assumes "gs_inv st" "gs_negotiated st = Some n"
  shows "0 < ng_max_cache_slots n" "ng_max_cache_slots n \<le> gfx_max_cache_slots" "unat (ng_max_cache_slots n) \<le> 25600"
proof -
  have "ng_max_cache_slots n \<in> {gfx_max_cache_slots_small, gfx_max_cache_slots}"
    using assms by (simp add: gs_inv_defs caps_confirmed_def)
  then show "0 < ng_max_cache_slots n" "ng_max_cache_slots n \<le> gfx_max_cache_slots" "unat (ng_max_cache_slots n) \<le> 25600"
    by (auto simp: gfx_max_cache_slots_small_def gfx_max_cache_slots_def word_less_nat_alt word_le_nat_alt)
qed

text \<open>The slot search of \<open>surface_to_cache\<close> ends at the lowest free slot.\<close>

definition gfx_sized_cache :: "gfx_negotiated \<Rightarrow> gfx_server \<Rightarrow> gfx_entry list" where
  "gfx_sized_cache n st = (if gs_cache st = [] then replicate (unat (ng_max_cache_slots n)) empty_entry else gs_cache st)"

lemma gfx_search:
  assumes "gs_inv st" "gs_negotiated st = Some n" "length (gs_cache_keys st) < unat (ng_max_cache_slots n)"
  shows "\<exists>i. free_slot (gfx_sized_cache n st) (gs_cache_hint st) = Some i \<and> i < length (gfx_sized_cache n st) \<and>
    \<not> en_used (gfx_sized_cache n st ! i) \<and> (\<forall>j < i. en_used (gfx_sized_cache n st ! j))"
    and "cache_ok (Some n) (gfx_sized_cache n st) (gs_cache_keys st) (gs_cache_bytes st) (gs_cache_hint st)"
    and "length (gfx_sized_cache n st) = unat (ng_max_cache_slots n)"
proof -
  show ok: "cache_ok (Some n) (gfx_sized_cache n st) (gs_cache_keys st) (gs_cache_bytes st) (gs_cache_hint st)"
    unfolding gfx_sized_cache_def
    using gs_invD(4) [OF assms(1)] gs_negotiatedD [OF assms(1,2)] assms(2) by (intro cache_ok_resize) auto
  have "gfx_sized_cache n st \<noteq> []"
    using gs_negotiatedD(1) [OF assms(1,2)] by (auto simp: gfx_sized_cache_def word_less_nat_alt)
  with ok show len: "length (gfx_sized_cache n st) = unat (ng_max_cache_slots n)"
    by (auto simp: cache_ok_def cache_limits_def)
  show "\<exists>i. free_slot (gfx_sized_cache n st) (gs_cache_hint st) = Some i \<and> i < length (gfx_sized_cache n st) \<and>
    \<not> en_used (gfx_sized_cache n st ! i) \<and> (\<forall>j < i. en_used (gfx_sized_cache n st ! j))"
    using ok len assms(3) by (intro free_slot_lowest) (auto simp: cache_ok_def cache_agrees_def)
qed

definition gfx_cached :: "u64 \<Rightarrow> u32 \<Rightarrow> gfx_rect \<Rightarrow> nat \<Rightarrow> gfx_entry list \<Rightarrow> gfx_server \<Rightarrow> gfx_server" where
  "gfx_cached key bytes rect index cache st =
     st\<lparr>gs_cache := cache[index := \<lparr>en_key = key, en_bytes = bytes, en_width = rect_width rect,
               en_height = rect_height rect, en_used = True\<rparr>],
        gs_cache_hint := (index + 1) mod length cache,
        gs_cache_keys := (key, of_nat (index + 1)) # gs_cache_keys st,
        gs_cache_bytes := gs_cache_bytes st + ucast bytes\<rparr>"

lemma gfx_cached_inv:
  assumes "gs_inv st" "gs_negotiated st = Some n" "key \<notin> fst ` set (gs_cache_keys st)"
    "\<not> ucast (ng_max_cache_bytes n) < gs_cache_bytes st + ucast bytes" "length (gs_cache_keys st) < unat (ng_max_cache_slots n)"
    "free_slot (gfx_sized_cache n st) (gs_cache_hint st) = Some i"
  shows "gs_inv (gfx_cached key bytes rect i (gfx_sized_cache n st) st)" "cache_slot_ok (of_nat (i + 1))"
proof -
  note search = gfx_search [OF assms(1,2,5)]
  have i: "i < length (gfx_sized_cache n st)" "\<not> en_used (gfx_sized_cache n st ! i)" "\<forall>j < i. en_used (gfx_sized_cache n st ! j)"
    using search(1) assms(6) by auto
  have "i + 1 \<le> 25600" using i(1) search(3) gs_negotiatedD(3) [OF assms(1,2)] by simp
  then have slot: "unat (of_nat (i + 1) :: u16) = i + 1" "i + 1 \<le> 25600" by (simp_all only: slot_of_index)
  show "cache_slot_ok (of_nat (i + 1))"
    unfolding cache_slot_ok_def gfx_max_cache_slots_def word_le_nat_alt slot
  proof
    show "(of_nat (i + 1) :: u16) \<noteq> 0" using slot(1) by (metis add_is_0 one_neq_zero unat_0)
    show "i + 1 \<le> unat (25600 :: u16)" using slot(2) by simp
  qed
  have "cache_ok (Some n) ((gfx_sized_cache n st)[i := \<lparr>en_key = key, en_bytes = bytes, en_width = rect_width rect,
      en_height = rect_height rect, en_used = True\<rparr>]) ((key, of_nat (i + 1)) # gs_cache_keys st)
      (gs_cache_bytes st + ucast (en_bytes \<lparr>en_key = key, en_bytes = bytes, en_width = rect_width rect,
      en_height = rect_height rect, en_used = True\<rparr>)) ((i + 1) mod length (gfx_sized_cache n st))"
    by (rule cache_ok_insert [OF search(2)]) (use assms i in simp_all)
  with assms(1,2) show "gs_inv (gfx_cached key bytes rect i (gfx_sized_cache n st) st)"
    unfolding gfx_cached_def by (simp add: gs_inv_defs)
qed

lemma gfx_surface_to_cache_keeps:
  assumes "gs_inv st"
  shows "gs_keeps (gfx_surface_to_cache s rect key st)"
  unfolding gfx_surface_to_cache_def gfx_sized_cache_def [symmetric] gfx_cached_def [symmetric] Let_def
proof (rule keeps_command [OF assms], rule keeps_bind, (rule keeps_assert)+, rule keeps_bind, rule keeps_if, rule keeps_Some [OF assms],
    rule keeps_bind, rule keeps_send)
  fix src n i
  let ?bytes = "ucast (rect_width rect) * ucast (rect_height rect) * 4 :: u32"
  assume ready: "gs_negotiated st = Some n" "key \<notin> fst ` set (gs_cache_keys st)" "rect_inside rect (su_width src) (su_height src)"
    "\<not> (ucast (ng_max_cache_bytes n) < gs_cache_bytes st + ucast ?bytes \<or> unat (ng_max_cache_slots n) \<le> length (gs_cache_keys st))"
    "free_slot (gfx_sized_cache n st) (gs_cache_hint st) = Some i"
  then have "\<not> ucast (ng_max_cache_bytes n) < gs_cache_bytes st + ucast ?bytes" "length (gs_cache_keys st) < unat (ng_max_cache_slots n)"
    by auto
  note cached = gfx_cached_inv [OF assms ready(1,2) this ready(5)]
  show "gs_inv (gfx_cached key ?bytes rect i (gfx_sized_cache n st) st)" by (rule cached(1))
  show "gfx_fields_ok (SurfaceToCache s key (of_nat (i + 1)) rect)" using cached(2) rect_inside_ok [OF ready(3)] by simp
qed (rule keeps_intros, assumption)

section \<open>Any sequence of calls\<close>

datatype gfx_op =
    Gfx_Receive bytes
  | Gfx_Take_Output
  | Gfx_Poll_Event
  | Gfx_Reset_Graphics u32 u32 "gfx_monitor list"
  | Gfx_Create_Surface u16 u16 byte
  | Gfx_Delete_Surface u16
  | Gfx_Map_Output u16 u32 u32
  | Gfx_Map_Scaled_Output u16 u32 u32 u32 u32
  | Gfx_Map_Window u16 u64 u32 u32
  | Gfx_Map_Scaled_Window u16 u64 u32 u32 u32 u32
  | Gfx_Start_Frame u32
  | Gfx_End_Frame
  | Gfx_Wire_1 u16 u16 byte gfx_rect bytes
  | Gfx_Wire_2 u16 u16 u32 byte bytes
  | Gfx_Delete_Context u16 u32
  | Gfx_Solid_Fill u16 gfx_color "gfx_rect list"
  | Gfx_Surface_Surface u16 u16 gfx_rect "gfx_point list"
  | Gfx_Surface_Cache u16 gfx_rect u64
  | Gfx_Cache_Surface u16 u16 "gfx_point list"
  | Gfx_Evict u16

fun gfx_exec :: "gfx_op \<Rightarrow> gfx_server \<Rightarrow> gfx_server option" where
  "gfx_exec (Gfx_Receive bs) st = gfx_receive bs st"
| "gfx_exec Gfx_Take_Output st = Some (snd (gfx_take_output st))"
| "gfx_exec Gfx_Poll_Event st = Some (snd (gfx_poll_event st))"
| "gfx_exec (Gfx_Reset_Graphics w h ms) st = map_option snd (gfx_reset_graphics w h ms st)"
| "gfx_exec (Gfx_Create_Surface w h f) st = map_option snd (gfx_create_surface w h f st)"
| "gfx_exec (Gfx_Delete_Surface s) st = map_option snd (gfx_delete_surface s st)"
| "gfx_exec (Gfx_Map_Output s x y) st = map_option snd (gfx_map_surface_to_output s x y st)"
| "gfx_exec (Gfx_Map_Scaled_Output s x y w h) st = map_option snd (gfx_map_surface_to_scaled_output s x y w h st)"
| "gfx_exec (Gfx_Map_Window s win w h) st = map_option snd (gfx_map_surface_to_window s win w h st)"
| "gfx_exec (Gfx_Map_Scaled_Window s win mw mh w h) st = map_option snd (gfx_map_surface_to_scaled_window s win mw mh w h st)"
| "gfx_exec (Gfx_Start_Frame t) st = map_option snd (gfx_start_frame t st)"
| "gfx_exec Gfx_End_Frame st = map_option snd (gfx_end_frame st)"
| "gfx_exec (Gfx_Wire_1 s codec_id f dest data) st = map_option snd (gfx_wire_to_surface_1 s codec_id f dest data st)"
| "gfx_exec (Gfx_Wire_2 s codec_id ctx f data) st = map_option snd (gfx_wire_to_surface_2 s codec_id ctx f data st)"
| "gfx_exec (Gfx_Delete_Context s ctx) st = map_option snd (gfx_delete_encoding_context s ctx st)"
| "gfx_exec (Gfx_Solid_Fill s color rects) st = map_option snd (gfx_solid_fill s color rects st)"
| "gfx_exec (Gfx_Surface_Surface s d rect pts) st = map_option snd (gfx_surface_to_surface s d rect pts st)"
| "gfx_exec (Gfx_Surface_Cache s rect key) st = map_option snd (gfx_surface_to_cache s rect key st)"
| "gfx_exec (Gfx_Cache_Surface slot s pts) st = map_option snd (gfx_cache_to_surface slot s pts st)"
| "gfx_exec (Gfx_Evict slot) st = map_option snd (gfx_evict_cache_entry slot st)"

text \<open>A call that aborts leaves the state as it was and reports so.\<close>

definition gfx_step :: "gfx_server \<Rightarrow> gfx_op \<Rightarrow> bool \<times> gfx_server" where
  "gfx_step st op = (case gfx_exec op st of None \<Rightarrow> (False, st) | Some st' \<Rightarrow> (True, st'))"

lemma gs_keepsD: "gs_keeps m \<Longrightarrow> m = Some (x, st') \<Longrightarrow> gs_inv st'"
  by (auto simp: gs_keeps_def)

lemmas gfx_command_keeps =
  gfx_plain_keeps gfx_reset_graphics_keeps gfx_create_surface_keeps gfx_delete_surface_keeps gfx_frame_keeps
  gfx_context_keeps gfx_evict_keeps gfx_surface_to_cache_keeps

lemmas gfx_command_inv = gfx_command_keeps [THEN gs_keepsD]

lemma gfx_take_poll_inv: "gs_inv st \<Longrightarrow> gs_inv (snd (gfx_take_output st)) \<and> gs_inv (snd (gfx_poll_event st))"
  by (simp add: gfx_take_output_def gfx_poll_event_def gs_inv_defs split: list.split)

lemma gfx_exec_inv:
  assumes "gs_inv st" "gfx_exec op st = Some st'"
  shows "gs_inv st'"
proof (cases op)
  case (Gfx_Receive bs)
  with assms gfx_receive_total [OF assms(1), of bs] show ?thesis by auto
qed (use assms gfx_take_poll_inv in \<open>auto intro: gfx_command_inv\<close>)

interpretation gfx_machine: machine gfx_step gs_inv "gfx_new config"
proof
  show "gs_inv (gfx_new config)"
    using gs_core_new [of config] by (simp add: gs_inv_def gfx_new_def)
qed (auto simp: gfx_step_def gfx_exec_inv split: option.split)

section \<open>What the entries are charged\<close>

text \<open>
  An entry is charged the 32-bit product of its size, \<open>width * height * 4\<close>. It is the number of its bytes if its
  area is below \<open>2^30\<close> pixels, which holds for every entry if it holds for every surface. The two facts are one
  invariant: of the entries' charges, and of a bound \<open>Q\<close> on areas that smaller areas inherit.
\<close>

definition pixel_bytes :: "gfx_entry list \<Rightarrow> nat" where
  "pixel_bytes c = sum_list (map (\<lambda>e. if en_used e then unat (en_width e) * unat (en_height e) * 4 else 0) c)"

definition area_ok :: "(nat \<Rightarrow> bool) \<Rightarrow> gfx_server \<Rightarrow> bool" where
  "area_ok Q st \<longleftrightarrow> (\<forall>s \<in> snd ` set (gs_surfaces st). Q (unat (su_width s) * unat (su_height s))) \<and>
     (\<forall>e \<in> set (gs_cache st). en_used e \<longrightarrow>
       en_bytes e = ucast (en_width e) * ucast (en_height e) * 4 \<and> Q (unat (en_width e) * unat (en_height e)))"

lemma area_ok_new: "area_ok Q (gfx_new config)"
  by (simp add: area_ok_def gfx_new_def)

lemma area_ok_frame:
  "area_ok Q st \<Longrightarrow> gs_surfaces st' = gs_surfaces st \<Longrightarrow> gs_cache st' = gs_cache st \<Longrightarrow> area_ok Q st'"
  by (simp add: area_ok_def)

lemma area_ok_cong [simp]:
  "area_ok Q (st\<lparr>gs_output := os\<rparr>) = area_ok Q st" "area_ok Q (st\<lparr>gs_events := es\<rparr>) = area_ok Q st"
  "area_ok Q (st\<lparr>gs_state := s\<rparr>) = area_ok Q st" "area_ok Q (st\<lparr>gs_failure := f\<rparr>) = area_ok Q st"
  "area_ok Q (st\<lparr>gs_negotiated := n\<rparr>) = area_ok Q st" "area_ok Q (st\<lparr>gs_input := bs\<rparr>) = area_ok Q st"
  by (simp_all add: area_ok_def)

lemma gfx_send_frame: "gfx_send pdu st = Some st' \<Longrightarrow> \<exists>bs. st' = st\<lparr>gs_output := gs_output st @ [bs]\<rparr>"
  by (auto simp: gfx_send_def split: bind_splits)

text \<open>Every result of a command has the property; the rules follow the way the commands are written.\<close>

definition results :: "(gfx_server \<Rightarrow> bool) \<Rightarrow> ('a \<times> gfx_server) option \<Rightarrow> bool" where
  "results P m \<longleftrightarrow> (\<forall>x st'. m = Some (x, st') \<longrightarrow> P st')"

named_theorems results_intros "commands all of whose results have a property"

lemma results_command [results_intros]:
  "P st \<Longrightarrow> results P (body st) \<Longrightarrow> results P (gfx_command none body st)"
  unfolding results_def by (auto elim!: gfx_commandE)

lemma results_assert [results_intros]: "(b \<Longrightarrow> results P m) \<Longrightarrow> results P (Option.bind (wassert b) (\<lambda>_. m))"
  by (simp add: wassert_def results_def)

lemma results_send [results_intros]:
  "(\<And>bs. results P (f (st\<lparr>gs_output := bs\<rparr>))) \<Longrightarrow> results P (Option.bind (gfx_send pdu st) f)"
  using gfx_send_frame [of pdu st] by (cases "gfx_send pdu st") (auto simp: results_def)

lemma results_bind [results_intros]: "(\<And>x. y = Some x \<Longrightarrow> results P (f x)) \<Longrightarrow> results P (Option.bind y f)"
  by (cases y) (simp_all add: results_def)

lemma results_if [results_intros]: "(b \<Longrightarrow> results P p) \<Longrightarrow> (\<not> b \<Longrightarrow> results P q) \<Longrightarrow> results P (if b then p else q)"
  by simp

lemma results_Let [results_intros]: "(\<And>x. x = v \<Longrightarrow> results P (f x)) \<Longrightarrow> results P (let x = v in f x)"
  by (simp add: Let_def)

lemma results_Some [results_intros]: "P st \<Longrightarrow> results P (Some (x, st))"
  by (simp add: results_def)

lemma area_plain_results:
  assumes "area_ok Q st"
  shows "results (area_ok Q) (gfx_map_surface_to_output s x y st)" "results (area_ok Q) (gfx_map_surface_to_scaled_output s x y w h st)"
    "results (area_ok Q) (gfx_map_surface_to_window s win w h st)" "results (area_ok Q) (gfx_map_surface_to_scaled_window s win mw mh w h st)"
    "results (area_ok Q) (gfx_wire_to_surface_1 s codec_id f dest data st)" "results (area_ok Q) (gfx_solid_fill s color rects st)"
    "results (area_ok Q) (gfx_surface_to_surface s d rect pts st)" "results (area_ok Q) (gfx_cache_to_surface slot s pts st)"
    "results (area_ok Q) (gfx_reset_graphics w h monitors st)" "results (area_ok Q) (gfx_start_frame timestamp st)"
    "results (area_ok Q) (gfx_end_frame st)" "results (area_ok Q) (gfx_wire_to_surface_2 s codec_id ctx f data st)"
    "results (area_ok Q) (gfx_delete_encoding_context s ctx st)"
  unfolding gfx_plain_commands gfx_cache_to_surface_def gfx_reset_graphics_def gfx_start_frame_def gfx_end_frame_def
    gfx_wire_to_surface_2_def gfx_delete_encoding_context_def
  by (rule assms results_intros | (rule area_ok_frame [OF assms]; simp))+

lemma surface_emplace_values: "snd ` set (surface_emplace k v m) \<subseteq> insert v (snd ` set m)"
  by (induction k v m rule: surface_emplace.induct) auto

lemma area_create_results:
  assumes "area_ok Q st" "Q (unat w * unat h)"
  shows "results (area_ok Q) (gfx_create_surface w h f st)"
proof -
  have "area_ok Q (st\<lparr>gs_surfaces := surface_emplace k \<lparr>su_width = w, su_height = h, su_format = f\<rparr> (gs_surfaces st),
      gs_output := bs\<rparr>)" for k bs
    using assms surface_emplace_values [of k "\<lparr>su_width = w, su_height = h, su_format = f\<rparr>" "gs_surfaces st"]
    unfolding area_ok_def by fastforce
  with assms(1) show ?thesis unfolding gfx_create_surface_def Let_def by (intro results_intros) simp_all
qed

lemma area_delete_results:
  assumes "area_ok Q st"
  shows "results (area_ok Q) (gfx_delete_surface s st)" "results (area_ok Q) (gfx_evict_cache_entry slot st)"
proof -
  have "area_ok Q (st\<lparr>gs_surfaces := filter P (gs_surfaces st), gs_codec_contexts := C, gs_output := bs\<rparr>)" for P C bs
    using assms by (auto simp: area_ok_def)
  then show "results (area_ok Q) (gfx_delete_surface s st)"
    using assms unfolding gfx_delete_surface_def by (intro results_intros) simp_all
  have "area_ok Q (st\<lparr>gs_cache_keys := ks, gs_cache_bytes := b, gs_cache := (gs_cache st)[i := empty_entry], gs_cache_hint := h,
      gs_output := bs\<rparr>)" for ks b i h bs
    using assms set_update_subset_insert [of "gs_cache st" i empty_entry] by (auto simp: area_ok_def empty_entry_def)
  then show "results (area_ok Q) (gfx_evict_cache_entry slot st)"
    using assms unfolding gfx_evict_cache_entry_def by (intro results_intros) simp_all
qed

lemma rect_inside_area:
  assumes "rect_inside r w h"
  shows "unat (rect_width r) * unat (rect_height r) \<le> unat w * unat h"
proof -
  have "unat (rc_right r - rc_left r) \<le> unat w" "unat (rc_bottom r - rc_top r) \<le> unat h"
    using assms by (auto simp: rect_inside_def rect_empty_def unat_sub word_le_nat_alt not_le)
  then show ?thesis by (auto simp: rect_width_def rect_height_def intro: mult_le_mono)
qed

lemma area_cache_results:
  assumes "area_ok Q st" "\<And>a b. a \<le> b \<Longrightarrow> Q b \<Longrightarrow> Q a"
  shows "results (area_ok Q) (gfx_surface_to_cache s rect key st)"
proof -
  have cached: "area_ok Q ((gfx_cached key (ucast (rect_width rect) * ucast (rect_height rect) * 4) rect i (gfx_sized_cache n st) st)
      \<lparr>gs_output := bs\<rparr>)"
    if "gfx_surface_of s st = Some src" "rect_inside rect (su_width src) (su_height src)" for src i n bs
  proof -
    have "src \<in> snd ` set (gs_surfaces st)" using that(1) by (force simp: gfx_surface_of_def dest: map_of_SomeD)
    then have "Q (unat (su_width src) * unat (su_height src))" using assms(1) unfolding area_ok_def by blast
    then have area: "Q (unat (rect_width rect) * unat (rect_height rect))" by (rule assms(2) [OF rect_inside_area [OF that(2)]])
    have sized: "en_bytes e = ucast (en_width e) * ucast (en_height e) * 4 \<and> Q (unat (en_width e) * unat (en_height e))"
      if "e \<in> set (gfx_sized_cache n st)" "en_used e" for e
      using that assms(1) by (auto simp: gfx_sized_cache_def area_ok_def empty_entry_def split: if_splits)
    let ?e = "\<lparr>en_key = key, en_bytes = ucast (rect_width rect) * ucast (rect_height rect) * 4, en_width = rect_width rect,
      en_height = rect_height rect, en_used = True\<rparr>"
    have "e = ?e \<or> e \<in> set (gfx_sized_cache n st)" if "e \<in> set ((gfx_sized_cache n st)[i := ?e])" for e
      using that set_update_subset_insert [of "gfx_sized_cache n st" i ?e] by auto
    with assms(1) area sized show ?thesis by (fastforce simp: area_ok_def gfx_cached_def)
  qed
  show ?thesis
    unfolding gfx_surface_to_cache_def gfx_sized_cache_def [symmetric] gfx_cached_def [symmetric] Let_def
    by (intro results_intros assms(1)) (erule (1) cached)
qed

lemma area_receive:
  assumes "area_ok Q st"
  shows "on_caps_advertise sets st = Some st' \<Longrightarrow> area_ok Q st'" "gfx_handle_pdu bs st = Some st' \<Longrightarrow> area_ok Q st'"
proof -
  have reset: "area_ok Q (if b then reset_protocol st else st)" for b
    using assms by (simp add: area_ok_def reset_protocol_def)
  show caps: "area_ok Q st'" if "on_caps_advertise sets st = Some st'" for sets
    using that assms reset [of "gs_state st = Gfx_Ready"]
    by (auto simp: on_caps_advertise_def Let_def gfx_fail_def gfx_push_def dest!: gfx_send_frame split: if_splits option.splits bind_splits)
  show "area_ok Q st'" if "gfx_handle_pdu bs st = Some st'"
    using that assms caps
    by (auto simp: gfx_handle_pdu_def gfx_fail_def gfx_push_def on_frame_acknowledge_def on_qoe_frame_acknowledge_def
        on_cache_import_offer_def Let_def dest!: gfx_send_frame split: sum.splits gfx_pdu.splits if_splits bind_splits
        elim!: area_ok_frame)
qed

lemma area_receive_loop:
  assumes "area_ok Q st" "gfx_receive_loop rest st = Some (rest', st')"
  shows "area_ok Q st'"
  using assms
proof (induction rest st rule: gfx_receive_loop.induct)
  case (1 rest st)
  then show ?case
    using area_receive(2) [OF "1.prems"(1)]
    by (auto simp: gfx_receive_loop.simps [of rest st] gfx_fail_def split: if_splits sum.splits option.splits bind_splits)
qed

text \<open>Only the creation of a surface bears on the bound.\<close>

fun op_area :: "(nat \<Rightarrow> bool) \<Rightarrow> gfx_op \<Rightarrow> bool" where
  "op_area Q (Gfx_Create_Surface w h f) = Q (unat w * unat h)"
| "op_area Q _ = True"

lemma op_area_True: "op_area (\<lambda>_. True) op"
  by (cases op) simp_all

lemma resultsD: "results P m \<Longrightarrow> m = Some (x, st') \<Longrightarrow> P st'"
  by (auto simp: results_def)

lemma area_exec:
  assumes "area_ok Q st" "op_area Q op" "\<And>a b. a \<le> b \<Longrightarrow> Q b \<Longrightarrow> Q a" "gfx_exec op st = Some st'"
  shows "area_ok Q st'"
proof (cases op)
  case (Gfx_Receive bs)
  then show ?thesis
    using assms(1,4) area_receive_loop [OF assms(1)]
    by (auto simp: gfx_receive_def split: if_splits bind_splits)
next
  case Gfx_Poll_Event
  then show ?thesis
    using assms(1,4) by (auto simp: gfx_poll_event_def split: list.splits)
qed (use assms area_plain_results [OF assms(1), THEN resultsD] area_create_results [OF assms(1), THEN resultsD]
  area_delete_results [OF assms(1), THEN resultsD] area_cache_results [OF assms(1,3), THEN resultsD]
  in \<open>auto simp: gfx_take_output_def\<close>)

lemma area_run:
  assumes "list_all (op_area Q) ops" "\<And>a b. a \<le> b \<Longrightarrow> Q b \<Longrightarrow> Q a" "area_ok Q st"
  shows "area_ok Q (snd (run gfx_step st ops))"
  using assms(1,3)
proof (induction ops arbitrary: st)
  case (Cons op ops)
  have "area_ok Q (snd (gfx_step st op))"
    using Cons.prems area_exec [OF Cons.prems(2) _ assms(2)] by (auto simp: gfx_step_def split: option.split)
  with Cons show ?case by (simp add: case_prod_beta)
qed simp

lemma entry_charge:
  assumes "en_bytes e = ucast (en_width e) * ucast (en_height e) * 4"
  shows "unat (en_bytes e) = unat (en_width e) * unat (en_height e) * 4 mod 2 ^ 32"
  using assms by (simp add: unat_word_ariths unat_ucast_le mod_simps)

lemma pixel_bytes_charged:
  assumes "area_ok (\<lambda>a. a < 2 ^ 30) st"
  shows "used_bytes (gs_cache st) = pixel_bytes (gs_cache st)"
proof -
  have "unat (en_bytes e) = unat (en_width e) * unat (en_height e) * 4" if "e \<in> set (gs_cache st)" "en_used e" for e
  proof -
    have "en_bytes e = ucast (en_width e) * ucast (en_height e) * 4" "unat (en_width e) * unat (en_height e) < 2 ^ 30"
      using that assms by (auto simp: area_ok_def)
    moreover from this(2) have "unat (en_width e) * unat (en_height e) * 4 mod 2 ^ 32 = unat (en_width e) * unat (en_height e) * 4"
      by (intro mod_less) (simp add: mult.commute)
    ultimately show ?thesis using entry_charge [of e] by simp
  qed
  then show ?thesis unfolding used_bytes_def pixel_bytes_def by (intro arg_cong [where f = sum_list] map_cong) simp_all
qed

section \<open>The input may be cut anywhere\<close>

lemma frame_pdu_app:
  assumes "frame_pdu bs m = framed" "framed \<noteq> Inr None"
  shows "frame_pdu (bs @ cs) m = framed"
proof -
  have long: "\<not> length bs < 8" using assms by (auto simp: frame_pdu_def gfx_header_size_def)
  have rest: "rd_skip 4 (mk_reader (bs @ cs) 0) = (Inr (), rd_advance 4 (mk_reader (bs @ cs) 0))"
    "rd_skip 4 (mk_reader bs 0) = (Inr (), rd_advance 4 (mk_reader bs 0))"
    "rd_u32le (rd_advance 4 (mk_reader (bs @ cs) 0)) = (Inr (le_value (take 4 (drop 4 bs))), rd_advance 8 (mk_reader (bs @ cs) 0))"
    "rd_u32le (rd_advance 4 (mk_reader bs 0)) = (Inr (le_value (take 4 (drop 4 bs))), rd_advance 8 (mk_reader bs 0))"
    using long by (simp_all add: rd_simps rd_u32le_def rd_le_def rd_bytes_ok)
  show ?thesis
    using assms long by (auto simp: frame_pdu_def gfx_header_size_def rest ptry_def pget_def pret_def pfail_def split: if_splits)
qed

abbreviation with_input :: "bytes \<Rightarrow> gfx_server \<Rightarrow> gfx_server" where
  "with_input bs st \<equiv> st\<lparr>gs_input := bs\<rparr>"

lemma gfx_fail_input: "gfx_fail reason (with_input bs st) = with_input bs (gfx_fail reason st)"
  by (simp add: gfx_fail_def)

lemma gfx_send_input: "gfx_send pdu (with_input bs st) = map_option (with_input bs) (gfx_send pdu st)"
  by (cases "encode_gfx pdu") (simp_all add: gfx_send_def)

lemma on_caps_advertise_input:
  "on_caps_advertise sets (with_input bs st) = map_option (with_input bs) (on_caps_advertise sets st)"
proof -
  have reset: "reset_protocol (with_input bs s) = with_input bs (reset_protocol s)" for s by (simp add: reset_protocol_def)
  have ready: "(with_input bs s)\<lparr>gs_negotiated := n, gs_state := Gfx_Ready\<rparr> = with_input bs (s\<lparr>gs_negotiated := n, gs_state := Gfx_Ready\<rparr>)"
    for s n by simp
  have push: "gfx_push ev (with_input bs s) = with_input bs (gfx_push ev s)" for ev s by (simp add: gfx_push_def)
  have before: "negotiated_before_10_3 (with_input bs st) = negotiated_before_10_3 st" by (simp add: negotiated_before_10_3_def)
  show ?thesis
    unfolding on_caps_advertise_def Let_def before
    by (simp add: reset gfx_fail_input ready gfx_send_input push option.map_comp comp_def bind_map_option map_option_bind
        split: option.split del: gfx_server.update_convs)
qed

lemma gfx_handle_pdu_input:
  "gfx_handle_pdu bs (with_input cs st) = map_option (with_input cs) (gfx_handle_pdu bs st)"
proof (cases "decode_gfx_pdu bs")
  case (Inl e)
  then show ?thesis by (simp add: gfx_handle_pdu_def gfx_fail_input)
next
  case (Inr pdu)
  have ack: "on_frame_acknowledge depth frame decoded (with_input cs st) =
      with_input cs (on_frame_acknowledge depth frame decoded st)" for depth frame decoded
    by (simp add: on_frame_acknowledge_def Let_def gfx_push_def)
  have push: "gfx_push ev (with_input cs s) = with_input cs (gfx_push ev s)" for ev s by (simp add: gfx_push_def)
  have offer: "on_cache_import_offer es (with_input cs st) = map_option (with_input cs) (on_cache_import_offer es st)" for es
    unfolding on_cache_import_offer_def gfx_send_input by (cases "gfx_send (CacheImportReply []) st") (simp_all add: push)
  show ?thesis
    using Inr by (cases pdu) (simp_all add: gfx_handle_pdu_def gfx_fail_input on_caps_advertise_input ack offer
        on_qoe_frame_acknowledge_def push)
qed

lemma gfx_receive_loop_input:
  "gfx_receive_loop rest (with_input cs st) = map_option (map_prod id (with_input cs)) (gfx_receive_loop rest st)"
proof (induction rest st rule: gfx_receive_loop.induct)
  case (1 rest st)
  show ?case
  proof (cases "gs_state st = Gfx_Failed")
    case False
    note unfold = gfx_receive_loop.simps [of rest]
    show ?thesis
    proof (cases "frame_pdu rest gfx_max_client_pdu_size")
      case (Inl e)
      with False show ?thesis by (simp add: unfold gfx_fail_input)
    next
      case (Inr framed)
      show ?thesis
      proof (cases framed)
        case (Some n)
        show ?thesis
          using 1 [OF False Inr Some] False Inr Some
          by (cases "gfx_handle_pdu (take n rest) st") (simp_all add: unfold gfx_handle_pdu_input)
      qed (use False Inr in \<open>simp add: unfold\<close>)
    qed
  qed (simp add: gfx_receive_loop.simps [of rest])
qed

lemma gfx_receive_loop_app:
  "gfx_receive_loop (rest @ cs) st = do {
     (rest', st') \<leftarrow> gfx_receive_loop rest st;
     if gs_state st' = Gfx_Failed then Some (rest' @ cs, st') else gfx_receive_loop (rest' @ cs) st'
   }"
proof (induction rest st rule: gfx_receive_loop.induct)
  case (1 rest st)
  show ?case
  proof (cases "gs_state st = Gfx_Failed")
    case False
    show ?thesis
    proof (cases "frame_pdu rest gfx_max_client_pdu_size")
      case (Inl e)
      then have "frame_pdu (rest @ cs) gfx_max_client_pdu_size = Inl e" by (rule frame_pdu_app) simp
      with False Inl show ?thesis by (simp add: gfx_receive_loop.simps [of rest] gfx_receive_loop.simps [of "rest @ cs"])
    next
      case (Inr framed)
      show ?thesis
      proof (cases framed)
        case None
        with False Inr show ?thesis by (simp add: gfx_receive_loop.simps [of rest])
      next
        case (Some n)
        then have n: "n \<le> length rest" using Inr frame_pdu_bounds by blast
        have "frame_pdu (rest @ cs) gfx_max_client_pdu_size = Inr (Some n)"
          using Inr Some by (intro frame_pdu_app) auto
        with False Inr Some n 1 [OF False Inr Some] show ?thesis
          by (cases "gfx_handle_pdu (take n rest) st")
            (simp_all add: gfx_receive_loop.simps [of rest] gfx_receive_loop.simps [of "rest @ cs"])
      qed
    qed
  qed (simp add: gfx_receive_loop.simps)
qed

lemma gfx_receive_append:
  "gfx_receive (bs @ cs) st = Option.bind (gfx_receive bs st) (gfx_receive cs)"
proof (cases "gs_state st = Gfx_Failed")
  case False
  show ?thesis
  proof (cases "gfx_receive_loop (gs_input st @ bs) st")
    case None
    then show ?thesis
      using False gfx_receive_loop_app [of "gs_input st @ bs" cs st] by (simp add: gfx_receive_def)
  next
    case (Some r)
    obtain rest st1 where r: "r = (rest, st1)" by fastforce
    with Some False show ?thesis
      using gfx_receive_loop_app [of "gs_input st @ bs" cs st] gfx_receive_loop_input [of "rest @ cs" rest st1]
      by (cases "gfx_receive_loop (rest @ cs) st1") (auto simp: gfx_receive_def split: if_splits)
  qed
qed (simp add: gfx_receive_def)

section \<open>After a failure\<close>

lemma gfx_failed_exec:
  assumes "gs_state st = Gfx_Failed"
  shows "\<exists>st'. gfx_exec op st = Some st' \<and> gs_state st' = Gfx_Failed \<and> set (gs_output st') \<subseteq> set (gs_output st) \<and>
    set (gs_events st') \<subseteq> set (gs_events st) \<and> gs_failure st' = gs_failure st"
proof -
  have [simp]: "gfx_command none body st = Some (none, st)" for none :: 'a and body
    using assms by (simp add: gfx_command_def gfx_usable_def)
  show ?thesis
    using assms
    by (cases op) (auto simp: gfx_receive_def gfx_take_output_def gfx_poll_event_def gfx_reset_graphics_def
        gfx_create_surface_def gfx_delete_surface_def gfx_plain_commands gfx_start_frame_def gfx_end_frame_def
        gfx_wire_to_surface_2_def gfx_delete_encoding_context_def gfx_surface_to_cache_def gfx_cache_to_surface_def
        gfx_evict_cache_entry_def split: list.splits)
qed

section \<open>Properties\<close>

definition gfx_default_config :: gfx_config where
  "gfx_default_config = \<lparr>gcf_max_version = gfx_v10_7, gcf_avc420 = True, gcf_avc444 = True, gcf_avc444v2 = True\<rparr>"

lemma gfx_cache_slot_key:
  assumes "gs_inv st"
  shows "gfx_cache_slot key st = Some slot \<longleftrightarrow> slot_key (gs_cache st) slot = Some key"
proof -
  have "distinct (map fst (gs_cache_keys st))" "(key, slot) \<in> set (gs_cache_keys st) \<longleftrightarrow> slot_key (gs_cache st) slot = Some key"
    using gs_invD(4) [OF assms] by (auto simp: cache_ok_def cache_agrees_def)
  then show ?thesis by (metis gfx_cache_slot_def map_of_eq_Some_iff)
qed

lemma frame_pdu_incomplete: "frame_pdu bs m = Inr None \<Longrightarrow> 8 \<le> m \<Longrightarrow> length bs < m"
  by (auto simp: frame_pdu_def gfx_header_size_def ptry_def pget_def pret_def pfail_def fail_def
      split: if_splits prod.splits sum.splits)

lemma gs_inv_output: "gs_inv st \<Longrightarrow> bs \<in> set (gs_output st) \<Longrightarrow> \<exists>pdu. gfx_ok pdu \<and> bs = gfx_pdu_enc pdu"
  by (simp add: gs_inv_defs)

lemma gs_inv_decodes: "gs_inv st \<Longrightarrow> bs \<in> set (gs_output st) \<Longrightarrow> \<not> isl (decode_gfx_pdu bs)"
  using gs_inv_output [of st bs] by (auto simp: decode_gfx_pdu_enc)

lemma gs_inv_limits:
  assumes "gs_inv st" "gs_negotiated st = Some n"
  shows "unat (gs_cache_bytes st) \<le> unat (ng_max_cache_bytes n)" "length (gs_cache_keys st) \<le> unat (ng_max_cache_slots n)"
proof -
  have ok: "cache_ok (Some n) (gs_cache st) (gs_cache_keys st) (gs_cache_bytes st) (gs_cache_hint st)"
    using gs_invD(4) [OF assms(1)] assms(2) by simp
  then show "unat (gs_cache_bytes st) \<le> unat (ng_max_cache_bytes n)" by (simp add: cache_ok_def cache_limits_def)
  have "length (gs_cache_keys st) \<le> length (gs_cache st)" using ok by (simp add: cache_ok_def cache_agrees_def)
  with ok show "length (gs_cache_keys st) \<le> unat (ng_max_cache_slots n)" by (auto simp: cache_ok_def cache_limits_def)
qed

lemma gfx_surface_to_cache_total:
  assumes "gs_inv st" "gs_state st = Gfx_Ready" "gs_in_frame st"
    and "gfx_surface_of surface st = Some src" "rect_inside rect (su_width src) (su_height src)" "gfx_cache_slot key st = None"
  shows "\<exists>r st'. gfx_surface_to_cache surface rect key st = Some (r, st') \<and>
    (case r of None \<Rightarrow> st' = st
     | Some slot \<Rightarrow> slot_key (gs_cache st) slot = None \<and>
         (\<forall>i. 0 < i \<longrightarrow> i < unat slot \<longrightarrow> slot_key (gs_cache st) (of_nat i) \<noteq> None) \<and>
         gfx_cache_slot key st' = Some slot \<and> (\<forall>k. k \<noteq> key \<longrightarrow> gfx_cache_slot k st' = gfx_cache_slot k st))"
proof -
  let ?bytes = "ucast (rect_width rect) * ucast (rect_height rect) * 4 :: u32"
  obtain n where n: "gs_negotiated st = Some n" using assms(1,2) by (auto simp: gs_inv_defs)
  have key: "key \<notin> fst ` set (gs_cache_keys st)" using assms(6) by (simp add: gfx_cache_slot_def map_of_eq_None_iff)
  have ready: "gfx_usable st = Some True" using assms(2) by (simp add: gfx_usable_def wassert_def)
  show ?thesis
  proof (cases "gs_cache_bytes st + ucast ?bytes > ucast (ng_max_cache_bytes n) \<or>
      length (gs_cache_keys st) \<ge> unat (ng_max_cache_slots n)")
    case True
    then show ?thesis
      using assms n key ready by (auto simp: gfx_surface_to_cache_def gfx_command_def wassert_def Let_def)
  next
    case False
    then have fit: "\<not> ucast (ng_max_cache_bytes n) < gs_cache_bytes st + ucast ?bytes"
      "length (gs_cache_keys st) < unat (ng_max_cache_slots n)" by auto
    note search = gfx_search [OF assms(1) n fit(2)]
    obtain i where i: "free_slot (gfx_sized_cache n st) (gs_cache_hint st) = Some i" "i < length (gfx_sized_cache n st)"
      "\<not> en_used (gfx_sized_cache n st ! i)" "\<forall>j < i. en_used (gfx_sized_cache n st ! j)"
      using search(1) by blast
    note cached = gfx_cached_inv [OF assms(1) n key fit i(1)]
    let ?slot = "of_nat (i + 1) :: u16"
    have slot: "unat ?slot = i + 1" using i(2) search(3) gs_negotiatedD(3) [OF assms(1) n] by (intro slot_of_index) simp
    let ?pdu = "SurfaceToCache surface key ?slot rect"
    have "gfx_ok ?pdu" using cached(2) rect_inside_ok [OF assms(5)] by (simp add: gfx_ok_def)
    then have "gfx_surface_to_cache surface rect key st =
        Some (Some ?slot, (gfx_cached key ?bytes rect i (gfx_sized_cache n st) st)
          \<lparr>gs_output := gs_output st @ [gfx_pdu_enc ?pdu]\<rparr>)"
      using assms n key ready False i(1)
      by (simp add: gfx_surface_to_cache_def gfx_command_def wassert_def Let_def gfx_send_ok
          flip: gfx_sized_cache_def gfx_cached_def) (simp add: gfx_cached_def)
    moreover have "slot_key (gs_cache st) ?slot = None"
      using i(3) slot by (cases "gs_cache st = []") (auto simp: slot_key_def gfx_sized_cache_def)
    moreover have "slot_key (gs_cache st) (of_nat j) \<noteq> None" if "0 < j" "j < unat ?slot" for j
    proof -
      have "en_used (gfx_sized_cache n st ! (j - 1))" "j - 1 < length (gfx_sized_cache n st)" using that slot i(2,4) by auto
      moreover have "unat (of_nat j :: u16) = j" using that slot i(2) search(3) gs_negotiatedD(3) [OF assms(1) n]
        by (intro slot_of_index) simp
      ultimately show ?thesis using that by (auto simp: slot_key_def gfx_sized_cache_def empty_entry_def split: if_splits)
    qed
    ultimately show ?thesis by (auto simp: gfx_cache_slot_def gfx_cached_def)
  qed
qed

lemma gfx_create_surface_lookup:
  assumes "gs_inv st" "gs_state st = Gfx_Ready" "gfx_create_surface w h f st = Some (ident, st')"
  shows "gfx_surface_of ident st = None \<and> (\<forall>k. k < ident \<longrightarrow> gfx_surface_of k st \<noteq> None) \<and>
    gfx_surface_of ident st' = Some \<lparr>su_width = w, su_height = h, su_format = f\<rparr> \<and>
    (\<forall>k. k \<noteq> ident \<longrightarrow> gfx_surface_of k st' = gfx_surface_of k st)"
proof -
  let ?s = "\<lparr>su_width = w, su_height = h, su_format = f\<rparr>"
  let ?id = "free_surface_id 0 (gs_surfaces st)"
  let ?st = "st\<lparr>gs_surfaces := surface_emplace ?id ?s (gs_surfaces st)\<rparr>"
  have cmd: "gfx_send (CreateSurface ?id w h f) ?st = Some st'" "ident = ?id" "length (gs_surfaces st) \<le> 0xFFFF"
    "gfx_fields_ok (CreateSurface ?id w h f)"
    using assms(2,3)
    by (auto simp: gfx_create_surface_def gfx_command_def gfx_usable_def wassert_def Let_def split: bind_splits if_splits)
  then have st': "gs_surfaces st' = surface_emplace ?id ?s (gs_surfaces st)"
    using gfx_send_SomeD [OF cmd(1,4)] by simp
  have sorted: "sorted_wrt (<) (map fst (gs_surfaces st))" using gs_invD(1) [OF assms(1)] by (simp add: surfaces_ok_def)
  have "?id \<notin> fst ` set (gs_surfaces st)" "\<forall>k. k < ?id \<longrightarrow> k \<in> fst ` set (gs_surfaces st)"
    using free_surface_id_lowest [OF sorted, of 0] cmd(3) by auto
  then show ?thesis
    unfolding gfx_surface_of_def st' cmd(2) surface_emplace_lookup [OF sorted]
    by (auto simp: map_of_eq_None_iff)
qed

lemma gfx_receive_pdu:
  assumes "gs_state st \<noteq> Gfx_Failed" "gs_input st = []" "gfx_ok pdu" "length (gfx_pdu_enc pdu) \<le> gfx_max_client_pdu_size"
    and "gfx_handle_pdu (gfx_pdu_enc pdu) st = Some st'"
  shows "gfx_receive (gfx_pdu_enc pdu) st = Some (st'\<lparr>gs_input := []\<rparr>)"
proof -
  have "frame_pdu (gfx_pdu_enc pdu) gfx_max_client_pdu_size = Inr (Some (length (gfx_pdu_enc pdu)))"
    using frame_pdu_enc [OF assms(3,4), of "[]"] by simp
  moreover have "gfx_receive_loop [] st' = Some ([], st')" by (simp add: gfx_receive_loop.simps)
  ultimately show ?thesis
    using assms(1,2,5) by (simp add: gfx_receive_def gfx_receive_loop.simps [of "gfx_pdu_enc pdu"])
qed

text \<open>A short session: the client offers version 10.7, and a surface is created and drawn to.\<close>

definition gfx_drawing :: "gfx_op list" where
  "gfx_drawing = [Gfx_Receive (gfx_pdu_enc (CapsAdvertise [make_capability_set gfx_v10_7 0])),
     Gfx_Reset_Graphics 64 64 [], Gfx_Create_Surface 64 64 pixel_xrgb_8888, Gfx_Start_Frame 0]"

lemma gfx_drawing_state:
  "\<exists>st. snd (run gfx_step (gfx_new gfx_default_config) gfx_drawing) = st \<and> gs_state st = Gfx_Ready \<and> gs_in_frame st \<and>
     gs_graphics_reset st \<and> gs_surfaces st = [(0, \<lparr>su_width = 64, su_height = 64, su_format = pixel_xrgb_8888\<rparr>)] \<and> gs_cache_keys st = [] \<and> map length (gs_output st) = [20, 340, 15, 16]"
proof -
  let ?pdu = "CapsAdvertise [make_capability_set gfx_v10_7 0]"
  have caps: "caps_set_ok (make_capability_set gfx_v10_7 0)"
    by (simp add: caps_set_ok_def make_capability_set_def caps_data_length_def gfx_versions)
  have len: "length (caps_set_enc (make_capability_set gfx_v10_7 0)) = 12"
    by (simp add: length_caps_set_enc make_capability_set_def caps_data_length_def gfx_versions)
  have ok: "gfx_ok ?pdu" using caps len by (simp add: gfx_ok_def gfx_count_enc_def gfx_constants)
  let ?st = "gfx_new gfx_default_config"
  have neg: "negotiate [make_capability_set gfx_v10_7 0] gfx_default_config = Some (derive gfx_v10_7 0 gfx_default_config)"
    by (simp add: negotiate_def preferred_versions_def gfx_default_config_def make_capability_set_def caps_data_length_def gfx_versions)
  have len': "length (caps_set_enc (make_capability_set (ng_version (derive gfx_v10_7 0 gfx_default_config)) flags)) = 12" for flags
    by (simp add: length_caps_set_enc make_capability_set_def caps_data_length_def derive_def Let_def gfx_versions)
  obtain st1 where st1: "gfx_handle_pdu (gfx_pdu_enc ?pdu) ?st = Some st1" "gs_state st1 = Gfx_Ready" "gs_surfaces st1 = []"
    "gs_cache_keys st1 = []" "\<not> gs_in_frame st1" "gs_next_frame_id st1 = 1" "map length (gs_output st1) = [20]"
    using neg len' by (simp add: gfx_handle_pdu_def decode_gfx_pdu_enc [OF ok] on_caps_advertise_def gfx_new_def gfx_send_ok confirm_ok
        gfx_push_def)
  have "gfx_receive (gfx_pdu_enc ?pdu) ?st = Some (st1\<lparr>gs_input := []\<rparr>)"
    by (rule gfx_receive_pdu) (use ok st1 len in \<open>simp_all add: gfx_new_def gfx_count_enc_def gfx_max_client_pdu_size_def gfx_constants\<close>)
  moreover have "gfx_ok (ResetGraphics 64 64 [\<lparr>mo_left = 0, mo_top = 0, mo_right = 63, mo_bottom = 63, mo_flags = 1\<rparr>])"
    "gfx_ok (CreateSurface 0 64 64 pixel_xrgb_8888)" "gfx_ok (StartFrame 0 1)"
    by (simp_all add: gfx_ok_def gfx_constants valid_pixel_format_def)
  ultimately show ?thesis
    using st1 by (simp add: gfx_drawing_def gfx_step_def gfx_reset_graphics_def gfx_create_surface_def gfx_start_frame_def
        gfx_command_def gfx_usable_def wassert_def gfx_constants Let_def gfx_send_ok valid_pixel_format_def valid_timestamp_def)
qed

text \<open>
  C11: Whatever the client sends and whichever commands the server's own code issues, in any order: the map
  from cache keys to slots and the slots themselves describe the same entries; the cache bytes are the sum of what
  the used entries were charged and stay within the negotiated cache, as do the slots; an entry is charged
  \<open>width * height * 4\<close> modulo \<open>2^32\<close>, so that as long as no surface of \<open>2^30\<close> pixels or more has been created
  (the largest output, 32766 by 32766, is below that), the cache bytes are the documented \<open>width * height * 4\<close>
  per entry; the surfaces are kept in the order of
  their identifiers, with non-empty sizes, and every codec context belongs to one of them; no frame is in flight
  while the client has suspended acknowledgements; less than one PDU of input is buffered; and every PDU in
  the output queue decodes.
\<close>

theorem gfx_server_invariant:
  "let st = snd (run gfx_step (gfx_new config) ops) in
     (\<forall>key slot. gfx_cache_slot key st = Some slot \<longleftrightarrow> slot_key (gs_cache st) slot = Some key) \<and>
     unat (gs_cache_bytes st) = used_bytes (gs_cache st) \<and>
     (\<forall>e \<in> set (gs_cache st). en_used e \<longrightarrow> unat (en_bytes e) = unat (en_width e) * unat (en_height e) * 4 mod 2 ^ 32) \<and>
     (list_all (op_area (\<lambda>area. area < 2 ^ 30)) ops \<longrightarrow> unat (gs_cache_bytes st) = pixel_bytes (gs_cache st)) \<and>
     (case gs_negotiated st of None \<Rightarrow> gs_cache_keys st = []
      | Some n \<Rightarrow> unat (gs_cache_bytes st) \<le> unat (ng_max_cache_bytes n) \<and>
          length (gs_cache_keys st) \<le> unat (ng_max_cache_slots n)) \<and>
     surfaces_ok (gs_surfaces st) \<and> fst ` gs_codec_contexts st \<subseteq> fst ` set (gs_surfaces st) \<and>
     (if gs_acks_suspended st then gfx_frames_in_flight st = 0 else True) \<and>
     length (gs_input st) < gfx_max_client_pdu_size \<and>
     list_all (\<lambda>bs. \<not> isl (decode_gfx_pdu bs)) (gs_output st)"
proof -
  let ?st = "snd (run gfx_step (gfx_new config) ops)"
  have inv: "gs_inv ?st" by (rule gfx_machine.inv_run)
  have "list_all (\<lambda>bs. \<not> isl (decode_gfx_pdu bs)) (gs_output ?st)"
    using gs_inv_decodes [OF inv] by (simp add: list_all_iff)
  moreover have "length (gs_input ?st) < gfx_max_client_pdu_size"
    by (rule frame_pdu_incomplete) (use inv in \<open>simp_all add: gs_inv_def gfx_max_client_pdu_size_def gfx_header_size_def\<close>)
  moreover have "case gs_negotiated ?st of None \<Rightarrow> gs_cache_keys ?st = []
      | Some n \<Rightarrow> unat (gs_cache_bytes ?st) \<le> unat (ng_max_cache_bytes n) \<and> length (gs_cache_keys ?st) \<le> unat (ng_max_cache_slots n)"
    using gs_invD(4) [OF inv] gs_inv_limits [OF inv] by (auto split: option.split dest: cache_ok_None)
  moreover have "if gs_acks_suspended ?st then gfx_frames_in_flight ?st = 0 else True"
    using inv by (simp add: gs_inv_defs gfx_frames_in_flight_def)
  moreover have bytes: "unat (gs_cache_bytes ?st) = used_bytes (gs_cache ?st)" using gs_invD(4) [OF inv] by (simp add: cache_ok_def)
  moreover have "unat (gs_cache_bytes ?st) = pixel_bytes (gs_cache ?st)" if "list_all (op_area (\<lambda>area. area < 2 ^ 30)) ops"
    unfolding bytes by (rule pixel_bytes_charged, rule area_run [OF that _ area_ok_new]) simp
  moreover have "area_ok (\<lambda>_. True) ?st"
    by (rule area_run) (simp_all add: op_area_True area_ok_new list_all_iff)
  then have "\<forall>e \<in> set (gs_cache ?st). en_used e \<longrightarrow> unat (en_bytes e) = unat (en_width e) * unat (en_height e) * 4 mod 2 ^ 32"
    unfolding area_ok_def using entry_charge by blast
  ultimately show ?thesis
    using gs_invD(1,2) [OF inv] gfx_cache_slot_key [OF inv] unfolding Let_def by blast
qed

theorem gfx_server_invariant_witness:
  "let st = snd (run gfx_step (gfx_new gfx_default_config) (gfx_drawing @
     [Gfx_Surface_Cache 0 \<lparr>rc_left = 0, rc_top = 0, rc_right = 64, rc_bottom = 32\<rparr> 7])) in
   unat (gs_cache_bytes st) = pixel_bytes (gs_cache st)"
proof -
  have "list_all (op_area (\<lambda>area. area < 2 ^ 30)) (gfx_drawing @
     [Gfx_Surface_Cache 0 \<lparr>rc_left = 0, rc_top = 0, rc_right = 64, rc_bottom = 32\<rparr> 7])"
    by (simp add: gfx_drawing_def)
  then show ?thesis
    using gfx_server_invariant [of gfx_default_config "gfx_drawing @
     [Gfx_Surface_Cache 0 \<lparr>rc_left = 0, rc_top = 0, rc_right = 64, rc_bottom = 32\<rparr> 7]"]
    unfolding Let_def by blast
qed

text \<open>
  C12: No input from the client stops the server or depends on how it was cut up: in whatever state the server is,
  arbitrary bytes are processed without an assertion failing, and processing them in two pieces, cut anywhere,
  leaves exactly the state that processing them at once does.
\<close>

theorem gfx_receive_robust:
  "let st = snd (run gfx_step (gfx_new config) ops) in
     \<exists>st1 st2. gfx_receive bs st = Some st1 \<and> gfx_receive cs st1 = Some st2 \<and> gfx_receive (bs @ cs) st = Some st2"
proof -
  let ?st = "snd (run gfx_step (gfx_new config) ops)"
  obtain st1 where st1: "gfx_receive bs ?st = Some st1" "gs_inv st1"
    using gfx_receive_total [OF gfx_machine.inv_run] by blast
  moreover obtain st2 where "gfx_receive cs st1 = Some st2" using gfx_receive_total [OF st1(2)] by blast
  ultimately show ?thesis by (simp add: Let_def gfx_receive_append)
qed

text \<open>
  C19: What is confirmed was offered: when the negotiation succeeds, the client advertised a set of the version,
  the version is within the configured maximum and is the first such version in the order of preference, and no
  flag is confirmed that the client did not set or the version does not define. An H.264 mode is used
  exactly when both sides allow it: the configuration has it, and the client has, in version 8.1, set its flag for
  AVC420 or, from version 10 on (10.4 for AVC420), not set the flag, where the version defines it, that disables AVC.
  The negotiation fails exactly when no set of a supported version was offered.
\<close>

theorem gfx_negotiation:
  "case negotiate sets config of
     None \<Rightarrow> (\<forall>s. \<not> (s \<in> set sets \<and> gc_version s \<in> set preferred_versions \<and> gc_version s \<le> gcf_max_version config))
   | Some n \<Rightarrow> ng_version n \<le> gcf_max_version config \<and>
       find (\<lambda>v. v \<le> gcf_max_version config \<and> v \<in> gc_version ` set sets) preferred_versions = Some (ng_version n) \<and>
       (ng_version n, ng_client_flags n) \<in> (\<lambda>s. (gc_version s, gc_flags s)) ` set sets \<and>
       ng_flags n AND NOT (ng_client_flags n AND defined_caps_flags (ng_version n)) = 0 \<and>
       (ng_avc420 n \<longleftrightarrow> gcf_avc420 config \<and>
         (if ng_version n = gfx_v8_1 then ng_client_flags n AND caps_avc420_enabled \<noteq> 0
          else gfx_v10_4 \<le> ng_version n \<and> \<not> avc_refused n)) \<and>
       (ng_avc444 n \<longleftrightarrow> gcf_avc444 config \<and> gfx_v10 \<le> ng_version n \<and> \<not> avc_refused n) \<and>
       (ng_avc444v2 n \<longleftrightarrow> gcf_avc444v2 config \<and> gfx_v10 \<le> ng_version n \<and> \<not> avc_refused n) \<and>
       (ng_avc420 n \<or> ng_avc444 n \<or> ng_avc444v2 n \<longrightarrow> ng_flags n AND caps_avc_disabled = 0)"
proof (cases "negotiate sets config")
  case None
  then have "\<forall>v \<in> set preferred_versions. v \<le> gcf_max_version config \<longrightarrow> v \<notin> gc_version ` set sets"
    unfolding negotiate_def negotiate_loop_None .
  with None show ?thesis by auto
next
  case (Some n)
  then obtain before after s where split: "preferred_versions = before @ gc_version s # after" "s \<in> set sets"
    "gc_version s \<le> gcf_max_version config" "n = derive (gc_version s) (gc_flags s) config"
    "\<forall>v \<in> set before. v \<le> gcf_max_version config \<longrightarrow> v \<notin> gc_version ` set sets"
    unfolding negotiate_def using negotiate_loop_Some by blast
  have "find (\<lambda>v. v \<le> gcf_max_version config \<and> v \<in> gc_version ` set sets) (before @ gc_version s # after) = Some (gc_version s)"
    using split(2,3,5) by (induction before) auto
  moreover have "(ng_version n, ng_client_flags n) \<in> (\<lambda>s. (gc_version s, gc_flags s)) ` set sets"
    using split(2) unfolding split(4) derive_fields by blast
  moreover have "ng_version n = gc_version s" "ng_flags n AND NOT (ng_client_flags n AND defined_caps_flags (ng_version n)) = 0"
    unfolding split(4) derive_fields by (rule refl) (rule derive_flags)
  ultimately show ?thesis
    unfolding Some option.case using split(1,3) derive_avc [OF split(4)] by simp
qed

theorem gfx_negotiation_witness:
  "ng_avc444 (the (negotiate [\<lparr>gc_version = 0x000B0101, gc_flags = 0, gc_unknown_data = [0, 0, 0, 0]\<rparr>,
      \<lparr>gc_version = gfx_v10_6, gc_flags = 0x1002, gc_unknown_data = []\<rparr>] gfx_default_config)) \<and>
   ng_flags (the (negotiate [\<lparr>gc_version = 0x000B0101, gc_flags = 0, gc_unknown_data = [0, 0, 0, 0]\<rparr>,
      \<lparr>gc_version = gfx_v10_6, gc_flags = 0x1002, gc_unknown_data = []\<rparr>] gfx_default_config)) AND caps_avc_disabled = 0"
proof -
  let ?sets = "[\<lparr>gc_version = 0x000B0101, gc_flags = 0, gc_unknown_data = [0, 0, 0, 0]\<rparr>,
      \<lparr>gc_version = gfx_v10_6, gc_flags = 0x1002, gc_unknown_data = []\<rparr>]"
  have "negotiate ?sets gfx_default_config \<noteq> None \<and> ng_avc444 (the (negotiate ?sets gfx_default_config))" by code_simp
  with gfx_negotiation [of ?sets gfx_default_config] show ?thesis by (auto split: option.splits)
qed

text \<open>
  C13: Inside a frame, caching a rectangle of a surface under a new key never fails an assertion and its search for
  a slot always ends. When the entry does not fit, nothing changes. Otherwise the slot returned was free, every
  lower slot was in use, the new key is found there, and every other key is found where it was.
\<close>

theorem gfx_cache_slots:
  assumes "st = snd (run gfx_step (gfx_new config) ops)" "gs_state st = Gfx_Ready" "gs_in_frame st"
    and "gfx_surface_of surface st = Some src" "rect_inside rect (su_width src) (su_height src)" "gfx_cache_slot key st = None"
  shows "\<exists>r st'. gfx_surface_to_cache surface rect key st = Some (r, st') \<and>
    (case r of None \<Rightarrow> st' = st
     | Some slot \<Rightarrow> slot_key (gs_cache st) slot = None \<and>
         (\<forall>i. 0 < i \<longrightarrow> i < unat slot \<longrightarrow> slot_key (gs_cache st) (of_nat i) \<noteq> None) \<and>
         gfx_cache_slot key st' = Some slot \<and> (\<forall>k. k \<noteq> key \<longrightarrow> gfx_cache_slot k st' = gfx_cache_slot k st))"
  by (rule gfx_surface_to_cache_total) (use assms gfx_machine.inv_run in auto)

theorem gfx_cache_slots_witness:
  "\<exists>r st'. gfx_surface_to_cache 0 \<lparr>rc_left = 0, rc_top = 0, rc_right = 8, rc_bottom = 8\<rparr> 7
      (snd (run gfx_step (gfx_new gfx_default_config) gfx_drawing)) = Some (r, st')"
proof -
  let ?st = "snd (run gfx_step (gfx_new gfx_default_config) gfx_drawing)"
  have "gs_state ?st = Gfx_Ready" "gs_in_frame ?st"
      "gfx_surface_of 0 ?st = Some \<lparr>su_width = 64, su_height = 64, su_format = pixel_xrgb_8888\<rparr>" "gfx_cache_slot 7 ?st = None"
    using gfx_drawing_state by (auto simp: gfx_surface_of_def gfx_cache_slot_def)
  moreover have "rect_inside \<lparr>rc_left = 0, rc_top = 0, rc_right = 8, rc_bottom = 8\<rparr>
      (su_width \<lparr>su_width = 64, su_height = 64, su_format = pixel_xrgb_8888\<rparr>)
      (su_height \<lparr>su_width = 64, su_height = 64, su_format = pixel_xrgb_8888\<rparr>)" by (simp add: rect_inside_def rect_empty_def)
  ultimately show ?thesis using gfx_cache_slots [OF refl] by blast
qed

text \<open>
  C25: A new surface gets the lowest identifier that no surface has; it is found under it with the size and format
  asked for, and the other surfaces stay as they were.
\<close>

theorem gfx_create_surface_fresh:
  assumes "st = snd (run gfx_step (gfx_new config) ops)" "gs_state st = Gfx_Ready" "gfx_create_surface w h f st = Some (ident, st')"
  shows "gfx_surface_of ident st = None \<and> (\<forall>k. k < ident \<longrightarrow> gfx_surface_of k st \<noteq> None) \<and>
    gfx_surface_of ident st' = Some \<lparr>su_width = w, su_height = h, su_format = f\<rparr> \<and>
    (\<forall>k. k \<noteq> ident \<longrightarrow> gfx_surface_of k st' = gfx_surface_of k st)"
  by (rule gfx_create_surface_lookup) (use assms gfx_machine.inv_run in auto)

theorem gfx_create_surface_fresh_witness:
  "gfx_surface_of 1 (snd (run gfx_step (gfx_new gfx_default_config) gfx_drawing)) = None"
proof -
  let ?st = "snd (run gfx_step (gfx_new gfx_default_config) gfx_drawing)"
  have "gfx_ok (CreateSurface 1 5 5 pixel_xrgb_8888)" by (simp add: gfx_ok_def valid_pixel_format_def)
  then obtain st' where "gfx_create_surface 5 5 pixel_xrgb_8888 ?st = Some (1, st')" "gs_state ?st = Gfx_Ready"
    using gfx_drawing_state
    by (auto simp: gfx_create_surface_def gfx_command_def gfx_usable_def wassert_def gfx_send_ok valid_pixel_format_def)
  then show ?thesis using gfx_create_surface_fresh [OF refl] by blast
qed

text \<open>
  C24: A failed server stays failed, for the reason it gave; it sends nothing more, reports nothing more, and no
  command that was still pending aborts.
\<close>

theorem gfx_failure_final:
  assumes "gs_state st = Gfx_Failed"
  shows "let (oks, st') = run gfx_step st ops in
    list_all id oks \<and> gs_state st' = Gfx_Failed \<and> gs_failure st' = gs_failure st \<and>
    set (gs_output st') \<subseteq> set (gs_output st) \<and> set (gs_events st') \<subseteq> set (gs_events st)"
  using assms
proof (induction ops arbitrary: st)
  case (Cons op ops)
  obtain st1 where st1: "gfx_exec op st = Some st1" "gs_state st1 = Gfx_Failed" "set (gs_output st1) \<subseteq> set (gs_output st)"
    "set (gs_events st1) \<subseteq> set (gs_events st)" "gs_failure st1 = gs_failure st"
    using gfx_failed_exec [OF Cons.prems] by blast
  from Cons.IH [OF st1(2)] st1 show ?case
    by (auto simp: gfx_step_def Let_def case_prod_beta)
qed simp

theorem gfx_failure_final_witness:
  "list_all id (fst (run gfx_step (gfx_fail ''bad'' (gfx_new gfx_default_config)) [Gfx_Start_Frame 0, Gfx_Receive [1, 2]]))"
  using gfx_failure_final [of "gfx_fail ''bad'' (gfx_new gfx_default_config)" "[Gfx_Start_Frame 0, Gfx_Receive [1, 2]]"]
  by (simp only: gfx_fail_state Let_def case_prod_beta)

end
