(* ===== verification/Graphics_Flush.thy ===== *)
theory Graphics_Flush
  imports Dynamic_Channels Rdpgfx_Server
begin

text \<open>
  \<open>GraphicsPipeline::flush\<close> (\<open>server/graphics_pipeline.cpp\<close>): the PDUs the graphics server has
  queued are gathered into batches, compressed and sent on the graphics channel. Here the layers meet: graphics
  PDUs, ZGFX, dynamic channels, static channels; the theorem at the end follows a PDU through all of them.
\<close>

section \<open>Model\<close>

definition gp_max_batch_size :: nat where "gp_max_batch_size = 16 * 1024"

record 'd graphics_output =
  gp_gfx :: gfx_server
  gp_zgfx :: zgfx_comp
  gp_channels :: "'d dynamic_channels"
  gp_channel_id :: u32
  gp_holding :: bool
  gp_held :: "bytes list"

text \<open>The closure \<open>send_batch\<close>, for the byte order of the machine.\<close>

definition gp_send_batch :: "endian \<Rightarrow> bytes \<Rightarrow> 'd graphics_output \<Rightarrow> 'd graphics_output option" where
  "gp_send_batch en batch st =
     (if batch = [] then Some st
      else do {
        (message, zgfx) \<leftarrow> zc_compress en batch [] (gp_zgfx st);
        let st = st\<lparr>gp_zgfx := zgfx\<rparr>;
        if gp_holding st then Some (st\<lparr>gp_held := gp_held st @ [message]\<rparr>)
        else do {
          (_, channels) \<leftarrow> dyn_send (gp_channel_id st) message (gp_channels st);
          Some (st\<lparr>gp_channels := channels\<rparr>)
        }
      })"

fun gp_flush_loop :: "endian \<Rightarrow> bytes list \<Rightarrow> bytes \<Rightarrow> 'd graphics_output \<Rightarrow> 'd graphics_output option" where
  "gp_flush_loop en [] batch st = gp_send_batch en batch st"
| "gp_flush_loop en (pdu # pdus) batch st =
     (if batch \<noteq> [] \<and> length batch + length pdu > gp_max_batch_size
      then do {
        st \<leftarrow> gp_send_batch en batch st;
        gp_flush_loop en pdus pdu st
      }
      else gp_flush_loop en pdus (batch @ pdu) st)"

definition gp_flush :: "endian \<Rightarrow> 'd graphics_output \<Rightarrow> 'd graphics_output option" where
  "gp_flush en st = (let (pdus, gfx) = gfx_take_output (gp_gfx st) in gp_flush_loop en pdus [] (st\<lparr>gp_gfx := gfx\<rparr>))"

section \<open>The receiving side\<close>

text \<open>
  What a client does with the chunks of the static channel: reassemble them, reassemble the data of the graphics
  channel, decompress each message, and take the PDUs off the front of the result.
\<close>

fun decompress_all :: "bytes list \<Rightarrow> zgfx_dec \<Rightarrow> (bytes list \<times> zgfx_dec) option" where
  "decompress_all [] d = Some ([], d)"
| "decompress_all (m # ms) d = (case zd_decompress m d of
     Some (Inr x, d) \<Rightarrow> map_option (map_prod (Cons x) id) (decompress_all ms d)
   | _ \<Rightarrow> None)"

function parse_pdus :: "bytes \<Rightarrow> gfx_pdu list option" where
  "parse_pdus bs =
     (if bs = [] then Some []
      else case frame_pdu bs (length bs) of
        Inr (Some n) \<Rightarrow> (case decode_gfx_pdu (take n bs) of
            Inr pdu \<Rightarrow> map_option (Cons pdu) (parse_pdus (drop n bs))
          | Inl _ \<Rightarrow> None)
      | _ \<Rightarrow> None)"
  by pat_completeness auto
termination
  by (relation "measure length") (auto dest!: frame_pdu_bounds simp: gfx_header_size_def)

declare parse_pdus.simps [simp del]

definition client_pdus :: "svc_reassembler \<Rightarrow> dvc_reassembler \<Rightarrow> zgfx_dec \<Rightarrow> bytes list \<Rightarrow> gfx_pdu list option" where
  "client_pdus svc mr d wire =
     (case feed svc_add svc wire of (None, dvcs, _) \<Rightarrow>
        (case feed dvc_receive mr dvcs of (None, messages, _) \<Rightarrow> do {
           (batches, _) \<leftarrow> decompress_all messages d;
           parse_pdus (concat batches)
         } | _ \<Rightarrow> None)
      | _ \<Rightarrow> None)"

section \<open>Batches\<close>

fun batches :: "bytes list \<Rightarrow> bytes \<Rightarrow> bytes list" where
  "batches [] batch = (if batch = [] then [] else [batch])"
| "batches (pdu # pdus) batch =
     (if batch \<noteq> [] \<and> length batch + length pdu > gp_max_batch_size then batch # batches pdus pdu
      else batches pdus (batch @ pdu))"

lemma concat_batches: "concat (batches pdus batch) = batch @ concat pdus"
  by (induction pdus arbitrary: batch) auto

lemma batch_size:
  assumes "\<forall>p \<in> set pdus. length p \<le> B" "length batch \<le> B" "gp_max_batch_size \<le> B"
  shows "\<forall>b \<in> set (batches pdus batch). length b \<le> B"
  using assms
proof (induction pdus arbitrary: batch)
  case (Cons pdu pdus)
  show ?case
  proof (cases "batch \<noteq> [] \<and> length batch + length pdu > gp_max_batch_size")
    case False
    then have "length (batch @ pdu) \<le> B" using Cons.prems by (cases "batch = []") auto
    from Cons.IH [OF _ this] False Cons.prems show ?thesis by auto
  qed (use Cons in auto)
qed simp

lemma parse_pdus_concat:
  assumes "list_all gfx_ok pdus"
  shows "parse_pdus (concat (map gfx_pdu_enc pdus)) = Some pdus"
  using assms
proof (induction pdus)
  case Nil
  show ?case by (simp add: parse_pdus.simps)
next
  case (Cons pdu pdus)
  let ?rest = "concat (map gfx_pdu_enc pdus)"
  have "frame_pdu (gfx_pdu_enc pdu @ ?rest) (length (gfx_pdu_enc pdu @ ?rest)) = Inr (Some (length (gfx_pdu_enc pdu)))"
    using Cons.prems by (intro frame_pdu_enc) auto
  moreover have "gfx_pdu_enc pdu \<noteq> []" using length_gfx_pdu_enc [of pdu] by force
  ultimately show ?case
    using Cons by (simp add: parse_pdus.simps [of "gfx_pdu_enc pdu @ ?rest"] decode_gfx_pdu_enc del: length_gfx_pdu_enc)
qed

section \<open>One batch\<close>

text \<open>A sufficient size for the messages that carry batches of at most \<open>B\<close> bytes.\<close>

definition gp_message_bound :: "nat \<Rightarrow> nat" where
  "gp_message_bound B = B + 7 + 5 * ((B + max_segment_size - 1) div max_segment_size)"

lemma zgfx_overhead_le: "n \<noteq> 0 \<Longrightarrow> n \<le> B \<Longrightarrow> n + zgfx_overhead Rdp8 n \<le> gp_message_bound B"
proof -
  assume n: "n \<noteq> 0" "n \<le> B"
  have "(n + max_segment_size - 1) div max_segment_size \<le> (B + max_segment_size - 1) div max_segment_size"
    using n by (intro div_le_mono) auto
  with n show ?thesis by (auto simp: zgfx_overhead_def gp_message_bound_def)
qed

definition gp_open :: "'d graphics_output \<Rightarrow> bool" where
  "gp_open st \<longleftrightarrow> dyn_inv (gp_channels st) \<and> \<not> gp_holding st \<and> ds_error (dy_dvc (gp_channels st)) = None \<and>
     dvc_is_open (dy_dvc (gp_channels st)) (gp_channel_id st)"

lemma dyn_send_open:
  assumes "dyn_inv st" "ds_error (dy_dvc st) = None" "dvc_is_open (dy_dvc st) ident" "length m \<le> 0xFFFFFFFF"
  shows "\<exists>st'. dyn_send ident m st = Some (True, st') \<and> dyn_inv st' \<and> ds_error (dy_dvc st') = None \<and> dvc_is_open (dy_dvc st') ident \<and>
    dy_chunk_length st' = dy_chunk_length st \<and>
    dy_sent st' = dy_sent st @ concat (map (svc_chunks (dy_chunk_length st)) (map dvc_pdu_enc (dvc_data_pdus ident m)))"
proof -
  obtain ms where inv: "dvc_inv (dy_dvc st)" "ds_output (dy_dvc st) = []" "0 < dy_chunk_length st" "dyn_wire ms st"
    using assms(1) by (rule dyn_invE)
  let ?out = "map dvc_pdu_enc (dvc_data_pdus ident m)"
  let ?dvc = "(dy_dvc st)\<lparr>ds_output := ?out\<rparr>"
  have send: "dvc_send ident m (dy_dvc st) = Some (True, ?dvc)"
    using assms(2-4) inv(2) by (simp add: dvc_send_def encode_data_enc)
  then have "dvc_inv ?dvc" using dvc_send_inv [OF inv(1) assms(4), of ident] by auto
  from dyn_flush_inv [OF inv(3,4) this] obtain st' where st': "dyn_flush (st\<lparr>dy_dvc := ?dvc\<rparr>) = Some st'" "dyn_inv st'"
    "dyn_wire (ms @ ?out) st'" "dy_dvc st' = ?dvc\<lparr>ds_output := []\<rparr>" "dy_chunk_length st' = dy_chunk_length st"
    by auto
  then show ?thesis
    using send assms(2,3) inv(4)
    by (auto simp: dyn_send_def dyn_wire_def dvc_is_open_def dvc_find_def simp del: dvc_pdu_enc.simps)
qed

lemma gp_send_batch_ok:
  assumes "gp_open st" "zgfx_paired Rdp8 limit (gp_zgfx st) d" "batch \<noteq> []" "length batch \<le> B"
    and "B \<le> zgfx_max_input_size Rdp8" "B \<le> limit" "gp_message_bound B \<le> 0xFFFFFFFF"
  shows "\<exists>m st' d'. gp_send_batch en batch st = Some st' \<and> zd_decompress m d = Some (Inr batch, d') \<and>
    zgfx_paired Rdp8 limit (gp_zgfx st') d' \<and> gp_open st' \<and> length m \<le> gp_message_bound B \<and>
    gp_channel_id st' = gp_channel_id st \<and> gp_gfx st' = gp_gfx st \<and>
    dy_chunk_length (gp_channels st') = dy_chunk_length (gp_channels st) \<and>
    dy_sent (gp_channels st') = dy_sent (gp_channels st) @ concat (map (svc_chunks (dy_chunk_length (gp_channels st)))
      (map dvc_pdu_enc (dvc_data_pdus (gp_channel_id st) m)))"
proof -
  obtain g where g: "zc_inv Rdp8 g (gp_zgfx st)" using assms(2) by (auto simp: zgfx_paired_def)
  obtain m c' d' where m: "zc_compress en batch [] (gp_zgfx st) = Some (m, c')" "zd_decompress m d = Some (Inr batch, d')"
    "zgfx_paired Rdp8 limit c' d'"
    using zgfx.transfers [OF assms(2), of batch en] assms(4-6) by auto
  have "length m \<le> length batch + zgfx_overhead Rdp8 (length batch)"
    using zc_compress_ok [OF g, of batch en "[]"] m(1) assms(4,5) by auto
  also have "\<dots> \<le> gp_message_bound B" using assms(3,4) by (intro zgfx_overhead_le) auto
  finally have size: "length m \<le> gp_message_bound B" .
  have "dyn_inv (gp_channels st)" "ds_error (dy_dvc (gp_channels st)) = None"
    "dvc_is_open (dy_dvc (gp_channels st)) (gp_channel_id st)" "length m \<le> 0xFFFFFFFF"
    using assms(1,7) size by (simp_all add: gp_open_def)
  from dyn_send_open [OF this] obtain ch where "dyn_send (gp_channel_id st) m (gp_channels st) = Some (True, ch)" "dyn_inv ch" "ds_error (dy_dvc ch) = None"
    "dvc_is_open (dy_dvc ch) (gp_channel_id st)" "dy_chunk_length ch = dy_chunk_length (gp_channels st)"
    "dy_sent ch = dy_sent (gp_channels st) @ concat (map (svc_chunks (dy_chunk_length (gp_channels st)))
      (map dvc_pdu_enc (dvc_data_pdus (gp_channel_id st) m)))"
    by blast
  with m size assms(1,3) show ?thesis
    unfolding gp_send_batch_def gp_open_def
    by (intro exI [of _ m] exI [of _ "st\<lparr>gp_zgfx := c', gp_channels := ch\<rparr>"] exI [of _ d']) simp
qed

section \<open>All batches\<close>

definition gp_delivers :: "bytes list \<Rightarrow> nat \<Rightarrow> zgfx_dec \<Rightarrow> 'd graphics_output \<Rightarrow> 'd graphics_output \<Rightarrow> bool" where
  "gp_delivers bs B d st st' \<longleftrightarrow> (\<exists>ms d'. decompress_all ms d = Some (bs, d') \<and> (\<forall>m \<in> set ms. length m \<le> gp_message_bound B) \<and>
     gp_gfx st' = gp_gfx st \<and> dy_chunk_length (gp_channels st') = dy_chunk_length (gp_channels st) \<and>
     dy_sent (gp_channels st') = dy_sent (gp_channels st) @ concat (map (svc_chunks (dy_chunk_length (gp_channels st)))
       (concat (map (\<lambda>m. map dvc_pdu_enc (dvc_data_pdus (gp_channel_id st) m)) ms))))"

lemma gp_flush_loop_ok:
  assumes "gp_open st" "zgfx_paired Rdp8 limit (gp_zgfx st) d" "\<forall>b \<in> set (batches pdus batch). length b \<le> B"
    and "B \<le> zgfx_max_input_size Rdp8" "B \<le> limit" "gp_message_bound B \<le> 0xFFFFFFFF" "[] \<notin> set pdus"
  shows "\<exists>st'. gp_flush_loop en pdus batch st = Some st' \<and> gp_delivers (batches pdus batch) B d st st'"
  using assms(1-3,7)
proof (induction pdus arbitrary: st d batch)
  case Nil
  show ?case
  proof (cases "batch = []")
    case True
    then show ?thesis by (auto simp: gp_send_batch_def gp_delivers_def intro!: exI [of _ "[] :: bytes list"])
  next
    case False
    then have "length batch \<le> B" using Nil.prems(3) by simp
    from gp_send_batch_ok [OF Nil.prems(1,2) False this assms(4-6), of en] obtain m st' d' where m:
      "gp_send_batch en batch st = Some st'" "zd_decompress m d = Some (Inr batch, d')" "length m \<le> gp_message_bound B"
      "gp_gfx st' = gp_gfx st" "dy_chunk_length (gp_channels st') = dy_chunk_length (gp_channels st)"
      "dy_sent (gp_channels st') = dy_sent (gp_channels st) @ concat (map (svc_chunks (dy_chunk_length (gp_channels st)))
      (map dvc_pdu_enc (dvc_data_pdus (gp_channel_id st) m)))" by blast
    with False show ?thesis
      by (auto simp: gp_delivers_def simp del: dvc_pdu_enc.simps intro!: exI [of _ "[m]"])
  qed
next
  case (Cons pdu pdus)
  show ?case
  proof (cases "batch \<noteq> [] \<and> length batch + length pdu > gp_max_batch_size")
    case False
    then show ?thesis using Cons.IH [of st d "batch @ pdu"] Cons.prems by auto
  next
    case True
    then have "length batch \<le> B" "batch \<noteq> []" using Cons.prems(3) by auto
    from gp_send_batch_ok [OF Cons.prems(1,2) this(2,1) assms(4-6), of en] obtain m st1 d1 where m:
      "gp_send_batch en batch st = Some st1" "zd_decompress m d = Some (Inr batch, d1)" "length m \<le> gp_message_bound B"
      "gp_open st1" "zgfx_paired Rdp8 limit (gp_zgfx st1) d1" "gp_channel_id st1 = gp_channel_id st"
      "gp_gfx st1 = gp_gfx st" "dy_chunk_length (gp_channels st1) = dy_chunk_length (gp_channels st)"
      "dy_sent (gp_channels st1) = dy_sent (gp_channels st) @ concat (map (svc_chunks (dy_chunk_length (gp_channels st)))
      (map dvc_pdu_enc (dvc_data_pdus (gp_channel_id st) m)))" by blast
    from Cons.IH [OF m(4,5), of pdu] Cons.prems(3,4) True obtain st' where st':
      "gp_flush_loop en pdus pdu st1 = Some st'" "gp_delivers (batches pdus pdu) B d1 st1 st'" by auto
    from st'(2) obtain ms d2 where ms: "decompress_all ms d1 = Some (batches pdus pdu, d2)" "\<forall>m \<in> set ms. length m \<le> gp_message_bound B"
      "gp_gfx st' = gp_gfx st1" "dy_chunk_length (gp_channels st') = dy_chunk_length (gp_channels st1)"
      "dy_sent (gp_channels st') = dy_sent (gp_channels st1) @ concat (map (svc_chunks (dy_chunk_length (gp_channels st1)))
       (concat (map (\<lambda>m. map dvc_pdu_enc (dvc_data_pdus (gp_channel_id st1) m)) ms)))"
      by (auto simp: gp_delivers_def simp del: dvc_pdu_enc.simps)
    have "gp_delivers (batch # batches pdus pdu) B d st st'"
      unfolding gp_delivers_def using m ms
      by (intro exI [of _ "m # ms"] exI [of _ d2]) (simp del: dvc_pdu_enc.simps)
    with st'(1) m(1) True show ?thesis by simp
  qed
qed

lemma gfx_pdu_enc_neq_Nil [simp]: "gfx_pdu_enc pdu \<noteq> []" "[] \<noteq> gfx_pdu_enc pdu"
  using length_gfx_pdu_enc [of pdu] by force+

lemma gs_inv_pdus: "gs_inv st \<Longrightarrow> \<exists>pdus. list_all gfx_ok pdus \<and> gs_output st = map gfx_pdu_enc pdus"
proof -
  assume "gs_inv st"
  then have "\<forall>bs \<in> set (gs_output st). \<exists>pdu. gfx_ok pdu \<and> bs = gfx_pdu_enc pdu" by (simp add: gs_inv_defs)
  then obtain f where "\<forall>bs \<in> set (gs_output st). gfx_ok (f bs) \<and> bs = gfx_pdu_enc (f bs)" by metis
  then show ?thesis by (intro exI [of _ "map f (gs_output st)"]) (auto simp: list_all_iff map_idI)
qed

section \<open>Properties\<close>

lemma client_pdus_ok:
  assumes "feed svc_add svc wire = (None, dvcs, svc')" "feed dvc_receive mr dvcs = (None, ms, mr')"
    "decompress_all ms d = Some (bs, d')" "parse_pdus (concat bs) = Some pdus"
  shows "client_pdus svc mr d wire = Some pdus"
  using assms by (simp add: client_pdus_def)

text \<open>
  C4: The graphics output reaches the client. Take a graphics server and dynamic channels in any state that calls
  and client input can lead to, with the graphics channel open, and a client whose decompressor has seen what the
  compressor has and whose reassemblers are between messages. Then flushing succeeds, empties the queue, and the
  chunks it sends on the static channel give the client, through reassembly of chunks, reassembly of channel
  data, decompression and framing, exactly the graphics PDUs that were queued, in order; each is well formed.
\<close>

theorem graphics_delivered:
  assumes "gp_gfx st = snd (run gfx_step (gfx_new config) ops)"
    and "dyn_new dyn_config n = Some st0" "length (dc_priority_charges dyn_config) = 4" "0 < n"
    and "gp_channels st = snd (run dyn_step st0 dyn_ops)"
    and "ds_error (dy_dvc (gp_channels st)) = None" "dvc_is_open (dy_dvc (gp_channels st)) (gp_channel_id st)" "\<not> gp_holding st"
    and "zgfx_paired Rdp8 limit (gp_zgfx st) d" "svc_idle svc" "mr_idle mr"
    and "\<forall>bs \<in> set (gs_output (gp_gfx st)). length bs \<le> B" "gp_max_batch_size \<le> B" "B \<le> zgfx_max_input_size Rdp8" "B \<le> limit"
    and "gp_message_bound B \<le> mr_max_size mr" "gp_message_bound B \<le> 0xFFFFFFFF"
    and "dy_chunk_length (gp_channels st) \<le> sr_max_chunk svc" "dvc_max_pdu_size \<le> sr_max_message_size svc"
  shows "\<exists>st' wire pdus. gp_flush en st = Some st' \<and> gs_output (gp_gfx st') = [] \<and>
    dy_sent (gp_channels st') = dy_sent (gp_channels st) @ wire \<and> client_pdus svc mr d wire = Some pdus \<and>
    list_all gfx_ok pdus \<and> map Some (gs_output (gp_gfx st)) = map encode_gfx pdus"
proof -
  let ?ident = "gp_channel_id st" and ?n = "dy_chunk_length (gp_channels st)"
  let ?st = "st\<lparr>gp_gfx := (gp_gfx st)\<lparr>gs_output := []\<rparr>\<rparr>"
  have gfx: "gs_inv (gp_gfx st)" unfolding assms(1) by (rule gfx_machine.inv_run)
  obtain pdus where pdus: "list_all gfx_ok pdus" "gs_output (gp_gfx st) = map gfx_pdu_enc pdus"
    using gs_inv_pdus [OF gfx] by blast
  have dyn: "dyn_inv (gp_channels st)"
    unfolding assms(5) by (rule dyn_machine.inv_run_from [OF dyn_new_inv [OF assms(2-4)]])
  then have "gp_open ?st" using assms(6-8) by (simp add: gp_open_def)
  moreover have "\<forall>b \<in> set (batches (gs_output (gp_gfx st)) []). length b \<le> B"
    using assms(12,13) by (intro batch_size) auto
  moreover have "[] \<notin> set (gs_output (gp_gfx st))" using pdus(2) by auto
  ultimately obtain st' ms d' where flush: "gp_flush en st = Some st'" "gp_gfx st' = gp_gfx ?st"
    "decompress_all ms d = Some (batches (gs_output (gp_gfx st)) [], d')" "\<forall>m \<in> set ms. length m \<le> gp_message_bound B"
    "dy_sent (gp_channels st') = dy_sent (gp_channels st) @ concat (map (svc_chunks ?n)
       (concat (map (\<lambda>m. map dvc_pdu_enc (dvc_data_pdus ?ident m)) ms)))"
    using gp_flush_loop_ok [of ?st limit d "gs_output (gp_gfx st)" "[]" B en] assms(9,14,15,17)
    by (auto simp: gp_flush_def gfx_take_output_def gp_delivers_def simp del: dvc_pdu_enc.simps)
  let ?dvcs = "concat (map (\<lambda>m. map dvc_pdu_enc (dvc_data_pdus ?ident m)) ms)"
  have "client_pdus svc mr d (concat (map (svc_chunks ?n) ?dvcs)) = Some pdus"
  proof (rule client_pdus_ok)
    have small: "length m \<le> 0xFFFFFFFF" if "m \<in> set ms" for m using that flush(4) assms(17) by fastforce
    then have "\<forall>p \<in> set ?dvcs. length p \<le> dvc_max_pdu_size"
      by (auto intro!: dvc_data_pdu_size simp del: dvc_pdu_enc.simps)
    then show "feed svc_add svc (concat (map (svc_chunks ?n) ?dvcs)) = (None, ?dvcs, svc)"
      using assms(10,18,19) dyn by (intro svc.stream svc_fits_dvc) (auto simp: dyn_inv_def)
    show "feed dvc_receive mr ?dvcs = (None, ms, mr)"
      using assms(11,16) flush(4) small by (intro dvc.stream) (fastforce simp: list_all_iff dvc_fits_def)+
    show "decompress_all ms d = Some (batches (gs_output (gp_gfx st)) [], d')" by (rule flush(3))
    show "parse_pdus (concat (batches (gs_output (gp_gfx st)) [])) = Some pdus"
      unfolding concat_batches pdus(2) using parse_pdus_concat [OF pdus(1)] by simp
  qed
  moreover have "map Some (gs_output (gp_gfx st)) = map encode_gfx pdus"
    using pdus by (simp add: list_all_iff encode_gfx_def encode_gfx_pdu_enc)
  ultimately show ?thesis
    using flush(1,2,5) pdus(1) by (intro exI [of _ st'] exI conjI) (assumption | simp)+
qed

theorem graphics_delivered_witness:
  "\<exists>wire pdus. client_pdus (svc_new 65536 16256) (mr_new 0xFFFFFF) (zd_new Rdp8 65536) wire = Some pdus \<and> length pdus = 4"
proof -
  let ?ch = "snd (run dyn_step (dyn_initial (dvc_default_config :: unit dvc_config)) dyn_opening)"
  let ?st = "\<lparr>gp_gfx = snd (run gfx_step (gfx_new gfx_default_config) gfx_drawing), gp_zgfx = zc_new Rdp8 Compress,
    gp_channels = ?ch, gp_channel_id = 1, gp_holding = False, gp_held = []\<rparr>"
  have out: "map length (gs_output (gp_gfx ?st)) = [20, 340, 15, 16]" using gfx_drawing_state by auto
  then have "\<forall>n \<in> set (map length (gs_output (gp_gfx ?st))). n \<le> 16384" by simp
  then have small: "\<forall>bs \<in> set (gs_output (gp_gfx ?st)). length bs \<le> 16384" by simp
  have ch: "ds_error (dy_dvc ?ch) = None" "dvc_is_open (dy_dvc ?ch) 1" using dyn_opening_open by auto
  have "dyn_inv (dyn_initial (dvc_default_config :: unit dvc_config))" by (rule dyn_machine.inv_init)
  from dyn_run_chunk [OF this, of dyn_opening] have len: "dy_chunk_length ?ch = svc_chunk_length"
    by (simp add: dyn_initial_def dyn_new_def dvc_new_def wassert_def dvc_default_config_def dvc_version1_def dvc_version3_def word_le_nat_alt)
  have "gp_max_batch_size \<le> 16384" "16384 \<le> zgfx_max_input_size Rdp8" "(16384 :: nat) \<le> 65536"
    "gp_message_bound 16384 \<le> mr_max_size (mr_new 0xFFFFFF)" "gp_message_bound 16384 \<le> 0xFFFFFFFF"
    "dy_chunk_length ?ch \<le> sr_max_chunk (svc_new 65536 16256)" "dvc_max_pdu_size \<le> sr_max_message_size (svc_new 65536 16256)"
    unfolding len by (simp_all add: svc_chunk_length_def svc_new_def mr_new_def gp_max_batch_size_def gp_message_bound_def max_segment_size_def
      dvc_max_pdu_size_def max_segment_count_def)
  note sizes = this
  have new: "dyn_new (dvc_default_config :: unit dvc_config) svc_chunk_length = Some (dyn_initial dvc_default_config)"
    by (rule dyn_initial_new)
  have "svc_idle (svc_new 65536 16256)" "mr_idle (mr_new 0xFFFFFF)" "0 < svc_chunk_length"
    by (simp_all add: svc_idle_def svc_new_def mr_idle_def mr_new_def svc_chunk_length_def)
  with graphics_delivered [of ?st gfx_default_config gfx_drawing dvc_default_config svc_chunk_length "dyn_initial dvc_default_config"
      dyn_opening 65536 "zd_new Rdp8 65536" "svc_new 65536 16256" "mr_new 0xFFFFFF" 16384 Little]
    new zgfx_paired_new [of Rdp8 65536 Compress] small ch sizes
  obtain wire pdus where "client_pdus (svc_new 65536 16256) (mr_new 0xFFFFFF) (zd_new Rdp8 65536) wire = Some pdus"
    "map Some (gs_output (gp_gfx ?st)) = map encode_gfx pdus" by auto
  moreover from this(2) have "length pdus = length (gs_output (gp_gfx ?st))" by (metis length_map)
  moreover have "length (gs_output (gp_gfx ?st)) = 4" using arg_cong [OF out, of length] by simp
  ultimately show ?thesis by auto
qed

end
