(* ===== verification/Planar.thy ===== *)
theory Planar
  imports Actions
begin

text \<open>
  \<open>codec/planar.cpp\<close>: the RDP 6.0 planar bitmap codec. A picture is split into its colour planes; a plane is
  stored as it is, or row by row as runs of differences to the row before. The decoder writes into the caller's
  buffer, which is part of its state.
\<close>

section \<open>Model: segments and differences\<close>

definition pl_max_dimension :: nat where "pl_max_dimension = 8192"
definition header_cll_mask :: byte where "header_cll_mask = 0x07"
definition header_cs :: byte where "header_cs = 0x08"
definition header_rle :: byte where "header_rle = 0x10"
definition header_na :: byte where "header_na = 0x20"
definition px_size :: nat where "px_size = 4"
definition offset_b :: nat where "offset_b = 0"
definition offset_g :: nat where "offset_g = 1"
definition offset_r :: nat where "offset_r = 2"
definition offset_a :: nat where "offset_a = 3"
definition pl_max_raw_count :: nat where "pl_max_raw_count = 15"
definition pl_max_short_run :: nat where "pl_max_short_run = 15"
definition pl_min_run :: nat where "pl_min_run = 3"
definition run_escape_16 :: nat where "run_escape_16 = 1"
definition run_escape_32 :: nat where "run_escape_32 = 2"
definition pl_max_run :: nat where "pl_max_run = 32 + 15"

lemmas pl_constants = pl_max_dimension_def header_cll_mask_def header_cs_def header_rle_def header_na_def px_size_def
  offset_b_def offset_g_def offset_r_def offset_a_def pl_max_raw_count_def pl_max_short_run_def pl_min_run_def
  run_escape_16_def run_escape_32_def pl_max_run_def

definition control_byte :: "nat \<Rightarrow> nat \<Rightarrow> byte option" where
  "control_byte raw_count run_nibble = do {
     wassert (raw_count \<le> 0x0F \<and> run_nibble \<le> 0x0F);
     Some (of_nat (push_bit 4 raw_count OR run_nibble))
   }"

record pl_segment =
  sg_raw_count :: nat
  sg_run :: nat

definition parse_control_byte :: "byte \<Rightarrow> pl_segment" where
  "parse_control_byte control =
     (let raw_count = unat (drop_bit 4 control); run = unat (control AND 0x0F) in
      if run = run_escape_16 then \<lparr>sg_raw_count = 0, sg_run = 16 + raw_count\<rparr>
      else if run = run_escape_32 then \<lparr>sg_raw_count = 0, sg_run = 32 + raw_count\<rparr>
      else \<lparr>sg_raw_count = raw_count, sg_run = run\<rparr>)"

definition delta_to_wire :: "byte \<Rightarrow> byte \<Rightarrow> byte" where
  "delta_to_wire value prior =
     (let delta = value - prior in
      if delta < 0x80 then push_bit 1 delta
      else let magnitude = 0x100 - ucast delta :: u32 in ucast (push_bit 1 magnitude - 1))"

definition wire_to_delta :: "byte \<Rightarrow> byte" where
  "wire_to_delta wire =
     (let half = ucast (drop_bit 1 wire) :: u32 in
      if wire AND 1 = 0 then ucast half else ucast (0x100 - (half + 1)))"

datatype orientation = Top_Down | Bottom_Up
datatype pl_mode = Raw_Mode | Rle_Mode | Automatic

record image_view =
  iv_data :: bytes
  iv_width :: u32
  iv_height :: u32
  iv_stride :: nat

record geometry =
  ge_width :: nat
  ge_height :: nat
  ge_orientation :: orientation

definition ge_pixels :: "geometry \<Rightarrow> nat" where
  "ge_pixels g = ge_width g * ge_height g"

definition image_row :: "geometry \<Rightarrow> nat \<Rightarrow> nat" where
  "image_row g scanline = (if ge_orientation g = Bottom_Up then ge_height g - 1 - scanline else scanline)"

section \<open>Model: encoder\<close>

text \<open>The planes are filled in the order of the stream, so each is the list of its values in that order.\<close>

definition row_channel :: "nat \<Rightarrow> nat \<Rightarrow> bytes \<Rightarrow> bytes" where
  "row_channel width channel row = map (\<lambda>x. row ! (x * px_size + channel)) [0..<width]"

fun image_rows :: "image_view \<Rightarrow> geometry \<Rightarrow> nat list \<Rightarrow> bytes list option" where
  "image_rows view g [] = Some []"
| "image_rows view g (scanline # scanlines) = do {
     row \<leftarrow> subspan (iv_data view) (image_row g scanline * iv_stride view) (ge_width g * px_size);
     rows \<leftarrow> image_rows view g scanlines;
     Some (row # rows)
   }"

definition split_planes :: "image_view \<Rightarrow> geometry \<Rightarrow> bytes list option" where
  "split_planes view g = do {
     rows \<leftarrow> image_rows view g [0..<ge_height g];
     Some (map (\<lambda>channel. concat (map (row_channel (ge_width g) channel) rows)) [offset_r, offset_g, offset_b])
   }"

definition raw_stream_size :: "geometry \<Rightarrow> nat" where
  "raw_stream_size g = 1 + 3 * ge_pixels g + 1"

fun copy_planes :: "bytes list \<Rightarrow> nat \<Rightarrow> bytes \<Rightarrow> bytes option" where
  "copy_planes [] at out = Some out"
| "copy_planes (plane # planes) at out = do {
     out \<leftarrow> copy_into out at plane;
     copy_planes planes (at + length plane) out
   }"

definition encode_raw :: "bytes list \<Rightarrow> geometry \<Rightarrow> bytes option" where
  "encode_raw planes g = copy_planes planes 1 ((replicate (raw_stream_size g) 0)[0 := header_na])"

function write_runs :: "nat \<Rightarrow> writer \<Rightarrow> writer option" where
  "write_runs run w =
     (if run = 0 then Some w
      else if run < pl_min_run then None
      else
        let piece = min run pl_max_run;
            rest = run - piece;
            piece = (if rest > 0 \<and> rest < pl_min_run then run - pl_min_run else piece)
        in case (if piece \<ge> 32 then control_byte (piece - 32) run_escape_32
                 else if piece \<ge> 16 then control_byte (piece - 16) run_escape_16
                 else control_byte 0 piece) of
             None \<Rightarrow> None
           | Some b \<Rightarrow> write_runs (run - piece) (w_u8 b w))"
  by pat_completeness auto
termination
  by (relation "measure fst") (auto simp: pl_constants split: if_splits)

declare write_runs.simps [simp del]

function write_segments :: "bytes \<Rightarrow> nat \<Rightarrow> writer \<Rightarrow> writer option" where
  "write_segments raw run w =
     (if \<not> (run = 0 \<or> run \<ge> pl_min_run) then None
      else if length raw > pl_max_raw_count
      then (case control_byte pl_max_raw_count 0 of
          None \<Rightarrow> None
        | Some b \<Rightarrow> write_segments (drop pl_max_raw_count raw) run (w_bytes (take pl_max_raw_count raw) (w_u8 b w)))
      else if raw \<noteq> []
      then
        let inline_run = (if run \<le> pl_max_short_run then run
          else if run - pl_max_short_run \<ge> pl_min_run then pl_max_short_run
          else run - pl_min_run)
        in do {
          b \<leftarrow> control_byte (length raw) inline_run;
          write_runs (run - inline_run) (w_bytes raw (w_u8 b w))
        }
      else write_runs run w)"
  by pat_completeness auto
termination
  by (relation "measure (\<lambda>(raw, _, _). length raw)") (auto simp: pl_constants)

declare write_segments.simps [simp del]

function run_end :: "bytes \<Rightarrow> nat \<Rightarrow> nat \<Rightarrow> nat" where
  "run_end symbols i j = (if j < length symbols \<and> symbols ! j = symbols ! i then run_end symbols i (Suc j) else j)"
  by pat_completeness auto
termination
  by (relation "measure (\<lambda>(symbols, _, j). length symbols - j)") auto

declare run_end.simps [simp del]

lemma run_end_ge: "j \<le> run_end symbols i j"
proof (induction symbols i j rule: run_end.induct)
  case (1 symbols i j)
  then show ?case by (subst run_end.simps) auto
qed

lemma run_end_shrinks: "i < length symbols \<Longrightarrow> length symbols - run_end symbols i (Suc i) < length symbols - i"
  using run_end_ge [of "Suc i" symbols i] by simp

function rle_scan :: "bytes \<Rightarrow> nat \<Rightarrow> nat \<Rightarrow> writer \<Rightarrow> writer option" where
  "rle_scan symbols i raw_begin w =
     (if i < length symbols
      then
        let j = run_end symbols i (Suc i);
            n = j - i
        in if i = 0 \<and> symbols ! 0 = 0 \<and> n \<ge> pl_min_run
           then (case write_segments [] n w of None \<Rightarrow> None | Some w \<Rightarrow> rle_scan symbols j j w)
           else if n > pl_min_run
           then (case write_segments (take (i + 1 - raw_begin) (drop raw_begin symbols)) (n - 1) w of
               None \<Rightarrow> None
             | Some w \<Rightarrow> rle_scan symbols j j w)
           else rle_scan symbols j raw_begin w
      else if raw_begin < length symbols then write_segments (drop raw_begin symbols) 0 w
      else Some w)"
  by pat_completeness auto
termination
  by (relation "measure (\<lambda>(symbols, i, _, _). length symbols - i)") (use run_end_shrinks [of 0] in \<open>auto simp: run_end_shrinks\<close>)

declare rle_scan.simps [simp del]

definition write_rle_scanline :: "bytes \<Rightarrow> writer \<Rightarrow> writer option" where
  "write_rle_scanline symbols w = rle_scan symbols 0 0 w"

fun rle_rows :: "geometry \<Rightarrow> bytes \<Rightarrow> nat list \<Rightarrow> writer \<Rightarrow> writer option" where
  "rle_rows g values [] w = Some w"
| "rle_rows g values (scanline # scanlines) w = do {
     row \<leftarrow> subspan values (scanline * ge_width g) (ge_width g);
     symbols \<leftarrow> (if scanline = 0 then Some row
       else do {
         prior \<leftarrow> subspan values ((scanline - 1) * ge_width g) (ge_width g);
         Some (map2 delta_to_wire row prior)
       });
     w \<leftarrow> write_rle_scanline symbols w;
     rle_rows g values scanlines w
   }"

fun rle_planes :: "geometry \<Rightarrow> bytes list \<Rightarrow> writer \<Rightarrow> writer option" where
  "rle_planes g [] w = Some w"
| "rle_planes g (plane # planes) w = do {
     w \<leftarrow> rle_rows g plane [0..<ge_height g] w;
     rle_planes g planes w
   }"

definition encode_rle :: "bytes list \<Rightarrow> geometry \<Rightarrow> bytes option" where
  "encode_rle planes g = rle_planes g planes (w_u8 (header_na OR header_rle) [])"

definition planar_encode :: "image_view \<Rightarrow> pl_mode \<Rightarrow> orientation \<Rightarrow> bytes option" where
  "planar_encode view mode orient = do {
     wassert (iv_width view \<ge> 1 \<and> unat (iv_width view) \<le> pl_max_dimension);
     wassert (iv_height view \<ge> 1 \<and> unat (iv_height view) \<le> pl_max_dimension);
     let g = \<lparr>ge_width = unat (iv_width view), ge_height = unat (iv_height view), ge_orientation = orient\<rparr>;
     let row_bytes = ge_width g * px_size;
     wassert (iv_stride view \<ge> row_bytes);
     wassert (length (iv_data view) \<ge> row_bytes \<and>
       (length (iv_data view) - row_bytes) div iv_stride view \<ge> ge_height g - 1);
     planes \<leftarrow> split_planes view g;
     case mode of
       Raw_Mode \<Rightarrow> encode_raw planes g
     | Rle_Mode \<Rightarrow> encode_rle planes g
     | Automatic \<Rightarrow> do {
         rle \<leftarrow> encode_rle planes g;
         if length rle > raw_stream_size g then encode_raw planes g else Some rle
       }
   }"

section \<open>Model: decoder\<close>

type_synonym 'a plane_action = "(reader \<times> bytes, 'a) action"

definition pl_read :: "'a parser \<Rightarrow> 'a plane_action" where
  "pl_read p = (\<lambda>(r, out). let (x, r) = p r in Some (x, (r, out)))"

definition sample_index :: "nat \<Rightarrow> nat \<Rightarrow> nat" where
  "sample_index pixel channel = pixel * px_size + channel"

definition pl_put :: "nat \<Rightarrow> byte \<Rightarrow> unit plane_action" where
  "pl_put i v = (\<lambda>(r, out). map_option (\<lambda>out. (Inr (), (r, out))) (put_index out i v))"

fun put_values :: "nat \<Rightarrow> nat \<Rightarrow> bytes \<Rightarrow> unit plane_action" where
  "put_values pixel channel [] = aret ()"
| "put_values pixel channel (v # vs) = atry (pl_put (sample_index pixel channel) v) (\<lambda>_. put_values (pixel + 1) channel vs)"

fun decode_raw_rows :: "geometry \<Rightarrow> nat \<Rightarrow> nat list \<Rightarrow> unit plane_action" where
  "decode_raw_rows g channel [] = aret ()"
| "decode_raw_rows g channel (scanline # scanlines) =
     atry (pl_read (rd_bytes (ge_width g))) (\<lambda>values.
     atry (put_values (image_row g scanline * ge_width g) channel values) (\<lambda>_.
     decode_raw_rows g channel scanlines))"

definition decode_raw_plane :: "geometry \<Rightarrow> nat \<Rightarrow> unit plane_action" where
  "decode_raw_plane g channel = decode_raw_rows g channel [0..<ge_height g]"

definition pl_store :: "geometry \<Rightarrow> nat \<Rightarrow> nat \<Rightarrow> byte \<Rightarrow> nat \<Rightarrow> unit plane_action" where
  "pl_store g channel scanline d x = (\<lambda>(r, out).
     do {
       prior \<leftarrow> (if scanline = 0 then Some 0
         else at_index out (sample_index (image_row g (scanline - 1) * ge_width g + x) channel));
       pl_put (sample_index (image_row g scanline * ge_width g + x) channel) (prior + d) (r, out)
     })"

fun store_raw :: "geometry \<Rightarrow> nat \<Rightarrow> nat \<Rightarrow> bytes \<Rightarrow> byte \<Rightarrow> nat \<Rightarrow> (byte \<times> nat) plane_action" where
  "store_raw g channel scanline [] d x = aret (d, x)"
| "store_raw g channel scanline (wire # wires) d x =
     (let d = (if scanline = 0 then wire else wire_to_delta wire) in
      atry (pl_store g channel scanline d x) (\<lambda>_. store_raw g channel scanline wires d (x + 1)))"

fun store_run :: "geometry \<Rightarrow> nat \<Rightarrow> nat \<Rightarrow> nat \<Rightarrow> byte \<Rightarrow> nat \<Rightarrow> nat plane_action" where
  "store_run g channel scanline 0 d x = aret x"
| "store_run g channel scanline (Suc n) d x =
     atry (pl_store g channel scanline d x) (\<lambda>_. store_run g channel scanline n d (x + 1))"

text \<open>One turn of the segment loop: the last difference and the column are carried on.\<close>

definition rle_segment :: "geometry \<Rightarrow> nat \<Rightarrow> nat \<Rightarrow> byte \<Rightarrow> nat \<Rightarrow> (byte \<times> nat) plane_action" where
  "rle_segment g channel scanline d x s =
     (let at = rd_offset (fst s) in
      atry (pl_read rd_u8) (\<lambda>control.
        let segment = parse_control_byte control in
        if sg_raw_count segment + sg_run segment > ge_width g - x
        then afail InvalidLength ''planar RLE segment overruns the scanline'' at
        else
          atry (pl_read (rd_bytes (sg_raw_count segment))) (\<lambda>raw.
          atry (store_raw g channel scanline raw d x) (\<lambda>(d, x).
          atry (store_run g channel scanline (sg_run segment) d x) (\<lambda>x. aret (d, x))))) s)"

section \<open>The segment loop ends\<close>

definition pl_left :: "reader \<times> bytes \<Rightarrow> nat" where
  "pl_left s = length (rd_rest (fst s))"

lemma pl_left_pos: "pl_left (r, out) = length (rd_rest r)"
  by (simp add: pl_left_def)

lemma rd_bytes_shrinks: "rd_bytes n r = (x, r') \<Longrightarrow> length (rd_rest r') \<le> length (rd_rest r)"
  by (auto simp: rd_bytes_def rd_rest_def split: if_splits)

lemma rd_u8_shrinks:
  "rd_u8 r = (x, r') \<Longrightarrow> length (rd_rest r') \<le> length (rd_rest r) \<and> (\<not> isl x \<longrightarrow> length (rd_rest r') < length (rd_rest r))"
  by (auto simp: rd_u8_def rd_le_def ptry_def rd_bytes_def rd_rest_def rd_remaining_def pret_def split: if_splits)

lemma shrinks_pl_put: "shrinks pl_left (pl_put i v)"
  by (auto simp: shrinks_def pl_put_def pl_left_def)

lemma shrinks_pl_store: "shrinks pl_left (pl_store g channel scanline d x)"
  using shrinks_pl_put by (fastforce simp: shrinks_def pl_store_def split: bind_splits)

lemma shrinks_store_raw: "shrinks pl_left (store_raw g channel scanline raw d x)"
  by (induction raw arbitrary: d x) (auto simp: Let_def intro!: shrinks_try shrinks_ret shrinks_pl_store)

lemma shrinks_store_run: "shrinks pl_left (store_run g channel scanline n d x)"
  by (induction n arbitrary: x) (auto intro!: shrinks_try shrinks_ret shrinks_pl_store)

lemma shrinks_pl_bytes: "shrinks pl_left (pl_read (rd_bytes n))"
  by (auto simp: shrinks_def pl_read_def pl_left_def split: prod.splits dest: rd_bytes_shrinks)

lemma rle_segment_progress:
  assumes "rle_segment g channel scanline d x s = Some (Inr y, s')"
  shows "pl_left s' < pl_left s"
proof -
  obtain r out where s: "s = (r, out)" by fastforce
  obtain c r1 where r1: "rd_u8 r = (Inr c, r1)"
    using assms by (auto simp: rle_segment_def s atry_def pl_read_def Let_def split: prod.splits sum.splits)
  then have u8: "pl_read rd_u8 (r, out) = Some (Inr c, r1, out)" by (simp add: pl_read_def)
  let ?sg = "parse_control_byte c"
  let ?rest = "atry (pl_read (rd_bytes (sg_raw_count ?sg))) (\<lambda>raw.
      atry (store_raw g channel scanline raw d x) (\<lambda>(d, x).
      atry (store_run g channel scanline (sg_run ?sg) d x) (\<lambda>x. aret (d, x))))"
  have "?rest (r1, out) = Some (Inr y, s')"
    using assms u8 by (auto simp: rle_segment_def s atry_simps(1) [of "pl_read rd_u8"] Let_def afail_def split: if_splits)
  moreover have "shrinks pl_left ?rest"
    by (intro shrinks_try shrinks_pl_bytes shrinks_store_raw) (auto intro!: shrinks_try shrinks_store_run shrinks_ret)
  ultimately have "pl_left s' \<le> pl_left (r1, out)" unfolding shrinks_def by blast
  also have "\<dots> < pl_left s" using rd_u8_shrinks [OF r1] by (simp add: s pl_left_def)
  finally show ?thesis .
qed

section \<open>Model: the loop and the stream\<close>

function rle_segments :: "geometry \<Rightarrow> nat \<Rightarrow> nat \<Rightarrow> byte \<Rightarrow> nat \<Rightarrow> unit plane_action" where
  "rle_segments g channel scanline d x s =
     (if x < ge_width g
      then (case rle_segment g channel scanline d x s of
          None \<Rightarrow> None
        | Some (Inl e, s) \<Rightarrow> Some (Inl e, s)
        | Some (Inr (d, x), s) \<Rightarrow> rle_segments g channel scanline d x s)
      else Some (Inr (), s))"
  by pat_completeness auto
termination
  by (relation "measure (\<lambda>(_, _, _, _, _, s). pl_left s)") (auto dest: rle_segment_progress)

declare rle_segments.simps [simp del]

fun decode_rle_rows :: "geometry \<Rightarrow> nat \<Rightarrow> nat list \<Rightarrow> unit plane_action" where
  "decode_rle_rows g channel [] = aret ()"
| "decode_rle_rows g channel (scanline # scanlines) =
     atry (rle_segments g channel scanline 0 0) (\<lambda>_. decode_rle_rows g channel scanlines)"

definition decode_rle_plane :: "geometry \<Rightarrow> nat \<Rightarrow> unit plane_action" where
  "decode_rle_plane g channel = decode_rle_rows g channel [0..<ge_height g]"

fun decode_planes :: "geometry \<Rightarrow> bool \<Rightarrow> nat list \<Rightarrow> unit plane_action" where
  "decode_planes g rle [] = aret ()"
| "decode_planes g rle (channel # channels) =
     atry (if rle then decode_rle_plane g channel else decode_raw_plane g channel) (\<lambda>_. decode_planes g rle channels)"

text \<open>The two ends of \<open>decode\<close>: the opaque alpha channel, and the pad byte of raw planes.\<close>

definition fill_alpha :: "geometry \<Rightarrow> unit plane_action" where
  "fill_alpha g = put_values 0 offset_a (replicate (ge_pixels g) 0xFF)"

definition skip_pad :: "bool \<Rightarrow> unit plane_action" where
  "skip_pad rle s = (if \<not> rle \<and> rd_remaining (fst s) = 1 then pl_read (rd_skip 1) s else aret () s)"

definition planar_decode :: "bytes \<Rightarrow> u32 \<Rightarrow> u32 \<Rightarrow> orientation \<Rightarrow> bytes \<Rightarrow> (unit result \<times> bytes) option" where
  "planar_decode stream width height orient out =
     (if width = 0 \<or> height = 0 then Some (fail InvalidValue ''planar bitmap has no pixels'' 0, out)
      else if unat width > pl_max_dimension \<or> unat height > pl_max_dimension
      then Some (fail LimitExceeded ''planar bitmap exceeds planar::max_dimension'' 0, out)
      else do {
        let g = \<lparr>ge_width = unat width, ge_height = unat height, ge_orientation = orient\<rparr>;
        wassert (length out = ge_pixels g * px_size);
        (x, _, out) \<leftarrow> atry (pl_read rd_u8) (\<lambda>header.
          if header AND header_cll_mask \<noteq> 0
          then afail Unsupported ''planar color loss reduction (YCoCg) is not supported'' 0
          else if header AND header_cs \<noteq> 0 then afail Unsupported ''planar chroma subsampling is not supported'' 0
          else
            let rle = (header AND header_rle \<noteq> 0);
                has_alpha = (header AND header_na = 0)
            in atry (decode_planes g rle ((if has_alpha then [offset_a] else []) @ [offset_r, offset_g, offset_b])) (\<lambda>_.
               atry (if has_alpha then aret () else fill_alpha g) (\<lambda>_.
               atry (skip_pad rle) (\<lambda>_.
               pl_read (rd_expect_end ''planar bitmap stream has trailing data''))))) (mk_reader stream 0, out);
        Some (x, out)
      })"

end
