(* ===== verification/Planar_Roundtrip.thy ===== *)
theory Planar_Roundtrip
  imports Planar
begin

text \<open>
  The planar codec is lossless on colours: what the encoder writes for a picture, the decoder turns into the same
  colours with an opaque alpha channel, for every mode and row order; and the decoder returns on every input.
\<close>

section \<open>Differences are inverse\<close>

lemma byte_odd: "(w :: byte) AND 1 = 0 \<longleftrightarrow> even (unat w)"
  by (simp add: and_one_eq even_iff_mod_2_eq_zero [symmetric] unat_arith_simps)

lemma byte_less: "unat (w :: byte) < 256"
  using unsigned_less [of w] by simp

lemma half_byte: "unat (ucast (drop_bit 1 (w :: byte)) :: u32) = unat w div 2"
proof -
  have "unat w div 2 < 4294967296" using byte_less [of w] by linarith
  then show ?thesis by (simp add: drop_bit_eq_div unat_div unsigned_ucast_eq take_bit_nat_eq_self)
qed

lemma delta_pos: "unat (d :: byte) < 128 \<Longrightarrow> unat (push_bit 1 d) = 2 * unat d"
  by (simp add: push_bit_eq_mult unat_word_ariths)

lemma minus_of_nat: "n \<le> m \<Longrightarrow> (of_nat m - of_nat n :: 'a :: len word) = of_nat (m - n)"
  by (simp add: of_nat_diff)

lemma delta_neg: 
  assumes "128 \<le> unat (d :: byte)"
  shows "unat (ucast (push_bit 1 (0x100 - ucast d :: u32) - 1) :: byte) = 2 * (256 - unat d) - 1"
proof -
  let ?m = "256 - unat d"
  have le: "unat d \<le> 256" "1 \<le> 2 * ?m" using byte_less [of d] by linarith+
  then have "0x100 - ucast d = (of_nat ?m :: u32)" using minus_of_nat [OF le(1), where ?'a = 32] by simp
  moreover have "push_bit 1 (of_nat ?m :: u32) - 1 = of_nat (2 * ?m - 1)"
    using minus_of_nat [OF le(2), where ?'a = 32] by (simp add: push_bit_eq_mult mult.commute)
  ultimately have "push_bit 1 (0x100 - ucast d :: u32) - 1 = of_nat (2 * ?m - 1)" by (simp only:)
  moreover have "2 * ?m - 1 < 256" using assms by linarith
  ultimately show ?thesis by (simp add: unsigned_ucast_eq unsigned_of_nat take_bit_nat_eq_self)
qed

lemma delta_to_wire_unat: "unat (delta_to_wire v p) = (if unat (v - p) < 128 then 2 * unat (v - p) else 2 * (256 - unat (v - p)) - 1)"
proof -
  obtain d where d: "v - p = d" by blast
  show ?thesis
  proof (cases "unat d < 128")
    case True
    then show ?thesis using delta_pos [of d] by (simp add: delta_to_wire_def d word_less_nat_alt)
  next
    case False
    then show ?thesis using delta_neg [of d] by (simp add: delta_to_wire_def d word_less_nat_alt)
  qed
qed

lemma wire_to_delta_unat: "unat (wire_to_delta w) = (if even (unat w) then unat w div 2 else 255 - unat w div 2)"
proof -
  obtain h :: u32 where h: "ucast (drop_bit 1 w) = h" by blast
  have hu: "unat h = unat w div 2" using half_byte [of w] unfolding h .
  then have le: "unat h + 1 \<le> 256" "unat h < 256" using byte_less [of w] by linarith+
  have eq: "(0x100 - (h + 1) :: u32) = of_nat (256 - (unat h + 1))" using minus_of_nat [OF le(1), where ?'a = 32] by (simp add: add.commute)
  have "unat (ucast (of_nat k :: u32) :: byte) = k" if "k < 256" for k
    using that by (simp add: unsigned_ucast_eq unsigned_of_nat take_bit_nat_eq_self)
  from this [of "256 - (unat h + 1)"] have "unat (ucast (0x100 - (h + 1)) :: byte) = 255 - unat h"
    unfolding eq by linarith
  moreover have "unat (ucast h :: byte) = unat h" using le(2) by (simp add: unsigned_ucast_eq take_bit_nat_eq_self)
  ultimately show ?thesis unfolding wire_to_delta_def h Let_def byte_odd using hu by auto
qed

lemma wire_to_delta_inverse: "wire_to_delta (delta_to_wire v p) = v - p"
proof -
  have "(256 - unat (v - p) \<noteq> 0)" using byte_less [of "v - p"] by linarith
  then have "unat (wire_to_delta (delta_to_wire v p)) = unat (v - p)"
    unfolding wire_to_delta_unat delta_to_wire_unat by auto
  then show ?thesis by (simp only: word_unat_eq_iff)
qed

section \<open>Segments\<close>

text \<open>A segment is its raw values and the length of its run; the segments of a row stand for the row's symbols.\<close>

type_synonym pseg = "bytes \<times> nat"

definition pseg_ok :: "pseg \<Rightarrow> bool" where
  "pseg_ok s = (case s of (raw, run) \<Rightarrow> length raw \<le> 15 \<and>
     (if raw = [] then 3 \<le> run \<and> run \<le> 47 else run = 0 \<or> 3 \<le> run \<and> run \<le> 15))"

definition pseg_enc :: "pseg \<Rightarrow> bytes" where
  "pseg_enc s = (case s of (raw, run) \<Rightarrow>
     of_nat (if run \<ge> 32 then 16 * (run - 32) + 2 else if run \<ge> 16 then 16 * (run - 16) + 1 else 16 * length raw + run) # raw)"

fun psegs_symbols :: "byte \<Rightarrow> pseg list \<Rightarrow> bytes" where
  "psegs_symbols d [] = []"
| "psegs_symbols d ((raw, run) # ss) = raw @ replicate run (last (d # raw)) @ psegs_symbols (last (d # raw)) ss"

abbreviation psegs_enc :: "pseg list \<Rightarrow> bytes" where
  "psegs_enc ss \<equiv> concat (map pseg_enc ss)"

lemma psegs_symbols_append: "\<exists>d'. psegs_symbols d (ss @ ts) = psegs_symbols d ss @ psegs_symbols d' ts"
  by (induction ss arbitrary: d rule: psegs_symbols.induct) (auto simp del: last.simps)

lemma control_nibbles: "b \<le> 15 \<Longrightarrow> push_bit 4 a OR b = 16 * a + (b :: nat)"
proof -
  assume "b \<le> 15"
  then have b: "take_bit 4 b = b" by (simp add: take_bit_nat_eq_self)
  have "\<not> bit b n" if "4 \<le> n" for n using bit_take_bit_iff [of 4 b n] that by (simp add: b)
  then have "push_bit 4 a AND b = 0" by (intro bit_eqI) (auto simp: bit_and_iff bit_push_bit_iff)
  from disjunctive_add_eq_or [OF this] show ?thesis by (simp add: push_bit_eq_mult)
qed

lemma control_byte_ok: "a \<le> 15 \<Longrightarrow> b \<le> 15 \<Longrightarrow> control_byte a b = Some (of_nat (16 * a + b))"
  by (simp add: control_byte_def wassert_def control_nibbles)

lemma parse_control_nibbles:
  assumes "a \<le> 15" "b \<le> 15"
  shows "unat (drop_bit 4 (of_nat (16 * a + b) :: byte)) = a" "unat ((of_nat (16 * a + b) :: byte) AND 0x0F) = b"
proof -
  have less: "16 * a + b < 256" using assms by linarith
  then have u: "unat (of_nat (16 * a + b) :: byte) = 16 * a + b" by (simp add: unsigned_of_nat take_bit_nat_eq_self del: of_nat_add)
  then show "unat (drop_bit 4 (of_nat (16 * a + b) :: byte)) = a"
    using assms(2) by (simp add: drop_bit_eq_div unat_div del: of_nat_add)
  have "(of_nat (16 * a + b) :: byte) AND 0x0F = take_bit 4 (of_nat (16 * a + b))" by (simp add: take_bit_eq_mask mask_eq_exp_minus_1)
  then show "unat ((of_nat (16 * a + b) :: byte) AND 0x0F) = b"
    using assms(2) u by (simp add: take_bit_eq_mod unat_mod del: of_nat_add)
qed

lemma parse_pseg:
  assumes "pseg_ok (raw, run)"
  shows "parse_control_byte (hd (pseg_enc (raw, run))) = \<lparr>sg_raw_count = length raw, sg_run = run\<rparr>"
proof -
  have parse: "parse_control_byte (of_nat (16 * a + b)) =
      (if b = 1 then \<lparr>sg_raw_count = 0, sg_run = 16 + a\<rparr> else if b = 2 then \<lparr>sg_raw_count = 0, sg_run = 32 + a\<rparr>
       else \<lparr>sg_raw_count = a, sg_run = b\<rparr>)" if "a \<le> 15" "b \<le> 15" for a b
    by (simp only: parse_control_byte_def parse_control_nibbles [OF that] Let_def pl_constants)
  consider "32 \<le> run" "raw = []" "run \<le> 47" | "16 \<le> run" "run < 32" "raw = []"
    | "run < 16" "run \<noteq> 1" "run \<noteq> 2" "length raw \<le> 15"
    using assms by (cases "32 \<le> run"; cases "16 \<le> run"; cases "raw = []") (auto simp: pseg_ok_def)
  then show ?thesis
  proof cases
    case 1 then show ?thesis using parse [of "run - 32" 2] by (simp add: pseg_enc_def del: of_nat_add of_nat_mult)
  next
    case 2 then show ?thesis using parse [of "run - 16" 1] by (simp add: pseg_enc_def del: of_nat_add of_nat_mult)
  next
    case 3 then show ?thesis using parse [of "length raw" run] by (simp add: pseg_enc_def del: of_nat_add of_nat_mult)
  qed
qed

section \<open>What the encoder writes for a row\<close>

lemma write_runs_segs:
  "run = 0 \<or> 3 \<le> run \<Longrightarrow> \<exists>ss. write_runs run w = Some (w @ psegs_enc ss) \<and> list_all pseg_ok ss \<and> (\<forall>d. psegs_symbols d ss = replicate run d)"
proof (induction run arbitrary: w rule: less_induct)
  case (less run)
  show ?case
  proof (cases "run = 0")
    case False
    define piece where "piece = (if run \<le> 47 then run else if run < 50 then run - 3 else 47)"
    have p: "3 \<le> piece" "piece \<le> 47" "piece \<le> run" "run - piece = 0 \<or> 3 \<le> run - piece"
      using less.prems False by (auto simp: piece_def)
    let ?b = "of_nat (if piece \<ge> 32 then 16 * (piece - 32) + 2 else if piece \<ge> 16 then 16 * (piece - 16) + 1 else 16 * 0 + piece) :: byte"
    have b: "(if piece \<ge> 32 then control_byte (piece - 32) run_escape_32
        else if piece \<ge> 16 then control_byte (piece - 16) run_escape_16 else control_byte 0 piece) = Some ?b"
      using p by (simp add: control_byte_ok pl_constants del: of_nat_add of_nat_mult)
    have "write_runs run w = write_runs (run - piece) (w @ [?b])"
      using less.prems False b by (subst write_runs.simps) (auto simp: Let_def pl_constants piece_def min_def wr_simps)
    moreover obtain ss where "write_runs (run - piece) (w @ [?b]) = Some ((w @ [?b]) @ psegs_enc ss)" "list_all pseg_ok ss"
      "\<forall>d. psegs_symbols d ss = replicate (run - piece) d"
      using less.IH [of "run - piece" "w @ [?b]"] p False less.prems by auto
    moreover have "pseg_enc ([], piece) = [?b]" by (simp add: pseg_enc_def del: of_nat_add of_nat_mult)
    moreover have "replicate piece d @ replicate (run - piece) d = replicate run d" for d :: byte
      using p(3) by (simp flip: replicate_add)
    moreover have "pseg_ok ([], piece)" using p by (simp add: pseg_ok_def)
    ultimately show ?thesis by (intro exI [of _ "([], piece) # ss"]) simp
  qed (simp add: write_runs.simps exI [of _ "[]"])
qed

lemma write_segments_segs:
  "run = 0 \<or> 3 \<le> run \<Longrightarrow> \<exists>ss. write_segments raw run w = Some (w @ psegs_enc ss) \<and> list_all pseg_ok ss \<and>
     (\<forall>d. psegs_symbols d ss = raw @ replicate run (last (d # raw)))"
proof (induction raw arbitrary: w rule: length_induct)
  case (1 raw)
  show ?case
  proof (cases "length raw \<le> 15")
    case False
    let ?a = "take 15 raw" and ?z = "drop 15 raw"
    have a: "pseg_ok (?a, 0)" "pseg_enc (?a, 0) = of_nat (16 * 15 + 0) # ?a" using False by (auto simp: pseg_ok_def pseg_enc_def)
    have "length ?z < length raw" using False by simp
    with "1.IH" [rule_format, of ?z "w @ pseg_enc (?a, 0)"] "1.prems"
    obtain ss where ss: "write_segments ?z run (w @ pseg_enc (?a, 0)) = Some ((w @ pseg_enc (?a, 0)) @ psegs_enc ss)" "list_all pseg_ok ss"
      "\<forall>d. psegs_symbols d ss = ?z @ replicate run (last (d # ?z))"
      by blast
    have "write_segments raw run w = write_segments ?z run (w @ pseg_enc (?a, 0))"
      using "1.prems" False by (subst write_segments.simps) (simp add: pl_constants control_byte_ok wr_simps a(2))
    moreover have "last (d # raw) = last (d' # ?z)" for d d' using False by (auto simp: last_drop)
    ultimately show ?thesis using ss a(1) by (intro exI [of _ "(?a, 0) # ss"]) (auto simp: append_take_drop_id)
  next
    case True
    show ?thesis
    proof (cases "raw = []")
      case True
      with "1.prems" write_runs_segs [of run w] show ?thesis by (subst write_segments.simps) (simp add: pl_constants)
    next
      case False
      define inline where "inline = (if run \<le> 15 then run else if 18 \<le> run then 15 else run - 3)"
      have i: "inline \<le> 15" "inline = 0 \<or> 3 \<le> inline" "inline \<le> run" "run - inline = 0 \<or> 3 \<le> run - inline"
        using "1.prems" by (auto simp: inline_def)
      have "pseg_enc (raw, inline) = of_nat (16 * length raw + inline) # raw" using i by (simp add: pseg_enc_def del: of_nat_add of_nat_mult)
      then have "write_segments raw run w = write_runs (run - inline) (w @ pseg_enc (raw, inline))"
        using "1.prems" False True i
        by (subst write_segments.simps) (auto simp: pl_constants control_byte_ok wr_simps Let_def inline_def simp del: of_nat_add of_nat_mult)
      moreover obtain ss where "write_runs (run - inline) (w @ pseg_enc (raw, inline)) = Some ((w @ pseg_enc (raw, inline)) @ psegs_enc ss)"
        "list_all pseg_ok ss" "\<forall>d. psegs_symbols d ss = replicate (run - inline) d"
        using write_runs_segs [OF i(4)] by blast
      moreover have "replicate inline d @ replicate (run - inline) d = replicate run d" for d :: byte
        using i(3) by (simp flip: replicate_add)
      moreover have "pseg_ok (raw, inline)" using i False True by (simp add: pseg_ok_def)
      ultimately show ?thesis by (intro exI [of _ "(raw, inline) # ss"]) simp
    qed
  qed
qed

lemma run_end_equal:
  "i < j \<Longrightarrow> j \<le> length symbols \<Longrightarrow> run_end symbols i j \<le> length symbols \<and> (\<forall>k. j \<le> k \<longrightarrow> k < run_end symbols i j \<longrightarrow> symbols ! k = symbols ! i)"
proof (induction symbols i j rule: run_end.induct)
  case (1 symbols i j)
  show ?case
  proof (cases "j < length symbols \<and> symbols ! j = symbols ! i")
    case True
    then have "run_end symbols i j = run_end symbols i (Suc j)" by (subst run_end.simps) simp
    moreover have "run_end symbols i (Suc j) \<le> length symbols \<and>
        (\<forall>k. Suc j \<le> k \<longrightarrow> k < run_end symbols i (Suc j) \<longrightarrow> symbols ! k = symbols ! i)"
      using "1.IH" True "1.prems" by auto
    ultimately show ?thesis using True by (metis le_antisym not_less_eq_eq)
  next
    case False
    then have "run_end symbols i j = j" by (subst run_end.simps) auto
    with "1.prems" show ?thesis by simp
  qed
qed

lemma run_split:
  assumes "i < length symbols" "j = run_end symbols i (Suc i)"
  shows "i < j" "j \<le> length symbols" "drop i symbols = replicate (j - i) (symbols ! i) @ drop j symbols"
proof -
  have j: "j \<le> length symbols" "\<forall>k. Suc i \<le> k \<longrightarrow> k < j \<longrightarrow> symbols ! k = symbols ! i"
    using run_end_equal [of i "Suc i" symbols] assms by auto
  show ij: "i < j" using run_end_ge [of "Suc i" symbols i] assms(2) by simp
  show "j \<le> length symbols" by (rule j)
  have "take (j - i) (drop i symbols) = replicate (j - i) (symbols ! i)"
  proof (rule nth_equalityI)
    fix k assume "k < length (take (j - i) (drop i symbols))"
    with j ij show "take (j - i) (drop i symbols) ! k = replicate (j - i) (symbols ! i) ! k" by (cases k) auto
  qed (use j ij in auto)
  then show "drop i symbols = replicate (j - i) (symbols ! i) @ drop j symbols"
    using append_take_drop_id [of "j - i" "drop i symbols"] ij by simp
qed

definition scanned :: "bytes \<Rightarrow> nat \<Rightarrow> writer \<Rightarrow> writer option \<Rightarrow> bool" where
  "scanned symbols rb w res \<longleftrightarrow> (\<exists>ss. res = Some (w @ psegs_enc ss) \<and> list_all pseg_ok ss \<and>
     (\<forall>d. (rb = 0 \<longrightarrow> d = 0) \<longrightarrow> psegs_symbols d ss = drop rb symbols))"

lemma scanned_step:
  assumes "\<forall>d. (rb = 0 \<longrightarrow> d = 0) \<longrightarrow> psegs_symbols d ss @ drop j symbols = drop rb symbols" "list_all pseg_ok ss" "0 < j"
    and "scanned symbols j (w @ psegs_enc ss) res"
  shows "scanned symbols rb w res"
proof -
  obtain ts where ts: "res = Some ((w @ psegs_enc ss) @ psegs_enc ts)" "list_all pseg_ok ts" "\<forall>d. psegs_symbols d ts = drop j symbols"
    using assms(3,4) by (auto simp: scanned_def)
  have "psegs_symbols d (ss @ ts) = psegs_symbols d ss @ drop j symbols" for d
    using psegs_symbols_append [of d ss ts] ts(3) by auto
  with assms(1,2) ts(1,2) show ?thesis unfolding scanned_def by (intro exI [of _ "ss @ ts"]) simp
qed

lemma rle_scan_segs:
  "rb \<le> i \<Longrightarrow> i \<le> length symbols \<Longrightarrow> scanned symbols rb w (rle_scan symbols i rb w)"
proof (induction symbols i rb w rule: rle_scan.induct)
  case (1 symbols i rb w)
  show ?case
  proof (cases "i < length symbols")
    case False
    with "1.prems" have i: "i = length symbols" by simp
    show ?thesis
    proof (cases "rb < length symbols")
      case True
      with i write_segments_segs [of 0 "drop rb symbols" w] show ?thesis by (simp add: rle_scan.simps [of symbols] scanned_def) blast
    next
      case False
      with i show ?thesis by (simp add: rle_scan.simps [of symbols] scanned_def exI [of _ "[] :: pseg list"])
    qed
  next
    case True
    define j where "j = run_end symbols i (Suc i)"
    note js = run_split [OF True j_def]
    consider (zeros) "i = 0" "symbols ! 0 = 0" "3 \<le> j" | (run) "\<not> (i = 0 \<and> symbols ! 0 = 0 \<and> 3 \<le> j - i)" "3 < j - i"
      | (raw) "\<not> (i = 0 \<and> symbols ! 0 = 0 \<and> 3 \<le> j - i)" "j - i \<le> 3"
      by fastforce
    then show ?thesis
    proof cases
      case zeros
      then obtain ss where ss: "write_segments [] j w = Some (w @ psegs_enc ss)" "list_all pseg_ok ss" "\<forall>d. psegs_symbols d ss = replicate j d"
        using write_segments_segs [of j "[]" w] by auto
      have "rle_scan symbols i rb w = rle_scan symbols j j (w @ psegs_enc ss)"
        using True zeros ss(1) by (subst rle_scan.simps) (simp add: Let_def pl_constants j_def)
      moreover have "scanned symbols j (w @ psegs_enc ss) (rle_scan symbols j j (w @ psegs_enc ss))"
        using "1.IH"(1) [OF True j_def refl] zeros ss(1) js(2) by (simp add: pl_constants)
      ultimately show ?thesis
        using scanned_step [of rb ss j symbols w] ss zeros js "1.prems"(1) by simp
    next
      case run
      let ?raw = "take (i + 1 - rb) (drop rb symbols)"
      have "j - i - 1 = 0 \<or> 3 \<le> j - i - 1" using run by linarith
      from write_segments_segs [OF this, of ?raw w]
      obtain ss where ss: "write_segments ?raw (j - i - 1) w = Some (w @ psegs_enc ss)" "list_all pseg_ok ss"
        "\<forall>d. psegs_symbols d ss = ?raw @ replicate (j - i - 1) (last (d # ?raw))"
        by blast
      have "rle_scan symbols i rb w = rle_scan symbols j j (w @ psegs_enc ss)"
        using True run ss(1) by (subst rle_scan.simps) (auto simp: Let_def pl_constants simp flip: j_def)
      moreover have "scanned symbols j (w @ psegs_enc ss) (rle_scan symbols j j (w @ psegs_enc ss))"
        using "1.IH"(2) [OF True j_def refl] run ss(1) js(2) by (simp add: pl_constants)
      moreover have "psegs_symbols d ss @ drop j symbols = drop rb symbols" for d
      proof -
        have "?raw = take (i - rb) (drop rb symbols) @ [symbols ! i]"
          using True "1.prems"(1) by (simp add: Suc_diff_le take_Suc_conv_app_nth)
        moreover have "drop rb symbols = take (i - rb) (drop rb symbols) @ drop i symbols"
          using append_take_drop_id [of "i - rb" "drop rb symbols"] "1.prems"(1) by simp
        moreover have "replicate (j - i) (symbols ! i) = symbols ! i # replicate (j - i - 1) (symbols ! i)"
          using js(1) by (cases "j - i") auto
        ultimately show ?thesis using ss(3) js(3) by (metis append.assoc append_Cons append_Nil last_ConsR last_snoc snoc_eq_iff_butlast)
      qed
      ultimately show ?thesis
        using scanned_step [of rb ss j symbols w] ss(2) js(1) by simp
    next
      case raw
      have "rle_scan symbols i rb w = rle_scan symbols j rb w"
        using True raw by (subst rle_scan.simps) (auto simp: Let_def pl_constants simp flip: j_def)
      moreover have "scanned symbols rb w (rle_scan symbols j rb w)"
        using "1.IH"(3) [OF True j_def refl] raw js "1.prems" by (simp add: pl_constants)
      ultimately show ?thesis by simp
    qed
  qed
qed

section \<open>What the decoder writes\<close>

text \<open>Writing a row of values of one channel, and the rows of a plane, into the picture.\<close>

fun put_row :: "nat \<Rightarrow> nat \<Rightarrow> bytes \<Rightarrow> bytes \<Rightarrow> bytes" where
  "put_row pixel channel [] out = out"
| "put_row pixel channel (v # vs) out = put_row (pixel + 1) channel vs (out[sample_index pixel channel := v])"

fun put_rows :: "geometry \<Rightarrow> nat \<Rightarrow> nat \<Rightarrow> bytes list \<Rightarrow> bytes \<Rightarrow> bytes" where
  "put_rows g channel k [] out = out"
| "put_rows g channel k (row # rows) out = put_rows g channel (Suc k) rows (put_row (image_row g k * ge_width g) channel row out)"

lemma length_put_row [simp]: "length (put_row pixel channel vs out) = length out"
  by (induction vs arbitrary: pixel out) auto

lemma length_put_rows [simp]: "length (put_rows g channel k rows out) = length out"
  by (induction rows arbitrary: k out) auto

lemma put_row_other:
  "(\<And>j. j < length vs \<Longrightarrow> i \<noteq> sample_index (pixel + j) channel) \<Longrightarrow> put_row pixel channel vs out ! i = out ! i"
proof (induction vs arbitrary: pixel out)
  case (Cons v vs)
  have "i \<noteq> sample_index (pixel + 1 + j) channel" if "j < length vs" for j using Cons.prems [of "Suc j"] that by simp
  moreover have "i \<noteq> sample_index pixel channel" using Cons.prems [of 0] by simp
  ultimately show ?case using Cons.IH by (simp add: nth_list_update)
qed simp

lemma sample_index_inj [simp]: "sample_index p c = sample_index q c \<longleftrightarrow> p = q"
  by (simp add: sample_index_def px_size_def)

lemma put_row_nth:
  "j < length vs \<Longrightarrow> sample_index (pixel + j) channel < length out \<Longrightarrow> put_row pixel channel vs out ! sample_index (pixel + j) channel = vs ! j"
proof (induction vs arbitrary: pixel out j)
  case (Cons v vs)
  show ?case
  proof (cases j)
    case 0
    have "put_row (pixel + 1) channel vs (out[sample_index pixel channel := v]) ! sample_index pixel channel =
        (out[sample_index pixel channel := v]) ! sample_index pixel channel" by (rule put_row_other) simp
    with 0 Cons.prems show ?thesis by simp
  next
    case (Suc m)
    with Cons.IH [of m "pixel + 1"] Cons.prems show ?thesis by simp
  qed
qed simp

definition ge_ok :: "geometry \<Rightarrow> nat \<Rightarrow> bytes \<Rightarrow> bool" where
  "ge_ok g channel out \<longleftrightarrow> channel < 4 \<and> length out = ge_pixels g * px_size"

lemma image_row_less: "k < ge_height g \<Longrightarrow> image_row g k < ge_height g"
  by (simp add: image_row_def)

lemma image_row_inj: "k < ge_height g \<Longrightarrow> l < ge_height g \<Longrightarrow> image_row g k = image_row g l \<longleftrightarrow> k = l"
  by (auto simp: image_row_def)

lemma sample_in_range:
  assumes "ge_ok g channel out" "row < ge_height g" "x < ge_width g"
  shows "sample_index (row * ge_width g + x) channel < length out"
proof -
  have "row * ge_width g + x < ge_height g * ge_width g"
  proof -
    have "row * ge_width g + x < Suc row * ge_width g" using assms(3) by simp
    also have "\<dots> \<le> ge_height g * ge_width g" using assms(2) by (intro mult_le_mono1) simp
    finally show ?thesis .
  qed
  then show ?thesis using assms(1) by (simp add: ge_ok_def sample_index_def px_size_def ge_pixels_def mult.commute)
qed

lemma pixel_eq_iff: "x < w \<Longrightarrow> y < w \<Longrightarrow> row * w + x = row' * w + y \<longleftrightarrow> row = row' \<and> x = (y :: nat)"
  by (metis add.commute div_mult_self1 div_less add_cancel_left_left mod_less mod_mult_self1 not_less_zero)

text \<open>The raw loop writes its row.\<close>

lemma put_values_row:
  assumes "\<And>j. j < length vs \<Longrightarrow> sample_index (pixel + j) channel < length out"
  shows "put_values pixel channel vs (r, out) = Some (Inr (), (r, put_row pixel channel vs out))"
  using assms
proof (induction vs arbitrary: pixel out)
  case (Cons v vs)
  have "sample_index (pixel + 1 + j) channel < length out" if "j < length vs" for j using Cons.prems [of "Suc j"] that by simp
  with Cons.IH [of "pixel + 1" "out[sample_index pixel channel := v]"] Cons.prems [of 0] show ?case
    by (simp add: atry_def pl_put_def put_index_def)
qed (simp add: aret_def)

lemma decode_raw_rows_ok:
  assumes "ge_ok g channel out" "k + length rows = ge_height g" "\<forall>row \<in> set rows. length row = ge_width g" "rd_rest r = concat rows @ ys"
  shows "decode_raw_rows g channel [k..<ge_height g] (r, out) =
    Some (Inr (), (rd_advance (length (concat rows)) r, put_rows g channel k rows out))"
  using assms
proof (induction rows arbitrary: k r out)
  case Nil
  then show ?case by (simp add: aret_def)
next
  case (Cons row rows)
  let ?out = "put_row (image_row g k * ge_width g) channel row out" and ?r = "rd_advance (ge_width g) r"
  have k: "[k..<ge_height g] = k # [Suc k..<ge_height g]" "k < ge_height g" using Cons.prems by (simp_all add: upt_conv_Cons)
  have "pl_read (rd_bytes (ge_width g)) (r, out) = Some (Inr row, ?r, out)"
    using Cons.prems by (simp add: pl_read_def rd_simps)
  moreover have "put_values (image_row g k * ge_width g) channel row (?r, out) = Some (Inr (), (?r, ?out))"
    using Cons.prems k by (intro put_values_row) (auto intro!: sample_in_range image_row_less)
  moreover have "decode_raw_rows g channel [Suc k..<ge_height g] (?r, ?out) =
      Some (Inr (), (rd_advance (length (concat rows)) ?r, put_rows g channel (Suc k) rows ?out))"
    using Cons.prems by (intro Cons.IH) (auto simp: ge_ok_def)
  ultimately show ?case using Cons.prems by (simp add: k(1) atry_def add.commute)
qed
text \<open>
  A row of the RLE loop: every stored value is the sum of a difference and the value above, which the row itself
  does not change.
\<close>

definition prior_of :: "geometry \<Rightarrow> nat \<Rightarrow> nat \<Rightarrow> bytes \<Rightarrow> nat \<Rightarrow> byte" where
  "prior_of g channel k out x = (if k = 0 then 0 else out ! sample_index (image_row g (k - 1) * ge_width g + x) channel)"

fun stores :: "geometry \<Rightarrow> nat \<Rightarrow> nat \<Rightarrow> bytes \<Rightarrow> nat \<Rightarrow> bytes \<Rightarrow> bytes" where
  "stores g channel k [] x out = out"
| "stores g channel k (d # ds) x out =
     stores g channel k ds (x + 1) (out[sample_index (image_row g k * ge_width g + x) channel := prior_of g channel k out x + d])"

definition wire_value :: "nat \<Rightarrow> byte \<Rightarrow> byte" where
  "wire_value k wire = (if k = 0 then wire else wire_to_delta wire)"

lemma length_stores [simp]: "length (stores g channel k ds x out) = length out"
  by (induction ds arbitrary: x out) auto

lemma stores_append: "stores g channel k (ds @ es) x out = stores g channel k es (x + length ds) (stores g channel k ds x out)"
  by (induction ds arbitrary: x out) auto

lemma ge_ok_length: "length out' = length out \<Longrightarrow> ge_ok g channel out' = ge_ok g channel out"
  by (simp add: ge_ok_def)

lemma pl_store_ok:
  assumes "ge_ok g channel out" "k < ge_height g" "x < ge_width g"
  shows "pl_store g channel k d x (r, out) = Some (Inr (), (r, stores g channel k [d] x out))"
proof -
  have "sample_index (image_row g k * ge_width g + x) channel < length out"
    using assms by (intro sample_in_range image_row_less)
  moreover have "sample_index (image_row g (k - 1) * ge_width g + x) channel < length out"
    using assms by (intro sample_in_range image_row_less) auto
  ultimately show ?thesis
    by (simp add: pl_store_def pl_put_def put_index_def at_index_def prior_of_def)
qed

lemma store_raw_ok:
  "ge_ok g channel out \<Longrightarrow> k < ge_height g \<Longrightarrow> x + length raw \<le> ge_width g \<Longrightarrow>
   store_raw g channel k raw d x (r, out) =
     Some (Inr (last (d # map (wire_value k) raw), x + length raw), (r, stores g channel k (map (wire_value k) raw) x out))"
proof (induction raw arbitrary: d x out)
  case (Cons w ws)
  let ?d = "wire_value k w"
  have "pl_store g channel k ?d x (r, out) = Some (Inr (), (r, stores g channel k [?d] x out))"
    using Cons.prems by (intro pl_store_ok) auto
  moreover have "ge_ok g channel (stores g channel k [?d] x out)"
    using Cons.prems(1) by (subst ge_ok_length [OF length_stores])
  ultimately show ?case
    using Cons.IH [of "stores g channel k [?d] x out" "x + 1" ?d] Cons.prems(2,3)
    by (simp add: atry_def Let_def wire_value_def)
qed (simp add: aret_def)

lemma store_run_ok:
  "ge_ok g channel out \<Longrightarrow> k < ge_height g \<Longrightarrow> x + n \<le> ge_width g \<Longrightarrow>
   store_run g channel k n d x (r, out) = Some (Inr (x + n), (r, stores g channel k (replicate n d) x out))"
proof (induction n arbitrary: x out)
  case (Suc n)
  have "pl_store g channel k d x (r, out) = Some (Inr (), (r, stores g channel k [d] x out))"
    using Suc.prems by (intro pl_store_ok) auto
  moreover have "ge_ok g channel (stores g channel k [d] x out)"
    using Suc.prems(1) by (subst ge_ok_length [OF length_stores])
  ultimately show ?case
    using Suc.IH [of "stores g channel k [d] x out" "x + 1"] Suc.prems(2,3) by (simp add: atry_def)
qed (simp add: aret_def)

lemma rle_segment_ok:
  assumes "ge_ok g channel out" "k < ge_height g" "pseg_ok (raw, run)" "x + length raw + run \<le> ge_width g"
    and "rd_rest r = pseg_enc (raw, run) @ ys"
  shows "rle_segment g channel k d x (r, out) =
    Some (Inr (last (d # map (wire_value k) raw), x + length raw + run), (rd_advance (length (pseg_enc (raw, run))) r,
      stores g channel k (map (wire_value k) raw @ replicate run (last (d # map (wire_value k) raw))) x out))"
proof -
  let ?d = "last (d # map (wire_value k) raw)" and ?out = "stores g channel k (map (wire_value k) raw) x out"
  obtain c where c: "pseg_enc (raw, run) = c # raw" by (simp add: pseg_enc_def)
  have seg: "parse_control_byte c = \<lparr>sg_raw_count = length raw, sg_run = run\<rparr>" using parse_pseg [OF assms(3)] by (simp add: c)
  have u8: "pl_read rd_u8 (r, out) = Some (Inr c, rd_advance 1 r, out)" using assms(5) by (simp add: pl_read_def rd_simps c)
  have bytes: "pl_read (rd_bytes (length raw)) (rd_advance 1 r, out) = Some (Inr raw, rd_advance (Suc (length raw)) r, out)"
    using assms(5) by (simp add: pl_read_def rd_simps c add.commute)
  have raw: "store_raw g channel k raw d x (rd_advance (Suc (length raw)) r, out) = Some (Inr (?d, x + length raw), rd_advance (Suc (length raw)) r, ?out)"
    using assms by (intro store_raw_ok) auto
  have "ge_ok g channel ?out" using assms(1) by (subst ge_ok_length [OF length_stores])
  then have run: "store_run g channel k run ?d (x + length raw) (rd_advance (Suc (length raw)) r, ?out) =
      Some (Inr (x + length raw + run), rd_advance (Suc (length raw)) r, stores g channel k (replicate run ?d) (x + length raw) ?out)"
    using assms by (intro store_run_ok) auto
  have "\<not> length raw + run > ge_width g - x" using assms(4) by linarith
  then show ?thesis
    using u8 bytes raw run by (simp add: rle_segment_def Let_def atry_def seg stores_append c aret_def del: last.simps)
qed

lemma rle_segments_ok:
  assumes "ge_ok g channel out" "k < ge_height g" "list_all pseg_ok ss" "x + length (psegs_symbols l ss) = ge_width g"
    and "rd_rest r = psegs_enc ss @ ys" "d = wire_value k l"
  shows "rle_segments g channel k d x (r, out) =
    Some (Inr (), (rd_advance (length (psegs_enc ss)) r, stores g channel k (map (wire_value k) (psegs_symbols l ss)) x out))"
  using assms
proof (induction ss arbitrary: x r out d l)
  case Nil
  then show ?case by (simp add: rle_segments.simps)
next
  case (Cons s ss)
  obtain raw run where s: "s = (raw, run)" by fastforce
  let ?l = "last (l # raw)" and ?e = "map (wire_value k) (raw @ replicate run (last (l # raw)))"
  let ?r = "rd_advance (length (pseg_enc s)) r" and ?out = "stores g channel k ?e x out"
  have pos: "0 < length raw + run" using Cons.prems(3) by (auto simp: s pseg_ok_def split: if_splits)
  have d: "last (d # map (wire_value k) raw) = wire_value k ?l" using Cons.prems(6) by (cases raw rule: rev_cases) auto
  have "rle_segment g channel k d x (r, out) = Some (Inr (wire_value k ?l, x + length raw + run), ?r, ?out)"
    using rle_segment_ok [of g channel out k raw run x r "psegs_enc ss @ ys" d] Cons.prems
    unfolding d by (simp add: s del: last.simps)
  moreover have "rle_segments g channel k (wire_value k ?l) (x + length raw + run) (?r, ?out) =
      Some (Inr (), (rd_advance (length (psegs_enc ss)) ?r, stores g channel k (map (wire_value k) (psegs_symbols ?l ss)) (x + length raw + run) ?out))"
    using Cons.prems by (intro Cons.IH) (auto simp: s ge_ok_def simp del: last.simps)
  moreover have "x < ge_width g" using Cons.prems(4) pos unfolding s psegs_symbols.simps length_append length_replicate by linarith
  ultimately show ?case
    by (subst rle_segments.simps) (simp add: s stores_append add.commute add.left_commute del: last.simps)
qed

lemma stores_put_row:
  assumes "ge_ok g channel out" "k < ge_height g" "x + length ds \<le> ge_width g" "length vals = length ds"
    and "\<And>j. j < length ds \<Longrightarrow> prior_of g channel k out (x + j) + ds ! j = vals ! j"
  shows "stores g channel k ds x out = put_row (image_row g k * ge_width g + x) channel vals out"
  using assms
proof (induction ds arbitrary: x out vals)
  case (Cons d ds)
  obtain v vs where v: "vals = v # vs" using Cons.prems(4) by (cases vals) auto
  let ?out = "out[sample_index (image_row g k * ge_width g + x) channel := v]"
  have "prior_of g channel k out x + d = v" using Cons.prems(5) [of 0] by (simp add: v)
  moreover have "stores g channel k ds (x + 1) ?out = put_row (image_row g k * ge_width g + (x + 1)) channel vs ?out"
  proof (rule Cons.IH)
    fix j assume j: "j < length ds"
    have "image_row g (k - 1) \<noteq> image_row g k" if "k \<noteq> 0" using that Cons.prems(2) image_row_inj [of "k - 1" g k] by auto
    then have "image_row g (k - 1) * ge_width g + (x + 1 + j) \<noteq> image_row g k * ge_width g + x" if "k \<noteq> 0"
      using that Cons.prems(3) j pixel_eq_iff [of "x + 1 + j" "ge_width g" x] by auto
    then have "prior_of g channel k ?out (x + 1 + j) = prior_of g channel k out (x + 1 + j)"
      by (auto simp: prior_of_def nth_list_update)
    with Cons.prems(5) [of "Suc j"] j show "prior_of g channel k ?out (x + 1 + j) + ds ! j = vs ! j" by (simp add: v)
  qed (use Cons.prems v in \<open>auto simp: ge_ok_def\<close>)
  ultimately show ?case by (simp add: v)
qed simp

text \<open>A row as the encoder codes it: the symbols are its values, or their differences to the row above.\<close>

definition row_symbols :: "nat \<Rightarrow> bytes \<Rightarrow> bytes \<Rightarrow> bytes" where
  "row_symbols k prev row = (if k = 0 then row else map2 delta_to_wire row prev)"

lemma wire_value_symbol:
  assumes "j < length row" "length prev = length row"
  shows "(if k = 0 then 0 else prev ! j) + map (wire_value k) (row_symbols k prev row) ! j = row ! j"
  using assms by (simp add: row_symbols_def wire_value_def wire_to_delta_inverse)

text \<open>What is known of the row above when row \<open>k\<close> is decoded.\<close>

definition prev_written :: "geometry \<Rightarrow> nat \<Rightarrow> nat \<Rightarrow> bytes \<Rightarrow> bytes \<Rightarrow> bool" where
  "prev_written g channel k prev out \<longleftrightarrow> length prev = ge_width g \<and>
     (k \<noteq> 0 \<longrightarrow> (\<forall>x < ge_width g. out ! sample_index (image_row g (k - 1) * ge_width g + x) channel = prev ! x))"

fun rle_rows_enc :: "nat \<Rightarrow> bytes \<Rightarrow> bytes list \<Rightarrow> bytes list \<Rightarrow> bool" where
  "rle_rows_enc k prev [] bs \<longleftrightarrow> bs = []"
| "rle_rows_enc k prev (row # rows) bs \<longleftrightarrow> (\<exists>ss bs'. bs = psegs_enc ss # bs' \<and> list_all pseg_ok ss \<and>
     psegs_symbols 0 ss = row_symbols k prev row \<and> rle_rows_enc (Suc k) row rows bs')"

lemma decode_rle_rows_ok:
  assumes "ge_ok g channel out" "k + length rows = ge_height g" "\<forall>row \<in> set rows. length row = ge_width g"
    and "rle_rows_enc k prev rows bs" "rd_rest r = concat bs @ ys" "prev_written g channel k prev out"
  shows "decode_rle_rows g channel [k..<ge_height g] (r, out) =
    Some (Inr (), (rd_advance (length (concat bs)) r, put_rows g channel k rows out))"
  using assms
proof (induction rows arbitrary: k prev bs r out)
  case Nil
  then show ?case by (simp add: aret_def)
next
  case (Cons row rows)
  have k: "[k..<ge_height g] = k # [Suc k..<ge_height g]" "k < ge_height g" using Cons.prems by (simp_all add: upt_conv_Cons)
  obtain ss bs' where ss: "bs = psegs_enc ss # bs'" "list_all pseg_ok ss" "psegs_symbols 0 ss = row_symbols k prev row"
    "rle_rows_enc (Suc k) row rows bs'" using Cons.prems(4) by auto
  let ?r = "rd_advance (length (psegs_enc ss)) r" and ?out = "put_row (image_row g k * ge_width g) channel row out"
  have len: "length row = ge_width g" "length prev = ge_width g" "length (row_symbols k prev row) = ge_width g"
    using Cons.prems(3,6) by (auto simp: prev_written_def row_symbols_def)
  have "rle_segments g channel k 0 0 (r, out) = Some (Inr (), (?r, stores g channel k (map (wire_value k) (row_symbols k prev row)) 0 out))"
    using rle_segments_ok [of g channel out k ss 0 0 r "concat bs' @ ys" 0] Cons.prems(1,5) k(2) ss len(3)
    by (simp add: wire_value_def wire_to_delta_def)
  also have "stores g channel k (map (wire_value k) (row_symbols k prev row)) 0 out = ?out"
  proof -
    have "prior_of g channel k out (0 + j) + map (wire_value k) (row_symbols k prev row) ! j = row ! j" if "j < ge_width g" for j
      using wire_value_symbol [of j row prev k] that len Cons.prems(6) by (auto simp: prior_of_def prev_written_def)
    then show ?thesis using stores_put_row [of g channel out k 0 "map (wire_value k) (row_symbols k prev row)" row] Cons.prems(1) k(2) len by simp
  qed
  finally have 1: "rle_segments g channel k 0 0 (r, out) = Some (Inr (), (?r, ?out))" .
  have "prev_written g channel (Suc k) row ?out"
    unfolding prev_written_def using len Cons.prems(1) k(2) by (auto intro!: put_row_nth sample_in_range image_row_less)
  then have "decode_rle_rows g channel [Suc k..<ge_height g] (?r, ?out) =
      Some (Inr (), (rd_advance (length (concat bs')) ?r, put_rows g channel (Suc k) rows ?out))"
    using Cons.prems ss by (intro Cons.IH [where prev = row]) (auto simp: ge_ok_def)
  with 1 show ?case by (simp add: k(1) ss(1) atry_def add.commute)
qed

section \<open>Planes\<close>

definition plane_enc :: "geometry \<Rightarrow> bool \<Rightarrow> bytes list \<Rightarrow> bytes \<Rightarrow> bool" where
  "plane_enc g rle rows bs \<longleftrightarrow>
     (if rle then \<exists>bss. rle_rows_enc 0 (replicate (ge_width g) 0) rows bss \<and> bs = concat bss else bs = concat rows)"

definition plane_ok :: "geometry \<Rightarrow> bytes list \<Rightarrow> bool" where
  "plane_ok g rows \<longleftrightarrow> length rows = ge_height g \<and> (\<forall>row \<in> set rows. length row = ge_width g)"

lemma concat_slice:
  "\<forall>row \<in> set rows. length row = n \<Longrightarrow> k < length rows \<Longrightarrow> take n (drop (k * n) (concat rows)) = rows ! k \<and> k * n + n \<le> length (concat rows)"
proof (induction rows arbitrary: k)
  case (Cons row rows)
  then show ?case by (cases k) auto
qed simp

lemma subspan_row: "plane_ok g rows \<Longrightarrow> k < ge_height g \<Longrightarrow> subspan (concat rows) (k * ge_width g) (ge_width g) = Some (rows ! k)"
  using concat_slice [of rows "ge_width g" k] by (auto simp: plane_ok_def subspan_def)

lemma write_rle_scanline_segs:
  "\<exists>ss. write_rle_scanline symbols w = Some (w @ psegs_enc ss) \<and> list_all pseg_ok ss \<and> psegs_symbols 0 ss = symbols"
  using rle_scan_segs [of 0 0 symbols w] by (auto simp: write_rle_scanline_def scanned_def)

lemma rle_rows_ok:
  assumes "plane_ok g rows" "k \<le> ge_height g" "k \<noteq> 0 \<Longrightarrow> prev = rows ! (k - 1)"
  shows "\<exists>bs. rle_rows g (concat rows) [k..<ge_height g] w = Some (w @ concat bs) \<and> rle_rows_enc k prev (drop k rows) bs"
  using assms
proof (induction "ge_height g - k" arbitrary: k prev w)
  case 0
  then show ?case by (simp add: plane_ok_def)
next
  case (Suc n)
  then have k: "k < ge_height g" "[k..<ge_height g] = k # [Suc k..<ge_height g]" "drop k rows = rows ! k # drop (Suc k) rows"
    by (simp_all add: upt_conv_Cons plane_ok_def Cons_nth_drop_Suc)
  let ?s = "row_symbols k prev (rows ! k)"
  have row: "subspan (concat rows) (k * ge_width g) (ge_width g) = Some (rows ! k)" using Suc.prems(1) k(1) by (rule subspan_row)
  have "subspan (concat rows) ((k - 1) * ge_width g) (ge_width g) = Some prev" if "k \<noteq> 0"
    using subspan_row [OF Suc.prems(1), of "k - 1"] k(1) Suc.prems(3) that by simp
  then have sym: "(if k = 0 then Some (rows ! k) else Option.bind (subspan (concat rows) ((k - 1) * ge_width g) (ge_width g))
      (\<lambda>prior. Some (map2 delta_to_wire (rows ! k) prior))) = Some ?s" by (simp add: row_symbols_def)
  obtain ss where ss: "write_rle_scanline ?s w = Some (w @ psegs_enc ss)" "list_all pseg_ok ss" "psegs_symbols 0 ss = ?s"
    using write_rle_scanline_segs by blast
  have "n = ge_height g - Suc k" using Suc.hyps(2) by simp
  with Suc.hyps(1) [of "Suc k" "rows ! k" "w @ psegs_enc ss"] Suc.prems(1) k(1)
  obtain bs where bs: "rle_rows g (concat rows) [Suc k..<ge_height g] (w @ psegs_enc ss) = Some ((w @ psegs_enc ss) @ concat bs)"
    "rle_rows_enc (Suc k) (rows ! k) (drop (Suc k) rows) bs"
    by auto
  have "rle_rows g (concat rows) [k..<ge_height g] w = Some (w @ concat (psegs_enc ss # bs))"
    unfolding k(2) rle_rows.simps row sym bind.bind_lunit ss(1) bs(1) by simp
  moreover have "rle_rows_enc k prev (drop k rows) (psegs_enc ss # bs)" using ss bs(2) unfolding k(3) by auto
  ultimately show ?case by blast
qed

lemma rle_planes_ok:
  "\<forall>rows \<in> set planes. plane_ok g rows \<Longrightarrow>
   \<exists>bs. rle_planes g (map concat planes) w = Some (w @ concat bs) \<and> list_all2 (plane_enc g True) planes bs"
proof (induction planes arbitrary: w)
  case Nil
  show ?case by (intro exI [of _ "[]"]) simp
next
  case (Cons rows planes)
  obtain b where b: "rle_rows g (concat rows) [0..<ge_height g] w = Some (w @ concat b)" "rle_rows_enc 0 (replicate (ge_width g) 0) rows b"
    using rle_rows_ok [of g rows 0 "replicate (ge_width g) 0" w] Cons.prems by auto
  obtain bs where bs: "rle_planes g (map concat planes) (w @ concat b) = Some ((w @ concat b) @ concat bs)" "list_all2 (plane_enc g True) planes bs"
    using Cons.IH [of "w @ concat b"] Cons.prems by auto
  have "plane_enc g True rows (concat b)" using b(2) by (auto simp: plane_enc_def)
  with b bs show ?case by (intro exI [of _ "concat b # bs"]) simp
qed

fun put_planes :: "geometry \<Rightarrow> nat list \<Rightarrow> bytes list list \<Rightarrow> bytes \<Rightarrow> bytes" where
  "put_planes g (c # cs) (rows # planes) out = put_planes g cs planes (put_rows g c 0 rows out)"
| "put_planes g _ _ out = out"

lemma length_put_planes [simp]: "length (put_planes g cs planes out) = length out"
  by (induction g cs planes out rule: put_planes.induct) auto

lemma decode_plane_ok:
  assumes "ge_ok g c out" "plane_ok g rows" "plane_enc g rle rows bs" "rd_rest r = bs @ ys"
  shows "(if rle then decode_rle_plane g c else decode_raw_plane g c) (r, out) =
    Some (Inr (), (rd_advance (length bs) r, put_rows g c 0 rows out))"
proof (cases rle)
  case True
  then obtain bss where bss: "rle_rows_enc 0 (replicate (ge_width g) 0) rows bss" "bs = concat bss" using assms(3) by (auto simp: plane_enc_def)
  have "prev_written g c 0 (replicate (ge_width g) 0) out" by (simp add: prev_written_def)
  with True assms bss decode_rle_rows_ok [of g c out 0 rows "replicate (ge_width g) 0" bss r ys] show ?thesis
    by (simp add: decode_rle_plane_def plane_ok_def)
next
  case False
  with assms decode_raw_rows_ok [of g c out 0 rows r ys] show ?thesis
    by (simp add: decode_raw_plane_def plane_ok_def plane_enc_def)
qed

lemma decode_planes_ok:
  assumes "list_all2 (plane_enc g rle) planes bss" "length cs = length planes" "\<forall>c \<in> set cs. c < 4"
    and "length out = ge_pixels g * px_size" "\<forall>rows \<in> set planes. plane_ok g rows" "rd_rest r = concat bss @ ys"
  shows "decode_planes g rle cs (r, out) = Some (Inr (), (rd_advance (length (concat bss)) r, put_planes g cs planes out))"
  using assms
proof (induction planes bss arbitrary: cs r out rule: list_all2_induct)
  case Nil
  then show ?case by (simp add: aret_def)
next
  case (Cons rows planes bs bss)
  obtain c cs' where c: "cs = c # cs'" using Cons.prems(1) by (cases cs) auto
  have "(if rle then decode_rle_plane g c else decode_raw_plane g c) (r, out) =
      Some (Inr (), (rd_advance (length bs) r, put_rows g c 0 rows out))"
    using Cons.prems Cons.hyps(1) by (intro decode_plane_ok) (auto simp: c ge_ok_def)
  moreover have "decode_planes g rle cs' (rd_advance (length bs) r, put_rows g c 0 rows out) =
      Some (Inr (), (rd_advance (length (concat bss)) (rd_advance (length bs) r), put_planes g cs' planes (put_rows g c 0 rows out)))"
    using Cons.prems by (intro Cons.IH) (auto simp: c)
  ultimately show ?case by (simp add: c atry_def add.commute)
qed

section \<open>Pictures\<close>

text \<open>The colours of a view with an opaque alpha channel, top row first, without gaps between the rows.\<close>

definition opaque_pixels :: "image_view \<Rightarrow> bytes" where
  "opaque_pixels view = (let w = unat (iv_width view); h = unat (iv_height view) in
     map (\<lambda>i. if i mod 4 = 3 then 0xFF else iv_data view ! (i div 4 div w * iv_stride view + i div 4 mod w * 4 + i mod 4)) [0..<w * h * 4])"

text \<open>What \<open>encode\<close> asserts of the view.\<close>

definition view_ok :: "image_view \<Rightarrow> bool" where
  "view_ok view \<longleftrightarrow> (let w = unat (iv_width view); h = unat (iv_height view) in
     1 \<le> w \<and> w \<le> pl_max_dimension \<and> 1 \<le> h \<and> h \<le> pl_max_dimension \<and> w * 4 \<le> iv_stride view \<and>
     (h - 1) * iv_stride view + w * 4 \<le> length (iv_data view))"

definition view_geometry :: "image_view \<Rightarrow> orientation \<Rightarrow> geometry" where
  "view_geometry view orient = \<lparr>ge_width = unat (iv_width view), ge_height = unat (iv_height view), ge_orientation = orient\<rparr>"

definition view_row :: "image_view \<Rightarrow> orientation \<Rightarrow> nat \<Rightarrow> bytes" where
  "view_row view orient k = take (unat (iv_width view) * 4) (drop (image_row (view_geometry view orient) k * iv_stride view) (iv_data view))"

definition view_plane :: "image_view \<Rightarrow> orientation \<Rightarrow> nat \<Rightarrow> bytes list" where
  "view_plane view orient channel = map (\<lambda>k. row_channel (unat (iv_width view)) channel (view_row view orient k)) [0..<unat (iv_height view)]"

lemma view_row_fits:
  assumes "view_ok view" "row < unat (iv_height view)"
  shows "row * iv_stride view + unat (iv_width view) * 4 \<le> length (iv_data view)"
proof -
  have "row * iv_stride view \<le> (unat (iv_height view) - 1) * iv_stride view" using assms(2) by (intro mult_le_mono1) simp
  moreover have "(unat (iv_height view) - 1) * iv_stride view + unat (iv_width view) * 4 \<le> length (iv_data view)"
    using assms(1) by (simp add: view_ok_def Let_def)
  ultimately show ?thesis by linarith
qed

lemma image_rows_ok:
  assumes "view_ok view" "\<forall>k \<in> set ks. k < unat (iv_height view)"
  shows "image_rows view (view_geometry view orient) ks = Some (map (view_row view orient) ks)"
  using assms(2)
proof (induction ks)
  case (Cons k ks)
  have "image_row (view_geometry view orient) k < unat (iv_height view)"
    using Cons.prems image_row_less [of k "view_geometry view orient"] by (simp add: view_geometry_def)
  from view_row_fits [OF assms(1) this] Cons show ?case
    by (simp add: subspan_def view_row_def px_size_def) (simp add: view_geometry_def)
qed simp

lemma split_planes_ok:
  assumes "view_ok view"
  shows "split_planes view (view_geometry view orient) = Some (map (\<lambda>c. concat (view_plane view orient c)) [2, 1, 0])"
  using image_rows_ok [OF assms, of "[0..<unat (iv_height view)]" orient]
  by (simp add: split_planes_def view_plane_def pl_constants comp_def) (simp add: view_geometry_def comp_def)

lemma view_plane_ok: "plane_ok (view_geometry view orient) (view_plane view orient c)"
  by (auto simp: plane_ok_def view_plane_def view_geometry_def row_channel_def)

lemma view_plane_nth:
  assumes "view_ok view" "k < unat (iv_height view)" "x < unat (iv_width view)" "c < 4"
  shows "view_plane view orient c ! k ! x = iv_data view ! (image_row (view_geometry view orient) k * iv_stride view + x * 4 + c)"
proof -
  have "x * 4 + c < unat (iv_width view) * 4" using assms(3,4) by linarith
  moreover have "image_row (view_geometry view orient) k < unat (iv_height view)"
    using assms(2) image_row_less [of k "view_geometry view orient"] by (simp add: view_geometry_def)
  ultimately show ?thesis
    using view_row_fits [OF assms(1), of "image_row (view_geometry view orient) k"] assms(2,3)
    by (simp add: view_plane_def row_channel_def view_row_def px_size_def add.assoc)
qed

lemma sample_index_mod [simp]: "c < 4 \<Longrightarrow> sample_index p c mod 4 = c" "c < 4 \<Longrightarrow> sample_index p c div 4 = p"
  by (simp_all add: sample_index_def px_size_def)

lemma put_row_channel: "i mod 4 \<noteq> c \<Longrightarrow> c < 4 \<Longrightarrow> put_row p c vs out ! i = out ! i"
  by (rule put_row_other) auto

lemma put_rows_channel: "i mod 4 \<noteq> c \<Longrightarrow> c < 4 \<Longrightarrow> put_rows g c k rows out ! i = out ! i"
  by (induction rows arbitrary: k out) (auto simp: put_row_channel)

lemma put_rows_later:
  assumes "l < k" "k + length rows \<le> ge_height g" "\<forall>row \<in> set rows. length row = ge_width g" "x < ge_width g"
  shows "put_rows g c k rows out ! sample_index (image_row g l * ge_width g + x) c = out ! sample_index (image_row g l * ge_width g + x) c"
  using assms
proof (induction rows arbitrary: k out)
  case (Cons row rows)
  have "put_row (image_row g k * ge_width g) c row out ! sample_index (image_row g l * ge_width g + x) c =
      out ! sample_index (image_row g l * ge_width g + x) c"
  proof (rule put_row_other)
    fix j assume "j < length row"
    then show "sample_index (image_row g l * ge_width g + x) c \<noteq> sample_index (image_row g k * ge_width g + j) c"
      using Cons.prems image_row_inj [of l g k] pixel_eq_iff [of x "ge_width g" j "image_row g l" "image_row g k"] by auto
  qed
  with Cons.IH [of "Suc k"] Cons.prems show ?case by simp
qed simp

lemma put_rows_nth:
  assumes "k \<le> l" "l < k + length rows" "k + length rows = ge_height g" "\<forall>row \<in> set rows. length row = ge_width g" "x < ge_width g"
    and "ge_ok g c out"
  shows "put_rows g c k rows out ! sample_index (image_row g l * ge_width g + x) c = rows ! (l - k) ! x"
  using assms
proof (induction rows arbitrary: k out)
  case (Cons row rows)
  let ?out = "put_row (image_row g k * ge_width g) c row out"
  have ok: "ge_ok g c ?out" using Cons.prems(6) by (simp add: ge_ok_def)
  show ?case
  proof (cases "l = k")
    case True
    have "put_rows g c (Suc k) rows ?out ! sample_index (image_row g k * ge_width g + x) c = ?out ! sample_index (image_row g k * ge_width g + x) c"
      using Cons.prems by (intro put_rows_later) auto
    also have "\<dots> = row ! x"
      using Cons.prems True by (intro put_row_nth sample_in_range image_row_less) auto
    finally show ?thesis using True by simp
  next
    case False
    then have "put_rows g c (Suc k) rows ?out ! sample_index (image_row g l * ge_width g + x) c = rows ! (l - Suc k) ! x"
      using Cons.prems ok by (intro Cons.IH) auto
    moreover have "l - k = Suc (l - Suc k)" using False Cons.prems(1) by simp
    ultimately show ?thesis by simp
  qed
qed simp

section \<open>Streams\<close>

definition planar_stream :: "image_view \<Rightarrow> orientation \<Rightarrow> bool \<Rightarrow> bytes \<Rightarrow> bool" where
  "planar_stream view orient rle stream \<longleftrightarrow> (\<exists>bss.
     list_all2 (plane_enc (view_geometry view orient) rle) (map (view_plane view orient) [2, 1, 0]) bss \<and>
     stream = (if rle then 0x30 else 0x20) # concat bss @ (if rle then [] else [0]))"

lemma copy_planes_ok:
  "length zs = length (concat ps) \<Longrightarrow> at = length pre \<Longrightarrow> copy_planes ps at (pre @ zs @ post) = Some (pre @ concat ps @ post)"
proof (induction ps arbitrary: at pre zs)
  case (Cons p ps)
  have "copy_into (pre @ zs @ post) at p = Some ((pre @ p) @ drop (length p) zs @ post)"
    using Cons.prems by (simp add: copy_into_def)
  moreover have "copy_planes ps (at + length p) ((pre @ p) @ drop (length p) zs @ post) = Some ((pre @ p) @ concat ps @ post)"
    using Cons.prems by (intro Cons.IH) auto
  ultimately show ?case by simp
qed simp

lemma length_plane: "plane_ok g rows \<Longrightarrow> length (concat rows) = ge_pixels g"
proof -
  have "\<forall>row \<in> set rows. length row = n \<Longrightarrow> length (concat rows) = n * length rows" for n by (induction rows) auto
  then show "plane_ok g rows \<Longrightarrow> length (concat rows) = ge_pixels g" by (simp add: plane_ok_def ge_pixels_def)
qed

lemma encode_raw_ok:
  "planar_stream view orient False (the (encode_raw (map (\<lambda>c. concat (view_plane view orient c)) [2, 1, 0]) (view_geometry view orient))) \<and>
   encode_raw (map (\<lambda>c. concat (view_plane view orient c)) [2, 1, 0]) (view_geometry view orient) \<noteq> None"
proof -
  let ?g = "view_geometry view orient" and ?ps = "map (\<lambda>c. concat (view_plane view orient c)) [2, 1, 0]"
  have len: "length (concat ?ps) = 3 * ge_pixels ?g" using length_plane [OF view_plane_ok] by simp
  have "(replicate (raw_stream_size ?g) 0)[0 := header_na] = [0x20] @ replicate (length (concat ?ps)) 0 @ [0]"
    unfolding len by (simp add: raw_stream_size_def header_na_def replicate_append_same)
  then have "encode_raw ?ps ?g = Some ([0x20] @ concat ?ps @ [0])"
    using copy_planes_ok [of "replicate (length (concat ?ps)) 0" ?ps 1 "[0x20]" "[0]"] by (simp add: encode_raw_def)
  moreover have "list_all2 (plane_enc ?g False) (map (view_plane view orient) [2, 1, 0]) ?ps" by (simp add: plane_enc_def)
  ultimately show ?thesis unfolding planar_stream_def by (intro conjI exI [of _ ?ps]) simp_all
qed

lemma encode_rle_ok:
  "\<exists>stream. encode_rle (map (\<lambda>c. concat (view_plane view orient c)) [2, 1, 0]) (view_geometry view orient) = Some stream \<and>
     planar_stream view orient True stream"
  using rle_planes_ok [of "map (view_plane view orient) [2, 1, 0]" "view_geometry view orient" "[0x30]"]
  by (auto simp: view_plane_ok encode_rle_def w_simps header_na_def header_rle_def planar_stream_def comp_def)

lemma view_ok_asserts:
  assumes "view_ok view"
  shows "iv_width view \<ge> 1" "unat (iv_width view) \<le> pl_max_dimension" "iv_height view \<ge> 1" "unat (iv_height view) \<le> pl_max_dimension"
    "iv_stride view \<ge> unat (iv_width view) * 4" "length (iv_data view) \<ge> unat (iv_width view) * 4"
    "(length (iv_data view) - unat (iv_width view) * 4) div iv_stride view \<ge> unat (iv_height view) - 1"
proof -
  let ?w = "unat (iv_width view)" and ?h = "unat (iv_height view)"
  have v: "1 \<le> ?w" "1 \<le> ?h" "?w * 4 \<le> iv_stride view" "(?h - 1) * iv_stride view + ?w * 4 \<le> length (iv_data view)"
    using assms unfolding view_ok_def Let_def by blast+
  then show "iv_width view \<ge> 1" "iv_height view \<ge> 1" by (simp_all add: word_le_nat_alt)
  show "?w \<le> pl_max_dimension" "?h \<le> pl_max_dimension" using assms unfolding view_ok_def Let_def by blast+
  show "iv_stride view \<ge> ?w * 4" by (rule v)
  show "length (iv_data view) \<ge> ?w * 4" using v(4) by linarith
  have "(?h - 1) * iv_stride view div iv_stride view \<le> (length (iv_data view) - ?w * 4) div iv_stride view"
    using v(4) by (intro div_le_mono) linarith
  moreover have "(?h - 1) * iv_stride view div iv_stride view = ?h - 1" using v(1,3) by (intro nonzero_mult_div_cancel_right) linarith
  ultimately show "(length (iv_data view) - ?w * 4) div iv_stride view \<ge> ?h - 1" by linarith
qed

lemma raw_stream_length: "planar_stream view orient False stream \<Longrightarrow> length stream = raw_stream_size (view_geometry view orient)"
proof -
  assume "planar_stream view orient False stream"
  then obtain bss where "list_all2 (plane_enc (view_geometry view orient) False) (map (view_plane view orient) [2, 1, 0]) bss"
    "stream = 0x20 # concat bss @ [0]" by (auto simp: planar_stream_def)
  then show ?thesis
    using length_plane [OF view_plane_ok] by (auto simp: list_all2_Cons1 plane_enc_def raw_stream_size_def)
qed

lemma planar_encode_stream:
  assumes "view_ok view"
  shows "\<exists>stream rle. planar_encode view mode orient = Some stream \<and> planar_stream view orient rle stream \<and>
    (mode = Automatic \<longrightarrow> length stream \<le> raw_stream_size (view_geometry view orient))"
proof -
  let ?ps = "map (\<lambda>c. concat (view_plane view orient c)) [2, 1, 0]" and ?g = "view_geometry view orient"
  obtain raw where raw: "encode_raw ?ps ?g = Some raw" "planar_stream view orient False raw" using encode_raw_ok [of view orient] by auto
  obtain rle where rle: "encode_rle ?ps ?g = Some rle" "planar_stream view orient True rle" using encode_rle_ok [of view orient] by auto
  have "planar_encode view mode orient = Some (case mode of Raw_Mode \<Rightarrow> raw | Rle_Mode \<Rightarrow> rle
      | Automatic \<Rightarrow> if length rle > raw_stream_size ?g then raw else rle)"
    using split_planes_ok [OF assms, of orient] view_ok_asserts [OF assms] raw(1) rle(1)
    unfolding planar_encode_def view_geometry_def by (cases mode) (simp_all add: wassert_def Let_def px_size_def)
  with raw(2) rle(2) raw_stream_length [OF raw(2)] show ?thesis by (cases mode) auto
qed

lemma image_row_image_row: "k < ge_height g \<Longrightarrow> image_row g (image_row g k) = k"
  by (auto simp: image_row_def)

lemma decoded_pixels:
  assumes "view_ok view" "length out = ge_pixels (view_geometry view orient) * px_size"
  shows "put_row 0 3 (replicate (ge_pixels (view_geometry view orient)) 0xFF)
     (put_planes (view_geometry view orient) [2, 1, 0] (map (view_plane view orient) [2, 1, 0]) out) = opaque_pixels view"
proof (rule nth_equalityI)
  let ?g = "view_geometry view orient" and ?w = "unat (iv_width view)" and ?h = "unat (iv_height view)"
  let ?alpha = "put_row 0 3 (replicate (ge_pixels ?g) 0xFF) (put_planes ?g [2, 1, 0] (map (view_plane view orient) [2, 1, 0]) out)"
  have g: "ge_width ?g = ?w" "ge_height ?g = ?h" "ge_pixels ?g = ?w * ?h" by (simp_all add: view_geometry_def ge_pixels_def)
  have pos: "0 < ?w" using assms(1) by (simp add: view_ok_def Let_def)
  show "length ?alpha = length (opaque_pixels view)" using assms(2) by (simp add: opaque_pixels_def Let_def g px_size_def)
  fix i assume "i < length ?alpha"
  then have i: "i < ?w * ?h * 4" using assms(2) by (simp add: g px_size_def)
  define c p where "c = i mod 4" and "p = i div 4"
  have si: "i = sample_index p c" by (simp add: c_def p_def sample_index_def px_size_def)
  have p: "p < ?w * ?h" and c4: "c < 4" using i by (simp_all add: p_def c_def less_mult_imp_div_less)
  define y x where "y = p div ?w" and "x = p mod ?w"
  have yx: "y < ?h" "x < ?w" "p = y * ?w + x" using p pos by (simp_all add: y_def x_def less_mult_imp_div_less mult.commute)
  have expected: "opaque_pixels view ! i = (if c = 3 then 0xFF else iv_data view ! (y * iv_stride view + x * 4 + c))"
    using i by (simp add: opaque_pixels_def Let_def c_def p_def y_def x_def)
  show "?alpha ! i = opaque_pixels view ! i"
  proof (cases "c = 3")
    case True
    have "?alpha ! sample_index (0 + p) 3 = replicate (ge_pixels ?g) 0xFF ! p"
      using p i True assms(2) by (intro put_row_nth) (simp_all add: g px_size_def si)
    with True p show ?thesis using expected by (simp add: si g)
  next
    case False
    let ?k = "image_row ?g y"
    have k: "?k < ?h" "image_row ?g ?k = y" using yx(1) image_row_less [of y ?g] image_row_image_row [of y ?g] by (simp_all add: g)
    have written: "put_rows ?g c 0 (view_plane view orient c) out' ! i = iv_data view ! (y * iv_stride view + x * 4 + c)"
      if "length out' = length out" for out'
      using put_rows_nth [of 0 ?k "view_plane view orient c" ?g x c out'] view_plane_ok [of view orient c]
        view_plane_nth [OF assms(1) k(1) yx(2) c4, of orient] that assms(2) k yx c4
      by (simp add: plane_ok_def g ge_ok_def si)
    have "?alpha ! i = put_planes ?g [2, 1, 0] (map (view_plane view orient) [2, 1, 0]) out ! i"
      using False by (intro put_row_channel) (simp_all add: c_def)
    also have "\<dots> = iv_data view ! (y * iv_stride view + x * 4 + c)"
    proof -
      consider "c = 0" | "c = 1" | "c = 2" using c4 False by linarith
      then show ?thesis
      proof cases
        case 1
        then show ?thesis using written [of "put_rows ?g 1 0 (view_plane view orient 1) (put_rows ?g 2 0 (view_plane view orient 2) out)"] by simp
      next
        case 2
        then show ?thesis using written [of "put_rows ?g 2 0 (view_plane view orient 2) out"] by (simp add: put_rows_channel c_def)
      next
        case 3
        then show ?thesis using written [of out] by (simp add: put_rows_channel c_def)
      qed
    qed
    finally show ?thesis using False by (simp add: expected)
  qed
qed

lemma planar_decode_stream:
  assumes "view_ok view" "planar_stream view orient rle stream" "length out = unat (iv_width view) * unat (iv_height view) * 4"
  shows "planar_decode stream (iv_width view) (iv_height view) orient out = Some (Inr (), opaque_pixels view)"
proof -
  let ?g = "view_geometry view orient" and ?planes = "map (view_plane view orient) [2, 1, 0]"
  obtain bss where bss: "list_all2 (plane_enc ?g rle) ?planes bss"
    "stream = (if rle then 0x30 else 0x20) # concat bss @ (if rle then [] else [0])" using assms(2) by (auto simp: planar_stream_def)
  let ?h = "if rle then 0x30 else 0x20 :: byte" and ?r = "rd_advance 1 (mk_reader stream 0)"
  let ?out = "put_planes ?g [2, 1, 0] ?planes out"
  have len: "length out = ge_pixels ?g * px_size" using assms(3) by (simp add: ge_pixels_def view_geometry_def px_size_def)
  have u8: "pl_read rd_u8 (mk_reader stream 0, out) = Some (Inr ?h, ?r, out)" using bss(2) by (simp add: pl_read_def rd_simps)
  let ?r2 = "rd_advance (length (concat bss)) ?r"
  have "decode_planes ?g rle [2, 1, 0] (?r, out) = Some (Inr (), ?r2, ?out)"
    using bss len view_plane_ok by (intro decode_planes_ok [where ys = "if rle then [] else [0]"]) auto
  then have planes: "decode_planes ?g rle [offset_r, offset_g, offset_b] (?r, out) = Some (Inr (), ?r2, ?out)" by (simp add: pl_constants)
  have alpha: "fill_alpha ?g (?r2, ?out) = Some (Inr (), ?r2, opaque_pixels view)"
    using put_values_row [of "replicate (ge_pixels ?g) 0xFF" 0 3 ?out ?r2] decoded_pixels [OF assms(1) len] len
    by (simp add: fill_alpha_def offset_a_def sample_index_def px_size_def)
  have rest: "rd_rest ?r2 = (if rle then [] else [0])" "rd_wf ?r2" using bss(2) by simp_all
  let ?r3 = "if rle then ?r2 else rd_advance 1 ?r2"
  have "skip_pad rle (?r2, opaque_pixels view) = Some (Inr (), ?r3, opaque_pixels view)"
    using rest by (simp add: skip_pad_def aret_def pl_read_def rd_simps rd_remaining_rest)
  moreover have "rd_rest ?r3 = []" "rd_wf ?r3" using bss(2) by (cases rle; simp)+
  then have "pl_read (rd_expect_end what) (?r3, opaque_pixels view) = Some (Inr (), ?r3, opaque_pixels view)" for what
    by (simp add: pl_read_def rd_expect_end_ok)
  ultimately have tail: "atry (decode_planes ?g rle [offset_r, offset_g, offset_b]) (\<lambda>_. atry (fill_alpha ?g) (\<lambda>_. atry (skip_pad rle)
      (\<lambda>_. pl_read (rd_expect_end what)))) (?r, out) = Some (Inr (), ?r3, opaque_pixels view)" for what
    using planes alpha by (simp add: atry_def)
  have g: "\<lparr>ge_width = unat (iv_width view), ge_height = unat (iv_height view), ge_orientation = orient\<rparr> = ?g"
    by (simp add: view_geometry_def)
  have size: "\<not> (iv_width view = 0 \<or> iv_height view = 0)"
    "\<not> (unat (iv_width view) > pl_max_dimension \<or> unat (iv_height view) > pl_max_dimension)"
    using view_ok_asserts [OF assms(1)] by auto
  have head: "?h AND header_cll_mask = 0" "?h AND header_cs = 0" "(?h AND header_rle \<noteq> 0) = rle" "?h AND header_na \<noteq> 0"
    by (cases rle; simp add: pl_constants)+
  show ?thesis
    unfolding planar_decode_def Let_def g using size len
    by (simp only: atry_simps(1) [of "pl_read rd_u8", OF u8] head tail wassert_def if_False if_True simp_thms append_Nil)
      (simp add: tail)
qed

section \<open>Every input\<close>

text \<open>An action that returns, keeps the size of the buffer, and yields only values with a property.\<close>

definition pl_yields :: "nat \<Rightarrow> 'a plane_action \<Rightarrow> ('a \<Rightarrow> bool) \<Rightarrow> bool" where
  "pl_yields n p Q \<longleftrightarrow> (\<forall>r out. length out = n \<longrightarrow>
     (\<exists>x r' out'. p (r, out) = Some (x, r', out') \<and> length out' = n \<and> (\<forall>y. x = Inr y \<longrightarrow> Q y)))"

lemma pl_yieldsD:
  "pl_yields n p Q \<Longrightarrow> length out = n \<Longrightarrow> \<exists>x r' out'. p (r, out) = Some (x, r', out') \<and> length out' = n \<and> (\<forall>y. x = Inr y \<longrightarrow> Q y)"
  by (simp add: pl_yields_def)

lemma pl_yields_try:
  assumes "pl_yields n p Q" "\<And>y. Q y \<Longrightarrow> pl_yields n (f y) R"
  shows "pl_yields n (atry p f) R"
  unfolding pl_yields_def
proof (intro allI impI)
  fix r and out :: bytes assume "length out = n"
  from pl_yieldsD [OF assms(1) this, of r] obtain x r1 out1 where
    p: "p (r, out) = Some (x, r1, out1)" "length out1 = n" "\<forall>y. x = Inr y \<longrightarrow> Q y" by blast
  show "\<exists>x r' out'. atry p f (r, out) = Some (x, r', out') \<and> length out' = n \<and> (\<forall>y. x = Inr y \<longrightarrow> R y)"
  proof (cases x)
    case (Inr y)
    then have "pl_yields n (f y) R" using p(3) assms(2) by blast
    from pl_yieldsD [OF this p(2), of r1] p(1) Inr show ?thesis by (simp add: atry_def)
  qed (use p in \<open>simp add: atry_def\<close>)
qed

lemma pl_yields_ret: "Q x \<Longrightarrow> pl_yields n (aret x) Q"
  by (simp add: pl_yields_def aret_def)

lemma pl_yields_fail: "pl_yields n (afail c what off) Q"
  by (simp add: pl_yields_def afail_def)

lemma pl_yields_read: "pl_yields n (pl_read p) (\<lambda>_. True)"
  by (auto simp: pl_yields_def pl_read_def split: prod.split)

lemma pl_yields_bytes: "pl_yields n (pl_read (rd_bytes k)) (\<lambda>bs. length bs = k)"
  by (auto simp: pl_yields_def pl_read_def rd_bytes_def rd_remaining_def split: prod.split)

lemma pl_yields_put: "i < n \<Longrightarrow> pl_yields n (pl_put i v) (\<lambda>_. True)"
  by (simp add: pl_yields_def pl_put_def put_index_def)

lemma pl_yields_values:
  "(\<And>j. j < length vs \<Longrightarrow> sample_index (pixel + j) c < n) \<Longrightarrow> pl_yields n (put_values pixel c vs) (\<lambda>_. True)"
proof (induction vs arbitrary: pixel)
  case (Cons v vs)
  have "pl_yields n (put_values (pixel + 1) c vs) (\<lambda>_. True)" using Cons.prems [of "Suc _"] by (intro Cons.IH) simp
  with Cons.prems [of 0] show ?case by (auto intro!: pl_yields_try pl_yields_put)
qed (simp add: pl_yields_ret)

lemma in_range:
  "c < 4 \<Longrightarrow> k < ge_height g \<Longrightarrow> x < ge_width g \<Longrightarrow> sample_index (image_row g k * ge_width g + x) c < ge_pixels g * px_size"
  using sample_in_range [of g c "replicate (ge_pixels g * px_size) 0" "image_row g k" x] image_row_less [of k g] by (simp add: ge_ok_def)

lemma pl_yields_store:
  assumes "c < 4" "k < ge_height g" "x < ge_width g"
  shows "pl_yields (ge_pixels g * px_size) (pl_store g c k d x) (\<lambda>_. True)"
proof -
  have "pl_store g c k d x (r, out) = Some (Inr (), (r, stores g c k [d] x out))" if "length out = ge_pixels g * px_size" for r out
    using that assms by (intro pl_store_ok) (auto simp: ge_ok_def)
  then show ?thesis by (simp add: pl_yields_def)
qed

lemma pl_yields_store_raw:
  "c < 4 \<Longrightarrow> k < ge_height g \<Longrightarrow> x + length raw \<le> ge_width g \<Longrightarrow>
   pl_yields (ge_pixels g * px_size) (store_raw g c k raw d x) (\<lambda>y. snd y = x + length raw)"
proof (induction raw arbitrary: d x)
  case (Cons w ws)
  have "pl_yields (ge_pixels g * px_size) (store_raw g c k ws d' (x + 1)) (\<lambda>y. snd y = x + length (w # ws))" for d'
    using Cons.IH [of "x + 1" d'] Cons.prems by simp
  with Cons.prems show ?case by (auto simp: Let_def intro!: pl_yields_try [OF pl_yields_store])
qed (simp add: pl_yields_ret)

lemma pl_yields_store_run:
  "c < 4 \<Longrightarrow> k < ge_height g \<Longrightarrow> x + m \<le> ge_width g \<Longrightarrow>
   pl_yields (ge_pixels g * px_size) (store_run g c k m d x) (\<lambda>y. y = x + m)"
proof (induction m arbitrary: x)
  case (Suc m)
  have "pl_yields (ge_pixels g * px_size) (store_run g c k m d (x + 1)) (\<lambda>y. y = x + Suc m)"
    using Suc.IH [of "x + 1"] Suc.prems by simp
  with Suc.prems show ?case by (auto intro!: pl_yields_try [OF pl_yields_store])
qed (simp add: pl_yields_ret)

lemma pl_yields_segment:
  assumes "c < 4" "k < ge_height g" "x \<le> ge_width g"
  shows "pl_yields (ge_pixels g * px_size) (rle_segment g c k d x) (\<lambda>y. snd y \<le> ge_width g)"
proof -
  have "pl_yields (ge_pixels g * px_size) (atry (pl_read (rd_bytes a)) (\<lambda>raw. atry (store_raw g c k raw d x) (\<lambda>(d, x).
      atry (store_run g c k b d x) (\<lambda>x. aret (d, x))))) (\<lambda>y. snd y \<le> ge_width g)" if "a + b \<le> ge_width g - x" for a b
    using that assms by (auto intro!: pl_yields_try [OF pl_yields_bytes] pl_yields_try [OF pl_yields_store_raw]
        pl_yields_try [OF pl_yields_store_run] pl_yields_ret)
  then have "pl_yields (ge_pixels g * px_size) (atry (pl_read rd_u8) (\<lambda>control. let segment = parse_control_byte control in
      if sg_raw_count segment + sg_run segment > ge_width g - x
      then afail InvalidLength ''planar RLE segment overruns the scanline'' at
      else atry (pl_read (rd_bytes (sg_raw_count segment))) (\<lambda>raw. atry (store_raw g c k raw d x) (\<lambda>(d, x).
        atry (store_run g c k (sg_run segment) d x) (\<lambda>x. aret (d, x)))))) (\<lambda>y. snd y \<le> ge_width g)" for at
    by (auto simp: Let_def intro!: pl_yields_try [OF pl_yields_read] pl_yields_fail)
  then show ?thesis unfolding rle_segment_def Let_def pl_yields_def by simp
qed

lemma rle_segments_total:
  "c < 4 \<Longrightarrow> k < ge_height g \<Longrightarrow> x \<le> ge_width g \<Longrightarrow> length (snd s) = ge_pixels g * px_size \<Longrightarrow>
   \<exists>y s'. rle_segments g c k d x s = Some (y, s') \<and> length (snd s') = ge_pixels g * px_size"
proof (induction g c k d x s rule: rle_segments.induct)
  case (1 g c k d x s)
  obtain r out where s: "s = (r, out)" by fastforce
  have "length out = ge_pixels g * px_size" using "1.prems"(4) by (simp add: s)
  from pl_yieldsD [OF pl_yields_segment [OF "1.prems"(1-3)] this, of d r]
  obtain y r1 out1 where y: "rle_segment g c k d x (r, out) = Some (y, r1, out1)" "length out1 = ge_pixels g * px_size"
    "\<forall>z. y = Inr z \<longrightarrow> snd z \<le> ge_width g" by blast
  show ?case
  proof (cases "x < ge_width g")
    case True
    show ?thesis
    proof (cases y)
      case (Inr z)
      with "1.IH" [OF True, of "(y, r1, out1)" y "(r1, out1)" z "fst z" "snd z"] y True "1.prems" show ?thesis
        by (subst rle_segments.simps) (cases z, simp add: s)
    qed (use y True in \<open>simp add: rle_segments.simps [of g c k d x "(r, out)"] s\<close>)
  qed (use "1.prems" in \<open>simp add: rle_segments.simps [of g c k d _ "(r, out)"] s\<close>)
qed

lemma pl_yields_plane:
  assumes "c < 4"
  shows "pl_yields (ge_pixels g * px_size) (if rle then decode_rle_plane g c else decode_raw_plane g c) (\<lambda>_. True)"
proof -
  have "pl_yields (ge_pixels g * px_size) (decode_raw_rows g c ks) (\<lambda>_. True)" if "\<forall>k \<in> set ks. k < ge_height g" for ks
    using that
  proof (induction ks)
    case (Cons k ks)
    then show ?case
      using assms by (auto intro!: pl_yields_try [OF pl_yields_bytes] pl_yields_try [OF pl_yields_values] in_range)
  qed (simp add: pl_yields_ret)
  moreover have "pl_yields (ge_pixels g * px_size) (decode_rle_rows g c ks) (\<lambda>_. True)" if "\<forall>k \<in> set ks. k < ge_height g" for ks
    using that
  proof (induction ks)
    case (Cons k ks)
    have "pl_yields (ge_pixels g * px_size) (rle_segments g c k 0 0) (\<lambda>_. True)"
      using rle_segments_total [OF assms, of k g 0] Cons.prems by (fastforce simp: pl_yields_def)
    with Cons show ?case by (auto intro!: pl_yields_try)
  qed (simp add: pl_yields_ret)
  ultimately show ?thesis by (simp add: decode_rle_plane_def decode_raw_plane_def)
qed

lemma pl_yields_planes: "\<forall>c \<in> set cs. c < 4 \<Longrightarrow> pl_yields (ge_pixels g * px_size) (decode_planes g rle cs) (\<lambda>_. True)"
proof (induction cs)
  case (Cons c cs)
  then show ?case unfolding decode_planes.simps by (intro pl_yields_try [OF pl_yields_plane]) auto
qed (simp add: pl_yields_ret)

lemma pl_yields_alpha: "pl_yields (ge_pixels g * px_size) (fill_alpha g) (\<lambda>_. True)"
  unfolding fill_alpha_def by (rule pl_yields_values) (simp add: sample_index_def px_size_def offset_a_def)

lemma pl_yields_pad: "pl_yields n (skip_pad rle) (\<lambda>_. True)"
  using pl_yields_read [of n "rd_skip 1"] by (auto simp: pl_yields_def skip_pad_def aret_def)

lemma planar_decode_total:
  assumes "length out = unat width * unat height * 4"
  shows "\<exists>x out'. planar_decode stream width height orient out = Some (x, out') \<and> length out' = length out"
proof -
  let ?g = "\<lparr>ge_width = unat width, ge_height = unat height, ge_orientation = orient\<rparr>" and ?cs = "[offset_r, offset_g, offset_b]"
  have len: "length out = ge_pixels ?g * px_size" using assms by (simp add: ge_pixels_def px_size_def)
  have "pl_yields (ge_pixels ?g * px_size) (atry (decode_planes ?g rle ((if alpha then [offset_a] else []) @ ?cs)) (\<lambda>_.
      atry (if alpha then aret () else fill_alpha ?g) (\<lambda>_. atry (skip_pad rle) (\<lambda>_. pl_read (rd_expect_end what))))) (\<lambda>_. True)"
    (is "pl_yields _ (atry ?planes _) _") for rle alpha what
  proof (rule pl_yields_try)
    show "pl_yields (ge_pixels ?g * px_size) ?planes (\<lambda>_. True)" by (rule pl_yields_planes) (simp add: pl_constants)
    show "pl_yields (ge_pixels ?g * px_size) (atry (if alpha then aret () else fill_alpha ?g)
        (\<lambda>_. atry (skip_pad rle) (\<lambda>_. pl_read (rd_expect_end what)))) (\<lambda>_. True)"
      by (intro pl_yields_try [where Q = "\<lambda>_. True"] pl_yields_pad pl_yields_read) (simp add: pl_yields_ret pl_yields_alpha)
  qed
  then have "pl_yields (ge_pixels ?g * px_size) (atry (pl_read rd_u8) (\<lambda>header.
      if header AND header_cll_mask \<noteq> 0 then afail Unsupported a 0
      else if header AND header_cs \<noteq> 0 then afail Unsupported b 0
      else let rle = header AND header_rle \<noteq> 0; has_alpha = header AND header_na = 0 in
        atry (decode_planes ?g rle ((if has_alpha then [offset_a] else []) @ ?cs)) (\<lambda>_.
        atry (if has_alpha then aret () else fill_alpha ?g) (\<lambda>_. atry (skip_pad rle) (\<lambda>_. pl_read (rd_expect_end what)))))) (\<lambda>_. True)"
    for a b what
    by (auto simp: Let_def intro!: pl_yields_try [OF pl_yields_read] pl_yields_fail simp del: append.simps)
  from pl_yieldsD [OF this [of "''planar color loss reduction (YCoCg) is not supported''" "''planar chroma subsampling is not supported''"
        "''planar bitmap stream has trailing data''"] len, of "mk_reader stream 0"]
  obtain x r' out' where F: "atry (pl_read rd_u8) (\<lambda>header.
      if header AND header_cll_mask \<noteq> 0 then afail Unsupported ''planar color loss reduction (YCoCg) is not supported'' 0
      else if header AND header_cs \<noteq> 0 then afail Unsupported ''planar chroma subsampling is not supported'' 0
      else let rle = header AND header_rle \<noteq> 0; has_alpha = header AND header_na = 0 in
        atry (decode_planes ?g rle ((if has_alpha then [offset_a] else []) @ ?cs)) (\<lambda>_.
        atry (if has_alpha then aret () else fill_alpha ?g) (\<lambda>_. atry (skip_pad rle)
        (\<lambda>_. pl_read (rd_expect_end ''planar bitmap stream has trailing data''))))) (mk_reader stream 0, out) = Some (x, r', out')"
    "length out' = length out" using len by (elim exE conjE) simp
  show ?thesis unfolding planar_decode_def Let_def [of ?g] F(1) using len F(2) by (simp add: wassert_def)
qed

section \<open>Properties\<close>

text \<open>
  C14: The planar codec loses no colour: for every view the encoder accepts, every mode and either row order, encoding
  succeeds, and decoding into a buffer of the right size, whatever it held, succeeds with exactly the colours of
  the view, top row first, and an opaque alpha channel. In the automatic mode the stream is never longer than
  the raw planes with their header and pad byte.
\<close>

theorem planar_roundtrip:
  assumes "view_ok view" "length out = unat (iv_width view) * unat (iv_height view) * 4"
  shows "\<exists>stream. planar_encode view mode orient = Some stream \<and>
    planar_decode stream (iv_width view) (iv_height view) orient out = Some (Inr (), opaque_pixels view) \<and>
    (mode = Automatic \<longrightarrow> length stream \<le> 2 + 3 * (unat (iv_width view) * unat (iv_height view)))"
  using planar_encode_stream [OF assms(1), of mode orient] planar_decode_stream [OF assms(1) _ assms(2)]
  by (fastforce simp: raw_stream_size_def ge_pixels_def view_geometry_def)

definition planar_demo :: image_view where
  "planar_demo = \<lparr>iv_data = [1, 2, 3, 0, 1, 2, 3, 0, 9, 4, 5, 6, 7, 1, 2, 3, 0], iv_width = 2, iv_height = 2, iv_stride = 9\<rparr>"

theorem planar_roundtrip_witness:
  "\<exists>stream. planar_encode planar_demo Rle_Mode Bottom_Up = Some stream \<and>
     planar_decode stream 2 2 Bottom_Up (replicate 16 0) =
       Some (Inr (), [1, 2, 3, 255, 1, 2, 3, 255, 4, 5, 6, 255, 1, 2, 3, 255])"
proof -
  have "view_ok planar_demo" "opaque_pixels planar_demo = [1, 2, 3, 255, 1, 2, 3, 255, 4, 5, 6, 255, 1, 2, 3, 255]"
    by (simp_all add: view_ok_def planar_demo_def pl_max_dimension_def opaque_pixels_def Let_def upt_rec)
  with planar_roundtrip [of planar_demo "replicate 16 0" Rle_Mode Bottom_Up] show ?thesis
    by (auto simp: planar_demo_def)
qed

text \<open>
  C15: No stream, however malformed, makes the planar decoder run on or write outside the buffer: it returns, with
  success or an error, and the buffer keeps its size.
\<close>

theorem planar_decode_robust:
  assumes "length out = unat width * unat height * 4"
  shows "\<exists>x out'. planar_decode stream width height orient out = Some (x, out') \<and> length out' = length out"
  using assms by (rule planar_decode_total)

theorem planar_decode_robust_witness:
  "\<exists>x out'. planar_decode [0x10, 0xFF] 2 1 Top_Down (replicate 8 7) = Some (x, out') \<and> length out' = length (replicate 8 (7 :: byte))"
  by (rule planar_decode_robust) simp

end
