(* ===== verification/Disp.thy ===== *)
theory Disp
  imports Parser_Results
begin

text \<open>
  \<open>channels/disp.cpp\<close>: the PDUs of the display control channel, over which a client asks for another monitor
  layout. Signed coordinates are the 32-bit words they are cast from and to.
\<close>

section \<open>Model\<close>

definition disp_monitor_layout :: u32 where "disp_monitor_layout = 0x00000002"
definition disp_caps :: u32 where "disp_caps = 0x00000005"
definition disp_header_size :: nat where "disp_header_size = 8"
definition monitor_layout_size :: u32 where "monitor_layout_size = 40"
definition disp_monitor_primary :: u32 where "disp_monitor_primary = 0x00000001"
definition landscape :: u32 where "landscape = 0"
definition portrait :: u32 where "portrait = 90"
definition landscape_flipped :: u32 where "landscape_flipped = 180"
definition portrait_flipped :: u32 where "portrait_flipped = 270"
definition disp_max_monitors :: u32 where "disp_max_monitors = 16"

lemmas disp_constants = disp_monitor_layout_def disp_caps_def disp_header_size_def monitor_layout_size_def disp_max_monitors_def

record monitor_layout =
  ml_flags :: u32
  ml_left :: u32
  ml_top :: u32
  ml_width :: u32
  ml_height :: u32
  ml_physical_width :: u32
  ml_physical_height :: u32
  ml_orientation :: u32
  ml_desktop_scale_factor :: u32
  ml_device_scale_factor :: u32

definition ml_primary :: "monitor_layout \<Rightarrow> bool" where
  "ml_primary m \<longleftrightarrow> ml_flags m AND disp_monitor_primary \<noteq> 0"

datatype disp_pdu = CapsPdu u32 u32 u32 | MonitorLayoutPdu "monitor_layout list"

definition write_disp_header :: "u32 \<Rightarrow> nat \<Rightarrow> writer \<Rightarrow> writer option" where
  "write_disp_header type n w = do {
     wassert (n \<le> 0xFFFFFFFF);
     Some (w_u32le (of_nat n) (w_u32le type w))
   }"

definition decode_disp_monitor :: "monitor_layout parser" where
  "decode_disp_monitor = ptry rd_u32le (\<lambda>flags. ptry rd_u32le (\<lambda>left. ptry rd_u32le (\<lambda>top. ptry rd_u32le (\<lambda>width.
     ptry rd_u32le (\<lambda>height. ptry rd_u32le (\<lambda>physical_width. ptry rd_u32le (\<lambda>physical_height.
     ptry rd_u32le (\<lambda>orientation. ptry rd_u32le (\<lambda>desktop_scale. ptry rd_u32le (\<lambda>device_scale.
       pret \<lparr>ml_flags = flags, ml_left = left, ml_top = top, ml_width = width, ml_height = height,
         ml_physical_width = physical_width, ml_physical_height = physical_height, ml_orientation = orientation,
         ml_desktop_scale_factor = desktop_scale, ml_device_scale_factor = device_scale\<rparr>))))))))))"

definition encode_disp_monitor :: "monitor_layout \<Rightarrow> writer \<Rightarrow> writer" where
  "encode_disp_monitor m w =
     (let w = w_u32le (ml_flags m) w;
          w = w_u32le (ml_left m) w;
          w = w_u32le (ml_top m) w;
          w = w_u32le (ml_width m) w;
          w = w_u32le (ml_height m) w;
          w = w_u32le (ml_physical_width m) w;
          w = w_u32le (ml_physical_height m) w;
          w = w_u32le (ml_orientation m) w;
          w = w_u32le (ml_desktop_scale_factor m) w
      in w_u32le (ml_device_scale_factor m) w)"

definition decode_disp_layout :: "u32 \<Rightarrow> monitor_layout list parser" where
  "decode_disp_layout monitor_limit = ptry rd_u32le (\<lambda>size. pget rd_offset (\<lambda>at.
     if size \<noteq> monitor_layout_size then pfail InvalidValue ''MonitorLayoutSize is not 40'' (at - 4)
     else ptry rd_u32le (\<lambda>count. pget rd_offset (\<lambda>at.
       if count = 0 then pfail InvalidValue ''a monitor layout without monitors'' (at - 4)
       else if count > min monitor_limit disp_max_monitors
       then pfail LimitExceeded ''more monitors than the server offered'' (at - 4)
       else pget rd_remaining (\<lambda>rest.
         if rest \<noteq> unat count * unat monitor_layout_size
         then pfail InvalidLength ''NumMonitors does not match the PDU length'' (at - 4)
         else pcount (unat count) decode_disp_monitor)))))"

definition encode_disp_pdu :: "disp_pdu \<Rightarrow> writer \<Rightarrow> writer option" where
  "encode_disp_pdu pdu w = (case pdu of
     CapsPdu n a b \<Rightarrow> do {
       w \<leftarrow> write_disp_header disp_caps (disp_header_size + 12) w;
       Some (w_u32le b (w_u32le a (w_u32le n w)))
     }
   | MonitorLayoutPdu monitors \<Rightarrow> do {
       wassert (monitors \<noteq> [] \<and> length monitors \<le> unat disp_max_monitors);
       w \<leftarrow> write_disp_header disp_monitor_layout
         (disp_header_size + 8 + length monitors * unat monitor_layout_size) w;
       Some (fold encode_disp_monitor monitors (w_u32le (of_nat (length monitors)) (w_u32le monitor_layout_size w)))
     })"

definition encode_disp :: "disp_pdu \<Rightarrow> bytes option" where
  "encode_disp pdu = encode_disp_pdu pdu []"

definition decode_disp_body :: "u32 \<Rightarrow> nat \<Rightarrow> disp_pdu parser" where
  "decode_disp_body monitor_limit message_size = ptry rd_u32le (\<lambda>type. ptry rd_u32le (\<lambda>n.
     if unat n \<noteq> message_size
     then pfail InvalidLength ''the DISPLAYCONTROL_HEADER Length is not the message size'' 4
     else if type = disp_caps
     then ptry rd_u32le (\<lambda>n. ptry rd_u32le (\<lambda>a. ptry rd_u32le (\<lambda>b.
       ptry (rd_expect_end ''DISPLAYCONTROL_CAPS_PDU'') (\<lambda>_. pret (CapsPdu n a b)))))
     else if type = disp_monitor_layout then ptry (decode_disp_layout monitor_limit) (\<lambda>ms. pret (MonitorLayoutPdu ms))
     else pfail Unsupported ''unknown DISPLAYCONTROL PDU type'' 0))"

definition decode_disp :: "bytes \<Rightarrow> u32 \<Rightarrow> disp_pdu result" where
  "decode_disp message monitor_limit = fst (decode_disp_body monitor_limit (length message) (mk_reader message 0))"

section \<open>Encodings\<close>

definition disp_monitor_enc :: "monitor_layout \<Rightarrow> bytes" where
  "disp_monitor_enc m = le_bytes 4 (ml_flags m) @ le_bytes 4 (ml_left m) @ le_bytes 4 (ml_top m) @ le_bytes 4 (ml_width m) @
     le_bytes 4 (ml_height m) @ le_bytes 4 (ml_physical_width m) @ le_bytes 4 (ml_physical_height m) @
     le_bytes 4 (ml_orientation m) @ le_bytes 4 (ml_desktop_scale_factor m) @ le_bytes 4 (ml_device_scale_factor m)"

fun disp_body_enc :: "disp_pdu \<Rightarrow> bytes" where
  "disp_body_enc (CapsPdu n a b) = le_bytes 4 n @ le_bytes 4 a @ le_bytes 4 b"
| "disp_body_enc (MonitorLayoutPdu ms) =
     le_bytes 4 monitor_layout_size @ le_bytes 4 (of_nat (length ms) :: u32) @ concat (map disp_monitor_enc ms)"

definition disp_enc :: "disp_pdu \<Rightarrow> bytes" where
  "disp_enc pdu = le_bytes 4 (case pdu of CapsPdu _ _ _ \<Rightarrow> disp_caps | MonitorLayoutPdu _ \<Rightarrow> disp_monitor_layout) @
     le_bytes 4 (of_nat (disp_header_size + length (disp_body_enc pdu)) :: u32) @ disp_body_enc pdu"

fun disp_ok :: "u32 \<Rightarrow> disp_pdu \<Rightarrow> bool" where
  "disp_ok limit (CapsPdu n a b) = True"
| "disp_ok limit (MonitorLayoutPdu ms) \<longleftrightarrow> ms \<noteq> [] \<and> length ms \<le> unat (min limit disp_max_monitors)"

lemma length_disp_monitor_enc [simp]: "length (disp_monitor_enc m) = 40"
  by (simp add: disp_monitor_enc_def)

lemma length_disp_monitors [simp]: "length (concat (map disp_monitor_enc ms)) = 40 * length ms"
  by (induction ms) simp_all

lemma encode_disp_monitor_enc: "encode_disp_monitor m w = w @ disp_monitor_enc m"
  by (simp add: encode_disp_monitor_def Let_def wr_simps disp_monitor_enc_def)

lemma encode_disp_monitors_enc: "fold encode_disp_monitor ms w = w @ concat (map disp_monitor_enc ms)"
  by (induction ms arbitrary: w) (simp_all add: encode_disp_monitor_enc)

lemma disp_limit: "n \<le> unat (min limit disp_max_monitors) \<Longrightarrow> n \<le> 16"
  by (auto simp: disp_max_monitors_def min_def word_le_nat_alt split: if_splits)

lemma encode_disp_pdu_enc:
  assumes "disp_ok limit pdu"
  shows "encode_disp_pdu pdu w = Some (w @ disp_enc pdu)"
proof (cases pdu)
  case (MonitorLayoutPdu ms)
  then have ms: "length ms \<le> 16" "ms \<noteq> []" using assms disp_limit by auto
  have "write_disp_header disp_monitor_layout (disp_header_size + 8 + length ms * unat monitor_layout_size) w =
      Some (w @ le_bytes 4 disp_monitor_layout @ le_bytes 4 (of_nat (disp_header_size + length (disp_body_enc pdu)) :: u32))"
    using ms(1) MonitorLayoutPdu by (simp add: write_disp_header_def wassert_def w_simps(3) disp_constants mult.commute)
  moreover have "wassert (ms \<noteq> [] \<and> length ms \<le> unat disp_max_monitors) = Some ()" using ms by (simp add: disp_max_monitors_def)
  ultimately show ?thesis
    using MonitorLayoutPdu by (simp add: encode_disp_pdu_def wr_simps encode_disp_monitors_enc disp_enc_def)
next
  case (CapsPdu n a b)
  then show ?thesis by (simp add: encode_disp_pdu_def write_disp_header_def wassert_def w_simps(3) disp_enc_def disp_constants)
qed

lemma decode_disp_monitor_enc:
  "rd_wf r \<Longrightarrow> rd_rest r = disp_monitor_enc m @ ys \<Longrightarrow> decode_disp_monitor r = (Inr m, rd_advance (length (disp_monitor_enc m)) r)"
  by (simp add: decode_disp_monitor_def disp_monitor_enc_def rd_simps)

lemma decode_disp_layout_enc:
  assumes "disp_ok limit (MonitorLayoutPdu ms)" "rd_wf r" "rd_rest r = disp_body_enc (MonitorLayoutPdu ms)"
  shows "fst (decode_disp_layout limit r) = Inr ms"
proof -
  have n: "length ms \<le> 16" "ms \<noteq> []" "length ms \<le> unat (min limit disp_max_monitors)" using assms(1) disp_limit by auto
  let ?n = "of_nat (length ms) :: u32"
  have u: "unat ?n = length ms" using n(1) by (simp add: unsigned_of_nat take_bit_nat_eq_self)
  have "?n \<noteq> 0" using u n(2) by (metis length_0_conv unat_0)
  moreover have "\<not> ?n > min limit disp_max_monitors" using n(3) u by (simp add: word_less_nat_alt)
  moreover have "rd_wf (rd_advance 8 r)" "rd_rest (rd_advance 8 r) = concat (map disp_monitor_enc ms)"
    using assms(2,3) by (simp_all del: rd_rest_advance) (simp_all add: assms(3))
  moreover have "pcount (length ms) decode_disp_monitor (rd_advance 8 r) = (Inr ms, rd_advance (40 * length ms) (rd_advance 8 r))"
    using pcount_concat [of "rd_advance 8 r" disp_monitor_enc ms "[]" "length ms" decode_disp_monitor] calculation(3,4)
    by (simp add: decode_disp_monitor_enc)
  ultimately show ?thesis
    using assms(3) u by (simp add: decode_disp_layout_def rd_simps rd_remaining_rest disp_constants)
qed

lemma decode_disp_enc:
  assumes "disp_ok limit pdu"
  shows "decode_disp (disp_enc pdu) limit = Inr pdu"
proof -
  let ?r = "mk_reader (disp_enc pdu) 0" and ?n = "disp_header_size + length (disp_body_enc pdu)"
  have "length (disp_body_enc pdu) \<le> 648" using assms disp_limit by (cases pdu) fastforce+
  then have n: "unat (of_nat ?n :: u32) = ?n" unfolding unsigned_of_nat disp_header_size_def by (subst take_bit_nat_eq_self) simp_all
  have len: "length (disp_enc pdu) = ?n" by (simp add: disp_enc_def disp_header_size_def)
  have r: "rd_wf (rd_advance 8 ?r)" "rd_rest (rd_advance 8 ?r) = disp_body_enc pdu"
    by (simp_all add: disp_enc_def)
  let ?t = "case pdu of CapsPdu _ _ _ \<Rightarrow> disp_caps | MonitorLayoutPdu _ \<Rightarrow> disp_monitor_layout"
  have h: "rd_u32le ?r = (Inr ?t, rd_advance 4 ?r)" "rd_u32le (rd_advance 4 ?r) = (Inr (of_nat ?n), rd_advance 8 ?r)"
    by (subst rd_u32le_app; simp add: disp_enc_def)+
  show ?thesis
  proof (cases pdu)
    case (MonitorLayoutPdu ms)
    obtain r' where "decode_disp_layout limit (rd_advance 8 ?r) = (Inr ms, r')"
      using decode_disp_layout_enc [of limit ms "rd_advance 8 ?r"] r assms MonitorLayoutPdu
      by (metis prod.collapse)
    moreover have "?t = disp_monitor_layout" "disp_monitor_layout \<noteq> disp_caps"
      using MonitorLayoutPdu by (simp_all add: disp_constants)
    ultimately show ?thesis
      using MonitorLayoutPdu n len h unfolding decode_disp_def decode_disp_body_def
      by (simp only: ptry_Inr [of rd_u32le, OF h(1)] ptry_Inr [of rd_u32le, OF h(2)]) (simp add: ptry_def pret_def)
  next
    case (CapsPdu k a b)
    then show ?thesis by (simp add: decode_disp_def decode_disp_body_def disp_enc_def disp_constants rd_simps)
  qed
qed

lemma decode_disp_limit:
  assumes "decode_disp message limit = Inr pdu"
  shows "disp_ok limit pdu"
proof -
  have "rd_yields (decode_disp_layout limit) (\<lambda>ms n. disp_ok limit (MonitorLayoutPdu ms))"
    unfolding decode_disp_layout_def
    by (rule yields_intros | rule yields_mono [OF yields_pcount [where P = "\<lambda>_. True" and len = "\<lambda>_. 40"]])+
      (auto simp: decode_disp_monitor_def unat_eq_0 word_less_nat_alt not_less intro!: yields_intros)
  then have "rd_yields (decode_disp_body limit (length message)) (\<lambda>p n. disp_ok limit p)"
    unfolding decode_disp_body_def by (auto intro!: yields_intros)
  moreover obtain r' where "decode_disp_body limit (length message) (mk_reader message 0) = (Inr pdu, r')"
    using assms by (metis decode_disp_def prod.collapse)
  ultimately show ?thesis by (meson rd_wf_mk_reader yieldsD)
qed

end
