(* ===== verification/Display_Layout.thy ===== *)
theory Display_Layout
  imports Disp Gcc Rdpgfx_Pdu Actions "HOL-Library.Product_Lexorder"
begin

text \<open>
  \<open>server/display_layout.cpp\<close>: the client's monitors, how a layout it asks for is checked, and where the pictures
  of the server's screens are shown on it. Coordinates in 64-bit signed integers are integers: they are
  differences and sums of two 32-bit values. \<open>std::clamp\<close> with its bounds the wrong way round is undefined and
  counts as an abort. \<open>std::ranges::stable_sort\<close> is \<open>sort_key\<close>, which is stable too.
\<close>

section \<open>Model: data\<close>

record pixel_rect =
  pr_x :: u32
  pr_y :: u32
  pr_width :: u32
  pr_height :: u32

record display_limits =
  li_max_monitors :: u32
  li_min_size :: u32
  li_max_size :: u32
  li_area_factor_a :: u32
  li_area_factor_b :: u32
  li_max_extent :: u32

definition default_limits :: display_limits where
  "default_limits = \<lparr>li_max_monitors = 8, li_min_size = 200, li_max_size = 8192, li_area_factor_a = 3840,
     li_area_factor_b = 2160, li_max_extent = 16384\<rparr>"

definition li_max_area :: "display_limits \<Rightarrow> u64" where
  "li_max_area l = ucast (li_max_monitors l) * ucast (li_area_factor_a l) * ucast (li_area_factor_b l)"

definition li_caps :: "display_limits \<Rightarrow> disp_pdu" where
  "li_caps l = CapsPdu (li_max_monitors l) (li_area_factor_a l) (li_area_factor_b l)"

record display_monitor =
  dm_rect :: pixel_rect
  dm_primary :: bool
  dm_physical_width :: u32
  dm_physical_height :: u32
  dm_orientation :: u32
  dm_desktop_scale_factor :: u32
  dm_device_scale_factor :: u32

definition plain_monitor :: "pixel_rect \<Rightarrow> bool \<Rightarrow> display_monitor" where
  "plain_monitor rect primary = \<lparr>dm_rect = rect, dm_primary = primary, dm_physical_width = 0, dm_physical_height = 0,
     dm_orientation = 0, dm_desktop_scale_factor = 0, dm_device_scale_factor = 0\<rparr>"

record screen_placement =
  sp_screen :: nat
  sp_width :: u32
  sp_height :: u32
  sp_target :: pixel_rect

record output_layout =
  ol_width :: u32
  ol_height :: u32
  ol_monitors :: "gfx_monitor list"
  ol_screens :: "screen_placement list"
  ol_fills :: "pixel_rect list"

record letterbox_rects =
  lb_picture :: pixel_rect
  lb_bars :: "pixel_rect list"

record display_layout =
  dl_monitors :: "display_monitor list"
  dl_width :: u32
  dl_height :: u32

record candidate =
  cn_left :: int
  cn_top :: int
  cn_monitor :: display_monitor

section \<open>Model: operations\<close>

definition physical_ok :: "u32 \<Rightarrow> bool" where
  "physical_ok mm \<longleftrightarrow> mm \<ge> 10 \<and> mm \<le> 10000"

definition set_attributes :: "u32 \<Rightarrow> u32 \<Rightarrow> u32 \<Rightarrow> u32 \<Rightarrow> u32 \<Rightarrow> display_monitor \<Rightarrow> display_monitor" where
  "set_attributes physical_width physical_height orient desktop_scale device_scale m =
     (let m = (if physical_ok physical_width \<and> physical_ok physical_height
            then m\<lparr>dm_physical_width := physical_width, dm_physical_height := physical_height\<rparr> else m);
          m = (if orient = landscape \<or> orient = portrait \<or> orient = landscape_flipped \<or> orient = portrait_flipped
            then m\<lparr>dm_orientation := orient\<rparr> else m);
          m = (if desktop_scale \<ge> 100 \<and> desktop_scale \<le> 500 then m\<lparr>dm_desktop_scale_factor := desktop_scale\<rparr> else m)
      in if device_scale = 100 \<or> device_scale = 140 \<or> device_scale = 180
         then m\<lparr>dm_device_scale_factor := device_scale\<rparr> else m)"

definition overlap :: "pixel_rect \<Rightarrow> pixel_rect \<Rightarrow> bool" where
  "overlap a b \<longleftrightarrow>
     (ucast (pr_x a) :: u64) < ucast (pr_x b) + ucast (pr_width b) \<and> (ucast (pr_x b) :: u64) < ucast (pr_x a) + ucast (pr_width a) \<and>
     (ucast (pr_y a) :: u64) < ucast (pr_y b) + ucast (pr_height b) \<and> (ucast (pr_y b) :: u64) < ucast (pr_y a) + ucast (pr_height a)"

definition size_ok :: "int \<Rightarrow> display_limits \<Rightarrow> bool" where
  "size_ok n limits \<longleftrightarrow> n \<ge> uint (li_min_size limits) \<and> n \<le> uint (li_max_size limits)"

definition clamp32 :: "u32 \<Rightarrow> u32 \<Rightarrow> u32 \<Rightarrow> u32 option" where
  "clamp32 v lo hi = (if hi < lo then None else Some (if v < lo then lo else if hi < v then hi else v))"

definition letterbox_size :: "pixel_rect \<Rightarrow> u32 \<Rightarrow> u32 \<Rightarrow> (u32 \<times> u32) option" where
  "letterbox_size monitor width height =
     (if width > pr_width monitor \<or> height > pr_height monitor
      then
        let (w, h) =
          (if (ucast (pr_width monitor) :: u64) * ucast height \<le> ucast (pr_height monitor) * ucast width
           then (pr_width monitor,
             ucast (((ucast height :: u64) * ucast (pr_width monitor) + ucast (width div 2)) div ucast width))
           else (ucast (((ucast width :: u64) * ucast (pr_height monitor) + ucast (height div 2)) div ucast height),
             pr_height monitor))
        in do {
          w \<leftarrow> clamp32 w 1 (pr_width monitor);
          h \<leftarrow> clamp32 h 1 (pr_height monitor);
          Some (w, h)
        }
      else Some (width, height))"

definition letterbox :: "pixel_rect \<Rightarrow> u32 \<Rightarrow> u32 \<Rightarrow> letterbox_rects option" where
  "letterbox monitor width height = do {
     wassert (width > 0 \<and> height > 0);
     (w, h) \<leftarrow> letterbox_size monitor width height;
     let p = \<lparr>pr_x = pr_x monitor + (pr_width monitor - w) div 2, pr_y = pr_y monitor + (pr_height monitor - h) div 2,
       pr_width = w, pr_height = h\<rparr>;
     let right = pr_x monitor + pr_width monitor;
     let bottom = pr_y monitor + pr_height monitor;
     Some \<lparr>lb_picture = p, lb_bars =
       (if pr_y p > pr_y monitor
        then [\<lparr>pr_x = pr_x monitor, pr_y = pr_y monitor, pr_width = pr_width monitor, pr_height = pr_y p - pr_y monitor\<rparr>]
        else []) @
       (if pr_y p + pr_height p < bottom
        then [\<lparr>pr_x = pr_x monitor, pr_y = pr_y p + pr_height p, pr_width = pr_width monitor,
          pr_height = bottom - (pr_y p + pr_height p)\<rparr>]
        else []) @
       (if pr_x p > pr_x monitor
        then [\<lparr>pr_x = pr_x monitor, pr_y = pr_y p, pr_width = pr_x p - pr_x monitor, pr_height = pr_height p\<rparr>]
        else []) @
       (if pr_x p + pr_width p < right
        then [\<lparr>pr_x = pr_x p + pr_width p, pr_y = pr_y p, pr_width = right - (pr_x p + pr_width p), pr_height = pr_height p\<rparr>]
        else [])\<rparr>
   }"

definition layout_single :: "u32 \<Rightarrow> u32 \<Rightarrow> display_layout option" where
  "layout_single width height = do {
     wassert (width > 0 \<and> height > 0);
     Some \<lparr>dl_monitors = [plain_monitor \<lparr>pr_x = 0, pr_y = 0, pr_width = width, pr_height = height\<rparr> True],
       dl_width = width, dl_height = height\<rparr>
   }"

fun row_loop :: "display_limits \<Rightarrow> (u32 \<times> u32) list \<Rightarrow> display_layout \<Rightarrow> display_layout option" where
  "row_loop limits [] layout = Some layout"
| "row_loop limits ((w, h) # sizes) layout = do {
     width \<leftarrow> clamp32 w 1 (li_max_extent limits);
     height \<leftarrow> clamp32 h 1 (li_max_extent limits);
     if dl_monitors layout \<noteq> [] \<and>
       (length (dl_monitors layout) \<ge> unat (li_max_monitors limits) \<or> dl_width layout + width > li_max_extent limits)
     then Some layout
     else row_loop limits sizes \<lparr>dl_monitors = dl_monitors layout @
         [plain_monitor \<lparr>pr_x = dl_width layout, pr_y = 0, pr_width = width, pr_height = height\<rparr> (dl_monitors layout = [])],
       dl_width = dl_width layout + width, dl_height = max (dl_height layout) height\<rparr>
   }"

definition layout_row :: "(u32 \<times> u32) list \<Rightarrow> display_limits \<Rightarrow> display_layout option" where
  "layout_row sizes limits = do {
     layout \<leftarrow> row_loop limits sizes \<lparr>dl_monitors = [], dl_width = 0, dl_height = 0\<rparr>;
     if dl_monitors layout = [] then layout_single 1 1 else Some layout
   }"

text \<open>\<open>build\<close>: the primary monitor, the bounding box and the monitors within it.\<close>

definition at_origin :: "candidate \<Rightarrow> bool" where
  "at_origin c \<longleftrightarrow> cn_left c = 0 \<and> cn_top c = 0"

definition primaries :: "candidate list \<Rightarrow> nat" where
  "primaries cs = length (filter (\<lambda>c. dm_primary (cn_monitor c)) cs)"

definition make_primary :: "candidate \<Rightarrow> candidate" where
  "make_primary c = c\<lparr>cn_monitor := (cn_monitor c)\<lparr>dm_primary := True\<rparr>\<rparr>"

fun mark_origin :: "candidate list \<Rightarrow> candidate list" where
  "mark_origin [] = []"
| "mark_origin (c # cs) = (if at_origin c then make_primary c # cs else c # mark_origin cs)"

definition mark_primary :: "candidate list \<Rightarrow> candidate list" where
  "mark_primary cs =
     (if primaries cs = 0
      then if \<exists>c \<in> set cs. at_origin c then mark_origin cs
           else (case cs of [] \<Rightarrow> [] | c # cs \<Rightarrow> make_primary c # cs)
      else cs)"

record extent =
  ex_min_x :: int
  ex_min_y :: int
  ex_max_x :: int
  ex_max_y :: int
  ex_area :: u64

definition no_extent :: extent where
  "no_extent = \<lparr>ex_min_x = 2 ^ 63 - 1, ex_min_y = 2 ^ 63 - 1, ex_max_x = - (2 ^ 63), ex_max_y = - (2 ^ 63), ex_area = 0\<rparr>"

definition extent_add :: "candidate \<Rightarrow> extent \<Rightarrow> extent" where
  "extent_add c e = (let r = dm_rect (cn_monitor c) in
     \<lparr>ex_min_x = min (ex_min_x e) (cn_left c), ex_min_y = min (ex_min_y e) (cn_top c),
      ex_max_x = max (ex_max_x e) (cn_left c + uint (pr_width r)), ex_max_y = max (ex_max_y e) (cn_top c + uint (pr_height r)),
      ex_area = ex_area e + ucast (pr_width r) * ucast (pr_height r)\<rparr>)"

definition placed_monitor :: "extent \<Rightarrow> candidate \<Rightarrow> display_monitor" where
  "placed_monitor e c = (cn_monitor c)\<lparr>dm_rect := (dm_rect (cn_monitor c))
     \<lparr>pr_x := word_of_int (cn_left c - ex_min_x e), pr_y := word_of_int (cn_top c - ex_min_y e)\<rparr>\<rparr>"

fun place_candidates :: "extent \<Rightarrow> candidate list \<Rightarrow> display_monitor list \<Rightarrow> display_monitor list result" where
  "place_candidates e [] placed = Inr placed"
| "place_candidates e (c # cs) placed =
     (let m = placed_monitor e c in
      if \<exists>other \<in> set placed. overlap (dm_rect other) (dm_rect m) then fail InvalidValue ''monitors overlap'' 0
      else place_candidates e cs (placed @ [m]))"

definition layout_build :: "candidate list \<Rightarrow> display_limits \<Rightarrow> display_layout result" where
  "layout_build candidates limits =
     (if candidates = [] then fail InvalidValue ''a layout without monitors'' 0
      else if length candidates > unat (min (li_max_monitors limits) disp_max_monitors)
      then fail LimitExceeded ''more monitors than the server takes'' 0
      else if primaries candidates > 1 then fail InvalidValue ''more than one primary monitor'' 0
      else
        let candidates = mark_primary candidates;
            e = fold extent_add candidates no_extent
        in if ex_max_x e - ex_min_x e > uint (li_max_extent limits) \<or> ex_max_y e - ex_min_y e > uint (li_max_extent limits)
           then fail LimitExceeded ''the monitors span too large a desktop'' 0
           else if ex_area e > li_max_area limits
           then fail LimitExceeded ''the monitors' total area is too large'' 0
           else (case place_candidates e candidates [] of
               Inl err \<Rightarrow> Inl err
             | Inr monitors \<Rightarrow> Inr \<lparr>dl_monitors = monitors, dl_width = word_of_int (ex_max_x e - ex_min_x e),
                 dl_height = word_of_int (ex_max_y e - ex_min_y e)\<rparr>))"

fun disp_candidates :: "display_limits \<Rightarrow> monitor_layout list \<Rightarrow> candidate list result" where
  "disp_candidates limits [] = Inr []"
| "disp_candidates limits (m # ms) =
     (if \<not> size_ok (uint (ml_width m)) limits \<or> \<not> size_ok (uint (ml_height m)) limits
      then fail InvalidValue ''a monitor size is out of range'' 0
      else if ml_width m mod 2 \<noteq> 0 then fail InvalidValue ''a monitor width is odd'' 0
      else (case disp_candidates limits ms of
          Inl e \<Rightarrow> Inl e
        | Inr cs \<Rightarrow> Inr (\<lparr>cn_left = sint (ml_left m), cn_top = sint (ml_top m), cn_monitor =
            set_attributes (ml_physical_width m) (ml_physical_height m) (ml_orientation m) (ml_desktop_scale_factor m)
              (ml_device_scale_factor m)
              (plain_monitor \<lparr>pr_x = 0, pr_y = 0, pr_width = ml_width m, pr_height = ml_height m\<rparr> (ml_primary m))\<rparr> # cs)))"

definition layout_from_disp :: "monitor_layout list \<Rightarrow> display_limits \<Rightarrow> display_layout result" where
  "layout_from_disp ms limits = (case disp_candidates limits ms of
     Inl e \<Rightarrow> Inl e
   | Inr candidates \<Rightarrow> layout_build candidates limits)"

definition gfx_monitor_primary :: u32 where "gfx_monitor_primary = 0x00000001"

fun client_candidates :: "display_limits \<Rightarrow> monitor_def list \<Rightarrow> monitor_attributes list option \<Rightarrow> candidate list option" where
  "client_candidates limits [] attributes = Some []"
| "client_candidates limits (d # ds) attributes =
     (let w = sint (mon_right d) - sint (mon_left d) + 1;
          h = sint (mon_bottom d) - sint (mon_top d) + 1
      in if \<not> size_ok w limits \<or> \<not> size_ok h limits then None
         else
           let m = plain_monitor \<lparr>pr_x = 0, pr_y = 0, pr_width = word_of_int w, pr_height = word_of_int h\<rparr>
                 (mon_flags d AND gfx_monitor_primary \<noteq> 0);
               m = (case attributes of
                   Some (a # _) \<Rightarrow> set_attributes (ma_physical_width a) (ma_physical_height a) (ma_orientation a)
                     (ma_desktop_scale_factor a) (ma_device_scale_factor a) m
                 | _ \<Rightarrow> m)
           in map_option (Cons \<lparr>cn_left = sint (mon_left d), cn_top = sint (mon_top d), cn_monitor = m\<rparr>)
                (client_candidates limits ds (map_option tl attributes)))"

definition client_layout :: "client_data \<Rightarrow> display_limits \<Rightarrow> display_layout option" where
  "client_layout data limits = (case cl_monitor data of
     None \<Rightarrow> None
   | Some block \<Rightarrow>
       if monitor_defs block = [] then None
       else
         let attributes = (case cl_monitor_ex data of
               None \<Rightarrow> None
             | Some ex \<Rightarrow> if length (monitor_ex_attributes ex) = length (monitor_defs block)
                 then Some (monitor_ex_attributes ex) else None)
         in case client_candidates limits (monitor_defs block) attributes of
              None \<Rightarrow> None
            | Some candidates \<Rightarrow> (case layout_build candidates limits of Inl _ \<Rightarrow> None | Inr layout \<Rightarrow> Some layout))"

definition value_or_0 :: "'a::zero option \<Rightarrow> 'a" where
  "value_or_0 v = (case v of None \<Rightarrow> 0 | Some x \<Rightarrow> x)"

definition layout_from_client_data :: "client_data \<Rightarrow> u32 \<Rightarrow> u32 \<Rightarrow> display_limits \<Rightarrow> display_layout option" where
  "layout_from_client_data data width height limits = (case client_layout data limits of
     Some layout \<Rightarrow> Some layout
   | None \<Rightarrow> do {
       w \<leftarrow> clamp32 width 1 (li_max_size limits);
       h \<leftarrow> clamp32 height 1 (li_max_size limits);
       layout \<leftarrow> layout_single w h;
       let core = cl_core data;
       Some (layout\<lparr>dl_monitors := (case dl_monitors layout of
           [] \<Rightarrow> []
         | m # ms \<Rightarrow> set_attributes (value_or_0 (desktop_physical_width core)) (value_or_0 (desktop_physical_height core))
             (ucast (value_or_0 (desktop_orientation core))) (value_or_0 (desktop_scale_factor core))
             (value_or_0 (device_scale_factor core)) m # ms)\<rparr>)
     })"

definition layout_area :: "display_layout \<Rightarrow> u64" where
  "layout_area layout =
     fold (\<lambda>m sum. sum + ucast (pr_width (dm_rect m)) * ucast (pr_height (dm_rect m))) (dl_monitors layout) 0"

definition gfx_monitors :: "display_layout \<Rightarrow> gfx_monitor list" where
  "gfx_monitors layout = map (\<lambda>m. let r = dm_rect m in
     \<lparr>mo_left = pr_x r, mo_top = pr_y r, mo_right = pr_x r + pr_width r - 1, mo_bottom = pr_y r + pr_height r - 1,
      mo_flags = (if dm_primary m then gfx_monitor_primary else 0)\<rparr>) (dl_monitors layout)"

definition screen_monitors :: "display_layout \<Rightarrow> nat \<Rightarrow> nat list" where
  "screen_monitors layout screens =
     (let ms = dl_monitors layout in
      if screens = 0 then []
      else if screens = 1
      then [case filter (\<lambda>i. dm_primary (ms ! i)) [0..<length ms] of [] \<Rightarrow> 0 | i # _ \<Rightarrow> i]
      else take (min (length ms) screens)
        (sort_key (\<lambda>i. (pr_x (dm_rect (ms ! i)), pr_y (dm_rect (ms ! i)))) [0..<length ms]))"

text \<open>The loop of \<open>place\<close>: the pairs are a screen and the monitor it is on.\<close>

fun place_loop :: "display_layout \<Rightarrow> (u32 \<times> u32) list \<Rightarrow> (nat \<times> nat) list \<Rightarrow> bool list \<Rightarrow> output_layout \<Rightarrow>
    (bool list \<times> output_layout) option" where
  "place_loop layout sizes [] covered out = Some (covered, out)"
| "place_loop layout sizes ((screen, index) # rest) covered out = do {
     (w, h) \<leftarrow> at_index sizes screen;
     if w = 0 \<or> h = 0 then place_loop layout sizes rest covered out
     else do {
       covered \<leftarrow> put_index covered index True;
       m \<leftarrow> at_index (dl_monitors layout) index;
       box \<leftarrow> letterbox (dm_rect m) w h;
       place_loop layout sizes rest covered
         (out\<lparr>ol_screens := ol_screens out @ [\<lparr>sp_screen = screen, sp_width = w, sp_height = h, sp_target = lb_picture box\<rparr>],
           ol_fills := ol_fills out @ lb_bars box\<rparr>)
     }
   }"

definition layout_place :: "display_layout \<Rightarrow> (u32 \<times> u32) list \<Rightarrow> output_layout option" where
  "layout_place layout sizes = do {
     let out = \<lparr>ol_width = dl_width layout, ol_height = dl_height layout, ol_monitors = gfx_monitors layout,
       ol_screens = [], ol_fills = []\<rparr>;
     let ms = dl_monitors layout;
     let order = screen_monitors layout (length sizes);
     (covered, out) \<leftarrow> place_loop layout sizes (zip [0..<length order] order) (replicate (length ms) False) out;
     Some (out\<lparr>ol_fills := ol_fills out @ map (\<lambda>i. dm_rect (ms ! i)) (filter (\<lambda>i. \<not> covered ! i) [0..<length ms])\<rparr>)
   }"

end
