(* ===== verification/Display_Geometry.thy ===== *)
theory Display_Geometry
  imports Display_Layout
begin

text \<open>
  Lemmas on \<open>server/display_layout.cpp\<close>: pictures tile their monitors, layouts that pass the checks are well
  formed, and every way to make a layout gives a well-formed one.
\<close>

section \<open>Pictures on monitors\<close>























section \<open>Well-formed layouts\<close>








lemma extent_add_fields [simp]:
  "ex_min_x (extent_add c e) = min (ex_min_x e) (cn_left c)" "ex_min_y (extent_add c e) = min (ex_min_y e) (cn_top c)"
  "ex_max_x (extent_add c e) = max (ex_max_x e) (cn_left c + uint (pr_width (dm_rect (cn_monitor c))))"
  "ex_max_y (extent_add c e) = max (ex_max_y e) (cn_top c + uint (pr_height (dm_rect (cn_monitor c))))"
  by (simp_all add: extent_add_def Let_def)




definition dm_attributes :: "display_monitor \<Rightarrow> u32 \<times> u32 \<times> u32 \<times> u32 \<times> u32" where
  "dm_attributes m = (dm_physical_width m, dm_physical_height m, dm_orientation m, dm_desktop_scale_factor m, dm_device_scale_factor m)"

lemma dm_attributes_update [simp]:
  "dm_attributes (m\<lparr>dm_rect := r\<rparr>) = dm_attributes m" "dm_attributes (m\<lparr>dm_primary := p\<rparr>) = dm_attributes m"
  by (simp_all add: dm_attributes_def)



















section \<open>Which layouts are accepted\<close>





lemma set_attributes_fields [simp]:
  "dm_rect (set_attributes pw ph r ds vs m) = dm_rect m" "dm_primary (set_attributes pw ph r ds vs m) = dm_primary m"
  by (simp_all add: set_attributes_def Let_def)

















section \<open>Every way to make a layout\<close>


































section \<open>Placing screens\<close>





















section \<open>Properties\<close>




end
