(* ===== verification/Spec2Isabelle.thy ===== *)
theory Spec2Isabelle
  imports Connection_Handshake Dvc_Server Svc Frame_Scheduler Zgfx_Roundtrip Graphics_Flush
    Planar_Roundtrip Display_Geometry
begin

text \<open>
  \<^bold>\<open>farland\<close> is a Remote Desktop server. Bytes of a client arrive on a socket; the libraries under
  \<open>src/src/farland\<close> turn them into events and turn the desktop into bytes. Everything but sockets,
  encryption, the desktop and the media codecs is sequential code over buffers: it is modelled here.

  \<^bold>\<open>The parts and how they interact.\<close> \<open>server/preauth.cpp\<close> answers the X.224 request, switches to
  TLS and runs the NLA handshake. \<open>server/connection.cpp\<close> then takes the connection from the MCS Connect
  Initial to the active state and passes input, pointers, bitmaps and channel data. Both cut the stream into
  PDUs with \<open>proto/framing.cpp\<close> and use the PDU codecs of \<open>proto/\<close>, which rest on the reader and writer
  and the ASN.1 rules of \<open>base/\<close>. Channel data is in chunks (\<open>channels/svc.cpp\<close>); on one static channel
  \<open>server/dynamic_channels.cpp\<close> runs the dynamic channels (\<open>channels/drdynvc.cpp\<close>,
  \<open>channels/dvc_server.cpp\<close>), on one of these the graphics pipeline (\<open>channels/rdpgfx.cpp\<close>,
  \<open>channels/rdpgfx_server.cpp\<close>), whose output \<open>GraphicsPipeline::flush\<close> batches and compresses with
  \<open>codec/zgfx.cpp\<close>. \<open>server/autodetect.cpp\<close> measures the link and \<open>server/frame_scheduler.cpp\<close>
  decides when a frame may be sent. The client's monitors, and where screens are shown on them, are
  \<open>server/display_layout.cpp\<close>; the client asks for other ones with the PDUs of \<open>channels/disp.cpp\<close>.

  \<^bold>\<open>Conventions.\<close> A struct is a record, a variant or enumeration a datatype, an integer of fixed width a
  word of that width (signed fields are the bit patterns they are cast from and to), \<open>std::size_t\<close> is \<open>nat\<close>
  (sizes are bounded by memory), a string or byte span a list of octets, a map an association list. An operation
  takes and returns the state. \<open>Result<T>\<close> is \<open>error + 'a\<close>; a failed assertion, an index out of range or a
  loop that does not end is \<open>None\<close>, so that a theorem with \<open>Some\<close> says that none of these happens. Log
  lines and reserved capacities have no counterpart. Code outside the sources is a parameter: the NLA acceptor
  with its factory (\<open>PreAuth\<close>), the decompressor factory of a DVC configuration (\<open>Dvc_Server\<close>), the byte
  order of the machine (\<open>Zgfx_Compress\<close>), the caller's choice of a desktop size (\<open>Connection\<close>).

  \<^bold>\<open>Shared theories.\<close> \<open>Prelude\<close> has the integer types, the errors of \<open>base/error.hpp\<close>, byte
  orders and the collections of rewrite rules. \<open>Reader_Writer\<close> models \<open>base/reader.hpp\<close> and
  \<open>base/writer.hpp\<close> and has the locales \<open>codec\<close> and \<open>pdu_codec\<close>, the contract of an encoder and
  its decoder, interpreted for every PDU below, and \<open>rd_safe\<close>, staying inside the input, with its rules.
  \<open>Parser_Results\<close> has rules for what a successful decoder has checked. \<open>Machine\<close> has the locales
  \<open>machine\<close> (what every call keeps, every sequence of calls keeps; with a variant that refines an abstract
  specification) and \<open>reassembler\<close> (fragments of messages come out as the messages). \<open>Stateful_Codec\<close>
  is the contract of a compressor and a decompressor with histories. \<open>Actions\<close> has what the codecs use of
  arrays and spans, and errors and assertions over a state.

  \<^bold>\<open>Theories of components\<close>, with what their lemmas show:
  \<^item> \<open>Per\<close>, \<open>Ber\<close> (\<open>base/per.cpp\<close>, \<open>base/ber.cpp\<close>) and \<open>Text\<close> (\<open>base/text.cpp\<close>):
    every pair of functions is a \<open>codec\<close>; text converts to the other encoding and back and is always
    well formed.
  \<^item> \<open>Framing\<close>, \<open>X224\<close>, \<open>Mcs\<close>, \<open>Gcc\<close>, \<open>License\<close>, \<open>Client_Info\<close>,
    \<open>Capabilities\<close>, \<open>Share\<close>, \<open>Input\<close>, \<open>Fastpath\<close>, \<open>Pointer\<close>, \<open>Save_Session\<close>,
    \<open>Autodetect_Pdu\<close> (the files of the same name under \<open>proto/\<close>; \<open>License\<close> also
    \<open>proto/security.cpp\<close>): framing does not depend on how the stream arrives, PDUs decode to themselves,
    decoders stay inside their input, fast-path fragments reassemble, decoded data keeps its bounds.
  \<^item> \<open>PreAuth\<close> (\<open>server/preauth.cpp\<close>): no way around NLA when it is required, the selected protocol
    was requested and is supported, every call returns, a failure is final.
  \<^item> \<open>Connection\<close>, \<open>Connection_Safety\<close>, \<open>Connection_Handshake\<close> (\<open>server/connection.cpp\<close>):
    the model; robustness against every input, the invariant of the session and the refinement of an abstract
    protocol given as an inductive step relation on phases and events; and that a well-behaved client gets to the
    active state.
  \<^item> \<open>Autodetect\<close>, \<open>Frame_Scheduler\<close> (\<open>server/\<close>): estimates, windows and waiting times.
  \<^item> \<open>Svc\<close>, \<open>Drdynvc\<close>, \<open>Dvc_Server\<close> (\<open>channels/\<close>), \<open>Dynamic_Channels\<close>
    (\<open>server/dynamic_channels.cpp\<close>): chunks and data PDUs reassemble; the channel server keeps its invariant
    under every call, returns on every message, allocates fresh identifiers and delivers messages in order; the
    static channel carries whole messages.
  \<^item> \<open>Bit_Stream\<close>, \<open>Zgfx_Code\<close>, \<open>Zgfx_Decompress\<close>, \<open>Zgfx_Tokens\<close>, \<open>Zgfx_Compress\<close>,
    \<open>Zgfx_Roundtrip\<close> (\<open>codec/zgfx.cpp\<close>): bit streams against lists of bits, the prefix code, both
    directions of the compression with their memory bounds, and that they are inverse over whole sessions.
  \<^item> \<open>Planar\<close>, \<open>Planar_Roundtrip\<close> (\<open>codec/planar.cpp\<close>): the planar bitmap codec, whose
    decoder gives back the colours the encoder was given and never leaves its buffers.
  \<^item> \<open>Rdpgfx_Pdu\<close>, \<open>Rdpgfx_Server\<close> (\<open>channels/\<close>): graphics PDUs, negotiation, surfaces, frames
    and the bitmap cache with its invariant.
  \<^item> \<open>Disp\<close>, \<open>Display_Layout\<close>, \<open>Display_Geometry\<close> (\<open>channels/disp.cpp\<close>,
    \<open>server/display_layout.cpp\<close>): the PDUs of display control, the operations on layouts, and the geometry: which
    layouts are accepted and what they become, and that placed pictures and fills tile the monitors.
  \<^item> \<open>Graphics_Flush\<close> (\<open>GraphicsPipeline::flush\<close>): the composition of compression, graphics and dynamic channels; what is
    queued for the client arrives there.

  \<^bold>\<open>Bounds and fuel.\<close> Loops are structural recursion or have a measure. Two searches have a bound instead:
  \<open>allocate_id_loop\<close> is given one round more than there are channels, which is enough because one of that
  many identifiers is free (\<open>allocate_id_fresh\<close>), and \<open>free_slot\<close> is a partial function that is shown to
  return whenever the code calls it. Times are integers that count nanoseconds; stream positions of the
  compressor are natural numbers (64-bit counters that do not overflow within the life of a machine).

  \<^bold>\<open>Not modelled.\<close> The other image and video codecs, encoder bindings and the part of the graphics pipeline that
  drives them (damage tracking, tiles, rate control); audio, clipboard, touch and camera channels, and the
  debouncing and announcing state of the display control channel;
  NTLM, Kerberos, SPNEGO, CredSSP and TLS, which rest on OpenSSL and GSSAPI; the desktop back ends (Wayland,
  PipeWire, D-Bus); logging; the broker, the applications and their event loops, which are processes and I/O
  around the state machines above.
\<close>

section \<open>Properties that span components\<close>

text \<open>
  C34: Every PDU of the connection sequence survives the wire: X.224 Connection Request and Confirm, MCS
  Connect-Initial and Connect-Response and the domain PDUs, the GCC conference wrappers with the client and server
  data blocks, and the Client Info PDU are encoded without an assertion failing and decode to what was encoded;
  the self-delimiting ones do so in front of arbitrary further bytes and leave the reader at their end.
\<close>

theorem connect_pdus_roundtrip:
  assumes "cr_ok req" "connect_initial_ok ci" "connect_response_ok cr" "domain_pdu_ok pdu"
    and "client_data_ok c" "server_data_ok s" "user_data_ok u" "client_info_ok info"
  shows "(\<exists>bs. encode_connection_request req w = Some (w @ bs) \<and>
      read_connection_request (mk_reader (bs @ ys) b) = (Inr req, rd_advance (length bs) (mk_reader (bs @ ys) b))) \<and>
    (\<exists>bs. encode_connection_confirm confirm w = Some (w @ bs) \<and>
      read_connection_confirm (mk_reader (bs @ ys) b) = (Inr confirm, rd_advance (length bs) (mk_reader (bs @ ys) b))) \<and>
    (\<exists>bs. encode_connect_initial ci w = Some (w @ bs) \<and>
      decode_connect_initial (mk_reader (bs @ ys) b) = (Inr ci, rd_advance (length bs) (mk_reader (bs @ ys) b))) \<and>
    (\<exists>bs. encode_connect_response cr w = Some (w @ bs) \<and>
      decode_connect_response (mk_reader (bs @ ys) b) = (Inr cr, rd_advance (length bs) (mk_reader (bs @ ys) b))) \<and>
    (\<exists>bs. encode_domain_pdu pdu w = Some (w @ bs) \<and> fst (decode_domain_pdu (mk_reader bs b)) = Inr pdu) \<and>
    (\<exists>bs. encode_client_data c w = Some (w @ bs) \<and> fst (decode_client_data (mk_reader bs b)) = Inr c) \<and>
    (\<exists>bs. encode_server_data s w = Some (w @ bs) \<and> fst (decode_server_data (mk_reader bs b)) = Inr s) \<and>
    (\<exists>bs. encode_conference_create_request u w = Some (w @ bs) \<and>
      decode_conference_create_request (mk_reader (bs @ ys) b) = (Inr u, rd_advance (length bs) (mk_reader (bs @ ys) b))) \<and>
    (\<exists>bs. encode_conference_create_response u w = Some (w @ bs) \<and>
      decode_conference_create_response (mk_reader (bs @ ys) b) = (Inr u, rd_advance (length bs) (mk_reader (bs @ ys) b))) \<and>
    (\<exists>bs. encode_client_info info w = Some (w @ bs) \<and> fst (decode_client_info (mk_reader bs b)) = Inr info)"
  using x224_connection_roundtrip [OF assms(1), of w ys b confirm] mcs_connect_roundtrip [OF assms(2,3), of w ys b]
    mcs_domain_roundtrip [OF assms(4), of w b] gcc_roundtrip [OF assms(5-7), of w b ys] client_info_roundtrip [OF assms(8), of w b]
  by blast

definition plain_client_info :: client_info where
  "plain_client_info = \<lparr>ci_code_page = 0, ci_flags = info_unicode, ci_domain = [], ci_user_name = [], ci_password = [],
     ci_alternate_shell = [], ci_working_dir = [], ci_extended = None\<rparr>"

theorem connect_pdus_roundtrip_witness:
  "(\<exists>bs. encode_connect_initial mcs_demo_initial [] = Some ([] @ bs) \<and>
      decode_connect_initial (mk_reader (bs @ [9]) 0) = (Inr mcs_demo_initial, rd_advance (length bs) (mk_reader (bs @ [9]) 0))) \<and>
   (\<exists>bs. encode_client_info plain_client_info [] = Some ([] @ bs) \<and>
      fst (decode_client_info (mk_reader bs 0)) = Inr plain_client_info)"
proof -
  have "cr_ok x224_demo" "domain_pdu_ok (SendDataRequest 1004 1003 [1, 2, 3])" by code_simp+
  moreover have "connect_initial_ok mcs_demo_initial" "connect_response_ok mcs_demo_response"
    by (simp_all add: connect_initial_ok_def connect_response_ok_def mcs_demo_initial_def mcs_demo_response_def
        mcs_result_alternatives_def)
  moreover have "client_data_ok no_client_data"
    by (simp add: client_data_ok_def no_client_data_def default_core_def core_ok_def text_ok_def utf8_to_utf16le_def
        client_name_size_def core_ime_file_name_size_def)
  moreover have "server_data_ok no_server_data" by (simp add: server_data_ok_def no_server_data_def)
  moreover have "user_data_ok []" by (simp add: user_data_ok_def per_max_length_def)
  moreover have "client_info_ok plain_client_info"
    by (simp add: plain_client_info_def client_info_ok_def string_ok_def utf8_to_utf16le_def max_info_string_size_def)
  ultimately show ?thesis
    using connect_pdus_roundtrip [of x224_demo mcs_demo_initial mcs_demo_response "SendDataRequest 1004 1003 [1, 2, 3]"
        no_client_data no_server_data "[]" plain_client_info "[]" "[9]" 0] by blast
qed

text \<open>
  C35: What a session is made of survives the wire. Slow-path input decodes to the events sent, without QoE
  timestamps, which have no form there; a fast-path batch decodes to itself; a share data PDU keeps its share,
  source, kind and contents through its two headers; Demand Active, Confirm Active and Deactivate All are read
  back with their descriptor and every capability set.
\<close>

theorem session_pdus_roundtrip:
  assumes "length (filter (\<lambda>e. \<not> is_qoe e) es) \<le> max_slow_path_input_events" "fp_input_ok fs"
    and "payload_ok pdu" "length (payload_enc pdu) + 18 \<le> 0x7FFF"
    and "exchange_ok (da_source_descriptor d) (da_capabilities d)" "exchange_ok (ca_source_descriptor c) (ca_capabilities c)"
  shows "(\<exists>bs. encode_slow_path_input es w = Some (w @ bs) \<and>
      decode_slow_path_input (mk_reader (bs @ ys) b) =
        (Inr (filter (\<lambda>e. \<not> is_qoe e) es), rd_advance (length bs) (mk_reader (bs @ ys) b))) \<and>
    (\<exists>bs. encode_fastpath_input fs w = Some (w @ bs) \<and> fst (decode_fastpath_input (mk_reader bs b)) = Inr fs) \<and>
    (\<exists>payload bs sc sd. encode_payload pdu [] = Some payload \<and>
      write_data_pdu share source (type2_of pdu) payload w = Some (w @ bs) \<and>
      fst (read_share_control (mk_reader bs b)) = Inr sc \<and> sc_type sc = pdu_type_data \<and> sc_source sc = source \<and>
      fst (read_share_data (sc_body sc)) = Inr sd \<and> sd_share_id sd = share \<and> fst (decode_data_pdu sd) = Inr pdu) \<and>
    (\<exists>bs. encode_demand_active source d w = Some (w @ bs) \<and>
      fst (in_share_control pdu_type_demand_active source decode_demand_active (mk_reader bs b)) = Inr d) \<and>
    (\<exists>bs. encode_confirm_active source c w = Some (w @ bs) \<and>
      fst (in_share_control pdu_type_confirm_active source decode_confirm_active (mk_reader bs b)) = Inr c) \<and>
    (\<exists>bs. encode_deactivate_all source e w = Some (w @ bs) \<and>
      fst (in_share_control pdu_type_deactivate_all source decode_deactivate_all (mk_reader bs b)) = Inr e)"
  using input_roundtrip [OF assms(1,2), of w ys b] data_pdu_roundtrip [OF assms(3,4), of share source w b]
    capability_exchange_roundtrip [OF assms(5,6), of source w b e]
  by blast

theorem session_pdus_roundtrip_witness:
  "(\<exists>bs. encode_slow_path_input [KeyboardEvent kbd_release 30, QoeTimestampEvent 7, MouseEvent 0x800 3 4] [] = Some ([] @ bs) \<and>
     decode_slow_path_input (mk_reader (bs @ [9]) 0) =
       (Inr [KeyboardEvent kbd_release 30, MouseEvent 0x800 3 4], rd_advance (length bs) (mk_reader (bs @ [9]) 0))) \<and>
   (\<exists>bs. encode_fastpath_input [KeyboardEvent kbd_release 30, SyncEvent 5] [] = Some ([] @ bs) \<and>
     fst (decode_fastpath_input (mk_reader bs 0)) = Inr [KeyboardEvent kbd_release 30, SyncEvent 5])"
proof -
  let ?es = "[KeyboardEvent kbd_release 30, QoeTimestampEvent 7, MouseEvent 0x800 3 4]"
    and ?fs = "[KeyboardEvent kbd_release 30, SyncEvent 5]"
  let ?s = "no_capability_sets\<lparr>cs_share := Some \<lparr>node_id = 1002\<rparr>\<rparr>"
  let ?c = "\<lparr>ca_share_id = 0x103EA, ca_originator_id = 0x03EA, ca_source_descriptor = [0x4D, 0x53], ca_capabilities = ?s\<rparr>"
  let ?d = "\<lparr>da_share_id = 0x103EA, da_source_descriptor = [0x52], da_capabilities = ?s, da_session_id = 0\<rparr>"
  have "length (filter (\<lambda>e. \<not> is_qoe e) ?es) \<le> max_slow_path_input_events"
    by (simp add: max_slow_path_input_events_def)
  moreover have "fp_input_ok ?fs"
    by (simp add: fp_input_ok_def fp_event_ok_def kbd_known_def kbd_release_def kbd_extended_def kbd_extended1_def)
  moreover have "payload_ok (Control 4 0 0)" "length (payload_enc (Control 4 0 0)) + 18 \<le> 0x7FFF"
    by (simp_all add: payload_ok_def)
  moreover have "exchange_ok d ?s" if "0 \<notin> set d" "length d < 64" for d
    using that by (simp add: exchange_ok_def caps_ok_def no_capability_sets_def caps_enc_def caps_items_def slot_items_def
        set_enc_def max_source_descriptor_def wr_simps)
  then have "exchange_ok (da_source_descriptor ?d) (da_capabilities ?d)" "exchange_ok (ca_source_descriptor ?c) (ca_capabilities ?c)"
    by simp_all
  ultimately show ?thesis
    using session_pdus_roundtrip [of ?es ?fs "Control 4 0 0" ?d ?c "[]" "[9]" 0] by simp
qed

end
